(* ===== verification/Prelude.thy ===== *)
theory Prelude
  imports Main "HOL-Library.Word" "HOL-Library.AList" "HOL-Library.Sublist"
    "HOL-Library.List_Lexorder" "HOL-Library.Char_ord"
begin

text \<open>
  What every component shares: the types of the model (bytes, identifiers), the pieces of the
  JavaScript library the sources use on strings (\<open>startsWith\<close>, \<open>padStart\<close>, \<open>split\<close>,
  \<open>join\<close>) and on insertion-ordered maps and sets, and the interface locales of keyed stores.
  A JavaScript \<open>Map\<close> iterates in insertion order, and overwriting a key keeps its place; that
  is \<open>AList.update\<close> of the library.  A \<open>Set\<close> is a list without duplicates to which
  \<open>js_add\<close> appends.
\<close>

section \<open>Types and collections of rules\<close>

type_synonym byte = "8 word"
type_synonym bytes = "byte list"

named_theorems model_defs \<open>definitions that the component proofs unfold together\<close>
named_theorems js_map_simps \<open>lookup laws of the insertion-ordered maps\<close>

section \<open>Strings\<close>

definition LF :: char where "LF = CHR 0x0A"
definition CR :: char where "CR = CHR 0x0D"

definition startsWith :: "string \<Rightarrow> string \<Rightarrow> bool" where
  "startsWith s p = (take (length p) s = p)"

definition padStart :: "nat \<Rightarrow> char \<Rightarrow> string \<Rightarrow> string" where
  "padStart n c s = replicate (n - length s) c @ s"

text \<open>\<open>s.split(c)\<close> for a one-character separator: always at least one part.\<close>

fun splitOn :: "'a \<Rightarrow> 'a list \<Rightarrow> 'a list list" where
  "splitOn c [] = [[]]"
| "splitOn c (x # xs) =
     (if x = c then [] # splitOn c xs
      else (case splitOn c xs of [] \<Rightarrow> [[x]] | p # ps \<Rightarrow> (x # p) # ps))"

text \<open>\<open>parts.join(sep)\<close>.\<close>

fun joinWith :: "'a list \<Rightarrow> 'a list list \<Rightarrow> 'a list" where
  "joinWith sep [] = []"
| "joinWith sep [p] = p"
| "joinWith sep (p # q # ps) = p @ sep @ joinWith sep (q # ps)"

lemma splitOn_not_Nil [simp]: "splitOn c xs \<noteq> []"
  by (induction xs) (auto split: list.splits)

lemma joinWith_Cons_not_Nil: "ps \<noteq> [] \<Longrightarrow> joinWith sep (p # ps) = p @ sep @ joinWith sep ps"
  by (cases ps) auto

lemma join_split [simp]: "joinWith [c] (splitOn c xs) = xs"
proof (induction xs)
  case (Cons x xs)
  show ?case
  proof (cases "x = c")
    case True
    with Cons show ?thesis by (simp add: joinWith_Cons_not_Nil)
  next
    case False
    obtain p ps where pp: "splitOn c xs = p # ps"
      by (cases "splitOn c xs") auto
    with False Cons show ?thesis by (cases ps) auto
  qed
qed simp

lemma splitOn_free: "c \<notin> set xs \<Longrightarrow> splitOn c xs = [xs]"
  by (induction xs) auto

lemma splitOn_append: "c \<notin> set xs \<Longrightarrow> splitOn c (xs @ c # ys) = xs # splitOn c ys"
  by (induction xs) auto

lemma split_join:
  assumes "ps \<noteq> []" and "\<forall>p \<in> set ps. c \<notin> set p"
  shows "splitOn c (joinWith [c] ps) = ps"
  using assms
proof (induction "[c]" ps rule: joinWith.induct)
  case (3 p q ps)
  then show ?case using splitOn_append [of c p "joinWith [c] (q # ps)"] by simp
qed (auto simp: splitOn_free)

lemma splitOn_parts_free: "p \<in> set (splitOn c xs) \<Longrightarrow> c \<notin> set p"
proof (induction xs arbitrary: p)
  case (Cons x xs)
  then show ?case by (cases "splitOn c xs") (auto split: if_splits)
qed simp

lemma splitOn_chars: "p \<in> set (splitOn c xs) \<Longrightarrow> set p \<subseteq> set xs"
proof (induction xs arbitrary: p)
  case (Cons x xs)
  then show ?case by (cases "splitOn c xs") (fastforce split: if_splits)+
qed simp

lemma joinWith_append:
  "ps \<noteq> [] \<Longrightarrow> qs \<noteq> [] \<Longrightarrow> joinWith sep (ps @ qs) = joinWith sep ps @ sep @ joinWith sep qs"
  by (induction sep ps rule: joinWith.induct) (auto simp: joinWith_Cons_not_Nil)

lemma length_padStart: "length (padStart n c s) = max n (length s)"
  by (simp add: padStart_def)

section \<open>Insertion-ordered maps and sets\<close>

type_synonym ('k, 'v) jsmap = "('k \<times> 'v) list"

abbreviation jm_get :: "('k, 'v) jsmap \<Rightarrow> 'k \<Rightarrow> 'v option" where
  "jm_get m k \<equiv> map_of m k"

abbreviation jm_set :: "'k \<Rightarrow> 'v \<Rightarrow> ('k, 'v) jsmap \<Rightarrow> ('k, 'v) jsmap" where
  "jm_set k v m \<equiv> AList.update k v m"

abbreviation jm_delete :: "'k \<Rightarrow> ('k, 'v) jsmap \<Rightarrow> ('k, 'v) jsmap" where
  "jm_delete k m \<equiv> AList.delete k m"

definition jm_has :: "('k, 'v) jsmap \<Rightarrow> 'k \<Rightarrow> bool" where
  "jm_has m k = (map_of m k \<noteq> None)"

definition jm_keys :: "('k, 'v) jsmap \<Rightarrow> 'k list" where
  "jm_keys m = map fst m"

definition jm_values :: "('k, 'v) jsmap \<Rightarrow> 'v list" where
  "jm_values m = map snd m"

text \<open>A \<open>Map\<close> holds each key once; every operation keeps that.\<close>

definition jm_wf :: "('k, 'v) jsmap \<Rightarrow> bool" where
  "jm_wf m = distinct (map fst m)"

text \<open>\<open>new Map(pairs)\<close>.\<close>

definition jm_of_list :: "('k \<times> 'v) list \<Rightarrow> ('k, 'v) jsmap" where
  "jm_of_list ps = fold (\<lambda>(k, v) m. jm_set k v m) ps []"

definition js_add :: "'a \<Rightarrow> 'a list \<Rightarrow> 'a list" where
  "js_add x xs = (if x \<in> set xs then xs else xs @ [x])"

definition js_set_of :: "'a list \<Rightarrow> 'a list" where
  "js_set_of xs = fold js_add xs []"

lemma jm_get_set [simp, js_map_simps]:
  "jm_get (jm_set k v m) j = (if j = k then Some v else jm_get m j)"
  by (simp add: update_conv')

lemma jm_get_delete [simp, js_map_simps]:
  "jm_get (jm_delete k m) j = (if j = k then None else jm_get m j)"
  by (simp add: delete_conv')

lemma jm_has_iff: "jm_has m k \<longleftrightarrow> k \<in> set (jm_keys m)"
  by (simp add: jm_has_def jm_keys_def map_of_eq_None_iff)

lemma jm_wf_Nil [simp]: "jm_wf []"
  by (simp add: jm_wf_def)

lemma jm_wf_set [simp]: "jm_wf m \<Longrightarrow> jm_wf (jm_set k v m)"
  by (simp add: jm_wf_def distinct_update)

lemma jm_wf_delete [simp]: "jm_wf m \<Longrightarrow> jm_wf (jm_delete k m)"
  by (simp add: jm_wf_def distinct_delete)

lemma jm_wf_filter [simp]: "jm_wf m \<Longrightarrow> jm_wf (filter P m)"
  by (simp add: jm_wf_def distinct_map_filter)

lemma jm_wf_get: "jm_wf m \<Longrightarrow> (k, v) \<in> set m \<longleftrightarrow> jm_get m k = Some v"
  by (simp add: jm_wf_def)

lemma jm_get_filter:
  "jm_wf m \<Longrightarrow> jm_get (filter (\<lambda>(k, v). P k v) m) k =
     (case jm_get m k of None \<Rightarrow> None | Some v \<Rightarrow> if P k v then Some v else None)"
  by (induction m) (auto simp: jm_wf_def map_of_eq_None_iff split: option.splits)

lemma keys_set: "set (map fst (jm_set k v m)) = insert k (set (map fst m))"
  by (induction m) auto

lemma map_fst_set:
  "map fst (jm_set k v m) = (if k \<in> set (map fst m) then map fst m else map fst m @ [k])"
  by (induction m) auto

lemma jm_values_set_subset: "set (map snd (jm_set k v m)) \<subseteq> insert v (set (map snd m))"
  by (induction m) auto

lemma set_js_add [simp]: "set (js_add x xs) = insert x (set xs)"
  by (auto simp: js_add_def)

lemma distinct_js_add [simp]: "distinct xs \<Longrightarrow> distinct (js_add x xs)"
  by (simp add: js_add_def)

lemma set_fold_js_add [simp]: "set (fold js_add xs ys) = set xs \<union> set ys"
  by (induction xs arbitrary: ys) auto

lemma distinct_fold_js_add [simp]: "distinct ys \<Longrightarrow> distinct (fold js_add xs ys)"
  by (induction xs arbitrary: ys) auto

lemma set_js_set_of [simp]: "set (js_set_of xs) = set xs"
  by (simp add: js_set_of_def)

lemma distinct_js_set_of [simp]: "distinct (js_set_of xs)"
  by (simp add: js_set_of_def)

lemma fold_js_add_distinct:
  "distinct (ys @ xs) \<Longrightarrow> fold js_add xs ys = ys @ xs"
  by (induction xs arbitrary: ys) (auto simp: js_add_def)

lemma js_set_of_distinct: "distinct xs \<Longrightarrow> js_set_of xs = xs"
  using fold_js_add_distinct [of "[]" xs] by (simp add: js_set_of_def)

lemma map_of_fold_set:
  "map_of (fold (\<lambda>(k, v) m. jm_set k v m) ps m) = map_of m ++ map_of (rev ps)"
  by (induction ps arbitrary: m) (auto simp: update_conv map_add_def fun_eq_iff split: option.splits)

lemma fold_set_append:
  "distinct (map fst (m @ ps)) \<Longrightarrow> fold (\<lambda>(k, v) m. jm_set k v m) ps m = m @ ps"
proof (induction ps arbitrary: m)
  case (Cons p ps)
  obtain k v where p: "p = (k, v)" by (cases p)
  have "jm_set k v m = m @ [(k, v)]"
    using Cons.prems p by (induction m) auto
  with Cons p show ?case by simp
qed simp

lemma jm_of_list_id: "jm_wf ps \<Longrightarrow> jm_of_list ps = ps"
  using fold_set_append [of "[]" ps] by (simp add: jm_of_list_def jm_wf_def)

section \<open>Keyed stores and their journals\<close>

text \<open>
  The interface of a keyed store, with the laws its clients use, and the replay of a journal of
  last-write-wins records over it.  The file registry and the pack index of the content store
  persist themselves this way; both get their crash-safety lemmas from here.
\<close>

datatype ('k, 'v) journal_rec = Put 'k 'v | Del 'k

locale keyed_store =
  fixes get :: "'s \<Rightarrow> 'k \<Rightarrow> 'v option"
    and put :: "'k \<Rightarrow> 'v \<Rightarrow> 's \<Rightarrow> 's"
    and del :: "'k \<Rightarrow> 's \<Rightarrow> 's"
  assumes get_put: "get (put k v s) j = (if j = k then Some v else get s j)"
    and get_del: "get (del k s) j = (if j = k then None else get s j)"
begin

fun apply_rec :: "('k, 'v) journal_rec \<Rightarrow> 's \<Rightarrow> 's" where
  "apply_rec (Put k v) s = put k v s"
| "apply_rec (Del k) s = del k s"

fun last_rec :: "('k, 'v) journal_rec list \<Rightarrow> 'k \<Rightarrow> 'v option option" where
  "last_rec [] j = None"
| "last_rec (r # rs) j =
     (case last_rec rs j of
        Some x \<Rightarrow> Some x
      | None \<Rightarrow> (case r of Put k v \<Rightarrow> if j = k then Some (Some v) else None
                           | Del k \<Rightarrow> if j = k then Some None else None))"

lemma get_replay:
  "get (fold apply_rec rs s) j = (case last_rec rs j of Some x \<Rightarrow> x | None \<Rightarrow> get s j)"
proof (induction rs arbitrary: s)
  case (Cons r rs)
  then show ?case by (cases r) (auto simp: get_put get_del split: option.splits)
qed simp

lemma replay_idem:
  "get (fold apply_rec rs (fold apply_rec rs s)) j = get (fold apply_rec rs s) j"
  by (simp add: get_replay split: option.splits)

lemma replay_cong:
  assumes "\<And>k. get s k = get t k"
  shows "get (fold apply_rec rs s) j = get (fold apply_rec rs t) j"
  using assms by (simp add: get_replay split: option.splits)

lemma replay_current:
  assumes "\<And>r. r \<in> set rs \<Longrightarrow> (case r of Put k v \<Rightarrow> get s k = Some v | Del k \<Rightarrow> get s k = None)"
  shows "get (fold apply_rec rs s) j = get s j"
  using assms
proof (induction rs arbitrary: s)
  case (Cons r rs)
  have eq: "get (apply_rec r s) k = get s k" for k
    using Cons.prems [of r] by (cases r) (auto simp: get_put get_del)
  have "case r' of Put k v \<Rightarrow> get s k = Some v | Del k \<Rightarrow> get s k = None" if "r' \<in> set rs" for r'
    using Cons.prems [of r'] that by simp
  then have "get (fold apply_rec rs (apply_rec r s)) j = get (apply_rec r s) j"
    by (intro Cons.IH) (simp add: eq cong: journal_rec.case_cong)
  then show ?case by (simp add: eq)
qed simp

end

interpretation jm: keyed_store "map_of" "AList.update" "AList.delete"
  by unfold_locales (simp_all add: update_conv' delete_conv')

section \<open>Results\<close>

text \<open>A fallible step returns \<open>Inl\<close> of its error; \<open>foldE\<close> stops at the first one, as a throw does.\<close>

fun foldE :: "('a \<Rightarrow> 's \<Rightarrow> 'e + 's) \<Rightarrow> 'a list \<Rightarrow> 's \<Rightarrow> 'e + 's" where
  "foldE f [] s = Inr s"
| "foldE f (x # xs) s = (case f x s of Inl e \<Rightarrow> Inl e | Inr s' \<Rightarrow> foldE f xs s')"

lemma foldE_append:
  "foldE f (xs @ ys) s = (case foldE f xs s of Inl e \<Rightarrow> Inl e | Inr s' \<Rightarrow> foldE f ys s')"
  by (induction xs arbitrary: s) (auto split: sum.splits)

lemma foldE_invariant:
  assumes "foldE f xs s = Inr t" and "I s"
    and "\<And>x s s'. x \<in> set xs \<Longrightarrow> I s \<Longrightarrow> f x s = Inr s' \<Longrightarrow> I s'"
  shows "I t"
  using assms
proof (induction xs arbitrary: s)
  case (Cons x xs)
  then obtain s' where s': "f x s = Inr s'" "foldE f xs s' = Inr t"
    by (auto split: sum.splits)
  have "I s'" using Cons.prems(2,3) s'(1) by auto
  with Cons.IH [OF s'(2)] Cons.prems(3) show ?case by auto
qed simp

end
