(* ===== verification/Types.thy ===== *)
theory Types
  imports Prelude
begin

text \<open>
  The shared data model, from \<open>src/types.ts\<close>: clocks, registry entries, operations, vault
  snapshots, conflicts, merge actions and settings.  Field names carry a short prefix of their
  type.  A field that the source declares \<open>x?: T | null\<close> is \<open>T option\<close>, with \<open>None\<close> for both
  \<open>null\<close> and absent, which the source never tells apart; a JavaScript truth test on such a
  string is \<open>truthy\<close>, false also for the empty string.
\<close>

section \<open>Hybrid logical timestamps\<close>

datatype HLC = HLC (wallTime: nat) (counter: nat) (deviceId: string)

section \<open>Registry entries and operations\<close>

record FileEntry =
  fe_id :: string
  fe_path :: string
  fe_contentHash :: string
  fe_hlc :: HLC
  fe_deleted :: bool
  fe_lastSyncedPath :: "string option"
  fe_headVersionId :: "string option"
  fe_conflictParents :: "string list option"
  fe_mtime :: "nat option"
  fe_size :: "nat option"

datatype OperationType = OpCreate | OpUpdate | OpDelete | OpMove

definition OP_FORMAT_VERSION :: nat where
  "OP_FORMAT_VERSION = 1"

record Operation =
  op_v :: nat
  op_id :: string
  op_hlc :: HLC
  op_fileId :: string
  op_type :: OperationType
  op_path :: string
  op_contentHash :: string
  op_parents :: "string list"

record VaultState =
  vs_deviceId :: string
  vs_hlc :: HLC
  vs_fileEntries :: "(string, FileEntry) jsmap"
  vs_pendingOps :: "Operation list"
  vs_contentStore :: "(string, bytes) jsmap"

definition truthy :: "string option \<Rightarrow> bool" where
  "truthy x = (case x of None \<Rightarrow> False | Some s \<Rightarrow> s \<noteq> [])"

lemma truthy_simps [simp]: "\<not> truthy None" "truthy (Some s) \<longleftrightarrow> s \<noteq> []"
  by (simp_all add: truthy_def)

lemma truthyE: "truthy x \<Longrightarrow> (\<And>s. x = Some s \<Longrightarrow> s \<noteq> [] \<Longrightarrow> P) \<Longrightarrow> P"
  by (cases x) auto

section \<open>Three-way merge results\<close>

record ConflictChunk =
  cc_startLine :: nat
  cc_endLine :: int
  cc_ancestor :: "string list"
  cc_local :: "string list"
  cc_remote :: "string list"

datatype ConflictResolution = KeepLocal | KeepRemote | KeepBoth | Custom "string list"

record ThreeWayMergeResult =
  tw_merged :: "string list"
  tw_conflicts :: "ConflictChunk list"
  tw_hasConflicts :: bool

section \<open>Merge actions\<close>

datatype DeleteSide = LocalDeleted | RemoteDeleted

datatype MergeAction =
    WriteLocal (ma_fileId: string) (ma_path: string) (ma_content: bytes) (ma_hlc: HLC)
      (ma_head: "string option")
  | WriteMerge (ma_fileId: string) (ma_path: string) (ma_content: bytes) (ma_heads: "string list")
  | SendRemote (ma_fileId: string) (ma_path: string) (ma_hlc: HLC)
  | DeleteLocal (ma_fileId: string) (ma_path: string)
  | DeleteRemote (ma_fileId: string) (ma_path: string)
  | MoveLocal (ma_fileId: string) (ma_from: string) (ma_to: string)
  | Conflict (ma_fileId: string) (ma_localPath: string) (ma_remotePath: string)
      (ma_result: ThreeWayMergeResult) (ma_localText: string) (ma_remoteText: string)
      (ma_parents: "string list option")
  | DeleteConflict (ma_fileId: string) (ma_path: string) (ma_side: DeleteSide)
      (ma_content: bytes) (ma_parents: "string list option")
  | BinaryConflict (ma_fileId: string) (ma_localPath: string) (ma_remotePath: string)
      (ma_localBytes: bytes) (ma_remoteBytes: bytes) (ma_localHlc: HLC) (ma_remoteHlc: HLC)
      (ma_parents: "string list option")
  | NoOp (ma_fileId: string)

fun affectsLocalVault :: "MergeAction \<Rightarrow> bool" where
  "affectsLocalVault (WriteLocal _ _ _ _ _) = True"
| "affectsLocalVault (WriteMerge _ _ _ _) = True"
| "affectsLocalVault (DeleteLocal _ _) = True"
| "affectsLocalVault (MoveLocal _ _ _) = True"
| "affectsLocalVault (Conflict _ _ _ _ _ _ _) = True"
| "affectsLocalVault (DeleteConflict _ _ _ _ _) = True"
| "affectsLocalVault (BinaryConflict _ _ _ _ _ _ _ _) = True"
| "affectsLocalVault (SendRemote _ _ _) = False"
| "affectsLocalVault (DeleteRemote _ _) = False"
| "affectsLocalVault (NoOp _) = False"

record StateMergeResult =
  sm_actions :: "MergeAction list"
  sm_mergedHlc :: HLC

section \<open>Settings\<close>

datatype DeleteStrategy = Ask | KeepDeleted | KeepModified

record SyncSettings =
  st_deviceId :: string
  st_deviceName :: string
  st_serverUrl :: string
  st_vaultId :: string
  st_serverToken :: string
  st_vaultPassphrase :: string
  st_autoSyncIntervalMinutes :: nat
  st_lastSyncTime :: "nat option"
  st_debounceMs :: nat
  st_excludedPatterns :: "string list"
  st_deleteConflictStrategy :: DeleteStrategy
  st_syncObsidianConfig :: bool
  st_ancestorRetentionDays :: "nat option"
  st_maxFileSizeMb :: nat
  st_perfLog :: bool

text \<open>
  \<open>ancestorRetentionDays\<close> comes from user-editable JSON; \<open>None\<close> is a value that is not a finite
  number.
\<close>

definition DEFAULT_SETTINGS :: SyncSettings where
  "DEFAULT_SETTINGS = \<lparr>
     st_deviceId = '''', st_deviceName = '''', st_serverUrl = '''', st_vaultId = '''',
     st_serverToken = '''', st_vaultPassphrase = '''',
     st_autoSyncIntervalMinutes = 0, st_lastSyncTime = None, st_debounceMs = 1500,
     st_excludedPatterns = [''.obsidian/workspace.json'', ''.obsidian/workspace-mobile.json'',
       ''.obsidian/cache'', ''.opsblobs/**'', ''.git'', ''.git/**''],
     st_deleteConflictStrategy = Ask, st_syncObsidianConfig = False,
     st_ancestorRetentionDays = Some 30, st_maxFileSizeMb = 100, st_perfLog = False \<rparr>"

end
