(* ===== verification/Hlc.thy ===== *)
theory Hlc
  imports Types
begin

text \<open>
  The hybrid logical clock of \<open>src/core/hlc.ts\<close>.  The clock object holds one timestamp, its
  \<open>current\<close>; \<open>now\<close> and \<open>merge\<close> set it and return it, so each is a function from the wall clock
  reading and the old timestamp to the new one.  Times and counters are JavaScript numbers that
  the code only ever increases from 0: \<open>nat\<close>, exact below \<open>2 ^ 53\<close>.
\<close>

section \<open>The clock\<close>

definition hlc_now :: "nat \<Rightarrow> HLC \<Rightarrow> HLC" where
  "hlc_now wall cur =
     (if wallTime cur < wall then HLC wall 0 (deviceId cur)
      else HLC (wallTime cur) (counter cur + 1) (deviceId cur))"

definition hlc_merge :: "nat \<Rightarrow> HLC \<Rightarrow> HLC \<Rightarrow> HLC" where
  "hlc_merge wall cur remote =
     (let maxWall = max wall (max (wallTime cur) (wallTime remote));
          c = (if maxWall = wallTime cur \<and> maxWall = wallTime remote
                 then max (counter cur) (counter remote) + 1
               else if maxWall = wallTime cur then counter cur + 1
               else if maxWall = wallTime remote then counter remote + 1
               else 0)
      in HLC maxWall c (deviceId cur))"

definition hlc_setCurrent :: "HLC \<Rightarrow> HLC \<Rightarrow> HLC" where
  "hlc_setCurrent hlc cur = HLC (wallTime hlc) (counter hlc) (deviceId cur)"

section \<open>The order of timestamps\<close>

definition hlcCompare :: "HLC \<Rightarrow> HLC \<Rightarrow> int" where
  "hlcCompare a b =
     (if wallTime a \<noteq> wallTime b then int (wallTime a) - int (wallTime b)
      else if counter a \<noteq> counter b then int (counter a) - int (counter b)
      else if deviceId a < deviceId b then -1
      else if deviceId b < deviceId a then 1
      else 0)"

definition hlcMax :: "HLC \<Rightarrow> HLC \<Rightarrow> HLC" where
  "hlcMax a b = (if hlcCompare a b \<ge> 0 then a else b)"

definition hlcEqual :: "HLC \<Rightarrow> HLC \<Rightarrow> bool" where
  "hlcEqual a b = (wallTime a = wallTime b \<and> counter a = counter b \<and> deviceId a = deviceId b)"

text \<open>\<open>hlcCompare\<close> is the comparison of a linear order on timestamps.\<close>

instantiation HLC :: linorder
begin

definition less_eq_HLC :: "HLC \<Rightarrow> HLC \<Rightarrow> bool" where
  "a \<le> b \<longleftrightarrow> hlcCompare a b \<le> 0"

definition less_HLC :: "HLC \<Rightarrow> HLC \<Rightarrow> bool" where
  "a < b \<longleftrightarrow> hlcCompare a b < 0"

instance
proof
  fix x y z :: HLC
  show "(x < y) = (x \<le> y \<and> \<not> y \<le> x)"
    by (cases x; cases y) (auto simp: less_HLC_def less_eq_HLC_def hlcCompare_def)
  show "x \<le> x"
    by (simp add: less_eq_HLC_def hlcCompare_def)
  show "x \<le> y \<Longrightarrow> y \<le> z \<Longrightarrow> x \<le> z"
    by (cases x; cases y; cases z)
      (auto simp: less_eq_HLC_def hlcCompare_def split: if_splits)
  show "x \<le> y \<Longrightarrow> y \<le> x \<Longrightarrow> x = y"
    by (cases x; cases y) (auto simp: less_eq_HLC_def hlcCompare_def split: if_splits)
  show "x \<le> y \<or> y \<le> x"
    by (cases x; cases y) (auto simp: less_eq_HLC_def hlcCompare_def split: if_splits)
qed

end

lemma hlcCompare_simps [simp]:
  "hlcCompare a b \<le> 0 \<longleftrightarrow> a \<le> b" "hlcCompare a b < 0 \<longleftrightarrow> a < b"
  "0 \<le> hlcCompare a b \<longleftrightarrow> b \<le> a" "0 < hlcCompare a b \<longleftrightarrow> b < a"
  "hlcCompare a b = 0 \<longleftrightarrow> a = b"
proof -
  have anti: "hlcCompare a b = - hlcCompare b a"
    by (auto simp: hlcCompare_def dest: less_not_sym)
  show "hlcCompare a b \<le> 0 \<longleftrightarrow> a \<le> b" "hlcCompare a b < 0 \<longleftrightarrow> a < b"
    by (simp_all add: less_eq_HLC_def less_HLC_def)
  show "0 \<le> hlcCompare a b \<longleftrightarrow> b \<le> a" "0 < hlcCompare a b \<longleftrightarrow> b < a"
    using anti by (simp_all add: less_eq_HLC_def less_HLC_def)
  show "hlcCompare a b = 0 \<longleftrightarrow> a = b"
    by (cases a; cases b) (auto simp: hlcCompare_def split: if_splits)
qed

lemma hlcEqual_iff [simp]: "hlcEqual a b \<longleftrightarrow> a = b"
  by (cases a; cases b) (simp add: hlcEqual_def)

lemma hlcMax_eq_max: "hlcMax a b = max a b"
  by (auto simp: hlcMax_def max_def)

lemma less_HLC_iff:
  "HLC w c d < HLC w' c' d' \<longleftrightarrow> w < w' \<or> (w = w' \<and> (c < c' \<or> (c = c' \<and> d < d')))"
  by (auto simp: less_HLC_def hlcCompare_def)

section \<open>Monotonicity\<close>

lemma hlc_now_greater: "cur < hlc_now wall cur"
  by (cases cur) (simp add: hlc_now_def less_HLC_iff)

lemma hlc_now_device [simp]: "deviceId (hlc_now wall cur) = deviceId cur"
  by (simp add: hlc_now_def)

lemma hlc_merge_device [simp]: "deviceId (hlc_merge wall cur r) = deviceId cur"
  by (simp add: hlc_merge_def Let_def)

lemma hlc_setCurrent_device [simp]: "deviceId (hlc_setCurrent h cur) = deviceId cur"
  by (simp add: hlc_setCurrent_def)

lemma hlc_merge_greater_local: "cur < hlc_merge wall cur r"
  by (cases cur; cases r) (auto simp: hlc_merge_def less_HLC_iff Let_def max_def)

lemma hlc_merge_greater_remote: "r < hlc_merge wall cur r"
  by (cases cur; cases r) (auto simp: hlc_merge_def less_HLC_iff Let_def max_def)

text \<open>
  What a device may do with its clock: a local event, the merge of a remote timestamp, or
  \<open>setCurrent\<close>.  The first two issue a timestamp, the third only moves the clock; \<open>clock_trace\<close>
  lists what was issued.  The code documents \<open>setCurrent\<close> as a fast-forward and does not check
  it; \<open>fast_forwards\<close> says that each such step of the list moves the clock to a time not below
  the one it holds.
\<close>

datatype clock_event = Now nat | MergeEv nat HLC | SetEv HLC

fun clock_step :: "clock_event \<Rightarrow> HLC \<Rightarrow> HLC" where
  "clock_step (Now wall) cur = hlc_now wall cur"
| "clock_step (MergeEv wall r) cur = hlc_merge wall cur r"
| "clock_step (SetEv h) cur = hlc_setCurrent h cur"

fun clock_issues :: "clock_event \<Rightarrow> HLC \<Rightarrow> HLC list" where
  "clock_issues (SetEv h) cur = []"
| "clock_issues e cur = [clock_step e cur]"

fun clock_trace :: "clock_event list \<Rightarrow> HLC \<Rightarrow> HLC list" where
  "clock_trace [] cur = []"
| "clock_trace (e # es) cur = clock_issues e cur @ clock_trace es (clock_step e cur)"

fun fast_forwards :: "clock_event list \<Rightarrow> HLC \<Rightarrow> bool" where
  "fast_forwards [] cur = True"
| "fast_forwards (e # es) cur =
     ((case e of
         SetEv h \<Rightarrow> wallTime cur < wallTime h \<or> (wallTime cur = wallTime h \<and> counter cur \<le> counter h)
       | _ \<Rightarrow> True) \<and>
      fast_forwards es (clock_step e cur))"

lemma setCurrent_forward:
  "wallTime cur < wallTime h \<or> (wallTime cur = wallTime h \<and> counter cur \<le> counter h) \<Longrightarrow>
   cur \<le> hlc_setCurrent h cur"
  by (cases cur; cases h) (auto simp: hlc_setCurrent_def le_less less_HLC_iff)

lemma clock_step_device [simp]: "deviceId (clock_step e cur) = deviceId cur"
  by (cases e) auto

lemma clock_trace_above:
  "fast_forwards es cur \<Longrightarrow> (\<forall>t \<in> set (clock_trace es cur). cur < t) \<and> sorted_wrt (<) (clock_trace es cur)"
proof (induction es arbitrary: cur)
  case (Cons e es)
  let ?next = "clock_step e cur"
  have IH: "\<forall>t \<in> set (clock_trace es ?next). ?next < t" "sorted_wrt (<) (clock_trace es ?next)"
    using Cons by auto
  show ?case
  proof (cases e)
    case (SetEv h)
    then have "cur \<le> ?next" using Cons.prems by (simp add: setCurrent_forward)
    then show ?thesis using IH SetEv by (auto intro: le_less_trans)
  next
    case (Now wall)
    then show ?thesis using IH hlc_now_greater [of cur wall] by (auto intro: less_trans)
  next
    case (MergeEv wall r)
    then show ?thesis using IH hlc_merge_greater_local [of cur wall r] by (auto intro: less_trans)
  qed
qed simp

lemma clock_trace_sorted: "fast_forwards es cur \<Longrightarrow> sorted_wrt (<) (cur # clock_trace es cur)"
  using clock_trace_above [of es cur] by simp

lemma clock_trace_device: "t \<in> set (clock_trace es cur) \<Longrightarrow> deviceId t = deviceId cur"
proof (induction es arbitrary: cur)
  case (Cons e es)
  then show ?case by (cases e) (auto dest: Cons.IH)
qed simp

end
