(* ===== verification/HlcString.thy ===== *)
theory HlcString
  imports Hlc
begin

text \<open>
  The string form of a timestamp, which is the identifier of an operation: \<open>hlcToString\<close> and
  \<open>hlcFromString\<close> of \<open>src/core/hlc.ts\<close>, with the pieces of the JavaScript library they use
  (decimal printing, \<open>parseInt\<close> in base ten).  Strings are compared as JavaScript does, code
  unit by code unit; the model's characters are the code units below 256.
\<close>

section \<open>Decimal numbers\<close>

definition digit_char :: "nat \<Rightarrow> char" where
  "digit_char d = char_of (48 + d)"

fun show_nat :: "nat \<Rightarrow> string" where
  "show_nat n = (if n < 10 then [digit_char n] else show_nat (n div 10) @ [digit_char (n mod 10)])"

declare show_nat.simps [simp del]

definition is_digit :: "char \<Rightarrow> bool" where
  "is_digit c = (48 \<le> (of_char c :: nat) \<and> (of_char c :: nat) \<le> 57)"

definition digit_val :: "char \<Rightarrow> nat" where
  "digit_val c = of_char c - 48"

definition digits_value :: "string \<Rightarrow> nat" where
  "digits_value s = foldl (\<lambda>acc c. 10 * acc + digit_val c) 0 s"

text \<open>
  \<open>parseInt(s, 10)\<close> for a string without a minus sign (the parts of a string split at each
  hyphen): leading white space and a plus sign are skipped, then the longest run of digits
  counts; \<open>None\<close> is \<open>NaN\<close>.
\<close>

definition is_space :: "char \<Rightarrow> bool" where
  "is_space c = (c \<in> set [CHR '' '', CHR 0x09, CHR 0x0A, CHR 0x0B, CHR 0x0C, CHR 0x0D, CHR 0xA0])"

definition parseInt :: "string \<Rightarrow> nat option" where
  "parseInt s =
     (let t = dropWhile is_space s;
          u = (case t of c # r \<Rightarrow> if c = CHR ''+'' then r else t | [] \<Rightarrow> t);
          ds = takeWhile is_digit u
      in if ds = [] then None else Some (digits_value ds))"

section \<open>Printing and parsing a timestamp\<close>

definition hlcToString :: "HLC \<Rightarrow> string" where
  "hlcToString h =
     padStart 15 CHR ''0'' (show_nat (wallTime h)) @ ''-'' @
     padStart 8 CHR ''0'' (show_nat (counter h)) @ ''-'' @ deviceId h"

datatype hlc_error = InvalidHlcString string

definition hlcFromString :: "string \<Rightarrow> hlc_error + HLC" where
  "hlcFromString s =
     (case splitOn CHR ''-'' s of
        a # b # c # rest \<Rightarrow>
          (case (parseInt a, parseInt b) of
             (Some w, Some n) \<Rightarrow> Inr (HLC w n (joinWith ''-'' (c # rest)))
           | _ \<Rightarrow> Inl (InvalidHlcString s))
      | _ \<Rightarrow> Inl (InvalidHlcString s))"

section \<open>Digits\<close>

lemma of_char_digit [simp]: "d < 10 \<Longrightarrow> (of_char (digit_char d) :: nat) = 48 + d"
  by (simp add: digit_char_def of_char_of)

lemma is_digit_char [simp]: "d < 10 \<Longrightarrow> is_digit (digit_char d)"
  by (simp add: is_digit_def)

lemma digit_val_char [simp]: "d < 10 \<Longrightarrow> digit_val (digit_char d) = d"
  by (simp add: digit_val_def)

lemma digit_char_0: "digit_char 0 = CHR ''0''"
proof -
  have "of_char (CHR ''0'') = (48 :: nat)" by simp
  then have "char_of (48 :: nat) = CHR ''0''" by (metis char_of_char)
  then show ?thesis by (simp add: digit_char_def)
qed

lemma digit_not_hyphen: "is_digit c \<Longrightarrow> c \<noteq> CHR ''-''"
  by (auto simp: is_digit_def)

lemma digit_not_space: "is_digit c \<Longrightarrow> \<not> is_space c"
  by (auto simp: is_digit_def is_space_def)

lemma digit_not_plus: "is_digit c \<Longrightarrow> c \<noteq> CHR ''+''"
  by (auto simp: is_digit_def)

lemma digit_char_less: "a < 10 \<Longrightarrow> b < 10 \<Longrightarrow> digit_char a < digit_char b \<longleftrightarrow> a < b"
  by (simp add: less_char_def)

lemma digit_char_inj: "a < 10 \<Longrightarrow> b < 10 \<Longrightarrow> digit_char a = digit_char b \<longleftrightarrow> a = b"
  using digit_val_char by metis

text \<open>The \<open>n\<close> low decimal digits of a number, most significant first.\<close>

fun digits_fixed :: "nat \<Rightarrow> nat \<Rightarrow> string" where
  "digits_fixed 0 k = []"
| "digits_fixed (Suc n) k = digits_fixed n (k div 10) @ [digit_char (k mod 10)]"

lemma length_digits_fixed [simp]: "length (digits_fixed n k) = n"
  by (induction n arbitrary: k) auto

lemma digits_fixed_zero: "digits_fixed n 0 = replicate n CHR ''0''"
  by (induction n) (simp_all add: digit_char_0 replicate_append_same)

lemma length_show_nat_pos: "length (show_nat k) > 0"
  by (subst show_nat.simps) simp

lemma show_nat_not_Nil [simp]: "show_nat k \<noteq> []"
  using length_show_nat_pos [of k] by auto

lemma show_nat_digits: "\<forall>c \<in> set (show_nat k). is_digit c"
proof (induction k rule: show_nat.induct)
  case (1 n)
  show ?case
    by (subst show_nat.simps) (use 1 in auto)
qed

lemma digits_value_show: "digits_value (show_nat k) = k"
proof (induction k rule: show_nat.induct)
  case (1 n)
  show ?case
    by (subst show_nat.simps) (use 1 in \<open>auto simp: digits_value_def\<close>)
qed

lemma digits_value_zeros: "digits_value (replicate n CHR ''0'' @ s) = digits_value s"
  by (induction n) (simp_all add: digits_value_def digit_val_def)

lemma padStart_digits: "k < 10 ^ Suc n \<Longrightarrow> padStart (Suc n) CHR ''0'' (show_nat k) = digits_fixed (Suc n) k"
proof (induction n arbitrary: k)
  case 0
  then show ?case by (subst show_nat.simps) (simp add: padStart_def)
next
  case (Suc n)
  show ?case
  proof (cases "k < 10")
    case True
    then show ?thesis
      by (subst show_nat.simps)
        (simp add: padStart_def digits_fixed_zero digit_char_0 replicate_append_same)
  next
    case False
    have "k div 10 < 10 ^ Suc n" using Suc.prems by (simp add: div_less_iff_less_mult mult.commute)
    then have IH: "padStart (Suc n) CHR ''0'' (show_nat (k div 10)) = digits_fixed (Suc n) (k div 10)"
      by (rule Suc.IH)
    show ?thesis
      by (subst show_nat.simps) (use False IH in \<open>simp add: padStart_def\<close>)
  qed
qed

lemma padStart_digits_ge: "\<forall>c \<in> set (padStart n CHR ''0'' (show_nat k)). is_digit c"
  using show_nat_digits [of k] by (auto simp: padStart_def is_digit_def)

lemma parseInt_digits:
  assumes "s \<noteq> []" and "\<forall>c \<in> set s. is_digit c"
  shows "parseInt s = Some (digits_value s)"
proof -
  obtain c r where s: "s = c # r" using assms(1) by (cases s) auto
  have tw: "takeWhile is_digit (c # r) = c # r"
    using assms(2) s by (simp only: takeWhile_eq_all_conv)
  have dw: "dropWhile is_space (c # r) = c # r"
    using s assms(2) digit_not_space by simp
  have "c \<noteq> CHR ''+''" using s assms(2) digit_not_plus by simp
  then show ?thesis
    unfolding s parseInt_def dw Let_def by (simp only: list.case if_False tw list.distinct)
qed

lemma parseInt_padded: "parseInt (padStart n CHR ''0'' (show_nat k)) = Some k"
proof -
  have "padStart n CHR ''0'' (show_nat k) \<noteq> []" by (simp add: padStart_def)
  then have "parseInt (padStart n CHR ''0'' (show_nat k)) =
      Some (digits_value (padStart n CHR ''0'' (show_nat k)))"
    using padStart_digits_ge by (rule parseInt_digits)
  then show ?thesis
    by (simp add: padStart_def digits_value_zeros digits_value_show)
qed

lemma padded_no_hyphen: "CHR ''-'' \<notin> set (padStart n CHR ''0'' (show_nat k))"
  using padStart_digits_ge [of n k] digit_not_hyphen by blast

lemma hlc_string_roundtrip: "hlcFromString (hlcToString h) = Inr h"
proof -
  let ?w = "padStart 15 CHR ''0'' (show_nat (wallTime h))"
  let ?c = "padStart 8 CHR ''0'' (show_nat (counter h))"
  have "splitOn CHR ''-'' (hlcToString h) = ?w # ?c # splitOn CHR ''-'' (deviceId h)"
    using splitOn_append [OF padded_no_hyphen] by (simp add: hlcToString_def)
  moreover obtain p ps where "splitOn CHR ''-'' (deviceId h) = p # ps"
    by (cases "splitOn CHR ''-'' (deviceId h)") auto
  moreover from this have "joinWith ''-'' (p # ps) = deviceId h"
    by (metis join_split)
  ultimately show ?thesis
    by (simp add: hlcFromString_def parseInt_padded)
qed

lemma hlcToString_inj: "hlcToString a = hlcToString b \<longleftrightarrow> a = b"
  by (metis hlc_string_roundtrip sum.inject(2))

lemma hlcToString_not_Nil [simp]: "hlcToString h \<noteq> []"
  by (simp add: hlcToString_def)

text \<open>
  Which strings are timestamps: \<open>starts_number\<close> says, without the parser, that a part begins
  with a decimal number and holds no hyphen.
\<close>

definition starts_number :: "string \<Rightarrow> bool" where
  "starts_number s \<longleftrightarrow> CHR ''-'' \<notin> set s \<and>
     (\<exists>sp plus c r. s = sp @ plus @ c # r \<and> list_all is_space sp \<and> plus \<in> {[], ''+''} \<and> c \<in> set ''0123456789'')"

lemma is_digit_iff: "is_digit c \<longleftrightarrow> c \<in> set ''0123456789''"
proof -
  have "c \<in> set ''0123456789'' \<longleftrightarrow> (of_char c :: nat) \<in> set (map of_char ''0123456789'')"
    by (simp only: set_map inj_image_mem_iff [OF inj_of_char])
  also have "\<dots> \<longleftrightarrow> is_digit c"
    unfolding is_digit_def by (simp, presburger)
  finally show ?thesis by simp
qed

lemma parseInt_number: "CHR ''-'' \<notin> set s \<Longrightarrow> (\<exists>n. parseInt s = Some n) \<longleftrightarrow> starts_number s"
proof
  assume hy: "CHR ''-'' \<notin> set s"
  { assume "\<exists>n. parseInt s = Some n"
    define t where "t = dropWhile is_space s"
    define plus where "plus = (if prefix ''+'' t then ''+'' else [])"
    define u where "u = drop (length plus) t"
    have t: "t = plus @ u" by (auto simp: plus_def u_def prefix_def)
    have "takeWhile is_digit u \<noteq> []"
      using \<open>\<exists>n. _\<close> by (cases t) (auto simp: parseInt_def t_def [symmetric] u_def plus_def prefix_def Let_def split: if_splits)
    then obtain c r where "u = c # r" "is_digit c" by (cases u) (auto split: if_splits)
    moreover have "s = takeWhile is_space s @ t" by (simp add: t_def)
    ultimately have "s = takeWhile is_space s @ plus @ c # r" using t by simp
    then show "starts_number s"
      unfolding starts_number_def using hy \<open>is_digit c\<close>
      by (intro conjI exI [of _ "takeWhile is_space s"] exI [of _ plus] exI [of _ c] exI [of _ r])
        (auto simp: list_all_iff plus_def is_digit_iff dest: set_takeWhileD) }
  { assume "starts_number s"
    then obtain sp plus c r where s: "s = sp @ plus @ c # r" "list_all is_space sp" "plus \<in> {[], ''+''}"
      and c: "is_digit c" by (auto simp: starts_number_def is_digit_iff)
    have "\<not> is_space CHR ''+''" by (simp add: is_space_def)
    then have dw: "dropWhile is_space s = plus @ c # r"
      using s digit_not_space [OF c] by (auto simp: list_all_iff dropWhile_append2)
    then show "\<exists>n. parseInt s = Some n"
      using s(3) c digit_not_plus [OF c] by (auto simp: parseInt_def Let_def) }
qed

lemma hlcFromString_cases: "(\<exists>t. hlcFromString s = Inr t) \<or> hlcFromString s = Inl (InvalidHlcString s)"
  by (auto simp: hlcFromString_def split: list.splits option.splits)

lemma hlcFromString_accepts:
  "(\<exists>t. hlcFromString s = Inr t) \<longleftrightarrow>
     (\<exists>w n d. s = w @ ''-'' @ n @ ''-'' @ d \<and> starts_number w \<and> starts_number n)"
proof
  assume "\<exists>t. hlcFromString s = Inr t"
  then obtain a b c rest where sp: "splitOn CHR ''-'' s = a # b # c # rest"
    and p: "\<exists>n. parseInt a = Some n" "\<exists>n. parseInt b = Some n"
    by (auto simp: hlcFromString_def split: list.splits option.splits)
  have "s = a @ ''-'' @ b @ ''-'' @ joinWith ''-'' (c # rest)"
    using join_split [of "CHR ''-''" s] by (simp add: sp)
  moreover have "CHR ''-'' \<notin> set a" "CHR ''-'' \<notin> set b"
    using splitOn_parts_free [of a "CHR ''-''" s] splitOn_parts_free [of b "CHR ''-''" s] by (simp_all add: sp)
  ultimately show "\<exists>w n d. s = w @ ''-'' @ n @ ''-'' @ d \<and> starts_number w \<and> starts_number n"
    using p parseInt_number by blast
next
  assume "\<exists>w n d. s = w @ ''-'' @ n @ ''-'' @ d \<and> starts_number w \<and> starts_number n"
  then obtain w n d where s: "s = w @ ''-'' @ n @ ''-'' @ d" and num: "starts_number w" "starts_number n"
    by blast
  then have hy: "CHR ''-'' \<notin> set w" "CHR ''-'' \<notin> set n" by (simp_all add: starts_number_def)
  have "splitOn CHR ''-'' s = w # n # splitOn CHR ''-'' d"
    using splitOn_append [OF hy(1)] splitOn_append [OF hy(2)] by (simp add: s)
  moreover obtain p ps where "splitOn CHR ''-'' d = p # ps" by (cases "splitOn CHR ''-'' d") auto
  ultimately show "\<exists>t. hlcFromString s = Inr t"
    using num parseInt_number [OF hy(1)] parseInt_number [OF hy(2)] by (auto simp: hlcFromString_def)
qed

section \<open>The string order is the clock order\<close>

lemma list_less_append:
  fixes xs ys us vs :: "'a::linorder list"
  assumes "length xs = length ys"
  shows "xs @ us < ys @ vs \<longleftrightarrow> xs < ys \<or> (xs = ys \<and> us < vs)"
  using assms by (induction xs ys rule: list_induct2) auto

lemma div_mod_less:
  fixes a b :: nat
  assumes "0 < m"
  shows "a div m < b div m \<or> (a div m = b div m \<and> a mod m < b mod m) \<longleftrightarrow> a < b"
  using assms by (metis div_le_mono div_mult_mod_eq leD le_neq_implies_less nat_add_left_cancel_less
      nat_less_le not_less)

lemma digits_fixed_less:
  "a < 10 ^ n \<Longrightarrow> b < 10 ^ n \<Longrightarrow> digits_fixed n a < digits_fixed n b \<longleftrightarrow> a < b"
proof (induction n arbitrary: a b)
  case (Suc n)
  have lt: "a div 10 < 10 ^ n" "b div 10 < 10 ^ n"
    using Suc.prems by (simp_all add: div_less_iff_less_mult mult.commute)
  have eq: "digits_fixed n (a div 10) = digits_fixed n (b div 10) \<longleftrightarrow> a div 10 = b div 10"
    using Suc.IH [OF lt] Suc.IH [OF lt(2,1)] by (metis less_irrefl linorder_neqE)
  have "digits_fixed (Suc n) a < digits_fixed (Suc n) b \<longleftrightarrow>
      a div 10 < b div 10 \<or> (a div 10 = b div 10 \<and> a mod 10 < b mod 10)"
    using Suc.IH [OF lt] by (simp add: list_less_append eq digit_char_less)
  also have "\<dots> \<longleftrightarrow> a < b" by (rule div_mod_less) simp
  finally show ?case .
qed simp

lemma digits_fixed_eq:
  "a < 10 ^ n \<Longrightarrow> b < 10 ^ n \<Longrightarrow> digits_fixed n a = digits_fixed n b \<longleftrightarrow> a = b"
  by (metis digits_fixed_less less_irrefl linorder_neqE)

definition hlc_in_range :: "HLC \<Rightarrow> bool" where
  "hlc_in_range h = (wallTime h < 10 ^ 15 \<and> counter h < 10 ^ 8)"

lemma padStart_digits_pos:
  "0 < n \<Longrightarrow> k < 10 ^ n \<Longrightarrow> padStart n CHR ''0'' (show_nat k) = digits_fixed n k"
  using padStart_digits [of k "n - 1"] by simp

lemma hlcToString_fixed:
  assumes "hlc_in_range h"
  shows "hlcToString h =
     digits_fixed 15 (wallTime h) @ ''-'' @ digits_fixed 8 (counter h) @ ''-'' @ deviceId h"
proof -
  have "padStart 15 CHR ''0'' (show_nat (wallTime h)) = digits_fixed 15 (wallTime h)"
    using assms by (intro padStart_digits_pos) (simp_all only: hlc_in_range_def zero_less_numeral)
  moreover have "padStart 8 CHR ''0'' (show_nat (counter h)) = digits_fixed 8 (counter h)"
    using assms by (intro padStart_digits_pos) (simp_all only: hlc_in_range_def zero_less_numeral)
  ultimately show ?thesis by (simp only: hlcToString_def)
qed

lemma fields_less:
  fixes a b c d :: string
  assumes "length a = length b" and "length c = length d"
  shows "a @ ''-'' @ c @ ''-'' @ u < b @ ''-'' @ d @ ''-'' @ v \<longleftrightarrow>
    a < b \<or> (a = b \<and> (c < d \<or> (c = d \<and> u < v)))"
  using assms by (simp add: list_less_append)

lemma HLC_less_sel:
  "a < b \<longleftrightarrow> wallTime a < wallTime b \<or> (wallTime a = wallTime b \<and>
     (counter a < counter b \<or> (counter a = counter b \<and> deviceId a < deviceId b)))"
  by (cases a; cases b) (simp only: less_HLC_iff HLC.sel)

lemma hlcToString_less:
  assumes "hlc_in_range a" and "hlc_in_range b"
  shows "hlcToString a < hlcToString b \<longleftrightarrow> a < b"
proof -
  have bnd: "wallTime a < 10 ^ 15" "wallTime b < 10 ^ 15" "counter a < 10 ^ 8" "counter b < 10 ^ 8"
    using assms by (simp_all only: hlc_in_range_def)
  show ?thesis
    unfolding hlcToString_fixed [OF assms(1)] hlcToString_fixed [OF assms(2)] HLC_less_sel [of a b]
    by (subst fields_less)
      (simp_all only: length_digits_fixed digits_fixed_less [OF bnd(1,2)] digits_fixed_less [OF bnd(3,4)]
        digits_fixed_eq [OF bnd(1,2)] digits_fixed_eq [OF bnd(3,4)])
qed

section \<open>Properties of the clock\<close>

text \<open>
  C22: Whatever a device does with its clock (local events, remote timestamps merged in, the
  clock set to a time not below its own, the wall clock standing still or going back), the
  timestamps it issues grow strictly in the order of \<open>hlcCompare\<close>, all carry its own device id,
  also after the clock was set to a remote time, and a merge lands strictly above the remote
  timestamp it merged.  The source does not check that \<open>setCurrent\<close> goes forward; a list with a
  step that takes the clock back is outside the statement, and \<open>setCurrent_reissues\<close> shows what
  happens there.
\<close>

theorem clock_issues_increasing:
  assumes "fast_forwards es cur"
  shows "sorted_wrt (\<lambda>a b. hlcCompare a b < 0) (cur # clock_trace es cur) \<and>
   deviceId ` set (clock_trace es cur) \<subseteq> {deviceId cur} \<and>
   hlcCompare r (hlc_merge wall cur r) < 0"
  using clock_trace_sorted [OF assms] clock_trace_device [of _ es cur] hlc_merge_greater_remote [of r wall cur]
  by (auto simp del: sorted_wrt.simps)

theorem clock_issues_increasing_witness:
  "clock_trace [Now 5, SetEv (HLC 9 0 ''peer''), Now 7, MergeEv 3 (HLC 9 4 ''peer'')] (HLC 4 0 ''us'') =
     [HLC 5 0 ''us'', HLC 9 1 ''us'', HLC 9 5 ''us''] \<and>
   sorted_wrt (\<lambda>a b. hlcCompare a b < 0)
     (HLC 4 0 ''us'' # clock_trace [Now 5, SetEv (HLC 9 0 ''peer''), Now 7, MergeEv 3 (HLC 9 4 ''peer'')] (HLC 4 0 ''us''))"
proof -
  have "fast_forwards [Now 5, SetEv (HLC 9 0 ''peer''), Now 7, MergeEv 3 (HLC 9 4 ''peer'')] (HLC 4 0 ''us'')"
    by (simp add: hlc_now_def hlc_setCurrent_def)
  from clock_issues_increasing [OF this, of undefined 0] show ?thesis
    by (simp add: hlc_now_def hlc_merge_def hlc_setCurrent_def)
qed

text \<open>
  C23: A timestamp reads back from its string form, whatever hyphens its device id holds, so two
  timestamps print alike only when they are equal.  A string is accepted exactly when it has at
  least three parts between hyphens and each of its first two starts, after white space and an
  optional plus sign, with a digit; the rest is the device id with its hyphens.  Every other
  string, one whose time or counter is no number included, is refused with the error of the
  source.
\<close>

theorem hlc_string_faithful:
  "hlcFromString (hlcToString h) = Inr h \<and>
   (hlcToString a = hlcToString b \<longleftrightarrow> hlcEqual a b) \<and>
   ((\<exists>t. hlcFromString s = Inr t) \<longleftrightarrow>
      (\<exists>w n d. s = w @ ''-'' @ n @ ''-'' @ d \<and> starts_number w \<and> starts_number n)) \<and>
   ((\<exists>t. hlcFromString s = Inr t) \<or> hlcFromString s = Inl (InvalidHlcString s))"
  by (intro conjI hlc_string_roundtrip hlcFromString_accepts hlcFromString_cases)
    (simp add: hlcToString_inj)

text \<open>
  Below fifteen digits of milliseconds and eight digits of counter, comparing the printed
  ids as strings is comparing the timestamps, so a list of op ids sorts in clock order.
\<close>

theorem hlc_string_order:
  assumes "hlc_in_range a" and "hlc_in_range b"
  shows "hlcToString a < hlcToString b \<longleftrightarrow> hlcCompare a b < 0"
  using hlcToString_less [OF assms] by simp

theorem hlc_string_order_witness:
  "hlcToString (HLC 5 9 ''b'') < hlcToString (HLC 5 10 ''a'') \<longleftrightarrow>
     hlcCompare (HLC 5 9 ''b'') (HLC 5 10 ''a'') < 0"
  by (rule hlc_string_order) (simp_all add: hlc_in_range_def)

text \<open>
  \<open>setCurrent\<close> is documented as a fast-forward to at least the given timestamp; it sets the
  clock to it exactly, so an older argument takes the clock back and the next \<open>now\<close> issues a
  timestamp, and an op id, a second time.
\<close>

theorem setCurrent_reissues:
  "hlc_now 7 (hlc_setCurrent (HLC 9 0 ''peer'') (HLC 9 1 ''us'')) = HLC 9 1 ''us'' \<and>
   hlc_now 7 (HLC 9 0 ''us'') = HLC 9 1 ''us''"
  by (simp add: hlc_now_def hlc_setCurrent_def)

end
