(* ===== verification/Operations.thy ===== *)
theory Operations
  imports HlcString "HOL-Library.Multiset"
begin

text \<open>
  The operation vocabulary of \<open>src/core/operations.ts\<close>: the factories that give an operation
  its shape and its id, the content-addressed id of a merge node, and the filter of repeated
  ids that guards the push path.  SHA-256 is a parameter, a function from bytes to bytes; what
  the theorems need of it is a hypothesis that names it.
\<close>

section \<open>Bytes of a string and hexadecimal digits\<close>

text \<open>\<open>TextEncoder\<close> on the model's code units, all below 256: one or two bytes of UTF-8.\<close>

definition utf8_unit :: "char \<Rightarrow> bytes" where
  "utf8_unit c =
     (let n = (of_char c :: nat)
      in if n < 128 then [word_of_nat n]
         else [word_of_nat (192 + n div 64), word_of_nat (128 + n mod 64)])"

definition utf8_encode :: "string \<Rightarrow> bytes" where
  "utf8_encode s = concat (map utf8_unit s)"

definition hex_digit :: "nat \<Rightarrow> char" where
  "hex_digit d = (if d < 10 then char_of (48 + d) else char_of (87 + d))"

text \<open>\<open>b.toString(16).padStart(2, '0')\<close> for a byte.\<close>

definition hex_byte :: "byte \<Rightarrow> string" where
  "hex_byte b =
     (let n = unat b
      in padStart 2 CHR ''0'' (if n < 16 then [hex_digit n] else [hex_digit (n div 16), hex_digit (n mod 16)]))"

definition to_hex :: "bytes \<Rightarrow> string" where
  "to_hex bs = concat (map hex_byte bs)"

section \<open>The id of a merge node\<close>

definition merge_canonical :: "string \<Rightarrow> string list \<Rightarrow> string" where
  "merge_canonical contentHash parents = joinWith '' '' ([''merge''] @ sort parents @ [contentHash])"

definition mergeVersionId :: "(bytes \<Rightarrow> bytes) \<Rightarrow> string \<Rightarrow> string list \<Rightarrow> string" where
  "mergeVersionId sha contentHash parents =
     ''m-'' @ to_hex (sha (utf8_encode (merge_canonical contentHash parents)))"

section \<open>The factories\<close>

definition stamp :: "HLC \<Rightarrow> string \<Rightarrow> OperationType \<Rightarrow> string \<Rightarrow> string \<Rightarrow> string list \<Rightarrow> Operation" where
  "stamp hlc fileId ty path contentHash parents =
     \<lparr> op_v = OP_FORMAT_VERSION, op_id = hlcToString hlc, op_hlc = hlc, op_fileId = fileId,
       op_type = ty, op_path = path, op_contentHash = contentHash, op_parents = parents \<rparr>"

text \<open>\<open>parentVersion ? [parentVersion] : []\<close>.\<close>

definition parents_of :: "string option \<Rightarrow> string list" where
  "parents_of v = (if truthy v then [the v] else [])"

definition ops_create :: "string \<Rightarrow> string \<Rightarrow> string \<Rightarrow> HLC \<Rightarrow> Operation" where
  "ops_create fileId path contentHash hlc = stamp hlc fileId OpCreate path contentHash []"

definition ops_update :: "string \<Rightarrow> string \<Rightarrow> string \<Rightarrow> HLC \<Rightarrow> string option \<Rightarrow> Operation" where
  "ops_update fileId path contentHash hlc parentVersion =
     stamp hlc fileId OpUpdate path contentHash (parents_of parentVersion)"

definition ops_delete :: "string \<Rightarrow> string \<Rightarrow> string \<Rightarrow> HLC \<Rightarrow> string option \<Rightarrow> Operation" where
  "ops_delete fileId path contentHash hlc parentVersion =
     stamp hlc fileId OpDelete path contentHash (parents_of parentVersion)"

definition ops_move :: "string \<Rightarrow> string \<Rightarrow> string \<Rightarrow> HLC \<Rightarrow> string option \<Rightarrow> Operation" where
  "ops_move fileId path contentHash hlc parentVersion =
     stamp hlc fileId OpMove path contentHash (parents_of parentVersion)"

definition ops_merge ::
  "string \<Rightarrow> string \<Rightarrow> string \<Rightarrow> HLC \<Rightarrow> string list \<Rightarrow> string \<Rightarrow> Operation" where
  "ops_merge fileId path contentHash hlc parents vid =
     \<lparr> op_v = OP_FORMAT_VERSION, op_id = vid, op_hlc = hlc, op_fileId = fileId,
       op_type = OpUpdate, op_path = path, op_contentHash = contentHash, op_parents = parents \<rparr>"

definition ops_mergeDelete ::
  "string \<Rightarrow> string \<Rightarrow> string \<Rightarrow> HLC \<Rightarrow> string list \<Rightarrow> string \<Rightarrow> Operation" where
  "ops_mergeDelete fileId path contentHash hlc parents vid =
     \<lparr> op_v = OP_FORMAT_VERSION, op_id = vid, op_hlc = hlc, op_fileId = fileId,
       op_type = OpDelete, op_path = path, op_contentHash = contentHash, op_parents = parents \<rparr>"

section \<open>Dropping repeated ids\<close>

fun dedupe_loop :: "Operation list \<Rightarrow> string list \<Rightarrow> Operation list \<Rightarrow> Operation list" where
  "dedupe_loop [] seen out = out"
| "dedupe_loop (p # ps) seen out =
     (if op_id p \<in> set seen then dedupe_loop ps seen out
      else dedupe_loop ps (js_add (op_id p) seen) (out @ [p]))"

definition dedupeOpsById :: "Operation list \<Rightarrow> Operation list" where
  "dedupeOpsById ops = dedupe_loop ops [] []"

section \<open>Merge ids\<close>

lemma op_stamp [simp]:
  "op_id (stamp h f t p c ps) = hlcToString h" "op_hlc (stamp h f t p c ps) = h"
  "op_fileId (stamp h f t p c ps) = f" "op_type (stamp h f t p c ps) = t"
  "op_path (stamp h f t p c ps) = p" "op_contentHash (stamp h f t p c ps) = c"
  "op_parents (stamp h f t p c ps) = ps"
  by (simp_all add: stamp_def)

lemma hex_byte_length [simp]: "length (hex_byte b) = 2"
  by (simp add: hex_byte_def padStart_def Let_def)

lemma to_hex_length [simp]: "length (to_hex bs) = 2 * length bs"
  by (induction bs) (simp_all add: to_hex_def)

lemma mset_sort_eq: "mset xs = mset ys \<Longrightarrow> sort xs = sort (ys :: string list)"
  by (metis mset_sort properties_for_sort sorted_sort)

text \<open>A space-free content hash and space-free version ids can be read back from the text.\<close>

lemma merge_canonical_inj:
  assumes "\<forall>p \<in> set ps. CHR '' '' \<notin> set p" and "\<forall>p \<in> set qs. CHR '' '' \<notin> set p"
    and "CHR '' '' \<notin> set c" and "CHR '' '' \<notin> set d"
  shows "merge_canonical c ps = merge_canonical d qs \<longleftrightarrow> c = d \<and> mset ps = mset qs"
proof
  assume eq: "merge_canonical c ps = merge_canonical d qs"
  have "splitOn CHR '' '' (merge_canonical c ps) = [''merge''] @ sort ps @ [c]"
    unfolding merge_canonical_def using assms by (intro split_join) auto
  moreover have "splitOn CHR '' '' (merge_canonical d qs) = [''merge''] @ sort qs @ [d]"
    unfolding merge_canonical_def using assms by (intro split_join) auto
  ultimately have "sort ps @ [c] = sort qs @ [d]" using eq by simp
  then show "c = d \<and> mset ps = mset qs" by (metis append1_eq_conv mset_sort)
next
  assume "c = d \<and> mset ps = mset qs"
  then show "merge_canonical c ps = merge_canonical d qs"
    using mset_sort_eq [of ps qs] by (simp add: merge_canonical_def)
qed

lemma mergeVersionId_perm: "mset ps = mset qs \<Longrightarrow> mergeVersionId sha c ps = mergeVersionId sha c qs"
  using mset_sort_eq [of ps qs] by (simp add: mergeVersionId_def merge_canonical_def)

lemma mergeVersionId_prefix: "take 2 (mergeVersionId sha c ps) = ''m-''"
  by (simp add: mergeVersionId_def)

text \<open>The printed timestamp starts with a digit, so it is never the id of a merge node.\<close>

lemma hd_padded_digit: "is_digit (hd (padStart n CHR ''0'' (show_nat k)))"
proof -
  have "padStart n CHR ''0'' (show_nat k) \<noteq> []" by (simp add: padStart_def)
  then show ?thesis using padStart_digits_ge [of n k] by (meson hd_in_set)
qed

lemma hlcToString_not_merge: "hlcToString h \<noteq> mergeVersionId sha c ps"
proof
  assume eq: "hlcToString h = mergeVersionId sha c ps"
  have "padStart 15 CHR ''0'' (show_nat (wallTime h)) \<noteq> []" by (simp add: padStart_def)
  then have "hd (hlcToString h) = hd (padStart 15 CHR ''0'' (show_nat (wallTime h)))"
    unfolding hlcToString_def by (rule hd_append2)
  then have "is_digit (hd (hlcToString h))" using hd_padded_digit by metis
  moreover have "hd (mergeVersionId sha c ps) = CHR ''m''" by (simp add: mergeVersionId_def)
  ultimately show False using eq by (simp add: is_digit_def)
qed

section \<open>Deduplication\<close>

lemma dedupe_loop_append:
  "dedupe_loop ops seen out = out @ dedupe_loop ops seen []"
proof (induction ops arbitrary: seen out)
  case (Cons p ps)
  show ?case
    using Cons.IH [of "js_add (op_id p) seen" "out @ [p]"] Cons.IH [of "js_add (op_id p) seen" "[p]"]
      Cons.IH [of seen out] by simp
qed simp

lemma dedupe_loop_Cons:
  "dedupe_loop (p # ps) seen [] =
     (if op_id p \<in> set seen then dedupe_loop ps seen [] else p # dedupe_loop ps (js_add (op_id p) seen) [])"
  using dedupe_loop_append [of ps "js_add (op_id p) seen" "[p]"] by simp

declare dedupe_loop.simps(2) [simp del] dedupe_loop_Cons [simp]

lemma dedupe_ids:
  "set (map op_id (dedupe_loop ops seen [])) = set (map op_id ops) - set seen"
  by (induction ops arbitrary: seen) auto

lemma dedupe_distinct: "distinct (map op_id (dedupe_loop ops seen []))"
proof (induction ops arbitrary: seen)
  case (Cons p ps)
  then show ?case using dedupe_ids [of ps "js_add (op_id p) seen"] by simp
qed simp

lemma dedupe_subseq: "subseq (dedupe_loop ops seen []) ops"
  by (induction ops arbitrary: seen) auto

lemma dedupe_first:
  "find (\<lambda>q. op_id q = i) (dedupe_loop ops seen []) =
     (if i \<in> set seen then None else find (\<lambda>q. op_id q = i) ops)"
  by (induction ops arbitrary: seen) auto

lemma dedupe_loop_id:
  "distinct (map op_id ops) \<Longrightarrow> set (map op_id ops) \<inter> set seen = {} \<Longrightarrow> dedupe_loop ops seen [] = ops"
proof (induction ops arbitrary: seen)
  case (Cons p ps)
  have "dedupe_loop ps (js_add (op_id p) seen) [] = ps"
    using Cons.prems by (intro Cons.IH) auto
  then show ?case using Cons.prems by simp
qed simp

lemma dedupe_idem: "dedupeOpsById (dedupeOpsById ops) = dedupeOpsById ops"
  unfolding dedupeOpsById_def by (rule dedupe_loop_id) (use dedupe_distinct in auto)

section \<open>Properties of operations\<close>

text \<open>
  The id of a merge node does not depend on the order of its parents, and, when SHA-256
  tells the two canonical texts apart and ids hold no space, equal ids come only from the same
  content merged from the same parents; and it is never the id of an edit.
\<close>

theorem merge_id_content_addressed:
  assumes "\<forall>p \<in> set ps \<union> set qs. CHR '' '' \<notin> set p" and "CHR '' '' \<notin> set c \<union> set d"
    and "inj_on (\<lambda>t. to_hex (sha (utf8_encode t))) {merge_canonical c ps, merge_canonical d qs}"
  shows "(mergeVersionId sha c ps = mergeVersionId sha d qs \<longleftrightarrow> c = d \<and> mset ps = mset qs) \<and>
    mergeVersionId sha c ps \<noteq> op_id (ops_update f p x h v)"
proof
  have "mergeVersionId sha c ps = mergeVersionId sha d qs \<longleftrightarrow> merge_canonical c ps = merge_canonical d qs"
    using inj_on_eq_iff [OF assms(3), of "merge_canonical c ps" "merge_canonical d qs"]
    unfolding mergeVersionId_def same_append_eq by blast
  also have "\<dots> \<longleftrightarrow> c = d \<and> mset ps = mset qs"
    using assms(1,2) by (intro merge_canonical_inj) auto
  finally show "mergeVersionId sha c ps = mergeVersionId sha d qs \<longleftrightarrow> c = d \<and> mset ps = mset qs" .
  show "mergeVersionId sha c ps \<noteq> op_id (ops_update f p x h v)"
    unfolding ops_update_def op_stamp by (rule hlcToString_not_merge [symmetric])
qed

theorem merge_id_content_addressed_witness:
  "(mergeVersionId (\<lambda>b. b) ''c1'' [''x'', ''w''] = mergeVersionId (\<lambda>b. b) ''c1'' [''w'', ''x''] \<longleftrightarrow>
      ''c1'' = ''c1'' \<and> mset [''x'', ''w''] = mset [''w'', ''x'']) \<and>
   mergeVersionId (\<lambda>b. b) ''c1'' [''x'', ''w''] \<noteq> op_id (ops_update [] [] [] (HLC 1 0 ''d'') None)"
  by (rule merge_id_content_addressed) (simp_all add: merge_canonical_def joinWith_Cons_not_Nil)

text \<open>
  The filter of the push path keeps, for every id, the first operation that carries it, in
  the original order and nothing else; the batch it leaves has no repeated id, and filtering a
  batch that has none changes nothing.
\<close>

theorem dedupe_keeps_first:
  "distinct (map op_id (dedupeOpsById ops)) \<and> subseq (dedupeOpsById ops) ops \<and>
   find (\<lambda>q. op_id q = i) (dedupeOpsById ops) = find (\<lambda>q. op_id q = i) ops \<and>
   dedupeOpsById (dedupeOpsById ops) = dedupeOpsById ops"
  using dedupe_distinct [of ops "[]"] dedupe_subseq [of ops "[]"] dedupe_first [of i ops "[]"] dedupe_idem [of ops]
  by (simp add: dedupeOpsById_def)

end
