(* ===== verification/VersionDag.thy ===== *)
theory VersionDag
  imports Operations
begin

text \<open>
  The causal graph of content versions, \<open>src/core/version-dag.ts\<close>.  The graph is the code's
  \<open>nodes\<close> map, from a version id to its node; every walk of the source keeps its explicit stack
  (the head of the list is the top) and its visited set (a list in insertion order), and ends
  because the visited set grows inside the nodes of the graph.  The specification is the
  relation \<open>dag_edge\<close> from a version to its parents and its reflexive-transitive closure.
\<close>

section \<open>The graph\<close>

record VersionNode =
  vn_parents :: "string list"
  vn_contentHash :: string
  vn_fileId :: string

type_synonym dag = "(string, VersionNode) jsmap"

datatype MergeBaseResult = NoBase | MultipleBases | Base string

definition add_parents :: "string \<Rightarrow> string list \<Rightarrow> string list \<Rightarrow> string list" where
  "add_parents versionId parents old =
     fold (\<lambda>p acc. if p \<noteq> versionId \<and> p \<notin> set acc then acc @ [p] else acc) parents old"

definition addVersion ::
  "string \<Rightarrow> string list \<Rightarrow> string \<Rightarrow> string \<Rightarrow> dag \<Rightarrow> dag \<times> bool" where
  "addVersion versionId parents contentHash fileId g =
     (case jm_get g versionId of
        None \<Rightarrow>
          (jm_set versionId
             \<lparr> vn_parents = add_parents versionId parents [], vn_contentHash = contentHash,
               vn_fileId = fileId \<rparr> g, True)
      | Some n \<Rightarrow>
          (let h = (vn_contentHash n = [] \<and> contentHash \<noteq> []);
               f = (vn_fileId n = [] \<and> fileId \<noteq> []);
               ps = add_parents versionId parents (vn_parents n)
           in (jm_set versionId
                 \<lparr> vn_parents = ps, vn_contentHash = (if h then contentHash else vn_contentHash n),
                   vn_fileId = (if f then fileId else vn_fileId n) \<rparr> g,
               h \<or> f \<or> ps \<noteq> vn_parents n)))"

definition dag_has :: "dag \<Rightarrow> string \<Rightarrow> bool" where
  "dag_has g versionId = jm_has g versionId"

definition dag_size :: "dag \<Rightarrow> nat" where
  "dag_size g = length g"

definition hasChild :: "dag \<Rightarrow> string list" where
  "hasChild g = js_set_of (concat (map vn_parents (jm_values g)))"

definition leaves :: "dag \<Rightarrow> string \<Rightarrow> string list" where
  "leaves g fileId =
     map fst (filter (\<lambda>(i, n). vn_fileId n = fileId \<and> i \<notin> set (hasChild g)) g)"

fun bucket_leaves :: "string list \<Rightarrow> dag \<Rightarrow> (string, string list) jsmap \<Rightarrow> (string, string list) jsmap" where
  "bucket_leaves hc [] out = out"
| "bucket_leaves hc ((i, n) # g) out =
     (if vn_fileId n = [] \<or> i \<in> set hc then bucket_leaves hc g out
      else (case jm_get out (vn_fileId n) of
              Some arr \<Rightarrow> bucket_leaves hc g (jm_set (vn_fileId n) (arr @ [i]) out)
            | None \<Rightarrow> bucket_leaves hc g (jm_set (vn_fileId n) [i] out)))"

definition leavesByFile :: "dag \<Rightarrow> (string, string list) jsmap" where
  "leavesByFile g = bucket_leaves (hasChild g) g []"

definition isMergeNode :: "dag \<Rightarrow> string \<Rightarrow> bool" where
  "isMergeNode g versionId =
     ((case jm_get g versionId of None \<Rightarrow> 0 | Some n \<Rightarrow> length (vn_parents n)) \<ge> (2::nat))"

definition contentHashOf :: "dag \<Rightarrow> string \<Rightarrow> string option" where
  "contentHashOf g versionId =
     (case jm_get g versionId of
        None \<Rightarrow> None
      | Some n \<Rightarrow> if vn_contentHash n = [] then None else Some (vn_contentHash n))"

section \<open>The walks\<close>

definition keys_left :: "dag \<Rightarrow> string list \<Rightarrow> nat" where
  "keys_left g seen = card (set (map fst g) - set seen)"

lemma keys_left_less:
  assumes "c \<notin> set seen" and "jm_get g c = Some n"
  shows "keys_left g (seen @ [c]) < keys_left g seen"
proof -
  have "c \<in> set (map fst g)" using assms(2) by (metis map_of_eq_None_iff option.distinct(1) set_map)
  then have "set (map fst g) - set (seen @ [c]) \<subset> set (map fst g) - set seen"
    using assms(1) by auto
  then show ?thesis unfolding keys_left_def by (intro psubset_card_mono) auto
qed

lemma keys_left_same: "jm_get g c = None \<Longrightarrow> keys_left g (seen @ [c]) = keys_left g seen"
proof -
  assume "jm_get g c = None"
  then have "c \<notin> set (map fst g)" by (simp add: map_of_eq_None_iff)
  then have "set (map fst g) - set (seen @ [c]) = set (map fst g) - set seen" by auto
  then show ?thesis by (simp only: keys_left_def)
qed

text \<open>The loop of \<open>ancestors\<close>, which \<open>mergeBase\<close> repeats for its \<open>dominated\<close> set.\<close>

function walk :: "dag \<Rightarrow> string list \<Rightarrow> string list \<Rightarrow> string list" where
  "walk g [] seen = seen"
| "walk g (cur # stack) seen =
     (if cur \<in> set seen then walk g stack seen
      else (case jm_get g cur of
              None \<Rightarrow> walk g stack (seen @ [cur])
            | Some n \<Rightarrow> walk g (rev (vn_parents n) @ stack) (seen @ [cur])))"
  by pat_completeness auto
termination
  by (relation "measures [\<lambda>(g, stack, seen). keys_left g seen, \<lambda>(g, stack, seen). length stack]")
    (auto simp: keys_left_less keys_left_same)

definition ancestors :: "dag \<Rightarrow> string \<Rightarrow> string list" where
  "ancestors g h = walk g [h] []"

text \<open>The loop of \<open>isAncestor\<close>, which returns as soon as it sees the id.\<close>

function anc_loop :: "dag \<Rightarrow> string \<Rightarrow> string list \<Rightarrow> string list \<Rightarrow> bool" where
  "anc_loop g a [] seen = False"
| "anc_loop g a (cur # stack) seen =
     (if cur \<in> set seen then anc_loop g a stack seen
      else (case jm_get g cur of
              None \<Rightarrow> anc_loop g a stack (seen @ [cur])
            | Some n \<Rightarrow>
                if a \<in> set (vn_parents n) then True
                else anc_loop g a (rev (vn_parents n) @ stack) (seen @ [cur])))"
  by pat_completeness auto
termination
  by (relation "measures [\<lambda>(g, a, stack, seen). keys_left g seen, \<lambda>(g, a, stack, seen). length stack]")
    (auto simp: keys_left_less keys_left_same)

definition isAncestor :: "dag \<Rightarrow> string \<Rightarrow> string \<Rightarrow> bool" where
  "isAncestor g maybeAncestor descendant =
     (if maybeAncestor = descendant then True else anc_loop g maybeAncestor [descendant] [])"

definition parents_in :: "dag \<Rightarrow> string \<Rightarrow> string list" where
  "parents_in g c = (case jm_get g c of None \<Rightarrow> [] | Some n \<Rightarrow> vn_parents n)"

fun pick_base :: "string list \<Rightarrow> string list \<Rightarrow> string option \<Rightarrow> nat \<Rightarrow> MergeBaseResult" where
  "pick_base [] dominated base cnt =
     (if cnt = 1 then (case base of Some m \<Rightarrow> Base m | None \<Rightarrow> NoBase) else MultipleBases)"
| "pick_base (c # cs) dominated base cnt =
     (if c \<in> set dominated then pick_base cs dominated base cnt
      else if cnt + 1 > 1 then MultipleBases
      else pick_base cs dominated (Some c) (cnt + 1))"

definition mergeBase :: "dag \<Rightarrow> string \<Rightarrow> string \<Rightarrow> MergeBaseResult" where
  "mergeBase g a b =
     (let ancA = ancestors g a;
          ancB = ancestors g b;
          common = filter (\<lambda>h. h \<in> set ancB) ancA
      in if common = [] then NoBase
         else (let stack = rev (concat (map (parents_in g) common));
                   dominated = walk g stack []
               in pick_base common dominated None 0))"

section \<open>The walk over content hashes, by generations\<close>

definition universe :: "dag \<Rightarrow> string list" where
  "universe g = concat (map (\<lambda>(i, n). i # vn_parents n) g)"

definition push_new :: "string list \<Rightarrow> string list \<times> string list \<Rightarrow> string list \<times> string list" where
  "push_new ps sn = fold (\<lambda>p (seen, next). if p \<in> set seen then (seen, next) else (seen @ [p], next @ [p])) ps sn"

fun generation ::
  "dag \<Rightarrow> (string \<Rightarrow> bool) option \<Rightarrow> nat option \<Rightarrow> nat \<Rightarrow> string list \<Rightarrow>
     string list \<times> string list \<times> string list \<Rightarrow> string list \<times> string list \<times> string list" where
  "generation g has maxDepth depth [] st = st"
| "generation g has maxDepth depth (cur # frontier) (out, seen, next) =
     (case jm_get g cur of
        None \<Rightarrow> generation g has maxDepth depth frontier (out, seen, next)
      | Some n \<Rightarrow>
          (let out' = (if vn_contentHash n \<noteq> [] then js_add (vn_contentHash n) out else out);
               gone = (case has of None \<Rightarrow> False
                       | Some h \<Rightarrow> depth > 0 \<and> vn_contentHash n \<noteq> [] \<and> \<not> h (vn_contentHash n))
           in if gone \<or> maxDepth = Some depth
              then generation g has maxDepth depth frontier (out', seen, next)
              else (case push_new (vn_parents n) (seen, next) of
                      (seen', next') \<Rightarrow> generation g has maxDepth depth frontier (out', seen', next'))))"

lemma push_new_spec:
  "push_new ps (seen, next) = (seen', next') \<Longrightarrow>
     \<exists>new. seen' = seen @ new \<and> next' = next @ new \<and> distinct new \<and>
           set new = set ps - set seen"
proof (induction ps arbitrary: seen "next")
  case (Cons p ps)
  show ?case
  proof (cases "p \<in> set seen")
    case True
    with Cons show ?thesis by (fastforce simp: push_new_def)
  next
    case False
    with Cons.prems have "push_new ps (seen @ [p], next @ [p]) = (seen', next')"
      by (simp add: push_new_def)
    from Cons.IH [OF this] obtain new where
      "seen' = (seen @ [p]) @ new" "next' = (next @ [p]) @ new" "distinct new"
      "set new = set ps - set (seen @ [p])" by blast
    with False show ?thesis by (intro exI [of _ "p # new"]) auto
  qed
qed (simp add: push_new_def)

lemma parents_universe: "jm_get g c = Some n \<Longrightarrow> set (vn_parents n) \<subseteq> set (universe g)"
  by (force simp: universe_def dest: map_of_SomeD)

lemma generation_new:
  "generation g has md d fr (out, seen, next) = (out', seen', next') \<Longrightarrow>
     \<exists>new. seen' = seen @ new \<and> next' = next @ new \<and> set new \<subseteq> set (universe g) - set seen"
proof (induction g has md d fr "(out, seen, next)" arbitrary: out seen "next" rule: generation.induct)
  case (2 g has md d cur fr out seen "next")
  show ?case
  proof (cases "jm_get g cur")
    case None
    with 2 show ?thesis by simp
  next
    case (Some n)
    let ?gone = "case has of None \<Rightarrow> False
                  | Some h \<Rightarrow> d > 0 \<and> vn_contentHash n \<noteq> [] \<and> \<not> h (vn_contentHash n)"
    show ?thesis
    proof (cases "?gone \<or> md = Some d")
      case True
      with 2 Some show ?thesis by (simp add: Let_def)
    next
      case False
      obtain s1 n1 where p: "push_new (vn_parents n) (seen, next) = (s1, n1)" by fastforce
      from push_new_spec [OF p] parents_universe [OF Some] obtain new where
        new: "s1 = seen @ new" "n1 = next @ new" "set new \<subseteq> set (universe g) - set seen" by blast
      have rest: "generation g has md d fr
          (if vn_contentHash n \<noteq> [] then js_add (vn_contentHash n) out else out, s1, n1) = (out', seen', next')"
        using 2(4) Some False p by (simp add: Let_def)
      from 2(3) [OF Some refl refl False p [symmetric] rest] obtain new' where
        "seen' = s1 @ new'" "next' = n1 @ new'" "set new' \<subseteq> set (universe g) - set s1"
        by blast
      with new show ?thesis by (intro exI [of _ "new @ new'"]) auto
    qed
  qed
qed auto

lemma new_marks_smaller:
  assumes "set new \<subseteq> U - set seen" and "new \<noteq> []" and "finite U"
  shows "card (U - set (seen @ new)) < card (U - set seen)"
proof -
  have "U - set (seen @ new) \<subset> U - set seen" using assms(1,2) by (cases new) auto
  then show ?thesis using assms(3) by (intro psubset_card_mono) auto
qed

lemma generation_progress:
  assumes "generation g has md d fr (out, seen, []) = (out', seen', next')"
  shows "card (set (universe g) - set seen') < card (set (universe g) - set seen) \<or>
         (seen' = seen \<and> next' = [])"
proof -
  from generation_new [OF assms] obtain new where
    new: "seen' = seen @ new" "next' = new" "set new \<subseteq> set (universe g) - set seen" by auto
  show ?thesis
    using new new_marks_smaller [OF new(3)] by (cases "new = []") auto
qed

function reach_loop ::
  "dag \<Rightarrow> (string \<Rightarrow> bool) option \<Rightarrow> nat option \<Rightarrow> nat \<Rightarrow> string list \<Rightarrow> string list \<Rightarrow> string list \<Rightarrow> string list" where
  "reach_loop g has maxDepth depth out seen frontier =
     (if frontier = [] \<or> (case maxDepth of None \<Rightarrow> False | Some d \<Rightarrow> d < depth) then out
      else (case generation g has maxDepth depth frontier (out, seen, []) of
              (out', seen', next) \<Rightarrow> reach_loop g has maxDepth (depth + 1) out' seen' next))"
  by pat_completeness auto
termination
  by (relation "measures [\<lambda>(g, has, md, d, out, seen, fr). card (set (universe g) - set seen),
                           \<lambda>(g, has, md, d, out, seen, fr). length fr]")
    (auto split: prod.splits dest: generation_progress)

declare reach_loop.simps [simp del]

definition reachableContentHashes ::
  "dag \<Rightarrow> string \<Rightarrow> (string \<Rightarrow> bool) option \<Rightarrow> nat option \<Rightarrow> string list" where
  "reachableContentHashes g versionId has maxDepth =
     reach_loop g has maxDepth 0 [] [versionId] [versionId]"

section \<open>Pruning\<close>

definition mark_roots :: "string list \<Rightarrow> string list \<times> string list" where
  "mark_roots roots =
     fold (\<lambda>r (keep, stack). if r \<noteq> [] \<and> r \<notin> set keep then (keep @ [r], r # stack) else (keep, stack))
       roots ([], [])"

definition mark_parents :: "string list \<Rightarrow> string list \<times> string list \<Rightarrow> string list \<times> string list" where
  "mark_parents ps ks =
     fold (\<lambda>p (keep, stack). if p \<notin> set keep then (keep @ [p], p # stack) else (keep, stack)) ps ks"

lemma mark_parents_spec:
  "mark_parents ps (keep, stack) = (keep', stack') \<Longrightarrow>
     \<exists>new. keep' = keep @ new \<and> stack' = rev new @ stack \<and> set new = set ps - set keep"
proof (induction ps arbitrary: keep stack)
  case (Cons p ps)
  show ?case
  proof (cases "p \<in> set keep")
    case True
    with Cons show ?thesis by (fastforce simp: mark_parents_def)
  next
    case False
    with Cons.prems have "mark_parents ps (keep @ [p], p # stack) = (keep', stack')"
      by (simp add: mark_parents_def)
    from Cons.IH [OF this] obtain new where
      "keep' = (keep @ [p]) @ new" "stack' = rev new @ p # stack" "set new = set ps - set (keep @ [p])"
      by blast
    with False show ?thesis by (intro exI [of _ "p # new"]) auto
  qed
qed (simp add: mark_parents_def)

lemma mark_parents_progress:
  assumes "jm_get g cur = Some n" and "mark_parents (vn_parents n) (keep, stack) = (keep', stack')"
  shows "card (set (universe g) - set keep') < card (set (universe g) - set keep) \<or>
         (keep' = keep \<and> stack' = stack)"
proof -
  from mark_parents_spec [OF assms(2)] obtain new where
    new: "keep' = keep @ new" "stack' = rev new @ stack" "set new = set (vn_parents n) - set keep" by auto
  then have "set new \<subseteq> set (universe g) - set keep" using parents_universe [OF assms(1)] by auto
  then show ?thesis using new new_marks_smaller [of new "set (universe g)" keep] by (cases "new = []") auto
qed

function mark_loop :: "dag \<Rightarrow> string list \<Rightarrow> string list \<Rightarrow> string list" where
  "mark_loop g keep [] = keep"
| "mark_loop g keep (cur # stack) =
     (case jm_get g cur of
        None \<Rightarrow> mark_loop g keep stack
      | Some n \<Rightarrow> (case mark_parents (vn_parents n) (keep, stack) of
                    (keep', stack') \<Rightarrow> mark_loop g keep' stack'))"
  by pat_completeness auto
termination
  by (relation "measures [\<lambda>(g, keep, stack). card (set (universe g) - set keep),
                           \<lambda>(g, keep, stack). length stack]")
    (auto split: prod.splits dest: mark_parents_progress)

definition dag_prune :: "string list \<Rightarrow> dag \<Rightarrow> dag \<times> nat" where
  "dag_prune roots g =
     (case mark_roots roots of
        (keep, stack) \<Rightarrow>
          (let marked = mark_loop g keep stack
           in (filter (\<lambda>(i, n). i \<in> set marked) g, length (filter (\<lambda>(i, n). i \<notin> set marked) g))))"

definition sweepToRoots :: "string list \<Rightarrow> dag \<Rightarrow> dag \<times> nat" where
  "sweepToRoots roots g =
     (if dag_size g = 0 \<or> roots = [] then (g, 0)
      else if \<not> list_ex (dag_has g) roots then (g, 0)
      else dag_prune roots g)"

section \<open>Persistence\<close>

definition dag_clone :: "dag \<Rightarrow> dag" where
  "dag_clone g =
     map (\<lambda>(i, n). (i, \<lparr> vn_parents = js_set_of (vn_parents n), vn_contentHash = vn_contentHash n,
                          vn_fileId = vn_fileId n \<rparr>)) g"

text \<open>A record of the snapshot file: a field is \<open>None\<close> when it is missing or not of its type.\<close>

record dag_json =
  dj_parents :: "string option list option"
  dj_contentHash :: "string option"
  dj_fileId :: "string option"

definition dag_toJSON :: "dag \<Rightarrow> (string \<times> dag_json) list" where
  "dag_toJSON g =
     map (\<lambda>(i, n). (i, \<lparr> dj_parents = Some (map Some (vn_parents n)),
                          dj_contentHash = Some (vn_contentHash n), dj_fileId = Some (vn_fileId n) \<rparr>)) g"

definition dag_fromJSON :: "(string \<times> dag_json) list option \<Rightarrow> dag" where
  "dag_fromJSON obj =
     (case obj of
        None \<Rightarrow> []
      | Some recs \<Rightarrow>
          fold (\<lambda>(i, r) g.
                  fst (addVersion i
                         (case dj_parents r of None \<Rightarrow> [] | Some ps \<Rightarrow> List.map_filter (\<lambda>p. p) ps)
                         (case dj_contentHash r of None \<Rightarrow> [] | Some h \<Rightarrow> h)
                         (case dj_fileId r of None \<Rightarrow> [] | Some f \<Rightarrow> f) g))
            recs [])"

end
