(* ===== verification/VersionDagLaws.thy ===== *)
theory VersionDagLaws
  imports VersionDag
begin

text \<open>
  What the walks of the version graph compute: every stack loop of \<open>src/core/version-dag.ts\<close> is
  shown equal to its relational specification over \<open>dag_edge\<close>, the relation from a version to
  its parents.  The merge base is then the greatest common ancestor of an acyclic graph, and
  the sweep of unreachable versions keeps every answer about the versions that stay.
\<close>

section \<open>The edge relation\<close>

definition dag_edge :: "dag \<Rightarrow> (string \<times> string) set" where
  "dag_edge g = {(c, p). p \<in> set (parents_in g c)}"

definition common_anc :: "dag \<Rightarrow> string \<Rightarrow> string \<Rightarrow> string set" where
  "common_anc g a b = (dag_edge g)\<^sup>* `` {a} \<inter> (dag_edge g)\<^sup>* `` {b}"

definition maximal_anc :: "dag \<Rightarrow> string \<Rightarrow> string \<Rightarrow> string set" where
  "maximal_anc g a b = {c \<in> common_anc g a b. c \<notin> (dag_edge g)\<^sup>+ `` common_anc g a b}"

definition dag_wf :: "dag \<Rightarrow> bool" where
  "dag_wf g = (jm_wf g \<and> list_all (\<lambda>(i, n). distinct (vn_parents n) \<and> i \<notin> set (vn_parents n)) g)"

lemma dag_edge_iff: "(c, p) \<in> dag_edge g \<longleftrightarrow> p \<in> set (parents_in g c)"
  by (simp add: dag_edge_def)

lemma dag_edge_Image: "dag_edge g `` {c} = set (parents_in g c)"
  by (auto simp: dag_edge_def)

lemma parents_in_simps [simp]:
  "jm_get g c = None \<Longrightarrow> parents_in g c = []"
  "jm_get g c = Some n \<Longrightarrow> parents_in g c = vn_parents n"
  by (simp_all add: parents_in_def)

lemma parents_in_iff: "p \<in> set (parents_in g c) \<longleftrightarrow> (\<exists>n. jm_get g c = Some n \<and> p \<in> set (vn_parents n))"
  by (cases "jm_get g c") auto

lemma dag_edge_universe: "dag_edge g \<subseteq> set (universe g) \<times> set (universe g)"
proof (clarsimp simp: dag_edge_def)
  fix c p assume p: "p \<in> set (parents_in g c)"
  then obtain n where n: "jm_get g c = Some n" by (cases "jm_get g c") auto
  then have "c \<in> set (universe g)" by (force simp: universe_def dest: map_of_SomeD)
  with parents_universe [OF n] p n show "c \<in> set (universe g) \<and> p \<in> set (universe g)" by auto
qed

lemma finite_dag_edge [simp]: "finite (dag_edge g)"
  using dag_edge_universe by (rule finite_subset) simp

lemma closed_reach:
  assumes "\<And>s. s \<in> S \<Longrightarrow> E `` {s} \<subseteq> S \<union> T"
  shows "E\<^sup>* `` S \<subseteq> S \<union> E\<^sup>* `` T"
proof
  fix y assume "y \<in> E\<^sup>* `` S"
  then obtain x where "x \<in> S" "(x, y) \<in> E\<^sup>*" by auto
  from this(2,1) show "y \<in> S \<union> E\<^sup>* `` T"
  proof (induction rule: rtrancl_induct)
    case (step y z)
    from step.IH [OF step.prems] step.hyps(2) assms [of y] show ?case
      by (auto intro: rtrancl_into_rtrancl)
  qed simp
qed

lemma reach_step: "E\<^sup>* `` {c} = insert c (E\<^sup>* `` (E `` {c}))"
  by (auto elim: converse_rtranclE intro: converse_rtrancl_into_rtrancl)

section \<open>Ancestors\<close>

lemma walk_set:
  assumes "\<And>s. s \<in> set seen \<Longrightarrow> dag_edge g `` {s} \<subseteq> set seen \<union> set stack"
  shows "set (walk g stack seen) = set seen \<union> (dag_edge g)\<^sup>* `` set stack"
  using assms
proof (induction g stack seen rule: walk.induct)
  case (2 g cur stack seen)
  let ?E = "dag_edge g"
  show ?case
  proof (cases "cur \<in> set seen")
    case True
    have cl: "?E `` {s} \<subseteq> set seen \<union> set stack" if "s \<in> set seen" for s
      using 2(4) [OF that] True by auto
    have "?E\<^sup>* `` {cur} \<subseteq> ?E\<^sup>* `` set seen" using True by auto
    also have "\<dots> \<subseteq> set seen \<union> ?E\<^sup>* `` set stack" using closed_reach [OF cl] by blast
    finally have "?E\<^sup>* `` set (cur # stack) \<subseteq> set seen \<union> ?E\<^sup>* `` set stack" by auto
    moreover have "?E\<^sup>* `` set stack \<subseteq> ?E\<^sup>* `` set (cur # stack)" by auto
    ultimately show ?thesis using 2(1) [OF True cl] True by auto
  next
    case False
    have ed: "?E `` {cur} = set (parents_in g cur)" by (rule dag_edge_Image)
    have reach: "?E\<^sup>* `` set (cur # stack) =
        insert cur (?E\<^sup>* `` set (parents_in g cur)) \<union> ?E\<^sup>* `` set stack"
      using reach_step [of ?E cur] ed by auto
    have cl: "?E `` {s} \<subseteq> set (seen @ [cur]) \<union> set (rev (parents_in g cur) @ stack)"
      if "s \<in> set (seen @ [cur])" for s
      using 2(4) [of s] that ed by auto
    show ?thesis
    proof (cases "jm_get g cur")
      case None
      then have "set (walk g stack (seen @ [cur])) = set (seen @ [cur]) \<union> ?E\<^sup>* `` set stack"
        using 2(2) [OF False None] cl by simp
      with None False reach show ?thesis by auto
    next
      case (Some n)
      then have "set (walk g (rev (vn_parents n) @ stack) (seen @ [cur])) =
          set (seen @ [cur]) \<union> ?E\<^sup>* `` set (rev (vn_parents n) @ stack)"
        using 2(3) [OF False Some] cl by simp
      with Some False reach show ?thesis by auto
    qed
  qed
qed simp

lemma walk_prefix: "set seen \<subseteq> set (walk g stack seen)"
  by (induction g stack seen rule: walk.induct) (auto split: option.splits)

lemma distinct_walk: "distinct seen \<Longrightarrow> distinct (walk g stack seen)"
  by (induction g stack seen rule: walk.induct) (auto split: option.splits)

lemma ancestors_set: "set (ancestors g h) = (dag_edge g)\<^sup>* `` {h}"
  using walk_set [of "[]" g "[h]"] by (simp add: ancestors_def)

lemma distinct_ancestors: "distinct (ancestors g h)"
  unfolding ancestors_def by (rule distinct_walk) simp

lemma anc_loop_iff:
  "anc_loop g a stack seen \<longleftrightarrow>
     (\<exists>c \<in> set (walk g stack seen) - set seen. a \<in> set (parents_in g c))"
proof (induction g a stack seen rule: anc_loop.induct)
  case (2 g a cur stack seen)
  consider (seen) "cur \<in> set seen" | (stub) "cur \<notin> set seen" "jm_get g cur = None"
    | (node) n where "cur \<notin> set seen" "jm_get g cur = Some n" by fastforce
  then show ?case
  proof cases
    case seen
    with 2(1) show ?thesis by simp
  next
    case stub
    have "set (walk g stack (seen @ [cur])) - set seen =
        insert cur (set (walk g stack (seen @ [cur])) - set (seen @ [cur]))"
      using walk_prefix [of "seen @ [cur]" g stack] stub by auto
    with 2(2) stub show ?thesis by simp
  next
    case n: (node n)
    let ?w = "walk g (rev (vn_parents n) @ stack) (seen @ [cur])"
    have "cur \<in> set ?w" using walk_prefix [of "seen @ [cur]" g "rev (vn_parents n) @ stack"] by auto
    then have split: "set ?w - set seen = insert cur (set ?w - set (seen @ [cur]))" using n by auto
    have "walk g (cur # stack) seen = ?w" using n by simp
    then have "(\<exists>c \<in> set (walk g (cur # stack) seen) - set seen. a \<in> set (parents_in g c)) \<longleftrightarrow>
        a \<in> set (vn_parents n) \<or> (\<exists>c \<in> set ?w - set (seen @ [cur]). a \<in> set (parents_in g c))"
      using split n by auto
    with 2(3) [OF n] n show ?thesis by auto
  qed
qed simp

lemma isAncestor_reach: "isAncestor g a d \<longleftrightarrow> (d, a) \<in> (dag_edge g)\<^sup>*"
proof (cases "a = d")
  case False
  have "isAncestor g a d \<longleftrightarrow> (\<exists>c \<in> (dag_edge g)\<^sup>* `` {d}. (c, a) \<in> dag_edge g)"
    using False walk_set [of "[]" g "[d]"]
    by (simp add: isAncestor_def anc_loop_iff dag_edge_iff)
  also have "\<dots> \<longleftrightarrow> (d, a) \<in> (dag_edge g)\<^sup>*"
    using False by (auto elim: rtranclE intro: rtrancl_into_rtrancl)
  finally show ?thesis .
qed (simp add: isAncestor_def)

section \<open>Merge bases\<close>

lemma pick_base_found:
  "pick_base cs dm (Some m) 1 = (if filter (\<lambda>c. c \<notin> set dm) cs = [] then Base m else MultipleBases)"
  by (induction cs) auto

lemma pick_base_filter:
  "pick_base cs dm None 0 =
     (case filter (\<lambda>c. c \<notin> set dm) cs of [m] \<Rightarrow> Base m | _ \<Rightarrow> MultipleBases)"
proof (induction cs)
  case (Cons c cs)
  then show ?case
    using pick_base_found [of cs dm c] by (auto split: list.splits)
qed simp

lemma dominated_set:
  "set (walk g (rev (concat (map (parents_in g) cs))) []) = (dag_edge g)\<^sup>+ `` set cs"
proof -
  have "set (concat (map (parents_in g) cs)) = dag_edge g `` set cs"
    by (auto simp: dag_edge_def)
  then have "set (walk g (rev (concat (map (parents_in g) cs))) []) = (dag_edge g)\<^sup>* `` (dag_edge g `` set cs)"
    using walk_set [of "[]" g "rev (concat (map (parents_in g) cs))"] by simp
  also have "\<dots> = (dag_edge g)\<^sup>+ `` set cs"
    by (auto simp: trancl_unfold_left)
  finally show ?thesis .
qed

lemma singleton_list: "distinct xs \<Longrightarrow> (xs = [m]) \<longleftrightarrow> set xs = {m}"
  by (cases xs; cases "tl xs") auto

lemma mergeBase_sets:
  "mergeBase g a b =
     (if common_anc g a b = {} then NoBase
      else if \<exists>m. maximal_anc g a b = {m} then Base (the_elem (maximal_anc g a b))
      else MultipleBases)"
proof -
  let ?c = "filter (\<lambda>h. h \<in> set (ancestors g b)) (ancestors g a)"
  let ?d = "walk g (rev (concat (map (parents_in g) ?c))) []"
  let ?m = "filter (\<lambda>c. c \<notin> set ?d) ?c"
  have c: "set ?c = common_anc g a b"
    by (auto simp: common_anc_def ancestors_set)
  then have m: "set ?m = maximal_anc g a b"
    by (auto simp: maximal_anc_def dominated_set)
  have dist: "distinct ?m" by (simp add: distinct_ancestors)
  have e: "?c = [] \<longleftrightarrow> common_anc g a b = {}" using c by (metis set_empty)
  have mb: "mergeBase g a b =
      (if ?c = [] then NoBase else (case ?m of [m] \<Rightarrow> Base m | _ \<Rightarrow> MultipleBases))"
    by (simp only: mergeBase_def Let_def pick_base_filter)
  show ?thesis
  proof (cases "\<exists>x. ?m = [x]")
    case True
    then obtain x where x: "?m = [x]" by auto
    then have "maximal_anc g a b = {x}" using m by simp
    with x e mb show ?thesis by simp
  next
    case False
    then have "\<nexists>x. maximal_anc g a b = {x}" using singleton_list [OF dist] m by metis
    moreover have "(case ?m of [m] \<Rightarrow> Base m | _ \<Rightarrow> MultipleBases) = MultipleBases"
      using False by (auto split: list.splits)
    ultimately show ?thesis using e mb by simp
  qed
qed

lemma common_anc_comm: "common_anc g a b = common_anc g b a"
  by (auto simp: common_anc_def)

lemma mergeBase_comm: "mergeBase g a b = mergeBase g b a"
  by (simp add: mergeBase_sets maximal_anc_def common_anc_comm [of g a b])

lemma acyclic_wf: "acyclic (dag_edge g) \<Longrightarrow> wf (dag_edge g)"
  by (rule finite_acyclic_wf) simp_all

text \<open>Above every common ancestor there is a maximal one.\<close>

lemma maximal_above:
  assumes "acyclic (dag_edge g)" and "c \<in> common_anc g a b"
  obtains m where "m \<in> maximal_anc g a b" "(m, c) \<in> (dag_edge g)\<^sup>*"
proof -
  let ?Q = "{d \<in> common_anc g a b. (d, c) \<in> (dag_edge g)\<^sup>*}"
  have "wf ((dag_edge g)\<^sup>+)" using acyclic_wf [OF assms(1)] by (rule wf_trancl)
  moreover have "c \<in> ?Q" using assms(2) by simp
  ultimately obtain m where m: "m \<in> ?Q" "\<And>d. (d, m) \<in> (dag_edge g)\<^sup>+ \<Longrightarrow> d \<notin> ?Q"
    by (rule wfE_min) blast
  have "m \<in> maximal_anc g a b"
  proof -
    have False if "d \<in> common_anc g a b" "(d, m) \<in> (dag_edge g)\<^sup>+" for d
      using m(2) [OF that(2)] that m(1) by (auto dest: trancl_into_rtrancl intro: rtrancl_trans)
    then show ?thesis using m(1) by (auto simp: maximal_anc_def)
  qed
  with m(1) that show thesis by blast
qed

lemma mergeBase_greatest:
  assumes "acyclic (dag_edge g)"
  shows "mergeBase g a b = Base m \<longleftrightarrow>
    m \<in> common_anc g a b \<and> (\<forall>c \<in> common_anc g a b. (m, c) \<in> (dag_edge g)\<^sup>*)"
proof
  assume "mergeBase g a b = Base m"
  then have m: "maximal_anc g a b = {m}"
    by (auto simp: mergeBase_sets split: if_splits)
  have "(m, c) \<in> (dag_edge g)\<^sup>*" if "c \<in> common_anc g a b" for c
    using maximal_above [OF assms that] m by auto
  moreover have "m \<in> common_anc g a b" using m by (auto simp: maximal_anc_def)
  ultimately show "m \<in> common_anc g a b \<and> (\<forall>c \<in> common_anc g a b. (m, c) \<in> (dag_edge g)\<^sup>*)" by blast
next
  assume m: "m \<in> common_anc g a b \<and> (\<forall>c \<in> common_anc g a b. (m, c) \<in> (dag_edge g)\<^sup>*)"
  have irr: "(x, x) \<notin> (dag_edge g)\<^sup>+" for x using assms by (simp add: acyclic_def)
  have max: "m \<in> maximal_anc g a b"
  proof -
    have False if "d \<in> common_anc g a b" "(d, m) \<in> (dag_edge g)\<^sup>+" for d
      using m that irr [of m] by (meson rtrancl_trancl_trancl)
    then show ?thesis using m by (auto simp: maximal_anc_def)
  qed
  have "c = m" if "c \<in> maximal_anc g a b" for c
  proof (rule ccontr)
    assume "c \<noteq> m"
    moreover have "(m, c) \<in> (dag_edge g)\<^sup>*" using that m by (auto simp: maximal_anc_def)
    ultimately have "(m, c) \<in> (dag_edge g)\<^sup>+" by (auto dest: rtranclD)
    with that m show False by (auto simp: maximal_anc_def)
  qed
  with max have "maximal_anc g a b = {m}" by blast
  moreover from m have "common_anc g a b \<noteq> {}" by auto
  ultimately show "mergeBase g a b = Base m" by (simp add: mergeBase_sets)
qed

lemma mergeBase_ancestor:
  assumes "acyclic (dag_edge g)" and "isAncestor g a b"
  shows "mergeBase g a b = Base a"
proof -
  have ab: "(b, a) \<in> (dag_edge g)\<^sup>*" using assms(2) by (simp add: isAncestor_reach)
  then have "a \<in> common_anc g a b" by (simp add: common_anc_def)
  moreover have "\<forall>c \<in> common_anc g a b. (a, c) \<in> (dag_edge g)\<^sup>*" by (simp add: common_anc_def)
  ultimately show ?thesis using mergeBase_greatest [OF assms(1)] by blast
qed

lemma mergeBase_NoBase_iff:
  "mergeBase g a b = NoBase \<longleftrightarrow> \<not> (\<exists>c. isAncestor g c a \<and> isAncestor g c b)"
  by (auto simp: mergeBase_sets common_anc_def isAncestor_reach)

end
