(* ===== verification/VersionDagSweep.thy ===== *)
theory VersionDagSweep
  imports VersionDagLaws
begin

text \<open>
  The rest of the laws of the version graph: recording a version is a union of edges, the
  leaves by file agree with the leaves of each file, the sweep keeps the ancestors of its roots
  with every answer about them, the bounded walk collects the hashes it can reach through
  stored versions, and the snapshot of the graph reads back as the same graph.
\<close>

section \<open>Recording versions\<close>

lemma set_add_parents [simp]: "set (add_parents v ps old) = set old \<union> (set ps - {v})"
  by (induction ps arbitrary: old) (auto simp: add_parents_def)

lemma distinct_add_parents: "distinct old \<Longrightarrow> distinct (add_parents v ps old)"
  by (induction ps arbitrary: old) (auto simp: add_parents_def)

lemma add_parents_known: "set ps - {v} \<subseteq> set old \<Longrightarrow> add_parents v ps old = old"
  by (induction ps arbitrary: old) (auto simp: add_parents_def)

lemma add_parents_fresh:
  "distinct (old @ ps) \<Longrightarrow> v \<notin> set ps \<Longrightarrow> add_parents v ps old = old @ ps"
  by (induction ps arbitrary: old) (auto simp: add_parents_def)

lemma jm_set_same: "jm_get m k = Some v \<Longrightarrow> jm_set k v m = m"
  by (induction m) auto

lemma addVersion_edges:
  "dag_edge (fst (addVersion v ps h f g)) = dag_edge g \<union> {v} \<times> (set ps - {v})"
  by (auto simp: dag_edge_def parents_in_def addVersion_def Let_def split: option.splits if_splits)

lemma addVersion_has: "dag_has (fst (addVersion v ps h f g)) u \<longleftrightarrow> u = v \<or> dag_has g u"
  by (auto simp: dag_has_def jm_has_def addVersion_def Let_def split: option.splits)

lemma addVersion_hash:
  "contentHashOf (fst (addVersion v ps h f g)) u =
     (if u = v \<and> contentHashOf g v = None then (if h = [] then None else Some h) else contentHashOf g u)"
  by (auto simp: contentHashOf_def addVersion_def Let_def split: option.splits)

lemma addVersion_known:
  assumes "jm_get g v = Some n" and "set ps - {v} \<subseteq> set (vn_parents n)"
    and "h = [] \<or> vn_contentHash n \<noteq> []" and "f = [] \<or> vn_fileId n \<noteq> []"
  shows "addVersion v ps h f g = (g, False)"
proof -
  have ap: "add_parents v ps (vn_parents n) = vn_parents n" using assms(2) by (rule add_parents_known)
  obtain P H F where n: "n = \<lparr> vn_parents = P, vn_contentHash = H, vn_fileId = F \<rparr>"
    by (cases n)
  show ?thesis
    using assms(1,3,4) ap jm_set_same [OF assms(1)] unfolding n by (auto simp: addVersion_def Let_def)
qed

lemma addVersion_again:
  "addVersion v ps h f (fst (addVersion v ps h f g)) = (fst (addVersion v ps h f g), False)"
proof (cases "jm_get g v")
  case None
  then show ?thesis by (intro addVersion_known) (auto simp: addVersion_def)
next
  case (Some n)
  then show ?thesis
    by (intro addVersion_known [where n = "\<lparr> vn_parents = add_parents v ps (vn_parents n),
          vn_contentHash = (if vn_contentHash n = [] \<and> h \<noteq> [] then h else vn_contentHash n),
          vn_fileId = (if vn_fileId n = [] \<and> f \<noteq> [] then f else vn_fileId n) \<rparr>"])
      (auto simp: addVersion_def Let_def)
qed

lemma addVersion_unchanged: "snd (addVersion v ps h f g) = False \<Longrightarrow> fst (addVersion v ps h f g) = g"
  by (auto simp: addVersion_def Let_def split: option.splits intro!: jm_set_same)

lemma dag_wf_Nil [simp]: "dag_wf []"
  by (simp add: dag_wf_def)

lemma dag_wf_get: "dag_wf g \<Longrightarrow> jm_get g i = Some n \<Longrightarrow> distinct (vn_parents n) \<and> i \<notin> set (vn_parents n)"
  by (auto simp: dag_wf_def list_all_iff dest!: map_of_SomeD)

lemma list_all_set:
  "list_all P m \<Longrightarrow> P (k, v) \<Longrightarrow> list_all P (jm_set k v m)"
  by (induction m) auto

lemma dag_wf_addVersion: "dag_wf g \<Longrightarrow> dag_wf (fst (addVersion v ps h f g))"
  using dag_wf_get [of g v]
  by (auto simp: dag_wf_def addVersion_def Let_def distinct_add_parents split: option.splits
      intro!: list_all_set)

text \<open>Versions are recorded after their parents: a rank on ids that every edge lowers.\<close>

lemma acyclic_rank: "(\<And>c p. (c, p) \<in> E \<Longrightarrow> (r p :: nat) < r c) \<Longrightarrow> acyclic E"
proof -
  assume r: "\<And>c p. (c, p) \<in> E \<Longrightarrow> (r p :: nat) < r c"
  have "r y < r x" if "(x, y) \<in> E\<^sup>+" for x y
    using that by (induction rule: trancl_induct) (auto dest: r intro: less_trans)
  then show ?thesis by (auto simp: acyclic_def)
qed

lemma acyclic_addVersion:
  assumes "acyclic (dag_edge g)" and "\<And>p. p \<in> set ps \<Longrightarrow> p \<noteq> v \<Longrightarrow> \<not> isAncestor g v p"
  shows "acyclic (dag_edge (fst (addVersion v ps h f g)))"
proof -
  have "acyclic (dag_edge g \<union> {v} \<times> A)"
    if "finite A" "\<And>p. p \<in> A \<Longrightarrow> (p, v) \<notin> (dag_edge g)\<^sup>*" for A
    using that
  proof (induction A)
    case (insert p A)
    let ?E = "dag_edge g \<union> {v} \<times> A"
    have "(p, z) \<in> (dag_edge g)\<^sup>*" if "(p, z) \<in> ?E\<^sup>*" for z
      using that
    proof (induction rule: rtrancl_induct)
      case (step y z)
      then show ?case using insert.prems by (auto intro: rtrancl_into_rtrancl)
    qed simp
    then have "(p, v) \<notin> ?E\<^sup>*" using insert.prems by auto
    moreover have "dag_edge g \<union> {v} \<times> insert p A = insert (v, p) ?E" by auto
    ultimately show ?case using insert by (auto simp: acyclic_insert)
  qed (simp add: assms(1))
  from this [of "set ps - {v}"] show ?thesis
    using assms(2) by (auto simp: addVersion_edges isAncestor_reach)
qed

section \<open>Leaves by file\<close>

lemma bucket_leaves_get:
  assumes "f \<noteq> []"
  shows "jm_get (bucket_leaves hc g out) f =
    (let l = map fst (filter (\<lambda>(i, n). vn_fileId n = f \<and> i \<notin> set hc) g)
     in case jm_get out f of
          None \<Rightarrow> if l = [] then None else Some l
        | Some arr \<Rightarrow> Some (arr @ l))"
  using assms
proof (induction hc g out rule: bucket_leaves.induct)
  case (2 hc i n g out)
  then show ?case by (cases "jm_get out (vn_fileId n)") (auto simp: Let_def split: option.splits)
qed (auto split: option.splits)

lemma leavesByFile_get:
  "f \<noteq> [] \<Longrightarrow> jm_get (leavesByFile g) f = (if leaves g f = [] then None else Some (leaves g f))"
  by (simp add: leavesByFile_def bucket_leaves_get leaves_def Let_def)

lemma set_hasChild:
  assumes "jm_wf g"
  shows "set (hasChild g) = Range (dag_edge g)"
proof
  show "set (hasChild g) \<subseteq> Range (dag_edge g)"
  proof
    fix p assume "p \<in> set (hasChild g)"
    then obtain i n where "(i, n) \<in> set g" "p \<in> set (vn_parents n)"
      by (auto simp: hasChild_def jm_values_def)
    with assms have "(i, p) \<in> dag_edge g" by (simp add: jm_wf_get dag_edge_iff)
    then show "p \<in> Range (dag_edge g)" by blast
  qed
  show "Range (dag_edge g) \<subseteq> set (hasChild g)"
  proof
    fix p assume "p \<in> Range (dag_edge g)"
    then obtain i where "p \<in> set (parents_in g i)" by (auto simp: dag_edge_iff)
    then obtain n where "jm_get g i = Some n" "p \<in> set (vn_parents n)" by (cases "jm_get g i") auto
    then show "p \<in> set (hasChild g)"
      by (force simp: hasChild_def jm_values_def dest: map_of_SomeD)
  qed
qed

section \<open>The sweep\<close>

lemma mark_roots_set:
  assumes "mark_roots roots = (keep, stack)"
  shows "set keep = set roots - {[]} \<and> set stack = set keep"
proof -
  let ?f = "\<lambda>r (keep, stack). if r \<noteq> [] \<and> r \<notin> set keep then (keep @ [r], r # stack) else (keep, stack)"
  have "fold ?f rs (k, s) = (k', s') \<Longrightarrow> set k = set s \<Longrightarrow>
      set k' = set k \<union> (set rs - {[]}) \<and> set s' = set k'" for rs k s k' s'
    by (induction rs arbitrary: k s) (auto split: if_splits)
  from this [of roots "[]" "[]" keep stack] show ?thesis using assms by (simp add: mark_roots_def)
qed

lemma mark_loop_set:
  assumes "set stack \<subseteq> set keep"
    and "\<And>s. s \<in> set keep - set stack \<Longrightarrow> dag_edge g `` {s} \<subseteq> set keep"
  shows "set (mark_loop g keep stack) = (dag_edge g)\<^sup>* `` set keep"
  using assms
proof (induction g keep stack rule: mark_loop.induct)
  case (1 g keep)
  then have "(dag_edge g)\<^sup>* `` set keep \<subseteq> set keep \<union> (dag_edge g)\<^sup>* `` {}"
    by (intro closed_reach) auto
  then show ?case by auto
next
  case (2 g keep cur stack)
  show ?case
  proof (cases "jm_get g cur")
    case None
    then have "dag_edge g `` {cur} = {}" by (simp add: dag_edge_Image)
    then have "dag_edge g `` {s} \<subseteq> set keep" if "s \<in> set keep - set stack" for s
      using 2(4) [of s] that by (cases "s = cur") auto
    with 2(1) [OF None] 2(3) None show ?thesis by simp
  next
    case (Some n)
    obtain k' s' where m: "mark_parents (vn_parents n) (keep, stack) = (k', s')" by fastforce
    from mark_parents_spec [OF m] obtain new where
      new: "k' = keep @ new" "s' = rev new @ stack" "set new = set (vn_parents n) - set keep" by auto
    have ed: "dag_edge g `` {cur} = set (vn_parents n)" using Some by (simp add: dag_edge_Image)
    have "dag_edge g `` {s} \<subseteq> set k'" if "s \<in> set k' - set s'" for s
    proof (cases "s = cur")
      case True
      then show ?thesis using ed new by auto
    next
      case False
      then show ?thesis using 2(4) [of s] that new by auto
    qed
    moreover have "set s' \<subseteq> set k'" using 2(3) new by auto
    ultimately have IH: "set (mark_loop g k' s') = (dag_edge g)\<^sup>* `` set k'"
      using 2(2) [OF Some m [symmetric]] by blast
    have "(dag_edge g)\<^sup>* `` set k' = (dag_edge g)\<^sup>* `` set keep"
    proof -
      have "cur \<in> set keep" using 2(3) by simp
      then have "set new \<subseteq> (dag_edge g)\<^sup>* `` set keep" using new(3) ed by auto
      then have "(dag_edge g)\<^sup>* `` set k' \<subseteq> (dag_edge g)\<^sup>* `` set keep"
        using new(1) by (auto intro: rtrancl_trans)
      then show ?thesis using new(1) by auto
    qed
    with IH Some m show ?thesis by simp
  qed
qed

definition kept :: "dag \<Rightarrow> string list \<Rightarrow> string set" where
  "kept g roots = (dag_edge g)\<^sup>* `` (set roots - {[]})"

lemma dag_prune_eq:
  "dag_prune roots g =
     (filter (\<lambda>(i, n). i \<in> kept g roots) g, length (filter (\<lambda>(i, n). i \<notin> kept g roots) g))"
proof -
  obtain keep stack where m: "mark_roots roots = (keep, stack)" by fastforce
  have "set (mark_loop g keep stack) = kept g roots"
    using mark_loop_set [of stack keep g] mark_roots_set [OF m] by (simp add: kept_def)
  then show ?thesis by (simp add: dag_prune_def m Let_def)
qed

lemma get_filter_key: "jm_get (filter (\<lambda>(i, n). i \<in> K) g) j = (if j \<in> K then jm_get g j else None)"
  by (induction g) auto

lemma prune_get: "jm_get (fst (dag_prune roots g)) j = (if j \<in> kept g roots then jm_get g j else None)"
  by (simp add: dag_prune_eq get_filter_key)

lemma kept_closed: "c \<in> kept g roots \<Longrightarrow> (c, p) \<in> (dag_edge g)\<^sup>* \<Longrightarrow> p \<in> kept g roots"
  by (auto simp: kept_def intro: rtrancl_trans)

lemma prune_parents:
  "parents_in (fst (dag_prune roots g)) c = (if c \<in> kept g roots then parents_in g c else [])"
  by (simp add: parents_in_def prune_get)

lemma prune_edges: "dag_edge (fst (dag_prune roots g)) = {(c, p). (c, p) \<in> dag_edge g \<and> c \<in> kept g roots}"
  by (auto simp: dag_edge_iff prune_parents split: if_splits)

lemma prune_reach:
  assumes "c \<in> kept g roots"
  shows "(c, p) \<in> (dag_edge (fst (dag_prune roots g)))\<^sup>* \<longleftrightarrow> (c, p) \<in> (dag_edge g)\<^sup>*"
proof
  assume "(c, p) \<in> (dag_edge (fst (dag_prune roots g)))\<^sup>*"
  moreover have "(dag_edge (fst (dag_prune roots g)))\<^sup>* \<subseteq> (dag_edge g)\<^sup>*"
    by (rule rtrancl_mono) (auto simp: prune_edges)
  ultimately show "(c, p) \<in> (dag_edge g)\<^sup>*" by blast
next
  assume "(c, p) \<in> (dag_edge g)\<^sup>*"
  then show "(c, p) \<in> (dag_edge (fst (dag_prune roots g)))\<^sup>*"
  proof (induction rule: rtrancl_induct)
    case (step y z)
    have "y \<in> kept g roots" using kept_closed [OF assms step.hyps(1)] .
    with step.hyps(2) have "(y, z) \<in> dag_edge (fst (dag_prune roots g))" by (simp add: prune_edges)
    with step.IH show ?case by (rule rtrancl_into_rtrancl)
  qed simp
qed

lemma prune_reach_image:
  assumes "S \<subseteq> kept g roots"
  shows "(dag_edge (fst (dag_prune roots g)))\<^sup>* `` S = (dag_edge g)\<^sup>* `` S"
  unfolding Image_def using assms prune_reach by blast

lemma prune_isAncestor:
  "c \<in> kept g roots \<Longrightarrow> isAncestor (fst (dag_prune roots g)) a c = isAncestor g a c"
  by (simp add: isAncestor_reach prune_reach)

lemma prune_common:
  "a \<in> kept g roots \<Longrightarrow> b \<in> kept g roots \<Longrightarrow>
     common_anc (fst (dag_prune roots g)) a b = common_anc g a b"
  by (simp add: common_anc_def prune_reach_image)

lemma trancl_from: "E\<^sup>+ `` S = E\<^sup>* `` (E `` S)"
  by (auto simp: trancl_unfold_left)

lemma prune_maximal:
  assumes "a \<in> kept g roots" and "b \<in> kept g roots"
  shows "maximal_anc (fst (dag_prune roots g)) a b = maximal_anc g a b"
proof -
  have sub: "common_anc g a b \<subseteq> kept g roots"
    using kept_closed [OF assms(1)] by (auto simp: common_anc_def)
  have "(dag_edge (fst (dag_prune roots g)))\<^sup>+ `` {c} = (dag_edge g)\<^sup>+ `` {c}" if "c \<in> kept g roots" for c
  proof -
    have e: "dag_edge (fst (dag_prune roots g)) `` {c} = dag_edge g `` {c}"
      using that by (auto simp: prune_edges)
    have "dag_edge g `` {c} \<subseteq> kept g roots" using kept_closed [OF that] by auto
    note prune_reach_image [OF this]
    then show ?thesis by (simp only: trancl_from e)
  qed
  then have "(dag_edge (fst (dag_prune roots g)))\<^sup>+ `` common_anc g a b = (dag_edge g)\<^sup>+ `` common_anc g a b"
    using sub by blast
  then show ?thesis by (simp add: maximal_anc_def prune_common [OF assms])
qed

lemma prune_mergeBase:
  "a \<in> kept g roots \<Longrightarrow> b \<in> kept g roots \<Longrightarrow>
     mergeBase (fst (dag_prune roots g)) a b = mergeBase g a b"
  by (simp add: mergeBase_sets prune_common prune_maximal)

lemma roots_kept: "r \<in> set roots \<Longrightarrow> r \<noteq> [] \<Longrightarrow> r \<in> kept g roots"
  by (auto simp: kept_def)

lemma prune_count: "dag_size (fst (dag_prune roots g)) + snd (dag_prune roots g) = dag_size g"
proof -
  have "length (filter P g) + length (filter (\<lambda>x. \<not> P x) g) = length g" for P :: "string \<times> VersionNode \<Rightarrow> bool"
    by (rule sum_length_filter_compl)
  from this [of "\<lambda>(i, n). i \<in> kept g roots"] show ?thesis
    by (simp add: dag_prune_eq dag_size_def case_prod_unfold)
qed

lemma sweep_not_empty:
  assumes "dag_size g > 0" and "[] \<notin> set roots"
  shows "dag_size (fst (sweepToRoots roots g)) > 0"
proof (cases "roots = [] \<or> \<not> list_ex (dag_has g) roots")
  case True
  with assms show ?thesis by (auto simp: sweepToRoots_def)
next
  case False
  then obtain r where r: "r \<in> set roots" "dag_has g r" by (auto simp: list_ex_iff)
  then obtain n where "jm_get g r = Some n" by (auto simp: dag_has_def jm_has_def)
  then have "(r, n) \<in> set g" by (rule map_of_SomeD)
  moreover have "r \<in> kept g roots" using r(1) assms(2) by (metis roots_kept)
  ultimately have "(r, n) \<in> set (fst (dag_prune roots g))" by (simp add: dag_prune_eq)
  then have "dag_size (fst (dag_prune roots g)) > 0" by (auto simp: dag_size_def)
  with False assms show ?thesis by (simp add: sweepToRoots_def)
qed

section \<open>Reachable content hashes\<close>

definition hashes :: "dag \<Rightarrow> string set \<Rightarrow> string set" where
  "hashes g A = {x. \<exists>c \<in> A. contentHashOf g c = Some x}"

definition stored :: "dag \<Rightarrow> (string \<Rightarrow> bool) option \<Rightarrow> string \<Rightarrow> bool" where
  "stored g has c =
     (case (has, contentHashOf g c) of (Some h, Some x) \<Rightarrow> h x | _ \<Rightarrow> True)"

text \<open>The edges the bounded walk follows: out of the start version, and out of stored versions.\<close>

definition stored_edge :: "dag \<Rightarrow> (string \<Rightarrow> bool) option \<Rightarrow> string \<Rightarrow> (string \<times> string) set" where
  "stored_edge g has v = {(c, p). (c, p) \<in> dag_edge g \<and> (c = v \<or> stored g has c)}"

lemma hashes_Un [simp]: "hashes g (A \<union> B) = hashes g A \<union> hashes g B"
  by (auto simp: hashes_def)

lemma hashes_empty [simp]: "hashes g {} = {}"
  by (simp add: hashes_def)

lemma hashes_insert: "hashes g (insert c A) =
    (case contentHashOf g c of None \<Rightarrow> {} | Some x \<Rightarrow> {x}) \<union> hashes g A"
  by (auto simp: hashes_def split: option.splits)

lemma generation_set:
  assumes "generation g has None d fr (out, seen, nxt) = (out', seen', nxt')"
  shows "set out' = set out \<union> hashes g (set fr) \<and>
         set seen' = set seen \<union> {p. \<exists>c \<in> set fr. (c, p) \<in> dag_edge g \<and> (d = 0 \<or> stored g has c)} \<and>
         set nxt' = set nxt \<union> (set seen' - set seen)"
  using assms
proof (induction fr arbitrary: out seen nxt)
  case (Cons cur fr)
  show ?case
  proof (cases "jm_get g cur")
    case None
    then have "contentHashOf g cur = None" by (simp add: contentHashOf_def)
    with None Cons show ?thesis by (simp add: hashes_insert dag_edge_iff)
  next
    case (Some n)
    let ?out = "if vn_contentHash n \<noteq> [] then js_add (vn_contentHash n) out else out"
    have out: "set ?out = set out \<union> (case contentHashOf g cur of None \<Rightarrow> {} | Some x \<Rightarrow> {x})"
      using Some by (auto simp: contentHashOf_def)
    have gone: "(case has of None \<Rightarrow> False
        | Some h \<Rightarrow> d > 0 \<and> vn_contentHash n \<noteq> [] \<and> \<not> h (vn_contentHash n)) \<longleftrightarrow> \<not> (d = 0 \<or> stored g has cur)"
      using Some by (auto simp: stored_def contentHashOf_def split: option.splits)
    show ?thesis
    proof (cases "d = 0 \<or> stored g has cur")
      case False
      then have "generation g has None d fr (?out, seen, nxt) = (out', seen', nxt')"
        using Cons.prems Some gone by (simp add: Let_def)
      from Cons.IH [OF this] show ?thesis using out False by (auto simp: hashes_insert)
    next
      case True
      obtain s1 n1 where p: "push_new (vn_parents n) (seen, nxt) = (s1, n1)" by fastforce
      then have "generation g has None d fr (?out, s1, n1) = (out', seen', nxt')"
        using Cons.prems Some gone True by (simp add: Let_def)
      note IH = Cons.IH [OF this]
      from push_new_spec [OF p] obtain new where
        "s1 = seen @ new" "n1 = nxt @ new" "set new = set (vn_parents n) - set seen" by blast
      then have "set s1 = set seen \<union> set (parents_in g cur)" "set n1 = set nxt \<union> (set s1 - set seen)"
        using Some by auto
      with IH out True show ?thesis by (auto simp: hashes_insert dag_edge_iff)
    qed
  qed
qed simp

lemma reach_loop_set:
  assumes "md = None" and "set fr \<subseteq> set seen" and "v \<in> set seen"
    and "d = 0 \<Longrightarrow> set fr = {v}" and "d > 0 \<Longrightarrow> v \<notin> set fr"
    and "\<And>s. s \<in> set seen - set fr \<Longrightarrow> stored_edge g has v `` {s} \<subseteq> set seen"
    and "set out = hashes g (set seen - set fr)"
  shows "set (reach_loop g has md d out seen fr) = hashes g ((stored_edge g has v)\<^sup>* `` set seen)"
  using assms
proof (induction g has md d out seen fr rule: reach_loop.induct)
  case (1 g has md d out seen fr)
  let ?E = "stored_edge g has v"
  show ?case
  proof (cases "fr = []")
    case True
    then have "?E\<^sup>* `` set seen \<subseteq> set seen \<union> ?E\<^sup>* `` {}"
      using "1.prems"(6) by (intro closed_reach) auto
    then have "?E\<^sup>* `` set seen = set seen" by auto
    with True 1 show ?thesis by (simp add: reach_loop.simps)
  next
    case False
    obtain out' seen' nxt where gen: "generation g has md d fr (out, seen, []) = (out', seen', nxt)"
      by (metis prod_cases3)
    from generation_set [OF gen [unfolded \<open>md = None\<close>]]
    have o: "set out' = set out \<union> hashes g (set fr)" and n: "set nxt = set seen' - set seen"
      and s: "set seen' = set seen \<union> {p. \<exists>c \<in> set fr. (c, p) \<in> dag_edge g \<and> (d = 0 \<or> stored g has c)}"
      by auto
    have s': "set seen' = set seen \<union> ?E `` set fr"
      using s "1.prems"(4,5) by (cases "d = 0") (auto simp: stored_edge_def)
    have seen: "set seen = (set seen - set fr) \<union> set fr" using "1.prems"(2) by auto
    have "set (reach_loop g has md (d + 1) out' seen' nxt) = hashes g (?E\<^sup>* `` set seen')"
    proof (rule "1.IH" [OF _ gen [symmetric] refl])
      show "\<not> (fr = [] \<or> (case md of None \<Rightarrow> False | Some d' \<Rightarrow> d' < d))" using False "1.prems"(1) by simp
      show "?E `` {t} \<subseteq> set seen'" if "t \<in> set seen' - set nxt" for t
        using that n s' "1.prems"(6) [of t] by (cases "t \<in> set fr") auto
      show "set out' = hashes g (set seen' - set nxt)"
      proof -
        have "set seen' - set nxt = (set seen - set fr) \<union> set fr" using n s' seen by auto
        then show ?thesis using o "1.prems"(7) by (simp only: hashes_Un)
      qed
    qed (use 1 n s' in auto)
    moreover have "?E\<^sup>* `` set seen' = ?E\<^sup>* `` set seen"
    proof -
      have "?E `` set fr \<subseteq> ?E\<^sup>* `` set seen" using "1.prems"(2) by blast
      then have "?E\<^sup>* `` (?E `` set fr) \<subseteq> ?E\<^sup>* `` set seen" by (blast intro: rtrancl_trans)
      then have "?E\<^sup>* `` set seen' \<subseteq> ?E\<^sup>* `` set seen" using s' by (simp add: Image_Un)
      moreover have "?E\<^sup>* `` set seen \<subseteq> ?E\<^sup>* `` set seen'" using s' by auto
      ultimately show ?thesis by blast
    qed
    ultimately show ?thesis using False "1.prems"(1) gen by (simp add: reach_loop.simps)
  qed
qed

lemma reachable_set:
  "set (reachableContentHashes g v has None) = hashes g ((stored_edge g has v)\<^sup>* `` {v})"
  unfolding reachableContentHashes_def by (subst reach_loop_set [where v = v]) auto

lemma reachable_all:
  "set (reachableContentHashes g v None None) = hashes g ((dag_edge g)\<^sup>* `` {v})"
proof -
  have "stored_edge g None v = dag_edge g" by (auto simp: stored_edge_def stored_def)
  then show ?thesis by (simp add: reachable_set)
qed

text \<open>
  The base of a merge is staged whenever it can still be read: if every version on the way from
  the head to the base is stored, its hash is among the collected ones.
\<close>

lemma reachable_stored_path:
  assumes "(v, c) \<in> (dag_edge g)\<^sup>*" and "contentHashOf g c = Some x"
    and "\<And>d. (v, d) \<in> (dag_edge g)\<^sup>* \<Longrightarrow> stored g has d"
  shows "x \<in> set (reachableContentHashes g v has None)"
proof -
  have "(v, c) \<in> (stored_edge g has v)\<^sup>*"
    using assms(1)
  proof (induction rule: rtrancl_induct)
    case (step y z)
    then have "(y, z) \<in> stored_edge g has v" using assms(3) by (auto simp: stored_edge_def)
    with step.IH show ?case by (rule rtrancl_into_rtrancl)
  qed simp
  with assms(2) show ?thesis by (auto simp: reachable_set hashes_def)
qed

section \<open>The snapshot\<close>

lemma fromJSON_fold:
  assumes "dag_wf (g @ h)"
  shows "fold (\<lambda>(i, r) g. fst (addVersion i
           (case dj_parents r of None \<Rightarrow> [] | Some ps \<Rightarrow> List.map_filter (\<lambda>p. p) ps)
           (case dj_contentHash r of None \<Rightarrow> [] | Some h \<Rightarrow> h)
           (case dj_fileId r of None \<Rightarrow> [] | Some f \<Rightarrow> f) g)) (dag_toJSON h) g = g @ h"
  using assms
proof (induction h arbitrary: g)
  case (Cons e h)
  obtain i P H F where e: "e = (i, \<lparr> vn_parents = P, vn_contentHash = H, vn_fileId = F \<rparr>)"
    by (cases e, cases "snd e") auto
  have mf: "List.map_filter (\<lambda>p. p) (map Some P) = P" by (induction P) (auto simp: List.map_filter_simps)
  have wf: "i \<notin> set (map fst g)" "distinct P" "i \<notin> set P"
    using Cons.prems e by (auto simp: dag_wf_def jm_wf_def)
  then have "fst (addVersion i P H F g) = g @ [e]"
  proof -
    have "jm_get g i = None" using wf(1) by (simp add: map_of_eq_None_iff)
    moreover have "jm_set i n g = g @ [(i, n)]" for n
      using wf(1) by (induction g) auto
    moreover have "add_parents i P [] = P" using add_parents_fresh [of "[]" P i] wf by simp
    ultimately show ?thesis by (simp add: addVersion_def e)
  qed
  with Cons.IH [of "g @ [e]"] Cons.prems e mf show ?case by (simp add: dag_toJSON_def)
qed (simp add: dag_toJSON_def)

lemma fromJSON_toJSON: "dag_wf g \<Longrightarrow> dag_fromJSON (Some (dag_toJSON g)) = g"
  using fromJSON_fold [of "[]" g] by (simp add: dag_fromJSON_def)

lemma clone_id: "dag_wf g \<Longrightarrow> dag_clone g = g"
proof -
  assume "dag_wf g"
  then have "list_all (\<lambda>(i, n). distinct (vn_parents n)) g" by (auto simp: dag_wf_def list_all_iff)
  then show ?thesis
    by (induction g) (auto simp: dag_clone_def js_set_of_distinct)
qed

section \<open>Properties of the version graph\<close>

text \<open>
  C21: \<open>isAncestor\<close>, a search with an explicit stack and an early return, answers exactly
  reachability along parent links, on every graph, cyclic ones and dangling parents included.
\<close>

theorem isAncestor_correct:
  "isAncestor g a d \<longleftrightarrow> (d, a) \<in> {(c, p). \<exists>n. jm_get g c = Some n \<and> p \<in> set (vn_parents n)}\<^sup>*"
proof -
  have "dag_edge g = {(c, p). \<exists>n. jm_get g c = Some n \<and> p \<in> set (vn_parents n)}"
    by (simp add: dag_edge_def parents_in_iff)
  then show ?thesis by (simp add: isAncestor_reach)
qed

text \<open>
  C13: On an acyclic graph \<open>mergeBase\<close> returns a base exactly when there is a common ancestor
  that all common ancestors are ancestors of, and then returns it; it returns \<open>null\<close> exactly
  when there is no common ancestor; and the order of the two heads does not matter.
\<close>

theorem mergeBase_is_lca:
  assumes "acyclic (dag_edge g)"
  shows "(mergeBase g a b = Base m \<longleftrightarrow> isAncestor g m a \<and> isAncestor g m b \<and>
            (\<forall>c. isAncestor g c a \<and> isAncestor g c b \<longrightarrow> isAncestor g c m)) \<and>
         (mergeBase g a b = NoBase \<longleftrightarrow> (\<nexists>c. isAncestor g c a \<and> isAncestor g c b)) \<and>
         mergeBase g a b = mergeBase g b a"
  using mergeBase_greatest [OF assms, of a b m] mergeBase_NoBase_iff [of g a b] mergeBase_comm [of g a b]
  by (auto simp: isAncestor_reach common_anc_def)

definition diamond :: dag where
  "diamond = [(''r'', \<lparr> vn_parents = [], vn_contentHash = ''h0'', vn_fileId = ''f'' \<rparr>),
    (''a'', \<lparr> vn_parents = [''r''], vn_contentHash = ''h1'', vn_fileId = ''f'' \<rparr>),
    (''b'', \<lparr> vn_parents = [''r''], vn_contentHash = ''h2'', vn_fileId = ''f'' \<rparr>)]"

lemma diamond_edges: "dag_edge diamond = {(''a'', ''r''), (''b'', ''r'')}"
  by (auto simp: dag_edge_def diamond_def parents_in_def split: if_splits)

lemma diamond_acyclic: "acyclic (dag_edge diamond)"
  by (rule acyclic_rank [where r = "\<lambda>v. if v = ''r'' then 0 else 1"]) (auto simp: diamond_edges)

theorem mergeBase_is_lca_witness:
  "(mergeBase diamond ''a'' ''b'' = Base ''r'' \<longleftrightarrow>
      isAncestor diamond ''r'' ''a'' \<and> isAncestor diamond ''r'' ''b'' \<and>
      (\<forall>c. isAncestor diamond c ''a'' \<and> isAncestor diamond c ''b'' \<longrightarrow> isAncestor diamond c ''r'')) \<and>
   (mergeBase diamond ''a'' ''b'' = NoBase \<longleftrightarrow>
      (\<nexists>c. isAncestor diamond c ''a'' \<and> isAncestor diamond c ''b'')) \<and>
   mergeBase diamond ''a'' ''b'' = mergeBase diamond ''b'' ''a''"
  by (rule mergeBase_is_lca [OF diamond_acyclic])

text \<open>
  Recording a version is idempotent and only ever adds the parents it names (never the
  version itself): recording it again returns the same graph and reports no change, the edges
  are the old ones and the new ones, and a graph whose new parents do not descend from the new
  version stays acyclic.
\<close>

theorem addVersion_union:
  assumes "acyclic (dag_edge g)" and "\<forall>p \<in> set ps. p = v \<or> \<not> isAncestor g v p"
  shows "addVersion v ps h f (fst (addVersion v ps h f g)) = (fst (addVersion v ps h f g), False) \<and>
         dag_edge (fst (addVersion v ps h f g)) = dag_edge g \<union> {v} \<times> (set ps - {v}) \<and>
         acyclic (dag_edge (fst (addVersion v ps h f g))) \<and>
         (snd (addVersion v ps h f g) \<or> fst (addVersion v ps h f g) = g)"
proof -
  have "acyclic (dag_edge (fst (addVersion v ps h f g)))"
    by (rule acyclic_addVersion [OF assms(1)]) (use assms(2) in auto)
  moreover have "snd (addVersion v ps h f g) \<or> fst (addVersion v ps h f g) = g"
    using addVersion_unchanged by blast
  ultimately show ?thesis by (simp only: addVersion_again addVersion_edges simp_thms)
qed

theorem addVersion_union_witness:
  "addVersion ''m'' [''a'', ''b''] ''h3'' ''f'' (fst (addVersion ''m'' [''a'', ''b''] ''h3'' ''f'' diamond)) =
     (fst (addVersion ''m'' [''a'', ''b''] ''h3'' ''f'' diamond), False) \<and>
   dag_edge (fst (addVersion ''m'' [''a'', ''b''] ''h3'' ''f'' diamond)) =
     dag_edge diamond \<union> {''m''} \<times> (set [''a'', ''b''] - {''m''}) \<and>
   acyclic (dag_edge (fst (addVersion ''m'' [''a'', ''b''] ''h3'' ''f'' diamond))) \<and>
   (snd (addVersion ''m'' [''a'', ''b''] ''h3'' ''f'' diamond) \<or>
      fst (addVersion ''m'' [''a'', ''b''] ''h3'' ''f'' diamond) = diamond)"
proof (rule addVersion_union [OF diamond_acyclic])
  have "(p, ''m'') \<notin> {(''a'', ''r''), (''b'', ''r'')}\<^sup>*" if "p \<in> {''a'', ''b''}" for p
    using that by (auto elim: rtranclE)
  then show "\<forall>p \<in> set [''a'', ''b'']. p = ''m'' \<or> \<not> isAncestor diamond ''m'' p"
    by (simp add: isAncestor_reach diamond_edges)
qed

text \<open>
  A sweep to the version ids the vault names changes no answer about the versions it keeps:
  their ancestors, merge bases and content hashes stay, every named version that was recorded
  stays recorded, and a graph that holds anything is never swept to the empty graph (which the
  sync would read as a lost file and answer with a full re-pull).
\<close>

theorem sweep_keeps_answers:
  assumes "r \<in> set roots" and "s \<in> set roots" and "[] \<notin> set roots" and "dag_size g > 0"
    and "(dag_edge g)\<^sup>* `` {r, s} \<supseteq> {u, w}"
  shows "isAncestor (fst (sweepToRoots roots g)) a u = isAncestor g a u \<and>
         mergeBase (fst (sweepToRoots roots g)) u w = mergeBase g u w \<and>
         contentHashOf (fst (sweepToRoots roots g)) u = contentHashOf g u \<and>
         dag_has (fst (sweepToRoots roots g)) r = dag_has g r \<and>
         dag_size (fst (sweepToRoots roots g)) > 0"
proof (cases "fst (sweepToRoots roots g) = g")
  case True
  with assms(4) show ?thesis by simp
next
  case False
  then have sw: "fst (sweepToRoots roots g) = fst (dag_prune roots g)"
    by (auto simp: sweepToRoots_def split: if_splits)
  have ne: "r \<noteq> []" "s \<noteq> []" using assms(1-3) by auto
  have k: "u \<in> kept g roots" "w \<in> kept g roots"
    using assms(5) kept_closed [OF roots_kept [OF assms(1) ne(1)]] kept_closed [OF roots_kept [OF assms(2) ne(2)]]
    by auto
  have "contentHashOf (fst (dag_prune roots g)) u = contentHashOf g u"
    using k by (simp add: contentHashOf_def prune_get)
  moreover have "dag_has (fst (dag_prune roots g)) r = dag_has g r"
    using roots_kept [OF assms(1) ne(1)] by (simp add: dag_has_def jm_has_def prune_get)
  moreover have "dag_size (fst (sweepToRoots roots g)) > 0"
    using assms(3,4) by (intro sweep_not_empty) auto
  ultimately show ?thesis
    using prune_isAncestor [OF k(1), of a] prune_mergeBase [OF k] by (simp only: sw simp_thms)
qed

theorem sweep_keeps_answers_witness:
  "isAncestor (fst (sweepToRoots [''a'', ''b''] diamond)) ''r'' ''a'' = isAncestor diamond ''r'' ''a'' \<and>
   mergeBase (fst (sweepToRoots [''a'', ''b''] diamond)) ''a'' ''b'' = mergeBase diamond ''a'' ''b'' \<and>
   contentHashOf (fst (sweepToRoots [''a'', ''b''] diamond)) ''a'' = contentHashOf diamond ''a'' \<and>
   dag_has (fst (sweepToRoots [''a'', ''b''] diamond)) ''a'' = dag_has diamond ''a'' \<and>
   dag_size (fst (sweepToRoots [''a'', ''b''] diamond)) > 0"
  by (rule sweep_keeps_answers [where s = "''b''"]) (auto simp: diamond_def dag_size_def)

text \<open>
  The comment on \<open>prune\<close> argues that the base of our head and any peer head is an ancestor of
  our head and so is retained.  The base is, but the way to it from the peer's side need not
  be: after a sweep that dropped the peer's version \<open>a\<close> (no root descends from it), a child of
  \<open>a\<close> that arrives later has no common ancestor with our head \<open>b\<close> any more.
\<close>

theorem prune_loses_peer_base:
  "mergeBase (fst (addVersion ''x'' [''a''] ''h4'' ''f'' diamond)) ''b'' ''x'' = Base ''r'' \<and>
   mergeBase (fst (addVersion ''x'' [''a''] ''h4'' ''f'' (fst (dag_prune [''b''] diamond)))) ''b'' ''x'' = NoBase"
proof
  have e: "dag_edge (fst (addVersion ''x'' [''a''] ''h4'' ''f'' diamond)) =
      {(''a'', ''r''), (''b'', ''r''), (''x'', ''a'')}"
    by (auto simp: addVersion_edges diamond_edges)
  have ac: "acyclic (dag_edge (fst (addVersion ''x'' [''a''] ''h4'' ''f'' diamond)))"
    by (rule acyclic_rank [where r = "\<lambda>v. if v = ''r'' then 0 else if v = ''x'' then 2 else 1"])
      (auto simp: e)
  have a: "{(''a'', ''r''), (''b'', ''r''), (''x'', ''a'')}\<^sup>* `` {''b''} = {''b'', ''r''}"
    by (auto elim: converse_rtranclE)
  have b: "{(''a'', ''r''), (''b'', ''r''), (''x'', ''a'')}\<^sup>* `` {''x''} = {''x'', ''a'', ''r''}"
    by (auto elim: converse_rtranclE intro: rtrancl_trans)
  show "mergeBase (fst (addVersion ''x'' [''a''] ''h4'' ''f'' diamond)) ''b'' ''x'' = Base ''r''"
    using mergeBase_greatest [OF ac, of "''b''" "''x''" "''r''"] by (simp only: common_anc_def e a b) simp
next
  have "kept diamond [''b''] = {''b'', ''r''}"
    unfolding kept_def diamond_edges by (auto elim: converse_rtranclE)
  then have e: "dag_edge (fst (addVersion ''x'' [''a''] ''h4'' ''f'' (fst (dag_prune [''b''] diamond)))) =
      {(''b'', ''r''), (''x'', ''a'')}"
    by (auto simp: addVersion_edges prune_edges diamond_edges)
  have a: "{(''b'', ''r''), (''x'', ''a'')}\<^sup>* `` {''b''} = {''b'', ''r''}"
    by (auto elim: converse_rtranclE)
  have b: "{(''b'', ''r''), (''x'', ''a'')}\<^sup>* `` {''x''} = {''x'', ''a''}"
    by (auto elim: converse_rtranclE)
  have "common_anc (fst (addVersion ''x'' [''a''] ''h4'' ''f'' (fst (dag_prune [''b''] diamond)))) ''b'' ''x'' = {}"
    unfolding common_anc_def e a b by simp
  then show "mergeBase (fst (addVersion ''x'' [''a''] ''h4'' ''f'' (fst (dag_prune [''b''] diamond)))) ''b'' ''x'' = NoBase"
    by (simp add: mergeBase_sets)
qed

text \<open>
  The collected content hashes of a head are those of the versions reachable from it by way
  of stored versions (the head itself always counts as one); without a bound they are the
  hashes of all its ancestors.
\<close>

theorem reachable_hashes_correct:
  "set (reachableContentHashes g v has None) = {x. \<exists>c. (v, c) \<in> (stored_edge g has v)\<^sup>* \<and> contentHashOf g c = Some x} \<and>
   set (reachableContentHashes g v None None) = {x. \<exists>c. isAncestor g c v \<and> contentHashOf g c = Some x}"
  using reachable_set [of g v has] reachable_all [of g v] by (auto simp: hashes_def isAncestor_reach)

text \<open>
  The leaves of every file computed in one pass are those of the file computed on its own,
  and they are the versions of the file no recorded version names as a parent.
\<close>

theorem leavesByFile_correct:
  assumes "jm_wf g" and "f \<noteq> []"
  shows "jm_get (leavesByFile g) f = (if leaves g f = [] then None else Some (leaves g f)) \<and>
         set (leaves g f) = {i. \<exists>n. jm_get g i = Some n \<and> vn_fileId n = f \<and> (\<nexists>c. (c, i) \<in> dag_edge g)}"
proof -
  have "i \<notin> set (hasChild g) \<longleftrightarrow> (\<nexists>c. (c, i) \<in> dag_edge g)" for i
    using set_hasChild [OF assms(1)] by auto
  then have "set (leaves g f) = {i. \<exists>n. (i, n) \<in> set g \<and> vn_fileId n = f \<and> (\<nexists>c. (c, i) \<in> dag_edge g)}"
    by (force simp: leaves_def)
  then show ?thesis using leavesByFile_get [OF assms(2)] jm_wf_get [OF assms(1)] by simp
qed

theorem leavesByFile_correct_witness:
  "jm_get (leavesByFile diamond) ''f'' = (if leaves diamond ''f'' = [] then None else Some (leaves diamond ''f'')) \<and>
   set (leaves diamond ''f'') =
     {i. \<exists>n. jm_get diamond i = Some n \<and> vn_fileId n = ''f'' \<and> (\<nexists>c. (c, i) \<in> dag_edge diamond)}"
  by (rule leavesByFile_correct) (simp_all add: jm_wf_def diamond_def)

text \<open>
  A graph built by recording versions, from the empty graph, is read back from its snapshot
  unchanged, and the working copy of a round is equal to it.
\<close>

theorem dag_snapshot_roundtrip:
  "dag_fromJSON (Some (dag_toJSON (fold (\<lambda>(v, ps, h, f) g. fst (addVersion v ps h f g)) ops []))) =
     fold (\<lambda>(v, ps, h, f) g. fst (addVersion v ps h f g)) ops [] \<and>
   dag_clone (fold (\<lambda>(v, ps, h, f) g. fst (addVersion v ps h f g)) ops []) =
     fold (\<lambda>(v, ps, h, f) g. fst (addVersion v ps h f g)) ops []"
proof -
  have "dag_wf (fold (\<lambda>(v, ps, h, f) g. fst (addVersion v ps h f g)) xs g)" if "dag_wf g" for xs g
    using that by (induction xs arbitrary: g) (auto simp: dag_wf_addVersion)
  then show ?thesis using fromJSON_toJSON clone_id by simp
qed

end
