(* ===== verification/Diff3.thy ===== *)
theory Diff3
  imports Types
begin

text \<open>
  The line diff of \<open>src/merge/diff3.ts\<close> (its layer 1): a patience diff that anchors on lines
  unique in both texts, with a longest-common-subsequence table between anchors.  An array
  access the source makes without a check is \<open>nth_opt\<close>, and reading a property of \<open>undefined\<close>
  is the error \<open>TypeError\<close>.  The recursion of the diff carries fuel, one unit per level; the
  laws show that one more than the number of old lines is always enough.
\<close>

section \<open>Arrays\<close>

datatype js_error = TypeError | OutOfFuel

definition nth_opt :: "'a list \<Rightarrow> nat \<Rightarrow> 'a option" where
  "nth_opt xs i = (if i < length xs then Some (xs ! i) else None)"

text \<open>\<open>xs[i] = v\<close> for an index at most the length.\<close>

definition js_put :: "'a list \<Rightarrow> nat \<Rightarrow> 'a \<Rightarrow> 'a list" where
  "js_put xs i v = (if i < length xs then xs[i := v] else xs @ [v])"

text \<open>\<open>xs.slice(lo, hi)\<close>.\<close>

definition js_slice :: "'a list \<Rightarrow> nat \<Rightarrow> nat \<Rightarrow> 'a list" where
  "js_slice xs lo hi = take (hi - lo) (drop lo xs)"

section \<open>Edit scripts\<close>

datatype DiffType = DEqual | DInsert | DDelete

record DiffOp =
  do_type :: DiffType
  do_lines :: "string list"

abbreviation mk_op :: "DiffType \<Rightarrow> string list \<Rightarrow> DiffOp" where
  "mk_op t ls \<equiv> \<lparr> do_type = t, do_lines = ls \<rparr>"

section \<open>The longest increasing subsequence of the anchors\<close>

text \<open>
  The binary search of the source reads \<open>piles[pileTop[mid]]\<close>: \<open>pileTop\<close> holds indices of
  pairs, and \<open>piles\<close> is indexed by pile.
\<close>

function lis_search :: "(nat \<times> nat) list \<Rightarrow> nat list \<Rightarrow> nat \<Rightarrow> nat \<Rightarrow> nat \<Rightarrow> js_error + nat" where
  "lis_search piles pileTop bVal lo hi =
     (if lo < hi then
        (let mid = (lo + hi) div 2
         in case nth_opt pileTop mid of
              None \<Rightarrow> Inl TypeError
            | Some t \<Rightarrow>
                (case nth_opt piles t of
                   None \<Rightarrow> Inl TypeError
                 | Some p \<Rightarrow>
                     if snd p < bVal then lis_search piles pileTop bVal (mid + 1) hi
                     else lis_search piles pileTop bVal lo mid))
      else Inr lo)"
  by pat_completeness auto
termination
  by (relation "measure (\<lambda>(piles, pileTop, bVal, lo, hi). hi - lo)") auto

declare lis_search.simps [simp del]

record lis_state =
  ls_piles :: "(nat \<times> nat) list"
  ls_prev :: "nat option list"
  ls_pileTop :: "nat list"

definition lis_step :: "(nat \<times> nat) list \<Rightarrow> nat \<Rightarrow> lis_state \<Rightarrow> js_error + lis_state" where
  "lis_step pairs i s =
     (case lis_search (ls_piles s) (ls_pileTop s) (snd (pairs ! i)) 0 (length (ls_piles s)) of
        Inl e \<Rightarrow> Inl e
      | Inr lo \<Rightarrow>
          Inr \<lparr> ls_piles = js_put (ls_piles s) lo (pairs ! i),
                ls_prev = (if lo > 0 then (ls_prev s)[i := Some (ls_pileTop s ! (lo - 1))] else ls_prev s),
                ls_pileTop = js_put (ls_pileTop s) lo i \<rparr>)"

text \<open>The reconstruction loop; an index is at most the length, so that many steps are enough.\<close>

fun lis_chain :: "(nat \<times> nat) list \<Rightarrow> nat option list \<Rightarrow> nat \<Rightarrow> nat option \<Rightarrow> (nat \<times> nat) list \<Rightarrow>
    js_error + (nat \<times> nat) list" where
  "lis_chain pairs prev fuel None result = Inr result"
| "lis_chain pairs prev 0 (Some k) result = Inl OutOfFuel"
| "lis_chain pairs prev (Suc fuel) (Some k) result =
     lis_chain pairs prev fuel (prev ! k) (pairs ! k # result)"

definition longestIncreasingSubsequence :: "(nat \<times> nat) list \<Rightarrow> js_error + (nat \<times> nat) list" where
  "longestIncreasingSubsequence pairs =
     (if pairs = [] then Inr []
      else (case foldE (lis_step pairs) [0..<length pairs]
                   \<lparr> ls_piles = [], ls_prev = replicate (length pairs) None, ls_pileTop = [] \<rparr> of
              Inl e \<Rightarrow> Inl e
            | Inr s \<Rightarrow>
                lis_chain pairs (ls_prev s) (length pairs)
                  (Some (ls_pileTop s ! (length (ls_piles s) - 1))) []))"

section \<open>Anchors\<close>

definition count_lines :: "string list \<Rightarrow> nat \<Rightarrow> nat \<Rightarrow> (string, nat list) jsmap" where
  "count_lines a lo hi =
     fold (\<lambda>i m. jm_set (a ! i) ((case jm_get m (a ! i) of None \<Rightarrow> [] | Some is \<Rightarrow> is) @ [i]) m) [lo..<hi] []"

definition unique_pairs :: "(string, nat list) jsmap \<Rightarrow> (string, nat list) jsmap \<Rightarrow> (nat \<times> nat) list" where
  "unique_pairs aCount bCount =
     List.map_filter
       (\<lambda>(line, aIdxs). case jm_get bCount line of
            None \<Rightarrow> None
          | Some bIdxs \<Rightarrow>
              if length aIdxs = 1 \<and> length bIdxs = 1 then Some (aIdxs ! 0, bIdxs ! 0) else None) aCount"

definition patienceAnchors ::
  "string list \<Rightarrow> nat \<Rightarrow> nat \<Rightarrow> string list \<Rightarrow> nat \<Rightarrow> nat \<Rightarrow> js_error + (nat \<times> nat) list" where
  "patienceAnchors a aLo aHi b bLo bHi =
     longestIncreasingSubsequence
       (sort_key fst (unique_pairs (count_lines a aLo aHi) (count_lines b bLo bHi)))"

section \<open>The fallback: a longest common subsequence\<close>

text \<open>Row \<open>i\<close> of the table from row \<open>i + 1\<close>; both have one more column than the new js_slice.\<close>

fun dp_row :: "string \<Rightarrow> string list \<Rightarrow> nat list \<Rightarrow> nat list" where
  "dp_row x [] below = [0]"
| "dp_row x (y # ys) below =
     (let r = dp_row x ys (tl below)
      in (if x = y then hd (tl below) + 1 else max (hd below) (hd r)) # r)"

fun dp_table :: "string list \<Rightarrow> string list \<Rightarrow> nat list list" where
  "dp_table [] bs = [replicate (length bs + 1) 0]"
| "dp_table (x # xs) bs = (let t = dp_table xs bs in dp_row x bs (hd t) # t)"

function lcs_walk ::
  "string list \<Rightarrow> string list \<Rightarrow> nat list list \<Rightarrow> nat \<Rightarrow> nat \<Rightarrow> nat \<Rightarrow> nat \<Rightarrow> (nat \<times> nat) list" where
  "lcs_walk as bs dp aLo bLo i j =
     (if i < length as \<and> j < length bs then
        if as ! i = bs ! j then (aLo + i, bLo + j) # lcs_walk as bs dp aLo bLo (i + 1) (j + 1)
        else if dp ! (i + 1) ! j \<ge> dp ! i ! (j + 1) then lcs_walk as bs dp aLo bLo (i + 1) j
        else lcs_walk as bs dp aLo bLo i (j + 1)
      else [])"
  by pat_completeness auto
termination
  by (relation "measure (\<lambda>(as, bs, dp, aLo, bLo, i, j). (length as - i) + (length bs - j))") auto

declare lcs_walk.simps [simp del]

definition myersLCS ::
  "string list \<Rightarrow> nat \<Rightarrow> nat \<Rightarrow> string list \<Rightarrow> nat \<Rightarrow> nat \<Rightarrow> (nat \<times> nat) list" where
  "myersLCS a aLo aHi b bLo bHi =
     (let as = js_slice a aLo aHi; bs = js_slice b bLo bHi
      in if length as = 0 \<or> length bs = 0 then []
         else lcs_walk as bs (dp_table as bs) aLo bLo 0 0)"

fun emitFromLCS ::
  "string list \<Rightarrow> nat \<Rightarrow> nat \<Rightarrow> string list \<Rightarrow> nat \<Rightarrow> nat \<Rightarrow> (nat \<times> nat) list \<Rightarrow> DiffOp list \<Rightarrow> DiffOp list" where
  "emitFromLCS a ai aHi b bi bHi [] ops =
     ops @ (if ai < aHi then [mk_op DDelete (js_slice a ai aHi)] else [])
         @ (if bi < bHi then [mk_op DInsert (js_slice b bi bHi)] else [])"
| "emitFromLCS a ai aHi b bi bHi ((la, lb) # lcs) ops =
     emitFromLCS a (la + 1) aHi b (lb + 1) bHi lcs
       (ops @ (if ai < la then [mk_op DDelete (js_slice a ai la)] else [])
            @ (if bi < lb then [mk_op DInsert (js_slice b bi lb)] else [])
            @ [mk_op DEqual [a ! la]])"

section \<open>The diff\<close>

fun diffRecurse ::
  "nat \<Rightarrow> string list \<Rightarrow> nat \<Rightarrow> nat \<Rightarrow> string list \<Rightarrow> nat \<Rightarrow> nat \<Rightarrow> DiffOp list \<Rightarrow> js_error + DiffOp list"
and diffAnchors ::
  "nat \<Rightarrow> string list \<Rightarrow> nat \<Rightarrow> nat \<Rightarrow> string list \<Rightarrow> nat \<Rightarrow> nat \<Rightarrow> (nat \<times> nat) list \<Rightarrow> DiffOp list \<Rightarrow>
     js_error + DiffOp list" where
  "diffRecurse 0 a aLo aHi b bLo bHi ops = Inl OutOfFuel"
| "diffRecurse (Suc fuel) a aLo aHi b bLo bHi ops =
     (if aLo = aHi \<and> bLo = bHi then Inr ops
      else if aLo = aHi then Inr (ops @ [mk_op DInsert (js_slice b bLo bHi)])
      else if bLo = bHi then Inr (ops @ [mk_op DDelete (js_slice a aLo aHi)])
      else (case patienceAnchors a aLo aHi b bLo bHi of
              Inl e \<Rightarrow> Inl e
            | Inr anchors \<Rightarrow>
                if anchors = []
                then Inr (emitFromLCS a aLo aHi b bLo bHi (myersLCS a aLo aHi b bLo bHi) ops)
                else diffAnchors fuel a aLo aHi b bLo bHi anchors ops))"
| "diffAnchors fuel a prevAi aHi b prevBi bHi [] ops = diffRecurse fuel a prevAi aHi b prevBi bHi ops"
| "diffAnchors fuel a prevAi aHi b prevBi bHi ((ai, bi) # anchors) ops =
     (case diffRecurse fuel a prevAi ai b prevBi bi ops of
        Inl e \<Rightarrow> Inl e
      | Inr ops' \<Rightarrow> diffAnchors fuel a (ai + 1) aHi b (bi + 1) bHi anchors (ops' @ [mk_op DEqual [a ! ai]]))"

fun coalesce_loop :: "DiffOp list \<Rightarrow> DiffOp list \<Rightarrow> DiffOp list" where
  "coalesce_loop [] result = result"
| "coalesce_loop (p # ps) result =
     (if do_lines p = [] then coalesce_loop ps result
      else if result \<noteq> [] \<and> do_type (last result) = do_type p
      then coalesce_loop ps
             (butlast result @ [mk_op (do_type p) (do_lines (last result) @ do_lines p)])
      else coalesce_loop ps (result @ [mk_op (do_type p) (do_lines p)]))"

definition coalesceOps :: "DiffOp list \<Rightarrow> DiffOp list" where
  "coalesceOps ops = coalesce_loop ops []"

definition diffLines :: "string list \<Rightarrow> string list \<Rightarrow> js_error + DiffOp list" where
  "diffLines a b =
     (case diffRecurse (length a + 1) a 0 (length a) b 0 (length b) [] of
        Inl e \<Rightarrow> Inl e
      | Inr ops \<Rightarrow> Inr (coalesceOps ops))"

end
