(* ===== verification/DiffLaws.thy ===== *)
theory DiffLaws
  imports Diff3
begin

text \<open>
  The line diff is sound: whenever \<open>diffLines\<close> returns, its old side is the old text and its new
  side the new one, and the script is in normal form.  The longest-increasing-subsequence
  routine of the source indexes its piles with pair indices; the invariant \<open>lis_inv\<close> shows that
  a run that does not hit \<open>undefined\<close> still returns increasing anchors.
\<close>

section \<open>Slices\<close>

lemma slice_same [simp]: "js_slice xs k k = []"
  by (simp add: js_slice_def)

lemma slice_all [simp]: "js_slice xs 0 (length xs) = xs"
  by (simp add: js_slice_def)

lemma length_slice: "hi \<le> length xs \<Longrightarrow> length (js_slice xs lo hi) = hi - lo"
  by (simp add: js_slice_def)

lemma nth_slice: "i < hi - lo \<Longrightarrow> hi \<le> length xs \<Longrightarrow> js_slice xs lo hi ! i = xs ! (lo + i)"
  by (simp add: js_slice_def)

lemma slice_split: "lo \<le> mid \<Longrightarrow> mid \<le> hi \<Longrightarrow> js_slice xs lo hi = js_slice xs lo mid @ js_slice xs mid hi"
proof -
  assume "lo \<le> mid" "mid \<le> hi"
  then have "take (hi - lo) (drop lo xs) = take ((mid - lo) + (hi - mid)) (drop lo xs)" by simp
  also have "\<dots> = take (mid - lo) (drop lo xs) @ take (hi - mid) (drop (mid - lo) (drop lo xs))"
    by (rule take_add)
  finally show ?thesis using \<open>lo \<le> mid\<close> by (simp add: js_slice_def)
qed

lemma slice_Cons: "lo < hi \<Longrightarrow> hi \<le> length xs \<Longrightarrow> js_slice xs lo hi = xs ! lo # js_slice xs (lo + 1) hi"
proof -
  assume a: "lo < hi" "hi \<le> length xs"
  then have "drop lo xs = xs ! lo # drop (lo + 1) xs" by (simp add: Cons_nth_drop_Suc)
  moreover have "hi - lo = Suc (hi - (lo + 1))" using a by simp
  ultimately show ?thesis by (simp add: js_slice_def)
qed

lemma set_slice: "set (js_slice xs lo hi) \<subseteq> set xs"
  unfolding js_slice_def by (meson set_drop_subset set_take_subset subset_trans)

section \<open>The anchors increase\<close>

definition bv :: "(nat \<times> nat) list \<Rightarrow> nat \<Rightarrow> nat" where
  "bv pairs k = snd (pairs ! k)"

lemma lis_search_result:
  assumes "lis_search P T v lo hi = Inr r" and "lo \<le> hi"
  shows "lo \<le> r \<and> r \<le> hi \<and>
    (lo < r \<longrightarrow> (\<exists>x p. nth_opt T (r - 1) = Some x \<and> nth_opt P x = Some p \<and> snd p < v)) \<and>
    (r < hi \<longrightarrow> (\<exists>x p. nth_opt T r = Some x \<and> nth_opt P x = Some p \<and> v \<le> snd p))"
  using assms
proof (induction P T v lo hi rule: lis_search.induct)
  case (1 P T v lo hi)
  show ?case
  proof (cases "lo < hi")
    case False
    with 1 show ?thesis by (simp add: lis_search.simps)
  next
    case True
    let ?mid = "(lo + hi) div 2"
    from 1(3) True obtain x p where xp: "nth_opt T ?mid = Some x" "nth_opt P x = Some p"
      by (subst (asm) lis_search.simps) (auto simp: Let_def split: option.splits)
    have m: "lo \<le> ?mid" "?mid < hi" using True by auto
    show ?thesis
    proof (cases "snd p < v")
      case True
      then have "lis_search P T v (?mid + 1) hi = Inr r"
        using 1(3) \<open>lo < hi\<close> xp by (subst (asm) lis_search.simps) (simp add: Let_def)
      from 1(1) [OF \<open>lo < hi\<close> refl xp True this] m
      have IH: "?mid + 1 \<le> r \<and> r \<le> hi \<and>
          (?mid + 1 < r \<longrightarrow> (\<exists>x p. nth_opt T (r - 1) = Some x \<and> nth_opt P x = Some p \<and> snd p < v)) \<and>
          (r < hi \<longrightarrow> (\<exists>x p. nth_opt T r = Some x \<and> nth_opt P x = Some p \<and> v \<le> snd p))" by simp
      have "\<exists>x p. nth_opt T (r - 1) = Some x \<and> nth_opt P x = Some p \<and> snd p < v"
      proof (cases "r = ?mid + 1")
        case rm: True
        then have "r - 1 = ?mid" by simp
        then show ?thesis using xp True by metis
      next
        case False
        then show ?thesis using IH by auto
      qed
      then show ?thesis using IH m by (meson add_leD1 le_trans)
    next
      case False
      then have "lis_search P T v lo ?mid = Inr r"
        using 1(3) \<open>lo < hi\<close> xp by (subst (asm) lis_search.simps) (simp add: Let_def)
      from 1(2) [OF \<open>lo < hi\<close> refl xp False this m(1)]
      have IH: "lo \<le> r \<and> r \<le> ?mid \<and>
          (lo < r \<longrightarrow> (\<exists>x p. nth_opt T (r - 1) = Some x \<and> nth_opt P x = Some p \<and> snd p < v)) \<and>
          (r < ?mid \<longrightarrow> (\<exists>x p. nth_opt T r = Some x \<and> nth_opt P x = Some p \<and> v \<le> snd p))" .
      have "\<exists>x p. nth_opt T r = Some x \<and> nth_opt P x = Some p \<and> v \<le> snd p"
      proof (cases "r = ?mid")
        case rm: True
        then show ?thesis using xp False by (metis not_less)
      next
        case False
        then show ?thesis using IH by auto
      qed
      then show ?thesis using IH m by auto
    qed
  qed
qed

lemma lis_search_fuel: "lis_search P T v lo hi \<noteq> Inl OutOfFuel"
proof (induction P T v lo hi rule: lis_search.induct)
  case (1 P T v lo hi)
  then show ?case
    by (subst lis_search.simps) (auto simp: Let_def split: option.splits)
qed

text \<open>
  After \<open>i\<close> pairs: either every pair so far opened a pile, or pair \<open>t\<close> was the first to replace
  a pile top and at most one pile was opened since.
\<close>

definition lis_phase :: "(nat \<times> nat) list \<Rightarrow> nat \<Rightarrow> nat list \<Rightarrow> nat \<Rightarrow> bool" where
  "lis_phase pairs i tps t =
     ((\<forall>x y. x < y \<and> y < t \<longrightarrow> bv pairs x < bv pairs y) \<and>
      (if t = i then tps = [0..<i]
       else 0 < t \<and> t < i \<and> bv pairs t \<le> bv pairs (t - 1) \<and> (length tps = t \<or> length tps = t + 1) \<and>
            (\<forall>k < length tps. (k < t \<and> tps ! k = k) \<or> t \<le> tps ! k) \<and>
            (length tps = t + 1 \<longrightarrow> t < tps ! t \<and> bv pairs t < bv pairs (tps ! t))))"

definition lis_inv :: "(nat \<times> nat) list \<Rightarrow> nat \<Rightarrow> lis_state \<Rightarrow> bool" where
  "lis_inv pairs i s =
     (i \<le> length pairs \<and> ls_piles s = map ((!) pairs) (ls_pileTop s) \<and>
      length (ls_prev s) = length pairs \<and>
      (\<forall>k < length (ls_pileTop s). ls_pileTop s ! k < i) \<and> (0 < i \<longrightarrow> ls_pileTop s \<noteq> []) \<and>
      (\<forall>k < length pairs. \<forall>j. ls_prev s ! k = Some j \<longrightarrow> j < k \<and> bv pairs j < bv pairs k) \<and>
      (\<exists>t. lis_phase pairs i (ls_pileTop s) t))"

lemma js_put_length: "lo \<le> length xs \<Longrightarrow> length (js_put xs lo v) = (if lo < length xs then length xs else length xs + 1)"
  by (simp add: js_put_def)

lemma js_put_nth: "lo \<le> length xs \<Longrightarrow> k < length (js_put xs lo v) \<Longrightarrow>
    js_put xs lo v ! k = (if k = lo then v else xs ! k)"
  by (auto simp: js_put_def nth_append)

lemma js_put_map: "js_put (map f xs) lo (f v) = map f (js_put xs lo v)"
  by (simp add: js_put_def map_update)

text \<open>What a successful and a failed comparison at pile \<open>k\<close> say about the pair on top of it.\<close>

lemma phase_probe:
  assumes "lis_phase pairs i tps t" and "k < length tps" and "tps ! k < length tps"
  shows "(t = i \<or> tps ! k = k) \<and> tps ! (tps ! k) = tps ! k \<or>
         (t \<noteq> i \<and> length tps = t + 1 \<and> tps ! k = t \<and> k < t \<and> bv pairs t < bv pairs (tps ! t))"
proof (cases "t = i")
  case True
  then show ?thesis using assms by (simp add: lis_phase_def)
next
  case False
  then have ph: "(k < t \<and> tps ! k = k) \<or> t \<le> tps ! k" "length tps = t \<or> length tps = t + 1"
      "length tps = t + 1 \<Longrightarrow> t < tps ! t \<and> bv pairs t < bv pairs (tps ! t)"
    using assms(1,2) by (auto simp: lis_phase_def)
  show ?thesis
  proof (cases "tps ! k = k")
    case False
    then have "t \<le> tps ! k" using ph(1) by blast
    then have l: "length tps = t + 1" "tps ! k = t" using ph(2) assms(3) by auto
    moreover have "k \<noteq> t" using l ph(3) by auto
    ultimately show ?thesis using \<open>t \<noteq> i\<close> ph(3) assms(2) by auto
  qed simp
qed

lemma phase_success:
  assumes "lis_phase pairs i tps t" and "k < length tps" and "tps ! k < length tps"
    and "bv pairs (tps ! (tps ! k)) < v"
  shows "bv pairs (tps ! k) < v"
  using phase_probe [OF assms(1-3)] assms(4) by auto

lemma phase_step:
  assumes ph: "lis_phase pairs i tps t" and r: "r \<le> length tps" and tps: "\<forall>k < length tps. tps ! k < i"
    and suc: "0 < r \<Longrightarrow> tps ! (r - 1) < length tps \<and> bv pairs (tps ! (tps ! (r - 1))) < bv pairs i"
    and fail: "r < length tps \<Longrightarrow> tps ! r < length tps \<and> bv pairs i \<le> bv pairs (tps ! (tps ! r))"
  shows "\<exists>t'. lis_phase pairs (i + 1) (js_put tps r i) t'"
proof (cases "t = i")
  case True
  then have tps: "tps = [0..<i]" and srt: "\<forall>x y. x < y \<and> y < i \<longrightarrow> bv pairs x < bv pairs y"
    using ph by (auto simp: lis_phase_def)
  show ?thesis
  proof (cases "r = i")
    case True
    have "bv pairs x < bv pairs i" if "x < i" for x
    proof -
      have l: "bv pairs (i - 1) < bv pairs i" using suc True tps that by auto
      show ?thesis
      proof (cases "x = i - 1")
        case False
        then have "bv pairs x < bv pairs (i - 1)" using srt that by auto
        with l show ?thesis by simp
      qed (use l in simp)
    qed
    then have "lis_phase pairs (i + 1) (js_put tps r i) (i + 1)"
      using srt True tps by (auto simp: lis_phase_def js_put_def less_Suc_eq)
    then show ?thesis by blast
  next
    case False
    then have ri: "r < i" using r tps by simp
    then have "bv pairs i \<le> bv pairs r" using fail tps by auto
    moreover have "bv pairs r \<le> bv pairs (i - 1)"
      using srt ri by (cases "r = i - 1") (auto intro: less_imp_le)
    ultimately have "lis_phase pairs (i + 1) (js_put tps r i) i"
      using srt ri tps by (auto simp: lis_phase_def js_put_def nth_list_update)
    then show ?thesis by blast
  qed
next
  case False
  then have p: "0 < t" "t < i" "bv pairs t \<le> bv pairs (t - 1)" "length tps = t \<or> length tps = t + 1"
      "\<forall>k < length tps. (k < t \<and> tps ! k = k) \<or> t \<le> tps ! k"
      "length tps = t + 1 \<longrightarrow> t < tps ! t \<and> bv pairs t < bv pairs (tps ! t)"
      "\<forall>x y. x < y \<and> y < t \<longrightarrow> bv pairs x < bv pairs y"
    using ph by (auto simp: lis_phase_def)
  show ?thesis
  proof (cases "r = length tps")
    case True
    have "length tps = t"
    proof (rule ccontr)
      assume "length tps \<noteq> t"
      then have "length tps = t + 1" using p(4) by simp
      then have "tps ! t < t + 1" "t < tps ! t" using suc True p(6) by auto
      then show False by simp
    qed
    then have t1: "tps ! (t - 1) < t" "bv pairs (tps ! (tps ! (t - 1))) < bv pairs i"
      using suc True p(1) by auto
    then have "tps ! (t - 1) = t - 1" using p(5) \<open>length tps = t\<close> p(1)
      by (metis diff_less less_numeral_extra(1) not_less)
    then have "bv pairs t < bv pairs i" using t1 p(3) by simp
    then have "lis_phase pairs (i + 1) (js_put tps r i) t"
      using p True \<open>length tps = t\<close> by (auto simp: lis_phase_def js_put_def nth_append)
    then show ?thesis by blast
  next
    case False
    then have rl: "r < length tps" using r by simp
    have "r \<noteq> t" using fail [OF rl] p(4,6) rl by auto
    then have "lis_phase pairs (i + 1) (js_put tps r i) t"
      using p rl by (auto simp: lis_phase_def js_put_def nth_list_update)
    then show ?thesis by blast
  qed
qed

lemma lis_step_inv:
  assumes inv: "lis_inv pairs i s" and i: "i < length pairs" and step: "lis_step pairs i s = Inr s'"
  shows "lis_inv pairs (i + 1) s'"
proof -
  obtain piles prev tps where s: "s = \<lparr> ls_piles = piles, ls_prev = prev, ls_pileTop = tps \<rparr>" by (cases s)
  from inv s obtain t where I: "piles = map ((!) pairs) tps" "length prev = length pairs"
      "\<forall>k < length tps. tps ! k < i"
      "\<forall>k < length pairs. \<forall>j. prev ! k = Some j \<longrightarrow> j < k \<and> bv pairs j < bv pairs k"
      "lis_phase pairs i tps t"
    by (auto simp: lis_inv_def)
  from step s obtain r where r: "lis_search piles tps (bv pairs i) 0 (length piles) = Inr r"
    and s': "s' = \<lparr> ls_piles = js_put piles r (pairs ! i),
                    ls_prev = (if r > 0 then prev[i := Some (tps ! (r - 1))] else prev),
                    ls_pileTop = js_put tps r i \<rparr>"
    by (auto simp: lis_step_def bv_def split: sum.splits)
  have len: "length piles = length tps" using I(1) by simp
  note res = lis_search_result [OF r, simplified]
  have rl: "r \<le> length tps" using res len by simp
  have suc: "tps ! (r - 1) < length tps \<and> bv pairs (tps ! (tps ! (r - 1))) < bv pairs i" if "0 < r"
    using res that I(1) by (auto simp: nth_opt_def bv_def split: if_splits)
  have fail: "tps ! r < length tps \<and> bv pairs i \<le> bv pairs (tps ! (tps ! r))" if "r < length tps"
    using res that I(1) by (auto simp: nth_opt_def bv_def split: if_splits)
  have pv: "bv pairs (tps ! (r - 1)) < bv pairs i \<and> tps ! (r - 1) < i" if "0 < r"
    using phase_success [OF I(5), of "r - 1"] suc [OF that] that rl I(3) by auto
  have "\<exists>t'. lis_phase pairs (i + 1) (js_put tps r i) t'"
    by (rule phase_step [OF I(5) rl I(3) suc fail])
  moreover have "\<forall>k < length (js_put tps r i). js_put tps r i ! k < i + 1"
    using I(3) rl by (auto simp: js_put_nth js_put_length less_Suc_eq split: if_splits)
  moreover have "js_put tps r i \<noteq> []" by (auto simp: js_put_def)
  moreover have "j < k \<and> bv pairs j < bv pairs k"
    if "k < length pairs" "(if r > 0 then prev[i := Some (tps ! (r - 1))] else prev) ! k = Some j" for k j
  proof (cases "r > 0 \<and> k = i")
    case True
    then show ?thesis using that I(2) pv by auto
  next
    case False
    then have "prev ! k = Some j" using that(2) by (cases "r > 0") auto
    then show ?thesis using I(4) that(1) by blast
  qed
  ultimately show ?thesis
    using s' I(1,2) i js_put_map [of "(!) pairs" tps r i] by (auto simp: lis_inv_def)
qed

lemma lis_fold_inv:
  assumes "foldE (lis_step pairs) [i..<n] s = Inr s'" and "lis_inv pairs i s" and "n \<le> length pairs" and "i \<le> n"
  shows "lis_inv pairs n s'"
  using assms
proof (induction "n - i" arbitrary: i s)
  case (Suc d)
  then have i: "i < n" by simp
  then have u: "[i..<n] = i # [i + 1..<n]" by (simp add: upt_conv_Cons)
  from Suc.prems(1) obtain s1 where s1: "lis_step pairs i s = Inr s1" "foldE (lis_step pairs) [i + 1..<n] s1 = Inr s'"
    unfolding u by (auto split: sum.splits)
  have "lis_inv pairs (i + 1) s1" using lis_step_inv [OF Suc.prems(2) _ s1(1)] i Suc.prems(3) by simp
  with Suc.hyps(1) [of "i + 1" s1] Suc.hyps(2) s1(2) Suc.prems(3) i show ?case by simp
qed simp

lemma lis_chain_result:
  assumes "\<forall>k < length pairs. \<forall>j. prev ! k = Some j \<longrightarrow> j < k \<and> bv pairs j < bv pairs k"
    and "k < length pairs" and "k < fuel"
  shows "\<exists>js. lis_chain pairs prev fuel (Some k) res = Inr (map ((!) pairs) js @ res) \<and> js \<noteq> [] \<and> last js = k \<and>
    sorted_wrt (\<lambda>x y. x < y \<and> bv pairs x < bv pairs y) js \<and> set js \<subseteq> {..k}"
  using assms(2,3)
proof (induction fuel arbitrary: k res)
  case (Suc fuel)
  show ?case
  proof (cases "prev ! k")
    case None
    then show ?thesis by (intro exI [of _ "[k]"]) simp
  next
    case (Some j)
    then have j: "j < k" "bv pairs j < bv pairs k" using assms(1) Suc.prems by auto
    from Suc.IH [of j "pairs ! k # res"] j Suc.prems obtain js where
      js: "lis_chain pairs prev fuel (Some j) (pairs ! k # res) = Inr (map ((!) pairs) js @ pairs ! k # res)"
        "js \<noteq> []" "last js = j" "sorted_wrt (\<lambda>x y. x < y \<and> bv pairs x < bv pairs y) js" "set js \<subseteq> {..j}" by auto
    have "x < k \<and> bv pairs x < bv pairs k" if "x \<in> set js" for x
    proof -
      obtain ys where "js = ys @ [j]" using js(2,3) by (metis append_butlast_last_id)
      then show ?thesis using js(4) j that by (auto simp: sorted_wrt_append)
    qed
    then have "sorted_wrt (\<lambda>x y. x < y \<and> bv pairs x < bv pairs y) (js @ [k])"
      using js(4) by (simp add: sorted_wrt_append)
    moreover have "set (js @ [k]) \<subseteq> {..k}" using js(5) j by auto
    ultimately show ?thesis using js Some by (intro exI [of _ "js @ [k]"]) simp
  qed
qed simp

lemma lis_run_inv:
  assumes "pairs \<noteq> []"
    and "foldE (lis_step pairs) [0..<length pairs]
           \<lparr> ls_piles = [], ls_prev = replicate (length pairs) None, ls_pileTop = [] \<rparr> = Inr s"
  shows "ls_pileTop s ! (length (ls_piles s) - 1) < length pairs \<and>
    (\<forall>k < length pairs. \<forall>j. ls_prev s ! k = Some j \<longrightarrow> j < k \<and> bv pairs j < bv pairs k)"
proof -
  have "lis_phase pairs 0 [] 0" by (simp add: lis_phase_def)
  then have "lis_inv pairs 0 \<lparr> ls_piles = [], ls_prev = replicate (length pairs) None, ls_pileTop = [] \<rparr>"
    by (auto simp: lis_inv_def)
  from lis_fold_inv [OF assms(2) this] have inv: "lis_inv pairs (length pairs) s" by simp
  have "ls_pileTop s \<noteq> []" "length (ls_piles s) = length (ls_pileTop s)"
    using inv assms(1) by (auto simp: lis_inv_def)
  then show ?thesis using inv by (auto simp: lis_inv_def)
qed

lemma lis_result:
  assumes "longestIncreasingSubsequence pairs = Inr r"
  shows "\<exists>js. r = map ((!) pairs) js \<and> sorted_wrt (\<lambda>x y. x < y \<and> bv pairs x < bv pairs y) js \<and>
    set js \<subseteq> {..<length pairs} \<and> (pairs \<noteq> [] \<longrightarrow> js \<noteq> [])"
proof (cases "pairs = []")
  case True
  with assms show ?thesis by (simp add: longestIncreasingSubsequence_def)
next
  case False
  let ?s0 = "\<lparr> ls_piles = [], ls_prev = replicate (length pairs) None, ls_pileTop = [] \<rparr>"
  from assms False obtain s where s: "foldE (lis_step pairs) [0..<length pairs] ?s0 = Inr s"
    and r: "lis_chain pairs (ls_prev s) (length pairs) (Some (ls_pileTop s ! (length (ls_piles s) - 1))) [] = Inr r"
    by (auto simp: longestIncreasingSubsequence_def split: sum.splits)
  let ?k = "ls_pileTop s ! (length (ls_piles s) - 1)"
  note inv = lis_run_inv [OF False s]
  from inv obtain js where "r = map ((!) pairs) js" "js \<noteq> []"
      "sorted_wrt (\<lambda>x y. x < y \<and> bv pairs x < bv pairs y) js" "set js \<subseteq> {..?k}"
    using lis_chain_result [of pairs "ls_prev s" ?k "length pairs" "[]"] r by auto
  then show ?thesis using inv by (intro exI [of _ js]) auto
qed

lemma lis_step_fuel: "lis_step pairs i s \<noteq> Inl OutOfFuel"
  using lis_search_fuel by (auto simp: lis_step_def split: sum.splits)

lemma lis_fold_fuel: "foldE (lis_step pairs) is s \<noteq> Inl OutOfFuel"
  by (induction "is" arbitrary: s) (auto split: sum.splits simp: lis_step_fuel)

lemma lis_fuel: "longestIncreasingSubsequence pairs \<noteq> Inl OutOfFuel"
proof
  assume f: "longestIncreasingSubsequence pairs = Inl OutOfFuel"
  then have ne: "pairs \<noteq> []" by (auto simp: longestIncreasingSubsequence_def)
  let ?s0 = "\<lparr> ls_piles = [], ls_prev = replicate (length pairs) None, ls_pileTop = [] \<rparr>"
  from f ne obtain s where s: "foldE (lis_step pairs) [0..<length pairs] ?s0 = Inr s"
    and r: "lis_chain pairs (ls_prev s) (length pairs) (Some (ls_pileTop s ! (length (ls_piles s) - 1))) [] = Inl OutOfFuel"
    using lis_fold_fuel by (auto simp: longestIncreasingSubsequence_def split: sum.splits)
  note inv = lis_run_inv [OF ne s]
  from lis_chain_result [OF inv [THEN conjunct2] inv [THEN conjunct1] inv [THEN conjunct1], of "[]"] r
  show False by auto
qed

end
