(* ===== verification/DiffSound.thy ===== *)
theory DiffSound
  imports DiffLaws "HOL-Library.Multiset"
begin

text \<open>
  The anchors of the diff are matching unique lines in increasing order, the fallback is a
  longest common subsequence, and both feed an edit script whose two sides are the two texts.
\<close>

section \<open>Matching pairs\<close>

text \<open>Pairs of equal lines, increasing on both sides, inside the two ranges.\<close>

fun matches :: "string list \<Rightarrow> nat \<Rightarrow> nat \<Rightarrow> string list \<Rightarrow> nat \<Rightarrow> nat \<Rightarrow> (nat \<times> nat) list \<Rightarrow> bool" where
  "matches a aLo aHi b bLo bHi [] = True"
| "matches a aLo aHi b bLo bHi ((i, j) # ps) =
     (aLo \<le> i \<and> i < aHi \<and> bLo \<le> j \<and> j < bHi \<and> a ! i = b ! j \<and> matches a (i + 1) aHi b (j + 1) bHi ps)"

lemma matchesI:
  assumes "sorted_wrt (\<lambda>x y. fst x < fst y \<and> snd x < snd y) ps"
    and "\<And>i j. (i, j) \<in> set ps \<Longrightarrow> aLo \<le> i \<and> i < aHi \<and> bLo \<le> j \<and> j < bHi \<and> a ! i = b ! j"
  shows "matches a aLo aHi b bLo bHi ps"
  using assms
proof (induction ps arbitrary: aLo bLo)
  case (Cons p ps)
  obtain i j where p: "p = (i, j)" by (cases p)
  have "matches a (i + 1) aHi b (j + 1) bHi ps"
    by (rule Cons.IH) (use Cons.prems p in fastforce)+
  then show ?case using Cons.prems(2) [of i j] p by simp
qed simp

section \<open>Anchors\<close>

lemma count_lines_get:
  "jm_get (count_lines a lo hi) l =
     (let ks = filter (\<lambda>i. a ! i = l) [lo..<hi] in if ks = [] then None else Some ks)"
proof -
  let ?f = "\<lambda>i m. jm_set (a ! i) ((case jm_get m (a ! i) of None \<Rightarrow> [] | Some is \<Rightarrow> is) @ [i]) m"
  have "jm_get (fold ?f xs []) l = (let ks = filter (\<lambda>i. a ! i = l) xs in if ks = [] then None else Some ks)"
    for xs
    by (induction xs rule: rev_induct) (auto simp: Let_def)
  then show ?thesis by (simp add: count_lines_def)
qed

lemma count_lines_wf: "jm_wf (count_lines a lo hi)"
proof -
  have "jm_wf (fold (\<lambda>i m. jm_set (a ! i) ((case jm_get m (a ! i) of None \<Rightarrow> [] | Some is \<Rightarrow> is) @ [i]) m) xs m)"
    if "jm_wf m" for xs m
    using that by (induction xs arbitrary: m) simp_all
  then show ?thesis by (simp add: count_lines_def)
qed

lemma count_lines_entry:
  assumes "(l, ks) \<in> set (count_lines a lo hi)"
  shows "ks = filter (\<lambda>i. a ! i = l) [lo..<hi]"
proof -
  have "jm_get (count_lines a lo hi) l = Some ks" using assms count_lines_wf by (simp add: jm_wf_get)
  then show ?thesis by (simp add: count_lines_get Let_def split: if_splits)
qed

definition pair_of :: "(string, nat list) jsmap \<Rightarrow> string \<times> nat list \<Rightarrow> (nat \<times> nat) option" where
  "pair_of bCount = (\<lambda>(line, aIdxs). case jm_get bCount line of
       None \<Rightarrow> None
     | Some bIdxs \<Rightarrow> if length aIdxs = 1 \<and> length bIdxs = 1 then Some (aIdxs ! 0, bIdxs ! 0) else None)"

lemma unique_pairs_alt: "unique_pairs ac bc = List.map_filter (pair_of bc) ac"
  by (simp add: unique_pairs_def pair_of_def)

lemma pair_of_result:
  assumes "pair_of (count_lines b bLo bHi) (l, filter (\<lambda>i. a ! i = l) [aLo..<aHi]) = Some (i, j)"
  shows "aLo \<le> i \<and> i < aHi \<and> bLo \<le> j \<and> j < bHi \<and> a ! i = l \<and> b ! j = l"
proof -
  let ?ka = "filter (\<lambda>i. a ! i = l) [aLo..<aHi]" and ?kb = "filter (\<lambda>i. b ! i = l) [bLo..<bHi]"
  have g: "jm_get (count_lines b bLo bHi) l = (if ?kb = [] then None else Some ?kb)"
    by (simp add: count_lines_get Let_def)
  then have "length ?ka = 1 \<and> length ?kb = 1 \<and> i = ?ka ! 0 \<and> j = ?kb ! 0"
    using assms by (simp add: pair_of_def split: if_splits)
  then have "i \<in> set ?ka" "j \<in> set ?kb" by (simp_all only: nth_mem zero_less_one)
  then show ?thesis by auto
qed

lemma unique_pairs_member:
  assumes "(i, j) \<in> set (unique_pairs (count_lines a aLo aHi) (count_lines b bLo bHi))"
  shows "aLo \<le> i \<and> i < aHi \<and> bLo \<le> j \<and> j < bHi \<and> a ! i = b ! j"
proof -
  from assms obtain l ks where l: "(l, ks) \<in> set (count_lines a aLo aHi)"
    and p: "pair_of (count_lines b bLo bHi) (l, ks) = Some (i, j)"
    by (auto simp: unique_pairs_alt List.map_filter_def)
  show ?thesis using pair_of_result p unfolding count_lines_entry [OF l] by metis
qed

lemma unique_line_once:
  assumes "(i, i') \<in> set (unique_pairs (count_lines a aLo aHi) (count_lines b bLo bHi))"
    and "aLo \<le> j" and "j < aHi" and "a ! j = a ! i"
  shows "j = i"
proof -
  from assms(1) obtain l ks where l: "(l, ks) \<in> set (count_lines a aLo aHi)"
    and p: "pair_of (count_lines b bLo bHi) (l, ks) = Some (i, i')"
    by (auto simp: unique_pairs_alt List.map_filter_def)
  note ks = count_lines_entry [OF l]
  have al: "a ! i = l" using pair_of_result p unfolding ks by metis
  have "length ks = 1" "i = ks ! 0" using p by (auto simp: pair_of_def split: option.splits if_splits)
  then have "ks = [i]" by (cases ks) auto
  moreover have "j \<in> set ks" using assms(2-4) al ks by auto
  ultimately show ?thesis by simp
qed

lemma map_filter_distinct:
  assumes "distinct (map fst m)" and "\<And>l x p. (l, x) \<in> set m \<Longrightarrow> f (l, x) = Some p \<Longrightarrow> g p = l"
  shows "distinct (map g (List.map_filter f m)) \<and> g ` set (List.map_filter f m) \<subseteq> set (map fst m)"
  using assms
proof (induction m)
  case (Cons e m)
  obtain l x where e: "e = (l, x)" by (cases e)
  have IH: "distinct (map g (List.map_filter f m)) \<and> g ` set (List.map_filter f m) \<subseteq> set (map fst m)"
    by (rule Cons.IH) (use Cons.prems in auto)
  show ?case
  proof (cases "f e")
    case None
    then show ?thesis using IH by (auto simp: List.map_filter_simps)
  next
    case (Some p)
    then have "g p = l" using Cons.prems(2) e by auto
    then show ?thesis using Some IH Cons.prems(1) e by (auto simp: List.map_filter_simps)
  qed
qed (simp add: List.map_filter_simps)

lemma unique_pairs_distinct:
  "distinct (map fst (unique_pairs (count_lines a aLo aHi) (count_lines b bLo bHi)))"
proof -
  have "distinct (map (\<lambda>p. a ! fst p) (List.map_filter (pair_of (count_lines b bLo bHi)) (count_lines a aLo aHi)))"
  proof (rule map_filter_distinct [THEN conjunct1])
    show "distinct (map fst (count_lines a aLo aHi))" using count_lines_wf by (simp add: jm_wf_def)
    fix l ks p
    assume l: "(l, ks) \<in> set (count_lines a aLo aHi)" and p: "pair_of (count_lines b bLo bHi) (l, ks) = Some p"
    show "a ! fst p = l"
      using pair_of_result [of b bLo bHi l a aLo aHi "fst p" "snd p"] p count_lines_entry [OF l] by simp
  qed
  then have "distinct (map ((!) a) (map fst (List.map_filter (pair_of (count_lines b bLo bHi)) (count_lines a aLo aHi))))"
    by (simp add: comp_def)
  then show ?thesis unfolding unique_pairs_alt by (simp only: distinct_map)
qed

lemma patienceAnchors_matches:
  assumes "patienceAnchors a aLo aHi b bLo bHi = Inr anchors"
  shows "matches a aLo aHi b bLo bHi anchors"
proof -
  let ?ps = "sort_key fst (unique_pairs (count_lines a aLo aHi) (count_lines b bLo bHi))"
  from assms obtain js where js: "anchors = map ((!) ?ps) js"
      "sorted_wrt (\<lambda>x y. x < y \<and> bv ?ps x < bv ?ps y) js" "set js \<subseteq> {..<length ?ps}"
    unfolding patienceAnchors_def using lis_result by blast
  have srt: "sorted (map fst ?ps)" by simp
  have "mset (map fst ?ps) = mset (map fst (unique_pairs (count_lines a aLo aHi) (count_lines b bLo bHi)))"
    by simp
  then have "distinct (map fst ?ps)" using unique_pairs_distinct by (metis mset_eq_imp_distinct_iff)
  with srt have "sorted_wrt (<) (map fst ?ps)" by (simp only: strict_sorted_iff simp_thms)
  then have lt: "fst (?ps ! x) < fst (?ps ! y)" if "x < y" "y < length ?ps" for x y
    using sorted_wrt_nth_less [of "(<)" "map fst ?ps" x y] that by simp
  show ?thesis
  proof (rule matchesI)
    have "sorted_wrt (\<lambda>x y. fst (?ps ! x) < fst (?ps ! y) \<and> snd (?ps ! x) < snd (?ps ! y)) js"
      using js(2) by (rule sorted_wrt_mono_rel [rotated]) (use lt js(3) in \<open>auto simp: bv_def\<close>)
    then show "sorted_wrt (\<lambda>x y. fst x < fst y \<and> snd x < snd y) anchors"
      by (simp add: js(1) sorted_wrt_map)
    fix i j assume "(i, j) \<in> set anchors"
    then obtain k where "k < length ?ps" "?ps ! k = (i, j)" using js(1,3) by auto
    then have "(i, j) \<in> set ?ps" by (metis nth_mem)
    then show "aLo \<le> i \<and> i < aHi \<and> bLo \<le> j \<and> j < bHi \<and> a ! i = b ! j"
      using unique_pairs_member by simp
  qed
qed

section \<open>The fallback table\<close>

fun lcs_len :: "string list \<Rightarrow> string list \<Rightarrow> nat" where
  "lcs_len [] ys = 0"
| "lcs_len xs [] = 0"
| "lcs_len (x # xs) (y # ys) =
     (if x = y then lcs_len xs ys + 1 else max (lcs_len xs (y # ys)) (lcs_len (x # xs) ys))"

lemma lcs_len_Nil2 [simp]: "lcs_len xs [] = 0"
  by (cases xs) auto

text \<open>\<open>lcs_len\<close> is the length of a longest common subsequence.\<close>

lemma lcs_len_upper:
  "subseq zs xs \<Longrightarrow> subseq zs ys \<Longrightarrow> length zs \<le> lcs_len xs ys"
proof (induction xs ys arbitrary: zs rule: lcs_len.induct)
  case (3 x xs y ys)
  show ?case
  proof (cases zs)
    case (Cons z zs')
    show ?thesis
    proof (cases "x = y")
      case True
      have "subseq zs' xs" "subseq zs' ys"
        using "3.prems" Cons by (metis list_emb_Cons_iff1 subseq_Cons' subseq_Cons2' list_emb.cases list.inject list.distinct(1))+
      then show ?thesis using "3.IH"(1) [OF True, of zs'] True Cons by simp
    next
      case False
      then have "subseq zs xs \<or> subseq zs ys"
        using "3.prems" Cons by (metis subseq_Cons2_neq)
      then show ?thesis using "3.IH"(2,3) [OF False, of zs] "3.prems" False by auto
    qed
  qed simp
qed auto

fun tails :: "'a list \<Rightarrow> 'a list list" where
  "tails [] = [[]]"
| "tails (y # ys) = (y # ys) # tails ys"

lemma hd_tails [simp]: "hd (tails ys) = ys"
  by (cases ys) auto

lemma length_tails [simp]: "length (tails ys) = length ys + 1"
  by (induction ys) auto

lemma tails_not_Nil [simp]: "tails ys \<noteq> []"
  by (cases ys) auto

lemma nth_tails: "i \<le> length ys \<Longrightarrow> tails ys ! i = drop i ys"
  by (induction ys arbitrary: i) (auto simp: nth_Cons' drop_Cons')

lemma hd_map_tails: "hd (map f (tails ys)) = f ys"
  by (cases ys) auto

lemma dp_row_correct: "dp_row x bs (map (lcs_len xs) (tails bs)) = map (lcs_len (x # xs)) (tails bs)"
  by (induction bs) (simp_all add: Let_def hd_map_tails)

lemma replicate_tails: "replicate (length bs + 1) 0 = map (lcs_len []) (tails bs)"
  by (induction bs) auto

lemma dp_table_correct: "dp_table as bs = map (\<lambda>xs. map (lcs_len xs) (tails bs)) (tails as)"
proof (induction as)
  case Nil
  then show ?case using replicate_tails [of bs] by simp
next
  case (Cons x xs)
  then show ?case by (simp add: Let_def hd_map_tails dp_row_correct)
qed

lemma dp_nth:
  "i \<le> length as \<Longrightarrow> j \<le> length bs \<Longrightarrow> dp_table as bs ! i ! j = lcs_len (drop i as) (drop j bs)"
  by (simp add: dp_table_correct nth_tails)

lemma lcs_walk_length:
  "i \<le> length as \<Longrightarrow> j \<le> length bs \<Longrightarrow>
     length (lcs_walk as bs (dp_table as bs) aLo bLo i j) = lcs_len (drop i as) (drop j bs)"
proof (induction as bs "dp_table as bs" aLo bLo i j rule: lcs_walk.induct)
  case (1 as bs aLo bLo i j)
  show ?case
  proof (cases "i < length as \<and> j < length bs")
    case True
    then have d: "drop i as = as ! i # drop (i + 1) as" "drop j bs = bs ! j # drop (j + 1) bs"
      by (simp_all add: Cons_nth_drop_Suc)
    show ?thesis
      using 1 True by (subst lcs_walk.simps) (auto simp: d dp_nth simp flip: Cons_nth_drop_Suc)
  next
    case False
    then have "drop i as = [] \<or> drop j bs = []" using 1 by auto
    then show ?thesis using False by (subst lcs_walk.simps) auto
  qed
qed

lemma lcs_walk_matches:
  assumes "as = js_slice a aLo aHi" and "bs = js_slice b bLo bHi" and "aHi \<le> length a" and "bHi \<le> length b"
    and "aLo \<le> aHi" and "bLo \<le> bHi"
  shows "matches a (aLo + i) aHi b (bLo + j) bHi (lcs_walk as bs dp aLo bLo i j)"
proof -
  have "matches a x aHi b y bHi (lcs_walk as bs dp aLo bLo i j)"
    if "x \<le> aLo + i" "y \<le> bLo + j" for x y
    using assms that
  proof (induction as bs dp aLo bLo i j arbitrary: x y rule: lcs_walk.induct)
    case (1 as bs dp aLo bLo i j)
    have n: "as ! i = a ! (aLo + i)" "bs ! j = b ! (bLo + j)" "aLo + i < aHi" "bLo + j < bHi"
      if "i < length as" "j < length bs"
      using that "1.prems" by (auto simp: length_slice nth_slice)
    show ?case
      using 1 n by (subst lcs_walk.simps) simp
  qed
  then show ?thesis by simp
qed

lemma myersLCS_matches:
  assumes "aHi \<le> length a" and "bHi \<le> length b" and "aLo \<le> aHi" and "bLo \<le> bHi"
  shows "matches a aLo aHi b bLo bHi (myersLCS a aLo aHi b bLo bHi)"
  using lcs_walk_matches [OF refl refl assms, of 0 0 "dp_table (js_slice a aLo aHi) (js_slice b bLo bHi)"]
  by (simp add: myersLCS_def Let_def)

lemma myersLCS_length:
  "length (myersLCS a aLo aHi b bLo bHi) = lcs_len (js_slice a aLo aHi) (js_slice b bLo bHi)"
  using lcs_walk_length [of 0 "js_slice a aLo aHi" 0 "js_slice b bLo bHi" aLo bLo]
  by (auto simp: myersLCS_def Let_def)

section \<open>The two sides of a script\<close>

definition old_lines :: "DiffOp list \<Rightarrow> string list" where
  "old_lines ops = concat (map (\<lambda>p. if do_type p = DInsert then [] else do_lines p) ops)"

definition new_lines :: "DiffOp list \<Rightarrow> string list" where
  "new_lines ops = concat (map (\<lambda>p. if do_type p = DDelete then [] else do_lines p) ops)"

lemma sides_append [simp]:
  "old_lines (xs @ ys) = old_lines xs @ old_lines ys" "new_lines (xs @ ys) = new_lines xs @ new_lines ys"
  by (simp_all add: old_lines_def new_lines_def)

lemma sides_simps [simp]:
  "old_lines [] = []" "new_lines [] = []"
  "old_lines (p # ps) = (if do_type p = DInsert then [] else do_lines p) @ old_lines ps"
  "new_lines (p # ps) = (if do_type p = DDelete then [] else do_lines p) @ new_lines ps"
  by (simp_all add: old_lines_def new_lines_def)

lemma slice_through:
  "lo \<le> k \<Longrightarrow> k < hi \<Longrightarrow> hi \<le> length xs \<Longrightarrow> js_slice xs lo k @ xs ! k # js_slice xs (k + 1) hi = js_slice xs lo hi"
  using slice_split [of lo k hi xs] slice_Cons [of k hi xs] by simp

lemma slice_guard: "(if lo < hi then js_slice xs lo hi else []) = js_slice xs lo hi"
  by (simp add: js_slice_def)

lemma emit_sides:
  assumes "matches a ai aHi b bi bHi lcs" and "ai \<le> aHi" and "bi \<le> bHi" and "aHi \<le> length a" and "bHi \<le> length b"
  shows "old_lines (emitFromLCS a ai aHi b bi bHi lcs ops) = old_lines ops @ js_slice a ai aHi \<and>
         new_lines (emitFromLCS a ai aHi b bi bHi lcs ops) = new_lines ops @ js_slice b bi bHi"
  using assms
proof (induction a ai aHi b bi bHi lcs ops rule: emitFromLCS.induct)
  case (1 a ai aHi b bi bHi ops)
  then show ?case by auto
next
  case (2 a ai aHi b bi bHi la lb lcs ops)
  then have "js_slice a ai la @ a ! la # js_slice a (la + 1) aHi = js_slice a ai aHi"
    by (intro slice_through) auto
  moreover have "js_slice b bi lb @ b ! lb # js_slice b (lb + 1) bHi = js_slice b bi bHi"
    using 2 by (intro slice_through) auto
  ultimately show ?case using 2 by (auto simp: slice_guard)
qed

lemma diff_sides:
  "diffRecurse fuel a aLo aHi b bLo bHi ops = Inr ops' \<Longrightarrow> aLo \<le> aHi \<Longrightarrow> bLo \<le> bHi \<Longrightarrow>
     aHi \<le> length a \<Longrightarrow> bHi \<le> length b \<Longrightarrow>
     old_lines ops' = old_lines ops @ js_slice a aLo aHi \<and> new_lines ops' = new_lines ops @ js_slice b bLo bHi"
  "diffAnchors fuel a aLo aHi b bLo bHi anchors ops = Inr ops' \<Longrightarrow> aLo \<le> aHi \<Longrightarrow> bLo \<le> bHi \<Longrightarrow>
     aHi \<le> length a \<Longrightarrow> bHi \<le> length b \<Longrightarrow> matches a aLo aHi b bLo bHi anchors \<Longrightarrow>
     old_lines ops' = old_lines ops @ js_slice a aLo aHi \<and> new_lines ops' = new_lines ops @ js_slice b bLo bHi"
proof (induction fuel a aLo aHi b bLo bHi ops and fuel a aLo aHi b bLo bHi anchors ops
    arbitrary: ops' and ops' rule: diffRecurse_diffAnchors.induct)
  case (2 fuel a aLo aHi b bLo bHi ops)
  consider (a) "aLo = aHi" | (b) "aLo \<noteq> aHi" "bLo = bHi" | (c) "aLo \<noteq> aHi" "bLo \<noteq> bHi" by blast
  then show ?case
  proof cases
    case c
    then obtain anchors where an: "patienceAnchors a aLo aHi b bLo bHi = Inr anchors"
      using 2(2) by (auto split: sum.splits)
    show ?thesis
    proof (cases "anchors = []")
      case True
      then have "ops' = emitFromLCS a aLo aHi b bLo bHi (myersLCS a aLo aHi b bLo bHi) ops"
        using 2(2) c an by simp
      then show ?thesis using emit_sides myersLCS_matches 2(3-6) by simp
    next
      case False
      then have "diffAnchors fuel a aLo aHi b bLo bHi anchors ops = Inr ops'" using 2(2) c an by simp
      with 2(1) [of anchors] c an False 2(3-6) patienceAnchors_matches [OF an] show ?thesis by auto
    qed
  qed (use 2 in \<open>auto split: if_splits\<close>)
next
  case (4 fuel a aLo aHi b bLo bHi ai bi anchors ops)
  from 4(3) obtain ops1 where r: "diffRecurse fuel a aLo ai b bLo bi ops = Inr ops1"
    and an: "diffAnchors fuel a (ai + 1) aHi b (bi + 1) bHi anchors (ops1 @ [mk_op DEqual [a ! ai]]) = Inr ops'"
    by (auto split: sum.splits)
  have m: "aLo \<le> ai" "ai < aHi" "bLo \<le> bi" "bi < bHi" "a ! ai = b ! bi"
    "matches a (ai + 1) aHi b (bi + 1) bHi anchors" using 4(8) by auto
  have "js_slice a aLo ai @ a ! ai # js_slice a (ai + 1) aHi = js_slice a aLo aHi"
    using m 4(6) by (intro slice_through) auto
  moreover have "js_slice b bLo bi @ b ! bi # js_slice b (bi + 1) bHi = js_slice b bLo bHi"
    using m 4(7) by (intro slice_through) auto
  ultimately show ?case using 4(1) [OF r] 4(2) [OF r an] m 4(4-7) by auto
qed auto

lemma diff_fuel:
  "aHi - aLo < fuel \<Longrightarrow> aLo \<le> aHi \<Longrightarrow> diffRecurse fuel a aLo aHi b bLo bHi ops \<noteq> Inl OutOfFuel"
  "matches a aLo aHi b bLo bHi anchors \<Longrightarrow> aLo \<le> aHi \<Longrightarrow>
     (if anchors = [] then aHi - aLo < fuel else aHi - aLo \<le> fuel) \<Longrightarrow>
     diffAnchors fuel a aLo aHi b bLo bHi anchors ops \<noteq> Inl OutOfFuel"
proof (induction fuel a aLo aHi b bLo bHi ops and fuel a aLo aHi b bLo bHi anchors ops
    rule: diffRecurse_diffAnchors.induct)
  case (2 fuel a aLo aHi b bLo bHi ops)
  show ?case
  proof (cases "aLo = aHi \<or> bLo = bHi")
    case False
    show ?thesis
    proof (cases "patienceAnchors a aLo aHi b bLo bHi")
      case (Inl e)
      have "e \<noteq> OutOfFuel" using Inl lis_fuel [of "sort_key fst (unique_pairs (count_lines a aLo aHi) (count_lines b bLo bHi))"]
        by (auto simp: patienceAnchors_def)
      then show ?thesis using Inl False by auto
    next
      case (Inr anchors)
      then show ?thesis
        using False 2(1) [of anchors] patienceAnchors_matches [OF Inr] 2(2,3) by auto
    qed
  qed (use 2 in auto)
next
  case (4 fuel a aLo aHi b bLo bHi ai bi anchors ops)
  have m: "aLo \<le> ai" "ai < aHi" "matches a (ai + 1) aHi b (bi + 1) bHi anchors" using 4(3) by auto
  have f: "aHi - aLo \<le> fuel" using 4(5) by simp
  have "diffRecurse fuel a aLo ai b bLo bi ops \<noteq> Inl OutOfFuel"
    using 4(1) m f by linarith
  moreover have "diffAnchors fuel a (ai + 1) aHi b (bi + 1) bHi anchors (ops' @ [mk_op DEqual [a ! ai]]) \<noteq> Inl OutOfFuel"
    if "diffRecurse fuel a aLo ai b bLo bi ops = Inr ops'" for ops'
  proof (rule 4(2) [OF that m(3)])
    show "ai + 1 \<le> aHi" using m by simp
    show "if anchors = [] then aHi - (ai + 1) < fuel else aHi - (ai + 1) \<le> fuel" using m f by auto
  qed
  ultimately show ?case by (auto split: sum.splits)
qed auto

end
