(* ===== verification/DiffProps.thy ===== *)
theory DiffProps
  imports DiffSound
begin

text \<open>
  The normal form of a script, when the diff returns, when it throws, and the properties of
  \<open>diffLines\<close>.
\<close>

section \<open>Normal form\<close>

definition coalesced :: "DiffOp list \<Rightarrow> bool" where
  "coalesced ops = (list_all (\<lambda>p. do_lines p \<noteq> []) ops \<and> successively (\<lambda>p q. do_type p \<noteq> do_type q) ops)"

lemma coalesced_snoc:
  "coalesced (ops @ [p]) \<longleftrightarrow>
     coalesced ops \<and> do_lines p \<noteq> [] \<and> (ops = [] \<or> do_type (last ops) \<noteq> do_type p)"
  by (auto simp: coalesced_def successively_append_iff)

lemma coalesced_last:
  "coalesced result \<Longrightarrow> result \<noteq> [] \<Longrightarrow> do_type (last result) = t \<Longrightarrow>
     coalesced (butlast result @ [mk_op t (do_lines (last result) @ ls)])"
  by (cases result rule: rev_cases) (auto simp: coalesced_snoc)

lemma coalesce_loop_correct:
  "coalesced result \<Longrightarrow>
     coalesced (coalesce_loop ps result) \<and>
     old_lines (coalesce_loop ps result) = old_lines result @ old_lines ps \<and>
     new_lines (coalesce_loop ps result) = new_lines result @ new_lines ps"
proof (induction ps result rule: coalesce_loop.induct)
  case (2 p ps result)
  consider (e) "do_lines p = []"
    | (m) "do_lines p \<noteq> []" "result \<noteq> []" "do_type (last result) = do_type p"
    | (n) "do_lines p \<noteq> []" "\<not> (result \<noteq> [] \<and> do_type (last result) = do_type p)" by blast
  then show ?case
  proof cases
    case e
    then show ?thesis using 2(1) [OF e 2(4)] by auto
  next
    case m
    obtain rs r where r: "result = rs @ [r]" using m(2) by (cases result rule: rev_cases) auto
    have "coalesced (butlast result @ [mk_op (do_type p) (do_lines (last result) @ do_lines p)])"
      by (rule coalesced_last [OF 2(4) m(2,3)])
    from 2(2) [OF m(1) _ this] m r show ?thesis by auto
  next
    case n
    have "coalesced (result @ [mk_op (do_type p) (do_lines p)])"
      using n 2(4) by (auto simp: coalesced_snoc)
    from 2(3) [OF n this] n show ?thesis by auto
  qed
qed simp

lemma coalesceOps_correct:
  "coalesced (coalesceOps ops) \<and> old_lines (coalesceOps ops) = old_lines ops \<and>
   new_lines (coalesceOps ops) = new_lines ops"
  using coalesce_loop_correct [of "[]" ops] by (simp add: coalesceOps_def coalesced_def)

lemma diffLines_sides:
  assumes "diffLines a b = Inr ops"
  shows "old_lines ops = a \<and> new_lines ops = b \<and> coalesced ops"
proof -
  from assms obtain raw where raw: "diffRecurse (length a + 1) a 0 (length a) b 0 (length b) [] = Inr raw"
    and ops: "ops = coalesceOps raw"
    by (auto simp: diffLines_def split: sum.splits)
  from diff_sides(1) [OF raw] show ?thesis using coalesceOps_correct [of raw] ops by simp
qed

lemma diffLines_fuel: "diffLines a b \<noteq> Inl OutOfFuel"
  using diff_fuel(1) [of "length a" 0 "length a + 1" a b 0 "length b" "[]"]
  by (auto simp: diffLines_def split: sum.splits)

section \<open>When it returns\<close>

lemma lis_search_all:
  assumes "\<And>k. lo \<le> k \<Longrightarrow> k < hi \<Longrightarrow> nth_opt T k = Some k \<and> (\<exists>p. nth_opt P k = Some p \<and> snd p < v)"
    and "lo \<le> hi"
  shows "lis_search P T v lo hi = Inr hi"
  using assms
proof (induction P T v lo hi rule: lis_search.induct)
  case (1 P T v lo hi)
  show ?case
  proof (cases "lo < hi")
    case True
    let ?mid = "(lo + hi) div 2"
    have m: "lo \<le> ?mid" "?mid < hi" using True by auto
    from 1(3) [OF m] obtain p where p: "nth_opt T ?mid = Some ?mid" "nth_opt P ?mid = Some p" "snd p < v" by auto
    have "lis_search P T v (?mid + 1) hi = Inr hi"
      by (rule 1(1) [OF True refl p]) (use 1(3) m in auto)
    then show ?thesis using True p by (subst lis_search.simps) (simp add: Let_def)
  next
    case False
    then show ?thesis using 1(4) by (subst lis_search.simps) simp
  qed
qed

definition lis_straight :: "(nat \<times> nat) list \<Rightarrow> nat \<Rightarrow> lis_state" where
  "lis_straight pairs i =
     \<lparr> ls_piles = take i pairs,
       ls_prev = map (\<lambda>k. if 0 < k \<and> k < i then Some (k - 1) else None) [0..<length pairs],
       ls_pileTop = [0..<i] \<rparr>"

lemma lis_step_straight:
  assumes inc: "\<And>x y. x < y \<Longrightarrow> y < length pairs \<Longrightarrow> bv pairs x < bv pairs y" and i: "i < length pairs"
  shows "lis_step pairs i (lis_straight pairs i) = Inr (lis_straight pairs (i + 1))"
proof -
  have s: "lis_search (take i pairs) [0..<i] (bv pairs i) 0 i = Inr i"
    by (rule lis_search_all) (use inc i in \<open>auto simp: nth_opt_def bv_def\<close>)
  have prev: "(if i > 0 then (map (\<lambda>k. if 0 < k \<and> k < i then Some (k - 1) else None) [0..<length pairs])[i := Some ([0..<i] ! (i - 1))]
      else map (\<lambda>k. if 0 < k \<and> k < i then Some (k - 1) else None) [0..<length pairs]) =
      map (\<lambda>k. if 0 < k \<and> k < i + 1 then Some (k - 1) else None) [0..<length pairs]"
    by (rule nth_equalityI) (auto simp: nth_list_update less_Suc_eq)
  have piles: "js_put (take i pairs) i (pairs ! i) = take (i + 1) pairs"
    using i by (simp add: js_put_def take_Suc_conv_app_nth)
  have tops: "js_put [0..<i] i i = [0..<i + 1]" by (simp add: js_put_def)
  have len: "length (take i pairs) = i" using i by simp
  show ?thesis
    unfolding lis_step_def lis_straight_def lis_state.simps len bv_def [symmetric] s sum.case
    using prev piles tops by simp
qed

lemma lis_fold_straight:
  assumes inc: "\<And>x y. x < y \<Longrightarrow> y < length pairs \<Longrightarrow> bv pairs x < bv pairs y" and "i \<le> length pairs"
  shows "foldE (lis_step pairs) [0..<i] (lis_straight pairs 0) = Inr (lis_straight pairs i)"
  using assms(2)
proof (induction i)
  case (Suc i)
  then show ?case using lis_step_straight [OF inc, of i] by (simp add: foldE_append)
qed simp

lemma lis_chain_straight:
  "k < length pairs \<Longrightarrow> k < fuel \<Longrightarrow>
     lis_chain pairs (map (\<lambda>k. if 0 < k \<and> k < length pairs then Some (k - 1) else None) [0..<length pairs])
       fuel (Some k) res = Inr (take (k + 1) pairs @ res)"
proof (induction fuel arbitrary: k res)
  case (Suc fuel)
  show ?case
  proof (cases k)
    case 0
    then have "pairs = pairs ! 0 # drop 1 pairs" using Suc.prems by (cases pairs) auto
    then have "take 1 pairs = [pairs ! 0]" by (metis One_nat_def take0 take_Suc_Cons)
    then show ?thesis using 0 Suc.prems by simp
  next
    case (Suc m)
    have "take (k + 1) pairs = take (m + 1) pairs @ [pairs ! k]"
      using Suc Suc.prems by (simp add: take_Suc_conv_app_nth)
    then show ?thesis using Suc Suc.prems Suc.IH [of m "pairs ! k # res"] by simp
  qed
qed simp

lemma lis_increasing:
  assumes inc: "\<And>x y. x < y \<Longrightarrow> y < length pairs \<Longrightarrow> bv pairs x < bv pairs y"
  shows "longestIncreasingSubsequence pairs = Inr pairs"
proof (cases "pairs = []")
  case False
  have s0: "lis_straight pairs 0 = \<lparr> ls_piles = [], ls_prev = replicate (length pairs) None, ls_pileTop = [] \<rparr>"
    by (simp add: lis_straight_def map_replicate_const)
  have "foldE (lis_step pairs) [0..<length pairs]
      \<lparr> ls_piles = [], ls_prev = replicate (length pairs) None, ls_pileTop = [] \<rparr> = Inr (lis_straight pairs (length pairs))"
    using lis_fold_straight [OF inc, of "length pairs"] s0 by simp
  moreover have "lis_chain pairs (ls_prev (lis_straight pairs (length pairs))) (length pairs)
      (Some (ls_pileTop (lis_straight pairs (length pairs)) ! (length (ls_piles (lis_straight pairs (length pairs))) - 1))) []
      = Inr pairs"
    using lis_chain_straight [of "length pairs - 1" pairs "length pairs" "[]"] False
    by (simp add: lis_straight_def)
  ultimately show ?thesis using False by (simp add: longestIncreasingSubsequence_def)
qed (simp add: longestIncreasingSubsequence_def)

text \<open>No two common lines occur in opposite orders in the two texts.\<close>

definition no_crossing :: "string list \<Rightarrow> string list \<Rightarrow> bool" where
  "no_crossing a b =
     (\<forall>j < length a. \<forall>i < j. \<forall>y < length b. \<forall>x < y. \<not> (a ! i \<noteq> a ! j \<and> a ! i = b ! y \<and> a ! j = b ! x))"

lemma anchors_return:
  assumes "no_crossing a b" and "aHi \<le> length a" and "bHi \<le> length b"
  shows "\<exists>anchors. patienceAnchors a aLo aHi b bLo bHi = Inr anchors"
proof -
  let ?u = "unique_pairs (count_lines a aLo aHi) (count_lines b bLo bHi)"
  let ?ps = "sort_key fst ?u"
  have "distinct (map fst ?u)" by (rule unique_pairs_distinct)
  then have "distinct (map fst ?ps)" by (metis mset_eq_imp_distinct_iff mset_map mset_sort)
  then have "sorted_wrt (<) (map fst ?ps)" by (simp add: strict_sorted_iff)
  then have fst_lt: "fst (?ps ! x) < fst (?ps ! y)" if "x < y" "y < length ?ps" for x y
    using sorted_wrt_nth_less [of "(<)" "map fst ?ps" x y] that by simp
  have "bv ?ps x < bv ?ps y" if xy: "x < y" "y < length ?ps" for x y
  proof -
    obtain i i' where p: "?ps ! x = (i, i')" by fastforce
    obtain j j' where q: "?ps ! y = (j, j')" by fastforce
    have m: "(i, i') \<in> set ?u" "(j, j') \<in> set ?u"
      using nth_mem [of x ?ps] nth_mem [of y ?ps] xy p q by auto
    have ij: "i < j" using fst_lt [OF xy] p q by simp
    note u1 = unique_pairs_member [OF m(1)] and u2 = unique_pairs_member [OF m(2)]
    from m(1) have ne: "a ! i \<noteq> a ! j" using unique_line_once [of i i' a aLo aHi b bLo bHi j] ij u2 by auto
    moreover have "i' \<noteq> j'" using ne u1 u2 by metis
    moreover have "\<not> j' < i'"
    proof
      assume "j' < i'"
      moreover have "j < length a" "i' < length b" using u1 u2 assms(2,3) by auto
      ultimately show False using assms(1) ij ne u1 u2 unfolding no_crossing_def by metis
    qed
    ultimately show ?thesis using p q by (simp add: bv_def)
  qed
  from lis_increasing [of ?ps, OF this] show ?thesis by (auto simp: patienceAnchors_def)
qed

lemma diff_returns:
  "no_crossing a b \<Longrightarrow> aLo \<le> aHi \<Longrightarrow> bLo \<le> bHi \<Longrightarrow> aHi \<le> length a \<Longrightarrow> bHi \<le> length b \<Longrightarrow>
     diffRecurse fuel a aLo aHi b bLo bHi ops \<noteq> Inl TypeError"
  "no_crossing a b \<Longrightarrow> aLo \<le> aHi \<Longrightarrow> bLo \<le> bHi \<Longrightarrow> aHi \<le> length a \<Longrightarrow> bHi \<le> length b \<Longrightarrow>
     matches a aLo aHi b bLo bHi anchors \<Longrightarrow> diffAnchors fuel a aLo aHi b bLo bHi anchors ops \<noteq> Inl TypeError"
proof (induction fuel a aLo aHi b bLo bHi ops and fuel a aLo aHi b bLo bHi anchors ops
    rule: diffRecurse_diffAnchors.induct)
  case (2 fuel a aLo aHi b bLo bHi ops)
  then obtain anchors where an: "patienceAnchors a aLo aHi b bLo bHi = Inr anchors"
    using anchors_return by blast
  then show ?case using 2 patienceAnchors_matches [OF an] by auto
next
  case (4 fuel a aLo aHi b bLo bHi ai bi anchors ops)
  then show ?case by (auto split: sum.splits)
qed auto

section \<open>When it throws\<close>

lemma lis_swapped:
  assumes "j1 \<le> j0"
  shows "longestIncreasingSubsequence ((i0, j0) # (i1, j1) # p # ps) = Inl TypeError"
proof -
  let ?pairs = "(i0, j0) # (i1, j1) # p # ps"
  let ?n = "length ?pairs"
  have u: "[0..<?n] = 0 # 1 # 2 # [3..<?n]"
  proof -
    have "[0..<?n] = [0..<3 + length ps]" by (simp add: numeral_3_eq_3)
    also have "\<dots> = [0..<3] @ [3..<3 + length ps]" by (rule upt_add_eq_append) simp
    finally show ?thesis by (simp add: upt_conv_Cons numeral_3_eq_3)
  qed
  have s0: "lis_step ?pairs 0 \<lparr> ls_piles = [], ls_prev = pv, ls_pileTop = [] \<rparr> =
      Inr \<lparr> ls_piles = [(i0, j0)], ls_prev = pv, ls_pileTop = [0] \<rparr>" for pv
    by (simp add: lis_step_def lis_search.simps js_put_def)
  have s1: "lis_step ?pairs 1 \<lparr> ls_piles = [(i0, j0)], ls_prev = pv, ls_pileTop = [0] \<rparr> =
      Inr \<lparr> ls_piles = [(i1, j1)], ls_prev = pv, ls_pileTop = [1] \<rparr>" for pv
    using assms by (simp add: lis_step_def lis_search.simps js_put_def nth_opt_def Let_def)
  have s2: "lis_step ?pairs 2 \<lparr> ls_piles = [(i1, j1)], ls_prev = pv, ls_pileTop = [1] \<rparr> = Inl TypeError" for pv
    by (simp add: lis_step_def lis_search.simps nth_opt_def Let_def)
  show ?thesis
    unfolding longestIncreasingSubsequence_def u by (simp only: foldE.simps s0 s1 s2 sum.case) simp
qed

lemma diff_swapped:
  assumes "distinct [x, y, z]"
  shows "diffLines [x, y, z] [y, x, z] = Inl TypeError"
proof -
  have ca: "count_lines [x, y, z] 0 3 = [(x, [0]), (y, [1]), (z, [2])]"
    using assms by (auto simp: count_lines_def upt_conv_Cons nth_Cons')
  have cb: "count_lines [y, x, z] 0 3 = [(y, [0]), (x, [1]), (z, [2])]"
    using assms by (auto simp: count_lines_def upt_conv_Cons nth_Cons')
  have "patienceAnchors [x, y, z] 0 3 [y, x, z] 0 3 = Inl TypeError"
    using assms lis_swapped [of 0 1 0 1 "(2, 2)" "[]"]
    by (auto simp: patienceAnchors_def ca cb unique_pairs_def List.map_filter_simps insort_key.simps)
  then have "diffRecurse (Suc 3) [x, y, z] 0 3 [y, x, z] 0 3 [] = Inl TypeError"
    by (subst diffRecurse.simps) simp
  then show ?thesis by (simp add: diffLines_def numeral_eq_Suc)
qed

section \<open>Properties of the diff\<close>

text \<open>
  C24: Whenever \<open>diffLines\<close> returns, the kept and deleted lines of its script are the old text,
  the kept and inserted lines are the new text, no entry is empty and no two neighbours have
  the same type; when it does not return it is because of the throw of the anchor search, never
  because the recursion runs on.
\<close>

theorem diffLines_sound:
  "case diffLines a b of
     Inl e \<Rightarrow> e = TypeError
   | Inr ops \<Rightarrow> old_lines ops = a \<and> new_lines ops = b \<and> coalesced ops"
  using diffLines_sides [of a b] diffLines_fuel [of a b] js_error.exhaust by (auto split: sum.splits)

text \<open>
  The diff returns a correct script for every pair of texts in which no two common lines
  appear in opposite orders: any mix of insertions, deletions and rewritten lines.
\<close>

theorem diffLines_returns:
  assumes "no_crossing a b"
  shows "\<exists>ops. diffLines a b = Inr ops \<and> old_lines ops = a \<and> new_lines ops = b"
proof -
  have "diffRecurse (length a + 1) a 0 (length a) b 0 (length b) [] \<noteq> Inl TypeError"
    by (rule diff_returns(1) [OF assms]) simp_all
  then have "diffLines a b \<noteq> Inl TypeError" by (auto simp: diffLines_def split: sum.splits)
  then obtain ops where "diffLines a b = Inr ops"
    using diffLines_fuel by (metis js_error.exhaust obj_sumE)
  with diffLines_sides show ?thesis by blast
qed

theorem diffLines_returns_witness:
  "\<exists>ops. diffLines [''t'', ''a'', ''b''] [''t'', ''c'', ''b'', ''d''] = Inr ops \<and>
     old_lines ops = [''t'', ''a'', ''b''] \<and> new_lines ops = [''t'', ''c'', ''b'', ''d'']"
  by (rule diffLines_returns) (auto simp: no_crossing_def less_Suc_eq numeral_eq_Suc)

text \<open>
  Exchanging the first two of three different lines makes the diff throw: the search of the
  anchor routine reads \<open>piles\<close> at an index of \<open>pairs\<close> that no pile has, and reads a property
  of \<open>undefined\<close>.  The anchor routine throws on every list of three or more anchors that starts
  with a descent.
\<close>

theorem diffLines_throws_on_exchange:
  assumes "distinct [x, y, z]" and "j1 \<le> j0"
  shows "diffLines [x, y, z] [y, x, z] = Inl TypeError \<and>
         longestIncreasingSubsequence ((i0, j0) # (i1, j1) # p # ps) = Inl TypeError"
  using diff_swapped [OF assms(1)] lis_swapped [OF assms(2)] by blast

theorem diffLines_throws_on_exchange_witness:
  "diffLines [''x'', ''y'', ''z''] [''y'', ''x'', ''z''] = Inl TypeError \<and>
   longestIncreasingSubsequence ((0, 1) # (1, 0) # (2, 2) # []) = Inl TypeError"
  by (rule diffLines_throws_on_exchange) simp_all

text \<open>
  The anchors the diff recurses between increase strictly on both sides and join equal
  lines that occur once in each range, whenever the routine returns, although its search
  compares with the wrong piles.
\<close>

theorem anchors_correct:
  "case patienceAnchors a aLo aHi b bLo bHi of
     Inl e \<Rightarrow> e = TypeError
   | Inr anchors \<Rightarrow>
       sorted_wrt (\<lambda>x y. fst x < fst y \<and> snd x < snd y) anchors \<and>
       set anchors \<subseteq> {(i, j). i \<in> {aLo..<aHi} \<and> j \<in> {bLo..<bHi} \<and> a ! i = b ! j}"
proof (cases "patienceAnchors a aLo aHi b bLo bHi")
  case (Inl e)
  then show ?thesis using lis_fuel js_error.exhaust by (metis (mono_tags) patienceAnchors_def sum.case(1))
next
  case (Inr anchors)
  have "sorted_wrt (\<lambda>x y. fst x < fst y \<and> snd x < snd y) ps \<and>
      set ps \<subseteq> {(i, j). i \<in> {l..<aHi} \<and> j \<in> {m..<bHi} \<and> a ! i = b ! j}"
    if "matches a l aHi b m bHi ps" for l m ps
    using that
  proof (induction ps arbitrary: l m)
    case (Cons p ps)
    obtain i j where p: "p = (i, j)" by (cases p)
    with Cons.prems have h: "l \<le> i" "i < aHi" "m \<le> j" "j < bHi" "a ! i = b ! j" by auto
    from Cons p have "sorted_wrt (\<lambda>x y. fst x < fst y \<and> snd x < snd y) ps"
      "set ps \<subseteq> {(i', j'). i' \<in> {i + 1..<aHi} \<and> j' \<in> {j + 1..<bHi} \<and> a ! i' = b ! j'}" by auto
    with h p show ?case by fastforce
  qed simp
  from this [OF patienceAnchors_matches [OF Inr]] show ?thesis using Inr by simp
qed

text \<open>
  The fallback picks a longest common subsequence: its pairs join equal lines inside the
  ranges, in order, and no common subsequence of the two ranges has more lines.
\<close>

theorem myersLCS_longest:
  assumes "aLo \<le> aHi" and "aHi \<le> length a" and "bLo \<le> bHi" and "bHi \<le> length b"
    and "subseq zs (js_slice a aLo aHi)" and "subseq zs (js_slice b bLo bHi)"
  shows "matches a aLo aHi b bLo bHi (myersLCS a aLo aHi b bLo bHi) \<and>
         length zs \<le> length (myersLCS a aLo aHi b bLo bHi)"
  using myersLCS_matches [OF assms(2,4,1,3)] lcs_len_upper [OF assms(5,6)] by (simp add: myersLCS_length)

theorem myersLCS_longest_witness:
  "matches [''a'', ''b'', ''a''] 0 3 [''b'', ''a'', ''a''] 0 3 (myersLCS [''a'', ''b'', ''a''] 0 3 [''b'', ''a'', ''a''] 0 3) \<and>
   length [''b'', ''a''] \<le> length (myersLCS [''a'', ''b'', ''a''] 0 3 [''b'', ''a'', ''a''] 0 3)"
  by (rule myersLCS_longest) (simp_all add: js_slice_def)

end
