(* ===== verification/Merge3.thy ===== *)
theory Merge3
  imports DiffProps
begin

text \<open>
  The three-way merge of \<open>src/merge/diff3.ts\<close> (its layer 2): line-ending normalisation, the
  hunks of a diff against the ancestor, and the loop that walks the hunks of both sides.  The
  loop's indices \<open>li\<close> and \<open>ri\<close> are the remaining suffixes of the two hunk lists.
\<close>

section \<open>Lines of a text\<close>

text \<open>\<open>replace(/\r\n/g, '\n')\<close> and \<open>replace(/\r/g, '\n')\<close>.\<close>

fun replace_crlf :: "string \<Rightarrow> string" where
  "replace_crlf [] = []"
| "replace_crlf [c] = [c]"
| "replace_crlf (c # d # s) = (if c = CR \<and> d = LF then LF # replace_crlf s else c # replace_crlf (d # s))"

definition replace_cr :: "string \<Rightarrow> string" where
  "replace_cr s = map (\<lambda>c. if c = CR then LF else c) s"

definition normalizeLines :: "string \<Rightarrow> string list" where
  "normalizeLines text = splitOn LF (replace_cr (replace_crlf text))"

section \<open>Hunks\<close>

record Hunk =
  ancStart :: nat
  ancEnd :: nat
  h_lines :: "string list"

fun to_hunks_loop :: "DiffOp list \<Rightarrow> nat \<Rightarrow> Hunk option \<Rightarrow> Hunk list \<Rightarrow> Hunk list" where
  "to_hunks_loop [] ai cur hunks = hunks @ (case cur of None \<Rightarrow> [] | Some h \<Rightarrow> [h])"
| "to_hunks_loop (p # ps) ai cur hunks =
     (case do_type p of
        DEqual \<Rightarrow>
          to_hunks_loop ps (ai + length (do_lines p)) None
            (hunks @ (case cur of None \<Rightarrow> [] | Some h \<Rightarrow> [h]))
      | DDelete \<Rightarrow>
          (let h = (case cur of None \<Rightarrow> \<lparr> ancStart = ai, ancEnd = ai, h_lines = [] \<rparr> | Some h \<Rightarrow> h);
               ai' = ai + length (do_lines p)
           in to_hunks_loop ps ai' (Some (h\<lparr> ancEnd := ai' \<rparr>)) hunks)
      | DInsert \<Rightarrow>
          (let h = (case cur of None \<Rightarrow> \<lparr> ancStart = ai, ancEnd = ai, h_lines = [] \<rparr> | Some h \<Rightarrow> h)
           in to_hunks_loop ps ai (Some (h\<lparr> h_lines := h_lines h @ do_lines p \<rparr>)) hunks))"

definition toHunks :: "DiffOp list \<Rightarrow> Hunk list" where
  "toHunks diff = to_hunks_loop diff 0 None []"

definition isInsert :: "Hunk \<Rightarrow> bool" where
  "isInsert h = (ancStart h = ancEnd h)"

definition sameLines :: "string list \<Rightarrow> string list \<Rightarrow> bool" where
  "sameLines a b = (length a = length b \<and> list_all (\<lambda>(x, y). x = y) (zip a b))"

definition hunksInteract :: "Hunk \<Rightarrow> Hunk \<Rightarrow> bool" where
  "hunksInteract a b =
     (max (ancStart a) (ancStart b) < min (ancEnd a) (ancEnd b) \<or>
      (isInsert a \<and> isInsert b \<and> ancStart a = ancStart b) \<or>
      (isInsert a \<and> \<not> isInsert b \<and> ancStart b < ancStart a \<and> ancStart a < ancEnd b) \<or>
      (isInsert b \<and> \<not> isInsert a \<and> ancStart a < ancStart b \<and> ancStart b < ancEnd a))"

section \<open>The merge loop\<close>

definition emitEqual :: "string list \<Rightarrow> nat \<Rightarrow> nat \<Rightarrow> string list" where
  "emitEqual ancestor from to = map ((!) ancestor) [from..<to]"

definition takeLocal :: "Hunk \<Rightarrow> Hunk \<Rightarrow> bool" where
  "takeLocal lh rh =
     (if ancStart lh \<noteq> ancStart rh then ancStart lh < ancStart rh
      else if isInsert lh \<noteq> isInsert rh then isInsert lh
      else True)"

fun merge_loop ::
  "string list \<Rightarrow> Hunk list \<Rightarrow> Hunk list \<Rightarrow> nat \<Rightarrow> string list \<Rightarrow> ConflictChunk list \<Rightarrow>
     nat \<times> string list \<times> ConflictChunk list" where
  "merge_loop anc [] [] pos merged conflicts = (pos, merged, conflicts)"
| "merge_loop anc (lh # ls) [] pos merged conflicts =
     (let m = merged @ emitEqual anc pos (ancStart lh); p = max pos (ancStart lh)
      in merge_loop anc ls [] (max p (ancEnd lh)) (m @ h_lines lh) conflicts)"
| "merge_loop anc [] (rh # rs) pos merged conflicts =
     (let m = merged @ emitEqual anc pos (ancStart rh); p = max pos (ancStart rh)
      in merge_loop anc [] rs (max p (ancEnd rh)) (m @ h_lines rh) conflicts)"
| "merge_loop anc (lh # ls) (rh # rs) pos merged conflicts =
     (let nextChange = min (ancStart lh) (ancStart rh);
          m = merged @ emitEqual anc pos nextChange;
          p = max pos nextChange
      in if hunksInteract lh rh then
           (if isInsert lh \<and> isInsert rh \<and> ancStart lh = ancStart rh then
              (if sameLines (h_lines lh) (h_lines rh)
               then merge_loop anc ls rs p (m @ h_lines lh) conflicts
               else merge_loop anc ls rs p (m @ h_lines lh @ h_lines rh) conflicts)
            else if sameLines (h_lines lh) (h_lines rh) then
              merge_loop anc ls rs (max p (max (ancEnd lh) (ancEnd rh))) (m @ h_lines lh) conflicts
            else
              (let chunk =
                     \<lparr> cc_startLine = length m, cc_endLine = int (length (m @ h_lines lh)) - 1,
                       cc_ancestor =
                         js_slice anc (min (ancStart lh) (ancStart rh)) (max (ancEnd lh) (ancEnd rh)),
                       cc_local = h_lines lh, cc_remote = h_lines rh \<rparr>
               in merge_loop anc ls rs (max p (max (ancEnd lh) (ancEnd rh))) (m @ h_lines lh)
                    (conflicts @ [chunk])))
         else if takeLocal lh rh then
           merge_loop anc ls (rh # rs) (max p (ancEnd lh)) (m @ h_lines lh) conflicts
         else
           merge_loop anc (lh # ls) rs (max p (ancEnd rh)) (m @ h_lines rh) conflicts)"

definition mergeHunks :: "string list \<Rightarrow> Hunk list \<Rightarrow> Hunk list \<Rightarrow> ThreeWayMergeResult" where
  "mergeHunks ancestor local remote =
     (case merge_loop ancestor local remote 0 [] [] of
        (pos, merged, conflicts) \<Rightarrow>
          \<lparr> tw_merged = merged @ emitEqual ancestor pos (length ancestor), tw_conflicts = conflicts,
            tw_hasConflicts = (conflicts \<noteq> []) \<rparr>)"

definition mergeFromDiffs ::
  "string list \<Rightarrow> DiffOp list \<Rightarrow> DiffOp list \<Rightarrow> ThreeWayMergeResult" where
  "mergeFromDiffs ancestor localDiff remoteDiff =
     mergeHunks ancestor (toHunks localDiff) (toHunks remoteDiff)"

definition clean_result :: "string list \<Rightarrow> ThreeWayMergeResult" where
  "clean_result ls = \<lparr> tw_merged = ls, tw_conflicts = [], tw_hasConflicts = False \<rparr>"

definition merge_lines ::
  "string list \<Rightarrow> string list \<Rightarrow> string list \<Rightarrow> js_error + ThreeWayMergeResult" where
  "merge_lines ancestor local remote =
     (if joinWith [LF] local = joinWith [LF] remote then Inr (clean_result local)
      else if joinWith [LF] local = joinWith [LF] ancestor then Inr (clean_result remote)
      else if joinWith [LF] remote = joinWith [LF] ancestor then Inr (clean_result local)
      else (case diffLines ancestor local of
              Inl e \<Rightarrow> Inl e
            | Inr localDiff \<Rightarrow>
                (case diffLines ancestor remote of
                   Inl e \<Rightarrow> Inl e
                 | Inr remoteDiff \<Rightarrow> Inr (mergeFromDiffs ancestor localDiff remoteDiff))))"

definition threeWayMerge :: "string \<Rightarrow> string \<Rightarrow> string \<Rightarrow> js_error + ThreeWayMergeResult" where
  "threeWayMerge ancestorText localText remoteText =
     merge_lines (normalizeLines ancestorText) (normalizeLines localText) (normalizeLines remoteText)"

section \<open>Applying hunks\<close>

fun apply_hunks :: "string list \<Rightarrow> nat \<Rightarrow> Hunk list \<Rightarrow> string list" where
  "apply_hunks anc pos [] = drop pos anc"
| "apply_hunks anc pos (h # hs) = js_slice anc pos (ancStart h) @ h_lines h @ apply_hunks anc (ancEnd h) hs"

text \<open>Hunks in order inside an ancestor of \<open>n\<close> lines, with a kept line between neighbours.\<close>

fun hunks_ok :: "nat \<Rightarrow> nat \<Rightarrow> Hunk list \<Rightarrow> bool" where
  "hunks_ok lo n [] = True"
| "hunks_ok lo n (h # hs) =
     (lo \<le> ancStart h \<and> ancStart h \<le> ancEnd h \<and> ancEnd h \<le> n \<and>
      (ancStart h < ancEnd h \<or> h_lines h \<noteq> []) \<and> hunks_ok (ancEnd h + 1) n hs)"

definition hunk_key :: "Hunk \<Rightarrow> nat" where
  "hunk_key h = 2 * ancStart h + (if isInsert h then 0 else 1)"

definition hunks_apart :: "Hunk list \<Rightarrow> Hunk list \<Rightarrow> bool" where
  "hunks_apart L R = list_all (\<lambda>l. list_all (\<lambda>r. \<not> hunksInteract l r) R) L"

lemma hunks_ok_mono: "hunks_ok lo n hs \<Longrightarrow> lo' \<le> lo \<Longrightarrow> hunks_ok lo' n hs"
  by (cases hs) auto

lemma hunks_ok_start: "hunks_ok lo n hs \<Longrightarrow> h \<in> set hs \<Longrightarrow> lo \<le> ancStart h"
  by (induction lo n hs rule: hunks_ok.induct) auto

lemma sameLines_iff [simp]: "sameLines a b \<longleftrightarrow> a = b"
proof -
  have "sameLines a b \<longleftrightarrow> list_all2 (=) a b"
    unfolding sameLines_def list_all2_iff list_all_iff by (rule refl)
  then show ?thesis by (simp only: list.rel_eq)
qed

lemma emitEqual_slice: "to \<le> length anc \<Longrightarrow> emitEqual anc from to = js_slice anc from to"
  by (rule nth_equalityI) (auto simp: emitEqual_def length_slice nth_slice)

lemma drop_slice: "lo \<le> mid \<Longrightarrow> drop lo xs = js_slice xs lo mid @ drop mid xs"
proof -
  assume "lo \<le> mid"
  then have "drop mid xs = drop (mid - lo) (drop lo xs)" by simp
  then show ?thesis unfolding js_slice_def by (metis append_take_drop_id)
qed

lemma apply_hunks_shift:
  "hunks_ok mid n hs \<Longrightarrow> lo \<le> mid \<Longrightarrow> apply_hunks anc lo hs = js_slice anc lo mid @ apply_hunks anc mid hs"
  using drop_slice [of lo mid anc] slice_split [of lo mid "ancStart (hd hs)" anc] by (cases hs) auto

section \<open>Hunks of a diff\<close>

lemma to_hunks_acc: "to_hunks_loop ps ai cur hunks = hunks @ to_hunks_loop ps ai cur []"
proof (induction ps arbitrary: ai cur hunks)
  case (Cons p ps)
  show ?case
  proof (cases "do_type p")
    case DEqual
    then show ?thesis
      using Cons.IH [of "ai + length (do_lines p)" None "hunks @ (case cur of None \<Rightarrow> [] | Some h \<Rightarrow> [h])"]
        Cons.IH [of "ai + length (do_lines p)" None "case cur of None \<Rightarrow> [] | Some h \<Rightarrow> [h]"] by simp
  next
    case DInsert
    then show ?thesis using Cons.IH by (metis (no_types, lifting) DiffType.simps(8) to_hunks_loop.simps(2))
  next
    case DDelete
    then show ?thesis using Cons.IH by (metis (no_types, lifting) DiffType.simps(9) to_hunks_loop.simps(2))
  qed
qed simp

lemma to_hunks_apply:
  assumes "list_all (\<lambda>p. do_lines p \<noteq> []) ps"
  shows "(drop ai anc = old_lines ps \<and> ai \<le> length anc \<longrightarrow>
            hunks_ok ai (length anc) (to_hunks_loop ps ai None []) \<and>
            apply_hunks anc ai (to_hunks_loop ps ai None []) = new_lines ps) \<and>
         (drop ai anc = old_lines ps \<and> ai \<le> length anc \<and> ancStart h \<le> ancEnd h \<and> ancEnd h = ai \<and>
            (ancStart h < ancEnd h \<or> h_lines h \<noteq> []) \<longrightarrow>
            hunks_ok (ancStart h) (length anc) (to_hunks_loop ps ai (Some h) []) \<and>
            apply_hunks anc (ancStart h) (to_hunks_loop ps ai (Some h) []) = h_lines h @ new_lines ps)"
  using assms
proof (induction ps arbitrary: ai h)
  case (Cons p ps)
  let ?n = "length (do_lines p)"
  have ne: "do_lines p \<noteq> []" "list_all (\<lambda>p. do_lines p \<noteq> []) ps" using Cons.prems by auto
  note IH = Cons.IH [OF ne(2)]
  have old: "drop (ai + ?n) anc = old_lines ps \<and> ai + ?n \<le> length anc \<and> js_slice anc ai (ai + ?n) = do_lines p"
    if "drop ai anc = do_lines p @ old_lines ps" "ai \<le> length anc"
  proof -
    have "drop (ai + ?n) anc = drop ?n (drop ai anc)" by (simp add: add.commute)
    moreover have "length anc - ai = ?n + length (old_lines ps)"
      using arg_cong [OF that(1), of length] by simp
    then have "ai + ?n \<le> length anc" using that(2) ne(1) by (cases "do_lines p") auto
    ultimately show ?thesis using that by (simp add: js_slice_def)
  qed
  show ?case
  proof (cases "do_type p")
    case DEqual
    have eq: "to_hunks_loop (p # ps) ai None [] = to_hunks_loop ps (ai + ?n) None []"
      "to_hunks_loop (p # ps) ai (Some h) [] = h # to_hunks_loop ps (ai + ?n) None []"
      using DEqual to_hunks_acc [of ps "ai + ?n" None "[h]"] by auto
    have n: "1 \<le> ?n" using ne(1) by (simp add: Suc_le_eq)
    let ?H = "to_hunks_loop ps (ai + ?n) None []"
    have k: "hunks_ok (ai + 1) (length anc) ?H \<and> hunks_ok ai (length anc) ?H \<and>
        apply_hunks anc ai ?H = do_lines p @ new_lines ps"
      if "drop ai anc = do_lines p @ old_lines ps" "ai \<le> length anc"
    proof -
      have "hunks_ok (ai + ?n) (length anc) ?H" "apply_hunks anc (ai + ?n) ?H = new_lines ps"
        using old [OF that] IH [of "ai + ?n"] by auto
      moreover have "js_slice anc ai (ai + ?n) = do_lines p" using old [OF that] by simp
      ultimately show ?thesis
        using n apply_hunks_shift [of "ai + ?n" "length anc" ?H ai anc]
          hunks_ok_mono [of "ai + ?n" "length anc" ?H "ai + 1"] hunks_ok_mono [of "ai + ?n" "length anc" ?H ai] by simp
    qed
    show ?thesis unfolding eq using DEqual k by (auto simp del: to_hunks_loop.simps)
  next
    case DInsert
    let ?h = "case c of None \<Rightarrow> \<lparr> ancStart = ai, ancEnd = ai, h_lines = [] \<rparr> | Some h \<Rightarrow> h"
    have eq: "to_hunks_loop (p # ps) ai None [] =
        to_hunks_loop ps ai (Some \<lparr> ancStart = ai, ancEnd = ai, h_lines = do_lines p \<rparr>) []"
      "to_hunks_loop (p # ps) ai (Some h) [] = to_hunks_loop ps ai (Some (h\<lparr> h_lines := h_lines h @ do_lines p \<rparr>)) []"
      using DInsert by (auto simp: Let_def)
    show ?thesis
      unfolding eq using DInsert ne(1) IH [of ai "\<lparr> ancStart = ai, ancEnd = ai, h_lines = do_lines p \<rparr>"]
        IH [of ai "h\<lparr> h_lines := h_lines h @ do_lines p \<rparr>"] by simp
  next
    case DDelete
    have eq: "to_hunks_loop (p # ps) ai None [] =
        to_hunks_loop ps (ai + ?n) (Some \<lparr> ancStart = ai, ancEnd = ai + ?n, h_lines = [] \<rparr>) []"
      "to_hunks_loop (p # ps) ai (Some h) [] = to_hunks_loop ps (ai + ?n) (Some (h\<lparr> ancEnd := ai + ?n \<rparr>)) []"
      using DDelete by (auto simp: Let_def)
    have n: "0 < ?n" using ne(1) by simp
    show ?thesis
      unfolding eq using DDelete old n IH [of "ai + ?n" "\<lparr> ancStart = ai, ancEnd = ai + ?n, h_lines = [] \<rparr>"]
        IH [of "ai + ?n" "h\<lparr> ancEnd := ai + ?n \<rparr>"] by auto
  qed
qed auto

lemma toHunks_correct:
  assumes "diffLines a b = Inr ops"
  shows "hunks_ok 0 (length a) (toHunks ops) \<and> apply_hunks a 0 (toHunks ops) = b"
  using to_hunks_apply [of ops 0 a] diffLines_sides [OF assms] by (simp add: toHunks_def coalesced_def)

end
