(* ===== verification/Merge3Laws.thy ===== *)
theory Merge3Laws
  imports Merge3
begin

text \<open>
  What the three-way merge guarantees.  Edits of the two sides that do not interact are all
  applied, whichever side is called local; whatever the hunks are, no edit disappears and
  nothing is made up, and each conflict chunk points at its local lines in the merged text.
\<close>

section \<open>The six steps of the loop\<close>

lemma loop_steps:
  fixes anc merged cs pos
  defines "m lh rh \<equiv> merged @ emitEqual anc pos (min (ancStart lh) (ancStart rh))"
    and "p lh rh \<equiv> max pos (min (ancStart lh) (ancStart rh))"
    and "gap lh rh \<equiv> isInsert lh \<and> isInsert rh \<and> ancStart lh = ancStart rh"
  shows
    "hunksInteract lh rh \<Longrightarrow> gap lh rh \<Longrightarrow> h_lines lh = h_lines rh \<Longrightarrow>
       merge_loop anc (lh # ls) (rh # rs) pos merged cs = merge_loop anc ls rs (p lh rh) (m lh rh @ h_lines lh) cs"
    "hunksInteract lh rh \<Longrightarrow> gap lh rh \<Longrightarrow> h_lines lh \<noteq> h_lines rh \<Longrightarrow>
       merge_loop anc (lh # ls) (rh # rs) pos merged cs =
         merge_loop anc ls rs (p lh rh) (m lh rh @ h_lines lh @ h_lines rh) cs"
    "hunksInteract lh rh \<Longrightarrow> \<not> gap lh rh \<Longrightarrow> h_lines lh = h_lines rh \<Longrightarrow>
       merge_loop anc (lh # ls) (rh # rs) pos merged cs =
         merge_loop anc ls rs (max (p lh rh) (max (ancEnd lh) (ancEnd rh))) (m lh rh @ h_lines lh) cs"
    "hunksInteract lh rh \<Longrightarrow> \<not> gap lh rh \<Longrightarrow> h_lines lh \<noteq> h_lines rh \<Longrightarrow>
       merge_loop anc (lh # ls) (rh # rs) pos merged cs =
         merge_loop anc ls rs (max (p lh rh) (max (ancEnd lh) (ancEnd rh))) (m lh rh @ h_lines lh)
           (cs @ [\<lparr> cc_startLine = length (m lh rh), cc_endLine = int (length (m lh rh @ h_lines lh)) - 1,
                    cc_ancestor = js_slice anc (min (ancStart lh) (ancStart rh)) (max (ancEnd lh) (ancEnd rh)),
                    cc_local = h_lines lh, cc_remote = h_lines rh \<rparr>])"
    "\<not> hunksInteract lh rh \<Longrightarrow> takeLocal lh rh \<Longrightarrow>
       merge_loop anc (lh # ls) (rh # rs) pos merged cs =
         merge_loop anc ls (rh # rs) (max (p lh rh) (ancEnd lh)) (m lh rh @ h_lines lh) cs"
    "\<not> hunksInteract lh rh \<Longrightarrow> \<not> takeLocal lh rh \<Longrightarrow>
       merge_loop anc (lh # ls) (rh # rs) pos merged cs =
         merge_loop anc (lh # ls) rs (max (p lh rh) (ancEnd rh)) (m lh rh @ h_lines rh) cs"
  unfolding m_def p_def gap_def
  by (simp_all only: merge_loop.simps Let_def sameLines_iff if_True if_False simp_thms)

text \<open>The same cases as an induction rule for the loop.\<close>

lemma merge_loop_induct [case_names finished locals remotes ins_same ins same conflict take_local take_remote]:
  fixes P :: "Hunk list \<Rightarrow> Hunk list \<Rightarrow> nat \<Rightarrow> string list \<Rightarrow> ConflictChunk list \<Rightarrow> bool"
  assumes "\<And>pos merged cs. P [] [] pos merged cs"
    and "\<And>lh ls pos merged cs.
      P ls [] (max (max pos (ancStart lh)) (ancEnd lh)) ((merged @ emitEqual anc pos (ancStart lh)) @ h_lines lh) cs \<Longrightarrow>
      P (lh # ls) [] pos merged cs"
    and "\<And>rh rs pos merged cs.
      P [] rs (max (max pos (ancStart rh)) (ancEnd rh)) ((merged @ emitEqual anc pos (ancStart rh)) @ h_lines rh) cs \<Longrightarrow>
      P [] (rh # rs) pos merged cs"
    and "\<And>lh ls rh rs pos merged cs p m. p = max pos (min (ancStart lh) (ancStart rh)) \<Longrightarrow>
      m = merged @ emitEqual anc pos (min (ancStart lh) (ancStart rh)) \<Longrightarrow>
      hunksInteract lh rh \<Longrightarrow> isInsert lh \<and> isInsert rh \<and> ancStart lh = ancStart rh \<Longrightarrow>
      h_lines lh = h_lines rh \<Longrightarrow> P ls rs p (m @ h_lines lh) cs \<Longrightarrow> P (lh # ls) (rh # rs) pos merged cs"
    and "\<And>lh ls rh rs pos merged cs p m. p = max pos (min (ancStart lh) (ancStart rh)) \<Longrightarrow>
      m = merged @ emitEqual anc pos (min (ancStart lh) (ancStart rh)) \<Longrightarrow>
      hunksInteract lh rh \<Longrightarrow> isInsert lh \<and> isInsert rh \<and> ancStart lh = ancStart rh \<Longrightarrow>
      h_lines lh \<noteq> h_lines rh \<Longrightarrow> P ls rs p (m @ h_lines lh @ h_lines rh) cs \<Longrightarrow> P (lh # ls) (rh # rs) pos merged cs"
    and "\<And>lh ls rh rs pos merged cs p m. p = max pos (min (ancStart lh) (ancStart rh)) \<Longrightarrow>
      m = merged @ emitEqual anc pos (min (ancStart lh) (ancStart rh)) \<Longrightarrow>
      hunksInteract lh rh \<Longrightarrow> \<not> (isInsert lh \<and> isInsert rh \<and> ancStart lh = ancStart rh) \<Longrightarrow>
      h_lines lh = h_lines rh \<Longrightarrow> P ls rs (max p (max (ancEnd lh) (ancEnd rh))) (m @ h_lines lh) cs \<Longrightarrow>
      P (lh # ls) (rh # rs) pos merged cs"
    and "\<And>lh ls rh rs pos merged cs p m. p = max pos (min (ancStart lh) (ancStart rh)) \<Longrightarrow>
      m = merged @ emitEqual anc pos (min (ancStart lh) (ancStart rh)) \<Longrightarrow>
      hunksInteract lh rh \<Longrightarrow> \<not> (isInsert lh \<and> isInsert rh \<and> ancStart lh = ancStart rh) \<Longrightarrow>
      h_lines lh \<noteq> h_lines rh \<Longrightarrow> P ls rs (max p (max (ancEnd lh) (ancEnd rh))) (m @ h_lines lh)
        (cs @ [\<lparr> cc_startLine = length m, cc_endLine = int (length (m @ h_lines lh)) - 1,
                    cc_ancestor = js_slice anc (min (ancStart lh) (ancStart rh)) (max (ancEnd lh) (ancEnd rh)),
                    cc_local = h_lines lh, cc_remote = h_lines rh \<rparr>]) \<Longrightarrow>
      P (lh # ls) (rh # rs) pos merged cs"
    and "\<And>lh ls rh rs pos merged cs p m. p = max pos (min (ancStart lh) (ancStart rh)) \<Longrightarrow>
      m = merged @ emitEqual anc pos (min (ancStart lh) (ancStart rh)) \<Longrightarrow>
      \<not> hunksInteract lh rh \<Longrightarrow> takeLocal lh rh \<Longrightarrow>
      P ls (rh # rs) (max p (ancEnd lh)) (m @ h_lines lh) cs \<Longrightarrow> P (lh # ls) (rh # rs) pos merged cs"
    and "\<And>lh ls rh rs pos merged cs p m. p = max pos (min (ancStart lh) (ancStart rh)) \<Longrightarrow>
      m = merged @ emitEqual anc pos (min (ancStart lh) (ancStart rh)) \<Longrightarrow>
      \<not> hunksInteract lh rh \<Longrightarrow> \<not> takeLocal lh rh \<Longrightarrow>
      P (lh # ls) rs (max p (ancEnd rh)) (m @ h_lines rh) cs \<Longrightarrow> P (lh # ls) (rh # rs) pos merged cs"
  shows "P L R pos merged cs"
proof (induction "length L + length R" arbitrary: L R pos merged cs rule: less_induct)
  case less
  show ?case
  proof (cases L)
    case Nil
    then show ?thesis by (cases R) (use assms(1,3) less in auto)
  next
    case L: (Cons lh ls)
    show ?thesis
    proof (cases R)
      case Nil
      then show ?thesis using assms(2) less L by simp
    next
      case R: (Cons rh rs)
      have s: "P ls rs p m c" "P ls (rh # rs) p m c" "P (lh # ls) rs p m c" for p m c
        using less L R by simp_all
      show ?thesis
      proof (cases "hunksInteract lh rh")
        case True
        then show ?thesis
          using assms(4-7) [OF refl refl, of lh rh] s L R
          by (cases "isInsert lh \<and> isInsert rh \<and> ancStart lh = ancStart rh"; cases "h_lines lh = h_lines rh") metis+
      next
        case False
        then show ?thesis using assms(8,9) [OF refl refl, of lh rh] s L R by (cases "takeLocal lh rh") metis+
      qed
    qed
  qed
qed

section \<open>Edits that do not interact\<close>

fun hunk_zip :: "Hunk list \<Rightarrow> Hunk list \<Rightarrow> Hunk list" where
  "hunk_zip [] R = R"
| "hunk_zip (l # ls) [] = l # ls"
| "hunk_zip (l # ls) (r # rs) =
     (if takeLocal l r then l # hunk_zip ls (r # rs) else r # hunk_zip (l # ls) rs)"

lemma hunk_zip_Nil2 [simp]: "hunk_zip L [] = L"
  by (cases L) auto

lemma mset_hunk_zip: "mset (hunk_zip L R) = mset (L @ R)"
  by (induction L R rule: hunk_zip.induct) auto

lemma set_hunk_zip [simp]: "set (hunk_zip L R) = set L \<union> set R"
  by (induction L R rule: hunk_zip.induct) auto

lemma takeLocal_key: "takeLocal l r \<Longrightarrow> hunk_key l \<le> hunk_key r" "\<not> takeLocal l r \<Longrightarrow> hunk_key r \<le> hunk_key l"
  by (auto simp: takeLocal_def hunk_key_def split: if_splits)

lemma hunk_zip_sorted:
  "sorted (map hunk_key L) \<Longrightarrow> sorted (map hunk_key R) \<Longrightarrow> sorted (map hunk_key (hunk_zip L R))"
  by (induction L R rule: hunk_zip.induct) (auto dest: takeLocal_key intro: order_trans)

lemma hunks_ok_sorted:
  "hunks_ok lo n hs \<Longrightarrow> sorted_wrt (\<lambda>h k. ancStart h < ancStart k) hs"
  by (induction lo n hs rule: hunks_ok.induct) (auto dest: hunks_ok_start)

lemma hunks_ok_key: "hunks_ok lo n hs \<Longrightarrow> sorted_wrt (<) (map hunk_key hs)"
proof -
  assume "hunks_ok lo n hs"
  then have "sorted_wrt (\<lambda>h k. hunk_key h < hunk_key k) hs"
    by (rule sorted_wrt_mono_rel [OF _ hunks_ok_sorted, rotated]) (auto simp: hunk_key_def)
  then show ?thesis by (simp add: sorted_wrt_map)
qed

lemma hunks_apart_iff: "hunks_apart L R \<longleftrightarrow> (\<forall>l \<in> set L. \<forall>r \<in> set R. \<not> hunksInteract l r)"
  by (simp add: hunks_apart_def list_all_iff)

lemma hunksInteract_sym: "hunksInteract a b = hunksInteract b a"
  by (auto simp: hunksInteract_def max.commute min.commute)

lemma apart_comm: "hunks_apart L R \<longleftrightarrow> hunks_apart R L"
  unfolding hunks_apart_iff by (meson hunksInteract_sym)

lemma apart_after:
  assumes "\<not> hunksInteract l r" and "ancStart l \<le> ancEnd l" and "ancStart r \<le> ancEnd r"
  shows "takeLocal l r \<Longrightarrow> ancEnd l \<le> ancStart r" "\<not> takeLocal l r \<Longrightarrow> ancEnd r \<le> ancStart l"
  using assms by (auto simp: hunksInteract_def takeLocal_def isInsert_def max_def min_def split: if_splits)

lemma same_key_interact:
  assumes "hunk_key l = hunk_key r" and "ancStart l \<le> ancEnd l" and "ancStart r \<le> ancEnd r"
  shows "hunksInteract l r"
proof -
  have "ancStart l = ancStart r" "isInsert l = isInsert r"
    using assms(1) by (auto simp: hunk_key_def split: if_splits) presburger+
  then show ?thesis using assms(2,3) by (auto simp: hunksInteract_def isInsert_def)
qed

lemma hunks_ok_range: "hunks_ok lo n hs \<Longrightarrow> h \<in> set hs \<Longrightarrow> ancStart h \<le> ancEnd h \<and> ancEnd h \<le> n"
  by (induction lo n hs rule: hunks_ok.induct) auto

lemma key_inj:
  assumes "hunks_ok a n L" and "hunks_ok b n R" and "hunks_apart L R"
  shows "inj_on hunk_key (set (L @ R))"
proof -
  have inj: "inj_on hunk_key (set hs)" if "hunks_ok lo n hs" for lo hs
    using hunks_ok_key [OF that] by (metis distinct_map strict_sorted_iff)
  show ?thesis
  proof (rule inj_onI)
    fix x y assume xy: "x \<in> set (L @ R)" "y \<in> set (L @ R)" "hunk_key x = hunk_key y"
    have ap: "\<not> hunksInteract l r" if "l \<in> set L" "r \<in> set R" for l r
      using assms(3) that by (simp add: hunks_apart_iff)
    have no: False if "l \<in> set L" "r \<in> set R" "hunk_key l = hunk_key r" for l r
      using ap [OF that(1,2)] same_key_interact [OF that(3)] hunks_ok_range [OF assms(1) that(1)]
        hunks_ok_range [OF assms(2) that(2)] by blast
    show "x = y"
      using xy inj [OF assms(1)] inj [OF assms(2)] no [of x y] no [of y x]
      by (auto dest: inj_onD)
  qed
qed

lemma hunk_zip_sort:
  assumes "hunks_ok a n L" and "hunks_ok b n R" and "hunks_apart L R"
  shows "hunk_zip L R = sort_key hunk_key (L @ R)"
proof -
  have "sorted (map hunk_key L)" "sorted (map hunk_key R)"
    using hunks_ok_key [OF assms(1)] hunks_ok_key [OF assms(2)] by (simp_all add: strict_sorted_iff)
  then have "sorted (map hunk_key (hunk_zip L R))" by (rule hunk_zip_sorted)
  moreover have "mset (L @ R) = mset (hunk_zip L R)" by (simp add: mset_hunk_zip)
  ultimately show ?thesis using sort_key_inj_key_eq [OF _ key_inj [OF assms]] by metis
qed

lemma advance: "pos \<le> k \<Longrightarrow> k \<le> length anc \<Longrightarrow> emitEqual anc pos k = js_slice anc pos k"
  by (rule emitEqual_slice)

lemma loop_apart:
  assumes "hunks_apart L R" and "hunks_ok a (length anc) L" and "hunks_ok b (length anc) R"
    and "\<And>h. h \<in> set L \<union> set R \<Longrightarrow> pos \<le> ancStart h" and "pos \<le> length anc"
  shows "\<exists>p m. merge_loop anc L R pos merged cs = (p, m, cs) \<and>
    m @ emitEqual anc p (length anc) = merged @ apply_hunks anc pos (hunk_zip L R)"
  using assms
proof (induction L R pos merged cs arbitrary: a b rule: merge_loop_induct [where anc = anc])
  case (finished pos merged cs)
  then show ?case by (simp add: emitEqual_slice drop_slice [of pos "length anc"])
next
  case (locals lh ls pos merged cs)
  have h: "pos \<le> ancStart lh" "ancStart lh \<le> ancEnd lh" "ancEnd lh \<le> length anc"
    "hunks_ok (ancEnd lh + 1) (length anc) ls" using locals.prems by auto
  have st: "ancEnd lh \<le> ancStart h" if "h \<in> set ls \<union> set []" for h
    using hunks_ok_start [OF h(4), of h] that by simp
  have mx: "max (max pos (ancStart lh)) (ancEnd lh) = ancEnd lh" "emitEqual anc pos (ancStart lh) = js_slice anc pos (ancStart lh)"
    using h by (simp_all add: emitEqual_slice)
  from locals.IH [unfolded mx, OF _ h(4), of 0] st h show ?case
    by (simp add: hunks_apart_iff Let_def mx)
next
  case (remotes rh rs pos merged cs)
  have h: "pos \<le> ancStart rh" "ancStart rh \<le> ancEnd rh" "ancEnd rh \<le> length anc"
    "hunks_ok (ancEnd rh + 1) (length anc) rs" using remotes.prems by auto
  have st: "ancEnd rh \<le> ancStart h" if "h \<in> set [] \<union> set rs" for h
    using hunks_ok_start [OF h(4), of h] that by simp
  have mx: "max (max pos (ancStart rh)) (ancEnd rh) = ancEnd rh" "emitEqual anc pos (ancStart rh) = js_slice anc pos (ancStart rh)"
    using h by (simp_all add: emitEqual_slice)
  from remotes.IH [unfolded mx, OF _ _ h(4), of 0] st h show ?case
    by (simp add: hunks_apart_iff Let_def mx)
next
  case (take_local lh ls rh rs pos merged cs p m)
  note no = take_local.hyps(3) and tl = take_local.hyps(4)
  have l: "pos \<le> ancStart lh" "ancStart lh \<le> ancEnd lh" "ancEnd lh \<le> length anc"
    "hunks_ok (ancEnd lh + 1) (length anc) ls" using take_local.prems by auto
  have r: "ancStart rh \<le> ancEnd rh" "hunks_ok (ancEnd rh + 1) (length anc) rs" using take_local.prems by auto
  have e: "ancEnd lh \<le> ancStart rh" using apart_after(1) [OF no l(2) r(1) tl] .
  then have mn: "min (ancStart lh) (ancStart rh) = ancStart lh" using l(2) by simp
  have pm: "max p (ancEnd lh) = ancEnd lh" "m = merged @ js_slice anc pos (ancStart lh)"
    using take_local.hyps(1,2) l mn by (simp_all add: emitEqual_slice)
  have st: "ancEnd lh \<le> ancStart h" if "h \<in> set ls \<union> set (rh # rs)" for h
    using that e r(1) hunks_ok_start [OF l(4), of h] hunks_ok_start [OF r(2), of h] by auto
  have ap: "hunks_apart ls (rh # rs)" using take_local.prems(1) by (simp add: hunks_apart_iff)
  from take_local.IH [unfolded pm(1), OF ap l(4) take_local.prems(3) st l(3)] show ?case
    unfolding loop_steps(5) [OF no tl] take_local.hyps(1,2) [symmetric] pm(1) using tl pm(2) by simp
next
  case (take_remote lh ls rh rs pos merged cs p m)
  note no = take_remote.hyps(3) and tr = take_remote.hyps(4)
  have l: "ancStart lh \<le> ancEnd lh" "hunks_ok (ancEnd lh + 1) (length anc) ls" using take_remote.prems by auto
  have r: "pos \<le> ancStart rh" "ancStart rh \<le> ancEnd rh" "ancEnd rh \<le> length anc"
    "hunks_ok (ancEnd rh + 1) (length anc) rs" using take_remote.prems by auto
  have e: "ancEnd rh \<le> ancStart lh" using apart_after(2) [OF no l(1) r(2) tr] .
  then have mn: "min (ancStart lh) (ancStart rh) = ancStart rh" using r(2) by simp
  have pm: "max p (ancEnd rh) = ancEnd rh" "m = merged @ js_slice anc pos (ancStart rh)"
    using take_remote.hyps(1,2) r mn by (simp_all add: emitEqual_slice)
  have st: "ancEnd rh \<le> ancStart h" if "h \<in> set (lh # ls) \<union> set rs" for h
    using that e l(1) hunks_ok_start [OF r(4), of h] hunks_ok_start [OF l(2), of h] by auto
  have ap: "hunks_apart (lh # ls) rs" using take_remote.prems(1) by (simp add: hunks_apart_iff)
  from take_remote.IH [unfolded pm(1), OF ap take_remote.prems(2) r(4) st r(3)] show ?case
    unfolding loop_steps(6) [OF no tr] take_remote.hyps(1,2) [symmetric] pm(1) using tr pm(2) by simp
qed (simp_all add: hunks_apart_iff)

lemma merge_apart:
  assumes "hunks_apart L R" and "hunks_ok 0 (length anc) L" and "hunks_ok 0 (length anc) R"
  shows "mergeHunks anc L R = clean_result (apply_hunks anc 0 (sort_key hunk_key (L @ R)))"
  using loop_apart [OF assms, of 0 "[]" "[]"] hunk_zip_sort [OF assms(2,3,1)]
  by (auto simp: mergeHunks_def clean_result_def)

lemma merge_apart_comm:
  assumes "hunks_apart L R" and "hunks_ok 0 (length anc) L" and "hunks_ok 0 (length anc) R"
  shows "mergeHunks anc L R = mergeHunks anc R L"
proof -
  have "sort_key hunk_key (R @ L) = sort_key hunk_key (L @ R)"
    by (rule sort_key_inj_key_eq) (use key_inj [OF assms(2,3,1)] in \<open>auto simp: Un_commute\<close>)
  then show ?thesis using merge_apart [OF assms] merge_apart [OF _ assms(3,2)] assms(1) apart_comm by simp
qed

section \<open>No edit is lost\<close>

lemma loop_prefix:
  "merge_loop anc L R pos merged cs = (p, m, c) \<Longrightarrow> prefix merged m \<and> set cs \<subseteq> set c"
proof (induction L R pos merged cs arbitrary: p m c rule: merge_loop_induct [where anc = anc])
  case (locals lh ls pos merged cs)
  then show ?case by (fastforce simp: Let_def intro: append_prefixD)
next
  case (remotes rh rs pos merged cs)
  then show ?case by (fastforce simp: Let_def intro: append_prefixD)
next
  case (ins_same lh ls rh rs pos merged cs p' m')
  then show ?case using loop_steps(1) [of lh rh] by (metis append_prefixD)
next
  case (ins lh ls rh rs pos merged cs p' m')
  then show ?case using loop_steps(2) [of lh rh] by (metis append_prefixD)
next
  case (same lh ls rh rs pos merged cs p' m')
  then show ?case using loop_steps(3) [of lh rh] by (metis append_prefixD)
next
  case (conflict lh ls rh rs pos merged cs p' m')
  note IH = conflict.IH [OF conflict.prems [unfolded loop_steps(4) [OF conflict.hyps(3-5)], folded conflict.hyps(1,2)]]
  then show ?case using conflict.hyps(2) by (auto intro: append_prefixD)
next
  case (take_local lh ls rh rs pos merged cs p' m')
  then show ?case using loop_steps(5) [of lh rh] by (metis append_prefixD)
next
  case (take_remote lh ls rh rs pos merged cs p' m')
  then show ?case using loop_steps(6) [of lh rh] by (metis append_prefixD)
qed simp

lemma sublist_prefix: "sublist xs m \<Longrightarrow> prefix m m' \<Longrightarrow> sublist xs m'"
  by (metis prefix_imp_sublist sublist_order.order_trans)

lemma sublist_last: "sublist xs (u @ xs)" "sublist xs (u @ xs @ v)"
  unfolding sublist_def by (metis append_Nil2, blast)

lemma loop_keeps:
  "merge_loop anc L R pos merged cs = (p, m, c) \<Longrightarrow>
     (\<forall>h \<in> set L. sublist (h_lines h) m) \<and>
     (\<forall>h \<in> set R. sublist (h_lines h) m \<or> (\<exists>k \<in> set c. cc_remote k = h_lines h))"
proof (induction L R pos merged cs arbitrary: p m c rule: merge_loop_induct [where anc = anc])
  case (locals lh ls pos merged cs)
  then have e: "merge_loop anc ls [] (max (max pos (ancStart lh)) (ancEnd lh))
      ((merged @ emitEqual anc pos (ancStart lh)) @ h_lines lh) cs = (p, m, c)" by (simp add: Let_def)
  from sublist_prefix [OF sublist_last(1) loop_prefix [OF e, THEN conjunct1]] locals.IH [OF e] show ?case by simp
next
  case (remotes rh rs pos merged cs)
  then have e: "merge_loop anc [] rs (max (max pos (ancStart rh)) (ancEnd rh))
      ((merged @ emitEqual anc pos (ancStart rh)) @ h_lines rh) cs = (p, m, c)" by (simp add: Let_def)
  from sublist_prefix [OF sublist_last(1) loop_prefix [OF e, THEN conjunct1]] remotes.IH [OF e] show ?case by simp
next
  case (ins_same lh ls rh rs pos merged cs p' m')
  note e = ins_same.prems [unfolded loop_steps(1) [OF ins_same.hyps(3-5)], folded ins_same.hyps(1,2)]
  from sublist_prefix [OF sublist_last(1) loop_prefix [OF e, THEN conjunct1]] ins_same.IH [OF e] ins_same.hyps(5)
  show ?case by auto
next
  case (ins lh ls rh rs pos merged cs p' m')
  note e = ins.prems [unfolded loop_steps(2) [OF ins.hyps(3-5)], folded ins.hyps(1,2)]
  note pre = loop_prefix [OF e, THEN conjunct1]
  have "sublist (h_lines rh) (m' @ h_lines lh @ h_lines rh)" using sublist_last(1) [of "h_lines rh" "m' @ h_lines lh"] by simp
  from sublist_prefix [OF this pre] sublist_prefix [OF sublist_last(2) pre] ins.IH [OF e] show ?case by auto
next
  case (same lh ls rh rs pos merged cs p' m')
  note e = same.prems [unfolded loop_steps(3) [OF same.hyps(3-5)], folded same.hyps(1,2)]
  from sublist_prefix [OF sublist_last(1) loop_prefix [OF e, THEN conjunct1]] same.IH [OF e] same.hyps(5)
  show ?case by auto
next
  case (conflict lh ls rh rs pos merged cs p' m')
  note e = conflict.prems [unfolded loop_steps(4) [OF conflict.hyps(3-5)], folded conflict.hyps(1,2)]
  let ?k = "\<lparr> cc_startLine = length m', cc_endLine = int (length (m' @ h_lines lh)) - 1,
              cc_ancestor = js_slice anc (min (ancStart lh) (ancStart rh)) (max (ancEnd lh) (ancEnd rh)),
              cc_local = h_lines lh, cc_remote = h_lines rh \<rparr>"
  have "?k \<in> set c" using loop_prefix [OF e] by simp
  then have "\<exists>k \<in> set c. cc_remote k = h_lines rh" by (intro bexI [of _ ?k]) simp_all
  with sublist_prefix [OF sublist_last(1) loop_prefix [OF e, THEN conjunct1]] conflict.IH [OF e]
  show ?case by auto
next
  case (take_local lh ls rh rs pos merged cs p' m')
  note e = take_local.prems [unfolded loop_steps(5) [OF take_local.hyps(3,4)], folded take_local.hyps(1,2)]
  from sublist_prefix [OF sublist_last(1) loop_prefix [OF e, THEN conjunct1]] take_local.IH [OF e] show ?case by auto
next
  case (take_remote lh ls rh rs pos merged cs p' m')
  note e = take_remote.prems [unfolded loop_steps(6) [OF take_remote.hyps(3,4)], folded take_remote.hyps(1,2)]
  from sublist_prefix [OF sublist_last(1) loop_prefix [OF e, THEN conjunct1]] take_remote.IH [OF e] show ?case by auto
qed simp

end
