(* ===== verification/Markers.thy ===== *)
theory Markers
  imports Merge3Laws
begin

text \<open>
  Conflicts written into the note and read back, from the second half of
  \<open>src/merge/diff3.ts\<close>: the marker blocks, the renderer that puts them at the placeholders of
  a merge result, the recogniser used at save time, the parser of the conflicts panel and the
  resolution of a marked text.  The parser is a state machine over the lines of the text.
\<close>

section \<open>Rendering\<close>

definition resolveConflictChunkLines :: "ConflictChunk \<Rightarrow> ConflictResolution \<Rightarrow> string list" where
  "resolveConflictChunkLines chunk resolution =
     (case resolution of
        KeepLocal \<Rightarrow> cc_local chunk
      | KeepRemote \<Rightarrow> cc_remote chunk
      | KeepBoth \<Rightarrow> cc_local chunk @ cc_remote chunk
      | Custom text \<Rightarrow> text)"

definition CONFLICT_MARK_OURS :: string where "CONFLICT_MARK_OURS = ''<<<<<<<''"
definition CONFLICT_MARK_BASE :: string where "CONFLICT_MARK_BASE = ''|||||||''"
definition CONFLICT_MARK_SEP :: string where "CONFLICT_MARK_SEP = ''=======''"
definition CONFLICT_MARK_THEIRS :: string where "CONFLICT_MARK_THEIRS = ''>>>>>>>''"

definition renderMarkerBlock :: "ConflictChunk \<Rightarrow> string list" where
  "renderMarkerBlock chunk =
     [CONFLICT_MARK_OURS @ '' Mine''] @ cc_local chunk @ [CONFLICT_MARK_BASE @ '' Original''] @
     cc_ancestor chunk @ [CONFLICT_MARK_SEP] @ cc_remote chunk @ [CONFLICT_MARK_THEIRS @ '' Theirs'']"

function render_loop :: "string list \<Rightarrow> ConflictChunk list \<Rightarrow> nat \<Rightarrow> string list \<Rightarrow> string list" where
  "render_loop merged cs i out =
     (if i < length merged \<or> cs \<noteq> [] then
        if cs \<noteq> [] \<and> cc_startLine (hd cs) = i then
          render_loop merged (tl cs)
            (i + nat (max 0 (cc_endLine (hd cs) - int (cc_startLine (hd cs)) + 1)))
            (out @ renderMarkerBlock (hd cs))
        else if i < length merged then render_loop merged cs (i + 1) (out @ [merged ! i])
        else out
      else out)"
  by pat_completeness auto
termination
  by (relation "measures [\<lambda>(merged, cs, i, out). length cs, \<lambda>(merged, cs, i, out). length merged - i]") auto

declare render_loop.simps [simp del]

definition renderMarkersFromResult :: "ThreeWayMergeResult \<Rightarrow> string" where
  "renderMarkersFromResult result =
     joinWith [LF] (render_loop (tw_merged result) (sort_key cc_startLine (tw_conflicts result)) 0 [])"

definition renderConflictMarkers :: "string \<Rightarrow> string \<Rightarrow> string \<Rightarrow> js_error + string" where
  "renderConflictMarkers base ours theirs =
     (case threeWayMerge base ours theirs of
        Inl e \<Rightarrow> Inl e
      | Inr r \<Rightarrow> Inr (renderMarkersFromResult r))"

section \<open>Recognising and parsing\<close>

fun markers_loop :: "string list \<Rightarrow> bool \<Rightarrow> bool \<Rightarrow> bool" where
  "markers_loop [] hasOurs hasTheirs = False"
| "markers_loop (line # ls) hasOurs hasTheirs =
     (let o' = (hasOurs \<or> startsWith line CONFLICT_MARK_OURS);
          t' = (if startsWith line CONFLICT_MARK_OURS then hasTheirs
                else hasTheirs \<or> startsWith line CONFLICT_MARK_THEIRS)
      in if o' \<and> t' then True else markers_loop ls o' t')"

definition hasConflictMarkers :: "string \<Rightarrow> bool" where
  "hasConflictMarkers text = markers_loop (normalizeLines text) False False"

datatype ConflictMarkerSegment =
    SegClean "string list"
  | SegConflict (seg_ours: "string list") (seg_base: "string list") (seg_theirs: "string list")

datatype parse_mode = PClean | POurs | PBase | PTheirs

record parse_state =
  ps_segments :: "ConflictMarkerSegment list"
  ps_clean :: "string list"
  ps_mode :: parse_mode
  ps_cur :: "(string list \<times> string list \<times> string list) option"

definition flushClean :: "parse_state \<Rightarrow> parse_state" where
  "flushClean s =
     (if ps_clean s \<noteq> [] then s\<lparr> ps_segments := ps_segments s @ [SegClean (ps_clean s)], ps_clean := [] \<rparr> else s)"

definition cur_sides :: "parse_state \<Rightarrow> string list \<times> string list \<times> string list" where
  "cur_sides s = (case ps_cur s of Some c \<Rightarrow> c | None \<Rightarrow> ([], [], []))"

definition parse_line :: "string \<Rightarrow> parse_state \<Rightarrow> parse_state" where
  "parse_line line s =
     (if ps_mode s = PClean then
        if startsWith line CONFLICT_MARK_OURS
        then (flushClean s)\<lparr> ps_cur := Some ([], [], []), ps_mode := POurs \<rparr>
        else s\<lparr> ps_clean := ps_clean s @ [line] \<rparr>
      else if startsWith line CONFLICT_MARK_BASE then s\<lparr> ps_mode := PBase \<rparr>
      else if startsWith line CONFLICT_MARK_SEP then s\<lparr> ps_mode := PTheirs \<rparr>
      else if startsWith line CONFLICT_MARK_THEIRS then
        (case cur_sides s of
           (ours, base, theirs) \<Rightarrow>
             s\<lparr> ps_segments := ps_segments s @ [SegConflict ours base theirs], ps_cur := None, ps_mode := PClean \<rparr>)
      else
        (case cur_sides s of
           (ours, base, theirs) \<Rightarrow>
             s\<lparr> ps_cur := Some (case ps_mode s of
                                   POurs \<Rightarrow> (ours @ [line], base, theirs)
                                 | PBase \<Rightarrow> (ours, base @ [line], theirs)
                                 | _ \<Rightarrow> (ours, base, theirs @ [line])) \<rparr>))"

definition parse_end :: "parse_state \<Rightarrow> ConflictMarkerSegment list" where
  "parse_end s =
     (case ps_cur s of
        Some (ours, base, theirs) \<Rightarrow> ps_segments s @ [SegConflict ours base theirs]
      | None \<Rightarrow> ps_segments (flushClean s))"

definition parse_start :: parse_state where
  "parse_start = \<lparr> ps_segments = [], ps_clean = [], ps_mode = PClean, ps_cur = None \<rparr>"

definition parseConflictMarkers :: "string \<Rightarrow> ConflictMarkerSegment list" where
  "parseConflictMarkers text = parse_end (fold parse_line (normalizeLines text) parse_start)"

definition is_conflict :: "ConflictMarkerSegment \<Rightarrow> bool" where
  "is_conflict s = (case s of SegClean _ \<Rightarrow> False | SegConflict _ _ _ \<Rightarrow> True)"

definition countMarkerConflicts :: "string \<Rightarrow> nat" where
  "countMarkerConflicts text = length (filter is_conflict (parseConflictMarkers text))"

fun resolve_loop ::
  "ConflictMarkerSegment list \<Rightarrow> (nat \<Rightarrow> ConflictResolution option) \<Rightarrow> nat \<Rightarrow> string list \<Rightarrow> string list" where
  "resolve_loop [] resolutions ci out = out"
| "resolve_loop (SegClean ls # segs) resolutions ci out = resolve_loop segs resolutions ci (out @ ls)"
| "resolve_loop (SegConflict ours base theirs # segs) resolutions ci out =
     resolve_loop segs resolutions (ci + 1)
       (out @ resolveConflictChunkLines
          \<lparr> cc_startLine = 0, cc_endLine = 0, cc_ancestor = base, cc_local = ours, cc_remote = theirs \<rparr>
          (case resolutions ci of Some r \<Rightarrow> r | None \<Rightarrow> KeepLocal))"

definition resolveMarkedText :: "string \<Rightarrow> (nat \<Rightarrow> ConflictResolution option) \<Rightarrow> string" where
  "resolveMarkedText text resolutions =
     joinWith [LF] (resolve_loop (parseConflictMarkers text) resolutions 0 [])"

section \<open>Placed conflicts\<close>

text \<open>Each chunk stands, in order, at its local lines in the merged text.\<close>

fun placed :: "string list \<Rightarrow> nat \<Rightarrow> ConflictChunk list \<Rightarrow> bool" where
  "placed m i [] = (i \<le> length m)"
| "placed m i (c # cs) =
     (i \<le> cc_startLine c \<and> cc_startLine c + length (cc_local c) \<le> length m \<and>
      js_slice m (cc_startLine c) (cc_startLine c + length (cc_local c)) = cc_local c \<and>
      cc_endLine c = int (cc_startLine c + length (cc_local c)) - 1 \<and>
      placed m (cc_startLine c + length (cc_local c)) cs)"

text \<open>The merged text cut at its conflicts.\<close>

fun pieces :: "string list \<Rightarrow> nat \<Rightarrow> ConflictChunk list \<Rightarrow> (string list + ConflictChunk) list" where
  "pieces m i [] = [Inl (drop i m)]"
| "pieces m i (c # cs) =
     Inl (js_slice m i (cc_startLine c)) # Inr c # pieces m (cc_startLine c + length (cc_local c)) cs"

lemma slice_prefix: "prefix m m' \<Longrightarrow> hi \<le> length m \<Longrightarrow> js_slice m' lo hi = js_slice m lo hi"
  by (auto simp: js_slice_def prefix_def)

lemma placed_prefix: "placed m i cs \<Longrightarrow> prefix m m' \<Longrightarrow> placed m' i cs"
proof (induction m i cs rule: placed.induct)
  case (1 m i)
  then show ?case using prefix_length_le [of m m'] by simp
next
  case (2 m i c cs)
  then show ?case using prefix_length_le [of m m'] slice_prefix [of m m'] by auto
qed

lemma placed_end: "placed m i cs \<Longrightarrow> i \<le> length m"
  by (induction m i cs rule: placed.induct) auto

lemma placed_snoc:
  assumes "placed m i cs" and "k = \<lparr> cc_startLine = length (m @ u), cc_endLine = int (length (m @ u @ ls)) - 1,
      cc_ancestor = an, cc_local = ls, cc_remote = re \<rparr>"
  shows "placed (m @ u @ ls) i (cs @ [k])"
  using assms
proof (induction m i cs rule: placed.induct)
  case (1 m i)
  then show ?case by (simp add: js_slice_def)
next
  case (2 m i c cs)
  then show ?case by (auto simp: js_slice_def)
qed

lemma loop_placed:
  "merge_loop anc L R pos merged cs = (p, m, c) \<Longrightarrow> placed merged 0 cs \<Longrightarrow> placed m 0 c"
proof (induction L R pos merged cs arbitrary: p m c rule: merge_loop_induct [where anc = anc])
  case (locals lh ls pos merged cs)
  then have "placed ((merged @ emitEqual anc pos (ancStart lh)) @ h_lines lh) 0 cs"
    by (auto intro: placed_prefix)
  with locals show ?case by (simp add: Let_def)
next
  case (remotes rh rs pos merged cs)
  then have "placed ((merged @ emitEqual anc pos (ancStart rh)) @ h_lines rh) 0 cs"
    by (auto intro: placed_prefix)
  with remotes show ?case by (simp add: Let_def)
next
  case (ins_same lh ls rh rs pos merged cs p' m')
  note e = ins_same.prems(1) [unfolded loop_steps(1) [OF ins_same.hyps(3-5)], folded ins_same.hyps(1,2)]
  show ?case by (rule ins_same.IH [OF e]) (use ins_same.prems(2) ins_same.hyps(2) in \<open>auto intro: placed_prefix\<close>)
next
  case (ins lh ls rh rs pos merged cs p' m')
  note e = ins.prems(1) [unfolded loop_steps(2) [OF ins.hyps(3-5)], folded ins.hyps(1,2)]
  show ?case by (rule ins.IH [OF e]) (use ins.prems(2) ins.hyps(2) in \<open>auto intro: placed_prefix\<close>)
next
  case (same lh ls rh rs pos merged cs p' m')
  note e = same.prems(1) [unfolded loop_steps(3) [OF same.hyps(3-5)], folded same.hyps(1,2)]
  show ?case by (rule same.IH [OF e]) (use same.prems(2) same.hyps(2) in \<open>auto intro: placed_prefix\<close>)
next
  case (conflict lh ls rh rs pos merged cs p' m')
  note e = conflict.prems(1) [unfolded loop_steps(4) [OF conflict.hyps(3-5)], folded conflict.hyps(1,2)]
  show ?case
    by (rule conflict.IH [OF e])
      (use placed_snoc [OF conflict.prems(2) refl, of "emitEqual anc pos (min (ancStart lh) (ancStart rh))"] conflict.hyps(2) in simp)
next
  case (take_local lh ls rh rs pos merged cs p' m')
  note e = take_local.prems(1) [unfolded loop_steps(5) [OF take_local.hyps(3,4)], folded take_local.hyps(1,2)]
  show ?case by (rule take_local.IH [OF e]) (use take_local.prems(2) take_local.hyps(2) in \<open>auto intro: placed_prefix\<close>)
next
  case (take_remote lh ls rh rs pos merged cs p' m')
  note e = take_remote.prems(1) [unfolded loop_steps(6) [OF take_remote.hyps(3,4)], folded take_remote.hyps(1,2)]
  show ?case by (rule take_remote.IH [OF e]) (use take_remote.prems(2) take_remote.hyps(2) in \<open>auto intro: placed_prefix\<close>)
qed simp

lemma merge_placed: "placed (tw_merged (mergeHunks anc L R)) 0 (tw_conflicts (mergeHunks anc L R))"
proof -
  obtain p m c where e: "merge_loop anc L R 0 [] [] = (p, m, c)" by (metis prod_cases3)
  from loop_placed [OF e] have "placed m 0 c" by simp
  then have "placed (m @ emitEqual anc p (length anc)) 0 c" by (rule placed_prefix) simp
  then show ?thesis by (simp add: mergeHunks_def e)
qed

lemma merge_lines_placed:
  "merge_lines a l r = Inr t \<Longrightarrow> placed (tw_merged t) 0 (tw_conflicts t) \<and> (tw_hasConflicts t \<longleftrightarrow> tw_conflicts t \<noteq> [])"
  using merge_placed by (auto simp: merge_lines_def clean_result_def mergeFromDiffs_def split: if_splits sum.splits)
    (auto simp: mergeHunks_def split: prod.splits)

section \<open>Rendering at the placeholders\<close>

definition piece_lines :: "string list + ConflictChunk \<Rightarrow> string list" where
  "piece_lines p = (case p of Inl ls \<Rightarrow> ls | Inr c \<Rightarrow> renderMarkerBlock c)"

definition piece_segs :: "string list + ConflictChunk \<Rightarrow> ConflictMarkerSegment list" where
  "piece_segs p =
     (case p of Inl ls \<Rightarrow> if ls = [] then [] else [SegClean ls]
      | Inr c \<Rightarrow> [SegConflict (cc_local c) (cc_ancestor c) (cc_remote c)])"

lemma render_upto:
  assumes "i \<le> k" and "k \<le> length merged" and "cs = [] \<or> k \<le> cc_startLine (hd cs)"
  shows "render_loop merged cs i out = render_loop merged cs k (out @ js_slice merged i k)"
  using assms
proof (induction "k - i" arbitrary: i out)
  case (Suc d)
  then have "i < k" by simp
  then have "render_loop merged cs i out = render_loop merged cs (i + 1) (out @ [merged ! i])"
    using Suc.prems by (subst render_loop.simps) auto
  also have "\<dots> = render_loop merged cs k ((out @ [merged ! i]) @ js_slice merged (i + 1) k)"
    using Suc by (intro Suc.hyps(1)) auto
  finally show ?case using slice_Cons [OF \<open>i < k\<close> Suc.prems(2)] by simp
qed simp

lemma render_loop_pieces:
  "placed merged i cs \<Longrightarrow> render_loop merged cs i out = out @ concat (map piece_lines (pieces merged i cs))"
proof (induction merged i cs arbitrary: out rule: placed.induct)
  case (1 merged i)
  have "render_loop merged [] (length merged) (out @ js_slice merged i (length merged)) = out @ js_slice merged i (length merged)"
    by (subst render_loop.simps) simp
  then show ?case
    using render_upto [of i "length merged" merged "[]" out] 1 drop_slice [of i "length merged" merged]
    by (simp add: piece_lines_def)
next
  case (2 merged i c cs)
  let ?s = "cc_startLine c"
  have "render_loop merged (c # cs) i out = render_loop merged (c # cs) ?s (out @ js_slice merged i ?s)"
    using 2(2) by (intro render_upto) auto
  also have "\<dots> = render_loop merged cs (?s + length (cc_local c)) ((out @ js_slice merged i ?s) @ renderMarkerBlock c)"
    using 2(2) by (subst render_loop.simps) simp
  finally show ?case using 2 by (simp add: piece_lines_def)
qed

lemma placed_sorted: "placed m i cs \<Longrightarrow> sorted (map cc_startLine cs) \<and> (\<forall>c \<in> set cs. i \<le> cc_startLine c)"
  by (induction m i cs rule: placed.induct) fastforce+

lemma render_placed:
  assumes "placed (tw_merged r) 0 (tw_conflicts r)"
  shows "renderMarkersFromResult r = joinWith [LF] (concat (map piece_lines (pieces (tw_merged r) 0 (tw_conflicts r))))"
proof -
  have "sort_key cc_startLine (tw_conflicts r) = tw_conflicts r"
    using placed_sorted [OF assms] by (intro sort_key_id_if_sorted) simp
  then show ?thesis using render_loop_pieces [OF assms, of "[]"] by (simp add: renderMarkersFromResult_def)
qed

end
