(* ===== verification/MarkersLaws.thy ===== *)
theory MarkersLaws
  imports Markers
begin

text \<open>
  The parser reads back what the renderer wrote: for texts whose own lines are no markers, the
  conflict blocks on disk are the chunks of the merge, with every clean line in place, and
  resolving them yields the merged text with the chosen sides.
\<close>

section \<open>Lines that are no markers\<close>

definition marker_free :: "string \<Rightarrow> bool" where
  "marker_free l =
     (\<not> startsWith l CONFLICT_MARK_OURS \<and> \<not> startsWith l CONFLICT_MARK_BASE \<and>
      \<not> startsWith l CONFLICT_MARK_SEP \<and> \<not> startsWith l CONFLICT_MARK_THEIRS)"

definition plain_line :: "string \<Rightarrow> bool" where
  "plain_line l = (LF \<notin> set l \<and> CR \<notin> set l)"

definition chunk_lines :: "ConflictChunk \<Rightarrow> string set" where
  "chunk_lines c = set (cc_local c) \<union> set (cc_ancestor c) \<union> set (cc_remote c)"

lemma LF_not_CR [simp]: "LF \<noteq> CR" "CR \<noteq> LF"
  by (simp_all add: LF_def CR_def)

lemma normalizeLines_plain: "l \<in> set (normalizeLines t) \<Longrightarrow> plain_line l"
proof -
  assume l: "l \<in> set (normalizeLines t)"
  then have "LF \<notin> set l" unfolding normalizeLines_def by (rule splitOn_parts_free)
  moreover have "set l \<subseteq> set (replace_cr (replace_crlf t))"
    using l unfolding normalizeLines_def by (rule splitOn_chars)
  then have "CR \<notin> set l" by (auto simp: replace_cr_def split: if_splits)
  ultimately show ?thesis by (simp add: plain_line_def)
qed

lemma replace_crlf_id: "CR \<notin> set s \<Longrightarrow> replace_crlf s = s"
  by (induction s rule: replace_crlf.induct) auto

lemma replace_cr_id: "CR \<notin> set s \<Longrightarrow> replace_cr s = s"
  by (induction s) (auto simp: replace_cr_def)

lemma set_joinWith: "set (joinWith sep ps) \<subseteq> set sep \<union> \<Union> (set ` set ps)"
  by (induction sep ps rule: joinWith.induct) auto

lemma normalize_join:
  assumes "ls \<noteq> []" and "\<forall>l \<in> set ls. plain_line l"
  shows "normalizeLines (joinWith [LF] ls) = ls"
proof -
  have "CR \<notin> set (joinWith [LF] ls)"
    using set_joinWith [of "[LF]" ls] assms(2) by (auto simp: plain_line_def)
  then have "normalizeLines (joinWith [LF] ls) = splitOn LF (joinWith [LF] ls)"
    by (simp add: normalizeLines_def replace_crlf_id replace_cr_id)
  also have "\<dots> = ls" using assms by (intro split_join) (auto simp: plain_line_def)
  finally show ?thesis .
qed

lemma normalize_join_Nil [simp]: "normalizeLines [] = [[]]"
  by (simp add: normalizeLines_def replace_cr_def)

section \<open>The merge makes nothing up\<close>

lemma emitEqual_set: "k \<le> length anc \<Longrightarrow> set (emitEqual anc pos k) \<subseteq> set anc"
  by (auto simp: emitEqual_def)

lemma emitEqual_min: "ancStart lh \<le> length anc \<Longrightarrow> set (emitEqual anc pos (min (ancStart lh) k)) \<subseteq> set anc"
  by (rule emitEqual_set) simp

lemma loop_invent:
  "merge_loop anc L R pos merged cs = (p, m, c) \<Longrightarrow> set anc \<subseteq> S \<Longrightarrow>
     (\<forall>h \<in> set L \<union> set R. ancStart h \<le> length anc \<and> set (h_lines h) \<subseteq> S) \<Longrightarrow>
     set merged \<subseteq> S \<Longrightarrow> (\<forall>k \<in> set cs. chunk_lines k \<subseteq> S) \<Longrightarrow>
     set m \<subseteq> S \<and> (\<forall>k \<in> set c. chunk_lines k \<subseteq> S)"
proof (induction L R pos merged cs arbitrary: p m c rule: merge_loop_induct [where anc = anc])
  case (locals lh ls pos merged cs)
  then have e: "merge_loop anc ls [] (max (max pos (ancStart lh)) (ancEnd lh))
      ((merged @ emitEqual anc pos (ancStart lh)) @ h_lines lh) cs = (p, m, c)" by (simp add: Let_def)
  show ?case
    by (rule locals.IH [OF e]) (use locals.prems emitEqual_set [of "ancStart lh" anc pos] in auto)
next
  case (remotes rh rs pos merged cs)
  then have e: "merge_loop anc [] rs (max (max pos (ancStart rh)) (ancEnd rh))
      ((merged @ emitEqual anc pos (ancStart rh)) @ h_lines rh) cs = (p, m, c)" by (simp add: Let_def)
  show ?case
    by (rule remotes.IH [OF e]) (use remotes.prems emitEqual_set [of "ancStart rh" anc pos] in auto)
next
  case (ins_same lh ls rh rs pos merged cs p' m')
  note e = ins_same.prems(1) [unfolded loop_steps(1) [OF ins_same.hyps(3-5)], folded ins_same.hyps(1,2)]
  have "set m' \<subseteq> S"
    using ins_same.prems(2-4) emitEqual_min [of lh anc pos "ancStart rh"] ins_same.hyps(2) by auto
  then show ?case using ins_same.IH [OF e] ins_same.prems(2-5) by auto
next
  case (ins lh ls rh rs pos merged cs p' m')
  note e = ins.prems(1) [unfolded loop_steps(2) [OF ins.hyps(3-5)], folded ins.hyps(1,2)]
  have "set m' \<subseteq> S"
    using ins.prems(2-4) emitEqual_min [of lh anc pos "ancStart rh"] ins.hyps(2) by auto
  then show ?case using ins.IH [OF e] ins.prems(2-5) by auto
next
  case (same lh ls rh rs pos merged cs p' m')
  note e = same.prems(1) [unfolded loop_steps(3) [OF same.hyps(3-5)], folded same.hyps(1,2)]
  have "set m' \<subseteq> S"
    using same.prems(2-4) emitEqual_min [of lh anc pos "ancStart rh"] same.hyps(2) by auto
  then show ?case using same.IH [OF e] same.prems(2-5) by auto
next
  case (conflict lh ls rh rs pos merged cs p' m')
  note e = conflict.prems(1) [unfolded loop_steps(4) [OF conflict.hyps(3-5)], folded conflict.hyps(1,2)]
  have "set m' \<subseteq> S"
    using conflict.prems(2-4) emitEqual_min [of lh anc pos "ancStart rh"] conflict.hyps(2) by auto
  then have m: "set (m' @ h_lines lh) \<subseteq> S" using conflict.prems(3) by simp
  have hl: "\<forall>h \<in> set ls \<union> set rs. ancStart h \<le> length anc \<and> set (h_lines h) \<subseteq> S"
    using conflict.prems(3) by simp
  have "set (js_slice anc x y) \<subseteq> S" for x y
    using set_slice [of anc x y] conflict.prems(2) by (rule subset_trans)
  then have k: "\<forall>k \<in> set (cs @ [\<lparr> cc_startLine = length m', cc_endLine = int (length (m' @ h_lines lh)) - 1,
              cc_ancestor = js_slice anc (min (ancStart lh) (ancStart rh)) (max (ancEnd lh) (ancEnd rh)),
              cc_local = h_lines lh, cc_remote = h_lines rh \<rparr>]). chunk_lines k \<subseteq> S"
    using conflict.prems(3,5) by (simp add: chunk_lines_def)
  show ?case by (rule conflict.IH [OF e conflict.prems(2) hl m k])
next
  case (take_local lh ls rh rs pos merged cs p' m')
  note e = take_local.prems(1) [unfolded loop_steps(5) [OF take_local.hyps(3,4)], folded take_local.hyps(1,2)]
  have "set m' \<subseteq> S"
    using take_local.prems(2-4) emitEqual_min [of lh anc pos "ancStart rh"] take_local.hyps(2) by auto
  then show ?case using take_local.IH [OF e] take_local.prems(2-5) by auto
next
  case (take_remote lh ls rh rs pos merged cs p' m')
  note e = take_remote.prems(1) [unfolded loop_steps(6) [OF take_remote.hyps(3,4)], folded take_remote.hyps(1,2)]
  have "set m' \<subseteq> S"
    using take_remote.prems(2-4) emitEqual_min [of lh anc pos "ancStart rh"] take_remote.hyps(2) by auto
  then show ?case using take_remote.IH [OF e] take_remote.prems(2-5) by auto
qed simp

lemma hunk_lines_applied: "h \<in> set hs \<Longrightarrow> set (h_lines h) \<subseteq> set (apply_hunks anc pos hs)"
  by (induction anc pos hs rule: apply_hunks.induct) auto

lemma merge_lines_invent:
  assumes "merge_lines a l r = Inr t"
  shows "set (tw_merged t) \<subseteq> set a \<union> set l \<union> set r \<and>
    (\<forall>k \<in> set (tw_conflicts t). chunk_lines k \<subseteq> set a \<union> set l \<union> set r)"
proof -
  let ?S = "set a \<union> set l \<union> set r"
  consider "t = clean_result l" | "t = clean_result r"
    | d e where "diffLines a l = Inr d" "diffLines a r = Inr e" "t = mergeFromDiffs a d e"
    using assms by (auto simp: merge_lines_def split: if_splits sum.splits)
  then show ?thesis
  proof cases
    case 3
    note hd = toHunks_correct [OF 3(1)] and he = toHunks_correct [OF 3(2)]
    obtain p m c where e: "merge_loop a (toHunks d) (toHunks e) 0 [] [] = (p, m, c)" by (metis prod_cases3)
    have "\<forall>h \<in> set (toHunks d) \<union> set (toHunks e). ancStart h \<le> length a \<and> set (h_lines h) \<subseteq> ?S"
    proof
      fix h assume "h \<in> set (toHunks d) \<union> set (toHunks e)"
      then show "ancStart h \<le> length a \<and> set (h_lines h) \<subseteq> ?S"
        using hunks_ok_range [of 0 "length a" _ h] hunk_lines_applied [of h _ a 0] hd he by fastforce
    qed
    from loop_invent [OF e _ this] have i: "set m \<subseteq> ?S" "\<forall>k \<in> set c. chunk_lines k \<subseteq> ?S" by auto
    then show ?thesis
      using 3(3) e emitEqual_set [of "length a" a p] by (auto simp: mergeFromDiffs_def mergeHunks_def)
  qed (auto simp: clean_result_def)
qed

section \<open>Parsing what was rendered\<close>

lemma marks [simp]:
  "startsWith (CONFLICT_MARK_OURS @ s) CONFLICT_MARK_OURS"
  "startsWith (CONFLICT_MARK_BASE @ s) CONFLICT_MARK_BASE"
  "startsWith CONFLICT_MARK_SEP CONFLICT_MARK_SEP" "\<not> startsWith CONFLICT_MARK_SEP CONFLICT_MARK_BASE"
  "startsWith (CONFLICT_MARK_THEIRS @ s) CONFLICT_MARK_THEIRS"
  "\<not> startsWith (CONFLICT_MARK_THEIRS @ s) CONFLICT_MARK_BASE"
  "\<not> startsWith (CONFLICT_MARK_THEIRS @ s) CONFLICT_MARK_SEP"
  by (simp_all add: startsWith_def CONFLICT_MARK_OURS_def CONFLICT_MARK_BASE_def CONFLICT_MARK_SEP_def
      CONFLICT_MARK_THEIRS_def)

lemma parse_clean:
  "ps_mode s = PClean \<Longrightarrow> \<forall>l \<in> set ls. marker_free l \<Longrightarrow>
     fold parse_line ls s = s\<lparr> ps_clean := ps_clean s @ ls \<rparr>"
  by (induction ls arbitrary: s) (simp_all add: parse_line_def marker_free_def)

lemma parse_side:
  assumes "\<forall>l \<in> set ls. marker_free l" and "ps_cur s = Some (u, b, t)"
  shows "ps_mode s = POurs \<Longrightarrow> fold parse_line ls s = s\<lparr> ps_cur := Some (u @ ls, b, t) \<rparr>"
    and "ps_mode s = PBase \<Longrightarrow> fold parse_line ls s = s\<lparr> ps_cur := Some (u, b @ ls, t) \<rparr>"
    and "ps_mode s = PTheirs \<Longrightarrow> fold parse_line ls s = s\<lparr> ps_cur := Some (u, b, t @ ls) \<rparr>"
  using assms
  by (induction ls arbitrary: s u b t) (simp_all add: parse_line_def marker_free_def cur_sides_def)

lemma parse_block:
  assumes "\<forall>l \<in> chunk_lines c. marker_free l"
  shows "fold parse_line (renderMarkerBlock c) \<lparr> ps_segments = segs, ps_clean = cl, ps_mode = PClean, ps_cur = None \<rparr> =
    \<lparr> ps_segments = segs @ (if cl = [] then [] else [SegClean cl]) @
        [SegConflict (cc_local c) (cc_ancestor c) (cc_remote c)],
      ps_clean = [], ps_mode = PClean, ps_cur = None \<rparr>"
proof -
  have f: "\<forall>l \<in> set (cc_local c). marker_free l" "\<forall>l \<in> set (cc_ancestor c). marker_free l"
    "\<forall>l \<in> set (cc_remote c). marker_free l" using assms by (auto simp: chunk_lines_def)
  show ?thesis
    by (simp add: renderMarkerBlock_def parse_line_def flushClean_def cur_sides_def
        parse_side(1) [OF f(1)] parse_side(2) [OF f(2)] parse_side(3) [OF f(3)])
qed

lemma parse_pieces:
  assumes "placed m i cs" and "\<forall>l \<in> set m. marker_free l" and "\<forall>c \<in> set cs. \<forall>l \<in> chunk_lines c. marker_free l"
  shows "parse_end (fold parse_line (concat (map piece_lines (pieces m i cs)))
      \<lparr> ps_segments = segs, ps_clean = [], ps_mode = PClean, ps_cur = None \<rparr>) =
    segs @ concat (map piece_segs (pieces m i cs))"
  using assms
proof (induction m i cs arbitrary: segs rule: placed.induct)
  case (1 m i)
  have "\<forall>l \<in> set (drop i m). marker_free l" using 1(2) by (meson in_set_dropD)
  then show ?case by (simp add: piece_lines_def piece_segs_def parse_clean parse_end_def flushClean_def)
next
  case (2 m i c cs)
  have "\<forall>l \<in> set (js_slice m i (cc_startLine c)). marker_free l"
    using set_slice [of m i "cc_startLine c"] 2(3) by auto
  then show ?case
    using 2 by (simp add: piece_lines_def [of "Inl _"] piece_lines_def [of "Inr _"] piece_segs_def parse_clean parse_block)
qed

section \<open>Resolving\<close>

fun resolve_pieces ::
  "(string list + ConflictChunk) list \<Rightarrow> (nat \<Rightarrow> ConflictResolution option) \<Rightarrow> nat \<Rightarrow> string list" where
  "resolve_pieces [] res ci = []"
| "resolve_pieces (Inl ls # ps) res ci = ls @ resolve_pieces ps res ci"
| "resolve_pieces (Inr c # ps) res ci =
     resolveConflictChunkLines c (case res ci of Some r \<Rightarrow> r | None \<Rightarrow> KeepLocal) @ resolve_pieces ps res (ci + 1)"

lemma resolve_loop_pieces:
  "resolve_loop (concat (map piece_segs ps)) res ci out = out @ resolve_pieces ps res ci"
proof (induction ps res ci arbitrary: out rule: resolve_pieces.induct)
  case (2 ls ps res ci)
  then show ?case by (simp add: piece_segs_def)
next
  case (3 c ps res ci)
  then show ?case
    by (simp add: piece_segs_def resolveConflictChunkLines_def split: ConflictResolution.splits option.splits)
qed simp

lemma resolve_local: "placed m i cs \<Longrightarrow> resolve_pieces (pieces m i cs) (\<lambda>_. None) ci = drop i m"
proof (induction m i cs arbitrary: ci rule: placed.induct)
  case (2 m i c cs)
  let ?s = "cc_startLine c" and ?e = "cc_startLine c + length (cc_local c)"
  have "drop i m = js_slice m i ?s @ js_slice m ?s ?e @ drop ?e m"
    using drop_slice [of i ?s m] drop_slice [of ?s ?e m] 2(2) by auto
  then show ?case using 2 by (simp add: resolveConflictChunkLines_def)
qed simp

lemma count_pieces: "length (filter is_conflict (concat (map piece_segs (pieces m i cs)))) = length cs"
  by (induction m i cs rule: pieces.induct) (auto simp: piece_segs_def is_conflict_def)

lemma markers_loop_iff:
  "markers_loop ls o' t' \<longleftrightarrow>
     (\<exists>l \<in> set ls. startsWith l CONFLICT_MARK_OURS \<or> startsWith l CONFLICT_MARK_THEIRS) \<and>
     (o' \<or> (\<exists>l \<in> set ls. startsWith l CONFLICT_MARK_OURS)) \<and>
     (t' \<or> (\<exists>l \<in> set ls. startsWith l CONFLICT_MARK_THEIRS \<and> \<not> startsWith l CONFLICT_MARK_OURS))"
  if "\<not> (o' \<and> t')"
  using that by (induction ls arbitrary: o' t') (auto simp: Let_def)

end
