(* ===== verification/MergeProps.thy ===== *)
theory MergeProps
  imports MarkersLaws
begin

text \<open>
  The properties of the three-way merge and of the conflict markers, with the behaviours of the
  merge loop that its comments do not promise: concurrent appends depend on the side that is
  called local, and a change of one side that spans several changes of the other.
\<close>

section \<open>The rendered text\<close>

definition rendered_lines :: "ThreeWayMergeResult \<Rightarrow> string list" where
  "rendered_lines r = concat (map piece_lines (pieces (tw_merged r) 0 (tw_conflicts r)))"

lemma render_joined:
  "placed (tw_merged r) 0 (tw_conflicts r) \<Longrightarrow> renderMarkersFromResult r = joinWith [LF] (rendered_lines r)"
  using render_placed by (simp only: rendered_lines_def)

definition good_line :: "string \<Rightarrow> bool" where
  "good_line l = (plain_line l \<and> marker_free l)"

lemma block_plain:
  assumes "\<forall>l \<in> chunk_lines c. plain_line l"
  shows "\<forall>l \<in> set (renderMarkerBlock c). plain_line l"
  using assms
  by (auto simp: renderMarkerBlock_def chunk_lines_def plain_line_def LF_def CR_def CONFLICT_MARK_OURS_def
      CONFLICT_MARK_BASE_def CONFLICT_MARK_SEP_def CONFLICT_MARK_THEIRS_def)

lemma pieces_plain:
  assumes "\<forall>l \<in> set m. plain_line l" and "\<forall>c \<in> set cs. \<forall>l \<in> chunk_lines c. plain_line l"
  shows "\<forall>l \<in> set (concat (map piece_lines (pieces m i cs))). plain_line l"
  using assms
proof (induction m i cs rule: pieces.induct)
  case (1 m i)
  then show ?case by (auto simp: piece_lines_def dest: in_set_dropD)
next
  case (2 m i c cs)
  then have "\<forall>l \<in> set (js_slice m i (cc_startLine c)). plain_line l"
    using set_slice [of m i "cc_startLine c"] by blast
  with 2 block_plain [of c] show ?case by (auto simp: piece_lines_def)
qed

lemma piece_blocks: "c \<in> set cs \<Longrightarrow> set (renderMarkerBlock c) \<subseteq> set (concat (map piece_lines (pieces m i cs)))"
  by (induction m i cs rule: pieces.induct) (auto simp: piece_lines_def)

lemma rendered_blocks: "c \<in> set (tw_conflicts r) \<Longrightarrow> set (renderMarkerBlock c) \<subseteq> set (rendered_lines r)"
  unfolding rendered_lines_def by (rule piece_blocks)

lemma rendered_not_Nil: "tw_conflicts r \<noteq> [] \<Longrightarrow> rendered_lines r \<noteq> []"
  using rendered_blocks [of "hd (tw_conflicts r)" r] by (auto simp: renderMarkerBlock_def)

lemma rendered_clean: "tw_conflicts r = [] \<Longrightarrow> rendered_lines r = tw_merged r"
  by (simp add: rendered_lines_def piece_lines_def)

lemma render_text:
  assumes "placed (tw_merged r) 0 (tw_conflicts r)"
    and "\<forall>l \<in> set (tw_merged r). plain_line l" and "\<forall>c \<in> set (tw_conflicts r). \<forall>l \<in> chunk_lines c. plain_line l"
  shows "normalizeLines (renderMarkersFromResult r) = (if rendered_lines r = [] then [[]] else rendered_lines r)"
  using render_joined [OF assms(1)] normalize_join [of "rendered_lines r"]
    pieces_plain [OF assms(2,3), of 0, folded rendered_lines_def] by auto

lemma markers_iff:
  assumes "placed (tw_merged r) 0 (tw_conflicts r)"
    and "\<forall>l \<in> set (tw_merged r). good_line l" and "\<forall>c \<in> set (tw_conflicts r). \<forall>l \<in> chunk_lines c. good_line l"
  shows "hasConflictMarkers (renderMarkersFromResult r) \<longleftrightarrow> tw_conflicts r \<noteq> []"
proof (cases "tw_conflicts r")
  case Nil
  then have "rendered_lines r = tw_merged r" by (rule rendered_clean)
  then have "\<forall>l \<in> set (normalizeLines (renderMarkersFromResult r)). marker_free l"
    using render_text [OF assms(1)] assms(2,3) by (auto simp: good_line_def marker_free_def startsWith_def
        CONFLICT_MARK_OURS_def CONFLICT_MARK_BASE_def CONFLICT_MARK_SEP_def CONFLICT_MARK_THEIRS_def)
  then show ?thesis using Nil by (auto simp: hasConflictMarkers_def markers_loop_iff marker_free_def)
next
  case (Cons c cs)
  have sub: "set (renderMarkerBlock c) \<subseteq> set (rendered_lines r)" using Cons by (intro rendered_blocks) simp
  have "rendered_lines r \<noteq> []" using Cons by (intro rendered_not_Nil) simp
  then have ls: "normalizeLines (renderMarkersFromResult r) = rendered_lines r"
    using render_text [OF assms(1)] assms(2,3) by (auto simp: good_line_def)
  have "CONFLICT_MARK_OURS @ '' Mine'' \<in> set (rendered_lines r)"
    "CONFLICT_MARK_THEIRS @ '' Theirs'' \<in> set (rendered_lines r)"
    using sub by (auto simp: renderMarkerBlock_def)
  moreover have "\<not> startsWith (CONFLICT_MARK_THEIRS @ '' Theirs'') CONFLICT_MARK_OURS"
    by (simp add: startsWith_def CONFLICT_MARK_OURS_def CONFLICT_MARK_THEIRS_def)
  ultimately have "markers_loop (rendered_lines r) False False"
    by (subst markers_loop_iff) (blast intro: marks(1) marks(5))+
  then show ?thesis using Cons by (simp add: hasConflictMarkers_def ls)
qed

lemma parse_rendered:
  assumes "placed (tw_merged r) 0 (tw_conflicts r)"
    and "\<forall>l \<in> set (tw_merged r). good_line l" and "\<forall>c \<in> set (tw_conflicts r). \<forall>l \<in> chunk_lines c. good_line l"
    and "rendered_lines r \<noteq> []"
  shows "parseConflictMarkers (renderMarkersFromResult r) =
    concat (map piece_segs (pieces (tw_merged r) 0 (tw_conflicts r)))"
proof -
  have "normalizeLines (renderMarkersFromResult r) = rendered_lines r"
    using render_text [OF assms(1)] assms(2-4) by (auto simp: good_line_def)
  then show ?thesis
    using parse_pieces [OF assms(1), of "[]"] assms(2,3)
    by (simp add: parseConflictMarkers_def parse_start_def good_line_def rendered_lines_def)
qed

lemma resolve_rendered:
  assumes "placed (tw_merged r) 0 (tw_conflicts r)"
    and "\<forall>l \<in> set (tw_merged r). good_line l" and "\<forall>c \<in> set (tw_conflicts r). \<forall>l \<in> chunk_lines c. good_line l"
  shows "resolveMarkedText (renderMarkersFromResult r) res =
    joinWith [LF] (resolve_pieces (pieces (tw_merged r) 0 (tw_conflicts r)) res 0)"
proof (cases "rendered_lines r = []")
  case True
  then have c: "tw_conflicts r = []" using rendered_not_Nil by blast
  then have m: "tw_merged r = []" using True rendered_clean by simp
  have "renderMarkersFromResult r = []" using render_joined [OF assms(1)] True by simp
  then show ?thesis
    using c m by (simp add: resolveMarkedText_def parseConflictMarkers_def parse_start_def parse_line_def
        parse_end_def flushClean_def startsWith_def CONFLICT_MARK_OURS_def)
next
  case False
  then show ?thesis
    using parse_rendered [OF assms False] resolve_loop_pieces [of _ res 0 "[]"] by (simp add: resolveMarkedText_def)
qed

lemma merge_good:
  assumes "threeWayMerge b u t = Inr r"
    and "\<forall>l \<in> set (normalizeLines b) \<union> set (normalizeLines u) \<union> set (normalizeLines t). marker_free l"
  shows "placed (tw_merged r) 0 (tw_conflicts r) \<and> (\<forall>l \<in> set (tw_merged r). good_line l) \<and>
    (\<forall>c \<in> set (tw_conflicts r). \<forall>l \<in> chunk_lines c. good_line l) \<and> (tw_hasConflicts r \<longleftrightarrow> tw_conflicts r \<noteq> [])"
proof -
  have m: "merge_lines (normalizeLines b) (normalizeLines u) (normalizeLines t) = Inr r"
    using assms(1) by (simp add: threeWayMerge_def)
  have "good_line l" if "l \<in> set (normalizeLines b) \<union> set (normalizeLines u) \<union> set (normalizeLines t)" for l
    using that assms(2) normalizeLines_plain by (auto simp: good_line_def)
  then show ?thesis using merge_lines_invent [OF m] merge_lines_placed [OF m] by blast
qed

section \<open>Properties of the merge\<close>

text \<open>
  C25: Edits of the two sides that do not interact are all applied: the merge is clean, its text
  is the ancestor with the changes of both sides applied in order of position, and exchanging
  the two sides gives the same text.
\<close>

theorem disjoint_edits_merge:
  assumes "diffLines a l = Inr d" and "diffLines a r = Inr e" and "hunks_apart (toHunks d) (toHunks e)"
  shows "mergeFromDiffs a d e = clean_result (apply_hunks a 0 (sort_key hunk_key (toHunks d @ toHunks e))) \<and>
         mergeFromDiffs a e d = mergeFromDiffs a d e \<and>
         apply_hunks a 0 (toHunks d) = l \<and> apply_hunks a 0 (toHunks e) = r"
  using merge_apart [OF assms(3)] merge_apart_comm [OF assms(3)] toHunks_correct [OF assms(1)] toHunks_correct [OF assms(2)]
  by (simp add: mergeFromDiffs_def)

theorem disjoint_edits_merge_witness:
  "mergeFromDiffs [''a'', ''b'', ''c''] [mk_op DDelete [''a''], mk_op DInsert [''x''], mk_op DEqual [''b'', ''c'']]
       [mk_op DEqual [''a'', ''b''], mk_op DDelete [''c''], mk_op DInsert [''y'']] =
     clean_result (apply_hunks [''a'', ''b'', ''c''] 0 (sort_key hunk_key
       (toHunks [mk_op DDelete [''a''], mk_op DInsert [''x''], mk_op DEqual [''b'', ''c'']] @
        toHunks [mk_op DEqual [''a'', ''b''], mk_op DDelete [''c''], mk_op DInsert [''y'']]))) \<and>
   mergeFromDiffs [''a'', ''b'', ''c''] [mk_op DEqual [''a'', ''b''], mk_op DDelete [''c''], mk_op DInsert [''y'']]
       [mk_op DDelete [''a''], mk_op DInsert [''x''], mk_op DEqual [''b'', ''c'']] =
     mergeFromDiffs [''a'', ''b'', ''c''] [mk_op DDelete [''a''], mk_op DInsert [''x''], mk_op DEqual [''b'', ''c'']]
       [mk_op DEqual [''a'', ''b''], mk_op DDelete [''c''], mk_op DInsert [''y'']] \<and>
   apply_hunks [''a'', ''b'', ''c''] 0 (toHunks [mk_op DDelete [''a''], mk_op DInsert [''x''], mk_op DEqual [''b'', ''c'']]) =
     [''x'', ''b'', ''c''] \<and>
   apply_hunks [''a'', ''b'', ''c''] 0 (toHunks [mk_op DEqual [''a'', ''b''], mk_op DDelete [''c''], mk_op DInsert [''y'']]) =
     [''a'', ''b'', ''y'']"
  by (rule disjoint_edits_merge) code_simp+

text \<open>
  C4: No edit disappears, whatever the two edit scripts are: the new lines of every local hunk
  stand in the merged text, those of every remote hunk stand there or are the remote side of a
  conflict chunk, and the conflict flag is up exactly when there is a chunk.
\<close>

theorem no_edit_lost:
  "set (toHunks d) \<subseteq> {h. sublist (h_lines h) (tw_merged (mergeFromDiffs a d e))} \<and>
   set (toHunks e) \<subseteq> {h. sublist (h_lines h) (tw_merged (mergeFromDiffs a d e)) \<or>
                            h_lines h \<in> cc_remote ` set (tw_conflicts (mergeFromDiffs a d e))} \<and>
   (tw_hasConflicts (mergeFromDiffs a d e) \<longleftrightarrow> tw_conflicts (mergeFromDiffs a d e) \<noteq> [])"
proof -
  obtain p m c where e: "merge_loop a (toHunks d) (toHunks e) 0 [] [] = (p, m, c)" by (metis prod_cases3)
  have r: "mergeFromDiffs a d e =
      \<lparr> tw_merged = m @ emitEqual a p (length a), tw_conflicts = c, tw_hasConflicts = (c \<noteq> []) \<rparr>"
    by (simp add: mergeFromDiffs_def mergeHunks_def e)
  have "sublist xs (m @ emitEqual a p (length a))" if "sublist xs m" for xs
    using sublist_prefix [OF that] by simp
  then show ?thesis using loop_keeps [OF e] unfolding r by force
qed

text \<open>
  The merge makes nothing up and fails only by the throw of the diff: each line of its
  text, and of each conflict chunk, is a line of the ancestor or of one of the two sides.
\<close>

theorem merge_invents_nothing:
  "case threeWayMerge b u t of
     Inl e \<Rightarrow> e = TypeError
   | Inr r \<Rightarrow>
       set (tw_merged r) \<union> \<Union> (chunk_lines ` set (tw_conflicts r)) \<subseteq>
         set (normalizeLines b) \<union> set (normalizeLines u) \<union> set (normalizeLines t)"
proof (cases "threeWayMerge b u t")
  case (Inl e)
  have "e = TypeError" if "diffLines x y = Inl e" for x y
    using diffLines_fuel [of x y] that by (cases e) auto
  then show ?thesis using Inl by (auto simp: threeWayMerge_def merge_lines_def split: if_splits sum.splits)
next
  case (Inr r)
  then show ?thesis
    using merge_lines_invent [of "normalizeLines b" "normalizeLines u" "normalizeLines t" r] by (auto simp: threeWayMerge_def)
qed

text \<open>
  A change of one side only is taken as it is, and equal changes merge to themselves,
  without running the diff: the result is clean and is the changed text, with its line endings
  normalised.
\<close>

theorem one_sided_merge:
  "threeWayMerge b b t = Inr (clean_result (normalizeLines t)) \<and>
   threeWayMerge b u b = Inr (clean_result (normalizeLines u)) \<and>
   threeWayMerge b u u = Inr (clean_result (normalizeLines u))"
proof -
  have join: "joinWith [LF] (normalizeLines x) = joinWith [LF] (normalizeLines y) \<longleftrightarrow> normalizeLines x = normalizeLines y" for x y
    by (metis normalizeLines_def join_split)
  show ?thesis by (auto simp: threeWayMerge_def merge_lines_def join)
qed

text \<open>
  C26: What is written into the note reads back: for texts none of whose lines is a marker, the
  panel finds exactly the chunks of the merge with the clean text around them, the save-time
  test sees markers exactly when there are conflicts, and resolving with any choice per block
  gives the merged text with each placeholder replaced by the choice, all-local giving the
  merged text itself.
\<close>

theorem markers_roundtrip:
  assumes "threeWayMerge b u t = Inr r"
    and "\<forall>l \<in> set (normalizeLines b) \<union> set (normalizeLines u) \<union> set (normalizeLines t). marker_free l"
  shows "hasConflictMarkers (renderMarkersFromResult r) = tw_hasConflicts r \<and>
         (tw_hasConflicts r \<longrightarrow>
            parseConflictMarkers (renderMarkersFromResult r) =
              concat (map piece_segs (pieces (tw_merged r) 0 (tw_conflicts r))) \<and>
            countMarkerConflicts (renderMarkersFromResult r) = length (tw_conflicts r)) \<and>
         resolveMarkedText (renderMarkersFromResult r) res =
           joinWith [LF] (resolve_pieces (pieces (tw_merged r) 0 (tw_conflicts r)) res 0) \<and>
         resolveMarkedText (renderMarkersFromResult r) (\<lambda>_. None) = joinWith [LF] (tw_merged r)"
proof -
  from merge_good [OF assms] have g: "placed (tw_merged r) 0 (tw_conflicts r)" "\<forall>l \<in> set (tw_merged r). good_line l"
    "\<forall>c \<in> set (tw_conflicts r). \<forall>l \<in> chunk_lines c. good_line l" "tw_hasConflicts r \<longleftrightarrow> tw_conflicts r \<noteq> []" by auto
  have "rendered_lines r \<noteq> []" if "tw_hasConflicts r"
    using that g(4) rendered_not_Nil by simp
  then show ?thesis
    using markers_iff [OF g(1-3)] g(4) parse_rendered [OF g(1-3)] resolve_rendered [OF g(1-3)] resolve_local [OF g(1), of 0]
    by (auto simp: countMarkerConflicts_def count_pieces)
qed

definition sample_conflict :: ThreeWayMergeResult where
  "sample_conflict =
     \<lparr> tw_merged = [''t'', ''b''],
       tw_conflicts = [\<lparr> cc_startLine = 1, cc_endLine = 1, cc_ancestor = [''a''], cc_local = [''b''], cc_remote = [''c''] \<rparr>],
       tw_hasConflicts = True \<rparr>"

lemma sample_merge: "threeWayMerge (''t'' @ [LF] @ ''a'') (''t'' @ [LF] @ ''b'') (''t'' @ [LF] @ ''c'') = Inr sample_conflict"
  by code_simp

theorem markers_roundtrip_witness:
  "hasConflictMarkers (renderMarkersFromResult sample_conflict) \<and>
   parseConflictMarkers (renderMarkersFromResult sample_conflict) =
     concat (map piece_segs (pieces (tw_merged sample_conflict) 0 (tw_conflicts sample_conflict))) \<and>
   countMarkerConflicts (renderMarkersFromResult sample_conflict) = length (tw_conflicts sample_conflict) \<and>
   resolveMarkedText (renderMarkersFromResult sample_conflict) (\<lambda>_. Some KeepBoth) =
     joinWith [LF] (resolve_pieces (pieces (tw_merged sample_conflict) 0 (tw_conflicts sample_conflict)) (\<lambda>_. Some KeepBoth) 0) \<and>
   resolveMarkedText (renderMarkersFromResult sample_conflict) (\<lambda>_. None) = joinWith [LF] (tw_merged sample_conflict)"
proof -
  have "tw_hasConflicts sample_conflict" by code_simp
  moreover note markers_roundtrip [OF sample_merge, of "\<lambda>_. Some KeepBoth"]
  moreover have "\<forall>l \<in> set (normalizeLines (''t'' @ [LF] @ ''a'')) \<union> set (normalizeLines (''t'' @ [LF] @ ''b'')) \<union> set (normalizeLines (''t'' @ [LF] @ ''c'')). marker_free l"
    by code_simp
  ultimately show ?thesis by blast
qed

section \<open>What the merge does not promise\<close>

text \<open>
  Concurrent appends at the same place are joined local first, so the clean merge depends
  on which side is called local: two devices that merge the same two versions produce different
  texts, and the content-addressed ids of their merge nodes differ.  When one side's change
  spans two changes of the other, only the first of these is in the conflict chunk: keeping the
  remote side does not give the remote text, and the second remote change stands outside the
  conflict whatever is chosen.
\<close>

theorem merge_surprises:
  "threeWayMerge (joinWith [LF] [''a'']) (joinWith [LF] [''a'', ''x'']) (joinWith [LF] [''a'', ''y'']) =
     Inr (clean_result [''a'', ''x'', ''y'']) \<and>
   threeWayMerge (joinWith [LF] [''a'']) (joinWith [LF] [''a'', ''y'']) (joinWith [LF] [''a'', ''x'']) =
     Inr (clean_result [''a'', ''y'', ''x'']) \<and>
   (case threeWayMerge (joinWith [LF] [''a'', ''b'', ''c'', ''d'', ''e''])
           (joinWith [LF] [''L'', ''e'']) (joinWith [LF] [''R'', ''b'', ''S'', ''d'', ''e'']) of
      Inl e \<Rightarrow> False
    | Inr r \<Rightarrow>
        resolve_pieces (pieces (tw_merged r) 0 (tw_conflicts r)) (\<lambda>_. Some KeepRemote) 0 = [''R'', ''S'', ''e''] \<and>
        resolve_pieces (pieces (tw_merged r) 0 (tw_conflicts r)) (\<lambda>_. Some KeepLocal) 0 = [''L'', ''S'', ''e''])"
  by code_simp

end
