(* ===== verification/StateMerge.thy ===== *)
theory StateMerge
  imports MergeProps VersionDagSweep
begin

text \<open>
  The state merge of \<open>src/merge/state-merge.ts\<close>: a pure function from two vault snapshots (and
  the version graph, when there is one) to one action per file.  \<open>TextDecoder\<close> is the parameter
  \<open>dec\<close>.  The three-way merge can throw, and nothing here catches it, so the functions on the
  way to it return a result.  A side that is known by reference in the source (\<open>winner === le\<close>)
  is a boolean.
\<close>

section \<open>Small pieces\<close>

definition liveByPath :: "VaultState \<Rightarrow> (string, string) jsmap" where
  "liveByPath state =
     fold (\<lambda>(i, e) m. if fe_deleted e then m else jm_set (fe_path e) i m) (vs_fileEntries state) []"

text \<open>\<open>dag && le.headVersionId && re.headVersionId\<close>.\<close>

definition known_heads :: "dag option \<Rightarrow> FileEntry \<Rightarrow> FileEntry \<Rightarrow> (dag \<times> string \<times> string) option" where
  "known_heads dag le re =
     (case (dag, fe_headVersionId le, fe_headVersionId re) of
        (Some g, Some l, Some r) \<Rightarrow> if l \<noteq> [] \<and> r \<noteq> [] then Some (g, l, r) else None
      | _ \<Rightarrow> None)"

text \<open>\<open>a.contentStore.get(h) ?? b.contentStore.get(h')\<close>.\<close>

definition store_get :: "VaultState \<Rightarrow> string \<Rightarrow> bytes option" where
  "store_get s h = jm_get (vs_contentStore s) h"

definition get_or :: "bytes option \<Rightarrow> bytes option \<Rightarrow> bytes option" where
  "get_or a b = (case a of Some x \<Rightarrow> Some x | None \<Rightarrow> b)"

definition pick_local :: "FileEntry \<Rightarrow> FileEntry \<Rightarrow> bool" where
  "pick_local le re =
     (if hlcCompare (fe_hlc le) (fe_hlc re) > 0 then True
      else if hlcCompare (fe_hlc le) (fe_hlc re) < 0 then False
      else fe_id re < fe_id le)"

definition deleteParents :: "FileEntry \<Rightarrow> FileEntry \<Rightarrow> string list option" where
  "deleteParents le re =
     (if truthy (fe_headVersionId le) \<and> truthy (fe_headVersionId re)
      then Some [the (fe_headVersionId le), the (fe_headVersionId re)] else None)"

definition splitLines :: "string \<Rightarrow> string list" where
  "splitLines text = splitOn LF (replace_cr (replace_crlf text))"

definition wholeFileConflict :: "string \<Rightarrow> string \<Rightarrow> ThreeWayMergeResult" where
  "wholeFileConflict localText remoteText =
     (let localLines = splitLines localText; remoteLines = splitLines remoteText
      in \<lparr> tw_merged = localLines,
           tw_conflicts = [\<lparr> cc_startLine = 0, cc_endLine = int (length localLines) - 1, cc_ancestor = [],
                             cc_local = localLines, cc_remote = remoteLines \<rparr>],
           tw_hasConflicts = True \<rparr>)"

definition resolveRenameConflict :: "string \<Rightarrow> FileEntry \<Rightarrow> FileEntry \<Rightarrow> MergeAction" where
  "resolveRenameConflict fileId le re =
     (if hlcCompare (fe_hlc le) (fe_hlc re) \<ge> 0 then NoOp fileId
      else MoveLocal fileId (fe_path le) (fe_path re))"

definition isUnchangedSinceBase :: "FileEntry \<Rightarrow> FileEntry \<Rightarrow> dag option \<Rightarrow> bool" where
  "isUnchangedSinceBase survivor other dag =
     (let syncedPath = (case fe_lastSyncedPath survivor of Some p \<Rightarrow> Some p | None \<Rightarrow> fe_lastSyncedPath other)
      in if syncedPath \<noteq> None \<and> Some (fe_path survivor) \<noteq> syncedPath then False
         else (case known_heads dag survivor other of
                 None \<Rightarrow> False
               | Some (g, s, t) \<Rightarrow>
                   (case mergeBase g s t of
                      NoBase \<Rightarrow> False
                    | MultipleBases \<Rightarrow> False
                    | Base b \<Rightarrow> contentHashOf g b = Some (fe_contentHash survivor))))"

definition BINARY_SNIFF_BYTES :: nat where "BINARY_SNIFF_BYTES = 8192"

fun has_zero :: "bytes \<Rightarrow> bool" where
  "has_zero [] = False"
| "has_zero (b # bs) = (if b = 0 then True else has_zero bs)"

definition isBinary :: "bytes \<Rightarrow> bool" where
  "isBinary content = has_zero (js_slice content 0 BINARY_SNIFF_BYTES)"

record three_way_base =
  tb_baseHash :: "string option"
  tb_ambiguous :: bool
  tb_hasKnownAncestor :: bool

definition resolveThreeWayBase :: "FileEntry \<Rightarrow> FileEntry \<Rightarrow> dag option \<Rightarrow> three_way_base" where
  "resolveThreeWayBase le re dag =
     (case known_heads dag le re of
        None \<Rightarrow> \<lparr> tb_baseHash = None, tb_ambiguous = False, tb_hasKnownAncestor = False \<rparr>
      | Some (g, l, r) \<Rightarrow>
          (case mergeBase g l r of
             MultipleBases \<Rightarrow> \<lparr> tb_baseHash = None, tb_ambiguous = True, tb_hasKnownAncestor = False \<rparr>
           | Base mb \<Rightarrow> \<lparr> tb_baseHash = contentHashOf g mb, tb_ambiguous = False, tb_hasKnownAncestor = True \<rparr>
           | NoBase \<Rightarrow> \<lparr> tb_baseHash = None, tb_ambiguous = False, tb_hasKnownAncestor = False \<rparr>))"

section \<open>Create collisions\<close>

definition resolveCreateCollision ::
  "(bytes \<Rightarrow> string) \<Rightarrow> FileEntry \<Rightarrow> FileEntry \<Rightarrow> VaultState \<Rightarrow> VaultState \<Rightarrow> bool \<Rightarrow> dag option \<Rightarrow> MergeAction" where
  "resolveCreateCollision dec le re local remote selfIsRemote dag =
     (let noOp = NoOp (if selfIsRemote then fe_id re else fe_id le);
          localContent = store_get local (fe_contentHash le);
          remoteContent = store_get remote (fe_contentHash re);
          adoptRemoteId =
            (if \<not> selfIsRemote then noOp
             else (case get_or remoteContent localContent of
                     None \<Rightarrow> noOp
                   | Some content \<Rightarrow>
                       WriteLocal (fe_id re) (fe_path re) content (fe_hlc re) (fe_headVersionId re)));
          linear =
            (case known_heads dag le re of
               None \<Rightarrow> None
             | Some (g, l, r) \<Rightarrow>
                 if isAncestor g l r then Some adoptRemoteId
                 else if isAncestor g r l then Some noOp
                 else None)
      in case linear of
           Some action \<Rightarrow> action
         | None \<Rightarrow>
             if fe_contentHash le = fe_contentHash re then
               (if \<not> pick_local le re then adoptRemoteId else noOp)
             else
               (case (localContent, remoteContent) of
                  (Some lc, Some rc) \<Rightarrow>
                    if selfIsRemote = pick_local le re then noOp
                    else Conflict (if pick_local le re then fe_id le else fe_id re) (fe_path le) (fe_path re)
                           (wholeFileConflict (dec lc) (dec rc)) (dec lc) (dec rc) (deleteParents le re)
                | _ \<Rightarrow> noOp))"

section \<open>Content conflicts\<close>

text \<open>The part after both contents are in hand.\<close>

definition merge_contents ::
  "(bytes \<Rightarrow> string) \<Rightarrow> string \<Rightarrow> FileEntry \<Rightarrow> FileEntry \<Rightarrow> VaultState \<Rightarrow> VaultState \<Rightarrow> dag option \<Rightarrow>
     bytes \<Rightarrow> bytes \<Rightarrow> js_error + MergeAction" where
  "merge_contents dec fileId le re local remote dag localContent remoteContent =
     (let localText = dec localContent;
          remoteText = dec remoteContent;
          tb = resolveThreeWayBase le re dag;
          conflictParents = deleteParents le re;
          wholeConflict =
            Conflict fileId (fe_path le) (fe_path re) (wholeFileConflict localText remoteText)
              localText remoteText conflictParents
      in if isBinary localContent \<or> isBinary remoteContent then
           (let binaryConflict =
                  BinaryConflict fileId (fe_path le) (fe_path re) localContent remoteContent
                    (fe_hlc le) (fe_hlc re) conflictParents
            in case (tb_ambiguous tb, tb_baseHash tb) of
                 (False, Some baseHash) \<Rightarrow>
                   (let localChanged = (fe_contentHash le \<noteq> baseHash);
                        remoteChanged = (fe_contentHash re \<noteq> baseHash)
                    in if remoteChanged \<and> \<not> localChanged then
                         Inr (WriteLocal fileId (fe_path re) remoteContent (fe_hlc re) (fe_headVersionId re))
                       else if localChanged \<and> \<not> remoteChanged then Inr (NoOp fileId)
                       else Inr binaryConflict)
               | _ \<Rightarrow> Inr binaryConflict)
         else if tb_ambiguous tb then Inr wholeConflict
         else
           (let ancestorContent =
                  (case tb_baseHash tb of
                     None \<Rightarrow> None
                   | Some h \<Rightarrow> get_or (store_get local h) (store_get remote h))
            in if tb_hasKnownAncestor tb \<and> ancestorContent = None then Inr wholeConflict
               else
                 (let ancestorText = (case ancestorContent of Some c \<Rightarrow> dec c | None \<Rightarrow> [])
                  in case threeWayMerge ancestorText localText remoteText of
                       Inl e \<Rightarrow> Inl e
                     | Inr mergeResult \<Rightarrow>
                         if \<not> tw_hasConflicts mergeResult then
                           (let content = utf8_encode (joinWith [LF] (tw_merged mergeResult));
                                path = (if hlcCompare (fe_hlc le) (fe_hlc re) \<ge> 0 then fe_path le else fe_path re)
                            in case deleteParents le re of
                                 Some parents \<Rightarrow> Inr (WriteMerge fileId path content parents)
                               | None \<Rightarrow> Inr (WriteLocal fileId path content (hlcMax (fe_hlc le) (fe_hlc re)) None))
                         else
                           Inr (Conflict fileId (fe_path le) (fe_path re) mergeResult localText remoteText
                                  conflictParents))))"

definition hold_two_headed ::
  "string \<Rightarrow> string list \<Rightarrow> FileEntry \<Rightarrow> VaultState \<Rightarrow> VaultState \<Rightarrow> dag option \<Rightarrow> MergeAction" where
  "hold_two_headed fileId conflictParents re local remote dag =
     (case (dag, fe_headVersionId re) of
        (Some g, Some r) \<Rightarrow>
          if r \<noteq> [] \<and> isMergeNode g r \<and> list_all (\<lambda>h. isAncestor g h r) conflictParents then
            (case get_or (store_get remote (fe_contentHash re)) (store_get local (fe_contentHash re)) of
               Some content \<Rightarrow> WriteLocal fileId (fe_path re) content (fe_hlc re) (Some r)
             | None \<Rightarrow> NoOp fileId)
          else NoOp fileId
      | _ \<Rightarrow> NoOp fileId)"

text \<open>The fast-forward over the graph; \<open>None\<close> when the histories are not linear.\<close>

definition fast_forward ::
  "string \<Rightarrow> FileEntry \<Rightarrow> FileEntry \<Rightarrow> VaultState \<Rightarrow> VaultState \<Rightarrow> dag option \<Rightarrow> MergeAction option" where
  "fast_forward fileId le re local remote dag =
     (case known_heads dag le re of
        None \<Rightarrow> None
      | Some (g, l, r) \<Rightarrow>
          (let localAtHead = (contentHashOf g l = Some (fe_contentHash le))
           in if localAtHead \<and> isAncestor g l r then
                (case get_or (store_get remote (fe_contentHash re)) (store_get local (fe_contentHash re)) of
                   Some content \<Rightarrow> Some (WriteLocal fileId (fe_path re) content (fe_hlc re) (fe_headVersionId re))
                 | None \<Rightarrow> Some (NoOp fileId))
              else if isAncestor g r l then Some (NoOp fileId)
              else None))"

definition defer_to_winner ::
  "string \<Rightarrow> FileEntry \<Rightarrow> FileEntry \<Rightarrow> bytes option \<Rightarrow> bytes option \<Rightarrow> MergeAction" where
  "defer_to_winner fileId le re localContent remoteContent =
     (let localWins = (hlcCompare (fe_hlc le) (fe_hlc re) \<ge> 0);
          winner = (if localWins then le else re)
      in case (if localWins then localContent else remoteContent) of
           None \<Rightarrow> NoOp fileId
         | Some c \<Rightarrow> WriteLocal fileId (fe_path winner) c (fe_hlc winner) (fe_headVersionId winner))"

definition resolveContentConflict ::
  "(bytes \<Rightarrow> string) \<Rightarrow> string \<Rightarrow> FileEntry \<Rightarrow> FileEntry \<Rightarrow> VaultState \<Rightarrow> VaultState \<Rightarrow> dag option \<Rightarrow>
     js_error + MergeAction" where
  "resolveContentConflict dec fileId le re local remote dag =
     (let open = (case fe_conflictParents le of None \<Rightarrow> [] | Some ps \<Rightarrow> ps)
      in if length open \<ge> 2 then Inr (hold_two_headed fileId open re local remote dag)
         else
           (let localContent = store_get local (fe_contentHash le);
                remoteContent = store_get remote (fe_contentHash re)
            in case fast_forward fileId le re local remote dag of
                 Some action \<Rightarrow> Inr action
               | None \<Rightarrow>
                   (case (localContent, remoteContent) of
                      (Some lc, Some rc) \<Rightarrow> merge_contents dec fileId le re local remote dag lc rc
                    | _ \<Rightarrow> Inr (defer_to_winner fileId le re localContent remoteContent))))"

section \<open>Classification\<close>

text \<open>Both sides live with equal content.\<close>

definition same_content ::
  "string \<Rightarrow> FileEntry \<Rightarrow> FileEntry \<Rightarrow> VaultState \<Rightarrow> VaultState \<Rightarrow> dag option \<Rightarrow> MergeAction" where
  "same_content fileId le re local remote dag =
     (if fe_path le \<noteq> fe_path re then resolveRenameConflict fileId le re
      else
        (case known_heads dag le re of
           None \<Rightarrow> NoOp fileId
         | Some (g, l, r) \<Rightarrow>
             if l = r then NoOp fileId
             else
               (let localAtHead = (contentHashOf g l = Some (fe_contentHash le));
                    content = get_or (store_get local (fe_contentHash le)) (store_get remote (fe_contentHash re))
                in if isAncestor g r l then NoOp fileId
                   else if localAtHead \<and> isAncestor g l r then
                     (case content of
                        Some c \<Rightarrow> WriteLocal fileId (fe_path re) c (fe_hlc re) (fe_headVersionId re)
                      | None \<Rightarrow> NoOp fileId)
                   else if localAtHead then
                     (case content of
                        Some c \<Rightarrow> WriteMerge fileId (fe_path le) c [l, r]
                      | None \<Rightarrow> NoOp fileId)
                   else NoOp fileId)))"

definition is_resolution :: "dag option \<Rightarrow> FileEntry \<Rightarrow> FileEntry \<Rightarrow> bool" where
  "is_resolution dag le re =
     (case known_heads dag le re of
        None \<Rightarrow> False
      | Some (g, l, r) \<Rightarrow> isMergeNode g r \<and> isAncestor g l r)"

definition local_deleted ::
  "string \<Rightarrow> FileEntry \<Rightarrow> FileEntry \<Rightarrow> VaultState \<Rightarrow> VaultState \<Rightarrow> dag option \<Rightarrow> MergeAction" where
  "local_deleted fileId le re local remote dag =
     (let content = get_or (store_get remote (fe_contentHash re)) (store_get local (fe_contentHash re))
      in if is_resolution dag le re \<and> content \<noteq> None then
           WriteLocal fileId (fe_path re) (the content) (fe_hlc re) (fe_headVersionId re)
         else if isUnchangedSinceBase re le dag then DeleteRemote fileId (fe_path re)
         else (case content of
                 None \<Rightarrow> NoOp fileId
               | Some c \<Rightarrow> DeleteConflict fileId (fe_path re) LocalDeleted c (deleteParents le re)))"

definition remote_deleted ::
  "string \<Rightarrow> FileEntry \<Rightarrow> FileEntry \<Rightarrow> VaultState \<Rightarrow> VaultState \<Rightarrow> dag option \<Rightarrow> MergeAction" where
  "remote_deleted fileId le re local remote dag =
     (if is_resolution dag le re then DeleteLocal fileId (fe_path le)
      else if isUnchangedSinceBase le re dag then DeleteLocal fileId (fe_path le)
      else (case get_or (store_get local (fe_contentHash le)) (store_get remote (fe_contentHash le)) of
              None \<Rightarrow> NoOp fileId
            | Some c \<Rightarrow> DeleteConflict fileId (fe_path le) RemoteDeleted c (deleteParents le re)))"

definition classifyAndResolve ::
  "(bytes \<Rightarrow> string) \<Rightarrow> string \<Rightarrow> FileEntry option \<Rightarrow> FileEntry option \<Rightarrow> VaultState \<Rightarrow> VaultState \<Rightarrow>
     (string, string) jsmap \<Rightarrow> (string, string) jsmap \<Rightarrow> dag option \<Rightarrow> js_error + MergeAction" where
  "classifyAndResolve dec fileId localEntry remoteEntry local remote localLiveByPath remoteLiveByPath dag =
     (case (localEntry, remoteEntry) of
        (None, Some re) \<Rightarrow>
          if fe_deleted re then Inr (NoOp fileId)
          else
            (case jm_get localLiveByPath (fe_path re) of
               Some c \<Rightarrow>
                 if c \<noteq> fileId then
                   (case jm_get (vs_fileEntries local) c of
                      Some le \<Rightarrow> Inr (resolveCreateCollision dec le re local remote True dag)
                    | None \<Rightarrow> Inl TypeError)
                 else
                   (case store_get remote (fe_contentHash re) of
                      None \<Rightarrow> Inr (NoOp fileId)
                    | Some content \<Rightarrow>
                        Inr (WriteLocal fileId (fe_path re) content (fe_hlc re) (fe_headVersionId re)))
             | None \<Rightarrow>
                 (case store_get remote (fe_contentHash re) of
                    None \<Rightarrow> Inr (NoOp fileId)
                  | Some content \<Rightarrow>
                      Inr (WriteLocal fileId (fe_path re) content (fe_hlc re) (fe_headVersionId re))))
      | (Some le, None) \<Rightarrow>
          if fe_deleted le then Inr (NoOp fileId)
          else
            (case jm_get remoteLiveByPath (fe_path le) of
               Some c \<Rightarrow>
                 if c \<noteq> fileId then
                   (case jm_get (vs_fileEntries remote) c of
                      Some re \<Rightarrow> Inr (resolveCreateCollision dec le re local remote False dag)
                    | None \<Rightarrow> Inl TypeError)
                 else Inr (SendRemote fileId (fe_path le) (fe_hlc le))
             | None \<Rightarrow> Inr (SendRemote fileId (fe_path le) (fe_hlc le)))
      | (None, None) \<Rightarrow> Inl TypeError
      | (Some le, Some re) \<Rightarrow>
          if fe_deleted le \<and> fe_deleted re then Inr (NoOp fileId)
          else if \<not> fe_deleted le \<and> \<not> fe_deleted re \<and> fe_contentHash le = fe_contentHash re then
            Inr (same_content fileId le re local remote dag)
          else if fe_deleted le \<and> \<not> fe_deleted re then Inr (local_deleted fileId le re local remote dag)
          else if \<not> fe_deleted le \<and> fe_deleted re then Inr (remote_deleted fileId le re local remote dag)
          else resolveContentConflict dec fileId le re local remote dag)"

fun merge_ids ::
  "(bytes \<Rightarrow> string) \<Rightarrow> VaultState \<Rightarrow> VaultState \<Rightarrow> dag option \<Rightarrow> string list \<Rightarrow> MergeAction list \<Rightarrow>
     js_error + MergeAction list" where
  "merge_ids dec local remote dag [] actions = Inr actions"
| "merge_ids dec local remote dag (i # ids) actions =
     (case classifyAndResolve dec i (jm_get (vs_fileEntries local) i) (jm_get (vs_fileEntries remote) i)
             local remote (liveByPath local) (liveByPath remote) dag of
        Inl e \<Rightarrow> Inl e
      | Inr a \<Rightarrow> merge_ids dec local remote dag ids (actions @ [a]))"

definition mergeVaultStates ::
  "(bytes \<Rightarrow> string) \<Rightarrow> VaultState \<Rightarrow> VaultState \<Rightarrow> dag option \<Rightarrow> js_error + StateMergeResult" where
  "mergeVaultStates dec local remote dag =
     (let allIds = js_set_of (jm_keys (vs_fileEntries local) @ jm_keys (vs_fileEntries remote))
      in case merge_ids dec local remote dag allIds [] of
           Inl e \<Rightarrow> Inl e
         | Inr actions \<Rightarrow> Inr \<lparr> sm_actions = actions, sm_mergedHlc = hlcMax (vs_hlc local) (vs_hlc remote) \<rparr>)"

end
