(* ===== verification/StateMergeProps.thy ===== *)
theory StateMergeProps
  imports StateMerge
begin

text \<open>
  The guarantees of the state merge: one action per file, no bytes that neither side holds
  unless they are a clean merge, deletions only where a side that did not change agrees, linear
  histories that fast-forward on one device and rest on the other, one winner of a create
  collision, and conflicts instead of guesses where the base is missing.
\<close>

section \<open>Sample states\<close>

text \<open>Small states over the graph \<open>diamond\<close>, on which the theorems are applied.\<close>

definition sample_dec :: "bytes \<Rightarrow> string" where
  "sample_dec bs = map (\<lambda>b. char_of (unat b)) bs"

definition sample_entry :: "string \<Rightarrow> string \<Rightarrow> string \<Rightarrow> nat \<Rightarrow> string \<Rightarrow> FileEntry" where
  "sample_entry i p h t v =
     \<lparr> fe_id = i, fe_path = p, fe_contentHash = h, fe_hlc = HLC t 0 ''d'', fe_deleted = False,
       fe_lastSyncedPath = Some ''n'', fe_headVersionId = Some v, fe_conflictParents = None,
       fe_mtime = None, fe_size = None \<rparr>"

definition sample_state :: "FileEntry list \<Rightarrow> VaultState" where
  "sample_state es =
     \<lparr> vs_deviceId = ''d'', vs_hlc = HLC 9 0 ''d'', vs_fileEntries = map (\<lambda>e. (fe_id e, e)) es, vs_pendingOps = [],
       vs_contentStore = [(''h1'', [65]), (''h2'', [66])] \<rparr>"

definition ea :: FileEntry where "ea = sample_entry ''f'' ''n'' ''h1'' 1 ''a''"
definition eb :: FileEntry where "eb = sample_entry ''f'' ''n'' ''h2'' 2 ''b''"
definition er :: FileEntry where "er = sample_entry ''f'' ''n'' ''h0'' 0 ''r''"
definition eg :: FileEntry where "eg = sample_entry ''g'' ''n'' ''h2'' 2 ''x''"
definition stateA :: VaultState where "stateA = sample_state [ea]"
definition stateB :: VaultState where "stateB = sample_state [eb]"
definition same_heads :: dag where
  "same_heads = [(''a'', \<lparr> vn_parents = [], vn_contentHash = ''h1'', vn_fileId = ''f'' \<rparr>),
                 (''b'', \<lparr> vn_parents = [], vn_contentHash = ''h1'', vn_fileId = ''f'' \<rparr>)]"

lemma sample_merge_result:
  "mergeVaultStates sample_dec stateA (sample_state []) None =
     Inr \<lparr> sm_actions = [SendRemote ''f'' ''n'' (HLC 1 0 ''d'')], sm_mergedHlc = HLC 9 0 ''d'' \<rparr>"
  by code_simp

section \<open>What an action writes\<close>

fun written :: "MergeAction \<Rightarrow> bytes set" where
  "written (WriteLocal _ _ c _ _) = {c}"
| "written (WriteMerge _ _ c _) = {c}"
| "written _ = {}"

definition held :: "VaultState \<Rightarrow> VaultState \<Rightarrow> bytes set" where
  "held local remote = set (jm_values (vs_contentStore local)) \<union> set (jm_values (vs_contentStore remote))"

text \<open>Clean three-way merges of two versions the sides hold.\<close>

definition clean_merges :: "(bytes \<Rightarrow> string) \<Rightarrow> VaultState \<Rightarrow> VaultState \<Rightarrow> bytes set" where
  "clean_merges dec local remote =
     {utf8_encode (joinWith [LF] (tw_merged r)) | r b l t.
        l \<in> held local remote \<and> t \<in> held local remote \<and>
        threeWayMerge b (dec l) (dec t) = Inr r \<and> \<not> tw_hasConflicts r}"

lemma store_get_held: "store_get s h = Some c \<Longrightarrow> c \<in> set (jm_values (vs_contentStore s))"
  by (force simp: store_get_def jm_values_def dest: map_of_SomeD)

lemma held_local: "store_get local h = Some c \<Longrightarrow> c \<in> held local remote"
  by (simp add: held_def store_get_held)

lemma held_remote: "store_get remote h = Some c \<Longrightarrow> c \<in> held local remote"
  by (simp add: held_def store_get_held)

lemma get_or_Some: "get_or a b = Some c \<Longrightarrow> a = Some c \<or> b = Some c"
  by (auto simp: get_or_def split: option.splits)

lemma get_or_held:
  "get_or (store_get local h) (store_get remote k) = Some c \<Longrightarrow> c \<in> held local remote"
  "get_or (store_get remote h) (store_get local k) = Some c \<Longrightarrow> c \<in> held local remote"
  by (auto dest!: get_or_Some intro: held_local held_remote)

lemma written_collision:
  "written (resolveCreateCollision dec le re local remote self dag) \<subseteq> held local remote"
  by (auto simp: resolveCreateCollision_def Let_def held_def dest!: get_or_Some store_get_held split: option.splits if_splits)

lemma written_same_content: "written (same_content i le re local remote dag) \<subseteq> held local remote"
  by (auto simp: same_content_def resolveRenameConflict_def Let_def held_def dest!: get_or_Some store_get_held split: option.splits if_splits)

lemma written_local_deleted: "written (local_deleted i le re local remote dag) \<subseteq> held local remote"
  by (auto simp: local_deleted_def Let_def held_def dest!: get_or_Some store_get_held split: option.splits if_splits)

lemma written_remote_deleted: "written (remote_deleted i le re local remote dag) \<subseteq> held local remote"
  by (auto simp: remote_deleted_def Let_def split: option.splits if_splits)

lemma written_hold: "written (hold_two_headed i ps re local remote dag) \<subseteq> held local remote"
  by (auto simp: hold_two_headed_def held_def dest!: get_or_Some store_get_held split: option.splits if_splits)

lemma written_ff: "fast_forward i le re local remote dag = Some a \<Longrightarrow> written a \<subseteq> held local remote"
  by (auto simp: fast_forward_def Let_def held_def dest!: get_or_Some store_get_held split: option.splits if_splits)

lemma written_defer:
  "written (defer_to_winner i le re (store_get local h) (store_get remote k)) \<subseteq> held local remote"
  by (auto simp: defer_to_winner_def Let_def held_def dest!: get_or_Some store_get_held split: option.splits if_splits)

lemma merge_contents_written:
  assumes "merge_contents dec i le re local remote dag lc rc = Inr a"
    and "lc \<in> held local remote" and "rc \<in> held local remote"
  shows "written a \<subseteq> held local remote \<union> clean_merges dec local remote"
proof -
  have clean: "utf8_encode (joinWith [LF] (tw_merged r)) \<in> clean_merges dec local remote"
    if "threeWayMerge b (dec lc) (dec rc) = Inr r" "\<not> tw_hasConflicts r" for b r
    using that assms(2,3) unfolding clean_merges_def by blast
  show ?thesis
    using assms(1,2,3)
    by (auto simp: merge_contents_def Let_def intro: clean split: if_splits option.splits sum.splits bool.splits)
qed

lemma content_conflict_written:
  assumes "resolveContentConflict dec i le re local remote dag = Inr a"
  shows "written a \<subseteq> held local remote \<union> clean_merges dec local remote"
proof (cases "length (case fe_conflictParents le of None \<Rightarrow> [] | Some ps \<Rightarrow> ps) \<ge> 2")
  case True
  then have "a = hold_two_headed i (case fe_conflictParents le of None \<Rightarrow> [] | Some ps \<Rightarrow> ps) re local remote dag"
    using assms by (simp add: resolveContentConflict_def Let_def)
  then show ?thesis using written_hold by blast
next
  case False
  show ?thesis
  proof (cases "fast_forward i le re local remote dag")
    case (Some b)
    then show ?thesis using assms False written_ff [OF Some] by (auto simp: resolveContentConflict_def Let_def)
  next
    case None
    show ?thesis
    proof (cases "\<exists>lc rc. store_get local (fe_contentHash le) = Some lc \<and> store_get remote (fe_contentHash re) = Some rc")
      case True
      then obtain lc rc where c: "store_get local (fe_contentHash le) = Some lc" "store_get remote (fe_contentHash re) = Some rc"
        by blast
      then have "merge_contents dec i le re local remote dag lc rc = Inr a"
        using assms False None by (simp add: resolveContentConflict_def Let_def)
      then show ?thesis using merge_contents_written held_local [OF c(1)] held_remote [OF c(2)] by blast
    next
      case no: False
      then have "a = defer_to_winner i le re (store_get local (fe_contentHash le)) (store_get remote (fe_contentHash re))"
        using assms False None by (auto simp: resolveContentConflict_def Let_def split: option.splits)
      then show ?thesis using written_defer by blast
    qed
  qed
qed

lemma classify_written:
  assumes "classifyAndResolve dec i lo ro local remote lp rp dag = Inr a"
  shows "written a \<subseteq> held local remote \<union> clean_merges dec local remote"
proof (cases lo)
  case None
  then show ?thesis
    using assms written_collision [of dec _ _ local remote True dag]
    by (auto simp: classifyAndResolve_def intro: held_remote split: option.splits if_splits)
next
  case lo: (Some le)
  show ?thesis
  proof (cases ro)
    case None
    then show ?thesis
      using assms lo written_collision [of dec _ _ local remote False dag]
      by (auto simp: classifyAndResolve_def split: option.splits if_splits)
  next
    case (Some re)
    then show ?thesis
      using assms lo written_same_content [of i le re local remote dag] written_local_deleted [of i le re local remote dag]
        written_remote_deleted [of i le re local remote dag] content_conflict_written [of dec i le re local remote dag a]
      by (auto simp: classifyAndResolve_def split: if_splits)
  qed
qed

lemma merge_ids_actions:
  "merge_ids dec local remote dag ids acc = Inr r \<Longrightarrow>
     \<exists>new. r = acc @ new \<and>
       list_all2 (\<lambda>i a. classifyAndResolve dec i (jm_get (vs_fileEntries local) i) (jm_get (vs_fileEntries remote) i)
             local remote (liveByPath local) (liveByPath remote) dag = Inr a) ids new"
proof (induction ids arbitrary: acc)
  case (Cons i ids)
  then obtain a where a: "classifyAndResolve dec i (jm_get (vs_fileEntries local) i) (jm_get (vs_fileEntries remote) i)
             local remote (liveByPath local) (liveByPath remote) dag = Inr a"
    and r: "merge_ids dec local remote dag ids (acc @ [a]) = Inr r"
    by (auto split: sum.splits)
  from Cons.IH [OF r] obtain new where "r = (acc @ [a]) @ new"
    "list_all2 (\<lambda>i a. classifyAndResolve dec i (jm_get (vs_fileEntries local) i) (jm_get (vs_fileEntries remote) i)
             local remote (liveByPath local) (liveByPath remote) dag = Inr a) ids new" by blast
  with a show ?case by (intro exI [of _ "a # new"]) simp
qed simp

section \<open>One action per file\<close>

lemma list_all2_right: "list_all2 (\<lambda>i. P) xs ys \<Longrightarrow> \<forall>y \<in> set ys. P y"
  by (induction rule: list_all2_induct) auto

definition ids_ok :: "VaultState \<Rightarrow> bool" where
  "ids_ok s = list_all (\<lambda>(i, e). fe_id e = i) (vs_fileEntries s)"

lemma ids_ok_get: "ids_ok s \<Longrightarrow> jm_get (vs_fileEntries s) i = Some e \<Longrightarrow> fe_id e = i"
  by (auto simp: ids_ok_def list_all_iff dest!: map_of_SomeD)

lemma collision_id:
  "ma_fileId (resolveCreateCollision dec le re local remote self dag) = (if self then fe_id re else fe_id le)"
  by (auto simp: resolveCreateCollision_def Let_def split: option.splits)

lemma merge_contents_id: "merge_contents dec i le re local remote dag lc rc = Inr a \<Longrightarrow> ma_fileId a = i"
  by (auto simp: merge_contents_def Let_def split: if_splits option.splits sum.splits bool.splits)

lemma content_conflict_id:
  assumes "resolveContentConflict dec i le re local remote dag = Inr a"
  shows "ma_fileId a = i"
proof -
  have "ma_fileId (hold_two_headed i ps re local remote dag) = i" for ps
    by (auto simp: hold_two_headed_def split: option.splits)
  moreover have "ma_fileId b = i" if "fast_forward i le re local remote dag = Some b" for b
    using that by (auto simp: fast_forward_def Let_def split: option.splits if_splits)
  moreover have "ma_fileId (defer_to_winner i le re x y) = i" for x y
    by (auto simp: defer_to_winner_def Let_def split: option.splits)
  ultimately show ?thesis
    using assms merge_contents_id [of dec i le re local remote dag]
    by (auto simp: resolveContentConflict_def Let_def split: if_splits option.splits)
qed

lemma classify_id:
  assumes "classifyAndResolve dec i (jm_get (vs_fileEntries local) i) (jm_get (vs_fileEntries remote) i)
      local remote lp rp dag = Inr a" and "ids_ok local" and "ids_ok remote"
  shows "ma_fileId a = i"
proof -
  have "ma_fileId (same_content i le re local remote dag) = i" for le re
    by (auto simp: same_content_def resolveRenameConflict_def Let_def split: option.splits)
  moreover have "ma_fileId (local_deleted i le re local remote dag) = i" for le re
    by (auto simp: local_deleted_def Let_def split: option.splits)
  moreover have "ma_fileId (remote_deleted i le re local remote dag) = i" for le re
    by (auto simp: remote_deleted_def Let_def split: option.splits)
  ultimately show ?thesis
    using assms(1) ids_ok_get [OF assms(2), of i] ids_ok_get [OF assms(3), of i]
    by (auto simp: classifyAndResolve_def collision_id content_conflict_id split: option.splits if_splits)
qed

text \<open>
  The merge decides once about every file either side knows, in the order of the two
  registries, and about no other file; the merged clock is the later of the two.
\<close>

theorem merge_one_action_per_file:
  assumes "ids_ok local" and "ids_ok remote" and "mergeVaultStates dec local remote dag = Inr r"
  shows "map ma_fileId (sm_actions r) =
           js_set_of (jm_keys (vs_fileEntries local) @ jm_keys (vs_fileEntries remote)) \<and>
         sm_mergedHlc r = max (vs_hlc local) (vs_hlc remote)"
proof -
  let ?ids = "js_set_of (jm_keys (vs_fileEntries local) @ jm_keys (vs_fileEntries remote))"
  from assms(3) obtain as where m: "merge_ids dec local remote dag ?ids [] = Inr as"
    and r: "r = \<lparr> sm_actions = as, sm_mergedHlc = hlcMax (vs_hlc local) (vs_hlc remote) \<rparr>"
    by (auto simp: mergeVaultStates_def Let_def split: sum.splits)
  from merge_ids_actions [OF m] have
    "list_all2 (\<lambda>i a. classifyAndResolve dec i (jm_get (vs_fileEntries local) i) (jm_get (vs_fileEntries remote) i)
             local remote (liveByPath local) (liveByPath remote) dag = Inr a) ?ids as" by simp
  then have "list_all2 (\<lambda>i a. ma_fileId a = i) ?ids as"
    by (rule list_all2_mono) (rule classify_id [OF _ assms(1,2)])
  then have "map ma_fileId as = ?ids"
    by (auto simp: list_all2_conv_all_nth intro!: nth_equalityI)
  then show ?thesis by (simp add: r hlcMax_eq_max)
qed

theorem merge_one_action_per_file_witness:
  "map ma_fileId (sm_actions \<lparr> sm_actions = [SendRemote ''f'' ''n'' (HLC 1 0 ''d'')], sm_mergedHlc = HLC 9 0 ''d'' \<rparr>) =
     js_set_of (jm_keys (vs_fileEntries stateA) @ jm_keys (vs_fileEntries (sample_state []))) \<and>
   sm_mergedHlc \<lparr> sm_actions = [SendRemote ''f'' ''n'' (HLC 1 0 ''d'')], sm_mergedHlc = HLC 9 0 ''d'' \<rparr> =
     max (vs_hlc stateA) (vs_hlc (sample_state []))"
  by (rule merge_one_action_per_file [OF _ _ sample_merge_result]) code_simp+

text \<open>
  C27: The merge fabricates no content: what an action writes is held by one of the two sides, or
  is the encoded text of a clean three-way merge of two versions they hold.
\<close>

theorem merge_writes_held_bytes:
  "case mergeVaultStates dec local remote dag of
     Inl e \<Rightarrow> True
   | Inr r \<Rightarrow> \<Union> (written ` set (sm_actions r)) \<subseteq> held local remote \<union> clean_merges dec local remote"
proof (cases "mergeVaultStates dec local remote dag")
  case (Inr r)
  let ?ids = "js_set_of (jm_keys (vs_fileEntries local) @ jm_keys (vs_fileEntries remote))"
  from Inr obtain as where m: "merge_ids dec local remote dag ?ids [] = Inr as" and as: "sm_actions r = as"
    by (auto simp: mergeVaultStates_def Let_def split: sum.splits)
  from merge_ids_actions [OF m] have
    l: "list_all2 (\<lambda>i a. classifyAndResolve dec i (jm_get (vs_fileEntries local) i) (jm_get (vs_fileEntries remote) i)
             local remote (liveByPath local) (liveByPath remote) dag = Inr a) ?ids as" by simp
  from l have "list_all2 (\<lambda>i a. written a \<subseteq> held local remote \<union> clean_merges dec local remote) ?ids as"
    by (rule list_all2_mono) (rule classify_written)
  then have "\<forall>a \<in> set as. written a \<subseteq> held local remote \<union> clean_merges dec local remote"
    by (rule list_all2_right)
  then show ?thesis using Inr as by (simp add: UN_subset_iff)
qed simp

section \<open>Causality\<close>

lemma isAncestor_antisym:
  assumes "acyclic (dag_edge g)" and "isAncestor g a b" and "isAncestor g b a"
  shows "a = b"
proof (rule ccontr)
  assume "a \<noteq> b"
  with assms(2,3) have "(b, a) \<in> (dag_edge g)\<^sup>+" "(a, b) \<in> (dag_edge g)\<^sup>*"
    by (auto simp: isAncestor_reach dest: rtranclD)
  then have "(b, b) \<in> (dag_edge g)\<^sup>+" by (rule trancl_rtrancl_trancl)
  with assms(1) show False by (simp add: acyclic_def)
qed

lemma known_heads_Some:
  "known_heads dag le re = Some (g, l, r) \<longleftrightarrow>
     dag = Some g \<and> fe_headVersionId le = Some l \<and> fe_headVersionId re = Some r \<and> l \<noteq> [] \<and> r \<noteq> []"
  by (auto simp: known_heads_def split: option.splits)

lemma known_heads_swap: "known_heads dag le re = Some (g, l, r) \<longleftrightarrow> known_heads dag re le = Some (g, r, l)"
  by (auto simp: known_heads_Some)

definition not_two_headed :: "FileEntry \<Rightarrow> bool" where
  "not_two_headed e = (length (case fe_conflictParents e of None \<Rightarrow> [] | Some ps \<Rightarrow> ps) < 2)"

definition both_modified :: "FileEntry \<Rightarrow> FileEntry \<Rightarrow> bool" where
  "both_modified le re = (\<not> fe_deleted le \<and> \<not> fe_deleted re \<and> fe_contentHash le \<noteq> fe_contentHash re)"

lemma classify_both:
  "both_modified le re \<Longrightarrow>
     classifyAndResolve dec i (Some le) (Some re) local remote lp rp dag =
       resolveContentConflict dec i le re local remote dag"
  by (simp add: both_modified_def classifyAndResolve_def)

lemma both_modified_swap: "both_modified le re = both_modified re le"
  by (auto simp: both_modified_def)

lemma resolve_single_headed:
  "not_two_headed le \<Longrightarrow>
     resolveContentConflict dec i le re local remote dag =
       (case fast_forward i le re local remote dag of
          Some action \<Rightarrow> Inr action
        | None \<Rightarrow>
            (case (store_get local (fe_contentHash le), store_get remote (fe_contentHash re)) of
               (Some lc, Some rc) \<Rightarrow> merge_contents dec i le re local remote dag lc rc
             | _ \<Rightarrow> Inr (defer_to_winner i le re (store_get local (fe_contentHash le))
                            (store_get remote (fe_contentHash re)))))"
  by (simp add: resolveContentConflict_def not_two_headed_def Let_def)

text \<open>
  Linear histories converge without a conflict: when the peer's head descends from ours and
  our content is that of our head, we take the peer's version under its head, and the peer,
  seeing our older head, does nothing.
\<close>

theorem fast_forward_converges:
  assumes "both_modified le re" and "not_two_headed le" and "not_two_headed re"
    and "known_heads (Some g) le re = Some (g, l, r)" and "l \<noteq> r" and "isAncestor g l r"
    and "acyclic (dag_edge g)" and "contentHashOf g l = Some (fe_contentHash le)"
    and "store_get remote (fe_contentHash re) = Some c"
  shows "classifyAndResolve dec i (Some le) (Some re) local remote lp rp (Some g) =
           Inr (WriteLocal i (fe_path re) c (fe_hlc re) (Some r)) \<and>
         classifyAndResolve dec i (Some re) (Some le) remote local rp lp (Some g) = Inr (NoOp i)"
proof
  have h: "fe_headVersionId re = Some r" using assms(4) by (simp add: known_heads_Some)
  show "classifyAndResolve dec i (Some le) (Some re) local remote lp rp (Some g) =
           Inr (WriteLocal i (fe_path re) c (fe_hlc re) (Some r))"
    using assms h by (simp add: classify_both resolve_single_headed fast_forward_def get_or_def Let_def)
  have sw: "known_heads (Some g) re le = Some (g, r, l)" using assms(4) known_heads_swap by blast
  have "\<not> isAncestor g r l" using isAncestor_antisym [OF assms(7,6)] assms(5) by blast
  then have "fast_forward i re le remote local (Some g) = Some (NoOp i)"
    using sw assms(6) by (simp add: fast_forward_def Let_def)
  moreover have "both_modified re le" using assms(1) both_modified_swap by blast
  ultimately show "classifyAndResolve dec i (Some re) (Some le) remote local rp lp (Some g) = Inr (NoOp i)"
    using assms(3) by (simp add: classify_both resolve_single_headed)
qed

theorem fast_forward_converges_witness:
  "classifyAndResolve sample_dec ''f'' (Some er) (Some ea) stateB stateA [] [] (Some diamond) =
     Inr (WriteLocal ''f'' (fe_path ea) [65] (fe_hlc ea) (Some ''a'')) \<and>
   classifyAndResolve sample_dec ''f'' (Some ea) (Some er) stateA stateB [] [] (Some diamond) = Inr (NoOp ''f'')"
  by (rule fast_forward_converges [where l = "''r''", OF _ _ _ _ _ _ diamond_acyclic]) code_simp+

text \<open>
  While a file is two-headed (markers on disk), the merge never conflicts it again: it does
  nothing, or it adopts a merge node of the peer that descends from every open head.
\<close>

theorem two_headed_is_held:
  assumes "both_modified le re" and "fe_conflictParents le = Some ps" and "length ps \<ge> 2"
  shows "classifyAndResolve dec i (Some le) (Some re) local remote lp rp dag = Inr (NoOp i) \<or>
         (\<exists>g r c. dag = Some g \<and> fe_headVersionId re = Some r \<and> isMergeNode g r \<and>
            set ps \<subseteq> {h. isAncestor g h r} \<and>
            classifyAndResolve dec i (Some le) (Some re) local remote lp rp dag =
              Inr (WriteLocal i (fe_path re) c (fe_hlc re) (Some r)))"
proof -
  have "classifyAndResolve dec i (Some le) (Some re) local remote lp rp dag =
      Inr (hold_two_headed i ps re local remote dag)"
    using assms by (simp add: classify_both resolveContentConflict_def)
  then show ?thesis
    by (auto simp: hold_two_headed_def list_all_iff split: option.splits if_splits)
qed

theorem two_headed_is_held_witness:
  "classifyAndResolve sample_dec ''f'' (Some (ea\<lparr> fe_conflictParents := Some [''a'', ''b''] \<rparr>)) (Some eb) stateA stateB [] []
     (Some diamond) = Inr (NoOp ''f'') \<or>
   (\<exists>g r c. Some diamond = Some g \<and> fe_headVersionId eb = Some r \<and> isMergeNode g r \<and>
      set [''a'', ''b''] \<subseteq> {h. isAncestor g h r} \<and>
      classifyAndResolve sample_dec ''f'' (Some (ea\<lparr> fe_conflictParents := Some [''a'', ''b''] \<rparr>)) (Some eb) stateA stateB [] []
        (Some diamond) = Inr (WriteLocal ''f'' (fe_path eb) c (fe_hlc eb) (Some r)))"
  by (rule two_headed_is_held) code_simp+

lemma resolution_heads:
  "is_resolution dag le re \<Longrightarrow>
     \<exists>g l r. known_heads dag le re = Some (g, l, r) \<and> isMergeNode g r \<and> isAncestor g l r"
  by (auto simp: is_resolution_def split: option.splits)

lemma unchanged_heads:
  "isUnchangedSinceBase le re dag \<Longrightarrow>
     fe_lastSyncedPath le \<in> {None, Some (fe_path le)} \<and>
     (\<exists>g l r b. known_heads dag le re = Some (g, l, r) \<and> mergeBase g l r = Base b \<and>
       contentHashOf g b = Some (fe_contentHash le))"
proof -
  assume u: "isUnchangedSinceBase le re dag"
  obtain g l r where k: "known_heads dag le re = Some (g, l, r)"
    using u by (cases "known_heads dag le re") (auto simp: isUnchangedSinceBase_def Let_def split: if_splits)
  then obtain b where "mergeBase g l r = Base b" "contentHashOf g b = Some (fe_contentHash le)"
    using u by (cases "mergeBase g l r") (auto simp: isUnchangedSinceBase_def Let_def split: if_splits)
  moreover have "fe_lastSyncedPath le \<in> {None, Some (fe_path le)}"
    using u by (auto simp: isUnchangedSinceBase_def Let_def split: option.splits if_splits)
  ultimately show ?thesis using k by blast
qed

text \<open>
  C3: A live local file is deleted by the merge only if the remote side deleted it and either
  the deletion is a merge node that descends from our head, or our file was not renamed and its
  content is still that of the common base.
\<close>

theorem deletions_justified:
  assumes "classifyAndResolve dec i lo ro local remote lp rp dag = Inr (DeleteLocal f p)"
  shows "\<exists>le re g l r. lo = Some le \<and> ro = Some re \<and> f = i \<and> p = fe_path le \<and>
    \<not> fe_deleted le \<and> fe_deleted re \<and> known_heads dag le re = Some (g, l, r) \<and>
    (isMergeNode g r \<and> isAncestor g l r \<or>
     fe_lastSyncedPath le \<in> {None, Some (fe_path le)} \<and> (\<exists>b. mergeBase g l r = Base b \<and> contentHashOf g b = Some (fe_contentHash le)))"
proof -
  have no: "resolveCreateCollision dec le re local remote s dag \<noteq> DeleteLocal f p" for le re s
    by (auto simp: resolveCreateCollision_def Let_def split: option.splits)
  have no': "resolveContentConflict dec i le re local remote dag \<noteq> Inr (DeleteLocal f p)" for le re
  proof -
    have "hold_two_headed i ps re local remote dag \<noteq> DeleteLocal f p" for ps
      by (auto simp: hold_two_headed_def split: option.splits)
    moreover have "fast_forward i le re local remote dag \<noteq> Some (DeleteLocal f p)"
      by (auto simp: fast_forward_def Let_def split: option.splits)
    moreover have "defer_to_winner i le re x y \<noteq> DeleteLocal f p" for x y
      by (auto simp: defer_to_winner_def Let_def split: option.splits)
    moreover have "merge_contents dec i le re local remote dag lc rc \<noteq> Inr (DeleteLocal f p)" for lc rc
      by (auto simp: merge_contents_def Let_def split: option.splits sum.splits bool.splits)
    ultimately show ?thesis
      by (auto simp: resolveContentConflict_def Let_def split: option.splits)
  qed
  have no'': "same_content i le re local remote dag \<noteq> DeleteLocal f p"
    "local_deleted i le re local remote dag \<noteq> DeleteLocal f p" for le re
    by (auto simp: same_content_def resolveRenameConflict_def local_deleted_def Let_def split: option.splits)
  from assms no no' no'' obtain le re where lr: "lo = Some le" "ro = Some re" "\<not> fe_deleted le" "fe_deleted re"
    "remote_deleted i le re local remote dag = DeleteLocal f p"
    by (auto simp: classifyAndResolve_def split: option.splits if_splits)
  then have "f = i \<and> p = fe_path le \<and> (is_resolution dag le re \<or> isUnchangedSinceBase le re dag)"
    by (auto simp: remote_deleted_def split: if_splits option.splits)
  then show ?thesis using lr(1-4) resolution_heads unchanged_heads by blast
qed

theorem deletions_justified_witness:
  "\<exists>le re g l r. Some er = Some le \<and> Some (ea\<lparr> fe_deleted := True \<rparr>) = Some re \<and> ''f'' = ''f'' \<and> ''n'' = fe_path le \<and>
    \<not> fe_deleted le \<and> fe_deleted re \<and> known_heads (Some diamond) le re = Some (g, l, r) \<and>
    (isMergeNode g r \<and> isAncestor g l r \<or>
     fe_lastSyncedPath le \<in> {None, Some (fe_path le)} \<and> (\<exists>b. mergeBase g l r = Base b \<and> contentHashOf g b = Some (fe_contentHash le)))"
  by (rule deletions_justified [where dec = sample_dec and local = stateA and remote = stateB and lp = "[]" and rp = "[]"])
    code_simp

text \<open>
  Of two files created at one path with unrelated content exactly one raises the conflict,
  the same one on both devices: the branch of the other id does nothing, and each device's
  conflict carries the same winning id and the same two texts.
\<close>

theorem create_collision_one_winner:
  assumes "fe_id le \<noteq> fe_id re" and "fe_contentHash le \<noteq> fe_contentHash re"
    and "store_get local (fe_contentHash le) = Some lc" and "store_get remote (fe_contentHash re) = Some rc"
    and "\<forall>g l r. known_heads dag le re = Some (g, l, r) \<longrightarrow> \<not> isAncestor g l r \<and> \<not> isAncestor g r l"
  shows "\<exists>w. w \<in> {fe_id le, fe_id re} \<and>
    resolveCreateCollision dec le re local remote (w = fe_id re) dag =
      Conflict w (fe_path le) (fe_path re) (wholeFileConflict (dec lc) (dec rc)) (dec lc) (dec rc) (deleteParents le re) \<and>
    resolveCreateCollision dec le re local remote (w \<noteq> fe_id re) dag = NoOp (if w = fe_id re then fe_id le else fe_id re) \<and>
    resolveCreateCollision dec re le remote local (w = fe_id le) dag =
      Conflict w (fe_path re) (fe_path le) (wholeFileConflict (dec rc) (dec lc)) (dec rc) (dec lc) (deleteParents re le) \<and>
    resolveCreateCollision dec re le remote local (w \<noteq> fe_id le) dag = NoOp (if w = fe_id le then fe_id re else fe_id le)"
proof -
  have pick: "pick_local re le = (\<not> pick_local le re)"
    using assms(1) by (auto simp: pick_local_def)
  have l1: "(case known_heads dag le re of None \<Rightarrow> None
             | Some (g, l, r) \<Rightarrow> if isAncestor g l r then Some x else if isAncestor g r l then Some y else None) = None" for x y :: MergeAction
    using assms(5) by (auto split: option.splits)
  have l2: "(case known_heads dag re le of None \<Rightarrow> None
             | Some (g, l, r) \<Rightarrow> if isAncestor g l r then Some x else if isAncestor g r l then Some y else None) = None" for x y :: MergeAction
    using assms(5) known_heads_swap [of dag le re] by (auto split: option.splits)
  show ?thesis
    using assms(1-4) pick
    by (intro exI [of _ "if pick_local le re then fe_id le else fe_id re"])
      (simp add: resolveCreateCollision_def Let_def l1 l2)
qed

theorem create_collision_one_winner_witness:
  "\<exists>w. w \<in> {fe_id ea, fe_id eg} \<and>
    resolveCreateCollision sample_dec ea eg stateA stateB (w = fe_id eg) (Some diamond) =
      Conflict w (fe_path ea) (fe_path eg) (wholeFileConflict (sample_dec [65]) (sample_dec [66])) (sample_dec [65])
        (sample_dec [66]) (deleteParents ea eg) \<and>
    resolveCreateCollision sample_dec ea eg stateA stateB (w \<noteq> fe_id eg) (Some diamond) =
      NoOp (if w = fe_id eg then fe_id ea else fe_id eg) \<and>
    resolveCreateCollision sample_dec eg ea stateB stateA (w = fe_id ea) (Some diamond) =
      Conflict w (fe_path eg) (fe_path ea) (wholeFileConflict (sample_dec [66]) (sample_dec [65])) (sample_dec [66])
        (sample_dec [65]) (deleteParents eg ea) \<and>
    resolveCreateCollision sample_dec eg ea stateB stateA (w \<noteq> fe_id ea) (Some diamond) =
      NoOp (if w = fe_id ea then fe_id eg else fe_id ea)"
proof (rule create_collision_one_winner)
  have "known_heads (Some diamond) ea eg = Some (diamond, ''a'', ''x'')" by code_simp
  moreover have "\<not> isAncestor diamond ''a'' ''x'' \<and> \<not> isAncestor diamond ''x'' ''a''" by code_simp
  ultimately show "\<forall>g l r. known_heads (Some diamond) ea eg = Some (g, l, r) \<longrightarrow> \<not> isAncestor g l r \<and> \<not> isAncestor g r l"
    by simp
qed code_simp+

text \<open>
  A base that is known to exist but cannot be read is never replaced by an empty one: with
  divergent heads, an ambiguous base, a base of unrecorded content or one whose bytes neither
  side holds makes the merge of two texts a whole-file conflict with both heads as parents.
\<close>

theorem missing_base_conflicts:
  assumes "both_modified le re" and "not_two_headed le" and "known_heads dag le re = Some (g, l, r)"
    and "\<not> isAncestor g l r" and "\<not> isAncestor g r l"
    and "store_get local (fe_contentHash le) = Some lc" and "store_get remote (fe_contentHash re) = Some rc"
    and "\<not> isBinary lc" and "\<not> isBinary rc"
    and "mergeBase g l r = MultipleBases \<or>
         (\<exists>b. mergeBase g l r = Base b \<and>
            (\<forall>h. contentHashOf g b = Some h \<longrightarrow> store_get local h = None \<and> store_get remote h = None))"
  shows "classifyAndResolve dec i (Some le) (Some re) local remote lp rp dag =
    Inr (Conflict i (fe_path le) (fe_path re) (wholeFileConflict (dec lc) (dec rc)) (dec lc) (dec rc) (Some [l, r]))"
proof -
  have ff: "fast_forward i le re local remote dag = None"
    using assms(3-5) by (simp add: fast_forward_def Let_def)
  have h: "deleteParents le re = Some [l, r]" using assms(3) by (simp add: known_heads_Some deleteParents_def)
  have "merge_contents dec i le re local remote dag lc rc =
      Inr (Conflict i (fe_path le) (fe_path re) (wholeFileConflict (dec lc) (dec rc)) (dec lc) (dec rc) (Some [l, r]))"
    using assms(3,8-10) h
    by (auto simp: merge_contents_def resolveThreeWayBase_def get_or_def Let_def split: option.splits)
  then show ?thesis using assms(1,2,6,7) ff by (simp add: classify_both resolve_single_headed)
qed

theorem missing_base_conflicts_witness:
  "classifyAndResolve sample_dec ''f'' (Some ea) (Some eb) stateA stateB [] [] (Some diamond) =
     Inr (Conflict ''f'' (fe_path ea) (fe_path eb) (wholeFileConflict (sample_dec [65]) (sample_dec [66]))
       (sample_dec [65]) (sample_dec [66]) (Some [''a'', ''b'']))"
proof (rule missing_base_conflicts [where g = diamond])
  have "mergeBase diamond ''a'' ''b'' = Base ''r''" "contentHashOf diamond ''r'' = Some ''h0''"
    "store_get stateA ''h0'' = None" "store_get stateB ''h0'' = None" by code_simp+
  then show "mergeBase diamond ''a'' ''b'' = MultipleBases \<or>
      (\<exists>b. mergeBase diamond ''a'' ''b'' = Base b \<and>
         (\<forall>h. contentHashOf diamond b = Some h \<longrightarrow> store_get stateA h = None \<and> store_get stateB h = None))" by simp
qed code_simp+

text \<open>
  Two devices that reached the same content by concurrent edits unite their heads: both mint
  a merge of the same bytes, and its content-addressed id is the same on both although each
  lists its own head first.
\<close>

theorem same_content_unites:
  assumes "\<not> fe_deleted le" and "\<not> fe_deleted re" and "fe_contentHash le = fe_contentHash re"
    and "fe_path le = fe_path re" and "known_heads (Some g) le re = Some (g, l, r)" and "l \<noteq> r"
    and "\<not> isAncestor g l r" and "\<not> isAncestor g r l"
    and "contentHashOf g l = Some (fe_contentHash le)" and "contentHashOf g r = Some (fe_contentHash re)"
    and "store_get local (fe_contentHash le) = Some c" and "store_get remote (fe_contentHash re) = Some c"
  shows "classifyAndResolve dec i (Some le) (Some re) local remote lp rp (Some g) =
           Inr (WriteMerge i (fe_path le) c [l, r]) \<and>
         classifyAndResolve dec i (Some re) (Some le) remote local rp lp (Some g) =
           Inr (WriteMerge i (fe_path le) c [r, l]) \<and>
         mergeVersionId sha h [l, r] = mergeVersionId sha h [r, l]"
proof -
  have sw: "known_heads (Some g) re le = Some (g, r, l)" using assms(5) known_heads_swap by blast
  have "mergeVersionId sha h [l, r] = mergeVersionId sha h [r, l]" by (rule mergeVersionId_perm) simp
  then show ?thesis
    using assms sw by (simp add: classifyAndResolve_def same_content_def get_or_def Let_def)
qed

theorem same_content_unites_witness:
  "classifyAndResolve sample_dec ''f'' (Some ea) (Some (ea\<lparr> fe_headVersionId := Some ''b'' \<rparr>)) stateA stateB [] [] (Some same_heads) =
     Inr (WriteMerge ''f'' (fe_path ea) [65] [''a'', ''b'']) \<and>
   classifyAndResolve sample_dec ''f'' (Some (ea\<lparr> fe_headVersionId := Some ''b'' \<rparr>)) (Some ea) stateB stateA [] [] (Some same_heads) =
     Inr (WriteMerge ''f'' (fe_path ea) [65] [''b'', ''a'']) \<and>
   mergeVersionId (\<lambda>b. b) ''h1'' [''a'', ''b''] = mergeVersionId (\<lambda>b. b) ''h1'' [''b'', ''a'']"
  by (rule same_content_unites) code_simp+

text \<open>
  Concurrent renames of one file converge on the later one: the device with the earlier
  timestamp moves its file to the other path, the other device does nothing.
\<close>

theorem renames_converge:
  assumes "\<not> fe_deleted le" and "\<not> fe_deleted re" and "fe_contentHash le = fe_contentHash re"
    and "fe_path le \<noteq> fe_path re" and "fe_hlc le < fe_hlc re"
  shows "classifyAndResolve dec i (Some le) (Some re) local remote lp rp dag = Inr (MoveLocal i (fe_path le) (fe_path re)) \<and>
         classifyAndResolve dec i (Some re) (Some le) remote local rp lp dag = Inr (NoOp i)"
  using assms by (auto simp: classifyAndResolve_def same_content_def resolveRenameConflict_def)

theorem renames_converge_witness:
  "classifyAndResolve sample_dec ''f'' (Some ea) (Some (eb\<lparr> fe_contentHash := ''h1'', fe_path := ''m'' \<rparr>)) stateA stateB [] [] None =
     Inr (MoveLocal ''f'' (fe_path ea) (fe_path (eb\<lparr> fe_contentHash := ''h1'', fe_path := ''m'' \<rparr>))) \<and>
   classifyAndResolve sample_dec ''f'' (Some (eb\<lparr> fe_contentHash := ''h1'', fe_path := ''m'' \<rparr>)) (Some ea) stateB stateA [] [] None =
     Inr (NoOp ''f'')"
  by (rule renames_converge) code_simp+

text \<open>
  C2: Where both sides changed a live file, the merge overwrites the local file with anything
  but a merge of both versions only in these cases: the peer's head descends from ours and our
  content is that of our head, the file was two-headed and the peer resolved it, our content is
  that of the common base (binary files), it rewrites our own version, or our bytes were not
  staged at all.
\<close>

theorem overwrites_justified:
  assumes "both_modified le re"
    and "classifyAndResolve dec i (Some le) (Some re) local remote lp rp dag = Inr (WriteLocal f p c h v)"
  shows "(\<exists>g l r. known_heads dag le re = Some (g, l, r) \<and> isAncestor g l r \<and> contentHashOf g l = Some (fe_contentHash le)) \<or>
    (\<exists>ps g r. fe_conflictParents le = Some ps \<and> dag = Some g \<and> fe_headVersionId re = Some r \<and> isMergeNode g r \<and>
        set ps \<subseteq> {a. isAncestor g a r}) \<or>
    (\<exists>g l r b. known_heads dag le re = Some (g, l, r) \<and> mergeBase g l r = Base b \<and> contentHashOf g b = Some (fe_contentHash le)) \<or>
    store_get local (fe_contentHash le) = Some c \<or> store_get local (fe_contentHash le) = None \<or>
    (\<exists>b lc rc r. store_get local (fe_contentHash le) = Some lc \<and> store_get remote (fe_contentHash re) = Some rc \<and>
        threeWayMerge b (dec lc) (dec rc) = Inr r \<and> \<not> tw_hasConflicts r \<and> c = utf8_encode (joinWith [LF] (tw_merged r)))"
proof (cases "not_two_headed le")
  case False
  then obtain ps where ps: "fe_conflictParents le = Some ps" "length ps \<ge> 2"
    by (auto simp: not_two_headed_def split: option.splits)
  then have "hold_two_headed i ps re local remote dag = WriteLocal f p c h v"
    using assms by (simp add: classify_both resolveContentConflict_def)
  then show ?thesis using ps by (auto simp: hold_two_headed_def list_all_iff split: option.splits if_splits)
next
  case True
  note res = assms(2) [unfolded classify_both [OF assms(1)] resolve_single_headed [OF True]]
  show ?thesis
  proof (cases "fast_forward i le re local remote dag")
    case (Some a)
    then show ?thesis using res by (auto simp: fast_forward_def Let_def split: option.splits if_splits)
  next
    case None
    show ?thesis
    proof (cases "\<exists>lc rc. store_get local (fe_contentHash le) = Some lc \<and> store_get remote (fe_contentHash re) = Some rc")
      case True
      then obtain lc rc where s: "store_get local (fe_contentHash le) = Some lc" "store_get remote (fe_contentHash re) = Some rc" by blast
      then have m: "merge_contents dec i le re local remote dag lc rc = Inr (WriteLocal f p c h v)" using res None by simp
      show ?thesis using m s
        by (auto simp: merge_contents_def resolveThreeWayBase_def Let_def
            split: if_splits option.splits sum.splits bool.splits MergeBaseResult.splits)
    next
      case False
      then show ?thesis using res None by (auto simp: defer_to_winner_def Let_def split: option.splits if_splits)
    qed
  qed
qed

theorem overwrites_justified_witness:
  "(\<exists>g l r. known_heads (Some diamond) er ea = Some (g, l, r) \<and> isAncestor g l r \<and> contentHashOf g l = Some (fe_contentHash er)) \<or>
    (\<exists>ps g r. fe_conflictParents er = Some ps \<and> Some diamond = Some g \<and> fe_headVersionId ea = Some r \<and> isMergeNode g r \<and>
        set ps \<subseteq> {a. isAncestor g a r}) \<or>
    (\<exists>g l r b. known_heads (Some diamond) er ea = Some (g, l, r) \<and> mergeBase g l r = Base b \<and>
        contentHashOf g b = Some (fe_contentHash er)) \<or>
    store_get stateB (fe_contentHash er) = Some [65] \<or> store_get stateB (fe_contentHash er) = None \<or>
    (\<exists>b lc rc r. store_get stateB (fe_contentHash er) = Some lc \<and> store_get stateA (fe_contentHash ea) = Some rc \<and>
        threeWayMerge b (sample_dec lc) (sample_dec rc) = Inr r \<and> \<not> tw_hasConflicts r \<and>
        [65] = utf8_encode (joinWith [LF] (tw_merged r)))"
  by (rule overwrites_justified [where i = "''f''" and lp = "[]" and rp = "[]" and f = "''f''" and p = "''n''"
        and h = "HLC 1 0 ''d''" and v = "Some ''a''"]) code_simp+

end
