(* ===== verification/Exclusion.thy ===== *)
theory Exclusion
  imports HlcString Types
begin

text \<open>
  The exclusion policy (\<open>src/core/exclusion-policy.ts\<close>) and the conflict inventory
  (\<open>src/core/conflict-inventory.ts\<close>).  A glob is compiled to the tokens of the anchored regular
  expression that \<open>globToRegExp\<close> builds, and the matcher backtracks over them.  The
  specification does not mention the tokens: \<open>glob_matches\<close> reads the characters of the pattern
  as the comments of the source do.  The compile cache changes no result and is left
  out.
\<close>

section \<open>Globs\<close>

datatype rx = AnyStar | SegStar | SegOne | Lit char

fun globToRegExp :: "string \<Rightarrow> rx list" where
  "globToRegExp [] = []"
| "globToRegExp (c # cs) =
     (if c = CHR ''*'' then
        (case cs of
           d # ds \<Rightarrow> if d = CHR ''*'' then AnyStar # globToRegExp ds else SegStar # globToRegExp cs
         | [] \<Rightarrow> SegStar # globToRegExp cs)
      else if c = CHR ''?'' then SegOne # globToRegExp cs
      else Lit c # globToRegExp cs)"

text \<open>In a regular expression a dot does not match a line terminator; \<open>[^/]\<close> does.\<close>

definition dot_char :: "char \<Rightarrow> bool" where
  "dot_char c = (c \<noteq> LF \<and> c \<noteq> CR)"

definition seg_char :: "char \<Rightarrow> bool" where
  "seg_char c = (c \<noteq> CHR ''/'')"

fun rx_test :: "rx list \<Rightarrow> string \<Rightarrow> bool" where
  "rx_test [] s = (s = [])"
| "rx_test (AnyStar # r) s =
     (rx_test r s \<or> (case s of [] \<Rightarrow> False | c # cs \<Rightarrow> dot_char c \<and> rx_test (AnyStar # r) cs))"
| "rx_test (SegStar # r) s =
     (rx_test r s \<or> (case s of [] \<Rightarrow> False | c # cs \<Rightarrow> seg_char c \<and> rx_test (SegStar # r) cs))"
| "rx_test (SegOne # r) s = (case s of [] \<Rightarrow> False | c # cs \<Rightarrow> seg_char c \<and> rx_test r cs)"
| "rx_test (Lit d # r) s = (case s of [] \<Rightarrow> False | c # cs \<Rightarrow> c = d \<and> rx_test r cs)"

section \<open>The policy\<close>

definition STATE_DIR :: string where "STATE_DIR = ''.opsblobs/''"
definition OWN_PLUGIN_DIR :: string where "OWN_PLUGIN_DIR = ''.obsidian/plugins/opsblobs/''"
definition WORKSPACE_FILES :: "string list" where
  "WORKSPACE_FILES = [''.obsidian/workspace.json'', ''.obsidian/workspace-mobile.json'']"
definition OBSIDIAN_DIR :: string where "OBSIDIAN_DIR = ''.obsidian/''"

definition isExcluded :: "string \<Rightarrow> SyncSettings \<Rightarrow> bool" where
  "isExcluded path settings =
     (if startsWith path STATE_DIR then True
      else if startsWith path OWN_PLUGIN_DIR then True
      else if path \<in> set WORKSPACE_FILES then True
      else if startsWith path OBSIDIAN_DIR \<and> \<not> st_syncObsidianConfig settings then True
      else list_ex (\<lambda>pattern. rx_test (globToRegExp pattern) path) (st_excludedPatterns settings))"

definition isTooLarge :: "nat \<Rightarrow> SyncSettings \<Rightarrow> bool" where
  "isTooLarge sizeBytes settings =
     (let maxMb = st_maxFileSizeMb settings
      in if maxMb = 0 then False else sizeBytes > maxMb * 1024 * 1024)"

section \<open>The conflict inventory\<close>

record ConflictHead =
  ch_versionId :: string
  ch_hlc :: "HLC option"

record ConflictListItem =
  ci_fileId :: string
  ci_path :: string
  ci_heads :: "ConflictHead list"

definition headProvenance :: "string \<Rightarrow> HLC option" where
  "headProvenance versionId = (case hlcFromString versionId of Inl _ \<Rightarrow> None | Inr h \<Rightarrow> Some h)"

definition conflict_item :: "FileEntry \<Rightarrow> ConflictListItem option" where
  "conflict_item entry =
     (case fe_conflictParents entry of
        None \<Rightarrow> None
      | Some parents \<Rightarrow>
          if length parents < 2 then None
          else Some \<lparr> ci_fileId = fe_id entry, ci_path = fe_path entry,
                      ci_heads = map (\<lambda>v. \<lparr> ch_versionId = v, ch_hlc = headProvenance v \<rparr>) parents \<rparr>)"

definition listTwoHeadedConflicts :: "FileEntry list \<Rightarrow> ConflictListItem list" where
  "listTwoHeadedConflicts entries = sort_key ci_path (List.map_filter conflict_item entries)"

section \<open>What a glob matches\<close>

text \<open>
  The meaning of a pattern, read off its characters from the left: a double star stands for any
  characters (of one line, as the dot of a regular expression does), a single star for any
  characters of a path segment, a question mark for one character of a segment, and every other
  character, a dot or a bracket included, for itself.
\<close>

inductive glob_matches :: "string \<Rightarrow> string \<Rightarrow> bool" where
  glob_end: "glob_matches [] []"
| glob_deep: "LF \<notin> set p \<Longrightarrow> CR \<notin> set p \<Longrightarrow> glob_matches r q \<Longrightarrow> glob_matches (''**'' @ r) (p @ q)"
| glob_segment: "CHR ''/'' \<notin> set p \<Longrightarrow> \<not> prefix ''*'' r \<Longrightarrow> glob_matches r q \<Longrightarrow> glob_matches (''*'' @ r) (p @ q)"
| glob_one: "c \<noteq> CHR ''/'' \<Longrightarrow> glob_matches r q \<Longrightarrow> glob_matches (''?'' @ r) (c # q)"
| glob_char: "c \<notin> set ''*?'' \<Longrightarrow> glob_matches r q \<Longrightarrow> glob_matches (c # r) (c # q)"

inductive_cases glob_NilE: "glob_matches [] q"
inductive_cases glob_ConsE: "glob_matches (c # r) q"

lemma glob_Nil_iff [simp]: "glob_matches [] q \<longleftrightarrow> q = []"
  by (auto elim: glob_NilE intro: glob_end)

lemma glob_deep_iff:
  "glob_matches (CHR ''*'' # CHR ''*'' # r) s \<longleftrightarrow> (\<exists>p q. s = p @ q \<and> list_all dot_char p \<and> glob_matches r q)"
proof
  assume "glob_matches (CHR ''*'' # CHR ''*'' # r) s"
  then show "\<exists>p q. s = p @ q \<and> list_all dot_char p \<and> glob_matches r q"
    by (cases rule: glob_ConsE) (force simp: list_all_iff dot_char_def)+
next
  assume "\<exists>p q. s = p @ q \<and> list_all dot_char p \<and> glob_matches r q"
  then obtain p q where "s = p @ q" "LF \<notin> set p" "CR \<notin> set p" "glob_matches r q"
    by (auto simp: list_all_iff dot_char_def)
  then show "glob_matches (CHR ''*'' # CHR ''*'' # r) s"
    using glob_deep [of p r q] by simp
qed

lemma glob_segment_iff:
  assumes "\<not> prefix ''*'' r"
  shows "glob_matches (CHR ''*'' # r) s \<longleftrightarrow> (\<exists>p q. s = p @ q \<and> list_all seg_char p \<and> glob_matches r q)"
proof
  assume "glob_matches (CHR ''*'' # r) s"
  then show "\<exists>p q. s = p @ q \<and> list_all seg_char p \<and> glob_matches r q"
    using assms by (cases rule: glob_ConsE) (force simp: list_all_iff seg_char_def)+
next
  assume "\<exists>p q. s = p @ q \<and> list_all seg_char p \<and> glob_matches r q"
  then obtain p q where "s = p @ q" "CHR ''/'' \<notin> set p" "glob_matches r q"
    by (auto simp: list_all_iff seg_char_def)
  then show "glob_matches (CHR ''*'' # r) s"
    using glob_segment [of p r q] assms by simp
qed

lemma glob_one_iff:
  "glob_matches (CHR ''?'' # r) s \<longleftrightarrow> (\<exists>c q. s = c # q \<and> seg_char c \<and> glob_matches r q)"
proof
  assume "glob_matches (CHR ''?'' # r) s"
  then show "\<exists>c q. s = c # q \<and> seg_char c \<and> glob_matches r q"
    unfolding seg_char_def by (cases rule: glob_ConsE) auto
next
  assume "\<exists>c q. s = c # q \<and> seg_char c \<and> glob_matches r q"
  then obtain c q where "s = c # q" "c \<noteq> CHR ''/''" "glob_matches r q" by (auto simp: seg_char_def)
  then show "glob_matches (CHR ''?'' # r) s" using glob_one [of c r q] by simp
qed

lemma glob_char_iff:
  "c \<noteq> CHR ''*'' \<Longrightarrow> c \<noteq> CHR ''?'' \<Longrightarrow>
   glob_matches (c # r) s \<longleftrightarrow> (\<exists>q. s = c # q \<and> glob_matches r q)"
  by (auto elim!: glob_ConsE intro!: glob_char)

lemma star_split:
  "(\<exists>p q. s = p @ q \<and> list_all P p \<and> Q q) \<longleftrightarrow>
     Q s \<or> (case s of [] \<Rightarrow> False | c # cs \<Rightarrow> P c \<and> (\<exists>p q. cs = p @ q \<and> list_all P p \<and> Q q))"
proof (cases s)
  case (Cons c cs)
  show ?thesis
  proof
    assume "\<exists>p q. s = p @ q \<and> list_all P p \<and> Q q"
    then obtain p q where "s = p @ q" "list_all P p" "Q q" by blast
    then show "Q s \<or> (case s of [] \<Rightarrow> False | c # cs \<Rightarrow> P c \<and> (\<exists>p q. cs = p @ q \<and> list_all P p \<and> Q q))"
      using Cons by (cases p) auto
  next
    assume "Q s \<or> (case s of [] \<Rightarrow> False | c # cs \<Rightarrow> P c \<and> (\<exists>p q. cs = p @ q \<and> list_all P p \<and> Q q))"
    then consider "Q s" | p q where "P c" "cs = p @ q" "list_all P p" "Q q" using Cons by auto
    then show "\<exists>p q. s = p @ q \<and> list_all P p \<and> Q q"
    proof cases
      case 1
      then have "s = [] @ s \<and> list_all P [] \<and> Q s" by simp
      then show ?thesis by blast
    next
      case (2 p q)
      then have "s = (c # p) @ q \<and> list_all P (c # p) \<and> Q q" using Cons by simp
      then show ?thesis by blast
    qed
  qed
qed auto

lemma rx_any: "rx_test (AnyStar # r) s \<longleftrightarrow> (\<exists>p q. s = p @ q \<and> list_all dot_char p \<and> rx_test r q)"
proof (induction s)
  case (Cons c s)
  show ?case
    by (subst star_split, subst rx_test.simps(2)) (simp only: list.case Cons.IH)
qed simp

lemma rx_seg: "rx_test (SegStar # r) s \<longleftrightarrow> (\<exists>p q. s = p @ q \<and> list_all seg_char p \<and> rx_test r q)"
proof (induction s)
  case (Cons c s)
  show ?case
    by (subst star_split, subst rx_test.simps(3)) (simp only: list.case Cons.IH)
qed simp

lemma rx_test_glob: "rx_test (globToRegExp pattern) path = glob_matches pattern path"
proof (induction pattern arbitrary: path rule: globToRegExp.induct)
  case (2 c cs)
  show ?case
  proof (cases "c = CHR ''*''")
    case True
    show ?thesis
    proof (cases "prefix ''*'' cs")
      case True
      then obtain ds where "cs = CHR ''*'' # ds" by (auto simp: prefix_def)
      then show ?thesis
        using 2(2) [of "CHR ''*''" ds] \<open>c = CHR ''*''\<close> by (simp add: rx_any glob_deep_iff del: rx_test.simps)
    next
      case False
      have "rx_test (globToRegExp cs) q = glob_matches cs q" for q
        using 2 False \<open>c = CHR ''*''\<close> by (cases cs) (auto simp: prefix_def)
      moreover have "globToRegExp (c # cs) = SegStar # globToRegExp cs"
        using False \<open>c = CHR ''*''\<close> by (cases cs) (auto simp: prefix_def)
      ultimately show ?thesis
        using False \<open>c = CHR ''*''\<close> by (simp add: rx_seg glob_segment_iff del: globToRegExp.simps rx_test.simps)
    qed
  next
    case False
    then show ?thesis
      using 2 by (cases path) (auto simp: glob_one_iff glob_char_iff)
  qed
qed simp

text \<open>
  C29: The policy as its comment states it: the plugin's metadata, its own directory with the
  cleartext secrets and the workspace files are excluded under every setting, the rest of the
  configuration directory exactly when it is not opted in, and otherwise a path is excluded
  exactly when some pattern of the user matches it, in the reading of patterns that
  \<open>glob_matches\<close> gives without the compiled expression: a double star crosses separators, a
  single star and a question mark do not, and every other character stands for itself.
\<close>

theorem exclusion_policy:
  "isExcluded (STATE_DIR @ p) s \<and> isExcluded (OWN_PLUGIN_DIR @ p) s \<and>
   set WORKSPACE_FILES \<subseteq> {q. isExcluded q s} \<and>
   {q. isExcluded q s} =
     {q. prefix STATE_DIR q} \<union> {q. prefix OWN_PLUGIN_DIR q} \<union> set WORKSPACE_FILES \<union>
     (if st_syncObsidianConfig s then {} else {q. prefix OBSIDIAN_DIR q}) \<union>
     (\<Union>pattern \<in> set (st_excludedPatterns s). {q. glob_matches pattern q})"
proof -
  have sw: "startsWith q p \<longleftrightarrow> prefix p q" for p q
    by (auto simp: startsWith_def prefix_def) (metis append_take_drop_id)
  have e: "isExcluded q s \<longleftrightarrow> prefix STATE_DIR q \<or> prefix OWN_PLUGIN_DIR q \<or> q \<in> set WORKSPACE_FILES \<or>
      (prefix OBSIDIAN_DIR q \<and> \<not> st_syncObsidianConfig s) \<or>
      (\<exists>pattern \<in> set (st_excludedPatterns s). glob_matches pattern q)" for q
    by (auto simp: isExcluded_def sw list_ex_iff rx_test_glob)
  show ?thesis by (auto simp: e)
qed

text \<open>
  The inventory lists exactly the entries with two or more open heads, sorted by path and
  in registry order among equal paths, and a head that is the id of an operation carries the
  timestamp the operation was issued at.
\<close>

theorem inventory_lists_two_headed:
  "sorted (map ci_path (listTwoHeadedConflicts es)) \<and>
   set (map ci_fileId (listTwoHeadedConflicts es)) =
     {fe_id e |e ps. e \<in> set es \<and> fe_conflictParents e = Some ps \<and> 2 \<le> length ps} \<and>
   filter (\<lambda>i. ci_path i = p) (listTwoHeadedConflicts es) = filter (\<lambda>i. ci_path i = p) (List.map_filter conflict_item es) \<and>
   headProvenance (hlcToString h) = Some h"
proof -
  have item: "conflict_item e = Some i \<Longrightarrow>
      ci_fileId i = fe_id e \<and> (\<exists>ps. fe_conflictParents e = Some ps \<and> 2 \<le> length ps)" for e i
    by (auto simp: conflict_item_def split: option.splits if_splits)
  have item': "fe_conflictParents e = Some ps \<Longrightarrow> 2 \<le> length ps \<Longrightarrow>
      \<exists>i. conflict_item e = Some i \<and> ci_fileId i = fe_id e" for e ps
    by (auto simp: conflict_item_def)
  have "set (map ci_fileId (listTwoHeadedConflicts es)) = ci_fileId ` {i. \<exists>e \<in> set es. conflict_item e = Some i}"
    by (induction es) (auto simp: listTwoHeadedConflicts_def map_filter_simps image_iff split: option.splits)
  also have "\<dots> = {fe_id e |e ps. e \<in> set es \<and> fe_conflictParents e = Some ps \<and> 2 \<le> length ps}"
    using item item' by (auto simp: image_iff) metis+
  finally show ?thesis
    by (simp add: listTwoHeadedConflicts_def headProvenance_def hlc_string_roundtrip sort_key_stable)
qed

end
