(* ===== verification/Json.thy ===== *)
theory Json
  imports Operations
begin

text \<open>
  \<open>JSON.stringify\<close> and \<open>JSON.parse\<close>, for what the sources persist with them: objects, arrays,
  strings, booleans, \<open>null\<close> and natural numbers (timestamps, counters, sizes).  The printer is
  that of \<open>JSON.stringify\<close> without indentation; the parser accepts the texts it prints and
  refuses everything else, so a text with whitespace between tokens, a sign or a fraction, which
  the sources never write, is refused here although \<open>JSON.parse\<close> reads it.  Three facts carry
  the journals: a printed value reads back, it holds no line feed, and a proper prefix of a
  printed object (what a torn append leaves) is refused.
\<close>

datatype json = JNull | JBool bool | JNum nat | JStr string | JArr "json list" | JObj "(string \<times> json) list"

section \<open>Printing\<close>

definition QUOTE :: char where "QUOTE = CHR 0x22"
definition BSLASH :: char where "BSLASH = CHR 0x5C"

definition esc_char :: "char \<Rightarrow> string" where
  "esc_char c =
     (let n = (of_char c :: nat)
      in if c = QUOTE then [BSLASH, QUOTE]
         else if c = BSLASH then [BSLASH, BSLASH]
         else if n = 8 then [BSLASH, CHR ''b'']
         else if n = 9 then [BSLASH, CHR ''t'']
         else if n = 10 then [BSLASH, CHR ''n'']
         else if n = 12 then [BSLASH, CHR ''f'']
         else if n = 13 then [BSLASH, CHR ''r'']
         else if n < 32 then BSLASH # CHR ''u'' # CHR ''0'' # CHR ''0'' # hex_digit (n div 16) # [hex_digit (n mod 16)]
         else [c])"

definition show_chars :: "string \<Rightarrow> string" where
  "show_chars s = concat (map esc_char s)"

definition show_string :: "string \<Rightarrow> string" where
  "show_string s = QUOTE # show_chars s @ [QUOTE]"

fun json_show :: "json \<Rightarrow> string" and show_elems :: "json list \<Rightarrow> string"
  and show_members :: "(string \<times> json) list \<Rightarrow> string" where
  "json_show JNull = ''null''"
| "json_show (JBool True) = ''true''"
| "json_show (JBool False) = ''false''"
| "json_show (JNum n) = show_nat n"
| "json_show (JStr s) = show_string s"
| "json_show (JArr vs) = ''['' @ show_elems vs @ '']''"
| "json_show (JObj ms) = ''{'' @ show_members ms @ ''}''"
| "show_elems [] = []"
| "show_elems [v] = json_show v"
| "show_elems (v # w # vs) = json_show v @ '','' @ show_elems (w # vs)"
| "show_members [] = []"
| "show_members [(k, v)] = show_string k @ '':'' @ json_show v"
| "show_members ((k, v) # m # ms) = show_string k @ '':'' @ json_show v @ '','' @ show_members (m # ms)"

section \<open>Parsing\<close>

definition is_hex :: "char \<Rightarrow> bool" where
  "is_hex c = (is_digit c \<or> (97 \<le> (of_char c :: nat) \<and> (of_char c :: nat) \<le> 102))"

definition hex_val :: "char \<Rightarrow> nat" where
  "hex_val c = (if is_digit c then digit_val c else of_char c - 87)"

text \<open>One escape after its backslash: the character and the rest.\<close>

fun unescape :: "string \<Rightarrow> (char \<times> string) option" where
  "unescape [] = None"
| "unescape (e # s) =
     (if e = QUOTE \<or> e = BSLASH \<or> e = CHR ''/'' then Some (e, s)
      else if e = CHR ''b'' then Some (char_of (8 :: nat), s)
      else if e = CHR ''t'' then Some (char_of (9 :: nat), s)
      else if e = CHR ''n'' then Some (char_of (10 :: nat), s)
      else if e = CHR ''f'' then Some (char_of (12 :: nat), s)
      else if e = CHR ''r'' then Some (char_of (13 :: nat), s)
      else if e = CHR ''u'' then
        (case s of
           a # b # c # d # s' \<Rightarrow>
             if a = CHR ''0'' \<and> b = CHR ''0'' \<and> is_hex c \<and> is_hex d
             then Some (char_of (16 * hex_val c + hex_val d), s') else None
         | _ \<Rightarrow> None)
      else None)"

lemma unescape_shorter: "unescape s = Some (c, r) \<Longrightarrow> length r < length s"
  by (cases s) (auto split: if_splits list.splits)

function parse_chars :: "string \<Rightarrow> (string \<times> string) option" where
  "parse_chars [] = None"
| "parse_chars (c # cs) =
     (if c = QUOTE then Some ([], cs)
      else if c = BSLASH then
        (case unescape cs of
           None \<Rightarrow> None
         | Some (d, r) \<Rightarrow> (case parse_chars r of None \<Rightarrow> None | Some (t, r') \<Rightarrow> Some (d # t, r')))
      else if (of_char c :: nat) < 32 then None
      else (case parse_chars cs of None \<Rightarrow> None | Some (t, r') \<Rightarrow> Some (c # t, r')))"
  by pat_completeness auto
termination
  by (relation "measure length") (auto dest: unescape_shorter)

definition parse_number :: "string \<Rightarrow> (json \<times> string) option" where
  "parse_number s =
     (let ds = takeWhile is_digit s
      in if ds = [] \<or> (length ds > 1 \<and> hd ds = CHR ''0'') then None
         else Some (JNum (digits_value ds), dropWhile is_digit s))"

definition literal :: "string \<Rightarrow> json \<Rightarrow> string \<Rightarrow> (json \<times> string) option" where
  "literal w v s = (if startsWith s w then Some (v, drop (length w) s) else None)"

definition parse_atom :: "string \<Rightarrow> (json \<times> string) option" where
  "parse_atom s =
     (case s of
        [] \<Rightarrow> None
      | c # _ \<Rightarrow>
          if c = CHR ''n'' then literal ''null'' JNull s
          else if c = CHR ''t'' then literal ''true'' (JBool True) s
          else if c = CHR ''f'' then literal ''false'' (JBool False) s
          else parse_number s)"

text \<open>The value, the elements up to the bracket, the members up to the brace.\<close>

fun parse_value :: "nat \<Rightarrow> string \<Rightarrow> (json \<times> string) option"
  and parse_elems :: "nat \<Rightarrow> string \<Rightarrow> (json list \<times> string) option"
  and parse_members :: "nat \<Rightarrow> string \<Rightarrow> ((string \<times> json) list \<times> string) option" where
  "parse_value 0 s = None"
| "parse_value (Suc n) [] = None"
| "parse_value (Suc n) (c # cs) =
     (if c = CHR ''{'' then
        (case cs of
           [] \<Rightarrow> None
         | d # ds \<Rightarrow>
             if d = CHR ''}'' then Some (JObj [], ds)
             else (case parse_members n cs of None \<Rightarrow> None | Some (ms, r) \<Rightarrow> Some (JObj ms, r)))
      else if c = CHR ''['' then
        (case cs of
           [] \<Rightarrow> None
         | d # ds \<Rightarrow>
             if d = CHR '']'' then Some (JArr [], ds)
             else (case parse_elems n cs of None \<Rightarrow> None | Some (vs, r) \<Rightarrow> Some (JArr vs, r)))
      else if c = QUOTE then
        (case parse_chars cs of None \<Rightarrow> None | Some (t, r) \<Rightarrow> Some (JStr t, r))
      else parse_atom (c # cs))"
| "parse_elems 0 s = None"
| "parse_elems (Suc n) s =
     (case parse_value n s of
        None \<Rightarrow> None
      | Some (v, []) \<Rightarrow> None
      | Some (v, c # r) \<Rightarrow>
          if c = CHR '']'' then Some ([v], r)
          else if c = CHR '','' then
            (case parse_elems n r of None \<Rightarrow> None | Some (vs, r') \<Rightarrow> Some (v # vs, r'))
          else None)"
| "parse_members 0 s = None"
| "parse_members (Suc n) [] = None"
| "parse_members (Suc n) (q # s) =
     (if q \<noteq> QUOTE then None
      else
        (case parse_chars s of
           None \<Rightarrow> None
         | Some (k, []) \<Rightarrow> None
         | Some (k, d # r) \<Rightarrow>
             if d \<noteq> CHR '':'' then None
             else
               (case parse_value n r of
                  None \<Rightarrow> None
                | Some (v, []) \<Rightarrow> None
                | Some (v, c # r) \<Rightarrow>
                    if c = CHR ''}'' then Some ([(k, v)], r)
                    else if c = CHR '','' then
                      (case parse_members n r of None \<Rightarrow> None | Some (ms, r') \<Rightarrow> Some ((k, v) # ms, r'))
                    else None)))"

definition json_parse :: "string \<Rightarrow> json option" where
  "json_parse s = (case parse_value (Suc (length s)) s of Some (v, []) \<Rightarrow> Some v | _ \<Rightarrow> None)"

section \<open>A printed value reads back\<close>

lemma char_consts [simp]:
  "QUOTE \<noteq> BSLASH" "BSLASH \<noteq> QUOTE"
  by (simp_all add: QUOTE_def BSLASH_def)

lemma hex_val_digit [simp]: "d < 16 \<Longrightarrow> is_hex (hex_digit d) \<and> hex_val (hex_digit d) = d"
  by (auto simp: is_hex_def hex_val_def hex_digit_def is_digit_def digit_val_def)

lemma char_of_code: "(of_char c :: nat) = n \<Longrightarrow> char_of n = c"
  by auto

lemma parse_show_char: "parse_chars (esc_char c @ s) = (case parse_chars s of None \<Rightarrow> None | Some (t, r) \<Rightarrow> Some (c # t, r))"
proof (cases "(of_char c :: nat) < 32")
  case True
  then have nq: "c \<noteq> QUOTE" "c \<noteq> BSLASH" by (auto simp: QUOTE_def BSLASH_def)
  have hx: "16 * (of_char c div 16) + of_char c mod 16 = (of_char c :: nat)" by simp
  show ?thesis using True nq hx
    by (simp add: esc_char_def Let_def char_of_code [of c] BSLASH_def QUOTE_def less_mult_imp_div_less
        split: option.splits)
next
  case False
  then show ?thesis
    by (auto simp: esc_char_def Let_def BSLASH_def QUOTE_def split: option.splits)
qed

lemma parse_show_chars: "parse_chars (show_chars s @ QUOTE # r) = Some (s, r)"
  by (induction s) (simp_all add: show_chars_def parse_show_char)

lemma show_nat_hd: "length (show_nat k) > 1 \<Longrightarrow> hd (show_nat k) \<noteq> CHR ''0''"
proof (induction k rule: show_nat.induct)
  case (1 n)
  show ?case
  proof (cases "n < 10")
    case True
    then show ?thesis using 1 by (simp add: show_nat.simps [of n])
  next
    case False
    have e: "hd (show_nat n) = hd (show_nat (n div 10))"
      using False by (simp add: show_nat.simps [of n])
    show ?thesis
    proof (cases "n div 10 < 10")
      case True
      then have "show_nat (n div 10) = [digit_char (n div 10)]" by (simp add: show_nat.simps [of "n div 10"])
      moreover have "digit_char (n div 10) \<noteq> digit_char 0"
        using True False digit_char_inj [of "n div 10" 0] by simp
      ultimately show ?thesis using e by (simp add: digit_char_0)
    next
      case big: False
      then have "length (show_nat (n div 10)) > 1"
        using length_show_nat_pos by (simp add: show_nat.simps [of "n div 10"])
      then show ?thesis using 1 False e by simp
    qed
  qed
qed

definition no_digit :: "string \<Rightarrow> bool" where
  "no_digit s = (case s of [] \<Rightarrow> True | c # _ \<Rightarrow> \<not> is_digit c)"

lemma no_digit_punct [simp]: "no_digit []" "no_digit (CHR '','' # s)" "no_digit (CHR '']'' # s)" "no_digit (CHR ''}'' # s)"
  by (simp_all add: no_digit_def is_digit_def)

lemma takeWhile_digits:
  assumes "\<forall>c \<in> set ds. is_digit c" and "no_digit r"
  shows "takeWhile is_digit (ds @ r) = ds" and "dropWhile is_digit (ds @ r) = r"
proof -
  have "takeWhile is_digit r = [] \<and> dropWhile is_digit r = r"
    using assms(2) by (cases r) (auto simp: no_digit_def)
  then show "takeWhile is_digit (ds @ r) = ds" "dropWhile is_digit (ds @ r) = r"
    using assms(1) by (simp_all add: takeWhile_append2 dropWhile_append2)
qed

lemma parse_show_nat: "no_digit r \<Longrightarrow> parse_number (show_nat k @ r) = Some (JNum k, r)"
  using takeWhile_digits [OF show_nat_digits, of r k] show_nat_hd [of k]
  by (auto simp: parse_number_def Let_def digits_value_show)

lemma show_nat_Cons:
  obtains c cs where "show_nat k = c # cs" and "is_digit c"
  using show_nat_digits [of k] by (cases "show_nat k") auto

lemma digit_ne [simp]:
  assumes "is_digit c"
  shows "c \<noteq> CHR ''{''" "c \<noteq> CHR ''[''" "c \<noteq> QUOTE" "c \<noteq> CHR ''n''" "c \<noteq> CHR ''t''" "c \<noteq> CHR ''f''" "c \<noteq> CHR '']''"
  using assms by (auto simp: is_digit_def QUOTE_def)

lemma json_show_Cons:
  obtains c cs where "json_show v = c # cs" and "c \<noteq> CHR '']''"
proof (cases v)
  case (JNum k)
  then show ?thesis using that by (metis digit_ne(7) json_show.simps(4) show_nat_Cons)
next
  case (JBool b)
  then show ?thesis using that by (cases b) auto
qed (use that in \<open>auto simp: show_string_def QUOTE_def\<close>)

lemma show_elems_Cons:
  assumes "vs \<noteq> []"
  obtains c cs where "show_elems vs = c # cs" and "c \<noteq> CHR '']''"
proof (cases vs)
  case (Cons v ws)
  obtain c cs where v: "json_show v = c # cs" "c \<noteq> CHR '']''" by (rule json_show_Cons)
  then show ?thesis using Cons that by (cases ws) auto
qed (use assms in simp)

lemma show_members_Cons:
  assumes "ms \<noteq> []"
  obtains cs where "show_members ms = QUOTE # cs"
  using assms that by (cases "ms" rule: list.exhaust [case_product prod.exhaust [of "hd ms"] list.exhaust [of "tl ms"]])
    (auto simp: show_string_def)

lemma parse_show:
  "length (json_show v) \<le> n \<Longrightarrow> no_digit r \<Longrightarrow> parse_value n (json_show v @ r) = Some (v, r)"
  "vs \<noteq> [] \<Longrightarrow> length (show_elems vs) < n \<Longrightarrow> parse_elems n (show_elems vs @ CHR '']'' # r) = Some (vs, r)"
  "ms \<noteq> [] \<Longrightarrow> length (show_members ms) < n \<Longrightarrow> parse_members n (show_members ms @ CHR ''}'' # r) = Some (ms, r)"
proof (induction v and vs and ms arbitrary: n r and n r and n r
    rule: json_show_show_elems_show_members.induct)
  case 1
  then show ?case by (cases n) (simp_all add: parse_atom_def literal_def startsWith_def QUOTE_def)
next
  case 2
  then show ?case by (cases n) (simp_all add: parse_atom_def literal_def startsWith_def QUOTE_def)
next
  case 3
  then show ?case by (cases n) (simp_all add: parse_atom_def literal_def startsWith_def QUOTE_def)
next
  case (4 k)
  obtain c cs where c: "show_nat k = c # cs" "is_digit c" by (rule show_nat_Cons)
  with 4 parse_show_nat [OF 4(2), of k] show ?case by (cases n) (simp_all add: parse_atom_def)
next
  case (5 s)
  then show ?case by (cases n) (simp_all add: show_string_def QUOTE_def [symmetric] parse_show_chars, simp add: QUOTE_def)
next
  case (6 vs)
  from 6(2) obtain m where m: "n = Suc m" by (cases n) auto
  show ?case
  proof (cases "vs = []")
    case True
    then show ?thesis using m by simp
  next
    case False
    obtain c cs where c: "show_elems vs = c # cs" "c \<noteq> CHR '']''" using False by (rule show_elems_Cons)
    have "parse_elems m (show_elems vs @ CHR '']'' # r) = Some (vs, r)"
      using 6 False m by simp
    then show ?thesis using m c by simp
  qed
next
  case (7 ms)
  from 7(2) obtain m where m: "n = Suc m" by (cases n) auto
  show ?case
  proof (cases "ms = []")
    case True
    then show ?thesis using m by simp
  next
    case False
    obtain cs where c: "show_members ms = QUOTE # cs" using False by (rule show_members_Cons)
    have "parse_members m (show_members ms @ CHR ''}'' # r) = Some (ms, r)"
      using 7 False m by simp
    moreover have "QUOTE \<noteq> CHR ''}''" by (simp add: QUOTE_def)
    ultimately show ?thesis using m c by simp
  qed
next
  case (9 v)
  from 9(3) obtain m where m: "n = Suc m" by (cases n) auto
  then show ?case using 9 by simp
next
  case (10 v w vs)
  from 10(4) obtain m where m: "n = Suc m" by (cases n) auto
  have "parse_value m (json_show v @ CHR '','' # show_elems (w # vs) @ CHR '']'' # r) =
      Some (v, CHR '','' # show_elems (w # vs) @ CHR '']'' # r)"
    using 10 m by simp
  moreover have "parse_elems m (show_elems (w # vs) @ CHR '']'' # r) = Some (w # vs, r)"
    using 10 m by simp
  ultimately show ?case using m by simp
next
  case (12 k v)
  from 12(3) obtain m where m: "n = Suc m" by (cases n) auto
  have "parse_value m (json_show v @ CHR ''}'' # r) = Some (v, CHR ''}'' # r)"
    using 12 m by (simp add: show_string_def)
  then show ?case using m by (simp add: show_string_def parse_show_chars)
next
  case (13 k v w ms)
  from 13(4) obtain m where m: "n = Suc m" by (cases n) auto
  have "parse_value m (json_show v @ CHR '','' # show_members (w # ms) @ CHR ''}'' # r) =
      Some (v, CHR '','' # show_members (w # ms) @ CHR ''}'' # r)"
    using 13 m by (simp add: show_string_def)
  moreover have "parse_members m (show_members (w # ms) @ CHR ''}'' # r) = Some (w # ms, r)"
    using 13 m by (simp add: show_string_def)
  ultimately show ?case using m by (simp add: show_string_def parse_show_chars)
qed simp_all

lemma json_roundtrip [simp]: "json_parse (json_show v) = Some v"
  using parse_show(1) [of v "Suc (length (json_show v))" "[]"] by (simp add: json_parse_def)

section \<open>A torn object is refused\<close>

lemma literal_append: "literal w v s = Some (x, r) \<Longrightarrow> literal w v (s @ t) = Some (x, r @ t)"
proof -
  assume "literal w v s = Some (x, r)"
  then have "take (length w) s = w" "v = x" "drop (length w) s = r"
    by (auto simp: literal_def startsWith_def split: if_splits)
  then have "s = w @ r" by (metis append_take_drop_id)
  then show ?thesis using \<open>v = x\<close> by (simp add: literal_def startsWith_def)
qed

lemma unescape_append: "unescape s = Some (c, r) \<Longrightarrow> unescape (s @ t) = Some (c, r @ t)"
  by (cases s) (auto split: if_splits list.splits)

lemma parse_chars_append: "parse_chars s = Some (x, r) \<Longrightarrow> parse_chars (s @ t) = Some (x, r @ t)"
proof (induction s arbitrary: x r rule: parse_chars.induct)
  case (2 c cs)
  show ?case
  proof (cases "c = BSLASH")
    case True
    with 2 obtain d r1 t1 where u: "unescape cs = Some (d, r1)" "parse_chars r1 = Some (t1, r)" "x = d # t1"
      by (auto split: option.splits)
    have "parse_chars (r1 @ t) = Some (t1, r @ t)" using 2(1) True u by simp
    then show ?thesis using True u unescape_append [OF u(1)] by simp
  next
    case False
    with 2 show ?thesis by (auto split: option.splits if_splits)
  qed
qed simp

lemma parse_number_append: "parse_number s = Some (x, r) \<Longrightarrow> r \<noteq> [] \<Longrightarrow> parse_number (s @ t) = Some (x, r @ t)"
proof -
  assume a: "parse_number s = Some (x, r)" "r \<noteq> []"
  then have r: "r = dropWhile is_digit s" by (auto simp: parse_number_def Let_def split: if_splits)
  then obtain c where "c \<in> set s" "\<not> is_digit c" using a(2) by (metis dropWhile_eq_Nil_conv)
  then have "takeWhile is_digit (s @ t) = takeWhile is_digit s" "dropWhile is_digit (s @ t) = dropWhile is_digit s @ t"
    by (simp_all add: takeWhile_append1 dropWhile_append1)
  then show ?thesis using a(1) by (auto simp: parse_number_def Let_def split: if_splits)
qed

definition extensible :: "json \<Rightarrow> string \<Rightarrow> bool" where
  "extensible v r = (r \<noteq> [] \<or> (case v of JNum _ \<Rightarrow> False | _ \<Rightarrow> True))"

lemma parse_atom_append:
  "parse_atom s = Some (v, r) \<Longrightarrow> extensible v r \<Longrightarrow> parse_atom (s @ t) = Some (v, r @ t)"
proof (cases s)
  case (Cons c cs)
  assume p: "parse_atom s = Some (v, r)" and e: "extensible v r"
  consider (n) "c = CHR ''n''" | (t) "c = CHR ''t''" | (f) "c = CHR ''f''"
    | (num) "c \<noteq> CHR ''n''" "c \<noteq> CHR ''t''" "c \<noteq> CHR ''f''" by blast
  then show ?thesis
  proof cases
    case num
    with p Cons have q: "parse_number s = Some (v, r)" by (simp add: parse_atom_def)
    then have "\<exists>k. v = JNum k" by (auto simp: parse_number_def Let_def split: if_splits)
    with e have "r \<noteq> []" by (auto simp: extensible_def)
    with parse_number_append [OF q this, of t] num Cons show ?thesis by (simp add: parse_atom_def)
  next
    case n
    with p Cons have "literal ''null'' JNull s = Some (v, r)" by (simp add: parse_atom_def)
    from literal_append [OF this, of t] n Cons show ?thesis by (simp add: parse_atom_def)
  next
    case t
    with p Cons have "literal ''true'' (JBool True) s = Some (v, r)" by (simp add: parse_atom_def)
    from literal_append [OF this, of t] t Cons show ?thesis by (simp add: parse_atom_def)
  next
    case f
    with p Cons have "literal ''false'' (JBool False) s = Some (v, r)" by (simp add: parse_atom_def)
    from literal_append [OF this, of t] f Cons show ?thesis by (simp add: parse_atom_def)
  qed
qed (simp add: parse_atom_def)

lemma parse_append:
  "parse_value n s = Some (v, r) \<Longrightarrow> extensible v r \<Longrightarrow> parse_value n (s @ t) = Some (v, r @ t)"
  "parse_elems n s = Some (vs, r) \<Longrightarrow> parse_elems n (s @ t) = Some (vs, r @ t)"
  "parse_members n s = Some (ms, r) \<Longrightarrow> parse_members n (s @ t) = Some (ms, r @ t)"
proof (induction n s and n s and n s arbitrary: v r and vs r and ms r
    rule: parse_value_parse_elems_parse_members.induct)
  case (3 n c cs)
  note IHm = "3.IH"(1) and IHe = "3.IH"(2) and pr = "3.prems"
  show ?case
  proof (cases "c = CHR ''{''")
    case True
    then obtain d ds where cs: "cs = d # ds" using pr(1) by (cases cs) auto
    show ?thesis
    proof (cases "d = CHR ''}''")
      case brace: True
      then show ?thesis using True cs pr(1) by simp
    next
      case False
      then obtain ms where m: "parse_members n cs = Some (ms, r)" "v = JObj ms"
        using pr(1) True cs by (auto split: option.splits)
      have "parse_members n (cs @ t) = Some (ms, r @ t)"
        by (rule IHm [OF True cs False m(1)])
      then show ?thesis using True False cs m by simp
    qed
  next
    case nobrace: False
    show ?thesis
    proof (cases "c = CHR ''[''")
      case True
      then obtain d ds where cs: "cs = d # ds" using pr(1) by (cases cs) auto
      show ?thesis
      proof (cases "d = CHR '']''")
        case brack: True
        then show ?thesis using True cs pr(1) by simp
      next
        case False
        then obtain vs where m: "parse_elems n cs = Some (vs, r)" "v = JArr vs"
          using pr(1) True cs by (auto split: option.splits)
        have "parse_elems n (cs @ t) = Some (vs, r @ t)"
          by (rule IHe [OF nobrace True cs False m(1)])
        then show ?thesis using True False cs m by simp
      qed
    next
      case False
      show ?thesis
      proof (cases "c = QUOTE")
        case True
        then obtain x where "parse_chars cs = Some (x, r)" "v = JStr x"
          using pr(1) nobrace False by (auto split: option.splits)
        then show ?thesis using True nobrace False parse_chars_append [of cs x r t] by simp
      next
        case noq: False
        show ?thesis using pr nobrace False noq parse_atom_append [of "c # cs" v r t] by simp
      qed
    qed
  qed
next
  case (5 n s)
  obtain v1 c r1 where p: "parse_value n s = Some (v1, c # r1)"
    using 5(3) by (auto split: option.splits list.splits)
  have "parse_value n (s @ t) = Some (v1, c # r1 @ t)" using 5(1) [OF p] by (simp add: extensible_def)
  then show ?case using 5 p by (auto split: option.splits if_splits)
next
  case (8 n q s)
  have q: "q = QUOTE" using 8(3) by (auto split: if_splits)
  obtain k d r1 where k: "parse_chars s = Some (k, d # r1)" using 8(3) q by (auto split: option.splits list.splits)
  have d: "d = CHR '':''" using 8(3) q k by (auto split: if_splits)
  obtain v1 c r2 where p: "parse_value n r1 = Some (v1, c # r2)"
    using 8(3) q k d by (auto split: option.splits list.splits)
  have "parse_value n (r1 @ t) = Some (v1, c # r2 @ t)" using 8(1) [OF _ k _ _ _ p] q d by (simp add: extensible_def)
  moreover have "parse_chars (s @ t) = Some (k, d # r1 @ t)" using parse_chars_append [OF k, of t] by simp
  ultimately show ?case using 8 q k d p by (auto split: option.splits if_splits)
qed simp_all

lemma parse_fuel:
  "parse_value n s = Some x \<Longrightarrow> n \<le> m \<Longrightarrow> parse_value m s = Some x"
  "parse_elems n s = Some y \<Longrightarrow> n \<le> m \<Longrightarrow> parse_elems m s = Some y"
  "parse_members n s = Some z \<Longrightarrow> n \<le> m \<Longrightarrow> parse_members m s = Some z"
proof (induction n s and n s and n s arbitrary: x m and y m and z m
    rule: parse_value_parse_elems_parse_members.induct)
  case (2 n)
  then show ?case by simp
next
  case (3 n c cs)
  note IHm = "3.IH"(1) and IHe = "3.IH"(2) and pr = "3.prems"
  obtain k where k: "m = Suc k" "n \<le> k" using pr(2) by (cases m) auto
  show ?case
  proof (cases "c = CHR ''{''")
    case True
    then obtain d ds where cs: "cs = d # ds" using pr(1) by (cases cs) auto
    show ?thesis
    proof (cases "d = CHR ''}''")
      case False
      then obtain y where y: "parse_members n cs = Some y"
        using pr(1) True cs by (auto split: option.splits)
      have "parse_members k cs = Some y" by (rule IHm [OF True cs False y k(2)])
      then show ?thesis using True False cs y k pr(1) by simp
    qed (use True cs pr(1) k in simp)
  next
    case nobrace: False
    show ?thesis
    proof (cases "c = CHR ''[''")
      case True
      then obtain d ds where cs: "cs = d # ds" using pr(1) by (cases cs) auto
      show ?thesis
      proof (cases "d = CHR '']''")
        case False
        then obtain y where y: "parse_elems n cs = Some y"
          using pr(1) True cs by (auto split: option.splits)
        have "parse_elems k cs = Some y" by (rule IHe [OF nobrace True cs False y k(2)])
        then show ?thesis using True False cs y k pr(1) by simp
      qed (use True cs pr(1) k in simp)
    qed (use nobrace pr(1) k in simp)
  qed
next
  case (5 n s)
  from 5(4) obtain k where k: "m = Suc k" "n \<le> k" by (cases m) auto
  obtain v1 c r1 where p: "parse_value n s = Some (v1, c # r1)"
    using 5(3) by (auto split: option.splits list.splits)
  then have p': "parse_value k s = Some (v1, c # r1)" by (rule 5(1) [OF _ k(2)])
  show ?case
  proof (cases "c = CHR '']''")
    case True
    then show ?thesis using 5(3) k p p' by simp
  next
    case False
    then obtain z where c: "c = CHR '',''" and z: "parse_elems n r1 = Some z"
      using 5(3) p by (auto split: if_splits option.splits)
    have "parse_elems k r1 = Some z" by (rule 5(2) [OF p _ _ False c z k(2)]) simp_all
    then show ?thesis using 5(3) k p p' c z by simp
  qed
next
  case (8 n q s)
  from 8(4) obtain j where j: "m = Suc j" "n \<le> j" by (cases m) auto
  have q: "q = QUOTE" using 8(3) by (auto split: if_splits)
  obtain k d r1 where k: "parse_chars s = Some (k, d # r1)" using 8(3) q by (auto split: option.splits list.splits)
  have d: "d = CHR '':''" using 8(3) q k by (auto split: if_splits)
  obtain v1 c r2 where p: "parse_value n r1 = Some (v1, c # r2)"
    using 8(3) q k d by (auto split: option.splits list.splits)
  have p': "parse_value j r1 = Some (v1, c # r2)" by (rule 8(1) [OF _ k _ _ _ p j(2)]) (simp_all add: q d)
  show ?case
  proof (cases "c = CHR ''}''")
    case True
    then show ?thesis using 8(3) j q k d p p' by simp
  next
    case False
    then obtain y where c: "c = CHR '',''" and y: "parse_members n r2 = Some y"
      using 8(3) q k d p by (auto split: if_splits option.splits)
    have "parse_members j r2 = Some y" by (rule 8(2) [OF _ k _ _ _ p _ _ False c y j(2)]) (simp_all add: q d)
    then show ?thesis using 8(3) j q k d p p' c y by simp
  qed
qed simp_all

lemma torn_object:
  assumes "json_show (JObj ms) = p @ q" and "q \<noteq> []"
  shows "json_parse p = None"
proof (rule ccontr)
  assume "json_parse p \<noteq> None"
  then obtain v where v: "parse_value (Suc (length p)) p = Some (v, [])"
    by (auto simp: json_parse_def split: option.splits list.splits)
  obtain cs where p: "p = CHR ''{'' # cs" using assms v by (cases p) auto
  have "\<exists>ms'. v = JObj ms'"
    using v by (auto simp: p split: list.splits if_splits option.splits)
  then have "extensible v []" by (auto simp: extensible_def)
  from parse_append(1) [OF v this, of q] have "parse_value (Suc (length p)) (p @ q) = Some (v, q)" by simp
  then have "parse_value (Suc (length (p @ q))) (p @ q) = Some (v, q)" by (rule parse_fuel) simp
  moreover have "parse_value (Suc (length (p @ q))) (p @ q) = Some (JObj ms, [])"
    using parse_show(1) [of "JObj ms" "Suc (length (p @ q))" "[]"] unfolding assms(1) by simp
  ultimately show False using assms(2) by simp
qed

section \<open>Printed text is one line\<close>

lemma hex_digit_plain: "d < 16 \<Longrightarrow> 32 \<le> (of_char (hex_digit d) :: nat)"
  by (auto simp: hex_digit_def)

lemma esc_char_plain: "c \<in> set (esc_char d) \<Longrightarrow> 32 \<le> (of_char c :: nat)"
proof (cases "(of_char d :: nat) < 32")
  case True
  then have "(of_char d :: nat) div 16 < 16" by auto
  moreover have "(of_char d :: nat) mod 16 < 16" by simp
  moreover assume "c \<in> set (esc_char d)"
  ultimately show ?thesis
    by (auto simp: esc_char_def Let_def BSLASH_def QUOTE_def hex_digit_plain split: if_splits)
qed (auto simp: esc_char_def Let_def BSLASH_def QUOTE_def split: if_splits)

lemma show_chars_plain: "c \<in> set (show_chars s) \<Longrightarrow> 32 \<le> (of_char c :: nat)"
  by (auto simp: show_chars_def esc_char_plain)

lemma show_nat_plain: "c \<in> set (show_nat k) \<Longrightarrow> 32 \<le> (of_char c :: nat)"
  using show_nat_digits [of k] by (auto simp: is_digit_def)

lemma json_show_plain:
  "c \<in> set (json_show v) \<Longrightarrow> 32 \<le> (of_char c :: nat)"
  "c \<in> set (show_elems vs) \<Longrightarrow> 32 \<le> (of_char c :: nat)"
  "c \<in> set (show_members ms) \<Longrightarrow> 32 \<le> (of_char c :: nat)"
  by (induction v and vs and ms rule: json_show_show_elems_show_members.induct)
    (auto simp: show_string_def QUOTE_def show_chars_plain show_nat_plain)

lemma json_show_no_LF [simp]: "LF \<notin> set (json_show v)"
  using json_show_plain(1) [of LF v] by (auto simp: LF_def)

lemma json_show_not_Nil [simp]: "json_show v \<noteq> []"
  by (metis json_show_Cons list.distinct(1))

text \<open>An object printed after the opening brace of another, torn one, does not parse.\<close>

lemma glued_object: "json_parse (CHR ''{'' # json_show (JObj ms)) = None"
proof -
  obtain x where x: "json_show (JObj ms) = CHR ''{'' # x" by simp
  have "json_parse (CHR ''{'' # CHR ''{'' # x) = None" by (simp add: json_parse_def QUOTE_def)
  then show ?thesis by (simp only: x)
qed

end
