(* ===== verification/Journal.thy ===== *)
theory Journal
  imports Json
begin

text \<open>
  The \<open>MetadataStore\<close> port (\<open>src/ports/metadata-store.ts\<close>, with the semantics of the
  map-backed store of the test helpers: a map from paths to texts in which directories are
  implicit), its live implementation with the temp-file write ceremony
  (\<open>src/network/obsidian-metadata-store.ts\<close>) step by step, and the line journals that the
  registry, the version graph, the operation log and the pack index keep in such a store.  A
  crash during an append leaves a prefix of the appended text; the locale of line codecs says
  what a reader then finds.
\<close>

section \<open>The store\<close>

text \<open>What a read of persisted data can throw.\<close>

datatype io_error = SyntaxErr | TypeErr | InvalidCharErr

type_synonym metadata = "(string, string) jsmap"

definition md_read :: "metadata \<Rightarrow> string \<Rightarrow> string option" where
  "md_read m p = jm_get m p"

definition md_write :: "string \<Rightarrow> string \<Rightarrow> metadata \<Rightarrow> metadata" where
  "md_write p d m = jm_set p d m"

definition md_append :: "string \<Rightarrow> string \<Rightarrow> metadata \<Rightarrow> metadata" where
  "md_append p d m = jm_set p ((case jm_get m p of None \<Rightarrow> [] | Some t \<Rightarrow> t) @ d) m"

definition md_remove :: "string \<Rightarrow> metadata \<Rightarrow> metadata" where
  "md_remove p m = jm_delete p m"

definition md_exists :: "metadata \<Rightarrow> string \<Rightarrow> bool" where
  "md_exists m p = (jm_has m p \<or> list_ex (\<lambda>q. startsWith q (p @ ''/'')) (jm_keys m))"

text \<open>The file paths directly under a directory.\<close>

definition md_list :: "metadata \<Rightarrow> string \<Rightarrow> string list" where
  "md_list m dir =
     filter (\<lambda>p. startsWith p (dir @ ''/'') \<and> CHR ''/'' \<notin> set (drop (length dir + 1) p)) (jm_keys m)"

lemma md_read_simps [simp]:
  "md_read (md_write p d m) q = (if q = p then Some d else md_read m q)"
  "md_read (md_remove p m) q = (if q = p then None else md_read m q)"
  "md_read (md_append p d m) q =
     (if q = p then Some ((case md_read m p of None \<Rightarrow> [] | Some t \<Rightarrow> t) @ d) else md_read m q)"
  by (simp_all add: md_read_def md_write_def md_remove_def md_append_def)

lemma md_exists_file: "md_read m p \<noteq> None \<Longrightarrow> md_exists m p"
  by (simp add: md_read_def md_exists_def jm_has_def)

section \<open>The live store: writing through a temporary file\<close>

text \<open>
  The adapter is a map from paths to texts as well.  \<open>write\<close> stages the text in a sibling file,
  removes the target and renames; \<open>read\<close> falls back to the sibling.  A process killed on the way
  has done a prefix of the steps, the last of them perhaps a torn write.
\<close>

datatype adapter_step = AWrite string string | ARemove string | ARename string string

fun adapter_run :: "adapter_step \<Rightarrow> metadata \<Rightarrow> metadata" where
  "adapter_run (AWrite p d) fs = jm_set p d fs"
| "adapter_run (ARemove p) fs = jm_delete p fs"
| "adapter_run (ARename p q) fs =
     (case jm_get fs p of None \<Rightarrow> fs | Some d \<Rightarrow> jm_set q d (jm_delete p fs))"

definition obs_tmp :: "string \<Rightarrow> string" where
  "obs_tmp p = p @ ''.tmp''"

definition obs_write_steps :: "metadata \<Rightarrow> string \<Rightarrow> string \<Rightarrow> adapter_step list" where
  "obs_write_steps fs p d =
     [AWrite (obs_tmp p) d] @ (if jm_has fs p then [ARemove p] else []) @ [ARename (obs_tmp p) p]"

definition obs_write :: "string \<Rightarrow> string \<Rightarrow> metadata \<Rightarrow> metadata" where
  "obs_write p d fs = fold adapter_run (obs_write_steps fs p d) fs"

definition obs_read :: "metadata \<Rightarrow> string \<Rightarrow> string option" where
  "obs_read fs p = (case jm_get fs p of Some t \<Rightarrow> Some t | None \<Rightarrow> jm_get fs (obs_tmp p))"

definition obs_remove :: "string \<Rightarrow> metadata \<Rightarrow> metadata" where
  "obs_remove p fs = jm_delete p fs"

text \<open>The states a killed \<open>write\<close> can leave.\<close>

definition obs_write_killed :: "metadata \<Rightarrow> string \<Rightarrow> string \<Rightarrow> nat \<Rightarrow> nat \<Rightarrow> metadata" where
  "obs_write_killed fs p d steps chars =
     (if steps = 0 then adapter_run (AWrite (obs_tmp p) (take chars d)) fs
      else fold adapter_run (take steps (obs_write_steps fs p d)) fs)"

lemma obs_tmp_neq [simp]: "obs_tmp p \<noteq> p" "p \<noteq> obs_tmp p"
  by (simp_all add: obs_tmp_def)

lemma obs_write_read: "obs_read (obs_write p d fs) q =
    (if q = p then Some d else if q = obs_tmp p then obs_read (jm_delete (obs_tmp p) fs) q
     else if obs_tmp q = p then (case jm_get fs q of Some t \<Rightarrow> Some t | None \<Rightarrow> Some d)
     else obs_read fs q)"
  by (auto simp: obs_read_def obs_write_def obs_write_steps_def obs_tmp_def jm_has_def split: option.splits)

text \<open>
  Overwriting an existing file is atomic: wherever the process is killed, the reader sees
  the old text or the new one, and a write that completes is read back.
\<close>

theorem obs_overwrite_atomic:
  assumes "jm_get fs p = Some old"
  shows "obs_read (obs_write_killed fs p d steps chars) p \<in> {Some old, Some d} \<and> obs_read (obs_write p d fs) p = Some d"
proof -
  have st: "obs_write_steps fs p d = [AWrite (obs_tmp p) d, ARemove p, ARename (obs_tmp p) p]"
    using assms by (simp add: obs_write_steps_def jm_has_def)
  consider "steps = 0" | "steps = 1" | "steps = 2" | "steps \<ge> 3" by linarith
  then have "obs_read (obs_write_killed fs p d steps chars) p \<in> {Some old, Some d}"
    by cases (use assms in \<open>auto simp: obs_write_killed_def st obs_read_def numeral_2_eq_2\<close>)
  then show ?thesis by (simp add: obs_write_read)
qed

theorem obs_overwrite_atomic_witness:
  "obs_read (obs_write_killed [(''p'', ''old'')] ''p'' ''new'' 2 9) ''p'' \<in> {Some ''old'', Some ''new''} \<and>
   obs_read (obs_write ''p'' ''new'' [(''p'', ''old'')]) ''p'' = Some ''new''"
  by (rule obs_overwrite_atomic) simp

text \<open>
  The fallback to the temporary file is not always safe: a first write that is killed while
  staging is read as a torn file, and after a write that was killed once its text was staged,
  removing the file makes that text appear in its place.
\<close>

theorem obs_fallback_surprises:
  "(if jm_get fs p = None then obs_read (obs_write_killed fs p d 0 k) p = Some (take k d) else True) \<and>
   obs_read (obs_remove p (obs_write_killed fs p d 1 k)) p = Some d"
  by (simp add: obs_write_killed_def obs_write_steps_def obs_read_def obs_remove_def)

section \<open>Journals of lines\<close>

definition journal_text :: "string list \<Rightarrow> string" where
  "journal_text ls = concat (map (\<lambda>l. l @ [LF]) ls)"

definition journal_lines :: "string \<Rightarrow> string list" where
  "journal_lines text = filter (\<lambda>l. l \<noteq> []) (splitOn LF text)"

lemma journal_text_simps [simp]:
  "journal_text [] = []" "journal_text (l # ls) = l @ LF # journal_text ls"
  "journal_text (ls @ ls') = journal_text ls @ journal_text ls'"
  by (simp_all add: journal_text_def)

lemma join_lines: "ls \<noteq> [] \<Longrightarrow> joinWith [LF] ls @ [LF] = journal_text ls"
proof (induction "[LF]" ls rule: joinWith.induct)
  case (3 p q ps)
  then show ?case by simp
qed simp_all

lemma split_journal: "\<forall>l \<in> set ls. LF \<notin> set l \<Longrightarrow> splitOn LF (journal_text ls @ s) = ls @ splitOn LF s"
  by (induction ls) (simp_all add: splitOn_append)

lemma journal_lines_text:
  "\<forall>l \<in> set ls. LF \<notin> set l \<and> l \<noteq> [] \<Longrightarrow> journal_lines (journal_text ls @ s) = ls @ journal_lines s"
  by (induction ls) (simp_all add: journal_lines_def splitOn_append)

lemma journal_lines_line: "LF \<notin> set s \<Longrightarrow> journal_lines s = (if s = [] then [] else [s])"
  by (simp add: journal_lines_def splitOn_free)

lemma journal_lines_Nil [simp]: "journal_lines [] = []"
  by (simp add: journal_lines_def)

text \<open>A prefix of a journal is some whole lines and a prefix of the next one.\<close>

lemma prefix_journal:
  assumes "prefix p (journal_text ls)"
  obtains (whole) "p = journal_text ls"
    | (part) k t where "k < length ls" and "p = journal_text (take k ls) @ t" and "prefix t (ls ! k)"
  using assms
proof (induction ls arbitrary: p thesis)
  case (Cons l ls)
  show ?case
  proof (cases "length p \<le> length l")
    case True
    then have "prefix p l"
      using Cons.prems(3) by (metis append_Cons journal_text_simps(2) prefix_length_prefix prefixI)
    then show ?thesis using Cons.prems(2) [of 0 p] by simp
  next
    case False
    then obtain r where r: "p = l @ LF # r" "prefix r (journal_text ls)"
      using Cons.prems(3) prefix_length_le [of p l] by (auto simp: prefix_append prefix_Cons)
    show ?thesis
    proof (rule Cons.IH [OF _ _ r(2)])
      assume "r = journal_text ls"
      then show ?thesis using Cons.prems(1) r by simp
    next
      fix k t
      assume "k < length ls" "r = journal_text (take k ls) @ t" "prefix t (ls ! k)"
      then show ?thesis using Cons.prems(2) [of "Suc k" t] r by simp
    qed
  qed
qed simp

text \<open>
  The contract of a line codec: what is written on a line reads back, and a line holds no line
  feed.  A codec is torn-safe when no proper prefix of a line reads as a record.
\<close>

locale line_codec =
  fixes enc :: "'r \<Rightarrow> string" and dec :: "string \<Rightarrow> 'r option" and ok :: "'r \<Rightarrow> bool"
  assumes dec_enc: "ok r \<Longrightarrow> dec (enc r) = Some r"
    and enc_line: "ok r \<Longrightarrow> LF \<notin> set (enc r)"
    and enc_not_Nil: "ok r \<Longrightarrow> enc r \<noteq> []"
begin

lemma lines_text:
  "\<forall>r \<in> set rs. ok r \<Longrightarrow> journal_lines (journal_text (map enc rs) @ s) = map enc rs @ journal_lines s"
  by (rule journal_lines_text) (auto simp: enc_line enc_not_Nil)

lemma records_text:
  assumes "\<forall>r \<in> set rs. ok r"
  shows "List.map_filter dec (journal_lines (journal_text (map enc rs) @ s)) = rs @ List.map_filter dec (journal_lines s)"
  unfolding lines_text [OF assms] using assms by (induction rs) (simp_all add: map_filter_simps dec_enc)

lemma records_written:
  "\<forall>r \<in> set rs. ok r \<Longrightarrow> List.map_filter dec (journal_lines (journal_text (map enc rs))) = rs"
  using records_text [of rs "[]"] by (simp add: map_filter_simps)

end

locale torn_codec = line_codec +
  assumes torn: "ok r \<Longrightarrow> enc r = p @ q \<Longrightarrow> q \<noteq> [] \<Longrightarrow> dec p = None"
begin

text \<open>After a torn append the reader finds the old records and a prefix of the new ones.\<close>

lemma records_torn:
  assumes "prefix p (journal_text (map enc qs))" and rs: "\<forall>r \<in> set rs. ok r" and qs: "\<forall>r \<in> set qs. ok r"
  shows "\<exists>k. List.map_filter dec (journal_lines (journal_text (map enc rs) @ p)) = rs @ take k qs"
  using assms(1)
proof (cases rule: prefix_journal)
  case whole
  then show ?thesis using records_text [OF rs] records_written [OF qs] by (metis take_all order_refl)
next
  case (part k t)
  then have k: "k < length qs" "prefix t (enc (qs ! k))" "p = journal_text (map enc (take k qs)) @ t"
    by (simp_all add: take_map)
  from k(2) obtain u where u: "enc (qs ! k) = t @ u" by (auto simp: prefix_def)
  have ok: "ok (qs ! k)" using qs k(1) by simp
  have t: "LF \<notin> set t" using u enc_line [OF ok] by auto
  have "List.map_filter dec (journal_lines t) = [] \<or> List.map_filter dec (journal_lines t) = [qs ! k]"
    using torn [OF ok u] u dec_enc [OF ok] by (cases "u = []") (auto simp: journal_lines_line t map_filter_simps)
  moreover have "List.map_filter dec (journal_lines (journal_text (map enc rs) @ p)) =
      rs @ take k qs @ List.map_filter dec (journal_lines t)"
  proof -
    have "\<forall>r \<in> set (take k qs). ok r" using qs by (meson in_set_takeD)
    then show ?thesis unfolding k(3) records_text [OF rs] by (simp only: records_text)
  qed
  moreover have "k < length qs" using k(1) by simp
  ultimately show ?thesis by (metis append_Nil2 take_Suc_conv_app_nth)
qed

end

end
