(* ===== verification/Registry.thy ===== *)
theory Registry
  imports Exclusion Journal VersionDag
begin

text \<open>
  The file identity registry, \<open>src/core/file-registry.ts\<close>: the map of entries, the path index, the
  set of dirty ids, the journal accounting and the registry's two files in the metadata store, as
  one record.  Asynchronous methods are state transformers (the store's calls do not fail);
  a non-null assertion on a missing entry is \<open>TypeErr\<close> and an unreadable snapshot \<open>SyntaxErr\<close>.
  A fresh UUID is an argument.  Directories are implicit in the store, so \<open>ensureDir\<close> has no
  effect, and the performance counters are left out.
\<close>

section \<open>Entries as JSON\<close>

definition jfield :: "json \<Rightarrow> string \<Rightarrow> json option" where
  "jfield v k = (case v of JObj ms \<Rightarrow> map_of (rev ms) k | _ \<Rightarrow> None)"

definition jstr :: "json \<Rightarrow> string \<Rightarrow> string option" where
  "jstr v k = (case jfield v k of Some (JStr s) \<Rightarrow> Some s | _ \<Rightarrow> None)"

definition jnum :: "json \<Rightarrow> string \<Rightarrow> nat option" where
  "jnum v k = (case jfield v k of Some (JNum n) \<Rightarrow> Some n | _ \<Rightarrow> None)"

definition jdefault :: "'a \<Rightarrow> 'a option \<Rightarrow> 'a" where
  "jdefault d x = (case x of None \<Rightarrow> d | Some y \<Rightarrow> y)"

definition as_str :: "json \<Rightarrow> string" where
  "as_str v = (case v of JStr s \<Rightarrow> s | _ \<Rightarrow> [])"

definition jnull_str :: "string option \<Rightarrow> json" where
  "jnull_str x = (case x of None \<Rightarrow> JNull | Some s \<Rightarrow> JStr s)"

definition opt_member :: "string \<Rightarrow> ('a \<Rightarrow> json) \<Rightarrow> 'a option \<Rightarrow> (string \<times> json) list" where
  "opt_member k f x = (case x of None \<Rightarrow> [] | Some y \<Rightarrow> [(k, f y)])"

definition hlc_json :: "HLC \<Rightarrow> json" where
  "hlc_json h = JObj [(''wallTime'', JNum (wallTime h)), (''counter'', JNum (counter h)), (''deviceId'', JStr (deviceId h))]"

definition hlc_of_json :: "json \<Rightarrow> HLC" where
  "hlc_of_json v = HLC (jdefault 0 (jnum v ''wallTime'')) (jdefault 0 (jnum v ''counter'')) (jdefault [] (jstr v ''deviceId''))"

text \<open>
  The members in the order \<open>registerFile\<close> creates them.  A \<open>null\<close> path or head is printed, an
  absent stat or conflict is not.
\<close>

definition entry_members :: "FileEntry \<Rightarrow> (string \<times> json) list" where
  "entry_members e =
     [(''id'', JStr (fe_id e)), (''path'', JStr (fe_path e)), (''contentHash'', JStr (fe_contentHash e)),
      (''hlcTimestamp'', hlc_json (fe_hlc e)), (''deleted'', JBool (fe_deleted e)),
      (''lastSyncedPath'', jnull_str (fe_lastSyncedPath e)), (''headVersionId'', jnull_str (fe_headVersionId e))] @
     opt_member ''mtime'' JNum (fe_mtime e) @ opt_member ''size'' JNum (fe_size e) @
     opt_member ''conflictParents'' (\<lambda>ps. JArr (map JStr ps)) (fe_conflictParents e)"

definition entry_json :: "FileEntry \<Rightarrow> json" where
  "entry_json e = JObj (entry_members e)"

definition entry_of_json :: "json \<Rightarrow> FileEntry" where
  "entry_of_json v =
     \<lparr> fe_id = jdefault [] (jstr v ''id''), fe_path = jdefault [] (jstr v ''path''),
       fe_contentHash = jdefault [] (jstr v ''contentHash''),
       fe_hlc = hlc_of_json (jdefault JNull (jfield v ''hlcTimestamp'')),
       fe_deleted = (jfield v ''deleted'' = Some (JBool True)),
       fe_lastSyncedPath = jstr v ''lastSyncedPath'', fe_headVersionId = jstr v ''headVersionId'',
       fe_conflictParents = (case jfield v ''conflictParents'' of Some (JArr ps) \<Rightarrow> Some (map as_str ps) | _ \<Rightarrow> None),
       fe_mtime = jnum v ''mtime'', fe_size = jnum v ''size'' \<rparr>"

definition del_json :: "string \<Rightarrow> json" where
  "del_json i = JObj [(''del'', JStr i)]"

section \<open>State and constants\<close>

definition REGISTRY_PATH :: string where "REGISTRY_PATH = ''.opsblobs/file-registry.json''"
definition REGISTRY_JOURNAL_PATH :: string where "REGISTRY_JOURNAL_PATH = ''.opsblobs/file-registry.journal''"
definition MIN_TOMBSTONE_RETENTION_MS :: nat where "MIN_TOMBSTONE_RETENTION_MS = 30 * 86400000"

record registry =
  rg_entries :: "(string, FileEntry) jsmap"
  rg_pathIndex :: "(string, string) jsmap"
  rg_deferSave :: bool
  rg_dirtyIds :: "string list"
  rg_journalBytes :: nat
  rg_journalRecords :: nat
  rg_snapshotBytes :: nat
  rg_metadata :: metadata

definition new_registry :: "metadata \<Rightarrow> registry" where
  "new_registry m = \<lparr> rg_entries = [], rg_pathIndex = [], rg_deferSave = False, rg_dirtyIds = [],
     rg_journalBytes = 0, rg_journalRecords = 0, rg_snapshotBytes = 0, rg_metadata = m \<rparr>"

text \<open>The inputs of tombstone reclaim: the wall clock and the ids that pending operations pin.\<close>

type_synonym tombstone_reclaim = "nat \<times> string list"

section \<open>Persistence\<close>

definition snapshot_json :: "(string, FileEntry) jsmap \<Rightarrow> json" where
  "snapshot_json es =
     JObj [(''version'', JNum 1), (''entries'', JArr (map (\<lambda>(i, e). JArr [JStr i, entry_json e]) es))]"

definition journal_line :: "(string, FileEntry) jsmap \<Rightarrow> string \<Rightarrow> string" where
  "journal_line es i = json_show (case jm_get es i of Some e \<Rightarrow> entry_json e | None \<Rightarrow> del_json i)"

definition shouldCompact :: "registry \<Rightarrow> bool" where
  "shouldCompact r =
     (rg_journalBytes r > rg_snapshotBytes r \<or>
      rg_journalRecords r > max 1000 (2 * length (rg_entries r)))"

definition tombstoneRetentionMs :: "SyncSettings \<Rightarrow> nat" where
  "tombstoneRetentionMs settings =
     (let configured = (case st_ancestorRetentionDays settings of Some days \<Rightarrow> days * 86400000 | None \<Rightarrow> 0)
      in max configured MIN_TOMBSTONE_RETENTION_MS)"

definition reclaimable :: "int \<Rightarrow> string list \<Rightarrow> string \<Rightarrow> FileEntry \<Rightarrow> bool" where
  "reclaimable horizon pinned i e =
     (fe_deleted e \<and> fe_conflictParents e = None \<and> i \<notin> set pinned \<and> \<not> int (wallTime (fe_hlc e)) > horizon)"

definition reclaim_step :: "int \<Rightarrow> string list \<Rightarrow> string \<times> FileEntry \<Rightarrow> registry \<times> nat \<Rightarrow> registry \<times> nat" where
  "reclaim_step horizon pinned = (\<lambda>(i, e) (r, dropped).
     if reclaimable horizon pinned i e then
       (r\<lparr> rg_entries := jm_delete i (rg_entries r),
           rg_pathIndex := (if jm_get (rg_pathIndex r) (fe_path e) = Some i
                            then jm_delete (fe_path e) (rg_pathIndex r) else rg_pathIndex r) \<rparr>, dropped + 1)
     else (r, dropped))"

definition reclaimTombstones :: "SyncSettings \<Rightarrow> tombstone_reclaim \<Rightarrow> registry \<Rightarrow> registry \<times> nat" where
  "reclaimTombstones settings = (\<lambda>(now, pinned) r.
     fold (reclaim_step (int now - int (tombstoneRetentionMs settings)) pinned) (rg_entries r) (r, 0))"

text \<open>The two writes of a compaction, the snapshot first.\<close>

definition compact_writes :: "(string, FileEntry) jsmap \<Rightarrow> (metadata \<Rightarrow> metadata) list" where
  "compact_writes es =
     [md_write REGISTRY_PATH (json_show (snapshot_json es)), md_write REGISTRY_JOURNAL_PATH []]"

definition reg_compact :: "SyncSettings \<Rightarrow> tombstone_reclaim option \<Rightarrow> registry \<Rightarrow> registry" where
  "reg_compact settings reclaim r =
     (case (case reclaim of Some rc \<Rightarrow> reclaimTombstones settings rc r | None \<Rightarrow> (r, 0)) of
        (r, dropped) \<Rightarrow>
          if rg_journalRecords r = 0 \<and> dropped = 0 then r
          else
            r\<lparr> rg_metadata := fold (\<lambda>w m. w m) (compact_writes (rg_entries r)) (rg_metadata r),
               rg_snapshotBytes := length (json_show (snapshot_json (rg_entries r))),
               rg_journalBytes := 0, rg_journalRecords := 0, rg_dirtyIds := [] \<rparr>)"

definition flush_delta :: "registry \<Rightarrow> string" where
  "flush_delta r = journal_text (map (journal_line (rg_entries r)) (rg_dirtyIds r))"

definition reg_flush :: "SyncSettings \<Rightarrow> registry \<Rightarrow> registry" where
  "reg_flush settings r =
     (if rg_dirtyIds r = [] then r
      else
        (let delta = flush_delta r;
             r1 = r\<lparr> rg_metadata := md_append REGISTRY_JOURNAL_PATH delta (rg_metadata r),
                     rg_journalBytes := rg_journalBytes r + length delta,
                     rg_journalRecords := rg_journalRecords r + length (rg_dirtyIds r),
                     rg_dirtyIds := [] \<rparr>
         in if \<not> rg_deferSave r1 \<and> shouldCompact r1 then reg_compact settings None r1 else r1))"

definition reg_save :: "SyncSettings \<Rightarrow> string option \<Rightarrow> registry \<Rightarrow> registry" where
  "reg_save settings i r =
     (let r1 = (case i of Some i \<Rightarrow> r\<lparr> rg_dirtyIds := js_add i (rg_dirtyIds r) \<rparr> | None \<Rightarrow> r)
      in if rg_deferSave r1 then r1 else reg_flush settings r1)"

definition rebuildPathIndex :: "(string, FileEntry) jsmap \<Rightarrow> (string, string) jsmap" where
  "rebuildPathIndex es = fold (\<lambda>(i, e) idx. if fe_deleted e then idx else jm_set (fe_path e) i idx) es []"

text \<open>\<open>new Map(JSON.parse(raw).entries)\<close>; no \<open>entries\<close> is the empty map.\<close>

fun snapshot_pairs :: "json list \<Rightarrow> io_error + (string \<times> FileEntry) list" where
  "snapshot_pairs [] = Inr []"
| "snapshot_pairs (JArr [JStr i, v] # vs) =
     (case snapshot_pairs vs of Inl x \<Rightarrow> Inl x | Inr ps \<Rightarrow> Inr ((i, entry_of_json v) # ps))"
| "snapshot_pairs (_ # vs) = Inl TypeErr"

definition load_snapshot :: "string option \<Rightarrow> io_error + (string, FileEntry) jsmap" where
  "load_snapshot raw =
     (case raw of
        None \<Rightarrow> Inr []
      | Some text \<Rightarrow>
          if text = [] then Inr []
          else
            (case json_parse text of
               None \<Rightarrow> Inl SyntaxErr
             | Some v \<Rightarrow>
                 (case jfield v ''entries'' of
                    None \<Rightarrow> Inr []
                  | Some (JArr vs) \<Rightarrow>
                      (case snapshot_pairs vs of Inl x \<Rightarrow> Inl x | Inr ps \<Rightarrow> Inr (jm_of_list ps))
                  | Some _ \<Rightarrow> Inl TypeErr)))"

definition load_line :: "string \<Rightarrow> (string, FileEntry) jsmap \<times> nat \<Rightarrow> (string, FileEntry) jsmap \<times> nat" where
  "load_line line = (\<lambda>(es, records).
     if line = [] then (es, records)
     else
       (case json_parse line of
          None \<Rightarrow> (es, records)
        | Some v \<Rightarrow>
            (case jstr v ''del'' of
               Some d \<Rightarrow> jm_delete d es
             | None \<Rightarrow> (case jstr v ''id'' of Some i \<Rightarrow> jm_set i (entry_of_json v) es | None \<Rightarrow> es),
             records + 1)))"

definition load_journal :: "string option \<Rightarrow> (string, FileEntry) jsmap \<Rightarrow> (string, FileEntry) jsmap \<times> nat" where
  "load_journal jrnl es =
     (case jrnl of None \<Rightarrow> (es, 0) | Some text \<Rightarrow> fold load_line (splitOn LF text) (es, 0))"

definition opt_length :: "string option \<Rightarrow> nat" where
  "opt_length x = (case x of None \<Rightarrow> 0 | Some s \<Rightarrow> length s)"

definition maybeCompactOnLoad :: "SyncSettings \<Rightarrow> registry \<Rightarrow> registry" where
  "maybeCompactOnLoad settings r =
     (if rg_journalRecords r > 0 \<and> shouldCompact r then reg_compact settings None r else r)"

definition reg_load :: "SyncSettings \<Rightarrow> registry \<Rightarrow> io_error + registry" where
  "reg_load settings r =
     (let m = rg_metadata r; snapRaw = md_read m REGISTRY_PATH; jrnl = md_read m REGISTRY_JOURNAL_PATH
      in case load_snapshot snapRaw of
           Inl x \<Rightarrow> Inl x
         | Inr es \<Rightarrow>
             (case load_journal jrnl es of
                (es, records) \<Rightarrow>
                  Inr (maybeCompactOnLoad settings
                    (r\<lparr> rg_entries := es, rg_pathIndex := rebuildPathIndex es, rg_dirtyIds := [],
                        rg_snapshotBytes := opt_length snapRaw, rg_journalBytes := opt_length jrnl,
                        rg_journalRecords := records \<rparr>))))"

definition remove_existing :: "string \<Rightarrow> metadata \<Rightarrow> metadata" where
  "remove_existing p m = (if md_exists m p then md_remove p m else m)"

definition reg_resetAll :: "registry \<Rightarrow> registry" where
  "reg_resetAll r =
     r\<lparr> rg_entries := [], rg_pathIndex := [], rg_dirtyIds := [], rg_journalBytes := 0, rg_journalRecords := 0,
        rg_snapshotBytes := 0,
        rg_metadata := remove_existing REGISTRY_JOURNAL_PATH (remove_existing REGISTRY_PATH (rg_metadata r)) \<rparr>"

definition suspendSaves :: "registry \<Rightarrow> registry" where "suspendSaves r = r\<lparr> rg_deferSave := True \<rparr>"
definition resumeSaves :: "registry \<Rightarrow> registry" where "resumeSaves r = r\<lparr> rg_deferSave := False \<rparr>"

section \<open>Mutations\<close>

record file_stat =
  fs_mtime :: nat
  fs_size :: nat

definition with_stat :: "file_stat option \<Rightarrow> FileEntry \<Rightarrow> FileEntry" where
  "with_stat stat e =
     (case stat of None \<Rightarrow> e | Some st \<Rightarrow> e\<lparr> fe_mtime := Some (fs_mtime st), fe_size := Some (fs_size st) \<rparr>)"

definition put_entry :: "string \<Rightarrow> FileEntry \<Rightarrow> registry \<Rightarrow> registry" where
  "put_entry i e r = r\<lparr> rg_entries := jm_set i e (rg_entries r) \<rparr>"

definition set_index :: "string \<Rightarrow> string \<Rightarrow> registry \<Rightarrow> registry" where
  "set_index path i r = r\<lparr> rg_pathIndex := jm_set path i (rg_pathIndex r) \<rparr>"

definition drop_index :: "string \<Rightarrow> registry \<Rightarrow> registry" where
  "drop_index path r = r\<lparr> rg_pathIndex := jm_delete path (rg_pathIndex r) \<rparr>"

definition new_entry :: "string \<Rightarrow> string \<Rightarrow> string \<Rightarrow> HLC \<Rightarrow> FileEntry" where
  "new_entry i path contentHash hlc =
     \<lparr> fe_id = i, fe_path = path, fe_contentHash = contentHash, fe_hlc = hlc, fe_deleted = False,
       fe_lastSyncedPath = None, fe_headVersionId = None, fe_conflictParents = None,
       fe_mtime = None, fe_size = None \<rparr>"

text \<open>The id a path is tracked under; the empty string counts as none.\<close>

definition path_id :: "registry \<Rightarrow> string \<Rightarrow> string option" where
  "path_id r path = (case jm_get (rg_pathIndex r) path of Some i \<Rightarrow> if i = [] then None else Some i | None \<Rightarrow> None)"

definition registerFile ::
  "SyncSettings \<Rightarrow> string \<Rightarrow> string \<Rightarrow> HLC \<Rightarrow> string \<Rightarrow> file_stat option \<Rightarrow> registry \<Rightarrow> registry \<times> string" where
  "registerFile settings uuid path hlc contentHash stat r =
     (case path_id r path of
        Some existing \<Rightarrow>
          (case jm_get (rg_entries r) existing of
             Some entry \<Rightarrow>
               if fe_deleted entry then
                 (reg_save settings (Some existing)
                    (put_entry existing
                       (with_stat stat (entry\<lparr> fe_deleted := False, fe_contentHash := contentHash, fe_hlc := hlc \<rparr>)) r),
                  existing)
               else (r, existing)
           | None \<Rightarrow> (r, existing))
      | None \<Rightarrow>
          (reg_save settings (Some uuid)
             (set_index path uuid (put_entry uuid (with_stat stat (new_entry uuid path contentHash hlc)) r)), uuid))"

text \<open>The shape of the methods that update the entry at a path, when there is one.\<close>

definition update_at ::
  "SyncSettings \<Rightarrow> string \<Rightarrow> (FileEntry \<Rightarrow> FileEntry) \<Rightarrow> registry \<Rightarrow> io_error + registry" where
  "update_at settings path f r =
     (case path_id r path of
        None \<Rightarrow> Inr r
      | Some i \<Rightarrow>
          (case jm_get (rg_entries r) i of
             None \<Rightarrow> Inl TypeErr
           | Some e \<Rightarrow> Inr (reg_save settings (Some i) (put_entry i (f e) r))))"

definition updatePath :: "SyncSettings \<Rightarrow> string \<Rightarrow> string \<Rightarrow> HLC \<Rightarrow> registry \<Rightarrow> io_error + registry" where
  "updatePath settings oldPath newPath hlc r =
     (case path_id r oldPath of
        None \<Rightarrow> Inr r
      | Some i \<Rightarrow>
          (case jm_get (rg_entries r) i of
             None \<Rightarrow> Inl TypeErr
           | Some e \<Rightarrow>
               Inr (reg_save settings (Some i)
                 (put_entry i (e\<lparr> fe_path := newPath, fe_hlc := hlc \<rparr>)
                   (set_index newPath i (drop_index oldPath r))))))"

definition updateContentHash ::
  "SyncSettings \<Rightarrow> string \<Rightarrow> string \<Rightarrow> HLC \<Rightarrow> file_stat option \<Rightarrow> registry \<Rightarrow> io_error + registry" where
  "updateContentHash settings path contentHash hlc stat =
     update_at settings path (\<lambda>e. with_stat stat (e\<lparr> fe_contentHash := contentHash, fe_hlc := hlc \<rparr>))"

definition recordStat :: "SyncSettings \<Rightarrow> string \<Rightarrow> nat \<Rightarrow> nat \<Rightarrow> registry \<Rightarrow> io_error + registry" where
  "recordStat settings path mtime sz =
     update_at settings path (\<lambda>e. e\<lparr> fe_mtime := Some mtime, fe_size := Some sz \<rparr>)"

definition markDeleted :: "SyncSettings \<Rightarrow> string \<Rightarrow> HLC \<Rightarrow> registry \<Rightarrow> io_error + registry" where
  "markDeleted settings path hlc = update_at settings path (\<lambda>e. e\<lparr> fe_deleted := True, fe_hlc := hlc \<rparr>)"

definition markConflicted ::
  "SyncSettings \<Rightarrow> string \<Rightarrow> string \<Rightarrow> HLC \<Rightarrow> string list \<Rightarrow> registry \<Rightarrow> io_error + registry" where
  "markConflicted settings path contentHash hlc parents =
     update_at settings path
       (\<lambda>e. e\<lparr> fe_contentHash := contentHash, fe_hlc := hlc, fe_conflictParents := Some parents \<rparr>)"

definition applyRemoteEntry :: "SyncSettings \<Rightarrow> FileEntry \<Rightarrow> registry \<Rightarrow> registry" where
  "applyRemoteEntry settings entry r =
     (let i = fe_id entry; existing = jm_get (rg_entries r) i
      in case existing of
           Some ex \<Rightarrow>
             if hlcCompare (fe_hlc ex) (fe_hlc entry) \<ge> 0 then r
             else
               (let r1 = (if fe_path ex \<noteq> fe_path entry then drop_index (fe_path ex) r else r);
                    r2 = put_entry i entry r1
                in reg_save settings (Some i) (if fe_deleted entry then r2 else set_index (fe_path entry) i r2))
         | None \<Rightarrow>
             (let r2 = put_entry i entry r
              in reg_save settings (Some i) (if fe_deleted entry then r2 else set_index (fe_path entry) i r2)))"

definition adoptRemote ::
  "SyncSettings \<Rightarrow> string \<Rightarrow> string \<Rightarrow> string \<Rightarrow> HLC \<Rightarrow> string option \<Rightarrow> registry \<Rightarrow> registry" where
  "adoptRemote settings i path contentHash hlc headVersionId r =
     (let r1 = (case path_id r path of
                  Some ex \<Rightarrow>
                    if ex \<noteq> i then
                      r\<lparr> rg_entries := jm_delete ex (rg_entries r), rg_dirtyIds := js_add ex (rg_dirtyIds r) \<rparr>
                    else r
                | None \<Rightarrow> r);
          r2 = (case jm_get (rg_entries r1) i of
                  Some prev \<Rightarrow> if fe_path prev \<noteq> path then drop_index (fe_path prev) r1 else r1
                | None \<Rightarrow> r1);
          head = (case headVersionId of Some v \<Rightarrow> v | None \<Rightarrow> hlcToString hlc);
          entry = (new_entry i path contentHash hlc)\<lparr> fe_lastSyncedPath := Some path, fe_headVersionId := Some head \<rparr>
      in reg_save settings (Some i) (set_index path i (put_entry i entry r2)))"

text \<open>The shape of the methods that update an entry by id.\<close>

definition update_id :: "SyncSettings \<Rightarrow> string \<Rightarrow> (FileEntry \<Rightarrow> FileEntry) \<Rightarrow> registry \<Rightarrow> registry" where
  "update_id settings i f r =
     (case jm_get (rg_entries r) i of
        None \<Rightarrow> r
      | Some e \<Rightarrow> reg_save settings (Some i) (put_entry i (f e) r))"

definition setHeadVersion :: "SyncSettings \<Rightarrow> string \<Rightarrow> string \<Rightarrow> registry \<Rightarrow> registry" where
  "setHeadVersion settings i v = update_id settings i (\<lambda>e. e\<lparr> fe_headVersionId := Some v \<rparr>)"

definition setSyncedPath :: "SyncSettings \<Rightarrow> string \<Rightarrow> registry \<Rightarrow> registry" where
  "setSyncedPath settings i = update_id settings i (\<lambda>e. e\<lparr> fe_lastSyncedPath := Some (fe_path e) \<rparr>)"

definition clearConflict :: "SyncSettings \<Rightarrow> string \<Rightarrow> registry \<Rightarrow> registry" where
  "clearConflict settings i r =
     (case jm_get (rg_entries r) i of
        None \<Rightarrow> r
      | Some e \<Rightarrow>
          if fe_conflictParents e = None then r
          else reg_save settings (Some i) (put_entry i (e\<lparr> fe_conflictParents := None \<rparr>) r))"

section \<open>Reconciling with the vault\<close>

text \<open>
  Files on disk that no entry tracks get an id each, in listing order; \<open>uuid n\<close> is the n-th
  fresh id.
\<close>

fun reconcile_new :: "SyncSettings \<Rightarrow> HLC \<Rightarrow> (nat \<Rightarrow> string) \<Rightarrow> nat \<Rightarrow> string list \<Rightarrow> registry \<Rightarrow> registry" where
  "reconcile_new settings hlc uuid n [] r = r"
| "reconcile_new settings hlc uuid n (p # ps) r =
     (if \<not> jm_has (rg_pathIndex r) p \<and> \<not> isExcluded p settings then
        reconcile_new settings hlc uuid (n + 1) ps
          ((set_index p (uuid n) (put_entry (uuid n) (new_entry (uuid n) p [] hlc) r))
             \<lparr> rg_dirtyIds := js_add (uuid n) (rg_dirtyIds r) \<rparr>)
      else reconcile_new settings hlc uuid n ps r)"

definition reconcile_gone_step :: "HLC \<Rightarrow> string list \<Rightarrow> string \<times> FileEntry \<Rightarrow> registry \<Rightarrow> registry" where
  "reconcile_gone_step hlc paths = (\<lambda>(i, e) r.
     if \<not> fe_deleted e \<and> fe_path e \<notin> set paths then
       (put_entry i (e\<lparr> fe_deleted := True, fe_hlc := hlc \<rparr>) r)\<lparr> rg_dirtyIds := js_add i (rg_dirtyIds r) \<rparr>
     else r)"

definition reconcileWithVault :: "SyncSettings \<Rightarrow> HLC \<Rightarrow> (nat \<Rightarrow> string) \<Rightarrow> string list \<Rightarrow> registry \<Rightarrow> registry" where
  "reconcileWithVault settings hlc uuid paths r =
     (let r1 = reconcile_new settings hlc uuid 0 paths r
      in reg_save settings None (fold (reconcile_gone_step hlc paths) (rg_entries r1) r1))"

section \<open>Queries\<close>

definition getById :: "registry \<Rightarrow> string \<Rightarrow> FileEntry option" where
  "getById r i = jm_get (rg_entries r) i"

definition getByPath :: "registry \<Rightarrow> string \<Rightarrow> FileEntry option" where
  "getByPath r path = (case path_id r path of Some i \<Rightarrow> jm_get (rg_entries r) i | None \<Rightarrow> None)"

definition getActiveEntries :: "registry \<Rightarrow> FileEntry list" where
  "getActiveEntries r = filter (\<lambda>e. \<not> fe_deleted e) (jm_values (rg_entries r))"

definition keep_hashes ::
  "dag option \<Rightarrow> (string \<Rightarrow> bool) option \<Rightarrow> nat option \<Rightarrow> FileEntry \<Rightarrow> string list \<Rightarrow> string list" where
  "keep_hashes dag has maxDepth e keep =
     (if fe_deleted e then keep
      else
        (let keep1 = (if fe_contentHash e \<noteq> [] then js_add (fe_contentHash e) keep else keep)
         in case (dag, fe_headVersionId e) of
              (Some g, Some h) \<Rightarrow> if h \<noteq> [] then fold js_add (reachableContentHashes g h has maxDepth) keep1 else keep1
            | _ \<Rightarrow> keep1))"

definition referencedHashes ::
  "dag option \<Rightarrow> (string \<Rightarrow> bool) option \<Rightarrow> nat option \<Rightarrow> registry \<Rightarrow> string list" where
  "referencedHashes dag has maxDepth r = fold (keep_hashes dag has maxDepth) (jm_values (rg_entries r)) []"

definition entry_roots :: "FileEntry \<Rightarrow> string list \<Rightarrow> string list" where
  "entry_roots e roots =
     (let roots1 = (if truthy (fe_headVersionId e) then js_add (the (fe_headVersionId e)) roots else roots)
      in case fe_conflictParents e of
           None \<Rightarrow> roots1
         | Some ps \<Rightarrow> fold (\<lambda>p rs. if p \<noteq> [] then js_add p rs else rs) ps roots1)"

definition versionRoots :: "registry \<Rightarrow> string list" where
  "versionRoots r = fold entry_roots (jm_values (rg_entries r)) []"

end
