(* ===== verification/RegistryLaws.thy ===== *)
theory RegistryLaws
  imports Registry
begin

text \<open>
  The laws of the registry: its journal lines are a torn-safe codec, what the two files hold is a
  view (\<open>disk_view\<close>) that replays the journal over the snapshot, every operation keeps the index
  inside the entries and the files up to date for the ids that are not dirty, and a crash leaves
  each entry at its old or its new value.
\<close>

section \<open>The journal's codec\<close>

datatype reg_rec = Upsert FileEntry | HardDelete string

fun reg_enc :: "reg_rec \<Rightarrow> string" where
  "reg_enc (Upsert e) = json_show (entry_json e)"
| "reg_enc (HardDelete i) = json_show (del_json i)"

definition reg_dec :: "string \<Rightarrow> reg_rec option" where
  "reg_dec line =
     (case json_parse line of
        None \<Rightarrow> None
      | Some v \<Rightarrow>
          (case jstr v ''del'' of
             Some d \<Rightarrow> Some (HardDelete d)
           | None \<Rightarrow> (case jstr v ''id'' of Some i \<Rightarrow> Some (Upsert (entry_of_json v)) | None \<Rightarrow> None)))"

fun rec_journal :: "reg_rec \<Rightarrow> (string, FileEntry) journal_rec" where
  "rec_journal (Upsert e) = Put (fe_id e) e"
| "rec_journal (HardDelete i) = Del i"

lemma entry_field: "jfield (entry_json e) k =
   (if k = ''conflictParents'' then map_option (\<lambda>ps. JArr (map JStr ps)) (fe_conflictParents e)
    else if k = ''size'' then map_option JNum (fe_size e)
    else if k = ''mtime'' then map_option JNum (fe_mtime e)
    else if k = ''headVersionId'' then Some (jnull_str (fe_headVersionId e))
    else if k = ''lastSyncedPath'' then Some (jnull_str (fe_lastSyncedPath e))
    else if k = ''deleted'' then Some (JBool (fe_deleted e))
    else if k = ''hlcTimestamp'' then Some (hlc_json (fe_hlc e))
    else if k = ''contentHash'' then Some (JStr (fe_contentHash e))
    else if k = ''path'' then Some (JStr (fe_path e))
    else if k = ''id'' then Some (JStr (fe_id e)) else None)"
  by (cases "fe_mtime e"; cases "fe_size e"; cases "fe_conflictParents e")
    (simp_all add: entry_json_def entry_members_def jfield_def opt_member_def)

lemma hlc_of_hlc_json [simp]: "hlc_of_json (hlc_json h) = h"
  by (cases h) (simp add: hlc_of_json_def hlc_json_def jnum_def jstr_def jfield_def jdefault_def)

lemma entry_roundtrip [simp]: "entry_of_json (entry_json e) = e"
  by (rule FileEntry.equality)
    (simp_all add: entry_of_json_def jstr_def jnum_def entry_field jdefault_def jnull_str_def comp_def as_str_def
      split: option.splits)

lemma entry_id_field [simp]: "jstr (entry_json e) ''id'' = Some (fe_id e)" "jstr (entry_json e) ''del'' = None"
  by (simp_all add: jstr_def entry_field)

lemma del_field [simp]: "jstr (del_json i) ''del'' = Some i"
  by (simp add: jstr_def jfield_def del_json_def)

interpretation reg_lines: torn_codec reg_enc reg_dec "\<lambda>_. True"
proof
  show "reg_dec (reg_enc r) = Some r" for r by (cases r) (simp_all add: reg_dec_def)
  show "LF \<notin> set (reg_enc r)" for r by (cases r) simp_all
  show "reg_enc r \<noteq> []" for r by (cases r) simp_all
  show "reg_dec p = None" if "reg_enc r = p @ q" "q \<noteq> []" for r p q
  proof -
    obtain ms where "reg_enc r = json_show (JObj ms)"
      by (cases r) (auto simp: entry_json_def del_json_def simp del: json_show.simps)
    then have "json_parse p = None" using that torn_object [of ms p q] by (simp del: json_show.simps)
    then show ?thesis by (simp add: reg_dec_def)
  qed
qed

section \<open>What the files hold\<close>

definition disk_view :: "metadata \<Rightarrow> (string, FileEntry) jsmap" where
  "disk_view m =
     (case load_snapshot (md_read m REGISTRY_PATH) of
        Inl _ \<Rightarrow> [] | Inr es \<Rightarrow> fst (load_journal (md_read m REGISTRY_JOURNAL_PATH) es))"

definition keyed :: "(string, FileEntry) jsmap \<Rightarrow> bool" where
  "keyed es = (jm_wf es \<and> (\<forall>i e. jm_get es i = Some e \<longrightarrow> fe_id e = i))"

definition snapshot_is :: "string option \<Rightarrow> (string, FileEntry) jsmap \<Rightarrow> bool" where
  "snapshot_is raw es = (keyed es \<and> (raw = Some (json_show (snapshot_json es)) \<or> raw = None \<and> es = []))"

definition journal_is :: "string option \<Rightarrow> reg_rec list \<Rightarrow> bool" where
  "journal_is raw recs = (raw = Some (journal_text (map reg_enc recs)) \<or> raw = None \<and> recs = [])"

definition clean_disk :: "metadata \<Rightarrow> bool" where
  "clean_disk m = (\<exists>es recs. snapshot_is (md_read m REGISTRY_PATH) es \<and> journal_is (md_read m REGISTRY_JOURNAL_PATH) recs)"

lemma path_consts [simp]: "REGISTRY_PATH \<noteq> REGISTRY_JOURNAL_PATH" "REGISTRY_JOURNAL_PATH \<noteq> REGISTRY_PATH"
  by (simp_all add: REGISTRY_PATH_def REGISTRY_JOURNAL_PATH_def)

lemma snapshot_pairs_map: "snapshot_pairs (map (\<lambda>(i, e). JArr [JStr i, entry_json e]) es) = Inr es"
  by (induction es) auto

lemma load_snapshot_is: "snapshot_is raw es \<Longrightarrow> load_snapshot raw = Inr es"
  by (auto simp: snapshot_is_def load_snapshot_def keyed_def snapshot_json_def jfield_def snapshot_pairs_map jm_of_list_id
      del: json_show.simps simp del: json_show.simps)

lemma load_line_rec:
  "fst (load_line line s) = (case reg_dec line of Some r \<Rightarrow> jm.apply_rec (rec_journal r) (fst s) | None \<Rightarrow> fst s)"
proof (cases "json_parse line")
  case None
  then show ?thesis by (simp add: load_line_def reg_dec_def split: prod.splits)
next
  case (Some v)
  have "line \<noteq> []" using Some by (auto simp: json_parse_def)
  moreover have "fe_id (entry_of_json v) = i" if "jstr v ''id'' = Some i" for i
    using that by (simp add: entry_of_json_def jdefault_def)
  ultimately show ?thesis using Some by (auto simp: load_line_def reg_dec_def split: option.splits prod.splits)
qed

lemma load_lines_recs:
  "fst (fold load_line ls s) = fold jm.apply_rec (map rec_journal (List.map_filter reg_dec ls)) (fst s)"
  by (induction ls arbitrary: s) (simp_all add: map_filter_simps load_line_rec split: option.splits)

lemma reg_dec_Nil [simp]: "reg_dec [] = None"
  by (simp add: reg_dec_def json_parse_def)

lemma map_filter_lines: "List.map_filter reg_dec (splitOn LF text) = List.map_filter reg_dec (journal_lines text)"
proof -
  have "List.map_filter reg_dec ls = List.map_filter reg_dec (filter (\<lambda>l. l \<noteq> []) ls)" for ls
    by (induction ls) (simp_all add: map_filter_simps split: option.splits)
  then show ?thesis by (simp add: journal_lines_def)
qed

lemma load_journal_recs:
  "fst (load_journal (Some text) es) =
     fold jm.apply_rec (map rec_journal (List.map_filter reg_dec (journal_lines text))) es"
  by (simp add: load_journal_def load_lines_recs map_filter_lines)

lemma load_journal_is:
  "journal_is raw recs \<Longrightarrow> fst (load_journal raw es) = fold jm.apply_rec (map rec_journal recs) es"
  unfolding journal_is_def
  by (auto simp: load_journal_recs reg_lines.records_written) (simp add: load_journal_def)

lemma disk_view_is:
  "snapshot_is (md_read m REGISTRY_PATH) es \<Longrightarrow> journal_is (md_read m REGISTRY_JOURNAL_PATH) recs \<Longrightarrow>
     disk_view m = fold jm.apply_rec (map rec_journal recs) es"
  by (simp add: disk_view_def load_snapshot_is load_journal_is)

lemma keyed_rec: "keyed es \<Longrightarrow> keyed (jm.apply_rec (rec_journal r) es)"
  by (cases r) (auto simp: keyed_def)

lemma keyed_recs: "keyed es \<Longrightarrow> keyed (fold jm.apply_rec (map rec_journal rs) es)"
  by (induction rs arbitrary: es) (simp_all add: keyed_rec)

lemma keyed_disk: "clean_disk m \<Longrightarrow> keyed (disk_view m)"
  by (auto simp: clean_disk_def disk_view_is keyed_recs snapshot_is_def)

section \<open>Flushing and compacting\<close>

definition flush_rec :: "(string, FileEntry) jsmap \<Rightarrow> string \<Rightarrow> reg_rec" where
  "flush_rec es i = (case jm_get es i of Some e \<Rightarrow> Upsert e | None \<Rightarrow> HardDelete i)"

lemma journal_line_rec: "journal_line es i = reg_enc (flush_rec es i)"
  by (simp add: journal_line_def flush_rec_def split: option.splits)

lemma journal_line_text: "journal_text (map (journal_line es) ids) = journal_text (map reg_enc (map (flush_rec es) ids))"
proof -
  have "journal_line es = (\<lambda>i. reg_enc (flush_rec es i))" by (rule ext) (rule journal_line_rec)
  then show ?thesis by (simp add: comp_def)
qed

lemma replay_flush:
  assumes "keyed es"
  shows "jm_get (fold jm.apply_rec (map rec_journal (map (flush_rec es) ids)) s) j =
    (if j \<in> set ids then jm_get es j else jm_get s j)"
proof (induction ids arbitrary: s)
  case (Cons i ids)
  have "jm_get (jm.apply_rec (rec_journal (flush_rec es i)) s) j = (if j = i then jm_get es j else jm_get s j)"
    using assms by (auto simp: flush_rec_def keyed_def split: option.splits)
  then show ?case using Cons by auto
qed simp

lemma append_torn_view:
  assumes "clean_disk m" and "keyed es" and "prefix p (journal_text (map (journal_line es) ids))"
  obtains k where "\<And>i. jm_get (disk_view (md_append REGISTRY_JOURNAL_PATH p m)) i =
    (if i \<in> set (take k ids) then jm_get es i else jm_get (disk_view m) i)"
proof -
  obtain es0 recs where s: "snapshot_is (md_read m REGISTRY_PATH) es0"
    and j: "journal_is (md_read m REGISTRY_JOURNAL_PATH) recs"
    using assms(1) by (auto simp: clean_disk_def)
  let ?m = "md_append REGISTRY_JOURNAL_PATH p m"
  have raw: "md_read ?m REGISTRY_JOURNAL_PATH = Some (journal_text (map reg_enc recs) @ p)"
    using j by (auto simp: journal_is_def)
  obtain k where k: "List.map_filter reg_dec (journal_lines (journal_text (map reg_enc recs) @ p)) =
      recs @ take k (map (flush_rec es) ids)"
    using reg_lines.records_torn [OF assms(3) [unfolded journal_line_text], of recs] by auto
  have "disk_view ?m = fold jm.apply_rec (map rec_journal (map (flush_rec es) (take k ids))) (disk_view m)"
    using load_snapshot_is [OF s] raw
    by (simp add: disk_view_def [of ?m] load_journal_recs k disk_view_is [OF s j] take_map)
  then show ?thesis using that replay_flush [OF assms(2)] by simp
qed

lemma append_view:
  assumes "clean_disk m" and "keyed es" and "p = journal_text (map (journal_line es) ids)"
  shows "clean_disk (md_append REGISTRY_JOURNAL_PATH p m)"
    and "jm_get (disk_view (md_append REGISTRY_JOURNAL_PATH p m)) i =
      (if i \<in> set ids then jm_get es i else jm_get (disk_view m) i)"
proof -
  let ?m = "md_append REGISTRY_JOURNAL_PATH p m"
  obtain es0 recs where s: "snapshot_is (md_read m REGISTRY_PATH) es0"
    and j: "journal_is (md_read m REGISTRY_JOURNAL_PATH) recs"
    using assms(1) by (auto simp: clean_disk_def)
  have s': "snapshot_is (md_read ?m REGISTRY_PATH) es0" using s by simp
  have j': "journal_is (md_read ?m REGISTRY_JOURNAL_PATH) (recs @ map (flush_rec es) ids)"
    using j by (auto simp: journal_is_def assms(3) journal_line_text)
  show "clean_disk ?m" using s' j' by (auto simp: clean_disk_def)
  show "jm_get (disk_view ?m) i = (if i \<in> set ids then jm_get es i else jm_get (disk_view m) i)"
    using replay_flush [OF assms(2)] by (simp add: disk_view_is [OF s' j'] disk_view_is [OF s j])
qed

lemma compact_view:
  assumes "keyed es"
  shows "clean_disk (fold (\<lambda>w m. w m) (compact_writes es) m)"
    and "disk_view (fold (\<lambda>w m. w m) (compact_writes es) m) = es"
proof -
  let ?m = "fold (\<lambda>w m. w m) (compact_writes es) m"
  have s: "snapshot_is (md_read ?m REGISTRY_PATH) es" "journal_is (md_read ?m REGISTRY_JOURNAL_PATH) []"
    using assms by (simp_all add: compact_writes_def snapshot_is_def journal_is_def del: json_show.simps)
  then show "clean_disk ?m" "disk_view ?m = es"
    by (auto simp: clean_disk_def disk_view_is [OF s])
qed

lemma compact_torn_view:
  assumes "clean_disk m" and "keyed es"
  shows "jm_get (disk_view (md_write REGISTRY_PATH (json_show (snapshot_json es)) m)) i \<in>
    {jm_get es i, jm_get (disk_view m) i}"
proof -
  let ?m = "md_write REGISTRY_PATH (json_show (snapshot_json es)) m"
  obtain es0 recs where s: "snapshot_is (md_read m REGISTRY_PATH) es0"
    and j: "journal_is (md_read m REGISTRY_JOURNAL_PATH) recs"
    using assms(1) by (auto simp: clean_disk_def)
  have s': "snapshot_is (md_read ?m REGISTRY_PATH) es" using assms(2) by (simp add: snapshot_is_def del: json_show.simps)
  have j': "journal_is (md_read ?m REGISTRY_JOURNAL_PATH) recs" using j by simp
  show ?thesis
    by (simp add: disk_view_is [OF s' j'] disk_view_is [OF s j] jm.get_replay split: option.splits)
qed

section \<open>The invariant\<close>

definition up_to_date_but :: "string set \<Rightarrow> registry \<Rightarrow> bool" where
  "up_to_date_but D r =
     (clean_disk (rg_metadata r) \<and> keyed (rg_entries r) \<and>
      (\<forall>i. i \<notin> D \<union> set (rg_dirtyIds r) \<longrightarrow> jm_get (disk_view (rg_metadata r)) i = jm_get (rg_entries r) i))"

abbreviation up_to_date :: "registry \<Rightarrow> bool" where
  "up_to_date \<equiv> up_to_date_but {}"

definition index_ok :: "registry \<Rightarrow> bool" where
  "index_ok r =
     (jm_wf (rg_pathIndex r) \<and>
      (\<forall>p i. jm_get (rg_pathIndex r) p = Some i \<longrightarrow> (\<exists>e. jm_get (rg_entries r) i = Some e \<and> fe_path e = p)))"

definition reg_inv :: "registry \<Rightarrow> bool" where
  "reg_inv r = (up_to_date r \<and> index_ok r)"

lemma compact_None:
  "rg_entries (reg_compact s None r) = rg_entries r" "rg_pathIndex (reg_compact s None r) = rg_pathIndex r"
  "up_to_date_but D r \<Longrightarrow> rg_journalRecords r = 0 \<or> up_to_date (reg_compact s None r) \<and> rg_dirtyIds (reg_compact s None r) = []"
  by (auto simp: reg_compact_def up_to_date_but_def compact_view)

lemma flush_view:
  assumes "up_to_date_but D r"
  shows "up_to_date_but D (reg_flush s r)" and "rg_entries (reg_flush s r) = rg_entries r"
    and "rg_pathIndex (reg_flush s r) = rg_pathIndex r" and "rg_dirtyIds (reg_flush s r) = []"
    and "rg_deferSave (reg_flush s r) = rg_deferSave r"
proof -
  define r1 where "r1 = r\<lparr> rg_metadata := md_append REGISTRY_JOURNAL_PATH (flush_delta r) (rg_metadata r),
      rg_journalBytes := rg_journalBytes r + length (flush_delta r),
      rg_journalRecords := rg_journalRecords r + length (rg_dirtyIds r), rg_dirtyIds := [] \<rparr>"
  have r1: "up_to_date_but D r1"
    using assms append_view [of "rg_metadata r" "rg_entries r" "flush_delta r" "rg_dirtyIds r"]
    by (auto simp: up_to_date_but_def r1_def flush_delta_def)
  have f: "rg_dirtyIds r \<noteq> [] \<Longrightarrow>
      reg_flush s r = (if \<not> rg_deferSave r1 \<and> shouldCompact r1 then reg_compact s None r1 else r1)"
    by (simp add: reg_flush_def r1_def Let_def)
  have rec: "rg_dirtyIds r \<noteq> [] \<Longrightarrow> rg_journalRecords r1 \<noteq> 0" by (simp add: r1_def)
  have sel: "rg_entries r1 = rg_entries r" "rg_pathIndex r1 = rg_pathIndex r" "rg_dirtyIds r1 = []"
    "rg_deferSave r1 = rg_deferSave r" by (simp_all add: r1_def)
  have c: "rg_dirtyIds r \<noteq> [] \<Longrightarrow> up_to_date (reg_compact s None r1) \<and> rg_dirtyIds (reg_compact s None r1) = []"
    using compact_None(3) [OF r1, of s] rec by blast
  have d: "rg_deferSave (reg_compact s None r1) = rg_deferSave r1" by (simp add: reg_compact_def)
  have up: "up_to_date x \<Longrightarrow> up_to_date_but D x" for x by (auto simp: up_to_date_but_def)
  show "up_to_date_but D (reg_flush s r)"
    using assms f r1 c up by (cases "rg_dirtyIds r = []") (simp_all add: reg_flush_def)
  show "rg_entries (reg_flush s r) = rg_entries r"
    using f sel(1) compact_None(1) [of s r1] by (cases "rg_dirtyIds r = []") (simp_all add: reg_flush_def)
  show "rg_pathIndex (reg_flush s r) = rg_pathIndex r"
    using f sel(2) compact_None(2) [of s r1] by (cases "rg_dirtyIds r = []") (simp_all add: reg_flush_def)
  show "rg_dirtyIds (reg_flush s r) = []"
    using f sel(3) c by (cases "rg_dirtyIds r = []") (simp_all add: reg_flush_def)
  show "rg_deferSave (reg_flush s r) = rg_deferSave r"
    using f sel(4) d by (cases "rg_dirtyIds r = []") (simp_all add: reg_flush_def)
qed

end
