(* ===== verification/RegistryProps.thy ===== *)
theory RegistryProps
  imports RegistryLaws VersionDagSweep
begin

text \<open>
  The registry as a state machine: one rule per public operation, with the freshness of a UUID as
  the only side condition.  Every reachable registry satisfies the invariant of
  \<open>RegistryLaws\<close>; durability, crash safety and the safety of tombstone reclaim follow from it.
\<close>

section \<open>Operations and the invariant\<close>

lemma save_simps [simp]:
  "rg_entries (reg_save s x r) = rg_entries r"
  "rg_pathIndex (reg_save s x r) = rg_pathIndex r"
  by (simp_all add: reg_save_def reg_flush_def reg_compact_def Let_def split: option.splits)

lemma registry_simps [simp]:
  "rg_entries (put_entry i e r) = jm_set i e (rg_entries r)" "rg_pathIndex (put_entry i e r) = rg_pathIndex r"
  "rg_entries (set_index p i r) = rg_entries r" "rg_pathIndex (set_index p i r) = jm_set p i (rg_pathIndex r)"
  "rg_entries (drop_index p r) = rg_entries r" "rg_pathIndex (drop_index p r) = jm_delete p (rg_pathIndex r)"
  "rg_metadata (put_entry i e r) = rg_metadata r" "rg_metadata (set_index p i r) = rg_metadata r"
  "rg_metadata (drop_index p r) = rg_metadata r" "rg_dirtyIds (put_entry i e r) = rg_dirtyIds r"
  "rg_dirtyIds (set_index p i r) = rg_dirtyIds r" "rg_dirtyIds (drop_index p r) = rg_dirtyIds r"
  by (simp_all add: put_entry_def set_index_def drop_index_def)

lemma index_ok_get:
  "index_ok r \<Longrightarrow> jm_get (rg_pathIndex r) p = Some i \<Longrightarrow> \<exists>e. jm_get (rg_entries r) i = Some e \<and> fe_path e = p"
  by (simp add: index_ok_def)

lemma index_ok_save [simp]: "index_ok (reg_save s x r) = index_ok r"
  by (simp add: index_ok_def)

lemma up_put: "up_to_date r \<Longrightarrow> fe_id e = i \<Longrightarrow> up_to_date_but {i} (put_entry i e r)"
  by (auto simp: up_to_date_but_def keyed_def)

lemma up_index [simp]:
  "up_to_date_but D (set_index p i r) = up_to_date_but D r" "up_to_date_but D (drop_index p r) = up_to_date_but D r"
  by (simp_all add: up_to_date_but_def)

lemma save_inv:
  assumes "up_to_date_but {i} r" and "index_ok r"
  shows "reg_inv (reg_save s (Some i) r)"
proof -
  have "up_to_date (r\<lparr> rg_dirtyIds := js_add i (rg_dirtyIds r) \<rparr>)"
    using assms(1) by (auto simp: up_to_date_but_def)
  then have "up_to_date (reg_save s (Some i) r)"
    using flush_view(1) by (auto simp: reg_save_def Let_def)
  then show ?thesis using assms(2) by (simp add: reg_inv_def)
qed

lemma save_None_inv: "reg_inv r \<Longrightarrow> reg_inv (reg_save s None r)"
  using flush_view(1) [of "{}" r s] by (auto simp: reg_inv_def reg_save_def Let_def simp flip: index_ok_save [of s None r])

lemma put_index_ok:
  assumes "index_ok r" and "\<And>p. jm_get (rg_pathIndex r) p = Some i \<Longrightarrow> fe_path e = p"
  shows "index_ok (put_entry i e r)"
  using assms by (auto simp: index_ok_def)

lemma set_index_ok: "index_ok r \<Longrightarrow> jm_get (rg_entries r) i = Some e \<Longrightarrow> fe_path e = p \<Longrightarrow> index_ok (set_index p i r)"
  by (auto simp: index_ok_def)

lemma drop_index_ok: "index_ok r \<Longrightarrow> index_ok (drop_index p r)"
  by (auto simp: index_ok_def)

lemma put_same_path_inv:
  assumes "reg_inv r" and "jm_get (rg_entries r) i = Some e" and "fe_id e' = fe_id e" and "fe_path e' = fe_path e"
  shows "reg_inv (reg_save s (Some i) (put_entry i e' r))"
proof (rule save_inv)
  have "fe_id e = i" using assms(1,2) by (auto simp: reg_inv_def up_to_date_but_def keyed_def)
  then show "up_to_date_but {i} (put_entry i e' r)" using assms(1,3) up_put by (auto simp: reg_inv_def)
  show "index_ok (put_entry i e' r)"
    using assms by (intro put_index_ok) (auto simp: reg_inv_def dest: index_ok_get)
qed

lemma update_at_inv:
  assumes "reg_inv r" and "\<And>e. fe_id (f e) = fe_id e \<and> fe_path (f e) = fe_path e"
  shows "\<exists>r'. update_at s p f r = Inr r' \<and> reg_inv r'"
proof (cases "path_id r p")
  case (Some i)
  then have "jm_get (rg_pathIndex r) p = Some i" by (auto simp: path_id_def split: option.splits if_splits)
  then obtain e where "jm_get (rg_entries r) i = Some e" using assms(1) by (auto simp: reg_inv_def index_ok_def)
  then show ?thesis using Some assms put_same_path_inv by (auto simp: update_at_def)
qed (use assms in \<open>simp add: update_at_def\<close>)

lemma update_id_inv:
  "reg_inv r \<Longrightarrow> (\<And>e. fe_id (f e) = fe_id e \<and> fe_path (f e) = fe_path e) \<Longrightarrow> reg_inv (update_id s i f r)"
  using put_same_path_inv by (auto simp: update_id_def split: option.splits)

lemma with_stat_simps [simp]: "fe_id (with_stat st e) = fe_id e" "fe_path (with_stat st e) = fe_path e"
  "fe_deleted (with_stat st e) = fe_deleted e" "fe_headVersionId (with_stat st e) = fe_headVersionId e"
  by (simp_all add: with_stat_def split: option.splits)

lemma new_entry_simps [simp]: "fe_id (new_entry i p c h) = i" "fe_path (new_entry i p c h) = p"
  "fe_deleted (new_entry i p c h) = False"
  by (simp_all add: new_entry_def)

lemma new_index_ok:
  assumes "index_ok r" and "jm_get (rg_entries r) i = None" and "fe_path e = p"
  shows "index_ok (set_index p i (put_entry i e r))"
  using assms by (fastforce simp: index_ok_def)

lemma register_inv:
  assumes "reg_inv r" and "jm_get (rg_entries r) uuid = None"
  shows "reg_inv (fst (registerFile s uuid p h c st r))"
proof (cases "path_id r p")
  case None
  have "reg_inv (reg_save s (Some uuid) (set_index p uuid (put_entry uuid (with_stat st (new_entry uuid p c h)) r)))"
    using assms by (intro save_inv) (simp_all add: reg_inv_def up_put new_index_ok)
  then show ?thesis using None by (simp add: registerFile_def)
next
  case (Some i)
  show ?thesis
  proof (cases "jm_get (rg_entries r) i")
    case (Some e)
    have "reg_inv (reg_save s (Some i) (put_entry i
        (with_stat st (e\<lparr> fe_deleted := False, fe_contentHash := c, fe_hlc := h \<rparr>)) r))"
      by (rule put_same_path_inv [OF assms(1) Some]) simp_all
    then show ?thesis using \<open>path_id r p = Some i\<close> Some assms(1) by (simp add: registerFile_def)
  qed (use \<open>path_id r p = Some i\<close> assms(1) in \<open>simp add: registerFile_def\<close>)
qed

lemma path_id_Some: "path_id r p = Some i \<Longrightarrow> jm_get (rg_pathIndex r) p = Some i"
  by (auto simp: path_id_def split: option.splits if_splits)

lemma updatePath_inv:
  assumes "reg_inv r"
  shows "\<exists>r'. updatePath s p q h r = Inr r' \<and> reg_inv r'"
proof (cases "path_id r p")
  case (Some i)
  note idx = path_id_Some [OF Some]
  obtain e where e: "jm_get (rg_entries r) i = Some e" "fe_path e = p"
    using assms idx by (auto simp: reg_inv_def index_ok_def)
  have "fe_id e = i" using assms e by (auto simp: reg_inv_def up_to_date_but_def keyed_def)
  then have "reg_inv (reg_save s (Some i) (put_entry i (e\<lparr> fe_path := q, fe_hlc := h \<rparr>) (set_index q i (drop_index p r))))"
  proof (intro save_inv up_put)
    have "index_ok (drop_index p r)" using assms by (simp add: reg_inv_def drop_index_ok)
    then have "index_ok (put_entry i (e\<lparr> fe_path := q, fe_hlc := h \<rparr>) (drop_index p r))"
      using assms e by (intro put_index_ok) (auto simp: reg_inv_def split: if_splits dest: index_ok_get)
    then have "index_ok (set_index q i (put_entry i (e\<lparr> fe_path := q, fe_hlc := h \<rparr>) (drop_index p r)))"
      by (simp add: set_index_ok)
    then show "index_ok (put_entry i (e\<lparr> fe_path := q, fe_hlc := h \<rparr>) (set_index q i (drop_index p r)))"
      by (simp add: index_ok_def)
  qed (use assms in \<open>simp_all add: reg_inv_def\<close>)
  then show ?thesis using Some e by (simp add: updatePath_def)
qed (use assms in \<open>simp add: updatePath_def\<close>)

lemma applyRemote_inv:
  assumes "reg_inv r"
  shows "reg_inv (applyRemoteEntry s e r)"
proof -
  let ?i = "fe_id e"
  have put: "reg_inv (reg_save s (Some ?i) (if fe_deleted e then put_entry ?i e q else set_index (fe_path e) ?i (put_entry ?i e q)))"
    if q: "up_to_date q" "index_ok q" "\<And>p. jm_get (rg_pathIndex q) p = Some ?i \<Longrightarrow> fe_path e = p" for q
  proof (rule save_inv)
    have "index_ok (put_entry ?i e q)" using q(2,3) by (rule put_index_ok)
    then show "index_ok (if fe_deleted e then put_entry ?i e q else set_index (fe_path e) ?i (put_entry ?i e q))"
      by (simp add: set_index_ok)
  qed (simp add: up_put q(1))
  have k: "up_to_date r" "index_ok r" using assms by (simp_all add: reg_inv_def)
  show ?thesis
  proof (cases "jm_get (rg_entries r) ?i")
    case None
    then have "jm_get (rg_pathIndex r) p \<noteq> Some ?i" for p using index_ok_get [OF k(2), of p ?i] by auto
    then have "reg_inv (reg_save s (Some ?i) (if fe_deleted e then put_entry ?i e r
        else set_index (fe_path e) ?i (put_entry ?i e r)))"
      using k by (intro put) simp_all
    then show ?thesis using None by (cases "fe_deleted e") (simp_all add: applyRemoteEntry_def Let_def)
  next
    case (Some ex)
    have p: "jm_get (rg_pathIndex r) p = Some ?i \<Longrightarrow> fe_path ex = p" for p
      using index_ok_get [OF k(2), of p ?i] Some by auto
    let ?q = "if fe_path ex \<noteq> fe_path e then drop_index (fe_path ex) r else r"
    have "jm_get (rg_pathIndex ?q) p = Some ?i \<Longrightarrow> fe_path e = p" for p
      using p [of p] by (auto split: if_splits)
    then have "reg_inv (reg_save s (Some ?i) (if fe_deleted e then put_entry ?i e ?q
        else set_index (fe_path e) ?i (put_entry ?i e ?q)))"
      using k by (intro put) (simp_all add: drop_index_ok)
    then show ?thesis using Some assms by (cases "fe_deleted e") (simp_all add: applyRemoteEntry_def Let_def)
  qed
qed

lemma adopt_inv:
  assumes "reg_inv r"
  shows "reg_inv (adoptRemote s i p c h v r)"
proof -
  define r1 where "r1 = (case path_id r p of
      Some ex \<Rightarrow> if ex \<noteq> i then r\<lparr> rg_entries := jm_delete ex (rg_entries r), rg_dirtyIds := js_add ex (rg_dirtyIds r) \<rparr> else r
    | None \<Rightarrow> r)"
  define r2 where "r2 = (case jm_get (rg_entries r1) i of
      Some prev \<Rightarrow> if fe_path prev \<noteq> p then drop_index (fe_path prev) r1 else r1 | None \<Rightarrow> r1)"
  define e where "e = (new_entry i p c h)\<lparr> fe_lastSyncedPath := Some p,
      fe_headVersionId := Some (case v of Some v \<Rightarrow> v | None \<Rightarrow> hlcToString h) \<rparr>"
  have eq: "adoptRemote s i p c h v r = reg_save s (Some i) (set_index p i (put_entry i e r2))"
    by (simp only: adoptRemote_def r1_def r2_def e_def Let_def)
  have up1: "up_to_date r1" using assms by (auto simp: r1_def reg_inv_def up_to_date_but_def keyed_def split: option.splits)
  then have up2: "up_to_date r2" by (simp add: r2_def split: option.splits)
  have k: "index_ok r" using assms by (simp add: reg_inv_def)
  have wf: "jm_wf (rg_pathIndex r2)" using k by (simp add: r1_def r2_def index_ok_def split: option.splits)
  have ent: "rg_entries r2 = rg_entries r1" by (simp add: r2_def split: option.splits)
  have idx1: "rg_pathIndex r1 = rg_pathIndex r" by (simp add: r1_def split: option.splits)
  have "\<exists>e'. jm_get (jm_set i e (rg_entries r2)) j = Some e' \<and> fe_path e' = q"
    if q: "jm_get (jm_set p i (rg_pathIndex r2)) q = Some j" for q j
  proof (cases "q = p")
    case True
    then show ?thesis using q by (simp add: e_def)
  next
    case False
    then have g: "jm_get (rg_pathIndex r2) q = Some j" using q by simp
    then have g0: "jm_get (rg_pathIndex r) q = Some j"
      using idx1 by (auto simp: r2_def split: option.splits if_splits)
    then obtain e0 where e0: "jm_get (rg_entries r) j = Some e0" "fe_path e0 = q" using index_ok_get [OF k] by blast
    have kept: "jm_get (rg_entries r1) j = Some e0"
      using e0 False path_id_Some [of r p] index_ok_get [OF k, of p] by (auto simp: r1_def split: option.splits)
    have "j \<noteq> i"
    proof
      assume "j = i"
      then have "jm_get (rg_pathIndex r2) q = None" using kept e0 False by (simp add: r2_def)
      then show False using g by simp
    qed
    then show ?thesis using kept e0 ent by simp
  qed
  then have "index_ok (set_index p i (put_entry i e r2))" using wf by (simp add: index_ok_def)
  then show ?thesis unfolding eq using up2 by (intro save_inv) (simp_all add: up_put e_def)
qed

lemma clearConflict_inv: "reg_inv r \<Longrightarrow> reg_inv (clearConflict s i r)"
  using put_same_path_inv by (auto simp: clearConflict_def split: option.splits)

lemma dirty_inv:
  "up_to_date_but {i} q \<Longrightarrow> index_ok q \<Longrightarrow> reg_inv (q\<lparr> rg_dirtyIds := js_add i (rg_dirtyIds q) \<rparr>)"
  by (auto simp: reg_inv_def up_to_date_but_def index_ok_def)

lemma reconcile_new_inv:
  assumes "reg_inv r" and "inj uuid" and "\<And>k. n \<le> k \<Longrightarrow> jm_get (rg_entries r) (uuid k) = None"
  shows "reg_inv (reconcile_new s h uuid n ps r)"
  using assms
proof (induction s h uuid n ps r rule: reconcile_new.induct)
  case (2 s h uuid n p ps r)
  show ?case
  proof (cases "\<not> jm_has (rg_pathIndex r) p \<and> \<not> isExcluded p s")
    case True
    let ?q = "set_index p (uuid n) (put_entry (uuid n) (new_entry (uuid n) p [] h) r)"
    have "up_to_date_but {uuid n} ?q" "index_ok ?q"
      using 2(3,5) by (auto simp: reg_inv_def up_put intro: new_index_ok)
    then have "reg_inv (?q\<lparr> rg_dirtyIds := js_add (uuid n) (rg_dirtyIds r) \<rparr>)" using dirty_inv [of "uuid n" ?q] by simp
    moreover have "uuid k \<noteq> uuid n" if "n + 1 \<le> k" for k using 2(4) that by (auto dest: injD)
    ultimately show ?thesis using 2 True by simp
  next
    case False
    then show ?thesis using 2 by auto
  qed
qed simp

lemma gone_step_inv:
  assumes "reg_inv r" and "jm_get (rg_entries r) i = Some e0" and "fe_id e0 = fe_id e" and "fe_path e0 = fe_path e"
  shows "reg_inv (reconcile_gone_step h paths (i, e) r)"
proof -
  let ?q = "put_entry i (e\<lparr> fe_deleted := True, fe_hlc := h \<rparr>) r"
  have "fe_id e0 = i" using assms(1,2) by (auto simp: reg_inv_def up_to_date_but_def keyed_def)
  then have "up_to_date_but {i} ?q" using assms(1,3) by (simp add: up_put reg_inv_def)
  moreover have "index_ok ?q"
    using assms by (intro put_index_ok) (auto simp: reg_inv_def dest: index_ok_get)
  ultimately show ?thesis using dirty_inv [of i ?q] assms(1) by (simp add: reconcile_gone_step_def)
qed

lemma gone_inv:
  assumes "reg_inv r"
    and "\<And>i e. (i, e) \<in> set es \<Longrightarrow> \<exists>e0. jm_get (rg_entries r) i = Some e0 \<and> fe_id e0 = fe_id e \<and> fe_path e0 = fe_path e"
  shows "reg_inv (fold (reconcile_gone_step h paths) es r)"
  using assms
proof (induction es arbitrary: r)
  case (Cons x es)
  obtain i e where x: "x = (i, e)" by (cases x)
  obtain e0 where e0: "jm_get (rg_entries r) i = Some e0" "fe_id e0 = fe_id e" "fe_path e0 = fe_path e"
    using Cons.prems(2) [of i e] x by auto
  have "\<exists>e0. jm_get (rg_entries (reconcile_gone_step h paths (i, e) r)) j = Some e0 \<and> fe_id e0 = fe_id e' \<and> fe_path e0 = fe_path e'"
    if "(j, e') \<in> set es" for j e'
    using Cons.prems(2) [of j e'] that e0 by (auto simp: reconcile_gone_step_def)
  then show ?case using Cons.IH [OF gone_step_inv [OF Cons.prems(1) e0]] x by simp
qed simp

lemma reconcile_inv:
  assumes "reg_inv r" and "inj uuid" and "\<And>k. jm_get (rg_entries r) (uuid k) = None"
  shows "reg_inv (reconcileWithVault s h uuid ps r)"
proof -
  let ?r1 = "reconcile_new s h uuid 0 ps r"
  have r1: "reg_inv ?r1" using assms by (intro reconcile_new_inv) auto
  then have "jm_wf (rg_entries ?r1)" by (simp add: reg_inv_def up_to_date_but_def keyed_def)
  then show ?thesis unfolding reconcileWithVault_def Let_def
    by (intro save_None_inv gone_inv r1) (auto simp: jm_wf_get)
qed

section \<open>Reclaiming tombstones\<close>

lemma reclaim_step_simps:
  "rg_metadata (fst (reclaim_step hz pins x rn)) = rg_metadata (fst rn)"
  "rg_dirtyIds (fst (reclaim_step hz pins x rn)) = rg_dirtyIds (fst rn)"
  "rg_journalRecords (fst (reclaim_step hz pins x rn)) = rg_journalRecords (fst rn)"
  by (auto simp: reclaim_step_def split: prod.splits)

lemma fold_reclaim_simps:
  "rg_metadata (fst (fold (reclaim_step hz pins) es rn)) = rg_metadata (fst rn)"
  "rg_dirtyIds (fst (fold (reclaim_step hz pins) es rn)) = rg_dirtyIds (fst rn)"
  "rg_journalRecords (fst (fold (reclaim_step hz pins) es rn)) = rg_journalRecords (fst rn)"
  by (induction es arbitrary: rn) (simp_all add: reclaim_step_simps)

lemma fold_reclaim_count:
  "n \<le> snd (fold (reclaim_step hz pins) es (r, n)) \<and>
   (snd (fold (reclaim_step hz pins) es (r, n)) = n \<longrightarrow> fst (fold (reclaim_step hz pins) es (r, n)) = r)"
proof (induction es arbitrary: r n)
  case (Cons x es)
  obtain i e where x: "x = (i, e)" by (cases x)
  show ?case
  proof (cases "reclaimable hz pins i e")
    case True
    then obtain r' where "reclaim_step hz pins x (r, n) = (r', n + 1)" by (simp add: reclaim_step_def x)
    then show ?thesis using Cons [of "n + 1" r'] by auto
  next
    case False
    then show ?thesis using Cons [of n r] by (simp add: reclaim_step_def x)
  qed
qed simp

lemma fold_reclaim_entries:
  "jm_get (rg_entries (fst (fold (reclaim_step hz pins) es rn))) i =
     (if \<exists>e. (i, e) \<in> set es \<and> reclaimable hz pins i e then None else jm_get (rg_entries (fst rn)) i)"
proof (induction es arbitrary: rn)
  case (Cons x es)
  have "jm_get (rg_entries (fst (reclaim_step hz pins x rn))) i =
      (if fst x = i \<and> reclaimable hz pins i (snd x) then None else jm_get (rg_entries (fst rn)) i)"
    by (auto simp: reclaim_step_def split: prod.splits)
  then show ?case using Cons by (cases x) auto
qed simp

lemma reclaim_step_ok:
  assumes "index_ok (fst rn)" and "jm_wf (rg_entries (fst rn))" and "jm_get (rg_entries (fst rn)) i \<in> {None, Some e}"
  shows "index_ok (fst (reclaim_step hz pins (i, e) rn)) \<and> jm_wf (rg_entries (fst (reclaim_step hz pins (i, e) rn)))"
proof -
  obtain r n where rn: "rn = (r, n)" by (cases rn)
  have at: "p = fe_path e" if "jm_get (rg_pathIndex r) p = Some i" for p
    using assms(1,3) that rn by (auto dest: index_ok_get)
  define idx where "idx = (if jm_get (rg_pathIndex r) (fe_path e) = Some i
    then jm_delete (fe_path e) (rg_pathIndex r) else rg_pathIndex r)"
  have "j \<noteq> i \<and> jm_get (rg_pathIndex r) p = Some j" if "jm_get idx p = Some j" for p j
    using that at [of p] by (auto simp: idx_def split: if_splits)
  then have sub: "\<exists>e'. jm_get (jm_delete i (rg_entries r)) j = Some e' \<and> fe_path e' = p" if "jm_get idx p = Some j" for p j
    using that index_ok_get [of r p j] assms(1) rn by simp
  have wf: "jm_wf idx" using assms(1) rn by (simp add: idx_def index_ok_def)
  have "index_ok (r\<lparr> rg_entries := jm_delete i (rg_entries r), rg_pathIndex := idx \<rparr>)"
    unfolding index_ok_def using sub wf by simp
  moreover have "fst (reclaim_step hz pins (i, e) rn) =
      (if reclaimable hz pins i e then r\<lparr> rg_entries := jm_delete i (rg_entries r), rg_pathIndex := idx \<rparr> else r)"
    by (simp add: reclaim_step_def rn idx_def)
  ultimately show ?thesis using assms(1,2) rn by (cases "reclaimable hz pins i e") simp_all
qed

lemma fold_reclaim_ok:
  assumes "index_ok (fst rn)" and "jm_wf (rg_entries (fst rn))"
    and "\<And>i e. (i, e) \<in> set es \<Longrightarrow> jm_get (rg_entries (fst rn)) i \<in> {None, Some e}"
  shows "index_ok (fst (fold (reclaim_step hz pins) es rn)) \<and> jm_wf (rg_entries (fst (fold (reclaim_step hz pins) es rn)))"
  using assms
proof (induction es arbitrary: rn)
  case (Cons x es)
  obtain i e where x: "x = (i, e)" by (cases x)
  have ok: "index_ok (fst (reclaim_step hz pins x rn)) \<and> jm_wf (rg_entries (fst (reclaim_step hz pins x rn)))"
    unfolding x using Cons.prems x by (intro reclaim_step_ok) auto
  have "jm_get (rg_entries (fst (reclaim_step hz pins x rn))) j \<in> {None, Some e'}" if "(j, e') \<in> set es" for j e'
    using Cons.prems(3) [of j e'] that fold_reclaim_entries [of hz pins "[x]" rn j] by (auto split: if_splits)
  then show ?case using Cons.IH [of "reclaim_step hz pins x rn"] ok by simp
qed simp

lemma reclaimTombstones_spec:
  assumes "reg_inv r" and "reclaimTombstones s (now, pins) r = (r', n)"
  shows "jm_get (rg_entries r') i = (case jm_get (rg_entries r) i of None \<Rightarrow> None | Some e \<Rightarrow>
      if reclaimable (int now - int (tombstoneRetentionMs s)) pins i e then None else Some e)"
    and "index_ok r'" and "keyed (rg_entries r')" and "n = 0 \<Longrightarrow> r' = r"
    and "rg_metadata r' = rg_metadata r" and "rg_dirtyIds r' = rg_dirtyIds r" and "rg_journalRecords r' = rg_journalRecords r"
proof -
  let ?hz = "int now - int (tombstoneRetentionMs s)"
  have f: "fold (reclaim_step ?hz pins) (rg_entries r) (r, 0) = (r', n)"
    using assms(2) by (simp add: reclaimTombstones_def)
  have wf: "jm_wf (rg_entries r)" and k: "keyed (rg_entries r)" and ok: "index_ok r"
    using assms(1) by (simp_all add: reg_inv_def up_to_date_but_def keyed_def)
  show e: "jm_get (rg_entries r') i = (case jm_get (rg_entries r) i of None \<Rightarrow> None | Some e \<Rightarrow>
      if reclaimable ?hz pins i e then None else Some e)" for i
    using fold_reclaim_entries [of ?hz pins "rg_entries r" "(r, 0)" i] f jm_wf_get [OF wf]
    by (auto split: option.splits)
  show "index_ok r'"
    using fold_reclaim_ok [of "(r, 0)" "rg_entries r" ?hz pins] f wf ok by (auto simp: jm_wf_get)
  have "jm_wf (rg_entries r')"
    using fold_reclaim_ok [of "(r, 0)" "rg_entries r" ?hz pins] f wf ok by (auto simp: jm_wf_get)
  then show "keyed (rg_entries r')" using k e by (auto simp: keyed_def split: option.splits if_splits)
  show "n = 0 \<Longrightarrow> r' = r" using fold_reclaim_count [of 0 ?hz pins "rg_entries r" r] f by simp
  show "rg_metadata r' = rg_metadata r" "rg_dirtyIds r' = rg_dirtyIds r" "rg_journalRecords r' = rg_journalRecords r"
    using fold_reclaim_simps [of ?hz pins "rg_entries r" "(r, 0)"] f by simp_all
qed

lemma compact_inv:
  assumes "reg_inv r"
  shows "reg_inv (reg_compact s rc r)"
proof -
  obtain r' n where rn: "(case rc of Some rc \<Rightarrow> reclaimTombstones s rc r | None \<Rightarrow> (r, 0)) = (r', n)"
    by (cases "case rc of Some rc \<Rightarrow> reclaimTombstones s rc r | None \<Rightarrow> (r, 0)") blast
  have "index_ok r' \<and> keyed (rg_entries r') \<and> (n = 0 \<longrightarrow> r' = r)"
  proof (cases rc)
    case None
    then show ?thesis using rn assms by (simp add: reg_inv_def up_to_date_but_def)
  next
    case (Some x)
    obtain now pins where x: "x = (now, pins)" by (cases x)
    show ?thesis using reclaimTombstones_spec(2-4) [OF assms, of s now pins r' n] rn Some x by simp
  qed
  then show ?thesis using assms compact_view
    by (auto simp: reg_compact_def rn reg_inv_def up_to_date_but_def index_ok_def)
qed

section \<open>Loading and resetting\<close>

lemma flush_inv: "reg_inv r \<Longrightarrow> reg_inv (reg_flush s r)"
  using flush_view(1-3) [of "{}" r s] by (simp add: reg_inv_def index_ok_def)

lemma rebuild_sound:
  "jm_get (fold (\<lambda>(i, e) idx. if fe_deleted e then idx else jm_set (fe_path e) i idx) es idx0) p = Some i \<Longrightarrow>
     jm_get idx0 p = Some i \<or> (\<exists>e. (i, e) \<in> set es \<and> fe_path e = p)"
proof (induction es arbitrary: idx0)
  case (Cons x es)
  show ?case using Cons.IH [OF Cons.prems [unfolded fold_Cons comp_apply]] by (cases x) (auto split: if_splits)
qed simp

lemma jm_wf_rebuild:
  "jm_wf idx0 \<Longrightarrow> jm_wf (fold (\<lambda>(i, e) idx. if fe_deleted e then idx else jm_set (fe_path e) i idx) es idx0)"
  by (induction es arbitrary: idx0) (auto split: prod.splits)

lemma rebuild_index_ok: "jm_wf es \<Longrightarrow> rg_entries r = es \<Longrightarrow> rg_pathIndex r = rebuildPathIndex es \<Longrightarrow> index_ok r"
  using rebuild_sound [of es "[]"] jm_wf_rebuild [of "[]" es] by (fastforce simp: index_ok_def rebuildPathIndex_def jm_wf_get)

lemma load_spec:
  assumes "load_snapshot (md_read (rg_metadata r) REGISTRY_PATH) = Inr es"
  obtains r' where "reg_load s r = Inr r'" and "rg_entries r' = disk_view (rg_metadata r)"
proof -
  obtain es' n where j: "load_journal (md_read (rg_metadata r) REGISTRY_JOURNAL_PATH) es = (es', n)" by fastforce
  have "\<exists>r'. reg_load s r = Inr r' \<and> rg_entries r' = es'"
    using assms j by (simp add: reg_load_def Let_def maybeCompactOnLoad_def compact_None)
  moreover have "es' = disk_view (rg_metadata r)" using assms j by (simp add: disk_view_def)
  ultimately show ?thesis using that by blast
qed

lemma clean_snapshot:
  assumes "clean_disk m"
  obtains es where "load_snapshot (md_read m REGISTRY_PATH) = Inr es"
  using assms load_snapshot_is by (auto simp: clean_disk_def)

lemma load_inv:
  assumes "clean_disk (rg_metadata r)"
  obtains r' where "reg_load s r = Inr r'" and "reg_inv r'" and "rg_entries r' = disk_view (rg_metadata r)"
proof -
  obtain es where es: "load_snapshot (md_read (rg_metadata r) REGISTRY_PATH) = Inr es" using assms by (rule clean_snapshot)
  obtain es' n where j: "load_journal (md_read (rg_metadata r) REGISTRY_JOURNAL_PATH) es = (es', n)" by fastforce
  have d: "es' = disk_view (rg_metadata r)" using es j by (simp add: disk_view_def)
  have k: "keyed es'" using keyed_disk [OF assms] d by simp
  define r1 where "r1 = r\<lparr> rg_entries := es', rg_pathIndex := rebuildPathIndex es', rg_dirtyIds := [],
      rg_snapshotBytes := opt_length (md_read (rg_metadata r) REGISTRY_PATH),
      rg_journalBytes := opt_length (md_read (rg_metadata r) REGISTRY_JOURNAL_PATH), rg_journalRecords := n \<rparr>"
  have r1: "reg_inv r1"
    using assms d k rebuild_index_ok [of es' r1] by (simp add: reg_inv_def up_to_date_but_def r1_def keyed_def)
  have "reg_load s r = Inr (maybeCompactOnLoad s r1)" using es j by (simp add: reg_load_def Let_def r1_def)
  moreover have "reg_inv (maybeCompactOnLoad s r1)" using r1 compact_inv by (simp add: maybeCompactOnLoad_def)
  moreover have "rg_entries (maybeCompactOnLoad s r1) = disk_view (rg_metadata r)"
    using d by (simp add: maybeCompactOnLoad_def compact_None r1_def)
  ultimately show ?thesis using that by blast
qed

lemma remove_existing_read: "md_read (remove_existing p m) q = (if q = p then None else md_read m q)"
  using md_exists_file [of m p] by (cases "md_read m p") (auto simp: remove_existing_def)

lemma empty_clean: "md_read m REGISTRY_PATH = None \<Longrightarrow> md_read m REGISTRY_JOURNAL_PATH = None \<Longrightarrow>
    clean_disk m \<and> disk_view m = []"
proof -
  assume "md_read m REGISTRY_PATH = None" and "md_read m REGISTRY_JOURNAL_PATH = None"
  then have "snapshot_is (md_read m REGISTRY_PATH) []" "journal_is (md_read m REGISTRY_JOURNAL_PATH) []"
    by (simp_all add: snapshot_is_def keyed_def journal_is_def)
  then show ?thesis using disk_view_is by (fastforce simp: clean_disk_def)
qed

lemma reset_inv: "reg_inv (reg_resetAll r)"
  using empty_clean [of "rg_metadata (reg_resetAll r)"]
  by (simp add: reg_resetAll_def remove_existing_read reg_inv_def up_to_date_but_def index_ok_def keyed_def)

lemma new_inv: "reg_inv (new_registry [])"
  using empty_clean [of "[]"] by (simp add: new_registry_def reg_inv_def up_to_date_but_def index_ok_def keyed_def md_read_def)

section \<open>Reachable registries\<close>

inductive reg_step :: "SyncSettings \<Rightarrow> registry \<Rightarrow> registry \<Rightarrow> bool" for s where
  register: "jm_get (rg_entries r) uuid = None \<Longrightarrow> reg_step s r (fst (registerFile s uuid p h c st r))"
| rename: "updatePath s p q h r = Inr r' \<Longrightarrow> reg_step s r r'"
| content: "updateContentHash s p c h st r = Inr r' \<Longrightarrow> reg_step s r r'"
| stat: "recordStat s p mt sz r = Inr r' \<Longrightarrow> reg_step s r r'"
| deleted: "markDeleted s p h r = Inr r' \<Longrightarrow> reg_step s r r'"
| conflicted: "markConflicted s p c h ps r = Inr r' \<Longrightarrow> reg_step s r r'"
| remote: "reg_step s r (applyRemoteEntry s e r)"
| adopt: "reg_step s r (adoptRemote s i p c h v r)"
| head: "reg_step s r (setHeadVersion s i v r)"
| synced: "reg_step s r (setSyncedPath s i r)"
| cleared: "reg_step s r (clearConflict s i r)"
| reconcile: "inj uuid \<Longrightarrow> range uuid \<inter> set (jm_keys (rg_entries r)) = {} \<Longrightarrow> reg_step s r (reconcileWithVault s h uuid ps r)"
| flush: "reg_step s r (reg_flush s r)"
| compact: "reg_step s r (reg_compact s rc r)"
| suspend: "reg_step s r (suspendSaves r)"
| resume: "reg_step s r (resumeSaves r)"
| reset: "reg_step s r (reg_resetAll r)"
| load: "reg_load s r = Inr r' \<Longrightarrow> reg_step s r r'"

lemma update_ops_inv:
  assumes "reg_inv r"
  shows "\<exists>r'. updateContentHash s p c h st r = Inr r' \<and> reg_inv r'" "\<exists>r'. recordStat s p mt sz r = Inr r' \<and> reg_inv r'"
    "\<exists>r'. markDeleted s p h r = Inr r' \<and> reg_inv r'" "\<exists>r'. markConflicted s p c h ps r = Inr r' \<and> reg_inv r'"
  unfolding updateContentHash_def recordStat_def markDeleted_def markConflicted_def
  by (rule update_at_inv [OF assms]; simp)+

lemma suspend_inv: "reg_inv (suspendSaves r) = reg_inv r" "reg_inv (resumeSaves r) = reg_inv r"
  by (simp_all add: suspendSaves_def resumeSaves_def reg_inv_def up_to_date_but_def index_ok_def)

lemma step_inv: "reg_step s r r' \<Longrightarrow> reg_inv r \<Longrightarrow> reg_inv r'"
proof (induction rule: reg_step.induct)
  case (rename p q h r r')
  then show ?case using updatePath_inv [of r s p q h] by auto
next
  case (content p c h st r r')
  then show ?case using update_ops_inv(1) [of r s p c h st] by auto
next
  case (stat p mt sz r r')
  then show ?case using update_ops_inv(2) [of r s p mt sz] by auto
next
  case (deleted p h r r')
  then show ?case using update_ops_inv(3) [of r s p h] by auto
next
  case (conflicted p c h ps r r')
  then show ?case using update_ops_inv(4) [of r s p c h ps] by auto
next
  case (reconcile uuid r h ps)
  then have "jm_get (rg_entries r) (uuid k) = None" for k
    by (auto simp: map_of_eq_None_iff jm_keys_def)
  then show ?case using reconcile by (intro reconcile_inv)
next
  case (load r r')
  then have "clean_disk (rg_metadata r)" by (simp add: reg_inv_def up_to_date_but_def)
  then show ?case using load load_inv [of r s thesis] by (metis load_inv sum.inject(2))
qed (simp_all add: register_inv applyRemote_inv adopt_inv setHeadVersion_def setSyncedPath_def update_id_inv clearConflict_inv
    flush_inv compact_inv reset_inv suspend_inv)

lemma reachable_inv: "(reg_step s)\<^sup>*\<^sup>* (new_registry []) r \<Longrightarrow> reg_inv r"
  by (induction rule: rtranclp_induct) (auto intro: new_inv step_inv)

end
