(* ===== verification/RegistryThms.thy ===== *)
theory RegistryThms
  imports RegistryProps
begin

text \<open>
  What the registry promises: the invariant of every reachable registry, durability and crash
  safety of its two files, safety of tombstone reclaim and of the keep-set of the garbage
  collector, and three behaviours its comments do not expect.
\<close>

section \<open>The promises\<close>

text \<open>
  Every registry the public operations can reach keeps its index inside its entries: a path
  resolves to an entry of that path, no non-null assertion fails and its own files always load.
\<close>

theorem registry_invariant:
  assumes "(reg_step s)\<^sup>*\<^sup>* (new_registry []) r"
  shows "reg_inv r \<and> {e. getByPath r p = Some e} \<subseteq> {e. fe_path e = p \<and> getById r (fe_id e) = Some e} \<and>
    Inl TypeErr \<notin> {updatePath s p q h r, updateContentHash s p c h st r, recordStat s p mt sz r, markDeleted s p h r,
      markConflicted s p c h ps r} \<and> (\<exists>r'. reg_load s r = Inr r')"
proof (intro conjI)
  have inv: "reg_inv r" using assms by (rule reachable_inv)
  then show "reg_inv r" .
  show "{e. getByPath r p = Some e} \<subseteq> {e. fe_path e = p \<and> getById r (fe_id e) = Some e}"
  proof
    fix e assume "e \<in> {e. getByPath r p = Some e}"
    then obtain i where i: "path_id r p = Some i" "jm_get (rg_entries r) i = Some e"
      by (auto simp: getByPath_def split: option.splits)
    with inv path_id_Some [OF i(1)] have "fe_path e = p" "fe_id e = i"
      by (auto simp: reg_inv_def up_to_date_but_def keyed_def dest: index_ok_get)
    with i show "e \<in> {e. fe_path e = p \<and> getById r (fe_id e) = Some e}" by (simp add: getById_def)
  qed
  show "Inl TypeErr \<notin> {updatePath s p q h r, updateContentHash s p c h st r, recordStat s p mt sz r, markDeleted s p h r,
      markConflicted s p c h ps r}"
    using updatePath_inv [OF inv, of s p q h] update_ops_inv(1) [OF inv, of s p c h st]
      update_ops_inv(2) [OF inv, of s p mt sz] update_ops_inv(3) [OF inv, of s p h]
      update_ops_inv(4) [OF inv, of s p c h ps] by auto
  show "\<exists>r'. reg_load s r = Inr r'"
  proof -
    have "clean_disk (rg_metadata r)" using inv by (simp add: reg_inv_def up_to_date_but_def)
    then show ?thesis using load_inv by metis
  qed
qed

definition sample_hlc :: "nat \<Rightarrow> HLC" where "sample_hlc n = HLC n 0 ''d''"

definition one_file :: registry where
  "one_file = fst (registerFile DEFAULT_SETTINGS ''x'' ''p'' (sample_hlc 1) ''h'' None (new_registry []))"

lemma one_file_reachable: "(reg_step DEFAULT_SETTINGS)\<^sup>*\<^sup>* (new_registry []) one_file"
  unfolding one_file_def by (rule r_into_rtranclp, rule reg_step.register) (simp add: new_registry_def)

theorem registry_invariant_witness:
  "reg_inv one_file \<and> {e. getByPath one_file ''p'' = Some e} \<subseteq> {e. fe_path e = ''p'' \<and> getById one_file (fe_id e) = Some e} \<and>
    Inl TypeErr \<notin> {updatePath DEFAULT_SETTINGS ''p'' ''q'' (sample_hlc 2) one_file,
      updateContentHash DEFAULT_SETTINGS ''p'' ''c'' (sample_hlc 2) None one_file, recordStat DEFAULT_SETTINGS ''p'' 1 1 one_file,
      markDeleted DEFAULT_SETTINGS ''p'' (sample_hlc 2) one_file, markConflicted DEFAULT_SETTINGS ''p'' ''c'' (sample_hlc 2) [] one_file} \<and>
    (\<exists>r'. reg_load DEFAULT_SETTINGS one_file = Inr r')"
  by (rule registry_invariant [OF one_file_reachable])

text \<open>
  A flush is durable: a fresh registry that loads the files after it holds exactly the
  entries in memory, whatever was changed, deleted or compacted before.
\<close>

theorem flush_durable:
  assumes "(reg_step s)\<^sup>*\<^sup>* (new_registry []) r"
  shows "\<exists>r'. reg_load s (new_registry (rg_metadata (reg_flush s r))) = Inr r' \<and>
    (\<forall>i. getById r' i = getById r i) \<and> reg_inv r'"
proof -
  have inv: "reg_inv r" using assms by (rule reachable_inv)
  then have up: "up_to_date r" by (simp add: reg_inv_def)
  note f = flush_view [OF up, of s]
  have c: "clean_disk (rg_metadata (reg_flush s r))" using f(1) by (simp add: up_to_date_but_def)
  obtain r' where r': "reg_load s (new_registry (rg_metadata (reg_flush s r))) = Inr r'" "reg_inv r'"
      "rg_entries r' = disk_view (rg_metadata (reg_flush s r))"
    by (rule load_inv [of "new_registry (rg_metadata (reg_flush s r))" s]) (use c in \<open>auto simp: new_registry_def\<close>)
  have "getById r' i = getById r i" for i
    using f(1,2,4) r'(3) by (simp add: getById_def up_to_date_but_def)
  then show ?thesis using r' by blast
qed

theorem flush_durable_witness:
  "\<exists>r'. reg_load DEFAULT_SETTINGS (new_registry (rg_metadata (reg_flush DEFAULT_SETTINGS one_file))) = Inr r' \<and>
    (\<forall>i. getById r' i = getById one_file i) \<and> reg_inv r'"
  by (rule flush_durable [OF one_file_reachable])

lemma load_fresh:
  assumes "load_snapshot (md_read m REGISTRY_PATH) = Inr es"
  obtains r' where "reg_load s (new_registry m) = Inr r'" and "rg_entries r' = disk_view m"
  using load_spec [of "new_registry m" es s] assms that by (auto simp: new_registry_def)

text \<open>
  C17: A crash during a flush (a torn append) or a compaction (either write missing) costs no
  entry more than its unflushed changes: after the restart every entry, deleted ones included,
  is as it was in memory or as it was last on disk.
\<close>

theorem crash_keeps_entries:
  assumes "(reg_step s)\<^sup>*\<^sup>* (new_registry []) r"
  shows "\<exists>r0 r1 r2. reg_load s (new_registry (rg_metadata r)) = Inr r0 \<and>
    reg_load s (new_registry (md_append REGISTRY_JOURNAL_PATH (take k (flush_delta r)) (rg_metadata r))) = Inr r1 \<and>
    (\<forall>i. getById r1 i \<in> {getById r i, getById r0 i}) \<and>
    reg_load s (new_registry (fold (\<lambda>w m. w m) (take n (compact_writes (rg_entries r))) (rg_metadata r))) = Inr r2 \<and>
    (\<forall>i. getById r2 i \<in> {getById r i, getById r0 i})"
proof -
  have inv: "reg_inv r" using assms by (rule reachable_inv)
  then have c: "clean_disk (rg_metadata r)" and k: "keyed (rg_entries r)"
    by (simp_all add: reg_inv_def up_to_date_but_def)
  obtain es where es: "load_snapshot (md_read (rg_metadata r) REGISTRY_PATH) = Inr es" by (rule clean_snapshot [OF c])
  obtain r0 where r0: "reg_load s (new_registry (rg_metadata r)) = Inr r0" "rg_entries r0 = disk_view (rg_metadata r)"
    by (rule load_fresh [OF es])
  let ?m1 = "md_append REGISTRY_JOURNAL_PATH (take k (flush_delta r)) (rg_metadata r)"
  obtain r1 where r1: "reg_load s (new_registry ?m1) = Inr r1" "rg_entries r1 = disk_view ?m1"
    by (rule load_fresh [of ?m1 es]) (use es in simp_all)
  have "prefix (take k (flush_delta r)) (journal_text (map (journal_line (rg_entries r)) (rg_dirtyIds r)))"
    by (simp add: flush_delta_def take_is_prefix)
  then have v1: "getById r1 i \<in> {getById r i, getById r0 i}" for i
    by (rule append_torn_view [OF c k]) (simp add: getById_def r1(2) r0(2))
  let ?m2 = "fold (\<lambda>w m. w m) (take n (compact_writes (rg_entries r))) (rg_metadata r)"
  have cases: "?m2 = rg_metadata r \<or> ?m2 = md_write REGISTRY_PATH (json_show (snapshot_json (rg_entries r))) (rg_metadata r) \<or>
      ?m2 = fold (\<lambda>w m. w m) (compact_writes (rg_entries r)) (rg_metadata r)"
    by (cases n; cases "n - 1") (simp_all add: compact_writes_def)
  have v: "jm_get (disk_view ?m2) i \<in> {getById r i, getById r0 i}" for i
    using cases compact_torn_view [OF c k, of i] compact_view(2) [OF k] r0(2) by (auto simp: getById_def)
  have snap: "load_snapshot (Some (json_show (snapshot_json (rg_entries r)))) = Inr (rg_entries r)"
    using k by (intro load_snapshot_is) (simp add: snapshot_is_def)
  have "\<exists>es. load_snapshot (md_read ?m2 REGISTRY_PATH) = Inr es"
    using cases es snap by (auto simp: compact_writes_def simp del: json_show.simps)
  then obtain es2 where "load_snapshot (md_read ?m2 REGISTRY_PATH) = Inr es2" ..
  then obtain r2 where r2: "reg_load s (new_registry ?m2) = Inr r2" "rg_entries r2 = disk_view ?m2"
    by (rule load_fresh)
  show ?thesis using r0(1) r1(1) r2 v1 v by (auto simp: getById_def [of r2])
qed

theorem crash_keeps_entries_witness:
  "\<exists>r0 r1 r2. reg_load DEFAULT_SETTINGS (new_registry (rg_metadata one_file)) = Inr r0 \<and>
    reg_load DEFAULT_SETTINGS (new_registry (md_append REGISTRY_JOURNAL_PATH (take 9 (flush_delta one_file)) (rg_metadata one_file))) = Inr r1 \<and>
    (\<forall>i. getById r1 i \<in> {getById one_file i, getById r0 i}) \<and>
    reg_load DEFAULT_SETTINGS (new_registry (fold (\<lambda>w m. w m) (take 1 (compact_writes (rg_entries one_file))) (rg_metadata one_file))) = Inr r2 \<and>
    (\<forall>i. getById r2 i \<in> {getById one_file i, getById r0 i})"
  by (rule crash_keeps_entries [OF one_file_reachable])

text \<open>
  C28: Compaction reclaims a tombstone only past its horizon, which no setting brings below thirty
  days, and only one no pending operation pins and no open conflict holds; it keeps every other
  entry, and a reload agrees with it up to unflushed changes, so nothing comes back.
\<close>

theorem reclaim_safe:
  assumes "(reg_step s)\<^sup>*\<^sup>* (new_registry []) r"
  shows "\<exists>r'. reg_load s (new_registry (rg_metadata (reg_compact s (Some (now, pins)) r))) = Inr r' \<and>
    (\<forall>i. getById (reg_compact s (Some (now, pins)) r) i =
       (case getById r i of None \<Rightarrow> None | Some e \<Rightarrow>
          if fe_deleted e \<and> fe_conflictParents e = None \<and> i \<notin> set pins \<and>
            wallTime (fe_hlc e) + tombstoneRetentionMs s \<le> now then None else Some e)) \<and>
    tombstoneRetentionMs s \<ge> 30 * 24 * 60 * 60 * 1000 \<and>
    {i. getById r' i \<noteq> getById (reg_compact s (Some (now, pins)) r) i} \<subseteq>
      set (rg_dirtyIds (reg_compact s (Some (now, pins)) r))"
proof -
  let ?c = "reg_compact s (Some (now, pins)) r"
  have inv: "reg_inv r" using assms by (rule reachable_inv)
  obtain q n where q: "reclaimTombstones s (now, pins) r = (q, n)" by fastforce
  have e: "rg_entries ?c = rg_entries q" using q by (simp add: reg_compact_def)
  have g: "getById ?c i = (case getById r i of None \<Rightarrow> None | Some e \<Rightarrow>
      if fe_deleted e \<and> fe_conflictParents e = None \<and> i \<notin> set pins \<and>
        wallTime (fe_hlc e) + tombstoneRetentionMs s \<le> now then None else Some e)" for i
    using reclaimTombstones_spec(1) [OF inv q, of i]
    by (auto simp: getById_def e reclaimable_def split: option.splits)
  have ci: "reg_inv ?c" using compact_inv [OF inv] .
  then have c: "clean_disk (rg_metadata ?c)" by (simp add: reg_inv_def up_to_date_but_def)
  obtain r' where r': "reg_load s (new_registry (rg_metadata ?c)) = Inr r'" "rg_entries r' = disk_view (rg_metadata ?c)"
    by (rule load_inv [of "new_registry (rg_metadata ?c)" s]) (use c in \<open>auto simp: new_registry_def\<close>)
  have "{i. getById r' i \<noteq> getById ?c i} \<subseteq> set (rg_dirtyIds ?c)"
    using ci r'(2) by (auto simp: getById_def reg_inv_def up_to_date_but_def)
  moreover have "tombstoneRetentionMs s \<ge> 30 * 24 * 60 * 60 * 1000"
    by (simp add: tombstoneRetentionMs_def MIN_TOMBSTONE_RETENTION_MS_def Let_def)
  ultimately show ?thesis using r'(1) g by blast
qed

theorem reclaim_safe_witness:
  "\<exists>r'. reg_load DEFAULT_SETTINGS (new_registry (rg_metadata (reg_compact DEFAULT_SETTINGS (Some (9, [])) one_file))) = Inr r' \<and>
    (\<forall>i. getById (reg_compact DEFAULT_SETTINGS (Some (9, [])) one_file) i =
       (case getById one_file i of None \<Rightarrow> None | Some e \<Rightarrow>
          if fe_deleted e \<and> fe_conflictParents e = None \<and> i \<notin> set [] \<and>
            wallTime (fe_hlc e) + tombstoneRetentionMs DEFAULT_SETTINGS \<le> 9 then None else Some e)) \<and>
    tombstoneRetentionMs DEFAULT_SETTINGS \<ge> 30 * 24 * 60 * 60 * 1000 \<and>
    {i. getById r' i \<noteq> getById (reg_compact DEFAULT_SETTINGS (Some (9, [])) one_file) i} \<subseteq>
      set (rg_dirtyIds (reg_compact DEFAULT_SETTINGS (Some (9, [])) one_file))"
  by (rule reclaim_safe [OF one_file_reachable])

section \<open>What the collector and the sweep keep\<close>

lemma set_keep: "set (keep_hashes dag has md e keep) = set (keep_hashes dag has md e []) \<union> set keep"
  by (simp add: keep_hashes_def Let_def split: option.splits)

lemma set_referenced: "set (fold (keep_hashes dag has md) es keep) = (\<Union>e \<in> set es. set (keep_hashes dag has md e [])) \<union> set keep"
proof (induction es arbitrary: keep)
  case (Cons e es)
  then show ?case using set_keep [of dag has md e keep] by auto
qed simp

lemma referenced_entry:
  "jm_get (rg_entries r) i = Some e \<Longrightarrow> set (keep_hashes dag has md e []) \<subseteq> set (referencedHashes dag has md r)"
  by (auto simp: referencedHashes_def set_referenced jm_values_def dest!: map_of_SomeD)

lemma mergeBase_reach: "mergeBase g a b = Base m \<Longrightarrow> (a, m) \<in> (dag_edge g)\<^sup>*"
  by (auto simp: mergeBase_sets maximal_anc_def common_anc_def split: if_splits)

lemma mergeBase_reach2: "mergeBase g a b = Base m \<Longrightarrow> (b, m) \<in> (dag_edge g)\<^sup>*"
  using mergeBase_reach [of g b a m] mergeBase_comm by simp

lemma set_entry_roots: "set (entry_roots e rs) =
   (if truthy (fe_headVersionId e) then {the (fe_headVersionId e)} else {}) \<union>
   (case fe_conflictParents e of None \<Rightarrow> {} | Some ps \<Rightarrow> set ps - {[]}) \<union> set rs"
proof -
  have "set (fold (\<lambda>p rs. if p \<noteq> [] then js_add p rs else rs) ps xs) = set xs \<union> (set ps - {[]})" for ps xs
    by (induction ps arbitrary: xs) auto
  then show ?thesis by (auto simp: entry_roots_def Let_def split: option.splits)
qed

lemma set_versionRoots: "set (versionRoots r) = (\<Union>e \<in> set (jm_values (rg_entries r)). set (entry_roots e []))"
proof -
  have "set (fold entry_roots es rs) = (\<Union>e \<in> set es. set (entry_roots e [])) \<union> set rs" for es rs
  proof (induction es arbitrary: rs)
    case (Cons e es)
    then show ?case using set_entry_roots [of e rs] set_entry_roots [of e "[]"] by auto
  qed simp
  then show ?thesis by (simp add: versionRoots_def)
qed

text \<open>
  Garbage collection and the graph sweep cannot hurt a merge of a tracked file: the unbounded
  keep-set holds the bytes of every live entry and of the merge base of its head with any other
  version, and a sweep to the registry's roots leaves the merge base of the heads of any two
  entries, deleted ones included, as it was.
\<close>

theorem keep_set_covers_merge_bases:
  assumes "getById r i = Some e" and "fe_headVersionId e = Some h" and "h \<noteq> []"
    and "getById r j = Some e'" and "fe_headVersionId e' = Some h'" and "h' \<noteq> []"
  shows "(if fe_deleted e then {} else {fe_contentHash e} - {[]} \<union>
            {c. \<exists>peer b. mergeBase g h peer = Base b \<and> contentHashOf g b = Some c}) \<subseteq>
           set (referencedHashes (Some g) None None r) \<and>
         mergeBase (fst (sweepToRoots (versionRoots r) g)) h h' = mergeBase g h h'"
proof
  have keep: "set (keep_hashes (Some g) None None e []) =
      (if fe_deleted e then {} else ({fe_contentHash e} - {[]}) \<union> hashes g ((dag_edge g)\<^sup>* `` {h}))"
    using assms(2,3) by (auto simp: keep_hashes_def Let_def reachable_all)
  have bases: "{c. \<exists>peer b. mergeBase g h peer = Base b \<and> contentHashOf g b = Some c} \<subseteq> hashes g ((dag_edge g)\<^sup>* `` {h})"
    by (auto simp: hashes_def dest: mergeBase_reach)
  show "(if fe_deleted e then {} else {fe_contentHash e} - {[]} \<union>
            {c. \<exists>peer b. mergeBase g h peer = Base b \<and> contentHashOf g b = Some c}) \<subseteq>
           set (referencedHashes (Some g) None None r)"
  proof (cases "fe_deleted e")
    case False
    then have "{fe_contentHash e} - {[]} \<union> hashes g ((dag_edge g)\<^sup>* `` {h}) \<subseteq> set (referencedHashes (Some g) None None r)"
      using referenced_entry [OF assms(1) [unfolded getById_def], of "Some g" None None] keep by simp
    then show ?thesis using bases False by (simp only: if_False Un_subset_iff) (meson subset_trans)
  qed simp
next
  have root: "v \<in> set (versionRoots r)" if "getById r k = Some x" "fe_headVersionId x = Some v" "v \<noteq> []" for k x v
  proof -
    have "x \<in> set (jm_values (rg_entries r))"
      using that(1) by (auto simp: getById_def jm_values_def image_iff dest!: map_of_SomeD intro!: bexI)
    moreover have "v \<in> set (entry_roots x [])" using that by (simp add: set_entry_roots)
    ultimately show ?thesis by (auto simp: set_versionRoots)
  qed
  have "h \<in> set (versionRoots r)" "h' \<in> set (versionRoots r)"
    using root [OF assms(1-3)] root [OF assms(4-6)] by auto
  then have k: "h \<in> kept g (versionRoots r)" "h' \<in> kept g (versionRoots r)"
    using roots_kept assms(3,6) by blast+
  show "mergeBase (fst (sweepToRoots (versionRoots r) g)) h h' = mergeBase g h h'"
    using prune_mergeBase [OF k] by (simp add: sweepToRoots_def)
qed

definition entry_x :: FileEntry where
  "entry_x = (new_entry ''x'' ''p'' ''h1'' (sample_hlc 1))\<lparr> fe_headVersionId := Some ''a'' \<rparr>"

definition entry_y :: FileEntry where
  "entry_y = (new_entry ''y'' ''q'' ''h2'' (sample_hlc 2))\<lparr> fe_headVersionId := Some ''b'' \<rparr>"

definition two_heads :: registry where
  "two_heads = (new_registry [])\<lparr> rg_entries := [(''x'', entry_x), (''y'', entry_y)] \<rparr>"

theorem keep_set_covers_merge_bases_witness:
  "(if fe_deleted entry_x then {} else {fe_contentHash entry_x} - {[]} \<union>
            {c. \<exists>peer b. mergeBase diamond ''a'' peer = Base b \<and> contentHashOf diamond b = Some c}) \<subseteq>
           set (referencedHashes (Some diamond) None None two_heads) \<and>
         mergeBase (fst (sweepToRoots (versionRoots two_heads) diamond)) ''a'' ''b'' = mergeBase diamond ''a'' ''b''"
  by (rule keep_set_covers_merge_bases [where i = "''x''" and j = "''y''" and e' = entry_y])
    (simp_all add: two_heads_def getById_def entry_x_def entry_y_def)

section \<open>Surprises\<close>

text \<open>A history \<open>v1\<close>, \<open>v2\<close>, \<open>v3\<close> of which the store holds the first and the last content.\<close>

definition gap_history :: dag where
  "gap_history =
     [(''v1'', \<lparr> vn_parents = [], vn_contentHash = ''c1'', vn_fileId = ''x'' \<rparr>),
      (''v2'', \<lparr> vn_parents = [''v1''], vn_contentHash = ''c2'', vn_fileId = ''x'' \<rparr>),
      (''v3'', \<lparr> vn_parents = [''v2''], vn_contentHash = ''c3'', vn_fileId = ''x'' \<rparr>),
      (''w'', \<lparr> vn_parents = [''v1''], vn_contentHash = ''c4'', vn_fileId = ''x'' \<rparr>)]"

definition gap_registry :: registry where
  "gap_registry = (new_registry [])\<lparr> rg_entries :=
     [(''x'', (new_entry ''x'' ''p'' ''c3'' (sample_hlc 1))\<lparr> fe_headVersionId := Some ''v3'' \<rparr>)] \<rparr>"

text \<open>
  The bounded keep-set of the scheduled collection is not what its comment says: with a
  version in between whose bytes were never fetched, the walk stops at that version and drops
  the still stored bytes of an older one, which is the merge base with a concurrent edit.
\<close>

theorem bounded_keep_set_drops_stored_base:
  "mergeBase gap_history ''v3'' ''w'' = Base ''v1'' \<and> contentHashOf gap_history ''v1'' = Some ''c1'' \<and>
   set (referencedHashes (Some gap_history) (Some (\<lambda>h. h \<in> {''c1'', ''c3''})) None gap_registry) = {''c2'', ''c3''} \<and>
   set (referencedHashes (Some gap_history) None None gap_registry) = {''c1'', ''c2'', ''c3''}"
proof (intro conjI)
  show "mergeBase gap_history ''v3'' ''w'' = Base ''v1''" by code_simp
  show "contentHashOf gap_history ''v1'' = Some ''c1''" by code_simp
  have "referencedHashes (Some gap_history) (Some (\<lambda>h. h \<in> {''c1'', ''c3''})) None gap_registry = [''c3'', ''c2'']"
    by code_simp
  then show "set (referencedHashes (Some gap_history) (Some (\<lambda>h. h \<in> {''c1'', ''c3''})) None gap_registry) = {''c2'', ''c3''}"
    by auto
  have "referencedHashes (Some gap_history) None None gap_registry = [''c3'', ''c2'', ''c1'']"
    by code_simp
  then show "set (referencedHashes (Some gap_history) None None gap_registry) = {''c1'', ''c2'', ''c3''}" by auto
qed

text \<open>
  A file \<open>x\<close> is deleted at \<open>p\<close>, a file \<open>z\<close> is renamed to \<open>p\<close>, then \<open>x\<close> comes back from a peer at
  another path.
\<close>

definition st :: SyncSettings where "st = DEFAULT_SETTINGS"

definition unindexed :: "io_error + registry" where
  "unindexed =
     (case markDeleted st ''p'' (sample_hlc 2)
        (fst (registerFile st ''z'' ''o'' (sample_hlc 1) ''hz'' None
          (fst (registerFile st ''x'' ''p'' (sample_hlc 1) ''hx'' None (suspendSaves (new_registry [])))))) of
        Inl e \<Rightarrow> Inl e
      | Inr r \<Rightarrow>
          (case updatePath st ''o'' ''p'' (sample_hlc 3) r of
             Inl e \<Rightarrow> Inl e
           | Inr r \<Rightarrow> Inr (adoptRemote st ''x'' ''q'' ''hx2'' (sample_hlc 4) None r)))"

text \<open>
  Adopting a remote file can take a different live file out of the path index: the stale path
  of the adopted entry is dropped from the index even when another entry owns it by then, and
  the next create or capture at that path mints a second live entry for it.
\<close>

theorem adopt_unindexes_live_file:
  "case unindexed of
     Inl _ \<Rightarrow> False
   | Inr r \<Rightarrow>
       (\<exists>e. getById r ''z'' = Some e \<and> fe_path e = ''p'' \<and> \<not> fe_deleted e) \<and> getByPath r ''p'' = None \<and>
       map fe_path (getActiveEntries (fst (registerFile st ''n'' ''p'' (sample_hlc 5) ''hz'' None r))) = [''q'', ''p'', ''p'']"
proof -
  obtain r where r: "unindexed = Inr r"
    and e: "rg_entries r = [(''x'', (new_entry ''x'' ''q'' ''hx2'' (sample_hlc 4))\<lparr> fe_lastSyncedPath := Some ''q'',
        fe_headVersionId := Some (hlcToString (sample_hlc 4)) \<rparr>), (''z'', (new_entry ''z'' ''p'' ''hz'' (sample_hlc 3)))]"
    and x: "rg_pathIndex r = [(''q'', ''x'')]"
    by (simp add: unindexed_def registerFile_def path_id_def new_registry_def suspendSaves_def reg_save_def Let_def put_entry_def
        set_index_def drop_index_def markDeleted_def update_at_def updatePath_def adoptRemote_def new_entry_def with_stat_def js_add_def)
  show ?thesis
    by (simp add: r e x getById_def getByPath_def path_id_def getActiveEntries_def registerFile_def jm_values_def)
qed

lemma entry_line_obj: "\<exists>ms. journal_line es i = json_show (JObj ms)"
  by (auto simp: journal_line_def entry_json_def del_json_def simp del: json_show.simps split: option.splits)

lemma glued_line: "reg_dec (CHR ''{'' # journal_line es i) = None"
proof -
  obtain ms where ms: "journal_line es i = json_show (JObj ms)" using entry_line_obj [of es i] by blast
  then have "json_parse (CHR ''{'' # journal_line es i) = None" by (simp only: glued_object)
  then show ?thesis by (simp add: reg_dec_def)
qed

text \<open>
  A torn tail is dropped by the load but not from the file, so the next flush continues on
  its line: when a flush was torn after its first character, the entry that the first flush
  after the restart writes is not there at the following load, although that flush succeeded.
\<close>

theorem torn_tail_swallows_next_flush:
  assumes "(reg_step s)\<^sup>*\<^sup>* (new_registry []) r" and "rg_dirtyIds r \<noteq> []"
  shows "\<exists>r0 r2. reg_load s (new_registry (rg_metadata r)) = Inr r0 \<and>
    reg_load s (new_registry (md_append REGISTRY_JOURNAL_PATH (journal_text [journal_line es i])
      (md_append REGISTRY_JOURNAL_PATH (take 1 (flush_delta r)) (rg_metadata r)))) = Inr r2 \<and>
    rg_entries r2 = rg_entries r0"
proof -
  let ?m1 = "md_append REGISTRY_JOURNAL_PATH (take 1 (flush_delta r)) (rg_metadata r)"
  let ?m2 = "md_append REGISTRY_JOURNAL_PATH (journal_text [journal_line es i]) ?m1"
  have c: "clean_disk (rg_metadata r)" using reachable_inv [OF assms(1)] by (simp add: reg_inv_def up_to_date_but_def)
  obtain es0 recs where s: "snapshot_is (md_read (rg_metadata r) REGISTRY_PATH) es0"
    and j: "journal_is (md_read (rg_metadata r) REGISTRY_JOURNAL_PATH) recs"
    using c by (auto simp: clean_disk_def)
  obtain d ds where d: "rg_dirtyIds r = d # ds" using assms(2) by (cases "rg_dirtyIds r") auto
  obtain ms where "journal_line (rg_entries r) d = CHR ''{'' # show_members ms @ ''}''"
    using entry_line_obj [of "rg_entries r" d] by auto
  then have t: "take 1 (flush_delta r) = ''{''" by (simp add: flush_delta_def d)
  let ?line = "CHR ''{'' # journal_line es i"
  have jt: "md_read ?m2 REGISTRY_JOURNAL_PATH = Some (journal_text (map reg_enc recs) @ journal_text [?line])"
    using j t by (auto simp: journal_is_def)
  have "LF \<notin> set ?line" using entry_line_obj [of es i] by (auto simp: LF_def simp del: json_show.simps)
      (metis LF_def json_show_no_LF)
  then have "journal_lines (journal_text [?line]) = [?line]"
    using journal_lines_text [of "[?line]" "[]"] by simp
  then have recs: "List.map_filter reg_dec (journal_lines (journal_text (map reg_enc recs) @ journal_text [?line])) = recs"
    using reg_lines.records_text [of recs] by (simp add: map_filter_simps glued_line)
  have snap: "load_snapshot (md_read ?m2 REGISTRY_PATH) = Inr es0" using load_snapshot_is [OF s] by simp
  have "disk_view ?m2 = disk_view (rg_metadata r)"
    unfolding disk_view_def [of ?m2] snap jt sum.case load_journal_recs recs by (simp add: disk_view_is [OF s j])
  moreover obtain r0 where "reg_load s (new_registry (rg_metadata r)) = Inr r0" "rg_entries r0 = disk_view (rg_metadata r)"
    using load_fresh [OF load_snapshot_is [OF s]] by blast
  moreover obtain r2 where "reg_load s (new_registry ?m2) = Inr r2" "rg_entries r2 = disk_view ?m2"
    by (rule load_fresh [of ?m2 es0 s]) (use load_snapshot_is [OF s] in simp_all)
  ultimately show ?thesis by auto
qed

theorem torn_tail_swallows_next_flush_witness:
  "\<exists>r0 r2. reg_load st (new_registry (rg_metadata (fst (registerFile st ''x'' ''p'' (sample_hlc 1) ''h'' None (suspendSaves (new_registry [])))))) = Inr r0 \<and>
    reg_load st (new_registry (md_append REGISTRY_JOURNAL_PATH (journal_text [journal_line [(''x'', entry_x)] ''x''])
      (md_append REGISTRY_JOURNAL_PATH
        (take 1 (flush_delta (fst (registerFile st ''x'' ''p'' (sample_hlc 1) ''h'' None (suspendSaves (new_registry []))))))
        (rg_metadata (fst (registerFile st ''x'' ''p'' (sample_hlc 1) ''h'' None (suspendSaves (new_registry [])))))))) = Inr r2 \<and>
    rg_entries r2 = rg_entries r0"
proof (rule torn_tail_swallows_next_flush)
  have "(reg_step st)\<^sup>*\<^sup>* (new_registry []) (suspendSaves (new_registry []))"
    by (rule r_into_rtranclp) (rule reg_step.suspend)
  then show "(reg_step st)\<^sup>*\<^sup>* (new_registry [])
      (fst (registerFile st ''x'' ''p'' (sample_hlc 1) ''h'' None (suspendSaves (new_registry []))))"
    by (rule rtranclp.rtrancl_into_rtrancl) (rule reg_step.register, simp add: new_registry_def suspendSaves_def)
qed (simp add: registerFile_def path_id_def new_registry_def suspendSaves_def reg_save_def Let_def js_add_def put_entry_def set_index_def)

end
