(* ===== verification/Encoding.thy ===== *)
theory Encoding
  imports Operations
begin

text \<open>
  The conversions of \<open>src/core/encoding.ts\<close> between bytes, base64 and hexadecimal, with \<open>btoa\<close> and
  \<open>atob\<close> of the platform written out (the forgiving decoder of the HTML standard: white space is
  dropped, padding is optional, anything else is refused), and the content hash.  SHA-256 is a
  parameter.
\<close>

section \<open>Base64\<close>

definition b64_char :: "nat \<Rightarrow> char" where
  "b64_char n =
     (if n < 26 then char_of (65 + n) else if n < 52 then char_of (71 + n) else if n < 62 then char_of (n - 4)
      else if n = 62 then CHR ''+'' else CHR ''/'')"

definition b64_val :: "char \<Rightarrow> nat option" where
  "b64_val c =
     (let n = (of_char c :: nat)
      in if 65 \<le> n \<and> n \<le> 90 then Some (n - 65) else if 97 \<le> n \<and> n \<le> 122 then Some (n - 71)
         else if 48 \<le> n \<and> n \<le> 57 then Some (n + 4) else if c = CHR ''+'' then Some 62
         else if c = CHR ''/'' then Some 63 else None)"

text \<open>Groups of three octets to four sextets and back; a partial group loses its spare bits.\<close>

fun sextets :: "nat list \<Rightarrow> nat list" where
  "sextets [] = []"
| "sextets [a] = [a div 4, a mod 4 * 16]"
| "sextets [a, b] = [a div 4, a mod 4 * 16 + b div 16, b mod 16 * 4]"
| "sextets (a # b # c # r) = [a div 4, a mod 4 * 16 + b div 16, b mod 16 * 4 + c div 64, c mod 64] @ sextets r"

fun octets :: "nat list \<Rightarrow> nat list" where
  "octets [] = []"
| "octets [a] = []"
| "octets [a, b] = [a * 4 + b div 16]"
| "octets [a, b, c] = [a * 4 + b div 16, b mod 16 * 16 + c div 4]"
| "octets (a # b # c # d # r) = [a * 4 + b div 16, b mod 16 * 16 + c div 4, c mod 4 * 64 + d] @ octets r"

definition pad_count :: "nat \<Rightarrow> nat" where
  "pad_count n = (if n mod 3 = 1 then 2 else if n mod 3 = 2 then 1 else 0)"

definition btoa :: "string \<Rightarrow> string" where
  "btoa s = map b64_char (sextets (map of_char s)) @ replicate (pad_count (length s)) CHR ''=''"

fun strip_pad :: "nat \<Rightarrow> string \<Rightarrow> string" where
  "strip_pad 0 s = s"
| "strip_pad (Suc n) s = (if s \<noteq> [] \<and> last s = CHR ''='' then strip_pad n (butlast s) else s)"

definition ascii_space :: "char \<Rightarrow> bool" where
  "ascii_space c = (c \<in> set [CHR '' '', CHR 0x09, CHR 0x0A, CHR 0x0C, CHR 0x0D])"

definition atob :: "string \<Rightarrow> string option" where
  "atob s =
     (let s1 = filter (\<lambda>c. \<not> ascii_space c) s;
          s2 = (if length s1 mod 4 = 0 then strip_pad 2 s1 else s1)
      in if length s2 mod 4 = 1 \<or> list_ex (\<lambda>c. b64_val c = None) s2 then None
         else Some (map char_of (octets (map (\<lambda>c. the (b64_val c)) s2))))"

section \<open>The source's functions\<close>

definition char_of_byte :: "byte \<Rightarrow> char" where
  "char_of_byte b = char_of (unat b)"

definition CHUNK :: nat where "CHUNK = 0x8000"

text \<open>The binary string, built chunk by chunk; \<open>js_slice bytes i j\<close> is \<open>bytes.subarray(i, j)\<close>.\<close>

function binary_loop :: "bytes \<Rightarrow> nat \<Rightarrow> string \<Rightarrow> string" where
  "binary_loop bs i binary =
     (if i < length bs then binary_loop bs (i + CHUNK) (binary @ map char_of_byte (take CHUNK (drop i bs))) else binary)"
  by pat_completeness auto
termination
  by (relation "measure (\<lambda>(bs, i, b). length bs - i)") (auto simp: CHUNK_def)

declare binary_loop.simps [simp del]

definition bytesToBase64 :: "bytes \<Rightarrow> string" where
  "bytesToBase64 bs = btoa (binary_loop bs 0 [])"

definition base64ToBytes :: "string \<Rightarrow> bytes option" where
  "base64ToBytes b64 = map_option (map (\<lambda>c. word_of_nat (of_char c))) (atob b64)"

definition hashContent :: "(bytes \<Rightarrow> bytes) \<Rightarrow> bytes \<Rightarrow> string" where
  "hashContent sha content = to_hex (sha content)"

section \<open>Random identifiers\<close>

text \<open>
  \<open>randomUuid\<close>: the platform's identifier where there is one, else the template filled with random
  hexadecimal digits; \<open>r k\<close> is the \<open>k\<close>-th number below sixteen that is drawn.
\<close>

definition UUID_TEMPLATE :: string where "UUID_TEMPLATE = ''xxxxxxxx-xxxx-4xxx-yxxx-xxxxxxxxxxxx''"

fun uuid_fill :: "(nat \<Rightarrow> nat) \<Rightarrow> nat \<Rightarrow> string \<Rightarrow> string" where
  "uuid_fill r k [] = []"
| "uuid_fill r k (c # cs) =
     (if c = CHR ''x'' then hex_digit (r k) # uuid_fill r (k + 1) cs
      else if c = CHR ''y'' then hex_digit (r k mod 4 + 8) # uuid_fill r (k + 1) cs
      else c # uuid_fill r k cs)"

definition randomUuid :: "string option \<Rightarrow> (nat \<Rightarrow> nat) \<Rightarrow> string" where
  "randomUuid native r = (case native of Some u \<Rightarrow> u | None \<Rightarrow> uuid_fill r 0 UUID_TEMPLATE)"

text \<open>A filled template has the form of version 4.\<close>

lemma variant_digit: "hex_digit (n mod 4 + 8) \<in> set ''89ab''"
proof -
  have "n mod 4 = 0 \<or> n mod 4 = 1 \<or> n mod 4 = 2 \<or> n mod 4 = 3" by linarith
  moreover have "char_of (56 :: nat) = CHR ''8''" "char_of (57 :: nat) = CHR ''9''" "char_of (97 :: nat) = CHR ''a''"
    "char_of (98 :: nat) = CHR ''b''" by code_simp+
  ultimately show ?thesis by (elim disjE) (simp_all add: hex_digit_def)
qed

lemma randomUuid_form:
  "length (randomUuid None r) = 36" "randomUuid None r ! 14 = CHR ''4''" "randomUuid None r ! 19 \<in> set ''89ab''"
proof -
  obtain k where "randomUuid None r ! 19 = hex_digit (r k mod 4 + 8)"
    unfolding randomUuid_def UUID_TEMPLATE_def by (simp add: nth_Cons_numeral)
  then show "randomUuid None r ! 19 \<in> set ''89ab''" using variant_digit [of "r k"] by simp
qed (simp_all add: randomUuid_def UUID_TEMPLATE_def)

section \<open>The round trip\<close>

lemma binary_loop_all: "binary_loop bs i b = b @ map char_of_byte (drop i bs)"
proof (induction bs i b rule: binary_loop.induct)
  case (1 bs i b)
  show ?case
  proof (cases "i < length bs")
    case True
    have "drop i bs = take CHUNK (drop i bs) @ drop (i + CHUNK) bs"
      by (metis add.commute append_take_drop_id drop_drop)
    then have "map char_of_byte (drop i bs) =
        map char_of_byte (take CHUNK (drop i bs)) @ map char_of_byte (drop (i + CHUNK) bs)"
      by (metis map_append)
    then show ?thesis using 1 [OF True] True by (simp add: binary_loop.simps [of bs i b])
  next
    case False
    then show ?thesis by (simp add: binary_loop.simps [of bs i b])
  qed
qed

lemma bytesToBase64_code [code]: "bytesToBase64 bs = btoa (map char_of_byte bs)"
  by (simp add: bytesToBase64_def binary_loop_all)

lemma sextets_less: "\<forall>x \<in> set ns. x < 256 \<Longrightarrow> \<forall>x \<in> set (sextets ns). x < 64"
  by (induction ns rule: sextets.induct) auto

lemma octets_sextets: "\<forall>x \<in> set ns. x < 256 \<Longrightarrow> octets (sextets ns) = ns"
proof (induction ns rule: sextets.induct)
  case (4 a b c r)
  have "(a mod 4 * 16 + b div 16) div 16 = a mod 4" "(a mod 4 * 16 + b div 16) mod 16 = b div 16"
    "(b mod 16 * 4 + c div 64) div 4 = b mod 16" "(b mod 16 * 4 + c div 64) mod 4 = c div 64"
    using 4 by auto
  then show ?case using 4 by simp
next
  case (3 a b)
  then have "(a mod 4 * 16 + b div 16) div 16 = a mod 4" "(a mod 4 * 16 + b div 16) mod 16 = b div 16" by auto
  then show ?case by simp
qed simp_all

lemma b64_val_char: "n < 64 \<Longrightarrow> b64_val (b64_char n) = Some n"
  by (auto simp: b64_val_def b64_char_def Let_def)

lemma b64_char_code:
  "n < 64 \<Longrightarrow> of_char (b64_char n) =
     (if n < 26 then 65 + n else if n < 52 then 71 + n else if n < 62 then n - 4 else if n = 62 then 43 else 47)"
  by (auto simp: b64_char_def)

lemma b64_char_plain:
  assumes "n < 64"
  shows "\<not> ascii_space (b64_char n)" "b64_char n \<noteq> CHR ''=''" "b64_char n \<noteq> CHR '' ''" "b64_char n \<noteq> LF"
proof -
  have *: "b64_char n \<noteq> c" if "(of_char c :: nat) < 43 \<or> of_char c = (61 :: nat)" for c
    using b64_char_code [OF assms] that assms by (auto split: if_splits)
  show "\<not> ascii_space (b64_char n)" unfolding ascii_space_def using * by auto
  show "b64_char n \<noteq> CHR ''=''" "b64_char n \<noteq> CHR '' ''" "b64_char n \<noteq> LF" using * by (auto simp: LF_def)
qed

lemma length_sextets: "length (sextets ns) + pad_count (length ns) = 4 * ((length ns + 2) div 3)"
proof (induction ns rule: sextets.induct)
  case (4 a b c r)
  have "(length r + 3) mod 3 = length r mod 3" "(length r + 2 + 3) div 3 = Suc ((length r + 2) div 3)"
    by (simp_all del: add_2_eq_Suc')
  then have "pad_count (length r + 3) = pad_count (length r)" "(length r + 3 + 2) div 3 = Suc ((length r + 2) div 3)"
    unfolding pad_count_def by (simp_all only: add.assoc add.commute [of 3 2])
  moreover have "length (a # b # c # r) = length r + 3" by simp
  ultimately have "pad_count (length (a # b # c # r)) = pad_count (length r)"
    "(length (a # b # c # r) + 2) div 3 = Suc ((length r + 2) div 3)"
    by (simp_all only:)
  then show ?case using 4 by simp
qed (auto simp: pad_count_def)

lemma strip_pad_replicate:
  assumes "k \<le> 2" "xs = [] \<or> last xs \<noteq> CHR ''=''"
  shows "strip_pad 2 (xs @ replicate k CHR ''='') = xs"
proof -
  consider "k = 0" | "k = 1" | "k = 2" using assms(1) by linarith
  then show ?thesis using assms(2) by cases (auto simp: numeral_2_eq_2 butlast_append)
qed

lemma btoa_plain: "c \<in> set (btoa s) \<Longrightarrow> \<not> ascii_space c"
proof -
  assume c: "c \<in> set (btoa s)"
  have "\<forall>x \<in> set (sextets (map of_char s)). x < 64" by (rule sextets_less) auto
  then show ?thesis using c b64_char_plain(1) by (auto simp: btoa_def ascii_space_def)
qed

lemma no_rest_one: "(a :: nat) mod 4 = 1 \<Longrightarrow> b \<le> 2 \<Longrightarrow> a + b = 4 * c \<Longrightarrow> False"
  by presburger

lemma atob_btoa: "atob (btoa s) = Some s"
proof -
  let ?ns = "map of_char s :: nat list" and ?k = "pad_count (length s)"
  let ?m = "map b64_char (sextets ?ns)"
  have less: "\<forall>x \<in> set (sextets ?ns). x < 64" by (rule sextets_less) auto
  have nosp: "filter (\<lambda>c. \<not> ascii_space c) (btoa s) = btoa s" using btoa_plain by (simp add: filter_id_conv)
  have len: "length (btoa s) = 4 * ((length s + 2) div 3)"
    using length_sextets [of ?ns] by (simp add: btoa_def)
  have "?m = [] \<or> last ?m \<noteq> CHR ''=''"
    using less b64_char_plain(2) by (metis last_in_set last_map list.map_disc_iff)
  then have strip: "strip_pad 2 (btoa s) = ?m" unfolding btoa_def by (intro strip_pad_replicate) (auto simp: pad_count_def)
  have vals: "map (\<lambda>c. the (b64_val c)) ?m = sextets ?ns"
    using less by (simp add: map_idI b64_val_char)
  have ok: "\<not> list_ex (\<lambda>c. b64_val c = None) ?m" using less by (auto simp: list_ex_iff b64_val_char)
  have "length ?m mod 4 \<noteq> 1"
  proof
    assume "length ?m mod 4 = 1"
    then have "length (sextets ?ns) mod 4 = 1" by simp
    moreover have "pad_count (length s) \<le> 2" by (simp add: pad_count_def)
    moreover have "length (sextets ?ns) + pad_count (length s) = 4 * ((length s + 2) div 3)"
      using length_sextets [of ?ns] by simp
    ultimately show False by (rule no_rest_one)
  qed
  then show ?thesis using ok vals strip nosp len octets_sextets [of ?ns]
    by (simp add: atob_def Let_def comp_def)
qed

lemma base64_roundtrip [simp]: "base64ToBytes (bytesToBase64 bs) = Some bs"
proof -
  have "word_of_nat (of_char (char_of_byte b)) = b" for b
    using unsigned_less [of b, where ?'a = nat] by (simp add: char_of_byte_def)
  then show ?thesis by (simp add: base64ToBytes_def bytesToBase64_def atob_btoa binary_loop_all comp_def)
qed

lemma base64_inj [simp]: "bytesToBase64 x = bytesToBase64 y \<longleftrightarrow> x = y"
  by (metis base64_roundtrip option.inject)

lemma base64_no_space: "c \<in> set (bytesToBase64 bs) \<Longrightarrow> c \<noteq> CHR '' '' \<and> c \<noteq> LF"
  using btoa_plain unfolding bytesToBase64_def by (auto simp: ascii_space_def LF_def)

end
