(* ===== verification/ContentStore.thy ===== *)
theory ContentStore
  imports Encoding Journal
begin

text \<open>
  The content store, \<open>src/core/content-store.ts\<close>: blobs in pack files, an append-only index of their
  places, a bounded cache in least-recently-used order and a buffer of blobs that wait for the
  next pack.  The store and the files it keeps in the metadata store are one record; SHA-256 is
  the argument \<open>sha\<close> of the operations that verify what they read, and the modification times of
  the pack files the argument \<open>stat\<close> of the collector (\<open>None\<close> when the call finds no file or
  throws).  The only throw of the source is that of \<open>atob\<close> on text that is not base64; a fallible
  operation returns the store as the throw leaves it.  Directories are implicit, and the
  performance counters are left out.
\<close>

section \<open>State\<close>

definition PACK_DIR :: string where "PACK_DIR = ''.opsblobs/content/pack''"
definition PACK_INDEX_PATH :: string where "PACK_INDEX_PATH = ''.opsblobs/content/pack/index''"
definition MEM_CACHE_BUDGET_BYTES :: int where "MEM_CACHE_BUDGET_BYTES = 8 * 1024 * 1024"

record PackLoc =
  pl_packId :: string
  pl_offset :: nat
  pl_len :: nat

record content_store =
  cs_memCache :: "(string, bytes) jsmap"
  cs_memBytes :: int
  cs_index :: "(string, PackLoc) jsmap"
  cs_packBuffer :: "(string \<times> string) list"
  cs_pending :: "string list"
  cs_nextPackId :: nat
  cs_memBudgetBytes :: int
  cs_metadata :: metadata

definition new_content_store :: "int \<Rightarrow> metadata \<Rightarrow> content_store" where
  "new_content_store budget m =
     \<lparr> cs_memCache = [], cs_memBytes = 0, cs_index = [], cs_packBuffer = [], cs_pending = [],
       cs_nextPackId = 0, cs_memBudgetBytes = budget, cs_metadata = m \<rparr>"

definition packPath :: "string \<Rightarrow> string" where
  "packPath packId = PACK_DIR @ ''/'' @ packId @ ''.pack''"

section \<open>The cache\<close>

definition evict_step :: "string \<times> bytes \<Rightarrow> content_store \<Rightarrow> content_store" where
  "evict_step = (\<lambda>(h, content) c.
     if cs_memBytes c \<le> cs_memBudgetBytes c \<or> h \<in> set (cs_pending c) then c
     else c\<lparr> cs_memBytes := cs_memBytes c - int (length content),
             cs_memCache := jm_delete h (cs_memCache c) \<rparr>)"

definition evictToBudget :: "content_store \<Rightarrow> content_store" where
  "evictToBudget c =
     (if cs_memBytes c \<le> cs_memBudgetBytes c then c else fold evict_step (cs_memCache c) c)"

definition cached_bytes :: "string \<Rightarrow> content_store \<Rightarrow> int" where
  "cached_bytes h c = (case jm_get (cs_memCache c) h of Some prev \<Rightarrow> int (length prev) | None \<Rightarrow> 0)"

definition cacheSet :: "string \<Rightarrow> bytes \<Rightarrow> content_store \<Rightarrow> content_store" where
  "cacheSet h content c =
     evictToBudget
       (c\<lparr> cs_memCache := jm_set h content (jm_delete h (cs_memCache c)),
           cs_memBytes := cs_memBytes c - cached_bytes h c + int (length content) \<rparr>)"

definition cacheDelete :: "string \<Rightarrow> content_store \<Rightarrow> content_store" where
  "cacheDelete h c =
     c\<lparr> cs_memBytes := cs_memBytes c - cached_bytes h c, cs_memCache := jm_delete h (cs_memCache c) \<rparr>"

definition clearMemCache :: "content_store \<Rightarrow> content_store" where
  "clearMemCache c = c\<lparr> cs_memCache := [], cs_memBytes := 0 \<rparr>"

section \<open>Loading the index\<close>

text \<open>
  \<open>Number(s)\<close> of the strings a pack index can hold between its spaces: digits, or nothing, which
  counts as zero.  Other text is taken as not a number.
\<close>

definition js_number :: "string \<Rightarrow> nat option" where
  "js_number s = (if list_all is_digit s then Some (digits_value s) else None)"

definition parse_index_line :: "string \<Rightarrow> (string \<times> PackLoc) option" where
  "parse_index_line line =
     (if line = [] then None
      else
        (case splitOn CHR '' '' line of
           [h, packId, off, ln] \<Rightarrow>
             (case (js_number off, js_number ln) of
                (Some offset, Some len) \<Rightarrow>
                  if h = [] \<or> packId = [] then None
                  else Some (h, \<lparr> pl_packId = packId, pl_offset = offset, pl_len = len \<rparr>)
              | _ \<Rightarrow> None)
         | _ \<Rightarrow> None))"

definition load_index_line :: "string \<Rightarrow> (string, PackLoc) jsmap \<Rightarrow> (string, PackLoc) jsmap" where
  "load_index_line line idx = (case parse_index_line line of None \<Rightarrow> idx | Some (h, loc) \<Rightarrow> jm_set h loc idx)"

text \<open>The number of a pack file, from the last component of its path.\<close>

definition pack_number :: "string \<Rightarrow> nat option" where
  "pack_number p =
     (let name = last (splitOn CHR ''/'' p); ds = take (length name - 5) name
      in if drop (length name - 5) name = ''.pack'' \<and> ds \<noteq> [] \<and> list_all is_digit ds
         then Some (digits_value ds) else None)"

text \<open>\<open>maxId + 1\<close>, where \<open>maxId\<close> starts at \<open>-1\<close>.\<close>

definition next_pack_id :: "string list \<Rightarrow> nat" where
  "next_pack_id ps = fold (\<lambda>p n. case pack_number p of None \<Rightarrow> n | Some k \<Rightarrow> max n (k + 1)) ps 0"

definition loadPackIndex :: "content_store \<Rightarrow> content_store" where
  "loadPackIndex c =
     (let m = cs_metadata c;
          idx = (case md_read m PACK_INDEX_PATH of
                   None \<Rightarrow> cs_index c
                 | Some raw \<Rightarrow> fold load_index_line (splitOn LF raw) (cs_index c))
      in c\<lparr> cs_index := idx, cs_nextPackId := next_pack_id (md_list m PACK_DIR) \<rparr>)"

text \<open>A fresh store on the files, initialised.\<close>

definition cs_init :: "int \<Rightarrow> metadata \<Rightarrow> content_store" where
  "cs_init budget m = loadPackIndex (new_content_store budget m)"

section \<open>Writing\<close>

definition putBuffered :: "string \<Rightarrow> bytes \<Rightarrow> content_store \<Rightarrow> content_store" where
  "putBuffered h content c =
     (if jm_has (cs_memCache c) h \<or> h \<in> set (cs_pending c) then c
      else
        (let c1 = cacheSet h content (c\<lparr> cs_pending := js_add h (cs_pending c) \<rparr>)
         in c1\<lparr> cs_packBuffer := cs_packBuffer c1 @ [(h, bytesToBase64 content)] \<rparr>))"

text \<open>The record of a blob in a pack and its line in the index.\<close>

definition pack_header :: "string \<Rightarrow> string \<Rightarrow> string" where
  "pack_header h b64 = h @ '' '' @ show_nat (length b64) @ [LF]"

definition index_line :: "string \<times> PackLoc \<Rightarrow> string" where
  "index_line = (\<lambda>(h, loc). h @ '' '' @ pl_packId loc @ '' '' @ show_nat (pl_offset loc) @ '' '' @ show_nat (pl_len loc))"

text \<open>The loop of \<open>flushPack\<close>: the body of the pack, the new places and the lines of the index.\<close>

fun flush_loop ::
  "string \<Rightarrow> (string \<times> string) list \<Rightarrow> string \<Rightarrow> (string, PackLoc) jsmap \<Rightarrow> string \<Rightarrow> string \<times> (string, PackLoc) jsmap \<times> string"
where
  "flush_loop packId [] packBody idx idxDelta = (packBody, idx, idxDelta)"
| "flush_loop packId ((h, b64) # bs) packBody idx idxDelta =
     (let header = pack_header h b64;
          loc = \<lparr> pl_packId = packId, pl_offset = length packBody + length header, pl_len = length b64 \<rparr>
      in flush_loop packId bs (packBody @ header @ b64 @ [LF]) (jm_set h loc idx)
           (idxDelta @ index_line (h, loc) @ [LF]))"

text \<open>The two appends of a flush, the pack first.\<close>

definition flush_writes :: "string \<Rightarrow> string \<Rightarrow> string \<Rightarrow> (metadata \<Rightarrow> metadata) list" where
  "flush_writes packId packBody idxDelta =
     [md_append (packPath packId) packBody, md_append PACK_INDEX_PATH idxDelta]"

definition flushPack :: "content_store \<Rightarrow> content_store" where
  "flushPack c =
     (if cs_packBuffer c = [] then c
      else
        (let packId = show_nat (cs_nextPackId c)
         in case flush_loop packId (cs_packBuffer c) [] (cs_index c) [] of
              (packBody, idx, idxDelta) \<Rightarrow>
                evictToBudget
                  (c\<lparr> cs_nextPackId := cs_nextPackId c + 1, cs_index := idx,
                      cs_metadata := fold (\<lambda>w m. w m) (flush_writes packId packBody idxDelta) (cs_metadata c),
                      cs_packBuffer := [], cs_pending := [] \<rparr>)))"

definition cs_put :: "string \<Rightarrow> bytes \<Rightarrow> content_store \<Rightarrow> content_store" where
  "cs_put h content c = flushPack (putBuffered h content c)"

section \<open>Reading\<close>

text \<open>\<open>s.substr(offset, len)\<close>.\<close>

definition js_substr :: "string \<Rightarrow> nat \<Rightarrow> nat \<Rightarrow> string" where
  "js_substr s offset len = take len (drop offset s)"

fun pack_scan ::
  "(bytes \<Rightarrow> bytes) \<Rightarrow> string \<Rightarrow> string \<Rightarrow> string \<Rightarrow> (string, PackLoc) jsmap \<Rightarrow> bytes option \<Rightarrow> content_store \<Rightarrow>
     content_store \<times> (io_error + bytes option)"
where
  "pack_scan sha h packId pack [] found c = (c, Inr found)"
| "pack_scan sha h packId pack ((k, l) # ls) found c =
     (if pl_packId l \<noteq> packId \<or> jm_has (cs_memCache c) k then pack_scan sha h packId pack ls found c
      else
        (let body = js_substr pack (pl_offset l) (pl_len l)
         in if length body \<noteq> pl_len l then pack_scan sha h packId pack ls found c
            else
              (case base64ToBytes body of
                 None \<Rightarrow> (c, Inl InvalidCharErr)
               | Some content \<Rightarrow>
                   if hashContent sha content \<noteq> k then pack_scan sha h packId pack ls found c
                   else pack_scan sha h packId pack ls (if k = h then Some content else found) (cacheSet k content c))))"

definition getFromPack :: "(bytes \<Rightarrow> bytes) \<Rightarrow> string \<Rightarrow> content_store \<Rightarrow> content_store \<times> (io_error + bytes option)" where
  "getFromPack sha h c =
     (case jm_get (cs_index c) h of
        None \<Rightarrow> (c, Inr None)
      | Some loc \<Rightarrow>
          (case md_read (cs_metadata c) (packPath (pl_packId loc)) of
             None \<Rightarrow> (c, Inr None)
           | Some pack \<Rightarrow> pack_scan sha h (pl_packId loc) pack (cs_index c) (jm_get (cs_memCache c) h) c))"

definition cs_get :: "(bytes \<Rightarrow> bytes) \<Rightarrow> string \<Rightarrow> content_store \<Rightarrow> content_store \<times> (io_error + bytes option)" where
  "cs_get sha h c =
     (case jm_get (cs_memCache c) h of
        Some content \<Rightarrow> (c\<lparr> cs_memCache := jm_set h content (jm_delete h (cs_memCache c)) \<rparr>, Inr (Some content))
      | None \<Rightarrow> getFromPack sha h c)"

definition hasStored :: "content_store \<Rightarrow> string \<Rightarrow> bool" where
  "hasStored c h = (jm_has (cs_memCache c) h \<or> jm_has (cs_index c) h)"

definition listHashes :: "content_store \<Rightarrow> string list" where
  "listHashes c = jm_keys (cs_index c)"

section \<open>Dropping blobs\<close>

definition index_text :: "(string, PackLoc) jsmap \<Rightarrow> string" where
  "index_text idx = journal_text (map index_line idx)"

definition rewriteIndex :: "content_store \<Rightarrow> content_store" where
  "rewriteIndex c = c\<lparr> cs_metadata := md_write PACK_INDEX_PATH (index_text (cs_index c)) (cs_metadata c) \<rparr>"

definition index_delete :: "string \<Rightarrow> content_store \<Rightarrow> content_store" where
  "index_delete h c = c\<lparr> cs_index := jm_delete h (cs_index c) \<rparr>"

definition cs_delete :: "string \<Rightarrow> content_store \<Rightarrow> content_store" where
  "cs_delete h c =
     (let c1 = cacheDelete h c
      in if jm_has (cs_index c1) h then rewriteIndex (index_delete h c1) else c1)"

definition remove_pack :: "string \<Rightarrow> content_store \<Rightarrow> content_store" where
  "remove_pack packId c = c\<lparr> cs_metadata := md_remove (packPath packId) (cs_metadata c) \<rparr>"

text \<open>The hashes of each pack, in the order of the index.\<close>

definition pack_members :: "(string, PackLoc) jsmap \<Rightarrow> (string, string list) jsmap" where
  "pack_members idx =
     fold (\<lambda>(h, loc) ms.
             jm_set (pl_packId loc) ((case jm_get ms (pl_packId loc) of None \<Rightarrow> [] | Some hs \<Rightarrow> hs) @ [h]) ms)
       idx []"

definition live_count :: "string list \<Rightarrow> string list \<Rightarrow> nat" where
  "live_count keep hs = length (filter (\<lambda>h. h \<in> set keep) hs)"

definition packAged :: "(string \<Rightarrow> nat option) \<Rightarrow> int \<Rightarrow> int \<Rightarrow> string \<Rightarrow> bool" where
  "packAged stat retentionMs now packId =
     (case stat (packPath packId) of None \<Rightarrow> False | Some mtime \<Rightarrow> now - int mtime \<ge> retentionMs)"

definition drop_member :: "string \<Rightarrow> content_store \<Rightarrow> content_store" where
  "drop_member h c = cacheDelete h (index_delete h c)"

definition retire_pack :: "string \<Rightarrow> string list \<Rightarrow> content_store \<Rightarrow> content_store" where
  "retire_pack packId hs c = fold drop_member hs (remove_pack packId c)"

text \<open>The members that still point at a pack whose live blobs have moved.\<close>

definition drop_stale :: "string \<Rightarrow> string \<Rightarrow> content_store \<Rightarrow> content_store" where
  "drop_stale packId h c =
     (case jm_get (cs_index c) h of
        Some loc \<Rightarrow> if pl_packId loc = packId then drop_member h c else c
      | None \<Rightarrow> c)"

text \<open>The re-buffering of the live blobs of a pack.\<close>

fun rebuffer :: "(bytes \<Rightarrow> bytes) \<Rightarrow> string list \<Rightarrow> content_store \<Rightarrow> content_store \<times> (io_error + unit)" where
  "rebuffer sha [] c = (c, Inr ())"
| "rebuffer sha (h # hs) c =
     (case cs_get sha h c of
        (c1, Inl x) \<Rightarrow> (c1, Inl x)
      | (c1, Inr None) \<Rightarrow> rebuffer sha hs c1
      | (c1, Inr (Some content)) \<Rightarrow>
          rebuffer sha hs
            (c1\<lparr> cs_pending := js_add h (cs_pending c1),
                 cs_packBuffer := cs_packBuffer c1 @ [(h, bytesToBase64 content)] \<rparr>))"

definition compactPack ::
  "(bytes \<Rightarrow> bytes) \<Rightarrow> string list \<Rightarrow> string \<Rightarrow> content_store \<Rightarrow> content_store \<times> (io_error + unit)" where
  "compactPack sha keep packId c =
     (let members = map fst (filter (\<lambda>(h, loc). pl_packId loc = packId) (cs_index c));
          live = filter (\<lambda>h. h \<in> set keep) members
      in case rebuffer sha live c of
           (c1, Inl x) \<Rightarrow> (c1, Inl x)
         | (c1, Inr _) \<Rightarrow> (fold (drop_stale packId) members (remove_pack packId (flushPack c1)), Inr ()))"

fun compact_all ::
  "(bytes \<Rightarrow> bytes) \<Rightarrow> string list \<Rightarrow> string list \<Rightarrow> content_store \<Rightarrow> content_store \<times> (io_error + unit)" where
  "compact_all sha keep [] c = (c, Inr ())"
| "compact_all sha keep (p # ps) c =
     (case compactPack sha keep p c of
        (c1, Inl x) \<Rightarrow> (c1, Inl x)
      | (c1, Inr _) \<Rightarrow> compact_all sha keep ps c1)"

text \<open>The collector's pass over the packs; a live fraction below one half is \<open>2 * live < total\<close>.\<close>

fun gc_scan ::
  "(string \<Rightarrow> bool) \<Rightarrow> string list \<Rightarrow> (string \<times> string list) list \<Rightarrow> content_store \<Rightarrow> string list \<Rightarrow> bool \<Rightarrow>
     content_store \<times> string list \<times> bool"
where
  "gc_scan aged keep [] c toCompact dirty = (c, toCompact, dirty)"
| "gc_scan aged keep ((p, hs) # ms) c toCompact dirty =
     (if \<not> aged p then gc_scan aged keep ms c toCompact dirty
      else if live_count keep hs = 0 then gc_scan aged keep ms (retire_pack p hs c) toCompact True
      else if live_count keep hs < length hs \<and> 2 * live_count keep hs < length hs then
        gc_scan aged keep ms c (toCompact @ [p]) dirty
      else gc_scan aged keep ms c toCompact dirty)"

definition cs_gc ::
  "(bytes \<Rightarrow> bytes) \<Rightarrow> (string \<Rightarrow> nat option) \<Rightarrow> string list \<Rightarrow> int \<Rightarrow> int \<Rightarrow> content_store \<Rightarrow>
     content_store \<times> (io_error + unit)" where
  "cs_gc sha stat keep retentionMs now c =
     (case gc_scan (packAged stat retentionMs now) keep (pack_members (cs_index c)) c [] False of
        (c1, toCompact, dirty) \<Rightarrow>
          (case compact_all sha keep toCompact c1 of
             (c2, Inl x) \<Rightarrow> (c2, Inl x)
           | (c2, Inr _) \<Rightarrow> (if dirty \<or> toCompact \<noteq> [] then rewriteIndex c2 else c2, Inr ())))"

section \<open>Consolidating the packs\<close>

record consolidation =
  cn_packsBefore :: nat
  cn_packsAfter :: nat
  cn_blobsKept :: nat
  cn_blobsDropped :: nat
  cn_smReads :: nat
  cn_smFlushes :: nat
  cn_smRemoves :: nat
  cn_retireRemoves :: nat
  cn_compactInPlacePacks :: nat

definition no_consolidation :: consolidation where
  "no_consolidation = \<lparr> cn_packsBefore = 0, cn_packsAfter = 0, cn_blobsKept = 0, cn_blobsDropped = 0, cn_smReads = 0,
     cn_smFlushes = 0, cn_smRemoves = 0, cn_retireRemoves = 0, cn_compactInPlacePacks = 0 \<rparr>"

definition members_of :: "(string, string list) jsmap \<Rightarrow> string \<Rightarrow> string list" where
  "members_of ms p = (case jm_get ms p of None \<Rightarrow> [] | Some hs \<Rightarrow> hs)"

definition retire_all ::
  "(string, string list) jsmap \<Rightarrow> string list \<Rightarrow> content_store \<times> consolidation \<Rightarrow> content_store \<times> consolidation" where
  "retire_all ms = fold (\<lambda>p (c, n).
     (retire_pack p (members_of ms p) c,
      n\<lparr> cn_retireRemoves := cn_retireRemoves n + 1,
         cn_blobsDropped := cn_blobsDropped n + length (members_of ms p) \<rparr>))"

text \<open>The removal of a pack whose live blobs a flush has made durable elsewhere.\<close>

definition remove_moved :: "(string, string list) jsmap \<Rightarrow> string \<Rightarrow> content_store \<Rightarrow> content_store" where
  "remove_moved ms p c = fold (drop_stale p) (members_of ms p) (remove_pack p c)"

definition flushAndRetireDeferred ::
  "(string, string list) jsmap \<Rightarrow> content_store \<times> consolidation \<times> string list \<Rightarrow> content_store \<times> consolidation \<times> string list"
where
  "flushAndRetireDeferred ms = (\<lambda>(c, n, pendingRemoval).
     if cs_packBuffer c = [] \<and> pendingRemoval = [] then (c, n, pendingRemoval)
     else
       (fold (remove_moved ms) pendingRemoval (flushPack c),
        n\<lparr> cn_smFlushes := cn_smFlushes n + 1, cn_smRemoves := cn_smRemoves n + length pendingRemoval \<rparr>, []))"

definition count_dropped :: "consolidation \<Rightarrow> consolidation" where
  "count_dropped n = n\<lparr> cn_blobsDropped := cn_blobsDropped n + 1 \<rparr>"

text \<open>The blobs of one pack, moved into the buffer.\<close>

fun merge_members ::
  "(bytes \<Rightarrow> bytes) \<Rightarrow> string list \<Rightarrow> string \<Rightarrow> string \<Rightarrow> string list \<Rightarrow> content_store \<Rightarrow> consolidation \<Rightarrow>
     content_store \<times> consolidation \<times> (io_error + unit)"
where
  "merge_members sha keep p packText [] c n = (c, n, Inr ())"
| "merge_members sha keep p packText (h # hs) c n =
     (case jm_get (cs_index c) h of
        None \<Rightarrow> merge_members sha keep p packText hs c n
      | Some loc \<Rightarrow>
          if pl_packId loc \<noteq> p then merge_members sha keep p packText hs c n
          else if h \<notin> set keep then merge_members sha keep p packText hs c (count_dropped n)
          else
            (let body = js_substr packText (pl_offset loc) (pl_len loc)
             in if length body \<noteq> pl_len loc then merge_members sha keep p packText hs c (count_dropped n)
                else
                  (case base64ToBytes body of
                     None \<Rightarrow> (c, n, Inl InvalidCharErr)
                   | Some content \<Rightarrow>
                       if hashContent sha content \<noteq> h then merge_members sha keep p packText hs c (count_dropped n)
                       else merge_members sha keep p packText hs
                              (c\<lparr> cs_packBuffer := cs_packBuffer c @ [(h, body)] \<rparr>)
                              (n\<lparr> cn_blobsKept := cn_blobsKept n + 1 \<rparr>))))"

fun stream_merge ::
  "(bytes \<Rightarrow> bytes) \<Rightarrow> string list \<Rightarrow> nat \<Rightarrow> (string, string list) jsmap \<Rightarrow> string list \<Rightarrow>
     content_store \<times> consolidation \<times> string list \<Rightarrow> content_store \<times> consolidation \<times> (io_error + unit)"
where
  "stream_merge sha keep flushEvery ms [] (c, n, pend) =
     (case flushAndRetireDeferred ms (c, n, pend) of (c1, n1, _) \<Rightarrow> (c1, n1, Inr ()))"
| "stream_merge sha keep flushEvery ms (p # ps) (c, n, pend) =
     (let n0 = n\<lparr> cn_smReads := cn_smReads n + 1 \<rparr>
      in case md_read (cs_metadata c) (packPath p) of
           None \<Rightarrow> stream_merge sha keep flushEvery ms ps (c, n0, pend)
         | Some packText \<Rightarrow>
             (case merge_members sha keep p packText (members_of ms p) c n0 of
                (c1, n1, Inl x) \<Rightarrow> (c1, n1, Inl x)
              | (c1, n1, Inr _) \<Rightarrow>
                  stream_merge sha keep flushEvery ms ps
                    (if length (cs_packBuffer c1) \<ge> flushEvery then flushAndRetireDeferred ms (c1, n1, pend @ [p])
                     else (c1, n1, pend @ [p]))))"

fun compact_in_place ::
  "(bytes \<Rightarrow> bytes) \<Rightarrow> string list \<Rightarrow> (string, string list) jsmap \<Rightarrow> string list \<Rightarrow> content_store \<Rightarrow> consolidation \<Rightarrow>
     content_store \<times> consolidation \<times> (io_error + unit)"
where
  "compact_in_place sha keep ms [] c n = (c, n, Inr ())"
| "compact_in_place sha keep ms (p # ps) c n =
     (let liveBefore = live_count keep (members_of ms p)
      in case compactPack sha keep p c of
           (c1, Inl x) \<Rightarrow> (c1, n, Inl x)
         | (c1, Inr _) \<Rightarrow>
             compact_in_place sha keep ms ps c1
               (n\<lparr> cn_compactInPlacePacks := cn_compactInPlacePacks n + 1,
                   cn_blobsKept := cn_blobsKept n + liveBefore,
                   cn_blobsDropped := cn_blobsDropped n + (length (members_of ms p) - liveBefore) \<rparr>))"

definition consolidatePacks ::
  "(bytes \<Rightarrow> bytes) \<Rightarrow> string list \<Rightarrow> nat \<Rightarrow> nat \<Rightarrow> content_store \<Rightarrow> content_store \<times> (io_error + consolidation)" where
  "consolidatePacks sha keep smallPackThreshold flushEvery c =
     (let ms = pack_members (cs_index c);
          live = (\<lambda>p. live_count keep (members_of ms p));
          toRetire = filter (\<lambda>p. live p = 0) (jm_keys ms);
          toStreamMerge = filter (\<lambda>p. live p \<noteq> 0 \<and> live p < smallPackThreshold) (jm_keys ms);
          toCompactInPlace = filter (\<lambda>p. live p \<noteq> 0 \<and> \<not> live p < smallPackThreshold \<and> live p < length (members_of ms p)) (jm_keys ms)
      in case retire_all ms toRetire (c, no_consolidation\<lparr> cn_packsBefore := length ms \<rparr>) of
           (c1, n1) \<Rightarrow>
             (case stream_merge sha keep flushEvery ms toStreamMerge (c1, n1, []) of
                (c2, n2, Inl x) \<Rightarrow> (c2, Inl x)
              | (c2, n2, Inr _) \<Rightarrow>
                  (case compact_in_place sha keep ms toCompactInPlace c2 n2 of
                     (c3, n3, Inl x) \<Rightarrow> (c3, Inl x)
                   | (c3, n3, Inr _) \<Rightarrow>
                       (let c4 = (if toRetire \<noteq> [] \<or> toStreamMerge \<noteq> [] \<or> toCompactInPlace \<noteq> [] then rewriteIndex c3 else c3)
                        in (c4, Inr (n3\<lparr> cn_packsAfter := length (js_set_of (map (\<lambda>(h, loc). pl_packId loc) (cs_index c4))) \<rparr>))))))"

end
