(* ===== verification/ContentLaws.thy ===== *)
theory ContentLaws
  imports ContentStore
begin

text \<open>
  The laws of the content store.  \<open>cache_inv\<close> holds whatever is on disk: the byte counter is the sum
  of the cached blobs, the cache is within its budget unless all of it is waiting for a flush,
  and every cached or buffered blob hashes to its key.  \<open>packs_inv\<close> is about the files of a store
  that nobody else writes: the index on disk is the index in memory, every place holds base64
  or lies beyond its file, pack numbers are not reused, and a cached blob is buffered or can be
  read back.
\<close>

section \<open>Field laws\<close>

text \<open>Operations on the cache change the cache and its counter only.\<close>

definition same_but_cache :: "content_store \<Rightarrow> content_store \<Rightarrow> bool" where
  "same_but_cache c d =
     (cs_index d = cs_index c \<and> cs_packBuffer d = cs_packBuffer c \<and> cs_pending d = cs_pending c \<and>
      cs_nextPackId d = cs_nextPackId c \<and> cs_memBudgetBytes d = cs_memBudgetBytes c \<and> cs_metadata d = cs_metadata c)"

lemma same_refl [simp]: "same_but_cache c c"
  by (simp add: same_but_cache_def)

lemma same_trans: "same_but_cache c d \<Longrightarrow> same_but_cache d e \<Longrightarrow> same_but_cache c e"
  by (simp add: same_but_cache_def)

lemma evict_fold_same: "same_but_cache c (fold evict_step ms c)"
proof (induction ms arbitrary: c)
  case (Cons m ms)
  have "same_but_cache c (evict_step m c)" by (cases m) (simp add: evict_step_def same_but_cache_def)
  then show ?case using Cons [of "evict_step m c"] same_trans by simp
qed simp

lemma evict_same: "same_but_cache c (evictToBudget c)"
  by (simp add: evictToBudget_def evict_fold_same)

lemma cacheSet_same: "same_but_cache c (cacheSet h b c)"
proof -
  have "same_but_cache c (c\<lparr> cs_memCache := jm_set h b (jm_delete h (cs_memCache c)),
      cs_memBytes := cs_memBytes c - cached_bytes h c + int (length b) \<rparr>)" by (simp add: same_but_cache_def)
  then show ?thesis unfolding cacheSet_def using evict_same same_trans by blast
qed

lemma cacheDelete_same: "same_but_cache c (cacheDelete h c)"
  by (simp add: cacheDelete_def same_but_cache_def)

lemmas same_simps [simp] = evict_same [unfolded same_but_cache_def] cacheSet_same [unfolded same_but_cache_def]
  cacheDelete_same [unfolded same_but_cache_def]

section \<open>The cache\<close>

definition total_bytes :: "(string, bytes) jsmap \<Rightarrow> int" where
  "total_bytes m = sum_list (map (\<lambda>(h, b). int (length b)) m)"

lemma jm_delete_filter: "jm_delete k m = filter (\<lambda>(j, _). k \<noteq> j) m"
  by (simp add: AList.delete_eq)

lemma delete_absent: "k \<notin> set (map fst m) \<Longrightarrow> jm_delete k m = m"
  by (induction m) auto

lemma total_delete:
  "jm_wf m \<Longrightarrow> total_bytes (jm_delete h m) = total_bytes m - (case jm_get m h of Some b \<Rightarrow> int (length b) | None \<Rightarrow> 0)"
proof (induction m)
  case (Cons x m)
  then show ?case using delete_absent [of h m]
    by (cases x) (auto simp: total_bytes_def jm_wf_def map_of_eq_None_iff split: option.splits)
qed (simp add: total_bytes_def)

lemma set_absent: "k \<notin> set (map fst m) \<Longrightarrow> jm_set k v m = m @ [(k, v)]"
  by (induction m) auto

lemma reinsert: "jm_set h b (jm_delete h m) = jm_delete h m @ [(h, b)]"
  by (rule set_absent) (auto simp: jm_delete_filter)

lemma total_append [simp]: "total_bytes (m @ n) = total_bytes m + total_bytes n"
  by (simp add: total_bytes_def)

lemma total_nonneg: "0 \<le> total_bytes m"
  unfolding total_bytes_def by (rule sum_list_nonneg) auto

definition within_budget :: "content_store \<Rightarrow> bool" where
  "within_budget c = (cs_memBytes c \<le> cs_memBudgetBytes c \<or> set (jm_keys (cs_memCache c)) \<subseteq> set (cs_pending c))"

definition counter_ok :: "content_store \<Rightarrow> bool" where
  "counter_ok c = (jm_wf (cs_memCache c) \<and> cs_memBytes c = total_bytes (cs_memCache c))"

lemma evict_step_counter: "counter_ok c \<Longrightarrow> jm_get (cs_memCache c) h = Some b \<Longrightarrow> counter_ok (evict_step (h, b) c)"
  by (simp add: counter_ok_def evict_step_def total_delete)

lemma evict_fold_bytes: "cs_memBytes (fold evict_step ms c) \<le> cs_memBytes c"
proof (induction ms arbitrary: c)
  case (Cons m ms)
  have "cs_memBytes (evict_step m c) \<le> cs_memBytes c" by (cases m) (simp add: evict_step_def)
  then show ?case using Cons [of "evict_step m c"] by simp
qed simp

lemma evict_fold:
  assumes "counter_ok c" and "distinct (map fst ms)" and "set ms \<subseteq> set (cs_memCache c)"
  shows "counter_ok (fold evict_step ms c) \<and>
    (\<forall>k b. jm_get (cs_memCache (fold evict_step ms c)) k = Some b \<longrightarrow> jm_get (cs_memCache c) k = Some b) \<and>
    (cs_memBytes (fold evict_step ms c) \<le> cs_memBudgetBytes c \<or>
     (\<forall>k \<in> set (map fst ms). k \<in> set (cs_pending c) \<or> jm_get (cs_memCache (fold evict_step ms c)) k = None))"
  using assms
proof (induction ms arbitrary: c)
  case (Cons m ms)
  obtain h x where m: "m = (h, x)" by (cases m)
  let ?d = "evict_step m c" and ?e = "fold evict_step (m # ms) c"
  have wf: "jm_wf (cs_memCache c)" using Cons.prems by (simp add: counter_ok_def)
  have hx: "jm_get (cs_memCache c) h = Some x" using Cons.prems m jm_wf_get [OF wf] by auto
  have d: "counter_ok ?d" using evict_step_counter [OF _ hx] Cons.prems m by simp
  have sub: "set ms \<subseteq> set (cs_memCache ?d)"
    using Cons.prems m by (auto simp: evict_step_def jm_delete_filter rev_image_eqI)
  have b: "cs_memBudgetBytes ?d = cs_memBudgetBytes c" "cs_pending ?d = cs_pending c"
    by (simp_all add: m evict_step_def)
  have IH: "counter_ok ?e" "\<And>k b. jm_get (cs_memCache ?e) k = Some b \<Longrightarrow> jm_get (cs_memCache ?d) k = Some b"
    "cs_memBytes ?e \<le> cs_memBudgetBytes c \<or>
     (\<forall>k \<in> set (map fst ms). k \<in> set (cs_pending c) \<or> jm_get (cs_memCache ?e) k = None)"
    using Cons.IH [OF d _ sub] Cons.prems(2) b by auto
  have mono: "jm_get (cs_memCache ?d) k = Some b \<Longrightarrow> jm_get (cs_memCache c) k = Some b" for k b
    by (auto simp: m evict_step_def split: if_splits)
  have gone: "h \<in> set (cs_pending c) \<or> jm_get (cs_memCache ?e) h = None" if "\<not> cs_memBytes ?e \<le> cs_memBudgetBytes c"
  proof -
    have "\<not> cs_memBytes ?d \<le> cs_memBudgetBytes c" using that evict_fold_bytes [of ms ?d] by simp
    then have "\<not> cs_memBytes c \<le> cs_memBudgetBytes c" by (auto simp: m evict_step_def split: if_splits)
    then have "h \<in> set (cs_pending c) \<or> jm_get (cs_memCache ?d) h = None" by (auto simp: m evict_step_def)
    then show ?thesis using IH(2) [of h] by (cases "jm_get (cs_memCache ?e) h") auto
  qed
  then have "cs_memBytes ?e \<le> cs_memBudgetBytes c \<or>
     (\<forall>k \<in> set (map fst (m # ms)). k \<in> set (cs_pending c) \<or> jm_get (cs_memCache ?e) k = None)"
    using IH(3) m by auto
  then show ?case using IH(1,2) mono by blast
qed simp

lemma evict_cache:
  assumes "counter_ok c"
  shows "counter_ok (evictToBudget c)" and "within_budget (evictToBudget c)"
    and "jm_get (cs_memCache (evictToBudget c)) k = Some b \<Longrightarrow> jm_get (cs_memCache c) k = Some b"
proof -
  have d: "distinct (map fst (cs_memCache c))" using assms by (simp add: counter_ok_def jm_wf_def)
  note f = evict_fold [OF assms d subset_refl]
  show "counter_ok (evictToBudget c)" using assms f by (simp add: evictToBudget_def)
  show g: "jm_get (cs_memCache (evictToBudget c)) k = Some b \<Longrightarrow> jm_get (cs_memCache c) k = Some b" for k b
    using f by (simp add: evictToBudget_def split: if_splits)
  have "h \<in> set (cs_pending c)"
    if big: "\<not> cs_memBytes (evictToBudget c) \<le> cs_memBudgetBytes c" and mem: "h \<in> set (jm_keys (cs_memCache (evictToBudget c)))" for h
  proof -
    obtain b where b: "jm_get (cs_memCache (evictToBudget c)) h = Some b"
      using mem by (auto simp: jm_has_iff [symmetric] jm_has_def)
    have "h \<in> set (map fst (cs_memCache c))" using map_of_SomeD [OF g [OF b]] by force
    then show ?thesis using f b big by (auto simp: evictToBudget_def split: if_splits)
  qed
  then show "within_budget (evictToBudget c)" unfolding within_budget_def by auto
qed

text \<open>What holds of the cache and the buffer whatever is on disk.\<close>

definition verified :: "(bytes \<Rightarrow> bytes) \<Rightarrow> content_store \<Rightarrow> bool" where
  "verified sha c = (\<forall>h b. jm_get (cs_memCache c) h = Some b \<longrightarrow> hashContent sha b = h)"

definition buffer_ok :: "(bytes \<Rightarrow> bytes) \<Rightarrow> content_store \<Rightarrow> bool" where
  "buffer_ok sha c =
     ((\<forall>(h, t) \<in> set (cs_packBuffer c). \<exists>b. base64ToBytes t = Some b \<and> hashContent sha b = h) \<and>
      set (cs_pending c) \<subseteq> fst ` set (cs_packBuffer c))"

definition cache_inv :: "(bytes \<Rightarrow> bytes) \<Rightarrow> content_store \<Rightarrow> bool" where
  "cache_inv sha c = (counter_ok c \<and> within_budget c \<and> verified sha c \<and> buffer_ok sha c)"

lemma buffer_ok_cong:
  "cs_packBuffer d = cs_packBuffer c \<Longrightarrow> cs_pending d = cs_pending c \<Longrightarrow> buffer_ok sha d = buffer_ok sha c"
  by (simp add: buffer_ok_def)

lemma evict_ok:
  assumes "counter_ok c" and "verified sha c"
  shows "counter_ok (evictToBudget c)" "within_budget (evictToBudget c)" "verified sha (evictToBudget c)"
  using evict_cache [OF assms(1)] assms(2) unfolding verified_def by blast+

lemma cacheSet_ok:
  assumes "counter_ok c" and "verified sha c" and "hashContent sha b = h"
  shows "counter_ok (cacheSet h b c)" "within_budget (cacheSet h b c)" "verified sha (cacheSet h b c)"
proof -
  let ?d = "c\<lparr> cs_memCache := jm_set h b (jm_delete h (cs_memCache c)),
      cs_memBytes := cs_memBytes c - cached_bytes h c + int (length b) \<rparr>"
  have "total_bytes (jm_set h b (jm_delete h (cs_memCache c))) = cs_memBytes c - cached_bytes h c + int (length b)"
    using assms(1) total_delete [of "cs_memCache c" h]
    by (simp add: reinsert counter_ok_def cached_bytes_def) (simp add: total_bytes_def)
  then have d: "counter_ok ?d" using assms(1) by (simp add: counter_ok_def)
  have "verified sha ?d" using assms(2,3) by (simp add: verified_def)
  from evict_ok [OF d this]
  show "counter_ok (cacheSet h b c)" "within_budget (cacheSet h b c)" "verified sha (cacheSet h b c)"
    by (simp_all add: cacheSet_def)
qed

lemma cacheSet_inv: "cache_inv sha c \<Longrightarrow> hashContent sha b = h \<Longrightarrow> cache_inv sha (cacheSet h b c)"
  using cacheSet_ok [of c sha b h] buffer_ok_cong [of "cacheSet h b c" c sha] by (simp add: cache_inv_def)

lemma cacheDelete_inv: "cache_inv sha c \<Longrightarrow> cache_inv sha (cacheDelete h c)"
proof -
  assume c: "cache_inv sha c"
  then have "counter_ok (cacheDelete h c)"
    using total_delete [of "cs_memCache c" h] by (simp add: cache_inv_def counter_ok_def cacheDelete_def cached_bytes_def)
  moreover have "within_budget (cacheDelete h c)"
    using c by (auto simp: cache_inv_def within_budget_def cacheDelete_def cached_bytes_def jm_keys_def jm_delete_filter
        split: option.splits)
  ultimately show ?thesis using c by (auto simp: cache_inv_def verified_def cacheDelete_def buffer_ok_def)
qed

lemma cache_inv_cong:
  "cs_memCache d = cs_memCache c \<Longrightarrow> cs_memBytes d = cs_memBytes c \<Longrightarrow> cs_pending d = cs_pending c \<Longrightarrow>
   cs_packBuffer d = cs_packBuffer c \<Longrightarrow> cs_memBudgetBytes d = cs_memBudgetBytes c \<Longrightarrow> cache_inv sha d = cache_inv sha c"
  by (simp add: cache_inv_def counter_ok_def within_budget_def verified_def buffer_ok_def)

lemma update_index_inv [simp]:
  "cache_inv sha (c\<lparr> cs_index := i \<rparr>) = cache_inv sha c" "cache_inv sha (c\<lparr> cs_metadata := m \<rparr>) = cache_inv sha c"
  "cache_inv sha (index_delete h c) = cache_inv sha c" "cache_inv sha (rewriteIndex c) = cache_inv sha c"
  "cache_inv sha (remove_pack p c) = cache_inv sha c" "cache_inv sha (loadPackIndex c) = cache_inv sha c"
  by (simp_all add: cache_inv_def counter_ok_def within_budget_def verified_def buffer_ok_def
      index_delete_def rewriteIndex_def remove_pack_def loadPackIndex_def Let_def)

lemma putBuffered_inv: "cache_inv sha c \<Longrightarrow> hashContent sha b = h \<Longrightarrow> cache_inv sha (putBuffered h b c)"
proof -
  assume c: "cache_inv sha c" and h: "hashContent sha b = h"
  let ?d = "c\<lparr> cs_pending := js_add h (cs_pending c) \<rparr>"
  have d: "counter_ok ?d" "verified sha ?d" using c by (simp_all add: cache_inv_def counter_ok_def verified_def)
  have "buffer_ok sha (cacheSet h b ?d\<lparr> cs_packBuffer := cs_packBuffer c @ [(h, bytesToBase64 b)] \<rparr>)"
    using c h by (auto simp: cache_inv_def buffer_ok_def)
  then have "cache_inv sha (cacheSet h b ?d\<lparr> cs_packBuffer := cs_packBuffer c @ [(h, bytesToBase64 b)] \<rparr>)"
    using cacheSet_ok [OF d h] by (simp add: cache_inv_def counter_ok_def within_budget_def verified_def)
  then show ?thesis using c by (simp add: putBuffered_def Let_def)
qed

lemma cs_flush_inv: "cache_inv sha c \<Longrightarrow> cache_inv sha (flushPack c)"
proof -
  assume c: "cache_inv sha c"
  obtain body idx delta where f: "flush_loop (show_nat (cs_nextPackId c)) (cs_packBuffer c) [] (cs_index c) [] = (body, idx, delta)"
    by (cases "flush_loop (show_nat (cs_nextPackId c)) (cs_packBuffer c) [] (cs_index c) []")
  let ?d = "c\<lparr> cs_nextPackId := cs_nextPackId c + 1, cs_index := idx,
      cs_metadata := fold (\<lambda>w m. w m) (flush_writes (show_nat (cs_nextPackId c)) body delta) (cs_metadata c),
      cs_packBuffer := [], cs_pending := [] \<rparr>"
  have d: "counter_ok ?d" "verified sha ?d" using c by (simp_all add: cache_inv_def counter_ok_def verified_def)
  have "cache_inv sha (evictToBudget ?d)" using evict_ok [OF d] by (simp add: cache_inv_def buffer_ok_def)
  then show ?thesis using c by (simp add: flushPack_def Let_def f)
qed

text \<open>The scan of a pack, one index entry at a time.\<close>

definition scan_body :: "(bytes \<Rightarrow> bytes) \<Rightarrow> string \<Rightarrow> string \<Rightarrow> string \<times> PackLoc \<Rightarrow> content_store \<Rightarrow> io_error + bytes option" where
  "scan_body sha packId pack = (\<lambda>(k, l) c.
     let body = js_substr pack (pl_offset l) (pl_len l)
     in if pl_packId l \<noteq> packId \<or> jm_has (cs_memCache c) k \<or> length body \<noteq> pl_len l then Inr None
        else (case base64ToBytes body of
                None \<Rightarrow> Inl InvalidCharErr
              | Some content \<Rightarrow> Inr (if hashContent sha content = k then Some content else None)))"

lemma pack_scan_Cons:
  "pack_scan sha h p pack ((k, l) # ls) found c =
     (case scan_body sha p pack (k, l) c of
        Inl x \<Rightarrow> (c, Inl x)
      | Inr None \<Rightarrow> pack_scan sha h p pack ls found c
      | Inr (Some b) \<Rightarrow> pack_scan sha h p pack ls (if k = h then Some b else found) (cacheSet k b c))"
  by (simp add: scan_body_def Let_def split: option.splits)

declare pack_scan.simps(2) [simp del]

lemma scan_body_hash: "scan_body sha p pack (k, l) c = Inr (Some b) \<Longrightarrow> hashContent sha b = k"
  by (simp add: scan_body_def Let_def split: option.splits if_splits)

lemma scan_inv:
  "cache_inv sha c \<Longrightarrow> (case found of Some b \<Rightarrow> hashContent sha b = h | None \<Rightarrow> True) \<Longrightarrow>
   cache_inv sha (fst (pack_scan sha h p pack ls found c)) \<and>
   same_but_cache c (fst (pack_scan sha h p pack ls found c)) \<and>
   (case snd (pack_scan sha h p pack ls found c) of Inr (Some b) \<Rightarrow> hashContent sha b = h | _ \<Rightarrow> True)"
proof (induction ls arbitrary: found c)
  case (Cons kl ls)
  obtain k l where kl: "kl = (k, l)" by (cases kl)
  show ?case
  proof (cases "scan_body sha p pack (k, l) c")
    case (Inr y)
    show ?thesis
    proof (cases y)
      case (Some b)
      then have b: "hashContent sha b = k" using Inr scan_body_hash by blast
      have "case (if k = h then Some b else found) of Some b \<Rightarrow> hashContent sha b = h | None \<Rightarrow> True"
        using b Cons.prems(2) by simp
      from Cons.IH [OF cacheSet_inv [OF Cons.prems(1) b] this] show ?thesis
        using same_trans [OF cacheSet_same [of c k b]] by (simp add: kl pack_scan_Cons Inr Some)
    qed (use Cons in \<open>simp add: kl pack_scan_Cons Inr\<close>)
  qed (use Cons in \<open>simp add: kl pack_scan_Cons\<close>)
qed (auto split: option.splits)

lemma touch_inv:
  assumes "cache_inv sha c" and "jm_get (cs_memCache c) h = Some x"
  shows "cache_inv sha (c\<lparr> cs_memCache := jm_set h x (jm_delete h (cs_memCache c)) \<rparr>)"
proof -
  have "total_bytes (jm_set h x (jm_delete h (cs_memCache c))) = total_bytes (cs_memCache c)"
    using assms total_delete [of "cs_memCache c" h]
    by (simp add: reinsert cache_inv_def counter_ok_def) (simp add: total_bytes_def)
  moreover have "set (jm_keys (jm_set h x (jm_delete h (cs_memCache c)))) = set (jm_keys (cs_memCache c))"
    using assms(2) by (auto simp: jm_has_iff [symmetric] jm_has_def split: if_splits)
  ultimately show ?thesis
    using assms by (auto simp: cache_inv_def counter_ok_def within_budget_def verified_def buffer_ok_def)
qed

lemma get_inv:
  assumes "cache_inv sha c"
  shows "cache_inv sha (fst (cs_get sha h c)) \<and> same_but_cache c (fst (cs_get sha h c)) \<and>
    (case snd (cs_get sha h c) of Inr (Some b) \<Rightarrow> hashContent sha b = h | _ \<Rightarrow> True)"
proof (cases "jm_get (cs_memCache c) h")
  case (Some x)
  then have "hashContent sha x = h" using assms by (simp add: cache_inv_def verified_def)
  then show ?thesis using touch_inv [OF assms Some] Some by (simp add: cs_get_def same_but_cache_def)
next
  case None
  then show ?thesis
    using assms scan_inv [OF assms, where found = None and h = h] by (simp add: cs_get_def getFromPack_def split: option.splits)
qed

section \<open>Every operation keeps the cache's invariant\<close>

lemma drop_member_inv: "cache_inv sha c \<Longrightarrow> cache_inv sha (drop_member h c)"
  by (simp add: drop_member_def cacheDelete_inv)

lemma drop_stale_inv: "cache_inv sha c \<Longrightarrow> cache_inv sha (drop_stale p h c)"
  by (simp add: drop_stale_def drop_member_inv split: option.split)

lemma fold_inv: "(\<And>x c. cache_inv sha c \<Longrightarrow> cache_inv sha (f x c)) \<Longrightarrow> cache_inv sha c \<Longrightarrow> cache_inv sha (fold f xs c)"
  by (induction xs arbitrary: c) auto

lemma rebuffer_inv: "cache_inv sha c \<Longrightarrow> cache_inv sha (fst (rebuffer sha hs c))"
proof (induction hs arbitrary: c)
  case (Cons h hs)
  obtain c1 r where g: "cs_get sha h c = (c1, r)" by (cases "cs_get sha h c")
  have c1: "cache_inv sha c1" "case r of Inr (Some b) \<Rightarrow> hashContent sha b = h | _ \<Rightarrow> True"
    using get_inv [OF Cons.prems, of h] g by auto
  have "cache_inv sha (c1\<lparr> cs_pending := js_add h (cs_pending c1),
      cs_packBuffer := cs_packBuffer c1 @ [(h, bytesToBase64 b)] \<rparr>)" if "r = Inr (Some b)" for b
    using c1 that by (auto simp: cache_inv_def counter_ok_def within_budget_def verified_def buffer_ok_def)
  then show ?case using Cons.IH c1(1) by (auto simp: g split: sum.split option.split)
qed simp

lemma compactPack_inv: "cache_inv sha c \<Longrightarrow> cache_inv sha (fst (compactPack sha keep p c))"
proof -
  assume c: "cache_inv sha c"
  let ?ms = "map fst (filter (\<lambda>(h, loc). pl_packId loc = p) (cs_index c))"
  obtain c1 r where g: "rebuffer sha (filter (\<lambda>h. h \<in> set keep) ?ms) c = (c1, r)"
    by (cases "rebuffer sha (filter (\<lambda>h. h \<in> set keep) ?ms) c")
  have c1: "cache_inv sha c1" using rebuffer_inv [OF c] g by (metis fst_conv)
  have "cache_inv sha (fold (drop_stale p) ?ms (remove_pack p (flushPack c1)))"
    using cs_flush_inv [OF c1] by (intro fold_inv) (simp_all add: drop_stale_inv)
  then show ?thesis using c1 by (simp add: compactPack_def Let_def g split: sum.split)
qed

lemma compact_all_inv: "cache_inv sha c \<Longrightarrow> cache_inv sha (fst (compact_all sha keep ps c))"
proof (induction ps arbitrary: c)
  case (Cons p ps)
  then show ?case using compactPack_inv [OF Cons.prems, of keep p]
    by (cases "compactPack sha keep p c") (auto split: sum.split)
qed simp

lemma retire_inv: "cache_inv sha c \<Longrightarrow> cache_inv sha (retire_pack p hs c)"
  unfolding retire_pack_def by (intro fold_inv) (simp_all add: drop_member_inv)

lemma gc_scan_inv: "cache_inv sha c \<Longrightarrow> cache_inv sha (fst (gc_scan aged keep ms c tc d))"
  by (induction aged keep ms c tc d rule: gc_scan.induct) (auto simp: retire_inv)

lemma gc_inv: "cache_inv sha c \<Longrightarrow> cache_inv sha (fst (cs_gc sha stat keep ret now c))"
proof -
  assume c: "cache_inv sha c"
  obtain c1 tc d where g: "gc_scan (packAged stat ret now) keep (pack_members (cs_index c)) c [] False = (c1, tc, d)"
    by (cases "gc_scan (packAged stat ret now) keep (pack_members (cs_index c)) c [] False")
  have c1: "cache_inv sha c1" using gc_scan_inv [OF c] g by (metis fst_conv)
  show ?thesis using compact_all_inv [OF c1, of keep tc]
    by (cases "compact_all sha keep tc c1") (auto simp: cs_gc_def g split: sum.split)
qed

lemma delete_inv: "cache_inv sha c \<Longrightarrow> cache_inv sha (cs_delete h c)"
  by (simp add: cs_delete_def Let_def cacheDelete_inv)

lemma put_inv: "cache_inv sha c \<Longrightarrow> hashContent sha b = h \<Longrightarrow> cache_inv sha (cs_put h b c)"
  by (simp add: cs_put_def cs_flush_inv putBuffered_inv)

lemma clear_inv: "cache_inv sha c \<Longrightarrow> cache_inv sha (clearMemCache c)"
  by (simp add: jm_keys_def cache_inv_def counter_ok_def within_budget_def verified_def buffer_ok_def clearMemCache_def total_bytes_def)

lemma cs_new_inv: "cache_inv sha (cs_init budget m)"
  by (simp add: cs_init_def)
    (simp add: new_content_store_def jm_keys_def cache_inv_def counter_ok_def within_budget_def verified_def buffer_ok_def total_bytes_def)

end
