(* ===== verification/ContentPacks.thy ===== *)
theory ContentPacks
  imports ContentLaws
begin

text \<open>
  The laws of the pack files: what a flush writes is found at the places it records, the index on
  disk is the index in memory, and the operations keep every blob that can be read back
  (\<open>readable\<close>) except the ones they are asked to drop.
\<close>

section \<open>Paths, slices and the index codec\<close>

lemma packPath_inj [simp]: "packPath p = packPath q \<longleftrightarrow> p = q"
  by (simp add: packPath_def)

lemma packPath_index [simp]: "packPath p \<noteq> PACK_INDEX_PATH" "PACK_INDEX_PATH \<noteq> packPath p"
proof -
  have "last (packPath p) = CHR ''k''" "last PACK_INDEX_PATH = CHR ''x''" by (simp_all add: packPath_def PACK_INDEX_PATH_def)
  then show "packPath p \<noteq> PACK_INDEX_PATH" "PACK_INDEX_PATH \<noteq> packPath p" by auto
qed

lemma show_nat_inj [simp]: "show_nat j = show_nat k \<longleftrightarrow> j = k"
  by (metis digits_value_show)

definition key_ok :: "string \<Rightarrow> bool" where
  "key_ok s = (s \<noteq> [] \<and> CHR '' '' \<notin> set s \<and> LF \<notin> set s)"

lemma show_nat_key [simp]: "key_ok (show_nat n)"
  using show_nat_digits [of n] by (auto simp: key_ok_def LF_def is_digit_def)

definition place_ok :: "string \<times> PackLoc \<Rightarrow> bool" where
  "place_ok = (\<lambda>(h, loc). key_ok h \<and> key_ok (pl_packId loc))"

interpretation index_lines: line_codec index_line parse_index_line place_ok
proof
  fix r assume r: "place_ok r"
  obtain h loc where hl: "r = (h, loc)" by (cases r)
  have k: "key_ok h" "key_ok (pl_packId loc)" using r hl by (auto simp: place_ok_def)
  have split: "splitOn CHR '' '' (index_line r) = [h, pl_packId loc, show_nat (pl_offset loc), show_nat (pl_len loc)]"
    using k show_nat_key [unfolded key_ok_def] by (simp add: hl index_line_def key_ok_def splitOn_append splitOn_free)
  show "parse_index_line (index_line r) = Some r"
    using k show_nat_digits unfolding parse_index_line_def split
    by (auto simp: hl js_number_def list_all_iff digits_value_show key_ok_def index_line_def)
  show "LF \<notin> set (index_line r)"
    using k show_nat_key [unfolded key_ok_def] by (auto simp: hl index_line_def key_ok_def LF_def)
  show "index_line r \<noteq> []" using k by (simp add: hl index_line_def)
qed

text \<open>The text at a place; \<open>None\<close> when the pack is gone or too short.\<close>

definition pack_slice :: "metadata \<Rightarrow> PackLoc \<Rightarrow> string option" where
  "pack_slice m loc =
     (case md_read m (packPath (pl_packId loc)) of
        None \<Rightarrow> None
      | Some pack \<Rightarrow>
          let body = js_substr pack (pl_offset loc) (pl_len loc)
          in if length body = pl_len loc then Some body else None)"

definition place_holds :: "(bytes \<Rightarrow> bytes) \<Rightarrow> metadata \<Rightarrow> string \<Rightarrow> PackLoc \<Rightarrow> bool" where
  "place_holds sha m h loc = (\<exists>t b. pack_slice m loc = Some t \<and> base64ToBytes t = Some b \<and> hashContent sha b = h)"

text \<open>A blob that can be read back from its pack.\<close>

definition readable :: "(bytes \<Rightarrow> bytes) \<Rightarrow> content_store \<Rightarrow> string \<Rightarrow> bool" where
  "readable sha c h = (\<exists>loc. jm_get (cs_index c) h = Some loc \<and> place_holds sha (cs_metadata c) h loc)"

definition packs_inv :: "(bytes \<Rightarrow> bytes) \<Rightarrow> content_store \<Rightarrow> bool" where
  "packs_inv sha c =
     (jm_wf (cs_index c) \<and>
      (\<forall>h loc. jm_get (cs_index c) h = Some loc \<longrightarrow>
         key_ok h \<and> (\<exists>k < cs_nextPackId c. pl_packId loc = show_nat k) \<and>
         md_read (cs_metadata c) (packPath (pl_packId loc)) \<noteq> None \<and>
         (\<forall>t. pack_slice (cs_metadata c) loc = Some t \<longrightarrow> (\<exists>b. base64ToBytes t = Some b))) \<and>
      (\<forall>k \<ge> cs_nextPackId c. md_read (cs_metadata c) (packPath (show_nat k)) = None) \<and>
      (\<forall>h \<in> fst ` set (cs_packBuffer c). key_ok h) \<and>
      (\<forall>h. jm_has (cs_memCache c) h \<longrightarrow> h \<in> set (cs_pending c) \<or> readable sha c h))"

definition index_on_disk :: "content_store \<Rightarrow> bool" where
  "index_on_disk c =
     (\<exists>recs. (md_read (cs_metadata c) PACK_INDEX_PATH = Some (journal_text (map index_line recs)) \<or>
              md_read (cs_metadata c) PACK_INDEX_PATH = None \<and> recs = []) \<and>
             (\<forall>r \<in> set recs. place_ok r) \<and> jm_of_list recs = cs_index c)"

lemma packs_inv_index:
  assumes "packs_inv sha c" and "jm_get (cs_index c) h = Some loc"
  shows "key_ok h" and "\<exists>k < cs_nextPackId c. pl_packId loc = show_nat k"
    and "md_read (cs_metadata c) (packPath (pl_packId loc)) \<noteq> None"
    and "pack_slice (cs_metadata c) loc = Some t \<Longrightarrow> \<exists>b. base64ToBytes t = Some b"
  using assms unfolding packs_inv_def by blast+

lemma packs_inv_rest:
  assumes "packs_inv sha c"
  shows "jm_wf (cs_index c)" and "k \<ge> cs_nextPackId c \<Longrightarrow> md_read (cs_metadata c) (packPath (show_nat k)) = None"
    and "(h, t) \<in> set (cs_packBuffer c) \<Longrightarrow> key_ok h"
    and "jm_has (cs_memCache c) h \<Longrightarrow> h \<in> set (cs_pending c) \<or> readable sha c h"
proof -
  show "jm_wf (cs_index c)" using assms by (simp only: packs_inv_def)
  show "k \<ge> cs_nextPackId c \<Longrightarrow> md_read (cs_metadata c) (packPath (show_nat k)) = None"
    using assms unfolding packs_inv_def by blast
  have "\<forall>h \<in> fst ` set (cs_packBuffer c). key_ok h" using assms unfolding packs_inv_def by blast
  then show "(h, t) \<in> set (cs_packBuffer c) \<Longrightarrow> key_ok h" by force
  show "jm_has (cs_memCache c) h \<Longrightarrow> h \<in> set (cs_pending c) \<or> readable sha c h"
    using assms unfolding packs_inv_def by blast
qed

lemma packs_invI:
  assumes "jm_wf (cs_index c)"
    and "\<And>h loc. jm_get (cs_index c) h = Some loc \<Longrightarrow>
       key_ok h \<and> (\<exists>k < cs_nextPackId c. pl_packId loc = show_nat k) \<and>
       md_read (cs_metadata c) (packPath (pl_packId loc)) \<noteq> None \<and>
       (\<forall>t. pack_slice (cs_metadata c) loc = Some t \<longrightarrow> (\<exists>b. base64ToBytes t = Some b))"
    and "\<And>k. k \<ge> cs_nextPackId c \<Longrightarrow> md_read (cs_metadata c) (packPath (show_nat k)) = None"
    and "\<And>h. h \<in> fst ` set (cs_packBuffer c) \<Longrightarrow> key_ok h"
    and "\<And>h. jm_has (cs_memCache c) h \<Longrightarrow> h \<in> set (cs_pending c) \<or> readable sha c h"
  shows "packs_inv sha c"
  unfolding packs_inv_def using assms by blast

lemma packs_inv_buffer:
  assumes "packs_inv sha c" and "cs_index d = cs_index c" "cs_metadata d = cs_metadata c"
    "cs_nextPackId d = cs_nextPackId c" "cs_memCache d = cs_memCache c" "set (cs_pending c) \<subseteq> set (cs_pending d)"
    and "\<And>h. h \<in> fst ` set (cs_packBuffer d) \<Longrightarrow> key_ok h"
  shows "packs_inv sha d"
proof (rule packs_invI)
  show "jm_has (cs_memCache d) h \<Longrightarrow> h \<in> set (cs_pending d) \<or> readable sha d h" for h
    using packs_inv_rest(4) [OF assms(1), of h] assms(2,3,5,6) by (auto simp: readable_def)
qed (use packs_inv_rest(1,2) [OF assms(1)] packs_inv_index [OF assms(1)] assms(2-4,7) in auto)

section \<open>Flushing\<close>

fun flush_places :: "string \<Rightarrow> nat \<Rightarrow> (string \<times> string) list \<Rightarrow> (string \<times> PackLoc) list" where
  "flush_places p n [] = []"
| "flush_places p n ((h, t) # bs) =
     (h, \<lparr> pl_packId = p, pl_offset = n + length (pack_header h t), pl_len = length t \<rparr>)
       # flush_places p (n + length (pack_header h t @ t @ [LF])) bs"

definition flush_body :: "(string \<times> string) list \<Rightarrow> string" where
  "flush_body bs = concat (map (\<lambda>(h, t). pack_header h t @ t @ [LF]) bs)"

lemma flush_loop_spec:
  "flush_loop p bs body idx delta =
     (body @ flush_body bs, fold (\<lambda>(k, v) m. jm_set k v m) (flush_places p (length body) bs) idx,
      delta @ journal_text (map index_line (flush_places p (length body) bs)))"
  by (induction p bs body idx delta rule: flush_loop.induct) (simp_all add: Let_def flush_body_def)

lemma flush_places_keys: "map fst (flush_places p n bs) = map fst bs"
  by (induction p n bs rule: flush_places.induct) simp_all

lemma flush_places_slice:
  "(h, loc) \<in> set (flush_places p n bs) \<Longrightarrow> length pre = n \<Longrightarrow>
   \<exists>t. (h, t) \<in> set bs \<and> pl_packId loc = p \<and> pl_len loc = length t \<and>
       js_substr (pre @ flush_body bs) (pl_offset loc) (pl_len loc) = t"
proof (induction p n bs arbitrary: pre rule: flush_places.induct)
  case (2 p n h' t bs)
  show ?case
  proof (cases "(h, loc) \<in> set (flush_places p (n + length (pack_header h' t @ t @ [LF])) bs)")
    case True
    have "length (pre @ pack_header h' t @ t @ [LF]) = n + length (pack_header h' t @ t @ [LF])" using 2(3) by simp
    from 2(1) [OF True this] show ?thesis by (auto simp: flush_body_def)
  next
    case False
    then show ?thesis using 2(2,3) by (auto simp: flush_body_def js_substr_def)
  qed
qed simp

text \<open>The flush as one step: what it does to the index and to the files.\<close>

definition flushed_places :: "content_store \<Rightarrow> (string \<times> PackLoc) list" where
  "flushed_places c = flush_places (show_nat (cs_nextPackId c)) 0 (cs_packBuffer c)"

lemma flush_fields:
  assumes "cs_packBuffer c \<noteq> []"
  shows "cs_index (flushPack c) = fold (\<lambda>(k, v) m. jm_set k v m) (flushed_places c) (cs_index c)"
    and "cs_metadata (flushPack c) =
      md_append PACK_INDEX_PATH (journal_text (map index_line (flushed_places c)))
        (md_append (packPath (show_nat (cs_nextPackId c))) (flush_body (cs_packBuffer c)) (cs_metadata c))"
    and "cs_nextPackId (flushPack c) = cs_nextPackId c + 1" and "cs_packBuffer (flushPack c) = []"
    and "cs_pending (flushPack c) = []"
  using assms by (simp_all add: flushPack_def Let_def flush_loop_spec flush_writes_def flushed_places_def)

lemma flush_cache:
  assumes "counter_ok c" and "jm_get (cs_memCache (flushPack c)) h = Some b"
  shows "jm_get (cs_memCache c) h = Some b"
proof (cases "cs_packBuffer c = []")
  case False
  let ?d = "c\<lparr> cs_nextPackId := cs_nextPackId c + 1, cs_index := cs_index (flushPack c),
    cs_metadata := cs_metadata (flushPack c), cs_packBuffer := [], cs_pending := [] \<rparr>"
  have "counter_ok ?d" using assms(1) by (simp add: counter_ok_def)
  moreover have "flushPack c = evictToBudget ?d"
    using False by (simp add: flush_fields) (simp add: flushPack_def Let_def flush_loop_spec flush_writes_def flushed_places_def)
  ultimately show ?thesis using evict_cache(3) [of ?d h b] assms(2) by simp
qed (use assms in \<open>simp add: flushPack_def\<close>)

lemma old_place_flush:
  assumes "packs_inv sha c" and "cs_packBuffer c \<noteq> []" and "jm_get (cs_index c) h = Some loc"
  shows "pack_slice (cs_metadata (flushPack c)) loc = pack_slice (cs_metadata c) loc"
proof -
  obtain k where "k < cs_nextPackId c" "pl_packId loc = show_nat k" using packs_inv_index(2) [OF assms(1,3)] by blast
  then show ?thesis by (simp add: pack_slice_def flush_fields [OF assms(2)])
qed

lemma new_place_flush:
  assumes "packs_inv sha c" and "(h, loc) \<in> set (flushed_places c)"
  obtains t where "(h, t) \<in> set (cs_packBuffer c)" and "pack_slice (cs_metadata (flushPack c)) loc = Some t"
    and "pl_packId loc = show_nat (cs_nextPackId c)"
proof -
  have ne: "cs_packBuffer c \<noteq> []" using assms(2) by (auto simp: flushed_places_def)
  obtain t where t: "(h, t) \<in> set (cs_packBuffer c)" "pl_packId loc = show_nat (cs_nextPackId c)"
    "pl_len loc = length t" "js_substr (flush_body (cs_packBuffer c)) (pl_offset loc) (pl_len loc) = t"
    using flush_places_slice [OF assms(2) [unfolded flushed_places_def], of "[]"] by auto
  have "md_read (cs_metadata c) (packPath (show_nat (cs_nextPackId c))) = None" using packs_inv_rest(2) [OF assms(1)] by simp
  then have "pack_slice (cs_metadata (flushPack c)) loc = Some t"
    using t by (simp add: pack_slice_def flush_fields [OF ne])
  then show ?thesis using that t by blast
qed

lemma flushed_index:
  assumes "cs_packBuffer c \<noteq> []" and "jm_get (cs_index (flushPack c)) h = Some loc"
  shows "(h, loc) \<in> set (flushed_places c) \<or> h \<notin> fst ` set (cs_packBuffer c) \<and> jm_get (cs_index c) h = Some loc"
proof -
  have keys: "fst ` set (flushed_places c) = fst ` set (cs_packBuffer c)"
    using flush_places_keys by (metis flushed_places_def list.set_map)
  have "map_of (cs_index c) ++ map_of (rev (flushed_places c)) = map_of (cs_index (flushPack c))"
    by (simp add: flush_fields [OF assms(1)] map_of_fold_set)
  then have m: "(map_of (cs_index c) ++ map_of (rev (flushed_places c))) h = Some loc" using assms(2) by simp
  show ?thesis
  proof (cases "map_of (rev (flushed_places c)) h")
    case None
    then have "h \<notin> fst ` set (flushed_places c)" by (simp add: map_of_eq_None_iff)
    then show ?thesis using None m unfolding keys by (simp add: map_add_def)
  next
    case (Some l)
    then have "l = loc" using m by (simp add: map_add_def)
    then show ?thesis using map_of_SomeD [OF Some] by simp
  qed
qed

lemma flushed_index_buffered:
  assumes "h \<in> fst ` set (cs_packBuffer c)"
  obtains loc where "jm_get (cs_index (flushPack c)) h = Some loc" and "(h, loc) \<in> set (flushed_places c)"
proof -
  have ne: "cs_packBuffer c \<noteq> []" using assms by auto
  have "h \<in> fst ` set (flushed_places c)"
    using assms flush_places_keys by (metis flushed_places_def list.set_map)
  then have "map_of (rev (flushed_places c)) h \<noteq> None" by (simp add: map_of_eq_None_iff)
  then obtain loc where l: "map_of (rev (flushed_places c)) h = Some loc" by auto
  then have "jm_get (cs_index (flushPack c)) h = Some loc"
    by (simp add: flush_fields [OF ne] map_of_fold_set)
  then show ?thesis using that map_of_SomeD [OF l] by simp
qed

lemma flush_readable:
  assumes "packs_inv sha c" and "cache_inv sha c" and "readable sha c h \<or> h \<in> fst ` set (cs_packBuffer c)"
  shows "readable sha (flushPack c) h"
proof (cases "h \<in> fst ` set (cs_packBuffer c)")
  case True
  obtain loc where l: "jm_get (cs_index (flushPack c)) h = Some loc" "(h, loc) \<in> set (flushed_places c)"
    using flushed_index_buffered [OF True] .
  obtain t where t: "(h, t) \<in> set (cs_packBuffer c)" "pack_slice (cs_metadata (flushPack c)) loc = Some t"
    using new_place_flush [OF assms(1) l(2)] .
  obtain b where "base64ToBytes t = Some b" "hashContent sha b = h" using assms(2) t(1) by (auto simp: cache_inv_def buffer_ok_def)
  then show ?thesis using l t by (auto simp: readable_def place_holds_def)
next
  case False
  then obtain loc where l: "jm_get (cs_index c) h = Some loc" "place_holds sha (cs_metadata c) h loc"
    using assms(3) by (auto simp: readable_def)
  show ?thesis
  proof (cases "cs_packBuffer c = []")
    case True
    then show ?thesis using l by (auto simp: flushPack_def readable_def)
  next
    case ne: False
    have "h \<notin> fst ` set (flushed_places c)"
      using False flush_places_keys by (metis flushed_places_def list.set_map)
    then have "map_of (rev (flushed_places c)) h = None" by (simp add: map_of_eq_None_iff)
    then have "jm_get (cs_index (flushPack c)) h = Some loc"
      using l(1) by (simp add: flush_fields [OF ne] map_of_fold_set map_add_def)
    then show ?thesis using l(2) old_place_flush [OF assms(1) ne l(1)] by (auto simp: readable_def place_holds_def)
  qed
qed

lemma flush_packs:
  assumes "packs_inv sha c" and "cache_inv sha c"
  shows "packs_inv sha (flushPack c)"
proof (cases "cs_packBuffer c = []")
  case False
  note ff = flush_fields [OF False]
  have "jm_wf m \<Longrightarrow> jm_wf (fold (\<lambda>(k, v) m. jm_set k v m) ps m)" for ps and m :: "(string, PackLoc) jsmap"
    by (induction ps arbitrary: m) auto
  then have wf: "jm_wf (cs_index (flushPack c))" using packs_inv_rest(1) [OF assms(1)] by (simp add: ff)
  have idx: "key_ok h \<and> (\<exists>k < cs_nextPackId (flushPack c). pl_packId loc = show_nat k) \<and>
      md_read (cs_metadata (flushPack c)) (packPath (pl_packId loc)) \<noteq> None \<and>
      (\<forall>t. pack_slice (cs_metadata (flushPack c)) loc = Some t \<longrightarrow> (\<exists>b. base64ToBytes t = Some b))"
    if h: "jm_get (cs_index (flushPack c)) h = Some loc" for h loc
    using flushed_index [OF False h]
  proof
    assume p: "(h, loc) \<in> set (flushed_places c)"
    obtain t where t: "(h, t) \<in> set (cs_packBuffer c)" "pack_slice (cs_metadata (flushPack c)) loc = Some t"
      "pl_packId loc = show_nat (cs_nextPackId c)" using new_place_flush [OF assms(1) p] .
    moreover have "key_ok h" using packs_inv_rest(3) [OF assms(1) t(1)] .
    moreover have "\<exists>b. base64ToBytes t = Some b" using t(1) assms(2) by (auto simp: cache_inv_def buffer_ok_def)
    ultimately show ?thesis by (auto simp: ff(2,3))
  next
    assume "h \<notin> fst ` set (cs_packBuffer c) \<and> jm_get (cs_index c) h = Some loc"
    then have g: "jm_get (cs_index c) h = Some loc" by simp
    show ?thesis unfolding old_place_flush [OF assms(1) False g] ff(3)
      using packs_inv_index [OF assms(1) g] by (auto intro: less_SucI simp: ff(2))
  qed
  have fresh: "md_read (cs_metadata (flushPack c)) (packPath (show_nat k)) = None" if "k \<ge> cs_nextPackId (flushPack c)" for k
    using that packs_inv_rest(2) [OF assms(1), of k] by (simp add: ff)
  have "readable sha (flushPack c) h" if "jm_has (cs_memCache (flushPack c)) h" for h
  proof -
    have "jm_has (cs_memCache c) h"
      using that flush_cache [of c h] assms(2) by (auto simp: jm_has_def cache_inv_def)
    then have "h \<in> set (cs_pending c) \<or> readable sha c h" using packs_inv_rest(4) [OF assms(1)] by blast
    then have "readable sha c h \<or> h \<in> fst ` set (cs_packBuffer c)" using assms(2) by (auto simp: cache_inv_def buffer_ok_def)
    then show ?thesis using flush_readable [OF assms] by blast
  qed
  then show ?thesis using wf idx fresh unfolding packs_inv_def by (simp add: ff(4))
qed (use assms in \<open>simp add: flushPack_def\<close>)

lemma flushed_places_ok: "packs_inv sha c \<Longrightarrow> r \<in> set (flushed_places c) \<Longrightarrow> place_ok r"
proof -
  assume c: "packs_inv sha c" and r: "r \<in> set (flushed_places c)"
  obtain h loc where hl: "r = (h, loc)" by (cases r)
  obtain t where "(h, t) \<in> set (cs_packBuffer c)" "pl_packId loc = show_nat (cs_nextPackId c)"
    using new_place_flush [OF c r [unfolded hl]] .
  then show ?thesis using packs_inv_rest(3) [OF c] unfolding hl place_ok_def by auto
qed

lemma flush_index_on_disk:
  assumes "packs_inv sha c" and "index_on_disk c"
  shows "index_on_disk (flushPack c)"
proof (cases "cs_packBuffer c = []")
  case False
  obtain recs where r: "md_read (cs_metadata c) PACK_INDEX_PATH = Some (journal_text (map index_line recs)) \<or>
      md_read (cs_metadata c) PACK_INDEX_PATH = None \<and> recs = []"
    "\<forall>r \<in> set recs. place_ok r" "jm_of_list recs = cs_index c"
    using assms(2) by (auto simp: index_on_disk_def)
  have "md_read (cs_metadata (flushPack c)) PACK_INDEX_PATH = Some (journal_text (map index_line (recs @ flushed_places c)))"
    using r(1) by (auto simp: flush_fields [OF False])
  moreover have "jm_of_list (recs @ flushed_places c) = cs_index (flushPack c)"
    using r(3) by (simp add: jm_of_list_def flush_fields [OF False])
  moreover have "\<forall>r \<in> set (recs @ flushed_places c). place_ok r" using r(2) flushed_places_ok [OF assms(1)] by auto
  ultimately show ?thesis unfolding index_on_disk_def by blast
qed (use assms in \<open>simp add: flushPack_def\<close>)

section \<open>Reading\<close>

lemma readable_cong:
  "cs_index d = cs_index c \<Longrightarrow> cs_metadata d = cs_metadata c \<Longrightarrow> readable sha d h = readable sha c h"
  by (simp add: readable_def)

lemma packs_inv_frame:
  assumes "packs_inv sha c" and "same_but_cache c d"
    and "\<And>h. jm_has (cs_memCache d) h \<Longrightarrow> jm_has (cs_memCache c) h \<or> readable sha c h"
  shows "packs_inv sha d"
proof -
  have f: "cs_index d = cs_index c" "cs_packBuffer d = cs_packBuffer c" "cs_pending d = cs_pending c"
    "cs_nextPackId d = cs_nextPackId c" "cs_metadata d = cs_metadata c"
    using assms(2) by (simp_all add: same_but_cache_def)
  have "readable sha d = readable sha c" using f by (auto simp: readable_def)
  then show ?thesis using assms(1,3) packs_inv_rest(4) [OF assms(1)] unfolding packs_inv_def f by auto
qed

lemma cacheSet_has:
  assumes "counter_ok c" and "jm_has (cs_memCache (cacheSet k b c)) h"
  shows "h = k \<or> jm_has (cs_memCache c) h"
proof -
  let ?d = "c\<lparr> cs_memCache := jm_set k b (jm_delete k (cs_memCache c)),
      cs_memBytes := cs_memBytes c - cached_bytes k c + int (length b) \<rparr>"
  have "total_bytes (jm_set k b (jm_delete k (cs_memCache c))) = cs_memBytes c - cached_bytes k c + int (length b)"
    using assms(1) total_delete [of "cs_memCache c" k]
    by (simp add: reinsert counter_ok_def cached_bytes_def) (simp add: total_bytes_def)
  then have "counter_ok ?d" using assms(1) by (simp add: counter_ok_def)
  from evict_cache(3) [OF this, of h] show ?thesis
    using assms(2) by (auto simp: cacheSet_def jm_has_def split: if_splits)
qed

lemma scan_body_packs:
  assumes "packs_inv sha c" and "jm_get (cs_index c) k = Some l"
    and "md_read (cs_metadata c) (packPath p) = Some pack"
  obtains (skip) "scan_body sha p pack (k, l) c = Inr None"
      and "jm_has (cs_memCache c) k \<or> pl_packId l \<noteq> p \<or> \<not> place_holds sha (cs_metadata c) k l"
    | (hit) b where "scan_body sha p pack (k, l) c = Inr (Some b)" and "readable sha c k"
proof (cases "pl_packId l \<noteq> p \<or> jm_has (cs_memCache c) k \<or> length (js_substr pack (pl_offset l) (pl_len l)) \<noteq> pl_len l")
  case True
  then show ?thesis using skip assms(3) by (auto simp: scan_body_def Let_def place_holds_def pack_slice_def)
next
  case False
  then have sl: "pack_slice (cs_metadata c) l = Some (js_substr pack (pl_offset l) (pl_len l))"
    using assms(3) by (simp add: pack_slice_def)
  obtain b where b: "base64ToBytes (js_substr pack (pl_offset l) (pl_len l)) = Some b"
    using packs_inv_index(4) [OF assms(1,2) sl] by blast
  show ?thesis
  proof (cases "hashContent sha b = k")
    case True
    then show ?thesis using hit [of b] False sl b assms(2) by (auto simp: scan_body_def Let_def readable_def place_holds_def)
  next
    case neq: False
    then show ?thesis using skip False neq sl b by (auto simp: scan_body_def Let_def place_holds_def)
  qed
qed

lemma scan_packs:
  assumes "packs_inv sha c" and "cache_inv sha c" and "md_read (cs_metadata c) (packPath p) = Some pack"
    and "set ls \<subseteq> set (cs_index c)" and "distinct (map fst ls)"
  shows "\<exists>d f. pack_scan sha h p pack ls found c = (d, Inr f) \<and> packs_inv sha d \<and>
    (found \<noteq> None \<longrightarrow> f \<noteq> None) \<and>
    (\<forall>l. (h, l) \<in> set ls \<longrightarrow> pl_packId l = p \<longrightarrow> place_holds sha (cs_metadata c) h l \<longrightarrow>
         \<not> jm_has (cs_memCache c) h \<longrightarrow> f \<noteq> None)"
  using assms
proof (induction ls arbitrary: found c)
  case (Cons kl ls)
  obtain k l where kl: "kl = (k, l)" by (cases kl)
  have g: "jm_get (cs_index c) k = Some l"
    using Cons.prems(4) kl jm_wf_get [OF packs_inv_rest(1) [OF Cons.prems(1)]] by auto
  show ?case
  proof (cases rule: scan_body_packs [OF Cons.prems(1) g Cons.prems(3)])
    case 1
    obtain d f where "pack_scan sha h p pack ls found c = (d, Inr f) \<and> packs_inv sha d \<and>
      (found \<noteq> None \<longrightarrow> f \<noteq> None) \<and>
      (\<forall>l. (h, l) \<in> set ls \<longrightarrow> pl_packId l = p \<longrightarrow> place_holds sha (cs_metadata c) h l \<longrightarrow>
         \<not> jm_has (cs_memCache c) h \<longrightarrow> f \<noteq> None)"
      using Cons.IH [OF Cons.prems(1-3), of found] Cons.prems(4,5) by auto
    then show ?thesis using 1 by (auto simp: kl pack_scan_Cons)
  next
    case (2 b)
    let ?c = "cacheSet k b c" and ?found = "if k = h then Some b else found"
    have hb: "hashContent sha b = k" using 2(1) scan_body_hash by blast
    have has: "jm_has (cs_memCache ?c) j \<Longrightarrow> j = k \<or> jm_has (cs_memCache c) j" for j
      using cacheSet_has Cons.prems(2) by (auto simp: cache_inv_def)
    have p: "packs_inv sha ?c" using packs_inv_frame [OF Cons.prems(1) cacheSet_same] has 2(2) by metis
    have sub: "set ls \<subseteq> set (cs_index ?c)" "md_read (cs_metadata ?c) (packPath p) = Some pack"
      "distinct (map fst ls)" using Cons.prems by auto
    obtain d f where df0: "pack_scan sha h p pack ls ?found ?c = (d, Inr f) \<and> packs_inv sha d \<and>
      (?found \<noteq> None \<longrightarrow> f \<noteq> None) \<and>
      (\<forall>l. (h, l) \<in> set ls \<longrightarrow> pl_packId l = p \<longrightarrow> place_holds sha (cs_metadata ?c) h l \<longrightarrow>
         \<not> jm_has (cs_memCache ?c) h \<longrightarrow> f \<noteq> None)"
      using Cons.IH [OF p cacheSet_inv [OF Cons.prems(2) hb] sub(2,1,3), of ?found] by (elim exE) (rule that)
    note df = df0 [THEN conjunct1] df0 [THEN conjunct2, THEN conjunct1] df0 [THEN conjunct2, THEN conjunct2, THEN conjunct1, rule_format]
      df0 [THEN conjunct2, THEN conjunct2, THEN conjunct2, rule_format]
    have "f \<noteq> None" if "(h, l') \<in> set (kl # ls)" "pl_packId l' = p" "place_holds sha (cs_metadata c) h l'"
      "\<not> jm_has (cs_memCache c) h" for l'
    proof (cases "k = h")
      case False
      then show ?thesis using df(4) [of l'] that has [of h] kl by auto
    qed (use df(3) in simp)
    moreover have "found \<noteq> None \<Longrightarrow> f \<noteq> None" using df(3) by (cases "k = h") auto
    moreover have "pack_scan sha h p pack (kl # ls) found c = (d, Inr f)"
      using df(1) 2(1) by (simp add: kl pack_scan_Cons)
    ultimately show ?thesis using df(2) by (intro exI [of _ d] exI [of _ f]) simp
  qed
qed simp

lemma get_packs:
  assumes "packs_inv sha c" and "cache_inv sha c"
  obtains d f where "cs_get sha h c = (d, Inr f)" and "packs_inv sha d" and "readable sha c h \<Longrightarrow> f \<noteq> None"
proof (cases "jm_get (cs_memCache c) h")
  case (Some x)
  have "packs_inv sha (c\<lparr> cs_memCache := jm_set h x (jm_delete h (cs_memCache c)) \<rparr>)"
    by (rule packs_inv_frame [OF assms(1)]) (auto simp: same_but_cache_def jm_has_def Some split: if_splits)
  then show ?thesis using that Some by (simp add: cs_get_def)
next
  case None
  show ?thesis
  proof (cases "jm_get (cs_index c) h")
    case no: None
    then show ?thesis using that [of c None] None assms by (simp add: cs_get_def getFromPack_def readable_def)
  next
    case (Some loc)
    obtain pack where pack: "md_read (cs_metadata c) (packPath (pl_packId loc)) = Some pack"
      using packs_inv_index(3) [OF assms(1) Some] by auto
    have wf: "jm_wf (cs_index c)" using packs_inv_rest(1) [OF assms(1)] .
    have dist: "distinct (map fst (cs_index c))" using wf by (simp add: jm_wf_def)
    obtain d f where df0: "pack_scan sha h (pl_packId loc) pack (cs_index c) None c = (d, Inr f) \<and> packs_inv sha d \<and>
      ((None :: bytes option) \<noteq> None \<longrightarrow> f \<noteq> None) \<and>
      (\<forall>l. (h, l) \<in> set (cs_index c) \<longrightarrow> pl_packId l = pl_packId loc \<longrightarrow> place_holds sha (cs_metadata c) h l \<longrightarrow>
         \<not> jm_has (cs_memCache c) h \<longrightarrow> f \<noteq> None)"
      using scan_packs [OF assms pack subset_refl dist, of h None] by (elim exE) (rule that)
    note df = df0 [THEN conjunct1] df0 [THEN conjunct2, THEN conjunct1] df0 [THEN conjunct2, THEN conjunct2, THEN conjunct2, rule_format]
    have "readable sha c h \<Longrightarrow> f \<noteq> None"
      using df(3) [of loc] None Some jm_wf_get [OF wf] by (auto simp: readable_def jm_has_def)
    moreover have "cs_get sha h c = (d, Inr f)" using None Some pack df(1) by (simp add: cs_get_def getFromPack_def)
    ultimately show ?thesis using that df(2) by blast
  qed
qed

section \<open>Writing\<close>

lemma putBuffered_has:
  assumes "counter_ok c" and "jm_has (cs_memCache (putBuffered h b c)) k"
  shows "k = h \<or> jm_has (cs_memCache c) k"
proof -
  have "counter_ok (c\<lparr> cs_pending := js_add h (cs_pending c) \<rparr>)" using assms(1) by (simp add: counter_ok_def)
  from cacheSet_has [OF this, of h b k] show ?thesis using assms(2)
    by (auto simp: putBuffered_def Let_def split: if_splits)
qed

lemma putBuffered_fields [simp]:
  "cs_index (putBuffered h b c) = cs_index c" "cs_metadata (putBuffered h b c) = cs_metadata c"
  "cs_nextPackId (putBuffered h b c) = cs_nextPackId c"
  "cs_memBudgetBytes (putBuffered h b c) = cs_memBudgetBytes c"
  by (simp_all add: putBuffered_def Let_def)

lemma putBuffered_packs:
  assumes "packs_inv sha c" and "cache_inv sha c" and "key_ok h"
  shows "packs_inv sha (putBuffered h b c)"
    and "readable sha c h \<or> h \<in> fst ` set (cs_packBuffer (putBuffered h b c))"
proof -
  let ?d = "putBuffered h b c"
  have buf: "fst ` set (cs_packBuffer ?d) \<subseteq> insert h (fst ` set (cs_packBuffer c))"
    "set (cs_pending c) \<subseteq> set (cs_pending ?d)" "jm_has (cs_memCache c) h \<or> h \<in> set (cs_pending ?d)"
    by (auto simp: putBuffered_def Let_def)
  have keys: "\<forall>k \<in> fst ` set (cs_packBuffer ?d). key_ok k"
    using buf(1) assms(3) packs_inv_rest(3) [OF assms(1)] by force
  have cnt: "counter_ok c" using assms(2) by (simp add: cache_inv_def)
  have has: "k \<in> set (cs_pending ?d) \<or> readable sha ?d k" if "jm_has (cs_memCache ?d) k" for k
    using putBuffered_has [OF cnt that] packs_inv_rest(4) [OF assms(1), of k] buf(2,3)
      packs_inv_rest(4) [OF assms(1), of h] by (auto simp: readable_cong [of ?d c])
  show "packs_inv sha ?d" using assms(1) keys has unfolding packs_inv_def putBuffered_fields by blast
  show "readable sha c h \<or> h \<in> fst ` set (cs_packBuffer ?d)"
    using packs_inv_rest(4) [OF assms(1), of h] assms(2)
    by (auto simp: putBuffered_def Let_def cache_inv_def buffer_ok_def)
qed

lemma putBuffered_disk: "index_on_disk c \<Longrightarrow> index_on_disk (putBuffered h b c)"
  by (simp add: index_on_disk_def)

section \<open>Dropping the blobs of a pack\<close>

definition points_at :: "content_store \<Rightarrow> string \<Rightarrow> string \<Rightarrow> bool" where
  "points_at c p h = (case jm_get (cs_index c) h of Some loc \<Rightarrow> pl_packId loc = p | None \<Rightarrow> False)"

lemma points_at_iff: "points_at c p h \<longleftrightarrow> (\<exists>loc. jm_get (cs_index c) h = Some loc \<and> pl_packId loc = p)"
  by (simp add: points_at_def split: option.split)

lemma drop_member_fields [simp]:
  "cs_index (drop_member h c) = jm_delete h (cs_index c)" "cs_memCache (drop_member h c) = jm_delete h (cs_memCache c)"
  "cs_metadata (drop_member h c) = cs_metadata c" "cs_pending (drop_member h c) = cs_pending c"
  "cs_packBuffer (drop_member h c) = cs_packBuffer c" "cs_nextPackId (drop_member h c) = cs_nextPackId c"
  by (simp_all add: drop_member_def cacheDelete_def index_delete_def)

lemma fold_drop_fields [simp]:
  "jm_get (cs_index (fold drop_member hs c)) k = (if k \<in> set hs then None else jm_get (cs_index c) k)"
  "jm_has (cs_memCache (fold drop_member hs c)) k \<longleftrightarrow> k \<notin> set hs \<and> jm_has (cs_memCache c) k"
  "cs_metadata (fold drop_member hs c) = cs_metadata c" "cs_pending (fold drop_member hs c) = cs_pending c"
  "cs_packBuffer (fold drop_member hs c) = cs_packBuffer c" "cs_nextPackId (fold drop_member hs c) = cs_nextPackId c"
  "jm_wf (cs_index c) \<Longrightarrow> jm_wf (cs_index (fold drop_member hs c))"
  by (induction hs arbitrary: c) (auto simp: jm_has_def)

lemma drop_stale_fold:
  "distinct ms \<Longrightarrow> fold (drop_stale p) ms c = fold drop_member (filter (points_at c p) ms) c"
proof (induction ms arbitrary: c)
  case (Cons m ms)
  have d: "drop_stale p m c = (if points_at c p m then drop_member m c else c)"
    by (simp add: drop_stale_def points_at_def split: option.split)
  have "filter (points_at (drop_member m c) p) ms = filter (points_at c p) ms"
    using Cons.prems by (intro filter_cong) (auto simp: points_at_def)
  then show ?case using Cons by (simp add: d)
qed simp

lemma purge_packs:
  assumes "packs_inv sha c" and "\<And>h. points_at c p h \<Longrightarrow> h \<in> set hs"
  defines "d \<equiv> fold drop_member hs (remove_pack p c)"
  shows "packs_inv sha d" and "readable sha d k \<longleftrightarrow> readable sha c k \<and> k \<notin> set hs"
proof -
  have f: "cs_metadata d = md_remove (packPath p) (cs_metadata c)" "cs_pending d = cs_pending c"
    "cs_packBuffer d = cs_packBuffer c" "cs_nextPackId d = cs_nextPackId c"
    "jm_get (cs_index d) j = (if j \<in> set hs then None else jm_get (cs_index c) j)"
    "jm_has (cs_memCache d) j \<longleftrightarrow> j \<notin> set hs \<and> jm_has (cs_memCache c) j" for j
    by (simp_all add: d_def remove_pack_def)
  have other: "pl_packId loc \<noteq> p" if "jm_get (cs_index d) j = Some loc" for j loc
    using that assms(2) [of j] f(5) [of j] by (auto simp: points_at_def split: if_splits)
  have read: "pl_packId loc \<noteq> p \<Longrightarrow> pack_slice (cs_metadata d) loc = pack_slice (cs_metadata c) loc" for loc
    by (simp add: pack_slice_def f(1))
  have hold: "pl_packId loc \<noteq> p \<Longrightarrow> place_holds sha (cs_metadata d) j loc = place_holds sha (cs_metadata c) j loc" for j loc
    by (simp add: place_holds_def read)
  show r: "readable sha d k \<longleftrightarrow> readable sha c k \<and> k \<notin> set hs" for k
    using other [of k] hold [of _ k] f(5) [of k] by (auto simp: readable_def split: if_splits)
  have wf: "jm_wf (cs_index d)" using packs_inv_rest(1) [OF assms(1)] by (simp add: d_def remove_pack_def)
  have idx: "key_ok h \<and> (\<exists>k < cs_nextPackId d. pl_packId loc = show_nat k) \<and>
      md_read (cs_metadata d) (packPath (pl_packId loc)) \<noteq> None \<and>
      (\<forall>t. pack_slice (cs_metadata d) loc = Some t \<longrightarrow> (\<exists>b. base64ToBytes t = Some b))"
    if h: "jm_get (cs_index d) h = Some loc" for h loc
  proof -
    have g: "jm_get (cs_index c) h = Some loc" using h f(5) [of h] by (simp split: if_splits)
    show ?thesis using packs_inv_index [OF assms(1) g] other [OF h] by (simp add: f(4) read) (simp add: f(1))
  qed
  have fresh: "k \<ge> cs_nextPackId d \<Longrightarrow> md_read (cs_metadata d) (packPath (show_nat k)) = None" for k
    using packs_inv_rest(2) [OF assms(1), of k] by (simp add: f(1,4))
  have keys: "\<forall>h \<in> fst ` set (cs_packBuffer d). key_ok h" using packs_inv_rest(3) [OF assms(1)] by (force simp: f(3))
  have "jm_has (cs_memCache d) h \<Longrightarrow> h \<in> set (cs_pending d) \<or> readable sha d h" for h
    using packs_inv_rest(4) [OF assms(1), of h] by (auto simp: f(6) f(2) r)
  then show "packs_inv sha d" using wf idx fresh keys unfolding packs_inv_def by blast
qed

end
