(* ===== verification/ContentProps.thy ===== *)
theory ContentProps
  imports ContentPacks
begin

text \<open>
  The properties of the content store: compaction, collection and consolidation keep the blobs
  they are told to keep, every reachable store keeps its invariant and never throws, what it
  returns hashes to its key whatever is on disk, a blob that was put is read back, also after a
  restart, and the cache stays within its budget.
\<close>

section \<open>Moving blobs between packs\<close>

lemma key_ok_of_index: "packs_inv sha c \<Longrightarrow> jm_has (cs_index c) h \<Longrightarrow> key_ok h"
  using packs_inv_index(1) by (auto simp: jm_has_def)

text \<open>The state after the buffer has grown by verified blobs.\<close>

lemma grow_buffer:
  assumes "packs_inv sha c" and "cache_inv sha c" and "base64ToBytes t = Some b" and "hashContent sha b = h" and "key_ok h"
  shows "set (cs_pending c) \<subseteq> set p \<Longrightarrow>
      packs_inv sha (c\<lparr> cs_pending := p, cs_packBuffer := cs_packBuffer c @ [(h, t)] \<rparr>)"
    and "cache_inv sha (c\<lparr> cs_pending := js_add h (cs_pending c), cs_packBuffer := cs_packBuffer c @ [(h, t)] \<rparr>)"
    and "packs_inv sha (c\<lparr> cs_packBuffer := cs_packBuffer c @ [(h, t)] \<rparr>)"
    and "cache_inv sha (c\<lparr> cs_packBuffer := cs_packBuffer c @ [(h, t)] \<rparr>)"
proof -
  have k: "k \<in> fst ` set (cs_packBuffer c @ [(h, t)]) \<Longrightarrow> key_ok k" for k
    using packs_inv_rest(3) [OF assms(1)] assms(5) by force
  show "set (cs_pending c) \<subseteq> set p \<Longrightarrow>
      packs_inv sha (c\<lparr> cs_pending := p, cs_packBuffer := cs_packBuffer c @ [(h, t)] \<rparr>)"
    by (rule packs_inv_buffer [OF assms(1)]) (use k in auto)
  show "packs_inv sha (c\<lparr> cs_packBuffer := cs_packBuffer c @ [(h, t)] \<rparr>)"
    by (rule packs_inv_buffer [OF assms(1)]) (use k in auto)
  show "cache_inv sha (c\<lparr> cs_pending := js_add h (cs_pending c), cs_packBuffer := cs_packBuffer c @ [(h, t)] \<rparr>)"
    "cache_inv sha (c\<lparr> cs_packBuffer := cs_packBuffer c @ [(h, t)] \<rparr>)"
    using assms(2,3,4) by (auto simp: cache_inv_def counter_ok_def within_budget_def verified_def buffer_ok_def)
qed

lemma rebuffer_packs:
  assumes "packs_inv sha c" and "cache_inv sha c" and "\<forall>h \<in> set hs. key_ok h"
  shows "\<exists>d. rebuffer sha hs c = (d, Inr ()) \<and> packs_inv sha d \<and> cs_index d = cs_index c \<and>
    cs_metadata d = cs_metadata c \<and> cs_nextPackId d = cs_nextPackId c \<and>
    fst ` set (cs_packBuffer c) \<union> {h \<in> set hs. readable sha c h} \<subseteq> fst ` set (cs_packBuffer d)"
  using assms
proof (induction hs arbitrary: c)
  case (Cons h hs)
  obtain c1 f where g: "cs_get sha h c = (c1, Inr f)" "packs_inv sha c1" "readable sha c h \<Longrightarrow> f \<noteq> None"
    using get_packs [OF Cons.prems(1,2), of h] by blast
  have i: "cache_inv sha c1" "same_but_cache c c1" "case f of Some b \<Rightarrow> hashContent sha b = h | _ \<Rightarrow> True"
    using get_inv [OF Cons.prems(2), of h] g(1) by auto
  have same: "cs_index c1 = cs_index c" "cs_metadata c1 = cs_metadata c" "cs_nextPackId c1 = cs_nextPackId c"
    "cs_packBuffer c1 = cs_packBuffer c" using i(2) by (simp_all add: same_but_cache_def)
  have r: "cs_index e = cs_index c1 \<Longrightarrow> cs_metadata e = cs_metadata c1 \<Longrightarrow> readable sha e = readable sha c" for e
    using same by (auto simp: readable_def)
  show ?case
  proof (cases f)
    case None
    then show ?thesis using Cons.IH [OF g(2) i(1)] Cons.prems(3) g(1,3) same r [of c1] by auto
  next
    case (Some b)
    let ?e = "c1\<lparr> cs_pending := js_add h (cs_pending c1), cs_packBuffer := cs_packBuffer c1 @ [(h, bytesToBase64 b)] \<rparr>"
    have b: "hashContent sha b = h" "key_ok h" using i(3) Some Cons.prems(3) by auto
    have e: "packs_inv sha ?e" "cache_inv sha ?e"
      using grow_buffer(1) [OF g(2) i(1) base64_roundtrip b, of "js_add h (cs_pending c1)"]
        grow_buffer(2) [OF g(2) i(1) base64_roundtrip b] by auto
    from Cons.IH [OF e] obtain d where d: "rebuffer sha hs ?e = (d, Inr ()) \<and> packs_inv sha d \<and> cs_index d = cs_index ?e \<and>
      cs_metadata d = cs_metadata ?e \<and> cs_nextPackId d = cs_nextPackId ?e \<and>
      fst ` set (cs_packBuffer ?e) \<union> {h \<in> set hs. readable sha ?e h} \<subseteq> fst ` set (cs_packBuffer d)"
      using Cons.prems(3) by auto
    moreover have "readable sha ?e = readable sha c" by (rule r) simp_all
    ultimately show ?thesis using g(1) Some same by auto
  qed
qed simp

lemma pack_id_cases: "packs_inv sha c \<Longrightarrow> points_at c p h \<Longrightarrow> \<exists>j < cs_nextPackId c. p = show_nat j"
  using packs_inv_index(2) by (auto simp: points_at_def split: option.splits)

lemma remove_moved_packs:
  assumes "packs_inv sha d" and "\<And>h. points_at d p h \<Longrightarrow> h \<in> set ms" and "distinct ms"
  defines "e \<equiv> fold (drop_stale p) ms (remove_pack p d)"
  shows "packs_inv sha e" and "readable sha e k \<longleftrightarrow> readable sha d k \<and> \<not> points_at d p k"
    and "points_at e q h \<Longrightarrow> points_at d q h" and "cs_nextPackId e = cs_nextPackId d"
    and "cs_packBuffer e = cs_packBuffer d"
proof -
  let ?hs = "filter (points_at d p) ms"
  have "points_at (remove_pack p d) p = points_at d p" by (auto simp: points_at_def remove_pack_def)
  then have e: "e = fold drop_member ?hs (remove_pack p d)" by (simp add: e_def drop_stale_fold [OF assms(3)])
  have cover: "\<And>h. points_at d p h \<Longrightarrow> h \<in> set ?hs" using assms(2) by simp
  show "packs_inv sha e" unfolding e by (rule purge_packs(1) [OF assms(1)]) (rule cover)
  have r: "readable sha e k \<longleftrightarrow> readable sha d k \<and> k \<notin> set ?hs"
    unfolding e by (rule purge_packs(2) [OF assms(1)]) (rule cover)
  show "readable sha e k \<longleftrightarrow> readable sha d k \<and> \<not> points_at d p k" using r assms(2) [of k] by auto
  show "points_at e q h \<Longrightarrow> points_at d q h" by (auto simp: e points_at_def remove_pack_def split: if_splits option.splits)
  show "cs_nextPackId e = cs_nextPackId d" "cs_packBuffer e = cs_packBuffer d" by (simp_all add: e remove_pack_def)
qed

text \<open>After a flush a buffered blob points into the fresh pack, the others where they did.\<close>

lemma flush_points:
  assumes "packs_inv sha c" and "points_at (flushPack c) p h"
  shows "points_at c p h \<and> h \<notin> fst ` set (cs_packBuffer c) \<or> p = show_nat (cs_nextPackId c)"
proof (cases "cs_packBuffer c = []")
  case False
  obtain loc where l: "jm_get (cs_index (flushPack c)) h = Some loc" "pl_packId loc = p"
    using assms(2) by (auto simp: points_at_def split: option.splits)
  from flushed_index [OF False l(1)] show ?thesis
  proof
    assume "(h, loc) \<in> set (flushed_places c)"
    from new_place_flush [OF assms(1) this] show ?thesis using l(2) by metis
  next
    assume "h \<notin> fst ` set (cs_packBuffer c) \<and> jm_get (cs_index c) h = Some loc"
    then show ?thesis using l(2) by (simp add: points_at_def)
  qed
qed (use assms in \<open>simp add: flushPack_def\<close>)

lemma next_flush: "cs_nextPackId c \<le> cs_nextPackId (flushPack c)"
  by (cases "cs_packBuffer c = []") (simp_all add: flush_fields, simp add: flushPack_def)

lemma compactPack_packs:
  assumes "packs_inv sha c" and "cache_inv sha c" and "\<exists>j < cs_nextPackId c. p = show_nat j"
  shows "\<exists>d. compactPack sha keep p c = (d, Inr ()) \<and> packs_inv sha d \<and> cs_nextPackId c \<le> cs_nextPackId d \<and>
    {h \<in> set keep. readable sha c h} \<subseteq> {h. readable sha d h}"
proof -
  let ?ms = "map fst (filter (\<lambda>(h, loc). pl_packId loc = p) (cs_index c))"
  let ?live = "filter (\<lambda>h. h \<in> set keep) ?ms"
  have wf: "jm_wf (cs_index c)" using packs_inv_rest(1) [OF assms(1)] .
  have mem: "points_at c p h \<longleftrightarrow> h \<in> set ?ms" for h
    using jm_wf_get [OF wf, of h] by (auto simp: points_at_iff) force+
  have dist: "distinct ?ms" using wf by (simp add: jm_wf_def distinct_map_filter)
  have keys: "\<forall>h \<in> set ?live. key_ok h"
  proof
    fix h assume "h \<in> set ?live"
    then have "points_at c p h" using mem [of h] by simp
    then show "key_ok h" using packs_inv_index(1) [OF assms(1)] unfolding points_at_iff by blast
  qed
  obtain c1 where c1: "rebuffer sha ?live c = (c1, Inr ())" "packs_inv sha c1" "cs_index c1 = cs_index c"
    "cs_metadata c1 = cs_metadata c" "cs_nextPackId c1 = cs_nextPackId c"
    "fst ` set (cs_packBuffer c) \<union> {h \<in> set ?live. readable sha c h} \<subseteq> fst ` set (cs_packBuffer c1)"
    using rebuffer_packs [OF assms(1,2) keys] by blast
  have i1: "cache_inv sha c1" using rebuffer_inv [OF assms(2), of ?live] c1(1) by simp
  let ?f = "flushPack c1"
  have f: "packs_inv sha ?f" using flush_packs [OF c1(2) i1] .
  have pts: "points_at c1 q h = points_at c q h" for q h using c1(3) by (simp add: points_at_def)
  have ne: "p \<noteq> show_nat (cs_nextPackId c1)" using assms(3) c1(5) by auto
  have fp: "points_at ?f p h \<Longrightarrow> points_at c p h \<and> h \<notin> fst ` set (cs_packBuffer c1)" for h
    using flush_points [OF c1(2), of p h] ne pts by auto
  have cover: "points_at ?f p h \<Longrightarrow> h \<in> set ?ms" for h using fp mem by blast
  note rm = remove_moved_packs [OF f cover dist]
  have "readable sha (fold (drop_stale p) ?ms (remove_pack p ?f)) h" if "h \<in> set keep" "readable sha c h" for h
  proof -
    have "readable sha ?f h" using flush_readable [OF c1(2) i1, of h] that(2) readable_cong [OF c1(3,4)] by simp
    moreover have "\<not> points_at ?f p h"
    proof
      assume at: "points_at ?f p h"
      then have "h \<in> set ?live" using fp [OF at] mem [of h] that(1) by (simp del: set_map)
      then have "h \<in> fst ` set (cs_packBuffer c1)" using c1(6) that(2) by blast
      then show False using fp [OF at] by blast
    qed
    ultimately show ?thesis using rm(2) by blast
  qed
  moreover have "compactPack sha keep p c = (fold (drop_stale p) ?ms (remove_pack p ?f), Inr ())"
    by (simp add: compactPack_def Let_def c1(1))
  ultimately show ?thesis using rm(1,4) next_flush [of c1] c1(5) by auto
qed

section \<open>Collection and consolidation\<close>

lemma compact_all_packs:
  assumes "packs_inv sha c" and "cache_inv sha c" and "\<forall>p \<in> set ps. \<exists>j < cs_nextPackId c. p = show_nat j"
  shows "\<exists>d. compact_all sha keep ps c = (d, Inr ()) \<and> packs_inv sha d \<and>
    {h \<in> set keep. readable sha c h} \<subseteq> {h. readable sha d h} \<and> (ps = [] \<longrightarrow> d = c)"
  using assms
proof (induction ps arbitrary: c)
  case (Cons p ps)
  have p: "\<exists>j < cs_nextPackId c. p = show_nat j" using Cons.prems(3) by simp
  obtain d where d: "compactPack sha keep p c = (d, Inr ())" "packs_inv sha d" "cs_nextPackId c \<le> cs_nextPackId d"
    "{h \<in> set keep. readable sha c h} \<subseteq> {h. readable sha d h}"
    using compactPack_packs [OF Cons.prems(1,2) p, of keep] by blast
  have i: "cache_inv sha d" using compactPack_inv [OF Cons.prems(2), of keep p] d(1) by simp
  have ps: "\<forall>p \<in> set ps. \<exists>j < cs_nextPackId d. p = show_nat j" using Cons.prems(3) d(3) by (meson list.set_intros(2) order_less_le_trans)
  obtain e where "compact_all sha keep ps d = (e, Inr ())" "packs_inv sha e"
    "{h \<in> set keep. readable sha d h} \<subseteq> {h. readable sha e h}"
    using Cons.IH [OF d(2) i ps] by blast
  then show ?case using d(1,4) by auto
qed auto

lemma pack_members_snoc:
  "pack_members (idx @ [(h, loc)]) =
     jm_set (pl_packId loc)
       ((case jm_get (pack_members idx) (pl_packId loc) of None \<Rightarrow> [] | Some hs \<Rightarrow> hs) @ [h]) (pack_members idx)"
  by (simp add: pack_members_def)

lemma pack_members_get:
  "jm_get (pack_members idx) p =
    (let hs = map fst (filter (\<lambda>(h, loc). pl_packId loc = p) idx) in if hs = [] then None else Some hs)"
proof (induction idx arbitrary: p rule: rev_induct)
  case (snoc x idx)
  obtain h loc where x: "x = (h, loc)" by (cases x)
  show ?case
  proof (cases "pl_packId loc = p")
    case True
    show ?thesis using snoc [of p] True by (simp add: x pack_members_snoc Let_def del: map_is_Nil_conv split: option.splits)
  next
    case False
    then show ?thesis using snoc [of p] by (simp add: x pack_members_snoc Let_def)
  qed
qed (simp add: pack_members_def)

lemma pack_members_wf: "jm_wf (pack_members idx)"
proof (induction idx rule: rev_induct)
  case (snoc x idx)
  then show ?case by (cases x) (simp add: pack_members_snoc)
qed (simp add: pack_members_def)

lemma members_points:
  assumes "packs_inv sha c"
  shows "h \<in> set (members_of (pack_members (cs_index c)) p) \<longleftrightarrow> points_at c p h"
    and "distinct (members_of (pack_members (cs_index c)) p)"
    and "(p, hs) \<in> set (pack_members (cs_index c)) \<Longrightarrow> members_of (pack_members (cs_index c)) p = hs \<and> hs \<noteq> []"
proof -
  have wf: "jm_wf (cs_index c)" using packs_inv_rest(1) [OF assms] .
  have m: "members_of (pack_members (cs_index c)) p = map fst (filter (\<lambda>(h, loc). pl_packId loc = p) (cs_index c))"
    by (simp add: members_of_def pack_members_get Let_def)
  show "h \<in> set (members_of (pack_members (cs_index c)) p) \<longleftrightarrow> points_at c p h"
    using jm_wf_get [OF wf, of h] unfolding m by (auto simp: points_at_iff) force+
  show "distinct (members_of (pack_members (cs_index c)) p)" using wf unfolding m by (simp add: jm_wf_def distinct_map_filter)
  show "(p, hs) \<in> set (pack_members (cs_index c)) \<Longrightarrow> members_of (pack_members (cs_index c)) p = hs \<and> hs \<noteq> []"
    using jm_wf_get [OF pack_members_wf, of p hs "cs_index c"]
    by (auto simp: members_of_def pack_members_get Let_def split: if_splits)
qed

lemma retire_packs:
  assumes "packs_inv sha c" and "{h. points_at c p h} \<subseteq> set hs"
  shows "packs_inv sha (retire_pack p hs c)" and "readable sha (retire_pack p hs c) k \<longleftrightarrow> readable sha c k \<and> k \<notin> set hs"
    and "points_at (retire_pack p hs c) q h \<Longrightarrow> points_at c q h" and "cs_nextPackId (retire_pack p hs c) = cs_nextPackId c"
proof -
  show "packs_inv sha (retire_pack p hs c)" unfolding retire_pack_def by (rule purge_packs(1) [OF assms(1)]) (use assms(2) in blast)
  show "readable sha (retire_pack p hs c) k \<longleftrightarrow> readable sha c k \<and> k \<notin> set hs"
    unfolding retire_pack_def by (rule purge_packs(2) [OF assms(1)]) (use assms(2) in blast)
  show "points_at (retire_pack p hs c) q h \<Longrightarrow> points_at c q h" "cs_nextPackId (retire_pack p hs c) = cs_nextPackId c"
    by (auto simp: retire_pack_def points_at_def remove_pack_def split: if_splits option.splits)
qed

lemma live_none: "live_count keep hs = 0 \<longleftrightarrow> set hs \<inter> set keep = {}"
  by (auto simp: live_count_def filter_empty_conv)

text \<open>What a pass of the collector leaves.\<close>

definition kept ::
  "(bytes \<Rightarrow> bytes) \<Rightarrow> string list \<Rightarrow> content_store \<Rightarrow> bool \<Rightarrow> content_store \<times> string list \<times> bool \<Rightarrow> bool" where
  "kept sha keep c dirty = (\<lambda>(d, tc, dirty').
     packs_inv sha d \<and> cache_inv sha d \<and> {h \<in> set keep. readable sha c h} \<subseteq> {h. readable sha d h} \<and>
     (\<forall>p \<in> set tc. \<exists>j < cs_nextPackId d. p = show_nat j) \<and> (\<not> dirty' \<longrightarrow> \<not> dirty \<and> d = c))"

lemma gc_scan_packs:
  assumes "packs_inv sha c" and "cache_inv sha c"
    and "\<And>p hs. (p, hs) \<in> set ms \<Longrightarrow> {h. points_at c p h} \<subseteq> set hs \<and> (\<exists>j < cs_nextPackId c. p = show_nat j)"
    and "\<And>p. p \<in> set tc \<Longrightarrow> \<exists>j < cs_nextPackId c. p = show_nat j"
  shows "kept sha keep c dirty (gc_scan aged keep ms c tc dirty)"
  using assms
proof (induction ms arbitrary: c tc dirty)
  case Nil
  then show ?case by (auto simp: kept_def)
next
  case (Cons m ms)
  obtain p hs where m: "m = (p, hs)" by (cases m)
  have pts: "{h. points_at c p h} \<subseteq> set hs" "\<exists>j < cs_nextPackId c. p = show_nat j"
    using Cons.prems(3) [of p hs] m by auto
  have ms: "\<And>q hs. (q, hs) \<in> set ms \<Longrightarrow> {h. points_at c q h} \<subseteq> set hs \<and> (\<exists>j < cs_nextPackId c. q = show_nat j)"
    by (rule Cons.prems(3)) simp
  have tc: "\<And>q. q \<in> set (tc @ [p]) \<Longrightarrow> \<exists>j < cs_nextPackId c. q = show_nat j" using Cons.prems(4) pts(2) by auto
  consider "gc_scan aged keep (m # ms) c tc dirty = gc_scan aged keep ms c tc dirty"
    | "gc_scan aged keep (m # ms) c tc dirty = gc_scan aged keep ms c (tc @ [p]) dirty"
    | "live_count keep hs = 0" "gc_scan aged keep (m # ms) c tc dirty = gc_scan aged keep ms (retire_pack p hs c) tc True"
    by (cases "aged p"; cases "live_count keep hs = 0"; cases "live_count keep hs < length hs \<and> 2 * live_count keep hs < length hs")
      (simp_all add: m)
  then show ?case
  proof cases
    case 1
    show ?thesis unfolding 1 by (rule Cons.IH, rule Cons.prems(1), rule Cons.prems(2), erule ms, erule Cons.prems(4))
  next
    case 2
    show ?thesis unfolding 2 by (rule Cons.IH, rule Cons.prems(1), rule Cons.prems(2), erule ms, erule tc)
  next
    case 3
    let ?c = "retire_pack p hs c"
    note rp = retire_packs [OF Cons.prems(1) pts(1)]
    have "kept sha keep ?c True (gc_scan aged keep ms ?c tc True)"
    proof (rule Cons.IH)
      show "packs_inv sha ?c" by (rule rp)
      show "cache_inv sha ?c" by (rule retire_inv [OF Cons.prems(2)])
      show "\<exists>j < cs_nextPackId ?c. q = show_nat j" if "q \<in> set tc" for q
        using Cons.prems(4) [OF that] by (simp add: rp(4))
      show "{h. points_at ?c q h} \<subseteq> set hs' \<and> (\<exists>j < cs_nextPackId ?c. q = show_nat j)" if "(q, hs') \<in> set ms" for q hs'
        using ms [OF that] rp(3) [of q] by (auto simp: rp(4))
    qed
    moreover have "{h \<in> set keep. readable sha c h} \<subseteq> {h \<in> set keep. readable sha ?c h}"
      using 3(1) rp(2) by (auto simp: live_none)
    ultimately show ?thesis unfolding 3(2) by (auto simp: kept_def split: prod.splits)
  qed
qed

text \<open>The state between the steps of a consolidation that has to keep the blobs in \<open>live\<close>.\<close>

definition packs_known :: "(string, string list) jsmap \<Rightarrow> string set \<Rightarrow> content_store \<Rightarrow> bool" where
  "packs_known ms P c =
     (\<forall>p \<in> P. {h. points_at c p h} \<subseteq> set (members_of ms p) \<and> distinct (members_of ms p) \<and>
        (\<exists>j < cs_nextPackId c. p = show_nat j))"

definition moved :: "string set \<Rightarrow> content_store \<Rightarrow> string list \<Rightarrow> bool" where
  "moved live c pend = (\<forall>p \<in> set pend. {h \<in> live. points_at c p h} \<subseteq> fst ` set (cs_packBuffer c))"

definition merging ::
  "(bytes \<Rightarrow> bytes) \<Rightarrow> (string, string list) jsmap \<Rightarrow> string set \<Rightarrow> string set \<Rightarrow> content_store \<Rightarrow> string list \<Rightarrow> bool" where
  "merging sha ms P live c pend =
     (packs_inv sha c \<and> cache_inv sha c \<and> packs_known ms P c \<and> live \<subseteq> {h. readable sha c h} \<and>
      set pend \<subseteq> P \<and> moved live c pend)"

lemma fold_moved_packs:
  assumes "packs_inv sha d" and "packs_known ms P d" and "set ps \<subseteq> P"
  defines "e \<equiv> fold (remove_moved ms) ps d"
  shows "packs_inv sha e \<and> packs_known ms P e \<and> cs_nextPackId e = cs_nextPackId d \<and>
    cs_packBuffer e = cs_packBuffer d \<and>
    {h. readable sha d h \<and> (\<forall>p \<in> set ps. \<not> points_at d p h)} \<subseteq> {h. readable sha e h}"
  using assms(1-3) unfolding e_def
proof (induction ps arbitrary: d)
  case (Cons p ps)
  have p: "\<And>h. points_at d p h \<Longrightarrow> h \<in> set (members_of ms p)" "distinct (members_of ms p)"
    using Cons.prems(2,3) by (auto simp: packs_known_def)
  let ?d = "remove_moved ms p d"
  have rm: "packs_inv sha ?d" "\<And>k. readable sha ?d k \<longleftrightarrow> readable sha d k \<and> \<not> points_at d p k"
    "\<And>q h. points_at ?d q h \<Longrightarrow> points_at d q h" "cs_nextPackId ?d = cs_nextPackId d" "cs_packBuffer ?d = cs_packBuffer d"
    unfolding remove_moved_def
    using remove_moved_packs(1,2,4,5) [OF Cons.prems(1) _ p(2), of p] p(1) remove_moved_packs(3) [OF Cons.prems(1) _ p(2), of p] by blast+
  have known: "packs_known ms P ?d" using Cons.prems(2) rm(3) by (fastforce simp: packs_known_def rm(4))
  have sub: "set ps \<subseteq> P" using Cons.prems(3) by simp
  have "{h. readable sha d h \<and> (\<forall>q \<in> set (p # ps). \<not> points_at d q h)} \<subseteq>
      {h. readable sha ?d h \<and> (\<forall>q \<in> set ps. \<not> points_at ?d q h)}" using rm(2,3) by auto
  also have "\<dots> \<subseteq> {h. readable sha (fold (remove_moved ms) (p # ps) d) h}" using Cons.IH [OF rm(1) known sub] by simp
  finally show ?case using Cons.IH [OF rm(1) known sub] rm(4,5) by simp
qed simp

lemma fold_moved_inv: "cache_inv sha c \<Longrightarrow> cache_inv sha (fold (remove_moved ms) ps c)"
  by (rule fold_inv) (auto simp: remove_moved_def intro!: fold_inv drop_stale_inv)

lemma deferred_packs:
  assumes "merging sha ms P live c pend"
  shows "\<exists>d n'. flushAndRetireDeferred ms (c, n, pend) = (d, n', []) \<and> merging sha ms P live d []"
proof (cases "cs_packBuffer c = [] \<and> pend = []")
  case True
  then show ?thesis using assms by (simp add: flushAndRetireDeferred_def)
next
  case False
  let ?f = "flushPack c" and ?d = "fold (remove_moved ms) pend (flushPack c)"
  have c: "packs_inv sha c" "cache_inv sha c" "packs_known ms P c" "live \<subseteq> {h. readable sha c h}"
    "set pend \<subseteq> P" "moved live c pend" using assms by (simp_all add: merging_def)
  have f: "packs_inv sha ?f" "cache_inv sha ?f" using flush_packs [OF c(1,2)] cs_flush_inv [OF c(2)] by simp_all
  have fp: "points_at c p h \<and> h \<notin> fst ` set (cs_packBuffer c)" if "points_at ?f p h" "p \<in> P" for p h
    using flush_points [OF c(1) that(1)] that(2) c(3) by (auto simp: packs_known_def)
  have known: "packs_known ms P ?f"
    using c(3) fp next_flush [of c] by (fastforce simp: packs_known_def)
  have stay: "live \<subseteq> {h. readable sha ?f h \<and> (\<forall>p \<in> set pend. \<not> points_at ?f p h)}"
  proof
    fix h assume h: "h \<in> live"
    have "readable sha ?f h" using flush_readable [OF c(1,2), of h] c(4) h by auto
    moreover have "\<not> points_at ?f p h" if p: "p \<in> set pend" for p
    proof
      assume at: "points_at ?f p h"
      then have "points_at c p h \<and> h \<notin> fst ` set (cs_packBuffer c)" using fp p c(5) by blast
      then show False using c(6) p h unfolding moved_def by blast
    qed
    ultimately show "h \<in> {h. readable sha ?f h \<and> (\<forall>p \<in> set pend. \<not> points_at ?f p h)}" by simp
  qed
  have d: "packs_inv sha ?d \<and> packs_known ms P ?d" "{h. readable sha ?f h \<and> (\<forall>p \<in> set pend. \<not> points_at ?f p h)} \<subseteq> {h. readable sha ?d h}"
    using fold_moved_packs [OF f(1) known c(5)] by simp_all
  have "merging sha ms P live ?d []"
    using d stay fold_moved_inv [OF f(2), of ms pend] by (auto simp: merging_def moved_def)
  then show ?thesis using False by (auto simp: flushAndRetireDeferred_def)
qed

lemma merge_members_packs:
  assumes "packs_inv sha c" and "cache_inv sha c" and "md_read (cs_metadata c) (packPath p) = Some packText"
  shows "\<exists>d n'. merge_members sha keep p packText hs c n = (d, n', Inr ()) \<and> packs_inv sha d \<and> cache_inv sha d \<and>
    cs_index d = cs_index c \<and> cs_metadata d = cs_metadata c \<and> cs_nextPackId d = cs_nextPackId c \<and>
    fst ` set (cs_packBuffer c) \<union> {h \<in> set hs \<inter> set keep. points_at c p h \<and> readable sha c h} \<subseteq> fst ` set (cs_packBuffer d)"
  using assms
proof (induction hs arbitrary: c n)
  case (Cons h hs)
  let ?good = "points_at c p h \<and> h \<in> set keep \<and> readable sha c h"
  have skip: ?case if "merge_members sha keep p packText (h # hs) c n = merge_members sha keep p packText hs c n'" "\<not> ?good" for n'
    using Cons.IH [OF Cons.prems, of n'] that by auto
  show ?case
  proof (cases "jm_get (cs_index c) h")
    case None
    then show ?thesis by (intro skip [of n]) (simp_all add: points_at_def)
  next
    case (Some loc)
    show ?thesis
    proof (cases "pl_packId loc = p \<and> h \<in> set keep")
      case False
      then show ?thesis using skip Some by (auto simp: points_at_def)
    next
      case True
      let ?body = "js_substr packText (pl_offset loc) (pl_len loc)"
      show ?thesis
      proof (cases "length ?body = pl_len loc")
        case False
        then have "\<not> readable sha c h" using Some True Cons.prems(3)
          by (auto simp: readable_def place_holds_def pack_slice_def Let_def)
        then show ?thesis using skip Some True False by simp
      next
        case len: True
        then have sl: "pack_slice (cs_metadata c) loc = Some ?body" using True Cons.prems(3) by (simp add: pack_slice_def)
        obtain b where b: "base64ToBytes ?body = Some b" using packs_inv_index(4) [OF Cons.prems(1) Some sl] by blast
        show ?thesis
        proof (cases "hashContent sha b = h")
          case False
          then have "\<not> readable sha c h" using Some sl b by (auto simp: readable_def place_holds_def)
          then show ?thesis using skip Some True len b False by (simp add: b)
        next
          case hb: True
          let ?e = "c\<lparr> cs_packBuffer := cs_packBuffer c @ [(h, ?body)] \<rparr>"
            and ?n = "n\<lparr> cn_blobsKept := cn_blobsKept n + 1 \<rparr>"
          have k: "key_ok h" using packs_inv_index(1) [OF Cons.prems(1) Some] .
          have e: "packs_inv sha ?e" "cache_inv sha ?e" "md_read (cs_metadata ?e) (packPath p) = Some packText"
            using grow_buffer(3,4) [OF Cons.prems(1,2) b hb k] Cons.prems(3) by simp_all
          have "merge_members sha keep p packText (h # hs) c n = merge_members sha keep p packText hs ?e ?n"
            using Some True len hb by (simp add: b)
          moreover have "points_at ?e = points_at c" "readable sha ?e = readable sha c"
            by (simp_all add: fun_eq_iff points_at_def readable_def)
          moreover note Cons.IH [OF e, of ?n]
          ultimately show ?thesis by auto
        qed
      qed
    qed
  qed
qed auto

lemma stream_merge_packs:
  assumes "merging sha ms P live c pend" and "set ps \<subseteq> P" and "live \<subseteq> set keep"
  shows "\<exists>d n'. stream_merge sha keep flushEvery ms ps (c, n, pend) = (d, n', Inr ()) \<and> merging sha ms P live d []"
  using assms
proof (induction ps arbitrary: c n pend)
  case Nil
  then show ?case using deferred_packs [of sha ms P live c pend n] by auto
next
  case (Cons p ps)
  have sub: "set ps \<subseteq> P" "p \<in> P" using Cons.prems(2) by auto
  let ?n = "n\<lparr> cn_smReads := cn_smReads n + 1 \<rparr>"
  show ?case
  proof (cases "md_read (cs_metadata c) (packPath p)")
    case None
    then show ?thesis using Cons.IH [OF Cons.prems(1) sub(1) Cons.prems(3), of ?n] by (simp add: Let_def)
  next
    case (Some packText)
    have c: "packs_inv sha c" "cache_inv sha c" "packs_known ms P c" "live \<subseteq> {h. readable sha c h}"
      "set pend \<subseteq> P" "moved live c pend" using Cons.prems(1) by (simp_all add: merging_def)
    from merge_members_packs [OF c(1,2) Some, of keep "members_of ms p" ?n]
    obtain d n' where d0: "merge_members sha keep p packText (members_of ms p) c ?n = (d, n', Inr ()) \<and> packs_inv sha d \<and> cache_inv sha d \<and>
      cs_index d = cs_index c \<and> cs_metadata d = cs_metadata c \<and> cs_nextPackId d = cs_nextPackId c \<and>
      fst ` set (cs_packBuffer c) \<union> {h \<in> set (members_of ms p) \<inter> set keep. points_at c p h \<and> readable sha c h} \<subseteq> fst ` set (cs_packBuffer d)"
      by (elim exE) (rule that)
    have eq: "points_at d = points_at c" "readable sha d = readable sha c"
      using d0 by (simp_all add: fun_eq_iff points_at_def readable_def)
    have buf: "fst ` set (cs_packBuffer c) \<subseteq> fst ` set (cs_packBuffer d)"
      "{h \<in> set (members_of ms p) \<inter> set keep. points_at c p h \<and> readable sha c h} \<subseteq> fst ` set (cs_packBuffer d)"
      using d0 by simp_all
    have "{h. points_at c p h} \<subseteq> set (members_of ms p)" using c(3) sub(2) by (simp add: packs_known_def)
    then have "{h \<in> live. points_at c p h} \<subseteq>
        {h \<in> set (members_of ms p) \<inter> set keep. points_at c p h \<and> readable sha c h}"
      using c(4) Cons.prems(3) by blast
    then have "{h \<in> live. points_at c p h} \<subseteq> fst ` set (cs_packBuffer d)" using buf(2) by (rule subset_trans)
    moreover have "{h \<in> live. points_at c q h} \<subseteq> fst ` set (cs_packBuffer d)" if "q \<in> set pend" for q
      using c(6) that unfolding moved_def by (intro subset_trans [OF _ buf(1)]) blast
    ultimately have mv: "moved live d (pend @ [p])" unfolding moved_def eq by simp
    have "packs_known ms P d" using c(3) d0 unfolding packs_known_def eq by simp
    then have m: "merging sha ms P live d (pend @ [p])"
      using mv d0 c(4,5) sub(2) unfolding merging_def eq by simp
    obtain e n'' where e: "flushAndRetireDeferred ms (d, n', pend @ [p]) = (e, n'', [])" "merging sha ms P live e []"
      using deferred_packs [OF m] by blast
    have "stream_merge sha keep flushEvery ms (p # ps) (c, n, pend) =
      (if flushEvery \<le> length (cs_packBuffer d) then stream_merge sha keep flushEvery ms ps (e, n'', [])
       else stream_merge sha keep flushEvery ms ps (d, n', pend @ [p]))"
      unfolding stream_merge.simps Let_def Some option.case d0 [THEN conjunct1] prod.case sum.case e(1) [symmetric]
      by simp
    then show ?thesis
      using Cons.IH [OF m sub(1) Cons.prems(3), of n'] Cons.IH [OF e(2) sub(1) Cons.prems(3), of n''] by (simp only: split: if_split) simp
  qed
qed

lemma compact_in_place_packs:
  assumes "packs_inv sha c" and "cache_inv sha c" and "\<forall>p \<in> set ps. \<exists>j < cs_nextPackId c. p = show_nat j"
  shows "\<exists>d n'. compact_in_place sha keep ms ps c n = (d, n', Inr ()) \<and> packs_inv sha d \<and> cache_inv sha d \<and>
    {h \<in> set keep. readable sha c h} \<subseteq> {h. readable sha d h} \<and> (ps = [] \<longrightarrow> d = c)"
  using assms
proof (induction ps arbitrary: c n)
  case (Cons p ps)
  have p: "\<exists>j < cs_nextPackId c. p = show_nat j" using Cons.prems(3) by simp
  obtain d where d: "compactPack sha keep p c = (d, Inr ())" "packs_inv sha d" "cs_nextPackId c \<le> cs_nextPackId d"
    "{h \<in> set keep. readable sha c h} \<subseteq> {h. readable sha d h}"
    using compactPack_packs [OF Cons.prems(1,2) p, of keep] by blast
  have i: "cache_inv sha d" using compactPack_inv [OF Cons.prems(2), of keep p] d(1) by simp
  have ps: "\<forall>p \<in> set ps. \<exists>j < cs_nextPackId d. p = show_nat j" using Cons.prems(3) d(3) by (meson list.set_intros(2) order_less_le_trans)
  let ?n = "n\<lparr> cn_compactInPlacePacks := cn_compactInPlacePacks n + 1,
      cn_blobsKept := cn_blobsKept n + live_count keep (members_of ms p),
      cn_blobsDropped := cn_blobsDropped n + (length (members_of ms p) - live_count keep (members_of ms p)) \<rparr>"
  obtain e n' where e: "compact_in_place sha keep ms ps d ?n = (e, n', Inr ())" "packs_inv sha e" "cache_inv sha e"
    "{h \<in> set keep. readable sha d h} \<subseteq> {h. readable sha e h}" using Cons.IH [OF d(2) i ps, of ?n] by blast
  have "compact_in_place sha keep ms (p # ps) c n = (e, n', Inr ())" using d(1) e(1) by (simp add: Let_def)
  moreover have "{h \<in> set keep. readable sha c h} \<subseteq> {h. readable sha e h}" using d(4) e(4) by blast
  ultimately show ?case using e(2,3) by blast
qed auto

lemma retire_all_packs:
  assumes "packs_inv sha c" and "cache_inv sha c" and "packs_known ms P c" and "set ps \<subseteq> P"
    and "\<forall>p \<in> set ps. set (members_of ms p) \<inter> live = {}" and "live \<subseteq> {h. readable sha c h}"
  shows "\<exists>d n'. retire_all ms ps (c, n) = (d, n') \<and> packs_inv sha d \<and> cache_inv sha d \<and> packs_known ms P d \<and>
    live \<subseteq> {h. readable sha d h} \<and> (ps = [] \<longrightarrow> d = c)"
  using assms
proof (induction ps arbitrary: c n)
  case (Cons p ps)
  let ?d = "retire_pack p (members_of ms p) c"
  have pts: "{h. points_at c p h} \<subseteq> set (members_of ms p)" using Cons.prems(3,4) by (simp add: packs_known_def)
  note rp = retire_packs [OF Cons.prems(1) pts]
  have known: "packs_known ms P ?d" using Cons.prems(3) rp(3) by (fastforce simp: packs_known_def rp(4))
  have live: "live \<subseteq> {h. readable sha ?d h}" using Cons.prems(5,6) rp(2) by auto
  obtain m where m: "retire_all ms (p # ps) (c, n) = retire_all ms ps (?d, m)" by (simp add: retire_all_def)
  show ?case using Cons.IH [OF rp(1) retire_inv [OF Cons.prems(2)] known _ _ live, of m] Cons.prems(4,5) m by auto
qed (auto simp: retire_all_def)

section \<open>The index on disk\<close>

lemma rewrite_packs:
  assumes "packs_inv sha c"
  shows "packs_inv sha (rewriteIndex c)" and "index_on_disk (rewriteIndex c)"
    and "readable sha (rewriteIndex c) h = readable sha c h"
proof -
  have sl: "pack_slice (cs_metadata (rewriteIndex c)) loc = pack_slice (cs_metadata c) loc" for loc
    by (simp add: pack_slice_def rewriteIndex_def)
  show r: "readable sha (rewriteIndex c) h = readable sha c h" for h
    by (simp add: readable_def place_holds_def sl) (simp add: rewriteIndex_def)
  have f: "cs_index (rewriteIndex c) = cs_index c" "cs_nextPackId (rewriteIndex c) = cs_nextPackId c"
    "cs_packBuffer (rewriteIndex c) = cs_packBuffer c" "cs_memCache (rewriteIndex c) = cs_memCache c"
    "cs_pending (rewriteIndex c) = cs_pending c"
    "md_read (cs_metadata (rewriteIndex c)) (packPath p) = md_read (cs_metadata c) (packPath p)" for p
    by (simp_all add: rewriteIndex_def)
  show "packs_inv sha (rewriteIndex c)"
  proof (rule packs_invI)
    show "h \<in> fst ` set (cs_packBuffer (rewriteIndex c)) \<Longrightarrow> key_ok h" for h
      using packs_inv_rest(3) [OF assms] by (auto simp: f)
  qed (use packs_inv_rest(1,2,4) [OF assms] packs_inv_index [OF assms] in \<open>auto simp: f sl r\<close>)
  have "place_ok r" if "r \<in> set (cs_index c)" for r
  proof -
    obtain h loc where hl: "r = (h, loc)" by (cases r)
    then have g: "jm_get (cs_index c) h = Some loc" using jm_wf_get [OF packs_inv_rest(1) [OF assms], of h loc] that by simp
    show ?thesis using packs_inv_index(1,2) [OF assms g] by (auto simp: hl place_ok_def)
  qed
  moreover have "jm_of_list (cs_index c) = cs_index c" by (rule jm_of_list_id) (rule packs_inv_rest(1) [OF assms])
  ultimately show "index_on_disk (rewriteIndex c)"
    unfolding index_on_disk_def f by (intro exI [of _ "cs_index c"]) (simp add: rewriteIndex_def index_text_def)
qed

lemma gc_packs:
  assumes "packs_inv sha c" and "cache_inv sha c" and "index_on_disk c"
  shows "\<exists>d. cs_gc sha stat keep ret now c = (d, Inr ()) \<and> packs_inv sha d \<and> cache_inv sha d \<and> index_on_disk d \<and>
    {h \<in> set keep. readable sha c h} \<subseteq> {h. readable sha d h}"
proof -
  let ?ms = "pack_members (cs_index c)"
  have ms: "{h. points_at c p h} \<subseteq> set hs \<and> (\<exists>j < cs_nextPackId c. p = show_nat j)" if "(p, hs) \<in> set ?ms" for p hs
  proof -
    have hs: "members_of ?ms p = hs" "hs \<noteq> []" using members_points(3) [OF assms(1) that] by auto
    have m: "h \<in> set hs \<longleftrightarrow> points_at c p h" for h using members_points(1) [OF assms(1), of h p] hs(1) by simp
    then show ?thesis using hd_in_set [OF hs(2)] pack_id_cases [OF assms(1), of p "hd hs"] by auto
  qed
  obtain c1 tc d where g: "gc_scan (packAged stat ret now) keep ?ms c [] False = (c1, tc, d)"
    by (cases "gc_scan (packAged stat ret now) keep ?ms c [] False")
  have k: "kept sha keep c False (c1, tc, d)" unfolding g [symmetric]
    by (rule gc_scan_packs [OF assms(1,2)]) (use ms in blast, simp)
  then have c1: "packs_inv sha c1" "cache_inv sha c1" "{h \<in> set keep. readable sha c h} \<subseteq> {h. readable sha c1 h}"
    "\<forall>p \<in> set tc. \<exists>j < cs_nextPackId c1. p = show_nat j" "\<not> d \<Longrightarrow> c1 = c" by (auto simp: kept_def)
  obtain c2 where c2: "compact_all sha keep tc c1 = (c2, Inr ())" "packs_inv sha c2"
    "{h \<in> set keep. readable sha c1 h} \<subseteq> {h. readable sha c2 h}" "tc = [] \<Longrightarrow> c2 = c1"
    using compact_all_packs [OF c1(1,2,4), of keep] by blast
  have i2: "cache_inv sha c2" using compact_all_inv [OF c1(2), of keep tc] c2(1) by simp
  let ?d = "if d \<or> tc \<noteq> [] then rewriteIndex c2 else c2"
  have "cs_gc sha stat keep ret now c = (?d, Inr ())" by (simp add: cs_gc_def g c2(1))
  moreover have "packs_inv sha ?d" "cache_inv sha ?d" using rewrite_packs(1) [OF c2(2)] c2(2) i2 by simp_all
  moreover have "index_on_disk ?d" using rewrite_packs(2) [OF c2(2)] c2(4) c1(5) assms(3) by auto
  moreover have "{h \<in> set keep. readable sha c h} \<subseteq> {h. readable sha ?d h}"
    using c1(3) c2(3) rewrite_packs(3) [OF c2(2)] by auto
  ultimately show ?thesis by blast
qed

lemma consolidate_packs:
  assumes "packs_inv sha c" and "cache_inv sha c" and "index_on_disk c"
  shows "\<exists>d n. consolidatePacks sha keep small every c = (d, Inr n) \<and> packs_inv sha d \<and> cache_inv sha d \<and> index_on_disk d \<and>
    {h \<in> set keep. readable sha c h} \<subseteq> {h. readable sha d h}"
proof -
  define ms where "ms = pack_members (cs_index c)"
  define live where "live = (\<lambda>p. live_count keep (members_of ms p))"
  define toR where "toR = filter (\<lambda>p. live p = 0) (jm_keys ms)"
  define toS where "toS = filter (\<lambda>p. live p \<noteq> 0 \<and> live p < small) (jm_keys ms)"
  define toC where "toC = filter (\<lambda>p. live p \<noteq> 0 \<and> \<not> live p < small \<and> live p < length (members_of ms p)) (jm_keys ms)"
  let ?L = "{h \<in> set keep. readable sha c h}" and ?P = "set (jm_keys ms)"
  have known: "packs_known ms ?P c"
  proof -
    have "\<exists>j < cs_nextPackId c. p = show_nat j" if p: "p \<in> ?P" for p
    proof -
      obtain hs where "(p, hs) \<in> set ms" using p by (auto simp: jm_keys_def)
      then have "members_of ms p = hs" "hs \<noteq> []" using members_points(3) [OF assms(1), of p hs] by (auto simp: ms_def)
      then have "points_at c p (hd hs)" using members_points(1) [OF assms(1), of "hd hs" p] by (auto simp: ms_def)
      then show ?thesis using pack_id_cases [OF assms(1)] by blast
    qed
    then show ?thesis using members_points(1,2) [OF assms(1)] by (auto simp: packs_known_def ms_def)
  qed
  let ?n0 = "no_consolidation\<lparr> cn_packsBefore := length ms \<rparr>"
  obtain c1 n1 where c1: "retire_all ms toR (c, ?n0) = (c1, n1)" "packs_inv sha c1" "cache_inv sha c1" "packs_known ms ?P c1"
    "?L \<subseteq> {h. readable sha c1 h}" "toR = [] \<Longrightarrow> c1 = c"
    using retire_all_packs [OF assms(1,2) known, of toR ?L ?n0]
    by (auto simp: toR_def live_def live_none)
  have m1: "merging sha ms ?P ?L c1 []" using c1 by (simp add: merging_def moved_def)
  obtain c2 n2 where c2: "stream_merge sha keep every ms toS (c1, n1, []) = (c2, n2, Inr ())" "merging sha ms ?P ?L c2 []"
    using stream_merge_packs [OF m1, of toS keep every n1] by (auto simp: toS_def)
  have ids: "\<forall>p \<in> set toC. \<exists>j < cs_nextPackId c2. p = show_nat j"
    using c2(2) by (auto simp: merging_def packs_known_def toC_def)
  have p2: "packs_inv sha c2" "cache_inv sha c2" "?L \<subseteq> {h. readable sha c2 h}" using c2(2) by (simp_all add: merging_def)
  obtain c3 n3 where c3: "compact_in_place sha keep ms toC c2 n2 = (c3, n3, Inr ())" "packs_inv sha c3" "cache_inv sha c3"
    "{h \<in> set keep. readable sha c2 h} \<subseteq> {h. readable sha c3 h}" "toC = [] \<Longrightarrow> c3 = c2"
    using compact_in_place_packs [OF p2(1,2) ids, of keep ms n2] by blast
  let ?c4 = "if toR \<noteq> [] \<or> toS \<noteq> [] \<or> toC \<noteq> [] then rewriteIndex c3 else c3"
  have "consolidatePacks sha keep small every c =
      (?c4, Inr (n3\<lparr> cn_packsAfter := length (js_set_of (map (\<lambda>(h, loc). pl_packId loc) (cs_index ?c4))) \<rparr>))"
    using c1(1) c2(1) c3(1)
    by (simp add: consolidatePacks_def Let_def toR_def toS_def toC_def live_def ms_def)
  moreover have "packs_inv sha ?c4" "cache_inv sha ?c4" using rewrite_packs(1) [OF c3(2)] c3(2,3) by simp_all
  moreover have "{h \<in> set keep. readable sha c h} \<subseteq> {h. readable sha ?c4 h}"
    using p2(3) c3(4) rewrite_packs(3) [OF c3(2)] by auto
  moreover have "index_on_disk ?c4"
  proof (cases "toR \<noteq> [] \<or> toS \<noteq> [] \<or> toC \<noteq> []")
    case True
    then show ?thesis using rewrite_packs(2) [OF c3(2)] by simp
  next
    case False
    then have "c1 = c" "c3 = c2" using c1(6) c3(5) by auto
    then show ?thesis using False c2(1) assms(3) flush_index_on_disk [OF assms(1,3)]
      by (auto simp: flushAndRetireDeferred_def split: if_splits)
  qed
  ultimately show ?thesis by blast
qed

end
