(* ===== verification/ContentThms.thy ===== *)
theory ContentThms
  imports ContentProps
begin

text \<open>
  The content store as a state machine, alone on its files and on files that anything may change,
  and its properties.
\<close>

section \<open>Consolidation on any files\<close>

lemma merge_members_inv:
  "cache_inv sha c \<Longrightarrow> cache_inv sha (fst (merge_members sha keep p packText hs c n))"
proof (induction hs arbitrary: c n)
  case (Cons h hs)
  have "cache_inv sha (c\<lparr> cs_packBuffer := cs_packBuffer c @ [(h, t)] \<rparr>)"
    if "base64ToBytes t = Some b" "hashContent sha b = h" for t b
    using Cons.prems that by (auto simp: cache_inv_def counter_ok_def within_budget_def verified_def buffer_ok_def)
  then show ?case using Cons.IH [OF Cons.prems] Cons.IH Cons.prems
    by (simp add: Let_def split: option.split)
qed simp

lemma deferred_inv: "cache_inv sha c \<Longrightarrow> cache_inv sha (fst (flushAndRetireDeferred ms (c, n, pend)))"
  by (simp add: flushAndRetireDeferred_def fold_moved_inv cs_flush_inv)

lemma stream_merge_inv: "cache_inv sha c \<Longrightarrow> cache_inv sha (fst (stream_merge sha keep every ms ps (c, n, pend)))"
proof (induction ps arbitrary: c n pend)
  case Nil
  then show ?case using deferred_inv [OF Nil, of ms n pend]
    by (cases "flushAndRetireDeferred ms (c, n, pend)") simp
next
  case (Cons p ps)
  let ?n = "n\<lparr> cn_smReads := cn_smReads n + 1 \<rparr>"
  show ?case
  proof (cases "md_read (cs_metadata c) (packPath p)")
    case None
    then show ?thesis using Cons.IH [OF Cons.prems, of ?n pend] by (simp add: Let_def)
  next
    case (Some body)
    obtain d n' r where d: "merge_members sha keep p body (members_of ms p) c ?n = (d, n', r)"
      by (cases "merge_members sha keep p body (members_of ms p) c ?n")
    have i: "cache_inv sha d" using merge_members_inv [OF Cons.prems, of keep p body "members_of ms p" ?n] d by simp
    obtain e n'' q where e: "flushAndRetireDeferred ms (d, n', pend @ [p]) = (e, n'', q)"
      by (cases "flushAndRetireDeferred ms (d, n', pend @ [p])")
    have ie: "cache_inv sha e" using deferred_inv [OF i, of ms n' "pend @ [p]"] e by simp
    show ?thesis using Cons.IH [OF i, of n' "pend @ [p]"] Cons.IH [OF ie, of n'' q] i d e Some
      by (simp add: Let_def split: sum.split)
  qed
qed

lemma compact_in_place_inv: "cache_inv sha c \<Longrightarrow> cache_inv sha (fst (compact_in_place sha keep ms ps c n))"
proof (induction ps arbitrary: c n)
  case (Cons p ps)
  then show ?case using compactPack_inv [OF Cons.prems, of keep p]
    by (cases "compactPack sha keep p c") (simp add: Let_def split: sum.split)
qed simp

lemma retire_all_inv: "cache_inv sha c \<Longrightarrow> cache_inv sha (fst (retire_all ms ps (c, n)))"
  by (induction ps arbitrary: c n) (simp_all add: retire_all_def retire_inv)

lemma consolidate_inv: "cache_inv sha c \<Longrightarrow> cache_inv sha (fst (consolidatePacks sha keep small every c))"
proof -
  assume c: "cache_inv sha c"
  let ?ms = "pack_members (cs_index c)"
  define live where "live = (\<lambda>p. live_count keep (members_of ?ms p))"
  define toR where "toR = filter (\<lambda>p. live p = 0) (jm_keys ?ms)"
  define toS where "toS = filter (\<lambda>p. live p \<noteq> 0 \<and> live p < small) (jm_keys ?ms)"
  define toC where "toC = filter (\<lambda>p. live p \<noteq> 0 \<and> \<not> live p < small \<and> live p < length (members_of ?ms p)) (jm_keys ?ms)"
  obtain c1 n1 where 1: "retire_all ?ms toR (c, no_consolidation\<lparr> cn_packsBefore := length ?ms \<rparr>) = (c1, n1)"
    by (cases "retire_all ?ms toR (c, no_consolidation\<lparr> cn_packsBefore := length ?ms \<rparr>)")
  obtain c2 n2 r2 where 2: "stream_merge sha keep every ?ms toS (c1, n1, []) = (c2, n2, r2)"
    by (cases "stream_merge sha keep every ?ms toS (c1, n1, [])")
  obtain c3 n3 r3 where 3: "compact_in_place sha keep ?ms toC c2 n2 = (c3, n3, r3)"
    by (cases "compact_in_place sha keep ?ms toC c2 n2")
  have i1: "cache_inv sha c1" using retire_all_inv [OF c, of ?ms toR "no_consolidation\<lparr> cn_packsBefore := length ?ms \<rparr>"] 1 by simp
  have i2: "cache_inv sha c2" using stream_merge_inv [OF i1, of keep every ?ms toS n1 "[]"] 2 by simp
  have i3: "cache_inv sha c3" using compact_in_place_inv [OF i2, of keep ?ms toC n2] 3 by simp
  show ?thesis using i2 i3 1 2 3 unfolding toR_def toS_def toC_def live_def
    by (simp add: consolidatePacks_def Let_def split: sum.split)
qed

section \<open>Reopening the store\<close>

lemma load_lines_records:
  "fold load_index_line ls idx = fold (\<lambda>(k, v) m. jm_set k v m) (List.map_filter parse_index_line ls) idx"
  by (induction ls arbitrary: idx) (simp_all add: map_filter_simps load_index_line_def case_prod_beta split: option.split)

lemma parse_line_Nil [simp]: "parse_index_line [] = None"
  by (simp add: parse_index_line_def)

lemma parse_lines_filter: "List.map_filter parse_index_line ls = List.map_filter parse_index_line (filter (\<lambda>l. l \<noteq> []) ls)"
  by (induction ls) (simp_all add: map_filter_simps split: option.split)

lemma init_index: "index_on_disk c \<Longrightarrow> cs_index (cs_init b (cs_metadata c)) = cs_index c"
proof -
  assume "index_on_disk c"
  then obtain recs where r: "md_read (cs_metadata c) PACK_INDEX_PATH = Some (journal_text (map index_line recs)) \<or>
      md_read (cs_metadata c) PACK_INDEX_PATH = None \<and> recs = []" "\<forall>r \<in> set recs. place_ok r" "jm_of_list recs = cs_index c"
    by (auto simp: index_on_disk_def)
  have "List.map_filter parse_index_line (splitOn LF (journal_text (map index_line recs))) = recs"
    using index_lines.records_written [OF r(2)] parse_lines_filter by (metis journal_lines_def)
  then show ?thesis using r(1,3)
    by (auto simp: cs_init_def loadPackIndex_def new_content_store_def Let_def load_lines_records jm_of_list_def)
qed

lemma next_pack_id_ge: "p \<in> set ps \<Longrightarrow> pack_number p = Some k \<Longrightarrow> k < next_pack_id ps"
proof (induction ps rule: rev_induct)
  case (snoc q ps)
  have mono: "next_pack_id ps \<le> next_pack_id (ps @ [q])" by (simp add: next_pack_id_def split: option.split)
  show ?case
  proof (cases "p = q")
    case True
    then show ?thesis using snoc.prems by (simp add: next_pack_id_def)
  next
    case False
    then have "p \<in> set ps" using snoc.prems(1) by simp
    then show ?thesis using snoc.IH snoc.prems(2) mono by simp
  qed
qed simp

lemma last_splitOn: "last (splitOn c (a @ c # b)) = last (splitOn c b)"
proof (induction a)
  case (Cons x a)
  obtain p ps where "splitOn c (a @ c # b) = p # ps" by (cases "splitOn c (a @ c # b)") simp_all
  moreover have "length (splitOn c (a @ c # b)) \<ge> 2"
    by (induction a) (auto split: list.split simp: Suc_le_eq)
  ultimately show ?case using Cons by auto
qed simp

lemma pack_number_path: "pack_number (packPath (show_nat k)) = Some k"
proof -
  have free: "CHR ''/'' \<notin> set (show_nat k @ ''.pack'')" using show_nat_digits [of k] by (auto simp: is_digit_def)
  have "last (splitOn CHR ''/'' (PACK_DIR @ CHR ''/'' # show_nat k @ ''.pack'')) = show_nat k @ ''.pack''"
    by (simp only: last_splitOn splitOn_free [OF free] last_ConsL)
  then have "last (splitOn CHR ''/'' (packPath (show_nat k))) = show_nat k @ ''.pack''" by (simp add: packPath_def)
  then show ?thesis using show_nat_digits [of k]
    by (simp add: pack_number_def Let_def list_all_iff digits_value_show)
qed

lemma pack_listed: "md_read m (packPath (show_nat k)) \<noteq> None \<Longrightarrow> packPath (show_nat k) \<in> set (md_list m PACK_DIR)"
proof -
  assume "md_read m (packPath (show_nat k)) \<noteq> None"
  then have "packPath (show_nat k) \<in> set (jm_keys m)" by (metis jm_has_def jm_has_iff md_read_def)
  moreover have "CHR ''/'' \<notin> set (show_nat k @ ''.pack'')" using show_nat_digits [of k] by (auto simp: is_digit_def)
  ultimately show ?thesis by (simp add: md_list_def packPath_def startsWith_def)
qed

lemma init_packs:
  assumes "packs_inv sha c" and "index_on_disk c"
  shows "packs_inv sha (cs_init b (cs_metadata c))" and "readable sha (cs_init b (cs_metadata c)) h = readable sha c h"
    and "index_on_disk (cs_init b (cs_metadata c))"
proof -
  let ?d = "cs_init b (cs_metadata c)"
  have f: "cs_metadata ?d = cs_metadata c" "cs_packBuffer ?d = []" "cs_memCache ?d = []" "cs_pending ?d = []"
    "cs_nextPackId ?d = next_pack_id (md_list (cs_metadata c) PACK_DIR)" "cs_index ?d = cs_index c"
    using init_index [OF assms(2)] by (simp_all add: cs_init_def loadPackIndex_def new_content_store_def Let_def)
  have old: "k < cs_nextPackId ?d" if "md_read (cs_metadata c) (packPath (show_nat k)) \<noteq> None" for k
    using next_pack_id_ge [OF pack_listed [OF that] pack_number_path] by (simp add: f(5))
  show "packs_inv sha ?d"
  proof (rule packs_invI)
    fix h loc
    assume "jm_get (cs_index ?d) h = Some loc"
    then have g: "jm_get (cs_index c) h = Some loc" by (simp add: f)
    obtain k where k: "pl_packId loc = show_nat k" using packs_inv_index(2) [OF assms(1) g] by blast
    have "k < cs_nextPackId ?d" using packs_inv_index(3) [OF assms(1) g] by (intro old) (simp add: k)
    then show "key_ok h \<and> (\<exists>k < cs_nextPackId ?d. pl_packId loc = show_nat k) \<and>
       md_read (cs_metadata ?d) (packPath (pl_packId loc)) \<noteq> None \<and>
       (\<forall>t. pack_slice (cs_metadata ?d) loc = Some t \<longrightarrow> (\<exists>b. base64ToBytes t = Some b))"
      using packs_inv_index [OF assms(1) g] k unfolding f(1) by blast
  next
    show "md_read (cs_metadata ?d) (packPath (show_nat k)) = None" if "k \<ge> cs_nextPackId ?d" for k
      using old [of k] that unfolding f(1) by linarith
  qed (use packs_inv_rest(1) [OF assms(1)] in \<open>simp_all add: f jm_has_def\<close>)
  show "readable sha ?d h = readable sha c h" by (simp add: readable_def f)
  show "index_on_disk ?d" using assms(2) by (simp add: index_on_disk_def f)
qed

lemma delete_packs:
  assumes "packs_inv sha c" and "index_on_disk c"
  shows "packs_inv sha (cs_delete h c)" and "index_on_disk (cs_delete h c)"
proof -
  have frame: "packs_inv sha (cacheDelete h c)"
    by (rule packs_inv_frame [OF assms(1) cacheDelete_same]) (auto simp: cacheDelete_def jm_has_def split: if_splits)
  let ?d = "index_delete h (cacheDelete h c)"
  have d: "packs_inv sha ?d"
  proof (rule packs_invI)
    fix k loc
    assume "jm_get (cs_index ?d) k = Some loc"
    then have "jm_get (cs_index (cacheDelete h c)) k = Some loc" by (simp add: index_delete_def split: if_splits)
    from packs_inv_index [OF frame this]
    show "key_ok k \<and> (\<exists>j < cs_nextPackId ?d. pl_packId loc = show_nat j) \<and>
       md_read (cs_metadata ?d) (packPath (pl_packId loc)) \<noteq> None \<and>
       (\<forall>t. pack_slice (cs_metadata ?d) loc = Some t \<longrightarrow> (\<exists>b. base64ToBytes t = Some b))"
      by (simp add: index_delete_def)
  next
    fix k assume k: "jm_has (cs_memCache ?d) k"
    then have "k \<noteq> h" "jm_has (cs_memCache (cacheDelete h c)) k" by (auto simp: index_delete_def cacheDelete_def jm_has_def)
    then show "k \<in> set (cs_pending ?d) \<or> readable sha ?d k"
      using packs_inv_rest(4) [OF frame, of k] by (auto simp: index_delete_def readable_def)
  qed (use packs_inv_rest(1-3) [OF frame] in \<open>auto simp: index_delete_def\<close>)
  show "packs_inv sha (cs_delete h c)" using frame rewrite_packs(1) [OF d] by (simp add: cs_delete_def Let_def)
  have "index_on_disk (cacheDelete h c)" using assms(2) by (simp add: index_on_disk_def)
  then show "index_on_disk (cs_delete h c)" using rewrite_packs(2) [OF d] by (simp add: cs_delete_def Let_def)
qed

section \<open>The store alone on its files\<close>

definition store_inv :: "(bytes \<Rightarrow> bytes) \<Rightarrow> content_store \<Rightarrow> bool" where
  "store_inv sha c = (cache_inv sha c \<and> packs_inv sha c \<and> index_on_disk c)"

inductive cs_step :: "(bytes \<Rightarrow> bytes) \<Rightarrow> content_store \<Rightarrow> content_store \<Rightarrow> bool" for sha where
  step_buffer: "cs_step sha c (putBuffered (hashContent sha b) b c)"
| step_flush: "cs_step sha c (flushPack c)"
| step_put: "cs_step sha c (cs_put (hashContent sha b) b c)"
| step_get: "cs_step sha c (fst (cs_get sha h c))"
| step_delete: "cs_step sha c (cs_delete h c)"
| step_gc: "cs_step sha c (fst (cs_gc sha stat keep retention now c))"
| step_consolidate: "cs_step sha c (fst (consolidatePacks sha keep small every c))"
| step_clear: "cs_step sha c (clearMemCache c)"
| step_reopen: "cs_step sha c (cs_init budget (cs_metadata c))"

text \<open>The same store on files that anything may change at any time.\<close>

inductive cs_wild :: "(bytes \<Rightarrow> bytes) \<Rightarrow> content_store \<Rightarrow> content_store \<Rightarrow> bool" for sha where
  wild_step: "cs_step sha c d \<Longrightarrow> cs_wild sha c d"
| wild_files: "cs_wild sha c (c\<lparr> cs_metadata := m \<rparr>)"

lemma wild_inv: "cs_wild sha c d \<Longrightarrow> cache_inv sha c \<Longrightarrow> cache_inv sha d"
proof (induction rule: cs_wild.induct)
  case (wild_step c d)
  then show ?case
    by (induction rule: cs_step.induct)
      (simp_all add: putBuffered_inv cs_flush_inv put_inv delete_inv gc_inv consolidate_inv clear_inv cs_new_inv
        get_inv [THEN conjunct1])
qed simp

lemma wild_reachable: "(cs_wild sha)\<^sup>*\<^sup>* (cs_init budget m) c \<Longrightarrow> cache_inv sha c"
  by (induction rule: rtranclp_induct) (auto simp: cs_new_inv intro: wild_inv)

lemma hex_char_plain: "c \<in> set (to_hex bs) \<Longrightarrow> c \<noteq> CHR '' '' \<and> c \<noteq> LF"
proof (induction bs)
  case (Cons b bs)
  have "hex_digit d \<noteq> CHR '' '' \<and> hex_digit d \<noteq> LF" if "d < 16" for d
  proof -
    have "48 \<le> (of_char (hex_digit d) :: nat)" using that by (auto simp: hex_digit_def)
    then show ?thesis by (auto simp: LF_def)
  qed
  moreover have "unat b < 256" using unsigned_less [of b, where ?'a = nat] by simp
  then have "set (hex_byte b) \<subseteq> insert CHR ''0'' (hex_digit ` {..<16})"
    by (auto simp: hex_byte_def padStart_def Let_def)
  ultimately have "c \<in> set (hex_byte b) \<Longrightarrow> c \<noteq> CHR '' '' \<and> c \<noteq> LF"
  proof -
    assume *: "\<And>d. d < 16 \<Longrightarrow> hex_digit d \<noteq> CHR '' '' \<and> hex_digit d \<noteq> LF" "c \<in> set (hex_byte b)"
      "set (hex_byte b) \<subseteq> insert CHR ''0'' (hex_digit ` {..<16})"
    then consider "c = CHR ''0''" | d where "d < 16" "c = hex_digit d" by blast
    then show "c \<noteq> CHR '' '' \<and> c \<noteq> LF" by cases (use *(1) in \<open>simp_all add: LF_def\<close>)
  qed
  then show ?case using Cons by (auto simp: to_hex_def)
qed (simp add: to_hex_def)

lemma hash_key: "sha b \<noteq> [] \<Longrightarrow> key_ok (hashContent sha b)"
proof -
  assume "sha b \<noteq> []"
  then have "length (to_hex (sha b)) \<noteq> 0" by simp
  then have "to_hex (sha b) \<noteq> []" by (metis length_0_conv)
  moreover have "CHR '' '' \<notin> set (to_hex (sha b))" "LF \<notin> set (to_hex (sha b))" using hex_char_plain by blast+
  ultimately show ?thesis by (simp add: key_ok_def hashContent_def)
qed

lemma init_inv: "store_inv sha (cs_init budget [])"
proof -
  have f: "cs_index (cs_init budget []) = []" "cs_packBuffer (cs_init budget []) = []" "cs_memCache (cs_init budget []) = []"
    "cs_metadata (cs_init budget []) = []"
    by (simp_all add: cs_init_def loadPackIndex_def new_content_store_def Let_def md_read_def)
  have "packs_inv sha (cs_init budget [])" by (rule packs_invI) (simp_all add: f md_read_def jm_has_def)
  moreover have "index_on_disk (cs_init budget [])" by (simp add: index_on_disk_def f md_read_def jm_of_list_def)
  ultimately show ?thesis by (simp add: store_inv_def cs_new_inv)
qed

lemma clear_packs: "packs_inv sha c \<Longrightarrow> packs_inv sha (clearMemCache c)"
  by (rule packs_inv_frame) (auto simp: clearMemCache_def same_but_cache_def jm_has_def)

lemma cs_step_inv:
  assumes "\<forall>b. sha b \<noteq> []" and "cs_step sha c d" and "store_inv sha c"
  shows "store_inv sha d"
proof -
  have i: "cache_inv sha c" "packs_inv sha c" "index_on_disk c" using assms(3) by (simp_all add: store_inv_def)
  have key: "key_ok (hashContent sha b)" for b using hash_key assms(1) by blast
  have ci: "cache_inv sha d" using wild_inv wild_step assms(2) i(1) by metis
  have "packs_inv sha d \<and> index_on_disk d"
    using assms(2)
  proof cases
    case (step_buffer b)
    then show ?thesis using putBuffered_packs(1) [OF i(2,1) key] putBuffered_disk i(3) by simp
  next
    case step_flush
    then show ?thesis using flush_packs i flush_index_on_disk by simp
  next
    case (step_put b)
    let ?p = "putBuffered (hashContent sha b) b c"
    have p: "cache_inv sha ?p" "packs_inv sha ?p" "index_on_disk ?p"
      using putBuffered_inv [OF i(1) refl] putBuffered_packs(1) [OF i(2,1) key] putBuffered_disk [OF i(3)] by blast+
    show ?thesis using flush_packs [OF p(2,1)] flush_index_on_disk [OF p(2,3)] by (simp add: step_put cs_put_def)
  next
    case (step_get h)
    obtain e f where e: "cs_get sha h c = (e, Inr f)" "packs_inv sha e" using get_packs [OF i(2,1), of h] by blast
    have "same_but_cache c e" using get_inv [OF i(1), of h] e(1) by simp
    then have "index_on_disk e" using i(3) by (simp add: index_on_disk_def same_but_cache_def)
    then show ?thesis using step_get e by simp
  next
    case (step_delete h)
    then show ?thesis using delete_packs i by simp
  next
    case (step_gc stat keep retention now)
    then show ?thesis using gc_packs [OF i(2,1,3), of stat keep retention now] by auto
  next
    case (step_consolidate keep small every)
    then show ?thesis using consolidate_packs [OF i(2,1,3), of keep small every] by auto
  next
    case step_clear
    then show ?thesis using clear_packs i by (simp add: index_on_disk_def clearMemCache_def)
  next
    case (step_reopen budget)
    then show ?thesis using init_packs [OF i(2,3)] by simp
  qed
  then show ?thesis using ci by (simp add: store_inv_def)
qed

lemma store_reachable:
  assumes "\<forall>b. sha b \<noteq> []" and "(cs_step sha)\<^sup>*\<^sup>* (cs_init budget []) c"
  shows "store_inv sha c"
  using assms(2) by (induction rule: rtranclp_induct) (use init_inv cs_step_inv [OF assms(1)] in blast)+

section \<open>Properties of the content store\<close>

text \<open>
  C31: A store that is alone on its files never throws, and its index on disk is its index in
  memory: reading any hash, collecting and consolidating return, reopening finds the same index,
  and every cached blob is either waiting for a flush or can be read back from its pack.
\<close>

theorem content_store_invariant:
  assumes "\<forall>b. sha b \<noteq> []" and "(cs_step sha)\<^sup>*\<^sup>* (cs_init budget []) c"
  shows "(\<exists>d f. cs_get sha h c = (d, Inr f)) \<and> (\<exists>d. cs_gc sha stat keep retention now c = (d, Inr ())) \<and>
    (\<exists>d n. consolidatePacks sha keep small every c = (d, Inr n)) \<and>
    cs_index (cs_init budget' (cs_metadata c)) = cs_index c \<and>
    {k. jm_has (cs_memCache c) k} \<subseteq> set (cs_pending c) \<union> {k. readable sha c k}"
proof -
  have i: "cache_inv sha c" "packs_inv sha c" "index_on_disk c"
    using store_reachable [OF assms] by (simp_all add: store_inv_def)
  have "\<exists>d f. cs_get sha h c = (d, Inr f)" using get_packs [OF i(2,1), of h] by metis
  moreover have "\<exists>d. cs_gc sha stat keep retention now c = (d, Inr ())"
    using gc_packs [OF i(2,1,3), of stat keep retention now] by blast
  moreover have "\<exists>d n. consolidatePacks sha keep small every c = (d, Inr n)"
    using consolidate_packs [OF i(2,1,3), of keep small every] by blast
  moreover have "{k. jm_has (cs_memCache c) k} \<subseteq> set (cs_pending c) \<union> {k. readable sha c k}"
    using packs_inv_rest(4) [OF i(2)] by blast
  ultimately show ?thesis using init_index [OF i(3)] by blast
qed

definition sample_sha :: "bytes \<Rightarrow> bytes" where
  "sample_sha b = 0 # b"

lemma sample_put: "(cs_step sample_sha)\<^sup>*\<^sup>* (cs_init 100 []) (cs_put (hashContent sample_sha [1]) [1] (cs_init 100 []))"
  by (rule r_into_rtranclp) (rule step_put)

theorem content_store_invariant_witness:
  "(\<exists>d f. cs_get sample_sha ''0001'' (cs_put (hashContent sample_sha [1]) [1] (cs_init 100 [])) = (d, Inr f)) \<and>
   (\<exists>d. cs_gc sample_sha (\<lambda>_. None) [] 0 0 (cs_put (hashContent sample_sha [1]) [1] (cs_init 100 [])) = (d, Inr ())) \<and>
   (\<exists>d n. consolidatePacks sample_sha [] 1 1 (cs_put (hashContent sample_sha [1]) [1] (cs_init 100 [])) = (d, Inr n)) \<and>
   cs_index (cs_init 5 (cs_metadata (cs_put (hashContent sample_sha [1]) [1] (cs_init 100 [])))) =
     cs_index (cs_put (hashContent sample_sha [1]) [1] (cs_init 100 [])) \<and>
   {k. jm_has (cs_memCache (cs_put (hashContent sample_sha [1]) [1] (cs_init 100 []))) k} \<subseteq>
     set (cs_pending (cs_put (hashContent sample_sha [1]) [1] (cs_init 100 []))) \<union>
     {k. readable sample_sha (cs_put (hashContent sample_sha [1]) [1] (cs_init 100 [])) k}"
  by (rule content_store_invariant [OF _ sample_put]) (simp add: sample_sha_def)

text \<open>
  C30: The store never returns wrong bytes: whatever is on disk and whatever changes it, what a
  read returns hashes to the key it was asked for.
\<close>

theorem get_never_corrupt:
  assumes "(cs_wild sha)\<^sup>*\<^sup>* (cs_init budget m) c"
  shows "case snd (cs_get sha h c) of Inr (Some b) \<Rightarrow> hashContent sha b = h | _ \<Rightarrow> True"
  using get_inv [OF wild_reachable [OF assms], of h] by simp

theorem get_never_corrupt_witness:
  "case snd (cs_get sample_sha ''ab'' (cs_init 1 [])) of Inr (Some b) \<Rightarrow> hashContent sample_sha b = ''ab'' | _ \<Rightarrow> True"
  by (rule get_never_corrupt [where m = "[]" and budget = 1]) simp

text \<open>
  The cache is bounded: the counter is the number of cached bytes, and unless every cached blob
  is waiting for a flush it is within the budget, in every state on any files.
\<close>

theorem cache_within_budget:
  assumes "(cs_wild sha)\<^sup>*\<^sup>* (cs_init budget m) c"
  shows "cs_memBytes c = total_bytes (cs_memCache c) \<and>
    (if cs_pending c = [] then cs_memCache c = [] \<or> cs_memBytes c \<le> cs_memBudgetBytes c
     else cs_memBytes c \<le> cs_memBudgetBytes c \<or> set (jm_keys (cs_memCache c)) \<subseteq> fst ` set (cs_packBuffer c))"
proof -
  have i: "counter_ok c" "within_budget c" "set (cs_pending c) \<subseteq> fst ` set (cs_packBuffer c)"
    using wild_reachable [OF assms] by (simp_all add: cache_inv_def buffer_ok_def)
  show ?thesis
  proof (cases "cs_pending c = []")
    case True
    have "set (jm_keys (cs_memCache c)) \<subseteq> {} \<or> cs_memBytes c \<le> cs_memBudgetBytes c"
      using i(2) unfolding within_budget_def True list.set by blast
    then have "cs_memCache c = [] \<or> cs_memBytes c \<le> cs_memBudgetBytes c" by (simp add: jm_keys_def)
    then show ?thesis using True i(1) by (simp add: counter_ok_def)
  next
    case False
    have "cs_memBytes c \<le> cs_memBudgetBytes c \<or> set (jm_keys (cs_memCache c)) \<subseteq> fst ` set (cs_packBuffer c)"
      using i(2,3) unfolding within_budget_def by (meson subset_trans)
    then show ?thesis using False i(1) by (simp add: counter_ok_def)
  qed
qed

theorem cache_within_budget_witness:
  "cs_memBytes (cs_init 7 []) = total_bytes (cs_memCache (cs_init 7 [])) \<and>
    (if cs_pending (cs_init 7 []) = []
     then cs_memCache (cs_init 7 []) = [] \<or> cs_memBytes (cs_init 7 []) \<le> cs_memBudgetBytes (cs_init 7 [])
     else cs_memBytes (cs_init 7 []) \<le> cs_memBudgetBytes (cs_init 7 []) \<or>
       set (jm_keys (cs_memCache (cs_init 7 []))) \<subseteq> fst ` set (cs_packBuffer (cs_init 7 [])))"
  by (rule cache_within_budget [where sha = sample_sha and m = "[]" and budget = 7]) simp

text \<open>
  A blob that was put is read back, at once and after a restart, with bytes that hash to its
  key, and so are all the blobs that could be read before.
\<close>

theorem put_durable:
  assumes "\<forall>b. sha b \<noteq> []" and "(cs_step sha)\<^sup>*\<^sup>* (cs_init budget []) c"
    and "d = cs_put (hashContent sha b) b c" and "k = hashContent sha b \<or> readable sha c k"
  shows "(case snd (cs_get sha k d) of Inr (Some x) \<Rightarrow> hashContent sha x = k | _ \<Rightarrow> False) \<and>
    (case snd (cs_get sha k (cs_init budget' (cs_metadata d))) of Inr (Some x) \<Rightarrow> hashContent sha x = k | _ \<Rightarrow> False)"
proof -
  have i: "cache_inv sha c" "packs_inv sha c" "index_on_disk c"
    using store_reachable [OF assms(1,2)] by (simp_all add: store_inv_def)
  have "cs_step sha c d" unfolding assms(3) by (rule step_put)
  then have d: "cache_inv sha d" "packs_inv sha d" "index_on_disk d"
    using cs_step_inv [OF assms(1)] store_reachable [OF assms(1,2)] by (auto simp: store_inv_def)
  let ?p = "putBuffered (hashContent sha b) b c"
  have key: "key_ok (hashContent sha b)" using hash_key assms(1) by blast
  have p: "cache_inv sha ?p" "packs_inv sha ?p"
    using putBuffered_inv [OF i(1) refl] putBuffered_packs(1) [OF i(2,1) key] by blast+
  have "readable sha ?p k \<or> k \<in> fst ` set (cs_packBuffer ?p)"
    using assms(4) putBuffered_packs(2) [OF i(2,1) key, of b] by (auto simp: readable_cong [of ?p c])
  then have r: "readable sha d k" unfolding assms(3) cs_put_def by (rule flush_readable [OF p(2,1)])
  have found: "case snd (cs_get sha k e) of Inr (Some x) \<Rightarrow> hashContent sha x = k | _ \<Rightarrow> False"
    if e: "cache_inv sha e" "packs_inv sha e" "readable sha e k" for e
  proof -
    obtain e' f where "cs_get sha k e = (e', Inr f)" "f \<noteq> None" using get_packs [OF e(2,1), of k] e(3) by blast
    then show ?thesis using get_inv [OF e(1), of k] by (auto split: option.splits)
  qed
  show ?thesis using found [OF d(1,2) r] found [OF cs_new_inv init_packs(1) [OF d(2,3)]] init_packs(2) [OF d(2,3)] r by blast
qed

theorem put_durable_witness:
  "(case snd (cs_get sample_sha ''0001'' (cs_put ''0001'' [1] (cs_init 100 []))) of
      Inr (Some x) \<Rightarrow> hashContent sample_sha x = ''0001'' | _ \<Rightarrow> False) \<and>
   (case snd (cs_get sample_sha ''0001'' (cs_init 1 (cs_metadata (cs_put ''0001'' [1] (cs_init 100 []))))) of
      Inr (Some x) \<Rightarrow> hashContent sample_sha x = ''0001'' | _ \<Rightarrow> False)"
proof -
  have h: "hashContent sample_sha [1] = ''0001''" by code_simp
  show ?thesis
    by (rule put_durable [where sha = sample_sha and b = "[1]" and c = "cs_init 100 []" and budget = 100])
      (simp_all add: sample_sha_def h)
qed

text \<open>
  C16: Collection and consolidation keep every readable blob they are told to keep, and the kept
  blobs are still readable after a restart.
\<close>

theorem collection_keeps_live:
  assumes "\<forall>b. sha b \<noteq> []" and "(cs_step sha)\<^sup>*\<^sup>* (cs_init budget []) c"
    and "d = fst (cs_gc sha stat keep retention now c) \<or> d = fst (consolidatePacks sha keep small every c)"
  shows "{h \<in> set keep. readable sha c h} \<subseteq> {h. readable sha d h \<and> readable sha (cs_init budget' (cs_metadata d)) h}"
proof -
  have i: "cache_inv sha c" "packs_inv sha c" "index_on_disk c"
    using store_reachable [OF assms(1,2)] by (simp_all add: store_inv_def)
  have "packs_inv sha d \<and> index_on_disk d \<and> {h \<in> set keep. readable sha c h} \<subseteq> {h. readable sha d h}"
    using assms(3) gc_packs [OF i(2,1,3), of stat keep retention now] consolidate_packs [OF i(2,1,3), of keep small every] by auto
  then show ?thesis using init_packs(2) [of sha d] by auto
qed

theorem collection_keeps_live_witness:
  "{h \<in> set [''0001'']. readable sample_sha (cs_put (hashContent sample_sha [1]) [1] (cs_init 100 [])) h} \<subseteq>
   {h. readable sample_sha (fst (consolidatePacks sample_sha [''0001''] 5 9 (cs_put (hashContent sample_sha [1]) [1] (cs_init 100 [])))) h \<and>
       readable sample_sha
         (cs_init 3 (cs_metadata (fst (consolidatePacks sample_sha [''0001''] 5 9 (cs_put (hashContent sample_sha [1]) [1] (cs_init 100 [])))))) h}"
  by (rule collection_keeps_live [OF _ sample_put, where stat = "\<lambda>_. None" and retention = 0 and now = 0 and small = 5 and every = 9])
    (simp_all add: sample_sha_def)

text \<open>A flush of two blobs whose second index line loses its last digit and line feed.\<close>

definition length_sha :: "bytes \<Rightarrow> bytes" where
  "length_sha b = [word_of_nat (length b)]"

definition two_blobs :: content_store where
  "two_blobs = putBuffered ''09'' (replicate 9 0) (putBuffered ''01'' [0] (cs_init 100 []))"

definition torn_flush :: metadata where
  "torn_flush =
     (case flush_loop ''0'' (cs_packBuffer two_blobs) [] [] [] of
        (packBody, _, idxDelta) \<Rightarrow>
          fold (\<lambda>w m. w m) (flush_writes ''0'' packBody (take (length idxDelta - 2) idxDelta)) [])"

text \<open>
  A torn index line is not always harmless.  A flush of two blobs is cut short inside the last
  number of its second line, so that line still reads as a place, with a shorter length.  After
  a restart reading the first blob, whose own line and bytes are whole, throws.
\<close>

theorem torn_index_line_blocks_pack:
  "snd (cs_get length_sha ''01'' (cs_init 100 torn_flush)) = Inl InvalidCharErr \<and>
   snd (cs_get length_sha ''01'' (cs_init 100 (cs_metadata (flushPack two_blobs)))) = Inr (Some [0])"
  by code_simp

end
