(* ===== verification/DagStore.thy ===== *)
theory DagStore
  imports Journal VersionDagSweep
begin

text \<open>
  The persistence of the version graph, \<open>src/network/version-dag-store.ts\<close>: a snapshot file and a journal
  of edge records, one JSON text per line, in the metadata store.  The operations are functions
  on the store, the only state the class has.  The members of a snapshot object are read in the
  order they were written; JavaScript moves integer-like keys to the front, which version ids
  never are.
\<close>

section \<open>Edge records\<close>

definition DAG_SNAPSHOT_PATH :: string where "DAG_SNAPSHOT_PATH = ''.opsblobs/version-dag.json''"
definition DAG_JOURNAL_PATH :: string where "DAG_JOURNAL_PATH = ''.opsblobs/version-dag.log''"
definition COMPACT_THRESHOLD :: nat where "COMPACT_THRESHOLD = 500"

record EdgeRecord =
  er_v :: string
  er_p :: "string list"
  er_c :: string
  er_f :: string

definition js_field :: "json \<Rightarrow> string \<Rightarrow> json option" where
  "js_field v k = (case v of JObj ms \<Rightarrow> map_of (rev ms) k | _ \<Rightarrow> None)"

definition js_string :: "json option \<Rightarrow> string option" where
  "js_string v = (case v of Some (JStr s) \<Rightarrow> Some s | _ \<Rightarrow> None)"

definition js_strings :: "json option \<Rightarrow> string option list option" where
  "js_strings v = (case v of Some (JArr vs) \<Rightarrow> Some (map (\<lambda>x. js_string (Some x)) vs) | _ \<Rightarrow> None)"

definition edge_json :: "EdgeRecord \<Rightarrow> json" where
  "edge_json r =
     JObj [(''v'', JStr (er_v r)), (''p'', JArr (map JStr (er_p r))), (''c'', JStr (er_c r)), (''f'', JStr (er_f r))]"

definition record_edge :: "EdgeRecord \<Rightarrow> dag \<Rightarrow> dag" where
  "record_edge r g = fst (addVersion (er_v r) (er_p r) (er_c r) (er_f r) g)"

text \<open>A line of the journal: a record when it parses and its \<open>v\<close> is a string.\<close>

definition edge_of_line :: "string \<Rightarrow> EdgeRecord option" where
  "edge_of_line line =
     (case json_parse line of
        None \<Rightarrow> None
      | Some rec \<Rightarrow>
          (case js_string (js_field rec ''v'') of
             None \<Rightarrow> None
           | Some v \<Rightarrow>
               Some \<lparr> er_v = v,
                  er_p = (case js_strings (js_field rec ''p'') of None \<Rightarrow> [] | Some ps \<Rightarrow> List.map_filter (\<lambda>p. p) ps),
                  er_c = (case js_string (js_field rec ''c'') of None \<Rightarrow> [] | Some c \<Rightarrow> c),
                  er_f = (case js_string (js_field rec ''f'') of None \<Rightarrow> [] | Some f \<Rightarrow> f) \<rparr>))"

section \<open>Loading\<close>

definition node_record :: "json \<Rightarrow> dag_json" where
  "node_record raw =
     \<lparr> dj_parents = js_strings (js_field raw ''parents''), dj_contentHash = js_string (js_field raw ''contentHash''),
       dj_fileId = js_string (js_field raw ''fileId'') \<rparr>"

text \<open>\<open>Object.entries\<close> of a parsed snapshot.\<close>

definition snapshot_entries :: "json \<Rightarrow> (string \<times> dag_json) list option" where
  "snapshot_entries obj =
     (case obj of
        JObj ms \<Rightarrow> Some (map (\<lambda>(i, v). (i, node_record v)) (jm_of_list ms))
      | JArr vs \<Rightarrow> Some (map (\<lambda>(n, v). (show_nat n, node_record v)) (enumerate 0 vs))
      | _ \<Rightarrow> None)"

definition loadSnapshot :: "metadata \<Rightarrow> dag" where
  "loadSnapshot m =
     (case md_read m DAG_SNAPSHOT_PATH of
        None \<Rightarrow> []
      | Some raw \<Rightarrow> (case json_parse raw of None \<Rightarrow> [] | Some v \<Rightarrow> dag_fromJSON (snapshot_entries v)))"

definition replay_line :: "string \<Rightarrow> dag \<Rightarrow> dag" where
  "replay_line line dag =
     (if line = [] then dag else (case edge_of_line line of None \<Rightarrow> dag | Some r \<Rightarrow> record_edge r dag))"

definition dag_load :: "metadata \<Rightarrow> dag" where
  "dag_load m =
     (let dag = loadSnapshot m
      in case md_read m DAG_JOURNAL_PATH of
           None \<Rightarrow> dag
         | Some journal \<Rightarrow> if journal = [] then dag else fold replay_line (splitOn LF journal) dag)"

section \<open>Writing\<close>

definition appendEdges :: "EdgeRecord list \<Rightarrow> metadata \<Rightarrow> metadata" where
  "appendEdges records m =
     (if records = [] then m
      else md_append DAG_JOURNAL_PATH (joinWith [LF] (map (\<lambda>r. json_show (edge_json r)) records) @ [LF]) m)"

definition dag_shouldCompact :: "metadata \<Rightarrow> bool" where
  "dag_shouldCompact m =
     (case md_read m DAG_JOURNAL_PATH of
        None \<Rightarrow> False
      | Some journal \<Rightarrow> length (journal_lines journal) \<ge> COMPACT_THRESHOLD)"

definition node_json :: "dag_json \<Rightarrow> json" where
  "node_json r =
     JObj [(''parents'', JArr (case dj_parents r of None \<Rightarrow> [] | Some ps \<Rightarrow> map (\<lambda>p. JStr (the p)) ps)),
           (''contentHash'', JStr (the (dj_contentHash r))), (''fileId'', JStr (the (dj_fileId r)))]"

definition dag_text :: "dag \<Rightarrow> string" where
  "dag_text g = json_show (JObj (map (\<lambda>(i, r). (i, node_json r)) (dag_toJSON g)))"

definition dag_compact_writes :: "dag \<Rightarrow> (metadata \<Rightarrow> metadata) list" where
  "dag_compact_writes g =
     [md_write DAG_SNAPSHOT_PATH (dag_text g),
      \<lambda>m. if md_exists m DAG_JOURNAL_PATH then md_remove DAG_JOURNAL_PATH m else m]"

definition dag_compact :: "dag \<Rightarrow> metadata \<Rightarrow> metadata" where
  "dag_compact g m = fold (\<lambda>w m. w m) (dag_compact_writes g) m"

definition dag_save :: "dag \<Rightarrow> metadata \<Rightarrow> metadata" where
  "dag_save g m = dag_compact g m"

definition dag_clear :: "metadata \<Rightarrow> metadata" where
  "dag_clear m =
     (let m1 = (if md_exists m DAG_SNAPSHOT_PATH then md_remove DAG_SNAPSHOT_PATH m else m)
      in if md_exists m1 DAG_JOURNAL_PATH then md_remove DAG_JOURNAL_PATH m1 else m1)"

section \<open>The journal's codec\<close>

lemma edge_fields [simp]:
  "js_field (edge_json r) ''v'' = Some (JStr (er_v r))" "js_field (edge_json r) ''p'' = Some (JArr (map JStr (er_p r)))"
  "js_field (edge_json r) ''c'' = Some (JStr (er_c r))" "js_field (edge_json r) ''f'' = Some (JStr (er_f r))"
  by (simp_all add: js_field_def edge_json_def)

lemma map_filter_Some [simp]: "List.map_filter (\<lambda>p. p) (map Some ps) = ps"
  by (induction ps) (simp_all add: map_filter_simps)

interpretation edge_lines: torn_codec "\<lambda>r. json_show (edge_json r)" edge_of_line "\<lambda>_. True"
proof
  show "edge_of_line (json_show (edge_json r)) = Some r" for r
    by (cases r) (simp add: edge_of_line_def js_string_def js_strings_def comp_def del: json_show.simps)
  show "LF \<notin> set (json_show (edge_json r))" "json_show (edge_json r) \<noteq> []" for r by simp_all
  show "edge_of_line p = None" if "json_show (edge_json r) = p @ q" "q \<noteq> []" for r p q
  proof -
    have "json_parse p = None"
      by (rule torn_object [OF that(1) [unfolded edge_json_def] that(2)])
    then show ?thesis by (simp add: edge_of_line_def)
  qed
qed

definition edge_text :: "EdgeRecord list \<Rightarrow> string" where
  "edge_text rs = journal_text (map (\<lambda>r. json_show (edge_json r)) rs)"

lemma appendEdges_text: "records \<noteq> [] \<Longrightarrow> appendEdges records m = md_append DAG_JOURNAL_PATH (edge_text records) m"
  using join_lines [of "map (\<lambda>r. json_show (edge_json r)) records"] by (simp add: appendEdges_def edge_text_def)

lemma replay_lines:
  "fold replay_line ls g = fold record_edge (List.map_filter edge_of_line (filter (\<lambda>l. l \<noteq> []) ls)) g"
  by (induction ls arbitrary: g) (simp_all add: map_filter_simps replay_line_def split: option.split)

lemma replay_text: "fold replay_line (splitOn LF text) g = fold record_edge (List.map_filter edge_of_line (journal_lines text)) g"
  by (simp add: replay_lines journal_lines_def)

section \<open>What the files hold\<close>

lemma dag_paths [simp]: "DAG_SNAPSHOT_PATH \<noteq> DAG_JOURNAL_PATH" "DAG_JOURNAL_PATH \<noteq> DAG_SNAPSHOT_PATH"
  by (simp_all add: DAG_SNAPSHOT_PATH_def DAG_JOURNAL_PATH_def)

text \<open>A snapshot that some graph wrote, or none, and a journal of whole records.\<close>

definition dag_snapshot_is :: "metadata \<Rightarrow> dag \<Rightarrow> bool" where
  "dag_snapshot_is m g =
     (dag_wf g \<and> (md_read m DAG_SNAPSHOT_PATH = Some (dag_text g) \<or> md_read m DAG_SNAPSHOT_PATH = None \<and> g = []))"

definition dag_journal_is :: "metadata \<Rightarrow> EdgeRecord list \<Rightarrow> bool" where
  "dag_journal_is m rs =
     (md_read m DAG_JOURNAL_PATH = Some (edge_text rs) \<or> md_read m DAG_JOURNAL_PATH = None \<and> rs = [])"

lemma node_record_json: "node_record (node_json \<lparr> dj_parents = Some (map Some ps), dj_contentHash = Some h, dj_fileId = Some f \<rparr>) =
    \<lparr> dj_parents = Some (map Some ps), dj_contentHash = Some h, dj_fileId = Some f \<rparr>"
  by (simp add: node_record_def node_json_def js_field_def js_string_def js_strings_def comp_def)

lemma snapshot_text:
  assumes "dag_wf g"
  shows "json_parse (dag_text g) = Some (JObj (map (\<lambda>(i, r). (i, node_json r)) (dag_toJSON g)))"
    and "snapshot_entries (JObj (map (\<lambda>(i, r). (i, node_json r)) (dag_toJSON g))) = Some (dag_toJSON g)"
proof -
  show "json_parse (dag_text g) = Some (JObj (map (\<lambda>(i, r). (i, node_json r)) (dag_toJSON g)))"
    by (simp add: dag_text_def del: json_show.simps)
  have "jm_wf (map (\<lambda>(i, r). (i, node_json r)) (dag_toJSON g))"
    using assms by (simp add: dag_wf_def jm_wf_def dag_toJSON_def comp_def case_prod_beta)
  then have "jm_of_list (map (\<lambda>(i, r). (i, node_json r)) (dag_toJSON g)) = map (\<lambda>(i, r). (i, node_json r)) (dag_toJSON g)"
    by (rule jm_of_list_id)
  then show "snapshot_entries (JObj (map (\<lambda>(i, r). (i, node_json r)) (dag_toJSON g))) = Some (dag_toJSON g)"
    by (simp add: snapshot_entries_def dag_toJSON_def comp_def case_prod_beta node_record_json)
qed

lemma loadSnapshot_is: "dag_snapshot_is m g \<Longrightarrow> loadSnapshot m = g"
  using snapshot_text [of g] fromJSON_toJSON [of g] by (auto simp: dag_snapshot_is_def loadSnapshot_def)

lemma load_text:
  assumes "dag_snapshot_is m g" and "md_read m DAG_JOURNAL_PATH = Some body"
  shows "dag_load m = fold record_edge (List.map_filter edge_of_line (journal_lines body)) g"
  using assms replay_text [of body g] by (simp add: dag_load_def loadSnapshot_is Let_def map_filter_simps)

lemma load_is: "dag_snapshot_is m g \<Longrightarrow> dag_journal_is m rs \<Longrightarrow> dag_load m = fold record_edge rs g"
  using load_text [of m g "edge_text rs"] edge_lines.records_written [of rs]
  by (auto simp: dag_journal_is_def edge_text_def) (simp add: dag_load_def loadSnapshot_is Let_def)

lemma record_wf: "dag_wf g \<Longrightarrow> dag_wf (record_edge r g)"
  by (simp add: record_edge_def dag_wf_addVersion)

lemma records_wf: "dag_wf g \<Longrightarrow> dag_wf (fold record_edge rs g)"
  by (induction rs arbitrary: g) (simp_all add: record_wf)

text \<open>Recording an edge once more changes nothing, also after other edges.\<close>

definition edge_known :: "EdgeRecord \<Rightarrow> dag \<Rightarrow> bool" where
  "edge_known r g =
     (\<exists>n. jm_get g (er_v r) = Some n \<and> set (er_p r) - {er_v r} \<subseteq> set (vn_parents n) \<and>
        (er_c r = [] \<or> vn_contentHash n \<noteq> []) \<and> (er_f r = [] \<or> vn_fileId n \<noteq> []))"

lemma known_record: "edge_known r g \<Longrightarrow> record_edge r g = g"
  using addVersion_known by (fastforce simp: edge_known_def record_edge_def)

lemma record_known: "edge_known r (record_edge r g)"
  by (auto simp: edge_known_def record_edge_def addVersion_def Let_def split: option.splits)

lemma known_kept: "edge_known r g \<Longrightarrow> edge_known r (record_edge q g)"
  by (auto simp: edge_known_def record_edge_def addVersion_def Let_def split: option.splits)

lemma known_kept_all: "edge_known r g \<Longrightarrow> edge_known r (fold record_edge qs g)"
  by (induction qs arbitrary: g) (simp_all add: known_kept)

lemma records_known: "r \<in> set rs \<Longrightarrow> edge_known r (fold record_edge rs g)"
  by (induction rs arbitrary: g) (auto simp: known_kept_all record_known)

lemma replay_known: "(\<And>r. r \<in> set rs \<Longrightarrow> edge_known r g) \<Longrightarrow> fold record_edge rs g = g"
  by (induction rs) (simp_all add: known_record)

lemma replay_again: "fold record_edge rs (fold record_edge rs g) = fold record_edge rs g"
  by (rule replay_known) (rule records_known)

section \<open>The files and the graph in memory\<close>

text \<open>
  The graph in memory and the files that keep it: a round records edges and appends their
  records, it compacts, it sweeps and saves, a session loads the graph, a vault switch clears it.
\<close>

inductive dag_step :: "dag \<times> metadata \<Rightarrow> dag \<times> metadata \<Rightarrow> bool" where
  step_append: "dag_step (g, m) (fold record_edge rs g, appendEdges rs m)"
| step_compact: "dag_step (g, m) (g, dag_compact g m)"
| step_sweep: "dag_step (g, m) (fst (sweepToRoots roots g), dag_save (fst (sweepToRoots roots g)) m)"
| step_load: "dag_step (g, m) (dag_load m, m)"
| step_clear: "dag_step (g, m) ([], dag_clear m)"

definition dag_disk :: "dag \<times> metadata \<Rightarrow> bool" where
  "dag_disk = (\<lambda>(g, m). \<exists>g0 rs. dag_snapshot_is m g0 \<and> dag_journal_is m rs \<and> fold record_edge rs g0 = g)"

lemma dag_disk_load: "dag_disk (g, m) \<Longrightarrow> dag_load m = g \<and> dag_wf g"
  by (auto simp: dag_disk_def load_is records_wf dag_snapshot_is_def)

lemma md_not_exists: "\<not> md_exists m p \<Longrightarrow> md_read m p = None"
  using md_exists_file by blast

lemma append_disk:
  assumes "dag_disk (g, m)"
  shows "dag_disk (fold record_edge rs g, appendEdges rs m)"
proof (cases "rs = []")
  case False
  obtain g0 qs where d: "dag_snapshot_is m g0" "dag_journal_is m qs" "fold record_edge qs g0 = g"
    using assms by (auto simp: dag_disk_def)
  have "dag_snapshot_is (appendEdges rs m) g0" using d(1) False by (simp add: appendEdges_text dag_snapshot_is_def)
  moreover have "dag_journal_is (appendEdges rs m) (qs @ rs)"
    using d(2) False by (auto simp: appendEdges_text dag_journal_is_def edge_text_def)
  ultimately show ?thesis using d(3) unfolding dag_disk_def by (intro case_prodI exI [of _ g0] exI [of _ "qs @ rs"]) simp
qed (use assms in \<open>simp add: appendEdges_def\<close>)

lemma compact_disk: "dag_wf g \<Longrightarrow> dag_disk (g, dag_compact g m)"
proof -
  assume g: "dag_wf g"
  have "dag_snapshot_is (dag_compact g m) g" using g by (simp add: dag_compact_def dag_compact_writes_def dag_snapshot_is_def)
  moreover have "dag_journal_is (dag_compact g m) []"
    by (auto simp: dag_compact_def dag_compact_writes_def dag_journal_is_def dest!: md_not_exists)
  ultimately show ?thesis unfolding dag_disk_def by (intro case_prodI exI [of _ g] exI [of _ "[]"]) simp
qed

lemma dag_wf_filter: "dag_wf g \<Longrightarrow> dag_wf (filter P g)"
  by (auto simp: dag_wf_def list_all_iff)

lemma sweep_wf: "dag_wf g \<Longrightarrow> dag_wf (fst (sweepToRoots roots g))"
  by (auto simp: sweepToRoots_def dag_prune_def Let_def dag_wf_filter split: prod.split)

lemma clear_disk: "dag_disk ([], dag_clear m)"
proof -
  have "md_read (dag_clear m) DAG_SNAPSHOT_PATH = None" "md_read (dag_clear m) DAG_JOURNAL_PATH = None"
    by (auto simp: dag_clear_def Let_def dest!: md_not_exists)
  then show ?thesis unfolding dag_disk_def
    by (intro case_prodI exI [of _ "[]"]) (simp add: dag_snapshot_is_def dag_journal_is_def)
qed

lemma dag_step_disk: "dag_step s t \<Longrightarrow> dag_disk s \<Longrightarrow> dag_disk t"
proof (induction rule: dag_step.induct)
  case (step_load g m)
  then show ?case using dag_disk_load [of g m] by simp
qed (auto simp: append_disk compact_disk clear_disk dag_save_def sweep_wf dest: dag_disk_load)

lemma dag_reachable: "dag_step\<^sup>*\<^sup>* ([], []) s \<Longrightarrow> dag_disk s"
proof (induction rule: rtranclp_induct)
  case base
  show ?case unfolding dag_disk_def
    by (intro case_prodI exI [of _ "[]"]) (simp add: dag_snapshot_is_def dag_journal_is_def md_read_def)
qed (auto intro: dag_step_disk)

section \<open>Properties of the persisted graph\<close>

text \<open>
  C32: The files always hold the graph in memory: in every state that appends, compactions, sweeps,
  reloads and clears can reach, loading gives exactly the graph the session works on.
\<close>

theorem dag_store_refines:
  assumes "dag_step\<^sup>*\<^sup>* ([], []) (g, m)"
  shows "dag_load m = g"
  using dag_disk_load [OF dag_reachable [OF assms]] by simp

definition sample_edge :: EdgeRecord where
  "sample_edge = \<lparr> er_v = ''v2'', er_p = [''v1''], er_c = ''c'', er_f = ''f'' \<rparr>"

lemma sample_reach: "dag_step\<^sup>*\<^sup>* ([], []) (fold record_edge [sample_edge] [], appendEdges [sample_edge] [])"
  by (rule r_into_rtranclp) (rule step_append)

theorem dag_store_refines_witness:
  "dag_load (appendEdges [sample_edge] []) = fold record_edge [sample_edge] []"
  by (rule dag_store_refines [OF sample_reach])

text \<open>
  A crash never corrupts the graph: after an append that was cut anywhere, loading gives the
  old graph with the first few of the new edges; after a compaction that wrote the snapshot but
  did not remove the journal, loading gives the graph that was compacted.
\<close>

theorem dag_crash_safe:
  assumes "dag_step\<^sup>*\<^sup>* ([], []) (g, m)" and "prefix p (edge_text rs)"
  shows "(\<exists>k. dag_load (md_append DAG_JOURNAL_PATH p m) = fold record_edge (take k rs) g) \<and>
    dag_load (hd (dag_compact_writes g) m) = g"
proof
  obtain g0 qs where d: "dag_snapshot_is m g0" "dag_journal_is m qs" "fold record_edge qs g0 = g"
    using dag_reachable [OF assms(1)] by (auto simp: dag_disk_def)
  have wf: "dag_wf g" using dag_disk_load [OF dag_reachable [OF assms(1)]] by simp
  have s: "dag_snapshot_is (md_append DAG_JOURNAL_PATH p m) g0" using d(1) by (simp add: dag_snapshot_is_def)
  have raw: "md_read (md_append DAG_JOURNAL_PATH p m) DAG_JOURNAL_PATH = Some (edge_text qs @ p)"
    using d(2) by (auto simp: dag_journal_is_def edge_text_def)
  obtain k where "List.map_filter edge_of_line (journal_lines (edge_text qs @ p)) = qs @ take k rs"
    using edge_lines.records_torn [OF assms(2) [unfolded edge_text_def], of qs] by (auto simp: edge_text_def)
  then have "dag_load (md_append DAG_JOURNAL_PATH p m) = fold record_edge (take k rs) g"
    using load_text [OF s raw] d(3) by simp
  then show "\<exists>k. dag_load (md_append DAG_JOURNAL_PATH p m) = fold record_edge (take k rs) g" ..
  have "dag_snapshot_is (hd (dag_compact_writes g) m) g" using wf by (simp add: dag_compact_writes_def dag_snapshot_is_def)
  moreover have "dag_journal_is (hd (dag_compact_writes g) m) qs" using d(2) by (simp add: dag_compact_writes_def dag_journal_is_def)
  ultimately have "dag_load (hd (dag_compact_writes g) m) = fold record_edge qs g" by (rule load_is)
  then show "dag_load (hd (dag_compact_writes g) m) = g" using d(3) replay_again [of qs g0] by simp
qed

theorem dag_crash_safe_witness:
  "(\<exists>k. dag_load (md_append DAG_JOURNAL_PATH (take 5 (edge_text [sample_edge])) (appendEdges [sample_edge] [])) =
      fold record_edge (take k [sample_edge]) (fold record_edge [sample_edge] [])) \<and>
   dag_load (hd (dag_compact_writes (fold record_edge [sample_edge] [])) (appendEdges [sample_edge] [])) =
     fold record_edge [sample_edge] []"
  by (rule dag_crash_safe [OF sample_reach]) (rule take_is_prefix)

text \<open>
  The first edge that is appended after a torn append is lost: the record continues the torn line,
  which then does not parse.
\<close>

theorem dag_torn_tail_loses_edge:
  assumes "dag_step\<^sup>*\<^sup>* ([], []) (g, m)"
  shows "dag_load (appendEdges [r] (md_append DAG_JOURNAL_PATH (take 1 (edge_text [q])) m)) = g"
proof -
  obtain g0 qs where d: "dag_snapshot_is m g0" "dag_journal_is m qs" "fold record_edge qs g0 = g"
    using dag_reachable [OF assms] by (auto simp: dag_disk_def)
  let ?m = "appendEdges [r] (md_append DAG_JOURNAL_PATH (take 1 (edge_text [q])) m)"
  let ?line = "CHR ''{'' # json_show (edge_json r)"
  have t: "take 1 (edge_text [q]) = ''{''" by (simp add: edge_text_def edge_json_def)
  have s: "dag_snapshot_is ?m g0" using d(1) by (simp add: appendEdges_text dag_snapshot_is_def)
  have raw: "md_read ?m DAG_JOURNAL_PATH = Some (edge_text qs @ journal_text [?line])"
    unfolding t using d(2) by (auto simp: appendEdges_text dag_journal_is_def edge_text_def simp del: json_show.simps)
  have "LF \<notin> set ?line" using json_show_no_LF [of "edge_json r"] by (simp add: LF_def)
  then have "journal_lines (journal_text [?line]) = [?line]" using journal_lines_text [of "[?line]" "[]"] by simp
  moreover have "edge_of_line ?line = None"
    unfolding edge_of_line_def edge_json_def by (simp only: glued_object option.case)
  ultimately have "List.map_filter edge_of_line (journal_lines (edge_text qs @ journal_text [?line])) = qs"
    using edge_lines.records_text [of qs "journal_text [?line]"] by (simp add: edge_text_def map_filter_simps)
  then show ?thesis using load_text [OF s raw] d(3) by simp
qed

theorem dag_torn_tail_loses_edge_witness:
  "dag_load (appendEdges [sample_edge] (md_append DAG_JOURNAL_PATH (take 1 (edge_text [sample_edge])) [])) = []"
  by (rule dag_torn_tail_loses_edge) simp

end
