(* ===== verification/SyncErrors.thy ===== *)
theory SyncErrors
  imports HlcString
begin

text \<open>
  The typed failures of a sync round (\<open>src/network/sync-errors.ts\<close>), the cancellation token
  (\<open>src/network/sync-cancellation.ts\<close>), the bound on a request (\<open>src/network/with-timeout.ts\<close>)
  and the steps with state and error in which the transfer and the round are written.  A dash of a
  message is written as hyphens.
\<close>

section \<open>The failures\<close>

datatype sync_error =
    StaleCursorError
  | BatchTooLargeError
  | KeyMismatchError
  | AuthError nat
  | NotFoundError
  | ServerError nat string
  | NetworkError string
  | TimeoutError string nat
  | DecryptError
  | SyncCancelledError
  | MissingBlobError string
  | OtherError string

definition math_round_div :: "nat \<Rightarrow> nat \<Rightarrow> nat" where
  "math_round_div a b = (2 * a + b) div (2 * b)"

fun error_message :: "sync_error \<Rightarrow> string" where
  "error_message StaleCursorError = ''Server rejected append: cursor too stale, re-pull first''"
| "error_message BatchTooLargeError = ''Server rejected blob batch: response too large, split and retry''"
| "error_message KeyMismatchError =
     ''This device's sync passphrase doesn't match the vault already on the server. '' @
     ''Check the passphrase in OpsBlobs settings -- it must be identical on every device.''"
| "error_message (AuthError status) =
     ''The sync server rejected this device's access token (HTTP '' @ show_nat status @ ''). '' @
     ''Check the access token in OpsBlobs settings -- it may be wrong, expired, or not authorized for this vault.''"
| "error_message NotFoundError =
     ''The sync server couldn't find this vault (HTTP 404). '' @
     ''Check the server URL and vault ID in OpsBlobs settings.''"
| "error_message (ServerError status operation) =
     ''The sync server had a problem while '' @ operation @ '' (HTTP '' @ show_nat status @ ''). '' @
     ''It may be temporarily unavailable -- the next sync will retry.''"
| "error_message (NetworkError operation) =
     ''Couldn't reach the sync server while '' @ operation @ ''. '' @
     ''Check the server URL and your network connection.''"
| "error_message (TimeoutError operation timeoutMs) =
     ''The sync server didn't respond within '' @ show_nat (math_round_div timeoutMs 1000) @ ''s while '' @ operation @ ''. '' @
     ''It may be slow or unreachable -- the next sync will retry.''"
| "error_message DecryptError =
     ''Couldn't decrypt data from the server -- this device's passphrase likely doesn't match the vault. '' @
     ''Check the passphrase in OpsBlobs settings.''"
| "error_message SyncCancelledError = ''Sync cancelled''"
| "error_message (MissingBlobError hash) = ''Blob '' @ hash @ '' not present; upload blobs before ops''"
| "error_message (OtherError m) = m"

fun isTransientLinkError :: "sync_error \<Rightarrow> bool" where
  "isTransientLinkError (NetworkError _) = True"
| "isTransientLinkError (TimeoutError _ _) = True"
| "isTransientLinkError _ = False"

fun isSetupError :: "sync_error \<Rightarrow> bool" where
  "isSetupError (AuthError _) = True"
| "isSetupError NotFoundError = True"
| "isSetupError KeyMismatchError = True"
| "isSetupError DecryptError = True"
| "isSetupError _ = False"

section \<open>The cancellation token\<close>

record cancel_token =
  ct_cancelled :: bool

definition new_cancel_token :: cancel_token where
  "new_cancel_token = \<lparr> ct_cancelled = False \<rparr>"

definition request_cancel :: "cancel_token \<Rightarrow> cancel_token" where
  "request_cancel t = t\<lparr> ct_cancelled := True \<rparr>"

definition isCancelled :: "cancel_token \<Rightarrow> bool" where
  "isCancelled t = ct_cancelled t"

definition throwIfCancelled :: "cancel_token \<Rightarrow> sync_error + unit" where
  "throwIfCancelled t = (if ct_cancelled t then Inl SyncCancelledError else Inr ())"

section \<open>A bounded request\<close>

text \<open>
  A promise settles at some time after it was made or stays pending.  At the very moment of the
  timer it depends on the event loop which of the two comes first: \<open>first\<close> says that the request
  does.
\<close>

datatype ('e, 'a) promise = Settles nat "'e + 'a" | Pending

definition withTimeout :: "bool \<Rightarrow> (sync_error, 'a) promise \<Rightarrow> nat \<Rightarrow> string \<Rightarrow> (sync_error, 'a) promise" where
  "withTimeout first op ms label =
     (if \<not> ms > 0 then op
      else
        (case op of
           Settles t v \<Rightarrow> if t < ms \<or> (t = ms \<and> first) then op else Settles ms (Inl (TimeoutError label ms))
         | Pending \<Rightarrow> Settles ms (Inl (TimeoutError label ms))))"

section \<open>Steps with state and error\<close>

type_synonym ('s, 'a) act = "'s \<Rightarrow> 's \<times> (sync_error + 'a)"

definition retE :: "'a \<Rightarrow> ('s, 'a) act" where
  "retE x = (\<lambda>s. (s, Inr x))"

definition throwE :: "sync_error \<Rightarrow> ('s, 'a) act" where
  "throwE e = (\<lambda>s. (s, Inl e))"

definition bindE :: "('s, 'a) act \<Rightarrow> ('a \<Rightarrow> ('s, 'b) act) \<Rightarrow> ('s, 'b) act" where
  "bindE m k = (\<lambda>s. case m s of (s1, Inr x) \<Rightarrow> k x s1 | (s1, Inl e) \<Rightarrow> (s1, Inl e))"

definition catchE :: "('s, 'a) act \<Rightarrow> (sync_error \<Rightarrow> ('s, 'a) act) \<Rightarrow> ('s, 'a) act" where
  "catchE m h = (\<lambda>s. case m s of (s1, Inr x) \<Rightarrow> (s1, Inr x) | (s1, Inl e) \<Rightarrow> h e s1)"

definition liftE :: "(sync_error + 'a) \<Rightarrow> ('s, 'a) act" where
  "liftE r = (\<lambda>s. (s, r))"

text \<open>A loop over a list, stopped by the first error.\<close>

fun mapE :: "('a \<Rightarrow> ('s, 'b) act) \<Rightarrow> 'a list \<Rightarrow> ('s, 'b list) act" where
  "mapE f [] = retE []"
| "mapE f (x # xs) = bindE (f x) (\<lambda>y. bindE (mapE f xs) (\<lambda>ys. retE (y # ys)))"

fun iterE :: "('a \<Rightarrow> 'b \<Rightarrow> ('s, 'b) act) \<Rightarrow> 'a list \<Rightarrow> 'b \<Rightarrow> ('s, 'b) act" where
  "iterE f [] acc = retE acc"
| "iterE f (x # xs) acc = bindE (f x acc) (\<lambda>acc1. iterE f xs acc1)"

named_theorems act_simps \<open>the steps, unfolded at a state\<close>

lemma retE_apply [simp, act_simps]: "retE x s = (s, Inr x)"
  by (simp add: retE_def)

lemma throwE_apply [simp, act_simps]: "throwE e s = (s, Inl e)"
  by (simp add: throwE_def)

lemma liftE_apply [simp, act_simps]: "liftE r s = (s, r)"
  by (simp add: liftE_def)

lemma bindE_ok: "m s = (s1, Inr x) \<Longrightarrow> bindE m k s = k x s1"
  by (simp add: bindE_def)

lemma bindE_err: "m s = (s1, Inl e) \<Longrightarrow> bindE m k s = (s1, Inl e)"
  by (simp add: bindE_def)

lemma bindE_Inr_iff: "bindE m k s = (s2, Inr y) \<longleftrightarrow> (\<exists>s1 x. m s = (s1, Inr x) \<and> k x s1 = (s2, Inr y))"
  by (auto simp: bindE_def split: prod.splits sum.splits)

lemma bindE_assoc: "bindE (bindE m k) l = bindE m (\<lambda>x. bindE (k x) l)"
  by (rule ext) (auto simp: bindE_def split: prod.splits sum.splits)

lemma bindE_cases:
  assumes "bindE m k s = (s2, r)"
  obtains (err) e where "m s = (s2, Inl e)" and "r = Inl e"
    | (ok) s1 x where "m s = (s1, Inr x)" and "k x s1 = (s2, r)"
  using assms by (auto simp: bindE_def split: prod.splits sum.splits)

lemma iterE_append: "iterE f (xs @ ys) acc = bindE (iterE f xs acc) (iterE f ys)"
proof (induction xs arbitrary: acc)
  case Nil
  then show ?case by (simp add: bindE_def fun_eq_iff)
next
  case (Cons x xs)
  have "iterE f (xs @ ys) = (\<lambda>a. bindE (iterE f xs a) (iterE f ys))" by (rule ext) (rule Cons)
  then show ?case by (simp add: bindE_assoc)
qed

text \<open>An invariant that every step keeps, with or without an error, is kept by their composition.\<close>

definition keepsE :: "('s \<Rightarrow> bool) \<Rightarrow> ('s, 'a) act \<Rightarrow> bool" where
  "keepsE P m = (\<forall>s. P s \<longrightarrow> P (fst (m s)))"

lemma keepsE_ret [simp]: "keepsE P (retE x)" "keepsE P (throwE e)" "keepsE P (liftE r)"
  by (simp_all add: keepsE_def)

lemma keepsE_bind: "keepsE P m \<Longrightarrow> (\<And>x. keepsE P (k x)) \<Longrightarrow> keepsE P (bindE m k)"
  by (fastforce simp: keepsE_def bindE_def split: prod.splits sum.splits)

lemma keepsE_catch: "keepsE P m \<Longrightarrow> (\<And>e. keepsE P (h e)) \<Longrightarrow> keepsE P (catchE m h)"
  by (fastforce simp: keepsE_def catchE_def split: prod.splits sum.splits)

lemma keepsE_map: "(\<And>x. keepsE P (f x)) \<Longrightarrow> keepsE P (mapE f xs)"
  by (induction xs) (auto intro!: keepsE_bind)

lemma keepsE_iter: "(\<And>x a. keepsE P (f x a)) \<Longrightarrow> keepsE P (iterE f xs acc)"
  by (induction xs arbitrary: acc) (auto intro!: keepsE_bind)

section \<open>Laws\<close>

text \<open>No failure is both a setup fault and a fault of the link.\<close>

lemma setup_not_transient: "isSetupError e \<Longrightarrow> \<not> isTransientLinkError e"
  by (cases e) simp_all

text \<open>A bounded request settles within its bound.\<close>

lemma withTimeout_settles: "0 < ms \<Longrightarrow> \<exists>t v. withTimeout b op ms label = Settles t v \<and> t \<le> ms"
  by (auto simp: withTimeout_def split: promise.splits)

lemma withTimeout_keeps: "t < ms \<Longrightarrow> withTimeout b (Settles t v) ms label = Settles t v"
  by (simp add: withTimeout_def)

end
