(* ===== verification/Stores.thy ===== *)
theory Stores
  imports Registry
begin

text \<open>
  The small stores that each keep one JSON value in a file of the metadata store: the sync cursor
  (\<open>src/network/cursor-store.ts\<close>), the persisted clock (\<open>src/network/hlc-store.ts\<close>) and the
  vault binding (\<open>src/network/vault-binding-store.ts\<close>).  They hold no state of their own, so each
  method is a function on the store; a file that does not parse, or whose member has another
  type, loads as nothing.
\<close>

section \<open>The cursor\<close>

definition CURSOR_PATH :: string where "CURSOR_PATH = ''.opsblobs/sync-cursor.json''"

definition cursor_load :: "metadata \<Rightarrow> nat" where
  "cursor_load m =
     (case md_read m CURSOR_PATH of
        None \<Rightarrow> 0
      | Some raw \<Rightarrow> (case json_parse raw of None \<Rightarrow> 0 | Some v \<Rightarrow> jdefault 0 (jnum v ''cursor'')))"

definition cursor_save :: "nat \<Rightarrow> metadata \<Rightarrow> metadata" where
  "cursor_save cursor m = md_write CURSOR_PATH (json_show (JObj [(''cursor'', JNum cursor)])) m"

section \<open>The clock\<close>

definition HLC_PATH :: string where "HLC_PATH = ''.opsblobs/hlc.json''"

definition hlc_load :: "metadata \<Rightarrow> HLC option" where
  "hlc_load m =
     (case md_read m HLC_PATH of
        None \<Rightarrow> None
      | Some raw \<Rightarrow>
          (case json_parse raw of
             None \<Rightarrow> None
           | Some v \<Rightarrow>
               (case (jnum v ''wallTime'', jnum v ''counter'', jstr v ''deviceId'') of
                  (Some w, Some c, Some d) \<Rightarrow> Some (HLC w c d)
                | _ \<Rightarrow> None)))"

definition hlc_save :: "HLC \<Rightarrow> metadata \<Rightarrow> metadata" where
  "hlc_save h m = md_write HLC_PATH (json_show (hlc_json h)) m"

definition hlc_clear :: "metadata \<Rightarrow> metadata" where
  "hlc_clear m = remove_existing HLC_PATH m"

section \<open>The vault binding\<close>

definition BINDING_PATH :: string where "BINDING_PATH = ''.opsblobs/vault-binding.json''"

definition binding_load :: "metadata \<Rightarrow> string option" where
  "binding_load m =
     (case md_read m BINDING_PATH of
        None \<Rightarrow> None
      | Some raw \<Rightarrow> (case json_parse raw of None \<Rightarrow> None | Some v \<Rightarrow> jstr v ''vaultId''))"

definition binding_save :: "string \<Rightarrow> metadata \<Rightarrow> metadata" where
  "binding_save vaultId m = md_write BINDING_PATH (json_show (JObj [(''vaultId'', JStr vaultId)])) m"

section \<open>What was saved is loaded\<close>

lemma cursor_roundtrip [simp]: "cursor_load (cursor_save c m) = c"
  by (simp add: cursor_load_def cursor_save_def jnum_def jfield_def jdefault_def del: json_show.simps)

lemma hlc_roundtrip [simp]: "hlc_load (hlc_save h m) = Some h"
  by (cases h) (simp add: hlc_load_def hlc_save_def hlc_json_def jnum_def jstr_def jfield_def del: json_show.simps)

lemma binding_roundtrip [simp]: "binding_load (binding_save v m) = Some v"
  by (simp add: binding_load_def binding_save_def jstr_def jfield_def del: json_show.simps)

lemma hlc_cleared: "hlc_load (hlc_clear m) = None"
  by (simp add: hlc_load_def hlc_clear_def remove_existing_def md_exists_def md_read_def md_remove_def jm_has_def
      split: option.splits)

end
