(* ===== verification/OpLog.thy ===== *)
theory OpLog
  imports Stores
begin

text \<open>
  The pending-operation log of \<open>src/core/operation-logger.ts\<close>: the operations recorded since the
  last round, the number of them that the journal holds, the file of one JSON text per line, and
  the first-in first-out queue that runs the persists one after the other.  A persist reads its
  data, waits for the write and only then moves the marker, so a write in flight is a state of its
  own: \<open>persist_write\<close>.  \<open>null\<close> on a line is \<open>TypeErr\<close>; a member of another type reads as its
  default, which no line that was written has.  The change listener and the timings of the
  performance sink are left out.
\<close>

section \<open>Operations as JSON\<close>

fun op_type_name :: "OperationType \<Rightarrow> string" where
  "op_type_name OpCreate = ''create''"
| "op_type_name OpUpdate = ''update''"
| "op_type_name OpDelete = ''delete''"
| "op_type_name OpMove = ''move''"

definition op_type_of :: "string \<Rightarrow> OperationType" where
  "op_type_of s =
     (if s = ''create'' then OpCreate else if s = ''delete'' then OpDelete
      else if s = ''move'' then OpMove else OpUpdate)"

definition op_json :: "Operation \<Rightarrow> json" where
  "op_json p =
     JObj [(''v'', JNum (op_v p)), (''id'', JStr (op_id p)), (''hlcTimestamp'', hlc_json (op_hlc p)),
           (''fileId'', JStr (op_fileId p)), (''type'', JStr (op_type_name (op_type p))), (''path'', JStr (op_path p)),
           (''contentHash'', JStr (op_contentHash p)), (''parents'', JArr (map JStr (op_parents p)))]"

definition op_of_json :: "json \<Rightarrow> Operation" where
  "op_of_json v =
     \<lparr> op_v = jdefault OP_FORMAT_VERSION (jnum v ''v''), op_id = jdefault [] (jstr v ''id''),
       op_hlc = hlc_of_json (jdefault JNull (jfield v ''hlcTimestamp'')),
       op_fileId = jdefault [] (jstr v ''fileId''), op_type = op_type_of (jdefault [] (jstr v ''type'')),
       op_path = jdefault [] (jstr v ''path''), op_contentHash = jdefault [] (jstr v ''contentHash''),
       op_parents = (case jfield v ''parents'' of Some (JArr ps) \<Rightarrow> map as_str ps | _ \<Rightarrow> []) \<rparr>"

definition op_line :: "Operation \<Rightarrow> string" where
  "op_line p = json_show (op_json p)"

text \<open>\<open>ops.map(JSON.stringify).join('\n') + '\n'\<close>, and the empty text for no operations.\<close>

definition ops_text :: "Operation list \<Rightarrow> string" where
  "ops_text ops = (if ops = [] then [] else joinWith [LF] (map op_line ops) @ [LF])"

section \<open>State and loading\<close>

definition OPLOG_PATH :: string where "OPLOG_PATH = ''.opsblobs/oplog.json''"

record op_log =
  ol_pendingOps :: "Operation list"
  ol_persistedCount :: nat
  ol_clock :: HLC
  ol_metadata :: metadata

definition new_op_log :: "HLC \<Rightarrow> metadata \<Rightarrow> op_log" where
  "new_op_log h m = \<lparr> ol_pendingOps = [], ol_persistedCount = 0, ol_clock = h, ol_metadata = m \<rparr>"

fun load_ops :: "string list \<Rightarrow> json list \<Rightarrow> Operation list \<Rightarrow> nat \<Rightarrow> io_error + Operation list \<times> nat" where
  "load_ops [] seenIds ops duplicates = Inr (ops, duplicates)"
| "load_ops (line # ls) seenIds ops duplicates =
     (if line = [] then load_ops ls seenIds ops duplicates
      else
        (case json_parse line of
           None \<Rightarrow> load_ops ls seenIds ops duplicates
         | Some JNull \<Rightarrow> Inl TypeErr
         | Some v \<Rightarrow>
             (case jfield v ''id'' of
                None \<Rightarrow> load_ops ls seenIds (ops @ [op_of_json v]) duplicates
              | Some i \<Rightarrow>
                  if i \<in> set seenIds then load_ops ls seenIds ops (duplicates + 1)
                  else load_ops ls (js_add i seenIds) (ops @ [op_of_json v]) duplicates)))"

definition oplog_load :: "op_log \<Rightarrow> io_error + op_log" where
  "oplog_load l =
     (case load_ops (case md_read (ol_metadata l) OPLOG_PATH of None \<Rightarrow> [] | Some raw \<Rightarrow> splitOn LF raw) [] [] 0 of
        Inl x \<Rightarrow> Inl x
      | Inr (ops, duplicates) \<Rightarrow>
          (let l1 = l\<lparr> ol_pendingOps := ops, ol_persistedCount := length ops \<rparr>
           in Inr (if duplicates > 0
                   then l1\<lparr> ol_metadata := md_write OPLOG_PATH (ops_text ops) (ol_metadata l1) \<rparr> else l1)))"

section \<open>Persisting\<close>

text \<open>A write in flight, with the operations its text holds.\<close>

datatype persist_write = Appending "Operation list" | Rewriting "Operation list"

definition finishOpLog :: "op_log \<Rightarrow> op_log" where
  "finishOpLog l = l\<lparr> ol_metadata := hlc_save (ol_clock l) (ol_metadata l) \<rparr>"

definition append_begin :: "op_log \<Rightarrow> persist_write option" where
  "append_begin l =
     (let delta = drop (ol_persistedCount l) (ol_pendingOps l) in if delta = [] then None else Some (Appending delta))"

definition rewrite_begin :: "op_log \<Rightarrow> persist_write" where
  "rewrite_begin l = Rewriting (ol_pendingOps l)"

fun write_done :: "persist_write \<Rightarrow> op_log \<Rightarrow> op_log" where
  "write_done (Appending delta) l =
     finishOpLog (l\<lparr> ol_metadata := md_append OPLOG_PATH (ops_text delta) (ol_metadata l),
                    ol_persistedCount := ol_persistedCount l + length delta \<rparr>)"
| "write_done (Rewriting ops) l =
     finishOpLog (l\<lparr> ol_metadata := md_write OPLOG_PATH (ops_text ops) (ol_metadata l),
                    ol_persistedCount := length ops \<rparr>)"

definition appendOpLogLocked :: "op_log \<Rightarrow> op_log" where
  "appendOpLogLocked l = (case append_begin l of None \<Rightarrow> finishOpLog l | Some w \<Rightarrow> write_done w l)"

definition rewriteOpLogLocked :: "op_log \<Rightarrow> op_log" where
  "rewriteOpLogLocked l = write_done (rewrite_begin l) l"

definition push_op :: "Operation \<Rightarrow> op_log \<Rightarrow> op_log" where
  "push_op p l = l\<lparr> ol_pendingOps := ol_pendingOps l @ [p] \<rparr>"

definition drop_all :: "op_log \<Rightarrow> op_log" where
  "drop_all l = l\<lparr> ol_pendingOps := [] \<rparr>"

definition hasPendingCreate :: "string \<Rightarrow> op_log \<Rightarrow> bool" where
  "hasPendingCreate fileId l = list_ex (\<lambda>p. op_fileId p = fileId \<and> op_type p = OpCreate) (ol_pendingOps l)"

definition drop_file :: "string \<Rightarrow> op_log \<Rightarrow> op_log" where
  "drop_file fileId l = l\<lparr> ol_pendingOps := filter (\<lambda>p. op_fileId p \<noteq> fileId) (ol_pendingOps l) \<rparr>"

definition pruneCreateDeletePair :: "string \<Rightarrow> op_log \<Rightarrow> op_log \<times> bool" where
  "pruneCreateDeletePair fileId l = (if \<not> hasPendingCreate fileId l then (l, False) else (drop_file fileId l, True))"

section \<open>The queue\<close>

datatype persist_job = AppendJob | RewriteJob

record op_queue =
  oq_log :: op_log
  oq_queue :: "persist_job list"
  oq_running :: "persist_write option"

definition enqueuePersist :: "persist_job \<Rightarrow> op_queue \<Rightarrow> op_queue" where
  "enqueuePersist j q = q\<lparr> oq_queue := oq_queue q @ [j] \<rparr>"

text \<open>The next job starts when nothing is in flight; an append with nothing to write ends at once.\<close>

definition start_job :: "op_queue \<Rightarrow> op_queue" where
  "start_job q =
     (case (oq_running q, oq_queue q) of
        (None, AppendJob # js) \<Rightarrow>
          (case append_begin (oq_log q) of
             None \<Rightarrow> q\<lparr> oq_queue := js, oq_log := finishOpLog (oq_log q) \<rparr>
           | Some w \<Rightarrow> q\<lparr> oq_queue := js, oq_running := Some w \<rparr>)
      | (None, RewriteJob # js) \<Rightarrow> q\<lparr> oq_queue := js, oq_running := Some (rewrite_begin (oq_log q)) \<rparr>
      | _ \<Rightarrow> q)"

definition complete_job :: "op_queue \<Rightarrow> op_queue" where
  "complete_job q =
     (case oq_running q of None \<Rightarrow> q | Some w \<Rightarrow> q\<lparr> oq_running := None, oq_log := write_done w (oq_log q) \<rparr>)"

text \<open>A rejected write leaves the marker; the chain goes on.\<close>

definition fail_job :: "op_queue \<Rightarrow> op_queue" where
  "fail_job q = q\<lparr> oq_running := None \<rparr>"

definition on_log :: "(op_log \<Rightarrow> op_log) \<Rightarrow> op_queue \<Rightarrow> op_queue" where
  "on_log f q = q\<lparr> oq_log := f (oq_log q) \<rparr>"

definition q_recordOp :: "Operation \<Rightarrow> op_queue \<Rightarrow> op_queue" where
  "q_recordOp p q = enqueuePersist AppendJob (on_log (push_op p) q)"

definition q_clearOps :: "op_queue \<Rightarrow> op_queue" where
  "q_clearOps q = enqueuePersist RewriteJob (on_log drop_all q)"

definition q_prune :: "string \<Rightarrow> op_queue \<Rightarrow> op_queue" where
  "q_prune fileId q =
     (case pruneCreateDeletePair fileId (oq_log q) of
        (l, pruned) \<Rightarrow> if pruned then enqueuePersist RewriteJob (q\<lparr> oq_log := l \<rparr>) else q)"

text \<open>All queued persists run to their end, every write succeeding.\<close>

fun run_jobs :: "nat \<Rightarrow> op_queue \<Rightarrow> op_queue" where
  "run_jobs 0 q = complete_job q"
| "run_jobs (Suc n) q = run_jobs n (start_job (complete_job q))"

definition drain :: "op_queue \<Rightarrow> op_queue" where
  "drain q = run_jobs (length (oq_queue q)) q"

text \<open>
  Everything that can happen to the log of one session; \<open>failing_rewrites\<close> says whether the write
  of a rewrite may be rejected.  A push alone is what the capture pass does between its
  checkpoints.
\<close>

inductive log_step :: "bool \<Rightarrow> op_queue \<Rightarrow> op_queue \<Rightarrow> bool" for failing_rewrites where
  push: "log_step failing_rewrites q (on_log (push_op p) q)"
| record_op: "log_step failing_rewrites q (q_recordOp p q)"
| append: "log_step failing_rewrites q (enqueuePersist AppendJob q)"
| clear: "log_step failing_rewrites q (q_clearOps q)"
| prune: "log_step failing_rewrites q (q_prune fileId q)"
| clock: "log_step failing_rewrites q (on_log (\<lambda>l. l\<lparr> ol_clock := h \<rparr>) q)"
| start: "log_step failing_rewrites q (start_job q)"
| complete: "log_step failing_rewrites q (complete_job q)"
| append_failed: "oq_running q = Some (Appending delta) \<Longrightarrow> log_step failing_rewrites q (fail_job q)"
| rewrite_failed: "failing_rewrites \<Longrightarrow> oq_running q = Some (Rewriting ops) \<Longrightarrow> log_step failing_rewrites q (fail_job q)"

definition opened_queue :: "op_log \<Rightarrow> op_queue" where
  "opened_queue l = \<lparr> oq_log = l, oq_queue = [], oq_running = None \<rparr>"

definition fresh_queue :: "HLC \<Rightarrow> metadata \<Rightarrow> op_queue" where
  "fresh_queue h m = \<lparr> oq_log = new_op_log h m, oq_queue = [], oq_running = None \<rparr>"

end
