(* ===== verification/OpLogThms.thy ===== *)
theory OpLogThms
  imports OpLog RegistryLaws
begin

text \<open>
  The operation log keeps its journal: the lines are a torn-safe codec, the journal on disk is the
  first \<open>persistedCount\<close> pending operations whenever no rewrite waits, a drained queue has
  everything on disk, a load heals repeated lines, and what goes wrong when a rewrite is rejected.
\<close>

section \<open>The lines of the journal\<close>

lemma op_type_name_of [simp]: "op_type_of (op_type_name t) = t"
  by (cases t) (simp_all add: op_type_of_def)

lemma op_field: "jfield (op_json p) k =
   (if k = ''v'' then Some (JNum (op_v p)) else if k = ''id'' then Some (JStr (op_id p))
    else if k = ''hlcTimestamp'' then Some (hlc_json (op_hlc p)) else if k = ''fileId'' then Some (JStr (op_fileId p))
    else if k = ''type'' then Some (JStr (op_type_name (op_type p))) else if k = ''path'' then Some (JStr (op_path p))
    else if k = ''contentHash'' then Some (JStr (op_contentHash p))
    else if k = ''parents'' then Some (JArr (map JStr (op_parents p))) else None)"
  by (simp add: op_json_def jfield_def)

lemma op_roundtrip [simp]: "op_of_json (op_json p) = p"
  by (rule Operation.equality)
    (simp_all add: op_of_json_def op_field jstr_def jnum_def jdefault_def comp_def as_str_def)

definition op_dec :: "string \<Rightarrow> Operation option" where
  "op_dec line = map_option op_of_json (json_parse line)"

interpretation op_lines: torn_codec op_line op_dec "\<lambda>_. True"
proof
  show "op_dec (op_line p) = Some p" for p by (simp add: op_dec_def op_line_def)
  show "LF \<notin> set (op_line p)" "op_line p \<noteq> []" for p by (simp_all add: op_line_def)
  show "op_dec p = None" if "op_line r = p @ q" "q \<noteq> []" for r p q
    using torn_object [OF that(1) [unfolded op_line_def op_json_def] that(2)] by (simp add: op_dec_def)
qed

lemma ops_text_journal: "ops_text ops = journal_text (map op_line ops)"
  using join_lines [of "map op_line ops"] by (simp add: ops_text_def)

lemma ops_text_Nil [simp]: "ops_text [] = []"
  by (simp add: ops_text_def)

lemma ops_text_append: "ops_text (ps @ qs) = ops_text ps @ ops_text qs"
  by (simp add: ops_text_journal)

declare load_ops.simps(2) [simp del]

lemma load_ops_blank [simp]: "load_ops ([] # ls) seen ops d = load_ops ls seen ops d"
  by (simp add: load_ops.simps(2))

lemma load_ops_line:
  "load_ops (op_line p # ls) seen ops d =
     (if JStr (op_id p) \<in> set seen then load_ops ls seen ops (d + 1)
      else load_ops ls (js_add (JStr (op_id p)) seen) (ops @ [p]) d)"
proof -
  obtain ms where ms: "op_json p = JObj ms" by (simp add: op_json_def)
  have "json_parse (op_line p) = Some (JObj ms)" by (simp add: op_line_def ms del: json_show.simps)
  moreover have "jfield (JObj ms) ''id'' = Some (JStr (op_id p))" "op_of_json (JObj ms) = p"
    unfolding ms [symmetric] by (simp_all add: op_field)
  ultimately show ?thesis using op_lines.enc_not_Nil [of p] by (simp add: load_ops.simps(2))
qed

lemma load_ops_torn: "op_dec line = None \<Longrightarrow> load_ops (line # ls) seen ops d = load_ops ls seen ops d"
  by (simp add: op_dec_def load_ops.simps(2))

lemma js_add_JStr: "js_add (JStr i) (map JStr ids) = map JStr (js_add i ids)"
  by (auto simp: js_add_def)

lemma dedupe_length: "length (dedupe_loop ps ids []) \<le> length ps"
  by (rule list_emb_length [OF dedupe_subseq])

text \<open>The reader is the filter of repeated ids of the push path.\<close>

lemma load_ops_lines:
  "load_ops (map op_line ps @ ls) (map JStr ids) ops d =
     load_ops ls (map JStr (fold js_add (map op_id ps) ids)) (ops @ dedupe_loop ps ids [])
       (d + (length ps - length (dedupe_loop ps ids [])))"
proof (induction ps arbitrary: ids ops d)
  case (Cons p ps)
  have len: "length (dedupe_loop ps ids []) \<le> length ps" by (rule dedupe_length)
  show ?case
  proof (cases "op_id p \<in> set ids")
    case True
    then have "JStr (op_id p) \<in> set (map JStr ids)" "js_add (op_id p) ids = ids" by (auto simp: js_add_def)
    then show ?thesis using len True by (simp add: load_ops_line Cons Suc_diff_le)
  next
    case False
    then have "JStr (op_id p) \<notin> set (map JStr ids)" by auto
    then show ?thesis using False by (simp add: load_ops_line Cons js_add_JStr)
  qed
qed simp

definition log_ops :: "metadata \<Rightarrow> Operation list \<Rightarrow> bool" where
  "log_ops m ops = (md_read m OPLOG_PATH = Some (ops_text ops) \<or> md_read m OPLOG_PATH = None \<and> ops = [])"

definition raw_lines :: "metadata \<Rightarrow> string list" where
  "raw_lines m = (case md_read m OPLOG_PATH of None \<Rightarrow> [] | Some raw \<Rightarrow> splitOn LF raw)"

lemma split_ops: "splitOn LF (ops_text ops @ s) = map op_line ops @ splitOn LF s"
  unfolding ops_text_journal by (rule split_journal) (simp add: op_lines.enc_line)

lemma oplog_text:
  assumes "md_read (ol_metadata l) OPLOG_PATH = Some (ops_text ops @ s)" and "op_dec s = None \<and> LF \<notin> set s"
  shows "oplog_load l =
    (let kept = dedupeOpsById ops; l1 = l\<lparr> ol_pendingOps := kept, ol_persistedCount := length kept \<rparr>
     in Inr (if length kept < length ops
             then l1\<lparr> ol_metadata := md_write OPLOG_PATH (ops_text kept) (ol_metadata l) \<rparr> else l1))"
proof -
  have "splitOn LF (ops_text ops @ s) = map op_line ops @ [s]"
    using assms(2) by (simp add: split_ops splitOn_free)
  moreover have "load_ops (map op_line ops @ [s]) [] [] 0 =
      Inr (dedupeOpsById ops, length ops - length (dedupeOpsById ops))"
    using load_ops_lines [of ops "[s]" "[]" "[]" 0] assms(2) by (simp add: load_ops_torn dedupeOpsById_def)
  ultimately show ?thesis using assms(1) by (simp add: oplog_load_def Let_def)
qed

lemma dedupe_same: "distinct (map op_id ops) \<Longrightarrow> dedupeOpsById ops = ops"
  unfolding dedupeOpsById_def by (rule dedupe_loop_id) auto

lemma op_dec_Nil [simp]: "op_dec [] = None"
  by (simp add: op_dec_def json_parse_def)

lemma oplog_is:
  assumes "log_ops (ol_metadata l) ops" and "distinct (map op_id ops)"
  shows "oplog_load l = Inr (l\<lparr> ol_pendingOps := ops, ol_persistedCount := length ops \<rparr>)"
proof (cases "md_read (ol_metadata l) OPLOG_PATH")
  case None
  then show ?thesis using assms(1) by (simp add: log_ops_def oplog_load_def)
next
  case (Some raw)
  then have "md_read (ol_metadata l) OPLOG_PATH = Some (ops_text ops @ [])" using assms(1) by (simp add: log_ops_def)
  from oplog_text [OF this] show ?thesis using dedupe_same [OF assms(2)] by simp
qed


section \<open>The journal follows the marker\<close>

lemma log_paths [simp]: "OPLOG_PATH \<noteq> HLC_PATH" "HLC_PATH \<noteq> OPLOG_PATH"
  by (simp_all add: OPLOG_PATH_def HLC_PATH_def)

lemma finish_simps [simp]:
  "ol_pendingOps (finishOpLog l) = ol_pendingOps l" "ol_persistedCount (finishOpLog l) = ol_persistedCount l"
  "ol_clock (finishOpLog l) = ol_clock l" "log_ops (ol_metadata (finishOpLog l)) ops = log_ops (ol_metadata l) ops"
  by (simp_all add: finishOpLog_def log_ops_def hlc_save_def)

lemma log_ops_append: "log_ops m ops \<Longrightarrow> qs \<noteq> [] \<Longrightarrow> log_ops (md_append OPLOG_PATH (ops_text qs) m) (ops @ qs)"
  by (auto simp: log_ops_def ops_text_append)

lemma log_ops_write [simp]: "log_ops (md_write OPLOG_PATH (ops_text ops) m) ops"
  by (simp add: log_ops_def)

text \<open>
  With a rewrite still queued the file may say anything a log can say; otherwise it is the part of
  the pending operations that the marker counts, and a write in flight is about to make it so.
\<close>

fun write_ok :: "op_log \<Rightarrow> Operation list \<Rightarrow> persist_write option \<Rightarrow> bool" where
  "write_ok l D None = (D = take (ol_persistedCount l) (ol_pendingOps l) \<and> ol_persistedCount l \<le> length (ol_pendingOps l))"
| "write_ok l D (Some (Appending delta)) =
     (D = take (ol_persistedCount l) (ol_pendingOps l) \<and> ol_persistedCount l \<le> length (ol_pendingOps l) \<and>
      prefix delta (drop (ol_persistedCount l) (ol_pendingOps l)))"
| "write_ok l D (Some (Rewriting ops)) = prefix ops (ol_pendingOps l)"

definition appending_some :: "persist_write option \<Rightarrow> bool" where
  "appending_some w = (\<forall>delta. w = Some (Appending delta) \<longrightarrow> delta \<noteq> [])"

definition queue_inv :: "op_queue \<Rightarrow> bool" where
  "queue_inv q =
     (appending_some (oq_running q) \<and>
      (\<exists>D. log_ops (ol_metadata (oq_log q)) D \<and>
         (RewriteJob \<in> set (oq_queue q) \<or> write_ok (oq_log q) D (oq_running q))))"

lemma on_log_simps [simp]:
  "oq_log (on_log f q) = f (oq_log q)" "oq_queue (on_log f q) = oq_queue q" "oq_running (on_log f q) = oq_running q"
  "oq_log (enqueuePersist j q) = oq_log q" "oq_queue (enqueuePersist j q) = oq_queue q @ [j]"
  "oq_running (enqueuePersist j q) = oq_running q"
  by (simp_all add: on_log_def enqueuePersist_def)

lemma push_simps [simp]:
  "ol_pendingOps (push_op p l) = ol_pendingOps l @ [p]" "ol_persistedCount (push_op p l) = ol_persistedCount l"
  "ol_metadata (push_op p l) = ol_metadata l" "ol_clock (push_op p l) = ol_clock l"
  by (simp_all add: push_op_def)

lemma write_ok_push: "write_ok l D w \<Longrightarrow> write_ok (push_op p l) D w"
  by (cases "(l, D, w)" rule: write_ok.cases) (auto simp: prefix_def)

lemma write_ok_None: "write_ok l D (Some (Appending delta)) \<Longrightarrow> write_ok l D None"
  by simp

lemma inv_push: "queue_inv q \<Longrightarrow> queue_inv (on_log (push_op p) q)"
  by (auto simp: queue_inv_def dest: write_ok_push)

lemma inv_append: "queue_inv q \<Longrightarrow> queue_inv (enqueuePersist AppendJob q)"
  by (auto simp: queue_inv_def)

text \<open>Whatever shrinks the pending operations enqueues a rewrite with it.\<close>

lemma inv_shrink:
  assumes "queue_inv q" and "\<And>l. ol_metadata (f l) = ol_metadata l"
  shows "queue_inv (enqueuePersist RewriteJob (on_log f q))"
  using assms by (auto simp: queue_inv_def)

lemma inv_prune: "queue_inv q \<Longrightarrow> queue_inv (q_prune i q)"
  by (auto simp: q_prune_def pruneCreateDeletePair_def queue_inv_def drop_file_def enqueuePersist_def)

lemma write_done_ok:
  assumes "write_ok l D (Some w)" and "log_ops (ol_metadata l) D" and "appending_some (Some w)"
  shows "\<exists>D'. log_ops (ol_metadata (write_done w l)) D' \<and> write_ok (write_done w l) D' None"
proof (cases w)
  case (Appending delta)
  then have d: "delta \<noteq> []" using assms(3) by (simp add: appending_some_def)
  obtain r where r: "drop (ol_persistedCount l) (ol_pendingOps l) = delta @ r"
    using assms(1) Appending by (auto simp: prefix_def)
  have D: "D = take (ol_persistedCount l) (ol_pendingOps l)" using assms(1) Appending by simp
  have all: "ol_pendingOps l = D @ delta @ r" unfolding D r [symmetric] by simp
  have len: "ol_persistedCount l = length D" using assms(1) Appending by simp
  have "log_ops (ol_metadata (write_done w l)) (D @ delta)"
    using log_ops_append [OF assms(2) d] Appending by simp
  moreover have "write_ok (write_done w l) (D @ delta) None" using Appending all len by simp
  ultimately show ?thesis by blast
next
  case (Rewriting ops)
  then obtain r where "ol_pendingOps l = ops @ r" using assms(1) by (auto simp: prefix_def)
  then have "write_ok (write_done w l) ops None" using Rewriting by simp
  moreover have "log_ops (ol_metadata (write_done w l)) ops" using Rewriting by simp
  ultimately show ?thesis by blast
qed

lemma write_done_log:
  assumes "log_ops (ol_metadata l) D" and "appending_some (Some w)"
  shows "\<exists>D'. log_ops (ol_metadata (write_done w l)) D'"
proof (cases w)
  case (Appending delta)
  then show ?thesis using assms(2) log_ops_append [OF assms(1), of delta] by (auto simp: appending_some_def)
next
  case (Rewriting ops)
  then have "log_ops (ol_metadata (write_done w l)) ops" by simp
  then show ?thesis by blast
qed

lemma inv_complete: "queue_inv q \<Longrightarrow> queue_inv (complete_job q)"
proof (cases "oq_running q")
  case (Some w)
  assume q: "queue_inv q"
  then have w: "appending_some (Some w)" by (simp add: queue_inv_def Some)
  obtain D where D: "log_ops (ol_metadata (oq_log q)) D" "RewriteJob \<in> set (oq_queue q) \<or> write_ok (oq_log q) D (Some w)"
    using q by (auto simp: queue_inv_def Some)
  have "\<exists>D'. log_ops (ol_metadata (write_done w (oq_log q))) D' \<and>
      (RewriteJob \<in> set (oq_queue q) \<or> write_ok (write_done w (oq_log q)) D' None)"
    using D(2) write_done_log [OF D(1) w] write_done_ok [OF _ D(1) w] by blast
  then show ?thesis by (simp add: queue_inv_def complete_job_def Some appending_some_def)
qed (simp add: complete_job_def)

lemma write_ok_finish [simp]: "write_ok (finishOpLog l) D w = write_ok l D w"
  by (cases "(l, D, w)" rule: write_ok.cases) simp_all

lemma inv_start: "queue_inv q \<Longrightarrow> queue_inv (start_job q)"
proof (cases "oq_running q = None \<and> oq_queue q \<noteq> []")
  case True
  then obtain j js where j: "oq_running q = None" "oq_queue q = j # js" by (cases "oq_queue q") auto
  assume "queue_inv q"
  then obtain D where D: "log_ops (ol_metadata (oq_log q)) D" "RewriteJob \<in> set (j # js) \<or> write_ok (oq_log q) D None"
    by (auto simp: queue_inv_def j)
  show ?thesis
    using D by (cases j) (auto simp: start_job_def j queue_inv_def append_begin_def rewrite_begin_def Let_def appending_some_def)
qed (auto simp: start_job_def split: option.splits list.splits)

lemma inv_fail: "queue_inv q \<Longrightarrow> oq_running q = Some (Appending delta) \<Longrightarrow> queue_inv (fail_job q)"
  by (auto simp: queue_inv_def fail_job_def appending_some_def)

lemma inv_clock: "queue_inv q \<Longrightarrow> queue_inv (on_log (\<lambda>l. l\<lparr> ol_clock := h \<rparr>) q)"
proof -
  have "write_ok (l\<lparr> ol_clock := h \<rparr>) D w = write_ok l D w" for l D w
    by (cases "(l, D, w)" rule: write_ok.cases) simp_all
  then show "queue_inv q \<Longrightarrow> ?thesis" by (simp add: queue_inv_def)
qed

lemma log_step_inv: "log_step False q r \<Longrightarrow> queue_inv q \<Longrightarrow> queue_inv r"
  by (induction rule: log_step.induct)
    (simp_all add: q_recordOp_def q_clearOps_def inv_push inv_append inv_shrink drop_all_def inv_prune inv_clock
      inv_start inv_complete inv_fail)

lemma fresh_inv: "queue_inv (fresh_queue h [])"
  by (simp add: queue_inv_def fresh_queue_def new_op_log_def log_ops_def md_read_def appending_some_def)

lemma log_reachable: "(log_step False)\<^sup>*\<^sup>* (fresh_queue h []) q \<Longrightarrow> queue_inv q"
  by (induction rule: rtranclp_induct) (auto intro: fresh_inv log_step_inv)


text \<open>
  A session starts from what the load of a journal of whole lines makes of it, repeated lines
  included: they are dropped and the file is rewritten before anything else happens.
\<close>

lemma opened_inv:
  assumes "log_ops m D" and "oplog_load (new_op_log h m) = Inr l"
  shows "queue_inv (opened_queue l)"
proof (cases "md_read m OPLOG_PATH")
  case None
  then have "l = new_op_log h m"
    using assms(2) by (auto simp: oplog_load_def new_op_log_def)
  then show ?thesis
    using None by (simp add: queue_inv_def opened_queue_def new_op_log_def log_ops_def appending_some_def)
next
  case (Some raw)
  then have raw: "md_read (ol_metadata (new_op_log h m)) OPLOG_PATH = Some (ops_text D @ [])"
    using assms(1) by (simp add: log_ops_def new_op_log_def)
  have same: "dedupeOpsById D = D" if "\<not> length (dedupeOpsById D) < length D"
    using that dedupe_subseq [of D "[]"] dedupe_length [of D "[]"] by (simp add: dedupeOpsById_def subseq_same_length)
  have "log_ops (ol_metadata l) (dedupeOpsById D) \<and> ol_pendingOps l = dedupeOpsById D \<and>
      ol_persistedCount l = length (dedupeOpsById D)"
    using oplog_text [OF raw] assms same by (auto simp: Let_def new_op_log_def split: if_splits)
  then show ?thesis by (auto simp: queue_inv_def opened_queue_def appending_some_def)
qed

section \<open>Draining the queue\<close>

lemma start_simps [simp]: "ol_pendingOps (oq_log (start_job q)) = ol_pendingOps (oq_log q)"
  by (auto simp: start_job_def split: option.splits list.splits persist_job.splits)

lemma write_done_pending [simp]: "ol_pendingOps (write_done w l) = ol_pendingOps l"
  by (cases w) simp_all

lemma complete_simps [simp]:
  "ol_pendingOps (oq_log (complete_job q)) = ol_pendingOps (oq_log q)" "oq_queue (complete_job q) = oq_queue q"
  "oq_running (complete_job q) = None"
  by (simp_all add: complete_job_def split: option.splits)

lemma start_queue: "oq_running q = None \<Longrightarrow> oq_queue q = j # js \<Longrightarrow> oq_queue (start_job q) = js"
  by (simp add: start_job_def split: persist_job.splits option.splits)

lemma run_jobs_simps [simp]: "ol_pendingOps (oq_log (run_jobs n q)) = ol_pendingOps (oq_log q)" "oq_running (run_jobs n q) = None"
  by (induction n arbitrary: q) simp_all

lemma run_jobs_queue: "length (oq_queue q) = n \<Longrightarrow> oq_queue (run_jobs n q) = []"
proof (induction n arbitrary: q)
  case (Suc n)
  then obtain j js where "oq_queue (complete_job q) = j # js" by (cases "oq_queue q") auto
  then have "oq_queue (start_job (complete_job q)) = js" by (intro start_queue) simp_all
  then show ?case using Suc \<open>oq_queue (complete_job q) = j # js\<close> by simp
qed simp

lemma run_jobs_steps: "(log_step b)\<^sup>*\<^sup>* q (run_jobs n q)"
proof (induction n arbitrary: q)
  case 0
  then show ?case by (simp add: r_into_rtranclp log_step.complete)
next
  case (Suc n)
  have "log_step b q (complete_job q)" "log_step b (complete_job q) (start_job (complete_job q))"
    by (rule log_step.complete, rule log_step.start)
  then show ?case using Suc [of "start_job (complete_job q)"] by (auto intro: converse_rtranclp_into_rtranclp)
qed

lemma log_steps_inv: "(log_step False)\<^sup>*\<^sup>* q r \<Longrightarrow> queue_inv q \<Longrightarrow> queue_inv r"
  by (induction rule: rtranclp_induct) (auto intro: log_step_inv)

lemma run_append:
  assumes "queue_inv q" and "oq_queue q = js @ [AppendJob]"
  shows "log_ops (ol_metadata (oq_log (run_jobs (Suc (length js)) q))) (ol_pendingOps (oq_log q)) \<and>
    ol_persistedCount (oq_log (run_jobs (Suc (length js)) q)) = length (ol_pendingOps (oq_log q))"
  using assms
proof (induction js arbitrary: q)
  case Nil
  let ?c = "complete_job q"
  have "queue_inv ?c" using Nil(1) by (rule inv_complete)
  then have D: "log_ops (ol_metadata (oq_log ?c)) (take (ol_persistedCount (oq_log ?c)) (ol_pendingOps (oq_log ?c)))"
    and le: "ol_persistedCount (oq_log ?c) \<le> length (ol_pendingOps (oq_log ?c))"
    using Nil(2) by (auto simp: queue_inv_def)
  show ?case
  proof (cases "drop (ol_persistedCount (oq_log ?c)) (ol_pendingOps (oq_log ?c)) = []")
    case True
    then have "append_begin (oq_log ?c) = None" by (simp add: append_begin_def)
    then have "oq_log (start_job ?c) = finishOpLog (oq_log ?c)" "oq_running (start_job ?c) = None"
      using Nil(2) by (simp_all add: start_job_def)
    then have "oq_log (complete_job (start_job ?c)) = finishOpLog (oq_log ?c)" by (simp add: complete_job_def)
    then show ?thesis using D le True by simp
  next
    case False
    let ?delta = "drop (ol_persistedCount (oq_log ?c)) (ol_pendingOps (oq_log ?c))"
    have "append_begin (oq_log ?c) = Some (Appending ?delta)" using False by (simp add: append_begin_def Let_def)
    then have "oq_log (start_job ?c) = oq_log ?c" "oq_running (start_job ?c) = Some (Appending ?delta)"
      using Nil(2) by (simp_all add: start_job_def)
    then have "oq_log (complete_job (start_job ?c)) = write_done (Appending ?delta) (oq_log ?c)"
      by (simp add: complete_job_def)
    then show ?thesis using log_ops_append [OF D False] le by simp
  qed
next
  case (Cons j js)
  let ?s = "start_job (complete_job q)"
  have "queue_inv ?s" using Cons.prems(1) by (intro inv_start inv_complete)
  moreover have "oq_queue ?s = js @ [AppendJob]" using Cons.prems(2) by (intro start_queue [of _ j]) simp_all
  ultimately show ?case using Cons.IH [of ?s] by simp
qed

lemma drain_append:
  assumes "queue_inv q"
  shows "log_ops (ol_metadata (oq_log (drain (enqueuePersist AppendJob q)))) (ol_pendingOps (oq_log q))"
    and "ol_persistedCount (oq_log (drain (enqueuePersist AppendJob q))) = length (ol_pendingOps (oq_log q))"
  using run_append [OF inv_append [OF assms], of "oq_queue q"] by (simp_all add: drain_def)

section \<open>Properties\<close>

text \<open>
  C33: In a session over a journal of whole lines, whatever was recorded, cleared, pruned or left
  waiting before and whatever appends failed: when an operation is recorded and the persists then
  queued run to their end with their writes succeeding, nothing is in flight, the journal holds
  one line for each pending operation, the new one last, and a restart loads exactly these, in
  order.  A session in which the write of a rewrite was rejected is outside the statement; see
  \<open>failed_clear_loses_later_ops\<close>.
\<close>

theorem every_op_becomes_durable:
  assumes "log_ops m D" and "oplog_load (new_op_log h m) = Inr l0"
    and "(log_step False)\<^sup>*\<^sup>* (opened_queue l0) q" and "distinct (map op_id (ol_pendingOps (oq_log q) @ [p]))"
  shows "let r = drain (q_recordOp p q)
    in oq_running r = None \<and> oq_queue r = [] \<and>
       md_read (ol_metadata (oq_log r)) OPLOG_PATH = Some (ops_text (ol_pendingOps (oq_log q) @ [p])) \<and>
       (\<exists>l. oplog_load (new_op_log h' (ol_metadata (oq_log r))) = Inr l \<and>
          ol_pendingOps l = ol_pendingOps (oq_log q) @ [p] \<and> ol_persistedCount l = length (ol_pendingOps l))"
proof -
  let ?r = "drain (q_recordOp p q)" and ?P = "ol_pendingOps (oq_log q) @ [p]"
  have "queue_inv q" by (rule log_steps_inv [OF assms(3) opened_inv [OF assms(1,2)]])
  then have "queue_inv (on_log (push_op p) q)" by (rule inv_push)
  from drain_append(1) [OF this] have D: "log_ops (ol_metadata (oq_log ?r)) ?P"
    by (simp add: q_recordOp_def)
  then have "md_read (ol_metadata (oq_log ?r)) OPLOG_PATH = Some (ops_text ?P)"
    by (auto simp: log_ops_def)
  moreover have "oq_running ?r = None" "oq_queue ?r = []"
    by (simp_all add: drain_def run_jobs_queue del: run_jobs.simps on_log_simps)
  moreover from D have "oplog_load (new_op_log h' (ol_metadata (oq_log ?r))) =
      Inr (new_op_log h' (ol_metadata (oq_log ?r))\<lparr> ol_pendingOps := ?P, ol_persistedCount := length ?P \<rparr>)"
    by (intro oplog_is assms(4)) (simp add: new_op_log_def)
  ultimately show ?thesis by (simp add: Let_def)
qed

definition sample_op :: "string \<Rightarrow> Operation" where
  "sample_op i = ops_create i (i @ ''.md'') ''h'' (HLC 1 0 i)"

definition sample_log :: op_queue where
  "sample_log = q_recordOp (sample_op ''b'') (q_recordOp (sample_op ''a'') (fresh_queue (HLC 0 0 ''d'') []))"

lemma sample_log_reachable: "(log_step False)\<^sup>*\<^sup>* (fresh_queue (HLC 0 0 ''d'') []) sample_log"
  unfolding sample_log_def
  by (rule rtranclp.rtrancl_into_rtrancl [OF rtranclp.rtrancl_into_rtrancl [OF rtranclp.rtrancl_refl]]; rule log_step.record_op)

lemma sample_log_ids: "distinct (map op_id (ol_pendingOps (oq_log sample_log)))"
  by code_simp

text \<open>A journal of an earlier session with a repeated line, and a failed append in this one.\<close>

definition sample_journal :: metadata where
  "sample_journal = [(OPLOG_PATH, ops_text [sample_op ''a'', sample_op ''b'', sample_op ''a''])]"

definition sample_opened :: op_log where
  "sample_opened = (new_op_log (HLC 0 0 ''d'') [(OPLOG_PATH, ops_text [sample_op ''a'', sample_op ''b''])])
     \<lparr> ol_pendingOps := [sample_op ''a'', sample_op ''b''], ol_persistedCount := 2 \<rparr>"

definition sample_failed :: op_queue where
  "sample_failed = fail_job (start_job (q_recordOp (sample_op ''c'') (opened_queue sample_opened)))"

lemma sample_journal_ops: "log_ops sample_journal [sample_op ''a'', sample_op ''b'', sample_op ''a'']"
  by (simp add: sample_journal_def log_ops_def md_read_def)

lemma sample_opens: "oplog_load (new_op_log (HLC 0 0 ''d'') sample_journal) = Inr sample_opened"
proof -
  have raw: "md_read (ol_metadata (new_op_log (HLC 0 0 ''d'') sample_journal)) OPLOG_PATH =
      Some (ops_text [sample_op ''a'', sample_op ''b'', sample_op ''a''] @ [])"
    by (simp add: sample_journal_def new_op_log_def md_read_def)
  have dd: "dedupeOpsById [sample_op ''a'', sample_op ''b'', sample_op ''a''] = [sample_op ''a'', sample_op ''b'']"
    by code_simp
  show ?thesis
    using oplog_text [OF raw] by (simp add: dd sample_opened_def new_op_log_def sample_journal_def md_write_def Let_def)
qed

lemma sample_failed_reachable: "(log_step False)\<^sup>*\<^sup>* (opened_queue sample_opened) sample_failed"
proof -
  let ?q = "q_recordOp (sample_op ''c'') (opened_queue sample_opened)"
  have run: "oq_running (start_job ?q) = Some (Appending [sample_op ''c''])" by code_simp
  have "(log_step False)\<^sup>*\<^sup>* (opened_queue sample_opened) (start_job ?q)"
    by (rule rtranclp.rtrancl_into_rtrancl, rule r_into_rtranclp, rule log_step.record_op, rule log_step.start)
  then show ?thesis
    unfolding sample_failed_def by (rule rtranclp.rtrancl_into_rtrancl) (rule log_step.append_failed [OF run])
qed

theorem every_op_becomes_durable_witness:
  "let r = drain (q_recordOp (sample_op ''e'') sample_failed)
   in oq_running r = None \<and> oq_queue r = [] \<and>
      md_read (ol_metadata (oq_log r)) OPLOG_PATH = Some (ops_text (ol_pendingOps (oq_log sample_failed) @ [sample_op ''e''])) \<and>
      (\<exists>l. oplog_load (new_op_log (HLC 9 0 ''d'') (ol_metadata (oq_log r))) = Inr l \<and>
         ol_pendingOps l = ol_pendingOps (oq_log sample_failed) @ [sample_op ''e''] \<and>
         ol_persistedCount l = length (ol_pendingOps l))"
proof (rule every_op_becomes_durable [OF sample_journal_ops sample_opens sample_failed_reachable])
  show "distinct (map op_id (ol_pendingOps (oq_log sample_failed) @ [sample_op ''e'']))" by code_simp
qed

lemma load_line_end:
  assumes "md_read (ol_metadata l) OPLOG_PATH = Some (ops_text ops @ op_line p)" and "distinct (map op_id (ops @ [p]))"
  shows "oplog_load l = Inr (l\<lparr> ol_pendingOps := ops @ [p], ol_persistedCount := length (ops @ [p]) \<rparr>)"
proof -
  have "splitOn LF (ops_text ops @ op_line p) = map op_line (ops @ [p]) @ []"
    by (simp add: split_ops splitOn_free op_lines.enc_line)
  moreover have "load_ops (map op_line (ops @ [p]) @ []) [] [] 0 = Inr (ops @ [p], 0)"
    using load_ops_lines [of "ops @ [p]" "[]" "[]" "[]" 0] dedupe_same [OF assms(2)] by (simp add: dedupeOpsById_def)
  ultimately show ?thesis using assms(1) by (simp add: oplog_load_def)
qed

lemma load_torn:
  assumes "log_ops m D" and "prefix t (ops_text delta)" and "distinct (map op_id (D @ delta))"
  shows "\<exists>k l. oplog_load (new_op_log h (md_append OPLOG_PATH t m)) = Inr l \<and> ol_pendingOps l = D @ take k delta"
proof -
  let ?l = "new_op_log h (md_append OPLOG_PATH t m)"
  have raw: "md_read (ol_metadata ?l) OPLOG_PATH = Some (ops_text D @ t)"
    using assms(1) by (auto simp: new_op_log_def log_ops_def)
  have dist: "distinct (map op_id (D @ take k delta))" for k
  proof -
    have "D @ delta = (D @ take k delta) @ drop k delta" by simp
    then show ?thesis using assms(3) by (metis distinct_append map_append)
  qed
  from assms(2) [unfolded ops_text_journal] show ?thesis
  proof (cases rule: prefix_journal)
    case whole
    then have "md_read (ol_metadata ?l) OPLOG_PATH = Some (ops_text (D @ delta) @ [])"
      using raw by (simp add: ops_text_append ops_text_journal)
    from oplog_text [OF this] dedupe_same [OF assms(3)]
    have "oplog_load ?l = Inr (?l\<lparr> ol_pendingOps := D @ take (length delta) delta, ol_persistedCount := length (D @ delta) \<rparr>)"
      by (simp add: Let_def)
    then show ?thesis by (intro exI [of _ "length delta"] exI conjI) (assumption, simp)
  next
    case (part k u)
    then have k: "k < length delta" "prefix u (op_line (delta ! k))" and t: "t = ops_text (take k delta) @ u"
      by (simp_all add: take_map ops_text_journal)
    have raw': "md_read (ol_metadata ?l) OPLOG_PATH = Some (ops_text (D @ take k delta) @ u)"
      using raw t by (simp add: ops_text_append)
    obtain v where v: "op_line (delta ! k) = u @ v" using k(2) by (auto simp: prefix_def)
    show ?thesis
    proof (cases "v = []")
      case True
      have split: "take (Suc k) delta = take k delta @ [delta ! k]" using k(1) by (rule take_Suc_conv_app_nth)
      have "oplog_load ?l = Inr (?l\<lparr> ol_pendingOps := (D @ take k delta) @ [delta ! k],
          ol_persistedCount := length ((D @ take k delta) @ [delta ! k]) \<rparr>)"
        using raw' dist [of "Suc k"] v True split by (intro load_line_end) simp_all
      then show ?thesis using split by (intro exI [of _ "Suc k"] exI conjI) (assumption, simp)
    next
      case False
      have "op_dec u = None \<and> LF \<notin> set u"
        using op_lines.torn [OF _ v False] op_lines.enc_line [of "delta ! k"] v by auto
      from oplog_text [OF raw' this] dedupe_same [OF dist [of k]]
      have "oplog_load ?l = Inr (?l\<lparr> ol_pendingOps := D @ take k delta, ol_persistedCount := length (D @ take k delta) \<rparr>)"
        by (simp add: Let_def)
      then show ?thesis by (intro exI conjI) (assumption, simp)
    qed
  qed
qed

text \<open>
  C34: A session starts over a journal of whole lines, records, clears, prunes and persists in any
  order, and dies while an append is in flight and no rewrite waits in the queue.  However much of
  that append reached the file, the next start loads a prefix of the pending operations that holds
  every operation the marker counts: none of them is lost, none is invented.  The statement is
  about one crash: a torn last line stays in the file and \<open>torn_tail_loses_op\<close> shows what the
  first append of the next session makes of it.
\<close>

theorem crash_keeps_persisted:
  assumes "log_ops m D" and "oplog_load (new_op_log h m) = Inr l0"
    and "(log_step False)\<^sup>*\<^sup>* (opened_queue l0) q" and "RewriteJob \<notin> set (oq_queue q)"
    and "oq_running q = Some (Appending delta)" and "prefix t (ops_text delta)"
    and "distinct (map op_id (ol_pendingOps (oq_log q)))"
  shows "\<exists>l. oplog_load (new_op_log h' (md_append OPLOG_PATH t (ol_metadata (oq_log q)))) = Inr l \<and>
    prefix (take (ol_persistedCount (oq_log q)) (ol_pendingOps (oq_log q))) (ol_pendingOps l) \<and>
    prefix (ol_pendingOps l) (ol_pendingOps (oq_log q))"
proof -
  let ?c = "ol_persistedCount (oq_log q)" and ?P = "ol_pendingOps (oq_log q)"
  have D: "log_ops (ol_metadata (oq_log q)) (take ?c ?P)" "prefix delta (drop ?c ?P)"
    using log_steps_inv [OF assms(3) opened_inv [OF assms(1,2)]] assms(4,5) by (auto simp: queue_inv_def)
  then obtain r where "drop ?c ?P = delta @ r" by (auto simp: prefix_def)
  then have P: "?P = take ?c ?P @ delta @ r" using append_take_drop_id [of ?c ?P] by simp
  have "distinct (map op_id (take ?c ?P @ delta))"
    using assms(7) by (subst (asm) P) auto
  from load_torn [OF D(1) assms(6) this] obtain k l
    where l: "oplog_load (new_op_log h' (md_append OPLOG_PATH t (ol_metadata (oq_log q)))) = Inr l"
      "ol_pendingOps l = take ?c ?P @ take k delta" by blast
  have "?P = (take ?c ?P @ take k delta) @ drop k delta @ r" by (subst P) simp
  then have "prefix (ol_pendingOps l) ?P" unfolding l(2) prefix_def by blast
  then show ?thesis using l by (intro exI [of _ l]) simp
qed

definition sample_torn :: op_queue where
  "sample_torn = start_job (q_recordOp (sample_op ''e'') sample_failed)"

lemma sample_torn_reachable: "(log_step False)\<^sup>*\<^sup>* (opened_queue sample_opened) sample_torn"
  unfolding sample_torn_def
  by (rule rtranclp.rtrancl_into_rtrancl, rule rtranclp.rtrancl_into_rtrancl, rule sample_failed_reachable,
      rule log_step.record_op, rule log_step.start)

theorem crash_keeps_persisted_witness:
  "\<exists>l. oplog_load (new_op_log (HLC 9 0 ''d'') (md_append OPLOG_PATH (take 9 (ops_text [sample_op ''c'', sample_op ''e'']))
      (ol_metadata (oq_log sample_torn)))) = Inr l \<and>
    prefix (take (ol_persistedCount (oq_log sample_torn)) (ol_pendingOps (oq_log sample_torn))) (ol_pendingOps l) \<and>
    prefix (ol_pendingOps l) (ol_pendingOps (oq_log sample_torn))"
proof (rule crash_keeps_persisted [OF sample_journal_ops sample_opens sample_torn_reachable])
  show "oq_running sample_torn = Some (Appending [sample_op ''c'', sample_op ''e''])" by code_simp
  show "RewriteJob \<notin> set (oq_queue sample_torn)" by code_simp
  show "distinct (map op_id (ol_pendingOps (oq_log sample_torn)))" by code_simp
qed (rule take_is_prefix)

text \<open>
  A journal with repeated lines, in any number and order, is healed by one load: the pending
  operations are the first line of each id, exactly what the push path's filter would keep, the
  file is rewritten to them, and a further load finds nothing to do.
\<close>

theorem load_heals_duplicates:
  assumes "md_read (ol_metadata l) OPLOG_PATH = Some (ops_text ops)"
  shows "\<exists>l1. oplog_load l = Inr l1 \<and> ol_pendingOps l1 = dedupeOpsById ops \<and>
    ol_persistedCount l1 = length (ol_pendingOps l1) \<and>
    md_read (ol_metadata l1) OPLOG_PATH = Some (ops_text (dedupeOpsById ops)) \<and> oplog_load l1 = Inr l1"
proof -
  let ?k = "dedupeOpsById ops"
  have raw: "md_read (ol_metadata l) OPLOG_PATH = Some (ops_text ops @ [])" using assms by simp
  let ?l1 = "l\<lparr> ol_pendingOps := ?k, ol_persistedCount := length ?k \<rparr>"
  let ?l2 = "if length ?k < length ops then ?l1\<lparr> ol_metadata := md_write OPLOG_PATH (ops_text ?k) (ol_metadata l) \<rparr> else ?l1"
  have load: "oplog_load l = Inr ?l2" using oplog_text [OF raw] by (simp add: Let_def)
  have dist: "distinct (map op_id ?k)" unfolding dedupeOpsById_def by (rule dedupe_distinct)
  have same: "?k = ops" if "\<not> length ?k < length ops"
    using that dedupe_subseq [of ops "[]"] dedupe_length [of ops "[]"] by (simp add: dedupeOpsById_def subseq_same_length)
  have disk: "md_read (ol_metadata ?l2) OPLOG_PATH = Some (ops_text ?k)" using assms same by auto
  then have "log_ops (ol_metadata ?l2) ?k" by (simp add: log_ops_def)
  from oplog_is [OF this dist] have "oplog_load ?l2 = Inr ?l2" by simp
  then show ?thesis using load disk by (intro exI [of _ ?l2]) simp
qed

theorem load_heals_duplicates_witness:
  "\<exists>l1. oplog_load (new_op_log (HLC 0 0 ''d'') [(OPLOG_PATH, ops_text [sample_op ''a'', sample_op ''b'', sample_op ''a''])]) = Inr l1 \<and>
    ol_pendingOps l1 = dedupeOpsById [sample_op ''a'', sample_op ''b'', sample_op ''a''] \<and>
    ol_persistedCount l1 = length (ol_pendingOps l1) \<and>
    md_read (ol_metadata l1) OPLOG_PATH = Some (ops_text (dedupeOpsById [sample_op ''a'', sample_op ''b'', sample_op ''a''])) \<and>
    oplog_load l1 = Inr l1"
  by (rule load_heals_duplicates) (simp add: new_op_log_def md_read_def)


section \<open>What can go wrong\<close>

lemma append_nothing:
  assumes "oq_running q = None" and "oq_queue q = []" and "length (ol_pendingOps (oq_log q)) < ol_persistedCount (oq_log q)"
  shows "oq_log (drain (q_recordOp p q)) = finishOpLog (push_op p (oq_log q)) \<and>
    oq_running (drain (q_recordOp p q)) = None \<and> oq_queue (drain (q_recordOp p q)) = []"
  using assms by (simp add: drain_def q_recordOp_def complete_job_def start_job_def append_begin_def)

lemma lost_ops:
  assumes "oq_running q = None" and "oq_queue q = []"
    and "length (ol_pendingOps (oq_log q)) + length ops \<le> ol_persistedCount (oq_log q)"
    and "log_ops (ol_metadata (oq_log q)) D"
  shows "let r = fold (\<lambda>p q. drain (q_recordOp p q)) ops q
    in ol_pendingOps (oq_log r) = ol_pendingOps (oq_log q) @ ops \<and> log_ops (ol_metadata (oq_log r)) D"
  using assms
proof (induction ops arbitrary: q)
  case (Cons p ops)
  let ?r = "drain (q_recordOp p q)"
  have r: "oq_log ?r = finishOpLog (push_op p (oq_log q))" "oq_running ?r = None" "oq_queue ?r = []"
    using append_nothing [OF Cons.prems(1,2), of p] Cons.prems(3) by simp_all
  have "length (ol_pendingOps (oq_log ?r)) + length ops \<le> ol_persistedCount (oq_log ?r)" "log_ops (ol_metadata (oq_log ?r)) D"
    using Cons.prems(3,4) by (simp_all add: r(1))
  from Cons.IH [OF r(2,3) this] show ?case by (simp add: r(1) Let_def)
qed simp

text \<open>
  When the write that should empty the journal is rejected, the log forgets the pending operations
  but not their count: the operations recorded next, as many as there were, are taken for written.
  They stay in memory, no persist ever writes them, and a restart loads the cleared operations
  instead.
\<close>

theorem failed_clear_loses_later_ops:
  assumes "(log_step False)\<^sup>*\<^sup>* (fresh_queue h []) q" and "distinct (map op_id (ol_pendingOps (oq_log q)))"
    and "oq_running q = None" and "oq_queue q = []"
    and "ol_persistedCount (oq_log q) = length (ol_pendingOps (oq_log q))"
    and "length ops \<le> length (ol_pendingOps (oq_log q))"
  shows "let r = fold (\<lambda>p q. drain (q_recordOp p q)) ops (fail_job (start_job (q_clearOps q)))
    in ol_pendingOps (oq_log r) = ops \<and>
       (\<exists>l. oplog_load (new_op_log h' (ol_metadata (oq_log r))) = Inr l \<and> ol_pendingOps l = ol_pendingOps (oq_log q))"
proof -
  let ?q = "fail_job (start_job (q_clearOps q))" and ?P = "ol_pendingOps (oq_log q)"
  let ?r = "fold (\<lambda>p q. drain (q_recordOp p q)) ops ?q"
  have "log_ops (ol_metadata (oq_log q)) (take (ol_persistedCount (oq_log q)) ?P)"
    using log_reachable [OF assms(1)] assms(3,4) by (auto simp: queue_inv_def)
  then have D: "log_ops (ol_metadata (oq_log q)) ?P" using assms(5) by simp
  have q: "oq_running ?q = None" "oq_queue ?q = []" "oq_log ?q = drop_all (oq_log q)"
    using assms(3,4) by (simp_all add: fail_job_def start_job_def q_clearOps_def)
  from lost_ops [of ?q ops ?P] have r: "ol_pendingOps (oq_log ?r) = ops" "log_ops (ol_metadata (oq_log ?r)) ?P"
    using D assms(5,6) by (simp_all add: q drop_all_def Let_def)
  from oplog_is [OF _ assms(2), of "new_op_log h' (ol_metadata (oq_log ?r))"] r(2)
  have "oplog_load (new_op_log h' (ol_metadata (oq_log ?r))) =
      Inr (new_op_log h' (ol_metadata (oq_log ?r))\<lparr> ol_pendingOps := ?P, ol_persistedCount := length ?P \<rparr>)"
    by (simp add: new_op_log_def)
  then show ?thesis using r(1) by (simp add: Let_def)
qed

definition saved_log :: op_queue where
  "saved_log = drain sample_log"

lemma saved_log_reachable: "(log_step False)\<^sup>*\<^sup>* (fresh_queue (HLC 0 0 ''d'') []) saved_log"
  unfolding saved_log_def drain_def by (rule rtranclp_trans [OF sample_log_reachable run_jobs_steps])

theorem failed_clear_loses_later_ops_witness:
  "let r = fold (\<lambda>p q. drain (q_recordOp p q)) [sample_op ''c''] (fail_job (start_job (q_clearOps saved_log)))
   in ol_pendingOps (oq_log r) = [sample_op ''c''] \<and>
      (\<exists>l. oplog_load (new_op_log (HLC 9 0 ''d'') (ol_metadata (oq_log r))) = Inr l \<and>
         ol_pendingOps l = ol_pendingOps (oq_log saved_log))"
proof (rule failed_clear_loses_later_ops [OF saved_log_reachable])
  show "oq_running saved_log = None" "oq_queue saved_log = []"
    unfolding saved_log_def drain_def by (simp_all add: run_jobs_queue del: run_jobs.simps)
  show "distinct (map op_id (ol_pendingOps (oq_log saved_log)))"
    unfolding saved_log_def drain_def using sample_log_ids by (simp del: run_jobs.simps)
  show "ol_persistedCount (oq_log saved_log) = length (ol_pendingOps (oq_log saved_log))" by code_simp
  show "length [sample_op ''c''] \<le> length (ol_pendingOps (oq_log saved_log))" by code_simp
qed

text \<open>
  A torn trailing line is skipped by the load but stays in the file: the first operation recorded
  after the restart continues that line and is lost at the following load.
\<close>

theorem torn_tail_loses_op:
  assumes "log_ops m D" and "distinct (map op_id D)"
  shows "\<exists>l l1. oplog_load (new_op_log h (md_append OPLOG_PATH (take 1 (op_line p)) m)) = Inr l \<and> ol_pendingOps l = D \<and>
    oplog_load (new_op_log h (ol_metadata (appendOpLogLocked (push_op r l)))) = Inr l1 \<and> ol_pendingOps l1 = D"
proof -
  let ?m = "md_append OPLOG_PATH (take 1 (op_line p)) m"
  have brace: "take 1 (op_line p) = ''{''" by (simp add: op_line_def op_json_def)
  have raw: "md_read ?m OPLOG_PATH = Some (ops_text D @ ''{'')" unfolding brace using assms(1) by (auto simp: log_ops_def)
  have torn: "op_dec ''{'' = None \<and> LF \<notin> set ''{''" by (simp add: op_dec_def json_parse_def LF_def QUOTE_def)
  let ?l = "(new_op_log h ?m)\<lparr> ol_pendingOps := D, ol_persistedCount := length D \<rparr>"
  have load: "oplog_load (new_op_log h ?m) = Inr ?l"
    using oplog_text [of "new_op_log h ?m" D "''{''"] raw torn dedupe_same [OF assms(2)] by (simp add: new_op_log_def Let_def)
  let ?n = "new_op_log h (ol_metadata (appendOpLogLocked (push_op r ?l)))"
  let ?line = "CHR ''{'' # op_line r"
  have "appendOpLogLocked (push_op r ?l) = write_done (Appending [r]) (push_op r ?l)"
    by (simp add: appendOpLogLocked_def append_begin_def push_op_def)
  then have raw2: "md_read (ol_metadata ?n) OPLOG_PATH = Some (ops_text D @ ?line @ [LF])"
    using raw by (simp add: new_op_log_def finishOpLog_def hlc_save_def ops_text_def [of "[r]"])
  have "op_dec ?line = None" by (simp only: op_dec_def op_line_def op_json_def glued_object option.map)
  moreover have "LF \<notin> set ?line" using op_lines.enc_line [of r] by (simp add: LF_def)
  then have "splitOn LF (ops_text D @ ?line @ [LF]) = map op_line D @ [?line, []]"
    using splitOn_append [of LF ?line "[]"] by (simp add: split_ops)
  moreover have "load_ops (map op_line D @ [?line, []]) [] [] 0 = Inr (D, 0)"
    using load_ops_lines [of D "[?line, []]" "[]" "[]" 0] dedupe_same [OF assms(2)] calculation(1)
    by (simp add: load_ops_torn dedupeOpsById_def)
  ultimately have "oplog_load ?n = Inr (?n\<lparr> ol_pendingOps := D, ol_persistedCount := length D \<rparr>)"
    using raw2 by (simp add: oplog_load_def)
  then show ?thesis using load by (intro exI conjI) (assumption | simp)+
qed

end
