(* ===== verification/Encryption.thy ===== *)
theory Encryption
  imports SyncErrors Encoding OpLogThms
begin

text \<open>
  The vault encryption of \<open>src/network/encryption.ts\<close>.  The primitives of WebCrypto (key
  derivation, AES-GCM, HMAC, SHA-256, the random source) and \<open>TextDecoder\<close> are parameters,
  collected in a record; a \<open>CryptoKey\<close> is its key bytes.  The n-th nonce is an argument of the
  operations that draw one.  The laws the code relies on are those of authenticated encryption:
  a sealed text opens under its own key, and under no other.
\<close>

record webcrypto =
  wc_pbkdf2 :: "bytes \<Rightarrow> bytes \<Rightarrow> nat \<Rightarrow> nat \<Rightarrow> bytes"
  wc_hkdf :: "bytes \<Rightarrow> bytes \<Rightarrow> bytes \<Rightarrow> nat \<Rightarrow> bytes"
  wc_encrypt :: "bytes \<Rightarrow> bytes \<Rightarrow> bytes \<Rightarrow> bytes"
  wc_decrypt :: "bytes \<Rightarrow> bytes \<Rightarrow> bytes \<Rightarrow> bytes option"
  wc_hmac :: "bytes \<Rightarrow> bytes \<Rightarrow> bytes"
  wc_sha256 :: "bytes \<Rightarrow> bytes"
  wc_random :: "nat \<Rightarrow> nat \<Rightarrow> bytes"
  wc_decode :: "bytes \<Rightarrow> string"

definition PBKDF2_ITERATIONS :: nat where "PBKDF2_ITERATIONS = 210000"
definition HKDF_INFO_ENC :: string where "HKDF_INFO_ENC = ''obsidian-vault-sync:enc:v1''"
definition HKDF_INFO_BLIND :: string where "HKDF_INFO_BLIND = ''obsidian-vault-sync:blind:v1''"
definition HKDF_INFO_VERIFY :: string where "HKDF_INFO_VERIFY = ''obsidian-vault-sync:verify:v1''"
definition GCM_NONCE_BYTES :: nat where "GCM_NONCE_BYTES = 12"

record vault_crypto =
  vc_encKey :: "bytes option"
  vc_blindKey :: "bytes option"
  vc_verifyTag :: "string option"

definition new_crypto :: vault_crypto where
  "new_crypto = \<lparr> vc_encKey = None, vc_blindKey = None, vc_verifyTag = None \<rparr>"

section \<open>Keys\<close>

definition deriveFromPassphrase :: "webcrypto \<Rightarrow> string \<Rightarrow> bytes \<Rightarrow> vault_crypto \<Rightarrow> vault_crypto" where
  "deriveFromPassphrase w passphrase salt c =
     (let masterBits = wc_pbkdf2 w (utf8_encode passphrase) salt PBKDF2_ITERATIONS 256
      in c\<lparr> vc_encKey := Some (wc_hkdf w masterBits [] (utf8_encode HKDF_INFO_ENC) 256),
            vc_blindKey := Some (wc_hkdf w masterBits [] (utf8_encode HKDF_INFO_BLIND) 512),
            vc_verifyTag := Some (bytesToBase64 (wc_hkdf w masterBits [] (utf8_encode HKDF_INFO_VERIFY) 128)) \<rparr>)"

definition saltForVault :: "webcrypto \<Rightarrow> string \<Rightarrow> bytes" where
  "saltForVault w vaultId = wc_sha256 w (utf8_encode (''vault-sync:salt:'' @ vaultId))"

definition isReady :: "vault_crypto \<Rightarrow> bool" where
  "isReady c = (vc_encKey c \<noteq> None \<and> vc_blindKey c \<noteq> None)"

definition no_key :: sync_error where
  "no_key = OtherError ''No vault key derived''"

text \<open>The empty tag counts as none, like any falsy string.\<close>

definition verify_tag :: "vault_crypto \<Rightarrow> sync_error + string" where
  "verify_tag c = (case vc_verifyTag c of None \<Rightarrow> Inl no_key | Some t \<Rightarrow> if t = [] then Inl no_key else Inr t)"

definition fingerprint :: "vault_crypto \<Rightarrow> sync_error + string" where
  "fingerprint c = (case verify_tag c of Inl e \<Rightarrow> Inl e | Inr t \<Rightarrow> Inr (take 12 t))"

section \<open>Sealing\<close>

definition seal :: "webcrypto \<Rightarrow> vault_crypto \<Rightarrow> nat \<Rightarrow> bytes \<Rightarrow> sync_error + bytes" where
  "seal w c n plaintext =
     (case vc_encKey c of
        None \<Rightarrow> Inl no_key
      | Some k \<Rightarrow>
          (let nonce = wc_random w GCM_NONCE_BYTES n
           in Inr (nonce @ wc_encrypt w k nonce plaintext)))"

text \<open>The rejection of \<open>subtle.decrypt\<close> is an \<open>OperationError\<close> without a message.\<close>

definition open_envelope :: "webcrypto \<Rightarrow> vault_crypto \<Rightarrow> bytes \<Rightarrow> sync_error + bytes" where
  "open_envelope w c envelope =
     (case vc_encKey c of
        None \<Rightarrow> Inl no_key
      | Some k \<Rightarrow>
          (case wc_decrypt w k (take GCM_NONCE_BYTES envelope) (drop GCM_NONCE_BYTES envelope) of
             None \<Rightarrow> Inl (OtherError '''')
           | Some pt \<Rightarrow> Inr pt))"

definition encryptOp :: "webcrypto \<Rightarrow> vault_crypto \<Rightarrow> nat \<Rightarrow> Operation \<Rightarrow> sync_error + string" where
  "encryptOp w c n op =
     (case seal w c n (utf8_encode (op_line op)) of Inl e \<Rightarrow> Inl e | Inr b \<Rightarrow> Inr (bytesToBase64 b))"

definition decryptOp :: "webcrypto \<Rightarrow> vault_crypto \<Rightarrow> string \<Rightarrow> sync_error + Operation" where
  "decryptOp w c ciphertextBase64 =
     (case base64ToBytes ciphertextBase64 of
        None \<Rightarrow> Inl (OtherError ''InvalidCharacterError'')
      | Some envelope \<Rightarrow>
          (case open_envelope w c envelope of
             Inl e \<Rightarrow> Inl e
           | Inr plaintext \<Rightarrow>
               (case json_parse (wc_decode w plaintext) of
                  None \<Rightarrow> Inl (OtherError ''SyntaxError'')
                | Some v \<Rightarrow> Inr (op_of_json v))))"

definition encryptBlob :: "webcrypto \<Rightarrow> vault_crypto \<Rightarrow> nat \<Rightarrow> bytes \<Rightarrow> sync_error + bytes" where
  "encryptBlob w c n content = seal w c n content"

definition decryptBlob :: "webcrypto \<Rightarrow> vault_crypto \<Rightarrow> bytes \<Rightarrow> sync_error + bytes" where
  "decryptBlob w c envelope = open_envelope w c envelope"

definition blindHash :: "webcrypto \<Rightarrow> vault_crypto \<Rightarrow> string \<Rightarrow> sync_error + string" where
  "blindHash w c rawHashHex =
     (case vc_blindKey c of
        None \<Rightarrow> Inl no_key
      | Some k \<Rightarrow> Inr (to_hex (wc_hmac w k (utf8_encode rawHashHex))))"

section \<open>The key-check record\<close>

definition buildKeyCheck :: "webcrypto \<Rightarrow> vault_crypto \<Rightarrow> nat \<Rightarrow> sync_error + bytes" where
  "buildKeyCheck w c n =
     (case verify_tag c of
        Inl e \<Rightarrow> Inl e
      | Inr tag \<Rightarrow> seal w c n (utf8_encode (json_show (JObj [(''v'', JNum 1), (''tag'', JStr tag)]))))"

text \<open>A body that is \<open>null\<close> makes the member access throw, which counts as a failed check.\<close>

definition verifyKeyCheck :: "webcrypto \<Rightarrow> vault_crypto \<Rightarrow> bytes \<Rightarrow> sync_error + bool" where
  "verifyKeyCheck w c envelope =
     (case verify_tag c of
        Inl e \<Rightarrow> Inl e
      | Inr tag \<Rightarrow>
          (case open_envelope w c envelope of
             Inl e \<Rightarrow> Inr False
           | Inr plaintext \<Rightarrow>
               (case json_parse (wc_decode w plaintext) of
                  None \<Rightarrow> Inr False
                | Some v \<Rightarrow> Inr (jfield v ''tag'' = Some (JStr tag)))))"

section \<open>Injective encodings\<close>

lemma hex_digit_inj: "d < 16 \<Longrightarrow> e < 16 \<Longrightarrow> hex_digit d = hex_digit e \<longleftrightarrow> d = e"
  by (metis hex_val_digit)

lemma hex_zero: "CHR ''0'' = hex_digit 0"
  by code_simp

lemma hex_byte_eq: "hex_byte b = [hex_digit (unat b div 16), hex_digit (unat b mod 16)]"
  by (simp add: hex_byte_def Let_def padStart_def hex_zero)

lemma byte_less: "unat (b :: byte) < 256"
  using unsigned_less [of b] by simp

lemma hex_byte_inj: "hex_byte b = hex_byte c \<longleftrightarrow> b = c"
proof
  assume h: "hex_byte b = hex_byte c"
  have "unat x div 16 < 16" for x :: byte using byte_less [of x] by simp
  then have "unat b div 16 = unat c div 16" "unat b mod 16 = unat c mod 16" using h by (simp_all add: hex_byte_eq hex_digit_inj)
  then have "unat b = unat c" by (metis div_mult_mod_eq)
  then show "b = c" by (simp add: word_unat_eq_iff)
qed simp

lemma to_hex_inj: "to_hex x = to_hex y \<longleftrightarrow> x = y"
proof
  show "to_hex x = to_hex y \<Longrightarrow> x = y"
  proof (induction x arbitrary: y)
    case Nil
    then show ?case by (cases y) (simp_all add: to_hex_def hex_byte_eq)
  next
    case (Cons b x)
    then obtain c z where y: "y = c # z" by (cases y) (auto simp: to_hex_def hex_byte_eq)
    have "hex_byte b @ to_hex x = hex_byte c @ to_hex z" using Cons.prems by (simp add: y to_hex_def)
    then have "hex_byte b = hex_byte c" "to_hex x = to_hex z" by (simp_all add: hex_byte_eq)
    then show ?case using Cons.IH by (simp add: y hex_byte_inj)
  qed
qed simp

lemma utf8_units_fit: "(x :: nat) < 256 \<Longrightarrow> 192 + x div 64 < 256 \<and> 128 + x mod 64 < 256"
  by auto

lemma utf8_unit_codes:
  "map unat (utf8_unit c) = (if (of_char c :: nat) < 128 then [of_char c] else [192 + of_char c div 64, 128 + of_char c mod 64])"
  using utf8_units_fit [OF nat_of_char_less_256, of c]
  by (simp add: utf8_unit_def Let_def unat_of_nat del: of_nat_add)

lemma map_unat_inj: "map unat (x :: bytes) = map unat y \<longleftrightarrow> x = y"
  by (rule inj_map_eq_map) (simp add: inj_def word_unat_eq_iff)

lemma utf8_inj: "utf8_encode s = utf8_encode t \<longleftrightarrow> s = t"
proof
  show "utf8_encode s = utf8_encode t \<Longrightarrow> s = t"
  proof (induction s arbitrary: t)
    case Nil
    then show ?case by (cases t) (auto simp: utf8_encode_def utf8_unit_def Let_def split: if_splits)
  next
    case (Cons c s)
    then obtain d u where t: "t = d # u" by (cases t) (auto simp: utf8_encode_def utf8_unit_def Let_def split: if_splits)
    have "map unat (utf8_unit c) @ map unat (utf8_encode s) = map unat (utf8_unit d) @ map unat (utf8_encode u)"
      using Cons.prems by (metis list.simps(9) map_append t utf8_encode_def concat.simps(2))
    then have "(of_char c :: nat) = of_char d \<and> map unat (utf8_encode s) = map unat (utf8_encode u)"
      unfolding utf8_unit_codes by (auto split: if_splits) (metis div_mult_mod_eq of_char_eq_iff)+
    moreover from this have "utf8_encode s = utf8_encode u" by (simp add: map_unat_inj)
    ultimately show ?case using Cons.IH by (auto simp: t)
  qed
qed simp

section \<open>Laws\<close>

text \<open>
  What AES-GCM and the codecs promise: an envelope opens under the key that sealed it and under no
  other, a nonce has the length asked for, and decoding undoes encoding of the texts at hand.
\<close>

definition aead :: "webcrypto \<Rightarrow> bool" where
  "aead w =
     ((\<forall>k n p. wc_decrypt w k n (wc_encrypt w k n p) = Some p) \<and>
      (\<forall>k k' n p. k' \<noteq> k \<longrightarrow> wc_decrypt w k' n (wc_encrypt w k n p) = None) \<and>
      (\<forall>m n. length (wc_random w m n) = m))"

definition decodes :: "webcrypto \<Rightarrow> string \<Rightarrow> bool" where
  "decodes w s = (wc_decode w (utf8_encode s) = s)"

lemma open_seal:
  assumes "aead w" and "seal w c n p = Inr e"
  shows "open_envelope w c e = Inr p"
  using assms by (auto simp: seal_def open_envelope_def aead_def Let_def split: option.splits)

lemma open_other:
  assumes "aead w" and "seal w c n p = Inr e" and "vc_encKey c' = Some k'" and "vc_encKey c' \<noteq> vc_encKey c"
  shows "\<exists>x. open_envelope w c' e = Inl x"
  using assms by (auto simp: seal_def open_envelope_def aead_def Let_def split: option.splits)

lemma seal_ready: "isReady c \<Longrightarrow> \<exists>e. seal w c n p = Inr e"
  by (auto simp: seal_def isReady_def Let_def)

lemma blob_roundtrip: "aead w \<Longrightarrow> encryptBlob w c n b = Inr e \<Longrightarrow> decryptBlob w c e = Inr b"
  by (simp add: encryptBlob_def decryptBlob_def open_seal)

text \<open>What the op envelope of one device holds, every device with the same key reads back.\<close>

theorem op_envelope_roundtrip:
  assumes "aead w" and "isReady c" and "decodes w (op_line p)"
  shows "\<exists>t. encryptOp w c n p = Inr t \<and> decryptOp w c t = Inr p"
proof -
  obtain e where e: "seal w c n (utf8_encode (op_line p)) = Inr e" using seal_ready [OF assms(2)] by blast
  have "json_parse (wc_decode w (utf8_encode (op_line p))) = Some (op_json p)"
    using assms(3) by (simp add: decodes_def op_line_def del: json_show.simps)
  then show ?thesis using e open_seal [OF assms(1) e] by (simp add: encryptOp_def decryptOp_def)
qed

text \<open>
  The key check accepts the record of a device exactly when both have the same encryption key and
  the same tag, and never throws on a ready device.
\<close>

theorem keycheck_agreement:
  assumes "aead w" and "buildKeyCheck w c n = Inr e" and "vc_encKey c' = Some k" and "verify_tag c' = Inr t"
    and "decodes w (json_show (JObj [(''v'', JNum 1), (''tag'', JStr (the (vc_verifyTag c)))]))"
  shows "verifyKeyCheck w c' e = Inr (vc_encKey c' = vc_encKey c \<and> vc_verifyTag c' = vc_verifyTag c)"
proof -
  obtain tag where tag: "verify_tag c = Inr tag" "vc_verifyTag c = Some tag"
    and s: "seal w c n (utf8_encode (json_show (JObj [(''v'', JNum 1), (''tag'', JStr tag)]))) = Inr e"
    using assms(2) by (auto simp: buildKeyCheck_def verify_tag_def split: sum.splits option.splits if_splits)
  have t: "vc_verifyTag c' = Some t" using assms(4) by (auto simp: verify_tag_def split: option.splits if_splits)
  show ?thesis
  proof (cases "vc_encKey c' = vc_encKey c")
    case True
    then have "open_envelope w c' e = open_envelope w c e" by (simp add: open_envelope_def)
    then have "open_envelope w c' e = Inr (utf8_encode (json_show (JObj [(''v'', JNum 1), (''tag'', JStr tag)])))"
      using open_seal [OF assms(1) s] by simp
    then show ?thesis using True assms(4,5) tag t
      by (auto simp: verifyKeyCheck_def decodes_def jfield_def simp del: json_show.simps)
  next
    case False
    then show ?thesis using open_other [OF assms(1) s assms(3)] assms(4) by (auto simp: verifyKeyCheck_def)
  qed
qed

end
