(* ===== verification/ServerApi.thy ===== *)
theory ServerApi
  imports Encryption
begin

text \<open>
  The wire of a sync round (the \<open>ServerApi\<close> interface of \<open>src/network/server-sync.ts\<close>) as a
  record of steps over the state of whatever answers, the contract that a transfer relies on as a
  locale, and the in-memory server of \<open>src/network/fake-server.ts\<close>, which keeps it.
\<close>

section \<open>The wire\<close>

record op_record =
  or_seq :: nat
  or_deviceId :: string
  or_ts :: nat
  or_ciphertext :: string
  or_blobRefs :: "string list"

record pull_result =
  pr_ops :: "op_record list"
  pr_nextCursor :: nat
  pr_hasMore :: bool

record append_op =
  ao_clientOpId :: string
  ao_ciphertext :: string
  ao_blobRefs :: "string list"

record append_result =
  ar_assigned :: "(string \<times> nat) list"
  ar_headCursor :: nat

record 's server_api =
  api_pullOps :: "nat \<Rightarrow> nat \<Rightarrow> ('s, pull_result) act"
  api_appendOps :: "nat \<Rightarrow> append_op list \<Rightarrow> ('s, append_result) act"
  api_checkBlobs :: "string list \<Rightarrow> ('s, string list) act"
  api_putBlobBatch :: "(string \<times> bytes) list \<Rightarrow> ('s, unit) act"
  api_putBlob :: "string \<Rightarrow> bytes \<Rightarrow> ('s, unit) act"
  api_getBlob :: "string \<Rightarrow> ('s, bytes option) act"
  api_getBlobBatch :: "string list \<Rightarrow> ('s, (string, bytes) jsmap \<times> string list) act"
  api_preflight :: "string \<Rightarrow> ('s, bool \<times> bytes option) act"

section \<open>The in-memory server\<close>

definition KEYCHECK_INLINE_CAP :: nat where "KEYCHECK_INLINE_CAP = 64 * 1024"

record fake_server =
  fk_log :: "op_record list"
  fk_blobs :: "(string, bytes) jsmap"
  fk_byClientOpId :: "(string, nat) jsmap"
  fk_seq :: nat
  fk_claimed :: bool

definition new_fake_server :: fake_server where
  "new_fake_server = \<lparr> fk_log = [], fk_blobs = [], fk_byClientOpId = [], fk_seq = 0, fk_claimed = False \<rparr>"

definition claim :: "fake_server \<Rightarrow> fake_server" where
  "claim f = f\<lparr> fk_claimed := True \<rparr>"

text \<open>What a page of the log holds.\<close>

definition log_page :: "op_record list \<Rightarrow> nat \<Rightarrow> nat \<Rightarrow> pull_result" where
  "log_page rs since limit =
     (let after = filter (\<lambda>r. since < or_seq r) rs;
          ops = take limit after;
          last_seq = (if ops \<noteq> [] then or_seq (last ops) else since)
      in \<lparr> pr_ops = ops, pr_nextCursor = last_seq, pr_hasMore = length ops < length after \<rparr>)"

definition fake_pullOps :: "nat \<Rightarrow> nat \<Rightarrow> (fake_server, pull_result) act" where
  "fake_pullOps since limit f = (claim f, Inr (log_page (fk_log f) since limit))"

fun missing_ref :: "(string, bytes) jsmap \<Rightarrow> string list \<Rightarrow> string option" where
  "missing_ref blobs [] = None"
| "missing_ref blobs (r # rs) = (if jm_has blobs r then missing_ref blobs rs else Some r)"

definition append_one :: "append_op \<Rightarrow> (string \<times> nat) list \<Rightarrow> (fake_server, (string \<times> nat) list) act" where
  "append_one op assigned f =
     (case jm_get (fk_byClientOpId f) (ao_clientOpId op) of
        Some prior \<Rightarrow> (f, Inr (assigned @ [(ao_clientOpId op, prior)]))
      | None \<Rightarrow>
          (case missing_ref (fk_blobs f) (ao_blobRefs op) of
             Some r \<Rightarrow> (f, Inl (MissingBlobError r))
           | None \<Rightarrow>
               (let seq = fk_seq f + 1
                in (f\<lparr> fk_seq := seq,
                       fk_log := fk_log f @ [\<lparr> or_seq = seq, or_deviceId = [], or_ts = 0,
                                               or_ciphertext = ao_ciphertext op, or_blobRefs = ao_blobRefs op \<rparr>],
                       fk_byClientOpId := jm_set (ao_clientOpId op) seq (fk_byClientOpId f) \<rparr>,
                    Inr (assigned @ [(ao_clientOpId op, seq)])))))"

definition fake_appendOps :: "nat \<Rightarrow> append_op list \<Rightarrow> (fake_server, append_result) act" where
  "fake_appendOps baseCursor ops f =
     (case iterE append_one ops [] (claim f) of
        (f1, Inl e) \<Rightarrow> (f1, Inl e)
      | (f1, Inr assigned) \<Rightarrow> (f1, Inr \<lparr> ar_assigned = assigned, ar_headCursor = fk_seq f1 \<rparr>))"

definition fake_checkBlobs :: "string list \<Rightarrow> (fake_server, string list) act" where
  "fake_checkBlobs hashes f = (claim f, Inr (filter (\<lambda>h. \<not> jm_has (fk_blobs f) h) hashes))"

definition put_blob :: "string \<times> bytes \<Rightarrow> fake_server \<Rightarrow> fake_server" where
  "put_blob b f = (if jm_has (fk_blobs f) (fst b) then f else f\<lparr> fk_blobs := jm_set (fst b) (snd b) (fk_blobs f) \<rparr>)"

definition fake_putBlob :: "string \<Rightarrow> bytes \<Rightarrow> (fake_server, unit) act" where
  "fake_putBlob hash content f = (put_blob (hash, content) (claim f), Inr ())"

definition fake_putBlobBatch :: "(string \<times> bytes) list \<Rightarrow> (fake_server, unit) act" where
  "fake_putBlobBatch blobs f = (fold put_blob blobs (claim f), Inr ())"

definition fake_getBlob :: "string \<Rightarrow> (fake_server, bytes option) act" where
  "fake_getBlob hash f = (claim f, Inr (jm_get (fk_blobs f) hash))"

definition get_step :: "(string, bytes) jsmap \<Rightarrow> string \<Rightarrow> (string, bytes) jsmap \<times> string list \<Rightarrow> (string, bytes) jsmap \<times> string list" where
  "get_step held hash = (\<lambda>(blobs, missing).
     (case jm_get held hash of
        Some content \<Rightarrow> (jm_set hash content blobs, missing)
      | None \<Rightarrow> (blobs, missing @ [hash])))"

definition fake_getBlobBatch :: "string list \<Rightarrow> (fake_server, (string, bytes) jsmap \<times> string list) act" where
  "fake_getBlobBatch hashes f = (claim f, Inr (fold (get_step (fk_blobs f)) hashes ([], [])))"

definition fake_preflight :: "string \<Rightarrow> (fake_server, bool \<times> bytes option) act" where
  "fake_preflight keyCheckKey f =
     (if \<not> fk_claimed f then (f, Inr (False, None))
      else
        (let rec = (if keyCheckKey \<noteq> [] then jm_get (fk_blobs f) keyCheckKey else None)
         in (f, Inr (True, case rec of
                            Some b \<Rightarrow> if length b \<le> KEYCHECK_INLINE_CAP then Some b else None
                          | None \<Rightarrow> None))))"

definition fake_api :: "fake_server server_api" where
  "fake_api =
     \<lparr> api_pullOps = fake_pullOps, api_appendOps = fake_appendOps, api_checkBlobs = fake_checkBlobs,
       api_putBlobBatch = fake_putBlobBatch, api_putBlob = fake_putBlob, api_getBlob = fake_getBlob,
       api_getBlobBatch = fake_getBlobBatch, api_preflight = fake_preflight \<rparr>"

section \<open>Its invariant\<close>

text \<open>
  The log is numbered from one without gaps, every numbered operation was appended under one client
  id, and the blobs an operation refers to are held.
\<close>

definition fake_inv :: "fake_server \<Rightarrow> bool" where
  "fake_inv f =
     (map or_seq (fk_log f) = [1..<Suc (fk_seq f)] \<and>
      (\<forall>r \<in> set (fk_log f). \<forall>h \<in> set (or_blobRefs r). jm_has (fk_blobs f) h) \<and>
      (\<forall>i n. jm_get (fk_byClientOpId f) i = Some n \<longrightarrow> 1 \<le> n \<and> n \<le> fk_seq f))"

lemma fake_new_inv: "fake_inv new_fake_server"
  by (simp add: fake_inv_def new_fake_server_def)

lemma claim_simps [simp]:
  "fk_log (claim f) = fk_log f" "fk_blobs (claim f) = fk_blobs f" "fk_byClientOpId (claim f) = fk_byClientOpId f"
  "fk_seq (claim f) = fk_seq f" "fk_claimed (claim f)"
  by (simp_all add: claim_def)

lemma claim_claim [simp]: "claim (claim f) = claim f"
  by (simp add: claim_def)

lemma claim_inv [simp]: "fake_inv (claim f) = fake_inv f"
  by (simp add: fake_inv_def)

lemma missing_ref_None: "missing_ref m rs = None \<longleftrightarrow> (\<forall>r \<in> set rs. jm_has m r)"
  by (induction rs) auto

lemma jm_has_set [simp]: "jm_has (jm_set k v m) h \<longleftrightarrow> h = k \<or> jm_has m h"
  by (auto simp: jm_has_def)

lemma put_blob_simps [simp]:
  "fk_log (put_blob b f) = fk_log f" "fk_byClientOpId (put_blob b f) = fk_byClientOpId f" "fk_seq (put_blob b f) = fk_seq f"
  "fk_claimed (put_blob b f) = fk_claimed f"
  by (simp_all add: put_blob_def)

lemma put_blob_get:
  "jm_get (fk_blobs (put_blob b f)) h =
     (case jm_get (fk_blobs f) h of Some x \<Rightarrow> Some x | None \<Rightarrow> if h = fst b then Some (snd b) else None)"
  by (auto simp: put_blob_def jm_has_def split: option.splits)

lemma put_blob_inv: "fake_inv f \<Longrightarrow> fake_inv (put_blob b f)"
  by (auto simp: fake_inv_def put_blob_def)

lemma put_blobs_simps [simp]:
  "fk_log (fold put_blob bs f) = fk_log f" "fk_byClientOpId (fold put_blob bs f) = fk_byClientOpId f"
  "fk_seq (fold put_blob bs f) = fk_seq f"
  by (induction bs arbitrary: f) simp_all

lemma put_blobs_get:
  "jm_get (fk_blobs (fold put_blob bs f)) h =
     (case jm_get (fk_blobs f) h of Some x \<Rightarrow> Some x | None \<Rightarrow> map_of bs h)"
  by (induction bs arbitrary: f) (auto simp: put_blob_get split: option.splits)

lemma put_blobs_inv: "fake_inv f \<Longrightarrow> fake_inv (fold put_blob bs f)"
  by (induction bs arbitrary: f) (simp_all add: put_blob_inv)

lemma append_one_inv:
  assumes "fake_inv f"
  shows "fake_inv (fst (append_one op a f))"
proof (cases "jm_get (fk_byClientOpId f) (ao_clientOpId op)")
  case None
  then show ?thesis using assms missing_ref_None [of "fk_blobs f" "ao_blobRefs op"]
    by (cases "missing_ref (fk_blobs f) (ao_blobRefs op)")
      (auto simp: append_one_def fake_inv_def Let_def le_Suc_eq)
qed (simp add: append_one_def assms)

lemma append_all_inv: "fake_inv f \<Longrightarrow> fake_inv (fst (iterE append_one ops a f))"
  using keepsE_iter [of fake_inv append_one ops a] append_one_inv by (simp add: keepsE_def)

end
