(* ===== verification/SyncTransfer.thy ===== *)
theory SyncTransfer
  imports ServerApi StateMerge
begin

text \<open>
  The transfer half of \<open>src/network/server-sync.ts\<close>: the client with its options, the preflight
  gate and its retries, the pull loop, the download and the upload of blobs, the append with its
  bounded recovery from a stale cursor, and the pure helpers.  The workers of a bounded pool run
  their units here one after the other in the order of the list.  The pull loop ends only when the
  server says so; it runs on fuel, and \<open>out_of_fuel\<close> stands for a loop that is still running.
  The cancellation signal is read at the n-th check, progress labels and timings are left out.
\<close>

section \<open>The client\<close>

record 's client_env =
  ce_api :: "'s server_api"
  ce_web :: webcrypto
  ce_crypto :: vault_crypto
  ce_opsLimit :: nat
  ce_maxOpsPerAppend :: nat
  ce_blobBatchMaxCount :: nat
  ce_blobBatchMaxBytes :: nat
  ce_blobBatchThreshold :: nat
  ce_preflightRetryDelaysMs :: "nat list"
  ce_cancelled :: "nat \<Rightarrow> bool"
  ce_fuel :: nat

record 's client =
  cl_server :: 's
  cl_checks :: nat
  cl_nonces :: nat
  cl_waited :: nat

definition DEFAULT_PREFLIGHT_RETRY_DELAYS_MS :: "nat list" where "DEFAULT_PREFLIGHT_RETRY_DELAYS_MS = [0, 500, 1000]"
definition DEFAULT_OPS_LIMIT :: nat where "DEFAULT_OPS_LIMIT = 2000"
definition DEFAULT_MAX_OPS_PER_APPEND :: nat where "DEFAULT_MAX_OPS_PER_APPEND = 1000"
definition DEFAULT_BLOB_BATCH_MAX_COUNT :: nat where "DEFAULT_BLOB_BATCH_MAX_COUNT = 256"
definition DEFAULT_BLOB_BATCH_MAX_BYTES :: nat where "DEFAULT_BLOB_BATCH_MAX_BYTES = 16 * 1024 * 1024"
definition DEFAULT_BLOB_BATCH_THRESHOLD :: nat where "DEFAULT_BLOB_BATCH_THRESHOLD = 512 * 1024"
definition MAX_STALE_APPEND_RETRIES :: nat where "MAX_STALE_APPEND_RETRIES = 3"

record sync_options =
  so_opsLimit :: "nat option"
  so_maxOpsPerAppend :: "nat option"
  so_blobBatchMaxCount :: "nat option"
  so_blobBatchMaxBytes :: "nat option"
  so_blobBatchThreshold :: "nat option"
  so_preflightRetryDelaysMs :: "nat list option"

definition or_default :: "'a option \<Rightarrow> 'a \<Rightarrow> 'a" where
  "or_default x d = (case x of None \<Rightarrow> d | Some v \<Rightarrow> v)"

definition new_client_env ::
  "'s server_api \<Rightarrow> webcrypto \<Rightarrow> vault_crypto \<Rightarrow> sync_options \<Rightarrow> (nat \<Rightarrow> bool) \<Rightarrow> nat \<Rightarrow> 's client_env" where
  "new_client_env api w c opts cancelled fuel =
     \<lparr> ce_api = api, ce_web = w, ce_crypto = c,
       ce_opsLimit = or_default (so_opsLimit opts) DEFAULT_OPS_LIMIT,
       ce_maxOpsPerAppend = max 1 (or_default (so_maxOpsPerAppend opts) DEFAULT_MAX_OPS_PER_APPEND),
       ce_blobBatchMaxCount = max 1 (or_default (so_blobBatchMaxCount opts) DEFAULT_BLOB_BATCH_MAX_COUNT),
       ce_blobBatchMaxBytes = max 1 (or_default (so_blobBatchMaxBytes opts) DEFAULT_BLOB_BATCH_MAX_BYTES),
       ce_blobBatchThreshold = max 0 (or_default (so_blobBatchThreshold opts) DEFAULT_BLOB_BATCH_THRESHOLD),
       ce_preflightRetryDelaysMs =
         (case so_preflightRetryDelaysMs opts of
            Some ds \<Rightarrow> if length ds > 0 then ds else DEFAULT_PREFLIGHT_RETRY_DELAYS_MS
          | None \<Rightarrow> DEFAULT_PREFLIGHT_RETRY_DELAYS_MS),
       ce_cancelled = cancelled, ce_fuel = fuel \<rparr>"

definition new_client :: "'s \<Rightarrow> 's client" where
  "new_client s = \<lparr> cl_server = s, cl_checks = 0, cl_nonces = 0, cl_waited = 0 \<rparr>"

definition on_server :: "('s, 'a) act \<Rightarrow> ('s client, 'a) act" where
  "on_server m c = (case m (cl_server c) of (s, r) \<Rightarrow> (c\<lparr> cl_server := s \<rparr>, r))"

text \<open>\<open>cancelToken?.throwIfCancelled()\<close>.\<close>

definition check_cancel :: "'s client_env \<Rightarrow> ('s client, unit) act" where
  "check_cancel env c = (c\<lparr> cl_checks := cl_checks c + 1 \<rparr>, throwIfCancelled \<lparr> ct_cancelled = ce_cancelled env (cl_checks c) \<rparr>)"

definition with_nonce :: "(nat \<Rightarrow> sync_error + 'a) \<Rightarrow> ('s client, 'a) act" where
  "with_nonce f c = (c\<lparr> cl_nonces := cl_nonces c + 1 \<rparr>, f (cl_nonces c))"

definition out_of_fuel :: sync_error where "out_of_fuel = OtherError ''out of fuel''"
definition type_error :: sync_error where "type_error = OtherError ''TypeError''"

section \<open>The preflight gate\<close>

definition sha256Hex :: "webcrypto \<Rightarrow> bytes \<Rightarrow> string" where
  "sha256Hex w content = to_hex (wc_sha256 w content)"

definition keyCheckBlobKey :: "webcrypto \<Rightarrow> string" where
  "keyCheckBlobKey w = sha256Hex w (utf8_encode ''vault-sync:keycheck:v1'')"

definition sleep :: "nat \<Rightarrow> ('s client, unit) act" where
  "sleep ms c = (c\<lparr> cl_waited := cl_waited c + ms \<rparr>, Inr ())"

fun preflight_loop :: "'s client_env \<Rightarrow> string \<Rightarrow> nat list \<Rightarrow> sync_error \<Rightarrow> ('s client, bool \<times> bytes option) act" where
  "preflight_loop env key [] lastError = throwE lastError"
| "preflight_loop env key (waitMs # ws) lastError =
     bindE (check_cancel env) (\<lambda>_.
     bindE (if waitMs > 0 then sleep waitMs else retE ()) (\<lambda>_.
     catchE (on_server (api_preflight (ce_api env) key))
       (\<lambda>err. if \<not> isTransientLinkError err then throwE err else preflight_loop env key ws err)))"

definition preflightWithRetry :: "'s client_env \<Rightarrow> string \<Rightarrow> ('s client, bool \<times> bytes option) act" where
  "preflightWithRetry env key = preflight_loop env key (ce_preflightRetryDelaysMs env) (OtherError ''undefined'')"

datatype key_state = KeyMatch | KeyMismatch | KeyUnstamped

definition preflight :: "'s client_env \<Rightarrow> ('s client, key_state) act" where
  "preflight env =
     (if \<not> isReady (ce_crypto env) then throwE (OtherError ''Vault key not derived'')
      else
        bindE (preflightWithRetry env (keyCheckBlobKey (ce_web env))) (\<lambda>(claimed, keyCheck).
        (case keyCheck of
           None \<Rightarrow> retE KeyUnstamped
         | Some record \<Rightarrow>
             bindE (liftE (verifyKeyCheck (ce_web env) (ce_crypto env) record)) (\<lambda>same.
             retE (if same then KeyMatch else KeyMismatch)))))"

section \<open>The pull\<close>

record pulled_op =
  po_seq :: nat
  po_op :: Operation

fun decrypt_records :: "'s client_env \<Rightarrow> op_record list \<Rightarrow> sync_error + pulled_op list" where
  "decrypt_records env [] = Inr []"
| "decrypt_records env (r # rs) =
     (case decryptOp (ce_web env) (ce_crypto env) (or_ciphertext r) of
        Inl e \<Rightarrow> Inl DecryptError
      | Inr op \<Rightarrow>
          (case decrypt_records env rs of
             Inl e \<Rightarrow> Inl e
           | Inr ps \<Rightarrow> Inr (\<lparr> po_seq = or_seq r, po_op = op \<rparr> # ps)))"

fun pull_loop :: "nat \<Rightarrow> 's client_env \<Rightarrow> nat \<Rightarrow> pulled_op list \<Rightarrow> ('s client, pulled_op list \<times> nat) act" where
  "pull_loop 0 env cursor ops = throwE out_of_fuel"
| "pull_loop (Suc k) env cursor ops =
     bindE (check_cancel env) (\<lambda>_.
     bindE (on_server (api_pullOps (ce_api env) cursor (ce_opsLimit env))) (\<lambda>page.
     bindE (liftE (decrypt_records env (pr_ops page))) (\<lambda>ps.
       if \<not> pr_hasMore page \<or> pr_ops page = [] then retE (ops @ ps, pr_nextCursor page)
       else pull_loop k env (pr_nextCursor page) (ops @ ps))))"

definition pullAll :: "'s client_env \<Rightarrow> nat \<Rightarrow> ('s client, pulled_op list \<times> nat) act" where
  "pullAll env startCursor = pull_loop (ce_fuel env) env startCursor []"

section \<open>The download\<close>

text \<open>The live remote hs whose bytes are not at hand: not staged, and not the local content.\<close>

definition wanted_hashes :: "VaultState \<Rightarrow> VaultState \<Rightarrow> string list" where
  "wanted_hashes remote local =
     fold (\<lambda>(i, entry) wanted.
       if fe_deleted entry then wanted
       else if jm_has (vs_contentStore remote) (fe_contentHash entry) then wanted
       else
         (case jm_get (vs_fileEntries local) i of
            Some le \<Rightarrow>
              if \<not> fe_deleted le \<and> fe_contentHash le = fe_contentHash entry then wanted
              else js_add (fe_contentHash entry) wanted
          | None \<Rightarrow> js_add (fe_contentHash entry) wanted))
       (vs_fileEntries remote) []"

function getBlobBatchSplit :: "'s client_env \<Rightarrow> string list \<Rightarrow> ('s client, (string, bytes) jsmap) act" where
  "getBlobBatchSplit env hs =
     catchE (bindE (on_server (api_getBlobBatch (ce_api env) hs)) (\<lambda>(blobs, missing). retE blobs))
       (\<lambda>err.
          if err \<noteq> BatchTooLargeError then throwE err
          else if length hs \<le> 1 then
            (let h = (case hs of [] \<Rightarrow> ''undefined'' | x # _ \<Rightarrow> x)
             in bindE (on_server (api_getBlob (ce_api env) h)) (\<lambda>b.
                  retE (case b of None \<Rightarrow> [] | Some content \<Rightarrow> [(h, content)])))
          else
            (let mid = length hs div 2
             in bindE (getBlobBatchSplit env (take mid hs)) (\<lambda>a.
                bindE (getBlobBatchSplit env (drop mid hs)) (\<lambda>b.
                retE (jm_of_list (a @ b))))))"
  by auto
termination by (relation "measure (\<lambda>(env, hs). length hs)") auto

declare getBlobBatchSplit.simps [simp del]

text \<open>One verified blob: decrypted, and hashed back to the hash it was asked for.\<close>

definition open_blob :: "'s client_env \<Rightarrow> string \<Rightarrow> string \<Rightarrow> bytes \<Rightarrow> sync_error + bytes" where
  "open_blob env blinded contentHash envelope =
     (case decryptBlob (ce_web env) (ce_crypto env) envelope of
        Inl e \<Rightarrow> Inl e
      | Inr content \<Rightarrow>
          if sha256Hex (ce_web env) content \<noteq> contentHash then
            Inl (OtherError (''Blob '' @ blinded @ '' failed content-hash verification''))
          else Inr content)"

type_synonym staged = "(string, bytes) jsmap \<times> string list"

text \<open>One blob of a chunk: staged under its content hash, or missing.\<close>

definition stage_blob ::
  "'s client_env \<Rightarrow> (string, string) jsmap \<Rightarrow> (string, bytes) jsmap \<Rightarrow> string \<Rightarrow> staged \<Rightarrow> ('s client, staged) act" where
  "stage_blob env byBlinded blobs blinded = (\<lambda>(store, missing).
     (case jm_get byBlinded blinded of
        None \<Rightarrow> throwE type_error
      | Some contentHash \<Rightarrow>
          (case jm_get blobs blinded of
             None \<Rightarrow> retE (store, js_add contentHash missing)
           | Some envelope \<Rightarrow>
               bindE (liftE (open_blob env blinded contentHash envelope)) (\<lambda>content.
               retE (jm_set contentHash content store, missing)))))"

definition fetchBlobChunk ::
  "'s client_env \<Rightarrow> (string, string) jsmap \<Rightarrow> string list \<Rightarrow> staged \<Rightarrow> ('s client, staged) act" where
  "fetchBlobChunk env byBlinded chunk st =
     bindE (getBlobBatchSplit env chunk) (\<lambda>blobs. iterE (stage_blob env byBlinded blobs) chunk st)"

function chunks_of :: "nat \<Rightarrow> 'a list \<Rightarrow> 'a list list" where
  "chunks_of n xs = (if xs = [] \<or> n = 0 then [] else take n xs # chunks_of n (drop n xs))"
  by auto
termination by (relation "measure (\<lambda>(n, xs). length xs)") auto

declare chunks_of.simps [simp del]

text \<open>The hs blinded once, with the map back.\<close>

definition blind_all :: "'s client_env \<Rightarrow> string list \<Rightarrow> ('s client, (string, string) jsmap) act" where
  "blind_all env hs =
     iterE (\<lambda>h m. bindE (liftE (blindHash (ce_web env) (ce_crypto env) h)) (\<lambda>b. retE (jm_set b h m))) hs []"

text \<open>The third tier of \<open>fetchRemoteBlobs\<close>.\<close>

definition download_blobs :: "'s client_env \<Rightarrow> string list \<Rightarrow> (string, bytes) jsmap \<Rightarrow> ('s client, staged) act" where
  "download_blobs env wanted store =
     bindE (blind_all env wanted) (\<lambda>byBlinded.
     bindE (iterE (\<lambda>chunk st. bindE (check_cancel env) (\<lambda>_. fetchBlobChunk env byBlinded chunk st))
             (chunks_of (ce_blobBatchMaxCount env) (jm_keys byBlinded)) (store, []))
       (\<lambda>st. bindE (check_cancel env) (\<lambda>_. retE st)))"

definition fetchBlob :: "'s client_env \<Rightarrow> string \<Rightarrow> ('s client, bytes option) act" where
  "fetchBlob env contentHash =
     bindE (liftE (blindHash (ce_web env) (ce_crypto env) contentHash)) (\<lambda>blinded.
     bindE (on_server (api_getBlob (ce_api env) blinded)) (\<lambda>envelope.
     (case envelope of
        None \<Rightarrow> retE None
      | Some e \<Rightarrow> bindE (liftE (open_blob env blinded contentHash e)) (\<lambda>content. retE (Some content)))))"

section \<open>The upload\<close>

record upload_plan =
  up_batches :: "string list list"
  up_singles :: "string list"
  up_cur :: "string list"
  up_curBytes :: nat

definition plan_step ::
  "'s client_env \<Rightarrow> (string, bytes) jsmap \<Rightarrow> string \<Rightarrow> upload_plan \<Rightarrow> sync_error + upload_plan" where
  "plan_step env blobs hash p =
     (case jm_get blobs hash of
        None \<Rightarrow> Inl type_error
      | Some content \<Rightarrow>
          (let size = length content
           in if size > ce_blobBatchThreshold env then Inr (p\<lparr> up_singles := up_singles p @ [hash] \<rparr>)
              else
                (let p1 = (if up_cur p \<noteq> [] \<and>
                              (length (up_cur p) \<ge> ce_blobBatchMaxCount env \<or> up_curBytes p + size > ce_blobBatchMaxBytes env)
                           then p\<lparr> up_batches := up_batches p @ [up_cur p], up_cur := [], up_curBytes := 0 \<rparr> else p)
                 in Inr (p1\<lparr> up_cur := up_cur p1 @ [hash], up_curBytes := up_curBytes p1 + size \<rparr>))))"

definition planBlobUpload ::
  "'s client_env \<Rightarrow> string list \<Rightarrow> (string, bytes) jsmap \<Rightarrow> sync_error + string list list \<times> string list" where
  "planBlobUpload env missing blobs =
     (case foldE (plan_step env blobs) missing \<lparr> up_batches = [], up_singles = [], up_cur = [], up_curBytes = 0 \<rparr> of
        Inl e \<Rightarrow> Inl e
      | Inr p \<Rightarrow> Inr (up_batches p @ (if up_cur p \<noteq> [] then [up_cur p] else []), up_singles p))"

definition seal_blob :: "'s client_env \<Rightarrow> (string, bytes) jsmap \<Rightarrow> string \<Rightarrow> ('s client, string \<times> bytes) act" where
  "seal_blob env blobs hash =
     (case jm_get blobs hash of
        None \<Rightarrow> throwE type_error
      | Some content \<Rightarrow>
          bindE (with_nonce (\<lambda>n. encryptBlob (ce_web env) (ce_crypto env) n content)) (\<lambda>e. retE (hash, e)))"

definition uploadBlobBatch :: "'s client_env \<Rightarrow> (string, bytes) jsmap \<Rightarrow> string list \<Rightarrow> ('s client, unit) act" where
  "uploadBlobBatch env blobs hs =
     bindE (mapE (seal_blob env blobs) hs) (\<lambda>entries. on_server (api_putBlobBatch (ce_api env) entries))"

definition uploadOneBlob :: "'s client_env \<Rightarrow> (string, bytes) jsmap \<Rightarrow> string \<Rightarrow> ('s client, unit) act" where
  "uploadOneBlob env blobs hash =
     bindE (seal_blob env blobs hash) (\<lambda>(h, envelope). on_server (api_putBlob (ce_api env) h envelope))"

definition run_unit :: "'s client_env \<Rightarrow> ('s client, unit) act \<Rightarrow> unit \<Rightarrow> ('s client, unit) act" where
  "run_unit env u _ = bindE (check_cancel env) (\<lambda>_. u)"

definition uploadBlobs :: "'s client_env \<Rightarrow> string list \<Rightarrow> (string, bytes) jsmap \<Rightarrow> ('s client, unit) act" where
  "uploadBlobs env missing blobs =
     (if missing = [] then retE ()
      else
        bindE (liftE (planBlobUpload env missing blobs)) (\<lambda>(batches, singles).
        bindE (iterE (run_unit env)
                 (map (uploadBlobBatch env blobs) batches @ map (uploadOneBlob env blobs) singles) ()) (\<lambda>_.
        check_cancel env)))"

section \<open>The append\<close>

text \<open>An append is tried anew from the refreshed cursor, at most three times.\<close>

fun append_retry :: "'s client_env \<Rightarrow> append_op list \<Rightarrow> nat \<Rightarrow> nat \<Rightarrow> ('s client, nat) act" where
  "append_retry env batch retries cursor =
     catchE (bindE (on_server (api_appendOps (ce_api env) cursor batch)) (\<lambda>r. retE (ar_headCursor r)))
       (\<lambda>err.
          if err \<noteq> StaleCursorError then throwE err
          else
            (case retries of
               0 \<Rightarrow> throwE (OtherError (''Append rejected as stale after '' @ show_nat MAX_STALE_APPEND_RETRIES @
                      '' re-pull retries; server head is advancing faster than this client can catch up''))
             | Suc n \<Rightarrow>
                 bindE (pullAll env cursor) (\<lambda>(ps, c). append_retry env batch n c)))"

declare append_retry.simps [simp del]

definition appendBatch :: "'s client_env \<Rightarrow> append_op list \<Rightarrow> nat \<Rightarrow> ('s client, nat) act" where
  "appendBatch env batch baseCursor = append_retry env batch MAX_STALE_APPEND_RETRIES baseCursor"

text \<open>The record of one pending operation, and its blob when its content is at hand.\<close>

definition push_record ::
  "'s client_env \<Rightarrow> (string, bytes) jsmap \<Rightarrow> Operation \<Rightarrow> (string, bytes) jsmap \<times> append_op list \<Rightarrow>
     ('s client, (string, bytes) jsmap \<times> append_op list) act" where
  "push_record env store op = (\<lambda>(blobs, records).
     (let content = (if op_type op = OpDelete then None else jm_get store (op_contentHash op))
      in bindE (case content of
                  None \<Rightarrow> retE ([], blobs)
                | Some c \<Rightarrow>
                    bindE (liftE (blindHash (ce_web env) (ce_crypto env) (op_contentHash op))) (\<lambda>blinded.
                    retE ([blinded], jm_set blinded c blobs))) (\<lambda>(refs, blobs1).
         bindE (with_nonce (\<lambda>n. encryptOp (ce_web env) (ce_crypto env) n op)) (\<lambda>ciphertext.
         retE (blobs1, records @ [\<lparr> ao_clientOpId = op_id op, ao_ciphertext = ciphertext, ao_blobRefs = refs \<rparr>])))))"

definition pushPendingOps :: "'s client_env \<Rightarrow> VaultState \<Rightarrow> nat \<Rightarrow> ('s client, unit) act" where
  "pushPendingOps env local baseCursor =
     bindE (iterE (push_record env (vs_contentStore local)) (vs_pendingOps local) ([], [])) (\<lambda>(blobs, records).
     bindE (if jm_keys blobs = [] then retE ()
            else bindE (on_server (api_checkBlobs (ce_api env) (jm_keys blobs))) (\<lambda>missing. uploadBlobs env missing blobs)) (\<lambda>_.
     bindE (iterE (\<lambda>batch cursor. bindE (check_cancel env) (\<lambda>_. appendBatch env batch cursor))
              (chunks_of (ce_maxOpsPerAppend env) records) baseCursor) (\<lambda>_.
     retE ())))"

section \<open>The pure helpers\<close>

text \<open>The least sequence number of a pulled operation whose content is missing.\<close>

definition min_blocked :: "pulled_op list \<Rightarrow> string list \<Rightarrow> nat option" where
  "min_blocked pulled missing =
     fold (\<lambda>p m.
       if op_type (po_op p) \<noteq> OpDelete \<and> op_contentHash (po_op p) \<in> set missing \<and>
          (case m of None \<Rightarrow> True | Some b \<Rightarrow> po_seq p < b)
       then Some (po_seq p) else m) pulled None"

definition safeCursor :: "pulled_op list \<Rightarrow> nat \<Rightarrow> string list \<Rightarrow> nat \<Rightarrow> bool \<Rightarrow> int" where
  "safeCursor pulled pulledCursor missingContent startCursor driftDeferred =
     (if driftDeferred then int startCursor
      else if missingContent = [] then int pulledCursor
      else
        (case min_blocked pulled missingContent of
           None \<Rightarrow> int pulledCursor
         | Some b \<Rightarrow> min (int pulledCursor) (int b - 1)))"

definition project_op :: "string option \<Rightarrow> Operation \<Rightarrow> (string, FileEntry) jsmap \<times> HLC option \<Rightarrow> (string, FileEntry) jsmap \<times> HLC option" where
  "project_op ownDeviceId op = (\<lambda>(es, maxHlc).
     (if ownDeviceId = Some (deviceId (op_hlc op)) then (es, maxHlc)
      else
        (let maxHlc1 = (case maxHlc of
                          None \<Rightarrow> Some (op_hlc op)
                        | Some h \<Rightarrow> if hlcCompare (op_hlc op) h > 0 then Some (op_hlc op) else Some h);
             superseded = (case jm_get es (op_fileId op) of
                             Some existing \<Rightarrow> hlcCompare (fe_hlc existing) (op_hlc op) \<ge> 0
                           | None \<Rightarrow> False)
         in if superseded then (es, maxHlc1)
            else
              (jm_set (op_fileId op)
                 \<lparr> fe_id = op_fileId op, fe_path = op_path op, fe_contentHash = op_contentHash op, fe_hlc = op_hlc op,
                   fe_deleted = (op_type op = OpDelete), fe_lastSyncedPath = None,
                   fe_headVersionId =
                     Some (if op_type op = OpMove then (case op_parents op of [] \<Rightarrow> op_id op | p # _ \<Rightarrow> p) else op_id op),
                   fe_conflictParents = None, fe_mtime = None, fe_size = None \<rparr> es, maxHlc1))))"

definition reconstructRemoteState :: "Operation list \<Rightarrow> string option \<Rightarrow> VaultState" where
  "reconstructRemoteState ops ownDeviceId =
     (case fold (project_op ownDeviceId) ops ([], None) of
        (es, maxHlc) \<Rightarrow>
          \<lparr> vs_deviceId = ''server'', vs_hlc = (case maxHlc of None \<Rightarrow> HLC 0 0 ''server'' | Some h \<Rightarrow> h),
            vs_fileEntries = es, vs_pendingOps = ops, vs_contentStore = [] \<rparr>)"

end
