(* ===== verification/SyncTransferThms.thy ===== *)
theory SyncTransferThms
  imports SyncTransfer
begin

text \<open>
  The laws of the transfer: the cursor that is saved, the remote projection, the plan of an upload
  and the download of a batch that the server refuses as too large.
\<close>

section \<open>The cursor\<close>

definition blocked :: "pulled_op list \<Rightarrow> string list \<Rightarrow> pulled_op \<Rightarrow> bool" where
  "blocked pulled missing p =
     (p \<in> set pulled \<and> op_type (po_op p) \<noteq> OpDelete \<and> op_contentHash (po_op p) \<in> set missing)"

lemma min_blocked_fold:
  "fold (\<lambda>p m. if op_type (po_op p) \<noteq> OpDelete \<and> op_contentHash (po_op p) \<in> set missing \<and>
          (case m of None \<Rightarrow> True | Some b \<Rightarrow> po_seq p < b) then Some (po_seq p) else m) pulled m0 = m \<Longrightarrow>
   (\<forall>p. blocked pulled missing p \<longrightarrow> (\<exists>b. m = Some b \<and> b \<le> po_seq p)) \<and>
   (\<forall>b. m0 = Some b \<longrightarrow> (\<exists>b'. m = Some b' \<and> b' \<le> b)) \<and>
   (\<forall>b. m = Some b \<longrightarrow> m0 = Some b \<or> (\<exists>p. blocked pulled missing p \<and> po_seq p = b))"
proof (induction pulled arbitrary: m0)
  case Nil
  then show ?case by (auto simp: blocked_def)
next
  case (Cons q pulled)
  show ?case
  proof (cases "op_type (po_op q) \<noteq> OpDelete \<and> op_contentHash (po_op q) \<in> set missing")
    case True
    then show ?thesis using Cons.IH [of "if (case m0 of None \<Rightarrow> True | Some b \<Rightarrow> po_seq q < b) then Some (po_seq q) else m0"] Cons.prems
      by (cases m0; cases "po_seq q < the m0") (fastforce simp: blocked_def)+
  next
    case False
    then show ?thesis using Cons.IH [of m0] Cons.prems by (auto simp: blocked_def)
  qed
qed

lemma min_blocked_le: "blocked pulled missing p \<Longrightarrow> \<exists>b. min_blocked pulled missing = Some b \<and> b \<le> po_seq p"
  using min_blocked_fold [of missing pulled None "min_blocked pulled missing"] by (simp add: min_blocked_def)

lemma min_blocked_in: "min_blocked pulled missing = Some b \<Longrightarrow> \<exists>p. blocked pulled missing p \<and> po_seq p = b"
  using min_blocked_fold [of missing pulled None "min_blocked pulled missing"] by (simp add: min_blocked_def)

text \<open>
  The saved cursor never leaves the interval of the round, never passes a pulled operation whose
  content is missing, falls back to the start when an action was deferred, and advances to the
  pulled cursor when nothing is missing.
\<close>

theorem safe_cursor_strands_nothing:
  assumes "\<forall>p \<in> set pulled. startCursor < po_seq p \<and> po_seq p \<le> pulledCursor" and "startCursor \<le> pulledCursor"
  shows "int startCursor \<le> safeCursor pulled pulledCursor missing startCursor drift \<and>
    safeCursor pulled pulledCursor missing startCursor drift \<le> int pulledCursor \<and>
    (\<forall>p. drift \<and> p \<in> set pulled \<or> blocked pulled missing p \<longrightarrow>
       safeCursor pulled pulledCursor missing startCursor drift < int (po_seq p)) \<and>
    (\<not> drift \<and> (\<forall>p. \<not> blocked pulled missing p) \<longrightarrow>
       safeCursor pulled pulledCursor missing startCursor drift = int pulledCursor)"
proof (cases "min_blocked pulled missing")
  case None
  then have "\<not> blocked pulled missing p" for p using min_blocked_le [of pulled missing p] by auto
  then show ?thesis using assms by (auto simp: safeCursor_def None)
next
  case (Some b)
  from min_blocked_in [OF this] obtain q where q: "blocked pulled missing q" "po_seq q = b" by blast
  then have b: "startCursor < b" "b \<le> pulledCursor" using assms(1) by (auto simp: blocked_def)
  have le: "b \<le> po_seq p" if "blocked pulled missing p" for p using min_blocked_le [OF that] Some by simp
  have m: "missing \<noteq> []" using q(1) by (auto simp: blocked_def)
  have "int b - 1 < int (po_seq p) \<and> startCursor < po_seq p" if "blocked pulled missing p" for p
    using le [OF that] b by simp
  then show ?thesis using assms b m q(1) by (auto simp: safeCursor_def Some)
qed

theorem safe_cursor_strands_nothing_witness:
  "let p = \<lparr> po_seq = 5, po_op = ops_create ''f'' ''a'' ''h'' (HLC 7 0 ''d'') \<rparr>
   in int 3 \<le> safeCursor [p] 9 [''h''] 3 False \<and> safeCursor [p] 9 [''h''] 3 False < 5"
proof -
  let ?p = "\<lparr> po_seq = 5, po_op = ops_create ''f'' ''a'' ''h'' (HLC 7 0 ''d'') \<rparr>"
  have "blocked [?p] [''h''] ?p" by (simp add: blocked_def ops_create_def stamp_def)
  with safe_cursor_strands_nothing [of "[?p]" 3 9 "[''h'']" False] have
    "int 3 \<le> safeCursor [?p] 9 [''h''] 3 False" "safeCursor [?p] 9 [''h''] 3 False < int (po_seq ?p)" by force+
  then show ?thesis by (simp add: Let_def)
qed

section \<open>The remote projection\<close>

definition foreign :: "string option \<Rightarrow> Operation \<Rightarrow> bool" where
  "foreign own op = (own \<noteq> Some (deviceId (op_hlc op)))"

definition projected :: "Operation \<Rightarrow> FileEntry" where
  "projected op =
     \<lparr> fe_id = op_fileId op, fe_path = op_path op, fe_contentHash = op_contentHash op, fe_hlc = op_hlc op,
       fe_deleted = (op_type op = OpDelete), fe_lastSyncedPath = None,
       fe_headVersionId = Some (if op_type op = OpMove then (case op_parents op of [] \<Rightarrow> op_id op | p # _ \<Rightarrow> p) else op_id op),
       fe_conflictParents = None, fe_mtime = None, fe_size = None \<rparr>"

definition newest :: "string option \<Rightarrow> Operation list \<Rightarrow> string \<Rightarrow> Operation \<Rightarrow> bool" where
  "newest own ops f op =
     (op \<in> set ops \<and> foreign own op \<and> op_fileId op = f \<and>
      (\<forall>q \<in> set ops. foreign own q \<and> op_fileId q = f \<longrightarrow> op_hlc q \<le> op_hlc op))"

lemma project_step:
  assumes "project_op own op (es, m) = (es1, m1)"
  shows "jm_get es1 f =
    (if foreign own op \<and> op_fileId op = f \<and> (\<forall>x. jm_get es f = Some x \<longrightarrow> fe_hlc x < op_hlc op)
     then Some (projected op) else jm_get es f)"
  using assms
  by (cases "jm_get es (op_fileId op)")
    (auto simp: project_op_def Let_def foreign_def projected_def not_le split: if_splits)

lemma project_fold:
  assumes "\<forall>f. case jm_get ea f of
      Some e \<Rightarrow> (\<exists>op. newest own pre f op \<and> e = projected op)
    | None \<Rightarrow> (\<forall>q \<in> set pre. \<not> (foreign own q \<and> op_fileId q = f))"
    and "fold (project_op own) ops (ea, ma) = (es, m)"
  shows "\<forall>f. case jm_get es f of
      Some e \<Rightarrow> (\<exists>op. newest own (pre @ ops) f op \<and> e = projected op)
    | None \<Rightarrow> (\<forall>q \<in> set (pre @ ops). \<not> (foreign own q \<and> op_fileId q = f))"
  using assms
proof (induction ops arbitrary: ea ma pre)
  case (Cons op ops)
  obtain es1 m1 where p: "project_op own op (ea, ma) = (es1, m1)" by (cases "project_op own op (ea, ma)")
  have "case jm_get es1 f of
      Some e \<Rightarrow> (\<exists>q. newest own (pre @ [op]) f q \<and> e = projected q)
    | None \<Rightarrow> (\<forall>q \<in> set (pre @ [op]). \<not> (foreign own q \<and> op_fileId q = f))" for f
  proof (cases "foreign own op \<and> op_fileId op = f")
    case False
    then show ?thesis using Cons.prems(1) [rule_format, of f] project_step [OF p, of f]
      by (auto simp: newest_def split: option.splits)
  next
    case True
    show ?thesis
    proof (cases "jm_get ea f")
      case None
      then show ?thesis using Cons.prems(1) [rule_format, of f] project_step [OF p, of f] True by (auto simp: newest_def)
    next
      case (Some x)
      then obtain q where q: "newest own pre f q" "x = projected q" using Cons.prems(1) [rule_format, of f] by auto
      then have hq: "fe_hlc x = op_hlc q" by (simp add: projected_def)
      have "newest own (pre @ [op]) f (if op_hlc q < op_hlc op then op else q)"
        using q(1) True by (auto simp: newest_def not_less intro: order_trans less_imp_le le_less_trans)
      then show ?thesis using project_step [OF p, of f] True Some hq q(2) by auto
    qed
  qed
  then show ?case using Cons.IH [where ea = es1 and pre = "pre @ [op]"] Cons.prems(2) p by (simp cong: option.case_cong)
qed (simp cong: option.case_cong)

text \<open>
  The projection holds for every file a peer touched its newest foreign operation, and nothing
  else: an operation of this device is never projected.
\<close>

theorem projection_is_newest:
  "case jm_get (vs_fileEntries (reconstructRemoteState ops (Some own))) f of
     Some e \<Rightarrow> \<exists>op. newest (Some own) ops f op \<and> e = projected op
   | None \<Rightarrow> filter (\<lambda>q. foreign (Some own) q \<and> op_fileId q = f) ops = []"
proof -
  obtain es m where f: "fold (project_op (Some own)) ops ([], None) = (es, m)" by (cases "fold (project_op (Some own)) ops ([], None)")
  have "vs_fileEntries (reconstructRemoteState ops (Some own)) = es" by (simp add: reconstructRemoteState_def f)
  moreover have "case jm_get es f of
      Some e \<Rightarrow> (\<exists>op. newest (Some own) ops f op \<and> e = projected op)
    | None \<Rightarrow> (\<forall>q \<in> set ops. \<not> (foreign (Some own) q \<and> op_fileId q = f))"
    using project_fold [of "[]" "Some own" "[]" ops None es m, THEN spec, of f] f by (cases "jm_get es f") auto
  ultimately show ?thesis by (cases "jm_get es f") (auto simp: filter_empty_conv)
qed

section \<open>The plan of an upload\<close>

definition blob_size :: "(string, bytes) jsmap \<Rightarrow> string \<Rightarrow> nat" where
  "blob_size blobs h = length (the (jm_get blobs h))"

definition batch_ok :: "'s client_env \<Rightarrow> (string, bytes) jsmap \<Rightarrow> string list \<Rightarrow> bool" where
  "batch_ok env blobs b =
     (b \<noteq> [] \<and> length b \<le> ce_blobBatchMaxCount env \<and>
      (sum_list (map (blob_size blobs) b) \<le> ce_blobBatchMaxBytes env \<or> length b = 1) \<and>
      (\<forall>h \<in> set b. blob_size blobs h \<le> ce_blobBatchThreshold env))"

definition plan_inv :: "'s client_env \<Rightarrow> (string, bytes) jsmap \<Rightarrow> string list \<Rightarrow> upload_plan \<Rightarrow> bool" where
  "plan_inv env blobs seen p =
     ((\<forall>b \<in> set (up_batches p). batch_ok env blobs b) \<and>
      (up_cur p \<noteq> [] \<longrightarrow> batch_ok env blobs (up_cur p)) \<and>
      up_curBytes p = sum_list (map (blob_size blobs) (up_cur p)) \<and>
      concat (up_batches p) @ up_cur p = filter (\<lambda>h. blob_size blobs h \<le> ce_blobBatchThreshold env) seen \<and>
      up_singles p = filter (\<lambda>h. ce_blobBatchThreshold env < blob_size blobs h) seen)"

lemma plan_step_inv:
  assumes "plan_inv env blobs seen p" and "jm_get blobs h \<noteq> None" and "1 \<le> ce_blobBatchMaxCount env"
  obtains q where "plan_step env blobs h p = Inr q" and "plan_inv env blobs (seen @ [h]) q"
proof -
  obtain c where c: "jm_get blobs h = Some c" using assms(2) by blast
  have size: "blob_size blobs h = length c" by (simp add: blob_size_def c)
  consider (single) "ce_blobBatchThreshold env < length c"
    | (close) "length c \<le> ce_blobBatchThreshold env" "up_cur p \<noteq> []"
        "length (up_cur p) \<ge> ce_blobBatchMaxCount env \<or> up_curBytes p + length c > ce_blobBatchMaxBytes env"
    | (join) "length c \<le> ce_blobBatchThreshold env"
        "up_cur p = [] \<or> (length (up_cur p) < ce_blobBatchMaxCount env \<and> up_curBytes p + length c \<le> ce_blobBatchMaxBytes env)"
    by (meson not_le)
  then show thesis
  proof cases
    case single
    then have "plan_step env blobs h p = Inr (p\<lparr> up_singles := up_singles p @ [h] \<rparr>)" by (simp add: plan_step_def c Let_def)
    then show thesis using assms(1) single size that by (simp add: plan_inv_def)
  next
    case close
    then have "plan_step env blobs h p = Inr (p\<lparr> up_batches := up_batches p @ [up_cur p], up_cur := [h], up_curBytes := length c \<rparr>)"
      by (simp add: plan_step_def c Let_def)
    then show thesis using assms(1,3) close size that by (auto simp: plan_inv_def batch_ok_def)
  next
    case join
    then have "plan_step env blobs h p = Inr (p\<lparr> up_cur := up_cur p @ [h], up_curBytes := up_curBytes p + length c \<rparr>)"
      by (auto simp: plan_step_def c Let_def)
    moreover have "plan_inv env blobs (seen @ [h]) (p\<lparr> up_cur := up_cur p @ [h], up_curBytes := up_curBytes p + length c \<rparr>)"
    proof (cases "up_cur p = []")
      case True
      then show ?thesis using assms(1,3) join(1) size by (auto simp: plan_inv_def batch_ok_def)
    next
      case False
      then show ?thesis using assms(1) join size by (simp add: plan_inv_def batch_ok_def)
    qed
    ultimately show thesis using that by blast
  qed
qed

lemma plan_all_inv:
  assumes "plan_inv env blobs seen p" and "\<forall>h \<in> set hs. jm_get blobs h \<noteq> None" and "1 \<le> ce_blobBatchMaxCount env"
  obtains q where "foldE (plan_step env blobs) hs p = Inr q" and "plan_inv env blobs (seen @ hs) q"
  using assms(1,2)
proof (induction hs arbitrary: seen p thesis)
  case (Cons h hs)
  have "jm_get blobs h \<noteq> None" using Cons.prems(3) by simp
  from plan_step_inv [OF Cons.prems(2) this assms(3)] obtain p1 where
    p1: "plan_step env blobs h p = Inr p1" "plan_inv env blobs (seen @ [h]) p1" .
  have "\<forall>h \<in> set hs. jm_get blobs h \<noteq> None" using Cons.prems(3) by simp
  from Cons.IH [OF _ p1(2) this] obtain q where "foldE (plan_step env blobs) hs p1 = Inr q" "plan_inv env blobs ((seen @ [h]) @ hs) q" .
  then show ?case using Cons.prems(1) p1(1) by simp
qed simp

lemma plan_start: "plan_inv env blobs [] \<lparr> up_batches = [], up_singles = [], up_cur = [], up_curBytes = 0 \<rparr>"
  by (simp add: plan_inv_def)

lemma plan_result:
  assumes "\<forall>h \<in> set missing. jm_get blobs h \<noteq> None" and "1 \<le> ce_blobBatchMaxCount env"
  obtains batches singles where "planBlobUpload env missing blobs = Inr (batches, singles)"
    and "concat batches = filter (\<lambda>h. blob_size blobs h \<le> ce_blobBatchThreshold env) missing"
    and "singles = filter (\<lambda>h. ce_blobBatchThreshold env < blob_size blobs h) missing"
    and "\<forall>b \<in> set batches. batch_ok env blobs b"
proof -
  from plan_all_inv [OF plan_start assms] obtain q where
    "foldE (plan_step env blobs) missing \<lparr> up_batches = [], up_singles = [], up_cur = [], up_curBytes = 0 \<rparr> = Inr q"
    "plan_inv env blobs missing q" by (metis append_Nil)
  then show thesis using that by (cases "up_cur q = []") (auto simp: planBlobUpload_def plan_inv_def)
qed

lemma filter_set_partition: "set (filter (\<lambda>h. (f h :: nat) \<le> n) xs) \<union> set (filter (\<lambda>h. n < f h) xs) = set xs"
  by auto

lemma plan_covers:
  assumes "\<forall>h \<in> set missing. jm_get blobs h \<noteq> None" and "1 \<le> ce_blobBatchMaxCount env"
  obtains batches singles where "planBlobUpload env missing blobs = Inr (batches, singles)"
    and "set (concat batches) \<union> set singles = set missing"
proof -
  from plan_result [OF assms] obtain bs ss where "planBlobUpload env missing blobs = Inr (bs, ss)"
    "concat bs = filter (\<lambda>h. blob_size blobs h \<le> ce_blobBatchThreshold env) missing"
    "ss = filter (\<lambda>h. ce_blobBatchThreshold env < blob_size blobs h) missing" .
  moreover from this(2,3) have "set (concat bs) \<union> set ss = set missing"
    by (simp only: filter_set_partition)
  ultimately show thesis using that by blast
qed

text \<open>
  The upload plan is a partition of the missing blobs that keeps their order: every batch is
  non-empty and within the number and the bytes of a batch (or a single blob), every blob of a
  batch is within the threshold and every blob uploaded alone is above it.
\<close>

theorem upload_plan_partition:
  assumes "\<forall>h \<in> set missing. jm_get blobs h \<noteq> None" and "1 \<le> ce_blobBatchMaxCount env"
  shows "\<exists>batches singles. planBlobUpload env missing blobs = Inr (batches, singles) \<and>
    concat batches = filter (\<lambda>h. blob_size blobs h \<le> ce_blobBatchThreshold env) missing \<and>
    singles = filter (\<lambda>h. ce_blobBatchThreshold env < blob_size blobs h) missing \<and>
    (\<forall>b \<in> set batches. batch_ok env blobs b)"
  using plan_result [OF assms] by metis

section \<open>A batch that is too large\<close>

text \<open>
  A server that refuses some batches as too large, and answers the others, like single requests,
  from the blobs it holds.
\<close>

definition capped :: "'s server_api \<Rightarrow> (string list \<Rightarrow> bool) \<Rightarrow> (string \<rightharpoonup> bytes) \<Rightarrow> bool" where
  "capped api too_large held =
     ((\<forall>hs s. \<exists>s'. api_getBlobBatch api hs s =
         (if too_large hs then (s', Inl BatchTooLargeError)
          else (s', Inr (map (\<lambda>h. (h, the (held h))) (filter (\<lambda>h. held h \<noteq> None) hs), filter (\<lambda>h. held h = None) hs)))) \<and>
      (\<forall>h s. \<exists>s'. api_getBlob api h s = (s', Inr (held h))))"

definition holds_exactly :: "(string \<rightharpoonup> bytes) \<Rightarrow> string list \<Rightarrow> (string, bytes) jsmap \<Rightarrow> bool" where
  "holds_exactly held hs m =
     ((\<forall>(k, v) \<in> set m. k \<in> set hs \<and> held k = Some v) \<and> (\<forall>k \<in> set hs. held k \<noteq> None \<longrightarrow> k \<in> fst ` set m))"

lemma holds_exactly_get: "holds_exactly held hs m \<Longrightarrow> jm_get m k = (if k \<in> set hs then held k else None)"
proof (cases "jm_get m k")
  case None
  then show "holds_exactly held hs m \<Longrightarrow> ?thesis" by (auto simp: holds_exactly_def map_of_eq_None_iff)
next
  case (Some v)
  then have "(k, v) \<in> set m" by (rule map_of_SomeD)
  then show "holds_exactly held hs m \<Longrightarrow> ?thesis" using Some by (auto simp: holds_exactly_def)
qed

lemma set_jm_set: "set (jm_set k v m) \<subseteq> insert (k, v) (set m)"
  by (induction m) auto

lemma set_jm_of_list: "set (jm_of_list ps) \<subseteq> set ps" "fst ` set (jm_of_list ps) = fst ` set ps"
proof -
  have "set (fold (\<lambda>(k, v). jm_set k v) ps m) \<subseteq> set ps \<union> set m \<and>
    fst ` set (fold (\<lambda>(k, v). jm_set k v) ps m) = fst ` set ps \<union> fst ` set m" for m
  proof (induction ps arbitrary: m)
    case (Cons p ps)
    obtain k v where p: "p = (k, v)" by (cases p)
    note set_jm_set [of k v m]
    moreover have "fst ` set (jm_set k v m) = insert k (fst ` set m)" using keys_set [of k v m] by simp
    ultimately show ?case using Cons.IH [of "jm_set k v m"] by (auto simp: p)
  qed simp
  then show "set (jm_of_list ps) \<subseteq> set ps" "fst ` set (jm_of_list ps) = fst ` set ps"
    unfolding jm_of_list_def by (metis Un_empty_right set_empty2 image_empty)+
qed

lemma holds_exactly_join:
  "holds_exactly held xs a \<Longrightarrow> holds_exactly held ys b \<Longrightarrow> holds_exactly held (xs @ ys) (jm_of_list (a @ b))"
proof -
  assume a: "holds_exactly held xs a" and b: "holds_exactly held ys b"
  have "k \<in> set (xs @ ys) \<and> held k = Some v" if kv: "(k, v) \<in> set (jm_of_list (a @ b))" for k v
  proof -
    have "(k, v) \<in> set a \<or> (k, v) \<in> set b" using kv set_jm_of_list(1) [of "a @ b"] by auto
    then show ?thesis using a b by (auto simp: holds_exactly_def)
  qed
  moreover have "k \<in> fst ` set (jm_of_list (a @ b))" if "k \<in> set (xs @ ys)" "held k \<noteq> None" for k
    using that a b unfolding set_jm_of_list(2) by (simp add: holds_exactly_def image_Un) blast
  ultimately show ?thesis by (auto simp: holds_exactly_def)
qed

lemma split_download:
  assumes "capped (ce_api env) too_large held" and "hs \<noteq> []"
  shows "\<exists>c' m. getBlobBatchSplit env hs c = (c', Inr m) \<and> holds_exactly held hs m"
  using assms
proof (induction "length hs" arbitrary: hs c rule: less_induct)
  case less
  obtain s' where batch: "api_getBlobBatch (ce_api env) hs (cl_server c) =
      (if too_large hs then (s', Inl BatchTooLargeError)
       else (s', Inr (map (\<lambda>h. (h, the (held h))) (filter (\<lambda>h. held h \<noteq> None) hs), filter (\<lambda>h. held h = None) hs)))"
    using less.prems(1) unfolding capped_def by blast
  note unf = getBlobBatchSplit.simps [of env hs] catchE_def bindE_def on_server_def
  consider (fits) "\<not> too_large hs" | (one) h where "too_large hs" "hs = [h]" | (many) "too_large hs" "2 \<le> length hs"
    using less.prems(2) by (cases hs) (auto simp: Suc_le_eq)
  then show ?case
  proof cases
    case fits
    moreover have "holds_exactly held hs (map (\<lambda>h. (h, the (held h))) (filter (\<lambda>h. held h \<noteq> None) hs))"
      by (auto simp: holds_exactly_def image_image)
    ultimately show ?thesis by (simp add: unf batch)
  next
    case one
    obtain s2 where "api_getBlob (ce_api env) h s' = (s2, Inr (held h))" using less.prems(1) unfolding capped_def by blast
    then have "getBlobBatchSplit env hs c = (c\<lparr> cl_server := s2 \<rparr>, Inr (case held h of None \<Rightarrow> [] | Some b \<Rightarrow> [(h, b)]))"
      using one(1) batch unfolding unf by (simp add: one(2))
    then show ?thesis by (cases "held h") (simp_all add: holds_exactly_def one(2))
  next
    case many
    let ?m = "length hs div 2" and ?c = "c\<lparr> cl_server := s' \<rparr>"
    have short: "length (take ?m hs) < length hs" "length (drop ?m hs) < length hs" "take ?m hs \<noteq> []" "drop ?m hs \<noteq> []"
      using many(2) by auto
    obtain c1 a where a: "getBlobBatchSplit env (take ?m hs) ?c = (c1, Inr a)" "holds_exactly held (take ?m hs) a"
      using less.hyps [OF short(1) less.prems(1) short(3)] by blast
    obtain c2 b where b: "getBlobBatchSplit env (drop ?m hs) c1 = (c2, Inr b)" "holds_exactly held (drop ?m hs) b"
      using less.hyps [OF short(2) less.prems(1) short(4)] by blast
    have "holds_exactly held hs (jm_of_list (a @ b))" using holds_exactly_join [OF a(2) b(2)] by simp
    moreover have "getBlobBatchSplit env hs c = (c2, Inr (jm_of_list (a @ b)))"
      using many batch a(1) b(1) by (simp add: unf Let_def)
    ultimately show ?thesis by blast
  qed
qed

text \<open>
  However the server caps its answers, the split download ends with exactly the blobs that the
  server holds of those asked for.
\<close>

theorem split_download_complete:
  assumes "capped (ce_api env) too_large held" and "hs \<noteq> []"
  shows "\<exists>c' m. getBlobBatchSplit env hs c = (c', Inr m) \<and> (\<forall>h. jm_get m h = (if h \<in> set hs then held h else None))"
  using split_download [OF assms, of c] holds_exactly_get by blast

text \<open>A server that answers one blob at a time.\<close>

definition single_api :: "(string \<rightharpoonup> bytes) \<Rightarrow> unit server_api" where
  "single_api held =
     \<lparr> api_pullOps = (\<lambda>since lim. throwE NotFoundError), api_appendOps = (\<lambda>cursor ops. throwE NotFoundError),
       api_checkBlobs = (\<lambda>hs. retE (filter (\<lambda>h. held h = None) hs)), api_putBlobBatch = (\<lambda>bs. throwE NotFoundError),
       api_putBlob = (\<lambda>h b. throwE NotFoundError), api_getBlob = (\<lambda>h. retE (held h)),
       api_getBlobBatch = (\<lambda>hs.
         if length hs > 1 then throwE BatchTooLargeError
         else retE (map (\<lambda>h. (h, the (held h))) (filter (\<lambda>h. held h \<noteq> None) hs), filter (\<lambda>h. held h = None) hs)),
       api_preflight = (\<lambda>key. throwE NotFoundError) \<rparr>"

theorem split_download_complete_witness:
  "\<forall>w. \<exists>c' m. getBlobBatchSplit
       (new_client_env (single_api [''a'' \<mapsto> [65]]) w new_crypto
          \<lparr> so_opsLimit = None, so_maxOpsPerAppend = None, so_blobBatchMaxCount = None, so_blobBatchMaxBytes = None,
            so_blobBatchThreshold = None, so_preflightRetryDelaysMs = None \<rparr> (\<lambda>_. False) 9)
       [''a'', ''b''] (new_client ()) = (c', Inr m) \<and> jm_get m ''a'' = Some [65] \<and> jm_get m ''b'' = None"
  (is "\<forall>w. \<exists>c' m. getBlobBatchSplit (?env w) _ _ = _ \<and> _")
proof
  fix w
  have "capped (single_api [''a'' \<mapsto> [65]]) (\<lambda>hs. length hs > 1) [''a'' \<mapsto> [65]]"
    by (simp add: capped_def single_api_def)
  then have "capped (ce_api (?env w)) (\<lambda>hs. length hs > 1) [''a'' \<mapsto> [65]]" by (simp add: new_client_env_def)
  from split_download_complete [OF this, of "[''a'', ''b'']" "new_client ()"] show
    "\<exists>c' m. getBlobBatchSplit (?env w) [''a'', ''b''] (new_client ()) = (c', Inr m) \<and> jm_get m ''a'' = Some [65] \<and> jm_get m ''b'' = None"
    by fastforce
qed

end
