(* ===== verification/SyncServer.thy ===== *)
theory SyncServer
  imports SyncTransferThms
begin

text \<open>
  The transfer over a server that keeps its contract.  The contract is a locale: the server is seen
  as a log, a map of blobs and the sequence numbers of the client ids, a page of a pull is a page
  of that log, a blob is kept as it was first written, and an append of operations whose blobs are
  held numbers the new ones at the end of the log.  Inside it the pull loop is shown to end with
  every operation behind the cursor, and the push to leave every pending operation and its blob on
  the server; the in-memory server is the interpretation.
\<close>

section \<open>The contract\<close>

record server_view =
  sv_log :: "op_record list"
  sv_blobs :: "string \<Rightarrow> bytes option"
  sv_seqs :: "string \<Rightarrow> nat option"

definition appended :: "server_view \<Rightarrow> append_op list \<Rightarrow> server_view \<Rightarrow> bool" where
  "appended v ops v' =
     (sv_blobs v' = sv_blobs v \<and> prefix (sv_log v) (sv_log v') \<and> length (sv_log v') \<le> length (sv_log v) + length ops \<and>
      (\<forall>r \<in> set (sv_log v'). r \<in> set (sv_log v) \<or> (\<exists>op \<in> set ops. or_ciphertext r = ao_ciphertext op)) \<and> sv_seqs v \<subseteq>\<^sub>m sv_seqs v' \<and>
      dom (sv_seqs v') \<subseteq> dom (sv_seqs v) \<union> ao_clientOpId ` set ops \<and>
      (\<forall>op \<in> set ops. \<exists>n. sv_seqs v' (ao_clientOpId op) = Some n \<and>
         (sv_seqs v (ao_clientOpId op) = None \<longrightarrow>
            (\<exists>r \<in> set (sv_log v'). or_seq r = n \<and> or_ciphertext r = ao_ciphertext op \<and> (\<forall>q \<in> set (sv_log v). or_seq q < n)))) \<and>
      map or_ciphertext (drop (length (sv_log v)) (sv_log v')) =
        map ao_ciphertext (filter (\<lambda>op. sv_seqs v (ao_clientOpId op) = None) ops))"

locale sync_server =
  fixes api :: "'s server_api" and ok :: "'s \<Rightarrow> bool" and view :: "'s \<Rightarrow> server_view"
  assumes sorted_log: "ok s \<Longrightarrow> sorted_wrt (<) (map or_seq (sv_log (view s)))"
    and pull: "ok s \<Longrightarrow> \<exists>s'. ok s' \<and> view s' = view s \<and> api_pullOps api since lim s = (s', Inr (log_page (sv_log (view s)) since lim))"
    and check: "ok s \<Longrightarrow> \<exists>s'. ok s' \<and> view s' = view s \<and> api_checkBlobs api hs s = (s', Inr (filter (\<lambda>h. sv_blobs (view s) h = None) hs))"
    and put_batch: "ok s \<Longrightarrow> \<exists>s'. ok s' \<and> view s' = (view s)\<lparr> sv_blobs := map_of bs ++ sv_blobs (view s) \<rparr> \<and> api_putBlobBatch api bs s = (s', Inr ())"
    and put: "ok s \<Longrightarrow> \<exists>s'. ok s' \<and> view s' = (view s)\<lparr> sv_blobs := [h \<mapsto> b] ++ sv_blobs (view s) \<rparr> \<and> api_putBlob api h b s = (s', Inr ())"
    and append_ops: "ok s \<Longrightarrow> distinct (map ao_clientOpId ops) \<Longrightarrow> \<forall>op \<in> set ops. \<forall>r \<in> set (ao_blobRefs op). sv_blobs (view s) r \<noteq> None \<Longrightarrow>
      \<exists>s' r. ok s' \<and> appended (view s) ops (view s') \<and> api_appendOps api cursor ops s = (s', Inr r)"

section \<open>A log behind a cursor\<close>

lemma filter_after:
  assumes "sorted_wrt (<) (map f xs)" and "0 < n" and "n \<le> length (filter (\<lambda>x. (a :: nat) < f x) xs)"
  shows "filter (\<lambda>x. f (last (take n (filter (\<lambda>x. a < f x) xs))) < f x) xs = drop n (filter (\<lambda>x. a < f x) xs)"
proof -
  let ?ys = "filter (\<lambda>x. a < f x) xs"
  let ?z = "last (take n ?ys)"
  have s: "sorted_wrt (\<lambda>x y. f x < f y) ?ys" using assms(1) by (simp add: sorted_wrt_map sorted_wrt_filter)
  have ne: "take n ?ys \<noteq> []" using assms(2,3) by (cases ?ys) auto
  then have z: "?z \<in> set (take n ?ys)" by (rule last_in_set)
  then have "?z \<in> set ?ys" by (rule in_set_takeD)
  then have az: "a < f ?z" by simp
  have "filter (\<lambda>x. f ?z < f x) xs = filter (\<lambda>x. f ?z < f x) ?ys" using az by (auto simp: filter_filter intro!: filter_cong)
  also have "\<dots> = filter (\<lambda>x. f ?z < f x) (take n ?ys) @ filter (\<lambda>x. f ?z < f x) (drop n ?ys)"
    by (metis append_take_drop_id filter_append)
  also have "filter (\<lambda>x. f ?z < f x) (take n ?ys) = []"
  proof -
    have "sorted_wrt (\<lambda>x y. f x < f y) (butlast (take n ?ys) @ [?z])" using s ne sorted_wrt_take by (simp del: butlast_take)
    then have "\<forall>x \<in> set (butlast (take n ?ys)). f x < f ?z" by (simp add: sorted_wrt_append)
    moreover have "set (take n ?ys) = insert ?z (set (butlast (take n ?ys)))"
      using ne by (metis Un_commute append_butlast_last_id insert_is_Un list.set(1) list.set(2) set_append)
    ultimately have "\<forall>x \<in> set (take n ?ys). \<not> f ?z < f x" by fastforce
    then show ?thesis by (simp add: filter_empty_conv)
  qed
  also have "filter (\<lambda>x. f ?z < f x) (drop n ?ys) = drop n ?ys"
  proof -
    have "sorted_wrt (\<lambda>x y. f x < f y) (take n ?ys @ drop n ?ys)" using s by simp
    then have "\<forall>x \<in> set (drop n ?ys). f ?z < f x" using z by (simp add: sorted_wrt_append del: append_take_drop_id)
    then show ?thesis by (simp add: filter_id_conv)
  qed
  finally show ?thesis by simp
qed

definition behind :: "server_view \<Rightarrow> nat \<Rightarrow> op_record list" where
  "behind v cursor = filter (\<lambda>r. cursor < or_seq r) (sv_log v)"

definition end_cursor :: "op_record list \<Rightarrow> nat \<Rightarrow> nat" where
  "end_cursor rs cursor = (if rs = [] then cursor else or_seq (last rs))"

lemma page_all:
  "length (behind v c) \<le> n \<Longrightarrow>
     log_page (sv_log v) c n = \<lparr> pr_ops = behind v c, pr_nextCursor = end_cursor (behind v c) c, pr_hasMore = False \<rparr>"
  by (cases n) (auto simp: log_page_def behind_def end_cursor_def Let_def)

lemma page_more:
  assumes "sorted_wrt (<) (map or_seq (sv_log v))" and "0 < n" and "n < length (behind v c)"
  obtains c' where "log_page (sv_log v) c n = \<lparr> pr_ops = take n (behind v c), pr_nextCursor = c', pr_hasMore = True \<rparr>"
    and "behind v c' = drop n (behind v c)" and "take n (behind v c) \<noteq> []"
proof -
  let ?c = "or_seq (last (take n (behind v c)))"
  have ne: "take n (behind v c) \<noteq> []" using assms(2,3) by (cases "behind v c") auto
  have "log_page (sv_log v) c n = \<lparr> pr_ops = take n (behind v c), pr_nextCursor = ?c, pr_hasMore = True \<rparr>"
    using ne assms(3) by (simp add: log_page_def behind_def Let_def)
  moreover have "behind v ?c = drop n (behind v c)"
    using filter_after [OF assms(1,2), of c] assms(3) by (simp add: behind_def)
  ultimately show thesis using that ne by blast
qed

lemma end_cursor_drop: "n < length rs \<Longrightarrow> end_cursor (drop n rs) c = end_cursor rs d"
  by (auto simp: end_cursor_def)

definition pulled_of :: "'s client_env \<Rightarrow> op_record \<Rightarrow> pulled_op" where
  "pulled_of env r = \<lparr> po_seq = or_seq r, po_op = projr (decryptOp (ce_web env) (ce_crypto env) (or_ciphertext r)) \<rparr>"

definition legible :: "'s client_env \<Rightarrow> op_record list \<Rightarrow> bool" where
  "legible env rs = (\<forall>r \<in> set rs. \<exists>p. decryptOp (ce_web env) (ce_crypto env) (or_ciphertext r) = Inr p)"

lemma decrypt_legible: "legible env rs \<Longrightarrow> decrypt_records env rs = Inr (map (pulled_of env) rs)"
  by (induction rs) (auto simp: legible_def pulled_of_def)

lemma not_cancelled: "\<not> ce_cancelled env (cl_checks c) \<Longrightarrow> check_cancel env c = (c\<lparr> cl_checks := Suc (cl_checks c) \<rparr>, Inr ())"
  by (simp add: check_cancel_def throwIfCancelled_def)

section \<open>Pulling\<close>

context sync_server
begin

definition usable :: "'s client_env \<Rightarrow> bool" where
  "usable env = (ce_api env = api \<and> (\<forall>n. \<not> ce_cancelled env n))"

lemma pull_loop_complete:
  assumes "usable env" and "0 < ce_opsLimit env" and "ok (cl_server c)" and "legible env (sv_log (view (cl_server c)))"
    and "length (behind (view (cl_server c)) cursor) < k"
  shows "\<exists>c'. pull_loop k env cursor ops c =
      (c', Inr (ops @ map (pulled_of env) (behind (view (cl_server c)) cursor), end_cursor (behind (view (cl_server c)) cursor) cursor)) \<and>
    ok (cl_server c') \<and> view (cl_server c') = view (cl_server c)"
  using assms
proof (induction k arbitrary: cursor ops c)
  case (Suc k)
  let ?v = "view (cl_server c)" and ?n = "ce_opsLimit env"
  have cancel: "check_cancel env c = (c\<lparr> cl_checks := Suc (cl_checks c) \<rparr>, Inr ())"
    using Suc.prems(1) by (simp add: not_cancelled usable_def)
  from pull [OF Suc.prems(3), of cursor ?n] obtain s' where
    s': "ok s'" "view s' = ?v" "api_pullOps api cursor ?n (cl_server c) = (s', Inr (log_page (sv_log ?v) cursor ?n))" by blast
  let ?c = "c\<lparr> cl_checks := Suc (cl_checks c), cl_server := s' \<rparr>"
  have page: "on_server (api_pullOps (ce_api env) cursor ?n) (c\<lparr> cl_checks := Suc (cl_checks c) \<rparr>) =
      (?c, Inr (log_page (sv_log ?v) cursor ?n))"
    using s'(3) Suc.prems(1) by (simp add: on_server_def usable_def)
  have legible: "legible env (behind ?v cursor)" using Suc.prems(4) by (simp add: legible_def behind_def)
  show ?case
  proof (cases "length (behind ?v cursor) \<le> ?n")
    case True
    then show ?thesis using decrypt_legible [OF legible] s'
      by (simp add: bindE_def cancel page page_all)
  next
    case False
    then have less: "?n < length (behind ?v cursor)" by simp
    from page_more [OF sorted_log [OF Suc.prems(3)] Suc.prems(2) less] obtain d where d:
      "log_page (sv_log ?v) cursor ?n = \<lparr> pr_ops = take ?n (behind ?v cursor), pr_nextCursor = d, pr_hasMore = True \<rparr>"
      "behind ?v d = drop ?n (behind ?v cursor)" "take ?n (behind ?v cursor) \<noteq> []" .
    have "legible env (take ?n (behind ?v cursor))" using legible by (auto simp: legible_def dest: in_set_takeD)
    note dec = decrypt_legible [OF this]
    have "length (behind (view (cl_server ?c)) d) < k" using Suc.prems(2,5) less s'(2) d(2) by simp
    then obtain c' where c': "pull_loop k env d (ops @ map (pulled_of env) (take ?n (behind ?v cursor))) ?c =
        (c', Inr ((ops @ map (pulled_of env) (take ?n (behind ?v cursor))) @ map (pulled_of env) (behind ?v d), end_cursor (behind ?v d) d))"
      "ok (cl_server c')" "view (cl_server c') = ?v"
      using Suc.IH [of ?c d "ops @ map (pulled_of env) (take ?n (behind ?v cursor))"] Suc.prems(1,2,4) s' by auto
    have "map (pulled_of env) (take ?n (behind ?v cursor)) @ map (pulled_of env) (behind ?v d) = map (pulled_of env) (behind ?v cursor)"
      by (metis append_take_drop_id d(2) map_append)
    moreover have "end_cursor (behind ?v d) d = end_cursor (behind ?v cursor) cursor" using d(2) less end_cursor_drop by metis
    ultimately show ?thesis using c' d dec by (simp add: bindE_def cancel page)
  qed
qed simp

lemma pull_complete:
  assumes "usable env" and "0 < ce_opsLimit env" and "ok (cl_server c)" and "legible env (sv_log (view (cl_server c)))"
    and "length (sv_log (view (cl_server c))) < ce_fuel env"
  shows "\<exists>c'. pullAll env cursor c =
      (c', Inr (map (pulled_of env) (behind (view (cl_server c)) cursor), end_cursor (behind (view (cl_server c)) cursor) cursor)) \<and>
    ok (cl_server c') \<and> view (cl_server c') = view (cl_server c)"
proof -
  have "length (behind (view (cl_server c)) cursor) < ce_fuel env"
    using assms(5) by (auto simp: behind_def intro: le_less_trans [OF length_filter_le])
  from pull_loop_complete [OF assms(1-4) this, of "[]"] show ?thesis by (simp add: pullAll_def)
qed

end

section \<open>Pushing\<close>

definition carries :: "(string, bytes) jsmap \<Rightarrow> Operation \<Rightarrow> bool" where
  "carries store op = (op_type op \<noteq> OpDelete \<and> jm_get store (op_contentHash op) \<noteq> None)"

definition blind :: "'s client_env \<Rightarrow> string \<Rightarrow> string" where
  "blind env h = projr (blindHash (ce_web env) (ce_crypto env) h)"

definition record_of :: "'s client_env \<Rightarrow> (string, bytes) jsmap \<Rightarrow> Operation \<Rightarrow> append_op \<Rightarrow> bool" where
  "record_of env store op r =
     (ao_clientOpId r = op_id op \<and> decryptOp (ce_web env) (ce_crypto env) (ao_ciphertext r) = Inr op \<and>
      ao_blobRefs r = (if carries store op then [blind env (op_contentHash op)] else []))"

definition blobs_of :: "'s client_env \<Rightarrow> (string, bytes) jsmap \<Rightarrow> Operation list \<Rightarrow> (string, bytes) jsmap \<Rightarrow> bool" where
  "blobs_of env store ops blobs =
     ((\<forall>op \<in> set ops. carries store op \<longrightarrow> jm_get blobs (blind env (op_contentHash op)) \<noteq> None) \<and>
      (\<forall>b x. jm_get blobs b = Some x \<longrightarrow>
         (\<exists>op \<in> set ops. carries store op \<and> b = blind env (op_contentHash op) \<and> jm_get store (op_contentHash op) = Some x)))"

definition sealing :: "'s client_env \<Rightarrow> bool" where
  "sealing env = (aead (ce_web env) \<and> isReady (ce_crypto env))"

lemma blind_ready: "sealing env \<Longrightarrow> blindHash (ce_web env) (ce_crypto env) h = Inr (blind env h)"
  by (auto simp: sealing_def isReady_def blindHash_def blind_def)

lemma push_record_ok:
  assumes "sealing env" and "decodes (ce_web env) (op_line op)" and "blobs_of env store seen blobs"
    and "list_all2 (record_of env store) seen recs"
  shows "\<exists>blobs' recs' c'. push_record env store op (blobs, recs) c = (c', Inr (blobs', recs')) \<and> cl_server c' = cl_server c \<and>
    cl_checks c' = cl_checks c \<and> blobs_of env store (seen @ [op]) blobs' \<and> list_all2 (record_of env store) (seen @ [op]) recs'"
proof -
  let ?w = "ce_web env" and ?k = "ce_crypto env"
  have "aead ?w" "isReady ?k" using assms(1) by (auto simp: sealing_def)
  from op_envelope_roundtrip [OF this assms(2), of "cl_nonces c"] obtain t where
    t: "encryptOp ?w ?k (cl_nonces c) op = Inr t" "decryptOp ?w ?k t = Inr op" by blast
  let ?refs = "if carries store op then [blind env (op_contentHash op)] else []"
  let ?blobs = "if carries store op then jm_set (blind env (op_contentHash op)) (the (jm_get store (op_contentHash op))) blobs else blobs"
  let ?r = "\<lparr> ao_clientOpId = op_id op, ao_ciphertext = t, ao_blobRefs = ?refs \<rparr>"
  have "push_record env store op (blobs, recs) c = (c\<lparr> cl_nonces := cl_nonces c + 1 \<rparr>, Inr (?blobs, recs @ [?r]))"
    using t(1) blind_ready [OF assms(1)]
    by (cases "jm_get store (op_contentHash op)")
      (auto simp: push_record_def carries_def with_nonce_def bindE_def Let_def)
  moreover have "blobs_of env store (seen @ [op]) ?blobs"
    using assms(3) unfolding blobs_of_def carries_def by auto
  moreover have "list_all2 (record_of env store) (seen @ [op]) (recs @ [?r])"
    using assms(4) t(2) by (auto simp: record_of_def list_all2_appendI)
  ultimately show ?thesis by (metis (no_types, lifting) client.select_convs(1,2) client.surjective client.update_convs(3))
qed

lemma push_records_ok:
  assumes "sealing env" and "\<forall>op \<in> set ops. decodes (ce_web env) (op_line op)" and "blobs_of env store seen blobs"
    and "list_all2 (record_of env store) seen recs"
  shows "\<exists>blobs' recs' c'. iterE (push_record env store) ops (blobs, recs) c = (c', Inr (blobs', recs')) \<and> cl_server c' = cl_server c \<and>
    blobs_of env store (seen @ ops) blobs' \<and> list_all2 (record_of env store) (seen @ ops) recs'"
  using assms(2-4)
proof (induction ops arbitrary: seen blobs recs c)
  case (Cons op ops)
  have "decodes (ce_web env) (op_line op)" using Cons.prems(1) by simp
  from push_record_ok [OF assms(1) this Cons.prems(2,3), of c] obtain b1 r1 c1 where
    1: "push_record env store op (blobs, recs) c = (c1, Inr (b1, r1))" "cl_server c1 = cl_server c"
      "blobs_of env store (seen @ [op]) b1" "list_all2 (record_of env store) (seen @ [op]) r1" by blast
  have "\<forall>op \<in> set ops. decodes (ce_web env) (op_line op)" using Cons.prems(1) by simp
  from Cons.IH [OF this 1(3,4), of c1] show ?case using 1(1,2) by (auto simp: bindE_def)
qed simp

definition uploaded :: "'s client_env \<Rightarrow> (string, bytes) jsmap \<Rightarrow> server_view \<Rightarrow> server_view \<Rightarrow> bool" where
  "uploaded env blobs v v' =
     (sv_log v' = sv_log v \<and> sv_seqs v' = sv_seqs v \<and> sv_blobs v \<subseteq>\<^sub>m sv_blobs v' \<and>
      (\<forall>h e. sv_blobs v h = None \<and> sv_blobs v' h = Some e \<longrightarrow>
         (\<exists>x. jm_get blobs h = Some x \<and> decryptBlob (ce_web env) (ce_crypto env) e = Inr x)))"

lemma uploaded_refl [simp]: "uploaded env blobs v v"
  by (auto simp: uploaded_def)

lemma uploaded_trans:
  assumes "uploaded env blobs v v1" and "uploaded env blobs v1 v2"
  shows "uploaded env blobs v v2"
  unfolding uploaded_def
proof (intro conjI allI impI)
  show "sv_log v2 = sv_log v" "sv_seqs v2 = sv_seqs v" "sv_blobs v \<subseteq>\<^sub>m sv_blobs v2"
    using assms map_le_trans by (auto simp: uploaded_def)
  fix h e assume h: "sv_blobs v h = None \<and> sv_blobs v2 h = Some e"
  show "\<exists>x. jm_get blobs h = Some x \<and> decryptBlob (ce_web env) (ce_crypto env) e = Inr x"
  proof (cases "sv_blobs v1 h")
    case None
    then show ?thesis using h assms(2) by (auto simp: uploaded_def)
  next
    case (Some e1)
    then have "e1 = e" using h assms(2) by (auto simp: uploaded_def map_le_def dom_def)
    then show ?thesis using Some h assms(1) by (auto simp: uploaded_def)
  qed
qed

definition sealed_from :: "'s client_env \<Rightarrow> (string, bytes) jsmap \<Rightarrow> (string \<times> bytes) list \<Rightarrow> bool" where
  "sealed_from env blobs bs =
     (\<forall>(h, e) \<in> set bs. \<exists>x. jm_get blobs h = Some x \<and> decryptBlob (ce_web env) (ce_crypto env) e = Inr x)"

lemma uploaded_put: "sealed_from env blobs bs \<Longrightarrow> uploaded env blobs v (v\<lparr> sv_blobs := map_of bs ++ sv_blobs v \<rparr>)"
  by (auto simp: uploaded_def sealed_from_def map_le_def map_add_def split: option.splits dest!: map_of_SomeD)

lemma seal_blob_ok:
  assumes "sealing env" and "jm_get blobs h \<noteq> None"
  shows "\<exists>c' e. seal_blob env blobs h c = (c', Inr (h, e)) \<and> cl_server c' = cl_server c \<and> sealed_from env blobs [(h, e)]"
proof -
  obtain x where x: "jm_get blobs h = Some x" using assms(2) by blast
  obtain e where e: "encryptBlob (ce_web env) (ce_crypto env) (cl_nonces c) x = Inr e"
    using assms(1) seal_ready [of "ce_crypto env" "ce_web env" "cl_nonces c" x] by (auto simp: sealing_def encryptBlob_def)
  then have "decryptBlob (ce_web env) (ce_crypto env) e = Inr x" using assms(1) blob_roundtrip by (auto simp: sealing_def)
  then show ?thesis using x e by (simp add: seal_blob_def with_nonce_def bindE_def sealed_from_def)
qed

lemma seal_blobs_ok:
  assumes "sealing env" and "\<forall>h \<in> set hs. jm_get blobs h \<noteq> None"
  shows "\<exists>c' bs. mapE (seal_blob env blobs) hs c = (c', Inr bs) \<and> cl_server c' = cl_server c \<and> map fst bs = hs \<and> sealed_from env blobs bs"
  using assms(2)
proof (induction hs arbitrary: c)
  case (Cons h hs)
  have "jm_get blobs h \<noteq> None" using Cons.prems by simp
  from seal_blob_ok [OF assms(1) this, of c] obtain c1 e where
    1: "seal_blob env blobs h c = (c1, Inr (h, e))" "cl_server c1 = cl_server c" "sealed_from env blobs [(h, e)]" by blast
  obtain c2 bs where 2: "mapE (seal_blob env blobs) hs c1 = (c2, Inr bs)" "cl_server c2 = cl_server c1" "map fst bs = hs" "sealed_from env blobs bs"
    using Cons by force
  then show ?case using 1 by (simp add: bindE_def sealed_from_def)
qed (simp add: sealed_from_def)

lemma concat_chunks: "0 < n \<Longrightarrow> concat (chunks_of n xs) = xs"
proof (induction n xs rule: chunks_of.induct)
  case (1 n xs)
  then show ?case by (subst chunks_of.simps) simp
qed

lemma appended_refl: "appended v [] v"
  by (simp add: appended_def)

lemma appended_trans:
  assumes "appended v xs v1" and "appended v1 ys v2" and "distinct (map ao_clientOpId (xs @ ys))"
  shows "appended v (xs @ ys) v2"
  unfolding appended_def
proof (intro conjI ballI)
  show "sv_blobs v2 = sv_blobs v" "prefix (sv_log v) (sv_log v2)" "sv_seqs v \<subseteq>\<^sub>m sv_seqs v2"
    using assms(1,2) prefix_order.trans map_le_trans by (auto simp: appended_def)
  show "length (sv_log v2) \<le> length (sv_log v) + length (xs @ ys)" using assms(1,2) by (auto simp: appended_def)
  show "r \<in> set (sv_log v) \<or> (\<exists>op \<in> set (xs @ ys). or_ciphertext r = ao_ciphertext op)" if "r \<in> set (sv_log v2)" for r
    using assms(1,2) that unfolding appended_def set_append by blast
  show "dom (sv_seqs v2) \<subseteq> dom (sv_seqs v) \<union> ao_clientOpId ` set (xs @ ys)"
    using assms(1,2) unfolding appended_def set_append image_Un by blast
  obtain as where as: "sv_log v1 = sv_log v @ as" using assms(1) by (auto simp: appended_def prefix_def)
  obtain bs where bs: "sv_log v2 = sv_log v1 @ bs" using assms(2) by (auto simp: appended_def prefix_def)
  have "sv_seqs v1 (ao_clientOpId op) = None \<longleftrightarrow> sv_seqs v (ao_clientOpId op) = None" if "op \<in> set ys" for op
  proof -
    have "ao_clientOpId op \<notin> ao_clientOpId ` set xs" using that assms(3) by auto
    then show ?thesis using assms(1) by (auto simp: appended_def dom_def map_le_def)
  qed
  then have "filter (\<lambda>op. sv_seqs v1 (ao_clientOpId op) = None) ys = filter (\<lambda>op. sv_seqs v (ao_clientOpId op) = None) ys"
    by (intro filter_cong) auto
  then show "map or_ciphertext (drop (length (sv_log v)) (sv_log v2)) =
      map ao_ciphertext (filter (\<lambda>op. sv_seqs v (ao_clientOpId op) = None) (xs @ ys))"
    using assms(1,2) by (simp add: appended_def as bs)
next
  fix op assume "op \<in> set (xs @ ys)"
  then consider (x) "op \<in> set xs" | (y) "op \<in> set ys" by auto
  then show "\<exists>n. sv_seqs v2 (ao_clientOpId op) = Some n \<and>
         (sv_seqs v (ao_clientOpId op) = None \<longrightarrow>
            (\<exists>r \<in> set (sv_log v2). or_seq r = n \<and> or_ciphertext r = ao_ciphertext op \<and> (\<forall>q \<in> set (sv_log v). or_seq q < n)))"
  proof cases
    case x
    then obtain n where n: "sv_seqs v1 (ao_clientOpId op) = Some n" "sv_seqs v (ao_clientOpId op) = None \<longrightarrow>
            (\<exists>r \<in> set (sv_log v1). or_seq r = n \<and> or_ciphertext r = ao_ciphertext op \<and> (\<forall>q \<in> set (sv_log v). or_seq q < n))"
      using assms(1) unfolding appended_def by blast
    have "sv_seqs v2 (ao_clientOpId op) = Some n" using n(1) assms(2) by (auto simp: appended_def map_le_def dom_def)
    moreover have "set (sv_log v1) \<subseteq> set (sv_log v2)" using assms(2) set_mono_prefix by (auto simp: appended_def)
    ultimately show ?thesis using n(2) by (intro exI [of _ n]) auto
  next
    case y
    then obtain n where n: "sv_seqs v2 (ao_clientOpId op) = Some n" "sv_seqs v1 (ao_clientOpId op) = None \<longrightarrow>
            (\<exists>r \<in> set (sv_log v2). or_seq r = n \<and> or_ciphertext r = ao_ciphertext op \<and> (\<forall>q \<in> set (sv_log v1). or_seq q < n))"
      using assms(2) unfolding appended_def by blast
    have "ao_clientOpId op \<notin> ao_clientOpId ` set xs" using y assms(3) by auto
    then have "sv_seqs v1 (ao_clientOpId op) = None" if "sv_seqs v (ao_clientOpId op) = None"
      using assms(1) that by (auto simp: appended_def dom_def)
    moreover have "set (sv_log v) \<subseteq> set (sv_log v1)" using assms(1) set_mono_prefix by (auto simp: appended_def)
    ultimately show ?thesis using n by (intro exI [of _ n]) auto
  qed
qed

end
