(* ===== verification/SyncPush.thy ===== *)
theory SyncPush
  imports SyncServer
begin

text \<open>
  Inside the contract of a server: the upload leaves every missing blob on the server under an
  envelope that opens to its content, and a push leaves every pending operation in the log.  The
  in-memory server keeps the contract, and over it one device pulls what another pushed.
\<close>

context sync_server
begin

lemma upload_batch_ok:
  assumes "usable env" and "sealing env" and "ok (cl_server c)" and "\<forall>h \<in> set hs. jm_get blobs h \<noteq> None"
  shows "\<exists>c'. uploadBlobBatch env blobs hs c = (c', Inr ()) \<and> ok (cl_server c') \<and>
    uploaded env blobs (view (cl_server c)) (view (cl_server c')) \<and> (\<forall>h \<in> set hs. sv_blobs (view (cl_server c')) h \<noteq> None)"
proof -
  from seal_blobs_ok [OF assms(2,4), of c] obtain c1 bs where
    1: "mapE (seal_blob env blobs) hs c = (c1, Inr bs)" "cl_server c1 = cl_server c" "map fst bs = hs" "sealed_from env blobs bs" by blast
  from put_batch [OF assms(3), of bs] obtain s' where
    2: "ok s'" "view s' = (view (cl_server c))\<lparr> sv_blobs := map_of bs ++ sv_blobs (view (cl_server c)) \<rparr>"
      "api_putBlobBatch api bs (cl_server c) = (s', Inr ())" by blast
  have "uploadBlobBatch env blobs hs c = (c1\<lparr> cl_server := s' \<rparr>, Inr ())"
    using 1(1,2) 2(3) assms(1) by (simp add: uploadBlobBatch_def bindE_def on_server_def usable_def)
  moreover have "sv_blobs (view s') h \<noteq> None" if "h \<in> set hs" for h
  proof -
    have "h \<in> fst ` set bs" using that 1(3) by (metis list.set_map)
    then have "map_of bs h \<noteq> None" by (simp add: map_of_eq_None_iff)
    then show ?thesis using 2(2) by (cases "sv_blobs (view (cl_server c)) h") (auto simp: map_add_def)
  qed
  moreover have "uploaded env blobs (view (cl_server c)) (view s')" unfolding 2(2) by (rule uploaded_put [OF 1(4)])
  ultimately show ?thesis using 2(1) by (intro exI [of _ "c1\<lparr> cl_server := s' \<rparr>"]) auto
qed

lemma upload_one_ok:
  assumes "usable env" and "sealing env" and "ok (cl_server c)" and "jm_get blobs h \<noteq> None"
  shows "\<exists>c'. uploadOneBlob env blobs h c = (c', Inr ()) \<and> ok (cl_server c') \<and>
    uploaded env blobs (view (cl_server c)) (view (cl_server c')) \<and> (\<forall>g \<in> set [h]. sv_blobs (view (cl_server c')) g \<noteq> None)"
proof -
  from seal_blob_ok [OF assms(2,4), of c] obtain c1 e where
    1: "seal_blob env blobs h c = (c1, Inr (h, e))" "cl_server c1 = cl_server c" "sealed_from env blobs [(h, e)]" by blast
  from put [OF assms(3), of h e] obtain s' where
    2: "ok s'" "view s' = (view (cl_server c))\<lparr> sv_blobs := [h \<mapsto> e] ++ sv_blobs (view (cl_server c)) \<rparr>"
      "api_putBlob api h e (cl_server c) = (s', Inr ())" by blast
  have "uploadOneBlob env blobs h c = (c1\<lparr> cl_server := s' \<rparr>, Inr ())"
    using 1(1,2) 2(3) assms(1) by (simp add: uploadOneBlob_def bindE_def on_server_def usable_def)
  moreover have "sv_blobs (view s') h \<noteq> None" using 2(2) by (cases "sv_blobs (view (cl_server c)) h") (simp_all add: map_add_def)
  moreover have "uploaded env blobs (view (cl_server c)) (view s')"
    using uploaded_put [OF 1(3), of "view (cl_server c)"] 2(2) by simp
  ultimately show ?thesis using 2(1) by (intro exI [of _ "c1\<lparr> cl_server := s' \<rparr>"]) auto
qed

lemma units_ok:
  assumes "usable env" and "ok (cl_server c)"
    and "\<And>x c. x \<in> set xs \<Longrightarrow> ok (cl_server c) \<Longrightarrow> \<exists>c'. u x c = (c', Inr ()) \<and> ok (cl_server c') \<and>
      uploaded env blobs (view (cl_server c)) (view (cl_server c')) \<and> (\<forall>h \<in> set (of_unit x). sv_blobs (view (cl_server c')) h \<noteq> None)"
  shows "\<exists>c'. iterE (run_unit env) (map u xs) () c = (c', Inr ()) \<and> ok (cl_server c') \<and>
    uploaded env blobs (view (cl_server c)) (view (cl_server c')) \<and>
    (\<forall>x \<in> set xs. \<forall>h \<in> set (of_unit x). sv_blobs (view (cl_server c')) h \<noteq> None)"
  using assms(2,3)
proof (induction xs arbitrary: c)
  case (Cons x xs)
  have cancel: "check_cancel env c = (c\<lparr> cl_checks := Suc (cl_checks c) \<rparr>, Inr ())"
    using assms(1) by (simp add: not_cancelled usable_def)
  have "ok (cl_server (c\<lparr> cl_checks := Suc (cl_checks c) \<rparr>))" using Cons.prems(1) by simp
  from Cons.prems(2) [OF _ this, of x] obtain c1 where
    1: "u x (c\<lparr> cl_checks := Suc (cl_checks c) \<rparr>) = (c1, Inr ())" "ok (cl_server c1)"
      "uploaded env blobs (view (cl_server c)) (view (cl_server c1))" "\<forall>h \<in> set (of_unit x). sv_blobs (view (cl_server c1)) h \<noteq> None"
    by auto
  obtain c2 where 2: "iterE (run_unit env) (map u xs) () c1 = (c2, Inr ())" "ok (cl_server c2)"
      "uploaded env blobs (view (cl_server c1)) (view (cl_server c2))"
      "\<forall>x \<in> set xs. \<forall>h \<in> set (of_unit x). sv_blobs (view (cl_server c2)) h \<noteq> None"
    using Cons.IH [OF 1(2)] Cons.prems(2) by auto
  have "iterE (run_unit env) (map u (x # xs)) () c = (c2, Inr ())"
    using cancel 1(1) 2(1) by (simp add: run_unit_def bindE_def)
  moreover have "sv_blobs (view (cl_server c2)) h \<noteq> None" if "h \<in> set (of_unit x)" for h
    using 1(4) 2(3) that by (auto simp: uploaded_def map_le_def dom_def)
  ultimately show ?case using 2 uploaded_trans [OF 1(3) 2(3)] by auto
qed simp

lemma upload_ok:
  assumes "usable env" and "sealing env" and "ok (cl_server c)" and "\<forall>h \<in> set missing. jm_get blobs h \<noteq> None"
    and "1 \<le> ce_blobBatchMaxCount env"
  shows "\<exists>c'. uploadBlobs env missing blobs c = (c', Inr ()) \<and> ok (cl_server c') \<and>
    uploaded env blobs (view (cl_server c)) (view (cl_server c')) \<and> (\<forall>h \<in> set missing. sv_blobs (view (cl_server c')) h \<noteq> None)"
proof (cases "missing = []")
  case True
  then show ?thesis using assms(3) by (simp add: uploadBlobs_def)
next
  case False
  obtain bs ss where plan: "planBlobUpload env missing blobs = Inr (bs, ss)" "set (concat bs) \<union> set ss = set missing"
    using plan_covers [OF assms(4,5)] by blast
  have b: "\<forall>h \<in> set b. jm_get blobs h \<noteq> None" if "b \<in> set bs" for b using that plan(2) assms(4) by auto
  have s: "jm_get blobs h \<noteq> None" if "h \<in> set ss" for h using that plan(2) assms(4) by auto
  from units_ok [where of_unit = "\<lambda>b. b" and u = "uploadBlobBatch env blobs" and xs = bs and blobs = blobs, OF assms(1,3)]
  obtain c1 where 1: "iterE (run_unit env) (map (uploadBlobBatch env blobs) bs) () c = (c1, Inr ())" "ok (cl_server c1)"
      "uploaded env blobs (view (cl_server c)) (view (cl_server c1))"
      "\<forall>b \<in> set bs. \<forall>h \<in> set b. sv_blobs (view (cl_server c1)) h \<noteq> None"
    using upload_batch_ok [OF assms(1,2) _ b] by blast
  from units_ok [where of_unit = "\<lambda>h. [h]" and u = "uploadOneBlob env blobs" and xs = ss and blobs = blobs, OF assms(1) 1(2)]
  obtain c2 where 2: "iterE (run_unit env) (map (uploadOneBlob env blobs) ss) () c1 = (c2, Inr ())" "ok (cl_server c2)"
      "uploaded env blobs (view (cl_server c1)) (view (cl_server c2))"
      "\<forall>x \<in> set ss. \<forall>h \<in> set [x]. sv_blobs (view (cl_server c2)) h \<noteq> None"
    using upload_one_ok [OF assms(1,2) _ s] by blast
  have "uploadBlobs env missing blobs c = (c2\<lparr> cl_checks := Suc (cl_checks c2) \<rparr>, Inr ())"
    using False plan(1) 1(1) 2(1) assms(1)
    by (simp add: uploadBlobs_def bindE_def iterE_append not_cancelled usable_def)
  moreover have "sv_blobs (view (cl_server c2)) h \<noteq> None" if "h \<in> set missing" for h
  proof -
    have "(\<exists>b \<in> set bs. h \<in> set b) \<or> h \<in> set ss" using that plan(2) by auto
    then show ?thesis using 1(4) 2(3,4) by (force simp: uploaded_def map_le_def dom_def)
  qed
  ultimately show ?thesis using 2(2) uploaded_trans [OF 1(3) 2(3)] by simp
qed

lemma append_batch_ok:
  assumes "usable env" and "ok (cl_server c)" and "distinct (map ao_clientOpId ops)"
    and "\<forall>op \<in> set ops. \<forall>r \<in> set (ao_blobRefs op). sv_blobs (view (cl_server c)) r \<noteq> None"
  shows "\<exists>c' n. appendBatch env ops cursor c = (c', Inr n) \<and> ok (cl_server c') \<and> appended (view (cl_server c)) ops (view (cl_server c'))"
proof -
  from append_ops [OF assms(2-4), of cursor] obtain s' r where
    "ok s'" "appended (view (cl_server c)) ops (view s')" "api_appendOps api cursor ops (cl_server c) = (s', Inr r)" by blast
  moreover have "append_retry env ops n cursor c = (c\<lparr> cl_server := s' \<rparr>, Inr (ar_headCursor r))" for n
    using calculation assms(1)
    by (subst append_retry.simps) (simp add: catchE_def bindE_def on_server_def usable_def)
  ultimately show ?thesis by (simp add: appendBatch_def)
qed

lemma append_chunks_ok:
  assumes "usable env" and "ok (cl_server c)" and "distinct (map ao_clientOpId (concat chs))"
    and "\<forall>op \<in> set (concat chs). \<forall>r \<in> set (ao_blobRefs op). sv_blobs (view (cl_server c)) r \<noteq> None"
  shows "\<exists>c' n. iterE (\<lambda>batch cursor. bindE (check_cancel env) (\<lambda>_. appendBatch env batch cursor)) chs cursor c = (c', Inr n) \<and>
    ok (cl_server c') \<and> appended (view (cl_server c)) (concat chs) (view (cl_server c'))"
  using assms(2-4)
proof (induction chs arbitrary: c cursor)
  case Nil
  then show ?case by (simp add: appended_refl)
next
  case (Cons ch chs)
  let ?c = "c\<lparr> cl_checks := Suc (cl_checks c) \<rparr>"
  have cancel: "check_cancel env c = (?c, Inr ())" using assms(1) by (simp add: not_cancelled usable_def)
  have "ok (cl_server ?c)" "distinct (map ao_clientOpId ch)"
    "\<forall>op \<in> set ch. \<forall>r \<in> set (ao_blobRefs op). sv_blobs (view (cl_server ?c)) r \<noteq> None"
    using Cons.prems by auto
  from append_batch_ok [OF assms(1) this, of cursor] obtain c1 n where
    1: "appendBatch env ch cursor ?c = (c1, Inr n)" "ok (cl_server c1)" "appended (view (cl_server c)) ch (view (cl_server c1))" by auto
  have "sv_blobs (view (cl_server c1)) = sv_blobs (view (cl_server c))" using 1(3) by (simp add: appended_def)
  then have "\<forall>op \<in> set (concat chs). \<forall>r \<in> set (ao_blobRefs op). sv_blobs (view (cl_server c1)) r \<noteq> None" using Cons.prems(3) by auto
  moreover have "distinct (map ao_clientOpId (concat chs))" using Cons.prems(2) by simp
  ultimately obtain c2 m where
    2: "iterE (\<lambda>batch cursor. bindE (check_cancel env) (\<lambda>_. appendBatch env batch cursor)) chs n c1 = (c2, Inr m)"
      "ok (cl_server c2)" "appended (view (cl_server c1)) (concat chs) (view (cl_server c2))"
    using Cons.IH [OF 1(2), of n] by blast
  have "distinct (map ao_clientOpId (ch @ concat chs))" using Cons.prems(2) by simp
  from appended_trans [OF 1(3) 2(3) this] show ?case using cancel 1(1) 2(1,2) by (simp add: bindE_def)
qed

lemma push_complete:
  assumes "usable env" and "sealing env" and "ok (cl_server c)" and "1 \<le> ce_blobBatchMaxCount env" and "1 \<le> ce_maxOpsPerAppend env"
    and "distinct (map op_id (vs_pendingOps local))" and "\<forall>op \<in> set (vs_pendingOps local). decodes (ce_web env) (op_line op)"
  shows "\<exists>c' v records blobs. pushPendingOps env local cursor c = (c', Inr ()) \<and> ok (cl_server c') \<and>
    list_all2 (record_of env (vs_contentStore local)) (vs_pendingOps local) records \<and>
    blobs_of env (vs_contentStore local) (vs_pendingOps local) blobs \<and>
    uploaded env blobs (view (cl_server c)) v \<and> appended v records (view (cl_server c')) \<and>
    (\<forall>op \<in> set (vs_pendingOps local). carries (vs_contentStore local) op \<longrightarrow> sv_blobs v (blind env (op_contentHash op)) \<noteq> None)"
proof -
  let ?st = "vs_contentStore local" and ?ops = "vs_pendingOps local"
  have "blobs_of env ?st [] []" by (simp add: blobs_of_def)
  from push_records_ok [OF assms(2,7) this, of "[]" c] obtain blobs recs c1 where
    1: "iterE (push_record env ?st) ?ops ([], []) c = (c1, Inr (blobs, recs))" "cl_server c1 = cl_server c"
      "blobs_of env ?st ?ops blobs" "list_all2 (record_of env ?st) ?ops recs" by auto
  have ids: "map ao_clientOpId recs = map op_id ?ops" using 1(4) by (induction rule: list_all2_induct) (auto simp: record_of_def)
  obtain c2 where 2: "(if jm_keys blobs = [] then retE ()
            else bindE (on_server (api_checkBlobs (ce_api env) (jm_keys blobs))) (\<lambda>missing. uploadBlobs env missing blobs)) c1 = (c2, Inr ())"
      "ok (cl_server c2)" "uploaded env blobs (view (cl_server c)) (view (cl_server c2))"
      "\<forall>b \<in> set (jm_keys blobs). sv_blobs (view (cl_server c2)) b \<noteq> None"
  proof (cases "jm_keys blobs = []")
    case True
    then show thesis using that [of c1] assms(3) 1(2) by simp
  next
    case False
    let ?missing = "filter (\<lambda>h. sv_blobs (view (cl_server c)) h = None) (jm_keys blobs)"
    from check [OF assms(3), of "jm_keys blobs"] obtain s' where
      s': "ok s'" "view s' = view (cl_server c)" "api_checkBlobs api (jm_keys blobs) (cl_server c) = (s', Inr ?missing)" by blast
    have "\<forall>h \<in> set ?missing. jm_get blobs h \<noteq> None" by (auto simp: jm_keys_def map_of_eq_None_iff)
    from upload_ok [OF assms(1,2) _ this assms(4), of "c1\<lparr> cl_server := s' \<rparr>"] s' obtain c2 where
      c2: "uploadBlobs env ?missing blobs (c1\<lparr> cl_server := s' \<rparr>) = (c2, Inr ())" "ok (cl_server c2)"
        "uploaded env blobs (view (cl_server c)) (view (cl_server c2))" "\<forall>h \<in> set ?missing. sv_blobs (view (cl_server c2)) h \<noteq> None"
      by auto
    have "sv_blobs (view (cl_server c2)) b \<noteq> None" if "b \<in> set (jm_keys blobs)" for b
      using c2(3,4) that by (cases "sv_blobs (view (cl_server c)) b") (auto simp: uploaded_def map_le_def dom_def)
    then show thesis using that [of c2] c2 False s'(3) assms(1) 1(2) by (simp add: bindE_def on_server_def usable_def)
  qed
  have held: "sv_blobs (view (cl_server c2)) (blind env (op_contentHash op)) \<noteq> None" if "op \<in> set ?ops" "carries ?st op" for op
  proof -
    have "jm_get blobs (blind env (op_contentHash op)) \<noteq> None" using 1(3) that by (simp add: blobs_of_def)
    then show ?thesis using 2(4) by (auto simp: jm_keys_def map_of_eq_None_iff)
  qed
  have "\<forall>r \<in> set recs. \<forall>h \<in> set (ao_blobRefs r). sv_blobs (view (cl_server c2)) h \<noteq> None"
  proof (intro ballI)
    fix r h assume "r \<in> set recs" and h: "h \<in> set (ao_blobRefs r)"
    then obtain op where "op \<in> set ?ops" "record_of env ?st op r" using 1(4) by (metis in_set_conv_nth list_all2_conv_all_nth)
    then show "sv_blobs (view (cl_server c2)) h \<noteq> None" using held h by (auto simp: record_of_def split: if_splits)
  qed
  moreover have cc: "concat (chunks_of (ce_maxOpsPerAppend env) recs) = recs" using assms(5) by (simp add: concat_chunks)
  moreover have "distinct (map ao_clientOpId recs)" using ids assms(6) by simp
  ultimately obtain c3 n where
    3: "iterE (\<lambda>batch cursor. bindE (check_cancel env) (\<lambda>_. appendBatch env batch cursor))
          (chunks_of (ce_maxOpsPerAppend env) recs) cursor c2 = (c3, Inr n)"
      "ok (cl_server c3)" "appended (view (cl_server c2)) recs (view (cl_server c3))"
    using append_chunks_ok [OF assms(1) 2(2), of "chunks_of (ce_maxOpsPerAppend env) recs" cursor] by auto
  have "pushPendingOps env local cursor c = (c3, Inr ())" using 1(1) 2(1) 3(1) by (simp add: pushPendingOps_def bindE_def)
  then show ?thesis using 1(3,4) 2(3) 3(2,3) held by blast
qed

end

section \<open>The in-memory server\<close>

definition fake_view :: "fake_server \<Rightarrow> server_view" where
  "fake_view f = \<lparr> sv_log = fk_log f, sv_blobs = jm_get (fk_blobs f), sv_seqs = jm_get (fk_byClientOpId f) \<rparr>"

lemma fake_view_simps [simp]:
  "sv_log (fake_view f) = fk_log f" "sv_blobs (fake_view f) = jm_get (fk_blobs f)"
  "sv_seqs (fake_view f) = jm_get (fk_byClientOpId f)" "fake_view (claim f) = fake_view f"
  by (simp_all add: fake_view_def)

lemma fake_sorted: "fake_inv f \<Longrightarrow> sorted_wrt (<) (map or_seq (fk_log f))"
  by (simp add: fake_inv_def sorted_wrt_upt del: upt_Suc)

lemma fake_append_one:
  assumes "fake_inv f" and "\<forall>r \<in> set (ao_blobRefs op). jm_get (fk_blobs f) r \<noteq> None"
  shows "\<exists>f' b. append_one op a f = (f', Inr b) \<and> fake_inv f' \<and> appended (fake_view f) [op] (fake_view f')"
proof (cases "jm_get (fk_byClientOpId f) (ao_clientOpId op)")
  case None
  have "missing_ref (fk_blobs f) (ao_blobRefs op) = None" using assms(2) by (simp add: missing_ref_None jm_has_def)
  then obtain f' b where f': "append_one op a f = (f', Inr b)"
    "fk_log f' = fk_log f @ [\<lparr> or_seq = fk_seq f + 1, or_deviceId = [], or_ts = 0,
                              or_ciphertext = ao_ciphertext op, or_blobRefs = ao_blobRefs op \<rparr>]"
    "fk_byClientOpId f' = jm_set (ao_clientOpId op) (fk_seq f + 1) (fk_byClientOpId f)" "fk_blobs f' = fk_blobs f"
    using None by (simp add: append_one_def Let_def)
  have "\<forall>q \<in> set (fk_log f). or_seq q \<le> fk_seq f"
  proof
    fix q assume "q \<in> set (fk_log f)"
    then have "or_seq q \<in> set (map or_seq (fk_log f))" by simp
    then show "or_seq q \<le> fk_seq f" using assms(1) unfolding fake_inv_def by auto
  qed
  then have "appended (fake_view f) [op] (fake_view f')"
    using f' None by (auto simp: appended_def map_le_def dom_def le_imp_less_Suc)
  moreover have "fake_inv f'" using append_one_inv [OF assms(1), of op a] f'(1) by simp
  ultimately show ?thesis using f'(1) by blast
qed (use assms in \<open>auto simp: append_one_def appended_def\<close>)

lemma fake_append_all:
  assumes "fake_inv f" and "distinct (map ao_clientOpId ops)" and "\<forall>op \<in> set ops. \<forall>r \<in> set (ao_blobRefs op). jm_get (fk_blobs f) r \<noteq> None"
  shows "\<exists>f' b. iterE append_one ops a f = (f', Inr b) \<and> fake_inv f' \<and> appended (fake_view f) ops (fake_view f')"
  using assms
proof (induction ops arbitrary: a f)
  case Nil
  then show ?case by (simp add: appended_refl)
next
  case (Cons op ops)
  have "\<forall>r \<in> set (ao_blobRefs op). jm_get (fk_blobs f) r \<noteq> None" using Cons.prems(3) by simp
  from fake_append_one [OF Cons.prems(1) this, of a] obtain f1 b where
    1: "append_one op a f = (f1, Inr b)" "fake_inv f1" "appended (fake_view f) [op] (fake_view f1)" by blast
  have "jm_get (fk_blobs f1) = jm_get (fk_blobs f)" using 1(3) by (simp add: appended_def)
  then have "\<forall>op \<in> set ops. \<forall>r \<in> set (ao_blobRefs op). jm_get (fk_blobs f1) r \<noteq> None" using Cons.prems(3) by simp
  moreover have "distinct (map ao_clientOpId ops)" using Cons.prems(2) by simp
  ultimately obtain f2 b2 where 2: "iterE append_one ops b f1 = (f2, Inr b2)" "fake_inv f2" "appended (fake_view f1) ops (fake_view f2)"
    using Cons.IH [OF 1(2), of b] by blast
  have "distinct (map ao_clientOpId ([op] @ ops))" using Cons.prems(2) by simp
  from appended_trans [OF 1(3) 2(3) this] show ?case using 1(1) 2(1,2) by (simp add: bindE_def)
qed

interpretation fake: sync_server fake_api fake_inv fake_view
proof
  fix s since lim hs bs h b cursor and ops :: "append_op list"
  assume inv: "fake_inv s"
  show "sorted_wrt (<) (map or_seq (sv_log (fake_view s)))" using fake_sorted [OF inv] by simp
  show "\<exists>s'. fake_inv s' \<and> fake_view s' = fake_view s \<and> api_pullOps fake_api since lim s = (s', Inr (log_page (sv_log (fake_view s)) since lim))"
    using inv by (simp add: fake_api_def fake_pullOps_def)
  show "\<exists>s'. fake_inv s' \<and> fake_view s' = fake_view s \<and>
      api_checkBlobs fake_api hs s = (s', Inr (filter (\<lambda>h. sv_blobs (fake_view s) h = None) hs))"
    using inv by (simp add: fake_api_def fake_checkBlobs_def jm_has_def)
  have blobs: "fake_view (fold put_blob bs (claim s)) = (fake_view s)\<lparr> sv_blobs := map_of bs ++ sv_blobs (fake_view s) \<rparr>" for bs
    by (auto simp: fake_view_def put_blobs_get map_add_def fun_eq_iff)
  show "\<exists>s'. fake_inv s' \<and> fake_view s' = (fake_view s)\<lparr> sv_blobs := map_of bs ++ sv_blobs (fake_view s) \<rparr> \<and>
      api_putBlobBatch fake_api bs s = (s', Inr ())"
    using inv blobs [of bs] put_blobs_inv by (simp add: fake_api_def fake_putBlobBatch_def)
  show "\<exists>s'. fake_inv s' \<and> fake_view s' = (fake_view s)\<lparr> sv_blobs := [h \<mapsto> b] ++ sv_blobs (fake_view s) \<rparr> \<and>
      api_putBlob fake_api h b s = (s', Inr ())"
    using inv blobs [of "[(h, b)]"] put_blobs_inv [of "claim s" "[(h, b)]"]
    by (simp add: fake_api_def fake_putBlob_def)
  assume "distinct (map ao_clientOpId ops)" "\<forall>op \<in> set ops. \<forall>r \<in> set (ao_blobRefs op). sv_blobs (fake_view s) r \<noteq> None"
  then show "\<exists>s' r. fake_inv s' \<and> appended (fake_view s) ops (fake_view s') \<and> api_appendOps fake_api cursor ops s = (s', Inr r)"
    using fake_append_all [of "claim s" ops "[]"] inv by (auto simp: fake_api_def fake_appendOps_def)
qed

end
