(* ===== verification/SyncProps.thy ===== *)
theory SyncProps
  imports SyncPush
begin

text \<open>
  The properties of the transfer over the in-memory server: a pull drains the log, a second device
  pulls and fetches what the first pushed, a repeated append adds nothing; and a pull from a server
  that repeats its page forever never ends.
\<close>

definition client_ok :: "fake_server client_env \<Rightarrow> bool" where
  "client_ok env =
     (ce_api env = fake_api \<and> (\<forall>n. \<not> ce_cancelled env n) \<and> sealing env \<and> 1 \<le> ce_opsLimit env \<and>
      1 \<le> ce_blobBatchMaxCount env \<and> 1 \<le> ce_maxOpsPerAppend env)"

lemma client_usable: "client_ok env \<Longrightarrow> fake.usable env"
  by (simp add: client_ok_def fake.usable_def)

section \<open>A concrete cryptography\<close>

text \<open>
  An instance of the primitives that keeps their laws: the envelope carries its key, marked byte by
  byte so that no other key is a prefix of it, and the hashes are the identity.
\<close>

fun mark_key :: "bytes \<Rightarrow> bytes" where
  "mark_key [] = [1]"
| "mark_key (b # bs) = 0 # b # mark_key bs"

fun strip_key :: "bytes \<Rightarrow> bytes \<Rightarrow> bytes option" where
  "strip_key [] c = (case c of x # p \<Rightarrow> if x = 1 then Some p else None | [] \<Rightarrow> None)"
| "strip_key (b # bs) c = (case c of x # y # p \<Rightarrow> if x = 0 \<and> y = b then strip_key bs p else None | _ \<Rightarrow> None)"

lemma strip_mark: "strip_key k' (mark_key k @ p) = (if k' = k then Some p else None)"
proof (induction k arbitrary: k')
  case Nil
  then show ?case by (cases k'; cases p) auto
next
  case (Cons b k)
  then show ?case by (cases k') auto
qed

definition sample_web :: webcrypto where
  "sample_web =
     \<lparr> wc_pbkdf2 = (\<lambda>p s i n. p @ s), wc_hkdf = (\<lambda>m s i n. i @ m), wc_encrypt = (\<lambda>k n p. mark_key k @ p),
       wc_decrypt = (\<lambda>k n c. strip_key k c), wc_hmac = (\<lambda>k m. m), wc_sha256 = (\<lambda>b. b),
       wc_random = (\<lambda>n i. replicate n (of_nat i)), wc_decode = map (\<lambda>b. char_of (unat b)) \<rparr>"

lemma sample_aead: "aead sample_web"
  by (simp add: aead_def sample_web_def strip_mark)

definition sample_crypto :: vault_crypto where
  "sample_crypto = deriveFromPassphrase sample_web ''pw'' (saltForVault sample_web ''v'') new_crypto"

lemma sample_ready: "isReady sample_crypto"
  by (simp add: sample_crypto_def isReady_def deriveFromPassphrase_def Let_def)

definition sample_client :: "nat \<Rightarrow> fake_server client_env" where
  "sample_client fuel =
     new_client_env fake_api sample_web sample_crypto
       \<lparr> so_opsLimit = Some 1, so_maxOpsPerAppend = Some 1, so_blobBatchMaxCount = None, so_blobBatchMaxBytes = None,
         so_blobBatchThreshold = None, so_preflightRetryDelaysMs = None \<rparr> (\<lambda>_. False) fuel"

lemma sample_client_ok: "client_ok (sample_client fuel)"
  by (simp add: client_ok_def sample_client_def new_client_env_def sealing_def sample_aead sample_ready or_default_def)

lemma decode_ascii: "\<forall>c \<in> set s. (of_char c :: nat) < 128 \<Longrightarrow> decodes sample_web s"
  by (induction s) (auto simp: decodes_def sample_web_def utf8_encode_def utf8_unit_def unat_of_nat)

section \<open>The pull drains the log\<close>

text \<open>
  C36: The pull loop ends: however small the pages, it returns every operation of the log behind the
  cursor, in order and decrypted, and the cursor of the last one; the log is left as it was.
\<close>

theorem pull_drains_log:
  assumes "client_ok env" and "fake_inv (cl_server c)" and "legible env (fk_log (cl_server c))"
    and "length (fk_log (cl_server c)) < ce_fuel env"
  shows "\<exists>c'. pullAll env cursor c =
      (c', Inr (map (pulled_of env) (filter (\<lambda>r. cursor < or_seq r) (fk_log (cl_server c))),
                end_cursor (filter (\<lambda>r. cursor < or_seq r) (fk_log (cl_server c))) cursor)) \<and>
    fk_log (cl_server c') = fk_log (cl_server c)"
proof -
  have "0 < ce_opsLimit env" using assms(1) by (simp add: client_ok_def)
  from fake.pull_complete [OF client_usable [OF assms(1)] this, of c cursor] assms(2-4)
  obtain c' where "pullAll env cursor c =
      (c', Inr (map (pulled_of env) (behind (fake_view (cl_server c)) cursor), end_cursor (behind (fake_view (cl_server c)) cursor) cursor))"
    "fake_view (cl_server c') = fake_view (cl_server c)" by auto
  moreover from this(2) have "fk_log (cl_server c') = fk_log (cl_server c)" by (simp add: fake_view_def)
  ultimately show ?thesis by (simp add: behind_def)
qed

theorem pull_drains_log_witness:
  "\<exists>c'. pullAll (sample_client 1) 0 (new_client new_fake_server) = (c', Inr ([], 0)) \<and> fk_log (cl_server c') = []"
proof -
  have "ce_fuel (sample_client 1) = 1" by (simp add: sample_client_def new_client_env_def)
  then show ?thesis
    using pull_drains_log [OF sample_client_ok, of "new_client new_fake_server" 1 0] fake_new_inv
    by (simp add: new_client_def new_fake_server_def legible_def end_cursor_def)
qed

text \<open>
  The bound that the pull loop claims is not one: a server that answers every request with the same
  non-empty page and says there is more keeps the loop running on any fuel.
\<close>

definition stuck_api :: "op_record \<Rightarrow> unit server_api" where
  "stuck_api r =
     \<lparr> api_pullOps = (\<lambda>since lim. retE \<lparr> pr_ops = [r], pr_nextCursor = since, pr_hasMore = True \<rparr>),
       api_appendOps = (\<lambda>c ops. throwE StaleCursorError), api_checkBlobs = (\<lambda>hs. retE []), api_putBlobBatch = (\<lambda>bs. retE ()),
       api_putBlob = (\<lambda>h b. retE ()), api_getBlob = (\<lambda>h. retE None), api_getBlobBatch = (\<lambda>hs. retE ([], hs)),
       api_preflight = (\<lambda>k. retE (False, None)) \<rparr>"

theorem pull_never_ends:
  assumes "ce_api env = stuck_api r" and "\<forall>n. \<not> ce_cancelled env n" and "legible env [r]"
  shows "\<exists>c'. pull_loop k env cursor ops c = (c', Inl out_of_fuel)"
proof (induction k arbitrary: cursor ops c)
  case (Suc k)
  have d: "decrypt_records env [r] = Inr [pulled_of env r]" using decrypt_legible [OF assms(3)] by simp
  show ?case using Suc.IH assms(1,2) d by (simp add: bindE_def not_cancelled on_server_def stuck_api_def)
qed simp

section \<open>What one device pushes another pulls\<close>

lemma legible_pushed:
  assumes "list_all2 (record_of env store) ops recs" and "appended v recs v'" and "legible env (sv_log v)"
  shows "legible env (sv_log v')"
  unfolding legible_def
proof
  fix r assume r: "r \<in> set (sv_log v')"
  show "\<exists>p. decryptOp (ce_web env) (ce_crypto env) (or_ciphertext r) = Inr p"
  proof (cases "r \<in> set (sv_log v)")
    case True
    then show ?thesis using assms(3) by (auto simp: legible_def)
  next
    case False
    then obtain a where "a \<in> set recs" "or_ciphertext r = ao_ciphertext a" using r assms(2) unfolding appended_def by blast
    moreover from this(1) obtain op where "record_of env store op a" using assms(1) by (metis in_set_conv_nth list_all2_conv_all_nth)
    ultimately show ?thesis by (auto simp: record_of_def)
  qed
qed

text \<open>
  C14: A push over the in-memory server succeeds, and a device with the same key that pulls from any
  cursor up to the end of the log before the push gets, after the operations of that log behind its
  cursor, exactly the pushed operations that were new to the server: each once, as it was recorded,
  in the order in which they were pending.
\<close>

theorem push_then_pull:
  assumes "client_ok env" and "client_ok env2" and "ce_web env2 = ce_web env" and "ce_crypto env2 = ce_crypto env"
    and "fake_inv (cl_server c)" and "legible env (fk_log (cl_server c))" and "cursor \<le> fk_seq (cl_server c)"
    and "distinct (map op_id (vs_pendingOps local))" and "\<forall>op \<in> set (vs_pendingOps local). decodes (ce_web env) (op_line op)"
    and "length (fk_log (cl_server c)) + length (vs_pendingOps local) < ce_fuel env2"
  shows "\<exists>c1 c2 ps n. pushPendingOps env local base c = (c1, Inr ()) \<and> pullAll env2 cursor (new_client (cl_server c1)) = (c2, Inr (ps, n)) \<and>
    map po_op ps =
      map (\<lambda>r. po_op (pulled_of env2 r)) (filter (\<lambda>r. cursor < or_seq r) (fk_log (cl_server c))) @
      filter (\<lambda>op. \<not> jm_has (fk_byClientOpId (cl_server c)) (op_id op)) (vs_pendingOps local)"
proof -
  let ?f = "cl_server c" and ?ops = "vs_pendingOps local"
  have s: "sealing env" "1 \<le> ce_blobBatchMaxCount env" "1 \<le> ce_maxOpsPerAppend env" using assms(1) by (simp_all add: client_ok_def)
  from fake.push_complete [OF client_usable [OF assms(1)] s(1) assms(5) s(2,3) assms(8,9), of base]
  obtain c1 v recs blobs where p: "pushPendingOps env local base c = (c1, Inr ())" "fake_inv (cl_server c1)"
    "list_all2 (record_of env (vs_contentStore local)) ?ops recs" "uploaded env blobs (fake_view ?f) v"
    "appended v recs (fake_view (cl_server c1))" by blast
  have v: "sv_log v = fk_log ?f" "sv_seqs v = jm_get (fk_byClientOpId ?f)" using p(4) by (simp_all add: uploaded_def)
  have leg: "legible env2 (fk_log (cl_server c1))"
    using legible_pushed [OF p(3,5)] assms(3,4,6) v by (simp add: legible_def)
  have "length (fk_log (cl_server c1)) \<le> length (fk_log ?f) + length recs" using p(5) v by (simp add: appended_def)
  then have fuel: "length (fk_log (cl_server (new_client (cl_server c1)))) < ce_fuel env2"
    using assms(10) list_all2_lengthD [OF p(3)] by (simp add: new_client_def)
  from pull_drains_log [OF assms(2), of "new_client (cl_server c1)" cursor] p(2) leg fuel
  obtain c2 n where c2: "pullAll env2 cursor (new_client (cl_server c1)) =
      (c2, Inr (map (pulled_of env2) (filter (\<lambda>r. cursor < or_seq r) (fk_log (cl_server c1))), n))"
    by (auto simp: new_client_def)
  let ?new = "drop (length (fk_log ?f)) (fk_log (cl_server c1))"
  have log: "fk_log (cl_server c1) = fk_log ?f @ ?new"
    using p(5) v by (auto simp: appended_def prefix_def)
  have cipher: "map or_ciphertext ?new = map ao_ciphertext (filter (\<lambda>a. jm_get (fk_byClientOpId ?f) (ao_clientOpId a) = None) recs)"
    using p(5) v by (simp add: appended_def)
  have opened: "map (\<lambda>a. projr (decryptOp (ce_web env) (ce_crypto env) (ao_ciphertext a)))
        (filter (\<lambda>a. jm_get (fk_byClientOpId ?f) (ao_clientOpId a) = None) recs) =
      filter (\<lambda>op. \<not> jm_has (fk_byClientOpId ?f) (op_id op)) ?ops"
    using p(3) by (induction rule: list_all2_induct) (auto simp: record_of_def jm_has_def)
  have new: "map (\<lambda>r. po_op (pulled_of env2 r)) ?new = filter (\<lambda>op. \<not> jm_has (fk_byClientOpId ?f) (op_id op)) ?ops"
    using arg_cong [OF cipher, of "map (\<lambda>x. projr (decryptOp (ce_web env) (ce_crypto env) x))"] opened assms(3,4)
    by (simp add: pulled_of_def comp_def)
  have "map or_seq (fk_log ?f @ ?new) = [1..<Suc (fk_seq (cl_server c1))]" "map or_seq (fk_log ?f) = [1..<Suc (fk_seq ?f)]"
    using p(2) assms(5) unfolding log [symmetric] by (simp_all add: fake_inv_def del: upt_Suc)
  then have "map or_seq ?new = drop (fk_seq ?f) [1..<Suc (fk_seq (cl_server c1))]"
    by (metis append_eq_conv_conj diff_Suc_1 length_map length_upt map_append)
  then have "set (map or_seq ?new) \<subseteq> {fk_seq ?f<..}" by (simp only: drop_upt set_upt) auto
  then have "filter (\<lambda>r. cursor < or_seq r) ?new = ?new"
    using assms(7) by (intro filter_True) (auto simp: image_subset_iff)
  then have "map po_op (map (pulled_of env2) (filter (\<lambda>r. cursor < or_seq r) (fk_log (cl_server c1)))) =
      map (\<lambda>r. po_op (pulled_of env2 r)) (filter (\<lambda>r. cursor < or_seq r) (fk_log ?f)) @
      filter (\<lambda>op. \<not> jm_has (fk_byClientOpId ?f) (op_id op)) ?ops"
    by (subst log) (simp add: new comp_def)
  then show ?thesis using p(1) c2 by blast
qed

definition sample_local :: VaultState where
  "sample_local =
     \<lparr> vs_deviceId = ''d'', vs_hlc = HLC 7 0 ''d'', vs_fileEntries = [],
       vs_pendingOps = [ops_create ''f'' ''n.md'' (sha256Hex sample_web [65]) (HLC 7 0 ''d'')],
       vs_contentStore = [(sha256Hex sample_web [65], [65])] \<rparr>"

lemma sample_decodes: "\<forall>op \<in> set (vs_pendingOps sample_local). decodes sample_web (op_line op)"
proof -
  have "op_line (ops_create ''f'' ''n.md'' (sha256Hex sample_web [65]) (HLC 7 0 ''d'')) \<in> {s. \<forall>c \<in> set s. (of_char c :: nat) < 128}"
    by code_simp
  then show ?thesis using decode_ascii by (simp add: sample_local_def)
qed

theorem push_then_pull_witness:
  "\<exists>c1 c2 ps n. pushPendingOps (sample_client 9) sample_local 0 (new_client new_fake_server) = (c1, Inr ()) \<and>
     pullAll (sample_client 9) 0 (new_client (cl_server c1)) = (c2, Inr (ps, n)) \<and>
     map po_op ps = vs_pendingOps sample_local"
proof -
  have w: "ce_web (sample_client 9) = sample_web" "ce_fuel (sample_client 9) = 9" by (simp_all add: sample_client_def new_client_env_def)
  have "\<exists>c1 c2 ps n. pushPendingOps (sample_client 9) sample_local 0 (new_client new_fake_server) = (c1, Inr ()) \<and>
     pullAll (sample_client 9) 0 (new_client (cl_server c1)) = (c2, Inr (ps, n)) \<and>
     map po_op ps =
       map (\<lambda>r. po_op (pulled_of (sample_client 9) r)) (filter (\<lambda>r. 0 < or_seq r) (fk_log (cl_server (new_client new_fake_server)))) @
       filter (\<lambda>op. \<not> jm_has (fk_byClientOpId (cl_server (new_client new_fake_server))) (op_id op)) (vs_pendingOps sample_local)"
    by (rule push_then_pull [OF sample_client_ok sample_client_ok refl refl])
      (use w sample_decodes fake_new_inv in \<open>simp_all add: new_client_def new_fake_server_def legible_def sample_local_def\<close>)
  then show ?thesis by (simp add: new_client_def new_fake_server_def jm_has_def)
qed

section \<open>The blobs of a push\<close>

text \<open>
  What the server already holds under the names of the contents to push: those contents.  The
  names are the keyed hashes of the hashes; the blinding is only asked to keep apart the hashes at
  hand, which are finitely many.
\<close>

definition holds_contents :: "fake_server client_env \<Rightarrow> (string, bytes) jsmap \<Rightarrow> (string, bytes) jsmap \<Rightarrow> bool" where
  "holds_contents env store blobs =
     (\<forall>h b e. jm_get store h = Some b \<and> jm_get blobs (blind env h) = Some e \<longrightarrow>
        decryptBlob (ce_web env) (ce_crypto env) e = Inr b)"

text \<open>
  C15: After a push over the in-memory server, a device with the same key that fetches the hash of a
  pushed operation gets exactly the bytes that were staged for it, for every pending operation but
  a delete whose content was at hand.  Assumed: the staged bytes have their hashes, the blinding
  keeps the hashes of these operations apart, and where the server already held a blob of that name
  it was that content.
\<close>

theorem push_then_fetch:
  assumes "client_ok env" and "client_ok env2" and "ce_web env2 = ce_web env" and "ce_crypto env2 = ce_crypto env"
    and "fake_inv (cl_server c)" and "holds_contents env (vs_contentStore local) (fk_blobs (cl_server c))"
    and "inj_on (blind env) (op_contentHash ` {op \<in> set (vs_pendingOps local). carries (vs_contentStore local) op})"
    and "distinct (map op_id (vs_pendingOps local))" and "\<forall>op \<in> set (vs_pendingOps local). decodes (ce_web env) (op_line op)"
    and "\<forall>h b. jm_get (vs_contentStore local) h = Some b \<longrightarrow> sha256Hex (ce_web env) b = h"
  shows "\<exists>c1. pushPendingOps env local base c = (c1, Inr ()) \<and>
    (\<forall>op \<in> set (vs_pendingOps local). \<forall>b. op_type op \<noteq> OpDelete \<and> jm_get (vs_contentStore local) (op_contentHash op) = Some b \<longrightarrow>
       (\<exists>c2. fetchBlob env2 (op_contentHash op) (new_client (cl_server c1)) = (c2, Inr (Some b))))"
proof -
  let ?f = "cl_server c" and ?ops = "vs_pendingOps local" and ?st = "vs_contentStore local"
  have s: "sealing env" "1 \<le> ce_blobBatchMaxCount env" "1 \<le> ce_maxOpsPerAppend env" using assms(1) by (simp_all add: client_ok_def)
  from fake.push_complete [OF client_usable [OF assms(1)] s(1) assms(5) s(2,3) assms(8,9), of base]
  obtain c1 v recs blobs where p: "pushPendingOps env local base c = (c1, Inr ())" "blobs_of env ?st ?ops blobs"
    "uploaded env blobs (fake_view ?f) v" "appended v recs (fake_view (cl_server c1))"
    "\<forall>op \<in> set ?ops. carries ?st op \<longrightarrow> sv_blobs v (blind env (op_contentHash op)) \<noteq> None" by blast
  have v: "sv_blobs v = jm_get (fk_blobs (cl_server c1))" using p(4) by (simp add: appended_def)
  have "\<exists>c2. fetchBlob env2 (op_contentHash op) (new_client (cl_server c1)) = (c2, Inr (Some b))"
    if op: "op \<in> set ?ops" "op_type op \<noteq> OpDelete" "jm_get ?st (op_contentHash op) = Some b" for op b
  proof -
    let ?h = "op_contentHash op"
    have car: "carries ?st op" using op by (simp add: carries_def)
    obtain e where e: "sv_blobs v (blind env ?h) = Some e" using p(5) op(1) car by auto
    have b: "decryptBlob (ce_web env) (ce_crypto env) e = Inr b"
    proof (cases "jm_get (fk_blobs ?f) (blind env ?h)")
      case None
      then obtain x where x: "jm_get blobs (blind env ?h) = Some x" "decryptBlob (ce_web env) (ce_crypto env) e = Inr x"
        using p(3) e by (auto simp: uploaded_def)
      then obtain op' where op': "op' \<in> set ?ops" "carries ?st op'" "blind env ?h = blind env (op_contentHash op')"
        "jm_get ?st (op_contentHash op') = Some x"
        using p(2) x(1) unfolding blobs_of_def by blast
      have "?h = op_contentHash op'" by (rule inj_onD [OF assms(7) op'(3)]) (use op(1) car op'(1,2) in auto)
      then show ?thesis using x(2) op'(4) op(3) by simp
    next
      case (Some e0)
      then have "e0 = e" using p(3) e by (auto simp: uploaded_def map_le_def dom_def)
      then show ?thesis using assms(6) op(3) Some by (simp add: holds_contents_def)
    qed
    have "ce_api env2 = fake_api" using assms(2) by (simp add: client_ok_def)
    moreover have "sha256Hex (ce_web env) b = ?h" using assms(10) op(3) by blast
    ultimately show ?thesis using e b v blind_ready [OF s(1)] assms(3,4)
      by (simp add: fetchBlob_def bindE_def on_server_def fake_api_def fake_getBlob_def open_blob_def new_client_def)
  qed
  then show ?thesis using p(1) by blast
qed

theorem push_then_fetch_witness:
  "\<exists>c1 c2. pushPendingOps (sample_client 9) sample_local 0 (new_client new_fake_server) = (c1, Inr ()) \<and>
     fetchBlob (sample_client 9) (sha256Hex sample_web [65]) (new_client (cl_server c1)) = (c2, Inr (Some [65]))"
proof -
  have w: "ce_web (sample_client 9) = sample_web" "ce_crypto (sample_client 9) = sample_crypto"
    by (simp_all add: sample_client_def new_client_env_def)
  have "\<exists>c1. pushPendingOps (sample_client 9) sample_local 0 (new_client new_fake_server) = (c1, Inr ()) \<and>
    (\<forall>op \<in> set (vs_pendingOps sample_local). \<forall>b. op_type op \<noteq> OpDelete \<and>
         jm_get (vs_contentStore sample_local) (op_contentHash op) = Some b \<longrightarrow>
       (\<exists>c2. fetchBlob (sample_client 9) (op_contentHash op) (new_client (cl_server c1)) = (c2, Inr (Some b))))"
  proof (rule push_then_fetch [OF sample_client_ok sample_client_ok refl refl])
    show "inj_on (blind (sample_client 9))
        (op_contentHash ` {op \<in> set (vs_pendingOps sample_local). carries (vs_contentStore sample_local) op})"
      by (rule inj_onI) (auto simp: sample_local_def)
  qed (use w sample_decodes fake_new_inv in
      \<open>simp_all add: new_client_def new_fake_server_def holds_contents_def sample_local_def\<close>)
  then show ?thesis by (fastforce simp: sample_local_def ops_create_def stamp_def w)
qed

section \<open>A repeated append\<close>

lemma append_known:
  "\<forall>op \<in> set ops. jm_has (fk_byClientOpId f) (ao_clientOpId op) \<Longrightarrow> \<exists>b. iterE append_one ops a f = (f, Inr b)"
proof (induction ops arbitrary: a)
  case (Cons op ops)
  obtain n where "jm_get (fk_byClientOpId f) (ao_clientOpId op) = Some n" using Cons.prems by (auto simp: jm_has_def)
  then have "append_one op a f = (f, Inr (a @ [(ao_clientOpId op, n)]))" by (simp add: append_one_def)
  then show ?case using Cons by (simp add: bindE_def)
qed simp

lemma append_ids:
  "iterE append_one ops a f = (f', Inr b) \<Longrightarrow>
     (\<forall>i. jm_has (fk_byClientOpId f) i \<longrightarrow> jm_has (fk_byClientOpId f') i) \<and> (\<forall>op \<in> set ops. jm_has (fk_byClientOpId f') (ao_clientOpId op))"
proof (induction ops arbitrary: a f)
  case (Cons op ops)
  from Cons.prems obtain f1 b1 where 1: "append_one op a f = (f1, Inr b1)" "iterE append_one ops b1 f1 = (f', Inr b)"
    by (auto simp: bindE_Inr_iff)
  have "(\<forall>i. jm_has (fk_byClientOpId f) i \<longrightarrow> jm_has (fk_byClientOpId f1) i) \<and> jm_has (fk_byClientOpId f1) (ao_clientOpId op)"
    using 1(1) by (auto simp: append_one_def Let_def jm_has_def split: option.splits)
  then show ?case using Cons.IH [OF 1(2)] by auto
qed simp

text \<open>
  The append is idempotent by client id: sending a batch again, as a client does that never saw
  the answer, changes nothing on the server, whatever the batch and the cursor.
\<close>

theorem append_idempotent:
  assumes "fake_appendOps cursor ops f = (f1, Inr r)"
  shows "\<exists>r2. fake_appendOps cursor2 ops f1 = (f1, Inr r2) \<and> ar_headCursor r2 = ar_headCursor r"
proof -
  from assms obtain b where b: "iterE append_one ops [] (claim f) = (f1, Inr b)" "ar_headCursor r = fk_seq f1"
    by (auto simp: fake_appendOps_def split: prod.splits sum.splits)
  have c: "claim f1 = f1"
  proof -
    have "keepsE fk_claimed (append_one op a)" for op a
      by (auto simp: keepsE_def append_one_def Let_def split: option.splits)
    then have "keepsE fk_claimed (iterE append_one ops [])" by (rule keepsE_iter)
    then have "fk_claimed f1" using b(1) by (simp add: keepsE_def) (metis claim_simps(5) fst_conv)
    then show ?thesis by (simp add: claim_def)
  qed
  have "\<forall>op \<in> set ops. jm_has (fk_byClientOpId f1) (ao_clientOpId op)" using append_ids [OF b(1)] by blast
  from append_known [OF this] obtain b2 where "iterE append_one ops [] f1 = (f1, Inr b2)" by blast
  then show ?thesis using c b(2) by (simp add: fake_appendOps_def)
qed

end
