(* ===== verification/Logger.thy ===== *)
theory Logger
  imports OpLog ContentStore Markers
begin

text \<open>
  The operation logger of \<open>src/core/operation-logger.ts\<close> (with the checkpoints of
  \<open>src/core/pack-checkpoint.ts\<close>): the handlers of vault events, the debounced edits, the offline
  capture pass and the baseline, composed over the registry, the content store and the operation
  log.  Each component record keeps its own files of the metadata store, whose paths are disjoint.
  A handler runs to its end here and its writes succeed; \<open>OpLog\<close> has the interleavings and the
  failures of the persists.  A method that throws gives the state at the throw and the error.
  The wall clock and the fresh ids are supplies read in order, the vault's files, SHA-256 and
  \<open>TextDecoder\<close> are parameters, and the timings, the progress callback and the change listener
  are left out; the dash of the two notices is written as hyphens.
\<close>

section \<open>The environment and the state\<close>

record file_ref =
  vr_path :: string
  vr_stat :: file_stat

text \<open>What the \<open>VaultFiles\<close> port answers while a handler or one pass runs.\<close>

record vault_files =
  vf_list :: "file_ref list"
  vf_read :: "string \<Rightarrow> bytes option"
  vf_exists :: "string \<Rightarrow> bool"

record logger_env =
  le_settings :: SyncSettings
  le_sha :: "bytes \<Rightarrow> bytes"
  le_decode :: "bytes \<Rightarrow> string"
  le_wall :: "nat \<Rightarrow> nat"
  le_uuid :: "nat \<Rightarrow> string"

record oplogger =
  lg_log :: op_log
  lg_registry :: registry
  lg_store :: content_store
  lg_debounceTimers :: "string list"
  lg_ticks :: nat
  lg_ids :: nat
  lg_notices :: "string list"

type_synonym logger_result = "oplogger \<times> io_error option"

section \<open>Steps\<close>

text \<open>\<open>await f; g\<close>: what follows runs unless the call threw.\<close>

definition and_then :: "(oplogger \<Rightarrow> logger_result) \<Rightarrow> (oplogger \<Rightarrow> logger_result) \<Rightarrow> oplogger \<Rightarrow> logger_result" where
  "and_then f g s = (case f s of (s1, None) \<Rightarrow> g s1 | (s1, Some x) \<Rightarrow> (s1, Some x))"

definition return :: "oplogger \<Rightarrow> logger_result" where
  "return s = (s, None)"

definition on_registry :: "(registry \<Rightarrow> io_error + registry) \<Rightarrow> oplogger \<Rightarrow> logger_result" where
  "on_registry f s =
     (case f (lg_registry s) of Inl x \<Rightarrow> (s, Some x) | Inr r \<Rightarrow> (s\<lparr> lg_registry := r \<rparr>, None))"

definition on_store :: "(content_store \<Rightarrow> content_store) \<Rightarrow> oplogger \<Rightarrow> oplogger" where
  "on_store f s = s\<lparr> lg_store := f (lg_store s) \<rparr>"

definition on_oplog :: "(op_log \<Rightarrow> op_log) \<Rightarrow> oplogger \<Rightarrow> oplogger" where
  "on_oplog f s = s\<lparr> lg_log := f (lg_log s) \<rparr>"

definition lg_now :: "logger_env \<Rightarrow> oplogger \<Rightarrow> HLC \<times> oplogger" where
  "lg_now env s =
     (let h = hlc_now (le_wall env (lg_ticks s)) (ol_clock (lg_log s))
      in (h, s\<lparr> lg_log := (lg_log s)\<lparr> ol_clock := h \<rparr>, lg_ticks := lg_ticks s + 1 \<rparr>))"

definition lg_register :: "logger_env \<Rightarrow> string \<Rightarrow> HLC \<Rightarrow> string \<Rightarrow> file_stat option \<Rightarrow> oplogger \<Rightarrow> string \<times> oplogger" where
  "lg_register env path hlc hash stat s =
     (case registerFile (le_settings env) (le_uuid env (lg_ids s)) path hlc hash stat (lg_registry s) of
        (r, i) \<Rightarrow> (i, s\<lparr> lg_registry := r, lg_ids := lg_ids s + 1 \<rparr>))"

definition lg_setHead :: "logger_env \<Rightarrow> string \<Rightarrow> string \<Rightarrow> oplogger \<Rightarrow> oplogger" where
  "lg_setHead env i v s = s\<lparr> lg_registry := setHeadVersion (le_settings env) i v (lg_registry s) \<rparr>"

definition notify :: "string \<Rightarrow> oplogger \<Rightarrow> oplogger" where
  "notify msg s = s\<lparr> lg_notices := lg_notices s @ [msg] \<rparr>"

definition too_large_notice :: "string \<Rightarrow> string" where
  "too_large_notice path = path @ '' is over the size limit -- skipped from sync''"

definition markers_notice :: "string \<Rightarrow> string" where
  "markers_notice path = path @ '' still has conflict markers -- resolve them and save to finish syncing''"

definition recordOp :: "Operation \<Rightarrow> oplogger \<Rightarrow> oplogger" where
  "recordOp p = on_oplog (\<lambda>l. appendOpLogLocked (push_op p l))"

definition content_hash :: "logger_env \<Rightarrow> bytes \<Rightarrow> string" where
  "content_hash env content = hashContent (le_sha env) content"

section \<open>Events\<close>

definition handleCreate :: "logger_env \<Rightarrow> vault_files \<Rightarrow> string \<Rightarrow> oplogger \<Rightarrow> logger_result" where
  "handleCreate env v path s =
     (if isExcluded path (le_settings env) then (s, None)
      else
        (case lg_now env s of
           (hlcTs, s1) \<Rightarrow>
             (case vf_read v path of
                None \<Rightarrow> (s1, None)
              | Some content \<Rightarrow>
                  if isTooLarge (length content) (le_settings env) then (notify (too_large_notice path) s1, None)
                  else
                    (let hash = content_hash env content
                     in case lg_register env path hlcTs hash None s1 of
                          (i, s2) \<Rightarrow>
                            (let op = ops_create i path hash hlcTs
                             in return (lg_setHead env i (op_id op) (recordOp op (on_store (cs_put hash content) s2))))))))"

definition handleModify :: "logger_env \<Rightarrow> string \<Rightarrow> oplogger \<Rightarrow> oplogger" where
  "handleModify env path s =
     (if isExcluded path (le_settings env) then s
      else s\<lparr> lg_debounceTimers := js_add path (lg_debounceTimers s) \<rparr>)"

text \<open>The save of a two-headed file: still conflicting, or resolved by a node of both heads.\<close>

definition resolve_save :: "logger_env \<Rightarrow> string \<Rightarrow> FileEntry \<Rightarrow> bytes \<Rightarrow> string \<Rightarrow> string list \<Rightarrow> oplogger \<Rightarrow> logger_result" where
  "resolve_save env path entry content hash parents s =
     (case lg_now env s of
        (hlcTs, s1) \<Rightarrow>
          and_then (on_registry (updateContentHash (le_settings env) path hash hlcTs None))
            (\<lambda>s2.
               if hasConflictMarkers (le_decode env content) then (notify (markers_notice path) s2, None)
               else
                 (let vid = mergeVersionId (le_sha env) hash parents;
                      op = ops_merge (fe_id entry) path hash hlcTs parents vid
                  in on_registry (\<lambda>r. Inr (clearConflict (le_settings env) (fe_id entry) r))
                       (lg_setHead env (fe_id entry) vid (recordOp op s2))))
            (on_store (cs_put hash content) s1))"

definition flushModify :: "logger_env \<Rightarrow> vault_files \<Rightarrow> string \<Rightarrow> oplogger \<Rightarrow> logger_result" where
  "flushModify env v path s =
     (case getByPath (lg_registry s) path of
        None \<Rightarrow> handleCreate env v path s
      | Some entry \<Rightarrow>
          (case vf_read v path of
             None \<Rightarrow> (s, None)
           | Some content \<Rightarrow>
               if isTooLarge (length content) (le_settings env) then (notify (too_large_notice path) s, None)
               else
                 (let hash = content_hash env content
                  in if hash = fe_contentHash entry then (s, None)
                     else if (case fe_conflictParents entry of Some ps \<Rightarrow> length ps \<ge> 2 | None \<Rightarrow> False) then
                       resolve_save env path entry content hash (the (fe_conflictParents entry)) s
                     else
                       (case lg_now env s of
                          (hlcTs, s1) \<Rightarrow>
                            and_then (on_registry (updateContentHash (le_settings env) path hash hlcTs None))
                              (\<lambda>s2.
                                 (let op = ops_update (fe_id entry) path hash hlcTs (fe_headVersionId entry)
                                  in return (lg_setHead env (fe_id entry) (op_id op) (recordOp op s2))))
                              (on_store (cs_put hash content) s1)))))"

definition handleDelete :: "logger_env \<Rightarrow> vault_files \<Rightarrow> string \<Rightarrow> oplogger \<Rightarrow> logger_result" where
  "handleDelete env v path s =
     (if isExcluded path (le_settings env) then (s, None)
      else
        (case getByPath (lg_registry s) path of
           None \<Rightarrow> (s, None)
         | Some entry \<Rightarrow>
             if vf_exists v path then flushModify env v path s
             else
               (case lg_now env s of
                  (hlcTs, s1) \<Rightarrow>
                    and_then (on_registry (markDeleted (le_settings env) path hlcTs))
                      (\<lambda>s2.
                         if fe_contentHash entry = [] then (s2, None)
                         else
                           (case pruneCreateDeletePair (fe_id entry) (lg_log s2) of
                              (l, pruned) \<Rightarrow>
                                if pruned then return (on_oplog rewriteOpLogLocked (s2\<lparr> lg_log := l \<rparr>))
                                else
                                  (let op = ops_delete (fe_id entry) path (fe_contentHash entry) hlcTs (fe_headVersionId entry)
                                   in return (lg_setHead env (fe_id entry) (op_id op) (recordOp op s2)))))
                      s1)))"

definition handleRename :: "logger_env \<Rightarrow> vault_files \<Rightarrow> string \<Rightarrow> string \<Rightarrow> oplogger \<Rightarrow> logger_result" where
  "handleRename env v path oldPath s =
     (if isExcluded path (le_settings env) \<and> isExcluded oldPath (le_settings env) then (s, None)
      else
        (case getByPath (lg_registry s) oldPath of
           None \<Rightarrow> handleCreate env v path s
         | Some entry \<Rightarrow>
             (case lg_now env s of
                (hlcTs, s1) \<Rightarrow>
                  and_then (on_registry (updatePath (le_settings env) oldPath path hlcTs))
                    (\<lambda>s2.
                       if fe_contentHash entry = [] then flushModify env v path s2
                       else
                         return (recordOp (ops_move (fe_id entry) path (fe_contentHash entry) hlcTs (fe_headVersionId entry)) s2))
                    s1)))"

text \<open>A debounce timer that fires, and the flush of all of them before a round.\<close>

definition clear_timer :: "string \<Rightarrow> oplogger \<Rightarrow> oplogger" where
  "clear_timer path s = s\<lparr> lg_debounceTimers := removeAll path (lg_debounceTimers s) \<rparr>"

definition timer_fires :: "logger_env \<Rightarrow> vault_files \<Rightarrow> string \<Rightarrow> oplogger \<Rightarrow> logger_result" where
  "timer_fires env v path s = flushModify env v path (clear_timer path s)"

fun flush_paths :: "logger_env \<Rightarrow> vault_files \<Rightarrow> string list \<Rightarrow> oplogger \<Rightarrow> logger_result" where
  "flush_paths env v [] s = (s, None)"
| "flush_paths env v (path # ps) s = and_then (timer_fires env v path) (flush_paths env v ps) s"

definition lg_flush :: "logger_env \<Rightarrow> vault_files \<Rightarrow> oplogger \<Rightarrow> logger_result" where
  "lg_flush env v s = flush_paths env v (lg_debounceTimers s) s"

definition stopListening :: "oplogger \<Rightarrow> oplogger" where
  "stopListening s = s\<lparr> lg_debounceTimers := [] \<rparr>"

definition recaptureLocalEdit :: "logger_env \<Rightarrow> vault_files \<Rightarrow> string \<Rightarrow> oplogger \<Rightarrow> logger_result" where
  "recaptureLocalEdit env v path = flushModify env v path"

section \<open>The log from outside\<close>

definition getPendingOps :: "oplogger \<Rightarrow> Operation list" where
  "getPendingOps s = ol_pendingOps (lg_log s)"

definition clearOps :: "oplogger \<Rightarrow> oplogger" where
  "clearOps = on_oplog (\<lambda>l. rewriteOpLogLocked (drop_all l))"

definition recordMergeOp ::
  "logger_env \<Rightarrow> string \<Rightarrow> string \<Rightarrow> string \<Rightarrow> HLC \<Rightarrow> string list \<Rightarrow> string \<Rightarrow> oplogger \<Rightarrow> oplogger" where
  "recordMergeOp env fileId path hash hlcTs parents vid s =
     lg_setHead env fileId vid (recordOp (ops_merge fileId path hash hlcTs parents vid) s)"

definition recordMergeDelete ::
  "logger_env \<Rightarrow> string \<Rightarrow> string \<Rightarrow> string \<Rightarrow> HLC \<Rightarrow> string list \<Rightarrow> string \<Rightarrow> oplogger \<Rightarrow> oplogger" where
  "recordMergeDelete env fileId path hash hlcTs parents vid s =
     lg_setHead env fileId vid (recordOp (ops_mergeDelete fileId path hash hlcTs parents vid) s)"

section \<open>Checkpoints\<close>

definition PACK_CHECKPOINT_EVERY :: nat where "PACK_CHECKPOINT_EVERY = 200"
definition CAPTURE_CHECKPOINT_EVERY :: nat where "CAPTURE_CHECKPOINT_EVERY = 200"

text \<open>The pack first, then what refers to its blobs, then the cache; the counter starts again.\<close>

definition pc_flush :: "('s \<Rightarrow> 's) \<Rightarrow> ('s \<Rightarrow> 's) \<Rightarrow> ('s \<Rightarrow> 's) \<Rightarrow> bool \<Rightarrow> 's \<Rightarrow> nat \<times> 's" where
  "pc_flush flush_pack persistReferrers clear_cache keepWarm s =
     (0, let s1 = persistReferrers (flush_pack s) in if \<not> keepWarm then clear_cache s1 else s1)"

definition pc_tick :: "('s \<Rightarrow> 's) \<Rightarrow> ('s \<Rightarrow> 's) \<Rightarrow> ('s \<Rightarrow> 's) \<Rightarrow> nat \<Rightarrow> nat \<times> 's \<Rightarrow> nat \<times> 's" where
  "pc_tick flush_pack persistReferrers clear_cache every = (\<lambda>(since, s).
     if since + 1 < every then (since + 1, s)
     else pc_flush flush_pack persistReferrers clear_cache False s)"

text \<open>What a capture persists at a checkpoint: the registry, then the log when anything changed.\<close>

definition persist_referrers :: "('s \<Rightarrow> 's) \<Rightarrow> ('s \<Rightarrow> 's) \<Rightarrow> bool \<Rightarrow> 's \<Rightarrow> 's" where
  "persist_referrers flush_registry append_log changed s =
     (let s1 = flush_registry s in if changed then append_log s1 else s1)"

definition lg_flush_registry :: "logger_env \<Rightarrow> oplogger \<Rightarrow> oplogger" where
  "lg_flush_registry env s = s\<lparr> lg_registry := reg_flush (le_settings env) (lg_registry s) \<rparr>"

definition persist_capture :: "logger_env \<Rightarrow> bool \<Rightarrow> oplogger \<Rightarrow> oplogger" where
  "persist_capture env = persist_referrers (lg_flush_registry env) (on_oplog appendOpLogLocked)"

definition capture_tick :: "logger_env \<Rightarrow> bool \<Rightarrow> nat \<times> oplogger \<Rightarrow> nat \<times> oplogger" where
  "capture_tick env changed =
     pc_tick (on_store flushPack) (persist_capture env changed) (on_store clearMemCache) CAPTURE_CHECKPOINT_EVERY"

definition capture_flush :: "logger_env \<Rightarrow> bool \<Rightarrow> oplogger \<Rightarrow> oplogger" where
  "capture_flush env changed s =
     snd (pc_flush (on_store flushPack) (persist_capture env changed) (on_store clearMemCache) True s)"

section \<open>The offline capture\<close>

record capture_stats =
  cst_files :: nat
  cst_opsEmitted :: nat
  cst_skippedTooLarge :: nat

record capture_pass =
  cp_changed :: bool
  cp_onDisk :: "string list"
  cp_since :: nat
  cp_stats :: capture_stats

definition new_pass :: capture_pass where
  "new_pass = \<lparr> cp_changed = False, cp_onDisk = [], cp_since = 0,
     cp_stats = \<lparr> cst_files = 0, cst_opsEmitted = 0, cst_skippedTooLarge = 0 \<rparr> \<rparr>"

definition emit_op :: "Operation \<Rightarrow> capture_pass \<times> oplogger \<Rightarrow> capture_pass \<times> oplogger" where
  "emit_op op = (\<lambda>(p, s).
     (p\<lparr> cp_stats := (cp_stats p)\<lparr> cst_opsEmitted := cst_opsEmitted (cp_stats p) + 1 \<rparr> \<rparr>, on_oplog (push_op op) s))"

text \<open>The part of the loop body after the hash: the operation of a new or changed file.\<close>

definition capture_changed ::
  "logger_env \<Rightarrow> file_ref \<Rightarrow> FileEntry option \<Rightarrow> bytes \<Rightarrow> string \<Rightarrow> capture_pass \<times> oplogger \<Rightarrow>
     (capture_pass \<times> oplogger) \<times> io_error option" where
  "capture_changed env ref entry content hash = (\<lambda>(p, s).
     (case lg_now env (on_store (putBuffered hash content) s) of
        (hlcTs, s1) \<Rightarrow>
          (case (case entry of
                   None \<Rightarrow>
                     (case lg_register env (vr_path ref) hlcTs hash (Some (vr_stat ref)) s1 of
                        (i, s2) \<Rightarrow> ((s2, None), i, ops_create i (vr_path ref) hash hlcTs))
                 | Some e \<Rightarrow>
                     (on_registry (updateContentHash (le_settings env) (vr_path ref) hash hlcTs (Some (vr_stat ref))) s1,
                      fe_id e,
                      if fe_contentHash e = [] then ops_create (fe_id e) (vr_path ref) hash hlcTs
                      else ops_update (fe_id e) (vr_path ref) hash hlcTs (fe_headVersionId e))) of
             ((s2, Some x), i, op) \<Rightarrow> ((p, s2), Some x)
           | ((s2, None), i, op) \<Rightarrow>
               (case emit_op op (p, s2) of
                  (p1, s3) \<Rightarrow>
                    (case capture_tick env True (cp_since p1, lg_setHead env i (op_id op) s3) of
                       (since, s4) \<Rightarrow> ((p1\<lparr> cp_changed := True, cp_since := since \<rparr>, s4), None))))))"

definition capture_file ::
  "logger_env \<Rightarrow> vault_files \<Rightarrow> file_ref \<Rightarrow> capture_pass \<times> oplogger \<Rightarrow> (capture_pass \<times> oplogger) \<times> io_error option" where
  "capture_file env v ref = (\<lambda>(p, s).
     (let path = vr_path ref; stat = vr_stat ref
      in if isExcluded path (le_settings env) then ((p, s), None)
         else
           (let p1 = p\<lparr> cp_onDisk := js_add path (cp_onDisk p) \<rparr>
            in if isTooLarge (fs_size stat) (le_settings env) then
                 ((p1\<lparr> cp_stats := (cp_stats p1)\<lparr> cst_skippedTooLarge := cst_skippedTooLarge (cp_stats p1) + 1 \<rparr> \<rparr>, s), None)
               else
                 (let p2 = p1\<lparr> cp_stats := (cp_stats p1)\<lparr> cst_files := cst_files (cp_stats p1) + 1 \<rparr> \<rparr>;
                      entry = getByPath (lg_registry s) path;
                      gated = (case entry of
                                 Some e \<Rightarrow> fe_mtime e = Some (fs_mtime stat) \<and> fe_size e = Some (fs_size stat)
                               | None \<Rightarrow> False)
                  in if gated then ((p2, s), None)
                     else
                       (case vf_read v path of
                          None \<Rightarrow> ((p2, s), None)
                        | Some content \<Rightarrow>
                            (let hash = content_hash env content
                             in case entry of
                                  Some e \<Rightarrow>
                                    if fe_contentHash e = hash then
                                      (case on_registry (recordStat (le_settings env) path (fs_mtime stat) (fs_size stat)) s of
                                         (s1, x) \<Rightarrow> ((p2, s1), x))
                                    else capture_changed env ref entry content hash (p2, s)
                                | None \<Rightarrow> capture_changed env ref None content hash (p2, s)))))))"

datatype capture_end = Scanned | Aborted | Threw io_error

text \<open>The scan; \<open>aborted n\<close> is the signal when the n-th file comes up.\<close>

fun capture_loop ::
  "logger_env \<Rightarrow> vault_files \<Rightarrow> (nat \<Rightarrow> bool) \<Rightarrow> file_ref list \<Rightarrow> nat \<Rightarrow> capture_pass \<times> oplogger \<Rightarrow>
     (capture_pass \<times> oplogger) \<times> capture_end" where
  "capture_loop env v aborted [] n ps = (ps, Scanned)"
| "capture_loop env v aborted (ref # refs) n ps =
     (if aborted n then ((fst ps, capture_flush env (cp_changed (fst ps)) (snd ps)), Aborted)
      else
        (case capture_file env v ref ps of
           (ps1, Some x) \<Rightarrow> (ps1, Threw x)
         | (ps1, None) \<Rightarrow> capture_loop env v aborted refs (n + 1) ps1))"

text \<open>Entries whose file is not on disk any more.\<close>

fun delete_missing ::
  "logger_env \<Rightarrow> FileEntry list \<Rightarrow> capture_pass \<times> oplogger \<Rightarrow> (capture_pass \<times> oplogger) \<times> io_error option" where
  "delete_missing env [] ps = (ps, None)"
| "delete_missing env (entry # es) ps =
     (if fe_path entry \<in> set (cp_onDisk (fst ps)) then delete_missing env es ps
      else
        (case lg_now env (snd ps) of
           (hlcTs, s1) \<Rightarrow>
             (case on_registry (markDeleted (le_settings env) (fe_path entry) hlcTs) s1 of
                (s2, Some x) \<Rightarrow> ((fst ps, s2), Some x)
              | (s2, None) \<Rightarrow>
                  if fe_contentHash entry = [] then delete_missing env es (fst ps, s2)
                  else
                    (let op = ops_delete (fe_id entry) (fe_path entry) (fe_contentHash entry) hlcTs (fe_headVersionId entry)
                     in case emit_op op (fst ps, s2) of
                          (p1, s3) \<Rightarrow>
                            delete_missing env es (p1\<lparr> cp_changed := True \<rparr>, lg_setHead env (fe_id entry) (op_id op) s3)))))"

definition active_entries :: "logger_env \<Rightarrow> registry \<Rightarrow> FileEntry list" where
  "active_entries env r = filter (\<lambda>e. \<not> isExcluded (fe_path e) (le_settings env)) (getActiveEntries r)"

definition capture_deletes :: "logger_env \<Rightarrow> capture_pass \<times> oplogger \<Rightarrow> (capture_pass \<times> oplogger) \<times> io_error option" where
  "capture_deletes env ps =
     (let activeEntries = active_entries env (lg_registry (snd ps))
      in if cp_onDisk (fst ps) = [] \<and> activeEntries \<noteq> [] then (ps, None)
         else delete_missing env activeEntries ps)"

definition capture_finally :: "logger_env \<Rightarrow> oplogger \<Rightarrow> oplogger" where
  "capture_finally env s =
     s\<lparr> lg_registry := reg_compact (le_settings env) None (resumeSaves (lg_registry s)) \<rparr>"

definition captureOfflineChanges ::
  "logger_env \<Rightarrow> vault_files \<Rightarrow> (nat \<Rightarrow> bool) \<Rightarrow> oplogger \<Rightarrow> oplogger \<times> (io_error + capture_stats)" where
  "captureOfflineChanges env v aborted s =
     (case capture_loop env v aborted (vf_list v) 0 (new_pass, s\<lparr> lg_registry := suspendSaves (lg_registry s) \<rparr>) of
        ((p, s1), Threw x) \<Rightarrow> (capture_finally env s1, Inl x)
      | ((p, s1), Aborted) \<Rightarrow> (capture_finally env s1, Inr (cp_stats p))
      | ((p, s1), Scanned) \<Rightarrow>
          (case capture_deletes env (p, s1) of
             ((p2, s2), Some x) \<Rightarrow> (capture_finally env s2, Inl x)
           | ((p2, s2), None) \<Rightarrow>
               (capture_finally env (capture_flush env (cp_changed p2) s2), Inr (cp_stats p2))))"

section \<open>The baseline and the startup sequence\<close>

definition baseline_file ::
  "logger_env \<Rightarrow> vault_files \<Rightarrow> file_ref \<Rightarrow> bool \<times> oplogger \<Rightarrow> (bool \<times> oplogger) \<times> io_error option" where
  "baseline_file env v ref = (\<lambda>(changed, s).
     (let path = vr_path ref
      in if isExcluded path (le_settings env) \<or> isTooLarge (fs_size (vr_stat ref)) (le_settings env) then ((changed, s), None)
         else
           (case vf_read v path of
              None \<Rightarrow> ((changed, s), None)
            | Some content \<Rightarrow>
                (let hash = content_hash env content;
                     s1 = on_store (cs_put hash content) s
                 in case getByPath (lg_registry s1) path of
                      None \<Rightarrow>
                        (case lg_now env s1 of
                           (hlcTs, s2) \<Rightarrow>
                             (case lg_register env path hlcTs hash (Some (vr_stat ref)) s2 of
                                (i, s3) \<Rightarrow>
                                  (let op = ops_create i path hash hlcTs
                                   in ((True, lg_setHead env i (op_id op) (on_oplog (push_op op) s3)), None))))
                    | Some e \<Rightarrow>
                        (case lg_now env s1 of
                           (hlcTs, s2) \<Rightarrow>
                             (case (if fe_contentHash e \<noteq> hash
                                    then on_registry (updateContentHash (le_settings env) path hash hlcTs (Some (vr_stat ref))) s2
                                    else (s2, None)) of
                                (s3, Some x) \<Rightarrow> ((changed, s3), Some x)
                              | (s3, None) \<Rightarrow>
                                  (let op = (if fe_contentHash e = [] then ops_create (fe_id e) path hash hlcTs
                                             else ops_update (fe_id e) path hash hlcTs (fe_headVersionId e))
                                   in ((True, lg_setHead env (fe_id e) (op_id op) (on_oplog (push_op op) s3)), None))))))))"

fun baseline_loop ::
  "logger_env \<Rightarrow> vault_files \<Rightarrow> file_ref list \<Rightarrow> bool \<times> oplogger \<Rightarrow> (bool \<times> oplogger) \<times> io_error option" where
  "baseline_loop env v [] cs = (cs, None)"
| "baseline_loop env v (ref # refs) cs =
     (case baseline_file env v ref cs of
        (cs1, Some x) \<Rightarrow> (cs1, Some x)
      | (cs1, None) \<Rightarrow> baseline_loop env v refs cs1)"

definition captureAllAsBaseline :: "logger_env \<Rightarrow> vault_files \<Rightarrow> oplogger \<Rightarrow> logger_result" where
  "captureAllAsBaseline env v s =
     (case baseline_loop env v (vf_list v) (False, s) of
        ((changed, s1), Some x) \<Rightarrow> (s1, Some x)
      | ((changed, s1), None) \<Rightarrow> (if changed then on_oplog appendOpLogLocked s1 else s1, None))"

definition MAX_RECONCILE_PASSES :: nat where "MAX_RECONCILE_PASSES = 1"

text \<open>
  What the world does around one pass: the files while it runs, the abort signal at each file and
  after the pass, and the paths that vault events touch meanwhile.
\<close>

record pass_env =
  pe_vault :: vault_files
  pe_aborted :: "nat \<Rightarrow> bool"
  pe_abortedAfter :: bool
  pe_touched :: "string list"

fun reconcile_passes ::
  "logger_env \<Rightarrow> (nat \<Rightarrow> pass_env) \<Rightarrow> nat \<Rightarrow> nat \<Rightarrow> capture_stats list \<Rightarrow> oplogger \<Rightarrow>
     oplogger \<times> (io_error + capture_stats list)" where
  "reconcile_passes env world 0 i passes s = (s, Inr passes)"
| "reconcile_passes env world (Suc left) i passes s =
     (if pe_touched (world i) = [] \<or> pe_abortedAfter (world i) then (s, Inr passes)
      else
        (case captureOfflineChanges env (pe_vault (world (i + 1))) (pe_aborted (world (i + 1))) s of
           (s1, Inl x) \<Rightarrow> (s1, Inl x)
         | (s1, Inr st) \<Rightarrow> reconcile_passes env world left (i + 1) (passes @ [st]) s1))"

definition captureOfflineChangesAndReconcile ::
  "logger_env \<Rightarrow> (nat \<Rightarrow> pass_env) \<Rightarrow> nat \<Rightarrow> oplogger \<Rightarrow> oplogger \<times> (io_error + capture_stats list)" where
  "captureOfflineChangesAndReconcile env world maxReconcilePasses s =
     (case captureOfflineChanges env (pe_vault (world 0)) (pe_aborted (world 0)) s of
        (s1, Inl x) \<Rightarrow> (s1, Inl x)
      | (s1, Inr st) \<Rightarrow> reconcile_passes env world maxReconcilePasses 0 [st] s1)"

end
