(* ===== verification/LoggerLaws.thy ===== *)
theory LoggerLaws
  imports Logger OpLogThms RegistryProps ContentThms
begin

text \<open>
  The invariant of the operation logger over its three components: the registry's invariant with
  the ids yet to come unused, the content store's invariant, a journal that is exactly the
  pending operations, and a readable blob behind every pending operation that carries content.
  Every handler keeps it and none throws.
\<close>

section \<open>The invariant\<close>

definition ids_fresh :: "logger_env \<Rightarrow> nat \<Rightarrow> registry \<Rightarrow> bool" where
  "ids_fresh env n r = (\<forall>k \<ge> n. jm_get (rg_entries r) (le_uuid env k) = None)"

definition log_synced :: "op_log \<Rightarrow> bool" where
  "log_synced l = (log_ops (ol_metadata l) (ol_pendingOps l) \<and> ol_persistedCount l = length (ol_pendingOps l))"

definition needs_blob :: "Operation \<Rightarrow> bool" where
  "needs_blob p = (op_type p = OpCreate \<or> op_type p = OpUpdate)"

definition blobs_readable :: "logger_env \<Rightarrow> content_store \<Rightarrow> Operation list \<Rightarrow> bool" where
  "blobs_readable env c ops = (\<forall>p \<in> set ops. needs_blob p \<longrightarrow> readable (le_sha env) c (op_contentHash p))"

definition parts_ok :: "logger_env \<Rightarrow> oplogger \<Rightarrow> bool" where
  "parts_ok env s = (reg_inv (lg_registry s) \<and> ids_fresh env (lg_ids s) (lg_registry s) \<and> store_inv (le_sha env) (lg_store s))"

definition lg_inv :: "logger_env \<Rightarrow> oplogger \<Rightarrow> bool" where
  "lg_inv env s = (parts_ok env s \<and> log_synced (lg_log s) \<and> blobs_readable env (lg_store s) (ol_pendingOps (lg_log s)))"

definition env_ok :: "logger_env \<Rightarrow> bool" where
  "env_ok env = (inj (le_uuid env) \<and> [] \<notin> range (le_uuid env) \<and> (\<forall>b. le_sha env b \<noteq> []))"

section \<open>Frames of the steps\<close>

lemma lg_now_simps [simp]:
  "lg_registry (snd (lg_now env s)) = lg_registry s" "lg_store (snd (lg_now env s)) = lg_store s"
  "ol_pendingOps (lg_log (snd (lg_now env s))) = ol_pendingOps (lg_log s)"
  "ol_persistedCount (lg_log (snd (lg_now env s))) = ol_persistedCount (lg_log s)"
  "ol_metadata (lg_log (snd (lg_now env s))) = ol_metadata (lg_log s)" "lg_ids (snd (lg_now env s)) = lg_ids s"
  by (simp_all add: lg_now_def Let_def)

lemma step_simps [simp]:
  "lg_registry (on_store f s) = lg_registry s" "lg_store (on_store f s) = f (lg_store s)" "lg_log (on_store f s) = lg_log s"
  "lg_ids (on_store f s) = lg_ids s" "lg_registry (on_oplog g s) = lg_registry s" "lg_store (on_oplog g s) = lg_store s"
  "lg_log (on_oplog g s) = g (lg_log s)" "lg_ids (on_oplog g s) = lg_ids s"
  "lg_registry (notify m s) = lg_registry s" "lg_store (notify m s) = lg_store s" "lg_log (notify m s) = lg_log s"
  "lg_ids (notify m s) = lg_ids s" "lg_store (lg_setHead env i h s) = lg_store s" "lg_log (lg_setHead env i h s) = lg_log s"
  "lg_ids (lg_setHead env i h s) = lg_ids s"
  "lg_registry (lg_setHead env i h s) = setHeadVersion (le_settings env) i h (lg_registry s)"
  "lg_store (snd (lg_register env p t h st s)) = lg_store s" "lg_log (snd (lg_register env p t h st s)) = lg_log s"
  "lg_ids (snd (lg_register env p t h st s)) = lg_ids s + 1"
  "lg_registry (snd (lg_register env p t h st s)) =
     fst (registerFile (le_settings env) (le_uuid env (lg_ids s)) p t h st (lg_registry s))"
  by (simp_all add: on_store_def on_oplog_def notify_def lg_setHead_def lg_register_def split: prod.splits)

lemma recordOp_simps [simp]:
  "lg_registry (recordOp p s) = lg_registry s" "lg_store (recordOp p s) = lg_store s" "lg_ids (recordOp p s) = lg_ids s"
  "lg_log (recordOp p s) = appendOpLogLocked (push_op p (lg_log s))"
  by (simp_all add: recordOp_def)

section \<open>The registry\<close>

lemma update_at_keys: "update_at st p f r = Inr r' \<Longrightarrow> jm_get (rg_entries r') i \<noteq> None \<Longrightarrow> jm_get (rg_entries r) i \<noteq> None"
  by (auto simp: update_at_def split: option.splits if_splits)

lemma ids_fresh_cong: "rg_entries r' = rg_entries r \<Longrightarrow> ids_fresh env n r' = ids_fresh env n r"
  by (simp add: ids_fresh_def)

lemma ids_fresh_mono:
  "ids_fresh env n r \<Longrightarrow> n \<le> m \<Longrightarrow> (\<And>i. jm_get (rg_entries r') i \<noteq> None \<Longrightarrow> jm_get (rg_entries r) i \<noteq> None) \<Longrightarrow> ids_fresh env m r'"
  unfolding ids_fresh_def by (meson order_trans)

definition keeps_ids :: "(registry \<Rightarrow> io_error + registry) \<Rightarrow> bool" where
  "keeps_ids f =
     (\<forall>r. reg_inv r \<longrightarrow> (\<exists>r'. f r = Inr r' \<and> reg_inv r' \<and>
        (\<forall>i. jm_get (rg_entries r') i \<noteq> None \<longrightarrow> jm_get (rg_entries r) i \<noteq> None)))"

lemma keeps_update_at:
  assumes "\<And>e. fe_id (f e) = fe_id e \<and> fe_path (f e) = fe_path e"
  shows "keeps_ids (update_at st p f)"
  unfolding keeps_ids_def
proof (intro allI impI)
  fix r assume "reg_inv r"
  from update_at_inv [OF this assms] obtain r' where "update_at st p f r = Inr r'" "reg_inv r'" by blast
  then show "\<exists>r'. update_at st p f r = Inr r' \<and> reg_inv r' \<and>
      (\<forall>i. jm_get (rg_entries r') i \<noteq> None \<longrightarrow> jm_get (rg_entries r) i \<noteq> None)"
    using update_at_keys by blast
qed

lemma keeps_ops:
  "keeps_ids (updateContentHash st p c h fs)" "keeps_ids (markDeleted st p h)" "keeps_ids (recordStat st p mt sz)"
  unfolding updateContentHash_def markDeleted_def recordStat_def by (rule keeps_update_at; simp)+

lemma keeps_path: "keeps_ids (updatePath st p q h)"
  unfolding keeps_ids_def
proof (intro allI impI)
  fix r assume "reg_inv r"
  from updatePath_inv [OF this] obtain r' where r': "updatePath st p q h r = Inr r'" "reg_inv r'" by blast
  have "jm_get (rg_entries r') i \<noteq> None \<Longrightarrow> jm_get (rg_entries r) i \<noteq> None" for i
    using r'(1) by (auto simp: updatePath_def split: option.splits if_splits)
  then show "\<exists>r'. updatePath st p q h r = Inr r' \<and> reg_inv r' \<and>
      (\<forall>i. jm_get (rg_entries r') i \<noteq> None \<longrightarrow> jm_get (rg_entries r) i \<noteq> None)"
    using r' by blast
qed

lemma keeps_clear: "keeps_ids (\<lambda>r. Inr (clearConflict st i r))"
proof -
  have "jm_get (rg_entries (clearConflict st i r)) j \<noteq> None \<Longrightarrow> jm_get (rg_entries r) j \<noteq> None" for j r
    by (auto simp: clearConflict_def split: option.splits if_splits)
  then show ?thesis unfolding keeps_ids_def using clearConflict_inv by blast
qed

lemma setHead_entries: "jm_get (rg_entries (setHeadVersion st i v r)) j \<noteq> None \<Longrightarrow> jm_get (rg_entries r) j \<noteq> None"
  by (auto simp: setHeadVersion_def update_id_def split: option.splits if_splits)

lemma setHead_inv: "reg_inv r \<Longrightarrow> reg_inv (setHeadVersion st i v r)"
  unfolding setHeadVersion_def by (rule update_id_inv) simp_all

lemma parts_now: "parts_ok env s \<Longrightarrow> parts_ok env (snd (lg_now env s))"
  by (simp add: parts_ok_def)

lemma parts_head: "parts_ok env s \<Longrightarrow> parts_ok env (lg_setHead env i v s)"
  using ids_fresh_mono [of env "lg_ids s" "lg_registry s" "lg_ids s" "setHeadVersion (le_settings env) i v (lg_registry s)"]
  by (simp add: parts_ok_def setHead_inv setHead_entries)

lemma parts_registry:
  assumes "parts_ok env s" and "keeps_ids f"
  obtains r where "on_registry f s = (s\<lparr> lg_registry := r \<rparr>, None)" and "parts_ok env (s\<lparr> lg_registry := r \<rparr>)"
proof -
  have "reg_inv (lg_registry s)" using assms(1) by (simp add: parts_ok_def)
  with assms(2) obtain r' where r': "f (lg_registry s) = Inr r'" "reg_inv r'"
    "\<forall>i. jm_get (rg_entries r') i \<noteq> None \<longrightarrow> jm_get (rg_entries (lg_registry s)) i \<noteq> None"
    by (auto simp: keeps_ids_def)
  have "ids_fresh env (lg_ids s) r'"
    using ids_fresh_mono [of env "lg_ids s" "lg_registry s" "lg_ids s" r'] r'(3) assms(1) by (simp add: parts_ok_def)
  then show thesis using that [of r'] r' assms(1) by (simp add: on_registry_def parts_ok_def)
qed

lemma parts_register:
  assumes "env_ok env" and "parts_ok env s"
  shows "parts_ok env (snd (lg_register env p t h st s))"
proof -
  let ?r = "lg_registry s" and ?u = "le_uuid env (lg_ids s)"
  have fresh: "jm_get (rg_entries ?r) ?u = None" using assms(2) by (simp add: parts_ok_def ids_fresh_def)
  have "reg_inv (fst (registerFile (le_settings env) ?u p t h st ?r))"
    using assms(2) fresh by (intro register_inv) (simp_all add: parts_ok_def)
  moreover have "i = ?u \<or> jm_get (rg_entries ?r) i \<noteq> None"
    if "jm_get (rg_entries (fst (registerFile (le_settings env) ?u p t h st ?r))) i \<noteq> None" for i
    using that by (auto simp: registerFile_def split: option.splits if_splits)
  then have "ids_fresh env (lg_ids s + 1) (fst (registerFile (le_settings env) ?u p t h st ?r))"
    using assms unfolding parts_ok_def ids_fresh_def env_ok_def by (metis Suc_eq_plus1 Suc_n_not_le_n injD le_SucI Suc_leD)
  ultimately show ?thesis using assms(2) by (simp add: parts_ok_def)
qed

section \<open>The store and the log\<close>

lemma content_key: "env_ok env \<Longrightarrow> key_ok (content_hash env b)"
  by (simp add: env_ok_def content_hash_def hash_key)

lemma store_buffered:
  assumes "env_ok env" and "store_inv (le_sha env) c"
  shows "store_inv (le_sha env) (putBuffered (content_hash env b) b c)"
    and "readable (le_sha env) c (content_hash env b) \<or>
      content_hash env b \<in> fst ` set (cs_packBuffer (putBuffered (content_hash env b) b c))"
  using assms cs_step_inv [of "le_sha env", OF _ step_buffer] putBuffered_packs(2) [OF _ _ content_key [OF assms(1)]]
  by (auto simp: env_ok_def store_inv_def content_hash_def)

definition held :: "(bytes \<Rightarrow> bytes) \<Rightarrow> content_store \<Rightarrow> string \<Rightarrow> bool" where
  "held sha c h = (readable sha c h \<or> h \<in> fst ` set (cs_packBuffer c))"

lemma readable_buffered: "readable sha (putBuffered k b c) h = readable sha c h"
  by (rule readable_cong) simp_all

lemma buffer_grows: "set (cs_packBuffer c) \<subseteq> set (cs_packBuffer (putBuffered k b c))"
  by (auto simp: putBuffered_def Let_def)

lemma held_buffered: "held sha c h \<Longrightarrow> held sha (putBuffered k b c) h"
  unfolding held_def readable_buffered using buffer_grows [of c k b] by blast

lemma held_flush: "store_inv sha c \<Longrightarrow> held sha c h \<Longrightarrow> readable sha (flushPack c) h"
  unfolding held_def store_inv_def by (blast intro: flush_readable)

lemma held_new: "env_ok env \<Longrightarrow> store_inv (le_sha env) c \<Longrightarrow> held (le_sha env) (putBuffered (content_hash env b) b c) (content_hash env b)"
  using store_buffered(2) by (auto simp: held_def readable_buffered)

lemma store_flush: "env_ok env \<Longrightarrow> store_inv (le_sha env) c \<Longrightarrow> store_inv (le_sha env) (flushPack c)"
  using cs_step_inv [OF _ step_flush] by (simp add: env_ok_def)

lemma store_clear: "env_ok env \<Longrightarrow> store_inv (le_sha env) c \<Longrightarrow> store_inv (le_sha env) (clearMemCache c)"
  using cs_step_inv [OF _ step_clear] by (simp add: env_ok_def)

lemma clear_kept [simp]: "readable sha (clearMemCache c) h = readable sha c h" "held sha (clearMemCache c) h = held sha c h"
  by (auto simp: held_def readable_def clearMemCache_def)

lemma store_put:
  assumes "env_ok env" and "store_inv (le_sha env) c"
  shows "store_inv (le_sha env) (cs_put (content_hash env b) b c)"
    and "readable (le_sha env) (cs_put (content_hash env b) b c) (content_hash env b)"
    and "readable (le_sha env) c h \<Longrightarrow> readable (le_sha env) (cs_put (content_hash env b) b c) h"
  unfolding cs_put_def
  using store_flush [OF assms(1) store_buffered(1) [OF assms]] held_flush [OF store_buffered(1) [OF assms]]
    held_new [OF assms] held_buffered by (simp_all add: held_def)

lemma append_synced:
  assumes "log_ops (ol_metadata l) D" and "D = take (ol_persistedCount l) (ol_pendingOps l)"
    and "ol_persistedCount l \<le> length (ol_pendingOps l)"
  shows "log_synced (appendOpLogLocked l) \<and> ol_pendingOps (appendOpLogLocked l) = ol_pendingOps l"
proof (cases "drop (ol_persistedCount l) (ol_pendingOps l) = []")
  case True
  then show ?thesis using assms by (simp add: appendOpLogLocked_def append_begin_def log_synced_def)
next
  case False
  then have "appendOpLogLocked l = write_done (Appending (drop (ol_persistedCount l) (ol_pendingOps l))) l"
    by (simp add: appendOpLogLocked_def append_begin_def Let_def)
  then show ?thesis using log_ops_append [OF assms(1) False] assms by (simp add: log_synced_def)
qed

lemma record_append:
  assumes "log_synced l"
  shows "log_synced (appendOpLogLocked (push_op p l))" and "ol_pendingOps (appendOpLogLocked (push_op p l)) = ol_pendingOps l @ [p]"
proof -
  have l: "log_ops (ol_metadata (push_op p l)) (ol_pendingOps l)" "ol_persistedCount (push_op p l) = length (ol_pendingOps l)"
    using assms by (simp_all add: log_synced_def)
  have "ol_pendingOps l = take (ol_persistedCount (push_op p l)) (ol_pendingOps (push_op p l))"
    "ol_persistedCount (push_op p l) \<le> length (ol_pendingOps (push_op p l))"
    unfolding l(2) by simp_all
  from append_synced [OF l(1) this]
  show "log_synced (appendOpLogLocked (push_op p l))" "ol_pendingOps (appendOpLogLocked (push_op p l)) = ol_pendingOps l @ [p]"
    by simp_all
qed

lemma rewrite_synced: "log_synced (rewriteOpLogLocked l)" "ol_pendingOps (rewriteOpLogLocked l) = ol_pendingOps l"
  by (simp_all add: rewriteOpLogLocked_def rewrite_begin_def log_synced_def)

section \<open>The handlers keep the invariant\<close>

lemma inv_now: "lg_inv env s \<Longrightarrow> lg_inv env (snd (lg_now env s))"
  by (simp add: lg_inv_def parts_now log_synced_def)

lemma inv_notify: "lg_inv env s \<Longrightarrow> lg_inv env (notify m s)"
  by (simp add: lg_inv_def parts_ok_def)

lemma inv_head: "lg_inv env s \<Longrightarrow> lg_inv env (lg_setHead env i v s)"
  by (simp add: lg_inv_def parts_head)

lemma inv_register: "env_ok env \<Longrightarrow> lg_inv env s \<Longrightarrow> lg_inv env (snd (lg_register env p t h st s))"
  by (simp add: lg_inv_def parts_register)

lemma inv_put:
  assumes "env_ok env" and "lg_inv env s"
  shows "lg_inv env (on_store (cs_put (content_hash env b) b) s)"
    and "readable (le_sha env) (lg_store (on_store (cs_put (content_hash env b) b) s)) (content_hash env b)"
proof -
  have c: "store_inv (le_sha env) (lg_store s)" using assms(2) by (simp add: lg_inv_def parts_ok_def)
  show "readable (le_sha env) (lg_store (on_store (cs_put (content_hash env b) b) s)) (content_hash env b)"
    using store_put(2) [OF assms(1) c] by simp
  show "lg_inv env (on_store (cs_put (content_hash env b) b) s)"
    using assms(2) store_put(1,3) [OF assms(1) c] by (simp add: lg_inv_def parts_ok_def blobs_readable_def)
qed

lemma inv_record:
  assumes "lg_inv env s" and "needs_blob p \<Longrightarrow> readable (le_sha env) (lg_store s) (op_contentHash p)"
  shows "lg_inv env (recordOp p s)"
proof -
  have l: "log_synced (lg_log s)" using assms(1) by (simp add: lg_inv_def)
  then show ?thesis using assms record_append [OF l] by (simp add: lg_inv_def parts_ok_def blobs_readable_def)
qed

lemma inv_registry:
  assumes "lg_inv env s" and "keeps_ids f"
  obtains r where "on_registry f s = (s\<lparr> lg_registry := r \<rparr>, None)" and "lg_inv env (s\<lparr> lg_registry := r \<rparr>)"
proof -
  have "parts_ok env s" using assms(1) by (simp add: lg_inv_def)
  from parts_registry [OF this assms(2)] obtain r
    where "on_registry f s = (s\<lparr> lg_registry := r \<rparr>, None)" "parts_ok env (s\<lparr> lg_registry := r \<rparr>)" .
  then show thesis using that assms(1) by (simp add: lg_inv_def)
qed

definition good :: "logger_env \<Rightarrow> logger_result \<Rightarrow> bool" where
  "good env r = (snd r = None \<and> lg_inv env (fst r))"

lemma good_Pair [simp]: "good env (s, None) = lg_inv env s" "good env (return s) = lg_inv env s"
  by (simp_all add: good_def return_def)

lemma good_then:
  assumes "lg_inv env s" and "keeps_ids f"
    and "\<And>r. lg_inv env (s\<lparr> lg_registry := r \<rparr>) \<Longrightarrow> good env (g (s\<lparr> lg_registry := r \<rparr>))"
  shows "good env (and_then (on_registry f) g s)"
proof -
  from inv_registry [OF assms(1,2)] obtain r
    where r: "on_registry f s = (s\<lparr> lg_registry := r \<rparr>, None)" "lg_inv env (s\<lparr> lg_registry := r \<rparr>)" .
  show ?thesis using assms(3) [OF r(2)] by (simp add: and_then_def r(1))
qed

lemma good_create:
  assumes "env_ok env" and "lg_inv env s"
  shows "good env (handleCreate env v path s)"
proof (cases "isExcluded path (le_settings env)")
  case False
  obtain h s1 where h: "lg_now env s = (h, s1)" by (cases "lg_now env s")
  then have s1: "lg_inv env s1" using inv_now [OF assms(2)] by (metis snd_conv)
  show ?thesis
  proof (cases "vf_read v path")
    case (Some b)
    show ?thesis
    proof (cases "isTooLarge (length b) (le_settings env)")
      case large: False
      obtain i s2 where r: "lg_register env path h (content_hash env b) None s1 = (i, s2)" by (cases "lg_register env path h (content_hash env b) None s1")
      then have "lg_inv env s2" using inv_register [OF assms(1) s1] by (metis snd_conv)
      note put = inv_put [OF assms(1) this, of b]
      let ?op = "ops_create i path (content_hash env b) h"
      have "lg_inv env (lg_setHead env i (op_id ?op) (recordOp ?op (on_store (cs_put (content_hash env b) b) s2)))"
        using put(2) by (intro inv_head inv_record put(1)) (simp add: ops_create_def)
      then show ?thesis using False h Some large r by (simp add: handleCreate_def Let_def)
    qed (use False h Some s1 in \<open>simp add: handleCreate_def inv_notify\<close>)
  qed (use False h s1 in \<open>simp add: handleCreate_def\<close>)
qed (use assms in \<open>simp add: handleCreate_def\<close>)

lemma good_resolve:
  assumes "env_ok env" and "lg_inv env s"
  shows "good env (resolve_save env path e b (content_hash env b) ps s)"
proof -
  obtain h s1 where h: "lg_now env s = (h, s1)" by (cases "lg_now env s")
  then have "lg_inv env s1" using inv_now [OF assms(2)] by (metis snd_conv)
  note put = inv_put [OF assms(1) this, of b]
  show ?thesis unfolding resolve_save_def h prod.case
  proof (rule good_then [OF put(1) keeps_ops(1)])
    fix r assume s2: "lg_inv env (on_store (cs_put (content_hash env b) b) s1\<lparr> lg_registry := r \<rparr>)" (is "lg_inv env ?s2")
    let ?op = "ops_merge (fe_id e) path (content_hash env b) h ps (mergeVersionId (le_sha env) (content_hash env b) ps)"
    let ?s3 = "lg_setHead env (fe_id e) (mergeVersionId (le_sha env) (content_hash env b) ps) (recordOp ?op ?s2)"
    have "readable (le_sha env) (lg_store ?s2) (content_hash env b)" using put(2) by simp
    then have "lg_inv env ?s3" by (intro inv_head inv_record s2) (simp add: ops_merge_def)
    from inv_registry [OF this keeps_clear] obtain r' where
      "on_registry (\<lambda>r. Inr (clearConflict (le_settings env) (fe_id e) r)) ?s3 = (?s3\<lparr> lg_registry := r' \<rparr>, None)"
      "lg_inv env (?s3\<lparr> lg_registry := r' \<rparr>)" .
    then show "good env (if hasConflictMarkers (le_decode env b) then (notify (markers_notice path) ?s2, None)
       else let vid = mergeVersionId (le_sha env) (content_hash env b) ps; op = ops_merge (fe_id e) path (content_hash env b) h ps vid
            in on_registry (\<lambda>r. Inr (clearConflict (le_settings env) (fe_id e) r)) (lg_setHead env (fe_id e) vid (recordOp op ?s2)))"
      using inv_notify [OF s2] by (simp add: Let_def good_def)
  qed
qed

lemma good_modify:
  assumes "env_ok env" and "lg_inv env s"
  shows "good env (flushModify env v path s)"
proof (cases "getByPath (lg_registry s) path")
  case None
  then show ?thesis using good_create [OF assms] by (simp add: flushModify_def)
next
  case (Some e)
  show ?thesis
  proof (cases "vf_read v path")
    case b: (Some b)
    obtain h s1 where h: "lg_now env s = (h, s1)" by (cases "lg_now env s")
    then have "lg_inv env s1" using inv_now [OF assms(2)] by (metis snd_conv)
    note put = inv_put [OF assms(1) this, of b]
    have "good env (and_then (on_registry (updateContentHash (le_settings env) path (content_hash env b) h None))
       (\<lambda>s2. let op = ops_update (fe_id e) path (content_hash env b) h (fe_headVersionId e)
             in return (lg_setHead env (fe_id e) (op_id op) (recordOp op s2)))
       (on_store (cs_put (content_hash env b) b) s1))"
      using put(2) by (intro good_then [OF put(1) keeps_ops(1)])
        (auto simp: Let_def ops_update_def intro!: inv_head inv_record)
    then show ?thesis using Some b h good_resolve [OF assms] assms(2) by (simp add: flushModify_def Let_def inv_notify)
  qed (use Some assms in \<open>simp add: flushModify_def\<close>)
qed


lemma good_delete:
  assumes "env_ok env" and "lg_inv env s"
  shows "good env (handleDelete env v path s)"
proof (cases "isExcluded path (le_settings env) \<or> getByPath (lg_registry s) path = None \<or> vf_exists v path")
  case True
  then show ?thesis using good_modify [OF assms] assms(2) by (auto simp: handleDelete_def split: option.splits)
next
  case False
  then obtain e where e: "getByPath (lg_registry s) path = Some e" by (cases "getByPath (lg_registry s) path") auto
  obtain h s1 where h: "lg_now env s = (h, s1)" by (cases "lg_now env s")
  then have s1: "lg_inv env s1" using inv_now [OF assms(2)] by (metis snd_conv)
  have "good env (and_then (on_registry (markDeleted (le_settings env) path h))
      (\<lambda>s2. if fe_contentHash e = [] then (s2, None)
            else (case pruneCreateDeletePair (fe_id e) (lg_log s2) of
                    (l, pruned) \<Rightarrow>
                      if pruned then return (on_oplog rewriteOpLogLocked (s2\<lparr> lg_log := l \<rparr>))
                      else (let op = ops_delete (fe_id e) path (fe_contentHash e) h (fe_headVersionId e)
                            in return (lg_setHead env (fe_id e) (op_id op) (recordOp op s2))))) s1)"
  proof (rule good_then [OF s1 keeps_ops(2)])
    fix r assume s2: "lg_inv env (s1\<lparr> lg_registry := r \<rparr>)" (is "lg_inv env ?s2")
    let ?op = "ops_delete (fe_id e) path (fe_contentHash e) h (fe_headVersionId e)"
    have "lg_inv env (lg_setHead env (fe_id e) (op_id ?op) (recordOp ?op ?s2))"
      by (intro inv_head inv_record s2) (simp add: needs_blob_def ops_delete_def)
    moreover have "lg_inv env (on_oplog rewriteOpLogLocked (?s2\<lparr> lg_log := drop_file (fe_id e) (lg_log ?s2) \<rparr>))"
      using s2 rewrite_synced [of "drop_file (fe_id e) (lg_log ?s2)"]
      by (auto simp: lg_inv_def parts_ok_def blobs_readable_def drop_file_def)
    ultimately show "good env (if fe_contentHash e = [] then (?s2, None)
            else (case pruneCreateDeletePair (fe_id e) (lg_log ?s2) of
                    (l, pruned) \<Rightarrow>
                      if pruned then return (on_oplog rewriteOpLogLocked (?s2\<lparr> lg_log := l \<rparr>))
                      else (let op = ops_delete (fe_id e) path (fe_contentHash e) h (fe_headVersionId e)
                            in return (lg_setHead env (fe_id e) (op_id op) (recordOp op ?s2)))))"
      using s2 by (simp add: pruneCreateDeletePair_def Let_def)
  qed
  then show ?thesis using False e h by (simp add: handleDelete_def)
qed

lemma good_rename:
  assumes "env_ok env" and "lg_inv env s"
  shows "good env (handleRename env v path old s)"
proof (cases "isExcluded path (le_settings env) \<and> isExcluded old (le_settings env) \<or> getByPath (lg_registry s) old = None")
  case True
  then show ?thesis using good_create [OF assms] assms(2) by (auto simp: handleRename_def split: option.splits)
next
  case False
  then obtain e where e: "getByPath (lg_registry s) old = Some e" by (cases "getByPath (lg_registry s) old") auto
  obtain h s1 where h: "lg_now env s = (h, s1)" by (cases "lg_now env s")
  then have s1: "lg_inv env s1" using inv_now [OF assms(2)] by (metis snd_conv)
  have "good env (and_then (on_registry (updatePath (le_settings env) old path h))
      (\<lambda>s2. if fe_contentHash e = [] then flushModify env v path s2
            else return (recordOp (ops_move (fe_id e) path (fe_contentHash e) h (fe_headVersionId e)) s2)) s1)"
    using good_modify [OF assms(1)]
    by (intro good_then [OF s1 keeps_path]) (auto intro!: inv_record simp: needs_blob_def ops_move_def)
  then show ?thesis using False e h by (auto simp: handleRename_def)
qed

lemma inv_timers: "lg_inv env s \<Longrightarrow> lg_inv env (s\<lparr> lg_debounceTimers := ts \<rparr>)"
  by (simp add: lg_inv_def parts_ok_def)

lemma good_timer: "env_ok env \<Longrightarrow> lg_inv env s \<Longrightarrow> good env (timer_fires env v path s)"
  unfolding timer_fires_def clear_timer_def by (intro good_modify inv_timers)

lemma good_flush_paths: "env_ok env \<Longrightarrow> lg_inv env s \<Longrightarrow> good env (flush_paths env v ps s)"
proof (induction ps arbitrary: s)
  case (Cons p ps)
  from good_timer [OF Cons.prems, of v p] obtain s1 where "timer_fires env v p s = (s1, None)" "lg_inv env s1"
    by (auto simp: good_def prod_eq_iff)
  then show ?case using Cons by (simp add: and_then_def)
qed simp

lemma inv_clearOps: "lg_inv env s \<Longrightarrow> lg_inv env (clearOps s)"
  using rewrite_synced [of "drop_all (lg_log s)"] by (simp add: lg_inv_def parts_ok_def clearOps_def blobs_readable_def drop_all_def)

section \<open>The capture pass\<close>

definition cap_inv :: "logger_env \<Rightarrow> bool \<Rightarrow> oplogger \<Rightarrow> bool" where
  "cap_inv env changed s =
     (parts_ok env s \<and>
      log_ops (ol_metadata (lg_log s)) (take (ol_persistedCount (lg_log s)) (ol_pendingOps (lg_log s))) \<and>
      ol_persistedCount (lg_log s) \<le> length (ol_pendingOps (lg_log s)) \<and>
      (\<not> changed \<longrightarrow> ol_persistedCount (lg_log s) = length (ol_pendingOps (lg_log s))) \<and>
      (\<forall>p \<in> set (ol_pendingOps (lg_log s)). needs_blob p \<longrightarrow> held (le_sha env) (lg_store s) (op_contentHash p)) \<and>
      blobs_readable env (lg_store s) (take (ol_persistedCount (lg_log s)) (ol_pendingOps (lg_log s))))"

lemma lg_cap: "lg_inv env s \<Longrightarrow> cap_inv env changed s"
  by (simp add: lg_inv_def cap_inv_def log_synced_def blobs_readable_def held_def)

lemma cap_lg: "cap_inv env False s \<Longrightarrow> blobs_readable env (lg_store s) (ol_pendingOps (lg_log s)) \<Longrightarrow> lg_inv env s"
  unfolding lg_inv_def cap_inv_def log_synced_def by auto

lemma cap_now: "cap_inv env c s \<Longrightarrow> cap_inv env c (snd (lg_now env s))"
  by (simp add: cap_inv_def parts_now)

lemma cap_head: "cap_inv env c s \<Longrightarrow> cap_inv env c (lg_setHead env i v s)"
  by (simp add: cap_inv_def parts_head)

lemma cap_register: "env_ok env \<Longrightarrow> cap_inv env c s \<Longrightarrow> cap_inv env c (snd (lg_register env p t h st s))"
  by (simp add: cap_inv_def parts_register)

lemma cap_registry:
  assumes "cap_inv env c s" and "keeps_ids f"
  obtains r where "on_registry f s = (s\<lparr> lg_registry := r \<rparr>, None)" and "cap_inv env c (s\<lparr> lg_registry := r \<rparr>)"
proof -
  have "parts_ok env s" using assms(1) by (simp add: cap_inv_def)
  from parts_registry [OF this assms(2)] obtain r
    where "on_registry f s = (s\<lparr> lg_registry := r \<rparr>, None)" "parts_ok env (s\<lparr> lg_registry := r \<rparr>)" .
  then show thesis using that assms(1) by (simp add: cap_inv_def)
qed

lemma cap_buffer:
  assumes "env_ok env" and "cap_inv env c s"
  shows "cap_inv env c (on_store (putBuffered (content_hash env b) b) s)"
    and "held (le_sha env) (lg_store (on_store (putBuffered (content_hash env b) b) s)) (content_hash env b)"
proof -
  have i: "store_inv (le_sha env) (lg_store s)" using assms(2) by (simp add: cap_inv_def parts_ok_def)
  show "held (le_sha env) (lg_store (on_store (putBuffered (content_hash env b) b) s)) (content_hash env b)"
    using held_new [OF assms(1) i] by simp
  show "cap_inv env c (on_store (putBuffered (content_hash env b) b) s)"
    using assms(2) store_buffered(1) [OF assms(1) i] held_buffered
    by (simp add: cap_inv_def parts_ok_def blobs_readable_def readable_buffered)
qed

lemma cap_push:
  assumes "cap_inv env c s" and "needs_blob p \<Longrightarrow> held (le_sha env) (lg_store s) (op_contentHash p)"
  shows "cap_inv env True (on_oplog (push_op p) s)"
  using assms by (auto simp: cap_inv_def parts_ok_def)

text \<open>
  A checkpoint and each of its halves: after the pack every pending blob is readable, so what is
  appended to the journal never refers to a blob that is not on disk.
\<close>

lemma cap_flush_store:
  assumes "env_ok env" and "cap_inv env c s"
  shows "cap_inv env c (on_store flushPack s)" and "blobs_readable env (lg_store (on_store flushPack s)) (ol_pendingOps (lg_log s))"
proof -
  have i: "store_inv (le_sha env) (lg_store s)" using assms(2) by (simp add: cap_inv_def parts_ok_def)
  show r: "blobs_readable env (lg_store (on_store flushPack s)) (ol_pendingOps (lg_log s))"
    using assms(2) held_flush [OF i] by (simp add: cap_inv_def blobs_readable_def)
  have "\<forall>p \<in> set (ol_pendingOps (lg_log s)). needs_blob p \<longrightarrow> held (le_sha env) (flushPack (lg_store s)) (op_contentHash p)"
    using r by (simp add: blobs_readable_def held_def)
  moreover have "blobs_readable env (flushPack (lg_store s)) (take n (ol_pendingOps (lg_log s)))" for n
    using r by (auto simp: blobs_readable_def dest: in_set_takeD)
  ultimately show "cap_inv env c (on_store flushPack s)"
    using assms(2) store_flush [OF assms(1) i] by (simp add: cap_inv_def parts_ok_def)
qed

lemma cap_flush_registry: "cap_inv env c s \<Longrightarrow> cap_inv env c (s\<lparr> lg_registry := reg_flush (le_settings env) (lg_registry s) \<rparr>)"
proof -
  assume c: "cap_inv env c s"
  then have r: "up_to_date (lg_registry s)" "reg_inv (lg_registry s)" by (simp_all add: cap_inv_def parts_ok_def reg_inv_def)
  let ?r = "reg_flush (le_settings env) (lg_registry s)"
  have "rg_entries ?r = rg_entries (lg_registry s)" by (rule flush_view(2) [OF r(1)])
  then have "ids_fresh env (lg_ids s) ?r" using c by (simp add: ids_fresh_def cap_inv_def parts_ok_def)
  then show ?thesis using c flush_inv [OF r(2), of "le_settings env"] by (simp add: cap_inv_def parts_ok_def)
qed

lemma cap_append:
  assumes "cap_inv env c s" and "blobs_readable env (lg_store s) (ol_pendingOps (lg_log s))"
  shows "lg_inv env (on_oplog appendOpLogLocked s)" and "ol_pendingOps (lg_log (on_oplog appendOpLogLocked s)) = ol_pendingOps (lg_log s)"
proof -
  have "log_synced (appendOpLogLocked (lg_log s)) \<and> ol_pendingOps (appendOpLogLocked (lg_log s)) = ol_pendingOps (lg_log s)"
    using assms(1) by (intro append_synced [OF _ refl]) (simp_all add: cap_inv_def)
  then show "lg_inv env (on_oplog appendOpLogLocked s)" "ol_pendingOps (lg_log (on_oplog appendOpLogLocked s)) = ol_pendingOps (lg_log s)"
    using assms by (simp_all add: lg_inv_def cap_inv_def parts_ok_def)
qed

lemma persist_capture_simp:
  "persist_capture env changed s =
     (let s1 = s\<lparr> lg_registry := reg_flush (le_settings env) (lg_registry s) \<rparr>
      in if changed then on_oplog appendOpLogLocked s1 else s1)"
  by (simp add: persist_capture_def persist_referrers_def lg_flush_registry_def)

lemma cap_persist:
  assumes "cap_inv env c s" and "blobs_readable env (lg_store s) (ol_pendingOps (lg_log s))"
  shows "lg_inv env (persist_capture env c s)" and "ol_pendingOps (lg_log (persist_capture env c s)) = ol_pendingOps (lg_log s)"
    and "lg_store (persist_capture env c s) = lg_store s"
proof -
  let ?s = "s\<lparr> lg_registry := reg_flush (le_settings env) (lg_registry s) \<rparr>"
  have c: "cap_inv env c ?s" "blobs_readable env (lg_store ?s) (ol_pendingOps (lg_log ?s))"
    using cap_flush_registry [OF assms(1)] assms(2) by simp_all
  show "lg_inv env (persist_capture env c s)" "ol_pendingOps (lg_log (persist_capture env c s)) = ol_pendingOps (lg_log s)"
    using cap_append [OF c] cap_lg [OF _ c(2)] c(1) by (cases c; simp add: persist_capture_simp Let_def)+
  show "lg_store (persist_capture env c s) = lg_store s" by (simp add: persist_capture_simp Let_def)
qed

lemma inv_clear: "env_ok env \<Longrightarrow> lg_inv env s \<Longrightarrow> lg_inv env (on_store clearMemCache s)"
  using store_clear by (simp add: lg_inv_def parts_ok_def blobs_readable_def)

lemma cap_checkpoint:
  assumes "env_ok env" and "cap_inv env c s"
  shows "lg_inv env (snd (pc_flush (on_store flushPack) (persist_capture env c) (on_store clearMemCache) w s))"
    and "ol_pendingOps (lg_log (snd (pc_flush (on_store flushPack) (persist_capture env c) (on_store clearMemCache) w s))) =
      ol_pendingOps (lg_log s)"
proof -
  have f: "cap_inv env c (on_store flushPack s)" "blobs_readable env (lg_store (on_store flushPack s)) (ol_pendingOps (lg_log (on_store flushPack s)))"
    using cap_flush_store [OF assms] by simp_all
  show "lg_inv env (snd (pc_flush (on_store flushPack) (persist_capture env c) (on_store clearMemCache) w s))"
    "ol_pendingOps (lg_log (snd (pc_flush (on_store flushPack) (persist_capture env c) (on_store clearMemCache) w s))) =
      ol_pendingOps (lg_log s)"
    using cap_persist [OF f] inv_clear [OF assms(1)] by (simp_all add: pc_flush_def Let_def)
qed

lemma cap_tick:
  assumes "env_ok env" and "cap_inv env True s"
  shows "cap_inv env True (snd (capture_tick env True (n, s)))"
    and "ol_pendingOps (lg_log (snd (capture_tick env True (n, s)))) = ol_pendingOps (lg_log s)"
  using assms cap_checkpoint [OF assms] lg_cap by (simp_all add: capture_tick_def pc_tick_def)

end
