(* ===== verification/LoggerThms.thy ===== *)
theory LoggerThms
  imports LoggerLaws
begin

text \<open>
  What the operation logger promises: in every reachable state the journal is the pending
  operations and every one with content has its blob on disk, at every checkpoint of a capture as
  well; a capture deletes only what a trustworthy listing lacks; a file created and deleted before
  a round leaves nothing to send; capturing twice emits nothing new.
\<close>

section \<open>The scan\<close>

text \<open>One file appends at most one operation, a create or an update, and marks the pass changed.\<close>

definition scan_next :: "logger_env \<Rightarrow> capture_pass \<times> oplogger \<Rightarrow> capture_pass \<times> oplogger \<Rightarrow> bool" where
  "scan_next env ps qs =
     (cap_inv env (cp_changed (fst qs)) (snd qs) \<and>
      (\<exists>ops. ol_pendingOps (lg_log (snd qs)) = ol_pendingOps (lg_log (snd ps)) @ ops \<and> (\<forall>p \<in> set ops. needs_blob p)))"

lemma scan_refl: "cap_inv env (cp_changed (fst ps)) (snd ps) \<Longrightarrow> scan_next env ps ps"
  by (simp add: scan_next_def)

lemma scan_trans: "scan_next env ps qs \<Longrightarrow> scan_next env qs rs \<Longrightarrow> scan_next env ps rs"
  unfolding scan_next_def by fastforce

lemma emit_simps [simp]:
  "snd (emit_op op (p, s)) = on_oplog (push_op op) s" "cp_changed (fst (emit_op op (p, s))) = cp_changed p"
  "cp_since (fst (emit_op op (p, s))) = cp_since p" "cp_onDisk (fst (emit_op op (p, s))) = cp_onDisk p"
  by (simp_all add: emit_op_def)

lemma scan_emit:
  assumes "env_ok env" and "cap_inv env c s" and "needs_blob op" and "held (le_sha env) (lg_store s) (op_contentHash op)"
    and "emit_op op (p, s) = (p1, s3)" and "capture_tick env True (n, lg_setHead env i v s3) = (since, s4)"
  shows "cap_inv env True s4 \<and> ol_pendingOps (lg_log s4) = ol_pendingOps (lg_log s) @ [op]"
proof -
  have s3: "s3 = on_oplog (push_op op) s" using assms(5) emit_simps(1) [of op p s] by simp
  have "cap_inv env True (lg_setHead env i v s3)"
    unfolding s3 by (intro cap_head cap_push [OF assms(2)] assms(4))
  from cap_tick [OF assms(1) this, of n] show ?thesis using assms(6) by (simp add: s3)
qed

lemma ops_need [simp]:
  "needs_blob (ops_create i p h t)" "needs_blob (ops_update i p h t v)" "op_contentHash (ops_create i p h t) = h"
  "op_contentHash (ops_update i p h t v) = h" "\<not> needs_blob (ops_delete i p h t v)"
  by (simp_all add: needs_blob_def ops_create_def ops_update_def ops_delete_def)

lemma scan_changed:
  assumes "env_ok env" and "cap_inv env (cp_changed p) s"
  shows "\<exists>qs. capture_changed env ref entry b (content_hash env b) (p, s) = (qs, None) \<and> scan_next env (p, s) qs \<and>
    cp_onDisk (fst qs) = cp_onDisk p"
proof -
  let ?h = "content_hash env b" and ?c = "cp_changed p"
  obtain t s1 where t: "lg_now env (on_store (putBuffered ?h b) s) = (t, s1)"
    by (cases "lg_now env (on_store (putBuffered ?h b) s)")
  then have s1: "cap_inv env ?c s1" "lg_store s1 = putBuffered ?h b (lg_store s)" "ol_pendingOps (lg_log s1) = ol_pendingOps (lg_log s)"
    using cap_now [OF cap_buffer(1) [OF assms, of b]] lg_now_simps [of env "on_store (putBuffered ?h b) s"] by simp_all
  have held: "held (le_sha env) (lg_store s1) ?h" using cap_buffer(2) [OF assms, of b] by (simp add: s1(2))
  have finish: "\<exists>qs. (case emit_op op (p, s2) of (p1, s3) \<Rightarrow>
        (case capture_tick env True (cp_since p1, lg_setHead env i (op_id op) s3) of
           (since, s4) \<Rightarrow> ((p1\<lparr> cp_changed := True, cp_since := since \<rparr>, s4), None))) = (qs, None :: io_error option) \<and>
      scan_next env (p, s) qs \<and> cp_onDisk (fst qs) = cp_onDisk p"
    if s2: "cap_inv env ?c s2" "lg_store s2 = lg_store s1" "ol_pendingOps (lg_log s2) = ol_pendingOps (lg_log s1)"
      and op: "needs_blob op" "op_contentHash op = ?h" for s2 op i
  proof -
    obtain p1 s3 where e: "emit_op op (p, s2) = (p1, s3)" by (cases "emit_op op (p, s2)")
    obtain since s4 where k: "capture_tick env True (cp_since p1, lg_setHead env i (op_id op) s3) = (since, s4)"
      by (cases "capture_tick env True (cp_since p1, lg_setHead env i (op_id op) s3)")
    have "held (le_sha env) (lg_store s2) (op_contentHash op)" using held s2(2) op(2) by simp
    from scan_emit [OF assms(1) s2(1) op(1) this e k]
    have "cap_inv env True s4" "ol_pendingOps (lg_log s4) = ol_pendingOps (lg_log s) @ [op]" using s2(3) s1(3) by simp_all
    moreover have "cp_onDisk p1 = cp_onDisk p" using e emit_simps(4) [of op p s2] by simp
    ultimately show ?thesis using op(1) by (auto simp: e k scan_next_def)
  qed
  show ?thesis
  proof (cases entry)
    case None
    obtain i s2 where r: "lg_register env (vr_path ref) t ?h (Some (vr_stat ref)) s1 = (i, s2)"
      by (cases "lg_register env (vr_path ref) t ?h (Some (vr_stat ref)) s1")
    then have s2: "cap_inv env ?c s2" "lg_store s2 = lg_store s1" "ol_pendingOps (lg_log s2) = ol_pendingOps (lg_log s1)"
      using cap_register [OF assms(1) s1(1)] step_simps(17,18) by (metis snd_conv)+
    show ?thesis using finish [OF s2] by (simp add: capture_changed_def t None r)
  next
    case (Some e)
    from cap_registry [OF s1(1) keeps_ops(1)] obtain r
      where r: "on_registry (updateContentHash (le_settings env) (vr_path ref) ?h t (Some (vr_stat ref))) s1 = (s1\<lparr> lg_registry := r \<rparr>, None)"
        "cap_inv env ?c (s1\<lparr> lg_registry := r \<rparr>)" .
    show ?thesis using finish [OF r(2)] by (simp add: capture_changed_def t Some r(1))
  qed
qed

lemma scan_file:
  assumes "env_ok env" and "cap_inv env (cp_changed p) s"
  shows "\<exists>qs. capture_file env v ref (p, s) = (qs, None) \<and> scan_next env (p, s) qs \<and>
    cp_onDisk (fst qs) = (if isExcluded (vr_path ref) (le_settings env) then cp_onDisk p else js_add (vr_path ref) (cp_onDisk p))"
proof (cases "isExcluded (vr_path ref) (le_settings env)")
  case True
  then show ?thesis using scan_refl [of env "(p, s)"] assms(2) by (simp add: capture_file_def Let_def)
next
  case False
  let ?p1 = "p\<lparr> cp_onDisk := js_add (vr_path ref) (cp_onDisk p) \<rparr>"
  let ?p2 = "?p1\<lparr> cp_stats := (cp_stats ?p1)\<lparr> cst_files := cst_files (cp_stats ?p1) + 1 \<rparr> \<rparr>"
  have same: "scan_next env (p, s) (q, s')" if "cp_changed q = cp_changed p" "cap_inv env (cp_changed p) s'"
    "ol_pendingOps (lg_log s') = ol_pendingOps (lg_log s)" for q s'
    using that by (simp add: scan_next_def)
  have changed: "\<exists>qs. capture_changed env ref entry b (content_hash env b) (?p2, s) = (qs, None) \<and> scan_next env (p, s) qs \<and>
      cp_onDisk (fst qs) = js_add (vr_path ref) (cp_onDisk p)" for entry b
    using scan_changed [OF assms(1), of ?p2 s ref entry b] assms(2) by (simp add: scan_next_def)
  show ?thesis
  proof (cases "isTooLarge (fs_size (vr_stat ref)) (le_settings env)")
    case True
    then show ?thesis using False same assms(2) by (simp add: capture_file_def Let_def)
  next
    case small: False
    show ?thesis
    proof (cases "vf_read v (vr_path ref)")
      case None
      then show ?thesis using False small same assms(2) by (simp add: capture_file_def Let_def)
    next
      case (Some b)
      show ?thesis
      proof (cases "getByPath (lg_registry s) (vr_path ref)")
        case None
        then show ?thesis using False small Some changed [of None b] by (simp add: capture_file_def Let_def)
      next
        case e: (Some e)
        from cap_registry [OF assms(2) keeps_ops(3)] obtain r where
          r: "on_registry (recordStat (le_settings env) (vr_path ref) (fs_mtime (vr_stat ref)) (fs_size (vr_stat ref))) s =
              (s\<lparr> lg_registry := r \<rparr>, None)" "cap_inv env (cp_changed p) (s\<lparr> lg_registry := r \<rparr>)" .
        show ?thesis
        proof (cases "fe_mtime e = Some (fs_mtime (vr_stat ref)) \<and> fe_size e = Some (fs_size (vr_stat ref))")
          case True
          then show ?thesis using False small e same assms(2) by (simp add: capture_file_def Let_def)
        next
          case drift: False
          then have gate: "(fe_mtime e = Some (fs_mtime (vr_stat ref)) \<and> fe_size e = Some (fs_size (vr_stat ref))) = False" by blast
          show ?thesis
          proof (cases "fe_contentHash e = content_hash env b")
            case True
            then show ?thesis using False small e Some r same by (simp add: capture_file_def Let_def gate)
          next
            case False
            then show ?thesis using \<open>\<not> isExcluded _ _\<close> small e Some changed [of "Some e" b]
              by (simp add: capture_file_def Let_def gate)
          qed
        qed
      qed
    qed
  qed
qed

text \<open>The paths a finished scan has seen.\<close>

definition listed :: "logger_env \<Rightarrow> file_ref list \<Rightarrow> string set" where
  "listed env refs = {vr_path ref | ref. ref \<in> set refs \<and> \<not> isExcluded (vr_path ref) (le_settings env)}"

lemma listed_simps [simp]: "listed env [] = {}"
  "listed env (ref # refs) =
     (if isExcluded (vr_path ref) (le_settings env) then listed env refs else insert (vr_path ref) (listed env refs))"
  by (auto simp: listed_def)

lemma scan_loop:
  assumes "env_ok env" and "cap_inv env (cp_changed (fst ps)) (snd ps)"
  obtains qs e where "capture_loop env v aborted refs n ps = (qs, e)" and "scan_next env ps qs"
    and "e = Scanned \<and> set (cp_onDisk (fst qs)) = set (cp_onDisk (fst ps)) \<union> listed env refs \<or>
      e = Aborted \<and> lg_inv env (snd qs) \<and> (\<exists>k \<ge> n. aborted k)"
  using assms
proof (induction refs arbitrary: n ps thesis)
  case Nil
  then show ?case using scan_refl by simp
next
  case (Cons ref refs)
  obtain p s where ps: "ps = (p, s)" by (cases ps)
  show ?case
  proof (cases "aborted n")
    case True
    let ?s = "capture_flush env (cp_changed p) s"
    have c: "cap_inv env (cp_changed p) s" using Cons.prems(3) ps by simp
    have s: "lg_inv env ?s" "ol_pendingOps (lg_log ?s) = ol_pendingOps (lg_log s)"
      using cap_checkpoint [OF Cons.prems(2) c] by (simp_all add: capture_flush_def)
    have "scan_next env ps (p, ?s)" using s(2) lg_cap [OF s(1)] by (simp add: scan_next_def ps)
    then show ?thesis using Cons.prems(1) [of "(p, ?s)" Aborted] True s(1) by (auto simp: ps)
  next
    case False
    have c: "cap_inv env (cp_changed p) s" using Cons.prems(3) ps by simp
    from scan_file [OF Cons.prems(2) c, of v ref] obtain qs where q: "capture_file env v ref (p, s) = (qs, None)"
      "scan_next env (p, s) qs"
      "cp_onDisk (fst qs) = (if isExcluded (vr_path ref) (le_settings env) then cp_onDisk p else js_add (vr_path ref) (cp_onDisk p))"
      by blast
    have "cap_inv env (cp_changed (fst qs)) (snd qs)" using q(2) by (simp add: scan_next_def)
    from Cons.IH [OF _ Cons.prems(2) this] obtain rs e where r: "capture_loop env v aborted refs (n + 1) qs = (rs, e)"
      "scan_next env qs rs"
      "e = Scanned \<and> set (cp_onDisk (fst rs)) = set (cp_onDisk (fst qs)) \<union> listed env refs \<or>
        e = Aborted \<and> lg_inv env (snd rs) \<and> (\<exists>k \<ge> n + 1. aborted k)" by blast
    have "scan_next env ps rs" using scan_trans q(2) r(2) ps by blast
    moreover have "e = Scanned \<and> set (cp_onDisk (fst rs)) = set (cp_onDisk (fst ps)) \<union> listed env (ref # refs) \<or>
        e = Aborted \<and> lg_inv env (snd rs) \<and> (\<exists>k \<ge> n. aborted k)"
      using r(3)
    proof
      assume "e = Scanned \<and> set (cp_onDisk (fst rs)) = set (cp_onDisk (fst qs)) \<union> listed env refs"
      then show ?thesis by (simp add: q(3) ps)
    next
      assume a: "e = Aborted \<and> lg_inv env (snd rs) \<and> (\<exists>k \<ge> n + 1. aborted k)"
      then obtain k where "n + 1 \<le> k" "aborted k" by blast
      then have "n \<le> k" "aborted k" by simp_all
      then show ?thesis using a by blast
    qed
    ultimately show ?thesis using Cons.prems(1) [of rs e] False q(1) r(1) by (simp add: ps)
  qed
qed


section \<open>The deletes of a pass\<close>

definition delete_next :: "capture_pass \<times> oplogger \<Rightarrow> FileEntry list \<Rightarrow> capture_pass \<times> oplogger \<Rightarrow> bool" where
  "delete_next ps es qs =
     (\<exists>ops. ol_pendingOps (lg_log (snd qs)) = ol_pendingOps (lg_log (snd ps)) @ ops \<and>
        (\<forall>p \<in> set ops. op_type p = OpDelete \<and>
           (\<exists>e \<in> set es. op_path p = fe_path e \<and> op_fileId p = fe_id e \<and> op_contentHash p = fe_contentHash e \<and>
              fe_contentHash e \<noteq> [] \<and> fe_path e \<notin> set (cp_onDisk (fst ps)))))"

lemma delete_loop:
  assumes "env_ok env" and "cap_inv env (cp_changed (fst ps)) (snd ps)"
  obtains qs where "delete_missing env es ps = (qs, None)" and "cap_inv env (cp_changed (fst qs)) (snd qs)"
    and "delete_next ps es qs"
  using assms(2)
proof (induction es arbitrary: ps thesis)
  case Nil
  then show ?case by (simp add: delete_next_def)
next
  case (Cons e es)
  obtain p s where ps: "ps = (p, s)" by (cases ps)
  have mono: "delete_next ps (e # es) qs"
    if "delete_next (p1, s1) es qs" "cp_onDisk p1 = cp_onDisk p"
      "ol_pendingOps (lg_log s1) = ol_pendingOps (lg_log s) \<or>
       ol_pendingOps (lg_log s1) = ol_pendingOps (lg_log s) @ [ops_delete (fe_id e) (fe_path e) (fe_contentHash e) t v] \<and>
       fe_contentHash e \<noteq> [] \<and> fe_path e \<notin> set (cp_onDisk p)" for p1 s1 qs t v
  proof -
    let ?op = "ops_delete (fe_id e) (fe_path e) (fe_contentHash e) t v"
    from that(1) obtain ops where ops: "ol_pendingOps (lg_log (snd qs)) = ol_pendingOps (lg_log s1) @ ops"
      "\<forall>p \<in> set ops. op_type p = OpDelete \<and> (\<exists>e \<in> set es. op_path p = fe_path e \<and> op_fileId p = fe_id e \<and>
         op_contentHash p = fe_contentHash e \<and> fe_contentHash e \<noteq> [] \<and> fe_path e \<notin> set (cp_onDisk p1))"
      by (auto simp: delete_next_def)
    from that(3) show ?thesis
    proof
      assume "ol_pendingOps (lg_log s1) = ol_pendingOps (lg_log s)"
      then show ?thesis unfolding delete_next_def using ops that(2) by (intro exI [of _ ops]) (auto simp: ps)
    next
      assume "ol_pendingOps (lg_log s1) = ol_pendingOps (lg_log s) @ [?op] \<and> fe_contentHash e \<noteq> [] \<and> fe_path e \<notin> set (cp_onDisk p)"
      then show ?thesis unfolding delete_next_def using ops that(2)
        by (intro exI [of _ "?op # ops"]) (auto simp: ps ops_delete_def)
    qed
  qed
  have c: "cap_inv env (cp_changed p) s" using Cons.prems(2) ps by simp
  show ?case
  proof (cases "fe_path e \<in> set (cp_onDisk p)")
    case True
    from Cons.IH [OF _ Cons.prems(2)] obtain qs where q: "delete_missing env es ps = (qs, None)"
      "cap_inv env (cp_changed (fst qs)) (snd qs)" "delete_next ps es qs" by blast
    show ?thesis using Cons.prems(1) [OF _ q(2) mono [of p s]] q(1,3) True by (simp add: ps)
  next
    case gone: False
    obtain t s1 where t: "lg_now env s = (t, s1)" by (cases "lg_now env s")
    then have s1: "cap_inv env (cp_changed p) s1" "ol_pendingOps (lg_log s1) = ol_pendingOps (lg_log s)"
      using cap_now [OF c] lg_now_simps(3) [of env s] by simp_all
    from cap_registry [OF s1(1) keeps_ops(2)] obtain r where
      r: "on_registry (markDeleted (le_settings env) (fe_path e) t) s1 = (s1\<lparr> lg_registry := r \<rparr>, None)"
        "cap_inv env (cp_changed p) (s1\<lparr> lg_registry := r \<rparr>)" (is "cap_inv _ _ ?s2") .
    show ?thesis
    proof (cases "fe_contentHash e = []")
      case True
      from Cons.IH [of "(p, ?s2)"] r(2) obtain qs where q: "delete_missing env es (p, ?s2) = (qs, None)"
        "cap_inv env (cp_changed (fst qs)) (snd qs)" "delete_next (p, ?s2) es qs" by auto
      show ?thesis using Cons.prems(1) [OF _ q(2) mono [OF q(3)]] q(1) True gone t r(1) s1(2) by (simp add: ps)
    next
      case False
      let ?op = "ops_delete (fe_id e) (fe_path e) (fe_contentHash e) t (fe_headVersionId e)"
      obtain p1 s3 where e: "emit_op ?op (p, ?s2) = (p1, s3)" by (cases "emit_op ?op (p, ?s2)")
      then have p1: "cp_onDisk p1 = cp_onDisk p" "s3 = on_oplog (push_op ?op) ?s2"
        using emit_simps(1,4) [of ?op p ?s2] by simp_all
      let ?s4 = "lg_setHead env (fe_id e) (op_id ?op) s3" and ?p2 = "p1\<lparr> cp_changed := True \<rparr>"
      have "cap_inv env (cp_changed ?p2) ?s4" unfolding p1(2) using cap_head [OF cap_push [OF r(2), of ?op]] by simp
      from Cons.IH [of "(?p2, ?s4)"] this obtain qs where q: "delete_missing env es (?p2, ?s4) = (qs, None)"
        "cap_inv env (cp_changed (fst qs)) (snd qs)" "delete_next (?p2, ?s4) es qs" by auto
      have "delete_next ps (e # es) qs"
        using s1(2) False gone by (intro mono [OF q(3)]) (simp_all add: p1)
      then show ?thesis using Cons.prems(1) [OF _ q(2)] q(1) False gone t r(1) e by (simp add: ps Let_def)
    qed
  qed
qed

lemma capture_end_inv: "lg_inv env s \<Longrightarrow> lg_inv env (capture_finally env s)"
proof -
  assume s: "lg_inv env s"
  let ?r = "reg_compact (le_settings env) None (resumeSaves (lg_registry s))"
  have "reg_inv ?r" using s by (intro compact_inv) (simp add: lg_inv_def parts_ok_def suspend_inv)
  moreover have "rg_entries ?r = rg_entries (lg_registry s)" by (simp add: compact_None resumeSaves_def)
  ultimately show ?thesis using s by (simp add: lg_inv_def parts_ok_def capture_finally_def ids_fresh_def)
qed

lemma suspend_cap: "lg_inv env s \<Longrightarrow> cap_inv env False (s\<lparr> lg_registry := suspendSaves (lg_registry s) \<rparr>)"
  using suspend_inv(1) [of "lg_registry s"]
  by (intro lg_cap) (auto simp: lg_inv_def parts_ok_def ids_fresh_def suspendSaves_def)

text \<open>The shape of a pass: what it appends, and where its deletes come from.\<close>

lemma capture_shape:
  assumes "env_ok env" and "lg_inv env s"
  obtains t st ops dels where "captureOfflineChanges env v aborted s = (t, Inr st)" and "lg_inv env t"
    and "ol_pendingOps (lg_log t) = ol_pendingOps (lg_log s) @ ops @ dels" and "\<forall>p \<in> set ops. needs_blob p"
    and "\<forall>p \<in> set dels. op_type p = OpDelete \<and> op_path p \<notin> listed env (vf_list v) \<and> op_contentHash p \<noteq> [] \<and>
      \<not> isExcluded (op_path p) (le_settings env) \<and> listed env (vf_list v) \<noteq> {}"
    and "dels = [] \<or> (\<exists>ps. capture_loop env v aborted (vf_list v) 0 (new_pass, s\<lparr> lg_registry := suspendSaves (lg_registry s) \<rparr>) = (ps, Scanned))"
proof -
  let ?s0 = "s\<lparr> lg_registry := suspendSaves (lg_registry s) \<rparr>"
  have "cap_inv env (cp_changed (fst (new_pass, ?s0))) (snd (new_pass, ?s0))"
    using suspend_cap [OF assms(2)] by (simp add: new_pass_def)
  from scan_loop [OF assms(1) this, of v aborted "vf_list v" 0] obtain qs e where
    loop: "capture_loop env v aborted (vf_list v) 0 (new_pass, ?s0) = (qs, e)" "scan_next env (new_pass, ?s0) qs"
      "e = Scanned \<and> set (cp_onDisk (fst qs)) = set (cp_onDisk (fst (new_pass, ?s0))) \<union> listed env (vf_list v) \<or>
       e = Aborted \<and> lg_inv env (snd qs) \<and> (\<exists>k \<ge> 0. aborted k)" .
  from loop(2) obtain ops where ops: "ol_pendingOps (lg_log (snd qs)) = ol_pendingOps (lg_log s) @ ops" "\<forall>p \<in> set ops. needs_blob p"
    and cq: "cap_inv env (cp_changed (fst qs)) (snd qs)" by (auto simp: scan_next_def)
  obtain p s1 where qs: "qs = (p, s1)" by (cases qs)
  show thesis
  proof (cases e)
    case Scanned
    then have disk: "set (cp_onDisk p) = listed env (vf_list v)" using loop(3) by (auto simp: qs new_pass_def)
    obtain rs where r: "capture_deletes env (p, s1) = (rs, None)" "cap_inv env (cp_changed (fst rs)) (snd rs)"
      "delete_next (p, s1) (if cp_onDisk p = [] then [] else active_entries env (lg_registry s1)) rs"
    proof (cases "cp_onDisk p = [] \<and> active_entries env (lg_registry s1) \<noteq> []")
      case True
      then show thesis using that [of "(p, s1)"] cq by (simp add: capture_deletes_def qs delete_next_def)
    next
      case False
      from delete_loop [OF assms(1), of "(p, s1)" "active_entries env (lg_registry s1)"] cq obtain rs where
        "delete_missing env (active_entries env (lg_registry s1)) (p, s1) = (rs, None)"
        "cap_inv env (cp_changed (fst rs)) (snd rs)" "delete_next (p, s1) (active_entries env (lg_registry s1)) rs"
        by (auto simp: qs)
      then show thesis using that [of rs] False by (auto simp: capture_deletes_def)
    qed
    obtain p2 s2 where rs: "rs = (p2, s2)" by (cases rs)
    let ?f = "capture_flush env (cp_changed p2) s2"
    have f: "lg_inv env ?f" "ol_pendingOps (lg_log ?f) = ol_pendingOps (lg_log s2)"
      using cap_checkpoint [OF assms(1), of "cp_changed p2" s2] r(2) by (simp_all add: capture_flush_def rs)
    from r(3) obtain dels where d: "ol_pendingOps (lg_log s2) = ol_pendingOps (lg_log s1) @ dels"
      "\<forall>q \<in> set dels. op_type q = OpDelete \<and> (\<exists>e \<in> set (if cp_onDisk p = [] then [] else active_entries env (lg_registry s1)).
         op_path q = fe_path e \<and> op_fileId q = fe_id e \<and> op_contentHash q = fe_contentHash e \<and> fe_contentHash e \<noteq> [] \<and>
         fe_path e \<notin> set (cp_onDisk p))"
      unfolding delete_next_def rs by auto
    have result: "captureOfflineChanges env v aborted s = (capture_finally env ?f, Inr (cp_stats p2))"
      using loop(1) Scanned r(1) by (simp add: captureOfflineChanges_def qs rs)
    have dels: "op_type q = OpDelete \<and> op_path q \<notin> listed env (vf_list v) \<and> op_contentHash q \<noteq> [] \<and>
        \<not> isExcluded (op_path q) (le_settings env) \<and> listed env (vf_list v) \<noteq> {}" if "q \<in> set dels" for q
    proof -
      from that d(2) obtain e where e: "op_type q = OpDelete" "cp_onDisk p \<noteq> []" "e \<in> set (active_entries env (lg_registry s1))"
        "op_path q = fe_path e" "op_contentHash q = fe_contentHash e" "fe_contentHash e \<noteq> []" "fe_path e \<notin> set (cp_onDisk p)"
        by (auto split: if_splits)
      then have "listed env (vf_list v) \<noteq> {}" unfolding disk [symmetric] by simp
      then show ?thesis using e disk by (simp add: active_entries_def)
    qed
    show thesis
    proof (rule that [OF result capture_end_inv [OF f(1)] _ ops(2)])
      show "ol_pendingOps (lg_log (capture_finally env ?f)) = ol_pendingOps (lg_log s) @ ops @ dels"
        using ops(1) d(1) f(2) by (simp add: capture_finally_def qs)
    qed (use dels loop(1) Scanned in auto)
  next
    case Aborted
    have "captureOfflineChanges env v aborted s = (capture_finally env s1, Inr (cp_stats p))"
      using loop(1) Aborted by (simp add: captureOfflineChanges_def qs)
    moreover have "lg_inv env s1" using loop(3) Aborted by (simp add: qs)
    ultimately show thesis using that [of "capture_finally env s1" "cp_stats p" ops "[]"] capture_end_inv ops
      by (simp add: capture_finally_def qs)
  next
    case (Threw x)
    then show thesis using loop(3) by simp
  qed
qed


section \<open>The baseline\<close>

definition base_inv :: "logger_env \<Rightarrow> bool \<Rightarrow> oplogger \<Rightarrow> bool" where
  "base_inv env c s = (cap_inv env c s \<and> blobs_readable env (lg_store s) (ol_pendingOps (lg_log s)))"

lemma base_put:
  assumes "env_ok env" and "base_inv env c s"
  shows "base_inv env c (on_store (cs_put (content_hash env b) b) s)"
    and "readable (le_sha env) (lg_store (on_store (cs_put (content_hash env b) b) s)) (content_hash env b)"
proof -
  have i: "store_inv (le_sha env) (lg_store s)" using assms(2) by (simp add: base_inv_def cap_inv_def parts_ok_def)
  show "readable (le_sha env) (lg_store (on_store (cs_put (content_hash env b) b) s)) (content_hash env b)"
    using store_put(2) [OF assms(1) i] by simp
  have "blobs_readable env (cs_put (content_hash env b) b (lg_store s)) (ol_pendingOps (lg_log s))"
    using assms(2) store_put(3) [OF assms(1) i] by (simp add: base_inv_def blobs_readable_def)
  then show "base_inv env c (on_store (cs_put (content_hash env b) b) s)"
    using assms(2) store_put(1) [OF assms(1) i]
    by (auto simp: base_inv_def cap_inv_def parts_ok_def blobs_readable_def held_def dest: in_set_takeD)
qed

lemma base_push:
  assumes "base_inv env c s" and "readable (le_sha env) (lg_store s) (op_contentHash p)"
  shows "base_inv env True (on_oplog (push_op p) s)"
  using assms cap_push [of env c s p] by (auto simp: base_inv_def held_def blobs_readable_def)

lemma baseline_step:
  assumes "env_ok env" and "base_inv env c s"
  shows "\<exists>c' s'. baseline_file env v ref (c, s) = ((c', s'), None) \<and> base_inv env c' s'"
proof (cases "isExcluded (vr_path ref) (le_settings env) \<or> isTooLarge (fs_size (vr_stat ref)) (le_settings env) \<or>
    vf_read v (vr_path ref) = None")
  case True
  then show ?thesis using assms(2) by (auto simp: baseline_file_def Let_def split: option.splits)
next
  case False
  then obtain b where b: "vf_read v (vr_path ref) = Some b" by (cases "vf_read v (vr_path ref)") auto
  let ?h = "content_hash env b" and ?p = "vr_path ref"
  let ?s1 = "on_store (cs_put ?h b) s"
  note put = base_put [OF assms, of b]
  obtain t s2 where t: "lg_now env ?s1 = (t, s2)" by (cases "lg_now env ?s1")
  then have s2: "base_inv env c s2" "lg_store s2 = lg_store ?s1"
    using put(1) cap_now [of env c ?s1] lg_now_simps [of env ?s1] by (simp_all add: base_inv_def)
  have hash: "readable (le_sha env) (lg_store s2) ?h" using put(2) s2(2) by simp
  show ?thesis
  proof (cases "getByPath (lg_registry ?s1) ?p")
    case None
    obtain i s3 where r: "lg_register env ?p t ?h (Some (vr_stat ref)) s2 = (i, s3)"
      by (cases "lg_register env ?p t ?h (Some (vr_stat ref)) s2")
    then have s3: "base_inv env c s3" "lg_store s3 = lg_store s2"
      using s2(1) cap_register [OF assms(1), of c s2 ?p t ?h "Some (vr_stat ref)"] step_simps(17,18) [of env ?p t ?h "Some (vr_stat ref)" s2]
      by (simp_all add: base_inv_def)
    have "base_inv env True (lg_setHead env i (op_id (ops_create i ?p ?h t)) (on_oplog (push_op (ops_create i ?p ?h t)) s3))"
      using base_push [OF s3(1), of "ops_create i ?p ?h t"] hash s3(2) by (simp add: base_inv_def cap_head)
    then show ?thesis using False b t r None by (auto simp: baseline_file_def Let_def)
  next
    case (Some e)
    have "\<exists>s3. (if fe_contentHash e \<noteq> ?h then on_registry (updateContentHash (le_settings env) ?p ?h t (Some (vr_stat ref))) s2
        else (s2, None)) = (s3, None) \<and> base_inv env c s3 \<and> lg_store s3 = lg_store s2"
    proof (cases "fe_contentHash e \<noteq> ?h")
      case True
      have "cap_inv env c s2" using s2(1) by (simp add: base_inv_def)
      from cap_registry [OF this keeps_ops(1)] obtain r where
        r: "on_registry (updateContentHash (le_settings env) ?p ?h t (Some (vr_stat ref))) s2 = (s2\<lparr> lg_registry := r \<rparr>, None)"
          "cap_inv env c (s2\<lparr> lg_registry := r \<rparr>)" .
      have "base_inv env c (s2\<lparr> lg_registry := r \<rparr>)" using r(2) s2(1) by (simp add: base_inv_def)
      then show ?thesis using True r(1) by simp
    qed (use s2 in simp)
    then obtain s3 where s3: "(if fe_contentHash e \<noteq> ?h then on_registry (updateContentHash (le_settings env) ?p ?h t (Some (vr_stat ref))) s2
        else (s2, None)) = (s3, None)" "base_inv env c s3" "lg_store s3 = lg_store s2" by blast
    let ?op = "if fe_contentHash e = [] then ops_create (fe_id e) ?p ?h t else ops_update (fe_id e) ?p ?h t (fe_headVersionId e)"
    have "base_inv env True (lg_setHead env (fe_id e) (op_id ?op) (on_oplog (push_op ?op) s3))"
      using base_push [OF s3(2), of ?op] hash s3(3) by (simp add: base_inv_def cap_head)
    moreover have "baseline_file env v ref (c, s) = ((True, lg_setHead env (fe_id e) (op_id ?op) (on_oplog (push_op ?op) s3)), None)"
      using False b t Some s3(1) by (simp add: baseline_file_def Let_def)
    ultimately show ?thesis by blast
  qed
qed

lemma baseline_good:
  assumes "env_ok env" and "lg_inv env s"
  shows "good env (captureAllAsBaseline env v s)"
proof -
  have loop: "\<exists>c' s'. baseline_loop env v refs (c, s) = ((c', s'), None) \<and> base_inv env c' s'" if "base_inv env c s" for refs c s
    using that
  proof (induction refs arbitrary: c s)
    case (Cons ref refs)
    from baseline_step [OF assms(1) Cons.prems, of v ref] Cons.IH show ?case by fastforce
  qed simp
  have "base_inv env False s" using assms(2) lg_cap by (simp add: base_inv_def lg_inv_def)
  from loop [OF this, of "vf_list v"] obtain c' s' where r: "baseline_loop env v (vf_list v) (False, s) = ((c', s'), None)" "base_inv env c' s'"
    by blast
  then have "cap_inv env c' s'" "blobs_readable env (lg_store s') (ol_pendingOps (lg_log s'))" by (simp_all add: base_inv_def)
  then have "lg_inv env (if c' then on_oplog appendOpLogLocked s' else s')"
    using cap_append(1) cap_lg by (cases c') auto
  then show ?thesis using r(1) by (simp add: captureAllAsBaseline_def)
qed

lemma capture_good:
  assumes "env_ok env" and "lg_inv env s"
  shows "\<exists>t st. captureOfflineChanges env v aborted s = (t, Inr st) \<and> lg_inv env t"
  by (rule capture_shape [OF assms, of v aborted]) blast

lemma reconcile_good:
  assumes "env_ok env"
  shows "lg_inv env s \<Longrightarrow> \<exists>t sts. reconcile_passes env world left i passes s = (t, Inr sts) \<and> lg_inv env t"
proof (induction left arbitrary: i passes s)
  case (Suc left)
  from capture_good [OF assms Suc.prems, of "pe_vault (world (i + 1))" "pe_aborted (world (i + 1))"] obtain t st
    where "captureOfflineChanges env (pe_vault (world (i + 1))) (pe_aborted (world (i + 1))) s = (t, Inr st)" "lg_inv env t" by blast
  then show ?case using Suc by simp
qed simp

lemma startup_good:
  assumes "env_ok env" and "lg_inv env s"
  shows "\<exists>t sts. captureOfflineChangesAndReconcile env world n s = (t, Inr sts) \<and> lg_inv env t"
proof -
  from capture_good [OF assms, of "pe_vault (world 0)" "pe_aborted (world 0)"] obtain t st
    where "captureOfflineChanges env (pe_vault (world 0)) (pe_aborted (world 0)) s = (t, Inr st)" "lg_inv env t" by blast
  then show ?thesis using reconcile_good [OF assms(1)] by (simp add: captureOfflineChangesAndReconcile_def)
qed

section \<open>Sessions of the logger\<close>

definition fresh_logger :: "HLC \<Rightarrow> int \<Rightarrow> oplogger" where
  "fresh_logger h budget =
     \<lparr> lg_log = new_op_log h [], lg_registry = new_registry [], lg_store = cs_init budget [], lg_debounceTimers = [],
       lg_ticks = 0, lg_ids = 0, lg_notices = [] \<rparr>"

inductive logger_step :: "logger_env \<Rightarrow> oplogger \<Rightarrow> oplogger \<Rightarrow> bool" for env where
  created: "logger_step env s (fst (handleCreate env v path s))"
| modified: "logger_step env s (handleModify env path s)"
| debounced: "logger_step env s (fst (timer_fires env v path s))"
| recaptured: "logger_step env s (fst (recaptureLocalEdit env v path s))"
| deleted: "logger_step env s (fst (handleDelete env v path s))"
| renamed: "logger_step env s (fst (handleRename env v path oldPath s))"
| flushed: "logger_step env s (fst (lg_flush env v s))"
| stopped: "logger_step env s (stopListening s)"
| cleared: "logger_step env s (clearOps s)"
| merged: "readable (le_sha env) (lg_store s) hash \<Longrightarrow> logger_step env s (recordMergeOp env i path hash h parents vid s)"
| merge_deleted: "logger_step env s (recordMergeDelete env i path hash h parents vid s)"
| captured: "logger_step env s (fst (captureOfflineChanges env v aborted s))"
| baselined: "logger_step env s (fst (captureAllAsBaseline env v s))"
| started: "logger_step env s (fst (captureOfflineChangesAndReconcile env world n s))"

lemma logger_step_inv: "logger_step env s t \<Longrightarrow> env_ok env \<Longrightarrow> lg_inv env s \<Longrightarrow> lg_inv env t"
proof (induction rule: logger_step.induct)
  case (flushed s v)
  then show ?case using good_flush_paths by (simp add: good_def lg_flush_def)
next
  case (merged s hash i path h parents vid)
  then show ?case unfolding recordMergeOp_def by (intro inv_head inv_record) (simp_all add: ops_merge_def)
next
  case (merge_deleted s i path hash h parents vid)
  then show ?case unfolding recordMergeDelete_def by (intro inv_head inv_record) (simp_all add: ops_mergeDelete_def needs_blob_def)
next
  case (captured s v aborted)
  then show ?case using capture_good by (metis fst_conv)
next
  case (started s world n)
  then show ?case using startup_good by (metis fst_conv)
qed (use good_create good_timer good_modify good_delete good_rename baseline_good inv_clearOps inv_timers in
    \<open>simp_all add: good_def handleModify_def stopListening_def recaptureLocalEdit_def\<close>)

lemma fresh_logger_inv: "lg_inv env (fresh_logger h budget)"
proof -
  have "reg_inv (new_registry [])" by (rule new_inv)
  moreover have "ids_fresh env 0 (new_registry [])" by (simp add: ids_fresh_def new_registry_def)
  ultimately show ?thesis
    by (simp add: lg_inv_def parts_ok_def fresh_logger_def init_inv log_synced_def new_op_log_def log_ops_def md_read_def
        blobs_readable_def)
qed

lemma logger_reachable: "(logger_step env)\<^sup>*\<^sup>* (fresh_logger h budget) s \<Longrightarrow> env_ok env \<Longrightarrow> lg_inv env s"
  by (induction rule: rtranclp_induct) (auto intro: fresh_logger_inv logger_step_inv)


section \<open>Properties\<close>

lemma blob_after_restart:
  assumes "store_inv sha c" and "readable sha c h"
  shows "\<exists>b. snd (cs_get sha h (cs_init budget (cs_metadata c))) = Inr (Some b) \<and> hashContent sha b = h"
proof -
  let ?e = "cs_init budget (cs_metadata c)"
  have c: "packs_inv sha c" "index_on_disk c" using assms(1) by (simp_all add: store_inv_def)
  have e: "cache_inv sha ?e" "packs_inv sha ?e" "readable sha ?e h"
    using cs_new_inv init_packs(1,2) [OF c] assms(2) by simp_all
  obtain e' f where f: "cs_get sha h ?e = (e', Inr f)" "f \<noteq> None" using get_packs [OF e(2,1), of h] e(3) by blast
  then show ?thesis using get_inv [OF e(1), of h] by (auto split: option.splits)
qed

text \<open>A created file is tracked: the registry knows its path under the id of the operation recorded.\<close>

lemma path_id_frames [simp]:
  "path_id (put_entry i e r) p = path_id r p" "path_id (reg_save st x r) p = path_id r p"
  "path_id (set_index q i r) p = (if p = q then (if i = [] then None else Some i) else path_id r p)"
  by (simp_all add: path_id_def)

lemma getByPath_alt: "getByPath r p = Option.bind (path_id r p) (jm_get (rg_entries r))"
  by (simp add: getByPath_def split: option.splits)

lemma tracked: "reg_inv r \<Longrightarrow> path_id r p = Some i \<Longrightarrow> \<exists>e. jm_get (rg_entries r) i = Some e \<and> fe_path e = p \<and> fe_id e = i"
proof -
  assume r: "reg_inv r" and "path_id r p = Some i"
  then have "jm_get (rg_pathIndex r) p = Some i" by (auto simp: path_id_def split: option.splits if_splits)
  then obtain e where "jm_get (rg_entries r) i = Some e" "fe_path e = p" using r by (auto simp: reg_inv_def index_ok_def)
  moreover from this have "fe_id e = i" using r by (auto simp: reg_inv_def up_to_date_but_def keyed_def)
  ultimately show ?thesis by blast
qed

lemma untracked: "reg_inv r \<Longrightarrow> getByPath r p = None \<longleftrightarrow> path_id r p = None"
  using tracked [of r p] by (cases "path_id r p") (auto simp: getByPath_alt)

lemma path_inj: "reg_inv r \<Longrightarrow> path_id r p = Some i \<Longrightarrow> path_id r q = Some i \<Longrightarrow> p = q"
  using tracked [of r p i] tracked [of r q i] by auto

lemma get_registered:
  assumes "path_id r p = None" and "u \<noteq> []"
  shows "getByPath (fst (registerFile st u p h c fs r)) q =
    (if q = p then Some (with_stat fs (new_entry u p c h)) else if path_id r q = Some u then Some (with_stat fs (new_entry u p c h))
     else getByPath r q)"
  using assms by (cases "path_id r q") (auto simp: registerFile_def getByPath_alt)

lemma get_setHead:
  "getByPath (setHeadVersion st i v r) p =
     map_option (\<lambda>e. if path_id r p = Some i then e\<lparr> fe_headVersionId := Some v \<rparr> else e) (getByPath r p)"
proof -
  have "path_id (setHeadVersion st i v r) p = path_id r p"
    by (simp add: setHeadVersion_def update_id_def split: option.splits)
  then show ?thesis by (cases "path_id r p") (auto simp: getByPath_alt setHeadVersion_def update_id_def map_option_case split: option.splits)
qed

lemma get_register_some:
  assumes "reg_inv r" and "u \<noteq> []"
  shows "\<exists>e. getByPath (fst (registerFile st u p h c fs r)) p = Some e \<and>
    path_id (fst (registerFile st u p h c fs r)) p = Some (snd (registerFile st u p h c fs r)) \<and>
    fe_id e = snd (registerFile st u p h c fs r)"
proof (cases "path_id r p")
  case None
  have "fe_id (with_stat fs (new_entry u p c h)) = u" by (simp add: with_stat_def new_entry_def split: option.splits)
  then show ?thesis using None assms(2) get_registered [OF None assms(2), of st h c fs p] by (simp add: registerFile_def)
next
  case (Some i)
  from tracked [OF assms(1) Some] obtain e where e: "jm_get (rg_entries r) i = Some e" "fe_id e = i" by blast
  have "fe_id (with_stat fs (e\<lparr> fe_deleted := False, fe_contentHash := c, fe_hlc := h \<rparr>)) = i"
    using e(2) by (simp add: with_stat_def split: option.splits)
  then show ?thesis using Some e by (simp add: registerFile_def getByPath_alt)
qed

lemma create_registers:
  assumes "env_ok env" and "lg_inv env s" and "\<not> isExcluded path (le_settings env)" and "vf_read v path = Some b"
    and "\<not> isTooLarge (length b) (le_settings env)"
  shows "\<exists>op e. getPendingOps (fst (handleCreate env v path s)) = getPendingOps s @ [op] \<and>
    op_type op = OpCreate \<and> op_path op = path \<and> op_contentHash op = content_hash env b \<and>
    getByPath (lg_registry (fst (handleCreate env v path s))) path = Some e \<and>
    fe_id e = op_fileId op \<and> fe_headVersionId e = Some (op_id op)"
proof -
  let ?h = "content_hash env b"
  obtain t s1 where t: "lg_now env s = (t, s1)" by (cases "lg_now env s")
  obtain i s2 where r: "lg_register env path t ?h None s1 = (i, s2)" by (cases "lg_register env path t ?h None s1")
  let ?op = "ops_create i path ?h t"
  have inv: "reg_inv (lg_registry s1)"
    using t assms(2) by (auto simp: lg_now_def Let_def lg_inv_def parts_ok_def)
  have u: "le_uuid env (lg_ids s1) \<noteq> []" using assms(1) by (metis env_ok_def rangeI)
  let ?rf = "registerFile (le_settings env) (le_uuid env (lg_ids s1)) path t ?h None (lg_registry s1)"
  have s2: "lg_registry s2 = fst ?rf" "i = snd ?rf" "lg_log s2 = lg_log s1"
    using r by (simp_all add: lg_register_def split: prod.splits) auto
  from get_register_some [OF inv u] obtain e where
    e: "getByPath (lg_registry s2) path = Some e" "path_id (lg_registry s2) path = Some i" "fe_id e = i"
    unfolding s2(1,2) by blast
  have c: "fst (handleCreate env v path s) = lg_setHead env i (op_id ?op) (recordOp ?op (on_store (cs_put ?h b) s2))"
    using assms(3-5) t r by (simp add: handleCreate_def return_def Let_def)
  have "getByPath (lg_registry (fst (handleCreate env v path s))) path = Some (e\<lparr> fe_headVersionId := Some (op_id ?op) \<rparr>)"
    using e(1,2) by (simp add: c lg_setHead_def recordOp_def on_oplog_def on_store_def get_setHead)
  moreover have "getPendingOps (fst (handleCreate env v path s)) = getPendingOps s @ [?op]"
    using t s2(3) by (auto simp: c lg_setHead_def recordOp_def on_oplog_def on_store_def getPendingOps_def lg_now_def Let_def
        appendOpLogLocked_def push_op_def split: option.splits)
  ultimately show ?thesis using e(3) by (intro exI [of _ ?op] exI conjI) (auto simp: ops_create_def)
qed


definition sample_env :: logger_env where
  "sample_env = \<lparr> le_settings = DEFAULT_SETTINGS, le_sha = length_sha, le_decode = map char_of_byte, le_wall = (\<lambda>n. n),
     le_uuid = (\<lambda>n. replicate (n + 1) CHR ''u'') \<rparr>"

definition sample_files :: vault_files where
  "sample_files = \<lparr> vf_list = [\<lparr> vr_path = ''a.md'', vr_stat = \<lparr> fs_mtime = 5, fs_size = 2 \<rparr> \<rparr>],
     vf_read = [''a.md'' \<mapsto> [1, 2]], vf_exists = (\<lambda>p. p = ''a.md'') \<rparr>"

definition sample_files2 :: vault_files where
  "sample_files2 = \<lparr> vf_list = [], vf_read = [''b.md'' \<mapsto> [7]], vf_exists = (\<lambda>p. p = ''b.md'') \<rparr>"

lemma sample_env_ok: "env_ok sample_env"
  by (auto simp: env_ok_def sample_env_def length_sha_def inj_def dest: arg_cong [where f = length])

definition sample_logger :: oplogger where
  "sample_logger = fst (handleCreate sample_env sample_files ''a.md'' (fresh_logger (HLC 0 0 ''d'') 100))"

lemma sample_logger_reach: "(logger_step sample_env)\<^sup>*\<^sup>* (fresh_logger (HLC 0 0 ''d'') 100) sample_logger"
  unfolding sample_logger_def by (rule r_into_rtranclp) (rule logger_step.created)


text \<open>
  The states of the disk at a checkpoint, in the order the code reaches them: \<open>pc_flush\<close> and
  \<open>persist_referrers\<close>, run over the list of the states so far instead of over the state, each of
  their effects adding the state it leads to.
\<close>

definition and_state :: "('s \<Rightarrow> 's) \<Rightarrow> 's list \<Rightarrow> 's list" where
  "and_state f states = states @ [f (last states)]"

definition checkpoint_states :: "logger_env \<Rightarrow> bool \<Rightarrow> bool \<Rightarrow> oplogger \<Rightarrow> oplogger list" where
  "checkpoint_states env changed keepWarm s =
     snd (pc_flush (and_state (on_store flushPack))
       (persist_referrers (and_state (lg_flush_registry env)) (and_state (on_oplog appendOpLogLocked)) changed)
       (and_state (on_store clearMemCache)) keepWarm [s])"

lemma checkpoint_states_end:
  "last (checkpoint_states env changed keepWarm s) =
     snd (pc_flush (on_store flushPack) (persist_capture env changed) (on_store clearMemCache) keepWarm s)"
  by (simp add: checkpoint_states_def pc_flush_def persist_capture_def persist_referrers_def and_state_def Let_def)

lemma cap_checkpoint_states:
  assumes "env_ok env" and "cap_inv env c s" and "t \<in> set (checkpoint_states env c w s)"
  shows "cap_inv env c t"
proof -
  let ?f = "on_store flushPack s"
  let ?g = "lg_flush_registry env ?f"
  have f: "cap_inv env c ?f" "blobs_readable env (lg_store ?f) (ol_pendingOps (lg_log ?f))"
    using cap_flush_store [OF assms(1,2)] by simp_all
  have g: "cap_inv env c ?g" using cap_flush_registry [OF f(1)] by (simp add: lg_flush_registry_def)
  have p: "lg_inv env (persist_capture env c ?f)" by (rule cap_persist(1) [OF f])
  have "t \<in> {s, ?f, ?g, persist_capture env c ?f, on_store clearMemCache (persist_capture env c ?f)}"
    using assms(3) by (auto simp: checkpoint_states_def pc_flush_def persist_capture_def persist_referrers_def and_state_def Let_def
        split: if_splits)
  then show ?thesis using assms(2) f(1) g lg_cap [OF p] lg_cap [OF inv_clear [OF assms(1) p]] by auto
qed

text \<open>
  C35: Blob before operation.  A capture has scanned some files, may be in the middle of its bulk
  (the last part of the scan runs with its counter reset, so that a checkpoint due in it has not
  run yet) or in its deletes, and a checkpoint runs.  Whichever of the effects of the checkpoint,
  in the order in which \<open>pc_flush\<close> and \<open>persist_referrers\<close> have them, have happened when the process
  dies: every operation with content that the journal on disk holds has its blob readable from
  the packs on disk.
\<close>

theorem blob_before_op:
  assumes "env_ok env" and "(logger_step env)\<^sup>*\<^sup>* (fresh_logger h budget) s"
    and "capture_loop env v aborted refs 0 (new_pass, s\<lparr> lg_registry := suspendSaves (lg_registry s) \<rparr>) = ((p0, s0), Scanned)"
    and "capture_loop env v aborted' later n (p0\<lparr> cp_since := 0 \<rparr>, s0) = ((p1, s1), e)"
    and "delete_missing env gone (p1, s1) = ((p, s2), None)"
    and "t \<in> set (checkpoint_states env (cp_changed p) keepWarm s2)"
  shows "\<exists>ops. (md_read (ol_metadata (lg_log t)) OPLOG_PATH = Some (ops_text ops) \<or>
        md_read (ol_metadata (lg_log t)) OPLOG_PATH = None \<and> ops = []) \<and>
      {op_contentHash q | q. q \<in> set ops \<and> op_type q \<in> {OpCreate, OpUpdate}} \<subseteq>
        {x. \<exists>b. snd (cs_get (le_sha env) x (cs_init budget' (cs_metadata (lg_store t)))) = Inr (Some b) \<and>
           hashContent (le_sha env) b = x}"
proof -
  have inv: "lg_inv env s" by (rule logger_reachable [OF assms(2,1)])
  let ?s0 = "s\<lparr> lg_registry := suspendSaves (lg_registry s) \<rparr>"
  have "cap_inv env (cp_changed (fst (new_pass, ?s0))) (snd (new_pass, ?s0))" using suspend_cap [OF inv] by (simp add: new_pass_def)
  from scan_loop [OF assms(1) this, of v aborted refs 0] assms(3)
  have "cap_inv env (cp_changed p0) s0" by (metis Pair_inject fst_conv scan_next_def snd_conv)
  then have "cap_inv env (cp_changed (fst (p0\<lparr> cp_since := 0 \<rparr>, s0))) (snd (p0\<lparr> cp_since := 0 \<rparr>, s0))" by simp
  from scan_loop [OF assms(1) this, of v aborted' later n] assms(4)
  have "cap_inv env (cp_changed p1) s1" by (metis Pair_inject fst_conv scan_next_def snd_conv)
  then have "cap_inv env (cp_changed (fst (p1, s1))) (snd (p1, s1))" by simp
  from delete_loop [OF assms(1) this, of gone] assms(5)
  have "cap_inv env (cp_changed p) s2" by (metis Pair_inject fst_conv snd_conv)
  then have "cap_inv env (cp_changed p) t" by (rule cap_checkpoint_states [OF assms(1) _ assms(6)])
  then have i: "store_inv (le_sha env) (lg_store t)"
    and D: "log_ops (ol_metadata (lg_log t)) (take (ol_persistedCount (lg_log t)) (ol_pendingOps (lg_log t)))"
    and r: "blobs_readable env (lg_store t) (take (ol_persistedCount (lg_log t)) (ol_pendingOps (lg_log t)))"
    by (simp_all add: cap_inv_def parts_ok_def)
  note blob = blob_after_restart [OF i, of _ budget']
  have "{op_contentHash q | q. q \<in> set (take (ol_persistedCount (lg_log t)) (ol_pendingOps (lg_log t))) \<and>
      op_type q \<in> {OpCreate, OpUpdate}} \<subseteq> {x. readable (le_sha env) (lg_store t) x}"
    using r by (auto simp: blobs_readable_def needs_blob_def)
  then show ?thesis using D [unfolded log_ops_def] blob by (intro exI conjI) (assumption, blast)
qed

definition sample_scan :: "(capture_pass \<times> oplogger) \<times> capture_end" where
  "sample_scan = capture_loop sample_env sample_files2 (\<lambda>_. False) [\<lparr> vr_path = ''b.md'', vr_stat = \<lparr> fs_mtime = 5, fs_size = 1 \<rparr> \<rparr>] 0
     (new_pass, sample_logger\<lparr> lg_registry := suspendSaves (lg_registry sample_logger) \<rparr>)"

definition sample_crash :: oplogger where
  "sample_crash = checkpoint_states sample_env (cp_changed (fst (fst sample_scan))) True (snd (fst sample_scan)) ! 2"

theorem blob_before_op_witness:
  "\<exists>ops. (md_read (ol_metadata (lg_log sample_crash)) OPLOG_PATH = Some (ops_text ops) \<or>
      md_read (ol_metadata (lg_log sample_crash)) OPLOG_PATH = None \<and> ops = []) \<and>
    {op_contentHash q | q. q \<in> set ops \<and> op_type q \<in> {OpCreate, OpUpdate}} \<subseteq>
      {x. \<exists>b. snd (cs_get (le_sha sample_env) x (cs_init 9 (cs_metadata (lg_store sample_crash)))) = Inr (Some b) \<and>
         hashContent (le_sha sample_env) b = x}"
proof (rule blob_before_op [OF sample_env_ok sample_logger_reach, where refs = "[]" and gone = "[]"])
  let ?s0 = "sample_logger\<lparr> lg_registry := suspendSaves (lg_registry sample_logger) \<rparr>"
  show "capture_loop sample_env sample_files2 (\<lambda>_. False) [] 0 (new_pass, ?s0) = ((new_pass, ?s0), Scanned)" by simp
  show "capture_loop sample_env sample_files2 (\<lambda>_. False) [\<lparr> vr_path = ''b.md'', vr_stat = \<lparr> fs_mtime = 5, fs_size = 1 \<rparr> \<rparr>] 0
      (new_pass\<lparr> cp_since := 0 \<rparr>, ?s0) = ((fst (fst sample_scan), snd (fst sample_scan)), snd sample_scan)"
    unfolding sample_scan_def by (simp only: prod.collapse) (simp add: new_pass_def)
  show "delete_missing sample_env [] (fst (fst sample_scan), snd (fst sample_scan)) =
      ((fst (fst sample_scan), snd (fst sample_scan)), None)" by simp
  have "2 < length (checkpoint_states sample_env c w s)" for c w s
    by (simp add: checkpoint_states_def pc_flush_def persist_referrers_def and_state_def Let_def)
  then show "sample_crash \<in> set (checkpoint_states sample_env (cp_changed (fst (fst sample_scan))) True (snd (fst sample_scan)))"
    unfolding sample_crash_def by (rule nth_mem)
qed

text \<open>
  C12: The guard against a phantom mass delete: a capture emits a delete only for a tracked, not
  excluded path that its listing lacks, and only when the scan was not aborted and the listing
  showed at least one file that takes part in sync; it carries a real content hash.
\<close>

theorem capture_deletes_justified:
  assumes "env_ok env" and "(logger_step env)\<^sup>*\<^sup>* (fresh_logger h budget) s"
    and "captureOfflineChanges env v aborted s = (t, st)"
  shows "\<exists>ops. getPendingOps t = getPendingOps s @ ops \<and>
    {p \<in> set ops. op_type p = OpDelete} \<subseteq>
      {p. op_path p \<notin> vr_path ` set (vf_list v) \<and> \<not> isExcluded (op_path p) (le_settings env) \<and> op_contentHash p \<noteq> [] \<and>
          list_ex (\<lambda>ref. \<not> isExcluded (vr_path ref) (le_settings env)) (vf_list v) \<and>
          snd (capture_loop env v aborted (vf_list v) 0 (new_pass, s\<lparr> lg_registry := suspendSaves (lg_registry s) \<rparr>)) = Scanned}"
proof -
  have inv: "lg_inv env s" by (rule logger_reachable [OF assms(2,1)])
  obtain t' st' ops dels where
    r: "captureOfflineChanges env v aborted s = (t', Inr st')" and "lg_inv env t'"
    and P: "ol_pendingOps (lg_log t') = ol_pendingOps (lg_log s) @ ops @ dels" and ops: "\<forall>p \<in> set ops. needs_blob p"
    and dels: "\<forall>p \<in> set dels. op_type p = OpDelete \<and> op_path p \<notin> listed env (vf_list v) \<and> op_contentHash p \<noteq> [] \<and>
        \<not> isExcluded (op_path p) (le_settings env) \<and> listed env (vf_list v) \<noteq> {}"
    and scan: "dels = [] \<or> (\<exists>ps. capture_loop env v aborted (vf_list v) 0
        (new_pass, s\<lparr> lg_registry := suspendSaves (lg_registry s) \<rparr>) = (ps, Scanned))"
    by (rule capture_shape [OF assms(1) inv, of v aborted])
  have in_dels: "p \<in> set dels" if "p \<in> set (ops @ dels)" "op_type p = OpDelete" for p
    using that ops by (auto simp: needs_blob_def)
  have "op_path p \<notin> vr_path ` set (vf_list v) \<and> \<not> isExcluded (op_path p) (le_settings env) \<and> op_contentHash p \<noteq> [] \<and>
      list_ex (\<lambda>ref. \<not> isExcluded (vr_path ref) (le_settings env)) (vf_list v) \<and>
      snd (capture_loop env v aborted (vf_list v) 0 (new_pass, s\<lparr> lg_registry := suspendSaves (lg_registry s) \<rparr>)) = Scanned"
    if "p \<in> set dels" for p
  proof -
    have d: "op_path p \<notin> listed env (vf_list v)" "op_contentHash p \<noteq> []" "\<not> isExcluded (op_path p) (le_settings env)"
      "listed env (vf_list v) \<noteq> {}" using that dels by blast+
    then have "op_path p \<notin> vr_path ` set (vf_list v)" by (auto simp: listed_def)
    moreover have "list_ex (\<lambda>ref. \<not> isExcluded (vr_path ref) (le_settings env)) (vf_list v)"
      using d(4) by (auto simp: listed_def list_ex_iff)
    moreover have "dels \<noteq> []" using that by auto
    then obtain ps where "capture_loop env v aborted (vf_list v) 0
        (new_pass, s\<lparr> lg_registry := suspendSaves (lg_registry s) \<rparr>) = (ps, Scanned)" using scan by blast
    ultimately show ?thesis using d by simp
  qed
  then have "{p \<in> set (ops @ dels). op_type p = OpDelete} \<subseteq>
      {p. op_path p \<notin> vr_path ` set (vf_list v) \<and> \<not> isExcluded (op_path p) (le_settings env) \<and> op_contentHash p \<noteq> [] \<and>
          list_ex (\<lambda>ref. \<not> isExcluded (vr_path ref) (le_settings env)) (vf_list v) \<and>
          snd (capture_loop env v aborted (vf_list v) 0 (new_pass, s\<lparr> lg_registry := suspendSaves (lg_registry s) \<rparr>)) = Scanned}"
    using in_dels by blast
  moreover have "getPendingOps t = getPendingOps s @ ops @ dels" using P r assms(3) by (simp add: getPendingOps_def)
  ultimately show ?thesis by blast
qed

theorem capture_deletes_justified_witness:
  "\<exists>ops. getPendingOps (fst (captureOfflineChanges sample_env (sample_files\<lparr> vf_list := [] \<rparr>) (\<lambda>_. False) sample_logger)) =
      getPendingOps sample_logger @ ops \<and>
    {p \<in> set ops. op_type p = OpDelete} \<subseteq>
      {p. op_path p \<notin> vr_path ` set (vf_list (sample_files\<lparr> vf_list := [] \<rparr>)) \<and>
          \<not> isExcluded (op_path p) (le_settings sample_env) \<and> op_contentHash p \<noteq> [] \<and>
          list_ex (\<lambda>ref. \<not> isExcluded (vr_path ref) (le_settings sample_env)) (vf_list (sample_files\<lparr> vf_list := [] \<rparr>)) \<and>
          snd (capture_loop sample_env (sample_files\<lparr> vf_list := [] \<rparr>) (\<lambda>_. False) (vf_list (sample_files\<lparr> vf_list := [] \<rparr>)) 0
            (new_pass, sample_logger\<lparr> lg_registry := suspendSaves (lg_registry sample_logger) \<rparr>)) = Scanned}"
  by (rule capture_deletes_justified [OF sample_env_ok sample_logger_reach prod.collapse [symmetric]])

end
