(* ===== verification/LoggerIdem.thy ===== *)
theory LoggerIdem
  imports LoggerThms
begin

text \<open>
  What the capture leaves in the registry: a second capture of the same files emits nothing, a file
  created and deleted before a round leaves nothing to send, and a tombstone that is still indexed
  hides the file that came back.
\<close>

section \<open>Entries by path\<close>

lemma get_update_at:
  assumes "reg_inv r" and "update_at st p f r = Inr r'"
  shows "getByPath r' q = (if q = p then map_option f (getByPath r p) else getByPath r q)" and "path_id r' q = path_id r q"
proof -
  show path: "path_id r' q = path_id r q" using assms(2) by (auto simp: update_at_def split: option.splits)
  show "getByPath r' q = (if q = p then map_option f (getByPath r p) else getByPath r q)"
  proof (cases "path_id r p")
    case None
    then show ?thesis using assms(2) by (simp add: update_at_def getByPath_alt)
  next
    case (Some i)
    obtain e where e: "jm_get (rg_entries r) i = Some e" using tracked [OF assms(1) Some] by blast
    then have r': "rg_entries r' = jm_set i (f e) (rg_entries r)" using assms(2) Some by (auto simp: update_at_def)
    show ?thesis
    proof (cases "q = p")
      case True
      then show ?thesis using path Some e r' by (simp add: getByPath_alt)
    next
      case False
      then have "path_id r q \<noteq> Some i" using path_inj [OF assms(1) Some] by blast
      then show ?thesis using False path r' by (cases "path_id r q") (auto simp: getByPath_alt)
    qed
  qed
qed

section \<open>Created and deleted before a round\<close>

lemma on_registry_result: "f (lg_registry s) = Inr r \<Longrightarrow> on_registry f s = (s\<lparr> lg_registry := r \<rparr>, None)"
  by (simp add: on_registry_def)

text \<open>
  A file that is created and deleted before any round leaves no operation: its create and whatever
  else was pending for its id are gone from the log and from the journal, nothing else is, and the
  registry remembers the file only as a tombstone.
\<close>

theorem create_delete_cancels:
  assumes "env_ok env" and "(logger_step env)\<^sup>*\<^sup>* (fresh_logger h budget) s"
    and "\<not> isExcluded path (le_settings env)" and "getByPath (lg_registry s) path = None"
    and "vf_read v path = Some b" and "\<not> isTooLarge (length b) (le_settings env)" and "\<not> vf_exists w path"
  shows "let u = fst (handleDelete env w path (fst (handleCreate env v path s)))
    in getPendingOps u = filter (\<lambda>p. op_fileId p \<noteq> le_uuid env (lg_ids s)) (getPendingOps s) \<and>
       md_read (ol_metadata (lg_log u)) OPLOG_PATH = Some (ops_text (getPendingOps u)) \<and>
       map_option fe_deleted (getByPath (lg_registry u) path) = Some True"
proof -
  have inv: "lg_inv env s" by (rule logger_reachable [OF assms(2,1)])
  let ?h = "content_hash env b" and ?u = "le_uuid env (lg_ids s)" and ?st = "le_settings env"
  obtain t s1 where t: "lg_now env s = (t, s1)" by (cases "lg_now env s")
  then have s1: "lg_inv env s1" "lg_registry s1 = lg_registry s" "lg_ids s1 = lg_ids s" "getPendingOps s1 = getPendingOps s"
    using inv_now [OF inv] lg_now_simps [of env s] by (simp_all add: getPendingOps_def)
  have reg: "reg_inv (lg_registry s)" using inv by (simp add: lg_inv_def parts_ok_def)
  have none: "path_id (lg_registry s) path = None" using untracked [OF reg] assms(4) by blast
  have u: "?u \<noteq> []" using assms(1) by (metis env_ok_def rangeI)
  obtain s2 where s2: "lg_register env path t ?h None s1 = (?u, s2)"
    "lg_registry s2 = fst (registerFile ?st ?u path t ?h None (lg_registry s))" "lg_log s2 = lg_log s1" "lg_store s2 = lg_store s1"
    using none s1(2,3) by (simp add: lg_register_def registerFile_def)
  let ?op = "ops_create ?u path ?h t"
  let ?c = "lg_setHead env ?u (op_id ?op) (recordOp ?op (on_store (cs_put ?h b) s2))"
  have create: "handleCreate env v path s = (?c, None)"
    using assms(3,5,6) t s2(1) by (simp add: handleCreate_def Let_def return_def)
  have c: "lg_inv env ?c" using good_create [OF assms(1) inv, of v path] by (simp add: create)
  have pend: "ol_pendingOps (lg_log ?c) = getPendingOps s @ [?op]"
    using record_append(2) [of "lg_log s1" ?op] s1 s2(3) by (simp add: lg_inv_def getPendingOps_def)
  have hash: "?h \<noteq> []" using content_key [OF assms(1)] by (simp add: key_ok_def)
  obtain e where e: "getByPath (lg_registry ?c) path = Some e" "fe_id e = ?u" "fe_contentHash e = ?h"
    using get_registered [OF none u, of ?st t ?h None path] hash
    by (simp add: s2(2) get_setHead with_stat_def new_entry_def)
  obtain t2 d1 where t2: "lg_now env ?c = (t2, d1)" by (cases "lg_now env ?c")
  then have d1: "lg_registry d1 = lg_registry ?c" "ol_pendingOps (lg_log d1) = ol_pendingOps (lg_log ?c)"
    using lg_now_simps [of env ?c] by simp_all
  have regc: "reg_inv (lg_registry ?c)" using c by (simp add: lg_inv_def parts_ok_def)
  then obtain r where r: "markDeleted ?st path t2 (lg_registry d1) = Inr r"
    using keeps_ops(2) [of ?st path t2] d1(1) unfolding keeps_ids_def by metis
  have del: "getByPath r path = Some (e\<lparr> fe_deleted := True, fe_hlc := t2 \<rparr>)"
    using get_update_at(1) [OF regc r [unfolded markDeleted_def d1(1)], of path] e(1) by simp
  let ?d2 = "d1\<lparr> lg_registry := r \<rparr>"
  have "hasPendingCreate ?u (lg_log ?d2)" using d1(2) pend by (simp add: hasPendingCreate_def ops_create_def)
  then have "handleDelete env w path ?c = (on_oplog rewriteOpLogLocked (?d2\<lparr> lg_log := drop_file ?u (lg_log ?d2) \<rparr>), None)"
    using assms(3,7) e hash t2 on_registry_result [where f = "markDeleted ?st path t2" and s = d1, OF r]
    by (simp add: handleDelete_def and_then_def pruneCreateDeletePair_def return_def)
  moreover have "drop_file ?u (lg_log ?d2) = (lg_log d1)\<lparr> ol_pendingOps := filter (\<lambda>p. op_fileId p \<noteq> ?u) (getPendingOps s) \<rparr>"
    using d1(2) pend by (simp add: drop_file_def ops_create_def)
  ultimately show ?thesis
    using del by (simp add: create getPendingOps_def rewriteOpLogLocked_def rewrite_begin_def finishOpLog_def hlc_save_def Let_def)
qed

theorem create_delete_cancels_witness:
  "let u = fst (handleDelete sample_env (sample_files\<lparr> vf_exists := (\<lambda>_. False) \<rparr>) ''a.md''
      (fst (handleCreate sample_env sample_files ''a.md'' (fresh_logger (HLC 0 0 ''d'') 100))))
   in getPendingOps u = filter (\<lambda>p. op_fileId p \<noteq> le_uuid sample_env (lg_ids (fresh_logger (HLC 0 0 ''d'') 100)))
        (getPendingOps (fresh_logger (HLC 0 0 ''d'') 100)) \<and>
      md_read (ol_metadata (lg_log u)) OPLOG_PATH = Some (ops_text (getPendingOps u)) \<and>
      map_option fe_deleted (getByPath (lg_registry u) ''a.md'') = Some True"
proof (rule create_delete_cancels [OF sample_env_ok rtranclp.rtrancl_refl])
  show "\<not> isExcluded ''a.md'' (le_settings sample_env)" by code_simp
  show "vf_read sample_files ''a.md'' = Some [1, 2]" by (simp add: sample_files_def)
  show "getByPath (lg_registry (fresh_logger (HLC 0 0 ''d'') 100)) ''a.md'' = None"
    by (simp add: fresh_logger_def new_registry_def getByPath_def path_id_def)
qed (simp_all add: sample_files_def sample_env_def isTooLarge_def DEFAULT_SETTINGS_def)

section \<open>A tombstone that is still indexed\<close>

text \<open>
  Within a session a deleted file keeps its place in the path index.  When the file comes back
  without a create event (while no listener was attached) the capture takes the tombstone for the
  file's entry: with the old bytes it emits nothing, with new ones an update, and in both cases the
  entry stays deleted, so the file on disk is not tracked as live.
\<close>

theorem capture_leaves_tombstone:
  assumes "env_ok env" and "(logger_step env)\<^sup>*\<^sup>* (fresh_logger h budget) s"
    and "getByPath (lg_registry s) (vr_path ref) = Some e" and "fe_deleted e"
    and "vf_read v (vr_path ref) = Some b" and "content_hash env b = fe_contentHash e"
  shows "getPendingOps (snd (fst (capture_file env v ref (p, s)))) = getPendingOps s \<and>
    map_option fe_deleted (getByPath (lg_registry (snd (fst (capture_file env v ref (p, s))))) (vr_path ref)) = Some True"
proof -
  have "lg_inv env s" by (rule logger_reachable [OF assms(2,1)])
  then have reg: "reg_inv (lg_registry s)" by (simp add: lg_inv_def parts_ok_def)
  let ?f = "recordStat (le_settings env) (vr_path ref) (fs_mtime (vr_stat ref)) (fs_size (vr_stat ref))"
  let ?x = "on_registry ?f s"
  obtain r where r: "?f (lg_registry s) = Inr r"
    using keeps_ops(3) [of "le_settings env" "vr_path ref" "fs_mtime (vr_stat ref)" "fs_size (vr_stat ref)"] reg
    unfolding keeps_ids_def by metis
  have del: "map_option fe_deleted (getByPath r (vr_path ref)) = Some True"
    using get_update_at(1) [OF reg r [unfolded recordStat_def], of "vr_path ref"] assms(3,4) by simp
  have x: "?x = (s\<lparr> lg_registry := r \<rparr>, None)" using r by (simp add: on_registry_def)
  show ?thesis
    using assms(3-6) del by (auto simp: capture_file_def Let_def x getPendingOps_def)
qed


section \<open>Capturing twice\<close>

text \<open>Two entries at the same id before and after steps that only delete or move heads.\<close>

definition settles :: "FileEntry \<Rightarrow> FileEntry \<Rightarrow> bool" where
  "settles e e' =
     (fe_path e' = fe_path e \<and> fe_mtime e' = fe_mtime e \<and> fe_size e' = fe_size e \<and> (fe_deleted e \<longrightarrow> fe_deleted e'))"

definition shrinks :: "registry \<Rightarrow> registry \<Rightarrow> bool" where
  "shrinks r r' =
     ((\<forall>p. path_id r' p = path_id r p) \<and> (\<forall>i. rel_option settles (jm_get (rg_entries r) i) (jm_get (rg_entries r') i)))"

lemma settles_refl [simp]: "settles e e"
  by (simp add: settles_def)

lemma shrinks_refl [simp]: "shrinks r r"
  by (simp add: shrinks_def option.rel_refl)

lemma shrinks_trans: "shrinks r q \<Longrightarrow> shrinks q t \<Longrightarrow> shrinks r t"
proof -
  assume a: "shrinks r q" "shrinks q t"
  have "rel_option settles (jm_get (rg_entries r) i) (jm_get (rg_entries t) i)" for i
  proof -
    have "rel_option settles (jm_get (rg_entries r) i) (jm_get (rg_entries q) i)"
      "rel_option settles (jm_get (rg_entries q) i) (jm_get (rg_entries t) i)" using a unfolding shrinks_def by blast+
    then show ?thesis
      by (cases "jm_get (rg_entries r) i"; cases "jm_get (rg_entries q) i"; cases "jm_get (rg_entries t) i")
        (auto simp: settles_def)
  qed
  then show ?thesis using a by (simp add: shrinks_def)
qed

lemma shrinks_same: "rg_entries r' = rg_entries r \<Longrightarrow> rg_pathIndex r' = rg_pathIndex r \<Longrightarrow> shrinks r r'"
  by (simp add: shrinks_def path_id_def option.rel_refl)

lemma shrinks_head: "shrinks r (setHeadVersion st i v r)"
  by (auto simp: shrinks_def setHeadVersion_def update_id_def settles_def option.rel_refl split: option.splits)

lemma shrinks_deleted:
  assumes "markDeleted st p h r = Inr r'"
  shows "shrinks r r'" and "path_id r p = Some i \<Longrightarrow> \<exists>e. jm_get (rg_entries r') i = Some e \<and> fe_deleted e"
  using assms
  by (auto simp: markDeleted_def update_at_def shrinks_def settles_def option.rel_refl split: option.splits)

definition gate :: "registry \<Rightarrow> file_ref \<Rightarrow> bool" where
  "gate r ref = (\<exists>e. getByPath r (vr_path ref) = Some e \<and> fe_mtime e = Some (fs_mtime (vr_stat ref)) \<and>
     fe_size e = Some (fs_size (vr_stat ref)))"

lemma gate_shrinks:
  assumes "shrinks r r'" and "gate r ref"
  shows "gate r' ref"
proof -
  obtain i e where i: "path_id r (vr_path ref) = Some i" "jm_get (rg_entries r) i = Some e"
    and e: "fe_mtime e = Some (fs_mtime (vr_stat ref))" "fe_size e = Some (fs_size (vr_stat ref))"
    using assms(2) by (auto simp: gate_def getByPath_alt bind_eq_Some_conv)
  have "rel_option settles (Some e) (jm_get (rg_entries r') i)" using assms(1) i(2) unfolding shrinks_def by metis
  then obtain e' where e': "jm_get (rg_entries r') i = Some e'" "settles e e'" by (auto simp: option_rel_Some1)
  then show ?thesis using assms(1) i(1) e by (auto simp: gate_def getByPath_alt shrinks_def settles_def)
qed

text \<open>Every live entry is the one its path is indexed under.\<close>

definition live_indexed :: "registry \<Rightarrow> bool" where
  "live_indexed r = (\<forall>i e. jm_get (rg_entries r) i = Some e \<and> \<not> fe_deleted e \<longrightarrow> path_id r (fe_path e) = Some i)"

lemma live_shrinks:
  assumes "shrinks r r'" and "live_indexed r"
  shows "live_indexed r'"
  unfolding live_indexed_def
proof (intro allI impI)
  fix i e' assume e': "jm_get (rg_entries r') i = Some e' \<and> \<not> fe_deleted e'"
  then have "rel_option settles (jm_get (rg_entries r) i) (Some e')" using assms(1) unfolding shrinks_def by metis
  then obtain e where "jm_get (rg_entries r) i = Some e" "settles e e'" by (auto simp: option_rel_Some2)
  then show "path_id r' (fe_path e') = Some i" using assms e' by (auto simp: live_indexed_def shrinks_def settles_def)
qed

lemma live_update_at:
  assumes "live_indexed r" and "update_at st p f r = Inr r'" and "\<And>e. fe_path (f e) = fe_path e \<and> fe_deleted (f e) = fe_deleted e"
  shows "live_indexed r'"
proof -
  have "path_id r' q = path_id r q" for q using assms(2) by (auto simp: update_at_def split: option.splits)
  moreover have "\<exists>e'. jm_get (rg_entries r) i = Some e' \<and> fe_path e' = fe_path e \<and> fe_deleted e' = fe_deleted e"
    if "jm_get (rg_entries r') i = Some e" for i e
    using that assms(2,3) by (auto simp: update_at_def split: option.splits if_splits)
  ultimately show ?thesis using assms(1) unfolding live_indexed_def by metis
qed

lemma live_register:
  assumes "live_indexed r" and "path_id r p = None" and "u \<noteq> []"
  shows "live_indexed (fst (registerFile st u p h c fs r))"
  unfolding live_indexed_def
proof (intro allI impI)
  fix i e
  let ?r = "fst (registerFile st u p h c fs r)"
  assume e: "jm_get (rg_entries ?r) i = Some e \<and> \<not> fe_deleted e"
  show "path_id ?r (fe_path e) = Some i"
  proof (cases "i = u")
    case True
    then show ?thesis using e assms(2,3) by (auto simp: registerFile_def)
  next
    case False
    then have "path_id r (fe_path e) = Some i" using e assms by (auto simp: live_indexed_def registerFile_def)
    then show ?thesis using assms(2) by (auto simp: registerFile_def)
  qed
qed

section \<open>One file of the scan\<close>

lemma tick_registry:
  "shrinks (lg_registry s) (lg_registry (snd (capture_tick env c (n, s))))"
  "shrinks (lg_registry s) (lg_registry (capture_flush env c s))"
proof -
  have "rg_entries (reg_flush st r) = rg_entries r \<and> rg_pathIndex (reg_flush st r) = rg_pathIndex r" for st r
    by (simp add: reg_flush_def reg_compact_def Let_def)
  then have "shrinks r (reg_flush st r)" for st r by (intro shrinks_same) simp_all
  then show "shrinks (lg_registry s) (lg_registry (snd (capture_tick env c (n, s))))"
    "shrinks (lg_registry s) (lg_registry (capture_flush env c s))"
    by (simp_all add: capture_tick_def pc_tick_def pc_flush_def capture_flush_def persist_capture_simp Let_def)
qed

text \<open>What processing one file does to the registry: its own path is settled, the gates of others stay.\<close>

definition settles_file :: "logger_env \<Rightarrow> vault_files \<Rightarrow> file_ref \<Rightarrow> registry \<Rightarrow> registry \<Rightarrow> bool" where
  "settles_file env v ref r r' =
     ((live_indexed r \<longrightarrow> live_indexed r') \<and>
      (\<forall>other. vr_path other \<noteq> vr_path ref \<and> gate r other \<longrightarrow> gate r' other) \<and>
      (isExcluded (vr_path ref) (le_settings env) \<or> isTooLarge (fs_size (vr_stat ref)) (le_settings env) \<or>
       vf_read v (vr_path ref) = None \<or> gate r' ref))"

lemma settled_update:
  assumes "reg_inv r" and "update_at st (vr_path ref) f r = Inr r'" and "getByPath r (vr_path ref) = Some e"
    and "\<And>e. fe_path (f e) = fe_path e \<and> fe_deleted (f e) = fe_deleted e \<and>
      fe_mtime (f e) = Some (fs_mtime (vr_stat ref)) \<and> fe_size (f e) = Some (fs_size (vr_stat ref))"
    and "shrinks r' r''"
  shows "settles_file env v ref r r''"
proof -
  have "live_indexed r \<Longrightarrow> live_indexed r'" by (rule live_update_at [OF _ assms(2)]) (use assms(4) in auto)
  moreover have "gate r' ref" using get_update_at(1) [OF assms(1,2), of "vr_path ref"] assms(3,4) by (simp add: gate_def)
  moreover have "gate r' other" if "vr_path other \<noteq> vr_path ref" "gate r other" for other
    using that get_update_at(1) [OF assms(1,2), of "vr_path other"] by (simp add: gate_def)
  ultimately show ?thesis using assms(5) gate_shrinks live_shrinks unfolding settles_file_def by blast
qed

lemma settled_register:
  assumes "reg_inv r" and "path_id r (vr_path ref) = None" and "u \<noteq> []" and "jm_get (rg_entries r) u = None"
    and "shrinks (fst (registerFile st u (vr_path ref) h c (Some (vr_stat ref)) r)) r''"
  shows "settles_file env v ref r r''"
proof -
  let ?r = "fst (registerFile st u (vr_path ref) h c (Some (vr_stat ref)) r)"
  have "live_indexed r \<Longrightarrow> live_indexed ?r" by (intro live_register assms(2,3))
  moreover have "gate ?r ref" using get_registered [OF assms(2,3), of st h c "Some (vr_stat ref)" "vr_path ref"]
    by (simp add: gate_def with_stat_def)
  moreover have "path_id r p \<noteq> Some u" for p using tracked [OF assms(1), of p u] assms(4) by auto
  then have "gate ?r other" if "vr_path other \<noteq> vr_path ref" "gate r other" for other
    using that get_registered [OF assms(2,3), of st h c "Some (vr_stat ref)" "vr_path other"] by (simp add: gate_def)
  ultimately show ?thesis using assms(5) gate_shrinks live_shrinks unfolding settles_file_def by blast
qed


lemma settles_same: "isExcluded (vr_path ref) (le_settings env) \<or> isTooLarge (fs_size (vr_stat ref)) (le_settings env) \<or>
    vf_read v (vr_path ref) = None \<or> gate r ref \<Longrightarrow> settles_file env v ref r r"
  by (auto simp: settles_file_def)

lemma finish_registry:
  assumes "emit_op op (p, s2) = (p1, s3)" and "capture_tick env True (n, lg_setHead env i h s3) = (since, s4)"
  shows "shrinks (lg_registry s2) (lg_registry s4)"
proof -
  have "lg_registry s3 = lg_registry s2" using assms(1) emit_simps(1) [of op p s2] by simp
  moreover have "shrinks (lg_registry (lg_setHead env i h s3)) (lg_registry s4)"
    using tick_registry(1) [of "lg_setHead env i h s3" env True n] assms(2) by simp
  ultimately show ?thesis using shrinks_trans [OF shrinks_head] by simp
qed

lemma changed_settles:
  assumes "env_ok env" and "cap_inv env c s" and "capture_changed env ref entry b (content_hash env b) (p, s) = (qs, None)"
    and "entry = getByPath (lg_registry s) (vr_path ref)"
  shows "settles_file env v ref (lg_registry s) (lg_registry (snd qs))"
proof -
  let ?h = "content_hash env b" and ?st = "le_settings env" and ?fs = "Some (vr_stat ref)"
  have reg: "reg_inv (lg_registry s)" using assms(2) by (simp add: cap_inv_def parts_ok_def)
  obtain t s1 where t: "lg_now env (on_store (putBuffered ?h b) s) = (t, s1)" by (cases "lg_now env (on_store (putBuffered ?h b) s)")
  then have s1: "lg_registry s1 = lg_registry s" "lg_ids s1 = lg_ids s"
    using lg_now_simps(1,6) [of env "on_store (putBuffered ?h b) s"] by simp_all
  show ?thesis
  proof (cases entry)
    case None
    let ?u = "le_uuid env (lg_ids s)"
    have none: "path_id (lg_registry s) (vr_path ref) = None" using untracked [OF reg, of "vr_path ref"] assms(4) None by metis
    have u: "?u \<noteq> []" using assms(1) by (metis env_ok_def rangeI)
    have fresh: "jm_get (rg_entries (lg_registry s)) ?u = None"
      using assms(2) by (simp add: cap_inv_def parts_ok_def ids_fresh_def)
    obtain i s2 where r: "lg_register env (vr_path ref) t ?h ?fs s1 = (i, s2)" by (cases "lg_register env (vr_path ref) t ?h ?fs s1")
    then have s2: "lg_registry s2 = fst (registerFile ?st ?u (vr_path ref) t ?h ?fs (lg_registry s))"
      using step_simps(20) [of env "vr_path ref" t ?h ?fs s1] s1 by simp
    obtain p1 s3 where e: "emit_op (ops_create i (vr_path ref) ?h t) (p, s2) = (p1, s3)"
      by (cases "emit_op (ops_create i (vr_path ref) ?h t) (p, s2)")
    obtain since s4 where k: "capture_tick env True (cp_since p1, lg_setHead env i (op_id (ops_create i (vr_path ref) ?h t)) s3) = (since, s4)"
      by (cases "capture_tick env True (cp_since p1, lg_setHead env i (op_id (ops_create i (vr_path ref) ?h t)) s3)")
    have "lg_registry (snd qs) = lg_registry s4" using assms(3) None t r e k by (auto simp: capture_changed_def)
    then show ?thesis using settled_register [OF reg none u fresh] finish_registry [OF e k] s2 by metis
  next
    case (Some en)
    obtain r where r: "updateContentHash ?st (vr_path ref) ?h t ?fs (lg_registry s1) = Inr r"
      using keeps_ops(1) [of ?st "vr_path ref" ?h t ?fs] reg s1(1) unfolding keeps_ids_def by metis
    let ?s2 = "s1\<lparr> lg_registry := r \<rparr>"
    have x: "on_registry (updateContentHash ?st (vr_path ref) ?h t ?fs) s1 = (?s2, None)" using r by (simp add: on_registry_def)
    let ?op = "if fe_contentHash en = [] then ops_create (fe_id en) (vr_path ref) ?h t
       else ops_update (fe_id en) (vr_path ref) ?h t (fe_headVersionId en)"
    obtain p1 s3 where e: "emit_op ?op (p, ?s2) = (p1, s3)" by (cases "emit_op ?op (p, ?s2)")
    obtain since s4 where k: "capture_tick env True (cp_since p1, lg_setHead env (fe_id en) (op_id ?op) s3) = (since, s4)"
      by (cases "capture_tick env True (cp_since p1, lg_setHead env (fe_id en) (op_id ?op) s3)")
    have last: "lg_registry (snd qs) = lg_registry s4" using assms(3) Some t x e k by (auto simp: capture_changed_def)
    have "shrinks r (lg_registry s4)" using finish_registry [OF e k] by simp
    moreover have "getByPath (lg_registry s) (vr_path ref) = Some en" using assms(4) Some by simp
    ultimately show ?thesis unfolding last
      by (intro settled_update [OF reg r [unfolded updateContentHash_def s1(1)]]) (simp_all add: with_stat_def)
  qed
qed

lemma file_settles:
  assumes "env_ok env" and "cap_inv env (cp_changed p) s" and "capture_file env v ref (p, s) = (qs, None)"
  shows "settles_file env v ref (lg_registry s) (lg_registry (snd qs))"
proof (cases "isExcluded (vr_path ref) (le_settings env) \<or> isTooLarge (fs_size (vr_stat ref)) (le_settings env) \<or>
    vf_read v (vr_path ref) = None \<or> gate (lg_registry s) ref")
  case True
  then have "lg_registry (snd qs) = lg_registry s"
    using assms(3) by (auto simp: capture_file_def Let_def gate_def split: if_splits)
  then show ?thesis using settles_same [OF True] by simp
next
  case False
  then obtain b where b: "vf_read v (vr_path ref) = Some b" by (cases "vf_read v (vr_path ref)") auto
  have reg: "reg_inv (lg_registry s)" using assms(2) by (simp add: cap_inv_def parts_ok_def)
  let ?p2 = "(p\<lparr> cp_onDisk := js_add (vr_path ref) (cp_onDisk p) \<rparr>)\<lparr> cp_stats := (cp_stats p)\<lparr> cst_files := cst_files (cp_stats p) + 1 \<rparr> \<rparr>"
  show ?thesis
  proof (cases "getByPath (lg_registry s) (vr_path ref)")
    case None
    then have "capture_changed env ref None b (content_hash env b) (?p2, s) = (qs, None)"
      using assms(3) False b by (simp add: capture_file_def Let_def)
    then show ?thesis using changed_settles [OF assms(1,2)] None by metis
  next
    case (Some e)
    have gate: "(fe_mtime e = Some (fs_mtime (vr_stat ref)) \<and> fe_size e = Some (fs_size (vr_stat ref))) = False"
      using False Some by (auto simp: gate_def)
    show ?thesis
    proof (cases "fe_contentHash e = content_hash env b")
      case True
      let ?f = "recordStat (le_settings env) (vr_path ref) (fs_mtime (vr_stat ref)) (fs_size (vr_stat ref))"
      obtain r where r: "?f (lg_registry s) = Inr r"
        using keeps_ops(3) [of "le_settings env" "vr_path ref" "fs_mtime (vr_stat ref)" "fs_size (vr_stat ref)"] reg
        unfolding keeps_ids_def by metis
      then have "on_registry ?f s = (s\<lparr> lg_registry := r \<rparr>, None)" by (simp add: on_registry_def)
      then have "lg_registry (snd qs) = r" using assms(3) False b Some True by (auto simp: capture_file_def Let_def gate)
      then show ?thesis by (simp only:) (rule settled_update [OF reg r [unfolded recordStat_def] Some]; simp)
    next
      case False
      then have "capture_changed env ref (Some e) b (content_hash env b) (?p2, s) = (qs, None)"
        using assms(3) \<open>\<not> (isExcluded _ _ \<or> _)\<close> b Some by (simp add: capture_file_def Let_def gate)
      then show ?thesis using changed_settles [OF assms(1,2)] Some by metis
    qed
  qed
qed

definition settled :: "logger_env \<Rightarrow> vault_files \<Rightarrow> registry \<Rightarrow> file_ref \<Rightarrow> bool" where
  "settled env v r ref =
     (isExcluded (vr_path ref) (le_settings env) \<or> isTooLarge (fs_size (vr_stat ref)) (le_settings env) \<or>
      vf_read v (vr_path ref) = None \<or> gate r ref)"

lemma loop_settles:
  assumes "env_ok env" and "cap_inv env (cp_changed (fst ps)) (snd ps)"
    and "capture_loop env v (\<lambda>_. False) refs n ps = (qs, e)" and "distinct (map vr_path refs)"
  shows "(live_indexed (lg_registry (snd ps)) \<longrightarrow> live_indexed (lg_registry (snd qs))) \<and>
    (\<forall>ref \<in> set refs. settled env v (lg_registry (snd qs)) ref) \<and>
    (\<forall>other. vr_path other \<notin> vr_path ` set refs \<and> gate (lg_registry (snd ps)) other \<longrightarrow> gate (lg_registry (snd qs)) other)"
  using assms(2-)
proof (induction refs arbitrary: n ps)
  case (Cons ref refs)
  obtain p s where ps: "ps = (p, s)" by (cases ps)
  have c: "cap_inv env (cp_changed p) s" using Cons.prems(1) ps by simp
  from scan_file [OF assms(1) c, of v ref] obtain rs where f: "capture_file env v ref (p, s) = (rs, None)" "scan_next env (p, s) rs" by blast
  have s: "settles_file env v ref (lg_registry s) (lg_registry (snd rs))" by (rule file_settles [OF assms(1) c f(1)])
  have rest: "capture_loop env v (\<lambda>_. False) refs (n + 1) rs = (qs, e)" using Cons.prems(2) f(1) by (simp add: ps)
  have "cap_inv env (cp_changed (fst rs)) (snd rs)" using f(2) by (simp add: scan_next_def)
  from Cons.IH [OF this rest] Cons.prems(3) have ih:
    "live_indexed (lg_registry (snd rs)) \<longrightarrow> live_indexed (lg_registry (snd qs))"
    "\<forall>ref \<in> set refs. settled env v (lg_registry (snd qs)) ref"
    "\<forall>other. vr_path other \<notin> vr_path ` set refs \<and> gate (lg_registry (snd rs)) other \<longrightarrow> gate (lg_registry (snd qs)) other" by auto
  have "vr_path ref \<notin> vr_path ` set refs" using Cons.prems(3) by auto
  then have "settled env v (lg_registry (snd qs)) ref" using s ih(3) unfolding settles_file_def settled_def by blast
  then show ?case using ih s unfolding settles_file_def by (auto simp: ps)
qed simp

text \<open>Files that are all settled leave the scan without any effect on the components.\<close>

lemma settled_loop:
  assumes "\<forall>ref \<in> set refs. settled env v (lg_registry s) ref"
  shows "\<exists>q. capture_loop env v (\<lambda>_. False) refs n (p, s) = ((q, s), Scanned) \<and> cp_changed q = cp_changed p \<and>
    cst_opsEmitted (cp_stats q) = cst_opsEmitted (cp_stats p) \<and> set (cp_onDisk q) = set (cp_onDisk p) \<union> listed env refs"
  using assms
proof (induction refs arbitrary: n p)
  case (Cons ref refs)
  have "\<exists>q. capture_file env v ref (p, s) = ((q, s), None) \<and> cp_changed q = cp_changed p \<and>
      cst_opsEmitted (cp_stats q) = cst_opsEmitted (cp_stats p) \<and> set (cp_onDisk q) = set (cp_onDisk p) \<union> listed env [ref]"
    using Cons.prems by (auto simp: capture_file_def Let_def settled_def gate_def split: option.splits)
  then obtain q where q: "capture_file env v ref (p, s) = ((q, s), None)" "cp_changed q = cp_changed p"
    "cst_opsEmitted (cp_stats q) = cst_opsEmitted (cp_stats p)" "set (cp_onDisk q) = set (cp_onDisk p) \<union> listed env [ref]" by blast
  from Cons.IH [of "n + 1" q] Cons.prems q show ?case by (auto split: if_splits)
qed simp


lemma deletes_shrink:
  assumes "env_ok env" and "cap_inv env (cp_changed (fst ps)) (snd ps)" and "delete_missing env es ps = (qs, None)"
  shows "shrinks (lg_registry (snd ps)) (lg_registry (snd qs)) \<and>
    (\<forall>e \<in> set es. \<forall>i. fe_path e \<notin> set (cp_onDisk (fst ps)) \<and> path_id (lg_registry (snd ps)) (fe_path e) = Some i \<longrightarrow>
       (\<exists>e'. jm_get (rg_entries (lg_registry (snd qs))) i = Some e' \<and> fe_deleted e'))"
  using assms(2,3)
proof (induction es arbitrary: ps)
  case (Cons e es)
  obtain p s where ps: "ps = (p, s)" by (cases ps)
  have c: "cap_inv env (cp_changed p) s" using Cons.prems(1) ps by simp
  show ?case
  proof (cases "fe_path e \<in> set (cp_onDisk p)")
    case True
    then have "delete_missing env es ps = (qs, None)" using Cons.prems(2) by (simp add: ps)
    from Cons.IH [OF Cons.prems(1) this] True show ?thesis by (auto simp: ps)
  next
    case gone: False
    obtain t s1 where t: "lg_now env s = (t, s1)" by (cases "lg_now env s")
    then have s1: "cap_inv env (cp_changed p) s1" "lg_registry s1 = lg_registry s"
      using cap_now [OF c] lg_now_simps(1) [of env s] by simp_all
    from cap_registry [OF s1(1) keeps_ops(2)] obtain r where
      r: "on_registry (markDeleted (le_settings env) (fe_path e) t) s1 = (s1\<lparr> lg_registry := r \<rparr>, None)"
        "cap_inv env (cp_changed p) (s1\<lparr> lg_registry := r \<rparr>)" (is "cap_inv _ _ ?s2") .
    have m: "markDeleted (le_settings env) (fe_path e) t (lg_registry s) = Inr r"
      using r(1) s1(2) by (auto simp: on_registry_def split: sum.splits dest: arg_cong [where f = lg_registry])
    have rest: "\<exists>p1 s4. delete_missing env es (p1, s4) = (qs, None) \<and> cap_inv env (cp_changed p1) s4 \<and>
        cp_onDisk p1 = cp_onDisk p \<and> shrinks r (lg_registry s4)"
    proof (cases "fe_contentHash e = []")
      case True
      then show ?thesis using Cons.prems(2) gone t r by (intro exI [of _ p] exI [of _ ?s2]) (simp add: ps)
    next
      case False
      let ?op = "ops_delete (fe_id e) (fe_path e) (fe_contentHash e) t (fe_headVersionId e)"
      obtain p1 s3 where e: "emit_op ?op (p, ?s2) = (p1, s3)" by (cases "emit_op ?op (p, ?s2)")
      then have p1: "cp_onDisk p1 = cp_onDisk p" "s3 = on_oplog (push_op ?op) ?s2"
        using emit_simps(1,4) [of ?op p ?s2] by simp_all
      have "cap_inv env True (lg_setHead env (fe_id e) (op_id ?op) s3)"
        unfolding p1(2) using cap_head [OF cap_push [OF r(2), of ?op]] by simp
      then show ?thesis using Cons.prems(2) gone t r(1) e False p1 shrinks_head
        by (intro exI [of _ "p1\<lparr> cp_changed := True \<rparr>"] exI [of _ "lg_setHead env (fe_id e) (op_id ?op) s3"])
          (simp add: ps Let_def)
    qed
    then obtain p1 s4 where s4: "delete_missing env es (p1, s4) = (qs, None)" "cap_inv env (cp_changed p1) s4"
      "cp_onDisk p1 = cp_onDisk p" "shrinks r (lg_registry s4)" by blast
    from Cons.IH [of "(p1, s4)"] s4 have ih: "shrinks (lg_registry s4) (lg_registry (snd qs))"
      "\<And>d i. d \<in> set es \<Longrightarrow> fe_path d \<notin> set (cp_onDisk p) \<Longrightarrow> path_id (lg_registry s4) (fe_path d) = Some i \<Longrightarrow>
         \<exists>e'. jm_get (rg_entries (lg_registry (snd qs))) i = Some e' \<and> fe_deleted e'" by auto
    have sr: "shrinks (lg_registry s) r" by (rule shrinks_deleted(1) [OF m])
    have rq: "shrinks r (lg_registry (snd qs))" using shrinks_trans s4(4) ih(1) by blast
    have same: "path_id (lg_registry s4) q = path_id (lg_registry s) q" for q
      using sr s4(4) by (simp add: shrinks_def)
    have this_one: "\<exists>e'. jm_get (rg_entries (lg_registry (snd qs))) i = Some e' \<and> fe_deleted e'"
      if i: "path_id (lg_registry s) (fe_path e) = Some i" for i
    proof -
      obtain d where d: "jm_get (rg_entries r) i = Some d" "fe_deleted d" using shrinks_deleted(2) [OF m i] by blast
      have "rel_option settles (Some d) (jm_get (rg_entries (lg_registry (snd qs))) i)" using rq d(1) unfolding shrinks_def by metis
      then show ?thesis using d(2) by (auto simp: option_rel_Some1 settles_def)
    qed
    have "shrinks (lg_registry s) (lg_registry (snd qs))" using shrinks_trans [OF sr rq] .
    then show ?thesis using this_one ih(2) same by (simp add: ps)
  qed
qed simp

lemma active_iff: "reg_inv r \<Longrightarrow> e \<in> set (active_entries env r) \<longleftrightarrow>
    (\<exists>i. jm_get (rg_entries r) i = Some e) \<and> \<not> fe_deleted e \<and> \<not> isExcluded (fe_path e) (le_settings env)"
proof -
  assume "reg_inv r"
  then have wf: "distinct (map fst (rg_entries r))" by (simp add: reg_inv_def up_to_date_but_def keyed_def jm_wf_def)
  have "e \<in> snd ` set (rg_entries r) \<longleftrightarrow> (\<exists>i. jm_get (rg_entries r) i = Some e)"
    using map_of_eq_Some_iff [OF wf] by (force simp: image_iff)
  then show ?thesis by (auto simp: active_entries_def getActiveEntries_def jm_values_def)
qed

lemma deletes_return:
  assumes "env_ok env" and "cap_inv env (cp_changed p) s"
  obtains p2 s2 where "capture_deletes env (p, s) = ((p2, s2), None)" and "cap_inv env (cp_changed p2) s2"
proof -
  have "cap_inv env (cp_changed (fst (p, s))) (snd (p, s))" using assms(2) by simp
  from delete_loop [OF assms(1) this, of "active_entries env (lg_registry s)"] obtain qs where
    "delete_missing env (active_entries env (lg_registry s)) (p, s) = (qs, None)" "cap_inv env (cp_changed (fst qs)) (snd qs)" .
  then show thesis using that [of p s] that [of "fst qs" "snd qs"] assms(2)
    by (cases "cp_onDisk p = [] \<and> active_entries env (lg_registry s) \<noteq> []") (simp_all add: capture_deletes_def)
qed

lemma deletes_settle:
  assumes "env_ok env" and "cap_inv env (cp_changed p) s" and "capture_deletes env (p, s) = (qs, None)"
    and "live_indexed (lg_registry s)"
  shows "shrinks (lg_registry s) (lg_registry (snd qs)) \<and>
    (cp_onDisk p = [] \<or> (\<forall>e \<in> set (active_entries env (lg_registry (snd qs))). fe_path e \<in> set (cp_onDisk p)) )"
proof (cases "cp_onDisk p = [] \<and> active_entries env (lg_registry s) \<noteq> []")
  case True
  then show ?thesis using assms(3) by (auto simp: capture_deletes_def)
next
  case False
  then have del: "delete_missing env (active_entries env (lg_registry s)) (p, s) = (qs, None)"
    using assms(3) by (auto simp: capture_deletes_def)
  have c: "cap_inv env (cp_changed (fst (p, s))) (snd (p, s))" using assms(2) by simp
  note d = deletes_shrink [OF assms(1) c del]
  then have sh: "shrinks (lg_registry s) (lg_registry (snd qs))" by simp
  have reg: "reg_inv (lg_registry s)" using assms(2) by (simp add: cap_inv_def parts_ok_def)
  from delete_loop [OF assms(1) c, of "active_entries env (lg_registry s)"] del
  have cq: "cap_inv env (cp_changed (fst qs)) (snd qs)" by auto
  then have regq: "reg_inv (lg_registry (snd qs))" by (simp add: cap_inv_def parts_ok_def)
  have "fe_path e \<in> set (cp_onDisk p)" if "e \<in> set (active_entries env (lg_registry (snd qs)))" for e
  proof (rule ccontr)
    assume out: "fe_path e \<notin> set (cp_onDisk p)"
    from that obtain i where i: "jm_get (rg_entries (lg_registry (snd qs))) i = Some e" "\<not> fe_deleted e"
      "\<not> isExcluded (fe_path e) (le_settings env)" by (auto simp: active_iff [OF regq])
    have "rel_option settles (jm_get (rg_entries (lg_registry s)) i) (Some e)" using sh i(1) unfolding shrinks_def by metis
    then obtain e0 where e0: "jm_get (rg_entries (lg_registry s)) i = Some e0" "settles e0 e" by (auto simp: option_rel_Some2)
    then have a: "e0 \<in> set (active_entries env (lg_registry s))" "fe_path e0 = fe_path e"
      using i by (auto simp: active_iff [OF reg] settles_def)
    have "\<not> fe_deleted e0" using e0(2) i(2) by (auto simp: settles_def)
    then have "path_id (lg_registry s) (fe_path e0) = Some i" using assms(4) e0(1) by (auto simp: live_indexed_def)
    then have "fe_path e0 \<notin> set (cp_onDisk p) \<and> path_id (lg_registry s) (fe_path e0) = Some i" using out a(2) by simp
    with bspec [OF d [THEN conjunct2] a(1)] have "\<exists>e'. jm_get (rg_entries (lg_registry (snd qs))) i = Some e' \<and> fe_deleted e'"
      by auto
    then show False using i by auto
  qed
  then show ?thesis using sh by blast
qed

lemma shrinks_suspend: "shrinks r (suspendSaves r)"
  by (rule shrinks_same) (simp_all add: suspendSaves_def)

lemma shrinks_finally: "shrinks (lg_registry s) (lg_registry (capture_finally env s))"
  by (rule shrinks_same) (simp_all add: capture_finally_def compact_None resumeSaves_def)

lemma active_shrinks:
  assumes "reg_inv r" and "reg_inv r'" and "shrinks r r'" and "\<forall>e \<in> set (active_entries env r). fe_path e \<in> X"
  shows "\<forall>e \<in> set (active_entries env r'). fe_path e \<in> X"
proof
  fix e assume "e \<in> set (active_entries env r')"
  then obtain i where i: "jm_get (rg_entries r') i = Some e" "\<not> fe_deleted e" "\<not> isExcluded (fe_path e) (le_settings env)"
    by (auto simp: active_iff [OF assms(2)])
  have "rel_option settles (jm_get (rg_entries r) i) (Some e)" using assms(3) i(1) unfolding shrinks_def by metis
  then obtain e0 where e0: "jm_get (rg_entries r) i = Some e0" "settles e0 e" by (auto simp: option_rel_Some2)
  then have "e0 \<in> set (active_entries env r)" "fe_path e0 = fe_path e" using i by (auto simp: active_iff [OF assms(1)] settles_def)
  then show "fe_path e \<in> X" using assms(4) by metis
qed

lemma missing_none: "\<forall>e \<in> set es. fe_path e \<in> set (cp_onDisk p) \<Longrightarrow> delete_missing env es (p, s) = ((p, s), None)"
  by (induction es) auto

text \<open>
  Capturing is idempotent: when every live entry is the one its path is indexed under, a capture
  that runs to its end leaves nothing for a second one, which with the same files records no
  operation.
\<close>

theorem capture_idempotent:
  assumes "env_ok env" and "(logger_step env)\<^sup>*\<^sup>* (fresh_logger h budget) s" and "live_indexed (lg_registry s)"
    and "distinct (map vr_path (vf_list v))"
  shows "let t = fst (captureOfflineChanges env v (\<lambda>_. False) s)
    in getPendingOps (fst (captureOfflineChanges env v (\<lambda>_. False) t)) = getPendingOps t \<and>
       map_sum id cst_opsEmitted (snd (captureOfflineChanges env v (\<lambda>_. False) t)) = Inr 0"
proof -
  have inv: "lg_inv env s" by (rule logger_reachable [OF assms(2,1)])
  let ?s0 = "s\<lparr> lg_registry := suspendSaves (lg_registry s) \<rparr>"
  have c0: "cap_inv env (cp_changed (fst (new_pass, ?s0))) (snd (new_pass, ?s0))" using suspend_cap [OF inv] by (simp add: new_pass_def)
  from scan_loop [OF assms(1) c0, of v "\<lambda>_. False" "vf_list v" 0] obtain qs e where
    loop0: "capture_loop env v (\<lambda>_. False) (vf_list v) 0 (new_pass, ?s0) = (qs, e)" "scan_next env (new_pass, ?s0) qs"
      "e = Scanned \<and> set (cp_onDisk (fst qs)) = set (cp_onDisk (fst (new_pass, ?s0))) \<union> listed env (vf_list v) \<or>
       e = Aborted \<and> lg_inv env (snd qs) \<and> (\<exists>k \<ge> (0::nat). False)" .
  have e: "e = Scanned" "set (cp_onDisk (fst qs)) = listed env (vf_list v)" using loop0(3) by (auto simp: new_pass_def)
  note loop = loop0(1,2) e
  obtain p s1 where qs: "qs = (p, s1)" by (cases qs)
  have c1: "cap_inv env (cp_changed p) s1" using loop(2) by (simp add: scan_next_def qs)
  have "live_indexed (lg_registry ?s0)" using live_shrinks [OF shrinks_suspend assms(3)] by simp
  with loop_settles [OF assms(1) c0 loop(1) assms(4)]
  have live: "live_indexed (lg_registry s1)" and st1: "\<forall>ref \<in> set (vf_list v). settled env v (lg_registry s1) ref"
    by (simp_all add: qs)
  obtain p2 s2 where d: "capture_deletes env (p, s1) = ((p2, s2), None)" "cap_inv env (cp_changed p2) s2"
    by (rule deletes_return [OF assms(1) c1])
  let ?f = "capture_flush env (cp_changed p2) s2" and ?t = "capture_finally env (capture_flush env (cp_changed p2) s2)"
  have t: "captureOfflineChanges env v (\<lambda>_. False) s = (?t, Inr (cp_stats p2))"
    using loop(1,3) d(1) by (simp add: captureOfflineChanges_def qs)
  then have inv_t: "lg_inv env ?t" using capture_good [OF assms(1) inv, of v "\<lambda>_. False"] by simp
  let ?u = "?t\<lparr> lg_registry := suspendSaves (lg_registry ?t) \<rparr>"
  note ds = deletes_settle [OF assms(1) c1 d(1) live]
  have s2t: "shrinks (lg_registry s2) (lg_registry ?u)"
    using shrinks_trans [OF shrinks_trans [OF tick_registry(2) shrinks_finally] shrinks_suspend] by simp
  then have s1t: "shrinks (lg_registry s1) (lg_registry ?u)" using shrinks_trans ds by auto
  then have "\<forall>ref \<in> set (vf_list v). settled env v (lg_registry ?u) ref"
    using st1 gate_shrinks unfolding settled_def by blast
  from settled_loop [OF this, of 0 new_pass] obtain q where
    q: "capture_loop env v (\<lambda>_. False) (vf_list v) 0 (new_pass, ?u) = ((q, ?u), Scanned)" "cp_changed q = False"
      "cst_opsEmitted (cp_stats q) = 0" "set (cp_onDisk q) = listed env (vf_list v)" by (auto simp: new_pass_def)
  have ct: "cap_inv env False ?u" using suspend_cap [OF inv_t] by simp
  then have regs: "reg_inv (lg_registry s2)" "reg_inv (lg_registry ?u)" using d(2) by (simp_all add: cap_inv_def parts_ok_def)
  have disk: "set (cp_onDisk q) = set (cp_onDisk p)" using q(4) loop(4) by (simp add: qs)
  have "capture_deletes env (q, ?u) = ((q, ?u), None)"
  proof (cases "cp_onDisk q = []")
    case True
    then show ?thesis by (cases "active_entries env (lg_registry ?u)") (simp_all add: capture_deletes_def Let_def)
  next
    case False
    then have "\<forall>e \<in> set (active_entries env (lg_registry s2)). fe_path e \<in> set (cp_onDisk q)"
      using ds [THEN conjunct2] disk by (metis set_empty snd_conv)
    from active_shrinks [OF regs s2t this] show ?thesis using False by (simp add: capture_deletes_def missing_none)
  qed
  then have "captureOfflineChanges env v (\<lambda>_. False) ?t = (capture_finally env (capture_flush env False ?u), Inr (cp_stats q))"
    using q(1,2) by (simp add: captureOfflineChanges_def)
  moreover have "getPendingOps (capture_finally env (capture_flush env False ?u)) = getPendingOps ?t"
    using cap_checkpoint(2) [OF assms(1) ct] by (simp add: capture_flush_def capture_finally_def getPendingOps_def)
  ultimately show ?thesis using q(3) by (simp add: t Let_def)
qed

theorem capture_idempotent_witness:
  "let t = fst (captureOfflineChanges sample_env sample_files (\<lambda>_. False) (fresh_logger (HLC 0 0 ''d'') 100))
   in getPendingOps (fst (captureOfflineChanges sample_env sample_files (\<lambda>_. False) t)) = getPendingOps t \<and>
      map_sum id cst_opsEmitted (snd (captureOfflineChanges sample_env sample_files (\<lambda>_. False) t)) = Inr 0"
  by (rule capture_idempotent [OF sample_env_ok rtranclp.rtrancl_refl])
    (simp_all add: live_indexed_def fresh_logger_def new_registry_def sample_files_def)

end
