(* ===== verification/Applicator.thy ===== *)
theory Applicator
  imports LoggerIdem SyncErrors
begin

text \<open>
  The sync applicator of \<open>src/network/sync-applicator.ts\<close>: merge actions put into effect on the
  vault, the registry, the content store and the operation log.  The vault is a map from paths to
  bytes with their stat; every call of the \<open>VaultFiles\<close> port is counted, and \<open>ae_fails\<close> says
  which calls reject and with what message, before any effect.  The port promises that a move and a
  trash of an absent file do nothing; a move onto a file replaces it here.  The vault events of the
  applicator's own writes are dropped, since no listener is attached while it runs, and no edit of
  the user falls between its steps.  Warnings on the console are left out; the handlers of the two
  conflicts are parameters, with \<open>None\<close> for the deferral, and \<open>dv_asked\<close> lists the conflicts they
  deferred.
\<close>

section \<open>The device\<close>

record device =
  dv_logger :: oplogger
  dv_files :: "(string, bytes \<times> file_stat) jsmap"
  dv_calls :: nat
  dv_listening :: bool
  dv_asked :: "MergeAction list"

datatype delete_decision = KeepDeleted | KeepModified
datatype binary_decision = KeepLocalFile | KeepRemoteFile

record apply_env =
  ae_logger :: logger_env
  ae_fails :: "nat \<Rightarrow> string option"
  ae_mtime :: "nat \<Rightarrow> nat"
  ae_now :: nat
  ae_onDeleteConflict :: "MergeAction \<Rightarrow> delete_decision option"
  ae_onBinaryConflict :: "MergeAction \<Rightarrow> binary_decision option"

text \<open>What the logger sees of the vault.\<close>

definition device_files :: "device \<Rightarrow> vault_files" where
  "device_files d =
     \<lparr> vf_list = map (\<lambda>(p, b, st). \<lparr> vr_path = p, vr_stat = st \<rparr>) (dv_files d),
       vf_read = (\<lambda>p. map_option fst (jm_get (dv_files d) p)),
       vf_exists = jm_has (dv_files d) \<rparr>"

definition io_failure :: "io_error \<Rightarrow> sync_error" where
  "io_failure x = OtherError (case x of SyntaxErr \<Rightarrow> ''SyntaxError'' | TypeErr \<Rightarrow> ''TypeError'' | InvalidCharErr \<Rightarrow> ''InvalidCharacterError'')"

definition port_call :: "apply_env \<Rightarrow> (device \<Rightarrow> device \<times> 'a) \<Rightarrow> (device, 'a) act" where
  "port_call env f d =
     (let d1 = d\<lparr> dv_calls := dv_calls d + 1 \<rparr>
      in case ae_fails env (dv_calls d) of
           Some message \<Rightarrow> (d1, Inl (OtherError message))
         | None \<Rightarrow> (case f d1 of (d2, x) \<Rightarrow> (d2, Inr x)))"

definition files_read :: "apply_env \<Rightarrow> string \<Rightarrow> (device, bytes option) act" where
  "files_read env path = port_call env (\<lambda>d. (d, map_option fst (jm_get (dv_files d) path)))"

definition new_stat :: "apply_env \<Rightarrow> device \<Rightarrow> bytes \<Rightarrow> file_stat" where
  "new_stat env d content = \<lparr> fs_mtime = ae_mtime env (dv_calls d), fs_size = length content \<rparr>"

definition files_write :: "apply_env \<Rightarrow> string \<Rightarrow> bytes \<Rightarrow> (device, unit) act" where
  "files_write env path content =
     port_call env (\<lambda>d. (d\<lparr> dv_files := jm_set path (content, new_stat env d content) (dv_files d) \<rparr>, ()))"

definition files_move :: "apply_env \<Rightarrow> string \<Rightarrow> string \<Rightarrow> (device, unit) act" where
  "files_move env fromPath toPath =
     port_call env (\<lambda>d.
       (case jm_get (dv_files d) fromPath of
          None \<Rightarrow> (d, ())
        | Some f \<Rightarrow> (d\<lparr> dv_files := jm_set toPath f (jm_delete fromPath (dv_files d)) \<rparr>, ())))"

definition files_trash :: "apply_env \<Rightarrow> string \<Rightarrow> (device, unit) act" where
  "files_trash env path = port_call env (\<lambda>d. (d\<lparr> dv_files := jm_delete path (dv_files d) \<rparr>, ()))"

section \<open>Steps on the logger and its components\<close>

definition with_logger :: "(oplogger \<Rightarrow> oplogger) \<Rightarrow> (device, unit) act" where
  "with_logger f d = (d\<lparr> dv_logger := f (dv_logger d) \<rparr>, Inr ())"

definition logger_call :: "(oplogger \<Rightarrow> logger_result) \<Rightarrow> (device, unit) act" where
  "logger_call f d =
     (case f (dv_logger d) of
        (s, None) \<Rightarrow> (d\<lparr> dv_logger := s \<rparr>, Inr ())
      | (s, Some x) \<Rightarrow> (d\<lparr> dv_logger := s \<rparr>, Inl (io_failure x)))"

definition with_registry :: "(registry \<Rightarrow> registry) \<Rightarrow> (device, unit) act" where
  "with_registry f = with_logger (\<lambda>s. s\<lparr> lg_registry := f (lg_registry s) \<rparr>)"

definition hlc_tick :: "apply_env \<Rightarrow> (device, HLC) act" where
  "hlc_tick env d = (case lg_now (ae_logger env) (dv_logger d) of (h, s) \<Rightarrow> (d\<lparr> dv_logger := s \<rparr>, Inr h))"

definition put_content :: "string \<Rightarrow> bytes \<Rightarrow> (device, unit) act" where
  "put_content hash content = with_logger (on_store (putBuffered hash content))"

text \<open>The blob that is not durable yet is put.\<close>

definition put_missing :: "string \<Rightarrow> bytes \<Rightarrow> (device, unit) act" where
  "put_missing hash content =
     with_logger (\<lambda>s. if hasStored (lg_store s) hash then s else on_store (putBuffered hash content) s)"

section \<open>One action\<close>

record pending_resolution =
  rs_fileId :: string
  rs_path :: string
  rs_contentHash :: string
  rs_hlc :: HLC
  rs_parents :: "string list"
  rs_id :: string
  rs_deleted :: bool

datatype step_result = Applied | Resolved pending_resolution | DeferredDrift | DeferredConflict

definition driftedSinceSnapshot :: "apply_env \<Rightarrow> string \<Rightarrow> string \<Rightarrow> VaultState \<Rightarrow> (device, bool) act" where
  "driftedSinceSnapshot env fileId path local =
     (case jm_get (vs_fileEntries local) fileId of
        None \<Rightarrow> retE False
      | Some e \<Rightarrow>
          bindE (files_read env path) (\<lambda>current.
          retE (case current of None \<Rightarrow> False | Some b \<Rightarrow> content_hash (ae_logger env) b \<noteq> fe_contentHash e)))"

text \<open>Where the file lives on this device, or \<open>path\<close> when it is not there.\<close>

definition current_path :: "VaultState \<Rightarrow> string \<Rightarrow> string \<Rightarrow> string" where
  "current_path local fileId path =
     (case jm_get (vs_fileEntries local) fileId of
        Some e \<Rightarrow> if fe_deleted e then path else fe_path e
      | None \<Rightarrow> path)"

text \<open>A destructive step behind the drift check.\<close>

definition unless_drifted :: "apply_env \<Rightarrow> string \<Rightarrow> string \<Rightarrow> VaultState \<Rightarrow> (device, step_result) act \<Rightarrow> (device, step_result) act" where
  "unless_drifted env fileId path local m =
     bindE (driftedSinceSnapshot env fileId path local) (\<lambda>drifted. if drifted then retE DeferredDrift else m)"

definition adopt :: "apply_env \<Rightarrow> string \<Rightarrow> string \<Rightarrow> string \<Rightarrow> HLC \<Rightarrow> string option \<Rightarrow> (device, unit) act" where
  "adopt env fileId path hash hlc head = with_registry (adoptRemote (le_settings (ae_logger env)) fileId path hash hlc head)"

definition trash_stale :: "apply_env \<Rightarrow> string \<Rightarrow> string \<Rightarrow> (device, unit) act" where
  "trash_stale env currentPath path = (if currentPath \<noteq> path then files_trash env currentPath else retE ())"

definition mintMergeResolution ::
  "apply_env \<Rightarrow> string \<Rightarrow> string \<Rightarrow> string \<Rightarrow> HLC \<Rightarrow> string list option \<Rightarrow> bool \<Rightarrow> (device, step_result) act" where
  "mintMergeResolution env fileId path contentHash hlc parents deleted =
     (let p = (case parents of None \<Rightarrow> [] | Some ps \<Rightarrow> ps);
          vid = mergeVersionId (le_sha (ae_logger env)) contentHash p
      in bindE (if \<not> deleted then adopt env fileId path contentHash hlc (Some vid) else retE ()) (\<lambda>_.
         retE (Resolved \<lparr> rs_fileId = fileId, rs_path = path, rs_contentHash = contentHash, rs_hlc = hlc,
                         rs_parents = p, rs_id = vid, rs_deleted = deleted \<rparr>)))"

definition write_local :: "apply_env \<Rightarrow> VaultState \<Rightarrow> string \<Rightarrow> string \<Rightarrow> bytes \<Rightarrow> HLC \<Rightarrow> string option \<Rightarrow> (device, step_result) act" where
  "write_local env local fileId path content hlc head =
     (let currentPath = current_path local fileId path
      in unless_drifted env fileId currentPath local
           (let hash = content_hash (ae_logger env) content
            in bindE (files_read env path) (\<lambda>onDisk.
               bindE (if (case onDisk of None \<Rightarrow> True | Some b \<Rightarrow> content_hash (ae_logger env) b \<noteq> hash)
                      then files_write env path content else retE ()) (\<lambda>_.
               bindE (put_missing hash content) (\<lambda>_.
               bindE (adopt env fileId path hash hlc head) (\<lambda>_.
               bindE (trash_stale env currentPath path) (\<lambda>_.
               retE Applied)))))))"

definition write_merge :: "apply_env \<Rightarrow> VaultState \<Rightarrow> string \<Rightarrow> string \<Rightarrow> bytes \<Rightarrow> string list \<Rightarrow> (device, step_result) act" where
  "write_merge env local fileId path content parents =
     (let currentPath = current_path local fileId path
      in unless_drifted env fileId currentPath local
           (let hash = content_hash (ae_logger env) content;
                vid = mergeVersionId (le_sha (ae_logger env)) hash parents
            in bindE (hlc_tick env) (\<lambda>hlcTs.
               bindE (files_write env path content) (\<lambda>_.
               bindE (put_content hash content) (\<lambda>_.
               bindE (adopt env fileId path hash hlcTs (Some vid)) (\<lambda>_.
               bindE (trash_stale env currentPath path) (\<lambda>_.
               retE (Resolved \<lparr> rs_fileId = fileId, rs_path = path, rs_contentHash = hash, rs_hlc = hlcTs,
                               rs_parents = parents, rs_id = vid, rs_deleted = False \<rparr>))))))))"

definition move_local :: "apply_env \<Rightarrow> VaultState \<Rightarrow> string \<Rightarrow> string \<Rightarrow> string \<Rightarrow> (device, step_result) act" where
  "move_local env local fileId fromPath toPath =
     unless_drifted env fileId fromPath local
       (bindE (files_move env fromPath toPath) (\<lambda>_.
        bindE (hlc_tick env) (\<lambda>hlcTs.
        bindE (logger_call (on_registry (updatePath (le_settings (ae_logger env)) fromPath toPath hlcTs))) (\<lambda>_.
        retE Applied))))"

definition delete_local :: "apply_env \<Rightarrow> VaultState \<Rightarrow> string \<Rightarrow> string \<Rightarrow> (device, step_result) act" where
  "delete_local env local fileId path =
     unless_drifted env fileId path local
       (bindE (files_trash env path) (\<lambda>_.
        bindE (hlc_tick env) (\<lambda>hlcTs.
        bindE (logger_call (on_registry (markDeleted (le_settings (ae_logger env)) path hlcTs))) (\<lambda>_.
        retE Applied))))"

definition write_markers ::
  "apply_env \<Rightarrow> VaultState \<Rightarrow> string \<Rightarrow> string \<Rightarrow> ThreeWayMergeResult \<Rightarrow> string list option \<Rightarrow> (device, step_result) act" where
  "write_markers env local fileId localPath mergeResult parents =
     (let currentPath = current_path local fileId localPath
      in unless_drifted env fileId currentPath local
           (let marked = utf8_encode (renderMarkersFromResult mergeResult);
                hash = content_hash (ae_logger env) marked
            in bindE (files_write env localPath marked) (\<lambda>_.
               bindE (put_content hash marked) (\<lambda>_.
               bindE (hlc_tick env) (\<lambda>hlcTs.
               bindE (logger_call (on_registry (markConflicted (le_settings (ae_logger env)) localPath hash hlcTs
                        (case parents of None \<Rightarrow> [] | Some ps \<Rightarrow> ps)))) (\<lambda>_.
               retE Applied))))))"

text \<open>A call of a conflict handler.\<close>

definition ask :: "(MergeAction \<Rightarrow> 'x option) \<Rightarrow> MergeAction \<Rightarrow> (device, 'x option) act" where
  "ask handler action d =
     (case handler action of
        None \<Rightarrow> (d\<lparr> dv_asked := dv_asked d @ [action] \<rparr>, Inr None)
      | Some decision \<Rightarrow> (d, Inr (Some decision)))"

definition settle_delete_conflict ::
  "apply_env \<Rightarrow> delete_decision \<Rightarrow> string \<Rightarrow> string \<Rightarrow> bytes \<Rightarrow> string list option \<Rightarrow> (device, step_result) act" where
  "settle_delete_conflict env decision fileId path content parents =
     bindE (hlc_tick env) (\<lambda>hlcTs.
       (let hash = content_hash (ae_logger env) content
        in if decision = KeepModified then
             bindE (files_write env path content) (\<lambda>_.
             bindE (put_content hash content) (\<lambda>_.
             mintMergeResolution env fileId path hash hlcTs parents False))
           else
             bindE (files_trash env path) (\<lambda>_.
             bindE (logger_call (on_registry (markDeleted (le_settings (ae_logger env)) path hlcTs))) (\<lambda>_.
             mintMergeResolution env fileId path hash hlcTs parents True))))"

definition settle_binary_conflict ::
  "apply_env \<Rightarrow> string \<Rightarrow> bytes \<Rightarrow> string \<Rightarrow> string list option \<Rightarrow> (device, step_result) act" where
  "settle_binary_conflict env fileId content path parents =
     bindE (hlc_tick env) (\<lambda>hlcTs.
       (let hash = content_hash (ae_logger env) content
        in bindE (files_write env path content) (\<lambda>_.
           bindE (put_content hash content) (\<lambda>_.
           mintMergeResolution env fileId path hash hlcTs parents False))))"

definition applyAction :: "apply_env \<Rightarrow> VaultState \<Rightarrow> MergeAction \<Rightarrow> (device, step_result) act" where
  "applyAction env local action =
     (case action of
        WriteLocal fileId path content hlc head \<Rightarrow> write_local env local fileId path content hlc head
      | WriteMerge fileId path content parents \<Rightarrow> write_merge env local fileId path content parents
      | MoveLocal fileId fromPath toPath \<Rightarrow> move_local env local fileId fromPath toPath
      | DeleteLocal fileId path \<Rightarrow> delete_local env local fileId path
      | Conflict fileId localPath remotePath mergeResult _ _ parents \<Rightarrow>
          write_markers env local fileId localPath mergeResult parents
      | DeleteConflict fileId path side content parents \<Rightarrow>
          bindE (ask (ae_onDeleteConflict env) action) (\<lambda>decision.
          (case decision of
             None \<Rightarrow> retE DeferredConflict
           | Some x \<Rightarrow> settle_delete_conflict env x fileId path content parents))
      | BinaryConflict fileId localPath remotePath localContent remoteContent _ _ parents \<Rightarrow>
          bindE (ask (ae_onBinaryConflict env) action) (\<lambda>decision.
          (case decision of
             None \<Rightarrow> retE DeferredConflict
           | Some x \<Rightarrow>
               (let keepLocal = (x = KeepLocalFile)
                in settle_binary_conflict env fileId (if keepLocal then localContent else remoteContent)
                     (if keepLocal then localPath else remotePath) parents)))
      | SendRemote _ _ _ \<Rightarrow> retE Applied
      | DeleteRemote _ _ \<Rightarrow> retE Applied
      | NoOp _ \<Rightarrow> retE Applied)"

section \<open>The whole apply\<close>

definition MAX_ACTION_FAILURES :: nat where "MAX_ACTION_FAILURES = 20"

record apply_failure =
  af_fileId :: string
  af_path :: string
  af_action :: MergeAction
  af_message :: string

text \<open>The local variables of the loop.\<close>

record apply_pass =
  ap_resolutions :: "pending_resolution list"
  ap_deferred :: "string list"
  ap_deferredConflicts :: "string list"
  ap_failures :: "apply_failure list"
  ap_since :: nat

definition new_apply :: apply_pass where
  "new_apply = \<lparr> ap_resolutions = [], ap_deferred = [], ap_deferredConflicts = [], ap_failures = [], ap_since = 0 \<rparr>"

definition defer_file :: "string \<Rightarrow> apply_pass \<Rightarrow> apply_pass" where
  "defer_file fileId p = p\<lparr> ap_deferred := js_add fileId (ap_deferred p) \<rparr>"

fun note_result :: "MergeAction \<Rightarrow> step_result \<Rightarrow> apply_pass \<Rightarrow> apply_pass" where
  "note_result action Applied p = p"
| "note_result action (Resolved r) p = p\<lparr> ap_resolutions := ap_resolutions p @ [r] \<rparr>"
| "note_result action DeferredDrift p = defer_file (ma_fileId action) p"
| "note_result action DeferredConflict p =
     (defer_file (ma_fileId action) p)\<lparr> ap_deferredConflicts := js_add (ma_fileId action) (ap_deferredConflicts p) \<rparr>"

definition note_failure :: "VaultState \<Rightarrow> MergeAction \<Rightarrow> sync_error \<Rightarrow> apply_pass \<Rightarrow> apply_pass" where
  "note_failure local action err p =
     (let path = (case jm_get (vs_fileEntries local) (ma_fileId action) of Some e \<Rightarrow> fe_path e | None \<Rightarrow> ma_fileId action)
      in (defer_file (ma_fileId action) p)
           \<lparr> ap_failures := ap_failures p @
               [\<lparr> af_fileId = ma_fileId action, af_path = path, af_action = action, af_message = error_message err \<rparr>] \<rparr>)"

definition apply_tick :: "apply_pass \<Rightarrow> (device, apply_pass) act" where
  "apply_tick p d =
     (case pc_tick (on_store flushPack) (\<lambda>s. s) (on_store clearMemCache) PACK_CHECKPOINT_EVERY (ap_since p, dv_logger d) of
        (since, s) \<Rightarrow> (d\<lparr> dv_logger := s \<rparr>, Inr (p\<lparr> ap_since := since \<rparr>)))"

definition isolated :: "apply_env \<Rightarrow> VaultState \<Rightarrow> MergeAction \<Rightarrow> apply_pass \<Rightarrow> (device, apply_pass) act" where
  "isolated env local action p d =
     (case applyAction env local action d of
        (d1, Inr r) \<Rightarrow> (d1, Inr (note_result action r p))
      | (d1, Inl err) \<Rightarrow>
          (let p1 = note_failure local action err p
           in (d1, if length (ap_failures p1) > MAX_ACTION_FAILURES then Inl err else Inr p1)))"

definition apply_loop :: "apply_env \<Rightarrow> VaultState \<Rightarrow> MergeAction list \<Rightarrow> apply_pass \<Rightarrow> (device, apply_pass) act" where
  "apply_loop env local = iterE (\<lambda>action p. bindE (isolated env local action p) apply_tick)"

definition begin_apply :: "device \<Rightarrow> device" where
  "begin_apply d =
     d\<lparr> dv_logger := (let s = stopListening (dv_logger d) in s\<lparr> lg_registry := suspendSaves (lg_registry s) \<rparr>),
        dv_listening := False \<rparr>"

text \<open>The inner and the outer \<open>finally\<close>.\<close>

definition end_loop :: "device \<Rightarrow> device" where
  "end_loop d =
     d\<lparr> dv_logger := clearOps (snd (pc_flush (on_store flushPack) (\<lambda>s. s) (on_store clearMemCache) True (dv_logger d))),
        dv_listening := True \<rparr>"

definition end_apply :: "apply_env \<Rightarrow> device \<Rightarrow> device" where
  "end_apply env d =
     (let settings = le_settings (ae_logger env); s = dv_logger d;
          r = resumeSaves (reg_flush settings (lg_registry s));
          pinned = js_set_of (map op_fileId (getPendingOps s))
      in d\<lparr> dv_logger := s\<lparr> lg_registry := reg_compact settings (Some (ae_now env, pinned)) r \<rparr> \<rparr>)"

definition synced_action :: "VaultState \<Rightarrow> string list \<Rightarrow> MergeAction \<Rightarrow> bool" where
  "synced_action local deferred action =
     (ma_fileId action \<notin> set deferred \<and>
      (case jm_get (vs_fileEntries local) (ma_fileId action) of
         None \<Rightarrow> False
       | Some entry \<Rightarrow>
           \<not> fe_deleted entry \<and>
           (case action of NoOp _ \<Rightarrow> True | SendRemote _ _ _ \<Rightarrow> fe_lastSyncedPath entry = None | _ \<Rightarrow> False)))"

definition updateSyncedPaths :: "apply_env \<Rightarrow> MergeAction list \<Rightarrow> VaultState \<Rightarrow> string list \<Rightarrow> (device, unit) act" where
  "updateSyncedPaths env actions local deferred =
     with_registry (fold (\<lambda>action. setSyncedPath (le_settings (ae_logger env)) (ma_fileId action))
                     (filter (synced_action local deferred) actions))"

definition record_resolution :: "apply_env \<Rightarrow> pending_resolution \<Rightarrow> oplogger \<Rightarrow> oplogger" where
  "record_resolution env r =
     (if rs_deleted r then recordMergeDelete (ae_logger env) (rs_fileId r) (rs_path r) (rs_contentHash r) (rs_hlc r) (rs_parents r) (rs_id r)
      else recordMergeOp (ae_logger env) (rs_fileId r) (rs_path r) (rs_contentHash r) (rs_hlc r) (rs_parents r) (rs_id r))"

text \<open>Each edit that a deferred action left on disk becomes an operation.\<close>

definition recapture :: "apply_env \<Rightarrow> VaultState \<Rightarrow> string \<Rightarrow> unit \<Rightarrow> (device, unit) act" where
  "recapture env local fileId _ d =
     (case jm_get (vs_fileEntries local) fileId of
        None \<Rightarrow> (d, Inr ())
      | Some entry \<Rightarrow> logger_call (recaptureLocalEdit (ae_logger env) (device_files d) (fe_path entry)) d)"

definition after_loop :: "apply_env \<Rightarrow> MergeAction list \<Rightarrow> VaultState \<Rightarrow> apply_pass \<Rightarrow> (device, unit) act" where
  "after_loop env actions local p =
     bindE (updateSyncedPaths env actions local (ap_deferred p)) (\<lambda>_.
     bindE (with_logger (fold (record_resolution env) (ap_resolutions p))) (\<lambda>_.
     iterE (recapture env local) (ap_deferred p) ()))"

definition applyActions ::
  "apply_env \<Rightarrow> MergeAction list \<Rightarrow> VaultState \<Rightarrow> (device, string list \<times> string list \<times> apply_failure list) act" where
  "applyActions env actions local d =
     (case apply_loop env local actions new_apply (begin_apply d) of
        (d1, Inl err) \<Rightarrow> (end_apply env (end_loop d1), Inl err)
      | (d1, Inr p) \<Rightarrow>
          (case after_loop env actions local p (end_loop d1) of
             (d2, Inl err) \<Rightarrow> (end_apply env d2, Inl err)
           | (d2, Inr _) \<Rightarrow> (end_apply env d2, Inr (ap_deferred p, ap_deferredConflicts p, ap_failures p))))"

end
