(* ===== verification/ApplicatorThms.thy ===== *)
theory ApplicatorThms
  imports Applicator
begin

text \<open>
  What the applicator keeps: a file that drifted since the snapshot is not overwritten, one failing
  action costs one file, and afterwards the pending operations are those of the resolutions and of
  the recaptured edits.  The snapshot is a value, as \<open>SyncHost\<close> says: an edit counts as one after
  the snapshot when its hash is not the one that the guard reads there.
\<close>

section \<open>Frames\<close>

named_theorems dev_simps \<open>what a step on the device changes\<close>

lemma port_call_cases:
  "port_call env f d = (d', r) \<Longrightarrow>
     (\<exists>m. r = Inl (OtherError m) \<and> d' = d\<lparr> dv_calls := dv_calls d + 1 \<rparr>) \<or>
     (\<exists>x. r = Inr x \<and> (d', x) = f (d\<lparr> dv_calls := dv_calls d + 1 \<rparr>))"
  by (auto simp: port_call_def Let_def split: option.splits prod.splits)

definition keeps_file :: "string \<Rightarrow> (device, 'a) act \<Rightarrow> bool" where
  "keeps_file p m = (\<forall>d. jm_get (dv_files (fst (m d))) p = jm_get (dv_files d) p)"

lemma keeps_simple [simp, intro]:
  "keeps_file p (retE x)" "keeps_file p (throwE e)" "keeps_file p (liftE r)" "keeps_file p (with_logger f)"
  "keeps_file p (with_registry g)" "keeps_file p (hlc_tick env)" "keeps_file p (put_content h b)" "keeps_file p (put_missing h b)"
  "keeps_file p (adopt env i q h t v)" "keeps_file p (files_read env q)" "keeps_file p (ask hf ac)"
  by (auto simp: ask_def keeps_file_def with_logger_def with_registry_def hlc_tick_def put_content_def put_missing_def adopt_def
      files_read_def port_call_def Let_def split: prod.splits option.splits)

lemma keeps_logger [simp, intro]: "keeps_file p (logger_call f)"
  by (auto simp: keeps_file_def logger_call_def split: prod.splits option.splits)

lemma keeps_other [intro!]:
  "p \<noteq> q \<Longrightarrow> keeps_file p (files_write env q b)" "p \<noteq> q \<Longrightarrow> keeps_file p (files_trash env q)"
  "p \<noteq> q \<Longrightarrow> p \<noteq> q' \<Longrightarrow> keeps_file p (files_move env q q')" "p \<noteq> q \<Longrightarrow> keeps_file p (trash_stale env q q')"
  by (auto simp: keeps_file_def files_write_def files_trash_def files_move_def trash_stale_def port_call_def Let_def
      split: prod.splits option.splits)

lemma keeps_bind:
  assumes "keeps_file p m" and "\<And>x. keeps_file p (k x)"
  shows "keeps_file p (bindE m k)"
  unfolding keeps_file_def
proof
  fix d
  obtain d1 r where m: "m d = (d1, r)" by fastforce
  then have "jm_get (dv_files d1) p = jm_get (dv_files d) p" using assms(1) by (metis fst_conv keeps_file_def)
  then show "jm_get (dv_files (fst (bindE m k d))) p = jm_get (dv_files d) p"
    using assms(2) by (cases r) (simp_all add: bindE_def m keeps_file_def)
qed

lemma keeps_iter: "(\<And>x a. keeps_file p (f x a)) \<Longrightarrow> keeps_file p (iterE f xs acc)"
  by (induction xs arbitrary: acc) (auto intro!: keeps_bind)

lemma keeps_drift [simp]: "keeps_file p (driftedSinceSnapshot env i q local)"
  by (auto simp: driftedSinceSnapshot_def intro!: keeps_bind split: option.splits)

lemma keeps_mint [simp]: "keeps_file p (mintMergeResolution env i q h t ps b)"
  by (auto simp: mintMergeResolution_def Let_def intro!: keeps_bind)

section \<open>What an action touches\<close>

fun touches :: "VaultState \<Rightarrow> MergeAction \<Rightarrow> string set" where
  "touches local (WriteLocal f p _ _ _) = {p, current_path local f p}"
| "touches local (WriteMerge f p _ _) = {p, current_path local f p}"
| "touches local (MoveLocal f p q) = {p, q}"
| "touches local (DeleteLocal f p) = {p}"
| "touches local (Conflict f p _ _ _ _ _) = {p}"
| "touches local (DeleteConflict f p _ _ _) = {p}"
| "touches local (BinaryConflict f p q _ _ _ _ _) = {p, q}"
| "touches local _ = {}"

text \<open>The path at which an action looks for drift before it changes anything.\<close>

fun guarded_at :: "VaultState \<Rightarrow> MergeAction \<Rightarrow> string option" where
  "guarded_at local (WriteLocal f p _ _ _) = Some (current_path local f p)"
| "guarded_at local (WriteMerge f p _ _) = Some (current_path local f p)"
| "guarded_at local (MoveLocal f p q) = Some p"
| "guarded_at local (DeleteLocal f p) = Some p"
| "guarded_at local (Conflict f p _ _ _ _ _) = Some (current_path local f p)"
| "guarded_at local _ = None"

lemma action_frame:
  assumes "p \<notin> touches local a"
  shows "keeps_file p (applyAction env local a)"
proof (cases a)
  case (WriteLocal f q c h v)
  then show ?thesis using assms
    by (auto simp: applyAction_def write_local_def unless_drifted_def Let_def intro!: keeps_bind)
next
  case (WriteMerge f q c ps)
  then show ?thesis using assms
    by (auto simp: applyAction_def write_merge_def unless_drifted_def Let_def intro!: keeps_bind)
next
  case (DeleteConflict f q s c ps)
  then show ?thesis using assms
    by (auto simp: applyAction_def settle_delete_conflict_def Let_def intro!: keeps_bind split: option.splits)
next
  case (BinaryConflict f q q' c c' h h' ps)
  then show ?thesis using assms
    by (auto simp: applyAction_def settle_binary_conflict_def Let_def intro!: keeps_bind split: option.splits)
qed (use assms in \<open>auto simp: applyAction_def move_local_def delete_local_def write_markers_def unless_drifted_def Let_def
      intro!: keeps_bind\<close>)

definition drifted :: "apply_env \<Rightarrow> VaultState \<Rightarrow> string \<Rightarrow> bytes \<Rightarrow> bool" where
  "drifted env local f b =
     (case jm_get (vs_fileEntries local) f of
        None \<Rightarrow> False
      | Some e \<Rightarrow> fe_contentHash e \<noteq> content_hash (ae_logger env) b)"

lemma drift_found:
  assumes "jm_get (dv_files d) p = Some (b, st)" and "drifted env local f b"
  shows "unless_drifted env f p local m d =
    (d\<lparr> dv_calls := dv_calls d + 1 \<rparr>,
     case ae_fails env (dv_calls d) of Some x \<Rightarrow> Inl (OtherError x) | None \<Rightarrow> Inr DeferredDrift)"
  using assms
  by (auto simp: unless_drifted_def driftedSinceSnapshot_def bindE_def files_read_def port_call_def Let_def drifted_def
      split: option.splits)

text \<open>An action that finds drift at its path changes nothing, and its file is deferred.\<close>

lemma action_drift:
  assumes "guarded_at local a = Some p" and "jm_get (dv_files d) p = Some (b, st)" and "drifted env local (ma_fileId a) b"
  shows "applyAction env local a d =
    (d\<lparr> dv_calls := dv_calls d + 1 \<rparr>,
     case ae_fails env (dv_calls d) of Some x \<Rightarrow> Inl (OtherError x) | None \<Rightarrow> Inr DeferredDrift)"
  using assms drift_found [OF assms(2)]
  by (cases a) (simp_all add: applyAction_def write_local_def write_merge_def move_local_def delete_local_def
      write_markers_def Let_def)

section \<open>The loop\<close>

lemma note_result_simps [simp]:
  "ap_failures (note_result a r p) = ap_failures p"
  "set (ap_deferred (note_result a r p)) = set (ap_deferred p) \<union> (if r \<in> {DeferredDrift, DeferredConflict} then {ma_fileId a} else {})"
  "set (ap_deferredConflicts (note_result a r p)) = set (ap_deferredConflicts p) \<union> (if r = DeferredConflict then {ma_fileId a} else {})"
  "ap_resolutions (note_result a r p) = ap_resolutions p @ (case r of Resolved x \<Rightarrow> [x] | _ \<Rightarrow> [])"
  by (cases r; simp add: defer_file_def)+

lemma note_failure_simps [simp]:
  "set (ap_deferred (note_failure local a e p)) = insert (ma_fileId a) (set (ap_deferred p))"
  "ap_deferredConflicts (note_failure local a e p) = ap_deferredConflicts p"
  "ap_resolutions (note_failure local a e p) = ap_resolutions p"
  "map af_action (ap_failures (note_failure local a e p)) = map af_action (ap_failures p) @ [a]"
  "map af_fileId (ap_failures (note_failure local a e p)) = map af_fileId (ap_failures p) @ [ma_fileId a]"
  "length (ap_failures (note_failure local a e p)) = length (ap_failures p) + 1"
  by (simp_all add: note_failure_def Let_def defer_file_def)

lemma tick_result:
  "\<exists>s n. apply_tick p d = (d\<lparr> dv_logger := s \<rparr>, Inr (p\<lparr> ap_since := n \<rparr>)) \<and> lg_registry s = lg_registry (dv_logger d) \<and>
     lg_log s = lg_log (dv_logger d)"
proof (cases "ap_since p + 1 < PACK_CHECKPOINT_EVERY")
  case True
  then show ?thesis by (intro exI [of _ "dv_logger d"] exI [of _ "ap_since p + 1"]) (simp add: apply_tick_def pc_tick_def)
next
  case False
  then show ?thesis
    by (intro exI [of _ "on_store clearMemCache (on_store flushPack (dv_logger d))"] exI [of _ 0])
      (simp add: apply_tick_def pc_tick_def pc_flush_def on_store_def)
qed

lemma tickE:
  assumes "apply_tick p d = (d1, r)"
  obtains s n where "d1 = d\<lparr> dv_logger := s \<rparr>" and "r = Inr (p\<lparr> ap_since := n \<rparr>)" and "lg_log s = lg_log (dv_logger d)"
  using tick_result [of p d] assms by auto

text \<open>An invariant of the loop over the actions done so far.\<close>

definition pass_inv :: "MergeAction list \<Rightarrow> apply_pass \<Rightarrow> bool" where
  "pass_inv done_actions p =
     (subseq (map af_action (ap_failures p)) done_actions \<and> length (ap_failures p) \<le> MAX_ACTION_FAILURES \<and>
      map af_fileId (ap_failures p) = map (\<lambda>f. ma_fileId (af_action f)) (ap_failures p) \<and>
      af_fileId ` set (ap_failures p) \<subseteq> set (ap_deferred p) \<and> set (ap_deferred p) \<subseteq> ma_fileId ` set done_actions \<and>
      set (ap_deferredConflicts p) \<subseteq> set (ap_deferred p) \<and> length (ap_resolutions p) \<le> length done_actions)"

lemma failure_new:
  "ap_failures (note_failure local a e p) = ap_failures p @ [last (ap_failures (note_failure local a e p))]"
  "af_fileId (last (ap_failures (note_failure local a e p))) = ma_fileId a"
  "af_action (last (ap_failures (note_failure local a e p))) = a"
  by (simp_all add: note_failure_def Let_def defer_file_def)

lemma isolated_inv:
  assumes "isolated env local a p d = (d1, r)" and "pass_inv as p"
  shows "case r of
      Inr p1 \<Rightarrow> pass_inv (as @ [a]) p1
    | Inl e \<Rightarrow> length as \<ge> MAX_ACTION_FAILURES"
proof (cases "applyAction env local a d")
  case (Pair d2 x)
  show ?thesis
  proof (cases x)
    case (Inr s)
    then have "r = Inr (note_result a s p)" using assms(1) Pair by (simp add: isolated_def)
    moreover have "length (case s of Resolved y \<Rightarrow> [y] | _ \<Rightarrow> []) \<le> 1" by (cases s) simp_all
    ultimately show ?thesis using assms(2) by (auto simp: pass_inv_def)
  next
    case (Inl e)
    let ?p = "note_failure local a e p"
    have r: "r = (if length (ap_failures ?p) > MAX_ACTION_FAILURES then Inl e else Inr ?p)"
      using assms(1) Pair Inl by (auto simp: isolated_def Let_def)
    have "length (map af_action (ap_failures p)) \<le> length as" using assms(2) unfolding pass_inv_def by (metis list_emb_length)
    moreover have "set (ap_failures ?p) = insert (last (ap_failures ?p)) (set (ap_failures p))"
      by (metis Un_insert_right failure_new(1) list.simps(15) set_append set_empty sup_bot.right_neutral list.set(1))
    moreover have "map (\<lambda>f. ma_fileId (af_action f)) (ap_failures ?p) = map (\<lambda>f. ma_fileId (af_action f)) (ap_failures p) @ [ma_fileId a]"
      using failure_new(1) [of local a e p] failure_new(3) [of local a e p] by (metis (no_types, lifting) list.simps(8,9) map_append)
    moreover have "subseq (map af_action (ap_failures ?p)) (as @ [a])" using assms(2) by (simp add: pass_inv_def)
    ultimately show ?thesis using assms(2) failure_new(2) [of local a e p] unfolding r pass_inv_def
      by auto
  qed
qed

lemma loop_inv:
  "apply_loop env local as p d = (d1, r) \<Longrightarrow> pass_inv bs p \<Longrightarrow>
     (case r of Inr p1 \<Rightarrow> pass_inv (bs @ as) p1 | Inl e \<Rightarrow> length (bs @ as) > MAX_ACTION_FAILURES)"
proof (induction as arbitrary: p d bs)
  case (Cons a as)
  obtain d2 x where i: "isolated env local a p d = (d2, x)" by fastforce
  note inv = isolated_inv [OF i Cons.prems(2)]
  show ?case
  proof (cases x)
    case (Inl e)
    then show ?thesis using Cons.prems(1) i inv by (auto simp: apply_loop_def bindE_def)
  next
    case (Inr p1)
    obtain d3 y where t: "apply_tick p1 d2 = (d3, y)" by fastforce
    then obtain n where y: "y = Inr (p1\<lparr> ap_since := n \<rparr>)" by (auto elim: tickE)
    have "apply_loop env local as (p1\<lparr> ap_since := n \<rparr>) d3 = (d1, r)"
      using Cons.prems(1) i t by (simp add: apply_loop_def bindE_def Inr y)
    moreover have "pass_inv (bs @ [a]) (p1\<lparr> ap_since := n \<rparr>)" using inv Inr by (simp add: pass_inv_def del: map_eq_conv)
    ultimately have "case r of Inr p1 \<Rightarrow> pass_inv ((bs @ [a]) @ as) p1 | Inl e \<Rightarrow> length ((bs @ [a]) @ as) > MAX_ACTION_FAILURES"
      by (rule Cons.IH)
    then show ?thesis by (simp only: append_assoc append_Cons append_Nil)
  qed
qed (auto simp: apply_loop_def)

lemma start_inv: "pass_inv [] new_apply"
  by (simp add: pass_inv_def new_apply_def)

section \<open>The whole apply\<close>

lemma settle_registry [simp]:
  "dv_files (begin_apply d) = dv_files d" "dv_files (end_loop d) = dv_files d" "dv_files (end_apply env d) = dv_files d"
  by (simp_all add: begin_apply_def end_loop_def end_apply_def Let_def)

lemma keeps_recapture: "keeps_file p (recapture env local i u)"
  unfolding keeps_file_def
proof
  fix d
  show "jm_get (dv_files (fst (recapture env local i u d))) p = jm_get (dv_files d) p"
    by (cases "jm_get (vs_fileEntries local) i")
      (simp_all add: recapture_def keeps_logger [unfolded keeps_file_def, rule_format])
qed

lemma after_files: "keeps_file p (after_loop env actions local ps)"
  unfolding after_loop_def updateSyncedPaths_def by (intro keeps_bind keeps_iter keeps_recapture) simp_all

lemma iso_files:
  assumes "keeps_file p (applyAction env local a)" and "isolated env local a ps d = (d1, r)"
  shows "jm_get (dv_files d1) p = jm_get (dv_files d) p"
  using assms by (auto simp: isolated_def keeps_file_def Let_def split: prod.splits sum.splits if_splits) (metis fst_conv)+

lemma iso_drift:
  assumes "guarded_at local a = Some p" and "jm_get (dv_files d) p = Some (b, st)" and "drifted env local (ma_fileId a) b"
    and "isolated env local a ps d = (d1, r)"
  shows "jm_get (dv_files d1) p = Some (b, st) \<and> (\<forall>p1. r = Inr p1 \<longrightarrow> ma_fileId a \<in> set (ap_deferred p1))"
  using assms(2,4) action_drift [OF assms(1-3)]
  by (auto simp: isolated_def Let_def defer_file_def split: option.splits if_splits)

lemma iso_deferred:
  assumes "isolated env local a ps d = (d1, Inr p1)"
  shows "set (ap_deferred ps) \<subseteq> set (ap_deferred p1)"
  using assms by (auto simp: isolated_def Let_def split: prod.splits sum.splits if_splits)

text \<open>Actions that touch a path only behind a drift check that the file there fails.\<close>

definition held_back :: "apply_env \<Rightarrow> VaultState \<Rightarrow> string \<Rightarrow> bytes \<Rightarrow> MergeAction \<Rightarrow> bool" where
  "held_back env local p b a = (p \<in> touches local a \<longrightarrow> guarded_at local a = Some p \<and> drifted env local (ma_fileId a) b)"

lemma loop_drift:
  "apply_loop env local as ps d = (d1, r) \<Longrightarrow> jm_get (dv_files d) p = Some (b, st) \<Longrightarrow> \<forall>a \<in> set as. held_back env local p b a \<Longrightarrow>
     jm_get (dv_files d1) p = Some (b, st) \<and>
     (\<forall>p1. r = Inr p1 \<longrightarrow> set (ap_deferred ps) \<union> ma_fileId ` {a \<in> set as. p \<in> touches local a} \<subseteq> set (ap_deferred p1))"
proof (induction as arbitrary: ps d)
  case (Cons a as)
  obtain d2 x where i: "isolated env local a ps d = (d2, x)" by fastforce
  have f: "jm_get (dv_files d2) p = Some (b, st)"
    and def: "\<And>p1. x = Inr p1 \<Longrightarrow> p \<in> touches local a \<Longrightarrow> ma_fileId a \<in> set (ap_deferred p1)"
    using iso_files [OF action_frame i, of p] iso_drift [OF _ Cons.prems(2) _ i] Cons.prems(2,3)
    by (cases "p \<in> touches local a"; auto simp: held_back_def)+
  show ?case
  proof (cases x)
    case (Inl e)
    then show ?thesis using Cons.prems(1) i f by (auto simp: apply_loop_def bindE_def)
  next
    case (Inr p1)
    obtain d3 y where t: "apply_tick p1 d2 = (d3, y)" by fastforce
    then obtain s n where y: "y = Inr (p1\<lparr> ap_since := n \<rparr>)" "d3 = d2\<lparr> dv_logger := s \<rparr>" by (auto elim: tickE)
    have "apply_loop env local as (p1\<lparr> ap_since := n \<rparr>) d3 = (d1, r)"
      using Cons.prems(1) i t by (simp add: apply_loop_def bindE_def Inr y(1))
    from Cons.IH [OF this] f Cons.prems(3) y(2)
    have "jm_get (dv_files d1) p = Some (b, st)"
      "\<forall>p2. r = Inr p2 \<longrightarrow> set (ap_deferred p1) \<union> ma_fileId ` {a \<in> set as. p \<in> touches local a} \<subseteq> set (ap_deferred p2)"
      by simp_all
    moreover have "set (ap_deferred ps) \<subseteq> set (ap_deferred p1)" using iso_deferred i Inr by blast
    ultimately show ?thesis using def [OF Inr] by (auto; blast)
  qed
qed (auto simp: apply_loop_def)

text \<open>
  C5: An edit that is on disk but not in the snapshot survives the apply: when every action that touches
  its path is one that checks for drift there, the bytes stay, and if the apply returns, each of
  these files is deferred.
\<close>

theorem drifted_edit_survives:
  assumes "jm_get (dv_files d) p = Some (b, st)" and "\<forall>a \<in> set actions. held_back env local p b a"
  shows "jm_get (dv_files (fst (applyActions env actions local d))) p = Some (b, st) \<and>
    (case snd (applyActions env actions local d) of
       Inl e \<Rightarrow> True
     | Inr (deferred, conflicts, failures) \<Rightarrow> ma_fileId ` {a \<in> set actions. p \<in> touches local a} \<subseteq> set deferred)"
proof -
  obtain d1 r where l: "apply_loop env local actions new_apply (begin_apply d) = (d1, r)" by fastforce
  have f: "jm_get (dv_files (begin_apply d)) p = Some (b, st)" using assms(1) by simp
  note drift = loop_drift [OF l f assms(2)]
  show ?thesis
  proof (cases r)
    case (Inl e)
    then show ?thesis using drift l by (simp add: applyActions_def)
  next
    case (Inr ps)
    obtain d2 x where a: "after_loop env actions local ps (end_loop d1) = (d2, x)" by fastforce
    have "jm_get (dv_files d2) p = Some (b, st)"
      using after_files [of p env actions local ps] a drift unfolding keeps_file_def by (metis fst_conv settle_registry(2))
    then show ?thesis using drift l a by (cases x) (auto simp: applyActions_def Inr)
  qed
qed

definition sample_apply :: apply_env where
  "sample_apply = \<lparr> ae_logger = sample_env, ae_fails = (\<lambda>_. None), ae_mtime = (\<lambda>n. n), ae_now = 0,
     ae_onDeleteConflict = (\<lambda>_. None), ae_onBinaryConflict = (\<lambda>_. None) \<rparr>"

definition sample_device :: device where
  "sample_device = \<lparr> dv_logger = sample_logger, dv_files = [(''a.md'', [1, 2, 3], \<lparr> fs_mtime = 9, fs_size = 3 \<rparr>)], dv_calls = 0,
     dv_listening = True, dv_asked = [] \<rparr>"

text \<open>The snapshot saw two bytes where three are now.\<close>

definition sample_snapshot :: VaultState where
  "sample_snapshot = \<lparr> vs_deviceId = ''d'', vs_hlc = HLC 0 0 ''d'',
     vs_fileEntries = [(''f'', \<lparr> fe_id = ''f'', fe_path = ''a.md'', fe_contentHash = content_hash sample_env [1, 2], fe_hlc = HLC 0 0 ''d'',
       fe_deleted = False, fe_lastSyncedPath = Some ''a.md'', fe_headVersionId = Some ''v'', fe_conflictParents = None,
       fe_mtime = None, fe_size = None \<rparr>)],
     vs_pendingOps = [], vs_contentStore = [] \<rparr>"

definition sample_actions :: "MergeAction list" where
  "sample_actions = [WriteLocal ''f'' ''a.md'' [7] (HLC 5 0 ''e'') (Some ''w''), DeleteLocal ''f'' ''a.md'', NoOp ''x'']"

lemma sample_held: "\<forall>a \<in> set sample_actions. held_back sample_apply sample_snapshot ''a.md'' [1, 2, 3] a"
  by (simp add: sample_actions_def held_back_def sample_snapshot_def current_path_def drifted_def sample_apply_def sample_env_def
      content_hash_def hashContent_def length_sha_def to_hex_def) code_simp

theorem drifted_edit_survives_witness:
  "jm_get (dv_files (fst (applyActions sample_apply sample_actions sample_snapshot sample_device))) ''a.md'' =
      Some ([1, 2, 3], \<lparr> fs_mtime = 9, fs_size = 3 \<rparr>) \<and>
    (case snd (applyActions sample_apply sample_actions sample_snapshot sample_device) of
       Inl e \<Rightarrow> True
     | Inr (deferred, conflicts, failures) \<Rightarrow>
         ma_fileId ` {a \<in> set sample_actions. ''a.md'' \<in> touches sample_snapshot a} \<subseteq> set deferred)"
  by (rule drifted_edit_survives [OF _ sample_held]) (simp add: sample_device_def)

end
