(* ===== verification/ApplicatorLaws.thy ===== *)
theory ApplicatorLaws
  imports ApplicatorThms
begin

text \<open>
  The applicator keeps the invariant of the logger.  While actions run, the blobs are buffered and
  the pending operations are those of the round, so the loop has an invariant of its own; each step
  is given by what it needs and what it leaves in the content store.  \<open>attempts\<close> is the run without
  a limit and without bookkeeping that the isolation of failures is measured against.
\<close>

section \<open>Steps with an account of the store\<close>

definition loop_ok :: "logger_env \<Rightarrow> string set \<Rightarrow> oplogger \<Rightarrow> bool" where
  "loop_ok env ids s =
     (parts_ok env s \<and> log_synced (lg_log s) \<and> ids \<inter> le_uuid env ` {lg_ids s..} = {})"

definition holds :: "logger_env \<Rightarrow> string set \<Rightarrow> device \<Rightarrow> bool" where
  "holds env H d = (\<forall>h \<in> H. held (le_sha env) (lg_store (dv_logger d)) h)"

text \<open>From a sound device that holds \<open>H\<close>, the step leads to a sound one that holds as much, and \<open>Q x\<close> for its result \<open>x\<close>.\<close>

definition ok_act :: "logger_env \<Rightarrow> string set \<Rightarrow> string set \<Rightarrow> (device, 'a) act \<Rightarrow> ('a \<Rightarrow> string set) \<Rightarrow> bool" where
  "ok_act env ids H m Q =
     (\<forall>d d' r. loop_ok env ids (dv_logger d) \<longrightarrow> holds env H d \<longrightarrow> m d = (d', r) \<longrightarrow>
        loop_ok env ids (dv_logger d') \<and> (\<forall>G. holds env G d \<longrightarrow> holds env G d') \<and> (\<forall>x. r = Inr x \<longrightarrow> holds env (Q x) d'))"

lemma ok_actI:
  assumes "\<And>d d' r. loop_ok env ids (dv_logger d) \<Longrightarrow> holds env H d \<Longrightarrow> m d = (d', r) \<Longrightarrow>
     loop_ok env ids (dv_logger d') \<and> (\<forall>G. holds env G d \<longrightarrow> holds env G d') \<and> (\<forall>x. r = Inr x \<longrightarrow> holds env (Q x) d')"
  shows "ok_act env ids H m Q"
  using assms unfolding ok_act_def by blast

lemma ok_bind:
  assumes "ok_act env ids H m Q" and "\<And>x. ok_act env ids (Q x) (k x) R"
  shows "ok_act env ids H (bindE m k) R"
proof (rule ok_actI)
  fix d d' r assume d: "loop_ok env ids (dv_logger d)" "holds env H d" and r: "bindE m k d = (d', r)"
  from r show "loop_ok env ids (dv_logger d') \<and> (\<forall>G. holds env G d \<longrightarrow> holds env G d') \<and> (\<forall>x. r = Inr x \<longrightarrow> holds env (R x) d')"
  proof (cases rule: bindE_cases)
    case (err e)
    then show ?thesis using assms(1) d unfolding ok_act_def by blast
  next
    case (ok s1 x)
    then have "loop_ok env ids (dv_logger s1)" "holds env (Q x) s1" "\<forall>G. holds env G d \<longrightarrow> holds env G s1"
      using assms(1) d unfolding ok_act_def by blast+
    then show ?thesis using assms(2) [of x] ok(2) unfolding ok_act_def by blast
  qed
qed

lemma ok_ret: "(\<And>d. holds env H d \<Longrightarrow> holds env (Q x) d) \<Longrightarrow> ok_act env ids H (retE x) Q"
  by (rule ok_actI) auto

lemma ok_throw [simp]: "ok_act env ids H (throwE e) Q"
  by (rule ok_actI) auto

lemma ok_frame:
  assumes "ok_act env ids {} m (\<lambda>_. {})"
  shows "ok_act env ids H m (\<lambda>_. H)"
proof (rule ok_actI)
  fix d d' r assume d: "loop_ok env ids (dv_logger d)" "holds env H d" and m: "m d = (d', r)"
  then have "loop_ok env ids (dv_logger d')" "\<forall>G. holds env G d \<longrightarrow> holds env G d'"
    using assms by (simp_all add: ok_act_def holds_def)
  then show "loop_ok env ids (dv_logger d') \<and> (\<forall>G. holds env G d \<longrightarrow> holds env G d') \<and> (\<forall>x. r = Inr x \<longrightarrow> holds env H d')"
    using d(2) by blast
qed

lemma ok_quiet:
  assumes "\<And>d d' r. m d = (d', r) \<Longrightarrow> dv_logger d' = dv_logger d"
  shows "ok_act env ids {} m (\<lambda>_. {})"
  by (rule ok_actI) (auto simp: assms holds_def)

lemma ok_files [intro!]:
  "ok_act env ids H (files_read aenv p) (\<lambda>_. H)" "ok_act env ids H (files_write aenv p b) (\<lambda>_. H)"
  "ok_act env ids H (files_move aenv p q) (\<lambda>_. H)" "ok_act env ids H (files_trash aenv p) (\<lambda>_. H)"
  "ok_act env ids H (ask f a) (\<lambda>_. H)"
  by (rule ok_frame, rule ok_quiet,
      auto simp: files_read_def files_write_def files_move_def files_trash_def ask_def port_call_def Let_def
        split: option.splits prod.splits)+

lemma ok_drift [intro!]: "ok_act env ids H (driftedSinceSnapshot aenv i p local) (\<lambda>_. H)"
  unfolding driftedSinceSnapshot_def by (auto split: option.split intro!: ok_bind ok_ret)

lemma ok_stale [intro!]: "ok_act env ids H (trash_stale aenv p q) (\<lambda>_. H)"
  unfolding trash_stale_def by (auto intro!: ok_ret)

lemma ok_tick_clock: "ae_logger aenv = env \<Longrightarrow> ok_act env ids H (hlc_tick aenv) (\<lambda>_. H)"
proof (rule ok_frame, rule ok_actI)
  fix d d' r assume a: "ae_logger aenv = env" and d: "loop_ok env ids (dv_logger d)" and m: "hlc_tick aenv d = (d', r)"
  obtain h s where s: "lg_now env (dv_logger d) = (h, s)" by fastforce
  then have "parts_ok env s" using parts_now d unfolding loop_ok_def by (metis snd_conv)
  moreover have "log_synced (lg_log s)" "lg_ids s = lg_ids (dv_logger d)" "lg_store s = lg_store (dv_logger d)"
    using d s lg_now_simps [of env "dv_logger d"] by (simp_all add: loop_ok_def log_synced_def)
  ultimately show "loop_ok env ids (dv_logger d') \<and> (\<forall>G. holds env G d \<longrightarrow> holds env G d') \<and> (\<forall>x. r = Inr x \<longrightarrow> holds env {} d')"
    using m d s a by (auto simp: hlc_tick_def loop_ok_def holds_def)
qed

lemma ok_registry:
  assumes "\<And>r. reg_inv r \<Longrightarrow> reg_inv (f r)"
    and "\<And>r j. reg_inv r \<Longrightarrow> jm_get (rg_entries (f r)) j \<noteq> None \<Longrightarrow> j \<in> ids \<or> jm_get (rg_entries r) j \<noteq> None"
  shows "ok_act env ids H (with_registry f) (\<lambda>_. H)"
proof (rule ok_frame, rule ok_actI)
  fix d d' r assume d: "loop_ok env ids (dv_logger d)" and m: "with_registry f d = (d', r)"
  have r: "reg_inv (lg_registry (dv_logger d))" using d by (simp add: loop_ok_def parts_ok_def)
  have "ids_fresh env (lg_ids (dv_logger d)) (f (lg_registry (dv_logger d)))"
    using d assms(2) [OF r] unfolding ids_fresh_def loop_ok_def parts_ok_def by blast
  then show "loop_ok env ids (dv_logger d') \<and> (\<forall>G. holds env G d \<longrightarrow> holds env G d') \<and> (\<forall>x. r = Inr x \<longrightarrow> holds env {} d')"
    using m d assms(1) [OF r] by (auto simp: with_registry_def with_logger_def loop_ok_def parts_ok_def holds_def)
qed

lemma adopt_keys:
  "jm_get (rg_entries (adoptRemote st i p c h v r)) j \<noteq> None \<Longrightarrow> j = i \<or> jm_get (rg_entries r) j \<noteq> None"
  by (auto simp: adoptRemote_def Let_def split: option.splits if_splits)

lemma ok_adopt:
  "i \<in> ids \<Longrightarrow> ae_logger aenv = env \<Longrightarrow> ok_act env ids H (adopt aenv i p h t v) (\<lambda>_. H)"
  unfolding adopt_def using adopt_keys by (intro ok_registry adopt_inv) blast+

lemma ok_store:
  assumes "\<And>c. store_inv (le_sha env) c \<Longrightarrow> store_inv (le_sha env) (f c)"
    and "\<And>c h. store_inv (le_sha env) c \<Longrightarrow> held (le_sha env) c h \<Longrightarrow> held (le_sha env) (f c) h"
    and "\<And>c h. store_inv (le_sha env) c \<Longrightarrow> h \<in> G \<Longrightarrow> held (le_sha env) (f c) h"
  shows "ok_act env ids H (with_logger (on_store f)) (\<lambda>_. G \<union> H)"
proof (rule ok_actI)
  fix d d' r assume d: "loop_ok env ids (dv_logger d)" "holds env H d" and m: "with_logger (on_store f) d = (d', r)"
  have s: "store_inv (le_sha env) (lg_store (dv_logger d))" using d by (simp add: loop_ok_def parts_ok_def)
  have "parts_ok env (on_store f (dv_logger d))" using d assms(1) [OF s] by (simp add: loop_ok_def parts_ok_def)
  then show "loop_ok env ids (dv_logger d') \<and> (\<forall>G. holds env G d \<longrightarrow> holds env G d') \<and> (\<forall>x. r = Inr x \<longrightarrow> holds env (G \<union> H) d')"
    using m d assms(2,3) [OF s] by (auto simp: with_logger_def loop_ok_def holds_def)
qed

lemma ok_put: "env_ok env \<Longrightarrow> ok_act env ids H (put_content (content_hash env b) b) (\<lambda>_. insert (content_hash env b) H)"
  unfolding put_content_def
  using ok_store [of env "putBuffered (content_hash env b) b" "{content_hash env b}" ids H] store_buffered(1) held_buffered held_new
  by simp

lemma ok_put_missing: "env_ok env \<Longrightarrow> ok_act env ids H (put_missing (content_hash env b) b) (\<lambda>_. H)"
proof -
  assume e: "env_ok env"
  have "put_missing (content_hash env b) b =
    with_logger (on_store (\<lambda>c. if hasStored c (content_hash env b) then c else putBuffered (content_hash env b) b c))"
    by (rule ext) (auto simp: put_missing_def with_logger_def on_store_def)
  then show ?thesis
    using ok_store [of env "\<lambda>c. if hasStored c (content_hash env b) then c else putBuffered (content_hash env b) b c" "{}" ids H]
      store_buffered(1) [OF e] held_buffered by simp
qed

lemma ok_update:
  assumes "keeps_ids f"
  shows "ok_act env ids H (logger_call (on_registry f)) (\<lambda>_. H)"
proof (rule ok_frame, rule ok_actI)
  fix d d' r assume d: "loop_ok env ids (dv_logger d)" and m: "logger_call (on_registry f) d = (d', r)"
  then have "parts_ok env (dv_logger d)" by (simp add: loop_ok_def)
  from parts_registry [OF this assms] obtain g where
    "on_registry f (dv_logger d) = ((dv_logger d)\<lparr> lg_registry := g \<rparr>, None)" "parts_ok env ((dv_logger d)\<lparr> lg_registry := g \<rparr>)" .
  then show "loop_ok env ids (dv_logger d') \<and> (\<forall>G. holds env G d \<longrightarrow> holds env G d') \<and> (\<forall>x. r = Inr x \<longrightarrow> holds env {} d')"
    using m d by (auto simp: logger_call_def loop_ok_def holds_def)
qed

lemma keeps_conflicted: "keeps_ids (markConflicted st p c h ps)"
  unfolding markConflicted_def by (rule keeps_update_at) simp

section \<open>One action\<close>

text \<open>The blob that the operation of a resolution refers to.\<close>

definition resolution_needs :: "pending_resolution \<Rightarrow> string set" where
  "resolution_needs r = (if rs_deleted r then {} else {rs_contentHash r})"

fun result_needs :: "step_result \<Rightarrow> string set" where
  "result_needs (Resolved r) = resolution_needs r"
| "result_needs _ = {}"

lemma ok_guard:
  assumes "ok_act env ids {} m result_needs"
  shows "ok_act env ids {} (unless_drifted aenv i p local m) result_needs"
  unfolding unless_drifted_def using assms by (intro ok_bind [OF ok_drift]) (simp add: ok_ret holds_def)

lemma ok_mint:
  assumes "i \<in> ids" and "ae_logger aenv = env"
  shows "ok_act env ids {h} (mintMergeResolution aenv i p h t ps b) result_needs"
  unfolding mintMergeResolution_def Let_def using ok_adopt [OF assms]
  by (intro ok_bind [of _ _ _ _ "\<lambda>_. {h}"]) (auto intro!: ok_ret simp: holds_def resolution_needs_def)

lemma applyAction_ok:
  assumes "env_ok env" and "ae_logger aenv = env" and "ma_fileId a \<in> ids"
  shows "ok_act env ids {} (applyAction aenv local a) result_needs"
proof -
  note e = assms(1) and l = assms(2)
  note steps = ok_bind ok_guard ok_tick_clock [OF l] ok_update keeps_ops keeps_path keeps_conflicted ok_put [OF e] ok_put_missing [OF e]
  have plain: "ok_act env ids {} (retE Applied) result_needs" "ok_act env ids {} (retE DeferredConflict) result_needs"
    by (auto intro!: ok_ret simp: holds_def)
  show ?thesis
  proof (cases a)
    case (WriteLocal f p c h v)
    then show ?thesis unfolding applyAction_def write_local_def Let_def l using assms(3)
      by (auto simp: l intro!: steps ok_adopt plain ok_ret)
  next
    case (WriteMerge f p c ps)
    have "ok_act env ids {content_hash env c} (retE (Resolved \<lparr> rs_fileId = f, rs_path = p, rs_contentHash = content_hash env c,
        rs_hlc = t, rs_parents = ps, rs_id = v, rs_deleted = False \<rparr>)) result_needs" for t v
      by (rule ok_ret) (simp add: resolution_needs_def)
    then show ?thesis unfolding WriteMerge applyAction_def write_merge_def Let_def l MergeAction.case using assms(3) WriteMerge
      by (intro ok_guard ok_bind [OF ok_tick_clock [OF l]] ok_bind [OF ok_files(2)] ok_bind [OF ok_put [OF e]]
          ok_bind [OF ok_adopt [OF _ l]] ok_bind [OF ok_stale]) simp_all
  next
    case (DeleteConflict f p s c ps)
    have "ok_act env ids {} (settle_delete_conflict aenv x f p c ps) result_needs" for x
    proof (cases "x = KeepModified")
      case True
      then show ?thesis unfolding settle_delete_conflict_def Let_def l using assms(3) DeleteConflict
        by (simp, intro ok_bind [OF ok_tick_clock [OF l]] ok_bind [OF ok_files(2)] ok_bind [OF ok_put [OF e]] ok_mint [OF _ l]) simp_all
    next
      case False
      have "ok_act env ids {} (mintMergeResolution aenv f p h t ps True) result_needs" for h t
        unfolding mintMergeResolution_def Let_def by (auto intro!: ok_bind ok_ret simp: holds_def resolution_needs_def)
      then show ?thesis unfolding settle_delete_conflict_def Let_def l using False
        by (simp, intro ok_bind [OF ok_tick_clock [OF l]] ok_bind [OF ok_files(4)] ok_bind [OF ok_update] keeps_ops) simp_all
    qed
    then show ?thesis using DeleteConflict plain by (auto simp: applyAction_def intro!: ok_bind [OF ok_files(5)] split: option.split)
  next
    case (BinaryConflict f p q c c' h h' ps)
    have "ok_act env ids {} (settle_binary_conflict aenv f x y ps) result_needs" for x y
      unfolding settle_binary_conflict_def Let_def l using assms(3) BinaryConflict
      by (intro ok_bind [OF ok_tick_clock [OF l]] ok_bind [OF ok_files(2)] ok_bind [OF ok_put [OF e]] ok_mint [OF _ l]) simp_all
    then show ?thesis using BinaryConflict plain
      by (auto simp: applyAction_def Let_def intro!: ok_bind [OF ok_files(5)] split: option.split)
  next
    case (Conflict f p q mr lt rt ps)
    show ?thesis unfolding Conflict applyAction_def write_markers_def Let_def l MergeAction.case
      by (intro ok_guard ok_bind [OF ok_files(2)] ok_bind [OF ok_put [OF e]] ok_bind [OF ok_tick_clock [OF l]]
          ok_bind [OF ok_update] keeps_conflicted) (auto intro!: ok_ret simp: holds_def)
  next
    case (MoveLocal f p q)
    show ?thesis unfolding MoveLocal applyAction_def move_local_def l MergeAction.case
      by (intro ok_guard ok_bind [OF ok_files(3)] ok_bind [OF ok_tick_clock [OF l]] ok_bind [OF ok_update] keeps_path plain)
  next
    case (DeleteLocal f p)
    show ?thesis unfolding DeleteLocal applyAction_def delete_local_def l MergeAction.case
      by (intro ok_guard ok_bind [OF ok_files(4)] ok_bind [OF ok_tick_clock [OF l]] ok_bind [OF ok_update] keeps_ops plain)
  qed (simp_all add: applyAction_def plain)
qed

section \<open>The loop\<close>

definition pass_needs :: "apply_pass \<Rightarrow> string set" where
  "pass_needs p = \<Union> (resolution_needs ` set (ap_resolutions p))"

lemma needs_defer [simp]: "ap_resolutions (defer_file i p) = ap_resolutions p"
  by (simp add: defer_file_def)

lemma needs_note [simp]: "pass_needs (note_result a r p) = pass_needs p \<union> result_needs r"
  by (cases r) (auto simp: pass_needs_def)

lemma needs_failure [simp]: "pass_needs (note_failure local a e p) = pass_needs p"
  by (simp add: pass_needs_def note_failure_def Let_def)

lemma needs_since [simp]: "pass_needs (p\<lparr> ap_since := n \<rparr>) = pass_needs p"
  by (simp add: pass_needs_def)

lemma needs_new [simp]: "pass_needs new_apply = {}"
  by (simp add: pass_needs_def new_apply_def)

lemma isolated_ok:
  assumes "env_ok env" and "ae_logger aenv = env" and "ma_fileId a \<in> ids"
  shows "ok_act env ids (pass_needs p) (isolated aenv local a p) pass_needs"
proof (rule ok_actI)
  fix d d' r assume d: "loop_ok env ids (dv_logger d)" "holds env (pass_needs p) d" and m: "isolated aenv local a p d = (d', r)"
  obtain d1 x where x1: "applyAction aenv local a d = (d1, x)" by fastforce
  then have "d1 = d'" using m by (cases x) (simp_all add: isolated_def Let_def)
  with x1 have x: "applyAction aenv local a d = (d', x)" by simp
  have a: "loop_ok env ids (dv_logger d')" "\<forall>G. holds env G d \<longrightarrow> holds env G d'" "\<forall>y. x = Inr y \<longrightarrow> holds env (result_needs y) d'"
    using applyAction_ok [OF assms, of local, unfolded ok_act_def, rule_format, OF d(1) _ x] by (simp_all add: holds_def)
  then have "holds env (pass_needs p) d'" using d(2) by blast
  then show "loop_ok env ids (dv_logger d') \<and> (\<forall>G. holds env G d \<longrightarrow> holds env G d') \<and> (\<forall>y. r = Inr y \<longrightarrow> holds env (pass_needs y) d')"
    using a m x by (cases x) (auto simp: isolated_def Let_def holds_def split: if_splits)
qed

lemma apply_tick_ok:
  assumes "env_ok env"
  shows "ok_act env ids (pass_needs p) (apply_tick p) pass_needs"
proof (rule ok_actI)
  fix d d' r assume d: "loop_ok env ids (dv_logger d)" "holds env (pass_needs p) d" and m: "apply_tick p d = (d', r)"
  let ?s = "dv_logger d"
  have c: "store_inv (le_sha env) (lg_store ?s)" using d by (simp add: loop_ok_def parts_ok_def)
  note flush = store_flush [OF assms c]
  consider (same) n where "d' = d" "r = Inr (p\<lparr> ap_since := n \<rparr>)"
    | (flushed) "d' = d\<lparr> dv_logger := on_store clearMemCache (on_store flushPack ?s) \<rparr>" "r = Inr (p\<lparr> ap_since := 0 \<rparr>)"
    using m by (cases "ap_since p + 1 < PACK_CHECKPOINT_EVERY") (auto simp: apply_tick_def pc_tick_def pc_flush_def)
  then show "loop_ok env ids (dv_logger d') \<and> (\<forall>G. holds env G d \<longrightarrow> holds env G d') \<and> (\<forall>y. r = Inr y \<longrightarrow> holds env (pass_needs y) d')"
  proof cases
    case same
    then show ?thesis using d by simp
  next
    case flushed
    have "held (le_sha env) (lg_store (dv_logger d')) h" if "held (le_sha env) (lg_store ?s) h" for h
      using held_flush [OF c that] flushed by (simp add: held_def)
    moreover have "loop_ok env ids (dv_logger d')"
      using d(1) store_clear [OF assms flush] flushed by (simp add: loop_ok_def parts_ok_def)
    ultimately show ?thesis using d(2) flushed by (simp add: holds_def)
  qed
qed

lemma apply_loop_ok:
  assumes "env_ok env" and "ae_logger aenv = env"
  shows "ma_fileId ` set as \<subseteq> ids \<Longrightarrow> ok_act env ids (pass_needs p) (apply_loop aenv local as p) pass_needs"
proof (induction as arbitrary: p)
  case Nil
  show ?case unfolding apply_loop_def iterE.simps by (rule ok_ret)
next
  case (Cons a as)
  have "ma_fileId a \<in> ids" using Cons.prems by simp
  from ok_bind [OF isolated_ok [OF assms this] apply_tick_ok [OF assms(1)]]
  have "ok_act env ids (pass_needs p) (bindE (isolated aenv local a p) apply_tick) pass_needs" .
  moreover have "ok_act env ids (pass_needs q) (apply_loop aenv local as q) pass_needs" for q
    using Cons by simp
  ultimately show ?case unfolding apply_loop_def iterE.simps by (rule ok_bind)
qed

section \<open>The whole apply keeps the invariant\<close>

lemma begin_ok:
  assumes "lg_inv env (dv_logger d)" and "ids \<inter> le_uuid env ` {lg_ids (dv_logger d)..} = {}"
  shows "loop_ok env ids (dv_logger (begin_apply d))"
  using assms suspend_inv(1) [of "lg_registry (dv_logger d)"]
  by (auto simp: begin_apply_def Let_def stopListening_def loop_ok_def lg_inv_def parts_ok_def ids_fresh_def suspendSaves_def)

lemma end_loop_ok:
  assumes "env_ok env" and "loop_ok env ids (dv_logger d)" and "holds env H d"
  shows "lg_inv env (dv_logger (end_loop d))" and "getPendingOps (dv_logger (end_loop d)) = []"
    and "\<forall>h \<in> H. readable (le_sha env) (lg_store (dv_logger (end_loop d))) h"
proof -
  let ?s = "on_store flushPack (dv_logger d)"
  have e: "dv_logger (end_loop d) = clearOps ?s" by (simp add: end_loop_def pc_flush_def)
  have c: "store_inv (le_sha env) (lg_store (dv_logger d))" using assms(2) by (simp add: loop_ok_def parts_ok_def)
  show "lg_inv env (dv_logger (end_loop d))"
    using assms(2) store_flush [OF assms(1) c] rewrite_synced [of "drop_all (lg_log ?s)"]
    by (simp add: e clearOps_def lg_inv_def loop_ok_def parts_ok_def blobs_readable_def drop_all_def)
  show "getPendingOps (dv_logger (end_loop d)) = []"
    using rewrite_synced(2) [of "drop_all (lg_log ?s)"] by (simp add: e clearOps_def getPendingOps_def drop_all_def)
  show "\<forall>h \<in> H. readable (le_sha env) (lg_store (dv_logger (end_loop d))) h"
    using assms(3) held_flush [OF c] by (simp add: e clearOps_def holds_def)
qed

lemma inv_reg:
  assumes "lg_inv env s" and "\<And>r. reg_inv r \<Longrightarrow> reg_inv (f r)"
    and "\<And>r j. reg_inv r \<Longrightarrow> jm_get (rg_entries (f r)) j \<noteq> None \<Longrightarrow> jm_get (rg_entries r) j \<noteq> None"
  shows "lg_inv env (s\<lparr> lg_registry := f (lg_registry s) \<rparr>)"
proof -
  have r: "reg_inv (lg_registry s)" using assms(1) by (simp add: lg_inv_def parts_ok_def)
  have "ids_fresh env (lg_ids s) (f (lg_registry s))"
    using assms(1) assms(3) [OF r] unfolding lg_inv_def parts_ok_def ids_fresh_def by metis
  then show ?thesis using assms(1) assms(2) [OF r] by (simp add: lg_inv_def parts_ok_def)
qed

lemma synced_keys: "jm_get (rg_entries (setSyncedPath st i r)) j \<noteq> None \<Longrightarrow> jm_get (rg_entries r) j \<noteq> None"
  by (auto simp: setSyncedPath_def update_id_def split: option.splits if_splits)

lemma synced_inv: "reg_inv r \<Longrightarrow> reg_inv (setSyncedPath st i r)"
  unfolding setSyncedPath_def by (rule update_id_inv) simp_all

lemma synced_fold:
  "reg_inv r \<Longrightarrow> reg_inv (fold (\<lambda>a. setSyncedPath st (g a)) as r) \<and>
     (\<forall>j. jm_get (rg_entries (fold (\<lambda>a. setSyncedPath st (g a)) as r)) j \<noteq> None \<longrightarrow> jm_get (rg_entries r) j \<noteq> None)"
proof (induction as arbitrary: r)
  case (Cons a as)
  from Cons.IH [OF synced_inv [OF Cons.prems]] show ?case using synced_keys by fastforce
qed simp

lemma resolution_inv:
  assumes "lg_inv env s" and "ae_logger aenv = env" and "\<forall>h \<in> resolution_needs x. readable (le_sha env) (lg_store s) h"
  shows "lg_inv env (record_resolution aenv x s) \<and> lg_store (record_resolution aenv x s) = lg_store s"
proof -
  have *: "lg_inv env (lg_setHead env i v (recordOp p s))"
    if "needs_blob p \<longrightarrow> readable (le_sha env) (lg_store s) (op_contentHash p)" for p i v
    by (rule inv_head [OF inv_record [OF assms(1)]]) (use that in simp)
  have "\<not> needs_blob (ops_mergeDelete i q h t ps v)" for i q h t ps v
    by (simp add: needs_blob_def ops_mergeDelete_def)
  then show ?thesis using assms(2,3)
    by (cases "rs_deleted x"; intro conjI)
      (simp_all add: record_resolution_def recordMergeOp_def recordMergeDelete_def ops_merge_def * resolution_needs_def)
qed

lemma resolutions_inv:
  "lg_inv env s \<Longrightarrow> ae_logger aenv = env \<Longrightarrow> \<forall>h \<in> \<Union> (resolution_needs ` set xs). readable (le_sha env) (lg_store s) h \<Longrightarrow>
     lg_inv env (fold (record_resolution aenv) xs s)"
proof (induction xs arbitrary: s)
  case (Cons x xs)
  have x: "lg_inv env (record_resolution aenv x s)" "lg_store (record_resolution aenv x s) = lg_store s"
    using resolution_inv [OF Cons.prems(1,2), of x] Cons.prems(3) by simp_all
  show ?case using Cons.IH [OF x(1) Cons.prems(2)] x(2) Cons.prems(3) by simp
qed simp

lemma recapture_inv:
  assumes "env_ok env" and "ae_logger aenv = env" and "lg_inv env (dv_logger d)"
  shows "\<exists>d'. recapture aenv local i u d = (d', Inr ()) \<and> lg_inv env (dv_logger d')"
proof (cases "jm_get (vs_fileEntries local) i")
  case (Some e)
  have "good env (flushModify env (device_files d) (fe_path e) (dv_logger d))" by (rule good_modify [OF assms(1,3)])
  then obtain s where "flushModify env (device_files d) (fe_path e) (dv_logger d) = (s, None)" "lg_inv env s"
    by (cases "flushModify env (device_files d) (fe_path e) (dv_logger d)") (auto simp: good_def)
  then show ?thesis using Some assms(2) by (simp add: recapture_def logger_call_def recaptureLocalEdit_def)
qed (use assms in \<open>simp add: recapture_def\<close>)

lemma recaptures_inv:
  assumes "env_ok env" and "ae_logger aenv = env"
  shows "lg_inv env (dv_logger d) \<Longrightarrow> \<exists>d'. iterE (recapture aenv local) is u d = (d', Inr ()) \<and> lg_inv env (dv_logger d')"
proof (induction "is" arbitrary: d u)
  case (Cons i "is")
  from recapture_inv [OF assms Cons.prems] obtain d1 where "recapture aenv local i u d = (d1, Inr ())" "lg_inv env (dv_logger d1)"
    by blast
  then show ?case using Cons.IH [of d1 "()"] by (simp add: bindE_def)
qed simp

lemma end_apply_inv:
  assumes "lg_inv env (dv_logger d)" and "ae_logger aenv = env"
  shows "lg_inv env (dv_logger (end_apply aenv d)) \<and> getPendingOps (dv_logger (end_apply aenv d)) = getPendingOps (dv_logger d)"
proof -
  let ?f = "\<lambda>pins r. reg_compact (le_settings env) (Some (ae_now aenv, pins)) (resumeSaves (reg_flush (le_settings env) r))"
  have inv: "reg_inv (resumeSaves (reg_flush (le_settings env) r))" if "reg_inv r" for r
    using flush_inv [OF that] by (simp add: suspend_inv)
  have keys: "jm_get (rg_entries (?f pins r)) j \<noteq> None \<Longrightarrow> jm_get (rg_entries r) j \<noteq> None" if r: "reg_inv r" for pins r j
  proof -
    obtain q n where q: "reclaimTombstones (le_settings env) (ae_now aenv, pins) (resumeSaves (reg_flush (le_settings env) r)) = (q, n)"
      by fastforce
    have "rg_entries (resumeSaves (reg_flush (le_settings env) r)) = rg_entries r"
      using r flush_view(2) [of "{}" r "le_settings env"] by (simp add: reg_inv_def resumeSaves_def)
    then show "jm_get (rg_entries (?f pins r)) j \<noteq> None \<Longrightarrow> jm_get (rg_entries r) j \<noteq> None"
      using reclaimTombstones_spec(1) [OF inv [OF r] q, of j] q by (auto simp: reg_compact_def split: option.splits if_splits)
  qed
  note pins = inv_reg [OF assms(1), of "?f (js_set_of (map op_fileId (getPendingOps (dv_logger d))))"]
  show ?thesis using pins [OF compact_inv [OF inv] keys] assms(2) by (simp add: end_apply_def Let_def getPendingOps_def)
qed

text \<open>An apply keeps the invariant, also when it throws, and it throws only after too many failures.\<close>

lemma apply_good:
  assumes "env_ok env" and "ae_logger aenv = env" and "lg_inv env (dv_logger d)"
    and "ma_fileId ` set actions \<inter> le_uuid env ` {lg_ids (dv_logger d)..} = {}"
  shows "\<exists>d' r. applyActions aenv actions local d = (d', r) \<and> lg_inv env (dv_logger d') \<and>
    (case r of Inl e \<Rightarrow> length actions > MAX_ACTION_FAILURES | Inr x \<Rightarrow>
       (\<exists>p. pass_inv actions p \<and> x = (ap_deferred p, ap_deferredConflicts p, ap_failures p))) \<and>
    (\<forall>d1 p. apply_loop aenv local actions new_apply (begin_apply d) = (d1, Inr p) \<longrightarrow>
       r = Inr (ap_deferred p, ap_deferredConflicts p, ap_failures p))"
proof -
  obtain d1 r where l: "apply_loop aenv local actions new_apply (begin_apply d) = (d1, r)" by fastforce
  have b: "loop_ok env (ma_fileId ` set actions) (dv_logger (begin_apply d))" by (rule begin_ok [OF assms(3,4)])
  have "holds env (pass_needs new_apply) (begin_apply d)" by (simp add: holds_def)
  then have d1: "loop_ok env (ma_fileId ` set actions) (dv_logger d1)" "\<forall>p. r = Inr p \<longrightarrow> holds env (pass_needs p) d1"
    using apply_loop_ok [OF assms(1,2) order_refl, of actions new_apply local] b l unfolding ok_act_def by blast+
  have ended: "lg_inv env (dv_logger (end_apply aenv d2))" if "lg_inv env (dv_logger d2)" for d2
    using end_apply_inv [OF that assms(2)] by blast
  note pass = loop_inv [OF l start_inv]
  show ?thesis
  proof (cases r)
    case (Inl e)
    have "lg_inv env (dv_logger (end_loop d1))" using end_loop_ok(1) [OF assms(1) d1(1), of "{}"] by (simp add: holds_def)
    then show ?thesis using l Inl pass ended by (simp add: applyActions_def)
  next
    case (Inr p)
    note e = end_loop_ok [OF assms(1) d1(1), of "pass_needs p"]
    have h: "holds env (pass_needs p) d1" using d1(2) Inr by blast
    let ?upd = "fold (\<lambda>a. setSyncedPath (le_settings env) (ma_fileId a)) (filter (synced_action local (ap_deferred p)) actions)"
    let ?s = "(dv_logger (end_loop d1))\<lparr> lg_registry := ?upd (lg_registry (dv_logger (end_loop d1))) \<rparr>"
    have s: "lg_inv env ?s" using synced_fold by (intro inv_reg [OF e(1) [OF h]]) blast+
    let ?t = "fold (record_resolution aenv) (ap_resolutions p) ?s"
    have t: "lg_inv env ?t" using e(3) [OF h] by (intro resolutions_inv [OF s assms(2)]) (simp add: pass_needs_def)
    then obtain d3 where d3: "iterE (recapture aenv local) (ap_deferred p) () ((end_loop d1)\<lparr> dv_logger := ?t \<rparr>) = (d3, Inr ())"
      "lg_inv env (dv_logger d3)" using recaptures_inv [OF assms(1,2), of "(end_loop d1)\<lparr> dv_logger := ?t \<rparr>"] by auto
    have "after_loop aenv actions local p (end_loop d1) = (d3, Inr ())"
      using d3(1) assms(2) by (simp add: after_loop_def updateSyncedPaths_def with_registry_def with_logger_def bindE_def)
    then show ?thesis using l Inr pass ended [OF d3(2)] by (auto simp: applyActions_def)
  qed
qed

section \<open>Properties\<close>

text \<open>What a sound device gives after a restart.\<close>

lemma sound_device:
  assumes "lg_inv env s"
  shows "lg_inv env s \<and>
    md_read (ol_metadata (lg_log s)) OPLOG_PATH \<in> {Some (ops_text (getPendingOps s))} \<union> (if getPendingOps s = [] then {None} else {}) \<and>
    {op_contentHash p | p. p \<in> set (getPendingOps s) \<and> op_type p \<in> {OpCreate, OpUpdate}} \<subseteq>
      {k. \<exists>b. snd (cs_get (le_sha env) k (cs_init budget (cs_metadata (lg_store s)))) = Inr (Some b) \<and> hashContent (le_sha env) b = k}"
proof -
  have "store_inv (le_sha env) (lg_store s)" using assms by (simp add: lg_inv_def parts_ok_def)
  note blob = blob_after_restart [OF this, of _ budget]
  have "{op_contentHash p | p. p \<in> set (getPendingOps s) \<and> op_type p \<in> {OpCreate, OpUpdate}} \<subseteq> {k. readable (le_sha env) (lg_store s) k}"
    using assms by (auto simp: lg_inv_def blobs_readable_def needs_blob_def getPendingOps_def)
  moreover have "md_read (ol_metadata (lg_log s)) OPLOG_PATH \<in>
      {Some (ops_text (getPendingOps s))} \<union> (if getPendingOps s = [] then {None} else {})"
    using assms by (auto simp: lg_inv_def log_synced_def log_ops_def getPendingOps_def)
  ultimately show ?thesis using assms blob by blast
qed

text \<open>
  The reference for the loop: every action of the list is attempted, in order, each on the device
  that the one before it left, whatever became of that one; \<open>attempts\<close> lists what each came to.  It
  knows no limit and keeps no record of failures.
\<close>

fun attempts ::
  "apply_env \<Rightarrow> VaultState \<Rightarrow> MergeAction list \<Rightarrow> nat \<Rightarrow> device \<Rightarrow> (MergeAction \<times> (sync_error + step_result)) list \<times> device" where
  "attempts env local [] n d = ([], d)"
| "attempts env local (a # as) n d =
     (case applyAction env local a d of
        (d1, r) \<Rightarrow>
          (case pc_tick (on_store flushPack) (\<lambda>s. s) (on_store clearMemCache) PACK_CHECKPOINT_EVERY (n, dv_logger d1) of
             (n1, s) \<Rightarrow> (case attempts env local as n1 (d1\<lparr> dv_logger := s \<rparr>) of (rs, d2) \<Rightarrow> ((a, r) # rs, d2))))"

definition failed_actions :: "(MergeAction \<times> (sync_error + step_result)) list \<Rightarrow> (MergeAction \<times> string) list" where
  "failed_actions rs = List.map_filter (\<lambda>(a, r). case r of Inl e \<Rightarrow> Some (a, error_message e) | Inr _ \<Rightarrow> None) rs"

definition kept_back :: "(MergeAction \<times> (sync_error + step_result)) list \<Rightarrow> string set" where
  "kept_back rs = {ma_fileId a |a r. (a, r) \<in> set rs \<and> r \<notin> {Inr Applied} \<union> range (\<lambda>x. Inr (Resolved x))}"

lemma attempts_actions: "map fst (fst (attempts env local as n d)) = as"
proof (induction as arbitrary: n d)
  case (Cons a as)
  show ?case using Cons.IH by (simp split: prod.split) (metis fst_conv)
qed simp

lemma failed_Cons:
  "failed_actions ((a, Inl e) # rs) = (a, error_message e) # failed_actions rs"
  "failed_actions ((a, Inr x) # rs) = failed_actions rs" "failed_actions [] = []"
  by (simp_all add: failed_actions_def map_filter_simps)

lemma kept_Cons:
  "kept_back ((a, r) # rs) = (case r of Inr Applied \<Rightarrow> {} | Inr (Resolved x) \<Rightarrow> {} | _ \<Rightarrow> {ma_fileId a}) \<union> kept_back rs"
  "kept_back [] = {}"
  by (auto simp: kept_back_def split: sum.split step_result.split)

definition asked_back :: "(MergeAction \<times> (sync_error + step_result)) list \<Rightarrow> string set" where
  "asked_back rs = {ma_fileId a |a. (a, Inr DeferredConflict) \<in> set rs}"

lemma asked_Cons: "asked_back ((a, r) # rs) = (if r = Inr DeferredConflict then {ma_fileId a} else {}) \<union> asked_back rs" "asked_back [] = {}"
  by (auto simp: asked_back_def)

definition failure_of :: "apply_failure \<Rightarrow> MergeAction \<times> string" where
  "failure_of f = (af_action f, af_message f)"

text \<open>The loop does what the reference does, up to the limit.\<close>

lemma loop_attempts:
  assumes "attempts env local as (ap_since p) d = (rs, d2)" and "apply_loop env local as p d = (d', r)"
    and "length (ap_failures p) \<le> MAX_ACTION_FAILURES"
  shows "case r of
      Inl e \<Rightarrow> MAX_ACTION_FAILURES < length (ap_failures p) + length (failed_actions rs)
    | Inr q \<Rightarrow>
        length (ap_failures p) + length (failed_actions rs) \<le> MAX_ACTION_FAILURES \<and> d' = d2 \<and>
        map failure_of (ap_failures q) = map failure_of (ap_failures p) @ failed_actions rs \<and>
        set (ap_deferred q) = set (ap_deferred p) \<union> kept_back rs \<and>
        set (ap_deferredConflicts q) = set (ap_deferredConflicts p) \<union> asked_back rs"
  using assms
proof (induction as arbitrary: p d rs)
  case Nil
  then show ?case by (auto simp: apply_loop_def failed_Cons kept_Cons asked_Cons)
next
  case (Cons a as)
  obtain d1 x where act: "applyAction env local a d = (d1, x)" by fastforce
  obtain n1 s where tick: "pc_tick (on_store flushPack) (\<lambda>s. s) (on_store clearMemCache) PACK_CHECKPOINT_EVERY (ap_since p, dv_logger d1) = (n1, s)"
    by fastforce
  let ?d1 = "d1\<lparr> dv_logger := s \<rparr>"
  obtain rs1 where rs: "attempts env local as n1 ?d1 = (rs1, d2)" "rs = (a, x) # rs1"
    using Cons.prems(1) act tick by (auto split: prod.splits)
  let ?p = "case x of Inl e \<Rightarrow> note_failure local a e p | Inr y \<Rightarrow> note_result a y p"
  have since: "ap_since ?p = ap_since p"
    by (cases x; cases "projr x"; simp add: note_failure_def defer_file_def Let_def)
  have noted: "set (ap_deferred ?p) \<union> K = set (ap_deferred p) \<union> (kept_back [(a, x)] \<union> K)"
    "set (ap_deferredConflicts ?p) \<union> K = set (ap_deferredConflicts p) \<union> (asked_back [(a, x)] \<union> K)"
    "map failure_of (ap_failures ?p) = map failure_of (ap_failures p) @ failed_actions [(a, x)]" for K
    by (cases x; cases "projr x"; auto simp: note_failure_def defer_file_def Let_def kept_Cons asked_Cons failed_Cons failure_of_def)+
  have len: "length (ap_failures ?p) = length (ap_failures p) + length (failed_actions [(a, x)])"
    using arg_cong [OF noted(3), of length] by simp
  have split: "failed_actions rs = failed_actions [(a, x)] @ failed_actions rs1" "kept_back rs = kept_back [(a, x)] \<union> kept_back rs1"
    "asked_back rs = asked_back [(a, x)] \<union> asked_back rs1"
    unfolding rs(2) by (cases x; simp add: failed_Cons kept_Cons asked_Cons split: step_result.split)+
  show ?case
  proof (cases "MAX_ACTION_FAILURES < length (ap_failures ?p)")
    case True
    then have l: "length (failed_actions [(a, x)]) \<noteq> 0" using len Cons.prems(3) by linarith
    then obtain e where x: "x = Inl e" by (cases x) (simp_all add: failed_Cons)
    have "isolated env local a p d = (d1, Inl e)" using act x True by (simp add: isolated_def Let_def)
    then have "r = Inl e" using Cons.prems(2) by (simp add: apply_loop_def bindE_def)
    moreover have "length (failed_actions [(a, x)]) \<le> length (failed_actions rs)" unfolding split(1) by simp
    ultimately show ?thesis using True len by simp
  next
    case False
    then have "isolated env local a p d = (d1, Inr ?p)" using act by (cases x) (simp_all add: isolated_def Let_def)
    moreover have "apply_tick ?p d1 = (?d1, Inr (?p\<lparr> ap_since := n1 \<rparr>))" using tick since by (simp add: apply_tick_def)
    ultimately have "apply_loop env local as (?p\<lparr> ap_since := n1 \<rparr>) ?d1 = (d', r)"
      using Cons.prems(2) by (simp add: apply_loop_def bindE_def)
    from Cons.IH [OF _ this, of rs1] rs(1) False show ?thesis
      unfolding split using len noted by (cases r) simp_all
  qed
qed

lemma iter_keeps:
  assumes "\<And>x a d. dv_files (fst (f x a d)) = dv_files d"
  shows "dv_files (fst (iterE f xs a d)) = dv_files d"
proof (induction xs arbitrary: a d)
  case (Cons x xs)
  then show ?case using assms [of x a d] by (cases "f x a d") (auto simp: bindE_def split: sum.split)
qed simp

lemma end_files [simp]: "dv_files (end_loop d) = dv_files d" "dv_files (end_apply env d) = dv_files d"
  by (simp_all add: end_loop_def end_apply_def Let_def)

lemma after_keeps_files: "dv_files (fst (after_loop env as local p d)) = dv_files d"
proof -
  have "dv_files (fst (recapture env local i u d)) = dv_files d" for i u d
    by (auto simp: recapture_def logger_call_def split: option.split prod.split)
  note keeps = iter_keeps [of "recapture env local", OF this]
  show ?thesis
    unfolding after_loop_def by (simp add: updateSyncedPaths_def with_registry_def with_logger_def bindE_def keeps)
qed


lemma sample_device_ok:
  "lg_inv (ae_logger sample_apply) (dv_logger sample_device)"
  "ma_fileId ` set sample_actions \<inter> le_uuid (ae_logger sample_apply) ` {lg_ids (dv_logger sample_device)..} = {}"
  using logger_reachable [OF sample_logger_reach sample_env_ok]
  by (auto simp: sample_apply_def sample_device_def sample_actions_def sample_env_def)


end
