(* ===== verification/SyncHost.thy ===== *)
theory SyncHost
  imports Applicator SyncProps DagStore
begin

text \<open>
  The local side of a round (\<open>src/network/vault-sync-host.ts\<close>): the identity snapshot with its
  stat gate, the staging of bytes, the edges recorded in the version graph, and the cursor.  A
  round acts on the client, the device and the two metadata files of the graph and the cursor.  A
  vault state and a graph that the code mutates in place are returned updated here.  The records of
  the metadata store are written without failure.

  The snapshot is a value.  In the code it is one only for an entry whose hash was corrected from
  the disk (line 119); every other entry is the object of the registry itself (lines 88 and 127), so
  what the registry changes in place afterwards (\<open>updatePath\<close>, \<open>updateContentHash\<close>, \<open>markDeleted\<close>,
  \<open>markConflicted\<close>, \<open>setSyncedPath\<close>; not \<open>adoptRemote\<close>, which puts a new object) shows through in
  the code and does not here.  In the code the actions of an apply read the entry of their own
  file before they change it, so without other events the two differ only when a change goes
  through the path index to the entry of another file whose action or recapture follows: the code
  then takes the new path, hash or tombstone and the model the old one, so that after a changed
  hash the drift guard defers here what the code applies.  An edit that the watcher records between the snapshot and the apply is seen
  through the shared entry as well, and the guard of the code does not notice it; such an event is
  no step of a round here, so no theorem about a round speaks of it.
\<close>

section \<open>The state of a round\<close>

record 's round =
  rd_client :: "'s client"
  rd_device :: device
  rd_dag :: metadata
  rd_cursor :: metadata

record 's round_env =
  re_client :: "'s client_env"
  re_apply :: apply_env
  re_deviceId :: string

abbreviation re_logger :: "'s round_env \<Rightarrow> logger_env" where
  "re_logger env \<equiv> ae_logger (re_apply env)"

definition on_client :: "('s client, 'a) act \<Rightarrow> ('s round, 'a) act" where
  "on_client m s = (case m (rd_client s) of (c, r) \<Rightarrow> (s\<lparr> rd_client := c \<rparr>, r))"

definition on_device :: "(device, 'a) act \<Rightarrow> ('s round, 'a) act" where
  "on_device m s = (case m (rd_device s) of (d, r) \<Rightarrow> (s\<lparr> rd_device := d \<rparr>, r))"

text \<open>\<open>ContentStore.get\<close>.\<close>

definition store_read :: "'s round_env \<Rightarrow> string \<Rightarrow> ('s round, bytes option) act" where
  "store_read env hash = on_device (\<lambda>d.
     (case cs_get (le_sha (re_logger env)) hash (lg_store (dv_logger d)) of
        (c, Inl x) \<Rightarrow> (d\<lparr> dv_logger := (dv_logger d)\<lparr> lg_store := c \<rparr> \<rparr>, Inl (io_failure x))
      | (c, Inr b) \<Rightarrow> (d\<lparr> dv_logger := (dv_logger d)\<lparr> lg_store := c \<rparr> \<rparr>, Inr b)))"

section \<open>The version graph and the cursor\<close>

definition loadDag :: "('s round, dag) act" where
  "loadDag s = (s, Inr (dag_load (rd_dag s)))"

definition loadCursor :: "('s round, nat) act" where
  "loadCursor s = (s, Inr (cursor_load (rd_cursor s)))"

definition saveCursor :: "nat \<Rightarrow> ('s round, unit) act" where
  "saveCursor cursor s = (s\<lparr> rd_cursor := cursor_save cursor (rd_cursor s) \<rparr>, Inr ())"

definition dagNeedsRebuild :: "dag \<Rightarrow> ('s round, bool) act" where
  "dagNeedsRebuild dag s = (s, Inr (if cursor_load (rd_cursor s) = 0 then False else dag_size dag = 0))"

text \<open>One operation of the round: its version, and its record when the graph changed.\<close>

definition add_edge :: "Operation \<Rightarrow> dag \<times> EdgeRecord list \<Rightarrow> dag \<times> EdgeRecord list" where
  "add_edge op = (\<lambda>(dag, newEdges).
     (if op_type op = OpMove then (dag, newEdges)
      else
        (case addVersion (op_id op) (op_parents op) (op_contentHash op) (op_fileId op) dag of
           (dag1, changed) \<Rightarrow>
             (dag1, if changed then newEdges @ [\<lparr> er_v = op_id op, er_p = op_parents op, er_c = op_contentHash op,
                                                 er_f = op_fileId op \<rparr>]
                    else newEdges))))"

definition persist_edges :: "EdgeRecord list \<Rightarrow> dag \<Rightarrow> metadata \<Rightarrow> metadata" where
  "persist_edges newEdges dag m =
     (if newEdges = [] then m
      else (let m1 = appendEdges newEdges m in if dag_shouldCompact m1 then dag_compact dag m1 else m1))"

definition recordVersionEdges :: "Operation list \<Rightarrow> dag \<Rightarrow> ('s round, dag) act" where
  "recordVersionEdges ops dag s =
     (if ops = [] then (s, Inr dag)
      else
        (case fold add_edge ops (dag, []) of
           (dag1, newEdges) \<Rightarrow> (s\<lparr> rd_dag := persist_edges newEdges dag1 (rd_dag s) \<rparr>, Inr dag1)))"

definition clearPendingOps :: "('s round, unit) act" where
  "clearPendingOps = on_device (with_logger clearOps)"

definition applyMerge ::
  "'s round_env \<Rightarrow> MergeAction list \<Rightarrow> VaultState \<Rightarrow> ('s round, string list \<times> string list \<times> apply_failure list) act" where
  "applyMerge env actions local = on_device (applyActions (re_apply env) actions local)"

section \<open>The identity snapshot\<close>

definition stat_gated :: "(string, file_ref) jsmap \<Rightarrow> FileEntry \<Rightarrow> bool" where
  "stat_gated refs entry =
     (truthy (fe_headVersionId entry) \<and> fe_contentHash entry \<noteq> [] \<and>
      (case jm_get refs (fe_path entry) of
         None \<Rightarrow> False
       | Some ref \<Rightarrow>
           fe_mtime entry = Some (fs_mtime (vr_stat ref)) \<and> fe_size entry = Some (fs_size (vr_stat ref))))"

text \<open>An entry as it goes into the snapshot: with the hash of the bytes on disk when the gate is open.\<close>

definition identity_entry ::
  "'s round_env \<Rightarrow> (string, file_ref) jsmap \<Rightarrow> FileEntry \<Rightarrow> (string, FileEntry) jsmap \<times> (string, bytes) jsmap \<Rightarrow>
     ('s round, (string, FileEntry) jsmap \<times> (string, bytes) jsmap) act" where
  "identity_entry env refs entry = (\<lambda>(entries, store).
     (if fe_deleted entry \<or> stat_gated refs entry then retE (jm_set (fe_id entry) entry entries, store)
      else
        bindE (on_device (files_read (re_apply env) (fe_path entry))) (\<lambda>content.
        retE (case content of
                None \<Rightarrow> (jm_set (fe_id entry) entry entries, store)
              | Some b \<Rightarrow>
                  (let hash = content_hash (re_logger env) b;
                       resolved = (if hash \<noteq> fe_contentHash entry then entry\<lparr> fe_contentHash := hash \<rparr> else entry)
                   in (jm_set (fe_id entry) resolved entries, jm_set hash b store))))))"

definition refs_by_path :: "device \<Rightarrow> (string, file_ref) jsmap" where
  "refs_by_path d = fold (\<lambda>r refs. jm_set (vr_path r) r refs) (vf_list (device_files d)) []"

definition buildLocalIdentity :: "'s round_env \<Rightarrow> ('s round, VaultState) act" where
  "buildLocalIdentity env s =
     bindE (iterE (identity_entry env (refs_by_path (rd_device s)))
              (map snd (rg_entries (lg_registry (dv_logger (rd_device s))))) ([], [])) (\<lambda>(entries, store) s1.
       (s1, Inr \<lparr> vs_deviceId = re_deviceId env, vs_hlc = ol_clock (lg_log (dv_logger (rd_device s1))),
                  vs_fileEntries = entries, vs_pendingOps = dedupeOpsById (getPendingOps (dv_logger (rd_device s1))),
                  vs_contentStore = store \<rparr>)) s"

section \<open>Staging\<close>

definition path_by_hash :: "VaultState \<Rightarrow> (string, string) jsmap" where
  "path_by_hash state =
     fold (\<lambda>(i, e) m. if \<not> fe_deleted e \<and> fe_contentHash e \<noteq> [] then jm_set (fe_contentHash e) (fe_path e) m else m)
       (vs_fileEntries state) []"

definition stage_hash ::
  "'s round_env \<Rightarrow> (string, string) jsmap \<Rightarrow> string \<Rightarrow> (string, bytes) jsmap \<Rightarrow> ('s round, (string, bytes) jsmap) act" where
  "stage_hash env paths hash store =
     (if hash = [] \<or> jm_has store hash then retE store
      else
        bindE (store_read env hash) (\<lambda>held.
        bindE (case held of
                 Some b \<Rightarrow> retE (Some b)
               | None \<Rightarrow>
                   (case jm_get paths hash of
                      Some path \<Rightarrow> on_device (files_read (re_apply env) path)
                    | None \<Rightarrow> retE None)) (\<lambda>found.
        retE (case found of Some b \<Rightarrow> jm_set hash b store | None \<Rightarrow> store))))"

definition stageContent :: "'s round_env \<Rightarrow> VaultState \<Rightarrow> string list \<Rightarrow> ('s round, VaultState) act" where
  "stageContent env state hs =
     bindE (iterE (stage_hash env (path_by_hash state)) hs (vs_contentStore state)) (\<lambda>store.
     retE (state\<lparr> vs_contentStore := store \<rparr>))"

definition hasStoredContent :: "'s round \<Rightarrow> string \<Rightarrow> bool" where
  "hasStoredContent s hash = hasStored (lg_store (dv_logger (rd_device s))) hash"

definition serve_hash ::
  "'s round_env \<Rightarrow> string \<Rightarrow> (string, bytes) jsmap \<times> string list \<Rightarrow> ('s round, (string, bytes) jsmap \<times> string list) act" where
  "serve_hash env hash = (\<lambda>(store, served).
     (if hash = [] then retE (store, served)
      else if jm_has store hash then retE (store, js_add hash served)
      else
        bindE (store_read env hash) (\<lambda>held.
        retE (case held of Some b \<Rightarrow> (jm_set hash b store, js_add hash served) | None \<Rightarrow> (store, served)))))"

definition stageLocalContent :: "'s round_env \<Rightarrow> VaultState \<Rightarrow> string list \<Rightarrow> ('s round, VaultState \<times> string list) act" where
  "stageLocalContent env state hs =
     bindE (iterE (serve_hash env) hs (vs_contentStore state, [])) (\<lambda>(store, served).
     retE (state\<lparr> vs_contentStore := store \<rparr>, served))"

end
