(* ===== verification/Round.thy ===== *)
theory Round
  imports SyncHost
begin

text \<open>
  One sync round (\<open>ServerSyncClient.runSync\<close> of \<open>src/network/server-sync.ts\<close>): the key check, the
  guard of the version graph, the pull, the download, the push, the merge, the apply, the
  reconciliation of concurrent heads and the cursor, over the host of \<open>SyncHost\<close> and the transfer
  of \<open>SyncTransfer\<close>.  The round is a sequence of steps with state and error, so that what has been
  done when a step throws stays done.  The loop of the reconciliation has its bound in the code.
  A saved cursor is a natural number, since sequence numbers start at one.
\<close>

section \<open>Download and staging\<close>

text \<open>\<open>fetchRemoteBlobs\<close>: what neither the registry nor the packs have comes from the server.\<close>

definition fetchRemoteBlobs :: "'s round_env \<Rightarrow> VaultState \<Rightarrow> VaultState \<Rightarrow> ('s round, VaultState \<times> string list) act" where
  "fetchRemoteBlobs env remote local =
     (let wanted = wanted_hashes remote local
      in if wanted = [] then retE (remote, [])
         else
           bindE (stageLocalContent env remote wanted) (\<lambda>(remote1, served).
             (let rest = filter (\<lambda>h. h \<notin> set served) wanted
              in if rest = [] then retE (remote1, [])
                 else
                   bindE (on_client (download_blobs (re_client env) rest (vs_contentStore remote1))) (\<lambda>(store, missing).
                   retE (remote1\<lparr> vs_contentStore := store \<rparr>, missing)))))"

definition stageForFiles :: "'s round_env \<Rightarrow> VaultState \<Rightarrow> string list \<Rightarrow> dag \<Rightarrow> ('s round, VaultState) act" where
  "stageForFiles env state fileIds dag s =
     (let bounds = (\<lambda>h. jm_has (vs_contentStore state) h \<or> hasStoredContent s h);
          needed = fold (\<lambda>i needed.
            (case jm_get (vs_fileEntries state) i of
               None \<Rightarrow> needed
             | Some le \<Rightarrow>
                 if fe_deleted le then needed
                 else
                   (let n1 = (if fe_contentHash le \<noteq> [] then js_add (fe_contentHash le) needed else needed)
                    in if truthy (fe_headVersionId le) then
                         fold js_add (reachableContentHashes dag (the (fe_headVersionId le)) (Some bounds) None) n1
                       else n1))) fileIds []
      in stageContent env state needed s)"

text \<open>Both sides agree on the file: the merge reads none of its bytes.\<close>

definition converged :: "FileEntry \<Rightarrow> FileEntry \<Rightarrow> bool" where
  "converged le re =
     (\<not> fe_deleted le \<and> \<not> fe_deleted re \<and> fe_headVersionId le \<noteq> None \<and> fe_headVersionId le = fe_headVersionId re \<and>
      fe_contentHash le = fe_contentHash re \<and> fe_path le = fe_path re)"

definition merge_scope :: "VaultState \<Rightarrow> VaultState \<Rightarrow> string list" where
  "merge_scope local remote =
     (let touched = fold (\<lambda>(i, re) ids.
            (case jm_get (vs_fileEntries local) i of
               Some le \<Rightarrow> if converged le re then ids else js_add i ids
             | None \<Rightarrow> js_add i ids)) (vs_fileEntries remote) [];
          remoteLivePaths = js_set_of (map (\<lambda>(i, re). fe_path re) (filter (\<lambda>(i, re). \<not> fe_deleted re) (vs_fileEntries remote)))
      in if remoteLivePaths = [] then touched
         else
           fold (\<lambda>(i, le) ids.
             if \<not> fe_deleted le \<and> \<not> jm_has (vs_fileEntries remote) i \<and> fe_path le \<in> set remoteLivePaths then js_add i ids else ids)
             (vs_fileEntries local) touched)"

definition stageMergeContent :: "'s round_env \<Rightarrow> VaultState \<Rightarrow> VaultState \<Rightarrow> dag \<Rightarrow> ('s round, VaultState) act" where
  "stageMergeContent env local remote dag = stageForFiles env local (merge_scope local remote) dag"

section \<open>Concurrent heads\<close>

definition singleFileState :: "VaultState \<Rightarrow> string \<Rightarrow> FileEntry \<Rightarrow> VaultState" where
  "singleFileState local fileId le =
     \<lparr> vs_deviceId = vs_deviceId local, vs_hlc = vs_hlc local, vs_fileEntries = [(fileId, le)], vs_pendingOps = [],
       vs_contentStore = vs_contentStore local \<rparr>"

definition leafRemoteState :: "Operation \<Rightarrow> string \<Rightarrow> string \<Rightarrow> bytes \<Rightarrow> VaultState" where
  "leafRemoteState op leafId leafHash content =
     \<lparr> vs_deviceId = ''server'', vs_hlc = op_hlc op,
       vs_fileEntries =
         [(op_fileId op,
           \<lparr> fe_id = op_fileId op, fe_path = op_path op, fe_contentHash = leafHash, fe_hlc = op_hlc op, fe_deleted = False,
             fe_lastSyncedPath = None, fe_headVersionId = Some leafId, fe_conflictParents = None, fe_mtime = None,
             fe_size = None \<rparr>)],
       vs_pendingOps = [], vs_contentStore = [(leafHash, content)] \<rparr>"

text \<open>The open leaves our head does not descend from, and the first of them that can be folded.\<close>

definition extra_leaves :: "dag \<Rightarrow> string list \<Rightarrow> string \<Rightarrow> string list" where
  "extra_leaves dag leavesOfFile localHead =
     sort (filter (\<lambda>v. v \<noteq> localHead \<and> \<not> isAncestor dag v localHead) leavesOfFile)"

definition attempt_key :: "string \<Rightarrow> string \<Rightarrow> string" where
  "attempt_key fileId leaf = fileId @ '' '' @ leaf"

definition foldable :: "dag \<Rightarrow> (string, Operation) jsmap \<Rightarrow> string list \<Rightarrow> string \<Rightarrow> string \<Rightarrow> string \<Rightarrow> bool" where
  "foldable dag opById attempted fileId localHead cand =
     (attempt_key fileId cand \<notin> set attempted \<and>
      (case jm_get opById cand of None \<Rightarrow> False | Some op \<Rightarrow> op_type op \<noteq> OpDelete) \<and>
      mergeBase dag localHead cand \<noteq> NoBase)"

record sweep_pass =
  sp_attempted :: "string list"
  sp_missing :: "string list"
  sp_failures :: "apply_failure list"
  sp_folded :: bool

definition advance_clock :: "HLC \<Rightarrow> ('s round, unit) act" where
  "advance_clock h = on_device (with_logger (on_oplog (\<lambda>l. l\<lparr> ol_clock := hlc_setCurrent h (ol_clock l) \<rparr>)))"

definition clock_now :: "('s round, HLC) act" where
  "clock_now s = (s, Inr (ol_clock (lg_log (dv_logger (rd_device s)))))"

definition merge_states :: "'s round_env \<Rightarrow> VaultState \<Rightarrow> VaultState \<Rightarrow> dag \<Rightarrow> ('s round, StateMergeResult) act" where
  "merge_states env local remote dag =
     (case mergeVaultStates (le_decode (re_logger env)) local remote (Some dag) of
        Inl e \<Rightarrow> throwE type_error
      | Inr merge \<Rightarrow> retE merge)"

text \<open>The bytes of a leaf: staged, or fetched from the server.\<close>

definition leaf_bytes :: "'s round_env \<Rightarrow> VaultState \<Rightarrow> string \<Rightarrow> ('s round, bytes option) act" where
  "leaf_bytes env local leafHash =
     (case jm_get (vs_contentStore local) leafHash of
        Some b \<Rightarrow> retE (Some b)
      | None \<Rightarrow> on_client (fetchBlob (re_client env) leafHash))"

definition fold_leaf ::
  "'s round_env \<Rightarrow> VaultState \<Rightarrow> dag \<Rightarrow> string \<Rightarrow> FileEntry \<Rightarrow> Operation \<Rightarrow> string \<Rightarrow> sweep_pass \<Rightarrow> ('s round, sweep_pass) act" where
  "fold_leaf env local dag fileId le leafOp leafId p =
     (let leafHash = (case contentHashOf dag leafId of Some h \<Rightarrow> h | None \<Rightarrow> op_contentHash leafOp)
      in bindE (leaf_bytes env local leafHash) (\<lambda>found.
         (case found of
            None \<Rightarrow> retE (p\<lparr> sp_missing := js_add leafHash (sp_missing p) \<rparr>)
          | Some content \<Rightarrow>
              (let localOne = singleFileState local fileId le;
                   remoteOne = leafRemoteState leafOp leafId leafHash content
               in bindE (merge_states env localOne remoteOne dag) (\<lambda>merge.
                  bindE clock_now (\<lambda>current.
                  bindE (advance_clock (hlcMax current (sm_mergedHlc merge))) (\<lambda>_.
                  bindE (applyMerge env (sm_actions merge) localOne) (\<lambda>(deferred, conflicts, failures).
                  retE (p\<lparr> sp_failures := sp_failures p @ failures, sp_folded := True \<rparr>)))))))))"

definition sweep_file ::
  "'s round_env \<Rightarrow> VaultState \<Rightarrow> dag \<Rightarrow> (string, string list) jsmap \<Rightarrow> (string, Operation) jsmap \<Rightarrow> string list \<Rightarrow>
     string \<Rightarrow> sweep_pass \<Rightarrow> ('s round, sweep_pass) act" where
  "sweep_file env local dag passLeaves opById deferred fileId p =
     (if fileId \<in> set deferred then retE p
      else
        (case jm_get (vs_fileEntries local) fileId of
           None \<Rightarrow> retE p
         | Some le \<Rightarrow>
             if fe_deleted le \<or> \<not> truthy (fe_headVersionId le) then retE p
             else
               (let localHead = the (fe_headVersionId le);
                    leavesOfFile = (case jm_get passLeaves fileId of None \<Rightarrow> [] | Some ls \<Rightarrow> ls)
                in case filter (foldable dag opById (sp_attempted p) fileId localHead) (extra_leaves dag leavesOfFile localHead) of
                     [] \<Rightarrow> retE p
                   | leafId # _ \<Rightarrow>
                       if leafId = [] then retE p
                       else fold_leaf env local dag fileId le (the (jm_get opById leafId)) leafId
                         (p\<lparr> sp_attempted := js_add (attempt_key fileId leafId) (sp_attempted p) \<rparr>))))"

fun sweep_loop ::
  "nat \<Rightarrow> 's round_env \<Rightarrow> string list \<Rightarrow> (string, Operation) jsmap \<Rightarrow> string list \<Rightarrow> dag \<Rightarrow> sweep_pass \<Rightarrow> ('s round, sweep_pass) act" where
  "sweep_loop 0 env touched opById deferred dag p = retE p"
| "sweep_loop (Suc k) env touched opById deferred dag p =
     bindE (buildLocalIdentity env) (\<lambda>local.
     bindE (recordVersionEdges (vs_pendingOps local) dag) (\<lambda>dag1.
     bindE (stageForFiles env local touched dag1) (\<lambda>local1.
     bindE (iterE (sweep_file env local1 dag1 (leavesByFile dag1) opById deferred) (sort touched) (p\<lparr> sp_folded := False \<rparr>)) (\<lambda>p1.
       if \<not> sp_folded p1 then retE p1 else sweep_loop k env touched opById deferred dag1 p1))))"

definition touched_files :: "pulled_op list \<Rightarrow> string \<Rightarrow> string list" where
  "touched_files pulled ownDeviceId =
     js_set_of (map (\<lambda>p. op_fileId (po_op p)) (filter (\<lambda>p. deviceId (op_hlc (po_op p)) \<noteq> ownDeviceId) pulled))"

definition reconcileConcurrentHeads ::
  "'s round_env \<Rightarrow> pulled_op list \<Rightarrow> dag \<Rightarrow> string \<Rightarrow> string list \<Rightarrow> string list \<Rightarrow> apply_failure list \<Rightarrow>
     ('s round, string list \<times> apply_failure list) act" where
  "reconcileConcurrentHeads env pulled dag ownDeviceId missingContent deferred failures =
     (let touched = touched_files pulled ownDeviceId;
          opById = fold (\<lambda>p m. jm_set (op_id (po_op p)) (po_op p) m) pulled [];
          multiHead = filter (\<lambda>i. length (case jm_get (leavesByFile dag) i of None \<Rightarrow> [] | Some ls \<Rightarrow> ls) \<ge> 2) touched;
          maxFolds = length pulled + length touched + 1
      in if touched = [] \<or> multiHead = [] then retE (missingContent, failures)
         else
           bindE (sweep_loop maxFolds env touched opById deferred dag
                    \<lparr> sp_attempted = [], sp_missing = missingContent, sp_failures = failures, sp_folded = False \<rparr>) (\<lambda>p.
           retE (sp_missing p, sp_failures p)))"

section \<open>The round\<close>

record round_summary =
  sr_pushed :: nat
  sr_pulled :: nat
  sr_deferred :: "string list"
  sr_stranded :: "string list"
  sr_deferredConflicts :: "string list"
  sr_applyFailures :: "apply_failure list"

text \<open>Steps 0 to 3, where the round may be cancelled: everything up to the push.\<close>

record transfer =
  tf_dag :: dag
  tf_local :: VaultState
  tf_remote :: VaultState
  tf_startCursor :: nat
  tf_pulled :: "pulled_op list"
  tf_pulledCursor :: nat
  tf_missing :: "string list"

definition check_key :: "'s round_env \<Rightarrow> ('s round, bool) act" where
  "check_key env =
     (let c = re_client env
      in bindE (on_client (preflightWithRetry c (keyCheckBlobKey (ce_web c)))) (\<lambda>(claimed, existing).
         (case existing of
            None \<Rightarrow> retE True
          | Some record \<Rightarrow>
              bindE (liftE (verifyKeyCheck (ce_web c) (ce_crypto c) record)) (\<lambda>same.
              if \<not> same then throwE KeyMismatchError else retE False))))"

definition heal_dag :: "dag \<Rightarrow> ('s round, unit) act" where
  "heal_dag dag = bindE (dagNeedsRebuild dag) (\<lambda>lost. if lost then saveCursor 0 else retE ())"

definition stamp_key :: "'s round_env \<Rightarrow> ('s round, unit) act" where
  "stamp_key env =
     (let c = re_client env
      in on_client (bindE (with_nonce (buildKeyCheck (ce_web c) (ce_crypto c))) (\<lambda>record.
                    on_server (api_putBlob (ce_api c) (keyCheckBlobKey (ce_web c)) record))))"

definition push_content :: "Operation list \<Rightarrow> string list" where
  "push_content ops =
     js_set_of (map op_contentHash (filter (\<lambda>op. op_type op \<noteq> OpDelete \<and> op_contentHash op \<noteq> []) ops))"

definition round_push :: "'s round_env \<Rightarrow> VaultState \<Rightarrow> nat \<Rightarrow> ('s round, VaultState) act" where
  "round_push env local startCursor =
     (if vs_pendingOps local = [] then retE local
      else
        bindE (stageContent env local (push_content (vs_pendingOps local))) (\<lambda>local1.
        bindE (on_client (pushPendingOps (re_client env) local1 startCursor)) (\<lambda>_.
        bindE clearPendingOps (\<lambda>_. retE local1))))"

definition round_pull :: "'s round_env \<Rightarrow> ('s round, transfer) act" where
  "round_pull env =
     (let cancelled = on_client (check_cancel (re_client env))
      in bindE cancelled (\<lambda>_.
         bindE (check_key env) (\<lambda>keyCheckAbsent.
         bindE loadDag (\<lambda>dag.
         bindE (heal_dag dag) (\<lambda>_.
         bindE cancelled (\<lambda>_.
         bindE (buildLocalIdentity env) (\<lambda>local.
         bindE loadCursor (\<lambda>startCursor.
         bindE (on_client (pullAll (re_client env) startCursor)) (\<lambda>(pulled, pulledCursor).
         bindE cancelled (\<lambda>_.
         bindE (fetchRemoteBlobs env (reconstructRemoteState (map po_op pulled) (Some (vs_deviceId local))) local) (\<lambda>(remote, missing).
         bindE cancelled (\<lambda>_.
         bindE (if keyCheckAbsent \<and> (pulled \<noteq> [] \<or> vs_pendingOps local \<noteq> []) then stamp_key env else retE ()) (\<lambda>_.
         bindE cancelled (\<lambda>_.
         retE \<lparr> tf_dag = dag, tf_local = local, tf_remote = remote, tf_startCursor = startCursor, tf_pulled = pulled,
                tf_pulledCursor = pulledCursor, tf_missing = missing \<rparr>))))))))))))))"

text \<open>Steps 4 and 5: merge, apply, reconcile, cursor.\<close>

definition round_merge :: "'s round_env \<Rightarrow> transfer \<Rightarrow> VaultState \<Rightarrow> ('s round, round_summary) act" where
  "round_merge env t local =
     bindE (recordVersionEdges (vs_pendingOps local @ map po_op (tf_pulled t)) (tf_dag t)) (\<lambda>dag.
     bindE (stageMergeContent env local (tf_remote t) dag) (\<lambda>local1.
     bindE (merge_states env local1 (tf_remote t) dag) (\<lambda>merge.
     bindE (advance_clock (sm_mergedHlc merge)) (\<lambda>_.
     bindE (applyMerge env (sm_actions merge) local1) (\<lambda>(deferred, deferredConflicts, failures).
     bindE (reconcileConcurrentHeads env (tf_pulled t) dag (vs_deviceId local1) (tf_missing t) deferred failures) (\<lambda>(missing, failures1).
     bindE (saveCursor (nat (safeCursor (tf_pulled t) (tf_pulledCursor t) missing (tf_startCursor t) (deferred \<noteq> [])))) (\<lambda>_.
     retE \<lparr> sr_pushed = length (vs_pendingOps local), sr_pulled = length (tf_pulled t), sr_deferred = deferred,
            sr_stranded = missing, sr_deferredConflicts = deferredConflicts, sr_applyFailures = failures1 \<rparr>)))))))"

text \<open>Up to here a round may fail without a trace on the vault.\<close>

definition round_transfer :: "'s round_env \<Rightarrow> ('s round, transfer \<times> VaultState) act" where
  "round_transfer env =
     (if \<not> isReady (ce_crypto (re_client env)) then throwE (OtherError ''Vault key not derived'')
      else
        bindE (round_pull env) (\<lambda>t.
        bindE (round_push env (tf_local t) (tf_startCursor t)) (\<lambda>local.
        retE (t, local))))"

definition runSync :: "'s round_env \<Rightarrow> ('s round, round_summary) act" where
  "runSync env = bindE (round_transfer env) (\<lambda>(t, local). round_merge env t local)"

end
