(* ===== verification/RoundThms.thy ===== *)
theory RoundThms
  imports Round ApplicatorLaws
begin

text \<open>
  What a round leaves alone before its merge: the vault, the registry, the version graph and, when
  it fails there, the log; the cursor it may only rewind to 0, when the graph was lost.  The laws of
  the single steps for the theories \<open>RoundLaws\<close> and \<open>RoundProps\<close> stand here too.
\<close>

section \<open>Steps that leave the vault alone\<close>

definition vault_of :: "'s round \<Rightarrow> (string, bytes \<times> file_stat) jsmap \<times> registry \<times> op_log \<times> metadata" where
  "vault_of s =
     (dv_files (rd_device s), lg_registry (dv_logger (rd_device s)), lg_log (dv_logger (rd_device s)), rd_dag s)"

text \<open>The vault is the same and the cursor is the same or rewound.\<close>

definition calm :: "'s round \<Rightarrow> 's round \<Rightarrow> bool" where
  "calm s s' = (vault_of s' = vault_of s \<and> cursor_load (rd_cursor s') \<in> {cursor_load (rd_cursor s), 0})"

definition quiet :: "('s round, 'a) act \<Rightarrow> bool" where
  "quiet m = (\<forall>s. calm s (fst (m s)))"

lemma calm_trans: "calm s s1 \<Longrightarrow> calm s1 s2 \<Longrightarrow> calm s s2"
  by (auto simp: calm_def)

lemma quiet_simple [simp, intro]: "quiet (retE x)" "quiet (throwE e)" "quiet (liftE r)"
  by (simp_all add: quiet_def calm_def)

lemma quiet_bind [intro!]:
  assumes "quiet m" and "\<And>x. quiet (k x)"
  shows "quiet (bindE m k)"
  unfolding quiet_def
proof
  fix s
  obtain s1 r where m: "m s = (s1, r)" by fastforce
  then have "calm s s1" using assms(1) by (metis fst_conv quiet_def)
  then show "calm s (fst (bindE m k s))"
    using assms(2) by (cases r) (auto simp: bindE_def m quiet_def intro: calm_trans)
qed

lemma quiet_iter [intro!]: "(\<And>x a. quiet (f x a)) \<Longrightarrow> quiet (iterE f xs acc)"
  by (induction xs arbitrary: acc) auto

lemma quiet_steps [simp, intro]:
  "quiet (on_client c)" "quiet (store_read env h)" "quiet (on_device (files_read a p))" "quiet loadDag" "quiet loadCursor"
  "quiet (saveCursor 0)" "quiet (dagNeedsRebuild g)" "quiet clock_now"
  by (auto simp: quiet_def calm_def on_client_def vault_of_def store_read_def on_device_def files_read_def port_call_def Let_def
      loadDag_def loadCursor_def saveCursor_def dagNeedsRebuild_def clock_now_def split: prod.splits sum.splits option.splits)

lemma quiet_identity [simp, intro]:
  fixes env :: "'s round_env"
  shows "quiet (buildLocalIdentity env)"
proof -
  have "quiet (iterE (identity_entry env refs) es a)" for refs es a
    by (auto simp: identity_entry_def split: prod.splits)
  then have "quiet (bindE (iterE (identity_entry env refs) es a) (\<lambda>(entries, store) s1. (s1, f entries store s1)))"
    for refs es a and f :: "_ \<Rightarrow> _ \<Rightarrow> 's round \<Rightarrow> _ + 'b"
    by (intro quiet_bind) (auto simp: quiet_def calm_def)
  then have "calm s (fst (bindE (iterE (identity_entry env refs) es a) (\<lambda>(entries, store) s1. (s1, f entries store s1)) s))"
    for refs es a and f :: "_ \<Rightarrow> _ \<Rightarrow> 's round \<Rightarrow> _ + 'b" and s
    unfolding quiet_def by blast
  then show ?thesis unfolding quiet_def buildLocalIdentity_def by (intro allI) this
qed

lemma quiet_stage [simp, intro]: "quiet (stageContent env l hs)"
  by (auto simp: stageContent_def stage_hash_def split: option.splits)

lemma quiet_stage_files [simp, intro]: "quiet (stageForFiles env l ids g)"
  using quiet_stage unfolding quiet_def stageForFiles_def Let_def by blast

lemma quiet_serve [simp, intro]: "quiet (stageLocalContent env l hs)"
  by (auto simp: stageLocalContent_def serve_hash_def split: prod.splits)

lemma quiet_fetch [simp, intro]: "quiet (fetchRemoteBlobs env r l)"
  by (auto simp: fetchRemoteBlobs_def Let_def split: prod.splits)

lemma quiet_check [simp, intro]: "quiet (check_key env)" "quiet (heal_dag g)" "quiet (stamp_key env)"
  by (auto simp: check_key_def heal_dag_def stamp_key_def Let_def split: prod.splits option.splits)

lemma quiet_pull [simp, intro]: "quiet (round_pull env)"
  by (auto simp: round_pull_def Let_def split: prod.splits)

section \<open>A failed transfer\<close>

lemma quiet_rest [simp, intro]: "quiet (bindE (stageContent env l hs) (\<lambda>l1. bindE (on_client (push l1)) (\<lambda>_. retE l1)))"
  by auto

text \<open>The push is quiet but for the clearing of the log at its end.\<close>

lemma push_cases:
  assumes "round_push env local base s = (s', r)"
  obtains (failed) e where "r = Inl e" and "calm s s'"
    | (same) "r = Inr local" and "s' = s" and "vs_pendingOps local = []"
    | (cleared) l1 s1 s2 where "stageContent env local (push_content (vs_pendingOps local)) s = (s1, Inr l1)"
        and "on_client (pushPendingOps (re_client env) l1 base) s1 = (s2, Inr ())" and "calm s s1" and "calm s s2"
        and "clearPendingOps s2 = (s', Inr ())" and "r = Inr l1" and "vs_pendingOps local \<noteq> []"
proof (cases "vs_pendingOps local = []")
  case True
  then show thesis using assms same by (simp add: round_push_def)
next
  case False
  obtain s1 x where st: "stageContent env local (push_content (vs_pendingOps local)) s = (s1, x)" by fastforce
  have c1: "calm s s1" using quiet_stage unfolding quiet_def by (metis fst_conv st)
  show thesis
  proof (cases x)
    case (Inl e)
    then show thesis using failed [of e] assms st c1 False by (auto simp: round_push_def bindE_def)
  next
    case (Inr l1)
    obtain s2 y where p: "on_client (pushPendingOps (re_client env) l1 base) s1 = (s2, y)" by fastforce
    have c2: "calm s s2" using quiet_steps(1) calm_trans [OF c1] unfolding quiet_def by (metis fst_conv p)
    obtain s3 z where cl: "clearPendingOps s2 = (s3, z)" by fastforce
    then have z: "z = Inr ()" by (auto simp: clearPendingOps_def on_device_def with_logger_def)
    show thesis
    proof (cases y)
      case (Inl e)
      then show thesis using failed [of e] assms st Inr p c2 False by (auto simp: round_push_def bindE_def)
    next
      case (Inr u)
      then have p': "on_client (pushPendingOps (re_client env) l1 base) s1 = (s2, Inr ())" using p by simp
      have st': "stageContent env local (push_content (vs_pendingOps local)) s = (s1, Inr l1)" using st \<open>x = Inr l1\<close> by simp
      have "round_push env local base s = (s3, Inr l1)" using st' p' cl z False by (simp add: round_push_def bindE_def)
      then show thesis using cleared [OF st' p' c1 c2 _ _ False] cl z assms by simp
    qed
  qed
qed

lemma cleared_vault:
  assumes "clearPendingOps s = (s', r)"
  shows "vault_of s' = (case vault_of s of (f, g, l, d) \<Rightarrow> (f, g, rewriteOpLogLocked (drop_all l), d))"
    and "rd_client s' = rd_client s" and "rd_cursor s' = rd_cursor s"
  using assms by (auto simp: clearPendingOps_def on_device_def with_logger_def vault_of_def clearOps_def)

section \<open>The cursor of a round\<close>

definition stays :: "('s round, 'a) act \<Rightarrow> bool" where
  "stays m = (\<forall>c. keepsE (\<lambda>s. rd_cursor s = c) m)"

lemma stays_iff: "stays m \<longleftrightarrow> (\<forall>s. rd_cursor (fst (m s)) = rd_cursor s)"
  unfolding stays_def keepsE_def by blast

lemma stays_simple [simp, intro]: "stays (retE x)" "stays (throwE e)" "stays (liftE r)"
  by (simp_all add: stays_iff)

lemma stays_bind [intro!]: "stays m \<Longrightarrow> (\<And>x. stays (k x)) \<Longrightarrow> stays (bindE m k)"
  unfolding stays_def by (blast intro: keepsE_bind)

lemma stays_iter [intro!]: "(\<And>x a. stays (f x a)) \<Longrightarrow> stays (iterE f xs acc)"
  unfolding stays_def by (blast intro: keepsE_iter)

lemma stays_steps [simp, intro]:
  "stays (on_client c)" "stays (on_device m)" "stays (store_read env h)" "stays clock_now" "stays (recordVersionEdges ops g)"
  "stays (advance_clock t)" "stays (applyMerge env as l)"
  by (auto simp: stays_iff on_client_def on_device_def store_read_def clock_now_def recordVersionEdges_def advance_clock_def
      applyMerge_def split: prod.split)

lemma stays_identity [simp, intro]:
  fixes env :: "'s round_env"
  shows "stays (buildLocalIdentity env)"
proof -
  have "stays (iterE (identity_entry env refs) es a)" for refs es a
    by (auto simp: identity_entry_def split: prod.splits)
  then have "stays (bindE (iterE (identity_entry env refs) es a) (\<lambda>(entries, store) s1. (s1, f entries store s1)))"
    for refs es a and f :: "_ \<Rightarrow> _ \<Rightarrow> 's round \<Rightarrow> _ + 'b"
    by (intro stays_bind) (auto simp: stays_iff)
  then have "rd_cursor (fst (bindE (iterE (identity_entry env refs) es a) (\<lambda>(entries, store) s1. (s1, f entries store s1)) s)) = rd_cursor s"
    for refs es a and f :: "_ \<Rightarrow> _ \<Rightarrow> 's round \<Rightarrow> _ + 'b" and s
    unfolding stays_iff by blast
  then show ?thesis unfolding stays_iff buildLocalIdentity_def by (intro allI) this
qed

lemma stays_stage [simp, intro]: "stays (stageContent env l hs)"
  by (auto simp: stageContent_def stage_hash_def split: option.splits)

lemma stays_stage_files [simp, intro]: "stays (stageForFiles env l ids g)" "stays (stageMergeContent env l r g)"
  using stays_stage unfolding stays_iff stageMergeContent_def stageForFiles_def Let_def by blast+

lemma stays_merge [simp, intro]: "stays (merge_states env l r g)"
  by (auto simp: merge_states_def split: sum.split)

lemma stays_fold [simp, intro]: "stays (fold_leaf env l g i le op v p)"
  by (auto simp: fold_leaf_def leaf_bytes_def Let_def split: option.split prod.split)

lemma stays_sweep_file [simp, intro]: "stays (sweep_file env l g ls ops def i p)"
  by (auto simp: sweep_file_def Let_def split: option.split list.split)

lemma stays_sweep [simp, intro]: "stays (sweep_loop k env touched ops def g p)"
  by (induction k arbitrary: g p) auto

lemma stays_reconcile [simp, intro]: "stays (reconcileConcurrentHeads env ps g own ms def fs)"
  by (auto simp: reconcileConcurrentHeads_def Let_def simp del: sweep_loop.simps)

definition saves :: "transfer \<Rightarrow> ('s round, round_summary) act \<Rightarrow> bool" where
  "saves t m =
     (\<forall>s. case m s of
        (s', Inl e) \<Rightarrow> rd_cursor s' = rd_cursor s
      | (s', Inr y) \<Rightarrow> cursor_load (rd_cursor s') =
          nat (safeCursor (tf_pulled t) (tf_pulledCursor t) (sr_stranded y) (tf_startCursor t) (sr_deferred y \<noteq> [])))"

lemma saves_bind:
  assumes "stays m" and "\<And>x. saves t (k x)"
  shows "saves t (bindE m k)"
  unfolding saves_def
proof
  fix s
  obtain s1 r where m: "m s = (s1, r)" by fastforce
  then have c: "rd_cursor s1 = rd_cursor s" using assms(1) unfolding stays_iff by (metis fst_conv)
  show "case bindE m k s of
        (s', Inl e) \<Rightarrow> rd_cursor s' = rd_cursor s
      | (s', Inr y) \<Rightarrow> cursor_load (rd_cursor s') =
          nat (safeCursor (tf_pulled t) (tf_pulledCursor t) (sr_stranded y) (tf_startCursor t) (sr_deferred y \<noteq> []))"
  proof (cases r)
    case (Inr x)
    from assms(2) [of x, unfolded saves_def] have "case k x s1 of
        (s', Inl e) \<Rightarrow> rd_cursor s' = rd_cursor s1
      | (s', Inr y) \<Rightarrow> cursor_load (rd_cursor s') =
          nat (safeCursor (tf_pulled t) (tf_pulledCursor t) (sr_stranded y) (tf_startCursor t) (sr_deferred y \<noteq> []))" by (rule spec)
    then show ?thesis using c by (auto simp: bindE_def m Inr split: prod.splits sum.splits)
  qed (simp add: bindE_def m c)
qed

lemma saves_end:
  "sr_stranded y = missing \<Longrightarrow> sr_deferred y = deferred \<Longrightarrow>
     saves t (bindE (saveCursor (nat (safeCursor (tf_pulled t) (tf_pulledCursor t) missing (tf_startCursor t) (deferred \<noteq> [])))) (\<lambda>_. retE y))"
  by (simp add: saves_def bindE_def saveCursor_def)

lemma round_cursor: "saves t (round_merge env t local)"
  unfolding round_merge_def by (auto intro!: saves_bind saves_end split: prod.split)

section \<open>The cursor before the merge\<close>

lemma stays_transfer [simp, intro]:
  "stays (check_key env)" "stays (stamp_key env)" "stays loadDag" "stays loadCursor" "stays (stageLocalContent env l hs)"
  "stays (fetchRemoteBlobs env r l)" "stays clearPendingOps"
  by (auto simp: check_key_def stamp_key_def fetchRemoteBlobs_def stageLocalContent_def serve_hash_def clearPendingOps_def Let_def
      split: prod.splits option.splits)
    (simp_all add: stays_iff loadDag_def loadCursor_def)

lemma stays_push [simp, intro]: "stays (round_push env l n)"
  by (auto simp: round_push_def)

text \<open>The graph is the one of the start, and the cursor too unless that graph was lost.\<close>

definition healed :: "metadata \<Rightarrow> metadata \<Rightarrow> 's round \<Rightarrow> bool" where
  "healed c g s = (rd_dag s = g \<and> (rd_cursor s = c \<or> dag_size (dag_load g) = 0 \<and> cursor_load (rd_cursor s) = 0))"

lemma healed_step: "quiet m \<Longrightarrow> stays m \<Longrightarrow> keepsE (healed c g) m"
  unfolding keepsE_def quiet_def stays_iff healed_def calm_def vault_of_def by (metis prod.inject)

lemma healed_heal: "keepsE (healed c g) (heal_dag (dag_load g))"
  by (auto simp: keepsE_def healed_def heal_dag_def bindE_def dagNeedsRebuild_def saveCursor_def)

lemma healed_load:
  assumes "keepsE (healed c g) (k (dag_load g))"
  shows "keepsE (healed c g) (bindE loadDag k)"
  using assms by (auto simp: keepsE_def bindE_def loadDag_def healed_def)

lemma pull_cursor: "healed (rd_cursor s) (rd_dag s) (fst (round_pull env s))"
proof -
  have "keepsE (healed c g) (round_pull env)" for c g
    unfolding round_pull_def Let_def
    by (intro keepsE_bind healed_load healed_heal healed_step quiet_bind stays_bind)
      (auto split: prod.split)
  then show ?thesis unfolding keepsE_def healed_def by blast
qed

lemma transfer_cursor:
  assumes "round_transfer env s = (s', r)"
  shows "healed (rd_cursor s) (rd_dag s) s'"
proof (cases "isReady (ce_crypto (re_client env))")
  case True
  obtain s1 x where p: "round_pull env s = (s1, x)" by fastforce
  then have h: "healed (rd_cursor s) (rd_dag s) s1" using pull_cursor by (metis fst_conv)
  show ?thesis
  proof (cases x)
    case (Inl e)
    then show ?thesis using assms p h True by (simp add: round_transfer_def bindE_def)
  next
    case (Inr t)
    obtain y where q: "round_push env (tf_local t) (tf_startCursor t) s1 = (s', y)"
      using assms p Inr True by (auto simp: round_transfer_def bindE_def split: prod.splits sum.splits)
    have "rd_cursor s' = rd_cursor s1" using stays_push q unfolding stays_iff by (metis fst_conv)
    moreover from q have "rd_dag s' = rd_dag s1"
    proof (cases rule: push_cases)
      case (cleared l1 s2 s3)
      then show ?thesis using cleared_vault(1) [OF cleared(5)] by (simp add: calm_def vault_of_def)
    qed (simp_all add: calm_def vault_of_def)
    ultimately show ?thesis using h by (simp add: healed_def)
  qed
qed (use assms in \<open>auto simp: round_transfer_def healed_def\<close>)

section \<open>Property\<close>

text \<open>
  C6: Up to the merge a round leaves the vault, the registry and the version graph as they were.  The
  cursor stays too, except that a round which finds the version graph lost rewinds it to 0, and a
  failure after that leaves it there.  If the round fails before the merge (offline, wrong key,
  cancelled), it fails with that error and the log is untouched; otherwise the log has been cleared
  when there was something to push.
\<close>

theorem failed_transfer_keeps_vault:
  "case round_transfer env s of (s', r) \<Rightarrow>
     dv_files (rd_device s') = dv_files (rd_device s) \<and>
     lg_registry (dv_logger (rd_device s')) = lg_registry (dv_logger (rd_device s)) \<and>
     rd_dag s' = rd_dag s \<and>
     (rd_cursor s' = rd_cursor s \<or> dag_size (dag_load (rd_dag s)) = 0 \<and> cursor_load (rd_cursor s') = 0) \<and>
     (case r of
        Inl e \<Rightarrow> runSync env s = (s', Inl e) \<and> lg_log (dv_logger (rd_device s')) = lg_log (dv_logger (rd_device s))
      | Inr (t, local) \<Rightarrow>
          runSync env s = round_merge env t local s' \<and>
          lg_log (dv_logger (rd_device s')) =
            (if vs_pendingOps (tf_local t) = [] then lg_log (dv_logger (rd_device s))
             else rewriteOpLogLocked (drop_all (lg_log (dv_logger (rd_device s))))))"
proof -
  obtain s' r where m: "round_transfer env s = (s', r)" by fastforce
  let ?push = "\<lambda>t. bindE (round_push env (tf_local t) (tf_startCursor t)) (\<lambda>local. retE (t, local))"
  have run: "runSync env s = (case r of Inl e \<Rightarrow> (s', Inl e) | Inr (t, local) \<Rightarrow> round_merge env t local s')"
    using m by (cases r) (auto simp: runSync_def bindE_def)
  have k: "rd_cursor s' = rd_cursor s \<or> dag_size (dag_load (rd_dag s)) = 0 \<and> cursor_load (rd_cursor s') = 0"
    using transfer_cursor [OF m] by (simp add: healed_def)
  show ?thesis
  proof (cases "isReady (ce_crypto (re_client env))")
    case False
    then show ?thesis using m run by (auto simp: round_transfer_def)
  next
    case True
    then have "bindE (round_pull env) ?push s = (s', r)" using m by (simp add: round_transfer_def)
    then show ?thesis
    proof (cases rule: bindE_cases)
      case (err e)
      then have "calm s s'" using quiet_pull unfolding quiet_def by (metis fst_conv)
      then show ?thesis using k m run err(2) by (simp add: calm_def vault_of_def)
    next
      case (ok s1 t)
      have c: "calm s s1" using quiet_pull ok(1) unfolding quiet_def by (metis fst_conv)
      obtain x where p: "round_push env (tf_local t) (tf_startCursor t) s1 = (s', x)" and r: "r = (case x of Inl e \<Rightarrow> Inl e | Inr l \<Rightarrow> Inr (t, l))"
        using ok(2) by (auto simp: bindE_def split: prod.splits sum.splits)
      from p show ?thesis
      proof (cases rule: push_cases)
        case (failed e)
        then show ?thesis using calm_trans [OF c failed(2)] k m run r by (simp add: calm_def vault_of_def)
      next
        case same
        then show ?thesis using c k m run r by (simp add: calm_def vault_of_def)
      next
        case (cleared l1 s2 s3)
        then show ?thesis using calm_trans [OF c cleared(4)] k cleared_vault [OF cleared(5)] m run r
          by (simp add: calm_def vault_of_def)
      qed
    qed
  qed
qed

end
