(* ===== verification/RoundLaws.thy ===== *)
theory RoundLaws
  imports RoundThms StateMergeProps
begin

text \<open>
  A whole round keeps the invariant of the device: no step of it, failed or not, leaves the journal,
  the registry or the content store inconsistent.  The merge and every fold act on files of the
  registry and of the pulled operations only, and these are none of the identities the device will
  draw.
\<close>

section \<open>Steps with a result\<close>

definition okR :: "('s \<Rightarrow> bool) \<Rightarrow> ('s, 'a) act \<Rightarrow> ('a \<Rightarrow> bool) \<Rightarrow> bool" where
  "okR I m R = (\<forall>s s' r. I s \<longrightarrow> m s = (s', r) \<longrightarrow> I s' \<and> (\<forall>x. r = Inr x \<longrightarrow> R x))"

lemma okRI: "(\<And>s s' r. I s \<Longrightarrow> m s = (s', r) \<Longrightarrow> I s' \<and> (\<forall>x. r = Inr x \<longrightarrow> R x)) \<Longrightarrow> okR I m R"
  unfolding okR_def by blast

lemma okR_bind:
  assumes "okR I m R" and "\<And>x. R x \<Longrightarrow> okR I (k x) Q"
  shows "okR I (bindE m k) Q"
proof (rule okRI)
  fix s s' r assume s: "I s" and r: "bindE m k s = (s', r)"
  from r show "I s' \<and> (\<forall>x. r = Inr x \<longrightarrow> Q x)"
  proof (cases rule: bindE_cases)
    case (err e)
    then show ?thesis using assms(1) s unfolding okR_def by blast
  next
    case (ok s1 x)
    then show ?thesis using assms s unfolding okR_def by metis
  qed
qed

lemma okR_ret [simp]: "R x \<Longrightarrow> okR I (retE x) R" "okR I (throwE e) R" "(\<And>x. r = Inr x \<Longrightarrow> R x) \<Longrightarrow> okR I (liftE r) R"
  by (auto simp: okR_def)

lemma bindE_ret: "bindE (retE x) k = k x"
  by (simp add: bindE_def fun_eq_iff)

lemma okR_mono: "okR I m R \<Longrightarrow> (\<And>x. R x \<Longrightarrow> Q x) \<Longrightarrow> okR I m Q"
  unfolding okR_def by blast

lemma okR_iter:
  assumes "\<And>x a. x \<in> set xs \<Longrightarrow> A a \<Longrightarrow> okR I (f x a) A" and "A acc"
  shows "okR I (iterE f xs acc) A"
  using assms
proof (induction xs arbitrary: acc)
  case (Cons x xs)
  have "okR I (f x acc) A" using Cons.prems by simp
  then show ?case unfolding iterE.simps by (rule okR_bind) (use Cons in simp)
qed simp

section \<open>The invariant of a round\<close>

text \<open>
  The logger is sound and has drawn at least \<open>n\<close> identities.
\<close>

definition sound :: "'s round_env \<Rightarrow> nat \<Rightarrow> 's round \<Rightarrow> bool" where
  "sound env n s = (lg_inv (re_logger env) (dv_logger (rd_device s)) \<and> n \<le> lg_ids (dv_logger (rd_device s)))"

abbreviation quietR :: "'s round_env \<Rightarrow> nat \<Rightarrow> ('s round, 'a) act \<Rightarrow> bool" where
  "quietR env n m \<equiv> okR (sound env n) m (\<lambda>_. True)"

lemma soundR_simple [simp, intro]:
  "quietR env n (on_client c)" "quietR env n (on_device (files_read a p))" "quietR env n loadDag" "quietR env n loadCursor"
  "quietR env n (saveCursor k)" "quietR env n (dagNeedsRebuild g)" "quietR env n clock_now" "quietR env n (recordVersionEdges ops g)"
  by (auto simp: okR_def on_client_def sound_def on_device_def files_read_def port_call_def Let_def
      loadDag_def loadCursor_def saveCursor_def dagNeedsRebuild_def clock_now_def recordVersionEdges_def
      split: prod.splits sum.splits option.splits if_splits)

lemma sound_clock [simp, intro]: "quietR env n (advance_clock h)"
  by (auto simp: okR_def sound_def advance_clock_def on_device_def with_logger_def on_oplog_def lg_inv_def parts_ok_def
      log_synced_def blobs_readable_def)

lemma sound_clear [simp, intro]: "quietR env n clearPendingOps"
proof -
  have "lg_ids (clearOps s) = lg_ids s" for s by (simp add: clearOps_def)
  then show ?thesis by (auto simp: okR_def sound_def clearPendingOps_def on_device_def with_logger_def inv_clearOps)
qed

text \<open>A read of the content store may fill its cache.\<close>

lemma get_keeps_inv:
  assumes "env_ok env" and "lg_inv env s" and "cs_get (le_sha env) h (lg_store s) = (c, x)"
  shows "lg_inv env (s\<lparr> lg_store := c \<rparr>)" and "x \<noteq> Inl y"
    and "\<And>b. x = Inr (Some b) \<Longrightarrow> hashContent (le_sha env) b = h"
    and "readable (le_sha env) (lg_store s) h \<Longrightarrow> x \<noteq> Inr None"
proof -
  have st: "store_inv (le_sha env) (lg_store s)" using assms(2) by (simp add: lg_inv_def parts_ok_def)
  then have inv: "cache_inv (le_sha env) (lg_store s)" "packs_inv (le_sha env) (lg_store s)" by (simp_all add: store_inv_def)
  note g = get_inv [OF inv(1), of h]
  have c: "store_inv (le_sha env) c" using cs_step_inv [OF _ step_get st] assms(1,3) by (metis env_ok_def fst_conv)
  have "readable (le_sha env) c k = readable (le_sha env) (lg_store s) k" for k
    using g assms(3) by (intro readable_cong) (simp_all add: same_but_cache_def)
  then show "lg_inv env (s\<lparr> lg_store := c \<rparr>)"
    using assms(2) c by (simp add: lg_inv_def parts_ok_def blobs_readable_def)
  obtain d f where d: "cs_get (le_sha env) h (lg_store s) = (d, Inr f)" "readable (le_sha env) (lg_store s) h \<Longrightarrow> f \<noteq> None"
    using get_packs [OF inv(2,1), of h] by metis
  then show "x \<noteq> Inl y" "readable (le_sha env) (lg_store s) h \<Longrightarrow> x \<noteq> Inr None" using assms(3) by auto
  show "\<And>b. x = Inr (Some b) \<Longrightarrow> hashContent (le_sha env) b = h" using g assms(3) by simp
qed

lemma sound_read:
  assumes "env_ok (re_logger env)"
  shows "quietR env n (store_read env h)"
proof (rule okRI)
  fix s s' r assume s: "sound env n s" and m: "store_read env h s = (s', r)"
  let ?l = "dv_logger (rd_device s)"
  obtain c x where g: "cs_get (le_sha (re_logger env)) h (lg_store ?l) = (c, x)" by fastforce
  have "lg_inv (re_logger env) (?l\<lparr> lg_store := c \<rparr>)" using get_keeps_inv(1) [OF assms _ g] s by (simp add: sound_def)
  then show "sound env n s' \<and> (\<forall>x. r = Inr x \<longrightarrow> True)"
    using m g s by (cases x) (auto simp: store_read_def on_device_def sound_def)
qed

text \<open>The state that staging fills is the same but for its contents.\<close>

definition same_entries :: "VaultState \<Rightarrow> VaultState \<Rightarrow> bool" where
  "same_entries l l' =
     (vs_fileEntries l' = vs_fileEntries l \<and> vs_deviceId l' = vs_deviceId l \<and> vs_hlc l' = vs_hlc l \<and> vs_pendingOps l' = vs_pendingOps l)"

lemma same_entries_refl [simp]: "same_entries l l" "same_entries l (l\<lparr> vs_contentStore := c \<rparr>)"
  by (simp_all add: same_entries_def)

lemma sound_stage:
  assumes "env_ok (re_logger env)"
  shows "okR (sound env n) (stageContent env l hs) (same_entries l)"
proof -
  have "quietR env n (stage_hash env ps h store)" for ps h store
    using sound_read [OF assms, of n h]
    by (auto simp: stage_hash_def intro!: okR_bind [where R = "\<lambda>_. True"] split: option.split)
  then show ?thesis unfolding stageContent_def
    by (intro okR_bind [where R = "\<lambda>_. True"] okR_iter) simp_all
qed

lemma sound_stage_files:
  assumes "env_ok (re_logger env)"
  shows "okR (sound env n) (stageForFiles env l is g) (same_entries l)"
  using sound_stage [OF assms] unfolding okR_def stageForFiles_def Let_def by blast

lemma sound_serve:
  assumes "env_ok (re_logger env)"
  shows "okR (sound env n) (stageLocalContent env l hs) (\<lambda>(l1, served). same_entries l l1)"
proof -
  have "quietR env n (serve_hash env h a)" for h a
    using sound_read [OF assms, of n h]
    by (auto simp: serve_hash_def intro!: okR_bind [where R = "\<lambda>_. True"] split: prod.split option.split)
  then show ?thesis unfolding stageLocalContent_def
    by (intro okR_bind [where R = "\<lambda>_. True"] okR_iter) (auto split: prod.split)
qed

lemma sound_fetch:
  assumes "env_ok (re_logger env)"
  shows "okR (sound env n) (fetchRemoteBlobs env remote local) (\<lambda>(l1, missing). same_entries remote l1)"
  unfolding fetchRemoteBlobs_def Let_def
  by (auto intro!: okR_bind [OF sound_serve [OF assms]] okR_bind [OF soundR_simple(1)] simp: same_entries_def split: prod.split)

section \<open>The snapshot\<close>

definition entries_ok :: "(string, FileEntry) jsmap \<Rightarrow> bool" where
  "entries_ok es = list_all (\<lambda>(i, e). fe_id e = i) es"

lemma entries_ok_set: "entries_ok es \<Longrightarrow> fe_id e = i \<Longrightarrow> entries_ok (jm_set i e es)"
  using set_jm_set [of i e es] by (auto simp: entries_ok_def list_all_iff)

lemma entry_ids_set: "set (jm_keys (jm_set i e es)) \<subseteq> insert i (set (jm_keys es))"
  using set_jm_set [of i e es] by (force simp: jm_keys_def)

lemma sound_entry:
  "okR (sound env n) (identity_entry env refs e a) (\<lambda>_. True)"
  by (auto simp: identity_entry_def intro!: okR_bind [where R = "\<lambda>_. True"] split: prod.split)

definition snapshot_of :: "string set \<Rightarrow> VaultState \<Rightarrow> bool" where
  "snapshot_of K l = (ids_ok l \<and> set (jm_keys (vs_fileEntries l)) \<subseteq> K)"

lemma entry_snapshot:
  assumes "identity_entry env refs e (es, st) s = (s', Inr (es1, st1))" and "entries_ok es" and "set (jm_keys es) \<subseteq> K" and "fe_id e \<in> K"
  shows "entries_ok es1 \<and> set (jm_keys es1) \<subseteq> K"
proof -
  obtain e' where "es1 = jm_set (fe_id e) e' es" "fe_id e' = fe_id e"
    using assms(1)
    by (auto simp: identity_entry_def bindE_Inr_iff Let_def split: if_splits option.splits)
  then show ?thesis using assms(2-4) entries_ok_set entry_ids_set [of "fe_id e" e' es] by auto
qed

lemma entries_snapshot:
  "iterE (identity_entry env refs) es (es0, st) s = (s', Inr (es1, st1)) \<Longrightarrow> entries_ok es0 \<Longrightarrow> set (jm_keys es0) \<subseteq> K \<Longrightarrow>
     fe_id ` set es \<subseteq> K \<Longrightarrow> entries_ok es1 \<and> set (jm_keys es1) \<subseteq> K"
proof (induction es arbitrary: es0 st s)
  case (Cons e es)
  then obtain s1 es2 st2 where e: "identity_entry env refs e (es0, st) s = (s1, Inr (es2, st2))"
    "iterE (identity_entry env refs) es (es2, st2) s1 = (s', Inr (es1, st1))"
    by (auto simp: bindE_Inr_iff)
  have "entries_ok es2 \<and> set (jm_keys es2) \<subseteq> K" using entry_snapshot [OF e(1) Cons.prems(2,3)] Cons.prems(4) by simp
  then show ?case using Cons.IH [OF e(2)] Cons.prems(4) by simp
qed simp

lemma sound_identity: "quietR env n (buildLocalIdentity env)"
proof (rule okRI)
  fix s s' r assume s: "sound env n s" and m: "buildLocalIdentity env s = (s', r)"
  have "quietR env n (iterE (identity_entry env refs) es a)" for refs es a by (rule okR_iter [OF sound_entry]) simp
  then have i: "sound env n s1" if "iterE (identity_entry env refs) es a s = (s1, x)" for refs es a s1 x
    using that s unfolding okR_def by blast
  from m [unfolded buildLocalIdentity_def] show "sound env n s' \<and> (\<forall>x. r = Inr x \<longrightarrow> True)"
    by (cases rule: bindE_cases) (auto split: prod.splits dest!: i)
qed

text \<open>What the snapshot holds: entries of the registry under their own identities.\<close>

lemma identity_snapshot:
  assumes "buildLocalIdentity env s = (s', Inr l)" and "lg_inv (re_logger env) (dv_logger (rd_device s))"
  shows "snapshot_of {i. jm_get (rg_entries (lg_registry (dv_logger (rd_device s)))) i \<noteq> None} l"
    and "vs_pendingOps l = dedupeOpsById (getPendingOps (dv_logger (rd_device s)))"
proof -
  let ?es = "rg_entries (lg_registry (dv_logger (rd_device s)))"
  have k: "keyed ?es" using assms(2) by (simp add: lg_inv_def parts_ok_def reg_inv_def up_to_date_but_def)
  have ids: "fe_id ` set (map snd ?es) \<subseteq> {i. jm_get ?es i \<noteq> None}"
  proof
    fix i assume "i \<in> fe_id ` set (map snd ?es)"
    then obtain j e where "(j, e) \<in> set ?es" "fe_id e = i" by auto
    moreover have "jm_wf ?es" using k by (simp add: keyed_def)
    ultimately have "jm_get ?es j = Some e" by (simp add: jm_wf_get)
    then show "i \<in> {i. jm_get ?es i \<noteq> None}" using k \<open>fe_id e = i\<close> by (auto simp: keyed_def)
  qed
  from assms(1) obtain es st where l: "iterE (identity_entry env (refs_by_path (rd_device s))) (map snd ?es) ([], []) s = (s', Inr (es, st))"
      "vs_fileEntries l = es" "vs_pendingOps l = dedupeOpsById (getPendingOps (dv_logger (rd_device s')))"
    by (auto simp: buildLocalIdentity_def bindE_Inr_iff)
  show "snapshot_of {i. jm_get ?es i \<noteq> None} l"
    using entries_snapshot [OF l(1) _ _ ids] l(2) by (auto simp: snapshot_of_def ids_ok_def entries_ok_def jm_keys_def)
  have "calm s s'" using quiet_identity [of env] assms(1) unfolding quiet_def by (metis fst_conv)
  then show "vs_pendingOps l = dedupeOpsById (getPendingOps (dv_logger (rd_device s)))"
    using l(3) by (simp add: calm_def vault_of_def getPendingOps_def)
qed

section \<open>Identities are only drawn\<close>

lemma ids_steps:
  "lg_ids (fst (on_registry f s)) = lg_ids s" "lg_ids (fst (return s)) = lg_ids s"
  by (simp_all add: on_registry_def return_def split: sum.split)

lemma ids_now: "lg_now env s = (h, s1) \<Longrightarrow> lg_ids s1 = lg_ids s"
  using lg_now_simps [of env s] by simp

lemma ids_lg_register: "lg_register env p t h st s = (i, s1) \<Longrightarrow> lg_ids s1 = Suc (lg_ids s)"
  by (auto simp: lg_register_def split: prod.splits)

lemma ids_and_then:
  assumes "lg_ids s \<le> lg_ids (fst (m s1))" and "\<And>s. lg_ids s \<le> lg_ids (fst (k s))"
  shows "lg_ids s \<le> lg_ids (fst (and_then m k s1))"
proof (cases "m s1")
  case (Pair s2 x)
  then show ?thesis using assms by (cases x) (auto simp: and_then_def intro: order_trans)
qed

lemma ids_create: "lg_ids s \<le> lg_ids (fst (handleCreate env v p s))"
  by (auto simp: handleCreate_def Let_def ids_now ids_lg_register ids_steps split: prod.split option.split)

lemma ids_resolve: "lg_ids s \<le> lg_ids (fst (resolve_save env p e c h ps s))"
  by (auto simp: resolve_save_def Let_def ids_steps ids_now intro!: ids_and_then split: prod.split)

lemma ids_modify: "lg_ids s \<le> lg_ids (fst (flushModify env v p s))"
  using ids_create [of s env v p] ids_resolve
  by (auto simp: flushModify_def Let_def ids_steps ids_now intro!: ids_and_then split: prod.split option.split)

definition draws :: "(device, 'a) act \<Rightarrow> bool" where
  "draws m = (\<forall>n. keepsE (\<lambda>d. n \<le> lg_ids (dv_logger d)) m)"

lemma draws_le: "draws m \<Longrightarrow> m d = (d', r) \<Longrightarrow> lg_ids (dv_logger d) \<le> lg_ids (dv_logger d')"
  unfolding draws_def keepsE_def by (metis fst_conv order_refl)

lemma draws_after: "draws (after_loop aenv actions local p)"
proof -
  have l: "lg_ids (fold (record_resolution aenv) xs s) = lg_ids s" for xs s
    by (induction xs arbitrary: s) (simp_all add: record_resolution_def recordMergeOp_def recordMergeDelete_def)
  have r: "lg_ids (dv_logger d) \<le> lg_ids (dv_logger (fst (recapture aenv local i u d)))" for i u d
    using ids_modify [of "dv_logger d"]
    by (auto simp: recapture_def logger_call_def recaptureLocalEdit_def split: option.splits prod.splits) (metis fst_conv)+
  have "keepsE (\<lambda>d. n \<le> lg_ids (dv_logger d)) (recapture aenv local i u)" for n i u
    unfolding keepsE_def using r order_trans by blast
  then show ?thesis unfolding draws_def after_loop_def
    by (intro allI keepsE_bind keepsE_iter)
      (auto simp: keepsE_def updateSyncedPaths_def with_registry_def with_logger_def l)
qed

lemma draws_loop:
  assumes "env_ok env" and "ae_logger aenv = env" and "lg_inv env (dv_logger d)"
    and "ma_fileId ` set actions \<inter> le_uuid env ` {lg_ids (dv_logger d)..} = {}"
    and "apply_loop aenv local actions new_apply (begin_apply d) = (d1, r)"
  shows "lg_ids (dv_logger d) \<le> lg_ids (dv_logger d1)"
proof -
  let ?ids = "- le_uuid env ` {lg_ids (dv_logger d)..}"
  have "loop_ok env ?ids (dv_logger (begin_apply d))" by (rule begin_ok [OF assms(3)]) simp
  moreover have "ma_fileId ` set actions \<subseteq> ?ids" using assms(4) by blast
  moreover have "holds env (pass_needs new_apply) (begin_apply d)" by (simp add: holds_def)
  ultimately have "loop_ok env ?ids (dv_logger d1)"
    using apply_loop_ok [OF assms(1,2), of actions ?ids new_apply local] assms(5) unfolding ok_act_def by blast
  then have "le_uuid env ` {lg_ids (dv_logger d1)..} \<subseteq> le_uuid env ` {lg_ids (dv_logger d)..}"
    by (auto simp: loop_ok_def)
  moreover have "inj (le_uuid env)" using assms(1) by (simp add: env_ok_def)
  ultimately show ?thesis by (simp add: inj_image_subset_iff)
qed

lemma apply_draws:
  assumes "env_ok env" and "ae_logger aenv = env" and "lg_inv env (dv_logger d)"
    and "ma_fileId ` set actions \<inter> le_uuid env ` {lg_ids (dv_logger d)..} = {}"
    and "applyActions aenv actions local d = (d', r)"
  shows "lg_ids (dv_logger d) \<le> lg_ids (dv_logger d')"
proof -
  obtain d1 x where l: "apply_loop aenv local actions new_apply (begin_apply d) = (d1, x)" by fastforce
  note loop = draws_loop [OF assms(1-4) l]
  have e: "lg_ids (dv_logger (end_loop d1)) = lg_ids (dv_logger d1)" "lg_ids (dv_logger (end_apply aenv d2)) = lg_ids (dv_logger d2)" for d2
    by (simp_all add: end_loop_def pc_flush_def clearOps_def end_apply_def Let_def)
  show ?thesis
  proof (cases x)
    case (Inl y)
    then show ?thesis using assms(5) l loop e by (auto simp: applyActions_def)
  next
    case (Inr p)
    obtain d2 y where a: "after_loop aenv actions local p (end_loop d1) = (d2, y)" by fastforce
    have "lg_ids (dv_logger d1) \<le> lg_ids (dv_logger d2)" using draws_le [OF draws_after a] e by simp
    then show ?thesis using assms(5) l loop e a Inr by (cases y) (auto simp: applyActions_def)
  qed
qed

lemma sound_apply:
  assumes "env_ok (re_logger env)" and "ma_fileId ` set actions \<inter> le_uuid (re_logger env) ` {n..} = {}"
  shows "quietR env n (applyMerge env actions local)"
proof (rule okRI)
  fix s s' r assume s: "sound env n s" and m: "applyMerge env actions local s = (s', r)"
  let ?d = "rd_device s"
  obtain d' where d': "applyActions (re_apply env) actions local ?d = (d', r)" "s' = s\<lparr> rd_device := d' \<rparr>"
    using m by (auto simp: applyMerge_def on_device_def split: prod.splits)
  have "ma_fileId ` set actions \<inter> le_uuid (re_logger env) ` {lg_ids (dv_logger ?d)..} = {}"
    using assms(2) s unfolding sound_def by fastforce
  note fresh = this
  have inv: "lg_inv (re_logger env) (dv_logger ?d)" using s by (simp add: sound_def)
  have "lg_inv (re_logger env) (dv_logger d')" using apply_good [OF assms(1) refl inv fresh, of local] d'(1) by auto
  moreover have "lg_ids (dv_logger ?d) \<le> lg_ids (dv_logger d')" by (rule apply_draws [OF assms(1) refl inv fresh d'(1)])
  ultimately show "sound env n s' \<and> (\<forall>x. r = Inr x \<longrightarrow> True)" using s d'(2) by (simp add: sound_def)
qed

section \<open>The merge and the folds\<close>

lemma actions_of_snapshots:
  assumes "mergeVaultStates dec local remote dag = Inr r" and "snapshot_of K local" and "snapshot_of L remote"
  shows "ma_fileId ` set (sm_actions r) \<subseteq> K \<union> L"
proof -
  have "map ma_fileId (sm_actions r) = js_set_of (jm_keys (vs_fileEntries local) @ jm_keys (vs_fileEntries remote))"
    using merge_one_action_per_file [OF _ _ assms(1)] assms(2,3) by (simp add: snapshot_of_def)
  then have "ma_fileId ` set (sm_actions r) = set (jm_keys (vs_fileEntries local)) \<union> set (jm_keys (vs_fileEntries remote))"
    by (metis set_append list.set_map set_js_set_of)
  then show ?thesis using assms(2,3) by (auto simp: snapshot_of_def)
qed

lemma sound_merge:
  assumes "snapshot_of K local" and "snapshot_of L remote"
  shows "okR (sound env n) (merge_states env local remote dag) (\<lambda>r. ma_fileId ` set (sm_actions r) \<subseteq> K \<union> L)"
  using actions_of_snapshots [OF _ assms] unfolding merge_states_def
  by (cases "mergeVaultStates (le_decode (re_logger env)) local remote (Some dag)") simp_all

lemma same_snapshot: "same_entries l l' \<Longrightarrow> snapshot_of K l \<Longrightarrow> snapshot_of K l'"
  by (simp add: same_entries_def snapshot_of_def ids_ok_def)

lemma single_snapshot: "fe_id le = i \<Longrightarrow> i \<in> K \<Longrightarrow> snapshot_of K (singleFileState l i le)"
  by (simp add: snapshot_of_def singleFileState_def ids_ok_def jm_keys_def)

lemma leaf_snapshot: "op_fileId op \<in> K \<Longrightarrow> snapshot_of K (leafRemoteState op v h b)"
  by (simp add: snapshot_of_def leafRemoteState_def ids_ok_def jm_keys_def)

lemma sound_fold:
  assumes "env_ok (re_logger env)" and "K \<inter> le_uuid (re_logger env) ` {n..} = {}" and "fe_id le = i" and "i \<in> K" and "op_fileId op \<in> K"
  shows "quietR env n (fold_leaf env local dag i le op v p)"
proof -
  have m: "okR (sound env n) (merge_states env (singleFileState local i le) (leafRemoteState op v h b) dag)
      (\<lambda>r. ma_fileId ` set (sm_actions r) \<inter> le_uuid (re_logger env) ` {n..} = {})" for h b
    by (rule okR_mono [OF sound_merge [OF single_snapshot [OF assms(3,4)] leaf_snapshot [OF assms(5)]]]) (use assms(2) in blast)
  have b: "quietR env n (leaf_bytes env local h)" for h by (auto simp: leaf_bytes_def split: option.split)
  show ?thesis unfolding fold_leaf_def Let_def
    by (intro okR_bind [OF b])
      (auto intro!: okR_bind [OF m] okR_bind [OF soundR_simple(7)] okR_bind [OF sound_clock] okR_bind [OF sound_apply [OF assms(1)]]
        split: option.split prod.split)
qed

definition ops_in :: "string set \<Rightarrow> (string, Operation) jsmap \<Rightarrow> bool" where
  "ops_in K m = (\<forall>v op. jm_get m v = Some op \<longrightarrow> op_fileId op \<in> K)"

lemma sound_sweep_file:
  assumes "env_ok (re_logger env)" and "K \<inter> le_uuid (re_logger env) ` {n..} = {}" and "ids_ok local" and "ops_in K opById" and "i \<in> K"
  shows "quietR env n (sweep_file env local dag leavesOf opById deferred i p)"
proof (cases "jm_get (vs_fileEntries local) i")
  case (Some le)
  have le: "fe_id le = i" by (rule ids_ok_get [OF assms(3) Some])
  have f: "quietR env n (fold_leaf env local dag i le (the (jm_get opById v)) v q)"
    if "foldable dag opById tried i h v" for v q tried h
  proof -
    from that obtain op where "jm_get opById v = Some op" by (auto simp: foldable_def split: option.splits)
    then show ?thesis using sound_fold [OF assms(1,2) le assms(5)] assms(4) by (simp add: ops_in_def)
  qed
  have "quietR env n (fold_leaf env local dag i le (the (jm_get opById v)) v q)"
    if "filter (foldable dag opById (sp_attempted p) i h) vs = v # ws" for h vs v ws q
    by (rule f [of "sp_attempted p" h]) (use filter_eq_ConsD [OF that] in blast)
  then show ?thesis
    by (auto simp: sweep_file_def Some Let_def split: list.split)
qed (simp add: sweep_file_def)

lemma sound_sweep:
  assumes "env_ok (re_logger env)" and "K \<inter> le_uuid (re_logger env) ` {n..} = {}" and "ops_in K opById" and "set touched \<subseteq> K"
  shows "quietR env n (sweep_loop k env touched opById deferred dag p)"
proof (induction k arbitrary: dag p)
  case (Suc k)
  have f: "quietR env n (iterE (sweep_file env l dag1 ls opById deferred) (sort touched) q)" if "ids_ok l" for l dag1 ls q
    by (rule okR_iter [OF sound_sweep_file [OF assms(1,2) that assms(3)]]) (use assms(4) in auto)
  have i: "okR (sound env n) (buildLocalIdentity env) ids_ok"
    unfolding okR_def
  proof (intro allI impI)
    fix s s' r assume s: "sound env n s" and m: "buildLocalIdentity env s = (s', r)"
    have "sound env n s'" using sound_identity [of env n] s m unfolding okR_def by blast
    moreover have "ids_ok l" if "r = Inr l" for l
      using identity_snapshot(1) [of env s s' l] m that s by (auto simp: sound_def snapshot_of_def)
    ultimately show "sound env n s' \<and> (\<forall>x. r = Inr x \<longrightarrow> ids_ok x)" by blast
  qed
  have st: "okR (sound env n) (stageForFiles env l is g) ids_ok" if "ids_ok l" for l "is" g
    by (rule okR_mono [OF sound_stage_files [OF assms(1)]]) (use that in \<open>simp add: same_entries_def ids_ok_def\<close>)
  show ?case unfolding sweep_loop.simps
    by (rule okR_bind [OF i], rule okR_bind [OF soundR_simple(8)], rule okR_bind [OF st], assumption, rule okR_bind [OF f], assumption)
      (simp add: Suc)
qed simp

lemma fold_set_get: "jm_get (fold (\<lambda>p. jm_set (f p) (g p)) ps m) v = Some x \<Longrightarrow> jm_get m v = Some x \<or> x \<in> g ` set ps"
  by (induction ps arbitrary: m) (fastforce split: if_splits)+

definition pulled_files :: "pulled_op list \<Rightarrow> string set" where
  "pulled_files ps = (\<lambda>p. op_fileId (po_op p)) ` set ps"

lemma sound_reconcile:
  assumes "env_ok (re_logger env)" and "pulled_files pulled \<inter> le_uuid (re_logger env) ` {n..} = {}"
  shows "quietR env n (reconcileConcurrentHeads env pulled dag own missing deferred failures)"
proof -
  have "ops_in (pulled_files pulled) (fold (\<lambda>p m. jm_set (op_id (po_op p)) (po_op p) m) pulled [])"
    using fold_set_get [of "\<lambda>p. op_id (po_op p)" po_op pulled "[]"] by (fastforce simp: ops_in_def pulled_files_def)
  moreover have "set (touched_files pulled own) \<subseteq> pulled_files pulled" by (auto simp: touched_files_def pulled_files_def)
  ultimately have "quietR env n (sweep_loop k env (touched_files pulled own) (fold (\<lambda>p m. jm_set (op_id (po_op p)) (po_op p) m) pulled [])
      deferred dag p)" for k p
    by (rule sound_sweep [OF assms])
  then show ?thesis unfolding reconcileConcurrentHeads_def Let_def
    by (auto intro!: okR_bind [where R = "\<lambda>_. True"] simp del: sweep_loop.simps)
qed

lemma sound_round_merge:
  assumes "env_ok (re_logger env)" and "snapshot_of K local" and "snapshot_of L (tf_remote t)"
    and "(K \<union> L \<union> pulled_files (tf_pulled t)) \<inter> le_uuid (re_logger env) ` {n..} = {}"
  shows "quietR env n (round_merge env t local)"
proof -
  have st: "okR (sound env n) (stageMergeContent env local (tf_remote t) g) (snapshot_of K)" for g
    unfolding stageMergeContent_def
    by (rule okR_mono [OF sound_stage_files [OF assms(1)]]) (use assms(2) same_snapshot in blast)
  have m: "okR (sound env n) (merge_states env l (tf_remote t) g) (\<lambda>r. ma_fileId ` set (sm_actions r) \<inter> le_uuid (re_logger env) ` {n..} = {})"
    if "snapshot_of K l" for l g
    by (rule okR_mono [OF sound_merge [OF that assms(3)]]) (use assms(4) in blast)
  have r: "quietR env n (reconcileConcurrentHeads env (tf_pulled t) dag own missing deferred failures)" for dag own missing deferred failures
    by (rule sound_reconcile [OF assms(1)]) (use assms(4) in blast)
  show ?thesis unfolding round_merge_def
    by (rule okR_bind [OF soundR_simple(8)], rule okR_bind [OF st], rule okR_bind [OF m], assumption, rule okR_bind [OF sound_clock])
      (auto intro!: okR_bind [OF sound_apply [OF assms(1)]] okR_bind [OF r] okR_bind [OF soundR_simple(5)] split: prod.split)
qed

section \<open>The transfer\<close>

lemma project_snapshot:
  "entries_ok (fst a) \<Longrightarrow> set (jm_keys (fst a)) \<subseteq> K \<Longrightarrow> op_fileId ` set ops \<subseteq> K \<Longrightarrow>
     entries_ok (fst (fold (project_op own) ops a)) \<and> set (jm_keys (fst (fold (project_op own) ops a))) \<subseteq> K"
proof (induction ops arbitrary: a)
  case (Cons op ops)
  obtain es m where a: "a = (es, m)" by fastforce
  have "fst (project_op own op a) = es \<or> (\<exists>e. fst (project_op own op a) = jm_set (op_fileId op) e es \<and> fe_id e = op_fileId op)"
    by (auto simp: a project_op_def Let_def)
  then have "entries_ok (fst (project_op own op a)) \<and> set (jm_keys (fst (project_op own op a))) \<subseteq> K"
  proof
    assume "\<exists>e. fst (project_op own op a) = jm_set (op_fileId op) e es \<and> fe_id e = op_fileId op"
    then obtain e where "fst (project_op own op a) = jm_set (op_fileId op) e es" "fe_id e = op_fileId op" by blast
    moreover have "entries_ok es" "set (jm_keys es) \<subseteq> K" "op_fileId op \<in> K" using Cons.prems a by simp_all
    ultimately show ?thesis using entries_ok_set [of es e] entry_ids_set [of "op_fileId op" e es] by auto
  qed (use Cons.prems a in simp)
  then show ?case using Cons.IH [of "project_op own op a"] Cons.prems(3) by simp
qed simp

lemma remote_snapshot: "snapshot_of (pulled_files ps) (reconstructRemoteState (map po_op ps) own)"
proof -
  have "entries_ok (fst (fold (project_op own) (map po_op ps) ([], None))) \<and>
      set (jm_keys (fst (fold (project_op own) (map po_op ps) ([], None)))) \<subseteq> pulled_files ps"
    by (rule project_snapshot) (auto simp: entries_ok_def jm_keys_def pulled_files_def)
  then show ?thesis by (auto simp: reconstructRemoteState_def snapshot_of_def ids_ok_def entries_ok_def split: prod.split)
qed

text \<open>The device of the start, but for its content cache.\<close>

definition since :: "'s round_env \<Rightarrow> 's round \<Rightarrow> 's round \<Rightarrow> bool" where
  "since env s0 s = (sound env (lg_ids (dv_logger (rd_device s0))) s \<and> calm s0 s)"

lemma since_quiet:
  assumes "okR (sound env (lg_ids (dv_logger (rd_device s0)))) m R" and "quiet m"
  shows "okR (since env s0) m R"
  unfolding okR_def since_def
proof (intro allI impI)
  fix s s' r assume s: "sound env (lg_ids (dv_logger (rd_device s0))) s \<and> calm s0 s" and m: "m s = (s', r)"
  have "calm s s'" using assms(2) m unfolding quiet_def by (metis fst_conv)
  then show "(sound env (lg_ids (dv_logger (rd_device s0))) s' \<and> calm s0 s') \<and> (\<forall>x. r = Inr x \<longrightarrow> R x)"
    using assms(1) s m calm_trans unfolding okR_def by blast
qed

lemma sound_check:
  "quietR env n (check_key env)" "quietR env n (heal_dag g)" "quietR env n (stamp_key env)"
  by (auto simp: check_key_def heal_dag_def stamp_key_def Let_def
      intro!: okR_bind [OF soundR_simple(1)] okR_bind [OF soundR_simple(6)] okR_bind [where R = "\<lambda>_. True"]
      split: prod.split option.split)

definition start_snapshot :: "'s round \<Rightarrow> VaultState \<Rightarrow> bool" where
  "start_snapshot s0 l =
     (snapshot_of {i. jm_get (rg_entries (lg_registry (dv_logger (rd_device s0)))) i \<noteq> None} l \<and>
      vs_pendingOps l = dedupeOpsById (getPendingOps (dv_logger (rd_device s0))))"

lemma since_identity: "okR (since env s0) (buildLocalIdentity env) (start_snapshot s0)"
  unfolding okR_def
proof (intro allI impI)
  fix s s' r assume s: "since env s0 s" and m: "buildLocalIdentity env s = (s', r)"
  have "since env s0 s'" using since_quiet [OF sound_identity quiet_identity] s m unfolding okR_def by blast
  moreover have "start_snapshot s0 l" if "r = Inr l" for l
    using identity_snapshot [of env s s' l] m that s
    by (auto simp: start_snapshot_def since_def sound_def calm_def vault_of_def getPendingOps_def)
  ultimately show "since env s0 s' \<and> (\<forall>x. r = Inr x \<longrightarrow> start_snapshot s0 x)" by blast
qed

lemmas since_steps =
  since_quiet [OF soundR_simple(1) quiet_steps(1)] since_quiet [OF soundR_simple(3) quiet_steps(4)]
  since_quiet [OF soundR_simple(4) quiet_steps(5)] since_quiet [OF sound_check(1) quiet_check(1)]
  since_quiet [OF sound_check(2) quiet_check(2)] since_quiet [OF sound_check(3) quiet_check(3)]

definition pulled_from :: "'s round \<Rightarrow> transfer \<Rightarrow> bool" where
  "pulled_from s0 t = (start_snapshot s0 (tf_local t) \<and> snapshot_of (pulled_files (tf_pulled t)) (tf_remote t))"

lemma since_pull:
  assumes "env_ok (re_logger env)"
  shows "okR (since env s0) (round_pull env) (pulled_from s0)"
proof -
  have f: "okR (since env s0) (fetchRemoteBlobs env (reconstructRemoteState (map po_op ps) own) l)
      (\<lambda>(r, missing). snapshot_of (pulled_files ps) r)" for ps own l
    by (rule okR_mono [OF since_quiet [OF sound_fetch [OF assms] quiet_fetch]])
      (use same_snapshot [OF _ remote_snapshot] in \<open>auto split: prod.splits\<close>)
  show ?thesis unfolding round_pull_def Let_def
    by (rule okR_bind [OF since_steps(1)], rule okR_bind [OF since_steps(4)], rule okR_bind [OF since_steps(2)],
        rule okR_bind [OF since_steps(5)], rule okR_bind [OF since_steps(1)], rule okR_bind [OF since_identity],
        rule okR_bind [OF since_steps(3)], rule okR_bind [OF since_steps(1)])
      (auto intro!: okR_bind [OF since_steps(1)] okR_bind [OF f] okR_bind [OF since_steps(6)] simp: bindE_ret pulled_from_def split: prod.splits)
qed

lemma sound_push:
  assumes "env_ok (re_logger env)"
  shows "okR (sound env n) (round_push env local c) (same_entries local)"
  unfolding round_push_def
  by (auto intro!: okR_bind [OF sound_stage [OF assms]] okR_bind [OF soundR_simple(1)] okR_bind [OF sound_clear])

lemma transfer_sound:
  assumes "env_ok (re_logger env)" and "lg_inv (re_logger env) (dv_logger (rd_device s))" and "round_transfer env s = (s', r)"
  shows "sound env (lg_ids (dv_logger (rd_device s))) s'"
    and "r = Inr (t, l) \<Longrightarrow> pulled_from s t \<and> same_entries (tf_local t) l"
proof -
  let ?n = "lg_ids (dv_logger (rd_device s))"
  have s: "since env s s" using assms(2) by (simp add: sound_def since_def calm_def)
  have "sound env ?n s' \<and> (r = Inr (t, l) \<longrightarrow> pulled_from s t \<and> same_entries (tf_local t) l)"
  proof (cases "isReady (ce_crypto (re_client env))")
    case True
    let ?push = "\<lambda>t. bindE (round_push env (tf_local t) (tf_startCursor t)) (\<lambda>local. retE (t, local))"
    have "bindE (round_pull env) ?push s = (s', r)" using assms(3) True by (simp add: round_transfer_def)
    then show ?thesis
    proof (cases rule: bindE_cases)
      case (err e)
      then show ?thesis using since_pull [OF assms(1), of s] s unfolding okR_def since_def by blast
    next
      case (ok s1 t1)
      have p: "since env s s1" "pulled_from s t1" using since_pull [OF assms(1), of s] s ok(1) unfolding okR_def by blast+
      then have "sound env ?n s1" by (simp add: since_def)
      moreover have "okR (sound env ?n) (?push t1) (\<lambda>(t, local). t = t1 \<and> same_entries (tf_local t1) local)"
        by (rule okR_bind [OF sound_push [OF assms(1)]]) simp
      ultimately show ?thesis using ok(2) p(2) unfolding okR_def by fastforce
    qed
  qed (use assms(3) s in \<open>auto simp: round_transfer_def since_def\<close>)
  then show "sound env ?n s'" "r = Inr (t, l) \<Longrightarrow> pulled_from s t \<and> same_entries (tf_local t) l" by blast+
qed

lemma round_sound:
  assumes "env_ok (re_logger env)" and "lg_inv (re_logger env) (dv_logger (rd_device s))"
    and "case snd (round_transfer env s) of Inl e \<Rightarrow> True | Inr (t, local) \<Rightarrow>
      pulled_files (tf_pulled t) \<inter> le_uuid (re_logger env) ` {lg_ids (dv_logger (rd_device s))..} = {}"
  shows "lg_inv (re_logger env) (dv_logger (rd_device (fst (runSync env s))))"
proof -
  let ?n = "lg_ids (dv_logger (rd_device s))" and ?K = "{i. jm_get (rg_entries (lg_registry (dv_logger (rd_device s)))) i \<noteq> None}"
  have K: "?K \<inter> le_uuid (re_logger env) ` {?n..} = {}"
    using assms(2) by (auto simp: lg_inv_def parts_ok_def ids_fresh_def)
  obtain s1 r where t: "round_transfer env s = (s1, r)" by fastforce
  note transfer = transfer_sound [OF assms(1,2) t]
  show ?thesis
  proof (cases r)
    case (Inl e)
    then show ?thesis using transfer(1) t by (simp add: runSync_def bindE_def sound_def)
  next
    case (Inr x)
    obtain t0 l where x: "x = (t0, l)" by fastforce
    have p: "pulled_from s t0" "same_entries (tf_local t0) l" using transfer(2) Inr x by blast+
    then have l: "snapshot_of ?K l" "snapshot_of (pulled_files (tf_pulled t0)) (tf_remote t0)"
      using same_snapshot by (auto simp: pulled_from_def start_snapshot_def)
    have "(?K \<union> pulled_files (tf_pulled t0) \<union> pulled_files (tf_pulled t0)) \<inter> le_uuid (re_logger env) ` {?n..} = {}"
      using K assms(3) t Inr x by auto
    from sound_round_merge [OF assms(1) l this]
    have "sound env ?n (fst (round_merge env t0 l s1))" using transfer(1) unfolding okR_def by (metis prod.collapse)
    moreover have "runSync env s = round_merge env t0 l s1" using t Inr x by (simp add: runSync_def bindE_def)
    ultimately show ?thesis by (simp add: sound_def)
  qed
qed

section \<open>A server with an empty log\<close>

definition bare :: "fake_server round \<Rightarrow> bool" where
  "bare s = (fk_log (cl_server (rd_client s)) = [] \<and> fake_inv (cl_server (rd_client s)))"

lemma bare_device: "okR bare (on_device m) (\<lambda>_. True)"
  by (auto simp: okR_def on_device_def bare_def split: prod.splits)

lemma bare_client: "keepsE (\<lambda>c. fk_log (cl_server c) = [] \<and> fake_inv (cl_server c)) m \<Longrightarrow> okR bare (on_client m) (\<lambda>_. True)"
  by (fastforce simp: okR_def on_client_def bare_def keepsE_def split: prod.splits)

lemma bare_preflight:
  assumes "ce_api env = fake_api"
  shows "keepsE (\<lambda>c. fk_log (cl_server c) = [] \<and> fake_inv (cl_server c)) (preflight_loop env key ws e)"
proof (induction ws arbitrary: e)
  case (Cons w ws)
  show ?case unfolding preflight_loop.simps
    by (intro keepsE_bind keepsE_catch)
      (use Cons in \<open>auto simp: assms keepsE_def check_cancel_def throwIfCancelled_def sleep_def on_server_def fake_api_def fake_preflight_def Let_def\<close>)
qed simp

lemma bare_steps:
  "okR bare loadDag (\<lambda>_. True)" "okR bare loadCursor (\<lambda>_. True)" "okR bare (heal_dag g) (\<lambda>_. True)"
  "okR bare (on_client (check_cancel e)) (\<lambda>_. True)"
  by (auto simp: okR_def bare_def loadDag_def loadCursor_def heal_dag_def saveCursor_def dagNeedsRebuild_def bindE_def on_client_def
      check_cancel_def throwIfCancelled_def split: prod.splits sum.splits if_splits)

lemma bare_check:
  assumes "ce_api (re_client env) = fake_api"
  shows "okR bare (check_key env) (\<lambda>_. True)"
  unfolding check_key_def Let_def preflightWithRetry_def
  by (rule okR_bind [OF bare_client [OF bare_preflight [OF assms]]])
    (auto intro!: okR_bind [where R = "\<lambda>_. True"] split: prod.split option.split)

lemma bare_identity: "okR bare (buildLocalIdentity env) (\<lambda>_. True)"
  unfolding okR_def
proof (intro allI impI)
  fix s s' r assume s: "bare s" and m: "buildLocalIdentity env s = (s', r)"
  have "okR bare (identity_entry env refs e a) (\<lambda>_. True)" for refs e a
    by (auto simp: identity_entry_def intro!: okR_bind [OF bare_device] split: prod.split)
  then have "okR bare (iterE (identity_entry env refs) es a) (\<lambda>_. True)" for refs es a by (intro okR_iter) auto
  then have i: "bare s1" if "iterE (identity_entry env refs) es a s = (s1, x)" for refs es a s1 x
    using that s unfolding okR_def by blast
  from m [unfolded buildLocalIdentity_def] show "bare s' \<and> (\<forall>x. r = Inr x \<longrightarrow> True)"
    by (cases rule: bindE_cases) (auto split: prod.splits dest!: i)
qed

lemma bare_pull_all:
  assumes "client_ok env" and "0 < ce_fuel env"
  shows "okR bare (on_client (pullAll env cursor)) (\<lambda>(ps, n). ps = [] \<and> n = cursor)"
  unfolding okR_def
proof (intro allI impI)
  fix s s' r assume s: "bare s" and m: "on_client (pullAll env cursor) s = (s', r)"
  let ?f = "cl_server (rd_client s)"
  have log: "sv_log (fake_view ?f) = []" "fake_inv ?f" using s by (simp_all add: bare_def)
  have "1 \<le> ce_opsLimit env" using assms(1) by (simp add: client_ok_def)
  then obtain c' where c': "pullAll env cursor (rd_client s) = (c', Inr ([], cursor))" "fake_inv (cl_server c')"
      "fake_view (cl_server c') = fake_view ?f"
    using fake.pull_complete [OF client_usable [OF assms(1)] _ log(2), of cursor] assms(2) log(1)
    by (auto simp: behind_def end_cursor_def legible_def)
  have "fk_log (cl_server c') = []" using c'(3) log(1) by (metis fake_view_simps(1))
  then show "bare s' \<and> (\<forall>x. r = Inr x \<longrightarrow> (case x of (ps, n) \<Rightarrow> ps = [] \<and> n = cursor))"
    using m c'(1,2) by (auto simp: on_client_def bare_def)
qed

definition leads :: "('s \<Rightarrow> bool) \<Rightarrow> ('s, 'a) act \<Rightarrow> ('a \<Rightarrow> bool) \<Rightarrow> bool" where
  "leads I m Q = (\<forall>s s' x. I s \<longrightarrow> m s = (s', Inr x) \<longrightarrow> Q x)"

lemma leads_bind: "okR I m R \<Longrightarrow> (\<And>x. R x \<Longrightarrow> leads I (k x) Q) \<Longrightarrow> leads I (bindE m k) Q"
  unfolding leads_def okR_def bindE_Inr_iff by metis

lemma leads_any: "(\<And>x. leads (\<lambda>_. True) (k x) Q) \<Longrightarrow> leads I (bindE m k) Q"
  unfolding leads_def bindE_Inr_iff by metis

lemma leads_ret: "Q x \<Longrightarrow> leads I (retE x) Q"
  by (simp add: leads_def)

lemma bare_transfer:
  assumes "client_ok (re_client env)" and "0 < ce_fuel (re_client env)" and "bare s" and "round_transfer env s = (s', Inr (t, l))"
  shows "tf_pulled t = [] \<and> tf_pulledCursor t = tf_startCursor t"
proof -
  have api: "ce_api (re_client env) = fake_api" using assms(1) by (simp add: client_ok_def)
  have "leads bare (round_pull env) (\<lambda>t. tf_pulled t = [] \<and> tf_pulledCursor t = tf_startCursor t)"
    unfolding round_pull_def Let_def
    by (rule leads_bind [OF bare_steps(4)], rule leads_bind [OF bare_check [OF api]], rule leads_bind [OF bare_steps(1)],
        rule leads_bind [OF bare_steps(3)], rule leads_bind [OF bare_steps(4)], rule leads_bind [OF bare_identity],
        rule leads_bind [OF bare_steps(2)], rule leads_bind [OF bare_pull_all [OF assms(1,2)]])
      (auto intro!: leads_any leads_ret)
  then show ?thesis using assms(3,4) by (auto simp: round_transfer_def bindE_Inr_iff leads_def split: if_splits)
qed

definition sample_round_env :: "fake_server round_env" where
  "sample_round_env = \<lparr> re_client = sample_client 9, re_apply = sample_apply, re_deviceId = ''d'' \<rparr>"

definition sample_round :: "fake_server round" where
  "sample_round = \<lparr> rd_client = new_client new_fake_server, rd_device = sample_device, rd_dag = [], rd_cursor = [] \<rparr>"

lemma sample_round_bare: "bare sample_round"
  using fake_new_inv by (simp add: bare_def sample_round_def new_client_def) (simp add: new_fake_server_def)

lemma sample_round_client: "client_ok (re_client sample_round_env)" "0 < ce_fuel (re_client sample_round_env)"
  by (simp_all add: sample_round_env_def sample_client_ok) (simp add: sample_client_def new_client_env_def)

lemmas sample_transfer = bare_transfer [OF sample_round_client sample_round_bare]

section \<open>Properties\<close>

text \<open>
  C1: From a sound device, every round, whether it completes, fails or is cancelled, ends with a sound
  device, as long as no file a peer sends has an identity that this device has yet to draw: its
  journal is the pending operations, and each of them has its content in the store.
\<close>

theorem round_keeps_device:
  assumes "env_ok (re_logger env)" and "lg_inv (re_logger env) (dv_logger (rd_device s))"
    and "case snd (round_transfer env s) of Inl e \<Rightarrow> True | Inr (t, local) \<Rightarrow>
      pulled_files (tf_pulled t) \<inter> le_uuid (re_logger env) ` {lg_ids (dv_logger (rd_device s))..} = {}"
  shows "let u = dv_logger (rd_device (fst (runSync env s)))
    in lg_inv (re_logger env) u \<and>
       md_read (ol_metadata (lg_log u)) OPLOG_PATH \<in> {Some (ops_text (getPendingOps u))} \<union> (if getPendingOps u = [] then {None} else {}) \<and>
       {op_contentHash p | p. p \<in> set (getPendingOps u) \<and> op_type p \<in> {OpCreate, OpUpdate}} \<subseteq>
         {k. \<exists>b. snd (cs_get (le_sha (re_logger env)) k (cs_init budget (cs_metadata (lg_store u)))) = Inr (Some b) \<and>
            hashContent (le_sha (re_logger env)) b = k}"
  using sound_device [OF round_sound [OF assms]] by (simp add: Let_def)

theorem round_keeps_device_witness:
  "let u = dv_logger (rd_device (fst (runSync sample_round_env sample_round)))
    in lg_inv sample_env u \<and>
       md_read (ol_metadata (lg_log u)) OPLOG_PATH \<in> {Some (ops_text (getPendingOps u))} \<union> (if getPendingOps u = [] then {None} else {}) \<and>
       {op_contentHash p | p. p \<in> set (getPendingOps u) \<and> op_type p \<in> {OpCreate, OpUpdate}} \<subseteq>
         {k. \<exists>b. snd (cs_get (le_sha sample_env) k (cs_init 7 (cs_metadata (lg_store u)))) = Inr (Some b) \<and>
            hashContent (le_sha sample_env) b = k}"
proof -
  have e: "re_logger sample_round_env = sample_env" by (simp add: sample_round_env_def sample_apply_def)
  have i: "lg_inv sample_env (dv_logger (rd_device sample_round))"
    using sample_device_ok(1) by (simp add: sample_apply_def sample_round_def)
  have "case snd (round_transfer sample_round_env sample_round) of Inl e \<Rightarrow> True | Inr (t, local) \<Rightarrow>
      pulled_files (tf_pulled t) \<inter> le_uuid sample_env ` {lg_ids (dv_logger (rd_device sample_round))..} = {}"
    using sample_transfer
    by (cases "round_transfer sample_round_env sample_round") (auto simp: pulled_files_def split: sum.split)
  then show ?thesis using round_keeps_device [of sample_round_env sample_round 7] sample_env_ok i unfolding e by blast
qed

end
