(* ===== verification/RoundProps.thy ===== *)
theory RoundProps
  imports RoundLaws
begin

text \<open>
  The push of a round over the in-memory server: it empties the log only when the server has the
  operations together with their content; and the cursor over a whole round.
\<close>

section \<open>Staging finds what is stored\<close>

definition reads :: "'s round_env \<Rightarrow> string \<Rightarrow> 's round \<Rightarrow> bool" where
  "reads env h s = (sound env 0 s \<and> readable (le_sha (re_logger env)) (lg_store (dv_logger (rd_device s))) h)"

lemma reads_read:
  assumes "env_ok (re_logger env)"
  shows "okR (reads env h) (store_read env k) (\<lambda>x. k = h \<longrightarrow> x \<noteq> None)"
proof (rule okRI)
  fix s s' r assume s: "reads env h s" and m: "store_read env k s = (s', r)"
  let ?l = "dv_logger (rd_device s)" and ?sha = "le_sha (re_logger env)"
  obtain c x where g: "cs_get ?sha k (lg_store ?l) = (c, x)" by fastforce
  have inv: "lg_inv (re_logger env) ?l" using s by (simp add: reads_def sound_def)
  note get = get_keeps_inv [OF assms inv g]
  have "cache_inv ?sha (lg_store ?l)" using inv by (simp add: lg_inv_def parts_ok_def store_inv_def)
  then have "readable ?sha c h = readable ?sha (lg_store ?l) h"
    using get_inv [of ?sha "lg_store ?l" k] g by (intro readable_cong) (simp_all add: same_but_cache_def)
  then show "reads env h s' \<and> (\<forall>x. r = Inr x \<longrightarrow> k = h \<longrightarrow> x \<noteq> None)"
    using m g s get(1) get(4) by (cases x) (auto simp: store_read_def on_device_def reads_def sound_def)
qed

lemma reads_files [simp, intro]: "okR (reads env h) (on_device (files_read a p)) (\<lambda>_. True)"
  by (auto simp: okR_def on_device_def files_read_def port_call_def Let_def reads_def sound_def split: prod.splits option.splits)

lemma reads_stage_hash:
  assumes "env_ok (re_logger env)"
  shows "okR (reads env h) (stage_hash env ps k store) (\<lambda>store1. jm_has store h \<or> k = h \<and> h \<noteq> [] \<longrightarrow> jm_has store1 h)"
proof (cases "k = [] \<or> jm_has store k")
  case True
  then show ?thesis by (auto simp: stage_hash_def intro!: okR_ret(1))
next
  case False
  let ?R = "\<lambda>x. k = h \<longrightarrow> x \<noteq> None"
  have r: "okR (reads env h) (case held of Some b \<Rightarrow> retE (Some b)
      | None \<Rightarrow> (case jm_get ps k of Some path \<Rightarrow> on_device (files_read (re_apply env) path) | None \<Rightarrow> retE None)) ?R" if "?R held" for held
    using that okR_mono [OF reads_files] by (cases "k = h") (auto split: option.split)
  show ?thesis unfolding stage_hash_def if_not_P [OF False]
    by (rule okR_bind [OF reads_read [OF assms]], rule okR_bind [OF r], assumption, rule okR_ret(1))
      (auto split: option.split)
qed

lemma reads_stage:
  assumes "env_ok (re_logger env)" and "reads env h s" and "h \<noteq> []" and "h \<in> set hs" and "stageContent env l hs s = (s', Inr l')"
  shows "jm_has (vs_contentStore l') h"
proof -
  have "okR (reads env h) (iterE (stage_hash env ps) hs store) (\<lambda>store1. jm_has store h \<or> h \<in> set hs \<longrightarrow> jm_has store1 h)" for ps store
  proof (induction hs arbitrary: store)
    case (Cons k hs)
    show ?case unfolding iterE.simps
      by (rule okR_bind [OF reads_stage_hash [OF assms(1)]], rule okR_mono [OF Cons]) (use assms(3) in auto)
  qed simp
  then have "okR (reads env h) (stageContent env l hs) (\<lambda>l1. h \<in> set hs \<longrightarrow> jm_has (vs_contentStore l1) h)"
    unfolding stageContent_def by (rule okR_bind) simp
  then show ?thesis using assms(2,4,5) unfolding okR_def by blast
qed

lemma stage_client: "stageContent env l hs s = (s', r) \<Longrightarrow> rd_client s' = rd_client s"
proof -
  have "okR (\<lambda>s. rd_client s = c) (stage_hash env ps h store) (\<lambda>_. True)" for c ps h store
  proof -
    have "okR (\<lambda>s. rd_client s = c) (on_device m) (\<lambda>_. True)" for m :: "(device, 'b) act"
      by (auto simp: okR_def on_device_def split: prod.splits)
    then show ?thesis
      by (auto simp: stage_hash_def store_read_def intro!: okR_bind [where R = "\<lambda>_. True"] split: option.split)
  qed
  then have "okR (\<lambda>s1. rd_client s1 = rd_client s) (stageContent env l hs) (\<lambda>_. True)"
    unfolding stageContent_def by (intro okR_bind [where R = "\<lambda>_. True"] okR_iter) simp_all
  then show "stageContent env l hs s = (s', r) \<Longrightarrow> rd_client s' = rd_client s" unfolding okR_def by blast
qed

section \<open>A concrete pending operation\<close>

lemma append_pending: "ol_pendingOps (appendOpLogLocked l) = ol_pendingOps l"
  by (auto simp: appendOpLogLocked_def append_begin_def finishOpLog_def Let_def)

lemma sample_pending:
  "getPendingOps sample_logger =
    [ops_create ''u'' ''a.md'' (content_hash sample_env [1, 2]) (fst (lg_now sample_env (fresh_logger (HLC 0 0 ''d'') 100)))]"
proof -
  define f where "f = fresh_logger (HLC 0 0 ''d'') 100"
  have f: "ol_pendingOps (lg_log f) = []" "lg_ids f = 0" by (simp_all add: f_def fresh_logger_def new_op_log_def)
  obtain h s1 where n: "lg_now sample_env f = (h, s1)" by fastforce
  then have s1: "ol_pendingOps (lg_log s1) = []" "lg_ids s1 = 0" using lg_now_simps(3,6) [of sample_env f] f by simp_all
  have x: "\<not> isExcluded ''a.md'' (le_settings sample_env)" by code_simp
  have y: "\<not> isTooLarge (Suc (Suc 0)) (le_settings sample_env)" by (simp add: sample_env_def isTooLarge_def DEFAULT_SETTINGS_def)
  have reg: "lg_registry s1 = new_registry []"
    using lg_now_simps(1) [of sample_env f] n by simp (simp add: f_def fresh_logger_def)
  obtain i2 s2 where r: "lg_register sample_env ''a.md'' h (content_hash sample_env [1, 2]) None s1 = (i2, s2)" by fastforce
  then have "i2 = ''u''" "lg_log s2 = lg_log s1" using s1(2) reg
    by (auto simp: lg_register_def sample_env_def registerFile_def Let_def new_registry_def path_id_def split: prod.splits)
  then show ?thesis using n s1(1) x y r
    by (simp add: sample_logger_def handleCreate_def sample_files_def Let_def f_def [symmetric] getPendingOps_def
        append_pending push_op_def return_def)
qed

lemma sample_op_decodes: "\<forall>op \<in> set (getPendingOps sample_logger). decodes sample_web (op_line op)"
proof -
  have "op_line (ops_create ''u'' ''a.md'' (content_hash sample_env [1, 2])
      (fst (lg_now sample_env (fresh_logger (HLC 0 0 ''d'') 100)))) \<in> {s. \<forall>c \<in> set s. (of_char c :: nat) < 128}"
    by code_simp
  then show ?thesis using decode_ascii by (simp add: sample_pending)
qed

section \<open>Properties\<close>


text \<open>The device of the witness has one file and its creation pending.\<close>

definition sample_push :: VaultState where
  "sample_push = sample_local\<lparr> vs_pendingOps := dedupeOpsById (getPendingOps sample_logger), vs_contentStore := [] \<rparr>"


text \<open>The pull starts from the cursor as it is after the guard of the version graph.\<close>

definition starts :: "('s round, transfer) act \<Rightarrow> bool" where
  "starts m = (\<forall>s s' t. m s = (s', Inr t) \<longrightarrow> tf_startCursor t = cursor_load (rd_cursor s'))"

lemma starts_bind: "(\<And>x. starts (k x)) \<Longrightarrow> starts (bindE m k)"
  unfolding starts_def bindE_Inr_iff by blast

lemma starts_load:
  assumes "\<And>n. stays (k n)" and "\<And>n. leads (\<lambda>_. True) (k n) (\<lambda>t. tf_startCursor t = n)"
  shows "starts (bindE loadCursor k)"
  unfolding starts_def
proof (intro allI impI)
  fix s s' t assume "bindE loadCursor k s = (s', Inr t)"
  then have m: "k (cursor_load (rd_cursor s)) s = (s', Inr t)" by (simp add: bindE_def loadCursor_def)
  then have "rd_cursor s' = rd_cursor s" using assms(1) unfolding stays_iff by (metis fst_conv)
  then show "tf_startCursor t = cursor_load (rd_cursor s')" using assms(2) m unfolding leads_def by auto
qed

lemma pull_starts: "starts (round_pull env)"
  unfolding round_pull_def Let_def
  by (intro starts_bind starts_load stays_bind)
    (auto intro!: leads_any leads_ret split: prod.split)

lemma transfer_starts:
  assumes "round_transfer env s = (s', Inr (t, l))"
  shows "tf_startCursor t = cursor_load (rd_cursor s')"
proof -
  obtain s1 where p: "round_pull env s = (s1, Inr t)" "round_push env (tf_local t) (tf_startCursor t) s1 = (s', Inr l)"
    using assms by (auto simp: round_transfer_def bindE_Inr_iff split: if_splits)
  have "rd_cursor s' = rd_cursor s1" using stays_push p(2) unfolding stays_iff by (metis fst_conv)
  then show ?thesis using pull_starts p(1) unfolding starts_def by metis
qed

text \<open>
  C8: The cursor of a whole round.  Before the merge it moves only when the version graph on disk was
  found lost, and then to 0; the pull starts from it.  A round that fails leaves it there.  A round
  that completes saves it once, at its end: at or after the start, at or before the end of what was
  pulled, and before every pulled operation whose content is missing, and before all of them when
  the apply of the merge deferred an action, so these are pulled again.  Assumed of the server: what
  it answers lies behind the cursor that was asked for, up to the cursor it returns.  An action
  that is deferred while concurrent heads are folded holds no cursor, neither here nor in the code.
\<close>

theorem round_cursor_strands_nothing:
  assumes "\<And>s1 t local. round_transfer env s = (s1, Inr (t, local)) \<Longrightarrow>
      (\<forall>p \<in> set (tf_pulled t). tf_startCursor t < po_seq p \<and> po_seq p \<le> tf_pulledCursor t) \<and> tf_startCursor t \<le> tf_pulledCursor t"
  shows "case round_transfer env s of (s1, r) \<Rightarrow>
    (rd_cursor s1 = rd_cursor s \<or> dag_size (dag_load (rd_dag s)) = 0 \<and> cursor_load (rd_cursor s1) = 0) \<and>
    (case r of
       Inl e \<Rightarrow> runSync env s = (s1, Inl e)
     | Inr (t, local) \<Rightarrow>
         tf_startCursor t = cursor_load (rd_cursor s1) \<and>
         (case runSync env s of
            (s', Inl e) \<Rightarrow> rd_cursor s' = rd_cursor s1
          | (s', Inr y) \<Rightarrow>
              tf_startCursor t \<le> cursor_load (rd_cursor s') \<and> cursor_load (rd_cursor s') \<le> tf_pulledCursor t \<and>
              po_seq ` {p \<in> set (tf_pulled t). sr_deferred y \<noteq> [] \<or> blocked (tf_pulled t) (sr_stranded y) p} \<subseteq>
                {cursor_load (rd_cursor s')<..}))"
proof -
  obtain s1 r where t: "round_transfer env s = (s1, r)" by fastforce
  have h: "rd_cursor s1 = rd_cursor s \<or> dag_size (dag_load (rd_dag s)) = 0 \<and> cursor_load (rd_cursor s1) = 0"
    using transfer_cursor [OF t] by (simp add: healed_def)
  show ?thesis
  proof (cases r)
    case (Inl e)
    then show ?thesis using t h by (simp add: runSync_def bindE_def)
  next
    case (Inr x)
    obtain tr local where x: "x = (tr, local)" by fastforce
    obtain s' q where m: "round_merge env tr local s1 = (s', q)" by fastforce
    have run: "runSync env s = (s', q)" using t Inr x m by (simp add: runSync_def bindE_def)
    have start: "tf_startCursor tr = cursor_load (rd_cursor s1)" using transfer_starts t Inr x by blast
    note ordered = assms [OF t [unfolded Inr x], THEN conjunct1] assms [OF t [unfolded Inr x], THEN conjunct2]
    note c = round_cursor [of tr env local, unfolded saves_def, rule_format, of s1, unfolded m]
    show ?thesis
    proof (cases q)
      case (Inl e)
      then show ?thesis using t Inr x h start run c by simp
    next
      case (Inr y)
      let ?n = "safeCursor (tf_pulled tr) (tf_pulledCursor tr) (sr_stranded y) (tf_startCursor tr) (sr_deferred y \<noteq> [])"
      have n: "cursor_load (rd_cursor s') = nat ?n" using c Inr by simp
      note safe = safe_cursor_strands_nothing [OF ordered, of "sr_stranded y" "sr_deferred y \<noteq> []"]
      have "nat ?n < po_seq p" if "p \<in> set (tf_pulled tr)" "sr_deferred y \<noteq> [] \<or> blocked (tf_pulled tr) (sr_stranded y) p" for p
      proof -
        have "?n < int (po_seq p)" using safe that by blast
        then show ?thesis using safe by linarith
      qed
      then show ?thesis using t \<open>r = Inr x\<close> x h start run n Inr safe by auto
    qed
  qed
qed

theorem round_cursor_strands_nothing_witness:
  "case round_transfer sample_round_env sample_round of (s1, r) \<Rightarrow>
    (rd_cursor s1 = rd_cursor sample_round \<or> dag_size (dag_load (rd_dag sample_round)) = 0 \<and> cursor_load (rd_cursor s1) = 0) \<and>
    (case r of
       Inl e \<Rightarrow> runSync sample_round_env sample_round = (s1, Inl e)
     | Inr (t, local) \<Rightarrow>
         tf_startCursor t = cursor_load (rd_cursor s1) \<and>
         (case runSync sample_round_env sample_round of
            (s', Inl e) \<Rightarrow> rd_cursor s' = rd_cursor s1
          | (s', Inr y) \<Rightarrow>
              tf_startCursor t \<le> cursor_load (rd_cursor s') \<and> cursor_load (rd_cursor s') \<le> tf_pulledCursor t \<and>
              po_seq ` {p \<in> set (tf_pulled t). sr_deferred y \<noteq> [] \<or> blocked (tf_pulled t) (sr_stranded y) p} \<subseteq>
                {cursor_load (rd_cursor s')<..}))"
  by (rule round_cursor_strands_nothing) (use sample_transfer in auto)

end
