(* ===== verification/SyncState.thy ===== *)
theory SyncState
  imports Applicator
begin

text \<open>
  The observable state of the synchronisation (\<open>src/network/sync-state-store.ts\<close>): what the last
  round deferred, the conflicts that wait for a decision, the decisions that wait for a round, the
  stranded contents, the last error and the last round.  The file is printed without the
  indentation of the source, and the texts that \<open>Json\<close> refuses are garbage here.  The load takes any
  object for the map of decisions, an array too: \<open>sy_decisionArray\<close> is then the length of that
  array, its elements are the decisions under their indices (a null element is none), and printing
  an array leaves out every member that is not an element.  An element of a list, a decision, an
  error or a round of another shape than the store writes, which the code takes over unchecked,
  reads as one with empty fields.  Identifiers of files are UUIDs, so \<open>__proto__\<close> is not among the
  keys, nor is a key that JavaScript would enumerate before the others.
\<close>

section \<open>The state\<close>

definition STATE_PATH :: string where "STATE_PATH = ''.opsblobs/sync-state.json''"

record deferred_file =
  df_fileId :: string
  df_path :: string
  df_at :: nat

datatype conflict_kind = DeleteKind | BinaryKind

record binary_sides =
  bs_localBytes :: nat
  bs_remoteBytes :: nat
  bs_localDevice :: string
  bs_remoteDevice :: string
  bs_localAt :: nat
  bs_remoteAt :: nat

record conflict_descriptor =
  cd_fileId :: string
  cd_path :: string
  cd_kind :: conflict_kind
  cd_at :: nat
  cd_side :: "DeleteSide option"
  cd_binary :: "binary_sides option"

datatype conflict_decision = DecideDelete delete_decision | DecideBinary binary_decision

record stranded_content =
  st_contentHash :: string
  st_at :: nat

record round_record =
  rr_at :: nat
  rr_pushed :: nat
  rr_pulled :: nat
  rr_conflicts :: nat

record sync_state =
  sy_deferred :: "deferred_file list"
  sy_conflicts :: "conflict_descriptor list"
  sy_pendingDecisions :: "(string, conflict_decision) jsmap"
  sy_stranded :: "stranded_content list"
  sy_lastError :: "(string \<times> nat) option"
  sy_lastSync :: "round_record option"
  sy_lastGcAt :: "nat option"
  sy_decisionArray :: "nat option"

definition emptyState :: sync_state where
  "emptyState = \<lparr> sy_deferred = [], sy_conflicts = [], sy_pendingDecisions = [], sy_stranded = [], sy_lastError = None,
     sy_lastSync = None, sy_lastGcAt = None, sy_decisionArray = None \<rparr>"

section \<open>Printing and reading\<close>

definition deferred_json :: "deferred_file \<Rightarrow> json" where
  "deferred_json d = JObj [(''fileId'', JStr (df_fileId d)), (''path'', JStr (df_path d)), (''at'', JNum (df_at d))]"

definition deferred_of_json :: "json \<Rightarrow> deferred_file" where
  "deferred_of_json v =
     \<lparr> df_fileId = jdefault [] (jstr v ''fileId''), df_path = jdefault [] (jstr v ''path''), df_at = jdefault 0 (jnum v ''at'') \<rparr>"

definition kind_json :: "conflict_kind \<Rightarrow> json" where
  "kind_json k = JStr (case k of DeleteKind \<Rightarrow> ''delete'' | BinaryKind \<Rightarrow> ''binary'')"

definition side_json :: "DeleteSide \<Rightarrow> json" where
  "side_json s = JStr (case s of LocalDeleted \<Rightarrow> ''local_deleted'' | RemoteDeleted \<Rightarrow> ''remote_deleted'')"

definition side_of_json :: "json \<Rightarrow> DeleteSide option" where
  "side_of_json v =
     (if v = JStr ''local_deleted'' then Some LocalDeleted
      else if v = JStr ''remote_deleted'' then Some RemoteDeleted else None)"

definition binary_json :: "binary_sides \<Rightarrow> json" where
  "binary_json b =
     JObj [(''localBytes'', JNum (bs_localBytes b)), (''remoteBytes'', JNum (bs_remoteBytes b)),
           (''localDevice'', JStr (bs_localDevice b)), (''remoteDevice'', JStr (bs_remoteDevice b)),
           (''localAt'', JNum (bs_localAt b)), (''remoteAt'', JNum (bs_remoteAt b))]"

definition binary_of_json :: "json \<Rightarrow> binary_sides" where
  "binary_of_json v =
     \<lparr> bs_localBytes = jdefault 0 (jnum v ''localBytes''), bs_remoteBytes = jdefault 0 (jnum v ''remoteBytes''),
       bs_localDevice = jdefault [] (jstr v ''localDevice''), bs_remoteDevice = jdefault [] (jstr v ''remoteDevice''),
       bs_localAt = jdefault 0 (jnum v ''localAt''), bs_remoteAt = jdefault 0 (jnum v ''remoteAt'') \<rparr>"

text \<open>An absent side or pair of versions is not printed.\<close>

definition descriptor_json :: "conflict_descriptor \<Rightarrow> json" where
  "descriptor_json c =
     JObj ([(''fileId'', JStr (cd_fileId c)), (''path'', JStr (cd_path c)), (''kind'', kind_json (cd_kind c)), (''at'', JNum (cd_at c))] @
           opt_member ''side'' side_json (cd_side c) @ opt_member ''binary'' binary_json (cd_binary c))"

definition descriptor_of_json :: "json \<Rightarrow> conflict_descriptor" where
  "descriptor_of_json v =
     \<lparr> cd_fileId = jdefault [] (jstr v ''fileId''), cd_path = jdefault [] (jstr v ''path''),
       cd_kind = (if jfield v ''kind'' = Some (JStr ''binary'') then BinaryKind else DeleteKind),
       cd_at = jdefault 0 (jnum v ''at''),
       cd_side = (case jfield v ''side'' of None \<Rightarrow> None | Some s \<Rightarrow> side_of_json s),
       cd_binary = map_option binary_of_json (jfield v ''binary'') \<rparr>"

fun decision_json :: "conflict_decision \<Rightarrow> json" where
  "decision_json (DecideDelete d) =
     JObj [(''kind'', JStr ''delete''),
           (''decision'', JStr (case d of KeepDeleted \<Rightarrow> ''keep_deleted'' | KeepModified \<Rightarrow> ''keep_modified''))]"
| "decision_json (DecideBinary d) =
     JObj [(''kind'', JStr ''binary''),
           (''decision'', JStr (case d of KeepLocalFile \<Rightarrow> ''keep_local'' | KeepRemoteFile \<Rightarrow> ''keep_remote''))]"

definition decision_of_json :: "json \<Rightarrow> conflict_decision" where
  "decision_of_json v =
     (if jfield v ''kind'' = Some (JStr ''binary'') then
        DecideBinary (if jfield v ''decision'' = Some (JStr ''keep_local'') then KeepLocalFile else KeepRemoteFile)
      else DecideDelete (if jfield v ''decision'' = Some (JStr ''keep_deleted'') then KeepDeleted else KeepModified))"

definition stranded_json :: "stranded_content \<Rightarrow> json" where
  "stranded_json s = JObj [(''contentHash'', JStr (st_contentHash s)), (''at'', JNum (st_at s))]"

definition stranded_of_json :: "json \<Rightarrow> stranded_content" where
  "stranded_of_json v = \<lparr> st_contentHash = jdefault [] (jstr v ''contentHash''), st_at = jdefault 0 (jnum v ''at'') \<rparr>"

definition error_json :: "string \<times> nat \<Rightarrow> json" where
  "error_json e = JObj [(''message'', JStr (fst e)), (''at'', JNum (snd e))]"

definition error_of_json :: "json \<Rightarrow> string \<times> nat" where
  "error_of_json v = (jdefault [] (jstr v ''message''), jdefault 0 (jnum v ''at''))"

definition record_json :: "round_record \<Rightarrow> json" where
  "record_json r =
     JObj [(''at'', JNum (rr_at r)), (''pushed'', JNum (rr_pushed r)), (''pulled'', JNum (rr_pulled r)),
           (''conflicts'', JNum (rr_conflicts r))]"

definition record_of_json :: "json \<Rightarrow> round_record" where
  "record_of_json v =
     \<lparr> rr_at = jdefault 0 (jnum v ''at''), rr_pushed = jdefault 0 (jnum v ''pushed''), rr_pulled = jdefault 0 (jnum v ''pulled''),
       rr_conflicts = jdefault 0 (jnum v ''conflicts'') \<rparr>"

definition null_or :: "('a \<Rightarrow> json) \<Rightarrow> 'a option \<Rightarrow> json" where
  "null_or f x = (case x of None \<Rightarrow> JNull | Some y \<Rightarrow> f y)"

text \<open>\<open>JSON.stringify\<close> of the decisions: the members of an object, the elements of an array.\<close>

definition decisions_json :: "nat option \<Rightarrow> (string, conflict_decision) jsmap \<Rightarrow> json" where
  "decisions_json arr m =
     (case arr of
        None \<Rightarrow> JObj (map (\<lambda>(i, d). (i, decision_json d)) m)
      | Some n \<Rightarrow> JArr (map (\<lambda>k. case jm_get m (show_nat k) of Some d \<Rightarrow> decision_json d | None \<Rightarrow> JNull) [0..<n]))"

definition state_json :: "sync_state \<Rightarrow> json" where
  "state_json s =
     JObj [(''deferred'', JArr (map deferred_json (sy_deferred s))),
           (''conflicts'', JArr (map descriptor_json (sy_conflicts s))),
           (''pendingDecisions'', decisions_json (sy_decisionArray s) (sy_pendingDecisions s)),
           (''stranded'', JArr (map stranded_json (sy_stranded s))),
           (''lastError'', null_or error_json (sy_lastError s)),
           (''lastSync'', null_or record_json (sy_lastSync s)),
           (''lastGcAt'', null_or JNum (sy_lastGcAt s))]"

definition json_list :: "(json \<Rightarrow> 'a) \<Rightarrow> json option \<Rightarrow> 'a list" where
  "json_list f v = (case v of Some (JArr xs) \<Rightarrow> map f xs | _ \<Rightarrow> [])"

text \<open>\<open>?? null\<close>.\<close>

definition unless_null :: "(json \<Rightarrow> 'a) \<Rightarrow> json option \<Rightarrow> 'a option" where
  "unless_null f v = (case v of None \<Rightarrow> None | Some JNull \<Rightarrow> None | Some x \<Rightarrow> Some (f x))"

definition decisions_of_json :: "json option \<Rightarrow> (string, conflict_decision) jsmap" where
  "decisions_of_json v =
     (case v of
        Some (JObj ms) \<Rightarrow> jm_of_list (map (\<lambda>(i, d). (i, decision_of_json d)) ms)
      | Some (JArr xs) \<Rightarrow>
          jm_of_list (map (\<lambda>(k, d). (show_nat k, decision_of_json d)) (filter (\<lambda>(k, d). d \<noteq> JNull) (enumerate 0 xs)))
      | _ \<Rightarrow> [])"

definition decision_array :: "json option \<Rightarrow> nat option" where
  "decision_array v = (case v of Some (JArr xs) \<Rightarrow> Some (length xs) | _ \<Rightarrow> None)"

definition state_of_json :: "json \<Rightarrow> sync_state" where
  "state_of_json v =
     \<lparr> sy_deferred = json_list deferred_of_json (jfield v ''deferred''),
       sy_conflicts = json_list descriptor_of_json (jfield v ''conflicts''),
       sy_pendingDecisions = decisions_of_json (jfield v ''pendingDecisions''),
       sy_stranded = json_list stranded_of_json (jfield v ''stranded''),
       sy_lastError = unless_null error_of_json (jfield v ''lastError''),
       sy_lastSync = unless_null record_of_json (jfield v ''lastSync''),
       sy_lastGcAt = jnum v ''lastGcAt'',
       sy_decisionArray = decision_array (jfield v ''pendingDecisions'') \<rparr>"

section \<open>The store\<close>

record sync_store =
  sto_state :: sync_state
  sto_metadata :: metadata

definition new_sync_store :: "metadata \<Rightarrow> sync_store" where
  "new_sync_store m = \<lparr> sto_state = emptyState, sto_metadata = m \<rparr>"

definition state_load :: "sync_store \<Rightarrow> sync_store" where
  "state_load s =
     s\<lparr> sto_state :=
          (case md_read (sto_metadata s) STATE_PATH of
             None \<Rightarrow> emptyState
           | Some raw \<Rightarrow> (case json_parse raw of None \<Rightarrow> emptyState | Some v \<Rightarrow> if v = JNull then emptyState else state_of_json v)) \<rparr>"

definition state_persist :: "sync_store \<Rightarrow> sync_store" where
  "state_persist s = s\<lparr> sto_metadata := md_write STATE_PATH (json_show (state_json (sto_state s))) (sto_metadata s) \<rparr>"

definition state_save :: "sync_state \<Rightarrow> sync_store \<Rightarrow> sync_store" where
  "state_save st s = state_persist (s\<lparr> sto_state := st \<rparr>)"

definition setRound ::
  "round_record \<Rightarrow> deferred_file list \<Rightarrow> stranded_content list \<Rightarrow> conflict_descriptor list \<Rightarrow> sync_store \<Rightarrow> sync_store" where
  "setRound record deferred stranded conflicts s =
     (let live = js_set_of (map cd_fileId conflicts); st = sto_state s
      in state_save (st\<lparr> sy_lastSync := Some record, sy_deferred := deferred, sy_stranded := stranded, sy_conflicts := conflicts,
                         sy_pendingDecisions := filter (\<lambda>(i, d). i \<in> set live) (sy_pendingDecisions st) \<rparr>) s)"

text \<open>Setting a member of an array: an index lengthens it, any other name is a plain member.\<close>

definition array_with :: "string \<Rightarrow> nat option \<Rightarrow> nat option" where
  "array_with i = map_option (\<lambda>n. let k = digits_value i in if i = show_nat k \<and> k < 2 ^ 32 - 1 then max n (k + 1) else n)"

definition recordDecision :: "string \<Rightarrow> conflict_decision \<Rightarrow> sync_store \<Rightarrow> sync_store" where
  "recordDecision fileId decision s =
     state_save ((sto_state s)\<lparr> sy_pendingDecisions := jm_set fileId decision (sy_pendingDecisions (sto_state s)),
                                sy_decisionArray := array_with fileId (sy_decisionArray (sto_state s)) \<rparr>) s"

definition getDecision :: "sync_store \<Rightarrow> string \<Rightarrow> conflict_decision option" where
  "getDecision s fileId = jm_get (sy_pendingDecisions (sto_state s)) fileId"

definition setLastGcAt :: "nat \<Rightarrow> sync_store \<Rightarrow> sync_store" where
  "setLastGcAt at s = state_save ((sto_state s)\<lparr> sy_lastGcAt := Some at \<rparr>) s"

definition setError :: "string \<Rightarrow> nat \<Rightarrow> sync_store \<Rightarrow> sync_store" where
  "setError message at s = state_save ((sto_state s)\<lparr> sy_lastError := Some (message, at) \<rparr>) s"

definition clearError :: "sync_store \<Rightarrow> sync_store" where
  "clearError s =
     (if sy_lastError (sto_state s) \<noteq> None then state_save ((sto_state s)\<lparr> sy_lastError := None \<rparr>) s else s)"

definition state_resetAll :: "sync_store \<Rightarrow> sync_store" where
  "state_resetAll s = state_save emptyState s"

section \<open>What is printed reads back\<close>

lemma jfield_Cons: "jfield (JObj (ms @ [(k, v)])) k' = (if k' = k then Some v else jfield (JObj ms) k')"
  by (simp add: jfield_def)

lemma deferred_roundtrip [simp]: "deferred_of_json (deferred_json d) = d"
  by (simp add: deferred_of_json_def deferred_json_def jstr_def jnum_def jfield_def jdefault_def)

lemma binary_roundtrip [simp]: "binary_of_json (binary_json b) = b"
  by (simp add: binary_of_json_def binary_json_def jstr_def jnum_def jfield_def jdefault_def)

lemma side_roundtrip [simp]: "side_of_json (side_json s) = Some s"
  by (cases s) (simp_all add: side_of_json_def side_json_def)

lemma descriptor_roundtrip [simp]: "descriptor_of_json (descriptor_json c) = c"
  by (cases "cd_side c"; cases "cd_binary c"; cases "cd_kind c")
    (simp_all add: descriptor_of_json_def descriptor_json_def opt_member_def kind_json_def jstr_def jnum_def jfield_def jdefault_def)

lemma decision_roundtrip [simp]: "decision_of_json (decision_json d) = d"
  by (cases d rule: decision_json.cases; simp add: decision_of_json_def jfield_def split: delete_decision.split binary_decision.split)

lemma stranded_roundtrip [simp]: "stranded_of_json (stranded_json s) = s"
  by (simp add: stranded_of_json_def stranded_json_def jstr_def jnum_def jfield_def jdefault_def)

lemma error_roundtrip [simp]: "error_of_json (error_json e) = e"
  by (cases e) (simp add: error_of_json_def error_json_def jstr_def jnum_def jfield_def jdefault_def)

lemma record_roundtrip [simp]: "record_of_json (record_json r) = r"
  by (simp add: record_of_json_def record_json_def jnum_def jfield_def jdefault_def)

lemma list_roundtrip: "(\<And>x. f (g x) = x) \<Longrightarrow> json_list f (Some (JArr (map g xs))) = xs"
  by (simp add: json_list_def comp_def)

lemma null_roundtrip: "(\<And>x. f (g x) = x) \<Longrightarrow> (\<And>x. g x \<noteq> JNull) \<Longrightarrow> unless_null f (Some (null_or g x)) = x"
  by (cases x; simp add: unless_null_def null_or_def split: json.split) metis

lemma json_not_null [simp]: "error_json e \<noteq> JNull" "record_json r \<noteq> JNull"
  by (simp_all add: error_json_def record_json_def)

lemma decisions_roundtrip:
  assumes "jm_wf m"
  shows "decisions_of_json (Some (JObj (map (\<lambda>(i, d). (i, decision_json d)) m))) = m"
proof -
  have "map (\<lambda>(i, d). (i, decision_of_json d)) (map (\<lambda>(i, d). (i, decision_json d)) m) = m"
    by (simp add: comp_def case_prod_beta)
  then show ?thesis using assms by (simp add: decisions_of_json_def jm_of_list_id)
qed

lemma state_fields:
  "jfield (state_json s) ''deferred'' = Some (JArr (map deferred_json (sy_deferred s)))"
  "jfield (state_json s) ''conflicts'' = Some (JArr (map descriptor_json (sy_conflicts s)))"
  "jfield (state_json s) ''pendingDecisions'' = Some (decisions_json (sy_decisionArray s) (sy_pendingDecisions s))"
  "jfield (state_json s) ''stranded'' = Some (JArr (map stranded_json (sy_stranded s)))"
  "jfield (state_json s) ''lastError'' = Some (null_or error_json (sy_lastError s))"
  "jfield (state_json s) ''lastSync'' = Some (null_or record_json (sy_lastSync s))"
  "jfield (state_json s) ''lastGcAt'' = Some (null_or JNum (sy_lastGcAt s))"
  by (simp_all add: state_json_def jfield_def)

lemma state_json_roundtrip:
  assumes "jm_wf (sy_pendingDecisions s)" and "sy_decisionArray s = None"
  shows "state_of_json (state_json s) = s"
proof -
  have "jnum (state_json s) ''lastGcAt'' = sy_lastGcAt s"
    by (cases "sy_lastGcAt s") (simp_all add: jnum_def state_fields null_or_def)
  then show ?thesis
    by (simp add: state_of_json_def state_fields list_roundtrip null_roundtrip decisions_json_def decision_array_def
        assms(2) decisions_roundtrip [OF assms(1)])
qed

section \<open>The invariant\<close>

text \<open>
  The file holds the state in memory, a file has one decision at most, and the decisions are an
  object.
\<close>

definition on_file :: "sync_store \<Rightarrow> bool" where
  "on_file s = (sto_state (state_load s) = sto_state s \<and> jm_wf (sy_pendingDecisions (sto_state s)) \<and>
     sy_decisionArray (sto_state s) = None)"

lemma persist_on_file:
  assumes "jm_wf (sy_pendingDecisions st)" and "sy_decisionArray st = None"
  shows "on_file (state_save st s)" and "sto_state (state_save st s) = st"
proof -
  have "state_json st \<noteq> JNull" by (simp add: state_json_def)
  then show "on_file (state_save st s)"
    using assms state_json_roundtrip by (simp add: on_file_def state_save_def state_persist_def state_load_def del: json_show.simps)
qed (simp add: state_save_def state_persist_def)

lemma on_file_steps:
  assumes "on_file s"
  shows "on_file (setRound r ds ss cs s)" and "on_file (recordDecision i d s)" and "on_file (setLastGcAt n s)"
    and "on_file (setError e n s)" and "on_file (clearError s)" and "on_file (state_resetAll s)"
proof -
  have w: "jm_wf (sy_pendingDecisions (sto_state s))" "sy_decisionArray (sto_state s) = None"
    using assms by (simp_all add: on_file_def)
  then show "on_file (setRound r ds ss cs s)" "on_file (recordDecision i d s)" "on_file (setLastGcAt n s)" "on_file (setError e n s)"
    unfolding setRound_def recordDecision_def setLastGcAt_def setError_def Let_def by (auto intro!: persist_on_file(1) simp: array_with_def)
  show "on_file (clearError s)" using assms w unfolding clearError_def by (auto intro!: persist_on_file(1))
  show "on_file (state_resetAll s)" unfolding state_resetAll_def by (rule persist_on_file(1)) (simp_all add: emptyState_def)
qed

text \<open>A store that has just loaded its file, whatever the file holds but an array of decisions.\<close>

lemma jm_wf_of_list [simp]: "jm_wf (jm_of_list ps)"
proof -
  have "jm_wf (fold (\<lambda>(k, v). jm_set k v) ps m)" if "jm_wf m" for m
    using that by (induction ps arbitrary: m) auto
  from this [of "[]"] show ?thesis by (simp add: jm_of_list_def)
qed

definition array_file :: "metadata \<Rightarrow> bool" where
  "array_file m =
     (case md_read m STATE_PATH of
        None \<Rightarrow> False
      | Some raw \<Rightarrow>
          (case json_parse raw of
             None \<Rightarrow> False
           | Some v \<Rightarrow> (case jfield v ''pendingDecisions'' of Some (JArr xs) \<Rightarrow> True | _ \<Rightarrow> False)))"

lemma load_on_file:
  assumes "\<not> array_file (sto_metadata s)"
  shows "on_file (state_load s)"
proof -
  have "jm_wf (sy_pendingDecisions (sto_state (state_load s)))"
    by (auto simp: state_load_def emptyState_def state_of_json_def decisions_of_json_def split: option.split json.split)
  moreover have "sy_decisionArray (sto_state (state_load s)) = None"
    using assms by (auto simp: array_file_def state_load_def emptyState_def state_of_json_def decision_array_def
        split: option.splits json.splits)
  ultimately show ?thesis by (simp add: on_file_def state_load_def)
qed

text \<open>The operations the coordinator and the panels call between two starts.\<close>

datatype state_op =
    SetRound round_record "deferred_file list" "stranded_content list" "conflict_descriptor list"
  | RecordDecision string conflict_decision
  | SetLastGcAt nat
  | SetError string nat
  | ClearError
  | ResetAll

fun run_state_op :: "state_op \<Rightarrow> sync_store \<Rightarrow> sync_store" where
  "run_state_op (SetRound r ds ss cs) s = setRound r ds ss cs s"
| "run_state_op (RecordDecision i d) s = recordDecision i d s"
| "run_state_op (SetLastGcAt n) s = setLastGcAt n s"
| "run_state_op (SetError e n) s = setError e n s"
| "run_state_op ClearError s = clearError s"
| "run_state_op ResetAll s = state_resetAll s"

lemma run_on_file: "on_file s \<Longrightarrow> on_file (fold run_state_op ops s)"
proof (induction ops arbitrary: s)
  case (Cons a ops)
  then have "on_file (run_state_op a s)" by (cases a) (simp_all add: on_file_steps)
  then show ?case using Cons.IH by simp
qed simp

text \<open>
  C37: Whatever the file held when the store was loaded, nothing, garbage or any JSON value but one
  whose \<open>pendingDecisions\<close> is an array, and whatever operations followed, a restart loads the state
  that was in memory.  The excepted file is one the store never writes; the load accepts it, and
  \<open>array_loses_decision\<close> shows that a decision recorded on it does not survive a restart.
\<close>

theorem restart_loads_state:
  assumes "\<not> array_file m"
  shows "let s = fold run_state_op ops (state_load (new_sync_store m))
    in sto_state (state_load (new_sync_store (sto_metadata s))) = sto_state s"
proof -
  let ?s = "fold run_state_op ops (state_load (new_sync_store m))"
  have "on_file ?s"
    by (rule run_on_file [OF load_on_file]) (simp add: new_sync_store_def assms)
  then have "sto_state (state_load ?s) = sto_state ?s" by (simp add: on_file_def)
  then show ?thesis by (simp add: Let_def new_sync_store_def state_load_def)
qed

theorem restart_loads_state_witness:
  "let s = fold run_state_op [SetError ''offline'' 7, RecordDecision ''u'' (DecideDelete KeepDeleted)]
       (state_load (new_sync_store [(STATE_PATH, ''{\"pendingDecisions\":{}}'')]))
   in sto_state (state_load (new_sync_store (sto_metadata s))) = sto_state s"
proof (rule restart_loads_state)
  show "\<not> array_file [(STATE_PATH, ''{\"pendingDecisions\":{}}'')]" by code_simp
qed

text \<open>
  A file whose decisions are an array: the load keeps the array, a decision recorded for a file is
  a plain member of it that \<open>JSON.stringify\<close> drops, so it is there until the restart and gone
  after it.
\<close>

theorem array_loses_decision:
  assumes "sy_decisionArray (sto_state s) = Some n" and "i \<notin> range show_nat"
  shows "getDecision (recordDecision i d s) i = Some d \<and>
    getDecision (state_load (recordDecision i d s)) i = None"
proof -
  let ?st = "sto_state (recordDecision i d s)"
  have st: "sy_pendingDecisions ?st = jm_set i d (sy_pendingDecisions (sto_state s))" "sy_decisionArray ?st = Some n"
    using assms by (auto simp: recordDecision_def state_save_def state_persist_def array_with_def Let_def)
  obtain xs where "decisions_json (Some n) (sy_pendingDecisions ?st) = JArr xs" by (simp add: decisions_json_def)
  then have f: "jfield (state_json ?st) ''pendingDecisions'' = Some (JArr xs)" by (simp add: state_fields st(2))
  have none: "jm_get (fold (\<lambda>(k, v). jm_set k v) (map (\<lambda>(k, d). (show_nat k, f d)) ks) m) i = jm_get m i" for f ks m
    using assms(2) by (induction ks arbitrary: m) auto
  have "state_json ?st \<noteq> JNull" by (simp add: state_json_def)
  then have "sto_state (state_load (recordDecision i d s)) = state_of_json (state_json ?st)"
    by (simp add: recordDecision_def state_save_def state_persist_def state_load_def del: json_show.simps)
  then have "getDecision (state_load (recordDecision i d s)) i = None"
    by (simp add: getDecision_def state_of_json_def decisions_of_json_def f jm_of_list_def none)
  then show ?thesis by (simp add: getDecision_def st(1))
qed

theorem array_loses_decision_witness:
  "getDecision (recordDecision ''u'' (DecideDelete KeepDeleted) (state_load (new_sync_store [(STATE_PATH, ''{\"pendingDecisions\":[]}'')]))) ''u'' =
     Some (DecideDelete KeepDeleted) \<and>
   getDecision (state_load (recordDecision ''u'' (DecideDelete KeepDeleted)
     (state_load (new_sync_store [(STATE_PATH, ''{\"pendingDecisions\":[]}'')])))) ''u'' = None"
proof (rule array_loses_decision)
  show "sy_decisionArray (sto_state (state_load (new_sync_store [(STATE_PATH, ''{\"pendingDecisions\":[]}'')]))) = Some 0"
    by code_simp
  have "list_all is_digit (show_nat k)" for k using show_nat_digits by (simp add: list_all_iff)
  moreover have "\<not> list_all is_digit ''u''" by code_simp
  ultimately show "''u'' \<notin> range show_nat" by (metis rangeE)
qed

end
