(* ===== verification/Coordinator.thy ===== *)
theory Coordinator
  imports SyncState Round
begin

text \<open>
  The coordinator of a synchronisation (\<open>src/network/sync-coordinator.ts\<close>): capture, round and
  bookkeeping in their order, the decisions of the two conflicts, the schedule of the collection,
  and the reset.  What the plugin injects is a parameter; the wall clock is read once per call.
  The conflicts a round deferred are those the applicator lists, described here.  Messages of the
  notifier are collected in \<open>co_notices\<close>, a dash is written as hyphens; the console is left out.
\<close>

section \<open>State and dependencies\<close>

datatype notice = InfoNotice string | ErrorNotice string | SetupNotice string bool

record 's coordinator =
  co_round :: "'s round"
  co_store :: sync_store
  co_notices :: "notice list"
  co_roundConflicts :: "conflict_descriptor list"

record 's coordinator_deps =
  dp_env :: "'s round_env"
  dp_saveOpenEditors :: "(device, unit) act"
  dp_persistHlc :: "('s round, unit) act"
  dp_markSynced :: "('s round, unit) act"
  dp_openSettings :: bool
  dp_runGc :: "('s round, nat) act option"
  dp_gcIntervalMs :: nat
  dp_now :: nat

definition GC_MIN_INTERVAL_MS :: nat where "GC_MIN_INTERVAL_MS = 24 * 60 * 60 * 1000"

datatype sync_source = Manual | Auto

datatype sync_outcome = Completed round_summary | Failed sync_error bool

definition gcDue :: "nat option \<Rightarrow> nat \<Rightarrow> nat \<Rightarrow> bool" where
  "gcDue lastGcAt now intervalMs =
     (case lastGcAt of
        None \<Rightarrow> False
      | Some at \<Rightarrow> (let elapsed = int now - int at in elapsed \<ge> int intervalMs \<or> elapsed < 0))"

section \<open>Decisions\<close>

definition decideDeleteConflict :: "sync_store \<Rightarrow> DeleteStrategy \<Rightarrow> MergeAction \<Rightarrow> delete_decision option" where
  "decideDeleteConflict store strategy action =
     (case getDecision store (ma_fileId action) of
        Some (DecideDelete d) \<Rightarrow> Some d
      | _ \<Rightarrow>
          (case strategy of
             Ask \<Rightarrow> None
           | DeleteStrategy.KeepDeleted \<Rightarrow> Some KeepDeleted
           | DeleteStrategy.KeepModified \<Rightarrow> Some KeepModified))"

definition decideBinaryConflict :: "sync_store \<Rightarrow> MergeAction \<Rightarrow> binary_decision option" where
  "decideBinaryConflict store action =
     (case getDecision store (ma_fileId action) of Some (DecideBinary d) \<Rightarrow> Some d | _ \<Rightarrow> None)"

text \<open>What the handler pushes when it defers.\<close>

fun describe :: "nat \<Rightarrow> MergeAction \<Rightarrow> conflict_descriptor" where
  "describe now (DeleteConflict fileId path side content parents) =
     \<lparr> cd_fileId = fileId, cd_path = path, cd_kind = DeleteKind, cd_at = now, cd_side = Some side, cd_binary = None \<rparr>"
| "describe now (BinaryConflict fileId localPath remotePath localContent remoteContent localHlc remoteHlc parents) =
     \<lparr> cd_fileId = fileId, cd_path = localPath, cd_kind = BinaryKind, cd_at = now, cd_side = None,
       cd_binary = Some \<lparr> bs_localBytes = length localContent, bs_remoteBytes = length remoteContent,
                         bs_localDevice = deviceId localHlc, bs_remoteDevice = deviceId remoteHlc,
                         bs_localAt = wallTime localHlc, bs_remoteAt = wallTime remoteHlc \<rparr> \<rparr>"
| "describe now action =
     \<lparr> cd_fileId = ma_fileId action, cd_path = [], cd_kind = DeleteKind, cd_at = now, cd_side = None, cd_binary = None \<rparr>"

text \<open>The round's environment with the handlers of the coordinator.\<close>

definition with_handlers :: "sync_store \<Rightarrow> 's round_env \<Rightarrow> 's round_env" where
  "with_handlers store env =
     (let strategy = st_deleteConflictStrategy (le_settings (re_logger env))
      in env\<lparr> re_apply := (re_apply env)\<lparr> ae_onDeleteConflict := decideDeleteConflict store strategy,
                                          ae_onBinaryConflict := decideBinaryConflict store \<rparr> \<rparr>)"

section \<open>Steps of a synchronisation\<close>

definition on_round :: "('s round, 'a) act \<Rightarrow> ('s coordinator, 'a) act" where
  "on_round m c = (case m (co_round c) of (s, r) \<Rightarrow> (c\<lparr> co_round := s \<rparr>, r))"

definition on_sync_store :: "(sync_store \<Rightarrow> sync_store) \<Rightarrow> ('s coordinator, unit) act" where
  "on_sync_store f c = (c\<lparr> co_store := f (co_store c) \<rparr>, Inr ())"

definition co_notify :: "notice \<Rightarrow> ('s coordinator, unit) act" where
  "co_notify n c = (c\<lparr> co_notices := co_notices c @ [n] \<rparr>, Inr ())"

definition flush_timers :: "logger_env \<Rightarrow> (device, unit) act" where
  "flush_timers env d = logger_call (lg_flush env (device_files d)) d"

definition capture_offline :: "logger_env \<Rightarrow> (device, unit) act" where
  "capture_offline env d =
     (case captureOfflineChanges env (device_files d) (\<lambda>_. False) (dv_logger d) of
        (s, Inl x) \<Rightarrow> (d\<lparr> dv_logger := s \<rparr>, Inl (io_failure x))
      | (s, Inr stats) \<Rightarrow> (d\<lparr> dv_logger := s \<rparr>, Inr ()))"

definition co_runRound :: "'s coordinator_deps \<Rightarrow> ('s coordinator, round_summary) act" where
  "co_runRound deps c =
     (let s = co_round c
      in case runSync (with_handlers (co_store c) (dp_env deps)) (s\<lparr> rd_device := (rd_device s)\<lparr> dv_asked := [] \<rparr> \<rparr>) of
           (s1, r) \<Rightarrow>
             (c\<lparr> co_round := s1, co_roundConflicts := co_roundConflicts c @ map (describe (dp_now deps)) (dv_asked (rd_device s1)) \<rparr>, r))"

definition recordRoundOutcome :: "'s coordinator_deps \<Rightarrow> round_summary \<Rightarrow> ('s coordinator, unit) act" where
  "recordRoundOutcome deps summary c =
     (let at = dp_now deps;
          conflictIds = js_set_of (sr_deferredConflicts summary);
          path_of = (\<lambda>i. case getById (lg_registry (dv_logger (rd_device (co_round c)))) i of Some e \<Rightarrow> fe_path e | None \<Rightarrow> i);
          deferred = map (\<lambda>i. \<lparr> df_fileId = i, df_path = path_of i, df_at = at \<rparr>) (filter (\<lambda>i. i \<notin> set conflictIds) (sr_deferred summary));
          stranded = map (\<lambda>h. \<lparr> st_contentHash = h, st_at = at \<rparr>) (sr_stranded summary)
      in on_sync_store (setRound \<lparr> rr_at = at, rr_pushed = sr_pushed summary, rr_pulled = sr_pulled summary,
                              rr_conflicts = length (sr_deferredConflicts summary) \<rparr> deferred stranded (co_roundConflicts c)) c)"

definition failure_message :: "apply_failure list \<Rightarrow> apply_failure \<Rightarrow> string" where
  "failure_message failed first =
     ''Couldn't apply '' @ show_nat (length failed) @ '' change(s): '' @ af_path first @ '' -- '' @ af_message first @
     (if length failed - 1 > 0 then '' (and '' @ show_nat (length failed - 1) @ '' more)'' else [])"

definition report_failures :: "'s coordinator_deps \<Rightarrow> apply_failure list \<Rightarrow> ('s coordinator, unit) act" where
  "report_failures deps failed =
     (case failed of
        [] \<Rightarrow> on_sync_store clearError
      | first # _ \<Rightarrow>
          (let message = failure_message failed first
           in bindE (on_sync_store (setError message (dp_now deps))) (\<lambda>_. co_notify (ErrorNotice message))))"

definition maybeRunGc :: "'s coordinator_deps \<Rightarrow> ('s coordinator, unit) act" where
  "maybeRunGc deps c =
     (case dp_runGc deps of
        None \<Rightarrow> (c, Inr ())
      | Some runGc \<Rightarrow>
          (let now = dp_now deps; lastGcAt = sy_lastGcAt (sto_state (co_store c))
           in if \<not> gcDue lastGcAt now (dp_gcIntervalMs deps) then
                (if lastGcAt = None then on_sync_store (setLastGcAt now) c else (c, Inr ()))
              else
                bindE (catchE (bindE (on_round runGc) (\<lambda>_. retE ())) (\<lambda>err. retE ())) (\<lambda>_.
                on_sync_store (setLastGcAt now)) c))"

definition sync_body :: "'s coordinator_deps \<Rightarrow> sync_source \<Rightarrow> ('s coordinator, round_summary) act" where
  "sync_body deps source =
     (let env = re_logger (dp_env deps)
      in bindE (on_round (on_device (dp_saveOpenEditors deps))) (\<lambda>_.
         bindE (on_round (on_device (flush_timers env))) (\<lambda>_.
         bindE (on_round (on_device (capture_offline env))) (\<lambda>_.
         bindE (co_runRound deps) (\<lambda>summary.
         bindE (on_round (dp_persistHlc deps)) (\<lambda>_.
         bindE (recordRoundOutcome deps summary) (\<lambda>_.
         bindE (report_failures deps (sr_applyFailures summary)) (\<lambda>_.
         bindE (on_round (dp_markSynced deps)) (\<lambda>_.
         bindE (if source = Manual \<and> sr_applyFailures summary = [] then co_notify (InfoNotice ''Sync complete'') else retE ()) (\<lambda>_.
         bindE (maybeRunGc deps) (\<lambda>_.
         retE summary)))))))))))"

definition report_error :: "'s coordinator_deps \<Rightarrow> sync_error \<Rightarrow> ('s coordinator, unit) act" where
  "report_error deps err =
     bindE (if isSetupError err then co_notify (SetupNotice (error_message err) (dp_openSettings deps))
            else co_notify (ErrorNotice (''Sync failed: '' @ error_message err))) (\<lambda>_.
     on_sync_store (setError (error_message err) (dp_now deps)))"

definition co_sync :: "'s coordinator_deps \<Rightarrow> sync_source \<Rightarrow> 's coordinator \<Rightarrow> 's coordinator \<times> sync_outcome" where
  "co_sync deps source c =
     (case sync_body deps source (c\<lparr> co_roundConflicts := [] \<rparr>) of
        (c1, Inr summary) \<Rightarrow> (c1, Completed summary)
      | (c1, Inl err) \<Rightarrow>
          if err = SyncCancelledError then (fst (co_notify (InfoNotice ''Sync cancelled'') c1), Failed err True)
          else (fst (report_error deps err c1), Failed err False))"

definition deferredConflictCount :: "'s coordinator \<Rightarrow> nat" where
  "deferredConflictCount c = length (sy_conflicts (sto_state (co_store c)))"

section \<open>Reset and rebaseline\<close>

definition reconcile_registry :: "logger_env \<Rightarrow> (device, unit) act" where
  "reconcile_registry env d =
     (case lg_now env (dv_logger d) of
        (hlc, s) \<Rightarrow>
          (let paths = map vr_path (vf_list (device_files d))
           in (d\<lparr> dv_logger := s\<lparr> lg_registry := reconcileWithVault (le_settings env) hlc (\<lambda>k. le_uuid env (lg_ids s + k)) paths (lg_registry s),
                                    lg_ids := lg_ids s + length paths \<rparr> \<rparr>, Inr ())))"

definition co_reset :: "'s coordinator_deps \<Rightarrow> (nat \<Rightarrow> bool) \<Rightarrow> ('s coordinator, unit) act" where
  "co_reset deps confirm c =
     (let pending = length (getPendingOps (dv_logger (rd_device (co_round c)))); env = re_logger (dp_env deps)
      in if pending > 0 \<and> \<not> confirm pending then (c, Inr ())
         else
           bindE (on_round (on_device (reconcile_registry env))) (\<lambda>_.
           on_round (on_device (capture_offline env))) c)"

definition co_rebaseline :: "'s coordinator_deps \<Rightarrow> bool \<Rightarrow> ('s coordinator, unit) act \<Rightarrow> ('s coordinator, unit) act" where
  "co_rebaseline deps confirmed runManualSync =
     (if \<not> confirmed then retE ()
      else
        bindE (on_round (on_device (\<lambda>d. logger_call (captureAllAsBaseline (re_logger (dp_env deps)) (device_files d)) d))) (\<lambda>_.
        runManualSync))"

end
