(* ===== verification/CoordinatorThms.thy ===== *)
theory CoordinatorThms
  imports Coordinator RoundLaws
begin

text \<open>
  What the coordinator records: every conflict a completed round deferred has its descriptor in the
  observable state, decisions of conflicts that are gone are dropped, failures and errors are
  reported and a cancelled round is not; the collection runs once per interval.
\<close>

section \<open>The applicator lists what it defers\<close>

definition asked :: "device \<Rightarrow> string set" where
  "asked d = ma_fileId ` set (dv_asked d)"

definition asks :: "(device, 'a) act \<Rightarrow> bool" where
  "asks m = (\<forall>F. keepsE (\<lambda>d. F \<subseteq> asked d) m)"

lemma asks_iff: "asks m \<longleftrightarrow> (\<forall>d. asked d \<subseteq> asked (fst (m d)))"
  unfolding asks_def keepsE_def by blast

lemma asks_bind [intro!]: "asks m \<Longrightarrow> (\<And>x. asks (k x)) \<Longrightarrow> asks (bindE m k)"
  unfolding asks_def by (blast intro: keepsE_bind)

lemma asks_iter [intro!]: "(\<And>x a. asks (f x a)) \<Longrightarrow> asks (iterE f xs acc)"
  unfolding asks_def by (blast intro: keepsE_iter)

lemma asks_simple [simp, intro]:
  "asks (retE x)" "asks (throwE e)" "asks (liftE r)" "asks (with_logger f)" "asks (with_registry g)" "asks (hlc_tick env)"
  "asks (put_content h b)" "asks (put_missing h b)" "asks (adopt env i q h t v)" "asks (files_read env q)"
  "asks (files_write env q b)" "asks (files_move env q q')" "asks (files_trash env q)" "asks (ask hf ac)" "asks (logger_call l)"
  by (auto simp: ask_def asks_iff asked_def with_logger_def with_registry_def hlc_tick_def put_content_def put_missing_def adopt_def
      files_read_def files_write_def files_move_def files_trash_def port_call_def logger_call_def Let_def
      split: prod.splits option.splits)

lemma asks_parts [simp, intro]:
  "asks (driftedSinceSnapshot env i q local)" "asks (trash_stale env q q')" "asks (mintMergeResolution env i q h t ps b)"
  by (auto simp: driftedSinceSnapshot_def trash_stale_def mintMergeResolution_def Let_def split: option.splits)

lemma asks_guard [intro!]: "asks m \<Longrightarrow> asks (unless_drifted env i q local m)"
  by (auto simp: unless_drifted_def)

lemma asks_actions [simp, intro]:
  "asks (write_local env local i q b t v)" "asks (write_merge env local i q b ps)" "asks (move_local env local i q q')"
  "asks (delete_local env local i q)" "asks (write_markers env local i q mr pso)" "asks (settle_delete_conflict env x i q b pso)"
  "asks (settle_binary_conflict env i b q pso)"
  by (auto simp: write_local_def write_merge_def move_local_def delete_local_def write_markers_def settle_delete_conflict_def
      settle_binary_conflict_def Let_def)

lemma asks_action [simp, intro]: "asks (applyAction env local a)"
  by (cases a) (auto simp: applyAction_def Let_def split: option.split)

text \<open>Only the two handlers defer a conflict, and they list the action.\<close>

abbreviation plain :: "(device, step_result) act \<Rightarrow> bool" where
  "plain m \<equiv> leads (\<lambda>_. True) m (\<lambda>x. x \<noteq> DeferredConflict)"

lemma plain_bind [intro!]: "(\<And>x. plain (k x)) \<Longrightarrow> plain (bindE m k)"
  by (rule leads_any)

lemma plain_ret [simp, intro]: "x \<noteq> DeferredConflict \<Longrightarrow> plain (retE x)"
  by (simp add: leads_ret)

lemma plain_guard [intro!]: "plain m \<Longrightarrow> plain (unless_drifted env i q local m)"
  by (auto simp: unless_drifted_def)

lemma plain_actions [simp, intro]:
  "plain (mintMergeResolution env i q h t ps b)"
  "plain (write_local env local i q c t v)" "plain (write_merge env local i q c qs)" "plain (move_local env local i q q')"
  "plain (delete_local env local i q)" "plain (write_markers env local i q mr ps)"
  by (auto simp: mintMergeResolution_def write_local_def write_merge_def move_local_def delete_local_def write_markers_def Let_def)

lemma plain_settle [simp, intro]:
  "plain (settle_delete_conflict env x i q c ps)" "plain (settle_binary_conflict env i c q ps)"
  by (auto simp: settle_delete_conflict_def settle_binary_conflict_def Let_def)

lemma deferred_asked:
  assumes "applyAction env local a d = (d', Inr DeferredConflict)"
  shows "ma_fileId a \<in> asked d'"
proof (cases a)
  case (DeleteConflict i q s c ps)
  show ?thesis
  proof (cases "ae_onDeleteConflict env a")
    case None
    then show ?thesis using assms by (auto simp: DeleteConflict applyAction_def ask_def bindE_def asked_def)
  next
    case (Some x)
    have "settle_delete_conflict env x i q c ps d = (d', Inr DeferredConflict)"
      using assms Some by (simp add: DeleteConflict applyAction_def ask_def bindE_def)
    then show ?thesis using plain_settle(1) [of env x i q c ps] unfolding leads_def by blast
  qed
next
  case (BinaryConflict i q q' c c' h h' ps)
  show ?thesis
  proof (cases "ae_onBinaryConflict env a")
    case None
    then show ?thesis using assms by (auto simp: BinaryConflict applyAction_def ask_def bindE_def asked_def)
  next
    case (Some x)
    then obtain c1 q1 where "settle_binary_conflict env i c1 q1 ps d = (d', Inr DeferredConflict)"
      using assms by (auto simp: BinaryConflict applyAction_def ask_def bindE_def Let_def)
    then show ?thesis using plain_settle(2) [of env i c1 q1 ps] unfolding leads_def by blast
  qed
next
  case (WriteLocal i q c t v)
  then show ?thesis using assms plain_actions(2) [of env local i q c t v] unfolding leads_def applyAction_def by auto
next
  case (WriteMerge i q c ps)
  then show ?thesis using assms plain_actions(3) [of env local i q c ps] unfolding leads_def applyAction_def by auto
next
  case (MoveLocal i q q')
  then show ?thesis using assms plain_actions(4) [of env local i q q'] unfolding leads_def applyAction_def by auto
next
  case (DeleteLocal i q)
  then show ?thesis using assms plain_actions(5) [of env local i q] unfolding leads_def applyAction_def by auto
next
  case (Conflict i q q' mr lt rt ps)
  then show ?thesis using assms plain_actions(6) [of env local i q mr ps] unfolding leads_def applyAction_def by auto
qed (use assms in \<open>simp_all add: applyAction_def\<close>)

lemma isolated_asked:
  assumes "isolated env local a p d = (d', r)" and "set (ap_deferredConflicts p) \<subseteq> asked d"
  shows "asked d \<subseteq> asked d'" and "r = Inr p1 \<Longrightarrow> set (ap_deferredConflicts p1) \<subseteq> asked d'"
proof -
  obtain x where x: "applyAction env local a d = (d', x)"
    using assms(1) by (cases "applyAction env local a d"; cases "snd (applyAction env local a d)") (auto simp: isolated_def Let_def)
  show grow: "asked d \<subseteq> asked d'" using asks_action [of env local a] x unfolding asks_iff by (metis fst_conv)
  show "set (ap_deferredConflicts p1) \<subseteq> asked d'" if "r = Inr p1"
  proof (cases x)
    case (Inl e)
    then show ?thesis using assms x that grow by (auto simp: isolated_def Let_def split: if_splits)
  next
    case (Inr y)
    then have "p1 = note_result a y p" using assms(1) x that by (simp add: isolated_def)
    moreover have "y = DeferredConflict \<Longrightarrow> ma_fileId a \<in> asked d'" using deferred_asked x Inr by blast
    ultimately show ?thesis using assms(2) grow by auto
  qed
qed

lemma loop_asked:
  "apply_loop env local as p d = (d', r) \<Longrightarrow> set (ap_deferredConflicts p) \<subseteq> asked d \<Longrightarrow>
     r = Inr p1 \<Longrightarrow> set (ap_deferredConflicts p1) \<subseteq> asked d'"
proof (induction as arbitrary: p d)
  case (Cons a as)
  obtain d1 x where i: "isolated env local a p d = (d1, x)" by fastforce
  show ?case
  proof (cases x)
    case (Inl e)
    then show ?thesis using Cons.prems(1,3) i by (auto simp: apply_loop_def bindE_def)
  next
    case (Inr q)
    obtain d2 y where t: "apply_tick q d1 = (d2, y)" by fastforce
    then obtain s n where y: "y = Inr (q\<lparr> ap_since := n \<rparr>)" "d2 = d1\<lparr> dv_logger := s \<rparr>" by (auto elim: tickE)
    have l: "apply_loop env local as (q\<lparr> ap_since := n \<rparr>) d2 = (d', r)"
      using Cons.prems(1) i t by (simp add: apply_loop_def bindE_def Inr y(1))
    have "set (ap_deferredConflicts q) \<subseteq> asked d2" using isolated_asked(2) [OF i Cons.prems(2) Inr] y(2) by (simp add: asked_def)
    then show ?thesis using Cons.IH [OF l _ Cons.prems(3)] by simp
  qed
qed (auto simp: apply_loop_def)

lemma asks_after [simp, intro]: "asks (after_loop env actions local p)"
proof -
  have "asks (recapture env local i u)" for i u
  proof -
    have "asks (logger_call f)" for f by simp
    then show ?thesis unfolding asks_iff recapture_def by (auto split: option.split)
  qed
  then show ?thesis by (auto simp: after_loop_def updateSyncedPaths_def)
qed

lemma apply_asked:
  assumes "applyActions env actions local d = (d', Inr (deferred, conflicts, failures))"
  shows "set conflicts \<subseteq> asked d'"
proof -
  have e: "asked (end_loop d1) = asked d1" "asked (end_apply env d1) = asked d1" "asked (begin_apply d1) = asked d1" for d1
    by (simp_all add: asked_def end_loop_def end_apply_def begin_apply_def Let_def)
  obtain d1 r where l: "apply_loop env local actions new_apply (begin_apply d) = (d1, r)" by fastforce
  with assms obtain p where p: "r = Inr p" by (cases r) (auto simp: applyActions_def)
  obtain d2 x where a: "after_loop env actions local p (end_loop d1) = (d2, x)" by fastforce
  have "conflicts = ap_deferredConflicts p" "d' = end_apply env d2"
    using assms l p a by (cases x; auto simp: applyActions_def)+
  moreover have "set (ap_deferredConflicts p) \<subseteq> asked d1" using loop_asked [OF l _ p] by (simp add: new_apply_def)
  moreover have "asked d1 \<subseteq> asked d2" using asks_after [of env actions local p] a e unfolding asks_iff by (metis fst_conv)
  ultimately show ?thesis using e by simp
qed

lemma asks_apply [simp, intro]: "asks (applyActions env actions local)"
  unfolding asks_iff
proof
  fix d
  have e: "asked (end_loop d1) = asked d1" "asked (end_apply env d1) = asked d1" "asked (begin_apply d1) = asked d1" for d1
    by (simp_all add: asked_def end_loop_def end_apply_def begin_apply_def Let_def)
  have t: "asks (apply_tick p)" for p
    by (auto simp: asks_iff apply_tick_def asked_def split: prod.split)
  have i: "asks (isolated env local a p)" for a p
    using asks_action [of env local a] unfolding asks_iff isolated_def
    by (auto simp: Let_def split: prod.splits sum.splits) (metis fst_conv subsetD)+
  have "asks (apply_loop env local actions new_apply)" unfolding apply_loop_def using t i by blast
  then obtain d1 r where l: "apply_loop env local actions new_apply (begin_apply d) = (d1, r)" "asked d \<subseteq> asked d1"
    using e unfolding asks_iff by (metis prod.collapse)
  show "asked d \<subseteq> asked (fst (applyActions env actions local d))"
  proof (cases r)
    case (Inl x)
    then show ?thesis using l e by (simp add: applyActions_def)
  next
    case (Inr p)
    obtain d2 x where a: "after_loop env actions local p (end_loop d1) = (d2, x)" by fastforce
    have "asked d1 \<subseteq> asked d2" using asks_after [of env actions local p] a e unfolding asks_iff by (metis fst_conv)
    then show ?thesis using l e a Inr by (cases x) (auto simp: applyActions_def)
  qed
qed

section \<open>The round\<close>

definition lists :: "('s round, 'a) act \<Rightarrow> bool" where
  "lists m = (\<forall>F. keepsE (\<lambda>s. F \<subseteq> asked (rd_device s)) m)"

lemma lists_iff: "lists m \<longleftrightarrow> (\<forall>s. asked (rd_device s) \<subseteq> asked (rd_device (fst (m s))))"
  unfolding lists_def keepsE_def by blast

lemma lists_bind [intro!]: "lists m \<Longrightarrow> (\<And>x. lists (k x)) \<Longrightarrow> lists (bindE m k)"
  unfolding lists_def by (blast intro: keepsE_bind)

lemma lists_iter [intro!]: "(\<And>x a. lists (f x a)) \<Longrightarrow> lists (iterE f xs acc)"
  unfolding lists_def by (blast intro: keepsE_iter)

lemma lists_device [intro!]: "asks m \<Longrightarrow> lists (on_device m)"
  unfolding lists_iff asks_iff on_device_def by (auto split: prod.split) (metis fst_conv subsetD)

lemma lists_simple [simp, intro]:
  "lists (retE x)" "lists (throwE e)" "lists (liftE r)" "lists (on_client c)" "lists clock_now" "lists (saveCursor n)"
  "lists (recordVersionEdges ops g)" "lists (store_read env h)"
  by (auto simp: lists_iff on_client_def clock_now_def saveCursor_def recordVersionEdges_def store_read_def on_device_def asked_def
      split: prod.split sum.split)

lemma lists_steps [simp, intro]:
  "lists (advance_clock t)" "lists (applyMerge env as l)" "lists (merge_states env l r g)"
  by (auto simp: advance_clock_def applyMerge_def merge_states_def split: sum.split)

lemma lists_identity [simp, intro]:
  fixes env :: "'s round_env"
  shows "lists (buildLocalIdentity env)"
proof -
  have "lists (iterE (identity_entry env refs) es a)" for refs es a
    by (auto simp: identity_entry_def split: prod.splits)
  then have "lists (bindE (iterE (identity_entry env refs) es a) (\<lambda>(entries, store) s1. (s1, f entries store s1)))"
    for refs es a and f :: "_ \<Rightarrow> _ \<Rightarrow> 's round \<Rightarrow> _ + 'b"
    by (intro lists_bind) (auto simp: lists_iff)
  then have "asked (rd_device s) \<subseteq> asked (rd_device (fst (bindE (iterE (identity_entry env refs) es a)
      (\<lambda>(entries, store) s1. (s1, f entries store s1)) s)))" for refs es a and f :: "_ \<Rightarrow> _ \<Rightarrow> 's round \<Rightarrow> _ + 'b" and s
    unfolding lists_iff by blast
  then show ?thesis unfolding lists_iff buildLocalIdentity_def by (intro allI) this
qed

lemma lists_stage [simp, intro]: "lists (stageContent env l hs)"
  by (auto simp: stageContent_def stage_hash_def split: option.splits)

lemma lists_stage_files [simp, intro]: "lists (stageForFiles env l ids g)" "lists (stageMergeContent env l r g)"
  using lists_stage unfolding lists_iff stageMergeContent_def stageForFiles_def Let_def by blast+

lemma lists_fold [simp, intro]: "lists (fold_leaf env l g i le op v p)"
  by (auto simp: fold_leaf_def leaf_bytes_def Let_def split: option.split prod.split)

lemma lists_sweep_file [simp, intro]: "lists (sweep_file env l g ls ops def i p)"
  by (auto simp: sweep_file_def Let_def split: option.split list.split)

lemma lists_sweep [simp, intro]: "lists (sweep_loop k env touched ops def g p)"
  by (induction k arbitrary: g p) auto

lemma lists_reconcile [simp, intro]: "lists (reconcileConcurrentHeads env ps g own ms def fs)"
  by (auto simp: reconcileConcurrentHeads_def Let_def simp del: sweep_loop.simps)

text \<open>Every conflict of the summary is listed at the end.\<close>

definition lists_result :: "('s round, round_summary) act \<Rightarrow> bool" where
  "lists_result m = (\<forall>s s' y. m s = (s', Inr y) \<longrightarrow> set (sr_deferredConflicts y) \<subseteq> asked (rd_device s'))"

lemma lists_result_bind: "(\<And>x. lists_result (k x)) \<Longrightarrow> lists_result (bindE m k)"
  unfolding lists_result_def bindE_Inr_iff by blast

lemma apply_then:
  assumes "\<And>d c f. lists (k d c f)" and "\<And>d c f. leads (\<lambda>_. True) (k d c f) (\<lambda>y. sr_deferredConflicts y = c)"
  shows "lists_result (bindE (applyMerge env as l) (\<lambda>(d, c, f). k d c f))"
  unfolding lists_result_def
proof (intro allI impI)
  fix s s' y assume m: "bindE (applyMerge env as l) (\<lambda>(d, c, f). k d c f) s = (s', Inr y)"
  then obtain s1 d c f where a: "applyMerge env as l s = (s1, Inr (d, c, f))" "k d c f s1 = (s', Inr y)"
    by (auto simp: bindE_Inr_iff)
  have "set c \<subseteq> asked (rd_device s1)"
    using a(1) by (auto simp: applyMerge_def on_device_def split: prod.splits dest!: apply_asked)
  moreover have "asked (rd_device s1) \<subseteq> asked (rd_device s')" using assms(1) a(2) unfolding lists_iff by (metis fst_conv)
  moreover have "sr_deferredConflicts y = c" using assms(2) a(2) unfolding leads_def by blast
  ultimately show "set (sr_deferredConflicts y) \<subseteq> asked (rd_device s')" by simp
qed

lemma merge_lists: "lists_result (round_merge env t local)"
  unfolding round_merge_def
  by (intro lists_result_bind apply_then) (auto intro!: leads_any leads_ret split: prod.split)

lemma run_lists: "runSync env s = (s', Inr y) \<Longrightarrow> set (sr_deferredConflicts y) \<subseteq> asked (rd_device s')"
  unfolding runSync_def bindE_Inr_iff using merge_lists unfolding lists_result_def by (auto split: prod.splits) blast

section \<open>The observable state\<close>

lemma describe_id [simp]: "cd_fileId (describe now a) = ma_fileId a"
  by (cases a) simp_all

text \<open>What the plugin injects after a round does not fail.\<close>

definition deps_total :: "'s coordinator_deps \<Rightarrow> bool" where
  "deps_total deps = (\<forall>s. (\<exists>s1. dp_persistHlc deps s = (s1, Inr ())) \<and> (\<exists>s2. dp_markSynced deps s = (s2, Inr ())))"

lemma round_step: "on_round m c = (c1, r) \<Longrightarrow> co_store c1 = co_store c \<and> co_notices c1 = co_notices c \<and> co_roundConflicts c1 = co_roundConflicts c"
  by (auto simp: on_round_def split: prod.splits)

definition gc_stamp :: "'s coordinator_deps \<Rightarrow> sync_store \<Rightarrow> sync_store" where
  "gc_stamp deps st =
     (let last = sy_lastGcAt (sto_state st)
      in if dp_runGc deps = None \<or> last \<noteq> None \<and> \<not> gcDue last (dp_now deps) (dp_gcIntervalMs deps) then st
         else setLastGcAt (dp_now deps) st)"

lemma gc_effect:
  assumes "maybeRunGc deps c = (c', r)"
  shows "r = Inr () \<and> co_store c' = gc_stamp deps (co_store c) \<and> co_notices c' = co_notices c"
proof (cases "dp_runGc deps")
  case None
  then show ?thesis using assms by (simp add: maybeRunGc_def gc_stamp_def)
next
  case (Some gc)
  let ?last = "sy_lastGcAt (sto_state (co_store c))"
  show ?thesis
  proof (cases "gcDue ?last (dp_now deps) (dp_gcIntervalMs deps)")
    case False
    then show ?thesis using assms Some by (auto simp: maybeRunGc_def gc_stamp_def Let_def on_sync_store_def split: if_splits)
  next
    case True
    obtain c1 x where g: "on_round gc c = (c1, x)" by fastforce
    then have "catchE (bindE (on_round gc) (\<lambda>_. retE ())) (\<lambda>err. retE ()) c = (c1, Inr ())"
      by (cases x) (simp_all add: catchE_def bindE_def)
    then have "maybeRunGc deps c = on_sync_store (setLastGcAt (dp_now deps)) c1"
      using Some True by (simp add: maybeRunGc_def Let_def bindE_ok)
    then have "c' = c1\<lparr> co_store := setLastGcAt (dp_now deps) (co_store c1) \<rparr>" "r = Inr ()"
      using assms by (simp_all add: on_sync_store_def)
    then show ?thesis using round_step [OF g] Some True by (simp add: gc_stamp_def)
  qed
qed

definition round_outcome :: "'s coordinator_deps \<Rightarrow> 's coordinator \<Rightarrow> round_summary \<Rightarrow> sync_store" where
  "round_outcome deps c y = co_store (fst (recordRoundOutcome deps y c))"

definition settled_store :: "'s coordinator_deps \<Rightarrow> round_summary \<Rightarrow> sync_store \<Rightarrow> sync_store" where
  "settled_store deps y st =
     gc_stamp deps (case sr_applyFailures y of
        [] \<Rightarrow> clearError st
      | first # _ \<Rightarrow> setError (failure_message (sr_applyFailures y) first) (dp_now deps) st)"

definition settled_notices :: "sync_source \<Rightarrow> round_summary \<Rightarrow> notice list" where
  "settled_notices source y =
     (case sr_applyFailures y of
        [] \<Rightarrow> (if source = Manual then [InfoNotice ''Sync complete''] else [])
      | first # _ \<Rightarrow> [ErrorNotice (failure_message (sr_applyFailures y) first)])"

lemma report_effect:
  "\<exists>c1. report_failures deps (sr_applyFailures y) c = (c1, Inr ()) \<and> co_store c1 =
       (case sr_applyFailures y of [] \<Rightarrow> clearError (co_store c)
        | first # _ \<Rightarrow> setError (failure_message (sr_applyFailures y) first) (dp_now deps) (co_store c)) \<and>
     co_notices c1 = co_notices c @ (case sr_applyFailures y of [] \<Rightarrow> [] | first # _ \<Rightarrow> [ErrorNotice (failure_message (sr_applyFailures y) first)])"
  by (cases "sr_applyFailures y") (simp_all add: report_failures_def on_sync_store_def co_notify_def bindE_def Let_def)

lemma tail_result:
  assumes "deps_total deps"
  shows "\<exists>c'. bindE (on_round (dp_persistHlc deps)) (\<lambda>_.
         bindE (recordRoundOutcome deps y) (\<lambda>_.
         bindE (report_failures deps (sr_applyFailures y)) (\<lambda>_.
         bindE (on_round (dp_markSynced deps)) (\<lambda>_.
         bindE (if source = Manual \<and> sr_applyFailures y = [] then co_notify (InfoNotice ''Sync complete'') else retE ()) (\<lambda>_.
         bindE (maybeRunGc deps) (\<lambda>_.
         retE y)))))) c = (c', Inr y) \<and>
      (\<exists>c1. co_roundConflicts c1 = co_roundConflicts c \<and> co_store c1 = co_store c \<and>
        co_store c' = settled_store deps y (round_outcome deps c1 y)) \<and>
      co_notices c' = co_notices c @ settled_notices source y"
proof -
  obtain s1 where "dp_persistHlc deps (co_round c) = (s1, Inr ())" using assms unfolding deps_total_def by blast
  then obtain c1 where 1: "on_round (dp_persistHlc deps) c = (c1, Inr ())" by (simp add: on_round_def)
  note s1 = round_step [OF 1]
  obtain c2 where 2: "recordRoundOutcome deps y c1 = (c2, Inr ())" "co_notices c2 = co_notices c1"
    by (simp add: recordRoundOutcome_def Let_def on_sync_store_def)
  then have s2: "co_store c2 = round_outcome deps c1 y" by (simp add: round_outcome_def)
  obtain c3 where 3: "report_failures deps (sr_applyFailures y) c2 = (c3, Inr ())"
      "co_store c3 = (case sr_applyFailures y of [] \<Rightarrow> clearError (co_store c2)
        | first # _ \<Rightarrow> setError (failure_message (sr_applyFailures y) first) (dp_now deps) (co_store c2))"
      "co_notices c3 = co_notices c2 @ (case sr_applyFailures y of [] \<Rightarrow> [] | first # _ \<Rightarrow> [ErrorNotice (failure_message (sr_applyFailures y) first)])"
    using report_effect [of deps y c2] by blast
  obtain s4 where "dp_markSynced deps (co_round c3) = (s4, Inr ())" using assms unfolding deps_total_def by blast
  then obtain c4 where 4: "on_round (dp_markSynced deps) c3 = (c4, Inr ())" by (simp add: on_round_def)
  note s4 = round_step [OF 4]
  obtain c5 where 5: "(if source = Manual \<and> sr_applyFailures y = [] then co_notify (InfoNotice ''Sync complete'') else retE ()) c4 = (c5, Inr ())"
      "co_store c5 = co_store c4"
      "co_notices c5 = co_notices c4 @ (if source = Manual \<and> sr_applyFailures y = [] then [InfoNotice ''Sync complete''] else [])"
  proof (cases "source = Manual \<and> sr_applyFailures y = []")
    case True
    then show ?thesis
      by (intro that [of "c4\<lparr> co_notices := co_notices c4 @ [InfoNotice ''Sync complete''] \<rparr>"]) (simp_all add: co_notify_def)
  next
    case False
    have "(if source = Manual \<and> sr_applyFailures y = [] then co_notify (InfoNotice ''Sync complete'') else retE ()) c4 = (c4, Inr ())"
      unfolding if_not_P [OF False] retE_def ..
    then show ?thesis using that False by simp
  qed
  obtain c6 x where "maybeRunGc deps c5 = (c6, x)" by fastforce
  with gc_effect [OF this] have 6: "maybeRunGc deps c5 = (c6, Inr ())" "co_store c6 = gc_stamp deps (co_store c5)" "co_notices c6 = co_notices c5"
    by simp_all
  have "co_notices c6 = co_notices c @ settled_notices source y"
    using s1 2(2) 3(3) s4 5(3) 6(3) by (auto simp: settled_notices_def split: list.split)
  moreover have "co_store c6 = settled_store deps y (round_outcome deps c1 y)"
    using 3(2) [unfolded s2] s4 5(2) 6(2) by (simp add: settled_store_def)
  ultimately show ?thesis using 1 2(1) 3(1) 4 5(1) 6(1) s1 by (simp add: bindE_def) blast
qed

lemma run_round_effect:
  assumes "co_runRound deps c = (c1, r)"
  shows "co_store c1 = co_store c \<and> co_notices c1 = co_notices c \<and>
    (\<forall>y. r = Inr y \<longrightarrow> set (sr_deferredConflicts y) \<subseteq> cd_fileId ` set (co_roundConflicts c1))"
proof -
  let ?s = "(co_round c)\<lparr> rd_device := (rd_device (co_round c))\<lparr> dv_asked := [] \<rparr> \<rparr>"
  obtain s1 x where m: "runSync (with_handlers (co_store c) (dp_env deps)) ?s = (s1, x)" by fastforce
  have c1: "c1 = c\<lparr> co_round := s1, co_roundConflicts := co_roundConflicts c @ map (describe (dp_now deps)) (dv_asked (rd_device s1)) \<rparr>" "r = x"
    using assms m by (simp_all add: co_runRound_def Let_def)
  have "set (sr_deferredConflicts y) \<subseteq> ma_fileId ` set (dv_asked (rd_device s1))" if "x = Inr y" for y
    using run_lists [OF m [unfolded that]] by (simp add: asked_def)
  then show ?thesis unfolding c1 by (auto simp: image_Un image_image)
qed

lemma body_result:
  assumes "deps_total deps" and "sync_body deps source (c\<lparr> co_roundConflicts := [] \<rparr>) = (c', r)"
  shows "case r of
      Inl e \<Rightarrow> co_store c' = co_store c \<and> co_notices c' = co_notices c
    | Inr y \<Rightarrow> (\<exists>c1. set (sr_deferredConflicts y) \<subseteq> cd_fileId ` set (co_roundConflicts c1) \<and> co_store c1 = co_store c \<and>
        co_store c' = settled_store deps y (round_outcome deps c1 y)) \<and>
        co_notices c' = co_notices c @ settled_notices source y"
proof -
  let ?c = "c\<lparr> co_roundConflicts := [] \<rparr>"
  let ?tail = "\<lambda>y. bindE (on_round (dp_persistHlc deps)) (\<lambda>_.
         bindE (recordRoundOutcome deps y) (\<lambda>_.
         bindE (report_failures deps (sr_applyFailures y)) (\<lambda>_.
         bindE (on_round (dp_markSynced deps)) (\<lambda>_.
         bindE (if source = Manual \<and> sr_applyFailures y = [] then co_notify (InfoNotice ''Sync complete'') else retE ()) (\<lambda>_.
         bindE (maybeRunGc deps) (\<lambda>_.
         retE y))))))"
  let ?head = "bindE (on_round (on_device (dp_saveOpenEditors deps))) (\<lambda>_.
         bindE (on_round (on_device (flush_timers (re_logger (dp_env deps))))) (\<lambda>_.
         bindE (on_round (on_device (capture_offline (re_logger (dp_env deps))))) (\<lambda>_. co_runRound deps)))"
  have b: "sync_body deps source = bindE ?head ?tail" by (simp add: sync_body_def Let_def bindE_assoc)
  have keep: "co_store c1 = co_store c \<and> co_notices c1 = co_notices c \<and>
      (\<forall>y. x = Inr y \<longrightarrow> set (sr_deferredConflicts y) \<subseteq> cd_fileId ` set (co_roundConflicts c1))"
    if h: "?head ?c = (c1, x)" for c1 x
  proof -
    have r: "co_store c3 = co_store c2 \<and> co_notices c3 = co_notices c2 \<and>
        (\<forall>y. z = Inr y \<longrightarrow> set (sr_deferredConflicts y) \<subseteq> cd_fileId ` set (co_roundConflicts c3))"
      if m: "co_runRound deps c2 = (c3, z)" for c2 c3 z
      by (rule run_round_effect [OF m])
    from h show ?thesis
    proof (cases rule: bindE_cases)
      case (err e)
      show ?thesis using round_step [OF err(1)] err(2) by (simp del: split_paired_All)
    next
      case (ok c2 u)
      note s2 = round_step [OF ok(1)]
      from ok(2) show ?thesis
      proof (cases rule: bindE_cases)
        case (err e)
        then show ?thesis using s2 round_step [OF err(1)] by simp
      next
        case (ok c3 u)
        note s3 = round_step [OF ok(1)]
        from ok(2) show ?thesis
        proof (cases rule: bindE_cases)
          case (err e)
          then show ?thesis using s2 s3 round_step [OF err(1)] by simp
        next
          case (ok c4 u)
          then show ?thesis using s2 s3 round_step [OF ok(1)] r [OF ok(2)] by simp
        qed
      qed
    qed
  qed
  from assms(2) [unfolded b] show ?thesis
  proof (cases rule: bindE_cases)
    case (err e)
    then show ?thesis using keep by auto
  next
    case (ok c1 y)
    note k = keep [OF ok(1)]
    obtain c2 where t: "?tail y c1 = (c2, Inr y)"
        "\<exists>c3. co_roundConflicts c3 = co_roundConflicts c1 \<and> co_store c3 = co_store c1 \<and> co_store c2 = settled_store deps y (round_outcome deps c3 y)"
        "co_notices c2 = co_notices c1 @ settled_notices source y"
      using tail_result [OF assms(1), of y source c1] by blast
    then have "c' = c2" "r = Inr y" using ok(2) by simp_all
    then show ?thesis using k t(2,3) by auto metis
  qed
qed

lemma gc_stamp_fields:
  "\<exists>at. sto_state (gc_stamp deps st) = (sto_state st)\<lparr> sy_lastGcAt := at \<rparr>"
proof (cases "gc_stamp deps st = st")
  case True
  then show ?thesis by (intro exI [of _ "sy_lastGcAt (sto_state st)"]) simp
next
  case False
  then have "gc_stamp deps st = setLastGcAt (dp_now deps) st" by (auto simp: gc_stamp_def Let_def split: if_splits)
  then show ?thesis by (intro exI [of _ "Some (dp_now deps)"]) (simp add: setLastGcAt_def state_save_def state_persist_def)
qed

lemma clear_fields: "sto_state (clearError st) = (sto_state st)\<lparr> sy_lastError := None \<rparr>"
  by (cases "sto_state st"; cases "sy_lastError (sto_state st)") (auto simp: clearError_def state_save_def state_persist_def)

definition failure_error :: "'s coordinator_deps \<Rightarrow> apply_failure list \<Rightarrow> (string \<times> nat) option" where
  "failure_error deps failed = (case failed of [] \<Rightarrow> None | first # _ \<Rightarrow> Some (failure_message failed first, dp_now deps))"

lemma settled_fields:
  "\<exists>at. sto_state (settled_store deps y st) =
     (sto_state st)\<lparr> sy_lastError := failure_error deps (sr_applyFailures y), sy_lastGcAt := at \<rparr>"
proof -
  let ?st = "case sr_applyFailures y of [] \<Rightarrow> clearError st
      | first # _ \<Rightarrow> setError (failure_message (sr_applyFailures y) first) (dp_now deps) st"
  have "sto_state ?st = (sto_state st)\<lparr> sy_lastError := failure_error deps (sr_applyFailures y) \<rparr>"
    by (simp add: clear_fields setError_def state_save_def state_persist_def failure_error_def split: list.split)
  then show ?thesis using gc_stamp_fields [of deps ?st] unfolding settled_store_def by simp
qed

lemma settled_on_file:
  assumes "on_file st"
  shows "on_file (settled_store deps y st)"
proof -
  have "on_file (case sr_applyFailures y of [] \<Rightarrow> clearError st
      | first # _ \<Rightarrow> setError (failure_message (sr_applyFailures y) first) (dp_now deps) st)"
    using on_file_steps [OF assms] by (simp split: list.split)
  then show ?thesis using on_file_steps(3) by (simp add: settled_store_def gc_stamp_def Let_def)
qed

lemma outcome_fields:
  "sto_state (round_outcome deps c y) =
     (sto_state (co_store c))\<lparr>
       sy_lastSync := Some \<lparr> rr_at = dp_now deps, rr_pushed = sr_pushed y, rr_pulled = sr_pulled y,
                             rr_conflicts = length (sr_deferredConflicts y) \<rparr>,
       sy_deferred := map (\<lambda>i. \<lparr> df_fileId = i,
           df_path = (case getById (lg_registry (dv_logger (rd_device (co_round c)))) i of Some e \<Rightarrow> fe_path e | None \<Rightarrow> i),
           df_at = dp_now deps \<rparr>) (filter (\<lambda>i. i \<notin> set (sr_deferredConflicts y)) (sr_deferred y)),
       sy_stranded := map (\<lambda>h. \<lparr> st_contentHash = h, st_at = dp_now deps \<rparr>) (sr_stranded y),
       sy_conflicts := co_roundConflicts c,
       sy_pendingDecisions := filter (\<lambda>(i, d). i \<in> cd_fileId ` set (co_roundConflicts c)) (sy_pendingDecisions (sto_state (co_store c))) \<rparr>"
  by (simp add: round_outcome_def recordRoundOutcome_def Let_def on_sync_store_def setRound_def state_save_def state_persist_def)

lemma outcome_on_file: "on_file (co_store c) \<Longrightarrow> on_file (round_outcome deps c y)"
  by (simp add: round_outcome_def recordRoundOutcome_def Let_def on_sync_store_def on_file_steps)

text \<open>What a call of \<open>sync\<close> does, by its outcome.\<close>

lemma sync_result:
  assumes "deps_total deps" and "co_sync deps source c = (c', out)"
  shows "case out of
      Completed y \<Rightarrow> (\<exists>c1. set (sr_deferredConflicts y) \<subseteq> cd_fileId ` set (co_roundConflicts c1) \<and> co_store c1 = co_store c \<and>
        co_store c' = settled_store deps y (round_outcome deps c1 y)) \<and>
        co_notices c' = co_notices c @ settled_notices source y
    | Failed e cancelled \<Rightarrow> cancelled = (e = SyncCancelledError) \<and>
        co_store c' = (if cancelled then co_store c else setError (error_message e) (dp_now deps) (co_store c)) \<and>
        co_notices c' = co_notices c @ [if cancelled then InfoNotice ''Sync cancelled''
          else if isSetupError e then SetupNotice (error_message e) (dp_openSettings deps)
          else ErrorNotice (''Sync failed: '' @ error_message e)]"
proof -
  obtain c1 r where b: "sync_body deps source (c\<lparr> co_roundConflicts := [] \<rparr>) = (c1, r)" by fastforce
  note k = body_result [OF assms(1) b]
  show ?thesis
  proof (cases r)
    case (Inr y)
    then have "c' = c1" "out = Completed y" using assms(2) b by (simp_all add: co_sync_def)
    then show ?thesis using k Inr by simp
  next
    case (Inl e)
    show ?thesis
    proof (cases "e = SyncCancelledError")
      case True
      then have "c' = fst (co_notify (InfoNotice ''Sync cancelled'') c1)" "out = Failed e True"
        using assms(2) b Inl by (simp_all add: co_sync_def)
      then show ?thesis using k Inl True by (simp add: co_notify_def)
    next
      case False
      then have "c' = fst (report_error deps e c1)" "out = Failed e False"
        using assms(2) b Inl by (simp_all add: co_sync_def)
      then show ?thesis using k Inl False
        by (simp add: report_error_def co_notify_def on_sync_store_def bindE_def)
    qed
  qed
qed

section \<open>Properties\<close>

text \<open>
  C18: When a call of \<open>sync\<close> completes, every conflict the round deferred has its descriptor in the
  observable state, a decision is kept only while its conflict is listed, the deferred files are
  the others, the stranded contents are those of the round, the error is the message of the
  failures or none, and the file holds the state.  When it fails nothing but the error changes, and
  when it is cancelled nothing does.
\<close>

theorem sync_outcome_is_recorded:
  assumes "deps_total deps" and "on_file (co_store c)"
  shows "let (c', out) = co_sync deps source c; old = sto_state (co_store c); st = sto_state (co_store c')
    in on_file (co_store c') \<and>
       (case out of
          Completed y \<Rightarrow>
            set (sr_deferredConflicts y) \<subseteq> cd_fileId ` set (sy_conflicts st) \<and>
            sy_pendingDecisions st = filter (\<lambda>(i, d). i \<in> cd_fileId ` set (sy_conflicts st)) (sy_pendingDecisions old) \<and>
            map df_fileId (sy_deferred st) = filter (\<lambda>i. i \<notin> set (sr_deferredConflicts y)) (sr_deferred y) \<and>
            map st_contentHash (sy_stranded st) = sr_stranded y \<and>
            sy_lastError st = failure_error deps (sr_applyFailures y)
        | Failed e cancelled \<Rightarrow>
            cancelled = (e = SyncCancelledError) \<and>
            st = (if cancelled then old else old\<lparr> sy_lastError := Some (error_message e, dp_now deps) \<rparr>))"
proof -
  obtain c' out where m: "co_sync deps source c = (c', out)" by fastforce
  note k = sync_result [OF assms(1) m]
  show ?thesis
  proof (cases out)
    case (Completed y)
    then obtain c1 where c1: "set (sr_deferredConflicts y) \<subseteq> cd_fileId ` set (co_roundConflicts c1)" "co_store c1 = co_store c"
        "co_store c' = settled_store deps y (round_outcome deps c1 y)"
      using k by auto
    obtain n where n: "sto_state (co_store c') =
        (sto_state (round_outcome deps c1 y))\<lparr> sy_lastError := failure_error deps (sr_applyFailures y), sy_lastGcAt := n \<rparr>"
      using settled_fields unfolding c1(3) by blast
    have "on_file (co_store c')"
      unfolding c1(3) using assms(2) by (intro settled_on_file outcome_on_file) (simp add: c1(2))
    then show ?thesis using c1(1,2) unfolding m Completed by (simp add: Let_def n outcome_fields comp_def)
  next
    case (Failed e cancelled)
    then show ?thesis using k on_file_steps(4) [OF assms(2)] assms(2) unfolding m
      by (auto simp: setError_def state_save_def state_persist_def)
  qed
qed

definition sample_deps :: "fake_server coordinator_deps" where
  "sample_deps = \<lparr> dp_env = sample_round_env, dp_saveOpenEditors = retE (), dp_persistHlc = retE (), dp_markSynced = retE (),
     dp_openSettings = True, dp_runGc = Some (retE 0), dp_gcIntervalMs = GC_MIN_INTERVAL_MS, dp_now = 5 \<rparr>"

definition sample_coordinator :: "fake_server coordinator" where
  "sample_coordinator = \<lparr> co_round = sample_round,
     co_store = recordDecision ''f'' (DecideDelete KeepModified) (state_resetAll (new_sync_store [])),
     co_notices = [], co_roundConflicts = [] \<rparr>"

lemma sample_deps_total: "deps_total sample_deps"
  by (simp add: deps_total_def sample_deps_def)

lemma sample_on_file: "on_file (co_store sample_coordinator)"
proof -
  have "on_file (state_resetAll (new_sync_store []))"
    unfolding state_resetAll_def by (rule persist_on_file(1)) (simp_all add: emptyState_def)
  then show ?thesis using on_file_steps(2) by (simp add: sample_coordinator_def)
qed

theorem sync_outcome_is_recorded_witness:
  "let (c', out) = co_sync sample_deps Manual sample_coordinator;
       old = sto_state (co_store sample_coordinator); st = sto_state (co_store c')
    in on_file (co_store c') \<and>
       (case out of
          Completed y \<Rightarrow>
            set (sr_deferredConflicts y) \<subseteq> cd_fileId ` set (sy_conflicts st) \<and>
            sy_pendingDecisions st = filter (\<lambda>(i, d). i \<in> cd_fileId ` set (sy_conflicts st)) (sy_pendingDecisions old) \<and>
            map df_fileId (sy_deferred st) = filter (\<lambda>i. i \<notin> set (sr_deferredConflicts y)) (sr_deferred y) \<and>
            map st_contentHash (sy_stranded st) = sr_stranded y \<and>
            sy_lastError st = failure_error sample_deps (sr_applyFailures y)
        | Failed e cancelled \<Rightarrow>
            cancelled = (e = SyncCancelledError) \<and>
            st = (if cancelled then old else old\<lparr> sy_lastError := Some (error_message e, dp_now sample_deps) \<rparr>))"
  by (rule sync_outcome_is_recorded [OF sample_deps_total sample_on_file])

text \<open>
  Every call of \<open>sync\<close> tells the user how it ended: a cancelled one with a plain message, a failed
  one with an error, kept until dismissed when only the user can mend it, one whose changes did not
  all apply with an error although it completed, and one that completed with no message when it
  ran by itself.
\<close>

theorem sync_outcome_is_reported:
  assumes "deps_total deps"
  shows "let (c', out) = co_sync deps source c
    in co_notices c' = co_notices c @
       (case out of
          Completed y \<Rightarrow>
            (case sr_applyFailures y of
               first # _ \<Rightarrow> [ErrorNotice (failure_message (sr_applyFailures y) first)]
             | [] \<Rightarrow> (case source of Manual \<Rightarrow> [InfoNotice ''Sync complete''] | Auto \<Rightarrow> []))
        | Failed e _ \<Rightarrow>
            (case e of
               SyncCancelledError \<Rightarrow> [InfoNotice ''Sync cancelled'']
             | _ \<Rightarrow> if isSetupError e then [SetupNotice (error_message e) (dp_openSettings deps)]
                    else [ErrorNotice (''Sync failed: '' @ error_message e)]))"
proof -
  obtain c' out where m: "co_sync deps source c = (c', out)" by fastforce
  note k = sync_result [OF assms(1) m]
  show ?thesis
  proof (cases out)
    case (Completed y)
    then show ?thesis using k unfolding m by (cases source) (simp_all add: settled_notices_def split: list.split)
  next
    case (Failed e cancelled)
    then show ?thesis using k unfolding m by (cases e) simp_all
  qed
qed

theorem sync_outcome_is_reported_witness:
  "let (c', out) = co_sync sample_deps Manual sample_coordinator
    in co_notices c' = co_notices sample_coordinator @
       (case out of
          Completed y \<Rightarrow>
            (case sr_applyFailures y of
               first # _ \<Rightarrow> [ErrorNotice (failure_message (sr_applyFailures y) first)]
             | [] \<Rightarrow> (case Manual of Manual \<Rightarrow> [InfoNotice ''Sync complete''] | Auto \<Rightarrow> []))
        | Failed e _ \<Rightarrow>
            (case e of
               SyncCancelledError \<Rightarrow> [InfoNotice ''Sync cancelled'']
             | _ \<Rightarrow> if isSetupError e then [SetupNotice (error_message e) (dp_openSettings sample_deps)]
                    else [ErrorNotice (''Sync failed: '' @ error_message e)]))"
  by (rule sync_outcome_is_reported [OF sample_deps_total])

text \<open>
  The collection runs once per interval at most: after a call that ran it or started the schedule,
  a later call within the interval changes nothing, whether the first one succeeded or not, and a
  device that never collected does not collect in its first round.
\<close>

theorem collection_once_per_interval:
  assumes "maybeRunGc deps c = (c1, r)" and "dp_runGc deps \<noteq> None"
    and "let last = sy_lastGcAt (sto_state (co_store c)) in last = None \<or> gcDue last (dp_now deps) (dp_gcIntervalMs deps)"
    and "dp_now deps \<le> dp_now later" and "dp_now later < dp_now deps + dp_gcIntervalMs later"
  shows "r = Inr () \<and> maybeRunGc later c1 = (c1, Inr ()) \<and>
    (sy_lastGcAt (sto_state (co_store c)) = None \<longrightarrow> co_round c1 = co_round c)"
proof -
  have e: "r = Inr ()" "co_store c1 = setLastGcAt (dp_now deps) (co_store c)"
    using gc_effect [OF assms(1)] assms(2,3) by (auto simp: gc_stamp_def Let_def)
  then have at: "sy_lastGcAt (sto_state (co_store c1)) = Some (dp_now deps)"
    by (simp add: setLastGcAt_def state_save_def state_persist_def)
  then have "\<not> gcDue (sy_lastGcAt (sto_state (co_store c1))) (dp_now later) (dp_gcIntervalMs later)"
    using assms(4,5) by (simp add: gcDue_def)
  then have "maybeRunGc later c1 = (c1, Inr ())" by (simp add: maybeRunGc_def at Let_def split: option.split)
  moreover have "co_round c1 = co_round c" if "sy_lastGcAt (sto_state (co_store c)) = None"
    using assms(1,2) that by (auto simp: maybeRunGc_def gcDue_def on_sync_store_def)
  ultimately show ?thesis using e(1) by blast
qed

theorem collection_once_per_interval_witness:
  "\<exists>c1 r. maybeRunGc sample_deps sample_coordinator = (c1, r) \<and>
    r = Inr () \<and> maybeRunGc (sample_deps\<lparr> dp_now := 86400004 \<rparr>) c1 = (c1, Inr ()) \<and> co_round c1 = co_round sample_coordinator"
proof -
  obtain c1 r where m: "maybeRunGc sample_deps sample_coordinator = (c1, r)" by fastforce
  have n: "sy_lastGcAt (sto_state (co_store sample_coordinator)) = None"
    by (simp add: sample_coordinator_def recordDecision_def state_resetAll_def state_save_def state_persist_def emptyState_def)
  have "r = Inr () \<and> maybeRunGc (sample_deps\<lparr> dp_now := 86400004 \<rparr>) c1 = (c1, Inr ()) \<and>
      (sy_lastGcAt (sto_state (co_store sample_coordinator)) = None \<longrightarrow> co_round c1 = co_round sample_coordinator)"
    by (rule collection_once_per_interval [OF m]) (simp_all add: n Let_def, simp_all add: sample_deps_def GC_MIN_INTERVAL_MS_def)
  then show ?thesis using m n by blast
qed

end
