(* ===== verification/HttpApi.thy ===== *)
theory HttpApi
  imports ServerApi Registry
begin

text \<open>
  The wire over HTTP (\<open>src/network/server-http.ts\<close>).  Obsidian's \<open>requestUrl\<close> is a parameter, a
  function from the request to the promise of an answer; every call makes one request.  What
  \<open>resp.json\<close> yields is a value or, for a text that is no JSON, nothing; an answer whose members
  have other types than the protocol's, which the code casts unchecked, reads with empty members.
  Strings are sequences of code units below 256, as everywhere.
\<close>

section \<open>Requests and answers\<close>

record http_config =
  hc_baseUrl :: string
  hc_vaultId :: string
  hc_token :: string
  hc_timeoutMs :: "nat option"
  hc_blobTimeoutMs :: "nat option"
  hc_preflightTimeoutMs :: "nat option"

datatype http_body = NoBody | TextBody string | ByteBody bytes

record http_request =
  hq_url :: string
  hq_method :: string
  hq_headers :: "(string \<times> string) list"
  hq_body :: http_body

record http_response =
  hr_status :: nat
  hr_json :: "json option"
  hr_arrayBuffer :: bytes

type_synonym http = "http_request \<Rightarrow> (sync_error, http_response) promise"

definition DEFAULT_TIMEOUT_MS :: nat where "DEFAULT_TIMEOUT_MS = 30000"
definition DEFAULT_BLOB_TIMEOUT_MS :: nat where "DEFAULT_BLOB_TIMEOUT_MS = 120000"
definition DEFAULT_PREFLIGHT_TIMEOUT_MS :: nat where "DEFAULT_PREFLIGHT_TIMEOUT_MS = 5000"

definition metaTimeout :: "http_config \<Rightarrow> nat" where
  "metaTimeout cfg = (case hc_timeoutMs cfg of None \<Rightarrow> DEFAULT_TIMEOUT_MS | Some t \<Rightarrow> t)"

definition blobTimeout :: "http_config \<Rightarrow> nat" where
  "blobTimeout cfg = (case hc_blobTimeoutMs cfg of None \<Rightarrow> DEFAULT_BLOB_TIMEOUT_MS | Some t \<Rightarrow> t)"

definition preflightTimeout :: "http_config \<Rightarrow> nat" where
  "preflightTimeout cfg = (case hc_preflightTimeoutMs cfg of None \<Rightarrow> DEFAULT_PREFLIGHT_TIMEOUT_MS | Some t \<Rightarrow> t)"

text \<open>\<open>encodeURIComponent\<close>: the octets of the UTF-8 form, escaped unless they are unreserved.\<close>

definition hex_upper :: "nat \<Rightarrow> char" where
  "hex_upper n = (if n < 10 then char_of (48 + n) else char_of (55 + n))"

definition percent :: "nat \<Rightarrow> string" where
  "percent n = [CHR ''%'', hex_upper (n div 16), hex_upper (n mod 16)]"

definition unreserved :: "char \<Rightarrow> bool" where
  "unreserved c =
     (let n = (of_char c :: nat)
      in 65 \<le> n \<and> n \<le> 90 \<or> 97 \<le> n \<and> n \<le> 122 \<or> 48 \<le> n \<and> n \<le> 57 \<or> c \<in> set ''-_.!~*()'' \<or> n = 39)"

definition encodeURIComponent :: "string \<Rightarrow> string" where
  "encodeURIComponent s =
     concat (map (\<lambda>c. let n = of_char c
       in if unreserved c then [c] else if n < 128 then percent n else percent (192 + n div 64) @ percent (128 + n mod 64)) s)"

definition trim_slashes :: "string \<Rightarrow> string" where
  "trim_slashes s = rev (dropWhile (\<lambda>c. c = CHR ''/'') (rev s))"

definition vaultBase :: "http_config \<Rightarrow> string" where
  "vaultBase cfg = trim_slashes (hc_baseUrl cfg) @ ''/v1/vaults/'' @ encodeURIComponent (hc_vaultId cfg)"

definition authHeader :: "http_config \<Rightarrow> (string \<times> string) list" where
  "authHeader cfg = [(''Authorization'', ''Bearer '' @ hc_token cfg)]"

section \<open>One request\<close>

text \<open>\<open>first\<close> decides the race between an answer and the timer at the very moment of the timer.\<close>

definition http_request_bounded ::
  "bool \<Rightarrow> http \<Rightarrow> string \<Rightarrow> http_request \<Rightarrow> nat \<Rightarrow> (sync_error, http_response) promise" where
  "http_request_bounded first http operation params timeoutMs =
     (case withTimeout first (http params) timeoutMs operation of
        Settles t (Inl err) \<Rightarrow>
          Settles t (Inl (case err of NetworkError _ \<Rightarrow> err | TimeoutError _ _ \<Rightarrow> err | _ \<Rightarrow> NetworkError operation))
      | p \<Rightarrow> p)"

definition statusError :: "nat \<Rightarrow> string \<Rightarrow> sync_error" where
  "statusError status operation =
     (if status = 401 \<or> status = 403 then AuthError status
      else if status = 404 then NotFoundError else ServerError status operation)"

text \<open>The rest of a call, once the answer is there.\<close>

definition on_answer :: "(sync_error, http_response) promise \<Rightarrow> (http_response \<Rightarrow> sync_error + 'a) \<Rightarrow> (sync_error, 'a) promise" where
  "on_answer p f = (case p of Pending \<Rightarrow> Pending | Settles t (Inl e) \<Rightarrow> Settles t (Inl e) | Settles t (Inr r) \<Rightarrow> Settles t (f r))"

definition with_json :: "http_response \<Rightarrow> (json \<Rightarrow> sync_error + 'a) \<Rightarrow> sync_error + 'a" where
  "with_json r f = (case hr_json r of None \<Rightarrow> Inl (OtherError ''Unexpected token in JSON'') | Some v \<Rightarrow> f v)"

section \<open>The shapes of the protocol\<close>

definition strings_of :: "json \<Rightarrow> string \<Rightarrow> string list" where
  "strings_of v k = (case jfield v k of Some (JArr vs) \<Rightarrow> map (\<lambda>x. case x of JStr s \<Rightarrow> s | _ \<Rightarrow> []) vs | _ \<Rightarrow> [])"

definition elems_of :: "json \<Rightarrow> string \<Rightarrow> json list" where
  "elems_of v k = (case jfield v k of Some (JArr vs) \<Rightarrow> vs | _ \<Rightarrow> [])"

definition op_record_of_json :: "json \<Rightarrow> op_record" where
  "op_record_of_json v =
     \<lparr> or_seq = jdefault 0 (jnum v ''seq''), or_deviceId = jdefault [] (jstr v ''deviceId''), or_ts = jdefault 0 (jnum v ''ts''),
       or_ciphertext = jdefault [] (jstr v ''ciphertext''), or_blobRefs = strings_of v ''blobRefs'' \<rparr>"

definition pull_result_of_json :: "json \<Rightarrow> pull_result" where
  "pull_result_of_json v =
     \<lparr> pr_ops = map op_record_of_json (elems_of v ''ops''), pr_nextCursor = jdefault 0 (jnum v ''nextCursor''),
       pr_hasMore = (jfield v ''hasMore'' = Some (JBool True)) \<rparr>"

definition append_op_json :: "append_op \<Rightarrow> json" where
  "append_op_json a =
     JObj [(''clientOpId'', JStr (ao_clientOpId a)), (''ciphertext'', JStr (ao_ciphertext a)),
           (''blobRefs'', JArr (map JStr (ao_blobRefs a)))]"

definition append_result_of_json :: "json \<Rightarrow> append_result" where
  "append_result_of_json v =
     \<lparr> ar_assigned = map (\<lambda>x. (jdefault [] (jstr x ''clientOpId''), jdefault 0 (jnum x ''seq''))) (elems_of v ''assigned''),
       ar_headCursor = jdefault 0 (jnum v ''headCursor'') \<rparr>"

text \<open>The blobs of a batch; \<open>atob\<close> throws on data that is no base64.\<close>

fun batch_blobs :: "json list \<Rightarrow> (string, bytes) jsmap \<Rightarrow> sync_error + (string, bytes) jsmap" where
  "batch_blobs [] blobs = Inr blobs"
| "batch_blobs (b # bs) blobs =
     (case base64ToBytes (jdefault [] (jstr b ''data'')) of
        None \<Rightarrow> Inl (OtherError ''The string to be decoded is not correctly encoded.'')
      | Some content \<Rightarrow> batch_blobs bs (jm_set (jdefault [] (jstr b ''hash'')) content blobs))"

definition upload_json :: "(string \<times> bytes) list \<Rightarrow> json" where
  "upload_json blobs =
     JObj [(''blobs'', JArr (map (\<lambda>b. JObj [(''hash'', JStr (fst b)), (''data'', JStr (bytesToBase64 (snd b)))]) blobs))]"

section \<open>The calls\<close>

definition get_params :: "http_config \<Rightarrow> string \<Rightarrow> http_request" where
  "get_params cfg url = \<lparr> hq_url = url, hq_method = ''GET'', hq_headers = authHeader cfg, hq_body = NoBody \<rparr>"

definition post_params :: "http_config \<Rightarrow> string \<Rightarrow> json \<Rightarrow> http_request" where
  "post_params cfg url body =
     \<lparr> hq_url = url, hq_method = ''POST'', hq_headers = authHeader cfg @ [(''Content-Type'', ''application/json'')],
       hq_body = TextBody (json_show body) \<rparr>"

definition http_pullOps :: "bool \<Rightarrow> http_config \<Rightarrow> http \<Rightarrow> nat \<Rightarrow> nat \<Rightarrow> (sync_error, pull_result) promise" where
  "http_pullOps first cfg http since limit =
     (let url = vaultBase cfg @ ''/ops?since='' @ show_nat since @ ''&limit='' @ show_nat limit
      in on_answer (http_request_bounded first http ''downloading changes'' (get_params cfg url) (metaTimeout cfg))
           (\<lambda>resp. if hr_status resp \<noteq> 200 then Inl (statusError (hr_status resp) ''downloading changes'')
                   else with_json resp (\<lambda>v. Inr (pull_result_of_json v))))"

definition http_appendOps :: "bool \<Rightarrow> http_config \<Rightarrow> http \<Rightarrow> nat \<Rightarrow> append_op list \<Rightarrow> (sync_error, append_result) promise" where
  "http_appendOps first cfg http baseCursor ops =
     on_answer (http_request_bounded first http ''uploading your changes''
         (post_params cfg (vaultBase cfg @ ''/ops'') (JObj [(''baseCursor'', JNum baseCursor), (''ops'', JArr (map append_op_json ops))]))
         (metaTimeout cfg))
       (\<lambda>resp. if hr_status resp = 409 then Inl StaleCursorError
               else if hr_status resp \<noteq> 200 then Inl (statusError (hr_status resp) ''uploading your changes'')
               else with_json resp (\<lambda>v. Inr (append_result_of_json v)))"

definition http_checkBlobs :: "bool \<Rightarrow> http_config \<Rightarrow> http \<Rightarrow> string list \<Rightarrow> (sync_error, string list) promise" where
  "http_checkBlobs first cfg http hashes =
     on_answer (http_request_bounded first http ''checking the server''
         (post_params cfg (vaultBase cfg @ ''/blobs:check'') (JObj [(''hashes'', JArr (map JStr hashes))])) (metaTimeout cfg))
       (\<lambda>resp. if hr_status resp \<noteq> 200 then Inl (statusError (hr_status resp) ''checking the server'')
               else with_json resp (\<lambda>v. Inr (strings_of v ''missing'')))"

definition http_putBlobBatch :: "bool \<Rightarrow> http_config \<Rightarrow> http \<Rightarrow> (string \<times> bytes) list \<Rightarrow> (sync_error, unit) promise" where
  "http_putBlobBatch first cfg http blobs =
     on_answer (http_request_bounded first http ''uploading your files''
         (post_params cfg (vaultBase cfg @ ''/blobs:batch'') (upload_json blobs)) (blobTimeout cfg))
       (\<lambda>resp. if hr_status resp \<noteq> 200 then Inl (statusError (hr_status resp) ''uploading your files'') else Inr ())"

definition http_putBlob :: "bool \<Rightarrow> http_config \<Rightarrow> http \<Rightarrow> string \<Rightarrow> bytes \<Rightarrow> (sync_error, unit) promise" where
  "http_putBlob first cfg http hash content =
     on_answer (http_request_bounded first http ''uploading a file''
         \<lparr> hq_url = vaultBase cfg @ ''/blobs/'' @ hash, hq_method = ''PUT'',
           hq_headers = authHeader cfg @ [(''Content-Type'', ''application/octet-stream'')], hq_body = ByteBody content \<rparr>
         (blobTimeout cfg))
       (\<lambda>resp. if hr_status resp \<noteq> 200 \<and> hr_status resp \<noteq> 201 then Inl (statusError (hr_status resp) ''uploading a file'')
               else Inr ())"

definition http_getBlob :: "bool \<Rightarrow> http_config \<Rightarrow> http \<Rightarrow> string \<Rightarrow> (sync_error, bytes option) promise" where
  "http_getBlob first cfg http hash =
     on_answer (http_request_bounded first http ''downloading a file'' (get_params cfg (vaultBase cfg @ ''/blobs/'' @ hash))
         (blobTimeout cfg))
       (\<lambda>resp. if hr_status resp = 404 then Inr None
               else if hr_status resp \<noteq> 200 then Inl (statusError (hr_status resp) ''downloading a file'')
               else Inr (Some (hr_arrayBuffer resp)))"

definition preflight_result :: "json \<Rightarrow> sync_error + bool \<times> bytes option" where
  "preflight_result v =
     (let claimed = (jfield v ''claimed'' = Some (JBool True)); key = jdefault [] (jstr v ''keyCheck'')
      in if key = [] then Inr (claimed, None)
         else (case base64ToBytes key of
                 None \<Rightarrow> Inl (OtherError ''The string to be decoded is not correctly encoded.'')
               | Some b \<Rightarrow> Inr (claimed, Some b)))"

definition http_preflight :: "bool \<Rightarrow> http_config \<Rightarrow> http \<Rightarrow> string \<Rightarrow> (sync_error, bool \<times> bytes option) promise" where
  "http_preflight first cfg http keyCheckKey =
     (let q = (if keyCheckKey \<noteq> [] then ''?keyCheck='' @ encodeURIComponent keyCheckKey else [])
      in on_answer (http_request_bounded first http ''checking the server'' (get_params cfg (vaultBase cfg @ ''/preflight'' @ q))
             (preflightTimeout cfg))
           (\<lambda>resp. if hr_status resp \<noteq> 200 then Inl (statusError (hr_status resp) ''checking the server'')
                   else with_json resp preflight_result))"

definition http_getBlobBatch ::
  "bool \<Rightarrow> http_config \<Rightarrow> http \<Rightarrow> string list \<Rightarrow> (sync_error, (string, bytes) jsmap \<times> string list) promise" where
  "http_getBlobBatch first cfg http hashes =
     on_answer (http_request_bounded first http ''downloading your files''
         (post_params cfg (vaultBase cfg @ ''/blobs:fetch'') (JObj [(''hashes'', JArr (map JStr hashes))])) (blobTimeout cfg))
       (\<lambda>resp. if hr_status resp = 413 then Inl BatchTooLargeError
               else if hr_status resp \<noteq> 200 then Inl (statusError (hr_status resp) ''downloading your files'')
               else with_json resp (\<lambda>v. case batch_blobs (elems_of v ''blobs'') [] of
                                        Inl e \<Rightarrow> Inl e
                                      | Inr blobs \<Rightarrow> Inr (blobs, strings_of v ''missing'')))"

section \<open>Bounds and statuses\<close>

definition within :: "nat \<Rightarrow> ('e, 'a) promise \<Rightarrow> bool" where
  "within ms p = (case p of Pending \<Rightarrow> False | Settles t v \<Rightarrow> t \<le> ms)"

lemma bounded_within: "0 < ms \<Longrightarrow> within ms (http_request_bounded first http operation params ms)"
  by (auto simp: within_def http_request_bounded_def withTimeout_def split: promise.splits sum.splits)

lemma answer_within [simp]: "within ms (on_answer p f) = within ms p"
  by (auto simp: within_def on_answer_def split: promise.splits sum.splits)

lemma answered:
  assumes "http params = Settles t (Inr r)" and "ms = 0 \<or> t < ms"
  shows "on_answer (http_request_bounded first http operation params ms) f = Settles t (f r)"
  using assms by (auto simp: on_answer_def http_request_bounded_def withTimeout_def)

text \<open>
  C38: With budgets above zero every call settles within its budget whatever the network does: a
  promise that never settles included.
\<close>

theorem http_calls_settle:
  assumes "0 < metaTimeout cfg" and "0 < blobTimeout cfg" and "0 < preflightTimeout cfg"
  shows "within (metaTimeout cfg) (http_pullOps first cfg http since limit) \<and>
    within (metaTimeout cfg) (http_appendOps first cfg http base ops) \<and>
    within (metaTimeout cfg) (http_checkBlobs first cfg http hashes) \<and>
    within (blobTimeout cfg) (http_putBlobBatch first cfg http blobs) \<and>
    within (blobTimeout cfg) (http_putBlob first cfg http hash content) \<and>
    within (blobTimeout cfg) (http_getBlob first cfg http hash) \<and>
    within (blobTimeout cfg) (http_getBlobBatch first cfg http hashes) \<and>
    within (preflightTimeout cfg) (http_preflight first cfg http key)"
  using assms
  by (simp add: http_pullOps_def http_appendOps_def http_checkBlobs_def http_putBlobBatch_def http_putBlob_def http_getBlob_def
      http_getBlobBatch_def http_preflight_def Let_def bounded_within)

definition sample_config :: http_config where
  "sample_config = \<lparr> hc_baseUrl = ''https://a//'', hc_vaultId = ''v 1'', hc_token = ''t'', hc_timeoutMs = None,
     hc_blobTimeoutMs = None, hc_preflightTimeoutMs = Some 7 \<rparr>"

lemma sample_timeouts [simp]:
  "metaTimeout sample_config = 30000" "blobTimeout sample_config = 120000" "preflightTimeout sample_config = 7"
  by (simp_all add: sample_config_def metaTimeout_def blobTimeout_def preflightTimeout_def DEFAULT_TIMEOUT_MS_def
      DEFAULT_BLOB_TIMEOUT_MS_def)

theorem http_calls_settle_witness:
  "within 30000 (http_pullOps True sample_config (\<lambda>q. Pending) 0 500) \<and>
   within 7 (http_preflight True sample_config (\<lambda>q. Pending) ''k'')"
  using http_calls_settle [of sample_config True "\<lambda>q. Pending" 0 500 0 "[]" "[]" "[]" "[]" "[]" "''k''"] by simp

text \<open>
  C39: What the caller of each endpoint is told when the server answers with another status than 200, the
  three statuses that steer the round included: 409 for a cursor that is too old, 413 for a batch
  that is too large, 404 for a blob that is not held, which is no failure.  Of the others, 401 and 403 are
  an authorisation error with the status, 404 is a vault that is not found, and every other status
  is a server error that names the status and what was being done.
\<close>

theorem http_status_is_told:
  assumes "\<forall>q. \<exists>r. http q = Settles t (Inr r) \<and> hr_status r = status" and "status \<noteq> 200"
    and "t < metaTimeout cfg" and "t < blobTimeout cfg" and "t < preflightTimeout cfg"
  shows "let told = (\<lambda>doing. if status \<in> {401, 403} then AuthError status
        else if status = 404 then NotFoundError else ServerError status doing)
   in http_pullOps first cfg http since limit = Settles t (Inl (told ''downloading changes'')) \<and>
    http_appendOps first cfg http base ops =
      Settles t (Inl (if status = 409 then StaleCursorError else told ''uploading your changes'')) \<and>
    http_checkBlobs first cfg http hashes = Settles t (Inl (told ''checking the server'')) \<and>
    http_putBlobBatch first cfg http blobs = Settles t (Inl (told ''uploading your files'')) \<and>
    http_putBlob first cfg http hash content =
      Settles t (if status = 201 then Inr () else Inl (told ''uploading a file'')) \<and>
    http_getBlob first cfg http hash =
      Settles t (if status = 404 then Inr None else Inl (told ''downloading a file'')) \<and>
    http_getBlobBatch first cfg http hashes =
      Settles t (Inl (if status = 413 then BatchTooLargeError else told ''downloading your files'')) \<and>
    http_preflight first cfg http key = Settles t (Inl (told ''checking the server''))"
proof -
  have a: "on_answer (http_request_bounded first http operation params ms) f = Settles t x"
    if "t < ms" "\<And>r. hr_status r = status \<Longrightarrow> f r = x" for operation params ms x and f :: "http_response \<Rightarrow> sync_error + 'a"
    using assms(1) answered [of http params t _ ms first operation f] that by metis
  show ?thesis
    unfolding Let_def
    unfolding http_pullOps_def http_appendOps_def http_checkBlobs_def http_putBlobBatch_def http_putBlob_def http_getBlob_def
      http_getBlobBatch_def http_preflight_def Let_def
    using assms(2-5) by (intro conjI a) (simp_all add: statusError_def)
qed

theorem http_status_is_told_witness:
  "http_appendOps True sample_config (\<lambda>q. Settles 3 (Inr \<lparr> hr_status = 409, hr_json = None, hr_arrayBuffer = [] \<rparr>)) 0 [] =
     Settles 3 (Inl StaleCursorError) \<and>
   http_pullOps True sample_config (\<lambda>q. Settles 3 (Inr \<lparr> hr_status = 403, hr_json = None, hr_arrayBuffer = [] \<rparr>)) 0 500 =
     Settles 3 (Inl (AuthError 403))"
  using http_status_is_told [of "\<lambda>q. Settles 3 (Inr \<lparr> hr_status = 409, hr_json = None, hr_arrayBuffer = [] \<rparr>)" 3 409 sample_config]
    http_status_is_told [of "\<lambda>q. Settles 3 (Inr \<lparr> hr_status = 403, hr_json = None, hr_arrayBuffer = [] \<rparr>)" 3 403 sample_config]
  by (simp add: Let_def)

section \<open>Batches of blobs\<close>

lemma strings_of_member: "jfield v k = Some (JArr (map JStr ss)) \<Longrightarrow> strings_of v k = ss"
  by (simp add: strings_of_def comp_def)

lemma batch_blobs_map:
  "batch_blobs (map (\<lambda>b. JObj [(''hash'', JStr (fst b)), (''data'', JStr (bytesToBase64 (snd b)))]) bs) m =
     Inr (fold (\<lambda>(k, v) m. jm_set k v m) bs m)"
  by (induction bs arbitrary: m) (auto simp: jstr_def jfield_def jdefault_def base64_roundtrip)

text \<open>
  What one device uploads in a batch is what another downloads: when the server answers a fetch with
  the elements of the uploaded body, the download is the map of the uploaded blobs, byte for byte,
  and the hashes it names as missing.
\<close>

theorem http_batch_roundtrip:
  assumes "hq_body (post_params cfg url (upload_json blobs)) = TextBody text" and "json_parse text = Some sent"
    and "\<forall>q. http q = Settles t (Inr \<lparr> hr_status = 200,
       hr_json = Some (JObj [(''blobs'', JArr (elems_of sent ''blobs'')), (''missing'', JArr (map JStr missing))]), hr_arrayBuffer = buf \<rparr>)"
    and "t < blobTimeout cfg"
  shows "http_getBlobBatch first cfg http hashes = Settles t (Inr (jm_of_list blobs, missing))"
proof -
  have "sent = upload_json blobs" using assms(1,2) by (auto simp: post_params_def)
  then have e: "elems_of sent ''blobs'' = map (\<lambda>b. JObj [(''hash'', JStr (fst b)), (''data'', JStr (bytesToBase64 (snd b)))]) blobs"
    by (simp add: elems_of_def upload_json_def jfield_def)
  let ?v = "JObj [(''blobs'', JArr (elems_of sent ''blobs'')), (''missing'', JArr (map JStr missing))]"
  have "elems_of ?v ''blobs'' = elems_of sent ''blobs''" by (subst elems_of_def) (simp add: jfield_def)
  moreover have "strings_of ?v ''missing'' = missing" by (rule strings_of_member) (simp add: jfield_def)
  ultimately show ?thesis
    unfolding http_getBlobBatch_def answered [OF assms(3) [rule_format] disjI2 [OF assms(4)]]
    by (simp add: with_json_def e batch_blobs_map jm_of_list_def)
qed

theorem http_batch_roundtrip_witness:
  "http_getBlobBatch True sample_config
     (\<lambda>q. Settles 3 (Inr \<lparr> hr_status = 200,
        hr_json = Some (JObj [(''blobs'', JArr (elems_of (upload_json [(''h'', [1, 2])]) ''blobs'')), (''missing'', JArr (map JStr [''g'']))]),
        hr_arrayBuffer = [] \<rparr>)) [''h'', ''g''] =
   Settles 3 (Inr ([(''h'', [1, 2])], [''g'']))"
proof -
  have "hq_body (post_params sample_config [] (upload_json [(''h'', [1, 2])])) = TextBody (json_show (upload_json [(''h'', [1, 2])]))"
    by (simp add: post_params_def)
  from http_batch_roundtrip [OF this json_roundtrip, where t = 3 and missing = "[''g'']" and buf = "[]"
      and http = "\<lambda>q. Settles 3 (Inr \<lparr> hr_status = 200,
        hr_json = Some (JObj [(''blobs'', JArr (elems_of (upload_json [(''h'', [1, 2])]) ''blobs'')), (''missing'', JArr (map JStr [''g'']))]),
        hr_arrayBuffer = [] \<rparr>)" and hashes = "[''h'', ''g'']" and first = True]
  show ?thesis by (simp add: jm_of_list_def)
qed

end
