(* ===== verification/Plugin.thy ===== *)
theory Plugin
  imports Coordinator HttpApi
begin

text \<open>
  The plugin around the rounds (\<open>src/main.ts\<close>): what must hold before a round may run, the vault
  that the local state is bound to, the switch to another vault, the collection of contents and
  versions, and the repairs of the settings.  A dialog is answered by a parameter, the transport of
  a client is built by one, and notices are collected; views, the status bar and the ribbon's
  drawing are left out.  A handler runs to its end before the next one starts.  Dashes and
  ellipses of messages are written in ASCII.
\<close>

section \<open>State and surroundings\<close>

datatype ribbon_state = IdleRibbon | SyncingRibbon | ConflictRibbon | ErrorRibbon

datatype plugin_notice = Notice string | ShowConflicts

datatype dialog = SwitchDialog string string | BindingDialog string string | ResetDialog nat | RebaselineDialog nat | RebuildDialog nat

record 's plugin =
  pl_co :: "'s coordinator"
  pl_settings :: SyncSettings
  pl_data :: SyncSettings
  pl_crypto :: vault_crypto
  pl_binding :: metadata
  pl_syncInProgress :: bool
  pl_startupCaptureInProgress :: bool
  pl_gcInProgress :: bool
  pl_ribbon :: ribbon_state
  pl_autoSync :: "nat option"
  pl_notices :: "plugin_notice list"

record 's plugin_env =
  px_client :: "SyncSettings \<Rightarrow> vault_crypto \<Rightarrow> 's client_env"
  px_web :: webcrypto
  px_apply :: apply_env
  px_saveOpenEditors :: "(device, unit) act"
  px_stat :: "string \<Rightarrow> nat option"
  px_now :: nat
  px_confirm :: "dialog \<Rightarrow> bool"

definition pl_notify :: "plugin_notice \<Rightarrow> 's plugin \<Rightarrow> 's plugin" where
  "pl_notify n p = p\<lparr> pl_notices := pl_notices p @ [n] \<rparr>"

definition pl_logger :: "'s plugin \<Rightarrow> oplogger" where
  "pl_logger p = dv_logger (rd_device (co_round (pl_co p)))"

definition on_co :: "('s coordinator, 'a) act \<Rightarrow> ('s plugin, 'a) act" where
  "on_co m p = (case m (pl_co p) of (c, r) \<Rightarrow> (p\<lparr> pl_co := c \<rparr>, r))"

text \<open>The environments of a round, with the settings of the moment.\<close>

definition with_settings :: "SyncSettings \<Rightarrow> apply_env \<Rightarrow> apply_env" where
  "with_settings st a = a\<lparr> ae_logger := (ae_logger a)\<lparr> le_settings := st \<rparr> \<rparr>"

definition pl_logger_env :: "'s plugin_env \<Rightarrow> 's plugin \<Rightarrow> logger_env" where
  "pl_logger_env env p = ae_logger (with_settings (pl_settings p) (px_apply env))"

definition buildSyncClient :: "'s plugin_env \<Rightarrow> 's plugin \<Rightarrow> 's round_env" where
  "buildSyncClient env p =
     \<lparr> re_client = px_client env (pl_settings p) (pl_crypto p), re_apply = with_settings (pl_settings p) (px_apply env),
       re_deviceId = st_deviceId (pl_settings p) \<rparr>"

section \<open>Settings and keys\<close>

definition saveSettings :: "'s plugin \<Rightarrow> 's plugin" where
  "saveSettings p = p\<lparr> pl_data := pl_settings p \<rparr>"

definition ensureDeviceId :: "string \<Rightarrow> 's plugin \<Rightarrow> 's plugin" where
  "ensureDeviceId uuid p =
     (if st_deviceId (pl_settings p) = [] then saveSettings (p\<lparr> pl_settings := (pl_settings p)\<lparr> st_deviceId := uuid \<rparr> \<rparr>) else p)"

definition missingConfigFields :: "'s plugin \<Rightarrow> string list" where
  "missingConfigFields p =
     (let st = pl_settings p
      in (if st_serverUrl st = [] then [''Server URL''] else []) @ (if st_vaultId st = [] then [''Vault ID''] else []) @
         (if st_serverToken st = [] then [''Access token''] else []) @
         (if st_vaultPassphrase st = [] then [''Vault passphrase''] else []))"

definition isServerConfigured :: "'s plugin \<Rightarrow> bool" where
  "isServerConfigured p = (missingConfigFields p = [])"

definition notifyMissingConfig :: "'s plugin \<Rightarrow> 's plugin" where
  "notifyMissingConfig p =
     pl_notify (Notice (''OpsBlobs: finish setup before syncing -- still missing '' @ joinWith '', '' (missingConfigFields p) @ ''.'')) p"

definition applyVaultKey :: "'s plugin_env \<Rightarrow> ('s plugin, unit) act" where
  "applyVaultKey env p =
     (let st = pl_settings p
      in if st_vaultPassphrase st = [] \<or> st_vaultId st = [] then (p, Inl (OtherError ''Set a server vault ID and passphrase first.''))
         else (p\<lparr> pl_crypto := deriveFromPassphrase (px_web env) (st_vaultPassphrase st) (saltForVault (px_web env) (st_vaultId st)) (pl_crypto p) \<rparr>,
               Inr ()))"

definition ignoring :: "('s, unit) act \<Rightarrow> ('s, unit) act" where
  "ignoring m = catchE m (\<lambda>err. retE ())"

definition tryDeriveVaultKey :: "'s plugin_env \<Rightarrow> ('s plugin, unit) act" where
  "tryDeriveVaultKey env p =
     (let st = pl_settings p in if st_vaultPassphrase st = [] \<or> st_vaultId st = [] then (p, Inr ()) else ignoring (applyVaultKey env) p)"

definition vaultKeyFingerprint :: "'s plugin \<Rightarrow> sync_error + string option" where
  "vaultKeyFingerprint p =
     (if isReady (pl_crypto p) then (case fingerprint (pl_crypto p) of Inl e \<Rightarrow> Inl e | Inr f \<Rightarrow> Inr (Some f)) else Inr None)"

section \<open>The collection of contents and versions\<close>

definition pending_roots :: "Operation list \<Rightarrow> string list \<Rightarrow> string list" where
  "pending_roots ops roots =
     fold (\<lambda>op rs. fold (\<lambda>v rs. if v \<noteq> [] then js_add v rs else rs) (op_id op # op_parents op) rs) ops roots"

definition sweepVersionDag :: "dag \<Rightarrow> ('s round, dag) act" where
  "sweepVersionDag dag s =
     (let u = dv_logger (rd_device s)
      in case sweepToRoots (pending_roots (getPendingOps u) (versionRoots (lg_registry u))) dag of
           (dag1, n) \<Rightarrow> (if n > 0 then s\<lparr> rd_dag := dag_save dag1 (rd_dag s) \<rparr> else s, Inr dag1))"

definition on_content :: "(content_store \<Rightarrow> content_store \<times> (io_error + 'a)) \<Rightarrow> ('s round, 'a) act" where
  "on_content f = on_device (\<lambda>d.
     (case f (lg_store (dv_logger d)) of
        (c, Inl x) \<Rightarrow> (d\<lparr> dv_logger := (dv_logger d)\<lparr> lg_store := c \<rparr> \<rparr>, Inl (io_failure x))
      | (c, Inr y) \<Rightarrow> (d\<lparr> dv_logger := (dv_logger d)\<lparr> lg_store := c \<rparr> \<rparr>, Inr y)))"

definition keep_set :: "dag \<Rightarrow> 's round \<Rightarrow> string list" where
  "keep_set dag s =
     (let u = dv_logger (rd_device s) in referencedHashes (Some dag) (Some (hasStored (lg_store u))) None (lg_registry u))"

text \<open>Retention days that are no number make every comparison of ages false, so nothing is collected.\<close>

definition content_gc :: "'s plugin_env \<Rightarrow> SyncSettings \<Rightarrow> ('s round, nat) act" where
  "content_gc env st =
     bindE loadDag (\<lambda>dag.
     bindE (sweepVersionDag dag) (\<lambda>dag1 s.
       (let keep = keep_set dag1 s; size = (\<lambda>s. length (listHashes (lg_store (dv_logger (rd_device s))))); before = size s
        in bindE (case st_ancestorRetentionDays st of
                    None \<Rightarrow> retE ()
                  | Some days \<Rightarrow>
                      on_content (cs_gc (le_sha (ae_logger (px_apply env))) (px_stat env) keep (int days * 86400000) (int (px_now env))))
             (\<lambda>_ s1. (s1, Inr (before - size s1))) s)))"

definition runContentGc :: "'s plugin_env \<Rightarrow> ('s plugin, nat) act" where
  "runContentGc env p =
     (if pl_gcInProgress p then (p, Inr 0)
      else
        (case on_co (on_round (content_gc env (pl_settings p))) (p\<lparr> pl_gcInProgress := True \<rparr>) of
           (p1, r) \<Rightarrow> (p1\<lparr> pl_gcInProgress := False \<rparr>, r)))"

definition isSyncing :: "'s plugin \<Rightarrow> bool" where
  "isSyncing p = (pl_syncInProgress p \<or> pl_startupCaptureInProgress p)"

definition clearContentCache :: "'s plugin_env \<Rightarrow> ('s plugin, nat) act" where
  "clearContentCache env p =
     (if isSyncing p then (pl_notify (Notice ''OpsBlobs: finish the current sync before clearing the cache.'') p, Inr 0)
      else runContentGc env p)"

definition SMALL_PACK_THRESHOLD :: nat where "SMALL_PACK_THRESHOLD = 64"
definition CONSOLIDATE_FLUSH_EVERY :: nat where "CONSOLIDATE_FLUSH_EVERY = 64"

definition optimizeContentIndex :: "'s plugin_env \<Rightarrow> ('s plugin, consolidation option) act" where
  "optimizeContentIndex env p =
     (if isSyncing p then (pl_notify (Notice ''OpsBlobs: finish the current sync before optimizing the index.'') p, Inr None)
      else if pl_gcInProgress p then (p, Inr None)
      else
        (case on_co (on_round (
                bindE loadDag (\<lambda>dag.
                bindE (sweepVersionDag dag) (\<lambda>dag1 s.
                  bindE (on_content (consolidatePacks (le_sha (ae_logger (px_apply env))) (keep_set dag1 s) SMALL_PACK_THRESHOLD
                     CONSOLIDATE_FLUSH_EVERY)) (\<lambda>result. retE (Some result)) s))))
              (p\<lparr> pl_gcInProgress := True \<rparr>) of
           (p1, r) \<Rightarrow> (p1\<lparr> pl_gcInProgress := False \<rparr>, r)))"

section \<open>The bound vault\<close>

text \<open>The stores that belong to one vault of the server; the contents do not.\<close>

definition wipeLocalSyncState :: "bool \<Rightarrow> ('s plugin, unit) act" where
  "wipeLocalSyncState resetHlc p =
     bindE (on_co (on_round (on_device (with_logger clearOps)))) (\<lambda>_.
     bindE (on_co (on_round (on_device (with_registry reg_resetAll)))) (\<lambda>_.
     bindE (on_co (on_round (saveCursor 0))) (\<lambda>_.
     bindE (on_co (on_round (\<lambda>s. (s\<lparr> rd_dag := dag_clear (rd_dag s) \<rparr>, Inr ())))) (\<lambda>_.
     bindE (on_co (on_sync_store state_resetAll)) (\<lambda>_.
     if resetHlc then
       on_co (on_round (on_device (with_logger (on_oplog (\<lambda>l.
         l\<lparr> ol_metadata := hlc_clear (ol_metadata l),
            ol_clock := hlc_setCurrent (HLC 0 0 (st_deviceId (pl_settings p))) (ol_clock l) \<rparr>)))))
     else retE ()))))) p"

definition save_binding :: "string \<Rightarrow> 's plugin \<Rightarrow> 's plugin" where
  "save_binding vaultId p = p\<lparr> pl_binding := binding_save vaultId (pl_binding p) \<rparr>"

definition checkVaultBinding :: "'s plugin_env \<Rightarrow> sync_source \<Rightarrow> ('s plugin, bool) act" where
  "checkVaultBinding env source p =
     (let vaultId = st_vaultId (pl_settings p)
      in case binding_load (pl_binding p) of
           None \<Rightarrow> (save_binding vaultId p, Inr True)
         | Some binding \<Rightarrow>
             (if binding = vaultId then (p, Inr True)
              else if source = Auto then
                (pl_notify (Notice ''OpsBlobs: vault ID changed outside settings -- open settings and sync manually to resolve.'') p, Inr False)
              else if \<not> px_confirm env (BindingDialog binding vaultId) then (p, Inr False)
              else
                bindE (wipeLocalSyncState False) (\<lambda>_.
                bindE (ignoring (applyVaultKey env)) (\<lambda>_ p1. (save_binding vaultId p1, Inr True))) p))"

section \<open>A synchronisation\<close>

definition conflictCount :: "'s plugin \<Rightarrow> nat" where
  "conflictCount p =
     length (listTwoHeadedConflicts (map snd (rg_entries (lg_registry (pl_logger p))))) + deferredConflictCount (pl_co p)"

definition coordinator_deps_of :: "'s plugin_env \<Rightarrow> 's plugin \<Rightarrow> 's coordinator_deps" where
  "coordinator_deps_of env p =
     \<lparr> dp_env = buildSyncClient env p, dp_saveOpenEditors = px_saveOpenEditors env,
       dp_persistHlc = on_device (with_logger (on_oplog (\<lambda>l. l\<lparr> ol_metadata := hlc_save (ol_clock l) (ol_metadata l) \<rparr>))),
       dp_markSynced = retE (), dp_openSettings = True,
       dp_runGc = Some (if pl_gcInProgress p then retE 0 else content_gc env (pl_settings p)),
       dp_gcIntervalMs = GC_MIN_INTERVAL_MS, dp_now = px_now env \<rparr>"

text \<open>\<open>markSynced\<close> sets the time in the settings, which only a completed round calls.\<close>

definition mark_synced :: "nat \<Rightarrow> 's plugin \<Rightarrow> 's plugin" where
  "mark_synced now p = saveSettings (p\<lparr> pl_settings := (pl_settings p)\<lparr> st_lastSyncTime := Some now \<rparr> \<rparr>)"

definition revealNewConflicts :: "sync_source \<Rightarrow> nat \<Rightarrow> 's plugin \<Rightarrow> 's plugin" where
  "revealNewConflicts source n p =
     pl_notify (case source of
        Manual \<Rightarrow> ShowConflicts
      | Auto \<Rightarrow> Notice (''OpsBlobs: '' @ show_nat n @ '' file'' @ (if n \<noteq> 1 then ''s'' else []) @ '' need'' @
                        (if n = 1 then ''s'' else []) @ '' conflict resolution.'')) p"

text \<open>What is asked before a round: whether it may run.\<close>

definition sync_guards :: "'s plugin_env \<Rightarrow> sync_source \<Rightarrow> ('s plugin, bool) act" where
  "sync_guards env source p =
     (let manually = (\<lambda>n. if source = Manual then pl_notify (Notice n) p else p)
      in if pl_startupCaptureInProgress p then
           (manually ''OpsBlobs: still preparing the vault for first sync -- try again shortly.'', Inr False)
         else if pl_syncInProgress p then (manually ''Sync already in progress.'', Inr False)
         else if \<not> isServerConfigured p then (if source = Manual then notifyMissingConfig p else p, Inr False)
         else
           bindE (checkVaultBinding env source) (\<lambda>bound.
             if \<not> bound then retE False
             else
               (\<lambda>p1. if isReady (pl_crypto p1) then (p1, Inr True)
                 else
                   bindE (tryDeriveVaultKey env) (\<lambda>_ p2.
                     if isReady (pl_crypto p2) then (p2, Inr True)
                     else
                       (if source = Manual
                        then pl_notify (Notice ''OpsBlobs: couldn't unlock the vault with this passphrase -- check it in settings.'') p2
                        else p2, Inr False)) p1)) p)"

definition run_sync :: "'s plugin_env \<Rightarrow> sync_source \<Rightarrow> 's plugin \<Rightarrow> 's plugin" where
  "run_sync env source p =
     (let p1 = p\<lparr> pl_syncInProgress := True, pl_ribbon := SyncingRibbon \<rparr>;
          conflictsBefore = conflictCount p1
      in case co_sync (coordinator_deps_of env p1) source (pl_co p1) of
           (c, outcome) \<Rightarrow>
             (let p2 = p1\<lparr> pl_co := c \<rparr>;
                  p3 = (case outcome of
                          Completed summary \<Rightarrow>
                            (let q = mark_synced (px_now env) p2
                             in if conflictCount q > conflictsBefore then revealNewConflicts source (conflictCount q) q else q)
                        | Failed err cancelled \<Rightarrow> p2);
                  p4 = p3\<lparr> pl_syncInProgress := False \<rparr>
              in p4\<lparr> pl_ribbon :=
                       (case outcome of
                          Failed err False \<Rightarrow> ErrorRibbon
                        | _ \<Rightarrow> if conflictCount p4 > 0 then ConflictRibbon else IdleRibbon) \<rparr>))"

definition triggerSync :: "'s plugin_env \<Rightarrow> sync_source \<Rightarrow> ('s plugin, unit) act" where
  "triggerSync env source =
     bindE (sync_guards env source) (\<lambda>ok p. (if ok then run_sync env source p else p, Inr ()))"

definition syncNow :: "'s plugin_env \<Rightarrow> ('s plugin, unit) act" where
  "syncNow env = triggerSync env Manual"

text \<open>The period of the timer, in milliseconds.\<close>

definition setupAutoSync :: "'s plugin \<Rightarrow> 's plugin" where
  "setupAutoSync p =
     (let mins = st_autoSyncIntervalMinutes (pl_settings p) in p\<lparr> pl_autoSync := (if mins > 0 then Some (mins * 60000) else None) \<rparr>)"

section \<open>Switching and repairing\<close>

definition js_space :: "char \<Rightarrow> bool" where
  "js_space c = (let n = (of_char c :: nat) in 9 \<le> n \<and> n \<le> 13 \<or> n = 32 \<or> n = 160)"

definition js_trim :: "string \<Rightarrow> string" where
  "js_trim s = rev (dropWhile js_space (rev (dropWhile js_space s)))"

definition baseline :: "'s plugin_env \<Rightarrow> ('s plugin, unit) act" where
  "baseline env p =
     on_co (on_round (on_device (\<lambda>d. logger_call (captureAllAsBaseline (pl_logger_env env p) (device_files d)) d))) p"

definition apply_switch :: "'s plugin_env \<Rightarrow> string \<Rightarrow> ('s plugin, unit) act" where
  "apply_switch env vaultId p =
     bindE (wipeLocalSyncState False) (\<lambda>_ p1.
       (let p2 = save_binding vaultId p1
        in if vaultId = [] then (p2, Inr ())
           else bindE (ignoring (applyVaultKey env)) (\<lambda>_. bindE (baseline env) (\<lambda>_. triggerSync env Manual)) p2))
       (saveSettings (p\<lparr> pl_settings := (pl_settings p)\<lparr> st_vaultId := vaultId \<rparr> \<rparr>))"

definition switchVault :: "'s plugin_env \<Rightarrow> string \<Rightarrow> ('s plugin, unit) act" where
  "switchVault env newVaultId p =
     (let trimmed = js_trim newVaultId; current = st_vaultId (pl_settings p)
      in if trimmed = current then (p, Inr ())
         else if isSyncing p then (pl_notify (Notice ''OpsBlobs: finish the current sync before switching vaults.'') p, Inr ())
         else if current = [] then apply_switch env trimmed p
         else if px_confirm env (SwitchDialog current trimmed) then apply_switch env trimmed p
         else (p, Inr ()))"

definition resetSyncState :: "'s plugin_env \<Rightarrow> ('s plugin, unit) act" where
  "resetSyncState env p = on_co (co_reset (coordinator_deps_of env p) (\<lambda>pending. px_confirm env (ResetDialog pending))) p"

text \<open>\<open>coordinator.rebaseline\<close> with the dialog and the full \<open>triggerSync\<close>.\<close>

definition rebaselineToServer :: "'s plugin_env \<Rightarrow> ('s plugin, unit) act" where
  "rebaselineToServer env p =
     (if \<not> isServerConfigured p then (notifyMissingConfig p, Inr ())
      else
        (let fileCount = length (getActiveEntries (lg_registry (pl_logger p)))
         in bindE (on_co (co_rebaseline (coordinator_deps_of env p) (px_confirm env (RebaselineDialog fileCount)) (retE ()))) (\<lambda>_.
            if px_confirm env (RebaselineDialog fileCount) then triggerSync env Manual else retE ()) p))"

definition rebuildLocalStateFromScratch :: "'s plugin_env \<Rightarrow> ('s plugin, unit) act" where
  "rebuildLocalStateFromScratch env p =
     (if isSyncing p then (pl_notify (Notice ''OpsBlobs: finish the current sync before rebuilding.'') p, Inr ())
      else if \<not> isServerConfigured p then (notifyMissingConfig p, Inr ())
      else if \<not> px_confirm env (RebuildDialog (length (getActiveEntries (lg_registry (pl_logger p))))) then (p, Inr ())
      else bindE (wipeLocalSyncState True) (\<lambda>_. bindE (baseline env) (\<lambda>_. triggerSync env Manual)) p)"

definition recheckConflicts :: "'s plugin_env \<Rightarrow> ('s plugin, unit) act" where
  "recheckConflicts env = bindE (on_co (on_round (saveCursor 0))) (\<lambda>_. triggerSync env Manual)"

end
