(* ===== verification/PluginThms.thy ===== *)
theory PluginThms
  imports Plugin RoundLaws
begin

text \<open>
  What the guards of the plugin ensure: a round runs only for the vault that the local state is bound
  to, a state of another vault is forgotten first, with the user's consent, and no handler but the
  switch changes the vault; a synchronisation always settles.
\<close>

section \<open>The wipe\<close>

text \<open>Nothing that names a version, a file or a position of a vault is left; contents, clock and files are.\<close>

definition forgotten :: "'s plugin \<Rightarrow> 's plugin \<Rightarrow> bool" where
  "forgotten p p1 =
     (let s = co_round (pl_co p1); u = pl_logger p1; u0 = pl_logger p
      in getPendingOps u = [] \<and> rg_entries (lg_registry u) = [] \<and> rg_pathIndex (lg_registry u) = [] \<and>
         md_read (rg_metadata (lg_registry u)) REGISTRY_PATH = None \<and> md_read (rg_metadata (lg_registry u)) REGISTRY_JOURNAL_PATH = None \<and>
         cursor_load (rd_cursor s) = 0 \<and> dag_load (rd_dag s) = [] \<and> sto_state (co_store (pl_co p1)) = emptyState \<and>
         lg_store u = lg_store u0 \<and> ol_clock (lg_log u) = ol_clock (lg_log u0) \<and>
         dv_files (rd_device s) = dv_files (rd_device (co_round (pl_co p))))"

definition reset_clock :: "string \<Rightarrow> op_log \<Rightarrow> op_log" where
  "reset_clock d l = l\<lparr> ol_metadata := hlc_clear (ol_metadata l), ol_clock := hlc_setCurrent (HLC 0 0 d) (ol_clock l) \<rparr>"

definition wiped_logger :: "oplogger \<Rightarrow> oplogger" where
  "wiped_logger u = (clearOps u)\<lparr> lg_registry := reg_resetAll (lg_registry u) \<rparr>"

definition wiped :: "(oplogger \<Rightarrow> oplogger) \<Rightarrow> 's coordinator \<Rightarrow> 's coordinator" where
  "wiped f c =
     (let s = co_round c; d = rd_device s
      in c\<lparr> co_round := s\<lparr> rd_device := d\<lparr> dv_logger := f (wiped_logger (dv_logger d)) \<rparr>,
                          rd_cursor := cursor_save 0 (rd_cursor s), rd_dag := dag_clear (rd_dag s) \<rparr>,
            co_store := state_resetAll (co_store c) \<rparr>)"

lemma cleared_registry [simp]: "lg_registry (clearOps u) = lg_registry u"
  by (simp add: clearOps_def on_oplog_def)

lemma wipe_is:
  "wipeLocalSyncState False p = (p\<lparr> pl_co := wiped (\<lambda>u. u) (pl_co p) \<rparr>, Inr ())"
  "wipeLocalSyncState True p = (p\<lparr> pl_co := wiped (on_oplog (reset_clock (st_deviceId (pl_settings p)))) (pl_co p) \<rparr>, Inr ())"
  by (simp_all add: wipeLocalSyncState_def bindE_def on_co_def on_round_def on_device_def with_logger_def with_registry_def
      saveCursor_def on_sync_store_def wiped_def wiped_logger_def reset_clock_def [abs_def] Let_def)

lemma dag_cleared: "dag_load (dag_clear m) = []"
proof -
  have "dag_clear m = remove_existing DAG_JOURNAL_PATH (remove_existing DAG_SNAPSHOT_PATH m)"
    by (simp add: dag_clear_def remove_existing_def Let_def)
  then show ?thesis by (simp add: dag_load_def loadSnapshot_def remove_existing_read)
qed

lemma wiped_forgets: "pl_co p1 = wiped (\<lambda>u. u) (pl_co p) \<Longrightarrow> forgotten p p1"
  by (simp add: forgotten_def wiped_def wiped_logger_def pl_logger_def Let_def dag_cleared reg_resetAll_def remove_existing_read
      state_resetAll_def state_save_def state_persist_def getPendingOps_def clearOps_def on_oplog_def rewriteOpLogLocked_def rewrite_begin_def
      finishOpLog_def drop_all_def)

section \<open>The guards\<close>

definition derived :: "'s plugin_env \<Rightarrow> 's plugin \<Rightarrow> vault_crypto" where
  "derived env p =
     (let st = pl_settings p
      in deriveFromPassphrase (px_web env) (st_vaultPassphrase st) (saltForVault (px_web env) (st_vaultId st)) (pl_crypto p))"

lemma derived_ready: "isReady (derived env p)"
  by (simp add: isReady_def derived_def deriveFromPassphrase_def Let_def)

lemma configured_fields:
  "isServerConfigured p \<longleftrightarrow> st_serverUrl (pl_settings p) \<noteq> [] \<and> st_vaultId (pl_settings p) \<noteq> [] \<and>
     st_serverToken (pl_settings p) \<noteq> [] \<and> st_vaultPassphrase (pl_settings p) \<noteq> []"
  by (auto simp: isServerConfigured_def missingConfigFields_def Let_def)

lemma notify_fields [simp]:
  "pl_co (pl_notify n p) = pl_co p" "pl_settings (pl_notify n p) = pl_settings p" "pl_data (pl_notify n p) = pl_data p"
  "pl_binding (pl_notify n p) = pl_binding p" "pl_crypto (pl_notify n p) = pl_crypto p"
  "pl_syncInProgress (pl_notify n p) = pl_syncInProgress p" "pl_gcInProgress (pl_notify n p) = pl_gcInProgress p"
  "pl_startupCaptureInProgress (pl_notify n p) = pl_startupCaptureInProgress p" "pl_ribbon (pl_notify n p) = pl_ribbon p"
  by (simp_all add: pl_notify_def)

lemma missing_fields [simp]:
  "pl_co (notifyMissingConfig p) = pl_co p" "pl_settings (notifyMissingConfig p) = pl_settings p"
  "pl_binding (notifyMissingConfig p) = pl_binding p" "pl_syncInProgress (notifyMissingConfig p) = pl_syncInProgress p"
  "pl_ribbon (notifyMissingConfig p) = pl_ribbon p"
  by (simp_all add: notifyMissingConfig_def)

lemma derive_try:
  "\<exists>c. ignoring (applyVaultKey env) p = (p\<lparr> pl_crypto := c \<rparr>, Inr ()) \<and>
     (isServerConfigured p \<longrightarrow> c = derived env p)"
  by (cases "st_vaultPassphrase (pl_settings p) = [] \<or> st_vaultId (pl_settings p) = []")
    (auto simp: ignoring_def catchE_def applyVaultKey_def derived_def configured_fields Let_def intro: exI [of _ "pl_crypto p"])

lemma derive_try2: "\<exists>c. tryDeriveVaultKey env p = (p\<lparr> pl_crypto := c \<rparr>, Inr ())"
  using derive_try [of env p] by (auto simp: tryDeriveVaultKey_def Let_def intro: exI [of _ "pl_crypto p"])

text \<open>What the check of the binding leaves, by its answer.\<close>

lemma binding_check:
  assumes "isServerConfigured p"
  obtains (refused) n where "checkVaultBinding env source p = (n, Inr False)" and "n = p \<or> (\<exists>m. n = pl_notify m p)"
      and "\<exists>old. binding_load (pl_binding p) = Some old \<and> old \<noteq> st_vaultId (pl_settings p)"
      and "source = Auto \<or> (\<exists>d. \<not> px_confirm env d)"
    | (kept) b where "checkVaultBinding env source p = (p\<lparr> pl_binding := b \<rparr>, Inr True)"
      and "binding_load b = Some (st_vaultId (pl_settings p))"
      and "binding_load (pl_binding p) \<in> {None, Some (st_vaultId (pl_settings p))}"
    | (reset) old b where
        "checkVaultBinding env source p =
           (p\<lparr> pl_co := wiped (\<lambda>u. u) (pl_co p), pl_crypto := derived env p, pl_binding := b \<rparr>, Inr True)"
      and "binding_load b = Some (st_vaultId (pl_settings p))"
      and "binding_load (pl_binding p) = Some old" and "old \<noteq> st_vaultId (pl_settings p)"
      and "source = Manual" and "px_confirm env (BindingDialog old (st_vaultId (pl_settings p)))"
proof (cases "binding_load (pl_binding p)")
  case None
  then have "checkVaultBinding env source p =
      (p\<lparr> pl_binding := binding_save (st_vaultId (pl_settings p)) (pl_binding p) \<rparr>, Inr True)"
    by (simp add: checkVaultBinding_def save_binding_def Let_def)
  then show ?thesis using kept None by simp
next
  case (Some old)
  let ?v = "st_vaultId (pl_settings p)"
  show ?thesis
  proof (cases "old = ?v")
    case True
    then have "checkVaultBinding env source p = (p\<lparr> pl_binding := pl_binding p \<rparr>, Inr True)"
      using Some by (simp add: checkVaultBinding_def Let_def)
    then show ?thesis using kept Some True by blast
  next
    case False
    show ?thesis
    proof (cases "source = Auto \<or> \<not> px_confirm env (BindingDialog old ?v)")
      case True
      show ?thesis
        by (rule refused [of "fst (checkVaultBinding env source p)"])
          (use True False Some in \<open>auto simp: checkVaultBinding_def Let_def\<close>)
    next
      case confirmed: False
      then have m: "source = Manual" "px_confirm env (BindingDialog old ?v)" by (cases source; simp)+
      let ?w = "p\<lparr> pl_co := wiped (\<lambda>u. u) (pl_co p) \<rparr>"
      have c: "isServerConfigured ?w" "derived env ?w = derived env p"
        using assms by (simp_all add: configured_fields derived_def)
      have d: "ignoring (applyVaultKey env) ?w = (?w\<lparr> pl_crypto := derived env p \<rparr>, Inr ())"
        using derive_try [of env ?w] c by auto
      have "checkVaultBinding env source p =
          (p\<lparr> pl_co := wiped (\<lambda>u. u) (pl_co p), pl_crypto := derived env p, pl_binding := binding_save ?v (pl_binding p) \<rparr>, Inr True)"
        using Some False m by (simp add: checkVaultBinding_def Let_def bindE_ok [of "wipeLocalSyncState False", OF wipe_is(1)] bindE_ok [of "ignoring (applyVaultKey env)", OF d] save_binding_def)
      then show ?thesis using reset Some False m by simp
    qed
  qed
qed

text \<open>What the guards leave, by their answer.\<close>

lemma guards_pass:
  assumes "sync_guards env source p = (p1, Inr True)"
  shows "\<not> isSyncing p \<and> isServerConfigured p \<and> isReady (pl_crypto p1) \<and>
    (\<exists>c k b. p1 = p\<lparr> pl_co := c, pl_crypto := k, pl_binding := b \<rparr> \<and> binding_load b = Some (st_vaultId (pl_settings p)) \<and>
       (if binding_load (pl_binding p) \<in> {None, Some (st_vaultId (pl_settings p))} then c = pl_co p
        else c = wiped (\<lambda>u. u) (pl_co p) \<and> k = derived env p \<and> source = Manual \<and>
          (\<exists>old. binding_load (pl_binding p) = Some old \<and> px_confirm env (BindingDialog old (st_vaultId (pl_settings p))))))"
proof -
  have g: "\<not> isSyncing p" "isServerConfigured p"
    using assms by (auto simp: sync_guards_def Let_def isSyncing_def split: if_splits)
  have rest: "isReady (pl_crypto p1) \<and> (\<exists>k. p1 = q\<lparr> pl_crypto := k \<rparr> \<and> (isReady (pl_crypto q) \<longrightarrow> k = pl_crypto q))"
    if c: "checkVaultBinding env source p = (q, Inr True)" for q
  proof (cases "isReady (pl_crypto q)")
    case True
    then have "p1 = q" using assms g by (simp add: sync_guards_def Let_def isSyncing_def bindE_ok [of "checkVaultBinding env source", OF c])
    then show ?thesis using True by (auto intro: exI [of _ "pl_crypto q"])
  next
    case False
    obtain k where k: "tryDeriveVaultKey env q = (q\<lparr> pl_crypto := k \<rparr>, Inr ())" using derive_try2 by blast
    show ?thesis using assms g False
      by (auto simp: sync_guards_def Let_def isSyncing_def bindE_ok [of "checkVaultBinding env source", OF c]
          bindE_ok [of "tryDeriveVaultKey env", OF k] split: if_splits)
  qed
  from g(2) show ?thesis
  proof (cases rule: binding_check [of p env source])
    case (refused n)
    then show ?thesis using assms g by (simp add: sync_guards_def Let_def isSyncing_def bindE_ok [of "checkVaultBinding env source", OF refused(1)])
  next
    case (kept b)
    obtain k where "isReady (pl_crypto p1)" "p1 = p\<lparr> pl_binding := b, pl_crypto := k \<rparr>" using rest [OF kept(1)] by auto
    then show ?thesis using kept(2,3) g by (intro conjI exI [of _ "pl_co p"] exI [of _ k] exI [of _ b]) auto
  next
    case (reset old b)
    obtain k where "isReady (pl_crypto p1)" "p1 = p\<lparr> pl_co := wiped (\<lambda>u. u) (pl_co p), pl_crypto := k, pl_binding := b \<rparr>"
        "k = derived env p" using rest [OF reset(1)] derived_ready [of env p] by auto
    then show ?thesis using reset(2-6) g by (intro conjI exI [of _ "wiped (\<lambda>u. u) (pl_co p)"] exI [of _ k] exI [of _ b]) auto
  qed
qed

text \<open>
  Open conflicts: a file with two or more heads, or a conflict of a delete or a binary file that
  waits for a decision.
\<close>

definition open_conflicts :: "'s coordinator \<Rightarrow> bool" where
  "open_conflicts c =
     ((\<exists>(i, e) \<in> set (rg_entries (lg_registry (dv_logger (rd_device (co_round c))))).
         \<exists>ps. fe_conflictParents e = Some ps \<and> 2 \<le> length ps) \<or>
      sy_conflicts (sto_state (co_store c)) \<noteq> [])"

lemma conflictCount_open: "0 < conflictCount p \<longleftrightarrow> open_conflicts (pl_co p)"
proof -
  have item: "conflict_item e \<noteq> None \<longleftrightarrow> (\<exists>ps. fe_conflictParents e = Some ps \<and> 2 \<le> length ps)" for e
    by (auto simp: conflict_item_def not_less split: option.split)
  have "length (listTwoHeadedConflicts es) = length (List.map_filter conflict_item es)" for es
    by (simp add: listTwoHeadedConflicts_def)
  moreover have "0 < length (List.map_filter conflict_item es) \<longleftrightarrow> (\<exists>e \<in> set es. conflict_item e \<noteq> None)" for es
    by (induction es) (simp_all add: map_filter_simps split: option.split)
  ultimately have two: "0 < length (listTwoHeadedConflicts es) \<longleftrightarrow> (\<exists>e \<in> set es. \<exists>ps. fe_conflictParents e = Some ps \<and> 2 \<le> length ps)" for es
    by (simp only: item)
  show ?thesis
    unfolding conflictCount_def open_conflicts_def deferredConflictCount_def pl_logger_def add_gr_0 two
    by (simp add: case_prod_beta)
qed

lemma run_settles:
  assumes "co_sync (coordinator_deps_of env (p\<lparr> pl_syncInProgress := True, pl_ribbon := SyncingRibbon \<rparr>)) source (pl_co p) = (c, out)"
  shows "pl_syncInProgress (run_sync env source p) = False \<and> pl_co (run_sync env source p) = c \<and>
    pl_binding (run_sync env source p) = pl_binding p \<and>
    pl_ribbon (run_sync env source p) =
      (if \<exists>e. out = Failed e False then ErrorRibbon else if open_conflicts c then ConflictRibbon else IdleRibbon)"
proof -
  have n: "pl_co (pl_notify m q) = pl_co q" "pl_co (mark_synced t q) = pl_co q"
    "pl_binding (pl_notify m q) = pl_binding q" "pl_binding (mark_synced t q) = pl_binding q"
    "pl_co (revealNewConflicts source k q) = pl_co q" "pl_binding (revealNewConflicts source k q) = pl_binding q"
    for m t k and q :: "'a plugin"
    by (simp_all add: pl_notify_def mark_synced_def saveSettings_def revealNewConflicts_def)
  show ?thesis
  proof (cases out)
    case (Completed y)
    then show ?thesis using assms by (simp add: run_sync_def Let_def conflictCount_open n)
  next
    case (Failed e b)
    then show ?thesis using assms by (cases b) (simp_all add: run_sync_def Let_def conflictCount_open n)
  qed
qed

definition same_shell :: "'s plugin \<Rightarrow> 's plugin \<Rightarrow> bool" where
  "same_shell p q = (pl_syncInProgress q = pl_syncInProgress p \<and> pl_ribbon q = pl_ribbon p \<and> pl_co q = pl_co p \<and>
     pl_binding q = pl_binding p \<and> pl_settings q = pl_settings p)"

lemma guards_refuse:
  assumes "isSyncing p \<or> \<not> isServerConfigured p"
  shows "snd (sync_guards env source p) = Inr False \<and> same_shell p (fst (sync_guards env source p))"
  using assms
  by (cases "pl_startupCaptureInProgress p"; cases "pl_syncInProgress p"; cases source)
    (simp_all add: sync_guards_def isSyncing_def same_shell_def Let_def)

lemma guards_after:
  assumes "\<not> isSyncing p" and "isServerConfigured p" and c: "checkVaultBinding env source p = (q, Inr bound)"
  shows "\<exists>ok. snd (sync_guards env source p) = Inr ok \<and> (ok \<longrightarrow> bound) \<and> (\<not> ok \<longrightarrow> same_shell q (fst (sync_guards env source p)))"
proof -
  obtain k where k: "tryDeriveVaultKey env q = (q\<lparr> pl_crypto := k \<rparr>, Inr ())" using derive_try2 by blast
  note g = bindE_ok [of "checkVaultBinding env source", OF c] bindE_ok [of "tryDeriveVaultKey env", OF k]
  have i: "pl_startupCaptureInProgress p = False" "pl_syncInProgress p = False" "isServerConfigured p = True"
    using assms(1,2) by (simp_all add: isSyncing_def)
  show ?thesis unfolding sync_guards_def Let_def i if_False not_True_eq_False g
    by (cases bound; cases "isReady (pl_crypto q)"; cases "isReady k"; cases source) (simp_all add: same_shell_def g, blast+)
qed

section \<open>The binding follows the settings\<close>

definition bound :: "'s plugin \<Rightarrow> bool" where
  "bound p = (binding_load (pl_binding p) \<in> {None, Some (st_vaultId (pl_settings p))})"

lemma bound_on_co [simp, intro]: "keepsE bound (on_co m)"
  by (auto simp: keepsE_def on_co_def bound_def split: prod.split)

lemma bound_co: "bound p \<Longrightarrow> bound (fst (on_co m p))"
  using bound_on_co [of m] by (simp add: keepsE_def)

lemma bound_ret [simp, intro]: "keepsE bound (retE x)"
  by (simp add: keepsE_def)

lemma bound_derive [simp, intro]: "keepsE bound (ignoring (applyVaultKey env))" "keepsE bound (tryDeriveVaultKey env)"
proof -
  show "keepsE bound (ignoring (applyVaultKey env))"
    unfolding keepsE_def
  proof (intro allI impI)
    fix p :: "'a plugin" assume b: "bound p"
    obtain c where "ignoring (applyVaultKey env) p = (p\<lparr> pl_crypto := c \<rparr>, Inr ())" using derive_try by blast
    then show "bound (fst (ignoring (applyVaultKey env) p))" using b by (simp add: bound_def)
  qed
  show "keepsE bound (tryDeriveVaultKey env)"
    unfolding keepsE_def
  proof (intro allI impI)
    fix p :: "'a plugin" assume b: "bound p"
    obtain c where "tryDeriveVaultKey env p = (p\<lparr> pl_crypto := c \<rparr>, Inr ())" using derive_try2 by blast
    then show "bound (fst (tryDeriveVaultKey env p))" using b by (simp add: bound_def)
  qed
qed

lemma bound_run: "bound (run_sync env source p) = bound p"
proof -
  let ?p = "p\<lparr> pl_syncInProgress := True, pl_ribbon := SyncingRibbon \<rparr>"
  obtain c out where "co_sync (coordinator_deps_of env ?p) source (pl_co ?p) = (c, out)" by fastforce
  then show ?thesis
    by (cases out) (simp_all add: run_sync_def Let_def bound_def mark_synced_def saveSettings_def revealNewConflicts_def)
qed

lemma bound_guards [simp, intro]: "keepsE bound (sync_guards env source)"
  unfolding keepsE_def
proof (intro allI impI)
  fix p :: "'a plugin" assume b: "bound p"
  show "bound (fst (sync_guards env source p))"
  proof (cases "isSyncing p \<or> \<not> isServerConfigured p")
    case True
    then show ?thesis using b guards_refuse [of p env source] by (auto simp: same_shell_def bound_def)
  next
    case False
    then have i: "\<not> isSyncing p" "isServerConfigured p" by simp_all
    have rest: "bound (fst (sync_guards env source p))"
      if c: "checkVaultBinding env source p = (q, Inr ok)" "bound q" for q ok
    proof -
      obtain r where r: "snd (sync_guards env source p) = Inr r" "\<not> r \<longrightarrow> same_shell q (fst (sync_guards env source p))"
        using guards_after [OF i c(1)] by blast
      show ?thesis
      proof (cases r)
        case True
        then have "sync_guards env source p = (fst (sync_guards env source p), Inr True)" using r(1) by (simp add: prod_eq_iff)
        from guards_pass [OF this] show ?thesis by (auto simp: bound_def)
      next
        case False
        then show ?thesis using r(2) c(2) by (auto simp: same_shell_def bound_def)
      qed
    qed
    from i(2) show ?thesis
    proof (cases rule: binding_check [of p env source])
      case (refused n)
      then show ?thesis using rest [OF refused(1)] b by (auto simp: bound_def)
    next
      case (kept e)
      then show ?thesis using rest [OF kept(1)] by (simp add: bound_def)
    next
      case (reset old e)
      then show ?thesis using rest [OF reset(1)] by (simp add: bound_def)
    qed
  qed
qed

lemma bound_sync [simp, intro]: "keepsE bound (triggerSync env source)"
  unfolding triggerSync_def by (intro keepsE_bind bound_guards) (simp add: keepsE_def bound_run)

lemma wipe_keeps_fields:
  "\<exists>c. wipeLocalSyncState reset p = (p\<lparr> pl_co := c \<rparr>, Inr ())"
  using wipe_is [of p] by (cases reset) auto

lemma bound_wipe [simp, intro]: "keepsE bound (wipeLocalSyncState reset)"
  unfolding keepsE_def
proof (intro allI impI)
  fix p :: "'a plugin" assume b: "bound p"
  obtain c where "wipeLocalSyncState reset p = (p\<lparr> pl_co := c \<rparr>, Inr ())" using wipe_keeps_fields by blast
  then show "bound (fst (wipeLocalSyncState reset p))" using b by (simp add: bound_def)
qed

lemma bound_baseline [simp, intro]: "keepsE bound (baseline env)"
  using bound_on_co unfolding keepsE_def baseline_def by blast

lemma switch_binds: "bound (fst (apply_switch env v p))"
proof -
  let ?q = "saveSettings (p\<lparr> pl_settings := (pl_settings p)\<lparr> st_vaultId := v \<rparr> \<rparr>)"
  obtain c where w: "wipeLocalSyncState False ?q = (?q\<lparr> pl_co := c \<rparr>, Inr ())" using wipe_keeps_fields by blast
  let ?r = "save_binding v (?q\<lparr> pl_co := c \<rparr>)"
  have b: "bound ?r" by (simp add: bound_def save_binding_def saveSettings_def)
  have "keepsE bound (bindE (ignoring (applyVaultKey env)) (\<lambda>_. bindE (baseline env) (\<lambda>_. triggerSync env Manual)))"
    by (intro keepsE_bind bound_derive bound_baseline bound_sync)
  then have "bound (fst (bindE (ignoring (applyVaultKey env)) (\<lambda>_. bindE (baseline env) (\<lambda>_. triggerSync env Manual)) ?r))"
    using b by (simp add: keepsE_def)
  then show ?thesis using b unfolding apply_switch_def bindE_ok [of "wipeLocalSyncState False", OF w] Let_def by (cases "v = []") simp_all
qed

text \<open>What the commands, the settings and the timer call.\<close>

datatype plugin_event = SyncEvent sync_source | SwitchEvent string | ResetEvent | RebaselineEvent | RebuildEvent | RecheckEvent |
  ClearCacheEvent | OptimizeEvent | AutoSyncEvent

fun plugin_step :: "'s plugin_env \<Rightarrow> plugin_event \<Rightarrow> 's plugin \<Rightarrow> 's plugin" where
  "plugin_step env (SyncEvent source) p = fst (triggerSync env source p)"
| "plugin_step env (SwitchEvent v) p = fst (switchVault env v p)"
| "plugin_step env ResetEvent p = fst (resetSyncState env p)"
| "plugin_step env RebaselineEvent p = fst (rebaselineToServer env p)"
| "plugin_step env RebuildEvent p = fst (rebuildLocalStateFromScratch env p)"
| "plugin_step env RecheckEvent p = fst (recheckConflicts env p)"
| "plugin_step env ClearCacheEvent p = fst (clearContentCache env p)"
| "plugin_step env OptimizeEvent p = fst (optimizeContentIndex env p)"
| "plugin_step env AutoSyncEvent p = setupAutoSync p"

lemma bound_notice: "bound (pl_notify n p) = bound p" "bound (notifyMissingConfig p) = bound p"
  by (simp_all add: bound_def)

lemma bound_flag: "bound (p\<lparr> pl_gcInProgress := g \<rparr>) = bound p"
  by (simp add: bound_def)

lemma bound_guarded:
  assumes "bound p"
  shows "bound (fst (on_co m (p\<lparr> pl_gcInProgress := True \<rparr>))\<lparr> pl_gcInProgress := False \<rparr>)"
  using assms by (auto simp: bound_def on_co_def split: prod.split)

lemma bound_step:
  assumes b: "bound p"
  shows "bound (plugin_step env e p)"
proof (cases e)
  case (SyncEvent source)
  then show ?thesis using b bound_sync [of env source] by (simp add: keepsE_def)
next
  case (SwitchEvent v)
  then show ?thesis using b switch_binds [of env "js_trim v" p] by (simp add: switchVault_def Let_def bound_notice)
next
  case ResetEvent
  then show ?thesis using b by (simp add: resetSyncState_def bound_co)
next
  case RebaselineEvent
  have "keepsE bound (bindE (on_co m) (\<lambda>_. if P then triggerSync env Manual else retE ()))"
    for m :: "('a coordinator, unit) act" and P by (cases P) (intro keepsE_bind bound_on_co; simp)+
  then show ?thesis using b RebaselineEvent by (simp add: rebaselineToServer_def bound_notice Let_def keepsE_def)
next
  case RebuildEvent
  have "keepsE bound (bindE (wipeLocalSyncState True) (\<lambda>_. bindE (baseline env) (\<lambda>_. triggerSync env Manual)))"
    by (intro keepsE_bind bound_wipe bound_baseline bound_sync)
  then show ?thesis using b RebuildEvent by (simp add: rebuildLocalStateFromScratch_def bound_notice keepsE_def)
next
  case RecheckEvent
  have "keepsE bound (recheckConflicts env)" unfolding recheckConflicts_def by (intro keepsE_bind bound_on_co bound_sync)
  then show ?thesis using b RecheckEvent by (simp add: keepsE_def)
next
  case ClearCacheEvent
  then show ?thesis using b
    by (simp add: clearContentCache_def runContentGc_def bound_notice case_prod_beta bound_guarded)
next
  case OptimizeEvent
  then show ?thesis using b
    by (simp add: optimizeContentIndex_def bound_notice case_prod_beta bound_guarded)
next
  case AutoSyncEvent
  then show ?thesis using b by (simp add: setupAutoSync_def bound_def Let_def)
qed

lemma bound_steps: "bound p \<Longrightarrow> bound (fold (plugin_step env) es p)"
  by (induction es arbitrary: p) (simp_all add: bound_step)

section \<open>Properties\<close>

text \<open>
  C11: A round runs only on a configured plugin with a key and no other round under way, and only for the
  vault that the local state is bound to.  When the state belonged to another vault, the user was
  asked, and nothing of that vault is left: no operation, file, version, position or recorded
  outcome; the contents, the clock and the files on disk stay, and the key is that of the new vault.
\<close>

theorem round_needs_bound_vault:
  assumes "sync_guards env source p = (p1, Inr True)"
  shows "\<not> isSyncing p \<and> isServerConfigured p \<and> isReady (pl_crypto p1) \<and> pl_settings p1 = pl_settings p \<and>
    binding_load (pl_binding p1) = Some (st_vaultId (pl_settings p)) \<and>
    (case binding_load (pl_binding p) of
       None \<Rightarrow> pl_co p1 = pl_co p
     | Some old \<Rightarrow>
         if old = st_vaultId (pl_settings p) then pl_co p1 = pl_co p
         else source = Manual \<and> px_confirm env (BindingDialog old (st_vaultId (pl_settings p))) \<and> forgotten p p1 \<and>
              pl_crypto p1 = derived env p)"
proof -
  obtain c k b where p1: "p1 = p\<lparr> pl_co := c, pl_crypto := k, pl_binding := b \<rparr>"
    "binding_load b = Some (st_vaultId (pl_settings p))"
    and x: "if binding_load (pl_binding p) \<in> {None, Some (st_vaultId (pl_settings p))} then c = pl_co p
        else c = wiped (\<lambda>u. u) (pl_co p) \<and> k = derived env p \<and> source = Manual \<and>
          (\<exists>old. binding_load (pl_binding p) = Some old \<and> px_confirm env (BindingDialog old (st_vaultId (pl_settings p))))"
    using guards_pass [OF assms] by blast
  have f: "forgotten p p1" if "c = wiped (\<lambda>u. u) (pl_co p)"
    using that p1(1) by (intro wiped_forgets) simp
  have g: "\<not> isSyncing p" "isServerConfigured p" "isReady (pl_crypto p1)" using guards_pass [OF assms] by blast+
  show ?thesis
  proof (cases "binding_load (pl_binding p)")
    case None
    then show ?thesis using g x p1 by simp
  next
    case (Some old)
    show ?thesis
    proof (cases "old = st_vaultId (pl_settings p)")
      case True
      then show ?thesis using g x p1 Some by simp
    next
      case False
      then have "c = wiped (\<lambda>u. u) (pl_co p)" "k = derived env p" "source = Manual"
        "px_confirm env (BindingDialog old (st_vaultId (pl_settings p)))" using x Some by simp_all
      then show ?thesis using g p1 f Some False by simp
    qed
  qed
qed

text \<open>
  C40: A synchronisation always settles: it returns and leaves no round under way that was not.  When
  the guards let a round run, the state it leaves is the one the round left and the ribbon shows
  its outcome: an error exactly when it failed without being cancelled, otherwise a conflict
  exactly when some file has two heads or some conflict waits for a decision, otherwise idle.
  When they do not, ribbon and state stay as the guards left them; while another round or the
  first capture is under way it changes nothing but the messages, and unattended it never wipes a
  state bound to another vault.
\<close>

theorem trigger_sync_settles:
  "let (p1, r) = triggerSync env source p
    in r = Inr () \<and> pl_syncInProgress p1 = pl_syncInProgress p \<and>
       pl_ribbon p1 \<in> {pl_ribbon p, IdleRibbon, ConflictRibbon, ErrorRibbon} \<and>
       (isSyncing p \<or> source = Auto \<and> binding_load (pl_binding p) \<notin> {None, Some (st_vaultId (pl_settings p))} \<longrightarrow>
          pl_co p1 = pl_co p \<and> pl_binding p1 = pl_binding p) \<and>
       (case sync_guards env source p of
          (q, Inr True) \<Rightarrow>
            (case co_sync (coordinator_deps_of env (q\<lparr> pl_syncInProgress := True, pl_ribbon := SyncingRibbon \<rparr>)) source (pl_co q) of
               (c, out) \<Rightarrow>
                 pl_co p1 = c \<and>
                 pl_ribbon p1 =
                   (if \<exists>e. out = Failed e False then ErrorRibbon
                    else if open_conflicts c then ConflictRibbon else IdleRibbon))
        | (q, _) \<Rightarrow> p1 = q \<and> pl_ribbon p1 = pl_ribbon p)"
proof -
  obtain q r where g: "sync_guards env source p = (q, r)" by fastforce
  obtain c out where co: "co_sync (coordinator_deps_of env (q\<lparr> pl_syncInProgress := True, pl_ribbon := SyncingRibbon \<rparr>)) source (pl_co q) = (c, out)"
    by fastforce
  note run = run_settles [OF co]
  have key: "\<exists>ok. r = Inr ok \<and> (\<not> ok \<longrightarrow> pl_syncInProgress q = pl_syncInProgress p \<and> pl_ribbon q = pl_ribbon p \<and>
      (isSyncing p \<or> source = Auto \<and> binding_load (pl_binding p) \<notin> {None, Some (st_vaultId (pl_settings p))} \<longrightarrow>
        pl_co q = pl_co p \<and> pl_binding q = pl_binding p))"
  proof (cases "isSyncing p \<or> \<not> isServerConfigured p")
    case True
    then show ?thesis using guards_refuse [of p env source] g by (intro exI [of _ False]) (simp add: same_shell_def)
  next
    case False
    then have i: "\<not> isSyncing p" "isServerConfigured p" by simp_all
    from i(2) show ?thesis
    proof (cases rule: binding_check [of p env source])
      case (refused n)
      have n: "same_shell p n" using refused(2) by (auto simp: same_shell_def)
      then show ?thesis using guards_after [OF i refused(1)] g by (auto simp: same_shell_def)
    next
      case (kept b)
      then show ?thesis using guards_after [OF i kept(1)] g i by (auto simp: same_shell_def)
    next
      case (reset old b)
      then show ?thesis using guards_after [OF i reset(1)] g i by (auto simp: same_shell_def)
    qed
  qed
  then obtain ok where ok: "r = Inr ok" by blast
  show ?thesis
  proof (cases ok)
    case True
    have i: "\<not> isSyncing p" using guards_pass [of env source p q] g ok True by simp
    have "source = Auto \<Longrightarrow> binding_load (pl_binding p) \<in> {None, Some (st_vaultId (pl_settings p))}"
      using guards_pass [of env source p q] g ok True by (auto split: if_splits)
    moreover have "triggerSync env source p = (run_sync env source q, Inr ())"
      using g ok True by (simp add: triggerSync_def bindE_def)
    ultimately show ?thesis using run g co ok True i by (auto simp: isSyncing_def Let_def)
  next
    case False
    have "triggerSync env source p = (q, Inr ())" using g ok False by (simp add: triggerSync_def bindE_def)
    then show ?thesis using key g ok False by auto
  qed
qed

text \<open>
  C19: No command, button or timer of the plugin lets the binding and the settings part, the switch to
  another vault included: so, whatever sequence of them ran, a synchronisation that starts finds
  the state of its own vault and forgets nothing.
\<close>

theorem events_keep_vault_bound:
  assumes "binding_load (pl_binding p) \<in> {None, Some (st_vaultId (pl_settings p))}"
  shows "let q = fold (plugin_step env) es p
    in binding_load (pl_binding q) \<in> {None, Some (st_vaultId (pl_settings q))} \<and>
       (\<forall>source q1. sync_guards env source q = (q1, Inr True) \<longrightarrow> pl_co q1 = pl_co q)"
proof -
  let ?q = "fold (plugin_step env) es p"
  have b: "bound ?q" using assms by (intro bound_steps) (simp add: bound_def)
  moreover have "pl_co q1 = pl_co ?q" if "sync_guards env source ?q = (q1, Inr True)" for source q1
    using guards_pass [OF that] b by (auto simp: bound_def)
  ultimately show ?thesis by (simp add: bound_def Let_def)
qed

definition sample_settings :: SyncSettings where
  "sample_settings = DEFAULT_SETTINGS\<lparr> st_deviceId := ''d'', st_serverUrl := ''u'', st_vaultId := ''v'', st_serverToken := ''t'',
     st_vaultPassphrase := ''pw'' \<rparr>"

definition sample_plugin :: "string \<Rightarrow> fake_server plugin" where
  "sample_plugin vault = \<lparr> pl_co = \<lparr> co_round = sample_round, co_store = new_sync_store [], co_notices = [], co_roundConflicts = [] \<rparr>,
     pl_settings = sample_settings, pl_data = sample_settings, pl_crypto = new_crypto, pl_binding = binding_save vault [],
     pl_syncInProgress = False, pl_startupCaptureInProgress = False, pl_gcInProgress = False, pl_ribbon = IdleRibbon,
     pl_autoSync = None, pl_notices = [] \<rparr>"

definition sample_plugin_env :: "fake_server plugin_env" where
  "sample_plugin_env = \<lparr> px_client = (\<lambda>st k. sample_client 9), px_web = sample_web, px_apply = sample_apply,
     px_saveOpenEditors = retE (), px_stat = (\<lambda>p. None), px_now = 5, px_confirm = (\<lambda>d. True) \<rparr>"

lemma sample_plugin_fields:
  "isServerConfigured (sample_plugin v)" "\<not> isSyncing (sample_plugin v)" "binding_load (pl_binding (sample_plugin v)) = Some v"
  "st_vaultId (pl_settings (sample_plugin v)) = ''v''"
  by (simp_all add: configured_fields sample_plugin_def sample_settings_def isSyncing_def)

theorem round_needs_bound_vault_witness:
  "\<exists>p1. sync_guards sample_plugin_env Manual (sample_plugin ''old'') = (p1, Inr True) \<and> forgotten (sample_plugin ''old'') p1 \<and>
     binding_load (pl_binding p1) = Some ''v''"
proof -
  let ?p = "sample_plugin ''old''"
  obtain q b where c: "checkVaultBinding sample_plugin_env Manual ?p = (q, Inr True)" "pl_crypto q = derived sample_plugin_env ?p"
  proof (cases rule: binding_check [OF sample_plugin_fields(1) [of "''old''"], of sample_plugin_env Manual])
    case (1 n)
    then show ?thesis by (auto simp: sample_plugin_env_def)
  next
    case (2 b)
    then show ?thesis by (simp add: sample_plugin_fields)
  next
    case (3 old b)
    then show ?thesis using that by simp
  qed
  then have g: "sync_guards sample_plugin_env Manual ?p = (q, Inr True)"
    using sample_plugin_fields [of "''old''"] derived_ready [of sample_plugin_env ?p]
    by (simp add: sync_guards_def isSyncing_def Let_def bindE_ok [of "checkVaultBinding sample_plugin_env Manual", OF c(1)])
  from round_needs_bound_vault [OF g] g show ?thesis by (auto simp: sample_plugin_fields)
qed

theorem events_keep_vault_bound_witness:
  "let q = fold (plugin_step sample_plugin_env) [SwitchEvent ''w'', SyncEvent Auto, RecheckEvent] (sample_plugin ''v'')
    in binding_load (pl_binding q) \<in> {None, Some (st_vaultId (pl_settings q))} \<and>
       (\<forall>source q1. sync_guards sample_plugin_env source q = (q1, Inr True) \<longrightarrow> pl_co q1 = pl_co q)"
  by (rule events_keep_vault_bound) (simp add: sample_plugin_fields)

theorem trigger_sync_settles_witness:
  "let (p1, r) = triggerSync sample_plugin_env Auto (sample_plugin ''old'')
    in r = Inr () \<and> pl_syncInProgress p1 = pl_syncInProgress (sample_plugin ''old'') \<and> pl_co p1 = pl_co (sample_plugin ''old'')"
  using trigger_sync_settles [of sample_plugin_env Auto "sample_plugin ''old''"]
  by (cases "triggerSync sample_plugin_env Auto (sample_plugin ''old'')") (simp add: sample_plugin_fields)

section \<open>A surprise\<close>

text \<open>A file created and edited before its first synchronisation: two pending operations, one head.\<close>

definition edited_store :: content_store where
  "edited_store = cs_put ''01'' [5] (cs_put ''02'' [1, 2] (cs_init 100 []))"

definition edited_entry :: FileEntry where
  "edited_entry = (new_entry ''u'' ''a.md'' ''01'' (HLC 1 0 ''d''))\<lparr> fe_headVersionId := Some ''b'' \<rparr>"

definition edited_twice :: oplogger where
  "edited_twice = (fresh_logger (HLC 1 0 ''d'') 100)\<lparr>
     lg_log := (new_op_log (HLC 1 0 ''d'') [])\<lparr> ol_pendingOps :=
       [ops_create ''u'' ''a.md'' ''02'' (HLC 0 1 ''d''), ops_update ''u'' ''a.md'' ''01'' (HLC 1 0 ''d'') (Some ''v'')] \<rparr>,
     lg_registry := (new_registry [])\<lparr> rg_entries := [(''u'', edited_entry)] \<rparr>, lg_store := edited_store \<rparr>"

definition edited_plugin :: "fake_server plugin" where
  "edited_plugin = (sample_plugin ''v'')\<lparr> pl_co := (pl_co (sample_plugin ''v''))\<lparr>
     co_round := sample_round\<lparr> rd_device := sample_device\<lparr> dv_logger := edited_twice \<rparr> \<rparr> \<rparr> \<rparr>"

lemma edited_keep: "keep_hashes (Some []) (Some (hasStored edited_store)) None edited_entry [] = [''01'']"
  by code_simp

lemma edited_consolidated:
  "case consolidatePacks length_sha [''01''] 64 64 edited_store of (c, Inr n) \<Rightarrow> \<not> hasStored c ''02'' | _ \<Rightarrow> False"
  by code_simp

lemma edited_held: "hasStored edited_store ''02''"
  by code_simp

text \<open>
  The contents kept by the maintenance are those of the files and of the recorded versions, not
  those of the pending operations.  When a file was edited twice since the last synchronisation,
  optimising the index drops the content of the first operation, which is still to be pushed.
\<close>

theorem optimize_drops_pending_content:
  "let u = pl_logger edited_plugin; u1 = pl_logger (fst (optimizeContentIndex sample_plugin_env edited_plugin))
    in getPendingOps u1 = getPendingOps u \<and> ''02'' \<in> op_contentHash ` set (getPendingOps u1) \<and>
       hasStored (lg_store u) ''02'' \<and> \<not> hasStored (lg_store u1) ''02''"
proof -
  let ?s = "co_round (pl_co edited_plugin)"
  have s: "dv_logger (rd_device ?s) = edited_twice" "rd_dag ?s = []" "\<not> isSyncing edited_plugin" "\<not> pl_gcInProgress edited_plugin"
    by (simp_all add: edited_plugin_def sample_round_def isSyncing_def sample_plugin_def)
  have u: "lg_store edited_twice = edited_store" "jm_values (rg_entries (lg_registry edited_twice)) = [edited_entry]"
    by (simp_all add: edited_twice_def jm_values_def)
  have sha: "le_sha (ae_logger (px_apply sample_plugin_env)) = length_sha"
    by (simp add: sample_plugin_env_def sample_apply_def sample_env_def)
  have load: "dag_load [] = []" by (simp add: dag_load_def loadSnapshot_def md_read_def)
  have keep: "keep_set [] ?s = [''01'']" using edited_keep by (simp add: keep_set_def s u referencedHashes_def Let_def)
  obtain c n where c: "consolidatePacks length_sha [''01''] 64 64 edited_store = (c, Inr n)" "\<not> hasStored c ''02''"
    using edited_consolidated
    by (cases "consolidatePacks length_sha [''01''] 64 64 edited_store"; cases "snd (consolidatePacks length_sha [''01''] 64 64 edited_store)") auto
  have sweep: "sweepVersionDag [] ?s = (?s, Inr [])" by (simp add: sweepVersionDag_def sweepToRoots_def dag_size_def Let_def)
  have "pl_logger (fst (optimizeContentIndex sample_plugin_env edited_plugin)) = edited_twice\<lparr> lg_store := c \<rparr>"
    using c(1) keep sweep
    by (simp add: optimizeContentIndex_def s on_co_def on_round_def bindE_def loadDag_def load on_content_def on_device_def u sha
        SMALL_PACK_THRESHOLD_def CONSOLIDATE_FLUSH_EVERY_def pl_logger_def)
  then show ?thesis using c(2) edited_held
    by (simp add: Let_def u pl_logger_def s) (simp add: edited_twice_def getPendingOps_def ops_create_def ops_update_def)
qed

end
