(* ===== verification/PluginLife.thy ===== *)
theory PluginLife
  imports PluginThms
begin

text \<open>
  The life of the plugin (\<open>src/main.ts\<close>): loading and unloading, the connection test of the settings,
  and what a click on the ribbon or the status bar does.  A restart reads every store from its file
  and finds the state of the session that ended.
\<close>

section \<open>Loading and unloading\<close>

text \<open>\<open>new HybridLogicalClock(deviceId, initial)\<close>.\<close>

definition new_clock :: "string \<Rightarrow> HLC option \<Rightarrow> HLC" where
  "new_clock device initial = (case initial of None \<Rightarrow> HLC 0 0 device | Some h \<Rightarrow> h)"

text \<open>The stores as \<open>onload\<close> creates and loads them; the numbers of the UUIDs and of the clock go on.\<close>

definition load_stores :: "SyncSettings \<Rightarrow> int \<Rightarrow> oplogger \<Rightarrow> io_error + oplogger" where
  "load_stores st budget u =
     (let clock = new_clock (st_deviceId st) (hlc_load (ol_metadata (lg_log u)))
      in case reg_load st (new_registry (rg_metadata (lg_registry u))) of
           Inl x \<Rightarrow> Inl x
         | Inr r \<Rightarrow>
             (case oplog_load (new_op_log clock (ol_metadata (lg_log u))) of
                Inl x \<Rightarrow> Inl x
              | Inr l \<Rightarrow>
                  Inr \<lparr> lg_log = l, lg_registry = r, lg_store = cs_init budget (cs_metadata (lg_store u)), lg_debounceTimers = [],
                        lg_ticks = lg_ticks u, lg_ids = lg_ids u, lg_notices = [] \<rparr>))"

definition ribbon_at_rest :: "'s plugin \<Rightarrow> ribbon_state" where
  "ribbon_at_rest p = (if conflictCount p > 0 then ConflictRibbon else IdleRibbon)"

definition pl_onload :: "'s plugin_env \<Rightarrow> string \<Rightarrow> int \<Rightarrow> 's plugin \<Rightarrow> io_error + 's plugin" where
  "pl_onload env uuid budget p =
     (let p1 = ensureDeviceId uuid (p\<lparr> pl_settings := pl_data p \<rparr>); s = co_round (pl_co p1); d = rd_device s
      in case load_stores (pl_settings p1) budget (dv_logger d) of
           Inl x \<Rightarrow> Inl x
         | Inr u \<Rightarrow>
             (let c = \<lparr> co_round = s\<lparr> rd_device := d\<lparr> dv_logger := u, dv_listening := False \<rparr> \<rparr>,
                        co_store = state_load (new_sync_store (sto_metadata (co_store (pl_co p1)))), co_notices = [], co_roundConflicts = [] \<rparr>;
                  p2 = p1\<lparr> pl_co := c, pl_crypto := new_crypto, pl_syncInProgress := False, pl_startupCaptureInProgress := False,
                           pl_gcInProgress := False, pl_autoSync := None, pl_notices := [] \<rparr>;
                  p3 = fst (tryDeriveVaultKey env p2)
              in Inr (setupAutoSync (p3\<lparr> pl_ribbon := ribbon_at_rest p3 \<rparr>))))"

definition pl_onunload :: "'s plugin \<Rightarrow> 's plugin" where
  "pl_onunload p =
     (fst (on_co (on_round (on_device (\<lambda>d.
        ((d\<lparr> dv_logger := on_oplog (\<lambda>l. l\<lparr> ol_metadata := hlc_save (ol_clock l) (ol_metadata l) \<rparr>) (dv_logger d), dv_listening := False \<rparr>),
         Inr ())))) p))\<lparr> pl_autoSync := None \<rparr>"

section \<open>What the user sees and does\<close>

definition coarseSyncPhase :: "string \<Rightarrow> string" where
  "coarseSyncPhase label =
     (if startsWith label ''Rebuilding'' then ''Rebuilding...''
      else if startsWith label ''Pulling'' \<or> startsWith label ''Downloading'' then ''Pulling...''
      else if startsWith label ''Pushing'' \<or> startsWith label ''Uploading'' then ''Pushing...''
      else if startsWith label ''Merging'' then ''Merging...''
      else if startsWith label ''Applying'' then ''Applying...''
      else if startsWith label ''Reconciling'' then ''Reconciling...'' else ''Syncing...'')"

datatype badge = SyncingBadge | ConflictBadge | PendingBadge | SyncedBadge

definition updateStatusBar :: "'s plugin \<Rightarrow> string \<times> badge" where
  "updateStatusBar p =
     (let conflicts = conflictCount p
      in if conflicts > 0 then (show_nat conflicts @ '' conflict'' @ (if conflicts \<noteq> 1 then ''s'' else []), ConflictBadge)
         else if getPendingOps (pl_logger p) \<noteq> [] then (''Changes to sync'', PendingBadge) else (''Synced'', SyncedBadge))"

datatype click_effect = OpenSyncStatus | OpenConflicts | StartSync

definition ribbon_click :: "'s plugin \<Rightarrow> click_effect" where
  "ribbon_click p = (if pl_ribbon p = ErrorRibbon then OpenSyncStatus else if pl_syncInProgress p then OpenSyncStatus else StartSync)"

definition status_click :: "'s plugin \<Rightarrow> click_effect" where
  "status_click p = (if conflictCount p > 0 then OpenConflicts else if pl_syncInProgress p then OpenSyncStatus else StartSync)"

definition testConnection :: "'s plugin_env \<Rightarrow> ('s plugin, string) act" where
  "testConnection env p =
     (let missing = missingConfigFields p
      in if missing \<noteq> [] then (p, Inl (OtherError (''Finish setup first -- still missing: '' @ joinWith '', '' missing @ ''.'')))
         else
           bindE (applyVaultKey env) (\<lambda>_ p1.
             bindE (on_co (on_round (on_client (preflight (re_client (buildSyncClient env p1)))))) (\<lambda>keyState.
               case keyState of
                 KeyMismatch \<Rightarrow> throwE KeyMismatchError
               | KeyMatch \<Rightarrow> retE ''Connected -- server reachable, token accepted, and the passphrase matches this vault.''
               | KeyUnstamped \<Rightarrow>
                   retE ''Connected -- server reachable and token accepted. The vault has no data yet; this device will establish the key on first sync.'')
             p1) p)"

section \<open>A restart\<close>

lemma load_clock: "oplog_load l = Inr l1 \<Longrightarrow> ol_clock l1 = ol_clock l"
  by (auto simp: oplog_load_def Let_def split: sum.splits if_splits)

lemma load_log:
  assumes "log_ops (ol_metadata l) ops"
  shows "\<exists>l1. oplog_load l = Inr l1 \<and> ol_pendingOps l1 = dedupeOpsById ops \<and> ol_clock l1 = ol_clock l"
proof (cases "md_read (ol_metadata l) OPLOG_PATH")
  case None
  then have "ops = []" using assms by (simp add: log_ops_def)
  then show ?thesis using oplog_is [OF assms] by (simp add: dedupe_same)
next
  case (Some raw)
  then have "md_read (ol_metadata l) OPLOG_PATH = Some (ops_text ops)" using assms by (simp add: log_ops_def)
  then show ?thesis using load_heals_duplicates load_clock by blast
qed

lemma hlc_file_apart: "log_ops (hlc_save h m) ops = log_ops m ops"
  by (simp add: log_ops_def hlc_save_def HLC_PATH_def OPLOG_PATH_def del: json_show.simps)

lemma stores_reload:
  assumes "lg_inv env u"
  shows "\<exists>v. load_stores st budget (on_oplog (\<lambda>l. l\<lparr> ol_metadata := hlc_save (ol_clock l) (ol_metadata l) \<rparr>) u) = Inr v \<and>
    getPendingOps v = dedupeOpsById (getPendingOps u) \<and> ol_clock (lg_log v) = ol_clock (lg_log u) \<and>
    (\<forall>i. i \<notin> set (rg_dirtyIds (lg_registry u)) \<longrightarrow> getById (lg_registry v) i = getById (lg_registry u) i) \<and>
    {h. readable (le_sha env) (lg_store u) h} = {h. readable (le_sha env) (lg_store v) h}"
proof -
  have i: "reg_inv (lg_registry u)" "store_inv (le_sha env) (lg_store u)" "log_ops (ol_metadata (lg_log u)) (getPendingOps u)"
    using assms by (simp_all add: lg_inv_def parts_ok_def log_synced_def getPendingOps_def)
  have up: "clean_disk (rg_metadata (lg_registry u))"
    "\<And>i. i \<notin> set (rg_dirtyIds (lg_registry u)) \<Longrightarrow> jm_get (disk_view (rg_metadata (lg_registry u))) i = jm_get (rg_entries (lg_registry u)) i"
    using i(1) by (simp_all add: reg_inv_def up_to_date_but_def)
  obtain r where r: "reg_load st (new_registry (rg_metadata (lg_registry u))) = Inr r" "rg_entries r = disk_view (rg_metadata (lg_registry u))"
    using load_inv [of "new_registry (rg_metadata (lg_registry u))" st] up(1) by (auto simp: new_registry_def)
  let ?m = "hlc_save (ol_clock (lg_log u)) (ol_metadata (lg_log u))"
  obtain l where l: "oplog_load (new_op_log (ol_clock (lg_log u)) ?m) = Inr l" "ol_pendingOps l = dedupeOpsById (getPendingOps u)"
      "ol_clock l = ol_clock (lg_log u)"
    using load_log [of "new_op_log (ol_clock (lg_log u)) ?m" "getPendingOps u"] i(3) by (auto simp: new_op_log_def hlc_file_apart)
  have p: "readable (le_sha env) (cs_init budget (cs_metadata (lg_store u))) = readable (le_sha env) (lg_store u)"
    using init_packs(2) i(2) by (intro ext) (simp add: store_inv_def)
  show ?thesis using r l up(2) p
    by (simp add: load_stores_def on_oplog_def new_clock_def Let_def getPendingOps_def getById_def)
qed

text \<open>
  C20: A restart resumes: when the plugin is unloaded and loaded again, loading does not throw, and the
  operations still to be pushed (each id once), the clock, every flushed registry entry, every
  content, the observable state, the cursor, the graph, the vault binding and the files are those
  of the session that ended; no round and no capture counts as running.
\<close>

theorem restart_resumes:
  assumes "lg_inv (pl_logger_env env p) (pl_logger p)" and "on_file (co_store (pl_co p))"
  shows "\<exists>q. pl_onload env uuid budget (pl_onunload p) = Inr q \<and>
    (let u = pl_logger p; v = pl_logger q; s = co_round (pl_co p); t = co_round (pl_co q); sha = le_sha (pl_logger_env env p)
     in getPendingOps v = dedupeOpsById (getPendingOps u) \<and> ol_clock (lg_log v) = ol_clock (lg_log u) \<and>
        (\<forall>i. i \<notin> set (rg_dirtyIds (lg_registry u)) \<longrightarrow> getById (lg_registry v) i = getById (lg_registry u) i) \<and>
        {h. readable sha (lg_store u) h} = {h. readable sha (lg_store v) h} \<and>
        sto_state (co_store (pl_co q)) = sto_state (co_store (pl_co p)) \<and>
        rd_cursor t = rd_cursor s \<and> rd_dag t = rd_dag s \<and> dv_files (rd_device t) = dv_files (rd_device s) \<and>
        pl_binding q = pl_binding p \<and> \<not> isSyncing q)"
proof -
  let ?o = "pl_onunload p"
  let ?p1 = "ensureDeviceId uuid (?o\<lparr> pl_settings := pl_data ?o \<rparr>)"
  let ?u = "on_oplog (\<lambda>l. l\<lparr> ol_metadata := hlc_save (ol_clock l) (ol_metadata l) \<rparr>) (pl_logger p)"
  have f: "pl_co ?p1 = pl_co ?o" "pl_binding ?p1 = pl_binding p" "dv_logger (rd_device (co_round (pl_co ?o))) = ?u"
    "co_store (pl_co ?o) = co_store (pl_co p)" "rd_cursor (co_round (pl_co ?o)) = rd_cursor (co_round (pl_co p))"
    "rd_dag (co_round (pl_co ?o)) = rd_dag (co_round (pl_co p))"
    "dv_files (rd_device (co_round (pl_co ?o))) = dv_files (rd_device (co_round (pl_co p)))"
    by (simp_all add: pl_onunload_def ensureDeviceId_def saveSettings_def on_co_def on_round_def on_device_def pl_logger_def)
  obtain v where v: "load_stores (pl_settings ?p1) budget ?u = Inr v"
      "getPendingOps v = dedupeOpsById (getPendingOps (pl_logger p))" "ol_clock (lg_log v) = ol_clock (lg_log (pl_logger p))"
      "\<forall>i. i \<notin> set (rg_dirtyIds (lg_registry (pl_logger p))) \<longrightarrow> getById (lg_registry v) i = getById (lg_registry (pl_logger p)) i"
      "{h. readable (le_sha (pl_logger_env env p)) (lg_store (pl_logger p)) h} = {h. readable (le_sha (pl_logger_env env p)) (lg_store v) h}"
    using stores_reload [OF assms(1)] by blast
  have st: "sto_state (state_load (new_sync_store (sto_metadata (co_store (pl_co p))))) = sto_state (co_store (pl_co p))"
    using assms(2) by (simp add: on_file_def state_load_def new_sync_store_def)
  define p2 where "p2 = ?p1\<lparr> pl_co := \<lparr> co_round = (co_round (pl_co ?o))\<lparr> rd_device := (rd_device (co_round (pl_co ?o)))\<lparr> dv_logger := v, dv_listening := False \<rparr> \<rparr>,
      co_store = state_load (new_sync_store (sto_metadata (co_store (pl_co p)))), co_notices = [], co_roundConflicts = [] \<rparr>,
      pl_crypto := new_crypto, pl_syncInProgress := False, pl_startupCaptureInProgress := False,
      pl_gcInProgress := False, pl_autoSync := None, pl_notices := [] \<rparr>"
  obtain k where k: "tryDeriveVaultKey env p2 = (p2\<lparr> pl_crypto := k \<rparr>, Inr ())" using derive_try2 by blast
  let ?p3 = "p2\<lparr> pl_crypto := k \<rparr>"
  let ?q = "setupAutoSync (?p3\<lparr> pl_ribbon := ribbon_at_rest ?p3 \<rparr>)"
  have q: "pl_onload env uuid budget ?o = Inr ?q"
    using v(1) k unfolding p2_def by (simp add: pl_onload_def Let_def f)
  have "pl_co ?q = pl_co p2" "pl_binding ?q = pl_binding p" "\<not> isSyncing ?q"
    by (simp_all add: setupAutoSync_def Let_def p2_def f isSyncing_def)
  then show ?thesis using q v(2-5) st by (intro exI [of _ ?q]) (simp add: Let_def pl_logger_def p2_def f)
qed

theorem restart_resumes_witness:
  "\<exists>q. pl_onload sample_plugin_env ''uu'' 100 (pl_onunload (sample_plugin ''v'')) = Inr q \<and>
     getPendingOps (pl_logger q) = dedupeOpsById (getPendingOps sample_logger)"
proof -
  have u: "pl_logger (sample_plugin ''v'') = sample_logger"
    by (simp add: pl_logger_def sample_plugin_def sample_round_def sample_device_def)
  have e: "lg_inv (pl_logger_env sample_plugin_env (sample_plugin ''v'')) sample_logger"
    using logger_reachable [OF sample_logger_reach sample_env_ok]
    by (simp add: lg_inv_def parts_ok_def pl_logger_env_def with_settings_def sample_plugin_env_def sample_apply_def blobs_readable_def
        ids_fresh_def)
  have "on_file (new_sync_store [])" by (simp add: on_file_def new_sync_store_def state_load_def md_read_def emptyState_def)
  then have "on_file (co_store (pl_co (sample_plugin ''v'')))" by (simp add: sample_plugin_def)
  from restart_resumes [OF e [folded u] this] show ?thesis unfolding u Let_def by blast
qed

end
