(* ===== verification/Spec2Isabelle.thy ===== *)
theory Spec2Isabelle
  imports VersionDagSweep StateMergeProps RegistryThms ContentThms DagStore SyncProps ApplicatorLaws RoundProps CoordinatorThms PluginLife
begin

text \<open>
  OpsBlobs, an Obsidian plugin that synchronises a vault of notes between devices over a server that
  sees only encrypted operations and blobs.

  A device watches its files.  The operation logger (\<open>src/core/operation-logger.ts\<close>) turns every
  change into an operation with a timestamp of the hybrid logical clock, puts the bytes into the
  content store and names the file in the registry.  A round (\<open>src/network/server-sync.ts\<close>)
  pulls the operations of the other devices, pushes its own, projects the remote state, merges the
  two states and applies the actions of the merge to the vault; what an ancestor of two versions was
  comes from the version graph.  The coordinator (\<open>src/network/sync-coordinator.ts\<close>) captures,
  runs the round and records its outcome; the plugin (\<open>src/main.ts\<close>) decides whether a round may
  run and for which vault.

  Theories, in the order of the import graph, with the files under \<open>src/src\<close> they model.

  Data and clock.  \<open>Prelude\<close>: insertion-ordered maps and sets of JavaScript (\<open>jsmap\<close>), strings, bytes.
  \<open>Types\<close>: \<open>types.ts\<close>.  \<open>Hlc\<close>, \<open>HlcString\<close>: \<open>core/hlc.ts\<close>; timestamps of a clock increase as long as
  nothing sets it back, their text reads back and exactly the texts of that form are accepted.  \<open>Operations\<close>: \<open>core/operations.ts\<close>; \<open>Json\<close>: \<open>JSON.stringify\<close> and \<open>JSON.parse\<close>, with
  the round trip and the refusal of torn texts.  \<open>Exclusion\<close>: \<open>core/exclusion-policy.ts\<close> and
  \<open>core/conflict-inventory.ts\<close>, against a reading of the patterns that knows no regular expression.

  Merging.  \<open>VersionDag\<close>, \<open>VersionDagLaws\<close>, \<open>VersionDagSweep\<close>: \<open>core/version-dag.ts\<close>; ancestors and merge
  bases against reachability, and what a sweep keeps.  \<open>Diff3\<close>, \<open>DiffLaws\<close>, \<open>DiffSound\<close>, \<open>DiffProps\<close>,
  \<open>Merge3\<close>, \<open>Merge3Laws\<close>, \<open>Markers\<close>, \<open>MarkersLaws\<close>, \<open>MergeProps\<close>: \<open>merge/diff3.ts\<close>; a diff rebuilds both
  sides, a merge loses no edit, markers read back.  \<open>StateMerge\<close>, \<open>StateMergeProps\<close>:
  \<open>merge/state-merge.ts\<close>; an overwrite or a deletion of a file is always justified.

  Stores of a device.  \<open>Journal\<close>: \<open>ports/metadata-store.ts\<close> and its live adapter, the atomic write
  step by step, and the locale \<open>torn_codec\<close> of a line journal whose last line may be torn,
  interpreted for each journal.  \<open>Registry\<close>, \<open>RegistryLaws\<close>, \<open>RegistryProps\<close>, \<open>RegistryThms\<close>:
  \<open>core/file-registry.ts\<close>.  \<open>Encoding\<close>: \<open>core/encoding.ts\<close>.  \<open>ContentStore\<close>, \<open>ContentLaws\<close>,
  \<open>ContentPacks\<close>, \<open>ContentProps\<close>, \<open>ContentThms\<close>: \<open>core/content-store.ts\<close>; no corrupt blob is returned,
  what is put is durable, a collection keeps what it is told to.  \<open>DagStore\<close>:
  \<open>network/version-dag-store.ts\<close>.  \<open>Stores\<close>: cursor, clock and vault binding.  \<open>OpLog\<close>,
  \<open>OpLogThms\<close>: the journal of the operation logger with its queue of writes, in a session opened
  over any journal of whole lines (\<open>opened_queue\<close>).  \<open>Logger\<close>, \<open>LoggerLaws\<close>, \<open>LoggerThms\<close>,
  \<open>LoggerIdem\<close>: the handlers and captures of \<open>core/operation-logger.ts\<close> with
  \<open>core/pack-checkpoint.ts\<close>; the crashes of a checkpoint (\<open>checkpoint_states\<close>) are \<open>pc_flush\<close> itself,
  run over the list of states passed through.  \<open>SyncState\<close>: \<open>network/sync-state-store.ts\<close>, with the
  file whose decisions are an array.

  Transfer.  \<open>SyncErrors\<close>: \<open>sync-errors.ts\<close>, \<open>sync-cancellation.ts\<close>, \<open>with-timeout.ts\<close>, and the steps with
  state and error (\<open>act\<close>, \<open>bindE\<close>) in which everything from here on is written.  \<open>Encryption\<close>:
  \<open>network/encryption.ts\<close>.  \<open>ServerApi\<close>: the interface of a server, its contract as the locale
  \<open>sync_server\<close>, and the in-memory server of \<open>network/fake-server.ts\<close>, its interpretation.  \<open>HttpApi\<close>:
  \<open>network/server-http.ts\<close>.  \<open>SyncTransfer\<close>, \<open>SyncTransferThms\<close>, \<open>SyncServer\<close>, \<open>SyncPush\<close>, \<open>SyncProps\<close>: pull,
  push and download of \<open>network/server-sync.ts\<close>; what one device pushes another pulls, in order, and
  the bytes it fetches are those that were staged.

  The round.  \<open>Applicator\<close>, \<open>ApplicatorThms\<close>, \<open>ApplicatorLaws\<close>: \<open>network/sync-applicator.ts\<close> with its
  isolation of failing actions, measured against a run in which each is attempted (\<open>attempts\<close>);
  an edit in the window survives, the device stays sound.
  \<open>SyncHost\<close>: \<open>network/vault-sync-host.ts\<close>; the snapshot of the files, whose entries the code shares
  with the registry, is a value here, and that theory says where the two differ.  \<open>Round\<close>: \<open>runSync\<close>
  and the reconciliation of concurrent heads.  \<open>RoundThms\<close>: a round that fails before the merge
  leaves the vault alone and at most rewinds the cursor.  \<open>RoundLaws\<close>: every round keeps the device
  sound.  \<open>RoundProps\<close>: the push empties the log only when the server holds the operations and their
  contents; the cursor of a whole round.  \<open>Coordinator\<close>, \<open>CoordinatorThms\<close>:
  \<open>network/sync-coordinator.ts\<close>; the outcome is recorded and reported, the collection runs once per
  interval.  \<open>Plugin\<close>, \<open>PluginThms\<close>: the handlers of \<open>main.ts\<close>; a round runs only for the vault the
  local state belongs to, and the ribbon shows how it ended.  \<open>PluginLife\<close>: loading and unloading; a restart resumes the session.

  State and operations.  A class is a record of its fields, a method a function that returns the
  record updated, with a sum or an option where it may throw or return null; classes that share a
  file of the metadata store by reference keep their parts of it apart (the paths differ).  A
  device is the logger's state with the files of the vault; a round adds the client, the graph's
  file and the cursor's file; the coordinator adds the observable state and the plugin the settings.
  Asynchronous methods run to their end; where an interleaving matters (the journal's
  queue, writes of an adapter, crashes, edits between the snapshot and the apply) it is an explicit
  sequence of steps or a difference between two states.

  Recursion and bounds.  Loops over lists are structural; searches of the graph and of texts end by
  a measure.  The pull loop has the fuel \<open>ce_fuel\<close>, because a server may keep it going for ever
  (\<open>pull_never_ends\<close>); fuel for the length of the log is enough (\<open>pull_drains_log\<close>), and without it the
  pull fails with an error of its own, which the theorems about a round include.  The
  reconciliation of heads takes its bound from the code.  Counters and times are natural numbers,
  below the precision of a double.

  Parameters.  SHA-256, WebCrypto, \<open>TextDecoder\<close>, random UUIDs, the wall clock, the modification times of
  files, failures of the vault's calls, \<open>requestUrl\<close> and the answers to dialogs are arguments; what a
  theorem needs of them is a hypothesis (\<open>env_ok\<close>, \<open>aead\<close>, \<open>client_ok\<close>, \<open>deps_total\<close>) that its
  witness discharges for a concrete choice.

  Not modelled.  Views, modals, the settings tab, drawing of ribbon and status bar, the registration of views and
  commands in \<open>onload\<close> and the Obsidian adapters only build interface elements over the state modelled here or call
  an API whose code is not in the repository.  Performance counters, progress labels, console messages, the
  append benchmark and the benchmarks under \<open>src/bench\<close> change no state.  Characters are code units below
  256, and typographic dashes of messages are hyphens.
\<close>

end
